(* ===== verification/Ever_Prelude.thy ===== *)
theory Ever_Prelude
  imports Main "HOL-Library.Word" "HOL-Library.Sublist"
begin

text \<open>
  The prelude of the development: machine integers, Rust's checked arithmetic, big-endian
  byte strings, UTF-8 validation, slices, and the small error monad that every component
  uses. \<open>usize\<close> is \<open>nat\<close> (the program targets 64-bit Linux; the operations the source
  checks for overflow are checked against \<open>2 ^ 64\<close> here), the wire integers keep their
  width as words.
\<close>

section \<open>Types and fact collections\<close>

type_synonym u8 = "8 word"
type_synonym u16 = "16 word"
type_synonym u32 = "32 word"
type_synonym u64 = "64 word"
type_synonym usize = nat
type_synonym bytes = "u8 list"

named_theorems codec_simps \<open>lengths and round trips of byte encodings\<close>
named_theorems step_defs \<open>definitions of the operations of a component\<close>
named_theorems inv_intros \<open>preservation facts of component invariants\<close>

section \<open>Results\<close>

text \<open>Rust's \<open>?\<close> operator on \<open>Result\<close>: the error is passed on, the value continues.\<close>

definition try_bind :: "'e + 'a \<Rightarrow> ('a \<Rightarrow> 'e + 'b) \<Rightarrow> 'e + 'b" where
  "try_bind m f = (case m of Inl e \<Rightarrow> Inl e | Inr x \<Rightarrow> f x)"

lemma try_bind_simps [simp]:
  "try_bind (Inl e) f = Inl e"
  "try_bind (Inr x) f = f x"
  by (simp_all add: try_bind_def)

lemma try_bind_eq_Inr [simp]:
  "try_bind m f = Inr y \<longleftrightarrow> (\<exists>x. m = Inr x \<and> f x = Inr y)"
  by (cases m) auto

lemma try_bind_cong [fundef_cong]:
  "m = m' \<Longrightarrow> (\<And>x. m' = Inr x \<Longrightarrow> f x = f' x) \<Longrightarrow> try_bind m f = try_bind m' f'"
  by (cases m') auto

definition ok_or :: "'e \<Rightarrow> 'a option \<Rightarrow> 'e + 'a" where
  "ok_or e m = (case m of None \<Rightarrow> Inl e | Some x \<Rightarrow> Inr x)"

lemma ok_or_simps [simp]:
  "ok_or e None = Inl e"
  "ok_or e (Some x) = Inr x"
  by (simp_all add: ok_or_def)

lemma ok_or_eq_Inr [simp]: "ok_or e m = Inr x \<longleftrightarrow> m = Some x"
  by (cases m) auto

text \<open>\<open>map_err\<close>.\<close>

definition map_err :: "('e \<Rightarrow> 'f) \<Rightarrow> 'e + 'a \<Rightarrow> 'f + 'a" where
  "map_err f m = (case m of Inl e \<Rightarrow> Inl (f e) | Inr x \<Rightarrow> Inr x)"

lemma map_err_simps [simp]: "map_err f (Inl e) = Inl (f e)" "map_err f (Inr x) = Inr x"
  by (simp_all add: map_err_def)

lemma map_err_eq_Inr [simp]: "map_err f m = Inr x \<longleftrightarrow> m = Inr x"
  by (cases m) auto

section \<open>Checked and saturating arithmetic\<close>

definition checked_add :: "'a::len word \<Rightarrow> 'a word \<Rightarrow> 'a word option" where
  "checked_add a b = (if unat a + unat b < 2 ^ LENGTH('a) then Some (a + b) else None)"

definition checked_add_usize :: "usize \<Rightarrow> usize \<Rightarrow> usize option" where
  "checked_add_usize a b = (if a + b < 2 ^ 64 then Some (a + b) else None)"

definition saturating_add_usize :: "usize \<Rightarrow> usize \<Rightarrow> usize" where
  "saturating_add_usize a b = min (a + b) (2 ^ 64 - 1)"

lemma checked_add_Some:
  "checked_add a b = Some c \<Longrightarrow> unat c = unat a + unat b"
  by (auto simp: checked_add_def unat_word_ariths split: if_splits)

lemma checked_add_eq_Some_iff:
  "checked_add (a :: 'a::len word) b = Some c \<longleftrightarrow> unat c = unat a + unat b"
proof
  assume "unat c = unat a + unat b"
  moreover from this have "unat a + unat b < 2 ^ LENGTH('a)"
    by (metis unsigned_less)
  ultimately show "checked_add a b = Some c"
    by (simp add: checked_add_def word_unat_eq_iff unat_word_ariths)
qed (rule checked_add_Some)

lemma checked_add_None_iff:
  "checked_add (a :: 'a::len word) b = None \<longleftrightarrow> 2 ^ LENGTH('a) \<le> unat a + unat b"
  by (auto simp: checked_add_def)

lemma unat_max_iff_64: "(w :: u64) = - 1 \<longleftrightarrow> unat w = 2 ^ 64 - 1"
  by (simp add: word_unat_eq_iff unsigned_minus_1_eq_mask mask_eq_exp_minus_1)

lemma unat_Suc_64: "(w :: u64) \<noteq> - 1 \<Longrightarrow> unat (w + 1) = Suc (unat w)"
proof -
  assume "w \<noteq> - 1"
  moreover have "unat w < 2 ^ LENGTH(64)" by (rule unsigned_less)
  ultimately have "Suc (unat w) < 2 ^ LENGTH(64)"
    using unat_max_iff_64 [of w] by simp
  then show ?thesis by (simp add: unat_word_ariths)
qed

lemma unat_max_iff_32: "(w :: u32) = - 1 \<longleftrightarrow> unat w = 2 ^ 32 - 1"
  by (simp add: word_unat_eq_iff unsigned_minus_1_eq_mask mask_eq_exp_minus_1)

lemma unat_Suc_32: "(w :: u32) \<noteq> - 1 \<Longrightarrow> unat (w + 1) = Suc (unat w)"
proof -
  assume "w \<noteq> - 1"
  moreover have "unat w < 2 ^ LENGTH(32)" by (rule unsigned_less)
  ultimately have "Suc (unat w) < 2 ^ LENGTH(32)"
    using unat_max_iff_32 [of w] by simp
  then show ?thesis by (simp add: unat_word_ariths)
qed

text \<open>An \<open>Instant\<close> is a number of nanoseconds since a fixed origin. \<open>Instant::checked_add\<close> fails
  when the seconds leave the 63 bits of the platform's clock.\<close>

type_synonym instant = nat
type_synonym duration = nat

definition instant_checked_add :: "instant \<Rightarrow> duration \<Rightarrow> instant option" where
  "instant_checked_add t d = (if t + d < 2 ^ 63 * 10 ^ 9 then Some (t + d) else None)"

section \<open>Slices\<close>

text \<open>\<open>subslice i j xs\<close> is Rust's \<open>xs[i..j]\<close>, used only where the source has checked the bounds;
  \<open>splice_at i ys xs\<close> is \<open>xs[i..i + ys.len()].copy_from_slice(ys)\<close>.\<close>

definition subslice :: "nat \<Rightarrow> nat \<Rightarrow> 'a list \<Rightarrow> 'a list" where
  "subslice i j xs = take (j - i) (drop i xs)"

definition splice_at :: "nat \<Rightarrow> 'a list \<Rightarrow> 'a list \<Rightarrow> 'a list" where
  "splice_at i ys xs = take i xs @ ys @ drop (i + length ys) xs"

lemma length_subslice [simp]: "length (subslice i j xs) = min (j - i) (length xs - i)"
  by (simp add: subslice_def min.commute)

lemma subslice_append [simp]:
  "i \<le> j \<Longrightarrow> j \<le> k \<Longrightarrow> subslice i j xs @ subslice j k xs = subslice i k xs"
proof -
  assume "i \<le> j" "j \<le> k"
  then have "k - i = (j - i) + (k - j)" "drop j xs = drop (j - i) (drop i xs)"
    by simp_all
  then show ?thesis by (simp add: subslice_def take_add)
qed

lemma subslice_append_assoc [simp]:
  "i \<le> j \<Longrightarrow> j \<le> k \<Longrightarrow> subslice i j xs @ subslice j k xs @ ys = subslice i k xs @ ys"
  by (metis append.assoc subslice_append)

lemma subslice_full: "length xs \<le> j \<Longrightarrow> subslice 0 j xs = xs"
  by (simp add: subslice_def)

lemma subslice_empty [simp]: "subslice i i xs = []"
  by (simp add: subslice_def)

lemma subslice_one: "i < length xs \<Longrightarrow> subslice i (Suc i) xs = [xs ! i]"
  by (simp add: subslice_def take_Suc_conv_app_nth hd_drop_conv_nth take_Suc)

lemma nth_subslice: "k < j - i \<Longrightarrow> i + k < length xs \<Longrightarrow> subslice i j xs ! k = xs ! (i + k)"
  by (simp add: subslice_def)

lemma subslice_take: "j \<le> n \<Longrightarrow> subslice i j (take n xs) = subslice i j xs"
  by (simp add: subslice_def drop_take)

lemma drop_subslice: "drop n xs = subslice n (length xs) xs"
  by (simp add: subslice_def)

lemma splice_at_append:
  "i + length ys + length zs \<le> length xs \<Longrightarrow>
   splice_at (i + length ys) zs (splice_at i ys xs) = splice_at i (ys @ zs) xs"
  by (cases ys) (auto simp: splice_at_def min_def ac_simps)

lemma splice_at_all: "length ys = length xs \<Longrightarrow> splice_at 0 ys xs = ys"
  by (simp add: splice_at_def)

lemma length_splice_at [simp]:
  "i + length ys \<le> length xs \<Longrightarrow> length (splice_at i ys xs) = length xs"
  by (simp add: splice_at_def)

lemma nth_splice_at:
  "i + length ys \<le> length xs \<Longrightarrow> k < length xs \<Longrightarrow>
   splice_at i ys xs ! k = (if i \<le> k \<and> k < i + length ys then ys ! (k - i) else xs ! k)"
  by (auto simp: splice_at_def nth_append min_def)

section \<open>Big-endian integers\<close>

primrec to_be :: "nat \<Rightarrow> nat \<Rightarrow> bytes" where
  "to_be 0 v = []"
| "to_be (Suc n) v = of_nat (v div 256 ^ n) # to_be n v"

fun from_be :: "bytes \<Rightarrow> nat" where
  "from_be [] = 0"
| "from_be (b # bs) = unat b * 256 ^ length bs + from_be bs"

lemma length_to_be [simp]: "length (to_be n v) = n"
  by (induction n) auto

lemma to_be_numeral [codec_simps]:
  "to_be (numeral k) v = of_nat (v div 256 ^ pred_numeral k) # to_be (pred_numeral k) v"
  by (simp add: numeral_eq_Suc)

lemma from_be_to_be [simp]: "from_be (to_be n v) = v mod 256 ^ n"
proof (induction n)
  case (Suc n)
  have "v mod 256 ^ Suc n = 256 ^ n * (v div 256 ^ n mod 256) + v mod 256 ^ n"
    by (metis mod_mult2_eq power_Suc2)
  with Suc show ?case
    by (simp add: unat_of_nat mult.commute)
qed simp

lemma from_be_bound: "from_be bs < 256 ^ length bs"
proof (induction bs)
  case (Cons b bs)
  have "unat b < 256"
    using unsigned_less [of b] by simp
  then have "unat b * 256 ^ length bs + 256 ^ length bs \<le> 256 * 256 ^ length bs"
    by (metis Suc_leI add.commute mult_Suc mult_le_mono1)
  with Cons show ?case unfolding from_be.simps length_Cons power_Suc by linarith
qed simp

lemma to_be_mod: "to_be n (v + k * 256 ^ n) = to_be n v"
proof (induction n arbitrary: k)
  case (Suc n)
  have eq: "v + k * 256 ^ Suc n = v + (k * 256) * 256 ^ n" by simp
  have "(v + (k * 256) * 256 ^ n) div 256 ^ n = v div 256 ^ n + k * 256"
    by (subst div_mult_self1) simp_all
  moreover have "(of_nat (v div 256 ^ n + k * 256) :: u8) = of_nat (v div 256 ^ n)"
    unfolding word_unat_eq_iff unat_of_nat by simp
  ultimately show ?case
    unfolding eq to_be.simps Suc by simp
qed simp

lemma to_be_from_be [simp]: "to_be (length bs) (from_be bs) = bs"
proof (induction bs)
  case (Cons b bs)
  have lt: "from_be bs < 256 ^ length bs" by (rule from_be_bound)
  have "to_be (length bs) (unat b * 256 ^ length bs + from_be bs) = bs"
    using Cons to_be_mod [of "length bs" "from_be bs" "unat b"] by (simp add: add.commute)
  moreover have "(unat b * 256 ^ length bs + from_be bs) div 256 ^ length bs = unat b"
    using lt by simp
  ultimately show ?case by simp
qed simp

definition be_bytes :: "'a::len word \<Rightarrow> bytes" where
  "be_bytes w = to_be (LENGTH('a) div 8) (unat w)"

definition be_word :: "bytes \<Rightarrow> 'a::len word" where
  "be_word bs = of_nat (from_be bs)"

lemma length_be_bytes [simp]:
  "length (be_bytes (w :: 'a::len word)) = LENGTH('a) div 8"
  by (simp add: be_bytes_def)

lemma be_word_bytes:
  assumes "8 dvd LENGTH('a::len)"
  shows "be_word (be_bytes (w :: 'a word)) = w"
proof -
  have "(256 :: nat) ^ (LENGTH('a) div 8) = 2 ^ (8 * (LENGTH('a) div 8))"
    by (simp add: power_mult)
  then have "(256 :: nat) ^ (LENGTH('a) div 8) = 2 ^ LENGTH('a)"
    using assms by simp
  moreover have "unat w < 2 ^ LENGTH('a)" by (rule unsigned_less)
  ultimately show ?thesis
    by (simp add: be_word_def be_bytes_def)
qed

lemma be_bytes_word:
  assumes "length bs = LENGTH('a::len) div 8" "8 dvd LENGTH('a)"
  shows "be_bytes (be_word bs :: 'a word) = bs"
proof -
  have "(256 :: nat) ^ length bs = 2 ^ (8 * (LENGTH('a) div 8))"
    using assms(1) by (simp add: power_mult)
  then have "from_be bs < 2 ^ LENGTH('a)"
    using assms(2) from_be_bound [of bs] by simp
  then have "unat (be_word bs :: 'a word) = from_be bs"
    by (simp add: be_word_def unsigned_of_nat take_bit_nat_eq_self)
  then show ?thesis
    using assms(1) to_be_from_be [of bs] by (simp add: be_bytes_def)
qed

lemma be_word_bytes_16 [simp, codec_simps]: "be_word (be_bytes (w :: u16)) = w"
  by (rule be_word_bytes) simp
lemma be_word_bytes_32 [simp, codec_simps]: "be_word (be_bytes (w :: u32)) = w"
  by (rule be_word_bytes) simp
lemma be_word_bytes_64 [simp, codec_simps]: "be_word (be_bytes (w :: u64)) = w"
  by (rule be_word_bytes) simp
lemma be_bytes_word_16 [simp]: "length bs = 2 \<Longrightarrow> be_bytes (be_word bs :: u16) = bs"
  by (rule be_bytes_word) simp_all
lemma be_bytes_word_32 [simp]: "length bs = 4 \<Longrightarrow> be_bytes (be_word bs :: u32) = bs"
  by (rule be_bytes_word) simp_all
lemma be_bytes_word_64 [simp]: "length bs = 8 \<Longrightarrow> be_bytes (be_word bs :: u64) = bs"
  by (rule be_bytes_word) simp_all

lemma unat_be_word_16: "length bs = 2 \<Longrightarrow> unat (be_word bs :: u16) = from_be bs"
  using from_be_bound [of bs] by (simp add: be_word_def unsigned_of_nat take_bit_nat_eq_self)
lemma unat_be_word_32: "length bs = 4 \<Longrightarrow> unat (be_word bs :: u32) = from_be bs"
  using from_be_bound [of bs] by (simp add: be_word_def unsigned_of_nat take_bit_nat_eq_self)

lemma unat_of_nat_16 [simp]: "n < 65536 \<Longrightarrow> unat (of_nat n :: u16) = n"
  by (simp add: unsigned_of_nat take_bit_nat_eq_self)
lemma unat_of_nat_32 [simp]: "n < 4294967296 \<Longrightarrow> unat (of_nat n :: u32) = n"
  by (simp add: unsigned_of_nat take_bit_nat_eq_self)

lemma unat_lt_16: "unat (w :: u16) < 65536"
  using unsigned_less [of w] by simp
lemma unat_lt_32: "unat (w :: u32) < 4294967296"
  using unsigned_less [of w] by simp
lemma unat_lt_64: "unat (w :: u64) < 18446744073709551616"
  using unsigned_less [of w] by simp

section \<open>Text\<close>

text \<open>Rust's \<open>String\<close> is a byte vector that holds valid UTF-8; \<open>utf8_valid\<close> is
  \<open>std::str::from_utf8\<close> as a predicate (the well-formed sequences of the Unicode standard).
  \<open>str_bytes\<close> turns an ASCII literal into its bytes.\<close>

definition str_bytes :: "string \<Rightarrow> bytes" where
  "str_bytes s = map of_char s"

definition utf8_cont :: "u8 \<Rightarrow> bool" where
  "utf8_cont b \<longleftrightarrow> 0x80 \<le> b \<and> b \<le> 0xBF"

definition utf8_second :: "u8 \<Rightarrow> u8 \<Rightarrow> bool" where
  "utf8_second a b \<longleftrightarrow>
     (if a = 0xE0 then 0xA0 \<le> b \<and> b \<le> 0xBF
      else if a = 0xED then 0x80 \<le> b \<and> b \<le> 0x9F
      else if a = 0xF0 then 0x90 \<le> b \<and> b \<le> 0xBF
      else if a = 0xF4 then 0x80 \<le> b \<and> b \<le> 0x8F
      else utf8_cont b)"

fun utf8_valid :: "bytes \<Rightarrow> bool" where
  "utf8_valid [] = True"
| "utf8_valid (a # bs) =
     (if a < 0x80 then utf8_valid bs
      else if 0xC2 \<le> a \<and> a \<le> 0xDF then
        (case bs of b # cs \<Rightarrow> utf8_cont b \<and> utf8_valid cs | _ \<Rightarrow> False)
      else if 0xE0 \<le> a \<and> a \<le> 0xEF then
        (case bs of b # c # ds \<Rightarrow> utf8_second a b \<and> utf8_cont c \<and> utf8_valid ds | _ \<Rightarrow> False)
      else if 0xF0 \<le> a \<and> a \<le> 0xF4 then
        (case bs of b # c # d # es \<Rightarrow>
           utf8_second a b \<and> utf8_cont c \<and> utf8_cont d \<and> utf8_valid es | _ \<Rightarrow> False)
      else False)"

definition is_ascii_digit :: "u8 \<Rightarrow> bool" where
  "is_ascii_digit c \<longleftrightarrow> 0x30 \<le> c \<and> c \<le> 0x39"

definition is_ascii_alphanumeric :: "u8 \<Rightarrow> bool" where
  "is_ascii_alphanumeric c \<longleftrightarrow>
     is_ascii_digit c \<or> (0x41 \<le> c \<and> c \<le> 0x5A) \<or> (0x61 \<le> c \<and> c \<le> 0x7A)"

lemma alphanumeric_ascii: "is_ascii_alphanumeric c \<Longrightarrow> c < 0x80"
  by (auto simp: is_ascii_alphanumeric_def is_ascii_digit_def word_less_nat_alt word_le_nat_alt)

lemma ascii_utf8_valid: "\<forall>c \<in> set s. c < 0x80 \<Longrightarrow> utf8_valid s"
  by (induction s) auto

end
