(* ===== verification/Pty_Lifecycle.thy ===== *)
theory Pty_Lifecycle
  imports Ever_Prelude
begin

text \<open>
  The broker's lifecycle and writer-ownership state machine
  (\<open>crates/everpty/src/lifecycle.rs\<close>): the state \<open>(lifecycle, ownership, terminal)\<close> and the
  six pure transitions, each of which returns the new state or \<open>InvalidTransition\<close>.
\<close>

datatype lifecycle = Starting | WaitingForWriter | Running | Exited | Failed

datatype ownership = NoWriter | Writer u32

datatype terminal_cause =
    ChildExit bool u32
  | KillRequested
  | StartupDeadline
  | InternalError

record broker_state =
  lifecycle :: lifecycle
  ownership :: ownership
  terminal :: "terminal_cause option"

datatype invalid_transition = InvalidTransition string

datatype writer_request_outcome = Granted | Busy u32 | TakeOver u32

definition broker_new :: broker_state where
  "broker_new = \<lparr>lifecycle = Starting, ownership = NoWriter, terminal = None\<rparr>"

definition ready :: "broker_state \<Rightarrow> invalid_transition + broker_state" where
  "ready s =
     (case lifecycle s of
        Starting \<Rightarrow> Inr (s\<lparr>lifecycle := WaitingForWriter\<rparr>)
      | _ \<Rightarrow> Inl (InvalidTransition ''ready() from non-Starting''))"

definition initial_writer :: "broker_state \<Rightarrow> u32 \<Rightarrow> invalid_transition + broker_state" where
  "initial_writer s client_id =
     (case (lifecycle s, ownership s) of
        (WaitingForWriter, NoWriter) \<Rightarrow>
          Inr \<lparr>lifecycle = Running, ownership = Writer client_id, terminal = None\<rparr>
      | _ \<Rightarrow> Inl (InvalidTransition ''initial_writer() requires WaitingForWriter with no writer''))"

definition startup_deadline :: "broker_state \<Rightarrow> invalid_transition + broker_state" where
  "startup_deadline s =
     (case lifecycle s of
        WaitingForWriter \<Rightarrow>
          Inr (s\<lparr>lifecycle := Failed,
                 terminal := (case terminal s of None \<Rightarrow> Some StartupDeadline | t \<Rightarrow> t)\<rparr>)
      | _ \<Rightarrow> Inl (InvalidTransition ''startup_deadline() from non-Waiting''))"

definition writer_request ::
  "broker_state \<Rightarrow> u32 \<Rightarrow> bool \<Rightarrow> invalid_transition + broker_state \<times> writer_request_outcome" where
  "writer_request s client_id take_over =
     (case lifecycle s of
        Running \<Rightarrow>
          (case ownership s of
             NoWriter \<Rightarrow> Inr (s\<lparr>ownership := Writer client_id\<rparr>, Granted)
           | Writer current \<Rightarrow>
               if \<not> take_over then Inr (s, Busy current)
               else Inr (s\<lparr>ownership := Writer client_id\<rparr>, TakeOver current))
      | _ \<Rightarrow> Inl (InvalidTransition ''writer_request() requires Running''))"

definition revoke_writer :: "broker_state \<Rightarrow> invalid_transition + broker_state" where
  "revoke_writer s =
     (case lifecycle s of
        Running \<Rightarrow> Inr (s\<lparr>ownership := NoWriter\<rparr>)
      | _ \<Rightarrow> Inl (InvalidTransition ''revoke_writer() requires Running''))"

definition terminal_exits :: "terminal_cause \<Rightarrow> bool" where
  "terminal_exits cause = (case cause of ChildExit _ _ \<Rightarrow> True | KillRequested \<Rightarrow> True | _ \<Rightarrow> False)"

definition terminate_with ::
  "broker_state \<Rightarrow> terminal_cause \<Rightarrow> bool \<Rightarrow> invalid_transition + broker_state" where
  "terminate_with s cause exited =
     (if terminal s \<noteq> None then Inr s
      else Inr \<lparr>lifecycle = (if exited \<or> terminal_exits cause then Exited else Failed),
                ownership = NoWriter,
                terminal = Some cause\<rparr>)"

lemmas lifecycle_defs = broker_new_def ready_def initial_writer_def startup_deadline_def
  writer_request_def revoke_writer_def terminate_with_def

section \<open>The step relation and its invariant\<close>

text \<open>Any interleaving of the transitions; a rejected transition leaves the state alone, as
  every caller does.\<close>

inductive lifecycle_step :: "broker_state \<Rightarrow> broker_state \<Rightarrow> bool" where
  step_ready: "ready s = Inr t \<Longrightarrow> lifecycle_step s t"
| step_initial: "initial_writer s c = Inr t \<Longrightarrow> lifecycle_step s t"
| step_deadline: "startup_deadline s = Inr t \<Longrightarrow> lifecycle_step s t"
| step_request: "writer_request s c take_over = Inr (t, r) \<Longrightarrow> lifecycle_step s t"
| step_revoke: "revoke_writer s = Inr t \<Longrightarrow> lifecycle_step s t"
| step_terminal: "terminate_with s cause e = Inr t \<Longrightarrow> lifecycle_step s t"

inductive_cases lifecycle_stepE: "lifecycle_step s t"

inductive lifecycle_reachable :: "broker_state \<Rightarrow> bool" where
  reach_new: "lifecycle_reachable broker_new"
| reach_step: "lifecycle_reachable s \<Longrightarrow> lifecycle_step s t \<Longrightarrow> lifecycle_reachable t"

definition final_lifecycle :: "lifecycle \<Rightarrow> bool" where
  "final_lifecycle l \<longleftrightarrow> l = Exited \<or> l = Failed"

text \<open>A cause is recorded exactly in the two final lifecycles, and only a running broker has a
  writer.\<close>

definition lifecycle_inv :: "broker_state \<Rightarrow> bool" where
  "lifecycle_inv s \<longleftrightarrow>
     (terminal s \<noteq> None \<longleftrightarrow> final_lifecycle (lifecycle s)) \<and>
     (ownership s \<noteq> NoWriter \<longrightarrow> lifecycle s = Running)"

lemma lifecycle_inv_new: "lifecycle_inv broker_new"
  by (simp add: lifecycle_inv_def broker_new_def final_lifecycle_def)

lemma ready_inv: "ready s = Inr t \<Longrightarrow> lifecycle_inv s \<Longrightarrow> lifecycle_inv t"
  by (auto simp: ready_def lifecycle_inv_def final_lifecycle_def split: lifecycle.splits)

lemma initial_writer_inv: "initial_writer s c = Inr t \<Longrightarrow> lifecycle_inv t"
  by (auto simp: initial_writer_def lifecycle_inv_def final_lifecycle_def
      split: lifecycle.splits ownership.splits)

lemma startup_deadline_inv: "startup_deadline s = Inr t \<Longrightarrow> lifecycle_inv s \<Longrightarrow> lifecycle_inv t"
  by (auto simp: startup_deadline_def lifecycle_inv_def final_lifecycle_def
      split: lifecycle.splits option.splits)

lemma writer_request_inv: "writer_request s c take_over = Inr (t, r) \<Longrightarrow> lifecycle_inv s \<Longrightarrow> lifecycle_inv t"
  by (auto simp: writer_request_def lifecycle_inv_def final_lifecycle_def
      split: lifecycle.splits ownership.splits if_splits)

lemma revoke_writer_inv: "revoke_writer s = Inr t \<Longrightarrow> lifecycle_inv s \<Longrightarrow> lifecycle_inv t"
  by (auto simp: revoke_writer_def lifecycle_inv_def split: lifecycle.splits)

lemma terminate_with_inv: "terminate_with s cause e = Inr t \<Longrightarrow> lifecycle_inv s \<Longrightarrow> lifecycle_inv t"
  by (auto simp: terminate_with_def lifecycle_inv_def final_lifecycle_def split: if_splits)

lemmas lifecycle_preserves = ready_inv initial_writer_inv startup_deadline_inv
  writer_request_inv revoke_writer_inv terminate_with_inv

lemma lifecycle_step_inv: "lifecycle_step s t \<Longrightarrow> lifecycle_inv s \<Longrightarrow> lifecycle_inv t"
  by (erule lifecycle_stepE) (auto intro: lifecycle_preserves)

lemma lifecycle_reachable_inv: "lifecycle_reachable s \<Longrightarrow> lifecycle_inv s"
  by (induction rule: lifecycle_reachable.induct) (auto intro: lifecycle_inv_new lifecycle_step_inv)

text \<open>A recorded cause freezes the state: no transition changes any component of it.\<close>

lemma lifecycle_step_frozen:
  assumes "lifecycle_step s t" "lifecycle_inv s" "terminal s \<noteq> None"
  shows "t = s"
  using assms by (auto elim!: lifecycle_stepE simp: lifecycle_defs lifecycle_inv_def
      final_lifecycle_def split: lifecycle.splits ownership.splits if_splits)

lemma lifecycle_steps_frozen:
  assumes "lifecycle_step\<^sup>*\<^sup>* s t" "lifecycle_inv s" "terminal s \<noteq> None"
  shows "t = s"
  using assms by (induction rule: rtranclp_induct) (auto dest: lifecycle_step_frozen)

text \<open>First cause wins. From the moment a reachable broker has recorded a terminal cause,
  no sequence of transitions changes its lifecycle, its ownership or the cause.\<close>

theorem first_terminal_cause_wins:
  assumes "lifecycle_reachable s" "terminal s = Some cause" "lifecycle_step\<^sup>*\<^sup>* s t"
  shows "t = s"
  using lifecycle_steps_frozen [OF assms(3) lifecycle_reachable_inv [OF assms(1)]] assms(2) by simp

definition exited_example :: broker_state where
  "exited_example = \<lparr>lifecycle = Exited, ownership = NoWriter, terminal = Some KillRequested\<rparr>"

lemma exited_example_reachable: "lifecycle_reachable exited_example"
  by (rule reach_step [OF reach_new], rule step_terminal [where cause = KillRequested and e = True])
    (simp add: terminate_with_def broker_new_def exited_example_def)

theorem first_terminal_cause_wins_witness:
  "projr (terminate_with exited_example InternalError False) = exited_example"
proof -
  let ?t = "projr (terminate_with exited_example InternalError False)"
  have "lifecycle_step exited_example ?t"
    by (rule step_terminal [where cause = InternalError and e = False])
      (simp add: terminate_with_def exited_example_def)
  then have "lifecycle_step\<^sup>*\<^sup>* exited_example ?t" ..
  then show ?thesis
    using first_terminal_cause_wins [OF exited_example_reachable, of KillRequested ?t]
    by (simp add: exited_example_def)
qed

end
