(* ===== verification/Interfaces.thy ===== *)
theory Interfaces
  imports Ever_Prelude "HOL-Library.Multiset"
begin

text \<open>
  The interfaces between the components, as locales: byte codecs, length-delimited framings,
  bounded byte queues, event-driven machines, and the sender and receiver halves of a
  replayed link. The lemmas of a client are proved once here, over the laws alone; the
  theories of the components interpret the locales on their own operations.
\<close>

section \<open>Codecs\<close>

text \<open>A codec of whole byte strings: decoding inverts encoding on the acceptable values, and
  nothing but the encoding of an acceptable value decodes.\<close>

locale exact_codec =
  fixes enc :: "'f \<Rightarrow> bytes"
    and dec :: "bytes \<Rightarrow> 'e + 'f"
    and ok :: "'f \<Rightarrow> bool"
  assumes dec_enc: "ok f \<Longrightarrow> dec (enc f) = Inr f"
    and dec_sound: "dec bs = Inr f \<Longrightarrow> ok f \<and> bs = enc f"
begin

lemma dec_iff: "dec bs = Inr f \<longleftrightarrow> ok f \<and> bs = enc f"
  using dec_enc dec_sound by blast

lemma enc_inj: "ok f \<Longrightarrow> ok g \<Longrightarrow> enc f = enc g \<Longrightarrow> f = g"
  using dec_enc by (metis sum.inject(2))

lemma dec_inj: "dec bs = Inr f \<Longrightarrow> dec cs = Inr f \<Longrightarrow> bs = cs"
  using dec_sound by metis

end

text \<open>A framing decodes one value from the front of a byte stream and reports its length.\<close>

locale framing =
  fixes enc :: "'f \<Rightarrow> bytes"
    and pdec :: "bytes \<Rightarrow> 'e + 'f \<times> nat"
    and ok :: "'f \<Rightarrow> bool"
  assumes pdec_enc: "ok f \<Longrightarrow> pdec (enc f @ rest) = Inr (f, length (enc f))"
    and pdec_sound: "pdec bs = Inr (f, n) \<Longrightarrow> ok f \<and> n = length (enc f) \<and> take n bs = enc f"
    and enc_nonempty: "ok f \<Longrightarrow> enc f \<noteq> []"
begin

lemma pdec_iff:
  "pdec bs = Inr (f, n) \<longleftrightarrow> ok f \<and> n = length (enc f) \<and> (\<exists>rest. bs = enc f @ rest)"
proof
  assume "pdec bs = Inr (f, n)"
  from pdec_sound [OF this] show "ok f \<and> n = length (enc f) \<and> (\<exists>rest. bs = enc f @ rest)"
    by (metis append_take_drop_id)
qed (auto simp: pdec_enc)

lemma prefix_free:
  assumes "ok f" "ok g" "enc f @ r = enc g @ s"
  shows "f = g \<and> r = s"
proof -
  have "Inr (f, length (enc f)) = Inr (g, length (enc g))"
    using pdec_enc [OF assms(1), of r] pdec_enc [OF assms(2), of s] assms(3) by simp
  with assms(3) show ?thesis by simp
qed

lemma stream_unique:
  assumes "list_all ok fs" "list_all ok gs" "concat (map enc fs) = concat (map enc gs)"
  shows "fs = gs"
  using assms
proof (induction fs arbitrary: gs)
  case Nil
  then show ?case by (cases gs) (auto dest: enc_nonempty)
next
  case (Cons f fs)
  then obtain g gs' where gs: "gs = g # gs'"
    by (cases gs) (auto dest: enc_nonempty)
  with Cons.prems have "f = g \<and> concat (map enc fs) = concat (map enc gs')"
    by (intro prefix_free) auto
  with Cons gs show ?case by auto
qed

end

text \<open>Using a framing on a whole byte string: leftover bytes are an error.\<close>

definition whole_decode :: "(bytes \<Rightarrow> 'e + 'f \<times> nat) \<Rightarrow> bytes \<Rightarrow> 'e option + 'f" where
  "whole_decode pdec bs =
     (case pdec bs of
        Inl e \<Rightarrow> Inl (Some e)
      | Inr (f, n) \<Rightarrow> if n = length bs then Inr f else Inl None)"

sublocale framing \<subseteq> whole: exact_codec enc "whole_decode pdec" ok
proof
  fix f assume "ok f"
  then show "whole_decode pdec (enc f) = Inr f"
    using pdec_enc [of f "[]"] by (simp add: whole_decode_def)
next
  fix bs f assume "whole_decode pdec bs = Inr f"
  then have "pdec bs = Inr (f, length bs)"
    by (auto simp: whole_decode_def split: sum.splits prod.splits if_splits)
  then show "ok f \<and> bs = enc f"
    using pdec_sound by fastforce
qed

section \<open>Bounded byte queues drained through an injected writer\<close>

text \<open>A writer is a state-passing function from the offered bytes to the number it took or an
  error. \<open>logged w\<close> is the writer \<open>w\<close> together with the bytes it really took: a result larger
  than the offer takes nothing, as the drain loops reject it.\<close>

datatype io_error =
    Io_WouldBlock | Io_InvalidData | Io_WriteZero | Io_InvalidInput | Io_UnexpectedEof | Io_TimedOut
  | Io_Other nat

type_synonym 'w writer = "'w \<Rightarrow> bytes \<Rightarrow> 'w \<times> (io_error + usize)"

definition logged :: "'w writer \<Rightarrow> ('w \<times> bytes) writer" where
  "logged w = (\<lambda>(st, log) s.
     let (st', res) = w st s in
     ((st', log @ (case res of Inl e \<Rightarrow> [] | Inr n \<Rightarrow> if n \<le> length s then take n s else [])), res))"

datatype 'w queue_op = Queue_Push bytes | Queue_Drain "'w writer" | Queue_Clear

text \<open>A history of operations. The bookkeeping is the bytes the writers took, the bytes that
  were accepted, and the bytes dropped by \<open>clear\<close>, all since the last \<open>clear\<close>.\<close>

fun queue_run ::
  "('q \<Rightarrow> bytes \<Rightarrow> 'q \<times> bool) \<Rightarrow>
   (('w \<times> bytes) writer \<Rightarrow> 'q \<Rightarrow> 'w \<times> bytes \<Rightarrow> 'q \<times> ('w \<times> bytes) \<times> (io_error + bool)) \<Rightarrow>
   ('q \<Rightarrow> 'q) \<Rightarrow> 'w queue_op list \<Rightarrow> 'q \<times> 'w \<times> bytes \<times> bytes \<Rightarrow> 'q \<times> 'w \<times> bytes \<times> bytes" where
  "queue_run push drain clear [] x = x"
| "queue_run push drain clear (Queue_Push b # ops) (q, st, written, accepted) =
     (case push q b of (q', ok) \<Rightarrow>
        queue_run push drain clear ops
          (q', st, written, if ok then accepted @ b else accepted))"
| "queue_run push drain clear (Queue_Drain w # ops) (q, st, written, accepted) =
     (case drain (logged w) q (st, written) of (q', (st', written'), res) \<Rightarrow>
        queue_run push drain clear ops (q', st', written', accepted))"
| "queue_run push drain clear (Queue_Clear # ops) (q, st, written, accepted) =
     queue_run push drain clear ops (clear q, st, [], [])"

locale byte_queue =
  fixes content :: "'q \<Rightarrow> bytes"
    and live :: "'q \<Rightarrow> usize"
    and cap :: "'q \<Rightarrow> usize"
    and inv :: "'q \<Rightarrow> bool"
    and push :: "'q \<Rightarrow> bytes \<Rightarrow> 'q \<times> bool"
    and drain :: "('w \<times> bytes) writer \<Rightarrow> 'q \<Rightarrow> 'w \<times> bytes \<Rightarrow> 'q \<times> ('w \<times> bytes) \<times> (io_error + bool)"
    and clear :: "'q \<Rightarrow> 'q"
  assumes inv_live: "inv q \<Longrightarrow> live q = length (content q) \<and> live q \<le> cap q"
    and push_inv: "inv q \<Longrightarrow> inv (fst (push q b))"
    and push_content: "inv q \<Longrightarrow>
      content (fst (push q b)) = (if snd (push q b) then content q @ b else content q)"
    and push_accepts: "inv q \<Longrightarrow>
      snd (push q b) \<longleftrightarrow> b = [] \<or> length (content q) + length b \<le> cap q"
    and push_cap: "cap (fst (push q b)) = cap q"
    and drain_law: "inv q \<Longrightarrow> drain (logged w) q (st, log) = (q', (st', log'), res) \<Longrightarrow>
      inv q' \<and> cap q' = cap q \<and> log' @ content q' = log @ content q \<and>
      (res = Inr True \<longrightarrow> content q' = [])"
    and clear_law: "inv q \<Longrightarrow> inv (clear q) \<and> content (clear q) = [] \<and> cap (clear q) = cap q"
begin

lemma run_fifo:
  assumes "inv q" "written @ content q = accepted"
    and "queue_run push drain clear ops (q, st, written, accepted) = (q', st', written', accepted')"
  shows "inv q' \<and> cap q' = cap q \<and> written' @ content q' = accepted'"
  using assms
proof (induction ops arbitrary: q st written accepted)
  case Nil
  then show ?case by simp
next
  case (Cons op ops)
  show ?case
  proof (cases op)
    case (Queue_Push b)
    obtain p ok where p: "push q b = (p, ok)" by force
    have "inv p" "content p = (if ok then content q @ b else content q)" "cap p = cap q"
      using push_inv [OF Cons.prems(1), of b] push_content [OF Cons.prems(1), of b]
        push_cap [of q b] p by simp_all
    then show ?thesis
      using Cons.IH [of p] Cons.prems Queue_Push p by (auto split: if_splits)
  next
    case (Queue_Drain w)
    obtain p st1 written1 res where p: "drain (logged w) q (st, written) = (p, (st1, written1), res)"
      by (metis prod_cases3 surj_pair)
    from drain_law [OF Cons.prems(1) p] show ?thesis
      using Cons.IH [of p written1 accepted] Cons.prems Queue_Drain p by auto
  next
    case Queue_Clear
    then show ?thesis
      using Cons.IH [of "clear q" "[]" "[]"] Cons.prems clear_law [OF Cons.prems(1)] by auto
  qed
qed

lemma run_bounded:
  assumes "inv q" "written @ content q = accepted"
    and "queue_run push drain clear ops (q, st, written, accepted) = (q', st', written', accepted')"
  shows "live q' \<le> cap q \<and> length accepted' \<le> length written' + cap q"
proof -
  from run_fifo [OF assms] have "inv q'" "cap q' = cap q" "written' @ content q' = accepted'"
    by simp_all
  with inv_live [of q'] show ?thesis by auto
qed

end

section \<open>Event machines\<close>

text \<open>A component that consumes events one at a time, each answered by a list of outputs.\<close>

fun run_events :: "('s \<Rightarrow> 'e \<Rightarrow> 's \<times> 'o list) \<Rightarrow> 's \<Rightarrow> 'e list \<Rightarrow> 's \<times> 'o list" where
  "run_events step s [] = (s, [])"
| "run_events step s (e # es) =
     (case step s e of (s1, out1) \<Rightarrow>
        case run_events step s1 es of (s2, out2) \<Rightarrow> (s2, out1 @ out2))"

lemma run_events_append:
  "fst (run_events step s (es @ fs)) = fst (run_events step (fst (run_events step s es)) fs)"
  by (induction es arbitrary: s) (auto simp: split_beta)

locale event_machine =
  fixes step :: "'s \<Rightarrow> 'e \<Rightarrow> 's \<times> 'o list"
    and inv :: "'s \<Rightarrow> bool"
  assumes step_inv: "inv s \<Longrightarrow> inv (fst (step s e))"
begin

lemma run_inv: "inv s \<Longrightarrow> inv (fst (run_events step s es))"
  by (induction es arbitrary: s) (auto simp: split_beta step_inv)

lemma run_latch:
  assumes "\<And>s e. inv s \<Longrightarrow> P s \<Longrightarrow> P (fst (step s e))"
  shows "inv s \<Longrightarrow> P s \<Longrightarrow> P (fst (run_events step s es))"
  by (induction es arbitrary: s) (auto simp: split_beta step_inv assms)

text \<open>Outputs of a kind the machine can only afford a bounded number of times.\<close>

lemma run_budget:
  assumes "\<And>s e. inv s \<Longrightarrow> length (filter Q (snd (step s e))) + budget (fst (step s e)) \<le> (budget s :: nat)"
  shows "inv s \<Longrightarrow> length (filter Q (snd (run_events step s es))) + budget (fst (run_events step s es)) \<le> budget s"
proof (induction es arbitrary: s)
  case (Cons e es)
  have "length (filter Q (snd (run_events step (fst (step s e)) es)))
      + budget (fst (run_events step (fst (step s e)) es)) \<le> budget (fst (step s e))"
    using Cons by (simp add: step_inv)
  with assms [OF Cons.prems, of e] show ?case by (simp add: split_beta)
qed simp

text \<open>Every output of the run satisfies what every output of a step in an invariant state does.\<close>

lemma run_outputs:
  assumes "\<And>s e. inv s \<Longrightarrow> list_all Q (snd (step s e))"
  shows "inv s \<Longrightarrow> list_all Q (snd (run_events step s es))"
  by (induction es arbitrary: s) (auto simp: split_beta step_inv assms)

text \<open>What the machine spends comes out of what it has in stock or has gained.\<close>

lemma run_account:
  assumes "\<And>s e. inv s \<Longrightarrow> spent (snd (step s e)) + stock (fst (step s e)) \<subseteq># stock s + gained (snd (step s e))"
    and add: "\<And>xs ys. spent (xs @ ys) = spent xs + (spent ys :: 'k multiset)" "spent [] = {#}"
      "\<And>xs ys. gained (xs @ ys) = gained xs + gained ys" "gained [] = {#}"
  shows "inv s \<Longrightarrow> spent (snd (run_events step s es)) + stock (fst (run_events step s es))
     \<subseteq># stock s + gained (snd (run_events step s es))"
proof (induction es arbitrary: s)
  case (Cons e es)
  let ?s = "fst (step s e)"
  have "spent (snd (run_events step ?s es)) + stock (fst (run_events step ?s es))
      \<subseteq># stock ?s + gained (snd (run_events step ?s es))"
    using Cons by (simp add: step_inv)
  then have "spent (snd (step s e)) + (spent (snd (run_events step ?s es)) + stock (fst (run_events step ?s es)))
      \<subseteq># spent (snd (step s e)) + (stock ?s + gained (snd (run_events step ?s es)))"
    by (rule subset_mset.add_left_mono)
  also have "\<dots> \<subseteq># stock s + gained (snd (step s e)) + gained (snd (run_events step ?s es))"
    using assms(1) [OF Cons.prems, of e] by (metis add.assoc subset_mset.add_right_mono)
  finally show ?case by (simp add: split_beta add ac_simps)
qed (simp add: add)

text \<open>Numbers handed out by the machine: each step hands out numbers from the interval between
  its counter before and after, so no number is handed out twice.\<close>

lemma run_fresh:
  assumes "\<And>s e. inv s \<Longrightarrow> counter s \<le> (counter (fst (step s e)) :: nat) \<and>
      sorted_wrt (<) (pick (snd (step s e))) \<and>
      set (pick (snd (step s e))) \<subseteq> {counter s ..< counter (fst (step s e))}"
    and pick: "\<And>xs ys. pick (xs @ ys) = pick xs @ pick ys" "pick [] = []"
  shows "inv s \<Longrightarrow> counter s \<le> counter (fst (run_events step s es)) \<and>
      sorted_wrt (<) (pick (snd (run_events step s es))) \<and>
      set (pick (snd (run_events step s es))) \<subseteq> {counter s ..< counter (fst (run_events step s es))}"
proof (induction es arbitrary: s)
  case (Cons e es)
  have "inv (fst (step s e))" using Cons.prems by (rule step_inv)
  from Cons.IH [OF this] assms(1) [OF Cons.prems, of e] show ?case
    by (fastforce simp: split_beta pick sorted_wrt_append)
qed (simp add: pick)

end

text \<open>A machine that answers every event like its specification, on related states.\<close>

locale simulation =
  fixes step :: "'s \<Rightarrow> 'e \<Rightarrow> 's \<times> 'o list"
    and spec :: "'a \<Rightarrow> 'e \<Rightarrow> 'a \<times> 'o list"
    and rel :: "'s \<Rightarrow> 'a \<Rightarrow> bool"
  assumes step_sim: "rel s a \<Longrightarrow> rel (fst (step s e)) (fst (spec a e)) \<and> snd (step s e) = snd (spec a e)"
begin

lemma run_sim:
  "rel s a \<Longrightarrow> rel (fst (run_events step s es)) (fst (run_events spec a es)) \<and>
   snd (run_events step s es) = snd (run_events spec a es)"
proof (induction es arbitrary: s a)
  case (Cons e es)
  with step_sim [OF Cons.prems, of e] show ?case
    using Cons.IH [of "fst (step s e)" "fst (spec a e)"] by (simp add: split_beta)
qed simp

end

section \<open>Replayed links\<close>

text \<open>A sender keeps every item until it is acknowledged, a receiver delivers the next number
  only, and between them a network may lose, duplicate, delay and reorder frames and
  acknowledgements; the receiver may report its position at any time. \<open>l_net\<close> is what may still arrive, \<open>l_acks\<close> are the acknowledgements ever
  sent; \<open>l_sent\<close> and \<open>l_dlv\<close> record what the sender accepted and the receiver delivered.\<close>

record ('s, 'r, 'f, 'p) link =
  l_sender :: 's
  l_receiver :: 'r
  l_sent :: "'p list"
  l_dlv :: "'p list"
  l_net :: "'f set"
  l_acks :: "nat set"

definition link_init :: "'s \<Rightarrow> 'r \<Rightarrow> ('s, 'r, 'f, 'p) link" where
  "link_init s r = \<lparr>l_sender = s, l_receiver = r, l_sent = [], l_dlv = [], l_net = {}, l_acks = {}\<rparr>"

inductive link_step ::
  "('s \<Rightarrow> 'p \<Rightarrow> 's option) \<Rightarrow> ('s \<Rightarrow> nat \<Rightarrow> 's option) \<Rightarrow> ('s \<Rightarrow> 'f list) \<Rightarrow>
   ('r \<Rightarrow> 'f \<Rightarrow> 'r \<times> 'p option) \<Rightarrow> ('r \<Rightarrow> nat) \<Rightarrow> ('p \<Rightarrow> bool) \<Rightarrow> ('p \<Rightarrow> bool) \<Rightarrow>
   ('s, 'r, 'f, 'p) link \<Rightarrow> ('s, 'r, 'f, 'p) link \<Rightarrow> bool"
  for push ack pending accept delivered ok final where
  link_push: "ok p \<Longrightarrow> list_all (\<lambda>x. \<not> final x) (l_sent k) \<Longrightarrow> push (l_sender k) p = Some s' \<Longrightarrow>
     link_step push ack pending accept delivered ok final k
       (k\<lparr>l_sender := s', l_sent := l_sent k @ [p]\<rparr>)"
| link_transmit: "f \<in> set (pending (l_sender k)) \<Longrightarrow>
     link_step push ack pending accept delivered ok final k (k\<lparr>l_net := insert f (l_net k)\<rparr>)"
| link_receive: "f \<in> l_net k \<Longrightarrow> accept (l_receiver k) f = (r', out) \<Longrightarrow>
     link_step push ack pending accept delivered ok final k
       (k\<lparr>l_receiver := r', l_dlv := l_dlv k @ (case out of Some p \<Rightarrow> [p] | None \<Rightarrow> []),
          l_acks := insert (delivered r') (l_acks k)\<rparr>)"
| link_lose: "link_step push ack pending accept delivered ok final k (k\<lparr>l_net := l_net k - lost\<rparr>)"
| link_report: "link_step push ack pending accept delivered ok final k
       (k\<lparr>l_acks := insert (delivered (l_receiver k)) (l_acks k)\<rparr>)"
| link_ack: "n \<in> l_acks k \<Longrightarrow> ack (l_sender k) n = Some s' \<Longrightarrow>
     link_step push ack pending accept delivered ok final k (k\<lparr>l_sender := s'\<rparr>)"

locale reliable_link =
  fixes push :: "'s \<Rightarrow> 'p \<Rightarrow> 's option"
    and ack :: "'s \<Rightarrow> nat \<Rightarrow> 's option"
    and pending :: "'s \<Rightarrow> 'f list"
    and accept :: "'r \<Rightarrow> 'f \<Rightarrow> 'r \<times> 'p option"
    and delivered :: "'r \<Rightarrow> nat"
    and ok :: "'p \<Rightarrow> bool"
    and final :: "'p \<Rightarrow> bool"
    and s_inv :: "'s \<Rightarrow> bool"
    and acked :: "'s \<Rightarrow> nat"
    and r_inv :: "bool \<Rightarrow> 'r \<Rightarrow> bool"
    and fseq :: "'f \<Rightarrow> nat"
    and fpay :: "'f \<Rightarrow> 'p"
    and fok :: "'f \<Rightarrow> bool"
  assumes pending_seq: "s_inv s \<Longrightarrow> map fseq (pending s) = [Suc (acked s) ..< Suc (acked s + length (pending s))]"
    and pending_ok: "s_inv s \<Longrightarrow> list_all fok (pending s)"
    and push_law: "s_inv s \<Longrightarrow> ok p \<Longrightarrow> push s p = Some s' \<Longrightarrow>
      s_inv s' \<and> acked s' = acked s \<and> map fpay (pending s') = map fpay (pending s) @ [p]"
    and ack_law: "s_inv s \<Longrightarrow> acked s \<le> n \<Longrightarrow> n \<le> acked s + length (pending s) \<Longrightarrow>
      \<exists>s'. ack s n = Some s' \<and> s_inv s' \<and> acked s' = n \<and> pending s' = drop (n - acked s) (pending s)"
    and ack_stale: "s_inv s \<Longrightarrow> n < acked s \<Longrightarrow> ack s n = Some s' \<Longrightarrow> s' = s"
    and accept_old: "r_inv closed r \<Longrightarrow> fseq f \<le> delivered r \<Longrightarrow> accept r f = (r, None)"
    and accept_next: "r_inv False r \<Longrightarrow> fseq f = Suc (delivered r) \<Longrightarrow> fok f \<Longrightarrow> ok (fpay f) \<Longrightarrow>
      \<exists>r'. accept r f = (r', Some (fpay f)) \<and> delivered r' = fseq f \<and> r_inv (final (fpay f)) r'"
    and accept_ahead: "r_inv False r \<Longrightarrow> Suc (delivered r) < fseq f \<Longrightarrow> accept r f = (r, None)"
begin

definition closed :: "'p list \<Rightarrow> bool" where
  "closed xs \<longleftrightarrow> \<not> list_all (\<lambda>x. \<not> final x) xs"

definition link_inv :: "('s, 'r, 'f, 'p) link \<Rightarrow> bool" where
  "link_inv k \<longleftrightarrow>
     s_inv (l_sender k) \<and> acked (l_sender k) \<le> delivered (l_receiver k) \<and>
     delivered (l_receiver k) \<le> length (l_sent k) \<and>
     map fpay (pending (l_sender k)) = drop (acked (l_sender k)) (l_sent k) \<and>
     take (delivered (l_receiver k)) (l_sent k) = l_dlv k \<and>
     (\<forall>f \<in> l_net k. fok f \<and> 0 < fseq f \<and> fseq f \<le> length (l_sent k) \<and> fpay f = l_sent k ! (fseq f - 1)) \<and>
     (\<forall>n \<in> l_acks k. n \<le> delivered (l_receiver k)) \<and>
     list_all ok (l_sent k) \<and> \<not> closed (butlast (l_sent k)) \<and>
     r_inv (closed (l_dlv k)) (l_receiver k)"

lemma closed_simps [simp]:
  "closed [] \<longleftrightarrow> False"
  "closed (xs @ ys) \<longleftrightarrow> closed xs \<or> closed ys"
  "closed [x] \<longleftrightarrow> final x"
  by (auto simp: closed_def)

lemma closed_take: "\<not> closed xs \<Longrightarrow> \<not> closed (take n xs)"
  by (metis append_take_drop_id closed_simps(2))

lemma link_init_inv:
  assumes "s_inv s" "acked s = 0" "pending s = []" "r_inv False r" "delivered r = 0"
  shows "link_inv (link_init s r)"
  using assms by (simp add: link_inv_def link_init_def)

lemma pending_length:
  assumes "link_inv k"
  shows "length (pending (l_sender k)) = length (l_sent k) - acked (l_sender k)"
proof -
  have "map fpay (pending (l_sender k)) = drop (acked (l_sender k)) (l_sent k)"
    using assms by (simp add: link_inv_def)
  from arg_cong [OF this, of length] show ?thesis by simp
qed

lemma acked_le: "link_inv k \<Longrightarrow> acked (l_sender k) \<le> length (l_sent k)"
  by (simp add: link_inv_def)

lemma pending_nth:
  assumes inv: "link_inv k" and i: "acked (l_sender k) + i < length (l_sent k)"
  shows "i < length (pending (l_sender k)) \<and>
    fseq (pending (l_sender k) ! i) = Suc (acked (l_sender k) + i) \<and>
    fpay (pending (l_sender k) ! i) = l_sent k ! (acked (l_sender k) + i)"
proof -
  let ?ps = "pending (l_sender k)"
  have len: "i < length ?ps" using i pending_length [OF inv] by simp
  have s: "s_inv (l_sender k)" "map fpay ?ps = drop (acked (l_sender k)) (l_sent k)"
    using inv by (simp_all add: link_inv_def)
  have "fseq (?ps ! i) = map fseq ?ps ! i" "fpay (?ps ! i) = map fpay ?ps ! i"
    using len by simp_all
  then show ?thesis
    unfolding pending_seq [OF s(1)] s(2) using len acked_le [OF inv] by (simp del: upt_Suc)
qed

lemma pending_frame:
  assumes inv: "link_inv k" and f: "f \<in> set (pending (l_sender k))"
  shows "fok f \<and> 0 < fseq f \<and> fseq f \<le> length (l_sent k) \<and> fpay f = l_sent k ! (fseq f - 1)"
proof -
  have "fok f" using inv f pending_ok by (auto simp: link_inv_def list_all_iff)
  moreover obtain i where i: "i < length (pending (l_sender k))" "f = pending (l_sender k) ! i"
    using f by (metis in_set_conv_nth)
  then have "acked (l_sender k) + i < length (l_sent k)"
    using pending_length [OF inv] by simp
  from pending_nth [OF inv this] i this
  have "0 < fseq f \<and> fseq f \<le> length (l_sent k) \<and> fpay f = l_sent k ! (fseq f - 1)" by simp
  ultimately show ?thesis by simp
qed

text \<open>What a receiver does with any frame of the network.\<close>

lemma receive_cases:
  assumes inv: "link_inv k" and fok: "fok f" and f: "0 < fseq f" "fseq f \<le> length (l_sent k)" "fpay f = l_sent k ! (fseq f - 1)"
  obtains (Skip) "accept (l_receiver k) f = (l_receiver k, None)" "fseq f \<noteq> Suc (delivered (l_receiver k))"
  | (Take) r' where "accept (l_receiver k) f = (r', Some (fpay f))" "delivered r' = fseq f"
      "fseq f = Suc (delivered (l_receiver k))" "r_inv (final (fpay f)) r'" "\<not> closed (l_dlv k)"
proof (cases "fseq f \<le> delivered (l_receiver k)")
  case True
  have "r_inv (closed (l_dlv k)) (l_receiver k)" using inv by (simp add: link_inv_def)
  from accept_old [OF this True] True show thesis by (intro Skip) auto
next
  case False
  have "take (delivered (l_receiver k)) (butlast (l_sent k)) = l_dlv k"
    using inv False f(2) by (simp add: link_inv_def take_butlast)
  then have open_r: "\<not> closed (l_dlv k)"
    using inv closed_take by (metis link_inv_def)
  then have r: "r_inv False (l_receiver k)" using inv by (simp add: link_inv_def)
  show thesis
  proof (cases "fseq f = Suc (delivered (l_receiver k))")
    case True
    have "ok (fpay f)"
      using inv f by (auto simp: link_inv_def list_all_iff)
    from accept_next [OF r True fok this] Take True open_r show thesis by metis
  next
    case ahead: False
    with accept_ahead [OF r] False show thesis by (intro Skip) auto
  qed
qed

lemma receive_inv:
  assumes inv: "link_inv k" and fok: "fok f" and f: "0 < fseq f" "fseq f \<le> length (l_sent k)" "fpay f = l_sent k ! (fseq f - 1)"
    and acc: "accept (l_receiver k) f = (r', out)"
  shows "link_inv (k\<lparr>l_receiver := r', l_dlv := l_dlv k @ (case out of Some p \<Rightarrow> [p] | None \<Rightarrow> []),
    l_acks := insert (delivered r') (l_acks k)\<rparr>)"
proof (cases rule: receive_cases [OF inv fok f])
  case 1
  then have eqs: "r' = l_receiver k" "out = None" using acc by simp_all
  from inv show ?thesis unfolding eqs by (simp add: link_inv_def)
next
  case (2 r'')
  have eqs: "r' = r''" "out = Some (fpay f)" using 2(1) acc by simp_all
  have "take (fseq f) (l_sent k) = l_dlv k @ [fpay f]"
    using inv 2(3) f by (simp add: link_inv_def take_Suc_conv_app_nth)
  with inv 2(2-5) f(2) show ?thesis
    unfolding eqs by (auto simp: link_inv_def)
qed

lemma push_step_inv:
  assumes inv: "link_inv k" and p: "ok p" "list_all (\<lambda>x. \<not> final x) (l_sent k)" "push (l_sender k) p = Some s'"
  shows "link_inv (k\<lparr>l_sender := s', l_sent := l_sent k @ [p]\<rparr>)"
proof -
  have "s_inv (l_sender k)" using inv by (simp add: link_inv_def)
  from push_law [OF this p(1,3)]
  have s: "s_inv s'" "acked s' = acked (l_sender k)"
      "map fpay (pending s') = map fpay (pending (l_sender k)) @ [p]" by simp_all
  have "l_sent k ! (fseq f - 1) = (l_sent k @ [p]) ! (fseq f - 1)"
    if "0 < fseq f" "fseq f \<le> length (l_sent k)" for f
    using that by (subst nth_append) auto
  moreover have "\<not> closed (l_sent k)" using p(2) by (simp add: closed_def)
  ultimately show ?thesis
    using inv s p(1) by (simp add: link_inv_def le_SucI)
qed

lemma ack_step_inv:
  assumes inv: "link_inv k" and n: "n \<in> l_acks k" and a: "ack (l_sender k) n = Some s'"
  shows "link_inv (k\<lparr>l_sender := s'\<rparr>)"
proof (cases "n < acked (l_sender k)")
  case True
  have "s' = l_sender k"
    using ack_stale [OF _ True a] inv by (simp add: link_inv_def)
  with inv show ?thesis by simp
next
  case False
  have n': "n \<le> delivered (l_receiver k)" "s_inv (l_sender k)" using inv n by (simp_all add: link_inv_def)
  moreover have "n \<le> acked (l_sender k) + length (pending (l_sender k))"
    using inv n' pending_length [OF inv] acked_le [OF inv] by (simp add: link_inv_def)
  ultimately have s: "s_inv s'" "acked s' = n" "pending s' = drop (n - acked (l_sender k)) (pending (l_sender k))"
    using ack_law [of "l_sender k" n] False a by auto
  then have "map fpay (pending s') = drop n (l_sent k)"
    using inv False by (simp add: link_inv_def drop_map [symmetric])
  with s n' inv show ?thesis by (simp add: link_inv_def)
qed

lemma link_step_inv:
  assumes "link_step push ack pending accept delivered ok final k k'" "link_inv k"
  shows "link_inv k'"
  using assms
proof (induction rule: link_step.induct)
  case (link_transmit f k)
  with pending_frame [of k f] show ?case by (simp add: link_inv_def)
next
  case (link_receive f k r' out)
  then have "fok f" "0 < fseq f" "fseq f \<le> length (l_sent k)" "fpay f = l_sent k ! (fseq f - 1)"
    by (simp_all add: link_inv_def)
  with link_receive show ?case by (intro receive_inv)
next
  case (link_lose k lost)
  then show ?case by (simp add: link_inv_def)
next
  case (link_report k)
  then show ?case by (simp add: link_inv_def)
qed (simp_all add: push_step_inv ack_step_inv)

lemma link_run_inv:
  "(link_step push ack pending accept delivered ok final)\<^sup>*\<^sup>* k k' \<Longrightarrow> link_inv k \<Longrightarrow> link_inv k'"
  by (induction rule: rtranclp_induct) (auto intro: link_step_inv)

text \<open>Exactly once and in order: whatever the network does, what was delivered is a prefix of
  what was accepted.\<close>

lemma link_safe:
  "(link_step push ack pending accept delivered ok final)\<^sup>*\<^sup>* k k' \<Longrightarrow> link_inv k \<Longrightarrow>
   l_dlv k' = take (delivered (l_receiver k')) (l_sent k')"
  by (drule (1) link_run_inv) (simp add: link_inv_def)

text \<open>Retransmitting what is pending, in order, catches the receiver up; its last
  acknowledgement then empties the sender.\<close>

lemma link_deliver_one:
  assumes inv: "link_inv k" and lt: "delivered (l_receiver k) < length (l_sent k)"
  shows "\<exists>k'. (link_step push ack pending accept delivered ok final)\<^sup>*\<^sup>* k k' \<and>
    l_sent k' = l_sent k \<and> delivered (l_receiver k') = Suc (delivered (l_receiver k)) \<and>
    delivered (l_receiver k') \<in> l_acks k'"
proof -
  let ?i = "delivered (l_receiver k) - acked (l_sender k)"
  have le: "acked (l_sender k) \<le> delivered (l_receiver k)" using inv by (simp add: link_inv_def)
  define f where "f = pending (l_sender k) ! ?i"
  have f: "f \<in> set (pending (l_sender k))" "fseq f = Suc (delivered (l_receiver k))"
    using pending_nth [OF inv, of ?i] le lt by (simp_all add: f_def)
  define k1 where "k1 = k\<lparr>l_net := insert f (l_net k)\<rparr>"
  have step1: "link_step push ack pending accept delivered ok final k k1"
    unfolding k1_def by (rule link_transmit [where pending = pending and k = k]) (rule f(1))
  have inv1: "link_inv k1" using link_step_inv [OF step1 inv] .
  have k1: "l_receiver k1 = l_receiver k" "l_sent k1 = l_sent k" "f \<in> l_net k1"
    by (simp_all add: k1_def)
  have pf: "fok f" "0 < fseq f" "fseq f \<le> length (l_sent k1)" "fpay f = l_sent k1 ! (fseq f - 1)"
    using pending_frame [OF inv f(1)] by (simp_all add: k1)
  obtain r' out where acc: "accept (l_receiver k1) f = (r', out)" by force
  define k2 where "k2 = k1\<lparr>l_receiver := r', l_dlv := l_dlv k1 @ (case out of Some p \<Rightarrow> [p] | None \<Rightarrow> []),
          l_acks := insert (delivered r') (l_acks k1)\<rparr>"
  have step2: "link_step push ack pending accept delivered ok final k1 k2"
    unfolding k2_def by (rule link_receive [where accept = accept and k = k1]) (rule k1(3), rule acc)
  have "delivered r' = Suc (delivered (l_receiver k))"
    by (rule receive_cases [OF inv1 pf]) (use acc f(2) k1(1) in simp_all)
  moreover have "(link_step push ack pending accept delivered ok final)\<^sup>*\<^sup>* k k2"
    using step1 step2 by (metis converse_rtranclp_into_rtranclp rtranclp.rtrancl_refl)
  ultimately show ?thesis
    by (intro exI [of _ k2]) (simp add: k2_def k1)
qed

lemma link_deliver_all:
  assumes "link_inv k" "delivered (l_receiver k) < length (l_sent k)"
  shows "\<exists>k'. (link_step push ack pending accept delivered ok final)\<^sup>*\<^sup>* k k' \<and>
    l_sent k' = l_sent k \<and> delivered (l_receiver k') = length (l_sent k) \<and>
    delivered (l_receiver k') \<in> l_acks k'"
  using assms
proof (induction "length (l_sent k) - delivered (l_receiver k)" arbitrary: k rule: less_induct)
  case less
  obtain k1 where k1: "(link_step push ack pending accept delivered ok final)\<^sup>*\<^sup>* k k1"
    "l_sent k1 = l_sent k" "delivered (l_receiver k1) = Suc (delivered (l_receiver k))"
    "delivered (l_receiver k1) \<in> l_acks k1"
    using link_deliver_one [OF less.prems] by blast
  show ?case
  proof (cases "delivered (l_receiver k1) < length (l_sent k1)")
    case True
    have "length (l_sent k1) - delivered (l_receiver k1) < length (l_sent k) - delivered (l_receiver k)"
      using k1(2,3) less.prems(2) by simp
    from less.hyps [OF this link_run_inv [OF k1(1) less.prems(1)] True] k1 show ?thesis
      by (metis rtranclp_trans)
  next
    case False
    with k1 less.prems(2) show ?thesis by (intro exI [of _ k1]) auto
  qed
qed

text \<open>When everything was delivered but the acknowledgement was lost, sending the last pending frame again
  brings another one.\<close>

lemma link_repeat_ack:
  assumes inv: "link_inv k" and all: "delivered (l_receiver k) = length (l_sent k)" and p: "pending (l_sender k) \<noteq> []"
  shows "\<exists>k'. (link_step push ack pending accept delivered ok final)\<^sup>*\<^sup>* k k' \<and>
    l_sent k' = l_sent k \<and> delivered (l_receiver k') = length (l_sent k) \<and>
    delivered (l_receiver k') \<in> l_acks k'"
proof -
  define f where "f = last (pending (l_sender k))"
  have f: "f \<in> set (pending (l_sender k))" using p by (simp add: f_def)
  note pf = pending_frame [OF inv f]
  define k1 where "k1 = k\<lparr>l_net := insert f (l_net k)\<rparr>"
  have step1: "link_step push ack pending accept delivered ok final k k1"
    unfolding k1_def by (rule link_transmit [where pending = pending and k = k]) (rule f)
  have inv1: "link_inv k1" using link_step_inv [OF step1 inv] .
  have acc: "accept (l_receiver k1) f = (l_receiver k1, None)"
    by (rule receive_cases [OF inv1, of f]) (use pf all in \<open>simp_all add: k1_def\<close>)
  define k2 where "k2 = k1\<lparr>l_receiver := l_receiver k1, l_dlv := l_dlv k1 @ (case None of Some p \<Rightarrow> [p] | None \<Rightarrow> []),
          l_acks := insert (delivered (l_receiver k1)) (l_acks k1)\<rparr>"
  have step2: "link_step push ack pending accept delivered ok final k1 k2"
    unfolding k2_def by (rule link_receive [where accept = accept and k = k1 and f = f]) (simp_all add: acc, simp add: k1_def)
  have "(link_step push ack pending accept delivered ok final)\<^sup>*\<^sup>* k k2"
    using step1 step2 by (metis converse_rtranclp_into_rtranclp rtranclp.rtrancl_refl)
  then show ?thesis using all by (intro exI [of _ k2]) (simp add: k2_def k1_def)
qed

lemma link_delivered_le: "link_inv k \<Longrightarrow> delivered (l_receiver k) \<le> length (l_sent k)"
  by (simp add: link_inv_def)

lemma link_live:
  assumes inv: "link_inv k"
  shows "\<exists>k'. (link_step push ack pending accept delivered ok final)\<^sup>*\<^sup>* k k' \<and>
    l_sent k' = l_sent k \<and> l_dlv k' = l_sent k \<and> pending (l_sender k') = []"
proof -
  show ?thesis
  proof (cases "delivered (l_receiver k) = length (l_sent k) \<and> pending (l_sender k) = []")
    case True
    with inv have "l_dlv k = l_sent k" by (simp add: link_inv_def)
    with True show ?thesis by blast
  next
    case False
    with link_delivered_le [OF inv] have "delivered (l_receiver k) < length (l_sent k) \<or>
        delivered (l_receiver k) = length (l_sent k) \<and> pending (l_sender k) \<noteq> []" by auto
    then obtain k1 where k1: "(link_step push ack pending accept delivered ok final)\<^sup>*\<^sup>* k k1"
      "l_sent k1 = l_sent k" "delivered (l_receiver k1) = length (l_sent k)"
      "delivered (l_receiver k1) \<in> l_acks k1"
      using link_deliver_all [OF inv] link_repeat_ack [OF inv] by blast
    note inv1 = link_run_inv [OF k1(1) inv]
    have full: "length (l_sent k) = acked (l_sender k1) + length (pending (l_sender k1))"
      using pending_length [OF inv1] acked_le [OF inv1] k1(2) by simp
    have s1: "s_inv (l_sender k1)" using inv1 by (simp add: link_inv_def)
    obtain s' where s': "ack (l_sender k1) (length (l_sent k)) = Some s'"
        "pending s' = drop (length (l_sent k) - acked (l_sender k1)) (pending (l_sender k1))"
      using ack_law [OF s1, of "length (l_sent k)"] full by auto
    define k2 where "k2 = k1\<lparr>l_sender := s'\<rparr>"
    have "link_step push ack pending accept delivered ok final k1 k2"
      unfolding k2_def using k1(3,4) s'(1) by (intro link_ack) auto
    with k1(1) have "(link_step push ack pending accept delivered ok final)\<^sup>*\<^sup>* k k2"
      by (rule rtranclp.rtrancl_into_rtrancl)
    moreover have "l_dlv k1 = l_sent k" using inv1 k1(2,3) by (simp add: link_inv_def)
    ultimately show ?thesis
      using k1(2) s'(2) full by (intro exI [of _ k2]) (simp add: k2_def)
  qed
qed

end

end
