(* ===== verification/Pty_Frame.thy ===== *)
theory Pty_Frame
  imports Interfaces
begin

text \<open>
  The local frame codec of everpty (\<open>crates/everpty/src/frame.rs\<close>) and its limits
  (\<open>limits.rs\<close>). A frame is \<open>u32 body length | u8 version | u8 kind | payload\<close>, big endian;
  \<open>encode_frame\<close> and \<open>decode_frame\<close> follow \<open>Frame::encode_into\<close> and \<open>Frame::decode\<close> arm by
  arm. The main facts are the two codec laws, collected in the interpretation \<open>frames\<close> of
  the framing interface.
\<close>

section \<open>Limits\<close>

record pty_limits =
  frame_max_body :: usize
  name_max :: usize
  error_text_max :: usize
  unix_path_max :: usize
  startup_deadline_ms :: u64
  kill_grace_ms :: u64
  writer_queue_bytes :: usize
  observer_queue_bytes :: usize
  observer_count :: usize
  aggregate_queue_bytes :: usize
  max_connections :: usize
  writer_input_queue_bytes :: usize
  incomplete_frame_deadline_ms :: u64
  accepts_per_iteration :: usize
  read_chunk_bytes :: usize
  stall_deadline_ms :: u64
  pty_exit_drain_ms :: u64
  control_reply_deadline_ms :: u64
  list_probe_deadline_ms :: u64
  metadata_max_bytes :: usize
  exec_label_max_bytes :: usize
  origin_label_max_bytes :: usize
  origin_count_max :: usize

definition default_pty_limits :: pty_limits where
  "default_pty_limits = \<lparr>
     frame_max_body = 64 * 1024,
     name_max = 64,
     error_text_max = 256,
     unix_path_max = 107,
     startup_deadline_ms = 10000,
     kill_grace_ms = 5000,
     writer_queue_bytes = 256 * 1024,
     observer_queue_bytes = 64 * 1024,
     observer_count = 8,
     aggregate_queue_bytes = 1024 * 1024,
     max_connections = 16,
     writer_input_queue_bytes = 64 * 1024,
     incomplete_frame_deadline_ms = 5000,
     accepts_per_iteration = 8,
     read_chunk_bytes = 16 * 1024,
     stall_deadline_ms = 20000,
     pty_exit_drain_ms = 5000,
     control_reply_deadline_ms = 5000,
     list_probe_deadline_ms = 500,
     metadata_max_bytes = 4096,
     exec_label_max_bytes = 256,
     origin_label_max_bytes = 64,
     origin_count_max = 4\<rparr>"

section \<open>Frames\<close>

definition PROTOCOL_VERSION :: u8 where "PROTOCOL_VERSION = 1"
definition HEADER_LEN :: usize where "HEADER_LEN = 6"

datatype kind =
    Kind_Hello | Kind_HelloAck | Kind_Busy | Kind_Input | Kind_Output | Kind_Resize
  | Kind_Ownership | Kind_DetachWriter | Kind_Kill | Kind_Ping | Kind_Pong | Kind_Exit
  | Kind_Error | Kind_Signal | Kind_GatewayHello | Kind_Lease

fun kind_byte :: "kind \<Rightarrow> u8" where
  "kind_byte Kind_Hello = 1"
| "kind_byte Kind_HelloAck = 2"
| "kind_byte Kind_Busy = 3"
| "kind_byte Kind_Input = 4"
| "kind_byte Kind_Output = 5"
| "kind_byte Kind_Resize = 6"
| "kind_byte Kind_Ownership = 7"
| "kind_byte Kind_DetachWriter = 8"
| "kind_byte Kind_Kill = 9"
| "kind_byte Kind_Ping = 10"
| "kind_byte Kind_Pong = 11"
| "kind_byte Kind_Exit = 12"
| "kind_byte Kind_Error = 13"
| "kind_byte Kind_Signal = 14"
| "kind_byte Kind_GatewayHello = 15"
| "kind_byte Kind_Lease = 16"

definition kind_from_u8 :: "u8 \<Rightarrow> kind option" where
  "kind_from_u8 v =
     (if v = 1 then Some Kind_Hello
      else if v = 2 then Some Kind_HelloAck
      else if v = 3 then Some Kind_Busy
      else if v = 4 then Some Kind_Input
      else if v = 5 then Some Kind_Output
      else if v = 6 then Some Kind_Resize
      else if v = 7 then Some Kind_Ownership
      else if v = 8 then Some Kind_DetachWriter
      else if v = 9 then Some Kind_Kill
      else if v = 10 then Some Kind_Ping
      else if v = 11 then Some Kind_Pong
      else if v = 12 then Some Kind_Exit
      else if v = 13 then Some Kind_Error
      else if v = 14 then Some Kind_Signal
      else if v = 15 then Some Kind_GatewayHello
      else if v = 16 then Some Kind_Lease
      else None)"

datatype role = Role_Writer | Role_Observer

datatype attach_status = WriterGranted | ObserverAccepted

datatype ownership_event = Ownership_Granted | Ownership_Revoked

datatype lease_action =
    Lease_Grant | Lease_Commit | Lease_Committed | Lease_Release | Lease_Released
  | Lease_Revoke | Lease_Unavailable | Lease_Barrier | Lease_BarrierAck

fun role_byte :: "role \<Rightarrow> u8" where
  "role_byte Role_Writer = 1"
| "role_byte Role_Observer = 2"

fun attach_status_byte :: "attach_status \<Rightarrow> u8" where
  "attach_status_byte WriterGranted = 1"
| "attach_status_byte ObserverAccepted = 2"

fun ownership_event_byte :: "ownership_event \<Rightarrow> u8" where
  "ownership_event_byte Ownership_Granted = 1"
| "ownership_event_byte Ownership_Revoked = 2"

fun lease_action_byte :: "lease_action \<Rightarrow> u8" where
  "lease_action_byte Lease_Grant = 1"
| "lease_action_byte Lease_Commit = 2"
| "lease_action_byte Lease_Committed = 3"
| "lease_action_byte Lease_Release = 4"
| "lease_action_byte Lease_Released = 5"
| "lease_action_byte Lease_Revoke = 6"
| "lease_action_byte Lease_Unavailable = 7"
| "lease_action_byte Lease_Barrier = 8"
| "lease_action_byte Lease_BarrierAck = 9"

definition lease_action_from_u8 :: "u8 \<Rightarrow> lease_action option" where
  "lease_action_from_u8 v =
     (if v = 1 then Some Lease_Grant
      else if v = 2 then Some Lease_Commit
      else if v = 3 then Some Lease_Committed
      else if v = 4 then Some Lease_Release
      else if v = 5 then Some Lease_Released
      else if v = 6 then Some Lease_Revoke
      else if v = 7 then Some Lease_Unavailable
      else if v = 8 then Some Lease_Barrier
      else if v = 9 then Some Lease_BarrierAck
      else None)"

definition bool_byte :: "bool \<Rightarrow> u8" where
  "bool_byte b = (if b then 1 else 0)"

text \<open>\<open>String\<close> fields are their UTF-8 bytes, \<open>[u8; 16]\<close> generations are byte lists (of length
  16 in every frame the decoder returns, see \<open>frame_ok\<close> below).\<close>

datatype frame =
    Frame_Hello role bool bytes u16 u16
  | Frame_GatewayHello bool bytes u16 u16 bytes u32 u64
  | Frame_HelloAck u32 u8 attach_status
  | Frame_Busy u32
  | Frame_Input bytes
  | Frame_Output bytes
  | Frame_Resize u16 u16
  | Frame_Signal u8
  | Frame_Lease lease_action bytes u64
  | Frame_Ownership ownership_event
  | Frame_DetachWriter
  | Frame_Kill
  | Frame_Ping
  | Frame_Pong
  | Frame_Exit bool u32
  | Frame_Error u16 bytes

datatype frame_error =
    BodyTooLarge u32 usize
  | UnsupportedVersion u8
  | UnknownKind u8
  | Truncated
  | Malformed string
  | NameInvalid
  | TextNotUtf8

definition validate_name :: "bytes \<Rightarrow> pty_limits \<Rightarrow> bool" where
  "validate_name b limits =
     (if b = [] \<or> length b > name_max limits then False
      else if \<not> is_ascii_alphanumeric (b ! 0) then False
      else list_all (\<lambda>c. is_ascii_alphanumeric c \<or> c = 0x2E \<or> c = 0x5F \<or> c = 0x2D) b)"

fun frame_kind :: "frame \<Rightarrow> kind" where
  "frame_kind (Frame_Hello _ _ _ _ _) = Kind_Hello"
| "frame_kind (Frame_GatewayHello _ _ _ _ _ _ _) = Kind_GatewayHello"
| "frame_kind (Frame_HelloAck _ _ _) = Kind_HelloAck"
| "frame_kind (Frame_Busy _) = Kind_Busy"
| "frame_kind (Frame_Input _) = Kind_Input"
| "frame_kind (Frame_Output _) = Kind_Output"
| "frame_kind (Frame_Resize _ _) = Kind_Resize"
| "frame_kind (Frame_Signal _) = Kind_Signal"
| "frame_kind (Frame_Lease _ _ _) = Kind_Lease"
| "frame_kind (Frame_Ownership _) = Kind_Ownership"
| "frame_kind Frame_DetachWriter = Kind_DetachWriter"
| "frame_kind Frame_Kill = Kind_Kill"
| "frame_kind Frame_Ping = Kind_Ping"
| "frame_kind Frame_Pong = Kind_Pong"
| "frame_kind (Frame_Exit _ _) = Kind_Exit"
| "frame_kind (Frame_Error _ _) = Kind_Error"

text \<open>The payload part of \<open>encode_into\<close>. The length fields are \<open>len() as u16\<close>, so they wrap.\<close>

fun frame_payload :: "frame \<Rightarrow> bytes" where
  "frame_payload (Frame_Hello role take_over name rows cols) =
     [role_byte role, bool_byte take_over] @ be_bytes (of_nat (length name) :: u16) @ name
     @ be_bytes rows @ be_bytes cols"
| "frame_payload (Frame_GatewayHello take_over name rows cols generation pid start_ticks) =
     [bool_byte take_over] @ be_bytes (of_nat (length name) :: u16) @ name
     @ be_bytes rows @ be_bytes cols @ generation @ be_bytes pid @ be_bytes start_ticks"
| "frame_payload (Frame_HelloAck client_id version status) =
     be_bytes client_id @ [version, attach_status_byte status]"
| "frame_payload (Frame_Busy current_writer_id) = be_bytes current_writer_id"
| "frame_payload (Frame_Input b) = b"
| "frame_payload (Frame_Output b) = b"
| "frame_payload (Frame_Resize rows cols) = be_bytes rows @ be_bytes cols"
| "frame_payload (Frame_Signal signal) = [signal]"
| "frame_payload (Frame_Lease action generation lease_id) =
     [lease_action_byte action] @ generation @ be_bytes lease_id"
| "frame_payload (Frame_Ownership e) = [ownership_event_byte e]"
| "frame_payload Frame_DetachWriter = []"
| "frame_payload Frame_Kill = []"
| "frame_payload Frame_Ping = []"
| "frame_payload Frame_Pong = []"
| "frame_payload (Frame_Exit signal value) = [bool_byte signal] @ be_bytes value"
| "frame_payload (Frame_Error code text) =
     be_bytes code @ be_bytes (of_nat (length text) :: u16) @ text"

definition encode_into :: "frame \<Rightarrow> bytes \<Rightarrow> bytes" where
  "encode_into f out =
     out @ be_bytes (of_nat (length (frame_payload f) + 2) :: u32)
     @ [PROTOCOL_VERSION, kind_byte (frame_kind f)] @ frame_payload f"

definition encode_frame :: "frame \<Rightarrow> bytes" where
  "encode_frame f = encode_into f []"

definition validate_header :: "bytes \<Rightarrow> pty_limits \<Rightarrow> frame_error + usize" where
  "validate_header header limits =
     (if length header < HEADER_LEN then Inl Truncated
      else
        let body = unat (be_word (subslice 0 4 header) :: u32) in
        if header ! 4 \<noteq> PROTOCOL_VERSION then Inl (UnsupportedVersion (header ! 4))
        else if kind_from_u8 (header ! 5) = None then Inl (UnknownKind (header ! 5))
        else if body < 2 \<or> body > frame_max_body limits then
          Inl (BodyTooLarge (of_nat body) (frame_max_body limits))
        else Inr (HEADER_LEN + body - 2))"

definition signal_is_allowed :: "u8 \<Rightarrow> bool" where
  "signal_is_allowed signal \<longleftrightarrow> signal \<in> {1, 2, 3, 15, 18, 20}"

section \<open>Decoding, one definition per arm of the match on the kind\<close>

definition decode_bool :: "u8 \<Rightarrow> string \<Rightarrow> frame_error + bool" where
  "decode_bool b msg = (if b = 0 then Inr False else if b = 1 then Inr True else Inl (Malformed msg))"

definition decode_role :: "u8 \<Rightarrow> frame_error + role" where
  "decode_role b =
     (if b = 1 then Inr Role_Writer else if b = 2 then Inr Role_Observer
      else Inl (Malformed ''bad role''))"

definition decode_hello :: "bytes \<Rightarrow> pty_limits \<Rightarrow> frame_error + frame" where
  "decode_hello body limits =
     (if length body < 8 then Inl (Malformed ''hello too short'')
      else try_bind (decode_role (body ! 0)) (\<lambda>role.
        try_bind (decode_bool (body ! 1) ''bad take_over'') (\<lambda>take_over.
        let name_len = unat (be_word (subslice 2 4 body) :: u16) in
        if 4 + name_len + 4 > length body then Inl Truncated
        else if 4 + name_len + 4 < length body then Inl (Malformed ''hello trailing bytes'')
        else
          let name = subslice 4 (4 + name_len) body in
          if \<not> utf8_valid name then Inl TextNotUtf8
          else if \<not> validate_name name limits then Inl NameInvalid
          else Inr (Frame_Hello role take_over name
                      (be_word (subslice (4 + name_len) (6 + name_len) body))
                      (be_word (subslice (6 + name_len) (8 + name_len) body))))))"

definition decode_gateway_hello :: "bytes \<Rightarrow> pty_limits \<Rightarrow> frame_error + frame" where
  "decode_gateway_hello body limits =
     (if length body < 35 then Inl (Malformed ''gateway hello too short'')
      else try_bind (decode_bool (body ! 0) ''bad gateway take_over'') (\<lambda>take_over.
        let name_len = unat (be_word (subslice 1 3 body) :: u16) in
        try_bind (ok_or (Malformed ''gateway hello length'') (checked_add_usize 35 name_len))
          (\<lambda>expected.
        if length body \<noteq> expected then Inl (Malformed ''gateway hello length'')
        else
          let name_end = 3 + name_len; name = subslice 3 name_end body in
          if \<not> utf8_valid name then Inl TextNotUtf8
          else if \<not> validate_name name limits then Inl NameInvalid
          else
            let rows = be_word (subslice name_end (name_end + 2) body);
                cols = be_word (subslice (name_end + 2) (name_end + 4) body);
                generation_start = name_end + 4;
                generation = subslice generation_start (generation_start + 16) body;
                pid_start = generation_start + 16;
                pid = be_word (subslice pid_start (pid_start + 4) body);
                ticks_start = pid_start + 4;
                start_ticks = be_word (subslice ticks_start (ticks_start + 8) body)
            in if generation = replicate 16 0 \<or> pid = 0 \<or> start_ticks = 0
               then Inl (Malformed ''invalid gateway identity'')
               else Inr (Frame_GatewayHello take_over name rows cols generation pid start_ticks))))"

definition decode_hello_ack :: "bytes \<Rightarrow> frame_error + frame" where
  "decode_hello_ack body =
     (if length body \<noteq> 6 then Inl (Malformed ''helloack length'')
      else if body ! 5 = 1 then
        Inr (Frame_HelloAck (be_word (subslice 0 4 body)) (body ! 4) WriterGranted)
      else if body ! 5 = 2 then
        Inr (Frame_HelloAck (be_word (subslice 0 4 body)) (body ! 4) ObserverAccepted)
      else Inl (Malformed ''bad status''))"

definition decode_busy :: "bytes \<Rightarrow> frame_error + frame" where
  "decode_busy body =
     (if length body \<noteq> 4 then Inl (Malformed ''busy length'')
      else Inr (Frame_Busy (be_word (subslice 0 4 body))))"

definition decode_resize :: "bytes \<Rightarrow> frame_error + frame" where
  "decode_resize body =
     (if length body \<noteq> 4 then Inl (Malformed ''resize length'')
      else Inr (Frame_Resize (be_word (subslice 0 2 body)) (be_word (subslice 2 4 body))))"

definition decode_signal :: "bytes \<Rightarrow> frame_error + frame" where
  "decode_signal body =
     (if length body \<noteq> 1 \<or> \<not> signal_is_allowed (body ! 0)
      then Inl (Malformed ''invalid process-group signal'')
      else Inr (Frame_Signal (body ! 0)))"

definition lease_id_valid :: "lease_action \<Rightarrow> u64 \<Rightarrow> bool" where
  "lease_id_valid action lease_id =
     (case action of Lease_Unavailable \<Rightarrow> lease_id = 0 | _ \<Rightarrow> lease_id \<noteq> 0)"

definition decode_lease :: "bytes \<Rightarrow> frame_error + frame" where
  "decode_lease body =
     (if length body \<noteq> 25 then Inl (Malformed ''lease length'')
      else try_bind (ok_or (Malformed ''lease action'') (lease_action_from_u8 (body ! 0)))
        (\<lambda>action.
        let generation = subslice 1 17 body; lease_id = be_word (subslice 17 25 body) in
        if generation = replicate 16 0 \<or> \<not> lease_id_valid action lease_id
        then Inl (Malformed ''invalid lease identity'')
        else Inr (Frame_Lease action generation lease_id)))"

definition decode_ownership :: "bytes \<Rightarrow> frame_error + frame" where
  "decode_ownership body =
     (if length body \<noteq> 1 then Inl (Malformed ''ownership length'')
      else if body ! 0 = 1 then Inr (Frame_Ownership Ownership_Granted)
      else if body ! 0 = 2 then Inr (Frame_Ownership Ownership_Revoked)
      else Inl (Malformed ''bad ownership event''))"

definition decode_empty :: "bytes \<Rightarrow> frame \<Rightarrow> frame_error + frame" where
  "decode_empty body f = (if body = [] then Inr f else Inl (Malformed ''payload must be empty''))"

definition decode_exit :: "bytes \<Rightarrow> frame_error + frame" where
  "decode_exit body =
     (if length body \<noteq> 5 then Inl (Malformed ''exit length'')
      else try_bind (decode_bool (body ! 0) ''bad exit signal'') (\<lambda>signal.
        Inr (Frame_Exit signal (be_word (subslice 1 5 body)))))"

definition decode_error :: "bytes \<Rightarrow> pty_limits \<Rightarrow> frame_error + frame" where
  "decode_error body limits =
     (if length body < 4 then Inl (Malformed ''error too short'')
      else
        let code = be_word (subslice 0 2 body);
            len = unat (be_word (subslice 2 4 body) :: u16) in
        if 4 + len \<noteq> length body \<or> len > error_text_max limits
        then Inl (Malformed ''error text length'')
        else
          let text = drop 4 body in
          if \<not> utf8_valid text then Inl TextNotUtf8 else Inr (Frame_Error code text))"

definition decode_body :: "kind \<Rightarrow> bytes \<Rightarrow> pty_limits \<Rightarrow> frame_error + frame" where
  "decode_body kind body limits =
     (case kind of
        Kind_Hello \<Rightarrow> decode_hello body limits
      | Kind_GatewayHello \<Rightarrow> decode_gateway_hello body limits
      | Kind_HelloAck \<Rightarrow> decode_hello_ack body
      | Kind_Busy \<Rightarrow> decode_busy body
      | Kind_Input \<Rightarrow> Inr (Frame_Input body)
      | Kind_Output \<Rightarrow> Inr (Frame_Output body)
      | Kind_Resize \<Rightarrow> decode_resize body
      | Kind_Signal \<Rightarrow> decode_signal body
      | Kind_Lease \<Rightarrow> decode_lease body
      | Kind_Ownership \<Rightarrow> decode_ownership body
      | Kind_DetachWriter \<Rightarrow> decode_empty body Frame_DetachWriter
      | Kind_Kill \<Rightarrow> decode_empty body Frame_Kill
      | Kind_Ping \<Rightarrow> decode_empty body Frame_Ping
      | Kind_Pong \<Rightarrow> decode_empty body Frame_Pong
      | Kind_Exit \<Rightarrow> decode_exit body
      | Kind_Error \<Rightarrow> decode_error body limits)"

text \<open>\<open>Kind::from_u8(buf[5]).expect(..)\<close> cannot panic: \<open>validate_header\<close> has checked the byte;
  the model returns \<open>UnknownKind\<close> there, which \<open>validate_header_Inr\<close> shows unreachable.\<close>

definition decode_frame :: "bytes \<Rightarrow> pty_limits \<Rightarrow> frame_error + frame \<times> usize" where
  "decode_frame buf limits =
     try_bind (validate_header buf limits) (\<lambda>total.
       if length buf < total then Inl Truncated
       else
         let body = subslice HEADER_LEN total buf in
         try_bind (ok_or (UnknownKind (buf ! 5)) (kind_from_u8 (buf ! 5))) (\<lambda>kind.
         try_bind (decode_body kind body limits) (\<lambda>f. Inr (f, total))))"

section \<open>Well-formed frames\<close>

text \<open>What the decoder demands of the fields of a frame, and the bound on the encoded body.\<close>

fun fields_ok :: "pty_limits \<Rightarrow> frame \<Rightarrow> bool" where
  "fields_ok limits (Frame_Hello role take_over name rows cols) \<longleftrightarrow>
     validate_name name limits \<and> length name < 2 ^ 16"
| "fields_ok limits (Frame_GatewayHello take_over name rows cols generation pid start_ticks) \<longleftrightarrow>
     validate_name name limits \<and> length name < 2 ^ 16 \<and> length generation = 16 \<and>
     generation \<noteq> replicate 16 0 \<and> pid \<noteq> 0 \<and> start_ticks \<noteq> 0"
| "fields_ok limits (Frame_Signal signal) \<longleftrightarrow> signal_is_allowed signal"
| "fields_ok limits (Frame_Lease action generation lease_id) \<longleftrightarrow>
     length generation = 16 \<and> generation \<noteq> replicate 16 0 \<and> lease_id_valid action lease_id"
| "fields_ok limits (Frame_Error code text) \<longleftrightarrow>
     utf8_valid text \<and> length text < 2 ^ 16 \<and> length text \<le> error_text_max limits"
| "fields_ok limits f \<longleftrightarrow> True"

definition frame_ok :: "pty_limits \<Rightarrow> frame \<Rightarrow> bool" where
  "frame_ok limits f \<longleftrightarrow>
     fields_ok limits f \<and> length (frame_payload f) + 2 \<le> frame_max_body limits \<and>
     length (frame_payload f) + 2 < 2 ^ 32"

section \<open>Correctness of the codec\<close>

lemma kind_from_u8_byte [simp]: "kind_from_u8 (kind_byte k) = Some k"
  by (cases k) (simp_all add: kind_from_u8_def)

lemma kind_from_u8_Some: "kind_from_u8 v = Some k \<Longrightarrow> kind_byte k = v"
  by (auto simp: kind_from_u8_def split: if_splits)

lemma lease_action_from_u8_byte [simp]: "lease_action_from_u8 (lease_action_byte a) = Some a"
  by (cases a) (simp_all add: lease_action_from_u8_def)

lemma lease_action_from_u8_Some: "lease_action_from_u8 v = Some a \<Longrightarrow> lease_action_byte a = v"
  by (auto simp: lease_action_from_u8_def split: if_splits)

lemma decode_bool_byte [simp]: "decode_bool (bool_byte b) msg = Inr b"
  by (simp add: decode_bool_def bool_byte_def)

lemma decode_bool_Inr [simp]: "decode_bool v msg = Inr b \<longleftrightarrow> v = bool_byte b"
  by (auto simp: decode_bool_def bool_byte_def)

lemma decode_role_byte [simp]: "decode_role (role_byte r) = Inr r"
  by (cases r) (simp_all add: decode_role_def)

lemma decode_role_Inr [simp]: "decode_role v = Inr r \<longleftrightarrow> v = role_byte r"
  by (cases r) (auto simp: decode_role_def)

lemma validate_name_ascii: "validate_name b limits \<Longrightarrow> \<forall>c \<in> set b. c < 0x80"
  by (auto simp: validate_name_def list_all_iff dest: alphanumeric_ascii split: if_splits)

lemma validate_name_utf8: "validate_name b limits \<Longrightarrow> utf8_valid b"
  by (rule ascii_utf8_valid) (rule validate_name_ascii)

lemma decode_body_payload:
  assumes "fields_ok limits f"
  shows "decode_body (frame_kind f) (frame_payload f) limits = Inr f"
proof (cases f)
  case (Frame_Hello r t name rows cols)
  with assms validate_name_utf8 [of name limits] show ?thesis
    by (simp add: decode_body_def decode_hello_def subslice_def Let_def drop_Cons')
next
  case (Frame_GatewayHello t name rows cols gen pid ticks)
  with assms validate_name_utf8 [of name limits] show ?thesis
    by (simp add: decode_body_def decode_gateway_hello_def subslice_def Let_def drop_Cons'
        checked_add_usize_def)
next
  case (Frame_HelloAck x1 x2 x3)
  then show ?thesis
    by (cases x3) (simp_all add: decode_body_def decode_hello_ack_def subslice_def nth_append)
next
  case (Frame_Ownership e)
  then show ?thesis
    by (cases e) (simp_all add: decode_body_def decode_ownership_def)
qed (use assms in \<open>auto simp: decode_body_def decode_busy_def decode_resize_def decode_signal_def
      decode_lease_def decode_empty_def decode_exit_def decode_error_def subslice_def Let_def\<close>)

lemma payload_hello_subslices:
  assumes "length body = 8 + n"
  shows "[body ! 0, body ! 1] @ subslice 2 4 body @ subslice 4 (4 + n) body
    @ subslice (4 + n) (6 + n) body @ subslice (6 + n) (8 + n) body = body"
proof -
  have "[body ! 0, body ! 1] = subslice 0 2 body"
    using assms subslice_one [of 0 body] subslice_one [of 1 body] subslice_append [of 0 1 2 body]
    by (simp add: numeral_2_eq_2)
  with assms show ?thesis
    by (simp add: subslice_full)
qed

lemma decode_hello_sound:
  "decode_hello body limits = Inr f \<Longrightarrow>
   frame_kind f = Kind_Hello \<and> frame_payload f = body \<and> fields_ok limits f"
  using payload_hello_subslices [of body "unat (be_word (subslice 2 4 body) :: u16)"]
    unat_lt_16 [of "be_word (subslice 2 4 body)"]
  by (auto simp: decode_hello_def Let_def split: if_splits)

lemma payload_gateway_subslices:
  assumes "length body = 35 + n"
  shows "[body ! 0] @ subslice 1 3 body @ subslice 3 (3 + n) body
    @ subslice (3 + n) (5 + n) body @ subslice (5 + n) (7 + n) body
    @ subslice (7 + n) (23 + n) body @ subslice (23 + n) (27 + n) body
    @ subslice (27 + n) (35 + n) body = body"
proof -
  have "[body ! 0] = subslice 0 1 body"
    using assms subslice_one [of 0 body] by simp
  with assms show ?thesis
    by (simp add: subslice_full)
qed

lemma decode_gateway_hello_sound:
  "decode_gateway_hello body limits = Inr f \<Longrightarrow>
   frame_kind f = Kind_GatewayHello \<and> frame_payload f = body \<and> fields_ok limits f"
  using payload_gateway_subslices [of body "unat (be_word (subslice 1 3 body) :: u16)"]
    unat_lt_16 [of "be_word (subslice 1 3 body)"]
  by (auto simp: decode_gateway_hello_def checked_add_usize_def Let_def add.commute add.left_commute
      split: if_splits)

lemma two_bytes: "length body = Suc (Suc n) \<Longrightarrow> [body ! 0, body ! 1] @ drop 2 body = body"
  by (cases body; cases "tl body") auto

lemma decode_hello_ack_sound:
  "decode_hello_ack body = Inr f \<Longrightarrow> frame_kind f = Kind_HelloAck \<and> frame_payload f = body"
proof -
  assume dec: "decode_hello_ack body = Inr f"
  then have len: "length body = 6" by (auto simp: decode_hello_ack_def split: if_splits)
  then have "subslice 0 4 body @ subslice 4 5 body @ subslice 5 6 body = body"
    by (simp add: subslice_full)
  moreover have "subslice 4 5 body = [body ! 4]" "subslice 5 6 body = [body ! 5]"
    using len subslice_one [of 4 body] subslice_one [of 5 body] by simp_all
  ultimately have "subslice 0 4 body @ [body ! 4, body ! 5] = body" by simp
  with dec len show ?thesis
    by (auto simp: decode_hello_ack_def split: if_splits)
qed

lemma decode_busy_sound:
  "decode_busy body = Inr f \<Longrightarrow> frame_kind f = Kind_Busy \<and> frame_payload f = body"
  by (auto simp: decode_busy_def subslice_full split: if_splits)

lemma decode_resize_sound:
  "decode_resize body = Inr f \<Longrightarrow> frame_kind f = Kind_Resize \<and> frame_payload f = body"
  by (auto simp: decode_resize_def subslice_full split: if_splits)

lemma decode_signal_sound:
  "decode_signal body = Inr f \<Longrightarrow>
   frame_kind f = Kind_Signal \<and> frame_payload f = body \<and> fields_ok limits f"
  by (cases body) (auto simp: decode_signal_def split: if_splits)

lemma decode_lease_sound:
  "decode_lease body = Inr f \<Longrightarrow>
   frame_kind f = Kind_Lease \<and> frame_payload f = body \<and> fields_ok limits f"
proof -
  assume dec: "decode_lease body = Inr f"
  then have len: "length body = 25" by (auto simp: decode_lease_def split: if_splits)
  then have "[body ! 0] = subslice 0 1 body"
    using subslice_one [of 0 body] by simp
  with len have "[body ! 0] @ subslice 1 17 body @ subslice 17 25 body = body"
    by (simp add: subslice_full)
  with dec len show ?thesis
    by (auto simp: decode_lease_def Let_def dest: lease_action_from_u8_Some split: if_splits)
qed

lemma decode_ownership_sound:
  "decode_ownership body = Inr f \<Longrightarrow> frame_kind f = Kind_Ownership \<and> frame_payload f = body"
  by (cases body) (auto simp: decode_ownership_def split: if_splits)

lemma decode_exit_sound:
  "decode_exit body = Inr f \<Longrightarrow> frame_kind f = Kind_Exit \<and> frame_payload f = body"
  by (cases body) (auto simp: decode_exit_def subslice_def split: if_splits)

lemma decode_error_sound:
  assumes "decode_error body limits = Inr f"
  shows "frame_kind f = Kind_Error \<and> frame_payload f = body \<and> fields_ok limits f"
proof -
  let ?len = "be_word (subslice 2 4 body) :: u16"
  from assms have len: "4 \<le> length body" and n: "length body - 4 = unat ?len"
    and le: "unat ?len \<le> error_text_max limits" and utf8: "utf8_valid (drop 4 body)"
    and f: "f = Frame_Error (be_word (subslice 0 2 body)) (drop 4 body)"
    by (auto simp: decode_error_def Let_def split: if_splits)
  have "(of_nat (length (drop 4 body)) :: u16) = ?len"
    by (simp only: length_drop n) simp
  then have "be_bytes (of_nat (length (drop 4 body)) :: u16) = subslice 2 4 body"
    using len by simp
  moreover have "subslice 0 2 body @ subslice 2 4 body @ drop 4 body = body"
    using len subslice_append_assoc [of 0 2 4 body "drop 4 body"] by (simp add: subslice_def)
  ultimately show ?thesis
    using f n le utf8 len unat_lt_16 [of ?len] by (simp only: frame_payload.simps) simp
qed

lemma decode_empty_sound:
  "decode_empty body f = Inr g \<Longrightarrow> g = f \<and> body = []"
  by (simp add: decode_empty_def split: if_splits)

lemma fields_ok_trivial:
  "frame_kind f \<notin> {Kind_Hello, Kind_GatewayHello, Kind_Signal, Kind_Lease, Kind_Error} \<Longrightarrow>
   fields_ok limits f"
  by (cases f) auto

lemma decode_body_sound:
  "decode_body k body limits = Inr f \<Longrightarrow>
   frame_kind f = k \<and> frame_payload f = body \<and> fields_ok limits f"
  by (cases k) (fastforce simp: decode_body_def intro: fields_ok_trivial dest: decode_hello_sound decode_gateway_hello_sound
      decode_hello_ack_sound decode_busy_sound decode_resize_sound decode_signal_sound
      decode_lease_sound decode_ownership_sound decode_exit_sound decode_error_sound
      decode_empty_sound)+

section \<open>The header\<close>

lemma length_encode_frame: "length (encode_frame f) = 6 + length (frame_payload f)"
  by (simp add: encode_frame_def encode_into_def)

lemma validate_header_Inr:
  "validate_header buf limits = Inr tot \<Longrightarrow>
   6 \<le> length buf \<and> buf ! 4 = PROTOCOL_VERSION \<and> (\<exists>k. kind_from_u8 (buf ! 5) = Some k) \<and>
   unat (be_word (subslice 0 4 buf) :: u32) = tot - 4 \<and> 6 \<le> tot \<and>
   tot - 4 \<le> frame_max_body limits"
  by (auto simp: validate_header_def HEADER_LEN_def Let_def split: if_splits)

lemma validate_header_encode:
  assumes "frame_ok limits f"
  shows "validate_header (encode_frame f @ rest) limits = Inr (6 + length (frame_payload f))"
proof -
  let ?n = "length (frame_payload f) + 2"
  have "subslice 0 4 (encode_frame f @ rest) = be_bytes (of_nat ?n :: u32)"
    by (simp add: encode_frame_def encode_into_def subslice_def)
  then have "be_word (subslice 0 4 (encode_frame f @ rest)) = (of_nat ?n :: u32)"
    by (simp only: be_word_bytes_32)
  moreover have "unat (of_nat ?n :: u32) = ?n"
    using assms by (intro unat_of_nat_32) (simp add: frame_ok_def)
  ultimately have "unat (be_word (subslice 0 4 (encode_frame f @ rest)) :: u32) = ?n"
    by (simp only:)
  moreover have "(encode_frame f @ rest) ! 4 = PROTOCOL_VERSION"
    "(encode_frame f @ rest) ! 5 = kind_byte (frame_kind f)"
    by (simp_all add: encode_frame_def encode_into_def nth_append)
  ultimately show ?thesis
    using assms by (simp add: validate_header_def HEADER_LEN_def Let_def frame_ok_def
        length_encode_frame)
qed

lemma encode_frame_body:
  "subslice HEADER_LEN (6 + length (frame_payload f)) (encode_frame f @ rest) = frame_payload f"
  by (simp add: encode_frame_def encode_into_def subslice_def HEADER_LEN_def)

lemma decode_encode_frame:
  assumes "frame_ok limits f"
  shows "decode_frame (encode_frame f @ rest) limits = Inr (f, length (encode_frame f))"
proof -
  have "(encode_frame f @ rest) ! 5 = kind_byte (frame_kind f)"
    by (simp add: encode_frame_def encode_into_def nth_append)
  moreover have "decode_body (frame_kind f) (frame_payload f) limits = Inr f"
    using assms by (intro decode_body_payload) (simp add: frame_ok_def)
  ultimately show ?thesis
    using validate_header_encode [OF assms, of rest] encode_frame_body [of f rest]
    by (simp add: decode_frame_def length_encode_frame)
qed

lemma decode_frame_sound:
  assumes "decode_frame buf limits = Inr (f, n)"
  shows "frame_ok limits f \<and> n = length (encode_frame f) \<and> take n buf = encode_frame f"
proof -
  from assms have vh: "validate_header buf limits = Inr n" and len: "n \<le> length buf"
    by (auto simp: decode_frame_def split: if_splits)
  from assms obtain k where k: "kind_from_u8 (buf ! 5) = Some k"
      and body: "decode_body k (subslice HEADER_LEN n buf) limits = Inr f"
    by (auto simp: decode_frame_def Let_def split: if_splits)
  note hd = validate_header_Inr [OF vh]
  from decode_body_sound [OF body] have f: "frame_kind f = k" "frame_payload f = subslice 6 n buf"
      "fields_ok limits f"
    by (auto simp: HEADER_LEN_def)
  have "length (frame_payload f) = n - 6"
    using f(2) hd len by simp
  then have lenp: "length (frame_payload f) + 2 = n - 4"
    using hd by linarith
  have ok: "frame_ok limits f"
    using f(3) lenp hd unat_lt_32 [of "be_word (subslice 0 4 buf)"] by (simp add: frame_ok_def)
  have "be_bytes (of_nat (length (frame_payload f) + 2) :: u32) = subslice 0 4 buf"
  proof -
    have "(of_nat (length (frame_payload f) + 2) :: u32) = be_word (subslice 0 4 buf)"
      unfolding lenp using hd by (metis of_nat_unat ucast_id)
    then show ?thesis using hd by simp
  qed
  moreover have "[PROTOCOL_VERSION, kind_byte (frame_kind f)] = subslice 4 6 buf"
  proof -
    have "subslice 4 6 buf = subslice 4 5 buf @ subslice 5 6 buf" by simp
    also have "\<dots> = [PROTOCOL_VERSION, kind_byte (frame_kind f)]"
      using hd f(1) kind_from_u8_Some [OF k] subslice_one [of 4 buf] subslice_one [of 5 buf]
      by (simp del: subslice_append)
    finally show ?thesis by simp
  qed
  ultimately have "encode_frame f = subslice 0 n buf"
    using f(2) hd by (simp add: encode_frame_def encode_into_def)
  moreover have "n = length (encode_frame f)"
    using lenp hd by (simp add: length_encode_frame)
  ultimately show ?thesis
    using ok by (simp add: subslice_def)
qed

interpretation frames: framing encode_frame "\<lambda>bs. decode_frame bs limits" "frame_ok limits"
  for limits
proof
  show "decode_frame (encode_frame f @ rest) limits = Inr (f, length (encode_frame f))"
    if "frame_ok limits f" for f rest
    using that by (rule decode_encode_frame)
  show "frame_ok limits f \<and> n = length (encode_frame f) \<and> take n bs = encode_frame f"
    if "decode_frame bs limits = Inr (f, n)" for bs f n
    using that by (rule decode_frame_sound)
  show "encode_frame f \<noteq> []" for f
    by (simp add: encode_frame_def encode_into_def)
qed

section \<open>The properties of the codec\<close>

text \<open>C24: the decoder accepts exactly the encodings: it returns a frame and a length just when
  the frame is well formed and the input starts with its encoding, of that length.\<close>

theorem pty_codec_exact:
  "decode_frame bs limits = Inr (f, n) \<longleftrightarrow>
     frame_ok limits f \<and> n = length (encode_frame f) \<and> (\<exists>rest. bs = encode_frame f @ rest)"
  by (rule frames.pdec_iff)

lemma take_header:
  assumes "6 \<le> n"
  shows "subslice 0 4 (take n bs) = subslice 0 4 bs" "take n bs ! 4 = bs ! 4" "take n bs ! 5 = bs ! 5"
  using assms by (simp_all add: subslice_def min_def)

lemma validate_header_take:
  assumes "6 \<le> n" "6 \<le> length bs"
  shows "validate_header (take n bs) limits = validate_header bs limits"
proof -
  have "\<not> length (take n bs) < HEADER_LEN" "\<not> length bs < HEADER_LEN"
    using assms by (simp_all add: HEADER_LEN_def)
  then show ?thesis
    by (simp only: validate_header_def take_header [OF assms(1)] if_False)
qed

text \<open>A proper prefix of a well-formed frame is reported as truncated, never as one of the
  errors that close the connection, so a reader may wait for the rest.\<close>

theorem pty_prefix_truncated:
  assumes "frame_ok limits f" "n < length (encode_frame f)"
  shows "decode_frame (take n (encode_frame f)) limits = Inl Truncated"
proof (cases "n < 6")
  case True
  then have "validate_header (take n (encode_frame f)) limits = Inl Truncated"
    by (simp add: validate_header_def HEADER_LEN_def min_def)
  then show ?thesis
    by (simp add: decode_frame_def)
next
  case False
  then have "validate_header (take n (encode_frame f)) limits = Inr (length (encode_frame f))"
    using validate_header_encode [OF assms(1), of "[]"] assms(2)
    by (simp add: validate_header_take length_encode_frame)
  then show ?thesis
    using assms(2) by (simp add: decode_frame_def)
qed

theorem pty_prefix_truncated_witness:
  "decode_frame (take 3 (encode_frame (Frame_Input [1, 2]))) default_pty_limits = Inl Truncated"
  by (rule pty_prefix_truncated)
    (simp_all add: frame_ok_def default_pty_limits_def encode_frame_def encode_into_def)

text \<open>Two sequences of well-formed frames with the same bytes are the same sequence.\<close>

theorem pty_stream_unique:
  assumes "list_all (frame_ok limits) fs" "list_all (frame_ok limits) gs"
    and "concat (map encode_frame fs) = concat (map encode_frame gs)"
  shows "fs = gs"
  using assms by (rule frames.stream_unique)

theorem pty_stream_unique_witness:
  "[Frame_Ping, Frame_Signal 2] = [Frame_Ping, Frame_Signal 2]"
  by (rule pty_stream_unique [where limits = default_pty_limits])
    (simp_all add: frame_ok_def default_pty_limits_def signal_is_allowed_def)

end
