(* ===== verification/Pty_Client.thy ===== *)
theory Pty_Client
  imports Pty_Frame
begin

text \<open>
  Client connection I/O state of the broker (\<open>crates/everpty/src/client.rs\<close>): the incremental
  frame reader, the bounded output and input queues, and the per-connection aggregate, with
  the broker's read loop \<open>consume_chunk\<close> (\<open>broker.rs\<close>) that drives the reader. The queues are
  interpretations of the byte queue interface; the reader is shown to recover exactly the
  encoded frames however the byte stream is cut into chunks.
\<close>

datatype conn_role =
    ConnRole_AwaitingFirstFrame | ConnRole_Control | ConnRole_Writer u32 | ConnRole_Observer u32

section \<open>The incremental frame reader\<close>

datatype reader_phase = Phase_Header | Phase_Body usize

record frame_reader =
  fr_buf :: bytes
  fr_phase :: reader_phase
  fr_started_ms :: "u64 option"
  fr_fatal :: "frame_error option"

definition reader_new :: frame_reader where
  "reader_new = \<lparr>fr_buf = [], fr_phase = Phase_Header, fr_started_ms = None, fr_fatal = None\<rparr>"

text \<open>The second half of \<open>append\<close>: collecting body bytes once the phase is \<open>Body\<close>.\<close>

definition append_body :: "frame_reader \<Rightarrow> bytes \<Rightarrow> usize \<Rightarrow> frame_reader \<times> usize" where
  "append_body r bs taken =
     (case fr_phase r of
        Phase_Body tot \<Rightarrow>
          let want = tot - length (fr_buf r);
              tk = min want (length bs - taken)
          in if tk > 0
             then (r\<lparr>fr_buf := fr_buf r @ subslice taken (taken + tk) bs\<rparr>, taken + tk)
             else (r, taken)
      | Phase_Header \<Rightarrow> (r, taken))"

definition reader_append ::
  "frame_reader \<Rightarrow> bytes \<Rightarrow> u64 \<Rightarrow> pty_limits \<Rightarrow> frame_reader \<times> usize" where
  "reader_append r bs now limits =
     (if fr_fatal r \<noteq> None \<or> bs = [] then (r, 0)
      else case fr_phase r of
        Phase_Header \<Rightarrow>
          let want = HEADER_LEN - length (fr_buf r);
              tk = min want (length bs);
              r1 = r\<lparr>fr_started_ms := (if fr_buf r = [] \<and> tk > 0 then Some now else fr_started_ms r),
                     fr_buf := fr_buf r @ take tk bs\<rparr>
          in if length (fr_buf r1) < HEADER_LEN then (r1, tk)
             else (case validate_header (fr_buf r1) limits of
                     Inr tot \<Rightarrow> append_body (r1\<lparr>fr_phase := Phase_Body tot\<rparr>) bs tk
                   | Inl e \<Rightarrow> (r1\<lparr>fr_fatal := Some e\<rparr>, tk))
      | Phase_Body _ \<Rightarrow> append_body r bs 0)"

definition frame_ready :: "frame_reader \<Rightarrow> bool" where
  "frame_ready r = (case fr_phase r of Phase_Header \<Rightarrow> False | Phase_Body tot \<Rightarrow> length (fr_buf r) = tot)"

definition bytes_needed :: "frame_reader \<Rightarrow> usize" where
  "bytes_needed r =
     (case fr_phase r of
        Phase_Header \<Rightarrow> HEADER_LEN - length (fr_buf r)
      | Phase_Body tot \<Rightarrow> tot - length (fr_buf r))"

definition needs_input :: "frame_reader \<Rightarrow> bool" where
  "needs_input r \<longleftrightarrow> fr_fatal r = None \<and> \<not> frame_ready r"

definition take_frame :: "frame_reader \<Rightarrow> pty_limits \<Rightarrow> frame_reader \<times> (frame_error + frame option)" where
  "take_frame r limits =
     (case fr_fatal r of
        Some e \<Rightarrow> (r\<lparr>fr_fatal := None\<rparr>, Inl e)
      | None \<Rightarrow>
          if \<not> frame_ready r then (r, Inr None)
          else (case decode_frame (fr_buf r) limits of
                  Inr (f, consumed) \<Rightarrow>
                    (r\<lparr>fr_buf := [], fr_phase := Phase_Header, fr_started_ms := None\<rparr>, Inr (Some f))
                | Inl e \<Rightarrow> (r, Inl e)))"

definition has_partial_frame :: "frame_reader \<Rightarrow> bool" where
  "has_partial_frame r \<longleftrightarrow> fr_buf r \<noteq> []"

text \<open>\<open>now_ms.saturating_sub(start) >= deadline_ms\<close>.\<close>

definition deadline_expired :: "frame_reader \<Rightarrow> u64 \<Rightarrow> u64 \<Rightarrow> bool" where
  "deadline_expired r now_ms deadline_ms =
     (case fr_started_ms r of
        Some start \<Rightarrow> unat now_ms - unat start \<ge> unat deadline_ms
      | None \<Rightarrow> False)"

text \<open>The broker's read loop over one received chunk. \<open>live\<close> and \<open>draining\<close> are the checks of
  the connection slot, \<open>dispatch\<close> is what the broker does with a decoded frame; \<open>Stop_Fault\<close>
  is the silent close on a framing failure.\<close>

datatype consume_outcome = Continue | Stop_Gone | Stop_Draining | Stop_Fault frame_error

definition pending_measure :: "frame_reader \<Rightarrow> nat" where
  "pending_measure r = (if fr_fatal r = None \<and> frame_ready r then 1 else 0)"

lemma take_frame_pending:
  "take_frame r limits = (r', Inr (Some f)) \<Longrightarrow> pending_measure r' < pending_measure r"
  by (auto simp: take_frame_def pending_measure_def frame_ready_def
      split: option.splits if_splits sum.splits prod.splits)

function take_all ::
  "('s \<Rightarrow> bool) \<Rightarrow> (frame \<Rightarrow> 's \<Rightarrow> 's) \<Rightarrow> pty_limits \<Rightarrow> frame_reader \<Rightarrow> 's \<Rightarrow>
   frame_reader \<times> 's \<times> consume_outcome" where
  "take_all live dispatch limits r s =
     (case take_frame r limits of
        (r', Inr (Some f)) \<Rightarrow>
          let s' = dispatch f s in
          if \<not> live s' then (r', s', Stop_Gone) else take_all live dispatch limits r' s'
      | (r', Inr None) \<Rightarrow> (r', s, Continue)
      | (r', Inl e) \<Rightarrow> (r', s, Stop_Fault e))"
  by pat_completeness auto
termination
  by (relation "measure (\<lambda>(live, dispatch, limits, r, s). pending_measure r)")
    (auto dest!: take_frame_pending [OF sym])

declare take_all.simps [simp del]

function consume_chunk ::
  "('s \<Rightarrow> bool) \<Rightarrow> ('s \<Rightarrow> bool) \<Rightarrow> (frame \<Rightarrow> 's \<Rightarrow> 's) \<Rightarrow> u64 \<Rightarrow> pty_limits \<Rightarrow>
   frame_reader \<Rightarrow> 's \<Rightarrow> bytes \<Rightarrow> frame_reader \<times> 's \<times> consume_outcome" where
  "consume_chunk live draining dispatch now limits r s bs =
     (if bs = [] then (r, s, Continue)
      else if \<not> live s then (r, s, Stop_Gone)
      else if draining s then (r, s, Stop_Draining)
      else case reader_append r bs now limits of (r1, took) \<Rightarrow>
        if took = 0 then (r1, s, Continue)
        else case take_all live dispatch limits r1 s of
          (r2, s2, Continue) \<Rightarrow>
            consume_chunk live draining dispatch now limits r2 s2 (drop took bs)
        | (r2, s2, stop) \<Rightarrow> (r2, s2, stop))"
  by pat_completeness auto
termination
  by (relation "measure (\<lambda>(live, draining, dispatch, now, limits, r, s, bs). length bs)") auto

declare consume_chunk.simps [simp del]

subsection \<open>The reader holds a prefix of the current frame\<close>

definition reader_mid :: "frame \<Rightarrow> bytes \<Rightarrow> frame_reader \<Rightarrow> bool" where
  "reader_mid f p r \<longleftrightarrow>
     fr_buf r = p \<and> fr_fatal r = None \<and>
     fr_phase r = (if length p < HEADER_LEN then Phase_Header else Phase_Body (length (encode_frame f)))"

lemma validate_header_append:
  "HEADER_LEN \<le> length p \<Longrightarrow> validate_header (p @ q) limits = validate_header p limits"
  by (simp add: validate_header_def HEADER_LEN_def subslice_def nth_append Let_def)

lemma validate_header_prefix:
  assumes "frame_ok limits f" "encode_frame f = p @ q" "HEADER_LEN \<le> length p"
  shows "validate_header p limits = Inr (length (encode_frame f))"
proof -
  have "validate_header (p @ q) limits = Inr (length (encode_frame f))"
    unfolding length_encode_frame using validate_header_encode [OF assms(1), of "[]"] assms(2) by simp
  then show ?thesis
    using validate_header_append [OF assms(3), of q] by simp
qed

lemma append_body_mid:
  assumes "encode_frame f = p @ q" "reader_mid f p r" "HEADER_LEN \<le> length p"
    and "taken \<le> length bs" "take (min (length q) (length bs - taken)) (drop taken bs)
           = take (min (length q) (length bs - taken)) q"
  shows "\<exists>r'. append_body r bs taken = (r', taken + min (length q) (length bs - taken)) \<and>
    reader_mid f (p @ take (min (length q) (length bs - taken)) q) r'"
proof -
  have "length (encode_frame f) - length p = length q"
    using assms(1) by simp
  then show ?thesis
    using assms(2-5) by (auto simp: append_body_def reader_mid_def Let_def subslice_def)
qed

text \<open>The header half of \<open>append\<close>, on a reader that still lacks header bytes.\<close>

lemma append_header:
  assumes r: "reader_mid f p r" and p: "length p < HEADER_LEN" and bs: "bs \<noteq> []"
    and tk: "tk = min (HEADER_LEN - length p) (length bs)"
    and r1: "r1 = r\<lparr>fr_started_ms := (if p = [] then Some now else fr_started_ms r),
                     fr_buf := p @ take tk bs\<rparr>"
  shows "reader_append r bs now limits =
     (if length p + tk < HEADER_LEN then (r1, tk)
      else case validate_header (p @ take tk bs) limits of
             Inr tot \<Rightarrow> append_body (r1\<lparr>fr_phase := Phase_Body tot\<rparr>) bs tk
           | Inl e \<Rightarrow> (r1\<lparr>fr_fatal := Some e\<rparr>, tk))"
proof -
  have r_fields: "fr_buf r = p" "fr_fatal r = None" "fr_phase r = Phase_Header"
    using r p by (simp_all add: reader_mid_def)
  have "0 < tk" "tk \<le> length bs" using p bs tk by auto
  then show ?thesis
    unfolding reader_append_def Let_def r_fields tk [symmetric] r1 using bs by simp
qed

lemma append_mid:
  assumes ok: "frame_ok limits f" and enc: "encode_frame f = p @ q" and q: "q \<noteq> []"
    and r: "reader_mid f p r" and bs: "bs \<noteq> []"
    and n: "n = min (length q) (length bs)" and pre: "take n bs = take n q"
  shows "\<exists>r'. reader_append r bs now limits = (r', n) \<and> reader_mid f (p @ take n q) r'"
proof (cases "length p < HEADER_LEN")
  case False
  then show ?thesis
    using append_body_mid [OF enc r, of 0 bs] r bs n pre
    by (auto simp: reader_append_def reader_mid_def)
next
  case True
  define tk where "tk = min (HEADER_LEN - length p) (length bs)"
  define r1 where "r1 = r\<lparr>fr_started_ms := (if p = [] then Some now else fr_started_ms r),
               fr_buf := p @ take tk bs\<rparr>"
  have len6: "HEADER_LEN \<le> length p + length q"
    using enc length_encode_frame [of f] by (metis HEADER_LEN_def le_add1 length_append)
  have tkn: "tk \<le> n" using len6 n by (auto simp: tk_def)
  have tkq: "take tk bs = take tk q"
    using arg_cong [OF pre, of "take tk"] tkn by (simp add: min.absorb1)
  note app = append_header [OF r True bs tk_def r1_def, of limits]
  have lenr1: "length (p @ take tk q) = length p + tk"
    using tkn n by simp
  show ?thesis
  proof (cases "length p + tk < HEADER_LEN")
    case True
    then have "tk = n" using len6 n by (auto simp: tk_def)
    moreover have "reader_mid f (p @ take n q) r1"
      using r True lenr1 \<open>tk = n\<close> tkq by (simp add: reader_mid_def r1_def)
    ultimately show ?thesis using app True by simp
  next
    case False
    then have tk6: "length p + tk = HEADER_LEN"
      using \<open>length p < HEADER_LEN\<close> by (auto simp: tk_def)
    have split: "encode_frame f = (p @ take tk q) @ drop tk q" using enc by simp
    have hd: "validate_header (p @ take tk q) limits = Inr (length (encode_frame f))"
      using lenr1 tk6 by (intro validate_header_prefix [OF ok split]) simp
    define r2 where "r2 = r1\<lparr>fr_phase := Phase_Body (length (encode_frame f))\<rparr>"
    have r2: "reader_mid f (p @ take tk q) r2"
      using r lenr1 tk6 tkq by (simp add: reader_mid_def r1_def r2_def)
    have app2: "reader_append r bs now limits = append_body r2 bs tk"
      using app False hd tkq by (simp add: r2_def)
    have m: "min (length (drop tk q)) (length bs - tk) = n - tk"
      using n by auto
    have tkbs: "tk \<le> length bs" by (simp add: tk_def)
    have "take (n - tk) (drop tk bs) = take (n - tk) (drop tk q)"
      using arg_cong [OF pre, of "drop tk"] by (simp add: drop_take)
    then obtain r' where "append_body r2 bs tk = (r', tk + (n - tk))"
        "reader_mid f ((p @ take tk q) @ take (n - tk) (drop tk q)) r'"
      using append_body_mid [OF split r2 _ tkbs] lenr1 tk6 unfolding m by auto
    moreover have "take tk q @ take (n - tk) (drop tk q) = take n q"
      using tkn by (metis le_add_diff_inverse take_add)
    ultimately show ?thesis
      using app2 tkn by simp
  qed
qed

lemma take_frame_mid:
  assumes "frame_ok limits f" "encode_frame f = p @ q" "reader_mid f p r"
  shows "take_frame r limits =
    (if q = [] then (r\<lparr>fr_buf := [], fr_phase := Phase_Header, fr_started_ms := None\<rparr>, Inr (Some f))
     else (r, Inr None))"
proof (cases "q = []")
  case True
  then have "HEADER_LEN \<le> length p"
    using assms(2) length_encode_frame [of f] by (simp add: HEADER_LEN_def)
  moreover have "decode_frame p limits = Inr (f, length p)"
    using decode_encode_frame [OF assms(1), of "[]"] assms(2) True by simp
  ultimately show ?thesis
    using assms True by (simp add: take_frame_def reader_mid_def frame_ready_def)
next
  case False
  with assms show ?thesis
    by (auto simp: take_frame_def reader_mid_def frame_ready_def)
qed

subsection \<open>The read loop recovers the frames of the stream\<close>

definition reader_idle :: "frame_reader \<Rightarrow> bool" where
  "reader_idle r \<longleftrightarrow> fr_buf r = [] \<and> fr_fatal r = None \<and> fr_phase r = Phase_Header"

lemma reader_idle_new: "reader_idle reader_new"
  by (simp add: reader_idle_def reader_new_def)

lemma reader_idle_mid: "reader_idle r \<Longrightarrow> reader_mid f [] r"
  by (simp add: reader_idle_def reader_mid_def HEADER_LEN_def)

lemma take_all_idle:
  "reader_idle r \<Longrightarrow> take_all live dispatch limits r s = (r, s, Continue)"
  by (subst take_all.simps) (simp add: take_frame_def frame_ready_def reader_idle_def)

lemma take_all_mid:
  assumes "frame_ok limits f" "encode_frame f = p @ q" "reader_mid f p r"
  shows "\<exists>r'. take_all live dispatch limits r s =
      (if q = [] then (r', dispatch f s, if live (dispatch f s) then Continue else Stop_Gone) else (r', s, Continue)) \<and>
    (if q = [] then reader_idle r' else reader_mid f p r')"
proof (cases "q = []")
  case False
  with take_frame_mid [OF assms] have "take_all live dispatch limits r s = (r, s, Continue)"
    by (subst take_all.simps) simp
  with False assms(3) show ?thesis by simp
next
  case True
  define r' where "r' = r\<lparr>fr_buf := [], fr_phase := Phase_Header, fr_started_ms := None\<rparr>"
  have "take_frame r limits = (r', Inr (Some f))"
    using take_frame_mid [OF assms] True by (simp add: r'_def)
  then have "take_all live dispatch limits r s =
      (if live (dispatch f s) then take_all live dispatch limits r' (dispatch f s) else (r', dispatch f s, Stop_Gone))"
    by (subst take_all.simps) simp
  moreover have "reader_idle r'"
    using assms(3) by (simp add: reader_idle_def reader_mid_def r'_def)
  ultimately show ?thesis
    using True by (simp add: take_all_idle)
qed

text \<open>\<open>p\<close> is what the reader holds of the first of the frames \<open>fs\<close> still to come.\<close>

fun reader_pending :: "frame list \<Rightarrow> bytes \<Rightarrow> frame_reader \<Rightarrow> bool" where
  "reader_pending [] p r \<longleftrightarrow> p = [] \<and> reader_idle r"
| "reader_pending (f # fs) p r \<longleftrightarrow> reader_mid f p r \<and> strict_prefix p (encode_frame f)"

lemma encode_frame_nonempty: "encode_frame f \<noteq> []"
  by (simp add: encode_frame_def encode_into_def)

lemma reader_pending_idle: "reader_idle r \<Longrightarrow> reader_pending fs [] r"
  by (cases fs) (auto simp: reader_idle_mid encode_frame_nonempty [symmetric] strict_prefix_def)

text \<open>What serving whole frames one by one comes to: it ends before a frame when the connection is
  draining, and after one that closed it.\<close>

fun served ::
  "('s \<Rightarrow> bool) \<Rightarrow> ('s \<Rightarrow> bool) \<Rightarrow> (frame \<Rightarrow> 's \<Rightarrow> 's) \<Rightarrow> frame list \<Rightarrow> 's \<Rightarrow> 's \<times> consume_outcome" where
  "served live draining dispatch [] s = (s, Continue)"
| "served live draining dispatch (f # fs) s =
     (if \<not> live s then (s, Stop_Gone)
      else if draining s then (s, Stop_Draining)
      else if \<not> live (dispatch f s) then (dispatch f s, Stop_Gone)
      else served live draining dispatch fs (dispatch f s))"

lemma served_append:
  "served live draining dispatch gs s = (s1, Continue) \<Longrightarrow>
   served live draining dispatch (gs @ hs) s = served live draining dispatch hs s1"
  by (induction gs arbitrary: s) (auto split: if_splits)

text \<open>A run of the loop over part of the bytes: it serves whole frames and holds part of the next one,
  or it stops where serving all frames would.\<close>

definition stream_run ::
  "('s \<Rightarrow> bool) \<Rightarrow> ('s \<Rightarrow> bool) \<Rightarrow> (frame \<Rightarrow> 's \<Rightarrow> 's) \<Rightarrow> frame list \<Rightarrow> bytes \<Rightarrow> 's \<Rightarrow>
   frame_reader \<times> 's \<times> consume_outcome \<Rightarrow> bool" where
  "stream_run live draining dispatch fs future s run \<longleftrightarrow>
     (case run of (r', s', out) \<Rightarrow>
        if out = Continue
        then \<exists>gs hs p'. fs = gs @ hs \<and> served live draining dispatch gs s = (s', Continue) \<and>
          reader_pending hs p' r' \<and> p' @ future = concat (map encode_frame hs)
        else served live draining dispatch fs s = (s', out))"

lemma stream_run_start:
  assumes "reader_pending fs p r" "p @ future = concat (map encode_frame fs)"
  shows "stream_run live draining dispatch fs future s (r, s, Continue)"
proof -
  have "fs = [] @ fs \<and> served live draining dispatch [] s = (s, Continue) \<and>
      reader_pending fs p r \<and> p @ future = concat (map encode_frame fs)" using assms by simp
  then show ?thesis unfolding stream_run_def by fastforce
qed

lemma stream_run_after:
  assumes "served live draining dispatch fs s = (s1, Continue)"
    and "stream_run live draining dispatch gs future s1 run"
  shows "stream_run live draining dispatch (fs @ gs) future s run"
  using assms served_append [OF assms(1)]
  unfolding stream_run_def
  by (auto split: prod.splits if_splits) (metis append.assoc)

lemma consume_stream:
  assumes "list_all (frame_ok limits) fs" "reader_pending fs p r"
    and "p @ bs @ future = concat (map encode_frame fs)"
  shows "stream_run live draining dispatch fs future s (consume_chunk live draining dispatch now limits r s bs)"
  using assms
proof (induction "length bs" arbitrary: bs fs p r s rule: less_induct)
  case less
  show ?case
  proof (cases "bs = []")
    case True
    with less.prems show ?thesis by (auto simp: consume_chunk.simps intro: stream_run_start)
  next
    case bs: False
    with less.prems(2,3) obtain f fs' where fs: "fs = f # fs'"
      by (cases fs) auto
    with less.prems(2) obtain q where q: "encode_frame f = p @ q" "q \<noteq> []"
      by (auto simp: strict_prefix_def prefix_def)
    show ?thesis
    proof (cases "live s \<and> \<not> draining s")
      case False
      then show ?thesis using bs fs by (auto simp: stream_run_def consume_chunk.simps [of _ _ _ _ _ r s bs])
    next
      case serving: True
      have ok: "frame_ok limits f" and mid: "reader_mid f p r"
        using less.prems(1,2) fs by auto
      have eq: "bs @ future = q @ concat (map encode_frame fs')"
        using less.prems(3) fs q by simp
      define n where "n = min (length q) (length bs)"
      have pre: "take n bs = take n q"
        using arg_cong [OF eq, of "take n"] by (simp add: n_def)
      obtain r1 where app: "reader_append r bs now limits = (r1, n)" and r1: "reader_mid f (p @ take n q) r1"
        using append_mid [OF ok q mid bs n_def pre] by blast
      have n0: "n \<noteq> 0" using bs q by (simp add: n_def)
      have enc: "encode_frame f = (p @ take n q) @ drop n q" using q by simp
      from take_all_mid [OF ok enc r1, of live dispatch s] obtain r2 where
        ta: "take_all live dispatch limits r1 s =
          (if drop n q = [] then (r2, dispatch f s, if live (dispatch f s) then Continue else Stop_Gone)
           else (r2, s, Continue))"
        and r2: "if drop n q = [] then reader_idle r2 else reader_mid f (p @ take n q) r2"
        by blast
      have step: "consume_chunk live draining dispatch now limits r s bs =
          (if drop n q = [] \<and> \<not> live (dispatch f s) then (r2, dispatch f s, Stop_Gone)
           else consume_chunk live draining dispatch now limits r2
             (if drop n q = [] then dispatch f s else s) (drop n bs))"
        using bs app n0 ta serving by (simp add: consume_chunk.simps [of _ _ _ _ _ r s bs])
      show ?thesis
      proof (cases "drop n q = []")
        case True
        then have "n = length q" by (simp add: n_def)
        then have eq': "[] @ drop n bs @ future = concat (map encode_frame fs')"
          using arg_cong [OF eq, of "drop n"] by (simp add: n_def)
        have "length (drop n bs) < length bs" using n0 bs by simp
        from less.hyps [OF this, of fs' "[]" r2 "dispatch f s"] less.prems(1) fs eq' r2 True
        have "stream_run live draining dispatch fs' future (dispatch f s)
            (consume_chunk live draining dispatch now limits r2 (dispatch f s) (drop n bs))"
          by (simp add: reader_pending_idle)
        from stream_run_after [OF _ this, of "[f]" s] show ?thesis
          using step True fs serving by (auto simp: stream_run_def)
      next
        case False
        then have n: "n = length bs" "length bs < length q" by (auto simp: n_def min_def split: if_splits)
        then have "(p @ take n q) @ future = concat (map encode_frame fs)"
          using less.prems(3) pre by simp
        moreover have "strict_prefix (p @ take n q) (encode_frame f)"
          using False unfolding enc by (auto simp: strict_prefix_def take_is_prefix)
        ultimately show ?thesis
          using step False r2 fs n by (auto simp: consume_chunk.simps intro!: stream_run_start)
      qed
    qed
  qed
qed

text \<open>Feeding a list of chunks, each at its own time, as the broker does across poll turns.\<close>

fun consume_chunks ::
  "('s \<Rightarrow> bool) \<Rightarrow> ('s \<Rightarrow> bool) \<Rightarrow> (frame \<Rightarrow> 's \<Rightarrow> 's) \<Rightarrow> pty_limits \<Rightarrow> frame_reader \<Rightarrow> 's \<Rightarrow>
   (u64 \<times> bytes) list \<Rightarrow> frame_reader \<times> 's \<times> consume_outcome" where
  "consume_chunks live draining dispatch limits r s [] = (r, s, Continue)"
| "consume_chunks live draining dispatch limits r s ((now, c) # cs) =
     (case consume_chunk live draining dispatch now limits r s c of
        (r', s', Continue) \<Rightarrow> consume_chunks live draining dispatch limits r' s' cs
      | (r', s', stop) \<Rightarrow> (r', s', stop))"

lemma consume_chunks_stream:
  assumes "list_all (frame_ok limits) fs" "reader_pending fs p r"
    and "p @ concat (map snd cs) @ future = concat (map encode_frame fs)"
  shows "stream_run live draining dispatch fs future s (consume_chunks live draining dispatch limits r s cs)"
  using assms
proof (induction cs arbitrary: fs p r s)
  case Nil
  then show ?case by (auto intro: stream_run_start)
next
  case (Cons x cs)
  obtain now c where x: "x = (now, c)" by force
  obtain r1 s1 out where c: "consume_chunk live draining dispatch now limits r s c = (r1, s1, out)"
    by (metis prod_cases3)
  have "p @ c @ (concat (map snd cs) @ future) = concat (map encode_frame fs)"
    using Cons.prems(3) x by simp
  note S = consume_stream [OF Cons.prems(1,2) this, of live draining dispatch s now, unfolded c]
  show ?case
  proof (cases "out = Continue")
    case True
    with S obtain gs hs p1 where
      1: "fs = gs @ hs" "served live draining dispatch gs s = (s1, Continue)"
        "reader_pending hs p1 r1" "p1 @ concat (map snd cs) @ future = concat (map encode_frame hs)"
      by (auto simp: stream_run_def)
    have "list_all (frame_ok limits) hs" using Cons.prems(1) 1(1) by simp
    from stream_run_after [OF 1(2) Cons.IH [OF this 1(3,4), of s1]] show ?thesis
      using x c True 1(1) by simp
  next
    case False
    then show ?thesis using S x c by (cases out) (auto simp: stream_run_def)
  qed
qed

section \<open>The encoded-output queue\<close>

text \<open>Entries are shared chunks with the offset already written (\<open>VecDeque<(SharedChunk, usize)>\<close>,
  front first).\<close>

record out_queue =
  oq_entries :: "(bytes \<times> usize) list"
  oq_live_bytes :: usize
  oq_cap_bytes :: usize

definition out_new :: "usize \<Rightarrow> out_queue" where
  "out_new cap = \<lparr>oq_entries = [], oq_live_bytes = 0, oq_cap_bytes = cap\<rparr>"

definition out_set_cap :: "out_queue \<Rightarrow> usize \<Rightarrow> out_queue \<times> bool" where
  "out_set_cap q cap = (if oq_live_bytes q > cap then (q, False) else (q\<lparr>oq_cap_bytes := cap\<rparr>, True))"

definition push_shared :: "out_queue \<Rightarrow> bytes \<Rightarrow> out_queue \<times> bool" where
  "push_shared q chunk =
     (if chunk = [] then (q, True)
      else case checked_add_usize (oq_live_bytes q) (length chunk) of
        Some live \<Rightarrow>
          if live \<le> oq_cap_bytes q
          then (q\<lparr>oq_live_bytes := live, oq_entries := oq_entries q @ [(chunk, 0)]\<rparr>, True)
          else (q, False)
      | None \<Rightarrow> (q, False))"

definition push_frame :: "out_queue \<Rightarrow> frame \<Rightarrow> out_queue \<times> bool" where
  "push_frame q f = push_shared q (encode_into f [])"

text \<open>The drain loop over the entries; the live count is decremented with each accepted write.\<close>

fun flush_entries ::
  "'w writer \<Rightarrow> (bytes \<times> usize) list \<Rightarrow> usize \<Rightarrow> 'w \<Rightarrow>
   (bytes \<times> usize) list \<times> usize \<times> 'w \<times> (io_error + bool)" where
  "flush_entries write [] live st = ([], live, st, Inr True)"
| "flush_entries write ((chunk, off) # es) live st =
     (case write st (drop off chunk) of
        (st', Inl e) \<Rightarrow> ((chunk, off) # es, live, st', Inl e)
      | (st', Inr n) \<Rightarrow>
          if n > length chunk - off then ((chunk, off) # es, live, st', Inl Io_InvalidData)
          else if n = 0 then ((chunk, off) # es, live, st', Inl Io_WriteZero)
          else if off + n = length chunk then flush_entries write es (live - n) st'
          else ((chunk, off + n) # es, live - n, st', Inr False))"

definition flush_with :: "'w writer \<Rightarrow> out_queue \<Rightarrow> 'w \<Rightarrow> out_queue \<times> 'w \<times> (io_error + bool)" where
  "flush_with write q st =
     (case flush_entries write (oq_entries q) (oq_live_bytes q) st of
        (es, live, st', res) \<Rightarrow> (q\<lparr>oq_entries := es, oq_live_bytes := live\<rparr>, st', res))"

definition out_clear :: "out_queue \<Rightarrow> out_queue" where
  "out_clear q = q\<lparr>oq_entries := [], oq_live_bytes := 0\<rparr>"

subsection \<open>It is a bounded byte queue\<close>

definition entries_content :: "(bytes \<times> usize) list \<Rightarrow> bytes" where
  "entries_content es = concat (map (\<lambda>(c, off). drop off c) es)"

definition out_content :: "out_queue \<Rightarrow> bytes" where
  "out_content q = entries_content (oq_entries q)"

definition out_inv :: "out_queue \<Rightarrow> bool" where
  "out_inv q \<longleftrightarrow>
     list_all (\<lambda>(c, off). off < length c) (oq_entries q) \<and>
     oq_live_bytes q = length (out_content q) \<and>
     oq_live_bytes q \<le> oq_cap_bytes q \<and> oq_cap_bytes q < 2 ^ 64"

lemma entries_content_simps [simp]:
  "entries_content [] = []"
  "entries_content ((c, off) # es) = drop off c @ entries_content es"
  "entries_content (es @ es') = entries_content es @ entries_content es'"
  by (simp_all add: entries_content_def)

lemma flush_entries_law:
  assumes "flush_entries (logged w) es live (st, log) = (es', live', (st', log'), res)"
    and "list_all (\<lambda>(c, off). off < length c) es" and "live = length (entries_content es)"
  shows "list_all (\<lambda>(c, off). off < length c) es' \<and> live' = length (entries_content es') \<and>
    live' \<le> live \<and> log' @ entries_content es' = log @ entries_content es \<and>
    (res = Inr True \<longrightarrow> es' = [])"
  using assms
proof (induction es arbitrary: live st log)
  case Nil
  then show ?case by auto
next
  case (Cons e es)
  obtain c off where e: "e = (c, off)" by force
  obtain st1 r1 where w: "w st (drop off c) = (st1, r1)" by force
  have off: "off < length c" using Cons.prems(2) e by simp
  consider (Stop) err where "flush_entries (logged w) (e # es) live (st, log) = (e # es, live, (st1, log), Inl err)"
    | (Full) "flush_entries (logged w) (e # es) live (st, log)
        = flush_entries (logged w) es (live - (length c - off)) (st1, log @ drop off c)"
    | (Part) n where "flush_entries (logged w) (e # es) live (st, log)
        = ((c, off + n) # es, live - n, (st1, log @ take n (drop off c)), Inr False)"
      "0 < n" "off + n < length c"
  proof (cases r1)
    case (Inr n)
    have lw: "logged w (st, log) (drop off c)
        = ((st1, log @ (if n \<le> length c - off then take n (drop off c) else [])), Inr n)"
      using w Inr by (simp add: logged_def)
    consider "n > length c - off" | "n = 0" | "0 < n" "off + n = length c" | "0 < n" "off + n < length c"
      using off by linarith
    then show thesis
    proof cases
      case 3
      then have "n = length c - off" by simp
      with 3 show thesis by (intro that(2)) (simp add: e lw)
    next
      case 4
      then show thesis by (intro that(3) [of n]) (simp_all add: e lw)
    qed (use that(1) e lw off in simp_all)
  qed (use that(1) w e in \<open>simp add: logged_def\<close>)
  then show ?case
  proof cases
    case Full
    have "list_all (\<lambda>(c, off). off < length c) es" "live - (length c - off) = length (entries_content es)"
      using Cons.prems(2,3) e by simp_all
    from Cons.IH [OF Cons.prems(1) [unfolded Full] this] show ?thesis
      using e by auto
  next
    case (Part n)
    have "drop off c = take n (drop off c) @ drop (off + n) c"
      by (metis append_take_drop_id drop_drop add.commute)
    with Part Cons.prems e show ?thesis by auto
  qed (use Cons.prems in auto)
qed

interpretation outq: byte_queue out_content oq_live_bytes oq_cap_bytes out_inv push_shared
  flush_with out_clear
proof (unfold_locales, goal_cases)
  case (3 q b)
  then show ?case
    by (auto simp: push_shared_def out_inv_def out_content_def split: option.splits)
next
  case (4 q b)
  then show ?case
    by (auto simp: push_shared_def out_inv_def checked_add_usize_def)
next
  case (6 q w st log q' st' log' res)
  obtain es live where f: "flush_entries (logged w) (oq_entries q) (oq_live_bytes q) (st, log)
      = (es, live, (st', log'), res)" "q' = q\<lparr>oq_entries := es, oq_live_bytes := live\<rparr>"
    using 6(2) by (auto simp: flush_with_def split: prod.splits)
  from flush_entries_law [OF f(1)] 6(1) f(2) show ?case
    by (auto simp: out_inv_def out_content_def)
qed (auto simp: push_shared_def out_inv_def out_content_def checked_add_usize_def out_clear_def
  split: option.splits)

lemma out_new_inv: "cap < 2 ^ 64 \<Longrightarrow> out_inv (out_new cap) \<and> out_content (out_new cap) = []"
  by (simp add: out_inv_def out_new_def out_content_def)

lemma out_set_cap_inv:
  "out_inv q \<Longrightarrow> cap < 2 ^ 64 \<Longrightarrow> out_inv (fst (out_set_cap q cap)) \<and>
   out_content (fst (out_set_cap q cap)) = out_content q"
  by (auto simp: out_set_cap_def out_inv_def out_content_def)

section \<open>The writer-input queue\<close>

record input_queue =
  iq_chunks :: "bytes list"
  iq_front_off :: usize
  iq_live_bytes :: usize
  iq_cap_bytes :: usize

definition input_new :: "usize \<Rightarrow> input_queue" where
  "input_new cap = \<lparr>iq_chunks = [], iq_front_off = 0, iq_live_bytes = 0, iq_cap_bytes = cap\<rparr>"

definition input_push :: "input_queue \<Rightarrow> bytes \<Rightarrow> input_queue \<times> bool" where
  "input_push q bs =
     (if bs = [] then (q, True)
      else case checked_add_usize (iq_live_bytes q) (length bs) of
        Some live \<Rightarrow>
          if live \<le> iq_cap_bytes q
          then (q\<lparr>iq_live_bytes := live, iq_chunks := iq_chunks q @ [bs]\<rparr>, True)
          else (q, False)
      | None \<Rightarrow> (q, False))"

text \<open>The drain loop: the offset belongs to the front chunk only.\<close>

fun drain_chunks ::
  "'w writer \<Rightarrow> bytes list \<Rightarrow> usize \<Rightarrow> usize \<Rightarrow> 'w \<Rightarrow>
   bytes list \<times> usize \<times> usize \<times> 'w \<times> (io_error + bool)" where
  "drain_chunks write [] off live st = ([], off, live, st, Inr True)"
| "drain_chunks write (front # cs) off live st =
     (case write st (drop off front) of
        (st', Inl e) \<Rightarrow> (front # cs, off, live, st', Inl e)
      | (st', Inr n) \<Rightarrow>
          if n > length front - off then (front # cs, off, live, st', Inl Io_InvalidData)
          else if n = 0 then (front # cs, off, live, st', Inl Io_WriteZero)
          else if off + n = length front then drain_chunks write cs 0 (live - n) st'
          else (front # cs, off + n, live - n, st', Inr False))"

definition drain_with :: "'w writer \<Rightarrow> input_queue \<Rightarrow> 'w \<Rightarrow> input_queue \<times> 'w \<times> (io_error + bool)" where
  "drain_with write q st =
     (case drain_chunks write (iq_chunks q) (iq_front_off q) (iq_live_bytes q) st of
        (cs, off, live, st', res) \<Rightarrow>
          (q\<lparr>iq_chunks := cs, iq_front_off := off, iq_live_bytes := live\<rparr>, st', res))"

definition input_clear :: "input_queue \<Rightarrow> input_queue" where
  "input_clear q = q\<lparr>iq_chunks := [], iq_front_off := 0, iq_live_bytes := 0\<rparr>"

subsection \<open>It is the output queue with the offset factored out\<close>

text \<open>An input queue is an output queue whose entries after the front have offset 0; the
  simulation carries every law of the byte queue over.\<close>

definition mark_front :: "usize \<Rightarrow> bytes list \<Rightarrow> (bytes \<times> usize) list" where
  "mark_front off cs = (case cs of [] \<Rightarrow> [] | c # cs \<Rightarrow> (c, off) # map (\<lambda>c. (c, 0)) cs)"

definition input_abs :: "input_queue \<Rightarrow> out_queue" where
  "input_abs q = \<lparr>oq_entries = mark_front (iq_front_off q) (iq_chunks q),
     oq_live_bytes = iq_live_bytes q, oq_cap_bytes = iq_cap_bytes q\<rparr>"

definition input_content :: "input_queue \<Rightarrow> bytes" where
  "input_content q = out_content (input_abs q)"

definition input_inv :: "input_queue \<Rightarrow> bool" where
  "input_inv q \<longleftrightarrow> out_inv (input_abs q) \<and> (iq_chunks q = [] \<longrightarrow> iq_front_off q = 0)"

lemma mark_front_0: "mark_front 0 cs = map (\<lambda>c. (c, 0)) cs"
  by (cases cs) (simp_all add: mark_front_def)

lemma mark_front_snoc: "(cs = [] \<longrightarrow> off = 0) \<Longrightarrow> mark_front off (cs @ [b]) = mark_front off cs @ [(b, 0)]"
  by (cases cs) (simp_all add: mark_front_def)

lemma drain_chunks_flush:
  "drain_chunks w cs off live st = (cs', off', live', st', res) \<Longrightarrow> (cs = [] \<longrightarrow> off = 0) \<Longrightarrow>
   flush_entries w (mark_front off cs) live st = (mark_front off' cs', live', st', res) \<and>
   (cs' = [] \<longrightarrow> off' = 0)"
proof (induction cs arbitrary: off live st)
  case Nil
  then show ?case by (auto simp: mark_front_def)
next
  case (Cons c cs)
  obtain st1 r1 where w: "w st (drop off c) = (st1, r1)" by force
  show ?case
  proof (cases "\<exists>n. r1 = Inr n \<and> n \<noteq> 0 \<and> n \<le> length c - off \<and> off + n = length c")
    case True
    then obtain n where n: "r1 = Inr n" "n \<noteq> 0" "n \<le> length c - off" "off + n = length c" by blast
    then have "drain_chunks w cs 0 (live - n) st1 = (cs', off', live', st', res)"
      using Cons.prems w by (simp add: Let_def)
    from Cons.IH [OF this] n w show ?thesis by (simp add: mark_front_0 mark_front_def [of off "c # cs"])
  next
    case False
    with Cons.prems w show ?thesis
      by (auto simp: mark_front_def Let_def split: sum.splits if_splits)
  qed
qed

lemma input_push_abs:
  "input_inv q \<Longrightarrow> (input_abs (fst (input_push q b)), snd (input_push q b)) = push_shared (input_abs q) b \<and>
   (iq_chunks (fst (input_push q b)) = [] \<longrightarrow> iq_front_off (fst (input_push q b)) = 0)"
  by (auto simp: input_push_def push_shared_def input_abs_def input_inv_def mark_front_snoc
      split: option.splits)

lemma drain_with_abs:
  assumes "input_inv q" "drain_with w q st = (q', st', res)"
  shows "flush_with w (input_abs q) st = (input_abs q', st', res) \<and>
    (iq_chunks q' = [] \<longrightarrow> iq_front_off q' = 0) \<and> iq_cap_bytes q' = iq_cap_bytes q"
proof -
  obtain cs off live where d: "drain_chunks w (iq_chunks q) (iq_front_off q) (iq_live_bytes q) st
      = (cs, off, live, st', res)" "q' = q\<lparr>iq_chunks := cs, iq_front_off := off, iq_live_bytes := live\<rparr>"
    using assms(2) by (auto simp: drain_with_def split: prod.splits)
  from drain_chunks_flush [OF d(1)] assms(1) d(2) show ?thesis
    by (simp add: flush_with_def input_abs_def input_inv_def)
qed

interpretation inq: byte_queue input_content iq_live_bytes iq_cap_bytes input_inv input_push
  drain_with input_clear
proof (unfold_locales, goal_cases)
  case (1 q)
  then show ?case
    using outq.inv_live [of "input_abs q"] by (simp add: input_inv_def input_content_def input_abs_def)
next
  case (2 q b)
  then show ?case
    using input_push_abs [of q b] outq.push_inv [of "input_abs q" b]
    by (simp add: input_inv_def) (metis fst_conv)
next
  case (3 q b)
  then show ?case
    using input_push_abs [of q b] outq.push_content [of "input_abs q" b]
    by (simp add: input_inv_def input_content_def) (metis fst_conv snd_conv)
next
  case (4 q b)
  have "snd (input_push q b) = snd (push_shared (input_abs q) b)"
    using input_push_abs [OF 4, of b] by (metis snd_conv)
  with 4 outq.push_accepts [of "input_abs q" b] show ?case
    by (simp add: input_inv_def input_content_def) (simp add: input_abs_def)
next
  case (5 q b)
  then show ?case by (auto simp: input_push_def split: option.splits)
next
  case (6 q w st log q' st' log' res)
  from drain_with_abs [OF this] show ?case
    using 6(1) outq.drain_law [of "input_abs q" w st log "input_abs q'" st' log' res]
    by (simp add: input_inv_def input_content_def)
next
  case (7 q)
  then show ?case
    by (auto simp: input_inv_def input_content_def input_clear_def input_abs_def mark_front_def
        out_inv_def out_content_def)
qed

section \<open>The per-connection aggregate\<close>

record client_conn =
  cc_role :: conn_role
  cc_reader :: frame_reader
  cc_out :: out_queue
  cc_input :: input_queue
  cc_draining :: bool
  cc_reply_deadline_at :: "u64 option"

definition conn_new :: "pty_limits \<Rightarrow> client_conn" where
  "conn_new limits =
     \<lparr>cc_role = ConnRole_AwaitingFirstFrame, cc_reader = reader_new,
      cc_out = out_new (observer_queue_bytes limits),
      cc_input = input_new (writer_input_queue_bytes limits),
      cc_draining = False, cc_reply_deadline_at = None\<rparr>"

definition set_role :: "client_conn \<Rightarrow> pty_limits \<Rightarrow> conn_role \<Rightarrow> client_conn \<times> (io_error + unit)" where
  "set_role c limits role =
     (let cap = (case role of ConnRole_Writer _ \<Rightarrow> writer_queue_bytes limits
                 | _ \<Rightarrow> observer_queue_bytes limits)
      in case out_set_cap (cc_out c) cap of
           (q, False) \<Rightarrow> (c\<lparr>cc_out := q\<rparr>, Inl Io_InvalidInput)
         | (q, True) \<Rightarrow> (c\<lparr>cc_out := q, cc_role := role\<rparr>, Inr ()))"

definition begin_draining :: "client_conn \<Rightarrow> client_conn" where
  "begin_draining c = c\<lparr>cc_draining := True\<rparr>"

definition arm_reply_deadline :: "client_conn \<Rightarrow> u64 \<Rightarrow> u64 \<Rightarrow> client_conn" where
  "arm_reply_deadline c now_ms deadline_ms =
     (if cc_reply_deadline_at c = None
      then c\<lparr>cc_reply_deadline_at :=
             Some (case checked_add now_ms deadline_ms of Some t \<Rightarrow> t | None \<Rightarrow> now_ms)\<rparr>
      else c)"

definition reply_deadline_expired :: "client_conn \<Rightarrow> u64 \<Rightarrow> bool" where
  "reply_deadline_expired c now_ms =
     (case cc_reply_deadline_at c of Some at \<Rightarrow> now_ms \<ge> at | None \<Rightarrow> False)"

definition aggregate_live_bytes :: "out_queue list \<Rightarrow> usize" where
  "aggregate_live_bytes qs = foldl (\<lambda>acc q. saturating_add_usize acc (oq_live_bytes q)) 0 qs"

section \<open>Bounds on what an unauthenticated peer can make the reader own\<close>

definition reader_inv :: "pty_limits \<Rightarrow> frame_reader \<Rightarrow> bool" where
  "reader_inv limits r \<longleftrightarrow>
     (case fr_phase r of
        Phase_Header \<Rightarrow> length (fr_buf r) \<le> HEADER_LEN
      | Phase_Body tot \<Rightarrow>
          HEADER_LEN \<le> tot \<and> length (fr_buf r) \<le> tot \<and> tot \<le> frame_max_body limits + 4)"

lemma validate_header_bound:
  "validate_header buf limits = Inr tot \<Longrightarrow> HEADER_LEN \<le> tot \<and> tot \<le> frame_max_body limits + 4"
  by (auto simp: validate_header_def Let_def HEADER_LEN_def split: if_splits option.splits sum.splits)

lemma append_body_inv:
  assumes "reader_inv limits r" "taken \<le> length bs" "append_body r bs taken = (r', n)"
  shows "reader_inv limits r' \<and> n \<le> length bs \<and> taken \<le> n \<and>
    length (fr_buf r') = length (fr_buf r) + (n - taken)"
  using assms by (auto simp: append_body_def reader_inv_def Let_def split: reader_phase.splits if_splits)

lemma reader_append_inv:
  assumes inv: "reader_inv limits r" and app: "reader_append r bs now limits = (r', n)"
  shows "reader_inv limits r' \<and> length (fr_buf r') = length (fr_buf r) + n \<and> n \<le> length bs"
proof (cases "fr_fatal r \<noteq> None \<or> bs = []")
  case True
  with assms show ?thesis by (auto simp: reader_append_def)
next
  case False
  show ?thesis
  proof (cases "fr_phase r")
    case (Phase_Body tot)
    with append_body_inv [OF inv, of 0 bs r' n] app False show ?thesis
      by (auto simp: reader_append_def)
  next
    case Phase_Header
    define tk where "tk = min (HEADER_LEN - length (fr_buf r)) (length bs)"
    define r1 where "r1 = r\<lparr>fr_started_ms := (if fr_buf r = [] \<and> tk > 0 then Some now else fr_started_ms r),
                     fr_buf := fr_buf r @ take tk bs\<rparr>"
    have r1: "fr_phase r1 = Phase_Header" "length (fr_buf r1) = length (fr_buf r) + tk"
      "tk \<le> length bs" "length (fr_buf r1) \<le> HEADER_LEN"
      using inv Phase_Header by (auto simp: r1_def tk_def reader_inv_def)
    have eq: "reader_append r bs now limits =
       (if length (fr_buf r1) < HEADER_LEN then (r1, tk)
        else (case validate_header (fr_buf r1) limits of
                Inr tot \<Rightarrow> append_body (r1\<lparr>fr_phase := Phase_Body tot\<rparr>) bs tk
              | Inl e \<Rightarrow> (r1\<lparr>fr_fatal := Some e\<rparr>, tk)))"
      using False Phase_Header unfolding reader_append_def Let_def tk_def [symmetric] r1_def [symmetric]
      by simp
    show ?thesis
    proof (cases "length (fr_buf r1) < HEADER_LEN")
      case True
      with eq app r1 show ?thesis by (auto simp: reader_inv_def)
    next
      case full: False
      show ?thesis
      proof (cases "validate_header (fr_buf r1) limits")
        case (Inl e)
        with eq app r1 full show ?thesis by (auto simp: reader_inv_def)
      next
        case (Inr tot)
        have "reader_inv limits (r1\<lparr>fr_phase := Phase_Body tot\<rparr>)"
          using validate_header_bound [OF Inr] r1(4) by (simp add: reader_inv_def)
        from append_body_inv [OF this r1(3), of r' n] eq app full Inr r1(2) show ?thesis
          by simp
      qed
    qed
  qed
qed

lemma take_frame_inv: "reader_inv limits r \<Longrightarrow> take_frame r limits = (r', res) \<Longrightarrow> reader_inv limits r'"
  by (auto simp: take_frame_def reader_inv_def
      split: option.splits if_splits sum.splits reader_phase.splits)

lemma take_all_inv:
  "take_all live dispatch limits r s = (r', s', out) \<Longrightarrow> reader_inv limits r \<Longrightarrow> reader_inv limits r'"
proof (induction live dispatch limits r s rule: take_all.induct)
  case (1 live dispatch limits r s)
  obtain r1 res where t: "take_frame r limits = (r1, res)" by force
  note inv1 = take_frame_inv [OF 1(3) t]
  show ?case
  proof (cases "\<exists>f. res = Inr (Some f) \<and> live (dispatch f s)")
    case True
    then obtain f where f: "res = Inr (Some f)" "live (dispatch f s)" by blast
    with 1(2) t have "take_all live dispatch limits r1 (dispatch f s) = (r', s', out)"
      by (subst (asm) take_all.simps) simp
    with 1(1) [OF t [symmetric] f(1) refl refl] f inv1 show ?thesis by simp
  next
    case False
    with 1(2) t inv1 show ?thesis
      by (subst (asm) take_all.simps) (auto simp: Let_def split: sum.splits option.splits if_splits)
  qed
qed

lemma consume_chunk_inv:
  "consume_chunk live draining dispatch now limits r s bs = (r', s', out) \<Longrightarrow> reader_inv limits r \<Longrightarrow>
   reader_inv limits r'"
proof (induction live draining dispatch now limits r s bs rule: consume_chunk.induct)
  case (1 live draining dispatch now limits r s bs)
  show ?case
  proof (cases "bs = [] \<or> \<not> live s \<or> draining s")
    case True
    with 1(2,3) show ?thesis by (subst (asm) consume_chunk.simps) (auto split: if_splits)
  next
    case False
    obtain r1 n where a: "reader_append r bs now limits = (r1, n)" by force
    obtain r2 s2 o2 where t: "take_all live dispatch limits r1 s = (r2, s2, o2)"
      by (metis prod_cases3)
    note inv1 = conjunct1 [OF reader_append_inv [OF 1(3) a]]
    note inv2 = take_all_inv [OF t inv1]
    show ?thesis
    proof (cases "n = 0 \<or> o2 \<noteq> Continue")
      case True
      with 1(2) False a t inv1 inv2 show ?thesis
        by (subst (asm) consume_chunk.simps) (auto split: consume_outcome.splits if_splits)
    next
      case go: False
      with 1(2) False a t
      have "consume_chunk live draining dispatch now limits r2 s2 (drop n bs) = (r', s', out)"
        by (subst (asm) consume_chunk.simps) simp
      with 1(1) [OF _ _ _ a [symmetric] _ t [symmetric] refl] go False inv2 show ?thesis by auto
    qed
  qed
qed

section \<open>Properties\<close>

text \<open>C3: however the byte stream of a sequence of valid frames is cut into received chunks, and
  whenever each arrives, the broker's read loop serves those frames one by one, in order: it hands
  over every frame and ends with the reader idle, or it stops because a frame closed the connection
  or left it draining, and then it has handed over the frames up to that one and no other.\<close>

theorem frames_recovered_from_chunks:
  assumes "list_all (frame_ok limits) fs"
    and "concat (map snd cs) = concat (map encode_frame fs)"
  shows "\<exists>r'. consume_chunks live draining dispatch limits reader_new s cs = (r', served live draining dispatch fs s) \<and>
    (snd (served live draining dispatch fs s) = Continue \<longrightarrow> reader_idle r')"
proof -
  obtain r' s' out where run: "consume_chunks live draining dispatch limits reader_new s cs = (r', s', out)"
    by (metis prod_cases3)
  have S: "stream_run live draining dispatch fs [] s (r', s', out)"
    using consume_chunks_stream [OF assms(1) reader_pending_idle [OF reader_idle_new], of cs "[]" live draining dispatch s]
      assms(2) run by simp
  show ?thesis
  proof (cases "out = Continue")
    case True
    then obtain gs hs p' where *: "fs = gs @ hs" "served live draining dispatch gs s = (s', Continue)"
        "reader_pending hs p' r'" "p' = concat (map encode_frame hs)"
      using S by (auto simp: stream_run_def)
    have "hs = []"
    proof (rule ccontr)
      assume "hs \<noteq> []"
      then obtain f hs' where "hs = f # hs'" by (cases hs) auto
      with *(3,4) show False
        by (auto simp: strict_prefix_def prefix_def)
    qed
    with * run True show ?thesis by simp
  qed (use S run in \<open>auto simp: stream_run_def\<close>)
qed

lemma frames_recovered_from_chunks_witness:
  "\<exists>r'. consume_chunks (\<lambda>_. True) (\<lambda>log. Frame_Kill \<in> set log) (\<lambda>f log. log @ [f]) default_pty_limits reader_new []
      [(0, [0, 0, 0]), (7, [2, 1, 8, 0, 0, 0]), (9, [2, 1, 9, 0, 0, 0, 2, 1]), (9, [8])] =
    (r', [Frame_DetachWriter, Frame_Kill], Stop_Draining)"
  using frames_recovered_from_chunks [of default_pty_limits "[Frame_DetachWriter, Frame_Kill, Frame_DetachWriter]"
      "[(0, [0, 0, 0]), (7, [2, 1, 8, 0, 0, 0]), (9, [2, 1, 9, 0, 0, 0, 2, 1]), (9, [8])]"
      "\<lambda>_. True" "\<lambda>log. Frame_Kill \<in> set log" "\<lambda>f log. log @ [f]" "[]"]
  by (simp add: frame_ok_def default_pty_limits_def encode_frame_def encode_into_def
      be_bytes_def PROTOCOL_VERSION_def codec_simps)

text \<open>Whatever bytes a peer sends, however they are cut, and wherever the loop stops, the
  reader never owns more than the configured body limit plus the four-byte length prefix (or a
  bare header).\<close>

theorem reader_memory_bounded:
  "length (fr_buf (fst (consume_chunks live draining dispatch limits reader_new s cs)))
     \<le> max HEADER_LEN (frame_max_body limits + 4)"
proof -
  have "reader_inv limits (fst (consume_chunks live draining dispatch limits r s cs))"
    if "reader_inv limits r" for r s
    using that
  proof (induction cs arbitrary: r s)
    case (Cons x cs)
    obtain now c where x: "x = (now, c)" by force
    obtain r1 s1 o1 where *: "consume_chunk live draining dispatch now limits r s c = (r1, s1, o1)"
      by (metis prod_cases3)
    from Cons.IH [OF consume_chunk_inv [OF * Cons.prems]] consume_chunk_inv [OF * Cons.prems] * x
    show ?case by (cases o1) auto
  qed simp
  moreover have "reader_inv limits reader_new"
    by (simp add: reader_inv_def reader_new_def)
  ultimately have "reader_inv limits (fst (consume_chunks live draining dispatch limits reader_new s cs))"
    by blast
  then show ?thesis
    by (auto simp: reader_inv_def split: reader_phase.splits)
qed

text \<open>Over any history of pushes, flushes and clears through any writers (partial, failing,
  over-reporting), the bytes the writers took followed by the bytes still queued are exactly the
  chunks accepted since the last clear, in order, and the queue never holds more than its cap.\<close>

theorem out_queue_fifo:
  fixes cap :: u64
  shows "case queue_run push_shared flush_with out_clear ops (out_new (unat cap), st, [], []) of
    (q, st', written, accepted) \<Rightarrow>
      written @ out_content q = accepted \<and> oq_live_bytes q = length (out_content q) \<and>
      oq_live_bytes q \<le> unat cap"
proof -
  have "out_inv (out_new (unat cap))" "out_content (out_new (unat cap)) = []"
    using out_new_inv [of "unat cap"] unat_lt_64 [of cap] by simp_all
  with outq.run_fifo [of "out_new (unat cap)" "[]" "[]"] outq.inv_live show ?thesis
    by (fastforce simp: out_new_def split: prod.splits)
qed

text \<open>The same for the writer-input queue towards the PTY.\<close>

theorem input_queue_fifo:
  fixes cap :: u64
  shows "case queue_run input_push drain_with input_clear ops (input_new (unat cap), st, [], []) of
    (q, st', written, accepted) \<Rightarrow>
      written @ input_content q = accepted \<and> iq_live_bytes q = length (input_content q) \<and>
      iq_live_bytes q \<le> unat cap"
proof -
  have "input_inv (input_new (unat cap))" "input_content (input_new (unat cap)) = []"
    using unat_lt_64 [of cap]
    by (simp_all add: input_inv_def input_new_def input_abs_def mark_front_def out_inv_def
        input_content_def out_content_def)
  with inq.run_fifo [of "input_new (unat cap)" "[]" "[]"] inq.inv_live show ?thesis
    by (fastforce simp: input_new_def split: prod.splits)
qed

text \<open>A role change succeeds exactly when the live output fits the new role's cap, keeps the
  queued bytes, and on refusal changes nothing.\<close>

lemma set_role_spec:
  assumes "out_inv (cc_out c)"
  shows "set_role c limits role =
    (if length (out_content (cc_out c)) \<le>
        (case role of ConnRole_Writer _ \<Rightarrow> writer_queue_bytes limits | _ \<Rightarrow> observer_queue_bytes limits)
     then (c\<lparr>cc_out := (cc_out c)\<lparr>oq_cap_bytes :=
             (case role of ConnRole_Writer _ \<Rightarrow> writer_queue_bytes limits | _ \<Rightarrow> observer_queue_bytes limits)\<rparr>,
             cc_role := role\<rparr>, Inr ())
     else (c, Inl Io_InvalidInput))"
  using assms by (auto simp: set_role_def out_set_cap_def out_inv_def Let_def)

text \<open>The reply deadline is armed once; it expires exactly once \<open>deadline_ms\<close> have passed,
  and at once when the deadline does not fit the clock.\<close>

theorem reply_deadline_spec:
  "reply_deadline_expired
     (arm_reply_deadline (arm_reply_deadline (c\<lparr>cc_reply_deadline_at := None\<rparr>) now d) now' d') t \<longleftrightarrow>
   unat t \<ge> (if unat now + unat d < 2 ^ 64 then unat now + unat d else unat now)"
  by (auto simp: arm_reply_deadline_def reply_deadline_expired_def word_le_nat_alt
      split: option.splits dest: checked_add_Some)
    (auto simp: checked_add_def split: if_splits)

text \<open>The aggregate over consumers is the true total until it saturates.\<close>

theorem aggregate_live_bytes_spec:
  "aggregate_live_bytes qs = min (sum_list (map oq_live_bytes qs)) (2 ^ 64 - 1)"
proof -
  have "foldl (\<lambda>acc q. saturating_add_usize acc (oq_live_bytes q)) (min a (2 ^ 64 - 1)) qs
      = min (a + sum_list (map oq_live_bytes qs)) (2 ^ 64 - 1)" for a
  proof (induction qs arbitrary: a)
    case (Cons q qs)
    have "saturating_add_usize (min a (2 ^ 64 - 1)) (oq_live_bytes q) = min (a + oq_live_bytes q) (2 ^ 64 - 1)"
      by (simp add: saturating_add_usize_def)
    with Cons.IH [of "a + oq_live_bytes q"] show ?case by (simp add: add.assoc)
  qed simp
  from this [of 0] show ?thesis by (simp add: aggregate_live_bytes_def)
qed

end
