(* ===== verification/Pty_State.thy ===== *)
theory Pty_State
  imports Pty_Lifecycle Pty_Client
begin

text \<open>
  The broker's pure event reducer (\<open>crates/everpty/src/state.rs\<close>): one connection or process
  event is turned into the new runtime and an ordered list of effects. The runtime holds the
  lifecycle machine, the observer set, the client-id sequence, the first terminal request and
  the control connections waiting for the final \<open>Exit\<close>. The reducer is an instance of the
  event machine interface, so that every fact below is proved for one event and carried to all
  event sequences.
\<close>

type_synonym conn_id = u64

section \<open>Error frames\<close>

datatype error_code =
    ErrorCode_Protocol | ErrorCode_Forbidden | ErrorCode_NoWriter | ErrorCode_ResourceLimit
  | ErrorCode_Internal

fun error_code_u16 :: "error_code \<Rightarrow> u16" where
  "error_code_u16 ErrorCode_Protocol = 1"
| "error_code_u16 ErrorCode_Forbidden = 2"
| "error_code_u16 ErrorCode_NoWriter = 3"
| "error_code_u16 ErrorCode_ResourceLimit = 4"
| "error_code_u16 ErrorCode_Internal = 5"

text \<open>\<open>str::is_char_boundary\<close>, and the loop that walks down to the next boundary.\<close>

definition is_char_boundary :: "bytes \<Rightarrow> usize \<Rightarrow> bool" where
  "is_char_boundary t i \<longleftrightarrow> i = 0 \<or> i = length t \<or> (i < length t \<and> \<not> utf8_cont (t ! i))"

fun floor_boundary :: "bytes \<Rightarrow> usize \<Rightarrow> usize" where
  "floor_boundary t 0 = 0"
| "floor_boundary t (Suc n) = (if is_char_boundary t (Suc n) then Suc n else floor_boundary t n)"

definition error_frame :: "error_code \<Rightarrow> bytes \<Rightarrow> pty_limits \<Rightarrow> frame" where
  "error_frame code text limits =
     (let cap = min (min (error_text_max limits) 65535) (frame_max_body limits - 6);
          t = (if length text > cap then take (floor_boundary text cap) text else text)
      in Frame_Error (error_code_u16 code) t)"

section \<open>The observer set\<close>

record observer_set =
  members :: "u32 list"
  observer_cap :: usize

definition observers_new :: "usize \<Rightarrow> observer_set" where
  "observers_new cap = \<lparr>members = [], observer_cap = cap\<rparr>"

definition is_full :: "observer_set \<Rightarrow> bool" where
  "is_full s \<longleftrightarrow> length (members s) \<ge> observer_cap s"

definition join :: "observer_set \<Rightarrow> u32 \<Rightarrow> observer_set \<times> bool" where
  "join s client_id =
     (if is_full s \<or> List.member (members s) client_id then (s, False)
      else (s\<lparr>members := members s @ [client_id]\<rparr>, True))"

definition leave :: "observer_set \<Rightarrow> u32 \<Rightarrow> observer_set" where
  "leave s client_id = s\<lparr>members := filter (\<lambda>i. i \<noteq> client_id) (members s)\<rparr>"

section \<open>The runtime\<close>

record runtime =
  rt_state :: broker_state
  rt_observers :: observer_set
  session_name :: bytes
  next_client_id :: u32
  terminal_request :: "terminal_cause option"
  kill_waiters :: "conn_id list"
  kill_started :: bool

definition new_ready :: "bytes \<Rightarrow> pty_limits \<Rightarrow> invalid_transition + runtime" where
  "new_ready name limits =
     try_bind (ready broker_new) (\<lambda>s. Inr
       \<lparr>rt_state = s, rt_observers = observers_new (observer_count limits), session_name = name,
        next_client_id = 1, terminal_request = None, kill_waiters = [], kill_started = False\<rparr>)"

definition peek_client_id :: "runtime \<Rightarrow> u32 option" where
  "peek_client_id rt = (if next_client_id rt = - 1 then None else Some (next_client_id rt))"

definition commit_client_id :: "runtime \<Rightarrow> u32 \<Rightarrow> runtime \<times> bool" where
  "commit_client_id rt candidate =
     (if next_client_id rt \<noteq> candidate then (rt, False)
      else case checked_add candidate 1 of
        Some nxt \<Rightarrow> (rt\<lparr>next_client_id := nxt\<rparr>, True)
      | None \<Rightarrow> (rt, False))"

definition latch_terminal :: "runtime \<Rightarrow> terminal_cause \<Rightarrow> runtime" where
  "latch_terminal rt cause =
     (if terminal_request rt = None then rt\<lparr>terminal_request := Some cause\<rparr> else rt)"

section \<open>Effects and events\<close>

datatype target = Target_Conn conn_id | Target_Client u32

datatype effect =
    SetRole target conn_role
  | QueueFrame target frame
  | DeliverInput u32 bytes
  | DropQueues target
  | CloseNow conn_id
  | CloseAfterFlush conn_id
  | CloseClientNow u32
  | CloseClientAfterFlush u32
  | SpawnChild u16 u16
  | BeginKill
  | ApplyDimensions u16 u16
  | ApplySignal u8
  | Shutdown

datatype event =
    Event_Frame conn_id conn_role frame
  | Disconnected conn_id conn_role
  | IncompleteFrameExpired conn_id
  | ReplyDeadlineExpired conn_id
  | StartupDeadlineExpired
  | TerminationRequested
  | ChildExitObserved bool u32
  | ChildFinished bool u32
  | SpawnFailed
  | InternalFailureRequested

section \<open>The handlers\<close>

definition protocol_error :: "pty_limits \<Rightarrow> conn_id \<Rightarrow> effect list" where
  "protocol_error limits conn =
     [QueueFrame (Target_Conn conn) (error_frame ErrorCode_Protocol (str_bytes ''protocol error'') limits),
      CloseAfterFlush conn]"

definition close_after_flush :: "effect list \<Rightarrow> conn_id \<Rightarrow> effect list" where
  "close_after_flush fx conn = fx @ [CloseAfterFlush conn]"

definition resource_limit_close :: "pty_limits \<Rightarrow> conn_id \<Rightarrow> effect list" where
  "resource_limit_close limits conn = close_after_flush
     [QueueFrame (Target_Conn conn)
        (error_frame ErrorCode_ResourceLimit (str_bytes ''client ids exhausted'') limits)] conn"

definition internal_error_close :: "pty_limits \<Rightarrow> conn_id \<Rightarrow> effect list" where
  "internal_error_close limits conn = close_after_flush
     [QueueFrame (Target_Conn conn)
        (error_frame ErrorCode_Internal (str_bytes ''internal error'') limits)] conn"

definition request_kill :: "runtime \<Rightarrow> terminal_cause \<Rightarrow> runtime \<times> effect list" where
  "request_kill rt cause =
     (if lifecycle (rt_state rt) \<noteq> Running then (rt, [])
      else let rt1 = latch_terminal rt cause in
        if kill_started rt1 then (rt1, []) else (rt1\<lparr>kill_started := True\<rparr>, [BeginKill]))"

definition writer_of :: "runtime \<Rightarrow> u32 option" where
  "writer_of rt = (case ownership (rt_state rt) of Writer w \<Rightarrow> Some w | NoWriter \<Rightarrow> None)"

text \<open>The notices of \<open>child_finished\<close>: every \<open>Exit\<close> frame is queued before the first close.\<close>

definition exit_effects :: "u32 option \<Rightarrow> u32 list \<Rightarrow> conn_id list \<Rightarrow> frame \<Rightarrow> effect list" where
  "exit_effects writer observers waiters exit =
     (case writer of Some c \<Rightarrow> [QueueFrame (Target_Client c) exit] | None \<Rightarrow> [])
     @ map (\<lambda>c. QueueFrame (Target_Client c) exit) observers
     @ map (\<lambda>c. QueueFrame (Target_Conn c) exit) waiters
     @ (case writer of Some c \<Rightarrow> [CloseClientAfterFlush c] | None \<Rightarrow> [])
     @ map CloseClientAfterFlush observers
     @ map CloseAfterFlush waiters
     @ [Shutdown]"

definition child_finished :: "runtime \<Rightarrow> bool \<Rightarrow> u32 \<Rightarrow> runtime \<times> effect list" where
  "child_finished rt signal value =
     (if lifecycle (rt_state rt) \<noteq> Running then (rt, [])
      else
        let writer = writer_of rt;
            observers = members (rt_observers rt);
            waiters = kill_waiters rt;
            cause = (case terminal_request rt of Some c \<Rightarrow> c | None \<Rightarrow> ChildExit signal value);
            exited = (case cause of ChildExit _ _ \<Rightarrow> True | KillRequested \<Rightarrow> True | _ \<Rightarrow> False)
        in case terminate_with (rt_state rt) cause exited of
          Inl _ \<Rightarrow> (rt, [Shutdown])
        | Inr nxt \<Rightarrow>
            (rt\<lparr>rt_state := nxt, kill_waiters := []\<rparr>,
             exit_effects writer observers waiters (Frame_Exit signal value)))"

definition spawn_failed_effects :: "pty_limits \<Rightarrow> u32 option \<Rightarrow> u32 list \<Rightarrow> conn_id list \<Rightarrow> effect list" where
  "spawn_failed_effects limits writer observers waiters =
     (case writer of
        Some c \<Rightarrow>
          [QueueFrame (Target_Client c)
             (error_frame ErrorCode_Internal (str_bytes ''child spawn failed'') limits),
           CloseClientAfterFlush c]
      | None \<Rightarrow> [])
     @ map CloseClientNow observers
     @ map CloseNow waiters
     @ [Shutdown]"

definition spawn_failed :: "runtime \<Rightarrow> pty_limits \<Rightarrow> runtime \<times> effect list" where
  "spawn_failed rt limits =
     (if lifecycle (rt_state rt) = Exited \<or> lifecycle (rt_state rt) = Failed then (rt, [])
      else
        let writer = writer_of rt;
            observers = members (rt_observers rt);
            rt1 = latch_terminal rt InternalError
        in case terminate_with (rt_state rt1) InternalError False of
          Inl _ \<Rightarrow> (rt1, [Shutdown])
        | Inr nxt \<Rightarrow>
            (rt1\<lparr>rt_state := nxt, kill_waiters := []\<rparr>,
             spawn_failed_effects limits writer observers (kill_waiters rt1)))"

definition on_writer_frame ::
  "runtime \<Rightarrow> pty_limits \<Rightarrow> conn_id \<Rightarrow> u32 \<Rightarrow> frame \<Rightarrow> runtime \<times> effect list" where
  "on_writer_frame rt limits conn client_id f =
     (let is_current = (ownership (rt_state rt) = Writer client_id);
          otherwise = (rt, protocol_error limits conn)
      in case f of
        Frame_Input bs \<Rightarrow> if is_current then (rt, [DeliverInput client_id bs]) else otherwise
      | Frame_Resize rows cols \<Rightarrow>
          if rows = 0 \<or> cols = 0 \<or> \<not> is_current then (rt, protocol_error limits conn)
          else (rt, [ApplyDimensions rows cols])
      | Frame_Signal signal \<Rightarrow>
          if is_current \<and> signal_is_allowed signal then (rt, [ApplySignal signal]) else otherwise
      | Frame_DetachWriter \<Rightarrow>
          if is_current then
            (case revoke_writer (rt_state rt) of
               Inl _ \<Rightarrow> (rt, internal_error_close limits conn)
             | Inr nxt \<Rightarrow>
                 (rt\<lparr>rt_state := nxt\<rparr>,
                  [DropQueues (Target_Conn conn),
                   QueueFrame (Target_Conn conn) (Frame_Ownership Ownership_Revoked),
                   CloseAfterFlush conn]))
          else otherwise
      | _ \<Rightarrow> otherwise)"

definition control_detach :: "runtime \<Rightarrow> pty_limits \<Rightarrow> conn_id \<Rightarrow> runtime \<times> effect list" where
  "control_detach rt limits conn =
     (let fx = [SetRole (Target_Conn conn) ConnRole_Control] in
      case ownership (rt_state rt) of
        NoWriter \<Rightarrow>
          (rt, fx @ [QueueFrame (Target_Conn conn)
                       (error_frame ErrorCode_NoWriter (str_bytes ''no writer'') limits),
                     CloseAfterFlush conn])
      | Writer w \<Rightarrow>
          (case revoke_writer (rt_state rt) of
             Inl _ \<Rightarrow> (rt, internal_error_close limits conn)
           | Inr nxt \<Rightarrow>
               (rt\<lparr>rt_state := nxt\<rparr>,
                fx @ [DropQueues (Target_Client w),
                      QueueFrame (Target_Client w) (Frame_Ownership Ownership_Revoked),
                      CloseClientAfterFlush w,
                      QueueFrame (Target_Conn conn) (Frame_Ownership Ownership_Revoked),
                      CloseAfterFlush conn])))"

definition control_kill :: "runtime \<Rightarrow> pty_limits \<Rightarrow> conn_id \<Rightarrow> runtime \<times> effect list" where
  "control_kill rt limits conn =
     (let fx = [SetRole (Target_Conn conn) ConnRole_Control] in
      case lifecycle (rt_state rt) of
        Running \<Rightarrow>
          let rt1 = (if List.member (kill_waiters rt) conn then rt
                     else rt\<lparr>kill_waiters := kill_waiters rt @ [conn]\<rparr>);
              rt2 = latch_terminal rt1 KillRequested
          in if kill_started rt2 then (rt2, fx) else (rt2\<lparr>kill_started := True\<rparr>, fx @ [BeginKill])
      | WaitingForWriter \<Rightarrow>
          (rt, fx @ [QueueFrame (Target_Conn conn)
                       (error_frame ErrorCode_NoWriter (str_bytes ''no writer'') limits),
                     CloseAfterFlush conn])
      | _ \<Rightarrow> (rt, fx @ [CloseNow conn]))"

text \<open>\<open>on_hello\<close> by branch: an observer, the first writer, a writer on a running session with no
  writer, and a take-over.\<close>

definition hello_ack :: "u32 \<Rightarrow> attach_status \<Rightarrow> frame" where
  "hello_ack client_id status = Frame_HelloAck client_id PROTOCOL_VERSION status"

definition hello_observer :: "runtime \<Rightarrow> pty_limits \<Rightarrow> conn_id \<Rightarrow> bool \<Rightarrow> runtime \<times> effect list" where
  "hello_observer rt limits conn take_over =
     (if take_over then
        (rt, close_after_flush [QueueFrame (Target_Conn conn)
           (error_frame ErrorCode_Forbidden (str_bytes ''observer cannot take over'') limits)] conn)
      else if is_full (rt_observers rt) then
        (rt, close_after_flush [QueueFrame (Target_Conn conn)
           (error_frame ErrorCode_ResourceLimit (str_bytes ''observer cap reached'') limits)] conn)
      else case peek_client_id rt of
        None \<Rightarrow>
          (rt, close_after_flush [QueueFrame (Target_Conn conn)
             (error_frame ErrorCode_ResourceLimit (str_bytes ''client ids exhausted'') limits)] conn)
      | Some client_id \<Rightarrow>
          (case commit_client_id rt client_id of
             (rt1, False) \<Rightarrow> (rt1, internal_error_close limits conn)
           | (rt1, True) \<Rightarrow>
               (rt1\<lparr>rt_observers := fst (join (rt_observers rt1) client_id)\<rparr>,
                [SetRole (Target_Conn conn) (ConnRole_Observer client_id),
                 QueueFrame (Target_Conn conn) (hello_ack client_id ObserverAccepted)])))"

definition hello_initial_writer ::
  "runtime \<Rightarrow> pty_limits \<Rightarrow> conn_id \<Rightarrow> u16 \<Rightarrow> u16 \<Rightarrow> runtime \<times> effect list" where
  "hello_initial_writer rt limits conn rows cols =
     (if rows = 0 \<or> cols = 0 then (rt, protocol_error limits conn)
      else case peek_client_id rt of
        None \<Rightarrow> (rt, resource_limit_close limits conn)
      | Some client_id \<Rightarrow>
          (case initial_writer (rt_state rt) client_id of
             Inl _ \<Rightarrow> (rt, internal_error_close limits conn)
           | Inr nxt \<Rightarrow>
               (case commit_client_id rt client_id of
                  (rt1, False) \<Rightarrow> (rt1, internal_error_close limits conn)
                | (rt1, True) \<Rightarrow>
                    (rt1\<lparr>rt_state := nxt\<rparr>,
                     [SetRole (Target_Conn conn) (ConnRole_Writer client_id),
                      SpawnChild rows cols,
                      QueueFrame (Target_Conn conn) (hello_ack client_id WriterGranted)]))))"

definition apply_dimensions_fx :: "u16 \<Rightarrow> u16 \<Rightarrow> effect list" where
  "apply_dimensions_fx rows cols = (if rows \<noteq> 0 \<and> cols \<noteq> 0 then [ApplyDimensions rows cols] else [])"

definition hello_vacant ::
  "runtime \<Rightarrow> pty_limits \<Rightarrow> conn_id \<Rightarrow> u16 \<Rightarrow> u16 \<Rightarrow> runtime \<times> effect list" where
  "hello_vacant rt limits conn rows cols =
     (case peek_client_id rt of
        None \<Rightarrow> (rt, resource_limit_close limits conn)
      | Some client_id \<Rightarrow>
          (case writer_request (rt_state rt) client_id False of
             Inl _ \<Rightarrow> (rt, internal_error_close limits conn)
           | Inr (nxt, outcome) \<Rightarrow>
               if outcome \<noteq> Granted then (rt, internal_error_close limits conn)
               else (case commit_client_id rt client_id of
                  (rt1, False) \<Rightarrow> (rt1, internal_error_close limits conn)
                | (rt1, True) \<Rightarrow>
                    (rt1\<lparr>rt_state := nxt\<rparr>,
                     [SetRole (Target_Conn conn) (ConnRole_Writer client_id)]
                     @ apply_dimensions_fx rows cols
                     @ [QueueFrame (Target_Conn conn) (hello_ack client_id WriterGranted)]))))"

definition hello_take_over ::
  "runtime \<Rightarrow> pty_limits \<Rightarrow> conn_id \<Rightarrow> u16 \<Rightarrow> u16 \<Rightarrow> runtime \<times> effect list" where
  "hello_take_over rt limits conn rows cols =
     (case peek_client_id rt of
        None \<Rightarrow> (rt, resource_limit_close limits conn)
      | Some client_id \<Rightarrow>
          (case writer_request (rt_state rt) client_id True of
             Inl _ \<Rightarrow> (rt, internal_error_close limits conn)
           | Inr (nxt, TakeOver old) \<Rightarrow>
               (case commit_client_id rt client_id of
                  (rt1, False) \<Rightarrow> (rt1, internal_error_close limits conn)
                | (rt1, True) \<Rightarrow>
                    (case join (rt_observers rt1) old of (obs, joined) \<Rightarrow>
                       (rt1\<lparr>rt_state := nxt, rt_observers := obs\<rparr>,
                        [DropQueues (Target_Client old),
                         QueueFrame (Target_Client old) (Frame_Ownership Ownership_Revoked)]
                        @ (if joined then [SetRole (Target_Client old) (ConnRole_Observer old)]
                           else [CloseClientAfterFlush old])
                        @ apply_dimensions_fx rows cols
                        @ [SetRole (Target_Conn conn) (ConnRole_Writer client_id),
                           QueueFrame (Target_Conn conn) (hello_ack client_id WriterGranted),
                           QueueFrame (Target_Conn conn) (Frame_Ownership Ownership_Granted)])))
           | Inr (nxt, _) \<Rightarrow> (rt, internal_error_close limits conn)))"

definition on_hello :: "runtime \<Rightarrow> pty_limits \<Rightarrow> conn_id \<Rightarrow> frame \<Rightarrow> runtime \<times> effect list" where
  "on_hello rt limits conn f =
     (case f of
        Frame_Hello wire_role take_over name rows cols \<Rightarrow>
          if name \<noteq> session_name rt then (rt, protocol_error limits conn)
          else (case wire_role of
            Role_Observer \<Rightarrow> hello_observer rt limits conn take_over
          | Role_Writer \<Rightarrow>
              (case lifecycle (rt_state rt) of
                 WaitingForWriter \<Rightarrow> hello_initial_writer rt limits conn rows cols
               | Running \<Rightarrow>
                   if (rows = 0) \<noteq> (cols = 0) then (rt, protocol_error limits conn)
                   else (case ownership (rt_state rt) of
                     NoWriter \<Rightarrow> hello_vacant rt limits conn rows cols
                   | Writer current \<Rightarrow>
                       if \<not> take_over then
                         (rt, [QueueFrame (Target_Conn conn) (Frame_Busy current), CloseAfterFlush conn])
                       else hello_take_over rt limits conn rows cols)
               | _ \<Rightarrow> (rt, [CloseNow conn])))
      | _ \<Rightarrow> (rt, protocol_error limits conn))"

definition reduce_frame ::
  "runtime \<Rightarrow> pty_limits \<Rightarrow> conn_id \<Rightarrow> conn_role \<Rightarrow> frame \<Rightarrow> runtime \<times> effect list" where
  "reduce_frame rt limits conn role f =
     (if lifecycle (rt_state rt) = Exited \<or> lifecycle (rt_state rt) = Failed then (rt, [CloseNow conn])
      else case role of
        ConnRole_AwaitingFirstFrame \<Rightarrow>
          (case frame_kind f of
             Kind_Hello \<Rightarrow> on_hello rt limits conn f
           | Kind_Ping \<Rightarrow>
               (rt, [SetRole (Target_Conn conn) ConnRole_Control,
                     QueueFrame (Target_Conn conn) Frame_Pong,
                     CloseAfterFlush conn])
           | Kind_DetachWriter \<Rightarrow> control_detach rt limits conn
           | Kind_Kill \<Rightarrow> control_kill rt limits conn
           | _ \<Rightarrow> (rt, protocol_error limits conn))
      | ConnRole_Control \<Rightarrow> (rt, protocol_error limits conn)
      | ConnRole_Observer _ \<Rightarrow> (rt, protocol_error limits conn)
      | ConnRole_Writer client_id \<Rightarrow> on_writer_frame rt limits conn client_id f)"

definition reduce_disconnected :: "runtime \<Rightarrow> conn_id \<Rightarrow> conn_role \<Rightarrow> runtime" where
  "reduce_disconnected rt0 conn role =
     (let rt = rt0\<lparr>kill_waiters := filter (\<lambda>w. w \<noteq> conn) (kill_waiters rt0)\<rparr> in
      case role of
        ConnRole_Writer client_id \<Rightarrow>
          if ownership (rt_state rt) = Writer client_id
          then (case revoke_writer (rt_state rt) of Inr nxt \<Rightarrow> rt\<lparr>rt_state := nxt\<rparr> | Inl _ \<Rightarrow> rt)
          else rt
      | ConnRole_Observer client_id \<Rightarrow> rt\<lparr>rt_observers := leave (rt_observers rt) client_id\<rparr>
      | _ \<Rightarrow> rt)"

definition reduce_termination :: "runtime \<Rightarrow> runtime \<times> effect list" where
  "reduce_termination rt =
     (case lifecycle (rt_state rt) of
        Running \<Rightarrow> request_kill rt KillRequested
      | WaitingForWriter \<Rightarrow>
          let rt1 = latch_terminal rt KillRequested in
          (case terminate_with (rt_state rt1) KillRequested True of
             Inr nxt \<Rightarrow> (rt1\<lparr>rt_state := nxt\<rparr>, [Shutdown])
           | Inl _ \<Rightarrow> (rt1, [Shutdown]))
      | _ \<Rightarrow> (rt, []))"

fun reduce :: "pty_limits \<Rightarrow> runtime \<Rightarrow> event \<Rightarrow> runtime \<times> effect list" where
  "reduce limits rt (Event_Frame conn role f) = reduce_frame rt limits conn role f"
| "reduce limits rt (Disconnected conn role) = (reduce_disconnected rt conn role, [])"
| "reduce limits rt (IncompleteFrameExpired conn) = (rt, [CloseNow conn])"
| "reduce limits rt (ReplyDeadlineExpired conn) = (rt, [CloseNow conn])"
| "reduce limits rt StartupDeadlineExpired =
     (case startup_deadline (rt_state rt) of
        Inr nxt \<Rightarrow> (rt\<lparr>rt_state := nxt\<rparr>, [Shutdown])
      | Inl _ \<Rightarrow> (rt, [Shutdown]))"
| "reduce limits rt TerminationRequested = reduce_termination rt"
| "reduce limits rt InternalFailureRequested = request_kill rt InternalError"
| "reduce limits rt (ChildExitObserved signal value) =
     ((if lifecycle (rt_state rt) = Running then latch_terminal rt (ChildExit signal value) else rt), [])"
| "reduce limits rt (ChildFinished signal value) = child_finished rt signal value"
| "reduce limits rt SpawnFailed = spawn_failed rt limits"

section \<open>The runtime invariant\<close>

text \<open>Granted ids lie below the sequence; the observers are distinct, within the cap and never
  include the writer; waiters exist only once the kill has started, which has a recorded
  cause; nothing terminal has been requested before the first writer.\<close>

definition runtime_inv :: "runtime \<Rightarrow> bool" where
  "runtime_inv rt \<longleftrightarrow>
     lifecycle_inv (rt_state rt) \<and> lifecycle (rt_state rt) \<noteq> Starting \<and> next_client_id rt \<noteq> 0 \<and>
     distinct (members (rt_observers rt)) \<and>
     length (members (rt_observers rt)) \<le> observer_cap (rt_observers rt) \<and>
     (\<forall>m \<in> set (members (rt_observers rt)). m < next_client_id rt) \<and>
     (\<forall>w. ownership (rt_state rt) = Writer w \<longrightarrow>
        w < next_client_id rt \<and> w \<notin> set (members (rt_observers rt))) \<and>
     distinct (kill_waiters rt) \<and>
     (kill_waiters rt \<noteq> [] \<longrightarrow> kill_started rt \<and> lifecycle (rt_state rt) = Running) \<and>
     (kill_started rt \<longrightarrow> terminal_request rt \<noteq> None) \<and>
     (lifecycle (rt_state rt) = WaitingForWriter \<longrightarrow> terminal_request rt = None \<and> \<not> kill_started rt)"

lemma next_id:
  assumes "(n :: u32) \<noteq> - 1"
  shows "n < n + 1" "n + 1 \<noteq> 0" "m < n \<Longrightarrow> m < n + 1"
  using unat_Suc_32 [OF assms] by (auto simp: word_less_nat_alt word_unat_eq_iff)

lemma commit_peeked:
  "n \<noteq> - 1 \<Longrightarrow> n = next_client_id rt \<Longrightarrow> commit_client_id rt n = (rt\<lparr>next_client_id := n + 1\<rparr>, True)"
  using unat_Suc_32 [of n] unat_max_iff_32 [of n] unat_lt_32 [of n]
  by (auto simp: commit_client_id_def checked_add_def)

lemma live_cases:
  "runtime_inv rt \<Longrightarrow> \<not> final_lifecycle (lifecycle (rt_state rt)) \<Longrightarrow>
   lifecycle (rt_state rt) = WaitingForWriter \<or> lifecycle (rt_state rt) = Running"
  by (cases "lifecycle (rt_state rt)") (simp_all add: runtime_inv_def final_lifecycle_def)

subsection \<open>Closed forms of the handlers in an invariant state\<close>

text \<open>The internal-error branches drop out.\<close>

lemma hello_observer_eq:
  assumes "runtime_inv rt"
  shows "hello_observer rt limits conn take_over =
    (if take_over then
       (rt, [QueueFrame (Target_Conn conn)
          (error_frame ErrorCode_Forbidden (str_bytes ''observer cannot take over'') limits), CloseAfterFlush conn])
     else if is_full (rt_observers rt) then
       (rt, [QueueFrame (Target_Conn conn)
          (error_frame ErrorCode_ResourceLimit (str_bytes ''observer cap reached'') limits), CloseAfterFlush conn])
     else if next_client_id rt = - 1 then (rt, resource_limit_close limits conn)
     else
       (rt\<lparr>next_client_id := next_client_id rt + 1,
           rt_observers := (rt_observers rt)\<lparr>members := members (rt_observers rt) @ [next_client_id rt]\<rparr>\<rparr>,
        [SetRole (Target_Conn conn) (ConnRole_Observer (next_client_id rt)),
         QueueFrame (Target_Conn conn) (hello_ack (next_client_id rt) ObserverAccepted)]))"
proof -
  have "next_client_id rt \<notin> set (members (rt_observers rt))"
    using assms by (auto simp: runtime_inv_def)
  then show ?thesis
    by (simp add: hello_observer_def peek_client_id_def commit_peeked join_def close_after_flush_def
        resource_limit_close_def)
qed

lemma hello_initial_writer_eq:
  assumes "runtime_inv rt" "lifecycle (rt_state rt) = WaitingForWriter"
  shows "hello_initial_writer rt limits conn rows cols =
    (if rows = 0 \<or> cols = 0 then (rt, protocol_error limits conn)
     else if next_client_id rt = - 1 then (rt, resource_limit_close limits conn)
     else
       (rt\<lparr>next_client_id := next_client_id rt + 1,
           rt_state := \<lparr>lifecycle = Running, ownership = Writer (next_client_id rt), terminal = None\<rparr>\<rparr>,
        [SetRole (Target_Conn conn) (ConnRole_Writer (next_client_id rt)),
         SpawnChild rows cols,
         QueueFrame (Target_Conn conn) (hello_ack (next_client_id rt) WriterGranted)]))"
proof -
  have "ownership (rt_state rt) = NoWriter"
    using assms by (auto simp: runtime_inv_def lifecycle_inv_def)
  with assms(2) show ?thesis
    by (simp add: hello_initial_writer_def peek_client_id_def commit_peeked initial_writer_def)
qed

lemma hello_vacant_eq:
  assumes "lifecycle (rt_state rt) = Running" "ownership (rt_state rt) = NoWriter"
  shows "hello_vacant rt limits conn rows cols =
    (if next_client_id rt = - 1 then (rt, resource_limit_close limits conn)
     else
       (rt\<lparr>next_client_id := next_client_id rt + 1,
           rt_state := (rt_state rt)\<lparr>ownership := Writer (next_client_id rt)\<rparr>\<rparr>,
        [SetRole (Target_Conn conn) (ConnRole_Writer (next_client_id rt))]
        @ apply_dimensions_fx rows cols
        @ [QueueFrame (Target_Conn conn) (hello_ack (next_client_id rt) WriterGranted)]))"
  using assms by (simp add: hello_vacant_def peek_client_id_def commit_peeked writer_request_def)

lemma hello_take_over_eq:
  assumes "runtime_inv rt" "lifecycle (rt_state rt) = Running" "ownership (rt_state rt) = Writer old"
  shows "hello_take_over rt limits conn rows cols =
    (if next_client_id rt = - 1 then (rt, resource_limit_close limits conn)
     else
       (rt\<lparr>next_client_id := next_client_id rt + 1,
           rt_state := (rt_state rt)\<lparr>ownership := Writer (next_client_id rt)\<rparr>,
           rt_observers := (if is_full (rt_observers rt) then rt_observers rt
             else (rt_observers rt)\<lparr>members := members (rt_observers rt) @ [old]\<rparr>)\<rparr>,
        [DropQueues (Target_Client old),
         QueueFrame (Target_Client old) (Frame_Ownership Ownership_Revoked),
         (if is_full (rt_observers rt) then CloseClientAfterFlush old
          else SetRole (Target_Client old) (ConnRole_Observer old))]
        @ apply_dimensions_fx rows cols
        @ [SetRole (Target_Conn conn) (ConnRole_Writer (next_client_id rt)),
           QueueFrame (Target_Conn conn) (hello_ack (next_client_id rt) WriterGranted),
           QueueFrame (Target_Conn conn) (Frame_Ownership Ownership_Granted)]))"
proof -
  have "old \<notin> set (members (rt_observers rt))"
    using assms by (auto simp: runtime_inv_def)
  with assms(2,3) show ?thesis
    by (simp add: hello_take_over_def peek_client_id_def commit_peeked writer_request_def join_def)
qed

lemma terminate_running:
  "runtime_inv rt \<Longrightarrow> \<not> final_lifecycle (lifecycle (rt_state rt)) \<Longrightarrow>
   terminate_with (rt_state rt) cause e =
     Inr \<lparr>lifecycle = (if e \<or> terminal_exits cause then Exited else Failed),
          ownership = NoWriter, terminal = Some cause\<rparr>"
  by (auto simp: terminate_with_def runtime_inv_def lifecycle_inv_def)

lemma revoke_owned:
  "runtime_inv rt \<Longrightarrow> ownership (rt_state rt) = Writer w \<Longrightarrow>
   lifecycle (rt_state rt) = Running \<and>
   revoke_writer (rt_state rt) = Inr ((rt_state rt)\<lparr>ownership := NoWriter\<rparr>)"
  by (auto simp: revoke_writer_def runtime_inv_def lifecycle_inv_def)

subsection \<open>Every handler keeps it\<close>

lemma new_ready_inv: "new_ready name limits = Inr rt \<Longrightarrow> runtime_inv rt"
  by (auto simp: new_ready_def ready_def broker_new_def runtime_inv_def lifecycle_inv_def
      final_lifecycle_def observers_new_def)

lemma hello_observer_inv [inv_intros]:
  "runtime_inv rt \<Longrightarrow> runtime_inv (fst (hello_observer rt limits conn t))"
  unfolding hello_observer_eq
  by (auto simp: runtime_inv_def is_full_def next_id)

lemma hello_initial_writer_inv [inv_intros]:
  "runtime_inv rt \<Longrightarrow> lifecycle (rt_state rt) = WaitingForWriter \<Longrightarrow>
   runtime_inv (fst (hello_initial_writer rt limits conn rows cols))"
  unfolding hello_initial_writer_eq
  by (auto simp: runtime_inv_def next_id lifecycle_inv_def final_lifecycle_def)

lemma hello_vacant_inv [inv_intros]:
  "runtime_inv rt \<Longrightarrow> lifecycle (rt_state rt) = Running \<Longrightarrow> ownership (rt_state rt) = NoWriter \<Longrightarrow>
   runtime_inv (fst (hello_vacant rt limits conn rows cols))"
  unfolding hello_vacant_eq
  by (auto simp: runtime_inv_def next_id lifecycle_inv_def final_lifecycle_def)

lemma hello_take_over_inv [inv_intros]:
  "runtime_inv rt \<Longrightarrow> lifecycle (rt_state rt) = Running \<Longrightarrow> ownership (rt_state rt) = Writer old \<Longrightarrow>
   runtime_inv (fst (hello_take_over rt limits conn rows cols))"
  unfolding hello_take_over_eq
  by (auto simp: runtime_inv_def next_id lifecycle_inv_def final_lifecycle_def is_full_def)

lemma on_hello_inv [inv_intros]:
  "runtime_inv rt \<Longrightarrow> runtime_inv (fst (on_hello rt limits conn f))"
  by (auto simp: on_hello_def intro: inv_intros split: frame.splits role.splits lifecycle.splits ownership.splits)

lemma revoke_inv:
  "runtime_inv rt \<Longrightarrow> ownership (rt_state rt) = Writer w \<Longrightarrow>
   runtime_inv (rt\<lparr>rt_state := (rt_state rt)\<lparr>ownership := NoWriter\<rparr>\<rparr>)"
  by (auto simp: runtime_inv_def lifecycle_inv_def)

lemma on_writer_frame_inv [inv_intros]:
  "runtime_inv rt \<Longrightarrow> runtime_inv (fst (on_writer_frame rt limits conn c f))"
  by (auto simp: on_writer_frame_def Let_def revoke_owned revoke_inv split: frame.splits)

lemma control_detach_inv [inv_intros]:
  "runtime_inv rt \<Longrightarrow> runtime_inv (fst (control_detach rt limits conn))"
  by (auto simp: control_detach_def Let_def revoke_owned revoke_inv split: ownership.splits)

lemma control_kill_inv [inv_intros]:
  "runtime_inv rt \<Longrightarrow> runtime_inv (fst (control_kill rt limits conn))"
  by (auto simp: control_kill_def Let_def latch_terminal_def runtime_inv_def split: lifecycle.splits)

lemma request_kill_inv [inv_intros]: "runtime_inv rt \<Longrightarrow> runtime_inv (fst (request_kill rt c))"
  by (auto simp: request_kill_def Let_def latch_terminal_def runtime_inv_def)

lemma terminate_inv:
  assumes "runtime_inv rt" "l = Exited \<or> l = Failed"
  shows "runtime_inv (rt\<lparr>rt_state := \<lparr>lifecycle = l, ownership = NoWriter, terminal = Some c\<rparr>,
    kill_waiters := []\<rparr>)"
  using assms by (auto simp: runtime_inv_def lifecycle_inv_def final_lifecycle_def)

lemma child_finished_inv [inv_intros]:
  "runtime_inv rt \<Longrightarrow> runtime_inv (fst (child_finished rt signal value))"
  by (simp add: child_finished_def Let_def terminate_running final_lifecycle_def terminate_inv)

lemma latch_inv: "runtime_inv rt \<Longrightarrow> lifecycle (rt_state rt) = Running \<Longrightarrow> runtime_inv (latch_terminal rt c)"
  by (auto simp: latch_terminal_def runtime_inv_def)

lemma latch_fields [simp]:
  "rt_state (latch_terminal rt c) = rt_state rt"
  "rt_observers (latch_terminal rt c) = rt_observers rt"
  "next_client_id (latch_terminal rt c) = next_client_id rt"
  "kill_waiters (latch_terminal rt c) = kill_waiters rt"
  "kill_started (latch_terminal rt c) = kill_started rt"
  "terminal_request (latch_terminal rt c) = Some (case terminal_request rt of Some t \<Rightarrow> t | None \<Rightarrow> c)"
  by (auto simp: latch_terminal_def split: option.splits)

lemma spawn_failed_inv [inv_intros]:
  "runtime_inv rt \<Longrightarrow> runtime_inv (fst (spawn_failed rt limits))"
  by (auto simp: spawn_failed_def Let_def terminate_running [of rt] final_lifecycle_def terminal_exits_def
      runtime_inv_def lifecycle_inv_def latch_terminal_def terminate_with_def)

lemma reduce_disconnected_inv [inv_intros]:
  assumes "runtime_inv rt" shows "runtime_inv (reduce_disconnected rt conn role)"
proof -
  let ?rt = "rt\<lparr>kill_waiters := filter (\<lambda>w. w \<noteq> conn) (kill_waiters rt)\<rparr>"
  have inv: "runtime_inv ?rt"
    using assms by (auto simp: runtime_inv_def)
  show ?thesis
  proof (cases role)
    case (ConnRole_Writer c)
    with inv show ?thesis
      using revoke_owned [OF inv, of c] revoke_inv [OF inv, of c]
      by (auto simp: reduce_disconnected_def Let_def)
  next
    case (ConnRole_Observer c)
    with inv show ?thesis
      by (auto simp: reduce_disconnected_def Let_def runtime_inv_def leave_def
          intro: order_trans [OF length_filter_le])
  qed (use inv in \<open>auto simp: reduce_disconnected_def Let_def\<close>)
qed

lemma reduce_termination_waiting:
  assumes "runtime_inv rt" "lifecycle (rt_state rt) = WaitingForWriter"
  shows "reduce_termination rt =
    (rt\<lparr>terminal_request := Some KillRequested,
        rt_state := \<lparr>lifecycle = Exited, ownership = NoWriter, terminal = Some KillRequested\<rparr>\<rparr>, [Shutdown])"
  using assms terminate_running [OF assms(1), of KillRequested True]
  by (simp add: reduce_termination_def Let_def latch_terminal_def runtime_inv_def final_lifecycle_def)

lemma reduce_termination_inv [inv_intros]:
  assumes "runtime_inv rt" shows "runtime_inv (fst (reduce_termination rt))"
proof (cases "lifecycle (rt_state rt)")
  case WaitingForWriter
  then show ?thesis
    unfolding reduce_termination_waiting [OF assms WaitingForWriter]
    using assms by (simp add: runtime_inv_def lifecycle_inv_def final_lifecycle_def)
qed (use assms in \<open>simp_all add: reduce_termination_def request_kill_inv\<close>)

lemma reduce_frame_inv [inv_intros]:
  "runtime_inv rt \<Longrightarrow> runtime_inv (fst (reduce_frame rt limits conn role f))"
  by (auto simp: reduce_frame_def intro: inv_intros split: conn_role.splits kind.splits)

lemma startup_deadline_runtime_inv [inv_intros]:
  "runtime_inv rt \<Longrightarrow> startup_deadline (rt_state rt) = Inr t \<Longrightarrow> runtime_inv (rt\<lparr>rt_state := t\<rparr>)"
  by (auto simp: startup_deadline_def runtime_inv_def lifecycle_inv_def final_lifecycle_def
      split: lifecycle.splits option.splits)

lemma reduce_inv: "runtime_inv rt \<Longrightarrow> runtime_inv (fst (reduce limits rt ev))"
  by (cases ev) (auto intro: inv_intros latch_inv split: sum.splits)

interpretation reducer: event_machine "reduce limits" runtime_inv for limits
  by unfold_locales (rule reduce_inv)

section \<open>The shapes of a step\<close>

text \<open>A case distinction over what one event does, without the reducer's defensive branches: an
  event is answered with a reply that changes nothing, or it is one of the named changes, some of
  them written with the reducer's own helpers. Every step of the reducer from an invariant
  state has one of these shapes, and the properties are read off them.\<close>

fun reply_frame :: "frame \<Rightarrow> bool" where
  "reply_frame (Frame_Error code text) \<longleftrightarrow> code \<noteq> 5"
| "reply_frame (Frame_Busy w) \<longleftrightarrow> True"
| "reply_frame Frame_Pong \<longleftrightarrow> True"
| "reply_frame _ \<longleftrightarrow> False"

fun reply_effect :: "conn_id \<Rightarrow> effect \<Rightarrow> bool" where
  "reply_effect conn (SetRole t r) \<longleftrightarrow> t = Target_Conn conn \<and> r = ConnRole_Control"
| "reply_effect conn (QueueFrame t f) \<longleftrightarrow> t = Target_Conn conn \<and> reply_frame f"
| "reply_effect conn (CloseAfterFlush c) \<longleftrightarrow> c = conn"
| "reply_effect conn (CloseNow c) \<longleftrightarrow> c = conn"
| "reply_effect conn _ \<longleftrightarrow> False"

lemma reply_frame_error [simp]: "reply_frame (error_frame code text limits) \<longleftrightarrow> code \<noteq> ErrorCode_Internal"
  by (cases code) (simp_all add: error_frame_def Let_def)

inductive broker_step :: "pty_limits \<Rightarrow> runtime \<Rightarrow> event \<Rightarrow> runtime \<Rightarrow> effect list \<Rightarrow> bool"
  for limits :: pty_limits where
  step_reply: "list_all (reply_effect conn) fx \<Longrightarrow> broker_step limits rt ev rt fx"
| step_observer:
    "next_client_id rt \<noteq> - 1 \<Longrightarrow> \<not> final_lifecycle (lifecycle (rt_state rt)) \<Longrightarrow>
     length (members (rt_observers rt)) < observer_cap (rt_observers rt) \<Longrightarrow>
     broker_step limits rt
       (Event_Frame conn ConnRole_AwaitingFirstFrame
          (Frame_Hello Role_Observer False (session_name rt) rows cols))
       (rt\<lparr>next_client_id := next_client_id rt + 1,
           rt_observers := (rt_observers rt)\<lparr>members := members (rt_observers rt) @ [next_client_id rt]\<rparr>\<rparr>)
       [SetRole (Target_Conn conn) (ConnRole_Observer (next_client_id rt)),
        QueueFrame (Target_Conn conn) (hello_ack (next_client_id rt) ObserverAccepted)]"
| step_initial:
    "next_client_id rt \<noteq> - 1 \<Longrightarrow> lifecycle (rt_state rt) = WaitingForWriter \<Longrightarrow> rows \<noteq> 0 \<Longrightarrow> cols \<noteq> 0 \<Longrightarrow>
     broker_step limits rt
       (Event_Frame conn ConnRole_AwaitingFirstFrame
          (Frame_Hello Role_Writer take_over (session_name rt) rows cols))
       (rt\<lparr>next_client_id := next_client_id rt + 1,
           rt_state := \<lparr>lifecycle = Running, ownership = Writer (next_client_id rt), terminal = None\<rparr>\<rparr>)
       [SetRole (Target_Conn conn) (ConnRole_Writer (next_client_id rt)),
        SpawnChild rows cols,
        QueueFrame (Target_Conn conn) (hello_ack (next_client_id rt) WriterGranted)]"
| step_vacant:
    "next_client_id rt \<noteq> - 1 \<Longrightarrow> lifecycle (rt_state rt) = Running \<Longrightarrow> ownership (rt_state rt) = NoWriter \<Longrightarrow>
     broker_step limits rt
       (Event_Frame conn ConnRole_AwaitingFirstFrame
          (Frame_Hello Role_Writer take_over (session_name rt) rows cols))
       (rt\<lparr>next_client_id := next_client_id rt + 1,
           rt_state := (rt_state rt)\<lparr>ownership := Writer (next_client_id rt)\<rparr>\<rparr>)
       ([SetRole (Target_Conn conn) (ConnRole_Writer (next_client_id rt))]
        @ apply_dimensions_fx rows cols
        @ [QueueFrame (Target_Conn conn) (hello_ack (next_client_id rt) WriterGranted)])"
| step_take_over:
    "next_client_id rt \<noteq> - 1 \<Longrightarrow> lifecycle (rt_state rt) = Running \<Longrightarrow> ownership (rt_state rt) = Writer old \<Longrightarrow>
     broker_step limits rt
       (Event_Frame conn ConnRole_AwaitingFirstFrame
          (Frame_Hello Role_Writer True (session_name rt) rows cols))
       (rt\<lparr>next_client_id := next_client_id rt + 1,
           rt_state := (rt_state rt)\<lparr>ownership := Writer (next_client_id rt)\<rparr>,
           rt_observers := (if is_full (rt_observers rt) then rt_observers rt
             else (rt_observers rt)\<lparr>members := members (rt_observers rt) @ [old]\<rparr>)\<rparr>)
       ([DropQueues (Target_Client old),
         QueueFrame (Target_Client old) (Frame_Ownership Ownership_Revoked),
         (if is_full (rt_observers rt) then CloseClientAfterFlush old
          else SetRole (Target_Client old) (ConnRole_Observer old))]
        @ apply_dimensions_fx rows cols
        @ [SetRole (Target_Conn conn) (ConnRole_Writer (next_client_id rt)),
           QueueFrame (Target_Conn conn) (hello_ack (next_client_id rt) WriterGranted),
           QueueFrame (Target_Conn conn) (Frame_Ownership Ownership_Granted)])"
| step_input: "ownership (rt_state rt) = Writer c \<Longrightarrow>
     broker_step limits rt (Event_Frame conn (ConnRole_Writer c) (Frame_Input bs)) rt [DeliverInput c bs]"
| step_resize: "ownership (rt_state rt) = Writer c \<Longrightarrow> rows \<noteq> 0 \<Longrightarrow> cols \<noteq> 0 \<Longrightarrow>
     broker_step limits rt (Event_Frame conn (ConnRole_Writer c) (Frame_Resize rows cols)) rt
       [ApplyDimensions rows cols]"
| step_signal: "ownership (rt_state rt) = Writer c \<Longrightarrow> signal_is_allowed sig \<Longrightarrow>
     broker_step limits rt (Event_Frame conn (ConnRole_Writer c) (Frame_Signal sig)) rt [ApplySignal sig]"
| step_self_detach: "ownership (rt_state rt) = Writer c \<Longrightarrow>
     broker_step limits rt (Event_Frame conn (ConnRole_Writer c) Frame_DetachWriter)
       (rt\<lparr>rt_state := (rt_state rt)\<lparr>ownership := NoWriter\<rparr>\<rparr>)
       [DropQueues (Target_Conn conn),
        QueueFrame (Target_Conn conn) (Frame_Ownership Ownership_Revoked), CloseAfterFlush conn]"
| step_control_detach: "ownership (rt_state rt) = Writer w \<Longrightarrow>
     broker_step limits rt (Event_Frame conn ConnRole_AwaitingFirstFrame Frame_DetachWriter)
       (rt\<lparr>rt_state := (rt_state rt)\<lparr>ownership := NoWriter\<rparr>\<rparr>)
       [SetRole (Target_Conn conn) ConnRole_Control, DropQueues (Target_Client w),
        QueueFrame (Target_Client w) (Frame_Ownership Ownership_Revoked), CloseClientAfterFlush w,
        QueueFrame (Target_Conn conn) (Frame_Ownership Ownership_Revoked), CloseAfterFlush conn]"
| step_control_kill: "lifecycle (rt_state rt) = Running \<Longrightarrow>
     broker_step limits rt (Event_Frame conn ConnRole_AwaitingFirstFrame Frame_Kill)
       ((latch_terminal rt KillRequested)\<lparr>kill_started := True,
          kill_waiters := (if conn \<in> set (kill_waiters rt) then kill_waiters rt
                           else kill_waiters rt @ [conn])\<rparr>)
       (SetRole (Target_Conn conn) ConnRole_Control # (if kill_started rt then [] else [BeginKill]))"
| step_request_kill: "lifecycle (rt_state rt) = Running \<Longrightarrow>
     ev = TerminationRequested \<and> cause = KillRequested \<or>
     ev = InternalFailureRequested \<and> cause = InternalError \<Longrightarrow>
     broker_step limits rt ev ((latch_terminal rt cause)\<lparr>kill_started := True\<rparr>)
       (if kill_started rt then [] else [BeginKill])"
| step_termination: "lifecycle (rt_state rt) = WaitingForWriter \<Longrightarrow>
     broker_step limits rt TerminationRequested
       (rt\<lparr>terminal_request := Some KillRequested,
           rt_state := \<lparr>lifecycle = Exited, ownership = NoWriter, terminal = Some KillRequested\<rparr>\<rparr>)
       [Shutdown]"
| step_startup: "lifecycle (rt_state rt) = WaitingForWriter \<Longrightarrow>
     broker_step limits rt StartupDeadlineExpired
       (rt\<lparr>rt_state := (rt_state rt)\<lparr>lifecycle := Failed, terminal := Some StartupDeadline\<rparr>\<rparr>) [Shutdown]"
| step_startup_late: "lifecycle (rt_state rt) \<noteq> WaitingForWriter \<Longrightarrow>
     broker_step limits rt StartupDeadlineExpired rt [Shutdown]"
| step_disconnected: "broker_step limits rt (Disconnected conn r) (reduce_disconnected rt conn r) []"
| step_exit_observed: "lifecycle (rt_state rt) = Running \<Longrightarrow>
     broker_step limits rt (ChildExitObserved signal value)
       (latch_terminal rt (ChildExit signal value)) []"
| step_child_finished: "lifecycle (rt_state rt) = Running \<Longrightarrow>
     cause = (case terminal_request rt of Some c \<Rightarrow> c | None \<Rightarrow> ChildExit signal value) \<Longrightarrow>
     broker_step limits rt (ChildFinished signal value)
       (rt\<lparr>rt_state := \<lparr>lifecycle = (if terminal_exits cause then Exited else Failed),
              ownership = NoWriter, terminal = Some cause\<rparr>, kill_waiters := []\<rparr>)
       (exit_effects (writer_of rt) (members (rt_observers rt)) (kill_waiters rt) (Frame_Exit signal value))"
| step_spawn_failed: "\<not> final_lifecycle (lifecycle (rt_state rt)) \<Longrightarrow>
     broker_step limits rt SpawnFailed
       ((latch_terminal rt InternalError)\<lparr>rt_state := \<lparr>lifecycle = Failed, ownership = NoWriter,
          terminal = Some InternalError\<rparr>, kill_waiters := []\<rparr>)
       (spawn_failed_effects limits (writer_of rt) (members (rt_observers rt)) (kill_waiters rt))"

inductive_cases broker_stepE: "broker_step limits rt ev rt' fx"

subsection \<open>The reducer refines it\<close>

lemma protocol_error_reply [simp]: "list_all (reply_effect conn) (protocol_error limits conn)"
  by (simp add: protocol_error_def)

lemma resource_limit_reply [simp]: "list_all (reply_effect conn) (resource_limit_close limits conn)"
  by (simp add: resource_limit_close_def close_after_flush_def)

lemma step_reply_Pair:
  "r = (rt, fx) \<Longrightarrow> list_all (reply_effect conn) fx \<Longrightarrow> broker_step limits rt ev (fst r) (snd r)"
  by (simp add: step_reply)

lemma reply_step [simp]:
  "broker_step limits rt ev rt (protocol_error limits conn)"
  "broker_step limits rt ev rt (resource_limit_close limits conn)"
  "broker_step limits rt ev rt []"
  "broker_step limits rt ev rt [CloseNow conn]"
  by (rule step_reply [of conn], simp)+

lemma on_hello_refines:
  assumes inv: "runtime_inv rt" and live: "\<not> final_lifecycle (lifecycle (rt_state rt))"
  shows "broker_step limits rt (Event_Frame conn ConnRole_AwaitingFirstFrame f)
    (fst (on_hello rt limits conn f)) (snd (on_hello rt limits conn f))"
proof (cases "\<exists>wr t rows cols. f = Frame_Hello wr t (session_name rt) rows cols")
  case False
  then have "on_hello rt limits conn f = (rt, protocol_error limits conn)"
    by (cases f) (auto simp: on_hello_def)
  then show ?thesis by simp
next
  case True
  then obtain wr t rows cols where f: "f = Frame_Hello wr t (session_name rt) rows cols" by blast
  show ?thesis
  proof (cases wr)
    case Role_Observer
    then show ?thesis
      using f live by (auto simp: on_hello_def hello_observer_eq [OF inv] is_full_def
          intro!: step_observer step_reply [of conn])
  next
    case Role_Writer
    consider "lifecycle (rt_state rt) = WaitingForWriter"
      | "lifecycle (rt_state rt) = Running" "(rows = 0) \<noteq> (cols = 0)"
      | "lifecycle (rt_state rt) = Running" "(rows = 0) = (cols = 0)" "ownership (rt_state rt) = NoWriter"
      | w where "lifecycle (rt_state rt) = Running" "(rows = 0) = (cols = 0)"
          "ownership (rt_state rt) = Writer w"
      using live_cases [OF inv live] by (cases "ownership (rt_state rt)") blast+
    then show ?thesis
    proof cases
      case 1
      then show ?thesis
        using f Role_Writer by (auto simp: on_hello_def hello_initial_writer_eq [OF inv] intro: step_initial)
    next
      case 2
      then show ?thesis using f Role_Writer by (simp add: on_hello_def)
    next
      case 3
      then show ?thesis
        using f Role_Writer step_vacant [of rt limits conn t rows cols]
        by (auto simp: on_hello_def hello_vacant_eq)
    next
      case (4 w)
      then show ?thesis
        using f Role_Writer step_take_over [of rt w limits conn rows cols]
        by (cases t) (auto simp: on_hello_def hello_take_over_eq [OF inv] intro: step_reply [of conn])
    qed
  qed
qed

lemma on_writer_frame_refines:
  assumes "runtime_inv rt"
  shows "broker_step limits rt (Event_Frame conn (ConnRole_Writer c) f)
    (fst (on_writer_frame rt limits conn c f)) (snd (on_writer_frame rt limits conn c f))"
  using revoke_owned [OF assms, of c]
  by (cases f) (auto simp: on_writer_frame_def Let_def
      intro: step_input step_resize step_signal step_self_detach)

lemma control_detach_refines:
  assumes "runtime_inv rt"
  shows "broker_step limits rt (Event_Frame conn ConnRole_AwaitingFirstFrame Frame_DetachWriter)
    (fst (control_detach rt limits conn)) (snd (control_detach rt limits conn))"
  using revoke_owned [OF assms] step_control_detach [of rt _ limits conn]
  by (cases "ownership (rt_state rt)")
    (auto simp: control_detach_def Let_def intro: step_reply [of conn])

lemma control_kill_refines:
  "broker_step limits rt (Event_Frame conn ConnRole_AwaitingFirstFrame Frame_Kill)
    (fst (control_kill rt limits conn)) (snd (control_kill rt limits conn))"
proof (cases "lifecycle (rt_state rt) = Running")
  case True
  have "control_kill rt limits conn =
      ((latch_terminal rt KillRequested)\<lparr>kill_started := True,
          kill_waiters := (if conn \<in> set (kill_waiters rt) then kill_waiters rt
                           else kill_waiters rt @ [conn])\<rparr>,
       SetRole (Target_Conn conn) ConnRole_Control # (if kill_started rt then [] else [BeginKill]))"
    using True by (auto simp: control_kill_def Let_def latch_terminal_def)
  with step_control_kill [OF True, of limits conn] show ?thesis by simp
next
  case False
  then show ?thesis
    by (auto simp: control_kill_def Let_def intro: step_reply [of conn] split: lifecycle.splits)
qed

lemma reduce_frame_refines:
  assumes inv: "runtime_inv rt"
  shows "broker_step limits rt (Event_Frame conn role f)
    (fst (reduce_frame rt limits conn role f)) (snd (reduce_frame rt limits conn role f))"
proof (cases "final_lifecycle (lifecycle (rt_state rt))")
  case True
  then show ?thesis by (simp add: reduce_frame_def final_lifecycle_def)
next
  case False
  show ?thesis
  proof (cases "role = ConnRole_AwaitingFirstFrame")
    case True
    with False show ?thesis
      using on_hello_refines [OF inv False, of limits conn f] control_detach_refines [OF inv, of limits conn]
        control_kill_refines [of limits rt conn]
      by (cases f) (auto simp: reduce_frame_def final_lifecycle_def intro: step_reply [of conn])
  next
    case other: False
    with False show ?thesis
      using on_writer_frame_refines [OF inv, of limits conn _ f]
      by (cases role) (auto simp: reduce_frame_def final_lifecycle_def)
  qed
qed

lemma request_kill_refines:
  assumes "ev = TerminationRequested \<and> cause = KillRequested \<and> lifecycle (rt_state rt) = Running \<or>
    ev = InternalFailureRequested \<and> cause = InternalError"
  shows "broker_step limits rt ev (fst (request_kill rt cause)) (snd (request_kill rt cause))"
proof (cases "lifecycle (rt_state rt) = Running")
  case True
  have "request_kill rt cause = ((latch_terminal rt cause)\<lparr>kill_started := True\<rparr>,
      if kill_started rt then [] else [BeginKill])"
    using True by (auto simp: request_kill_def Let_def)
  with step_request_kill [OF True, of ev cause limits] assms show ?thesis by auto
next
  case False
  then show ?thesis by (simp add: request_kill_def)
qed

lemma reduce_termination_refines:
  assumes inv: "runtime_inv rt"
  shows "broker_step limits rt TerminationRequested (fst (reduce_termination rt)) (snd (reduce_termination rt))"
proof (cases "lifecycle (rt_state rt)")
  case WaitingForWriter
  then show ?thesis
    using step_termination [OF WaitingForWriter] reduce_termination_waiting [OF inv WaitingForWriter] by simp
next
  case Running
  then show ?thesis
    using request_kill_refines [of TerminationRequested KillRequested rt]
    by (simp add: reduce_termination_def)
qed (simp_all add: reduce_termination_def)

lemma child_finished_refines:
  assumes inv: "runtime_inv rt"
  shows "broker_step limits rt (ChildFinished signal value)
    (fst (child_finished rt signal value)) (snd (child_finished rt signal value))"
proof (cases "lifecycle (rt_state rt) = Running")
  case True
  define cause where "cause = (case terminal_request rt of Some c \<Rightarrow> c | None \<Rightarrow> ChildExit signal value)"
  have "child_finished rt signal value =
      (rt\<lparr>rt_state := \<lparr>lifecycle = (if terminal_exits cause then Exited else Failed),
              ownership = NoWriter, terminal = Some cause\<rparr>, kill_waiters := []\<rparr>,
       exit_effects (writer_of rt) (members (rt_observers rt)) (kill_waiters rt) (Frame_Exit signal value))"
    unfolding child_finished_def Let_def cause_def [symmetric] terminal_exits_def [symmetric]
    using True terminate_running [OF inv, of cause "terminal_exits cause"] by (simp add: final_lifecycle_def)
  with step_child_finished [OF True cause_def, of limits] show ?thesis by simp
qed (simp add: child_finished_def)

lemma spawn_failed_refines:
  assumes inv: "runtime_inv rt"
  shows "broker_step limits rt SpawnFailed (fst (spawn_failed rt limits)) (snd (spawn_failed rt limits))"
proof (cases "final_lifecycle (lifecycle (rt_state rt))")
  case True
  then show ?thesis by (simp add: spawn_failed_def final_lifecycle_def)
next
  case False
  then show ?thesis
    using step_spawn_failed [OF False, of limits] terminate_running [OF inv False, of InternalError False]
    by (simp add: spawn_failed_def final_lifecycle_def Let_def terminal_exits_def)
qed

lemma startup_deadline_refines:
  assumes inv: "runtime_inv rt"
  shows "broker_step limits rt StartupDeadlineExpired
    (fst (reduce limits rt StartupDeadlineExpired)) (snd (reduce limits rt StartupDeadlineExpired))"
proof (cases "lifecycle (rt_state rt) = WaitingForWriter")
  case True
  then have "terminal (rt_state rt) = None"
    using inv by (simp add: runtime_inv_def lifecycle_inv_def final_lifecycle_def)
  with True step_startup [OF True, of limits] show ?thesis
    by (simp add: startup_deadline_def)
next
  case False
  with step_startup_late [OF False, of limits] show ?thesis
    by (simp add: startup_deadline_def split: lifecycle.splits)
qed

lemma reduce_step:
  assumes inv: "runtime_inv rt"
  shows "broker_step limits rt ev (fst (reduce limits rt ev)) (snd (reduce limits rt ev))"
proof (cases ev)
  case StartupDeadlineExpired
  with startup_deadline_refines [OF inv] show ?thesis by simp
next
  case InternalFailureRequested
  with request_kill_refines show ?thesis by simp
next
  case (ChildExitObserved sig v)
  then show ?thesis by (simp add: step_exit_observed)
qed (simp_all add: reduce_frame_refines reduce_termination_refines child_finished_refines
    spawn_failed_refines step_disconnected inv)

section \<open>Runs of the broker\<close>

text \<open>A run starts from the runtime of a ready broker (\<open>Runtime::new_ready\<close> never fails) and
  reduces a sequence of events.\<close>

definition ready_runtime :: "bytes \<Rightarrow> pty_limits \<Rightarrow> runtime" where
  "ready_runtime name limits =
     \<lparr>rt_state = \<lparr>lifecycle = WaitingForWriter, ownership = NoWriter, terminal = None\<rparr>,
      rt_observers = observers_new (observer_count limits), session_name = name,
      next_client_id = 1, terminal_request = None, kill_waiters = [], kill_started = False\<rparr>"

lemma new_ready_ok: "new_ready name limits = Inr (ready_runtime name limits)"
  by (simp add: new_ready_def ready_def broker_new_def ready_runtime_def)

definition broker_run :: "bytes \<Rightarrow> pty_limits \<Rightarrow> event list \<Rightarrow> runtime \<times> effect list" where
  "broker_run name limits evs = run_events (reduce limits) (ready_runtime name limits) evs"

lemma ready_runtime_inv: "runtime_inv (ready_runtime name limits)"
  by (rule new_ready_inv [OF new_ready_ok])

lemma broker_run_inv: "runtime_inv (fst (broker_run name limits evs))"
  unfolding broker_run_def by (rule reducer.run_inv [OF ready_runtime_inv])

lemmas run_step = reduce_step [OF broker_run_inv]

subsection \<open>What one step can emit or change\<close>

definition is_spawn :: "effect \<Rightarrow> bool" where
  "is_spawn e = (case e of SpawnChild _ _ \<Rightarrow> True | _ \<Rightarrow> False)"

text \<open>The ids granted by the \<open>HelloAck\<close> frames among some effects.\<close>

definition granted_id :: "effect \<Rightarrow> u32 list" where
  "granted_id e = (case e of QueueFrame _ (Frame_HelloAck c _ _) \<Rightarrow> [c] | _ \<Rightarrow> [])"

definition granted_ids :: "effect list \<Rightarrow> u32 list" where
  "granted_ids fx = concat (map granted_id fx)"

definition is_internal_error :: "effect \<Rightarrow> bool" where
  "is_internal_error e = (case e of QueueFrame _ (Frame_Error code _) \<Rightarrow> code = 5 | _ \<Rightarrow> False)"

lemma reply_effect_kinds:
  assumes "reply_effect conn e"
  shows "\<not> is_spawn e" "e \<noteq> BeginKill" "granted_id e = []" "\<not> is_internal_error e" "e \<noteq> Shutdown"
    "e \<noteq> DeliverInput c bs" "e \<noteq> ApplySignal sig" "e \<noteq> ApplyDimensions rows cols"
  using assms by (cases "(conn, e)" rule: reply_effect.cases; fastforce simp: is_spawn_def granted_id_def
      is_internal_error_def split: frame.splits)+

lemma reply_effects_kinds:
  assumes "list_all (reply_effect conn) fx"
  shows "filter is_spawn fx = []" "filter (\<lambda>e. e = BeginKill) fx = []" "granted_ids fx = []"
    "filter is_internal_error fx = []" "Shutdown \<notin> set fx" "DeliverInput c bs \<notin> set fx"
    "ApplySignal sig \<notin> set fx" "ApplyDimensions rows cols \<notin> set fx"
  using assms reply_effect_kinds
  by (auto simp: list_all_iff granted_ids_def filter_empty_conv)

lemma effect_lists [simp]:
  "filter is_spawn (exit_effects w obs ws (Frame_Exit s v)) = []"
  "filter (\<lambda>e. e = BeginKill) (exit_effects w obs ws (Frame_Exit s v)) = []"
  "granted_ids (exit_effects w obs ws (Frame_Exit s v)) = []"
  "filter is_internal_error (exit_effects w obs ws (Frame_Exit s v)) = []"
  "DeliverInput c bs \<notin> set (exit_effects w obs ws (Frame_Exit s v))"
  "ApplySignal sig \<notin> set (exit_effects w obs ws (Frame_Exit s v))"
  "filter is_spawn (spawn_failed_effects limits w obs ws) = []"
  "filter (\<lambda>e. e = BeginKill) (spawn_failed_effects limits w obs ws) = []"
  "granted_ids (spawn_failed_effects limits w obs ws) = []"
  "DeliverInput c bs \<notin> set (spawn_failed_effects limits w obs ws)"
  "ApplySignal sig \<notin> set (spawn_failed_effects limits w obs ws)"
  "filter is_spawn (apply_dimensions_fx r k) = []"
  "filter (\<lambda>e. e = BeginKill) (apply_dimensions_fx r k) = []"
  "granted_ids (apply_dimensions_fx r k) = []"
  "filter is_internal_error (apply_dimensions_fx r k) = []"
  "Shutdown \<notin> set (apply_dimensions_fx r k)"
  "DeliverInput c bs \<notin> set (apply_dimensions_fx r k)"
  "ApplySignal sig \<notin> set (apply_dimensions_fx r k)"
  by (auto simp: exit_effects_def spawn_failed_effects_def apply_dimensions_fx_def filter_empty_conv
      is_spawn_def is_internal_error_def granted_ids_def granted_id_def error_frame_def Let_def
      split: option.splits)

lemma granted_ids_append [simp]: "granted_ids (xs @ ys) = granted_ids xs @ granted_ids ys"
  by (simp add: granted_ids_def)

lemma granted_ids_simps [simp]:
  "granted_ids [] = []"
  "granted_ids (e # es) = granted_id e @ granted_ids es"
  by (simp_all add: granted_ids_def)

lemmas effect_kind_simps = is_spawn_def is_internal_error_def granted_id_def hello_ack_def

lemma reduce_disconnected_fields [simp]:
  "lifecycle (rt_state (reduce_disconnected rt conn r)) = lifecycle (rt_state rt)"
  "terminal (rt_state (reduce_disconnected rt conn r)) = terminal (rt_state rt)"
  "next_client_id (reduce_disconnected rt conn r) = next_client_id rt"
  "terminal_request (reduce_disconnected rt conn r) = terminal_request rt"
  "kill_started (reduce_disconnected rt conn r) = kill_started rt"
  by (auto simp: reduce_disconnected_def Let_def revoke_writer_def
      split: conn_role.splits sum.splits lifecycle.splits)

lemma step_spawn_budget:
  "broker_step limits rt ev rt' fx \<Longrightarrow>
   length (filter is_spawn fx) + (if lifecycle (rt_state rt') = WaitingForWriter then 1 else 0)
     \<le> (if lifecycle (rt_state rt) = WaitingForWriter then 1 else 0 :: nat)"
  by (erule broker_stepE) (auto simp: effect_kind_simps reply_effects_kinds)

lemma step_kill_budget:
  "broker_step limits rt ev rt' fx \<Longrightarrow>
   length (filter (\<lambda>e. e = BeginKill) fx) + (if kill_started rt' then 0 else 1)
     \<le> (if kill_started rt then 0 else 1 :: nat)"
  by (erule broker_stepE) (auto simp: reply_effects_kinds)

lemma step_grants:
  "broker_step limits rt ev rt' fx \<Longrightarrow>
   granted_ids fx = [] \<and> next_client_id rt' = next_client_id rt \<or>
   next_client_id rt \<noteq> - 1 \<and> granted_ids fx = [next_client_id rt] \<and>
   next_client_id rt' = next_client_id rt + 1"
  by (erule broker_stepE) (auto simp: effect_kind_simps reply_effects_kinds)

lemma step_internal:
  "broker_step limits rt ev rt' fx \<Longrightarrow> ev \<noteq> SpawnFailed \<Longrightarrow> filter is_internal_error fx = []"
  by (erule broker_stepE) (auto simp: effect_kind_simps reply_effects_kinds)

lemma step_input_only:
  "broker_step limits rt ev rt' fx \<Longrightarrow> DeliverInput c bs \<in> set fx \<Longrightarrow>
   \<exists>conn. ev = Event_Frame conn (ConnRole_Writer c) (Frame_Input bs) \<and> ownership (rt_state rt) = Writer c"
  by (erule broker_stepE) (auto simp: reply_effects_kinds split: if_splits)

lemma step_signal_only:
  "broker_step limits rt ev rt' fx \<Longrightarrow> ApplySignal sig \<in> set fx \<Longrightarrow>
   \<exists>conn c. ev = Event_Frame conn (ConnRole_Writer c) (Frame_Signal sig) \<and>
     ownership (rt_state rt) = Writer c \<and> signal_is_allowed sig"
  by (erule broker_stepE) (auto simp: reply_effects_kinds split: if_splits)

lemma step_request_latched:
  "broker_step limits rt ev rt' fx \<Longrightarrow> runtime_inv rt \<Longrightarrow> terminal_request rt = Some cause \<Longrightarrow>
   terminal_request rt' = Some cause"
  by (erule broker_stepE) (auto simp: runtime_inv_def)

lemma step_terminal_frozen:
  assumes "broker_step limits rt ev rt' fx" "runtime_inv rt" "terminal (rt_state rt) = Some cause"
  shows "terminal (rt_state rt') = Some cause \<and> lifecycle (rt_state rt') = lifecycle (rt_state rt)"
proof -
  have "final_lifecycle (lifecycle (rt_state rt))" "ownership (rt_state rt) = NoWriter"
    using assms(2,3) by (auto simp: runtime_inv_def lifecycle_inv_def final_lifecycle_def)
  with assms(1,3) show ?thesis
    by (auto elim!: broker_stepE simp: final_lifecycle_def)
qed

section \<open>Properties\<close>

text \<open>The runtime invariant holds after every event sequence.\<close>

theorem broker_invariant: "runtime_inv (fst (broker_run name limits evs))"
  unfolding broker_run_def by (rule reducer.run_inv [OF ready_runtime_inv])

text \<open>Over a whole run the child is spawned at most once and the kill path begun at most
  once.\<close>

theorem spawn_and_kill_at_most_once:
  "length (filter is_spawn (snd (broker_run name limits evs))) \<le> 1 \<and>
   length (filter (\<lambda>e. e = BeginKill) (snd (broker_run name limits evs))) \<le> 1"
proof -
  let ?spawn = "\<lambda>rt. if lifecycle (rt_state rt) = WaitingForWriter then 1 else 0 :: nat"
  let ?kill = "\<lambda>rt. if kill_started rt then 0 else 1 :: nat"
  have "length (filter is_spawn (snd (broker_run name limits evs)))
      + ?spawn (fst (broker_run name limits evs)) \<le> ?spawn (ready_runtime name limits)"
    unfolding broker_run_def
    by (rule reducer.run_budget [OF step_spawn_budget [OF reduce_step] ready_runtime_inv])
  moreover have "length (filter (\<lambda>e. e = BeginKill) (snd (broker_run name limits evs)))
      + ?kill (fst (broker_run name limits evs)) \<le> ?kill (ready_runtime name limits)"
    unfolding broker_run_def
    by (rule reducer.run_budget [OF step_kill_budget [OF reduce_step] ready_runtime_inv])
  ultimately show ?thesis by (simp add: ready_runtime_def)
qed

text \<open>The client ids granted over a run are strictly increasing and positive, and the
  maximal id is never granted: no id is granted twice and the sequence never wraps.\<close>

theorem granted_ids_fresh:
  "sorted_wrt (<) (granted_ids (snd (broker_run name limits evs))) \<and>
   list_all (\<lambda>c. 0 < c \<and> c < - 1) (granted_ids (snd (broker_run name limits evs)))"
proof -
  let ?pick = "\<lambda>fx. map unat (granted_ids fx)"
  have step: "unat (next_client_id rt) \<le> unat (next_client_id (fst (reduce limits rt ev))) \<and>
      sorted_wrt (<) (?pick (snd (reduce limits rt ev))) \<and>
      set (?pick (snd (reduce limits rt ev)))
        \<subseteq> {unat (next_client_id rt) ..< unat (next_client_id (fst (reduce limits rt ev)))}"
    if "runtime_inv rt" for rt ev
    using step_grants [OF reduce_step [OF that], of limits ev] unat_Suc_32 [of "next_client_id rt"]
    by auto
  have "sorted_wrt (<) (?pick (snd (broker_run name limits evs))) \<and>
      set (?pick (snd (broker_run name limits evs)))
        \<subseteq> {1 ..< unat (next_client_id (fst (broker_run name limits evs)))}"
    using reducer.run_fresh [of "\<lambda>rt. unat (next_client_id rt)" limits ?pick,
        OF step _ _ ready_runtime_inv, of name limits evs]
    by (simp add: broker_run_def ready_runtime_def)
  moreover have "unat (next_client_id (fst (broker_run name limits evs))) \<le> unat (- 1 :: u32)"
    using unat_max_iff_32 [of "- 1"] unat_lt_32 [of "next_client_id (fst (broker_run name limits evs))"]
    by simp
  moreover have "0 < c \<and> c < - 1" if "unat c \<in> {1 ..< n}" "n \<le> unat (- 1 :: u32)" for c :: u32 and n
    using that unfolding word_less_nat_alt by (auto intro: less_le_trans)
  ultimately show ?thesis
    unfolding sorted_wrt_map list_all_iff word_less_nat_alt [symmetric] set_map by blast
qed

text \<open>C25: input reaches the child only from the connection of the current writer, and a signal
  only from the current writer and only if it is on the allow-list.\<close>

theorem child_input_authority:
  "(DeliverInput c bs \<in> set (snd (reduce limits (fst (broker_run name limits evs)) ev)) \<longleftrightarrow>
      ownership (rt_state (fst (broker_run name limits evs))) = Writer c \<and>
      (\<exists>conn. ev = Event_Frame conn (ConnRole_Writer c) (Frame_Input bs))) \<and>
   (ApplySignal sig \<in> set (snd (reduce limits (fst (broker_run name limits evs)) ev)) \<longleftrightarrow>
      signal_is_allowed sig \<and>
      (\<exists>conn w. ownership (rt_state (fst (broker_run name limits evs))) = Writer w \<and>
         ev = Event_Frame conn (ConnRole_Writer w) (Frame_Signal sig)))"
proof -
  define rt where "rt = fst (broker_run name limits evs)"
  have inv: "runtime_inv rt" unfolding rt_def by (rule broker_run_inv)
  have input: "DeliverInput c bs \<in> set (snd (reduce limits rt (Event_Frame conn (ConnRole_Writer c) (Frame_Input bs))))"
    and signal: "signal_is_allowed sig \<Longrightarrow>
      ApplySignal sig \<in> set (snd (reduce limits rt (Event_Frame conn (ConnRole_Writer c) (Frame_Signal sig))))"
    if "ownership (rt_state rt) = Writer c" for c conn
    using revoke_owned [OF inv that] that by (simp_all add: reduce_frame_def on_writer_frame_def)
  show ?thesis
    unfolding rt_def [symmetric]
    using step_input_only [OF reduce_step [OF inv], of c bs limits ev]
      step_signal_only [OF reduce_step [OF inv], of sig limits ev] input signal
    by blast
qed

text \<open>The first terminal request is the one that is kept, and once a terminal cause is
  recorded neither the cause nor the final lifecycle changes again.\<close>

theorem terminal_cause_latched:
  "(case terminal_request (fst (broker_run name limits evs)) of None \<Rightarrow> True
    | Some cause \<Rightarrow> terminal_request (fst (broker_run name limits (evs @ later))) = Some cause) \<and>
   (case terminal (rt_state (fst (broker_run name limits evs))) of None \<Rightarrow> True
    | Some cause \<Rightarrow>
        terminal (rt_state (fst (broker_run name limits (evs @ later)))) = Some cause \<and>
        lifecycle (rt_state (fst (broker_run name limits (evs @ later))))
          = lifecycle (rt_state (fst (broker_run name limits evs))))"
proof -
  define rt where "rt = fst (broker_run name limits evs)"
  have inv: "runtime_inv rt" unfolding rt_def by (rule broker_run_inv)
  have run: "fst (broker_run name limits (evs @ later)) = fst (run_events (reduce limits) rt later)"
    unfolding broker_run_def rt_def by (rule run_events_append)
  have "terminal_request (fst (run_events (reduce limits) rt later)) = Some cause"
    if "terminal_request rt = Some cause" for cause
    using inv that by (rule reducer.run_latch [rotated]) (rule step_request_latched [OF reduce_step])
  moreover have "terminal (rt_state (fst (run_events (reduce limits) rt later))) = Some cause \<and>
      lifecycle (rt_state (fst (run_events (reduce limits) rt later))) = lifecycle (rt_state rt)"
    if "terminal (rt_state rt) = Some cause" for cause
    by (rule reducer.run_latch [where P = "\<lambda>r. terminal (rt_state r) = Some cause \<and>
          lifecycle (rt_state r) = lifecycle (rt_state rt)", OF _ inv])
      (use step_terminal_frozen [OF reduce_step] that in auto)
  ultimately show ?thesis
    unfolding run rt_def [symmetric] by (simp split: option.splits)
qed

text \<open>Without a failed spawn no client is ever sent an \<open>Internal\<close> error.\<close>

theorem no_internal_errors:
  "filter is_internal_error
     (snd (broker_run name limits (filter (\<lambda>ev. ev \<noteq> SpawnFailed) evs))) = []"
proof -
  have "filter is_internal_error (snd (run_events (reduce limits) rt (filter (\<lambda>ev. ev \<noteq> SpawnFailed) evs))) = []"
    if "runtime_inv rt" for rt
    using that
  proof (induction evs arbitrary: rt)
    case (Cons ev evs)
    have "runtime_inv (fst (reduce limits rt ev))" using Cons.prems by (rule reduce_inv)
    from Cons.IH [OF this] Cons.IH [OF Cons.prems] step_internal [OF reduce_step [OF Cons.prems]]
    show ?case by (simp add: split_beta)
  qed simp
  then show ?thesis unfolding broker_run_def using ready_runtime_inv by blast
qed

text \<open>No frame from any client and no disconnect ends the session: the lifecycle stays, or
  moves from waiting to running, and the broker is not told to shut down.\<close>

theorem clients_cannot_end_session:
  "(lifecycle (rt_state (fst (reduce limits (fst (broker_run name limits evs)) (Event_Frame conn r f))))
      \<in> {lifecycle (rt_state (fst (broker_run name limits evs))), Running} \<and>
    Shutdown \<notin> set (snd (reduce limits (fst (broker_run name limits evs)) (Event_Frame conn r f)))) \<and>
   (lifecycle (rt_state (fst (reduce limits (fst (broker_run name limits evs)) (Disconnected conn r))))
      = lifecycle (rt_state (fst (broker_run name limits evs))) \<and>
    snd (reduce limits (fst (broker_run name limits evs)) (Disconnected conn r)) = [])"
proof -
  have "lifecycle (rt_state rt') \<in> {lifecycle (rt_state rt), Running} \<and> Shutdown \<notin> set fx"
    if "broker_step limits rt (Event_Frame conn r f) rt' fx" for rt rt' fx
    using that by (rule broker_stepE) (auto simp: reply_effects_kinds split: if_splits)
  from this [OF run_step] show ?thesis by simp
qed

text \<open>When the child is finished, exactly the writer, the observers and the waiting kill
  connections are sent the \<open>Exit\<close> frame, each once, before anything is closed, and the broker
  shuts down with the first terminal request, or the exit status, as its cause.\<close>

theorem exit_reaches_everyone:
  assumes "runtime_inv rt" "lifecycle (rt_state rt) = Running"
  shows "\<exists>notices closes.
    snd (reduce limits rt (ChildFinished sig code)) =
      map (\<lambda>t. QueueFrame t (Frame_Exit sig code)) notices @ closes @ [Shutdown] \<and>
    distinct notices \<and>
    set notices = Target_Client ` (set_option (writer_of rt) \<union> set (members (rt_observers rt)))
      \<union> Target_Conn ` set (kill_waiters rt) \<and>
    list_all (\<lambda>e. (\<exists>c. e = CloseClientAfterFlush c) \<or> (\<exists>k. e = CloseAfterFlush k)) closes \<and>
    terminal (rt_state (fst (reduce limits rt (ChildFinished sig code)))) =
      Some (case terminal_request rt of Some c \<Rightarrow> c | None \<Rightarrow> ChildExit sig code)"
proof -
  define ws where "ws = (case writer_of rt of Some c \<Rightarrow> [c] | None \<Rightarrow> [])"
  define obs where "obs = members (rt_observers rt)"
  define ks where "ks = kill_waiters rt"
  define notices where "notices = map Target_Client ws @ map Target_Client obs @ map Target_Conn ks"
  define closes where "closes = map CloseClientAfterFlush ws @ map CloseClientAfterFlush obs @ map CloseAfterFlush ks"
  have ws: "set ws = set_option (writer_of rt)" "distinct ws" "set ws \<inter> set obs = {}"
    using assms(1) by (auto simp: ws_def obs_def writer_of_def runtime_inv_def split: ownership.splits)
  have d: "distinct obs" "distinct ks"
    using assms(1) by (simp_all add: runtime_inv_def obs_def ks_def)
  have fx: "snd (reduce limits rt (ChildFinished sig code)) =
      map (\<lambda>t. QueueFrame t (Frame_Exit sig code)) notices @ closes @ [Shutdown]"
    "terminal (rt_state (fst (reduce limits rt (ChildFinished sig code)))) =
      Some (case terminal_request rt of Some c \<Rightarrow> c | None \<Rightarrow> ChildExit sig code)"
    using assms(2) terminate_running [OF assms(1)]
    by (auto simp: child_finished_def Let_def final_lifecycle_def exit_effects_def notices_def closes_def
        ws_def obs_def ks_def comp_def split: option.splits)
  moreover have "distinct notices"
    using ws d by (auto simp: notices_def distinct_map inj_on_def)
  moreover have "set notices = Target_Client ` (set_option (writer_of rt) \<union> set (members (rt_observers rt)))
      \<union> Target_Conn ` set (kill_waiters rt)"
    using ws(1) by (auto simp: notices_def obs_def ks_def)
  moreover have "list_all (\<lambda>e. (\<exists>c. e = CloseClientAfterFlush c) \<or> (\<exists>k. e = CloseAfterFlush k)) closes"
    by (auto simp: closes_def list_all_iff)
  ultimately show ?thesis by blast
qed

text \<open>A running broker: session \<open>a\<close>, the writer 1 attached on connection 3.\<close>

definition running_example :: runtime where
  "running_example = fst (broker_run [0x61] default_pty_limits
     [Event_Frame 3 ConnRole_AwaitingFirstFrame (Frame_Hello Role_Writer False [0x61] 24 80)])"

lemma running_example_eq:
  "running_example =
     \<lparr>rt_state = \<lparr>lifecycle = Running, ownership = Writer 1, terminal = None\<rparr>,
      rt_observers = observers_new 8, session_name = [0x61],
      next_client_id = 2, terminal_request = None, kill_waiters = [], kill_started = False\<rparr>"
proof -
  define rt where "rt = ready_runtime [0x61] default_pty_limits"
  have rt: "lifecycle (rt_state rt) = WaitingForWriter" "session_name rt = [0x61]" "next_client_id rt = 1"
    by (simp_all add: rt_def ready_runtime_def)
  have inv: "runtime_inv rt" unfolding rt_def by (rule ready_runtime_inv)
  have "running_example = fst (hello_initial_writer rt default_pty_limits 3 24 80)"
    unfolding running_example_def broker_run_def rt_def [symmetric]
    using rt by (simp add: reduce_frame_def on_hello_def split_beta)
  then show ?thesis
    unfolding hello_initial_writer_eq [OF inv rt(1)]
    by (simp add: rt_def ready_runtime_def default_pty_limits_def)
qed

lemma running_example_inv: "runtime_inv running_example"
  unfolding running_example_def by (rule broker_run_inv)

lemma exit_reaches_everyone_witness:
  "\<exists>notices closes.
    snd (reduce default_pty_limits running_example (ChildFinished False 7)) =
      map (\<lambda>t. QueueFrame t (Frame_Exit False 7)) notices @ closes @ [Shutdown] \<and>
    distinct notices \<and>
    set notices = Target_Client ` (set_option (writer_of running_example)
        \<union> set (members (rt_observers running_example)))
      \<union> Target_Conn ` set (kill_waiters running_example) \<and>
    list_all (\<lambda>e. (\<exists>c. e = CloseClientAfterFlush c) \<or> (\<exists>k. e = CloseAfterFlush k)) closes \<and>
    terminal (rt_state (fst (reduce default_pty_limits running_example (ChildFinished False 7)))) =
      Some (case terminal_request running_example of Some c \<Rightarrow> c | None \<Rightarrow> ChildExit False 7)"
  by (rule exit_reaches_everyone [OF running_example_inv]) (simp add: running_example_eq)

text \<open>A writer's \<open>Hello\<close> on an owned running session. Without take-over nothing changes and
  \<open>Busy\<close> names the owner; with take-over a fresh id becomes the writer, the old writer is told
  \<open>Revoked\<close> (its queues dropped first) and stays as an observer exactly if there is room, and
  only then is the new writer granted. Exhausted ids refuse.\<close>

theorem hello_on_owned_session:
  assumes "runtime_inv rt" "lifecycle (rt_state rt) = Running" "ownership (rt_state rt) = Writer old"
    and "(rows = 0) = (cols = 0)"
  shows "reduce limits rt (Event_Frame conn ConnRole_AwaitingFirstFrame
      (Frame_Hello Role_Writer take_over (session_name rt) rows cols)) =
    (if \<not> take_over then (rt, [QueueFrame (Target_Conn conn) (Frame_Busy old), CloseAfterFlush conn])
     else if next_client_id rt = - 1 then (rt, resource_limit_close limits conn)
     else
       (rt\<lparr>next_client_id := next_client_id rt + 1,
           rt_state := (rt_state rt)\<lparr>ownership := Writer (next_client_id rt)\<rparr>,
           rt_observers := (if is_full (rt_observers rt) then rt_observers rt
             else (rt_observers rt)\<lparr>members := members (rt_observers rt) @ [old]\<rparr>)\<rparr>,
        [DropQueues (Target_Client old),
         QueueFrame (Target_Client old) (Frame_Ownership Ownership_Revoked),
         (if is_full (rt_observers rt) then CloseClientAfterFlush old
          else SetRole (Target_Client old) (ConnRole_Observer old))]
        @ apply_dimensions_fx rows cols
        @ [SetRole (Target_Conn conn) (ConnRole_Writer (next_client_id rt)),
           QueueFrame (Target_Conn conn) (hello_ack (next_client_id rt) WriterGranted),
           QueueFrame (Target_Conn conn) (Frame_Ownership Ownership_Granted)]))"
  using assms by (simp add: reduce_frame_def on_hello_def hello_take_over_eq)

lemma hello_on_owned_session_witness:
  "snd (reduce default_pty_limits running_example (Event_Frame 4 ConnRole_AwaitingFirstFrame
      (Frame_Hello Role_Writer True [0x61] 0 0))) =
   [DropQueues (Target_Client 1), QueueFrame (Target_Client 1) (Frame_Ownership Ownership_Revoked),
    SetRole (Target_Client 1) (ConnRole_Observer 1), SetRole (Target_Conn 4) (ConnRole_Writer 2),
    QueueFrame (Target_Conn 4) (hello_ack 2 WriterGranted),
    QueueFrame (Target_Conn 4) (Frame_Ownership Ownership_Granted)]"
  using hello_on_owned_session [OF running_example_inv, of 1 0 0 default_pty_limits 4 True]
  by (simp add: running_example_eq is_full_def observers_new_def apply_dimensions_fx_def)

end
