(* ===== verification/Pty_Child.thy ===== *)
theory Pty_Child
  imports Pty_State
begin

text \<open>
  The operating system as the broker sees it, and the child process capability
  (\<open>crates/everpty/src/error.rs\<close>, \<open>crates/everpty/src/child.rs\<close>). Every system call is an unknown
  function of a counter that grows with each call: the record \<open>broker_os\<close> of these functions is a
  parameter of the whole broker model, so every theorem holds for every behaviour of the kernel
  and of the peers. The child part covers the validation before the fork, the parent's half of
  the spawn handshake with its cleanups, and the identity-checked signals and reaps.
\<close>

section \<open>Errors\<close>

text \<open>An \<open>io::Error\<close> with raw errno \<open>n\<close> is \<open>Io_Other n\<close>; \<open>Io_Other 0\<close> is \<open>io::Error::other\<close>, which has
  none. \<open>ErrorKind::NotFound\<close> and \<open>Interrupted\<close> are the errnos \<open>ENOENT\<close> and \<open>EINTR\<close>.\<close>

definition "ENOENT = (2::nat)"
definition "ESRCH = (3::nat)"
definition "EIO = (5::nat)"
definition "EINVAL = (22::nat)"
definition "EPIPE = (32::nat)"
definition "ECONNABORTED = (103::nat)"
definition "ECONNRESET = (104::nat)"
definition "ENOTCONN = (107::nat)"

lemmas errno_defs = ENOENT_def ESRCH_def EIO_def EINVAL_def EPIPE_def ECONNABORTED_def
  ECONNRESET_def ENOTCONN_def

definition raw_os_error :: "io_error \<Rightarrow> nat option" where
  "raw_os_error e = (case e of Io_Other n \<Rightarrow> if n = 0 then None else Some n
                     | Io_WouldBlock \<Rightarrow> Some 11 | _ \<Rightarrow> None)"

datatype spawn_stage =
    Stage_Pdeathsig | Stage_ParentGone | Stage_ResetSignals | Stage_Setsid | Stage_ControllingTty
  | Stage_DupStdio | Stage_Exec | Stage_Sync

datatype pty_error =
    Err_AlreadyExists
  | Err_NotLive
  | Err_Busy u32
  | Err_NameInvalid
  | Err_SocketStale
  | Err_StartupDeadline
  | Err_PathTooLong
  | Err_MetadataInvalid
  | Err_MetadataTooLarge
  | Err_StateRootUnavailable
  | Err_StatePathUnsafe
  | Err_SpawnFailed spawn_stage u32
  | Err_Protocol string
  | Err_LocalSignal u32
  | Err_Io io_error

datatype exit_outcome = Outcome_Exited u32 | Outcome_Signaled u32

definition outcome_from_wait :: "bool \<times> u32 \<Rightarrow> exit_outcome" where
  "outcome_from_wait st = (case st of (signaled, code) \<Rightarrow>
     if signaled then Outcome_Signaled code else Outcome_Exited code)"

definition exit_parts :: "exit_outcome \<Rightarrow> bool \<times> u32" where
  "exit_parts outcome = (case outcome of Outcome_Exited v \<Rightarrow> (False, v) | Outcome_Signaled v \<Rightarrow> (True, v))"

lemma exit_parts_wait: "exit_parts (outcome_from_wait st) = st"
  by (cases st) (simp add: exit_parts_def outcome_from_wait_def)

section \<open>The operating system\<close>

type_synonym pid = int
type_synonym raw_fd = int

datatype fd_name = Fd_Listener | Fd_Signals | Fd_Readiness | Fd_Conn conn_id

datatype poll_owner =
    Owner_Listener | Owner_Signals | Owner_Master | Owner_LeaseProcess u64 | Owner_Client usize conn_id

record poll_flags =
  pf_in :: bool
  pf_out :: bool
  pf_err :: bool
  pf_hup :: bool
  pf_nval :: bool

text \<open>\<open>os_read\<close> answers with the number of attempts a signal interrupts first; \<open>os_recv\<close> with what
  the successive calls of one readable event return before the socket has nothing more (an empty
  chunk is end of file); \<open>os_grace_polls\<close> with the exit observations made before the grace
  deadline passes; \<open>os_exec_pipe\<close> with what the exec-error pipe holds until its end.\<close>

record broker_os =
  os_clock :: "nat \<Rightarrow> io_error + u64"
  os_poll :: "nat \<Rightarrow> (poll_owner \<times> poll_flags) list \<Rightarrow> u32 option \<Rightarrow> io_error + (poll_owner \<Rightarrow> poll_flags)"
  os_send :: "nat \<Rightarrow> conn_id \<Rightarrow> bytes \<Rightarrow> io_error + usize"
  os_send_fd :: "nat \<Rightarrow> conn_id \<Rightarrow> bytes \<Rightarrow> io_error + usize"
  os_recv :: "nat \<Rightarrow> conn_id \<Rightarrow> (io_error + bytes) list"
  os_accept :: "nat \<Rightarrow> io_error + bool"
  os_peer_uid :: "nat \<Rightarrow> io_error + u32"
  os_effective_uid :: u32
  os_peer_pid :: "nat \<Rightarrow> conn_id \<Rightarrow> io_error + pid"
  os_pidfd_open :: "nat \<Rightarrow> pid \<Rightarrow> io_error + unit"
  os_read :: "nat \<Rightarrow> nat \<times> (io_error + bytes)"
  os_write :: "nat \<Rightarrow> bytes \<Rightarrow> io_error + usize"
  os_set_nonblocking :: "nat \<Rightarrow> io_error + unit"
  os_duplicate :: "nat \<Rightarrow> io_error + unit"
  os_get_winsize :: "nat \<Rightarrow> io_error + u16 \<times> u16"
  os_set_winsize :: "nat \<Rightarrow> u16 \<Rightarrow> u16 \<Rightarrow> io_error + unit"
  os_ignore_sigpipe :: "nat \<Rightarrow> io_error + unit"
  os_broker_signals :: "nat \<Rightarrow> io_error + unit"
  os_read_signalfd :: "nat \<Rightarrow> io_error + nat option"
  os_ready_write :: "nat \<Rightarrow> bytes \<Rightarrow> io_error + unit"
  os_store_metadata :: "nat \<Rightarrow> pty_error + unit"
  os_child_meta :: "pid \<Rightarrow> pid \<Rightarrow> u64 \<Rightarrow> pty_error + unit"
  os_retire_socket :: "nat \<Rightarrow> pty_error + unit"
  os_retire_state :: "nat \<Rightarrow> pty_error + unit"
  os_raw_fd :: "fd_name \<Rightarrow> raw_fd"
  os_executable :: "bytes \<Rightarrow> bool"
  os_prepare_fds :: "nat \<Rightarrow> io_error + raw_fd list \<times> raw_fd list"
  os_fork :: "nat \<Rightarrow> io_error + pid"
  os_read_byte :: "nat \<Rightarrow> io_error + bool"
  os_exec_pipe :: "nat \<Rightarrow> io_error + bytes"
  os_send_release :: "nat \<Rightarrow> io_error + usize"
  os_getpgid :: "nat \<Rightarrow> pid \<Rightarrow> io_error + pid"
  os_proc_ticks :: "nat \<Rightarrow> pid \<Rightarrow> io_error + u64"
  os_observe_exit :: "nat \<Rightarrow> pid \<Rightarrow> io_error + (bool \<times> u32) option"
  os_grace_polls :: "nat \<Rightarrow> pid \<Rightarrow> (io_error + (bool \<times> u32) option) list"
  os_waitpid_nohang :: "nat \<Rightarrow> pid \<Rightarrow> io_error + (bool \<times> u32) option"
  os_waitpid_blocking :: "nat \<Rightarrow> pid \<Rightarrow> io_error + bool \<times> u32"
  os_killpg :: "nat \<Rightarrow> pid \<Rightarrow> nat \<Rightarrow> io_error + unit"

text \<open>The world is the call counter and a journal of the calls that matter to the safety
  properties: group signals, reaps, and what was written to or read away from the PTY.\<close>

datatype sys_mark =
    Mark_Reaped pid
  | Mark_Group_Signal pid nat
  | Mark_Term u64
  | Mark_Kill u64
  | Mark_Input bytes
  | Mark_Discard bytes

record world =
  wd_tick :: nat
  wd_log :: "sys_mark list"

definition sys_call :: "(nat \<Rightarrow> 'a) \<Rightarrow> world \<Rightarrow> 'a \<times> world" where
  "sys_call f w = (f (wd_tick w), w\<lparr>wd_tick := Suc (wd_tick w)\<rparr>)"

definition mark :: "sys_mark \<Rightarrow> world \<Rightarrow> world" where
  "mark m w = w\<lparr>wd_log := wd_log w @ [m]\<rparr>"

lemma wd_log_simps [simp]:
  "wd_log (snd (sys_call f w)) = wd_log w"
  "wd_log (mark m w) = wd_log w @ [m]"
  by (simp_all add: sys_call_def mark_def)

lemma sys_call_log: "sys_call f w = (x, w') \<Longrightarrow> wd_log w' = wd_log w"
  by (auto simp: sys_call_def)

definition SIGHUP :: nat where "SIGHUP = 1"
definition SIGINT :: nat where "SIGINT = 2"
definition SIGQUIT :: nat where "SIGQUIT = 3"
definition SIGKILL :: nat where "SIGKILL = 9"
definition SIGTERM :: nat where "SIGTERM = 15"
definition SIGCHLD :: nat where "SIGCHLD = 17"

section \<open>Validation before the fork\<close>

definition err_invalid :: pty_error where
  "err_invalid = Err_Io Io_InvalidInput"

record spawn_spec =
  ss_session_name :: bytes
  ss_argv :: "bytes list"
  ss_env :: "bytes list"
  ss_path_var :: "bytes option"
  ss_rows :: u16
  ss_cols :: u16
  ss_close_in_child :: "raw_fd list"

definition byte_slash :: u8 where "byte_slash = 47"
definition byte_colon :: u8 where "byte_colon = 58"
definition byte_equals :: u8 where "byte_equals = 61"

lemmas byte_name_defs = byte_slash_def byte_colon_def byte_equals_def

text \<open>\<open>slice::split\<close>: there is always a last, possibly empty, part.\<close>

fun split_on :: "u8 \<Rightarrow> bytes \<Rightarrow> bytes list" where
  "split_on s [] = [[]]"
| "split_on s (b # bs) =
     (if b = s then [] # split_on s bs
      else (case split_on s bs of [] \<Rightarrow> [[b]] | p # ps \<Rightarrow> (b # p) # ps))"

definition path_join :: "bytes \<Rightarrow> bytes \<Rightarrow> bytes" where
  "path_join dir name = (if last dir = byte_slash then dir @ name else dir @ [byte_slash] @ name)"

definition resolve_executable :: "broker_os \<Rightarrow> bytes \<Rightarrow> bytes option \<Rightarrow> pty_error + bytes" where
  "resolve_executable os argv0 path_var =
     (if argv0 = [] then Inl err_invalid
      else if 0 \<in> set argv0 then Inl err_invalid
      else if byte_slash \<in> set argv0 then Inr argv0
      else case path_var of
        None \<Rightarrow> Inl (Err_Io (Io_Other ENOENT))
      | Some p \<Rightarrow>
          (case find (\<lambda>dir. dir \<noteq> [] \<and> hd dir = byte_slash \<and> os_executable os (path_join dir argv0))
                  (split_on byte_colon p) of
             Some dir \<Rightarrow> Inr (path_join dir argv0)
           | None \<Rightarrow> Inl (Err_Io (Io_Other ENOENT))))"

definition session_env_key :: bytes where
  "session_env_key = str_bytes ''EVERPTY_SESSION''"

definition session_entry :: "bytes \<Rightarrow> bytes" where
  "session_entry name = session_env_key @ [byte_equals] @ name"

text \<open>The loop of \<open>build_child_env\<close>; \<open>out\<close> is the vector built so far.\<close>

fun child_env_loop :: "bytes list \<Rightarrow> bytes list \<Rightarrow> pty_error + bytes list" where
  "child_env_loop [] out = Inr out"
| "child_env_loop (entry # env) out =
     (if 0 \<in> set entry then Inl err_invalid
      else if byte_equals \<notin> set entry then Inl err_invalid
      else let key = takeWhile (\<lambda>b. b \<noteq> byte_equals) entry in
        if key = [] then Inl err_invalid
        else if key = session_env_key then child_env_loop env out
        else child_env_loop env (out @ [entry]))"

definition build_child_env :: "bytes list \<Rightarrow> bytes \<Rightarrow> pty_error + bytes list" where
  "build_child_env env name =
     try_bind (child_env_loop env []) (\<lambda>out. Inr (out @ [session_entry name]))"

fun close_plan_loop ::
  "raw_fd list \<Rightarrow> raw_fd list \<Rightarrow> raw_fd list \<Rightarrow> raw_fd list \<Rightarrow> pty_error + raw_fd list" where
  "close_plan_loop internal protected [] plan = Inr plan"
| "close_plan_loop internal protected (fd # extras) plan =
     (if fd \<le> 2 then Inl err_invalid
      else if fd \<in> set protected \<or> fd \<in> set internal then Inl err_invalid
      else close_plan_loop internal protected extras
             (if fd \<in> set plan then plan else plan @ [fd]))"

definition build_close_plan :: "raw_fd list \<Rightarrow> raw_fd list \<Rightarrow> raw_fd list \<Rightarrow> pty_error + raw_fd list" where
  "build_close_plan internal protected extras = close_plan_loop internal protected extras internal"

definition prepare_spec :: "broker_os \<Rightarrow> spawn_spec \<Rightarrow> pty_limits \<Rightarrow> pty_error + bytes \<times> bytes list" where
  "prepare_spec os spec limits =
     (if \<not> validate_name (ss_session_name spec) limits then Inl Err_NameInvalid
      else if ss_rows spec = 0 \<or> ss_cols spec = 0 then Inl err_invalid
      else case ss_argv spec of
        [] \<Rightarrow> Inl err_invalid
      | argv0 # _ \<Rightarrow>
          try_bind (resolve_executable os argv0 (ss_path_var spec)) (\<lambda>executable.
          try_bind (build_child_env (ss_env spec) (ss_session_name spec)) (\<lambda>env.
            Inr (executable, env))))"

text \<open>\<open>ExecPlan::new\<close>: every string becomes a C string, which fails on a NUL byte.\<close>

definition exec_plan_ok :: "bytes \<Rightarrow> bytes list \<Rightarrow> bytes list \<Rightarrow> pty_error + unit" where
  "exec_plan_ok path argv envp =
     (if 0 \<in> set path \<or> (\<exists>a \<in> set argv. 0 \<in> set a) \<or> (\<exists>e \<in> set envp. 0 \<in> set e)
      then Inl err_invalid else Inr ())"

definition validate_spawn_spec :: "broker_os \<Rightarrow> spawn_spec \<Rightarrow> pty_limits \<Rightarrow> pty_error + unit" where
  "validate_spawn_spec os spec limits =
     try_bind (prepare_spec os spec limits) (\<lambda>(executable, env).
       exec_plan_ok executable (ss_argv spec) env)"

definition prepare_fork ::
  "broker_os \<Rightarrow> spawn_spec \<Rightarrow> pty_limits \<Rightarrow> world \<Rightarrow> (pty_error + raw_fd list) \<times> world" where
  "prepare_fork os spec limits w =
     (case prepare_spec os spec limits of
        Inl e \<Rightarrow> (Inl e, w)
      | Inr (executable, env) \<Rightarrow>
          (case exec_plan_ok executable (ss_argv spec) env of
             Inl e \<Rightarrow> (Inl e, w)
           | Inr _ \<Rightarrow>
               (case sys_call (os_prepare_fds os) w of
                  (Inl e, w1) \<Rightarrow> (Inl (Err_Io e), w1)
                | (Inr (internal, protected), w1) \<Rightarrow>
                    (build_close_plan internal protected (ss_close_in_child spec), w1))))"

section \<open>The exec-error record\<close>

definition spawn_stage_u8 :: "spawn_stage \<Rightarrow> u8" where
  "spawn_stage_u8 s = (case s of
     Stage_Pdeathsig \<Rightarrow> 1 | Stage_ParentGone \<Rightarrow> 2 | Stage_ResetSignals \<Rightarrow> 3 | Stage_Setsid \<Rightarrow> 4
   | Stage_ControllingTty \<Rightarrow> 5 | Stage_DupStdio \<Rightarrow> 6 | Stage_Exec \<Rightarrow> 7 | Stage_Sync \<Rightarrow> 8)"

definition spawn_stage_from_u8 :: "u8 \<Rightarrow> spawn_stage option" where
  "spawn_stage_from_u8 b =
     (if b = 1 then Some Stage_Pdeathsig else if b = 2 then Some Stage_ParentGone
      else if b = 3 then Some Stage_ResetSignals else if b = 4 then Some Stage_Setsid
      else if b = 5 then Some Stage_ControllingTty else if b = 6 then Some Stage_DupStdio
      else if b = 7 then Some Stage_Exec else if b = 8 then Some Stage_Sync else None)"

definition EXEC_RECORD_LEN :: usize where "EXEC_RECORD_LEN = 5"

text \<open>The errno is an \<open>i32\<close>, kept as its 32 bits.\<close>

definition encode_exec_record :: "spawn_stage \<Rightarrow> u32 \<Rightarrow> bytes" where
  "encode_exec_record stage errno = [spawn_stage_u8 stage] @ be_bytes errno"

definition parse_exec_record :: "bytes \<Rightarrow> (spawn_stage \<times> u32) option" where
  "parse_exec_record buf =
     (if length buf \<noteq> EXEC_RECORD_LEN then None
      else case spawn_stage_from_u8 (buf ! 0) of
        None \<Rightarrow> None
      | Some stage \<Rightarrow> Some (stage, be_word (subslice 1 5 buf)))"

definition read_exec_result ::
  "broker_os \<Rightarrow> world \<Rightarrow> (io_error + (spawn_stage \<times> u32) option) \<times> world" where
  "read_exec_result os w =
     (case sys_call (os_exec_pipe os) w of
        (Inl e, w1) \<Rightarrow> (Inl e, w1)
      | (Inr bs, w1) \<Rightarrow>
          let buf = take (EXEC_RECORD_LEN + 1) bs in
          if buf = [] then (Inr None, w1)
          else (case parse_exec_record buf of
                  Some r \<Rightarrow> (Inr (Some r), w1)
                | None \<Rightarrow> (Inl Io_InvalidData, w1)))"

section \<open>The child capability\<close>

record child_proc =
  cp_pid :: pid
  cp_pgid :: pid
  cp_start_ticks :: u64
  cp_observed :: "exit_outcome option"
  cp_outcome :: "exit_outcome option"

definition identity_matches :: "broker_os \<Rightarrow> child_proc \<Rightarrow> world \<Rightarrow> (io_error + bool) \<times> world" where
  "identity_matches os c w =
     (if cp_pid c \<le> 0 \<or> cp_pgid c \<le> 0 then (Inr False, w)
      else case sys_call (\<lambda>t. os_getpgid os t (cp_pid c)) w of
        (Inl e, w1) \<Rightarrow> (if raw_os_error e = Some ESRCH then Inr False else Inl e, w1)
      | (Inr pgid, w1) \<Rightarrow>
          (case sys_call (\<lambda>t. os_proc_ticks os t (cp_pid c)) w1 of
             (Inl e, w2) \<Rightarrow> (if raw_os_error e = Some ENOENT then Inr False else Inl e, w2)
           | (Inr ticks, w2) \<Rightarrow> (Inr (pgid = cp_pgid c \<and> ticks = cp_start_ticks c), w2)))"

definition observe_exit ::
  "broker_os \<Rightarrow> child_proc \<Rightarrow> world \<Rightarrow> (io_error + exit_outcome option) \<times> child_proc \<times> world" where
  "observe_exit os c w =
     (if cp_outcome c \<noteq> None then (Inr (cp_outcome c), c, w)
      else if cp_observed c \<noteq> None then (Inr (cp_observed c), c, w)
      else case sys_call (\<lambda>t. os_observe_exit os t (cp_pid c)) w of
        (Inl e, w1) \<Rightarrow> (Inl e, c, w1)
      | (Inr None, w1) \<Rightarrow> (Inr None, c, w1)
      | (Inr (Some st), w1) \<Rightarrow>
          (Inr (Some (outcome_from_wait st)), c\<lparr>cp_observed := Some (outcome_from_wait st)\<rparr>, w1))"

definition signal_group :: "broker_os \<Rightarrow> child_proc \<Rightarrow> nat \<Rightarrow> world \<Rightarrow> (pty_error + unit) \<times> world" where
  "signal_group os c sig w =
     (case sys_call (\<lambda>t. os_killpg os t (cp_pgid c) sig) w of
        (Inr _, w1) \<Rightarrow> (Inr (), mark (Mark_Group_Signal (cp_pgid c) sig) w1)
      | (Inl e, w1) \<Rightarrow> (if raw_os_error e = Some ESRCH then Inr () else Inl (Err_Io e), w1))"

definition signal_group_checked ::
  "broker_os \<Rightarrow> child_proc \<Rightarrow> nat \<Rightarrow> world \<Rightarrow> (pty_error + unit) \<times> world" where
  "signal_group_checked os c sig w =
     (case identity_matches os c w of
        (Inl e, w1) \<Rightarrow> (Inl (Err_Io e), w1)
      | (Inr False, w1) \<Rightarrow> (Inl Err_NotLive, w1)
      | (Inr True, w1) \<Rightarrow> signal_group os c sig w1)"

definition reap_observed_nohang ::
  "broker_os \<Rightarrow> child_proc \<Rightarrow> world \<Rightarrow> (io_error + exit_outcome option) \<times> child_proc \<times> world" where
  "reap_observed_nohang os c w =
     (let reap = (\<lambda>c w. case sys_call (\<lambda>t. os_waitpid_nohang os t (cp_pid c)) w of
                 (Inl e, w1) \<Rightarrow> (Inl e, c, w1)
               | (Inr None, w1) \<Rightarrow> (Inr None, c, w1)
               | (Inr (Some st), w1) \<Rightarrow>
                   (Inr (Some (outcome_from_wait st)), c\<lparr>cp_outcome := Some (outcome_from_wait st)\<rparr>,
                    mark (Mark_Reaped (cp_pid c)) w1))
      in if cp_outcome c \<noteq> None then (Inr (cp_outcome c), c, w)
      else if cp_observed c = None
      then (case observe_exit os c w of
              (Inl e, c1, w1) \<Rightarrow> (Inl e, c1, w1)
            | (Inr None, c1, w1) \<Rightarrow> (Inr None, c1, w1)
            | (Inr (Some _), c1, w1) \<Rightarrow> reap c1 w1)
      else reap c w)"

definition waitpid_blocking :: "broker_os \<Rightarrow> pid \<Rightarrow> world \<Rightarrow> (io_error + bool \<times> u32) \<times> world" where
  "waitpid_blocking os p w =
     (case sys_call (\<lambda>t. os_waitpid_blocking os t p) w of
        (Inl e, w1) \<Rightarrow> (Inl e, w1)
      | (Inr st, w1) \<Rightarrow> (Inr st, mark (Mark_Reaped p) w1))"

definition reap_blocking ::
  "broker_os \<Rightarrow> child_proc \<Rightarrow> world \<Rightarrow> (io_error + exit_outcome) \<times> child_proc \<times> world" where
  "reap_blocking os c w =
     (case cp_outcome c of
        Some outc \<Rightarrow> (Inr outc, c, w)
      | None \<Rightarrow>
          (case waitpid_blocking os (cp_pid c) w of
             (Inl e, w1) \<Rightarrow> (Inl e, c, w1)
           | (Inr st, w1) \<Rightarrow>
               (Inr (outcome_from_wait st), c\<lparr>cp_outcome := Some (outcome_from_wait st)\<rparr>, w1)))"

text \<open>\<open>terminate\<close>: the grace loop ends with the first observed exit, the first failed observation,
  or the deadline (no observation left).\<close>

fun grace_loop :: "(io_error + (bool \<times> u32) option) list \<Rightarrow> child_proc \<Rightarrow> (io_error + unit) \<times> child_proc" where
  "grace_loop [] c = (Inr (), c)"
| "grace_loop (Inl e # _) c = (Inl e, c)"
| "grace_loop (Inr None # polls) c = grace_loop polls c"
| "grace_loop (Inr (Some st) # _) c = (Inr (), c\<lparr>cp_observed := Some (outcome_from_wait st)\<rparr>)"

definition terminate_finish ::
  "broker_os \<Rightarrow> child_proc \<Rightarrow> world \<Rightarrow> (pty_error + exit_outcome) \<times> child_proc \<times> world" where
  "terminate_finish os c w =
     (case signal_group_checked os c SIGKILL w of
        (Inl e, w1) \<Rightarrow> (Inl e, c, w1)
      | (Inr _, w1) \<Rightarrow>
          (case reap_blocking os c w1 of (r, c1, w2) \<Rightarrow> (map_err Err_Io r, c1, w2)))"

definition terminate ::
  "broker_os \<Rightarrow> child_proc \<Rightarrow> world \<Rightarrow> (pty_error + exit_outcome) \<times> child_proc \<times> world" where
  "terminate os c w =
     (case cp_outcome c of
        Some outc \<Rightarrow> (Inr outc, c, w)
      | None \<Rightarrow>
          (case observe_exit os c w of
             (Inl e, c1, w1) \<Rightarrow> (Inl (Err_Io e), c1, w1)
           | (Inr (Some _), c1, w1) \<Rightarrow> terminate_finish os c1 w1
           | (Inr None, c1, w1) \<Rightarrow>
               (case signal_group_checked os c1 SIGTERM w1 of
                  (Inl e, w2) \<Rightarrow> (Inl e, c1, w2)
                | (Inr _, w2) \<Rightarrow>
                    (case sys_call (\<lambda>t. os_grace_polls os t (cp_pid c1)) w2 of
                       (polls, w3) \<Rightarrow>
                         (case grace_loop polls c1 of
                            (Inl e, c2) \<Rightarrow> (Inl (Err_Io e), c2, w3)
                          | (Inr _, c2) \<Rightarrow> terminate_finish os c2 w3)))))"

section \<open>The parent's half of the spawn\<close>

definition cleanup_result :: "pty_error \<Rightarrow> io_error + bool \<times> u32 \<Rightarrow> pty_error" where
  "cleanup_result primary reap = (case reap of Inr _ \<Rightarrow> primary | Inl e \<Rightarrow> Err_Io e)"

definition barrier_death_error :: "io_error + (spawn_stage \<times> u32) option \<Rightarrow> pty_error" where
  "barrier_death_error report = (case report of
     Inr (Some (stage, errno)) \<Rightarrow> Err_SpawnFailed stage errno
   | Inr None \<Rightarrow> err_invalid
   | Inl e \<Rightarrow> Err_Io e)"

definition group_is_child_own :: "pid \<Rightarrow> pid \<Rightarrow> bool" where
  "group_is_child_own pid pgid \<longleftrightarrow> pgid > 0 \<and> pgid = pid"

datatype released_failure = ReportedFailure | MalformedRecord | PipeReadFailed

definition released_failure_needs_terminate :: "released_failure \<Rightarrow> bool" where
  "released_failure_needs_terminate f \<longleftrightarrow> f = PipeReadFailed"

definition fail_pending :: "broker_os \<Rightarrow> pty_error \<Rightarrow> pid \<Rightarrow> world \<Rightarrow> pty_error \<times> world" where
  "fail_pending os primary p w =
     (case waitpid_blocking os p w of (reap, w1) \<Rightarrow> (cleanup_result primary reap, w1))"

definition fail_released ::
  "broker_os \<Rightarrow> released_failure \<Rightarrow> pty_error \<Rightarrow> child_proc \<Rightarrow> world \<Rightarrow> pty_error \<times> world" where
  "fail_released os failure primary c w =
     (if released_failure_needs_terminate failure
      then (case terminate os c w of
              (Inr _, _, w1) \<Rightarrow> (primary, w1)
            | (Inl cleanup, _, w1) \<Rightarrow> (cleanup, w1))
      else fail_pending os primary (cp_pid c) w)"

definition send_release_byte :: "broker_os \<Rightarrow> world \<Rightarrow> (io_error + unit) \<times> world" where
  "send_release_byte os w =
     (case sys_call (os_send_release os) w of
        (Inl e, w1) \<Rightarrow> (Inl e, w1)
      | (Inr n, w1) \<Rightarrow> (if n = 1 then Inr () else Inl (Io_Other 0), w1))"

definition failed :: "pty_error \<times> world \<Rightarrow> (pty_error + child_proc) \<times> world" where
  "failed r = (Inl (fst r), snd r)"

definition child_released :: "broker_os \<Rightarrow> pid \<Rightarrow> pid \<Rightarrow> u64 \<Rightarrow> world \<Rightarrow> (pty_error + child_proc) \<times> world" where
  "child_released os p pgid start_ticks w =
     (let child = \<lparr>cp_pid = p, cp_pgid = pgid, cp_start_ticks = start_ticks,
                   cp_observed = None, cp_outcome = None\<rparr>
      in case read_exec_result os w of
        (Inr None, w1) \<Rightarrow> (Inr child, w1)
      | (Inr (Some (stage, errno)), w1) \<Rightarrow>
          failed (fail_released os ReportedFailure (Err_SpawnFailed stage errno) child w1)
      | (Inl e, w1) \<Rightarrow>
          failed (fail_released os (if e = Io_InvalidData then MalformedRecord else PipeReadFailed)
                    (Err_Io e) child w1))"

definition parent_after_fork :: "broker_os \<Rightarrow> pid \<Rightarrow> world \<Rightarrow> (pty_error + child_proc) \<times> world" where
  "parent_after_fork os p w =
     (case sys_call (os_read_byte os) w of
        (Inr False, w1) \<Rightarrow>
          (case read_exec_result os w1 of
             (report, w2) \<Rightarrow> failed (fail_pending os (barrier_death_error report) p w2))
      | (Inl e, w1) \<Rightarrow> failed (fail_pending os (Err_Io e) p w1)
      | (Inr True, w1) \<Rightarrow>
          (case sys_call (\<lambda>t. os_getpgid os t p) w1 of
             (Inl e, w2) \<Rightarrow> failed (fail_pending os (Err_Io e) p w2)
           | (Inr pgid, w2) \<Rightarrow>
               (case sys_call (\<lambda>t. os_proc_ticks os t p) w2 of
                  (Inl e, w3) \<Rightarrow> failed (fail_pending os (Err_Io e) p w3)
                | (Inr start_ticks, w3) \<Rightarrow>
                    if \<not> group_is_child_own p pgid then failed (fail_pending os err_invalid p w3)
                    else (case send_release_byte os w3 of
                       (Inl e, w4) \<Rightarrow> failed (fail_pending os (Err_Io e) p w4)
                     | (Inr _, w4) \<Rightarrow> child_released os p pgid start_ticks w4))))"

definition child_spawn ::
  "broker_os \<Rightarrow> spawn_spec \<Rightarrow> pty_limits \<Rightarrow> world \<Rightarrow> (pty_error + child_proc) \<times> world" where
  "child_spawn os spec limits w =
     (case prepare_fork os spec limits w of
        (Inl e, w1) \<Rightarrow> (Inl e, w1)
      | (Inr close_plan, w1) \<Rightarrow>
          (case sys_call (os_fork os) w1 of
             (Inl e, w2) \<Rightarrow> (Inl (Err_Io e), w2)
           | (Inr p, w2) \<Rightarrow>
               if p \<le> 0 then (Inl err_invalid, w2) else parent_after_fork os p w2))"

section \<open>The validation\<close>

definition env_entry_ok :: "bytes \<Rightarrow> bool" where
  "env_entry_ok e \<longleftrightarrow> 0 \<notin> set e \<and> byte_equals \<in> set e \<and> hd e \<noteq> byte_equals"

definition env_key :: "bytes \<Rightarrow> bytes" where
  "env_key = takeWhile (\<lambda>b. b \<noteq> byte_equals)"

lemma env_key_empty: "byte_equals \<in> set e \<Longrightarrow> env_key e = [] \<longleftrightarrow> hd e = byte_equals"
  by (cases e) (auto simp: env_key_def)

lemma child_env_loop_eq:
  "child_env_loop env out =
     (if list_all env_entry_ok env then Inr (out @ filter (\<lambda>e. env_key e \<noteq> session_env_key) env)
      else Inl err_invalid)"
proof (induction env arbitrary: out)
  case (Cons e env)
  then show ?case
    using env_key_empty [of e] by (auto simp: env_entry_ok_def Let_def env_key_def [symmetric])
qed simp

lemma session_key_bytes: "byte_equals \<notin> set session_env_key" "session_env_key \<noteq> []"
  by (simp_all add: session_env_key_def byte_equals_def str_bytes_def)

lemma env_key_session: "env_key (session_entry name) = session_env_key"
  using session_key_bytes(1) unfolding env_key_def session_entry_def
  by (subst takeWhile_append2) auto

text \<open>The child's environment is the creator's, entry for entry and in order, with every
  \<open>EVERPTY_SESSION\<close> the creator had replaced by one last entry that names this session; it is
  refused exactly when some entry holds a NUL, has no key or has no equals sign.\<close>

theorem child_env_names_session:
  "build_child_env env name =
     (if list_all env_entry_ok env
      then Inr (filter (\<lambda>e. env_key e \<noteq> session_env_key) env @ [session_entry name])
      else Inl err_invalid) \<and>
   filter (\<lambda>e. env_key e = session_env_key)
     (filter (\<lambda>e. env_key e \<noteq> session_env_key) env @ [session_entry name]) = [session_entry name]"
  by (simp add: build_child_env_def child_env_loop_eq env_key_session)

lemma close_plan_loop_eq:
  "close_plan_loop internal protected extras plan =
     (if list_all (\<lambda>fd. 2 < fd \<and> fd \<notin> set protected \<and> fd \<notin> set internal) extras
      then Inr (fold (\<lambda>fd plan. if fd \<in> set plan then plan else plan @ [fd]) extras plan)
      else Inl err_invalid)"
  by (induction extras arbitrary: plan) auto

lemma fold_insert_new:
  "set (fold (\<lambda>fd plan. if fd \<in> set plan then plan else plan @ [fd]) extras plan) = set plan \<union> set extras"
  "distinct plan \<Longrightarrow> distinct (fold (\<lambda>fd plan. if fd \<in> set plan then plan else plan @ [fd]) extras plan)"
  by (induction extras arbitrary: plan) auto

text \<open>The child closes every descriptor of the broker it was told of and its own copies of the
  parent's ends, never standard input, output or error among the former, never one of its own
  working descriptors; a plan that would is refused.\<close>

theorem close_plan_safe:
  "case build_close_plan internal protected extras of
     Inr plan \<Rightarrow> set plan = set internal \<union> set extras \<and> list_all (\<lambda>fd. 2 < fd) extras \<and>
       set extras \<inter> (set internal \<union> set protected) = {}
   | Inl e \<Rightarrow> e = err_invalid \<and>
       (\<exists>fd. fd \<in> set extras \<and> (fd \<le> 2 \<or> fd \<in> set protected \<or> fd \<in> set internal))"
  by (auto simp: build_close_plan_def close_plan_loop_eq list_all_iff fold_insert_new not_less)

lemma spawn_stage_u8_inv: "spawn_stage_from_u8 (spawn_stage_u8 s) = Some s"
  by (cases s) (simp_all add: spawn_stage_u8_def spawn_stage_from_u8_def)

lemma exec_record_roundtrip: "parse_exec_record (encode_exec_record stage errno) = Some (stage, errno)"
proof -
  have "subslice 1 5 ([spawn_stage_u8 stage] @ be_bytes errno) = be_bytes errno"
    by (simp add: subslice_def)
  then show ?thesis
    by (simp add: parse_exec_record_def encode_exec_record_def EXEC_RECORD_LEN_def spawn_stage_u8_inv)
qed

section \<open>Signals and reaps\<close>

lemma sys_call_eq: "sys_call f w = (x, w') \<longleftrightarrow> x = f (wd_tick w) \<and> w' = w\<lparr>wd_tick := Suc (wd_tick w)\<rparr>"
  by (auto simp: sys_call_def)

lemma identity_matches_log: "identity_matches os c w = (r, w') \<Longrightarrow> wd_log w' = wd_log w"
  by (auto simp: identity_matches_def sys_call_def split: if_splits sum.splits prod.splits)

lemma observe_exit_log:
  "observe_exit os c w = (r, c', w') \<Longrightarrow> wd_log w' = wd_log w \<and> cp_pid c' = cp_pid c \<and>
   cp_pgid c' = cp_pgid c \<and> cp_start_ticks c' = cp_start_ticks c \<and> cp_outcome c' = cp_outcome c"
  by (auto simp: observe_exit_def sys_call_def split: if_splits sum.splits prod.splits option.splits)

lemma signal_checked_cases:
  assumes "signal_group_checked os c sig w = (r, w')"
  shows "(wd_log w' = wd_log w \<or> wd_log w' = wd_log w @ [Mark_Group_Signal (cp_pgid c) sig]) \<and>
    (r \<noteq> Inr () \<longrightarrow> wd_log w' = wd_log w)"
  using assms identity_matches_log [of os c w]
  by (auto simp: signal_group_checked_def signal_group_def sys_call_def mark_def
      split: sum.splits prod.splits bool.splits if_splits)

text \<open>C30: a group signal is sent only to the recorded process group and only when, at that moment, the
  process still sits in that group with the recorded start time; otherwise nothing is signalled and
  the answer is an error.\<close>

theorem signal_needs_identity:
  "let t = wd_tick w; matches = (cp_pid c > 0 \<and> cp_pgid c > 0 \<and>
         os_getpgid os t (cp_pid c) = Inr (cp_pgid c) \<and>
         os_proc_ticks os (Suc t) (cp_pid c) = Inr (cp_start_ticks c))
   in wd_log (snd (signal_group_checked os c sig w)) =
        (if matches \<and> os_killpg os (Suc (Suc t)) (cp_pgid c) sig = Inr ()
         then wd_log w @ [Mark_Group_Signal (cp_pgid c) sig] else wd_log w) \<and>
      (isl (fst (signal_group_checked os c sig w)) \<or> matches)"
  by (auto simp: signal_group_checked_def signal_group_def identity_matches_def sys_call_def mark_def Let_def
      split: sum.splits prod.splits bool.splits if_splits)

definition is_reaped :: "sys_mark \<Rightarrow> bool" where
  "is_reaped m = (case m of Mark_Reaped _ \<Rightarrow> True | _ \<Rightarrow> False)"

lemma is_reaped_simps [simp]:
  "is_reaped (Mark_Reaped p)" "\<not> is_reaped (Mark_Group_Signal p sig)"
  by (simp_all add: is_reaped_def)

definition reaps :: "world \<Rightarrow> sys_mark list" where
  "reaps w = filter is_reaped (wd_log w)"

lemma reaps_simps [simp]:
  "reaps (w\<lparr>wd_tick := t\<rparr>) = reaps w"
  "reaps (mark m w) = reaps w @ (if is_reaped m then [m] else [])"
  by (simp_all add: reaps_def mark_def)

lemma waitpid_blocking_reaps:
  "waitpid_blocking os p w = (r, w') \<Longrightarrow>
   reaps w' = reaps w @ (case r of Inr _ \<Rightarrow> [Mark_Reaped p] | Inl _ \<Rightarrow> []) \<and>
   r = os_waitpid_blocking os (wd_tick w) p"
  by (auto simp: waitpid_blocking_def sys_call_def split: sum.splits)

lemma observe_exit_reaps: "observe_exit os c w = (r, c', w') \<Longrightarrow> reaps w' = reaps w"
  by (auto dest: observe_exit_log simp: reaps_def)

lemma signal_checked_reaps: "signal_group_checked os c sig w = (r, w') \<Longrightarrow> reaps w' = reaps w"
  using signal_checked_cases [of os c sig w r w'] by (auto simp: reaps_def)

lemma terminate_finish_reaps:
  assumes "terminate_finish os c w = (r, c', w')" "cp_outcome c = None"
  shows "reaps w' = reaps w @ (case r of Inr _ \<Rightarrow> [Mark_Reaped (cp_pid c)] | Inl _ \<Rightarrow> [])"
proof -
  obtain r1 w1 where s: "signal_group_checked os c SIGKILL w = (r1, w1)" by force
  obtain r2 w2 where b: "waitpid_blocking os (cp_pid c) w1 = (r2, w2)" by force
  show ?thesis
    using assms s b signal_checked_reaps [OF s] waitpid_blocking_reaps [OF b]
    by (auto simp: terminate_finish_def reap_blocking_def map_err_def split: sum.splits)
qed

lemma grace_loop_fields:
  "grace_loop polls c = (r, c') \<Longrightarrow> cp_pid c' = cp_pid c \<and> cp_outcome c' = cp_outcome c"
  by (induction polls c arbitrary: r c' rule: grace_loop.induct) auto

text \<open>\<open>terminate\<close> reaps the recorded process at most once, exactly when it reports an outcome that
  was not already recorded, and never before the group was signalled through the checked path.\<close>

lemma terminate_reaps_once:
  "case terminate os c w of (r, c', w') \<Rightarrow>
     reaps w' = reaps w @
       (if cp_outcome c = None then (case r of Inr _ \<Rightarrow> [Mark_Reaped (cp_pid c)] | Inl _ \<Rightarrow> []) else [])"
proof (cases "cp_outcome c")
  case (Some out)
  then show ?thesis by (simp add: terminate_def)
next
  case None
  obtain r1 c1 w1 where o: "observe_exit os c w = (r1, c1, w1)" by (metis prod_cases3)
  note oe = observe_exit_log [OF o] observe_exit_reaps [OF o]
  obtain r2 w2 where s: "signal_group_checked os c1 SIGTERM w1 = (r2, w2)" by force
  obtain r3 c3 where g: "grace_loop (os_grace_polls os (wd_tick w2) (cp_pid c1)) c1 = (r3, c3)" by force
  let ?w3 = "w2\<lparr>wd_tick := Suc (wd_tick w2)\<rparr>"
  obtain r4 c4 w4 where f: "terminate_finish os c3 ?w3 = (r4, c4, w4)" by (metis prod_cases3)
  obtain r5 c5 w5 where f5: "terminate_finish os c1 w1 = (r5, c5, w5)" by (metis prod_cases3)
  note gf = grace_loop_fields [OF g]
  show ?thesis
    using None o s g f f5 oe gf signal_checked_reaps [OF s]
      terminate_finish_reaps [OF f] terminate_finish_reaps [OF f5]
    by (cases r1; cases r2; cases r3) (auto simp: terminate_def sys_call_def split: option.splits sum.splits)
qed

text \<open>What a failed spawn owes: the forked process was reaped, or the error it returns is the one with
  which its own cleanup failed. The blocking wait was refused; or the exec-error pipe could not be
  read, so that the process had to be terminated, and the error is an answer of the system to one of
  the calls of \<open>terminate\<close>, or the process was no longer the recorded one.\<close>

definition identity_lost :: "broker_os \<Rightarrow> pid \<Rightarrow> bool" where
  "identity_lost os p \<longleftrightarrow>
     (\<exists>t. os_getpgid os t p \<noteq> Inr p) \<or> (\<exists>t t'. os_proc_ticks os t p \<noteq> os_proc_ticks os t' p)"

definition terminate_error :: "broker_os \<Rightarrow> pid \<Rightarrow> pty_error \<Rightarrow> bool" where
  "terminate_error os p e \<longleftrightarrow>
     (\<exists>t x. e = Err_Io x \<and>
        (os_observe_exit os t p = Inl x \<or> os_getpgid os t p = Inl x \<or> os_proc_ticks os t p = Inl x \<or>
         (\<exists>sig. os_killpg os t p sig = Inl x) \<or> Inl x \<in> set (os_grace_polls os t p) \<or>
         os_waitpid_blocking os t p = Inl x)) \<or>
     e = Err_NotLive \<and> identity_lost os p"

definition cleanup_failed :: "broker_os \<Rightarrow> pid \<Rightarrow> pty_error \<Rightarrow> bool" where
  "cleanup_failed os p e \<longleftrightarrow>
     (\<exists>t x. os_waitpid_blocking os t p = Inl x \<and> e = Err_Io x) \<or>
     (\<exists>t x. os_exec_pipe os t = Inl x) \<and> terminate_error os p e"

text \<open>A child as the spawn recorded it.\<close>

definition recorded_child :: "broker_os \<Rightarrow> pid \<Rightarrow> child_proc \<Rightarrow> bool" where
  "recorded_child os p c \<longleftrightarrow> 0 < p \<and> cp_pid c = p \<and> cp_pgid c = p \<and> (\<exists>t. os_proc_ticks os t p = Inr (cp_start_ticks c))"

lemma signal_checked_error:
  assumes "signal_group_checked os c sig w = (Inl e, w')" "recorded_child os p c"
  shows "terminate_error os p e"
proof -
  let ?t = "wd_tick w"
  obtain t0 where t0: "os_proc_ticks os t0 p = Inr (cp_start_ticks c)" using assms(2) by (auto simp: recorded_child_def)
  have lost: "identity_lost os p" if "os_proc_ticks os (Suc ?t) p \<noteq> Inr (cp_start_ticks c)"
    unfolding identity_lost_def using t0 that by metis
  have c: "0 < p" "cp_pid c = p" "cp_pgid c = p" using assms(2) by (simp_all add: recorded_child_def)
  consider (group) x where "os_getpgid os ?t p = Inl x" "e = Err_NotLive \<or> e = Err_Io x"
    | (ticks) x where "os_proc_ticks os (Suc ?t) p = Inl x" "e = Err_NotLive \<or> e = Err_Io x"
    | (moved) g k where "os_getpgid os ?t p = Inr g" "os_proc_ticks os (Suc ?t) p = Inr k"
        "g \<noteq> p \<or> k \<noteq> cp_start_ticks c" "e = Err_NotLive"
    | (kill) x where "os_killpg os (Suc (Suc ?t)) p sig = Inl x" "e = Err_Io x"
    using assms(1) c
    by (auto simp: signal_group_checked_def signal_group_def identity_matches_def sys_call_def
        split: sum.splits bool.splits prod.splits if_splits)
  then show ?thesis
  proof cases
    case moved
    then have "identity_lost os p" using lost by (cases "g = p") (auto simp: identity_lost_def intro!: exI [of _ ?t])
    with moved(4) show ?thesis by (simp add: terminate_error_def)
  next
    case group
    then have "identity_lost os p" by (auto simp: identity_lost_def intro!: exI [of _ ?t])
    with group show ?thesis by (auto simp: terminate_error_def)
  next
    case ticks
    then have "identity_lost os p" using lost by simp
    with ticks show ?thesis by (auto simp: terminate_error_def)
  qed (auto simp: terminate_error_def)
qed

lemma terminate_finish_error:
  assumes "terminate_finish os c w = (Inl e, c', w')" "recorded_child os p c" "cp_outcome c = None"
  shows "terminate_error os p e"
proof (cases "signal_group_checked os c SIGKILL w")
  case (Pair r w1)
  show ?thesis
  proof (cases r)
    case (Inl e1)
    with Pair assms(1) signal_checked_error [OF _ assms(2)] show ?thesis by (simp add: terminate_finish_def)
  next
    case (Inr u)
    with Pair assms obtain x where "os_waitpid_blocking os (wd_tick w1) p = Inl x" "e = Err_Io x"
      by (auto simp: terminate_finish_def reap_blocking_def waitpid_blocking_def sys_call_def map_err_def
          recorded_child_def split: sum.splits)
    then show ?thesis by (auto simp: terminate_error_def)
  qed
qed

lemma recorded_observe: "recorded_child os p c \<Longrightarrow> recorded_child os p (c\<lparr>cp_observed := x\<rparr>)"
  by (simp add: recorded_child_def)

lemma grace_loop_error:
  "grace_loop polls c = (r, c') \<Longrightarrow> (\<exists>x. c' = c\<lparr>cp_observed := x\<rparr>) \<and> (\<forall>e. r = Inl e \<longrightarrow> Inl e \<in> set polls)"
proof (induction polls c arbitrary: r c' rule: grace_loop.induct)
  case (1 c)
  then show ?case by (auto intro: exI [of _ "cp_observed c"])
next
  case (2 e polls c)
  then show ?case by (auto intro: exI [of _ "cp_observed c"])
qed auto

lemma terminate_failure:
  assumes "terminate os c w = (Inl e, c', w')" "recorded_child os p c"
  shows "terminate_error os p e"
proof -
  have none: "cp_outcome c = None" and pid: "cp_pid c = p" using assms by (auto simp: terminate_def recorded_child_def split: option.splits)
  obtain r1 c1 w1 where o: "observe_exit os c w = (r1, c1, w1)" by (metis prod_cases3)
  then have c1: "\<exists>x. c1 = c\<lparr>cp_observed := x\<rparr>"
      and e1: "\<And>e. r1 = Inl e \<Longrightarrow> \<exists>t. os_observe_exit os t p = Inl e"
    using pid by (auto simp: observe_exit_def sys_call_def split: if_splits sum.splits option.splits intro: exI [of _ "cp_observed c"])
  then have r: "recorded_child os p c1" "cp_outcome c1 = None" "cp_pid c1 = p"
    using assms(2) none pid by (auto simp: recorded_observe)
  obtain r2 w2 where s: "signal_group_checked os c1 SIGTERM w1 = (r2, w2)" by force
  obtain r3 c3 where g: "grace_loop (os_grace_polls os (wd_tick w2) p) c1 = (r3, c3)" by force
  note G = grace_loop_error [OF g]
  have r3: "recorded_child os p c3" "cp_outcome c3 = None" using G r by (auto simp: recorded_observe)
  consider (observe) x where "r1 = Inl x" "e = Err_Io x"
    | (finish) c5 w5 where "terminate_finish os c1 w1 = (Inl e, c5, w5)"
    | (signal) w5 where "signal_group_checked os c1 SIGTERM w1 = (Inl e, w5)"
    | (grace) x where "r3 = Inl x" "e = Err_Io x"
    | (graced) w4 c5 w5 where "terminate_finish os c3 w4 = (Inl e, c5, w5)"
    using assms(1) none o s g r(3)
    by (auto simp: terminate_def sys_call_def split: sum.splits option.splits)
  then show ?thesis
  proof cases
    case observe
    with e1 show ?thesis by (auto simp: terminate_error_def)
  next
    case finish
    with r show ?thesis by (auto intro: terminate_finish_error)
  next
    case signal
    with r show ?thesis by (auto intro: signal_checked_error)
  next
    case grace
    with G show ?thesis by (auto simp: terminate_error_def)
  next
    case graced
    with r3 show ?thesis by (auto intro: terminate_finish_error)
  qed
qed

lemma fail_pending_reaps:
  "fail_pending os primary p w = (e, w') \<Longrightarrow>
   reaps w' = reaps w @ [Mark_Reaped p] \<or> reaps w' = reaps w \<and> cleanup_failed os p e"
  using waitpid_blocking_reaps [of os p w]
  by (auto simp: fail_pending_def cleanup_result_def cleanup_failed_def split: prod.splits sum.splits)

lemma failed_eq: "failed r = (Inl (fst r), snd r)"
  by (simp add: failed_def)

lemma read_exec_result_cases:
  "read_exec_result os w = (r, w') \<Longrightarrow> reaps w' = reaps w \<and>
   (\<forall>e. r = Inl e \<longrightarrow> e = Io_InvalidData \<or> os_exec_pipe os (wd_tick w) = Inl e)"
  by (auto simp: read_exec_result_def sys_call_def Let_def split: sum.splits if_splits option.splits)

definition spawn_settled :: "broker_os \<Rightarrow> pid \<Rightarrow> world \<Rightarrow> (pty_error + child_proc) \<times> world \<Rightarrow> bool" where
  "spawn_settled os p w result = (case result of
     (Inr c, w') \<Rightarrow> reaps w' = reaps w \<and> cp_pid c = p
   | (Inl e, w') \<Rightarrow> reaps w' = reaps w @ [Mark_Reaped p] \<or> reaps w' = reaps w \<and> cleanup_failed os p e)"

lemma settled_pending:
  "reaps w1 = reaps w \<Longrightarrow> spawn_settled os p w (failed (fail_pending os primary p w1))"
  using fail_pending_reaps [of os primary p w1 "fst (fail_pending os primary p w1)"
      "snd (fail_pending os primary p w1)"]
  by (simp add: spawn_settled_def failed_def)

lemma settled_terminated:
  assumes "reaps w1 = reaps w" "recorded_child os p c" "cp_outcome c = None" "os_exec_pipe os t = Inl e"
  shows "spawn_settled os p w (failed (fail_released os PipeReadFailed primary c w1))"
proof -
  obtain rt ct wt where t: "terminate os c w1 = (rt, ct, wt)" by (metis prod_cases3)
  have "reaps wt = reaps w1 @ (case rt of Inr _ \<Rightarrow> [Mark_Reaped p] | Inl _ \<Rightarrow> [])"
    using terminate_reaps_once [where os = os and c = c and w = w1] t assms(2,3)
    by (auto simp: recorded_child_def split: sum.splits)
  moreover have "cleanup_failed os p e'" if "rt = Inl e'" for e'
    using terminate_failure [of os c w1 e' ct wt p] t that assms(2,4) by (auto simp: cleanup_failed_def)
  ultimately show ?thesis
    using assms t by (cases rt) (auto simp: fail_released_def released_failure_needs_terminate_def
        spawn_settled_def failed_def)
qed

lemma child_released_settled:
  assumes w: "reaps w1 = reaps w" and own: "group_is_child_own p pgid" "os_proc_ticks os t p = Inr ticks"
  shows "spawn_settled os p w (child_released os p pgid ticks w1)"
proof -
  have rc: "recorded_child os p \<lparr>cp_pid = p, cp_pgid = pgid, cp_start_ticks = ticks, cp_observed = None, cp_outcome = None\<rparr>"
    using own by (auto simp: recorded_child_def group_is_child_own_def)
  obtain x w2 where x: "read_exec_result os w1 = (x, w2)" by force
  from read_exec_result_cases [OF x] have w2: "reaps w2 = reaps w"
    and e: "\<And>e. x = Inl e \<Longrightarrow> e \<noteq> Io_InvalidData \<Longrightarrow> os_exec_pipe os (wd_tick w1) = Inl e"
    using w by auto
  have r: "spawn_settled os p w (failed (fail_released os f primary c w2))"
    if "f \<noteq> PipeReadFailed" "cp_pid c = p" for f primary c
    using that w2 settled_pending [OF w2] by (simp add: fail_released_def released_failure_needs_terminate_def)
  show ?thesis
    using x r w2 settled_terminated [OF w2 rc _ e]
    by (auto simp: child_released_def Let_def spawn_settled_def [of _ _ _ "(Inr _, _)"]
        split: sum.splits option.splits)
qed

text \<open>C28: no spawn failure hides a leaked child. A successful spawn reaps nothing; a spawn that fails
  after the fork has reaped exactly the forked process, once, or else the error it returns is the
  one with which its own clean-up failed: a blocking wait was refused with it, or the exec-error pipe
  could not be read and it is what a call of \<open>terminate\<close> was answered, or the process was no longer
  the recorded one.\<close>

theorem spawn_never_leaks: "spawn_settled os p w (parent_after_fork os p w)"
proof -
  obtain report w2 where report: "read_exec_result os (w\<lparr>wd_tick := Suc (wd_tick w)\<rparr>) = (report, w2)" by force
  from read_exec_result_cases [OF this] have w2: "reaps w2 = reaps w" by simp
  show ?thesis
    by (auto simp: parent_after_fork_def sys_call_def send_release_byte_def report
        intro!: settled_pending child_released_settled w2 split: sum.splits bool.splits)
qed

end
