(* ===== verification/Ever_Slots.thy ===== *)
theory Ever_Slots
  imports Ever_Prelude "HOL-Library.Multiset"
begin

text \<open>
  Fixed tables of slots, as the gateway's components keep them: an array of options searched with
  \<open>iter().position\<close> or \<open>find\<close>, filled at the first free slot and cleared in place. \<open>stock_of\<close> is what
  a table holds, counted with multiplicity; the lemmas give the effect of every table operation on it.
\<close>

text \<open>\<open>iter().position(p)\<close>.\<close>

fun position :: "('a \<Rightarrow> bool) \<Rightarrow> 'a list \<Rightarrow> usize option" where
  "position p [] = None"
| "position p (x # xs) = (if p x then Some 0 else map_option Suc (position p xs))"

text \<open>\<open>iter().flatten().count()\<close>.\<close>

definition occupied :: "'a option list \<Rightarrow> usize" where
  "occupied slots = length (filter (\<lambda>s. s \<noteq> None) slots)"

lemma position_Some: "position p xs = Some k \<Longrightarrow> k < length xs \<and> p (xs ! k)"
  by (induction xs arbitrary: k) (auto split: if_splits)

lemma position_None: "position p xs = None \<longleftrightarrow> list_all (\<lambda>x. \<not> p x) xs"
  by (induction xs) auto

lemma position_eq_None: "position (\<lambda>s. s = x) xs = None \<longleftrightarrow> x \<notin> set xs"
  by (auto simp: position_None list_all_iff)

definition stock_of :: "'a option list \<Rightarrow> 'a multiset" where
  "stock_of xs = mset (concat (map (\<lambda>x. case x of Some y \<Rightarrow> [y] | None \<Rightarrow> []) xs))"

lemma stock_of_simps [simp]:
  "stock_of [] = {#}"
  "stock_of (None # xs) = stock_of xs"
  "stock_of (Some y # xs) = add_mset y (stock_of xs)"
  by (simp_all add: stock_of_def)

lemma stock_of_replicate [simp]: "stock_of (replicate n None) = {#}"
  by (induction n) auto

lemma stock_of_Cons: "stock_of (x # xs) = (case x of Some y \<Rightarrow> {#y#} | None \<Rightarrow> {#}) + stock_of xs"
  by (cases x) simp_all

lemma in_stock_of [simp]: "y \<in># stock_of xs \<longleftrightarrow> Some y \<in> set xs"
  by (induction xs) (auto simp: stock_of_Cons split: option.splits)

lemma size_stock_of [simp]: "size (stock_of xs) = occupied xs"
  by (induction xs) (auto simp: stock_of_Cons occupied_def split: option.splits)

lemma occupied_le: "occupied xs \<le> length xs"
  by (simp add: occupied_def)

lemma stock_of_put:
  "k < length xs \<Longrightarrow> xs ! k = None \<Longrightarrow> stock_of (xs[k := Some y]) = add_mset y (stock_of xs)"
proof (induction xs arbitrary: k)
  case (Cons x xs)
  then show ?case by (cases k) (simp_all add: stock_of_Cons)
qed simp

lemma stock_of_take:
  "k < length xs \<Longrightarrow> xs ! k = Some y \<Longrightarrow> add_mset y (stock_of (xs[k := None])) = stock_of xs"
proof (induction xs arbitrary: k)
  case (Cons x xs)
  then show ?case by (cases k) (simp_all add: stock_of_Cons flip: Cons.IH)
qed simp

lemma stock_of_position_put:
  "position (\<lambda>s. s = None) xs = Some k \<Longrightarrow> stock_of (xs[k := Some y]) = add_mset y (stock_of xs)"
  by (auto dest!: position_Some intro: stock_of_put)

lemma stock_of_position_take:
  "position (\<lambda>s. s = Some y) xs = Some k \<Longrightarrow> stock_of (xs[k := None]) = stock_of xs - {#y#}"
  using position_Some [of "\<lambda>s. s = Some y" xs k] stock_of_take [of k xs y] by (metis add_mset_remove_trivial)

lemma position_take: "position p (take n xs) = Some k \<Longrightarrow> position p xs = Some k"
  by (induction xs arbitrary: n k) (auto simp: take_Cons' split: if_splits)

text \<open>No value twice.\<close>

definition once :: "'a multiset \<Rightarrow> bool" where
  "once M \<longleftrightarrow> (\<forall>x. count M x \<le> 1)"

lemma once_simps [simp]:
  "once {#}"
  "x \<notin># M \<Longrightarrow> once (add_mset x M) \<longleftrightarrow> once M"
proof -
  assume "x \<notin># M"
  then have "count M x = 0" by (simp only: not_in_iff)
  then show "once (add_mset x M) \<longleftrightarrow> once M" unfolding once_def by (metis count_add_mset One_nat_def le_refl zero_le)
qed (simp add: once_def)

lemma once_minus [intro]: "once M \<Longrightarrow> once (M - N)"
  unfolding once_def by (metis count_diff diff_le_self le_trans)

end
