(* ===== verification/Pty_Broker.thy ===== *)
theory Pty_Broker
  imports Pty_Child Ever_Slots
begin

text \<open>
  The broker's state and the operations its event loop is made of
  (\<open>crates/everpty/src/broker.rs\<close>, \<open>struct Broker\<close> and the methods below \<open>execute_spawn\<close>): the
  connection table, the centralized close \<open>remove_conn\<close>, bounded output with eviction, the PTY
  lease's hand-over, the kill escalation, and \<open>apply_effects\<close>, which carries out what the pure
  reducer of \<open>Pty_State\<close> ordered. The operating system is the parameter \<open>os\<close>.
\<close>

section \<open>State\<close>

record conn_slot =
  slot_conn :: conn_id
  slot_client :: client_conn
  slot_terminal_pending :: "frame option"

record lease_owner =
  lo_conn :: conn_id
  lo_client_id :: u32
  lo_generation :: bytes
  lo_pid :: u32
  lo_start_ticks :: u64
  lo_lease_id :: u64

text \<open>\<open>Phase_Granting wire offset descriptor\<close>: whether the duplicated descriptor is still to be sent.\<close>

datatype lease_phase = Phase_Granting bytes usize bool | Phase_AwaitingCommit | Phase_Active

record pty_lease =
  pl_owner :: lease_owner
  pl_phase :: lease_phase
  pl_control_alive :: bool
  pl_revoke_sent :: bool

datatype writer_stall_band = HighEpisode | LowDeficit

record writer_stall =
  ws_writer_id :: u32
  ws_since_ms :: u64
  ws_band :: writer_stall_band

datatype kill_phase = Kill_Idle | Kill_TermSent u64 | Kill_KillSent | Kill_Finalized

record spawn_plan =
  sp_argv :: "bytes list"
  sp_env :: "bytes list"
  sp_path_var :: "bytes option"
  sp_meta_name :: bytes
  sp_meta_child :: bool

record broker_exit =
  be_cause :: terminal_cause
  be_child :: "exit_outcome option"
  be_suggested_exit_code :: nat
  be_failure :: "pty_error option"

text \<open>\<open>bk_master\<close>, \<open>bk_readiness\<close>, \<open>bk_signal_source\<close> and \<open>bk_listener\<close> say whether the descriptor is held.
  The bound session's name is the runtime's; \<open>bk_world\<close> is the operating system's side.\<close>

record broker =
  bk_runtime :: runtime
  bk_slots :: "conn_slot option list"
  bk_next_conn_id :: conn_id
  bk_deferred :: "effect list"
  bk_ready_at_ms :: u64
  bk_output_reservation :: usize
  bk_master :: bool
  bk_master_terminal_pending :: bool
  bk_lease :: "pty_lease option"
  bk_next_lease_id :: u64
  bk_writer_stall :: "writer_stall option"
  bk_accepted_total :: nat
  bk_closed_total :: nat
  bk_readiness :: bool
  bk_spawn_plan :: "spawn_plan option"
  bk_signal_source :: bool
  bk_started :: bool
  bk_child :: "child_proc option"
  bk_observed_outcome :: "exit_outcome option"
  bk_final_outcome :: "exit_outcome option"
  bk_pty_exit_deadline_ms :: "u64 option"
  bk_kill_phase :: kill_phase
  bk_internal_cleanup_pending :: bool
  bk_shutdown_requested :: bool
  bk_finalized :: bool
  bk_exit :: "broker_exit option"
  bk_first_failure :: "pty_error option"
  bk_listener :: bool
  bk_world :: world

definition saturating_add_ms :: "u64 \<Rightarrow> u64 \<Rightarrow> u64" where
  "saturating_add_ms a b = (case checked_add a b of Some s \<Rightarrow> s | None \<Rightarrow> - 1)"

section \<open>The pure helpers\<close>

definition peer_uid_allowed :: "u32 \<Rightarrow> u32 \<Rightarrow> bool" where
  "peer_uid_allowed peer_uid broker_euid \<longleftrightarrow> peer_uid = broker_euid"

definition alloc_conn_id :: "conn_id \<Rightarrow> (conn_id \<times> conn_id) option" where
  "alloc_conn_id nxt = (if nxt = - 1 then None else Some (nxt, nxt + 1))"

datatype conn_fault = ConnectionLocal | Systemic

definition classify_conn_fault :: "io_error \<Rightarrow> conn_fault" where
  "classify_conn_fault err =
     (if raw_os_error err \<in> {Some ECONNRESET, Some ECONNABORTED, Some ENOTCONN, Some EPIPE}
      then ConnectionLocal else Systemic)"

definition READY_RECORD_LEN :: usize where "READY_RECORD_LEN = 8"
definition READY_MAGIC :: u8 where "READY_MAGIC = 0xE7"

text \<open>The errno is an \<open>i32\<close>, kept as its 32 bits.\<close>

datatype ready_status = Status_Ready | Status_Failed u32

definition ready_encode :: "ready_status \<Rightarrow> bytes" where
  "ready_encode st = (case (case st of Status_Ready \<Rightarrow> (0, 0) | Status_Failed errno \<Rightarrow> (1, errno)) of
     (status, errno) \<Rightarrow> [READY_MAGIC, status, 0, 0] @ be_bytes (errno :: u32))"

definition ready_decode :: "bytes \<Rightarrow> io_error + ready_status" where
  "ready_decode rec =
     (if length rec \<noteq> READY_RECORD_LEN then Inl Io_InvalidData
      else if rec ! 0 \<noteq> READY_MAGIC \<or> rec ! 2 \<noteq> 0 \<or> rec ! 3 \<noteq> 0 then Inl Io_InvalidData
      else let errno = be_word (subslice 4 8 rec) :: u32 in
        if rec ! 1 = 0 \<and> errno = 0 then Inr Status_Ready
        else if rec ! 1 = 1 then Inr (Status_Failed errno)
        else Inl Io_InvalidData)"

section \<open>The connection table\<close>

definition slot_at :: "broker \<Rightarrow> usize \<Rightarrow> conn_slot option" where
  "slot_at b idx = (if idx < length (bk_slots b) then bk_slots b ! idx else None)"

definition put_slot :: "usize \<Rightarrow> conn_slot option \<Rightarrow> broker \<Rightarrow> broker" where
  "put_slot idx s b = b\<lparr>bk_slots := (bk_slots b)[idx := s]\<rparr>"

definition put_client :: "usize \<Rightarrow> conn_slot \<Rightarrow> client_conn \<Rightarrow> broker \<Rightarrow> broker" where
  "put_client idx s c = put_slot idx (Some (s\<lparr>slot_client := c\<rparr>))"

definition slot_live :: "broker \<Rightarrow> usize \<Rightarrow> bool" where
  "slot_live b idx \<longleftrightarrow> slot_at b idx \<noteq> None"

definition slot_identity_live :: "broker \<Rightarrow> usize \<Rightarrow> conn_id \<Rightarrow> bool" where
  "slot_identity_live b idx conn = (case slot_at b idx of Some s \<Rightarrow> slot_conn s = conn | None \<Rightarrow> False)"

definition connection_count :: "broker \<Rightarrow> usize" where
  "connection_count b = occupied (bk_slots b)"

definition slot_role :: "conn_slot \<Rightarrow> conn_role" where
  "slot_role s = cc_role (slot_client s)"

definition slot_live_bytes :: "conn_slot \<Rightarrow> usize" where
  "slot_live_bytes s = oq_live_bytes (cc_out (slot_client s))"

definition resolve_observer :: "broker \<Rightarrow> u32 \<Rightarrow> usize option" where
  "resolve_observer b client_id =
     position (\<lambda>s. case s of Some s \<Rightarrow> slot_role s = ConnRole_Observer client_id | None \<Rightarrow> False) (bk_slots b)"

definition resolve :: "broker \<Rightarrow> target \<Rightarrow> usize option" where
  "resolve b target =
     (case target of
        Target_Conn conn \<Rightarrow>
          position (\<lambda>s. case s of Some s \<Rightarrow> slot_conn s = conn | None \<Rightarrow> False) (bk_slots b)
      | Target_Client client_id \<Rightarrow>
          position (\<lambda>s. case s of
              Some s \<Rightarrow> slot_role s = ConnRole_Writer client_id \<or> slot_role s = ConnRole_Observer client_id
            | None \<Rightarrow> False) (bk_slots b))"

definition aggregate_output_live_bytes :: "broker \<Rightarrow> usize" where
  "aggregate_output_live_bytes b =
     aggregate_live_bytes (map (\<lambda>s. cc_out (slot_client s)) (List.map_filter id (bk_slots b)))"

definition eligible_writer_slot :: "broker \<Rightarrow> (usize \<times> u32) option" where
  "eligible_writer_slot b =
     (case ownership (rt_state (bk_runtime b)) of
        Writer writer_id \<Rightarrow>
          map_option (\<lambda>idx. (idx, writer_id))
            (position (\<lambda>s. case s of
                Some s \<Rightarrow> \<not> cc_draining (slot_client s) \<and> slot_role s = ConnRole_Writer writer_id
              | None \<Rightarrow> False) (bk_slots b))
      | NoWriter \<Rightarrow> None)"

section \<open>Writer backpressure\<close>

definition writer_frame_fits :: "pty_limits \<Rightarrow> broker \<Rightarrow> usize \<Rightarrow> bool" where
  "writer_frame_fits limits b live =
     (case checked_add_usize live (bk_output_reservation b) of
        Some projected \<Rightarrow> projected \<le> writer_queue_bytes limits
      | None \<Rightarrow> False)"

text \<open>The decision of \<open>reconcile_writer_stall\<close> for one live writer.\<close>

definition fresh_stall :: "u32 \<Rightarrow> u64 \<Rightarrow> usize \<Rightarrow> usize \<Rightarrow> writer_stall" where
  "fresh_stall writer_id now live low =
     \<lparr>ws_writer_id = writer_id, ws_since_ms = now,
      ws_band = (if live < low then LowDeficit else HighEpisode)\<rparr>"

definition next_stall ::
  "writer_stall option \<Rightarrow> u32 \<Rightarrow> u64 \<Rightarrow> usize \<Rightarrow> usize \<Rightarrow> bool \<Rightarrow> writer_stall option" where
  "next_stall stall writer_id now live low fits =
     (case stall of
        None \<Rightarrow> if fits then None else Some (fresh_stall writer_id now live low)
      | Some st \<Rightarrow>
          if ws_writer_id st \<noteq> writer_id
          then (if fits then None else Some (fresh_stall writer_id now live low))
          else (case ws_band st of
             HighEpisode \<Rightarrow>
               if live < low
               then (if fits then None
                     else Some \<lparr>ws_writer_id = writer_id, ws_since_ms = now, ws_band = LowDeficit\<rparr>)
               else Some st
           | LowDeficit \<Rightarrow>
               if live < low then (if fits then None else Some st)
               else Some (st\<lparr>ws_band := HighEpisode\<rparr>)))"

definition reconcile_writer_stall :: "pty_limits \<Rightarrow> u64 \<Rightarrow> broker \<Rightarrow> broker" where
  "reconcile_writer_stall limits now b =
     (case eligible_writer_slot b of
        None \<Rightarrow> b\<lparr>bk_writer_stall := None\<rparr>
      | Some (idx, writer_id) \<Rightarrow>
          (case slot_at b idx of
             None \<Rightarrow> b
           | Some s \<Rightarrow>
               let live = slot_live_bytes s in
               b\<lparr>bk_writer_stall := next_stall (bk_writer_stall b) writer_id now live
                   (writer_queue_bytes limits div 2) (writer_frame_fits limits b live)\<rparr>))"

section \<open>The PTY lease\<close>

definition lease_belongs_to :: "pty_lease \<Rightarrow> usize \<Rightarrow> broker \<Rightarrow> bool" where
  "lease_belongs_to lease idx b =
     (case slot_at b idx of
        Some s \<Rightarrow> slot_conn s = lo_conn (pl_owner lease) \<and>
                  slot_role s = ConnRole_Writer (lo_client_id (pl_owner lease))
      | None \<Rightarrow> False)"

definition descriptor_may_be_live_in_peer :: "pty_lease \<Rightarrow> bool" where
  "descriptor_may_be_live_in_peer lease =
     (case pl_phase lease of Phase_Granting _ _ descriptor \<Rightarrow> \<not> descriptor | _ \<Rightarrow> True)"

definition lease_grant_pending :: "broker \<Rightarrow> usize \<Rightarrow> conn_id \<Rightarrow> bool" where
  "lease_grant_pending b idx conn =
     (case bk_lease b of
        Some lease \<Rightarrow> lo_conn (pl_owner lease) = conn \<and> lease_belongs_to lease idx b \<and>
          (case pl_phase lease of Phase_Granting _ _ _ \<Rightarrow> True | _ \<Rightarrow> False)
      | None \<Rightarrow> False)"

text \<open>One send of the grant: the rest of the wire, with the descriptor if it is still to be sent.\<close>

definition flush_lease_grant :: "broker_os \<Rightarrow> usize \<Rightarrow> broker \<Rightarrow> (io_error + unit) \<times> broker" where
  "flush_lease_grant os idx b =
     (case (slot_at b idx, bk_lease b) of
        (Some s, Some lease) \<Rightarrow>
          if oq_entries (cc_out (slot_client s)) \<noteq> [] \<or> \<not> lease_belongs_to lease idx b then (Inr (), b)
          else (case pl_phase lease of
             Phase_Granting wire off descriptor \<Rightarrow>
               (case sys_call (\<lambda>t. (if descriptor then os_send_fd os else os_send os) t (slot_conn s)
                                     (drop off wire)) (bk_world b) of
                  (Inl e, w) \<Rightarrow> (Inl e, b\<lparr>bk_world := w\<rparr>)
                | (Inr sent, w) \<Rightarrow>
                    let b1 = b\<lparr>bk_world := w\<rparr>;
                        phase = (\<lambda>ph. b1\<lparr>bk_lease := Some (lease\<lparr>pl_phase := ph\<rparr>)\<rparr>)
                    in if sent = 0 then (Inl Io_WriteZero, b1)
                       else (case checked_add_usize off sent of
                          Some off' \<Rightarrow>
                            if length wire < off' then (Inl Io_InvalidData, phase (Phase_Granting wire off False))
                            else if off' = length wire then (Inr (), phase Phase_AwaitingCommit)
                            else (Inr (), phase (Phase_Granting wire off' False))
                        | None \<Rightarrow> (Inl Io_InvalidData, phase (Phase_Granting wire off False))))
           | _ \<Rightarrow> (Inr (), b))
      | _ \<Rightarrow> (Inr (), b))"

section \<open>The close path\<close>

text \<open>\<open>reduce\<close> answers a disconnect with no effect, so the call of \<open>apply_effects\<close> in \<open>remove_conn\<close> runs
  an empty list; \<open>remove_conn_source\<close> below restores it.\<close>

lemma disconnected_no_effects: "snd (reduce limits rt (Disconnected conn role)) = []"
  by simp

definition release_lease_of :: "usize \<Rightarrow> broker \<Rightarrow> broker" where
  "release_lease_of idx b =
     (case bk_lease b of
        None \<Rightarrow> b
      | Some lease \<Rightarrow>
          if \<not> lease_belongs_to lease idx b then b
          else if descriptor_may_be_live_in_peer lease
          then b\<lparr>bk_lease := Some (lease\<lparr>pl_control_alive := False\<rparr>)\<rparr>
          else b\<lparr>bk_lease := None\<rparr>)"

definition leave_observers :: "conn_role \<Rightarrow> runtime \<Rightarrow> runtime" where
  "leave_observers role rt =
     (case role of
        ConnRole_Writer client_id \<Rightarrow> rt\<lparr>rt_observers := leave (rt_observers rt) client_id\<rparr>
      | ConnRole_Observer client_id \<Rightarrow> rt\<lparr>rt_observers := leave (rt_observers rt) client_id\<rparr>
      | _ \<Rightarrow> rt)"

definition remove_conn :: "pty_limits \<Rightarrow> u64 \<Rightarrow> usize \<Rightarrow> broker \<Rightarrow> broker" where
  "remove_conn limits now idx b =
     (let b1 = release_lease_of idx b in
      case slot_at b1 idx of
        None \<Rightarrow> b1
      | Some s \<Rightarrow>
          let role = slot_role s;
              rt = fst (reduce limits (leave_observers role (bk_runtime b1)) (Disconnected (slot_conn s) role))
          in reconcile_writer_stall limits now
               ((put_slot idx None b1)\<lparr>bk_closed_total := bk_closed_total b1 + 1, bk_runtime := rt\<rparr>))"

section \<open>Output\<close>

definition flush_out_once :: "broker_os \<Rightarrow> usize \<Rightarrow> broker \<Rightarrow> (io_error + bool) \<times> broker" where
  "flush_out_once os idx b =
     (case slot_at b idx of
        None \<Rightarrow> (Inr True, b)
      | Some s \<Rightarrow>
          (case flush_with (\<lambda>w bs. prod.swap (sys_call (\<lambda>t. os_send os t (slot_conn s) bs) w))
                  (cc_out (slot_client s)) (bk_world b) of
             (q, w, res) \<Rightarrow>
               (res, (put_client idx s ((slot_client s)\<lparr>cc_out := q\<rparr>) b)\<lparr>bk_world := w\<rparr>)))"

definition terminal_encoded_len :: "frame \<Rightarrow> usize option" where
  "terminal_encoded_len f =
     (case f of
        Frame_Exit _ _ \<Rightarrow> Some (HEADER_LEN + 5)
      | Frame_Error _ t \<Rightarrow> checked_add_usize (HEADER_LEN + 4) (length t)
      | _ \<Rightarrow> None)"

definition add_fits :: "usize \<Rightarrow> usize \<Rightarrow> usize \<Rightarrow> bool" where
  "add_fits live len cap = (case checked_add_usize live len of Some p \<Rightarrow> p \<le> cap | None \<Rightarrow> False)"

definition aggregate_add_fits :: "pty_limits \<Rightarrow> broker \<Rightarrow> usize \<Rightarrow> bool" where
  "aggregate_add_fits limits b len = add_fits (aggregate_output_live_bytes b) len (aggregate_queue_bytes limits)"

definition target_add_fits :: "conn_slot \<Rightarrow> usize \<Rightarrow> bool" where
  "target_add_fits s len = add_fits (slot_live_bytes s) len (oq_cap_bytes (cc_out (slot_client s)))"

definition pending_terminal_fits :: "pty_limits \<Rightarrow> broker \<Rightarrow> usize \<Rightarrow> bool" where
  "pending_terminal_fits limits b idx =
     (case slot_at b idx of
        None \<Rightarrow> False
      | Some s \<Rightarrow>
          (case Option.bind (slot_terminal_pending s) terminal_encoded_len of
             None \<Rightarrow> False
           | Some len \<Rightarrow> target_add_fits s len \<and> aggregate_add_fits limits b len))"

definition push_out :: "usize \<Rightarrow> conn_slot \<Rightarrow> bytes \<Rightarrow> broker \<Rightarrow> bool \<times> broker" where
  "push_out idx s chunk b =
     (case push_shared (cc_out (slot_client s)) chunk of
        (q, ok) \<Rightarrow> (ok, put_client idx s ((slot_client s)\<lparr>cc_out := q\<rparr>) b))"

definition try_queue_terminal :: "pty_limits \<Rightarrow> usize \<Rightarrow> broker \<Rightarrow> bool \<times> broker" where
  "try_queue_terminal limits idx b =
     (if \<not> pending_terminal_fits limits b idx then (False, b)
      else case slot_at b idx of
        None \<Rightarrow> (False, b)
      | Some s \<Rightarrow>
          (case slot_terminal_pending s of
             None \<Rightarrow> (False, b)
           | Some f \<Rightarrow>
               (case push_out idx s (encode_frame f) b of
                  (True, b1) \<Rightarrow>
                    (True, (case slot_at b1 idx of
                              Some s1 \<Rightarrow> put_slot idx (Some (s1\<lparr>slot_terminal_pending := None\<rparr>)) b1
                            | None \<Rightarrow> b1))
                | (False, b1) \<Rightarrow> (False, b1))))"

text \<open>\<open>flush_slot\<close>, by its three tries: the queue, the pending terminal frame behind it, the lease grant.
  The flag says whether the connection was closed on a hard error.\<close>

definition soft_result :: "io_error + 'a \<Rightarrow> bool" where
  "soft_result res = (case res of Inr _ \<Rightarrow> True | Inl e \<Rightarrow> e = Io_WouldBlock)"

definition flush_terminal ::
  "pty_limits \<Rightarrow> broker_os \<Rightarrow> u64 \<Rightarrow> usize \<Rightarrow> bool \<Rightarrow> broker \<Rightarrow> bool \<times> broker" where
  "flush_terminal limits os now idx retry_now b =
     (case try_queue_terminal limits idx b of
        (queued_terminal, b1) \<Rightarrow>
          if retry_now \<and> queued_terminal
          then (case flush_out_once os idx b1 of
                  (res, b2) \<Rightarrow>
                    if soft_result res then (False, reconcile_writer_stall limits now b2)
                    else (True, remove_conn limits now idx b2))
          else (False, b1))"

definition flush_grant ::
  "pty_limits \<Rightarrow> broker_os \<Rightarrow> u64 \<Rightarrow> usize \<Rightarrow> bool \<Rightarrow> broker \<Rightarrow> bool \<times> broker" where
  "flush_grant limits os now idx retry_now b =
     (let output_empty = (case slot_at b idx of
                            Some s \<Rightarrow> oq_entries (cc_out (slot_client s)) = [] | None \<Rightarrow> False)
      in if retry_now \<and> output_empty
         then (case flush_lease_grant os idx b of
                 (res, b1) \<Rightarrow>
                   if soft_result res then (False, b1) else (True, remove_conn limits now idx b1))
         else (False, b))"

definition drained_done :: "broker \<Rightarrow> usize \<Rightarrow> bool" where
  "drained_done b idx =
     (case slot_at b idx of
        Some s \<Rightarrow> cc_draining (slot_client s) \<and> oq_entries (cc_out (slot_client s)) = [] \<and>
                  slot_terminal_pending s = None
      | None \<Rightarrow> False)"

definition flush_slot :: "pty_limits \<Rightarrow> broker_os \<Rightarrow> u64 \<Rightarrow> usize \<Rightarrow> broker \<Rightarrow> broker" where
  "flush_slot limits os now idx b =
     (case flush_out_once os idx b of
        (first, b1) \<Rightarrow>
          let b2 = reconcile_writer_stall limits now b1 in
          if \<not> soft_result first then remove_conn limits now idx b2
          else let retry_now = (first = Inr True) in
            (case flush_terminal limits os now idx retry_now b2 of
               (True, b3) \<Rightarrow> b3
             | (False, b3) \<Rightarrow>
                 (case flush_grant limits os now idx retry_now b3 of
                    (True, b4) \<Rightarrow> b4
                  | (False, b4) \<Rightarrow>
                      if drained_done b4 idx then remove_conn limits now idx b4 else b4)))"

section \<open>Eviction\<close>

text \<open>\<open>most_full_observer\<close>: the fullest queue in attachment order; the first of equals wins.\<close>

fun fullest_observer ::
  "broker \<Rightarrow> (usize \<times> conn_id) option \<Rightarrow> bool \<Rightarrow> u32 list \<Rightarrow> (usize \<times> usize) option \<Rightarrow> (usize \<times> usize) option" where
  "fullest_observer b exclude require [] best = best"
| "fullest_observer b exclude require (client_id # ids) best =
     fullest_observer b exclude require ids
       (case resolve_observer b client_id of
          None \<Rightarrow> best
        | Some idx \<Rightarrow>
            (case slot_at b idx of
               None \<Rightarrow> best
             | Some s \<Rightarrow>
                 if exclude = Some (idx, slot_conn s) then best
                 else if require \<and> slot_live_bytes s = 0 then best
                 else (case best of
                    None \<Rightarrow> Some (idx, slot_live_bytes s)
                  | Some (_, best_live) \<Rightarrow>
                      if slot_live_bytes s > best_live then Some (idx, slot_live_bytes s) else best)))"

definition most_full_observer :: "broker \<Rightarrow> (usize \<times> conn_id) option \<Rightarrow> bool \<Rightarrow> usize option" where
  "most_full_observer b exclude require_queued_bytes =
     map_option fst (fullest_observer b exclude require_queued_bytes
       (members (rt_observers (bk_runtime b))) None)"

fun fullest_non_writer ::
  "usize option \<Rightarrow> (usize \<times> conn_slot option) list \<Rightarrow> (usize \<times> usize) option \<Rightarrow> (usize \<times> usize) option" where
  "fullest_non_writer writer_idx [] best = best"
| "fullest_non_writer writer_idx ((idx, slot) # slots) best =
     fullest_non_writer writer_idx slots
       (case slot of
          None \<Rightarrow> best
        | Some s \<Rightarrow>
            if Some idx = writer_idx then best
            else if slot_live_bytes s = 0 then best
            else (case best of
               Some (_, best_live) \<Rightarrow>
                 if slot_live_bytes s \<le> best_live then best else Some (idx, slot_live_bytes s)
             | None \<Rightarrow> Some (idx, slot_live_bytes s)))"

definition most_full_non_writer_queue :: "broker \<Rightarrow> usize option" where
  "most_full_non_writer_queue b =
     map_option fst (fullest_non_writer (map_option fst (eligible_writer_slot b))
       (enumerate 0 (bk_slots b)) None)"

lemma fullest_observer_live:
  "fullest_observer b exclude require ids best = Some (idx, n) \<Longrightarrow>
   best = Some (idx, n) \<or> slot_live b idx"
proof (induction ids arbitrary: best)
  case (Cons i ids)
  from Cons.IH [OF Cons.prems [unfolded fullest_observer.simps]] show ?case
    by (auto simp: slot_live_def split: option.splits if_splits)
qed simp

lemma most_full_observer_live: "most_full_observer b exclude require = Some idx \<Longrightarrow> slot_live b idx"
  by (auto simp: most_full_observer_def dest: fullest_observer_live)

lemma fullest_non_writer_live:
  "fullest_non_writer w es best = Some (idx, n) \<Longrightarrow>
   best = Some (idx, n) \<or> (\<exists>s. (idx, Some s) \<in> set es \<and> slot_live_bytes s = n \<and> n > 0 \<and> Some idx \<noteq> w)"
proof (induction es arbitrary: best)
  case (Cons e es)
  obtain i x where e: "e = (i, x)" by force
  from Cons.IH [OF Cons.prems [unfolded e fullest_non_writer.simps]] show ?case
    by (auto simp: e split: option.splits if_splits)
qed simp

lemma most_full_non_writer_live: "most_full_non_writer_queue b = Some idx \<Longrightarrow> slot_live b idx"
  by (auto simp: most_full_non_writer_queue_def slot_live_def slot_at_def in_set_enumerate_eq
      dest!: fullest_non_writer_live)

text \<open>Closing a connection frees its slot, so every eviction loop ends.\<close>

lemma reconcile_fields [simp]:
  "bk_slots (reconcile_writer_stall limits now b) = bk_slots b"
  "bk_runtime (reconcile_writer_stall limits now b) = bk_runtime b"
  by (auto simp: reconcile_writer_stall_def Let_def split: option.splits prod.splits)

lemma release_lease_fields [simp]:
  "bk_slots (release_lease_of idx b) = bk_slots b"
  "bk_runtime (release_lease_of idx b) = bk_runtime b"
  "bk_closed_total (release_lease_of idx b) = bk_closed_total b"
  by (auto simp: release_lease_of_def split: option.splits)

lemma slot_at_release [simp]: "slot_at (release_lease_of idx b) k = slot_at b k"
  by (simp add: slot_at_def)

lemma remove_conn_slots [simp]: "bk_slots (remove_conn limits now idx b) = (bk_slots b)[idx := None]"
  by (auto simp: remove_conn_def Let_def put_slot_def slot_at_def list_update_beyond
      split: option.splits if_splits) (metis list_update_id)

lemma occupied_clear: "idx < length xs \<Longrightarrow> xs ! idx = Some y \<Longrightarrow> occupied (xs[idx := None]) < occupied xs"
  using arg_cong [OF stock_of_take, of idx xs y size] by simp

lemma remove_conn_frees:
  "slot_live b idx \<Longrightarrow> connection_count (remove_conn limits now idx b) < connection_count b"
  by (auto simp: connection_count_def slot_live_def slot_at_def intro: occupied_clear split: if_splits)

text \<open>The loop of \<open>queue_effect_frame\<close>; it leaves when the target itself has gone.\<close>

function evict_for :: "pty_limits \<Rightarrow> u64 \<Rightarrow> usize \<Rightarrow> conn_id \<Rightarrow> usize \<Rightarrow> broker \<Rightarrow> broker" where
  "evict_for limits now idx conn len b =
     (if aggregate_add_fits limits b len then b
      else case most_full_observer b (Some (idx, conn)) True of
        None \<Rightarrow> b
      | Some k \<Rightarrow>
          let b1 = remove_conn limits now k b in
          if \<not> slot_identity_live b1 idx conn then b1 else evict_for limits now idx conn len b1)"
  by pat_completeness auto
termination
  by (relation "measure (\<lambda>(limits, now, idx, conn, len, b). connection_count b)")
    (auto intro: remove_conn_frees most_full_observer_live)

declare evict_for.simps [simp del]

definition is_terminal_lifecycle :: "broker \<Rightarrow> bool" where
  "is_terminal_lifecycle b \<longleftrightarrow>
     lifecycle (rt_state (bk_runtime b)) = Exited \<or> lifecycle (rt_state (bk_runtime b)) = Failed"

definition control_reply :: "conn_slot \<Rightarrow> frame \<Rightarrow> bool" where
  "control_reply s f \<longleftrightarrow> slot_role s = ConnRole_Control \<and>
     frame_kind f \<in> {Kind_Pong, Kind_Ownership, Kind_Error, Kind_Exit}"

definition queue_terminal ::
  "pty_limits \<Rightarrow> broker_os \<Rightarrow> u64 \<Rightarrow> usize \<Rightarrow> conn_slot \<Rightarrow> frame \<Rightarrow> broker \<Rightarrow> broker" where
  "queue_terminal limits os now idx s f b =
     flush_slot limits os now idx
       (if slot_terminal_pending s = None then put_slot idx (Some (s\<lparr>slot_terminal_pending := Some f\<rparr>)) b
        else b)"

definition queue_encoded ::
  "pty_limits \<Rightarrow> broker_os \<Rightarrow> u64 \<Rightarrow> usize \<Rightarrow> conn_id \<Rightarrow> bool \<Rightarrow> bytes \<Rightarrow> broker \<Rightarrow> broker" where
  "queue_encoded limits os now idx conn is_control_reply encoded b =
     (if \<not> slot_identity_live b idx conn then b
      else if \<not> aggregate_add_fits limits b (length encoded) then remove_conn limits now idx b
      else case slot_at b idx of
        None \<Rightarrow> b
      | Some s \<Rightarrow>
          (case push_out idx s encoded b of
             (False, b1) \<Rightarrow> remove_conn limits now idx b1
           | (True, b1) \<Rightarrow>
               let b2 = (case slot_at b1 idx of
                           Some s1 \<Rightarrow>
                             if is_control_reply
                             then put_client idx s1
                                    (arm_reply_deadline (slot_client s1) now (control_reply_deadline_ms limits)) b1
                             else b1
                         | None \<Rightarrow> b1)
               in flush_slot limits os now idx (reconcile_writer_stall limits now b2)))"

definition queue_effect_frame ::
  "pty_limits \<Rightarrow> broker_os \<Rightarrow> u64 \<Rightarrow> target \<Rightarrow> frame \<Rightarrow> broker \<Rightarrow> broker" where
  "queue_effect_frame limits os now tgt f b =
     (case resolve b tgt of
        None \<Rightarrow> b
      | Some idx \<Rightarrow>
          (case slot_at b idx of
             None \<Rightarrow> b
           | Some s \<Rightarrow>
               if is_terminal_lifecycle b \<and> frame_kind f \<in> {Kind_Exit, Kind_Error}
               then queue_terminal limits os now idx s f b
               else
                 let encoded = encode_frame f in
                 if \<not> target_add_fits s (length encoded) then remove_conn limits now idx b
                 else queue_encoded limits os now idx (slot_conn s) (control_reply s f) encoded
                        (evict_for limits now idx (slot_conn s) (length encoded) b)))"

definition broker_begin_draining :: "pty_limits \<Rightarrow> broker_os \<Rightarrow> u64 \<Rightarrow> usize \<Rightarrow> broker \<Rightarrow> broker" where
  "broker_begin_draining limits os now idx b =
     (let b1 = (case slot_at b idx of
                  None \<Rightarrow> b
                | Some s \<Rightarrow>
                    let terminal_writer = is_terminal_lifecycle b \<and>
                          (case slot_role s of ConnRole_Writer _ \<Rightarrow> True | _ \<Rightarrow> False);
                        deadline = (if terminal_writer then stall_deadline_ms limits
                                    else control_reply_deadline_ms limits)
                    in put_client idx s
                         (arm_reply_deadline (begin_draining (slot_client s)) now deadline) b)
      in flush_slot limits os now idx (reconcile_writer_stall limits now b1))"

section \<open>Shutdown\<close>

definition record_failure :: "pty_error \<Rightarrow> broker \<Rightarrow> broker" where
  "record_failure e b = (if bk_first_failure b = None then b\<lparr>bk_first_failure := Some e\<rparr> else b)"

definition detach_master :: "broker \<Rightarrow> broker" where
  "detach_master b = b\<lparr>bk_master := False, bk_master_terminal_pending := False\<rparr>"

text \<open>\<open>retire_socket\<close> and \<open>retire_state\<close> of the bound session: the listener is closed either way.\<close>

definition retire :: "(nat \<Rightarrow> pty_error + unit) \<Rightarrow> broker \<Rightarrow> broker" where
  "retire f b =
     (case sys_call f (bk_world b) of
        (res, w) \<Rightarrow>
          let b1 = b\<lparr>bk_world := w, bk_listener := False\<rparr> in
          (case res of Inr _ \<Rightarrow> b1 | Inl e \<Rightarrow> record_failure e b1))"

definition maybe_finalize :: "broker_os \<Rightarrow> broker \<Rightarrow> broker" where
  "maybe_finalize os b =
     (if bk_finalized b \<or> \<not> bk_shutdown_requested b \<or> connection_count b \<noteq> 0 \<or> bk_child b \<noteq> None then b
      else
        let b1 = retire (os_retire_state os) (detach_master b);
            rt = bk_runtime b1;
            cause = (case terminal (rt_state rt) of
                       Some c \<Rightarrow> c
                     | None \<Rightarrow> (case terminal_request rt of Some c \<Rightarrow> c | None \<Rightarrow> InternalError));
            code = (if lifecycle (rt_state rt) = Exited \<and> bk_first_failure b1 = None then 0 else 1)
        in b1\<lparr>bk_signal_source := False,
              bk_exit := Some \<lparr>be_cause = cause, be_child = bk_final_outcome b1,
                               be_suggested_exit_code = code, be_failure = bk_first_failure b1\<rparr>,
              bk_first_failure := None,
              bk_finalized := True\<rparr>)"

definition broker_request_shutdown :: "pty_limits \<Rightarrow> broker_os \<Rightarrow> u64 \<Rightarrow> broker \<Rightarrow> broker" where
  "broker_request_shutdown limits os now b =
     (if bk_shutdown_requested b then b
      else
        let b1 = retire (os_retire_socket os) (b\<lparr>bk_shutdown_requested := True\<rparr>);
            close = filter (\<lambda>idx. case slot_at b1 idx of
                              Some s \<Rightarrow> \<not> cc_draining (slot_client s) | None \<Rightarrow> False)
                      [0..<length (bk_slots b1)]
        in maybe_finalize os (fold (remove_conn limits now) close b1))"

section \<open>The child\<close>

definition start_kill :: "pty_limits \<Rightarrow> broker_os \<Rightarrow> u64 \<Rightarrow> broker \<Rightarrow> (pty_error + unit) \<times> broker" where
  "start_kill limits os now b =
     (if bk_kill_phase b \<noteq> Kill_Idle then (Inr (), b)
      else case bk_child b of
        None \<Rightarrow> (Inl Err_NotLive, b)
      | Some child \<Rightarrow>
          (case signal_group_checked os child SIGTERM (bk_world b) of
             (Inl e, w) \<Rightarrow> (Inl e, b\<lparr>bk_world := w\<rparr>)
           | (Inr _, w) \<Rightarrow>
               (Inr (), b\<lparr>bk_world := mark (Mark_Term now) w,
                          bk_pty_exit_deadline_ms := None,
                          bk_kill_phase := Kill_TermSent (saturating_add_ms now (kill_grace_ms limits))\<rparr>)))"

definition attach_pty_master :: "broker_os \<Rightarrow> broker \<Rightarrow> (io_error + unit) \<times> broker" where
  "attach_pty_master os b =
     (if bk_master b then (Inl (Io_Other 0), b)
      else case sys_call (os_set_nonblocking os) (bk_world b) of
        (Inl e, w) \<Rightarrow> (Inl e, b\<lparr>bk_world := w\<rparr>)
      | (Inr _, w) \<Rightarrow>
          (Inr (), b\<lparr>bk_world := w, bk_master := True, bk_master_terminal_pending := False\<rparr>))"

definition close_in_child_fds :: "broker_os \<Rightarrow> broker \<Rightarrow> raw_fd list" where
  "close_in_child_fds os b =
     remdups (sort
       ((if bk_listener b then [os_raw_fd os Fd_Listener] else [])
        @ (if bk_signal_source b then [os_raw_fd os Fd_Signals] else [])
        @ (if bk_readiness b then [os_raw_fd os Fd_Readiness] else [])
        @ map (\<lambda>s. os_raw_fd os (Fd_Conn (slot_conn s))) (List.map_filter id (bk_slots b))))"

text \<open>The effects that need \<open>apply_effects\<close> again take it as the argument \<open>app\<close>. Each answers whether the
  effects after it still run.\<close>

definition reduce_then ::
  "pty_limits \<Rightarrow> (effect list \<Rightarrow> broker \<Rightarrow> broker) \<Rightarrow> event \<Rightarrow> broker \<Rightarrow> broker" where
  "reduce_then limits app ev b =
     (case reduce limits (bk_runtime b) ev of (rt, fx) \<Rightarrow> app fx (b\<lparr>bk_runtime := rt\<rparr>))"

definition request_internal_failure ::
  "pty_limits \<Rightarrow> (effect list \<Rightarrow> broker \<Rightarrow> broker) \<Rightarrow> pty_error \<Rightarrow> broker \<Rightarrow> broker" where
  "request_internal_failure limits app e b =
     (let b1 = (record_failure e b)\<lparr>bk_internal_cleanup_pending := True\<rparr>
      in reduce_then limits app
           (if bk_child b1 \<noteq> None then InternalFailureRequested else SpawnFailed) b1)"

definition execute_spawn ::
  "pty_limits \<Rightarrow> broker_os \<Rightarrow> (effect list \<Rightarrow> broker \<Rightarrow> broker) \<Rightarrow> u16 \<Rightarrow> u16 \<Rightarrow> broker \<Rightarrow> bool \<times> broker" where
  "execute_spawn limits os app rows cols b =
     (case bk_spawn_plan b of
        None \<Rightarrow> (True, b\<lparr>bk_deferred := bk_deferred b @ [SpawnChild rows cols]\<rparr>)
      | Some plan \<Rightarrow>
          let spec = \<lparr>ss_session_name = session_name (bk_runtime b), ss_argv = sp_argv plan,
                      ss_env = sp_env plan, ss_path_var = sp_path_var plan, ss_rows = rows,
                      ss_cols = cols, ss_close_in_child = close_in_child_fds os b\<rparr>
          in (case child_spawn os spec limits (bk_world b) of
                (Inl e, w) \<Rightarrow> (False, reduce_then limits app SpawnFailed (record_failure e (b\<lparr>bk_world := w\<rparr>)))
              | (Inr child, w) \<Rightarrow>
                  (case attach_pty_master os (b\<lparr>bk_world := w, bk_child := Some child\<rparr>) of
                     (Inl e, b1) \<Rightarrow> (False, request_internal_failure limits app (Err_Io e) b1)
                   | (Inr _, b1) \<Rightarrow>
                       (case os_child_meta os (cp_pid child) (cp_pgid child) (cp_start_ticks child) of
                          Inl e \<Rightarrow> (False, request_internal_failure limits app e b1)
                        | Inr _ \<Rightarrow>
                            (case sys_call (os_store_metadata os) (bk_world b1) of
                               (Inl e, w2) \<Rightarrow> (False, request_internal_failure limits app e (b1\<lparr>bk_world := w2\<rparr>))
                             | (Inr _, w2) \<Rightarrow> (True, b1\<lparr>bk_world := w2\<rparr>))))))"

definition execute_dimensions ::
  "pty_limits \<Rightarrow> broker_os \<Rightarrow> (effect list \<Rightarrow> broker \<Rightarrow> broker) \<Rightarrow> u16 \<Rightarrow> u16 \<Rightarrow> broker \<Rightarrow> bool \<times> broker" where
  "execute_dimensions limits os app rows cols b =
     (if \<not> bk_master b
      then (if bk_spawn_plan b = None
            then (True, b\<lparr>bk_deferred := bk_deferred b @ [ApplyDimensions rows cols]\<rparr>)
            else (False, request_internal_failure limits app (Err_Io (Io_Other ENOTCONN)) b))
      else case sys_call (os_get_winsize os) (bk_world b) of
        (Inl e, w) \<Rightarrow> (False, request_internal_failure limits app (Err_Io e) (b\<lparr>bk_world := w\<rparr>))
      | (Inr current, w) \<Rightarrow>
          if current = (rows, cols) then (True, b\<lparr>bk_world := w\<rparr>)
          else (case sys_call (\<lambda>t. os_set_winsize os t rows cols) w of
             (Inr _, w2) \<Rightarrow> (True, b\<lparr>bk_world := w2\<rparr>)
           | (Inl e, w2) \<Rightarrow> (False, request_internal_failure limits app (Err_Io e) (b\<lparr>bk_world := w2\<rparr>))))"

definition execute_signal ::
  "pty_limits \<Rightarrow> broker_os \<Rightarrow> (effect list \<Rightarrow> broker \<Rightarrow> broker) \<Rightarrow> u8 \<Rightarrow> broker \<Rightarrow> bool \<times> broker" where
  "execute_signal limits os app sig b =
     (case bk_child b of
        None \<Rightarrow> (False, request_internal_failure limits app Err_NotLive b)
      | Some child \<Rightarrow>
          if \<not> signal_is_allowed sig
          then (False, request_internal_failure limits app (Err_Io Io_InvalidInput) b)
          else (case signal_group_checked os child (unat sig) (bk_world b) of
             (Inr _, w) \<Rightarrow> (True, b\<lparr>bk_world := w\<rparr>)
           | (Inl e, w) \<Rightarrow> (False, request_internal_failure limits app e (b\<lparr>bk_world := w\<rparr>))))"

definition execute_begin_kill ::
  "pty_limits \<Rightarrow> broker_os \<Rightarrow> (effect list \<Rightarrow> broker \<Rightarrow> broker) \<Rightarrow> u64 \<Rightarrow> broker \<Rightarrow> bool \<times> broker" where
  "execute_begin_kill limits os app now b =
     (if bk_child b = None \<and> bk_spawn_plan b = None
      then (True, b\<lparr>bk_deferred := bk_deferred b @ [BeginKill]\<rparr>)
      else case start_kill limits os now b of
        (Inr _, b1) \<Rightarrow> (True, b1)
      | (Inl e, b1) \<Rightarrow> (False, request_internal_failure limits app e b1))"

section \<open>Carrying out the effects\<close>

definition apply_set_role :: "pty_limits \<Rightarrow> u64 \<Rightarrow> target \<Rightarrow> conn_role \<Rightarrow> broker \<Rightarrow> broker" where
  "apply_set_role limits now tgt role b =
     (case resolve b tgt of
        None \<Rightarrow> b
      | Some idx \<Rightarrow>
          (case slot_at b idx of
             None \<Rightarrow> b
           | Some s \<Rightarrow>
               (case set_role (slot_client s) limits role of
                  (c, res) \<Rightarrow>
                    if isl res then remove_conn limits now idx (put_client idx s c b)
                    else reconcile_writer_stall limits now (put_client idx s c b))))"

definition apply_deliver_input :: "pty_limits \<Rightarrow> u64 \<Rightarrow> u32 \<Rightarrow> bytes \<Rightarrow> broker \<Rightarrow> broker" where
  "apply_deliver_input limits now client_id bs b =
     (case resolve b (Target_Client client_id) of
        None \<Rightarrow> b
      | Some idx \<Rightarrow>
          (case slot_at b idx of
             None \<Rightarrow> b
           | Some s \<Rightarrow>
               (case input_push (cc_input (slot_client s)) bs of
                  (q, ok) \<Rightarrow>
                    let b1 = put_client idx s ((slot_client s)\<lparr>cc_input := q\<rparr>) b in
                    if ok then b1 else remove_conn limits now idx b1)))"

definition apply_drop_queues :: "pty_limits \<Rightarrow> u64 \<Rightarrow> target \<Rightarrow> broker \<Rightarrow> broker" where
  "apply_drop_queues limits now tgt b =
     (case resolve b tgt of
        None \<Rightarrow> b
      | Some idx \<Rightarrow>
          (case slot_at b idx of
             None \<Rightarrow> b
           | Some s \<Rightarrow>
               reconcile_writer_stall limits now
                 (put_client idx s ((slot_client s)\<lparr>cc_out := out_clear (cc_out (slot_client s)),
                                                    cc_input := input_clear (cc_input (slot_client s))\<rparr>) b)))"

definition apply_close_now :: "pty_limits \<Rightarrow> u64 \<Rightarrow> target \<Rightarrow> broker \<Rightarrow> broker" where
  "apply_close_now limits now tgt b =
     (case resolve b tgt of None \<Rightarrow> b | Some idx \<Rightarrow> remove_conn limits now idx b)"

definition apply_close_after_flush :: "pty_limits \<Rightarrow> broker_os \<Rightarrow> u64 \<Rightarrow> target \<Rightarrow> broker \<Rightarrow> broker" where
  "apply_close_after_flush limits os now tgt b =
     (case resolve b tgt of None \<Rightarrow> b | Some idx \<Rightarrow> broker_begin_draining limits os now idx b)"

definition exec_effect ::
  "pty_limits \<Rightarrow> broker_os \<Rightarrow> u64 \<Rightarrow> (effect list \<Rightarrow> broker \<Rightarrow> broker) \<Rightarrow> effect \<Rightarrow> broker \<Rightarrow> bool \<times> broker" where
  "exec_effect limits os now app e b =
     (case e of
        SetRole tgt role \<Rightarrow> (True, apply_set_role limits now tgt role b)
      | QueueFrame tgt f \<Rightarrow> (True, queue_effect_frame limits os now tgt f b)
      | DeliverInput client_id bs \<Rightarrow> (True, apply_deliver_input limits now client_id bs b)
      | DropQueues tgt \<Rightarrow> (True, apply_drop_queues limits now tgt b)
      | CloseNow conn \<Rightarrow> (True, apply_close_now limits now (Target_Conn conn) b)
      | CloseAfterFlush conn \<Rightarrow> (True, apply_close_after_flush limits os now (Target_Conn conn) b)
      | CloseClientNow client_id \<Rightarrow> (True, apply_close_now limits now (Target_Client client_id) b)
      | CloseClientAfterFlush client_id \<Rightarrow>
          (True, apply_close_after_flush limits os now (Target_Client client_id) b)
      | SpawnChild rows cols \<Rightarrow> execute_spawn limits os app rows cols b
      | ApplyDimensions rows cols \<Rightarrow> execute_dimensions limits os app rows cols b
      | ApplySignal sig \<Rightarrow> execute_signal limits os app sig b
      | BeginKill \<Rightarrow> execute_begin_kill limits os app now b
      | Shutdown \<Rightarrow> (True, broker_request_shutdown limits os now b))"

fun run_effects :: "(effect \<Rightarrow> broker \<Rightarrow> bool \<times> broker) \<Rightarrow> effect list \<Rightarrow> broker \<Rightarrow> broker" where
  "run_effects exec [] b = b"
| "run_effects exec (e # fx) b =
     (case exec e b of (True, b1) \<Rightarrow> run_effects exec fx b1 | (False, b1) \<Rightarrow> b1)"

text \<open>The recursion of \<open>apply_effects\<close> through failing effects, cut at a depth. Two levels are always
  enough (\<open>apply_effects_unfold\<close> below), so \<open>apply_effects\<close> is the source's recursion.\<close>

fun apply_depth :: "pty_limits \<Rightarrow> broker_os \<Rightarrow> u64 \<Rightarrow> nat \<Rightarrow> effect list \<Rightarrow> broker \<Rightarrow> broker" where
  "apply_depth limits os now 0 fx b = b"
| "apply_depth limits os now (Suc n) fx b =
     run_effects (exec_effect limits os now (apply_depth limits os now n)) fx b"

definition apply_effects :: "pty_limits \<Rightarrow> broker_os \<Rightarrow> u64 \<Rightarrow> effect list \<Rightarrow> broker \<Rightarrow> broker" where
  "apply_effects limits os now = apply_depth limits os now 2"

section \<open>The recursion of the effects ends\<close>

definition soft_effect :: "effect \<Rightarrow> bool" where
  "soft_effect e = (case e of
     SpawnChild _ _ \<Rightarrow> False | ApplyDimensions _ _ \<Rightarrow> False | ApplySignal _ \<Rightarrow> False | BeginKill \<Rightarrow> False
   | _ \<Rightarrow> True)"

lemma soft_effect_app:
  "soft_effect e \<Longrightarrow> exec_effect limits os now app e b = exec_effect limits os now app' e b"
  by (auto simp: soft_effect_def exec_effect_def split: effect.splits)

lemma run_effects_cong:
  assumes "\<And>e b. e \<in> set fx \<Longrightarrow> exec e b = exec' e b"
  shows "run_effects exec fx b = run_effects exec' fx b"
  using assms by (induction fx arbitrary: b) (simp_all split: bool.splits prod.splits)

lemma soft_effects_depth:
  "list_all soft_effect fx \<Longrightarrow> apply_depth limits os now (Suc n) fx b = apply_depth limits os now (Suc m) fx b"
  by (auto simp: list_all_iff intro!: run_effects_cong soft_effect_app)

lemma spawn_failed_soft: "list_all soft_effect (snd (reduce limits rt SpawnFailed))"
  by (auto simp: spawn_failed_def spawn_failed_effects_def Let_def soft_effect_def list_all_iff
      split: sum.splits option.splits)

lemma internal_failure_effects:
  "reduce limits rt InternalFailureRequested = (rt', fx) \<Longrightarrow>
   fx = [] \<or> fx = [BeginKill] \<and> kill_started rt'"
  by (auto simp: request_kill_def Let_def split: if_splits)

lemma internal_failure_started:
  "kill_started rt \<Longrightarrow> snd (reduce limits rt InternalFailureRequested) = []"
  by (simp add: request_kill_def Let_def latch_terminal_def)

lemma start_kill_fields:
  "start_kill limits os now b = (r, b') \<Longrightarrow> bk_runtime b' = bk_runtime b \<and> bk_child b' = bk_child b \<and>
   bk_slots b' = bk_slots b"
  by (auto simp: start_kill_def split: if_splits option.splits prod.splits sum.splits)

lemma apply_depth_nil [simp]: "apply_depth limits os now n [] b = b"
  by (cases n) simp_all

lemma internal_failure_depth_started:
  assumes "bk_child b \<noteq> None" "kill_started (bk_runtime b)"
  shows "request_internal_failure limits (apply_depth limits os now n) e b
       = request_internal_failure limits (apply_depth limits os now m) e b"
proof -
  obtain rt fx where r: "reduce limits (bk_runtime b) InternalFailureRequested = (rt, fx)" by force
  have "fx = []" using internal_failure_started [OF assms(2), of limits] r by simp
  then show ?thesis
    using assms r
    by (auto simp del: reduce.simps simp add: request_internal_failure_def record_failure_def reduce_then_def Let_def)
qed

lemma begin_kill_depth:
  assumes "bk_child b \<noteq> None" "kill_started (bk_runtime b)"
  shows "apply_depth limits os now (Suc n) [BeginKill] b = apply_depth limits os now (Suc m) [BeginKill] b"
proof -
  obtain r b' where s: "start_kill limits os now b = (r, b')" by force
  with start_kill_fields [OF s] assms
    internal_failure_depth_started [where b = b' and n = n and m = m and limits = limits and os = os and now = now]
  show ?thesis
    by (auto simp: exec_effect_def execute_begin_kill_def split: sum.splits)
qed

lemma internal_failure_depth:
  "request_internal_failure limits (apply_depth limits os now (Suc n)) e b
   = request_internal_failure limits (apply_depth limits os now (Suc m)) e b"
proof (cases "bk_child b")
  case None
  obtain rt fx where r: "reduce limits (bk_runtime b) SpawnFailed = (rt, fx)" by force
  with spawn_failed_soft [of limits "bk_runtime b"] have "list_all soft_effect fx" by simp
  from soft_effects_depth [OF this, of limits os now n _ m] r None show ?thesis
    by (simp del: reduce.simps apply_depth.simps
        add: request_internal_failure_def record_failure_def reduce_then_def Let_def)
next
  case (Some c)
  obtain rt fx where r: "reduce limits (bk_runtime b) InternalFailureRequested = (rt, fx)" by force
  from internal_failure_effects [OF r] begin_kill_depth [where n = n and m = m] r Some show ?thesis
    by (auto simp del: reduce.simps apply_depth.simps
        simp add: request_internal_failure_def record_failure_def reduce_then_def Let_def)
qed

lemma spawn_failed_depth:
  "reduce_then limits (apply_depth limits os now (Suc n)) SpawnFailed b
   = reduce_then limits (apply_depth limits os now (Suc m)) SpawnFailed b"
  using spawn_failed_soft [of limits "bk_runtime b"]
    soft_effects_depth [where limits = limits and os = os and now = now and n = n and m = m]
  by (auto simp del: reduce.simps apply_depth.simps simp add: reduce_then_def split: prod.splits)

lemma exec_effect_depth:
  "exec_effect limits os now (apply_depth limits os now (Suc n)) e b
   = exec_effect limits os now (apply_depth limits os now (Suc m)) e b"
proof (cases e)
  case (SpawnChild rows cols)
  show ?thesis
    unfolding SpawnChild exec_effect_def effect.case execute_spawn_def
      internal_failure_depth [where n = n and m = m] spawn_failed_depth [where n = n and m = m] ..
next
  case (ApplyDimensions rows cols)
  show ?thesis
    unfolding ApplyDimensions exec_effect_def effect.case execute_dimensions_def
      internal_failure_depth [where n = n and m = m] ..
next
  case (ApplySignal s)
  show ?thesis
    unfolding ApplySignal exec_effect_def effect.case execute_signal_def
      internal_failure_depth [where n = n and m = m] ..
next
  case BeginKill
  show ?thesis
    unfolding BeginKill exec_effect_def effect.case execute_begin_kill_def
      internal_failure_depth [where n = n and m = m] ..
qed (simp_all add: exec_effect_def)

lemma apply_depth_stable: "apply_depth limits os now (Suc (Suc n)) = apply_depth limits os now (Suc (Suc m))"
proof (intro ext)
  fix fx b
  show "apply_depth limits os now (Suc (Suc n)) fx b = apply_depth limits os now (Suc (Suc m)) fx b"
    unfolding apply_depth.simps(2) [where n = "Suc _"]
    by (rule run_effects_cong) (rule exec_effect_depth)
qed

text \<open>C11: carrying out effects always ends. A failing spawn, resize, signal or kill runs further effects,
  which may fail again, but never more than two levels deep: the definition cut at two levels
  satisfies the source's unbounded recursion, and any greater depth computes the same.\<close>

theorem apply_effects_terminates:
  "apply_effects limits os now fx b
     = run_effects (exec_effect limits os now (apply_effects limits os now)) fx b \<and>
   apply_depth limits os now (n + 2) fx b = apply_effects limits os now fx b"
proof
  have "apply_depth limits os now (Suc (Suc 0)) fx b = apply_depth limits os now (Suc (Suc 1)) fx b"
    by (simp only: apply_depth_stable [of limits os now 0 1])
  then show "apply_effects limits os now fx b
      = run_effects (exec_effect limits os now (apply_effects limits os now)) fx b"
    by (simp add: apply_effects_def numeral_2_eq_2)
  show "apply_depth limits os now (n + 2) fx b = apply_effects limits os now fx b"
    using apply_depth_stable [of limits os now n 0] by (simp add: apply_effects_def numeral_2_eq_2)
qed

lemma apply_effects_unfold:
  "apply_effects limits os now fx b
     = run_effects (exec_effect limits os now (apply_effects limits os now)) fx b"
proof -
  have "apply_depth limits os now (Suc (Suc 1)) fx b = apply_depth limits os now (Suc (Suc 0)) fx b"
    by (simp only: apply_depth_stable [of limits os now 1 0])
  then show ?thesis
    by (simp add: apply_effects_def numeral_2_eq_2)
qed

lemma apply_effects_simps [simp]:
  "apply_effects limits os now [] b = b"
  "apply_effects limits os now (e # fx) b =
     (case exec_effect limits os now (apply_effects limits os now) e b of
        (True, b1) \<Rightarrow> apply_effects limits os now fx b1 | (False, b1) \<Rightarrow> b1)"
  by (subst apply_effects_unfold, simp)
    (subst apply_effects_unfold, simp add: apply_effects_unfold [of _ _ _ fx] split: bool.splits prod.splits)

text \<open>The source's form of the close path, with the effects of the disconnect carried out.\<close>

lemma remove_conn_source:
  "remove_conn limits now idx b =
     (let b1 = release_lease_of idx b in
      case slot_at b1 idx of
        None \<Rightarrow> b1
      | Some s \<Rightarrow>
          reconcile_writer_stall limits now
            (case reduce limits (leave_observers (slot_role s) (bk_runtime b1))
                    (Disconnected (slot_conn s) (slot_role s)) of
               (rt, fx) \<Rightarrow> apply_effects limits os now fx
                 ((put_slot idx None b1)\<lparr>bk_closed_total := bk_closed_total b1 + 1, bk_runtime := rt\<rparr>)))"
  by (simp add: remove_conn_def Let_def split: option.splits)

end
