(* ===== verification/Pty_Broker_Loop.thy ===== *)
theory Pty_Broker_Loop
  imports Pty_Broker
begin

text \<open>
  The broker's event loop (\<open>crates/everpty/src/broker.rs\<close>, \<open>Broker::new\<close>, \<open>start\<close> and everything
  \<open>run_once\<close> does): deadlines, the child's life cycle, accepting, PTY input and output with its
  fan-out, connection events with the dispatch of frames, and the PTY lease handed to a gateway.
  A method returning \<open>io::Result\<close> returns the result with the new broker.
\<close>

type_synonym 'a brk = "(io_error + 'a) \<times> broker"

definition and_then :: "'a brk \<Rightarrow> ('a \<Rightarrow> broker \<Rightarrow> 'b brk) \<Rightarrow> 'b brk" where
  "and_then r k = (case r of (Inl e, b) \<Rightarrow> (Inl e, b) | (Inr x, b) \<Rightarrow> k x b)"

definition b_call :: "(nat \<Rightarrow> 'a) \<Rightarrow> broker \<Rightarrow> 'a \<times> broker" where
  "b_call f b = (case sys_call f (bk_world b) of (x, w) \<Rightarrow> (x, b\<lparr>bk_world := w\<rparr>))"

section \<open>Deadlines and admission\<close>

definition read_admitted :: "pty_limits \<Rightarrow> conn_slot \<Rightarrow> bool" where
  "read_admitted limits s =
     (if cc_draining (slot_client s) then False
      else case slot_role s of
        ConnRole_Writer _ \<Rightarrow>
          saturating_add_usize (iq_live_bytes (cc_input (slot_client s))) (frame_max_body limits - 2)
            \<le> writer_input_queue_bytes limits
      | _ \<Rightarrow> True)"

definition expire_writer_stall :: "pty_limits \<Rightarrow> u64 \<Rightarrow> broker \<Rightarrow> broker" where
  "expire_writer_stall limits now b0 =
     (let b = reconcile_writer_stall limits now b0 in
      case bk_writer_stall b of
        None \<Rightarrow> b
      | Some stall \<Rightarrow>
          if now < saturating_add_ms (ws_since_ms stall) (stall_deadline_ms limits) then b
          else (case eligible_writer_slot b of
             None \<Rightarrow> b\<lparr>bk_writer_stall := None\<rparr>
           | Some (idx, writer_id) \<Rightarrow>
               if writer_id \<noteq> ws_writer_id stall
               then reconcile_writer_stall limits now (b\<lparr>bk_writer_stall := None\<rparr>)
               else reconcile_writer_stall limits now
                      (remove_conn limits now idx (b\<lparr>bk_writer_stall := None\<rparr>))))"

definition master_read_admitted :: "broker \<Rightarrow> bool" where
  "master_read_admitted b \<longleftrightarrow> eligible_writer_slot b = None \<or> bk_writer_stall b = None"

definition has_output_recipients :: "broker \<Rightarrow> bool" where
  "has_output_recipients b \<longleftrightarrow>
     eligible_writer_slot b \<noteq> None \<or>
     list_ex (\<lambda>i. case resolve_observer b i of
                   None \<Rightarrow> False
                 | Some idx \<Rightarrow> (case slot_at b idx of
                     Some s \<Rightarrow> \<not> cc_draining (slot_client s) | None \<Rightarrow> False))
       (members (rt_observers (bk_runtime b)))"

definition no_flags :: poll_flags where
  "no_flags = \<lparr>pf_in = False, pf_out = False, pf_err = False, pf_hup = False, pf_nval = False\<rparr>"

definition writer_input_pending :: "broker \<Rightarrow> bool" where
  "writer_input_pending b =
     (case eligible_writer_slot b of
        Some (idx, _) \<Rightarrow>
          (case slot_at b idx of Some s \<Rightarrow> iq_live_bytes (cc_input (slot_client s)) > 0 | None \<Rightarrow> False)
      | None \<Rightarrow> False)"

definition master_poll_events :: "broker \<Rightarrow> poll_flags option" where
  "master_poll_events b =
     (if \<not> bk_master b \<or> bk_lease b \<noteq> None then None
      else
        let events = no_flags\<lparr>pf_in := master_read_admitted b,
                              pf_out := (\<not> bk_master_terminal_pending b \<and> writer_input_pending b)\<rparr>
        in if events = no_flags then None else Some events)"

definition slot_deadlines :: "pty_limits \<Rightarrow> conn_slot \<Rightarrow> u64 list" where
  "slot_deadlines limits s =
     (case fr_started_ms (cc_reader (slot_client s)) of
        Some start \<Rightarrow> [saturating_add_ms start (incomplete_frame_deadline_ms limits)] | None \<Rightarrow> [])
     @ (case cc_reply_deadline_at (slot_client s) of Some at \<Rightarrow> [at] | None \<Rightarrow> [])"

definition broker_deadlines :: "pty_limits \<Rightarrow> broker \<Rightarrow> u64 list" where
  "broker_deadlines limits b =
     (if lifecycle (rt_state (bk_runtime b)) = WaitingForWriter
      then [saturating_add_ms (bk_ready_at_ms b) (startup_deadline_ms limits)] else [])
     @ concat (map (slot_deadlines limits) (List.map_filter id (bk_slots b)))
     @ (case bk_writer_stall b of
          Some stall \<Rightarrow> [saturating_add_ms (ws_since_ms stall) (stall_deadline_ms limits)] | None \<Rightarrow> [])
     @ (case bk_pty_exit_deadline_ms b of Some d \<Rightarrow> [d] | None \<Rightarrow> [])
     @ (case bk_kill_phase b of Kill_TermSent d \<Rightarrow> [d] | _ \<Rightarrow> [])"

definition consider_deadline :: "u64 \<Rightarrow> u64 option \<Rightarrow> u64 option" where
  "consider_deadline deadline best = Some (case best of Some x \<Rightarrow> min x deadline | None \<Rightarrow> deadline)"

definition i32_max :: nat where "i32_max = 2 ^ 31 - 1"

definition poll_wait_ms :: "pty_limits \<Rightarrow> u64 \<Rightarrow> u32 option \<Rightarrow> broker \<Rightarrow> u32 option" where
  "poll_wait_ms limits now max_wait_ms b =
     (let remaining = map_option (\<lambda>d. unat d - unat now) (fold consider_deadline (broker_deadlines limits b) None)
      in case (max_wait_ms, remaining) of
        (Some m, Some r) \<Rightarrow> Some (of_nat (min (min (unat m) r) i32_max))
      | (Some m, None) \<Rightarrow> Some (of_nat (min (unat m) i32_max))
      | (None, Some r) \<Rightarrow> Some (of_nat (min r i32_max))
      | (None, None) \<Rightarrow> None)"

definition reduce_apply :: "pty_limits \<Rightarrow> broker_os \<Rightarrow> u64 \<Rightarrow> event \<Rightarrow> broker \<Rightarrow> broker" where
  "reduce_apply limits os now ev b = reduce_then limits (apply_effects limits os now) ev b"

text \<open>\<open>check_deadlines\<close>: the expired connections are collected first, then each still live one is closed
  through the reducer.\<close>

definition expired_conns :: "pty_limits \<Rightarrow> u64 \<Rightarrow> broker \<Rightarrow> (usize \<times> conn_id \<times> bool) list" where
  "expired_conns limits now b =
     List.map_filter (\<lambda>(idx, slot). case slot of
         None \<Rightarrow> None
       | Some s \<Rightarrow>
           let incomplete = deadline_expired (cc_reader (slot_client s)) now (incomplete_frame_deadline_ms limits);
               reply = reply_deadline_expired (slot_client s) now
           in if incomplete \<or> reply then Some (idx, slot_conn s, incomplete) else None)
       (enumerate 0 (bk_slots b))"

definition expire_conn :: "pty_limits \<Rightarrow> broker_os \<Rightarrow> u64 \<Rightarrow> usize \<times> conn_id \<times> bool \<Rightarrow> broker \<Rightarrow> broker" where
  "expire_conn limits os now x b =
     (case x of (idx, conn, incomplete) \<Rightarrow>
        if \<not> slot_identity_live b idx conn then b
        else reduce_apply limits os now
               (if incomplete then IncompleteFrameExpired conn else ReplyDeadlineExpired conn) b)"

definition check_deadlines :: "pty_limits \<Rightarrow> broker_os \<Rightarrow> u64 \<Rightarrow> broker \<Rightarrow> broker" where
  "check_deadlines limits os now b =
     (let b1 = fold (expire_conn limits os now) (expired_conns limits now b) b in
      if lifecycle (rt_state (bk_runtime b1)) = WaitingForWriter \<and>
         now \<ge> saturating_add_ms (bk_ready_at_ms b1) (startup_deadline_ms limits)
      then reduce_apply limits os now StartupDeadlineExpired b1 else b1)"

section \<open>The child's life cycle\<close>

definition note_pty_terminal :: "pty_limits \<Rightarrow> u64 \<Rightarrow> broker \<Rightarrow> broker" where
  "note_pty_terminal limits now b =
     (if bk_child b \<noteq> None \<and> bk_pty_exit_deadline_ms b = None
      then b\<lparr>bk_pty_exit_deadline_ms := Some (saturating_add_ms now (pty_exit_drain_ms limits))\<rparr> else b)"

definition request_lease_revoke :: "pty_limits \<Rightarrow> broker_os \<Rightarrow> u64 \<Rightarrow> broker \<Rightarrow> broker" where
  "request_lease_revoke limits os now b =
     (case bk_lease b of
        None \<Rightarrow> b
      | Some lease \<Rightarrow>
          if pl_control_alive lease \<and> \<not> pl_revoke_sent lease \<and> pl_phase lease = Phase_Active
          then queue_effect_frame limits os now (Target_Conn (lo_conn (pl_owner lease)))
                 (Frame_Lease Lease_Revoke (lo_generation (pl_owner lease)) (lo_lease_id (pl_owner lease)))
                 (b\<lparr>bk_lease := Some (lease\<lparr>pl_revoke_sent := True\<rparr>)\<rparr>)
          else b)"

definition observe_child :: "pty_limits \<Rightarrow> broker_os \<Rightarrow> u64 \<Rightarrow> broker \<Rightarrow> unit brk" where
  "observe_child limits os now b =
     (if bk_observed_outcome b \<noteq> None then (Inr (), b)
      else case bk_child b of
        None \<Rightarrow> (Inr (), b)
      | Some child \<Rightarrow>
          (case observe_exit os child (bk_world b) of
             (res, child1, w) \<Rightarrow>
               let b1 = b\<lparr>bk_child := Some child1, bk_world := w\<rparr> in
               (case res of
                  Inl e \<Rightarrow> (Inl e, b1)
                | Inr None \<Rightarrow> (Inr (), b1)
                | Inr (Some outcome) \<Rightarrow>
                    let b2 = request_lease_revoke limits os now
                               (note_pty_terminal limits now (b1\<lparr>bk_observed_outcome := Some outcome\<rparr>))
                    in (Inr (), reduce_apply limits os now
                          (case exit_parts outcome of (signal, value) \<Rightarrow> ChildExitObserved signal value) b2))))"

fun signal_loop :: "pty_limits \<Rightarrow> broker_os \<Rightarrow> u64 \<Rightarrow> nat \<Rightarrow> broker \<Rightarrow> unit brk" where
  "signal_loop limits os now 0 b = (Inr (), b)"
| "signal_loop limits os now (Suc budget) b =
     (if \<not> bk_signal_source b then (Inr (), b)
      else case b_call (os_read_signalfd os) b of
        (Inl e, b1) \<Rightarrow> (Inl e, b1)
      | (Inr None, b1) \<Rightarrow> (Inr (), b1)
      | (Inr (Some sig), b1) \<Rightarrow>
          if sig = SIGCHLD
          then and_then (observe_child limits os now b1) (\<lambda>_ b2. signal_loop limits os now budget b2)
          else if sig \<in> {SIGTERM, SIGINT, SIGQUIT, SIGHUP}
          then signal_loop limits os now budget (reduce_apply limits os now TerminationRequested b1)
          else signal_loop limits os now budget b1)"

definition handle_signal_events ::
  "pty_limits \<Rightarrow> broker_os \<Rightarrow> poll_flags \<Rightarrow> u64 \<Rightarrow> broker \<Rightarrow> unit brk" where
  "handle_signal_events limits os re now b =
     (if pf_nval re then (Inl Io_InvalidData, b)
      else signal_loop limits os now (max (accepts_per_iteration limits) 1) b)"

section \<open>PTY output\<close>

datatype recipient_kind = Recipient_Writer | Recipient_Observer

record recipient =
  rc_idx :: usize
  rc_conn :: conn_id
  rc_client_id :: u32
  rc_kind :: recipient_kind

definition capture_recipients :: "broker \<Rightarrow> recipient list" where
  "capture_recipients b =
     (case eligible_writer_slot b of
        Some (idx, writer_id) \<Rightarrow>
          (case slot_at b idx of
             Some s \<Rightarrow> [\<lparr>rc_idx = idx, rc_conn = slot_conn s, rc_client_id = writer_id, rc_kind = Recipient_Writer\<rparr>]
           | None \<Rightarrow> [])
      | None \<Rightarrow> [])
     @ List.map_filter (\<lambda>client_id.
          case resolve_observer b client_id of
            None \<Rightarrow> None
          | Some idx \<Rightarrow>
              (case slot_at b idx of
                 Some s \<Rightarrow>
                   if cc_draining (slot_client s) then None
                   else Some \<lparr>rc_idx = idx, rc_conn = slot_conn s, rc_client_id = client_id,
                              rc_kind = Recipient_Observer\<rparr>
               | None \<Rightarrow> None))
         (members (rt_observers (bk_runtime b)))"

definition recipient_live :: "broker \<Rightarrow> recipient \<Rightarrow> bool" where
  "recipient_live b r =
     (case slot_at b (rc_idx r) of
        None \<Rightarrow> False
      | Some s \<Rightarrow>
          slot_conn s = rc_conn r \<and> \<not> cc_draining (slot_client s) \<and>
          (case rc_kind r of
             Recipient_Writer \<Rightarrow>
               ownership (rt_state (bk_runtime b)) = Writer (rc_client_id r) \<and>
               slot_role s = ConnRole_Writer (rc_client_id r)
           | Recipient_Observer \<Rightarrow>
               rc_client_id r \<in> set (members (rt_observers (bk_runtime b))) \<and>
               slot_role s = ConnRole_Observer (rc_client_id r)))"

definition projected_fanout_bytes :: "broker \<Rightarrow> recipient list \<Rightarrow> usize \<Rightarrow> usize" where
  "projected_fanout_bytes b recipients encoded_len =
     min (length (filter (recipient_live b) recipients) * encoded_len) (2 ^ 64 - 1)"

definition aggregate_fanout_fits :: "pty_limits \<Rightarrow> broker \<Rightarrow> recipient list \<Rightarrow> usize \<Rightarrow> bool" where
  "aggregate_fanout_fits limits b recipients encoded_len \<longleftrightarrow>
     saturating_add_usize (aggregate_output_live_bytes b) (projected_fanout_bytes b recipients encoded_len)
       \<le> aggregate_queue_bytes limits"

text \<open>The four passes of \<open>fan_out_output\<close>: observers whose own cap refuses the frame, observers under
  aggregate pressure, other queues that eat into the writer's guarantee, then the pushes.\<close>

definition refuse_full_observer :: "pty_limits \<Rightarrow> u64 \<Rightarrow> usize \<Rightarrow> recipient \<Rightarrow> broker \<Rightarrow> broker" where
  "refuse_full_observer limits now len r b =
     (if rc_kind r \<noteq> Recipient_Observer \<or> \<not> recipient_live b r then b
      else case slot_at b (rc_idx r) of
        Some s \<Rightarrow> if target_add_fits s len then b else remove_conn limits now (rc_idx r) b
      | None \<Rightarrow> b)"

function evict_while ::
  "(broker \<Rightarrow> usize option) \<Rightarrow> pty_limits \<Rightarrow> u64 \<Rightarrow> recipient list \<Rightarrow> usize \<Rightarrow> broker \<Rightarrow> broker" where
  "evict_while pick limits now recipients len b =
     (if aggregate_fanout_fits limits b recipients len then b
      else case pick b of
        None \<Rightarrow> b
      | Some k \<Rightarrow>
          if slot_live b k then evict_while pick limits now recipients len (remove_conn limits now k b)
          else b)"
  by pat_completeness auto
termination
  by (relation "measure (\<lambda>(pick, limits, now, recipients, len, b). connection_count b)")
    (auto intro: remove_conn_frees)

declare evict_while.simps [simp del]

definition deliver_output ::
  "pty_limits \<Rightarrow> broker_os \<Rightarrow> u64 \<Rightarrow> bytes \<Rightarrow> recipient \<Rightarrow> broker \<Rightarrow> broker" where
  "deliver_output limits os now encoded r b =
     (if \<not> recipient_live b r then b
      else case slot_at b (rc_idx r) of
        None \<Rightarrow> b
      | Some s \<Rightarrow>
          (case push_out (rc_idx r) s encoded b of
             (False, b1) \<Rightarrow> remove_conn limits now (rc_idx r) b1
           | (True, b1) \<Rightarrow> flush_slot limits os now (rc_idx r) (reconcile_writer_stall limits now b1)))"

definition fan_out_output :: "pty_limits \<Rightarrow> broker_os \<Rightarrow> u64 \<Rightarrow> bytes \<Rightarrow> broker \<Rightarrow> broker" where
  "fan_out_output limits os now output b =
     (let encoded = encode_frame (Frame_Output output);
          len = length encoded;
          recipients = capture_recipients b
      in if recipients = [] then b
         else
           let b1 = fold (refuse_full_observer limits now len) recipients b;
               b2 = evict_while (\<lambda>b. most_full_observer b None False) limits now recipients len b1;
               writer_survives = list_ex (\<lambda>r. rc_kind r = Recipient_Writer \<and> recipient_live b2 r) recipients;
               b3 = (if writer_survives
                     then evict_while most_full_non_writer_queue limits now recipients len b2 else b2)
           in fold (deliver_output limits os now encoded) recipients b3)"

datatype master_read_result = Read_Data | Read_Boundary | Read_WouldBlock

text \<open>A read fills at most the broker's buffer; interrupted attempts are retried.\<close>

definition read_master_output_once ::
  "pty_limits \<Rightarrow> broker_os \<Rightarrow> u64 \<Rightarrow> broker \<Rightarrow> master_read_result brk" where
  "read_master_output_once limits os now b =
     (case b_call (os_read os) b of
        ((_, Inr bs), b1) \<Rightarrow>
          let got = take (read_chunk_bytes limits) bs in
          if got = [] then (Inr Read_Boundary, detach_master (note_pty_terminal limits now b1))
          else (Inr Read_Data, fan_out_output limits os now got b1)
      | ((_, Inl e), b1) \<Rightarrow>
          if e = Io_WouldBlock then (Inr Read_WouldBlock, b1)
          else if raw_os_error e = Some EIO
          then (Inr Read_Boundary, detach_master (note_pty_terminal limits now b1))
          else (Inl e, b1))"

datatype barrier_result = Barrier_Safe | Barrier_Deferred

text \<open>The bounded discard: an interrupted attempt uses up budget like a read.\<close>

function discard_loop ::
  "pty_limits \<Rightarrow> broker_os \<Rightarrow> u64 \<Rightarrow> usize \<Rightarrow> broker \<Rightarrow> (io_error + barrier_result) \<times> usize \<times> broker" where
  "discard_loop limits os now budget b =
     (if budget = 0 then (Inr Barrier_Deferred, 0, b)
      else case b_call (os_read os) b of
        ((interrupts, res), b1) \<Rightarrow>
          if budget \<le> interrupts then (Inr Barrier_Deferred, 0, b1)
          else let budget' = budget - interrupts - 1 in
            (case res of
               Inr bs \<Rightarrow>
                 let got = take (read_chunk_bytes limits) bs in
                 if got = [] then (Inr Barrier_Safe, budget', detach_master (note_pty_terminal limits now b1))
                 else discard_loop limits os now budget'
                        (b1\<lparr>bk_world := mark (Mark_Discard got) (bk_world b1)\<rparr>)
             | Inl e \<Rightarrow>
                 if e = Io_WouldBlock then (Inr Barrier_Safe, budget', b1)
                 else if raw_os_error e = Some EIO
                 then (Inr Barrier_Safe, budget', detach_master (note_pty_terminal limits now b1))
                 else (Inl e, budget', b1)))"
  by pat_completeness auto
termination
  by (relation "measure (\<lambda>(limits, os, now, budget, b). budget)") auto

declare discard_loop.simps [simp del]

definition discard_master_until_boundary ::
  "pty_limits \<Rightarrow> broker_os \<Rightarrow> u64 \<Rightarrow> usize \<Rightarrow> broker \<Rightarrow> (io_error + barrier_result) \<times> usize \<times> broker" where
  "discard_master_until_boundary limits os now budget b =
     (if \<not> bk_master b then (Inr Barrier_Safe, budget, b) else discard_loop limits os now budget b)"

section \<open>PTY input\<close>

text \<open>The journal records what the PTY accepts.\<close>

definition master_writer :: "broker_os \<Rightarrow> world writer" where
  "master_writer os w bs =
     (case sys_call (\<lambda>t. os_write os t bs) w of
        (Inl e, w1) \<Rightarrow> (w1, Inl e)
      | (Inr n, w1) \<Rightarrow> ((if n \<le> length bs then mark (Mark_Input (take n bs)) w1 else w1), Inr n))"

definition drain_writer_input :: "pty_limits \<Rightarrow> broker_os \<Rightarrow> u64 \<Rightarrow> broker \<Rightarrow> unit brk" where
  "drain_writer_input limits os now b =
     (if bk_master_terminal_pending b \<or> \<not> bk_master b then (Inr (), b)
      else case eligible_writer_slot b of
        None \<Rightarrow> (Inr (), b)
      | Some (idx, _) \<Rightarrow>
          (case slot_at b idx of
             None \<Rightarrow> (Inr (), b)
           | Some s \<Rightarrow>
               if iq_live_bytes (cc_input (slot_client s)) = 0 then (Inr (), b)
               else (case drain_with (master_writer os) (cc_input (slot_client s)) (bk_world b) of
                  (q, w, res) \<Rightarrow>
                    let b1 = (put_client idx s ((slot_client s)\<lparr>cc_input := q\<rparr>) b)\<lparr>bk_world := w\<rparr> in
                    (case res of
                       Inr _ \<Rightarrow> (Inr (), b1)
                     | Inl e \<Rightarrow>
                         if e = Io_WouldBlock then (Inr (), b1)
                         else if e = Io_WriteZero \<or> raw_os_error e = Some EIO
                         then (Inr (), (note_pty_terminal limits now b1)\<lparr>bk_master_terminal_pending := True\<rparr>)
                         else (Inl e, b1)))))"

definition handle_master_events ::
  "pty_limits \<Rightarrow> broker_os \<Rightarrow> poll_flags \<Rightarrow> u64 \<Rightarrow> usize \<Rightarrow> broker \<Rightarrow> (io_error + unit) \<times> usize \<times> broker" where
  "handle_master_events limits os re now budget b =
     (if \<not> bk_master b then (Inr (), budget, b)
      else if pf_nval re then (Inr (), budget, detach_master (note_pty_terminal limits now b))
      else
        let b1 = reconcile_writer_stall limits now b;
            terminal_hint = (pf_hup re \<or> pf_err re)
        in case (if master_read_admitted b1 \<and> (pf_in re \<or> terminal_hint)
                 then (if has_output_recipients b1
                       then (case read_master_output_once limits os now b1 of (r, b2) \<Rightarrow>
                               (map_sum id (\<lambda>_. ()) r, budget, b2))
                       else (case discard_master_until_boundary limits os now budget b1 of (r, budget2, b2) \<Rightarrow>
                               (map_sum id (\<lambda>_. ()) r, budget2, b2)))
                 else (Inr (), budget, b1)) of
          (Inl e, budget2, b2) \<Rightarrow> (Inl e, budget2, b2)
        | (Inr _, budget2, b2) \<Rightarrow>
            if terminal_hint
            then (Inr (), budget2,
                  let b3 = note_pty_terminal limits now b2 in
                  if bk_master b3 then b3\<lparr>bk_master_terminal_pending := True\<rparr> else b3)
            else if pf_out re \<and> \<not> bk_master_terminal_pending b2 \<and> bk_master b2
            then (case drain_writer_input limits os now b2 of (r, b3) \<Rightarrow> (r, budget2, b3))
            else (Inr (), budget2, b2))"

section \<open>The life cycle step\<close>

text \<open>\<open>advance_lifecycle\<close> by its stages: escalation, reap, the final drain, and the report of the end.\<close>

definition escalate_kill :: "pty_limits \<Rightarrow> broker_os \<Rightarrow> u64 \<Rightarrow> broker \<Rightarrow> unit brk" where
  "escalate_kill limits os now b =
     (case bk_kill_phase b of
        Kill_TermSent deadline \<Rightarrow>
          if now < deadline then (Inr (), b)
          else (case bk_child b of
             None \<Rightarrow> (Inr (), b)
           | Some child \<Rightarrow>
               (case signal_group_checked os child SIGKILL (bk_world b) of
                  (Inl e, w) \<Rightarrow> (Inl (Io_Other 0), b\<lparr>bk_world := w\<rparr>)
                | (Inr _, w) \<Rightarrow>
                    (Inr (), b\<lparr>bk_world := mark (Mark_Kill now) w, bk_kill_phase := Kill_KillSent\<rparr>)))
      | _ \<Rightarrow> (Inr (), b))"

definition expire_pty_exit :: "pty_limits \<Rightarrow> broker_os \<Rightarrow> u64 \<Rightarrow> broker \<Rightarrow> unit brk" where
  "expire_pty_exit limits os now b =
     (if (case bk_pty_exit_deadline_ms b of Some d \<Rightarrow> now \<ge> d | None \<Rightarrow> False) \<and>
         bk_kill_phase b = Kill_Idle \<and> (bk_master b \<or> bk_observed_outcome b = None)
      then (case start_kill limits os now b of
              (Inl e, b1) \<Rightarrow> (Inl (Io_Other 0), b1)
            | (Inr _, b1) \<Rightarrow> (Inr (), b1))
      else (Inr (), b))"

definition reap_child :: "pty_limits \<Rightarrow> broker_os \<Rightarrow> u64 \<Rightarrow> broker \<Rightarrow> unit brk" where
  "reap_child limits os now b =
     (let may_reap = bk_observed_outcome b \<noteq> None \<and>
            (bk_kill_phase b = Kill_KillSent \<or> (bk_kill_phase b = Kill_Idle \<and> \<not> bk_master b))
      in if \<not> may_reap \<or> bk_final_outcome b \<noteq> None then (Inr (), b)
         else case bk_child b of
           None \<Rightarrow> (Inr (), b)
         | Some child \<Rightarrow>
             (case reap_observed_nohang os child (bk_world b) of
                (res, child1, w) \<Rightarrow>
                  let b1 = b\<lparr>bk_child := Some child1, bk_world := w\<rparr> in
                  (case res of
                     Inl e \<Rightarrow> (Inl e, b1)
                   | Inr None \<Rightarrow> (Inr (), b1)
                   | Inr (Some outcome) \<Rightarrow>
                       let b2 = b1\<lparr>bk_final_outcome := Some outcome\<rparr> in
                       (Inr (), if bk_kill_phase b2 = Kill_KillSent
                                then b2\<lparr>bk_kill_phase := Kill_Finalized,
                                        bk_pty_exit_deadline_ms :=
                                          Some (saturating_add_ms now (pty_exit_drain_ms limits))\<rparr>
                                else b2))))"

definition final_drain :: "pty_limits \<Rightarrow> broker_os \<Rightarrow> u64 \<Rightarrow> broker \<Rightarrow> unit brk" where
  "final_drain limits os now b =
     (if bk_kill_phase b = Kill_Finalized \<and> bk_master b \<and> bk_lease b = None
      then (if (case bk_pty_exit_deadline_ms b of Some d \<Rightarrow> now \<ge> d | None \<Rightarrow> False)
            then (Inr (), detach_master b)
            else if master_read_admitted b
            then and_then (read_master_output_once limits os now b) (\<lambda>r b1.
                   (Inr (), if r = Read_WouldBlock then detach_master b1 else b1))
            else (Inr (), b))
      else (Inr (), b))"

definition report_end :: "pty_limits \<Rightarrow> broker_os \<Rightarrow> u64 \<Rightarrow> broker \<Rightarrow> broker" where
  "report_end limits os now b =
     (case bk_final_outcome b of
        None \<Rightarrow> b
      | Some outcome \<Rightarrow>
          if bk_master b then b
          else
            let b1 = b\<lparr>bk_child := None, bk_pty_exit_deadline_ms := None\<rparr>;
                internal_was_first = bk_internal_cleanup_pending b1 \<and>
                  terminal_request (bk_runtime b1) = Some InternalError
            in reduce_apply limits os now
                 (if internal_was_first then SpawnFailed
                  else (case exit_parts outcome of (signal, value) \<Rightarrow> ChildFinished signal value)) b1)"

definition advance_lifecycle :: "pty_limits \<Rightarrow> broker_os \<Rightarrow> u64 \<Rightarrow> broker \<Rightarrow> unit brk" where
  "advance_lifecycle limits os now b =
     (if bk_child b = None then (Inr (), b)
      else
        and_then (observe_child limits os now b) (\<lambda>_ b1.
        and_then (expire_pty_exit limits os now b1) (\<lambda>_ b2.
        and_then (escalate_kill limits os now b2) (\<lambda>_ b3.
        and_then (observe_child limits os now b3) (\<lambda>_ b4.
        and_then (reap_child limits os now b4) (\<lambda>_ b5.
        and_then (final_drain limits os now b5) (\<lambda>_ b6.
          (Inr (), report_end limits os now b6))))))))"

section \<open>Accepting\<close>

definition refuse_connection :: "pty_limits \<Rightarrow> broker_os \<Rightarrow> bytes \<Rightarrow> broker \<Rightarrow> broker" where
  "refuse_connection limits os text b =
     (case push_frame (cc_out (conn_new limits)) (error_frame ErrorCode_ResourceLimit text limits) of
        (q, True) \<Rightarrow>
          (case flush_with (\<lambda>w bs. prod.swap (sys_call (\<lambda>t. os_send os t 0 bs) w)) q (bk_world b) of
             (_, w, _) \<Rightarrow> b\<lparr>bk_world := w\<rparr>)
      | (_, False) \<Rightarrow> b)"

definition insert_conn :: "pty_limits \<Rightarrow> conn_id \<Rightarrow> broker \<Rightarrow> broker" where
  "insert_conn limits conn b =
     (let slot = Some \<lparr>slot_conn = conn, slot_client = conn_new limits, slot_terminal_pending = None\<rparr>
      in b\<lparr>bk_slots := (case position (\<lambda>s. s = None) (bk_slots b) of
                          Some idx \<Rightarrow> (bk_slots b)[idx := slot]
                        | None \<Rightarrow> bk_slots b @ [slot])\<rparr>)"

definition admit_conn :: "pty_limits \<Rightarrow> broker_os \<Rightarrow> broker \<Rightarrow> broker" where
  "admit_conn limits os b =
     (if connection_count b \<ge> max_connections limits
      then refuse_connection limits os (str_bytes ''connection cap exceeded'') b
      else case alloc_conn_id (bk_next_conn_id b) of
        None \<Rightarrow> refuse_connection limits os (str_bytes ''connection ids exhausted'') b
      | Some (conn, nxt) \<Rightarrow> insert_conn limits conn (b\<lparr>bk_next_conn_id := nxt\<rparr>))"

fun accept_loop :: "pty_limits \<Rightarrow> broker_os \<Rightarrow> nat \<Rightarrow> broker \<Rightarrow> unit brk" where
  "accept_loop limits os 0 b = (Inr (), b)"
| "accept_loop limits os (Suc n) b =
     (case b_call (os_accept os) b of
        (Inl e, b1) \<Rightarrow> (Inl e, b1)
      | (Inr False, b1) \<Rightarrow> (Inr (), b1)
      | (Inr True, b1) \<Rightarrow>
          (case b_call (os_peer_uid os) (b1\<lparr>bk_accepted_total := bk_accepted_total b1 + 1\<rparr>) of
             (uid, b2) \<Rightarrow>
               accept_loop limits os n
                 (if (case uid of Inr u \<Rightarrow> peer_uid_allowed u (os_effective_uid os) | Inl _ \<Rightarrow> False)
                  then admit_conn limits os b2 else b2)))"

definition handle_accept :: "pty_limits \<Rightarrow> broker_os \<Rightarrow> broker \<Rightarrow> unit brk" where
  "handle_accept limits os b = accept_loop limits os (accepts_per_iteration limits) b"

section \<open>Frames from clients\<close>

definition refuse_busy :: "pty_limits \<Rightarrow> broker_os \<Rightarrow> u64 \<Rightarrow> usize \<Rightarrow> conn_id \<Rightarrow> u32 \<Rightarrow> broker \<Rightarrow> broker" where
  "refuse_busy limits os now idx conn current_writer_id b =
     broker_begin_draining limits os now idx
       (queue_effect_frame limits os now (Target_Conn conn) (Frame_Busy current_writer_id) b)"

definition dispatch_reducer_frame ::
  "pty_limits \<Rightarrow> broker_os \<Rightarrow> u64 \<Rightarrow> usize \<Rightarrow> frame \<Rightarrow> broker \<Rightarrow> broker" where
  "dispatch_reducer_frame limits os now idx f b =
     (case slot_at b idx of
        None \<Rightarrow> b
      | Some s \<Rightarrow>
          (case bk_lease b of
             Some lease \<Rightarrow>
               if slot_role s = ConnRole_AwaitingFirstFrame \<and> frame_kind f = Kind_Hello
               then refuse_busy limits os now idx (slot_conn s) (lo_client_id (pl_owner lease)) b
               else reduce_apply limits os now (Event_Frame (slot_conn s) (slot_role s) f) b
           | None \<Rightarrow> reduce_apply limits os now (Event_Frame (slot_conn s) (slot_role s) f) b))"

definition allocate_lease_id :: "broker \<Rightarrow> (u64 \<times> broker) option" where
  "allocate_lease_id b =
     (if bk_next_lease_id b = 0 \<or> bk_next_lease_id b = - 1 then None
      else Some (bk_next_lease_id b, b\<lparr>bk_next_lease_id := bk_next_lease_id b + 1\<rparr>))"

text \<open>The capability parts of a grant, in the source's order: the pid descriptor opened before the
  hello, the duplicated master, a fresh lease id.\<close>

definition lease_parts :: "broker_os \<Rightarrow> io_error + unit \<Rightarrow> broker \<Rightarrow> u64 option \<times> broker" where
  "lease_parts os pidfd b =
     (if isl pidfd \<or> \<not> bk_master b then (None, b)
      else case b_call (os_duplicate os) b of
        (Inl _, b1) \<Rightarrow> (None, b1)
      | (Inr _, b1) \<Rightarrow>
          (case allocate_lease_id b1 of
             None \<Rightarrow> (None, b1)
           | Some (lease_id, b2) \<Rightarrow> (Some lease_id, b2)))"

definition grant_lease ::
  "pty_limits \<Rightarrow> broker_os \<Rightarrow> u64 \<Rightarrow> usize \<Rightarrow> conn_id \<Rightarrow> u32 \<Rightarrow> bytes \<Rightarrow> u32 \<Rightarrow> u64 \<Rightarrow> io_error + unit \<Rightarrow>
   broker \<Rightarrow> broker" where
  "grant_lease limits os now idx conn client_id generation pid start_ticks pidfd b =
     (case lease_parts os pidfd b of
        (None, b1) \<Rightarrow>
          queue_effect_frame limits os now (Target_Conn conn) (Frame_Lease Lease_Unavailable generation 0) b1
      | (Some lease_id, b1) \<Rightarrow>
          flush_slot limits os now idx
            (b1\<lparr>bk_lease := Some
                 \<lparr>pl_owner = \<lparr>lo_conn = conn, lo_client_id = client_id, lo_generation = generation,
                              lo_pid = pid, lo_start_ticks = start_ticks, lo_lease_id = lease_id\<rparr>,
                  pl_phase = Phase_Granting (encode_frame (Frame_Lease Lease_Grant generation lease_id)) 0 True,
                  pl_control_alive = True, pl_revoke_sent = False\<rparr>,
               bk_writer_stall := None\<rparr>))"

text \<open>The peer must be the process it claims to be: the socket's credentials and the start time.\<close>

definition gateway_identity :: "broker_os \<Rightarrow> conn_id \<Rightarrow> u32 \<Rightarrow> u64 \<Rightarrow> broker \<Rightarrow> bool \<times> broker" where
  "gateway_identity os conn pid start_ticks b =
     (case b_call (\<lambda>t. os_peer_pid os t conn) b of
        (peer, b1) \<Rightarrow>
          if peer \<noteq> Inr (int (unat pid)) then (False, b1)
          else (case b_call (\<lambda>t. os_proc_ticks os t (int (unat pid))) b1 of
             (ticks, b2) \<Rightarrow> (ticks = Inr start_ticks, b2)))"

definition dispatch_gateway_hello ::
  "pty_limits \<Rightarrow> broker_os \<Rightarrow> u64 \<Rightarrow> usize \<Rightarrow> bool \<Rightarrow> bytes \<Rightarrow> u16 \<Rightarrow> u16 \<Rightarrow> bytes \<Rightarrow> u32 \<Rightarrow> u64 \<Rightarrow>
   broker \<Rightarrow> broker" where
  "dispatch_gateway_hello limits os now idx take_over name rows cols generation pid start_ticks b =
     (case slot_at b idx of
        None \<Rightarrow> b
      | Some s \<Rightarrow>
          if slot_role s \<noteq> ConnRole_AwaitingFirstFrame then remove_conn limits now idx b
          else (case bk_lease b of
             Some lease \<Rightarrow> refuse_busy limits os now idx (slot_conn s) (lo_client_id (pl_owner lease)) b
           | None \<Rightarrow>
               if unat pid \<ge> 2 ^ 31 then remove_conn limits now idx b
               else (case gateway_identity os (slot_conn s) pid start_ticks b of
                  (False, b1) \<Rightarrow> remove_conn limits now idx b1
                | (True, b1) \<Rightarrow>
                    (case b_call (\<lambda>t. os_pidfd_open os t (int (unat pid))) b1 of
                       (pidfd, b2) \<Rightarrow>
                         let b3 = dispatch_reducer_frame limits os now idx
                                    (Frame_Hello Role_Writer take_over name rows cols) b2
                         in (case slot_at b3 idx of
                               None \<Rightarrow> b3
                             | Some s3 \<Rightarrow>
                                 (case slot_role s3 of
                                    ConnRole_Writer client_id \<Rightarrow>
                                      if ownership (rt_state (bk_runtime b3)) \<noteq> Writer client_id then b3
                                      else grant_lease limits os now idx (slot_conn s3) client_id generation
                                             pid start_ticks pidfd b3
                                  | _ \<Rightarrow> b3))))))"

definition dispatch_lease_control ::
  "pty_limits \<Rightarrow> broker_os \<Rightarrow> u64 \<Rightarrow> usize \<Rightarrow> lease_action \<Rightarrow> bytes \<Rightarrow> u64 \<Rightarrow> broker \<Rightarrow> broker" where
  "dispatch_lease_control limits os now idx action generation lease_id b =
     (case slot_at b idx of
        None \<Rightarrow> b
      | Some s \<Rightarrow>
          (case bk_lease b of
             None \<Rightarrow> remove_conn limits now idx b
           | Some lease \<Rightarrow>
               if \<not> (lease_belongs_to lease idx b \<and> lo_generation (pl_owner lease) = generation \<and>
                      lo_lease_id (pl_owner lease) = lease_id)
               then remove_conn limits now idx b
               else
                 let reply = (\<lambda>a. queue_effect_frame limits os now (Target_Conn (slot_conn s))
                                     (Frame_Lease a generation lease_id))
                 in (case (action, pl_phase lease) of
                       (Lease_Commit, Phase_AwaitingCommit) \<Rightarrow>
                         reply Lease_Committed (b\<lparr>bk_lease := Some (lease\<lparr>pl_phase := Phase_Active\<rparr>)\<rparr>)
                     | (Lease_Barrier, Phase_Active) \<Rightarrow> reply Lease_BarrierAck b
                     | (Lease_Release, Phase_AwaitingCommit) \<Rightarrow> reply Lease_Released (b\<lparr>bk_lease := None\<rparr>)
                     | (Lease_Release, Phase_Active) \<Rightarrow> reply Lease_Released (b\<lparr>bk_lease := None\<rparr>)
                     | _ \<Rightarrow> remove_conn limits now idx b)))"

definition dispatch_frame :: "pty_limits \<Rightarrow> broker_os \<Rightarrow> u64 \<Rightarrow> usize \<Rightarrow> frame \<Rightarrow> broker \<Rightarrow> broker" where
  "dispatch_frame limits os now idx f b =
     (case f of
        Frame_GatewayHello take_over name rows cols generation pid start_ticks \<Rightarrow>
          dispatch_gateway_hello limits os now idx take_over name rows cols generation pid start_ticks b
      | Frame_Lease action generation lease_id \<Rightarrow>
          dispatch_lease_control limits os now idx action generation lease_id b
      | _ \<Rightarrow> dispatch_reducer_frame limits os now idx f b)"

definition slot_draining :: "broker \<Rightarrow> usize \<Rightarrow> bool" where
  "slot_draining b idx = (case slot_at b idx of Some s \<Rightarrow> cc_draining (slot_client s) | None \<Rightarrow> False)"

text \<open>\<open>consume_chunk\<close> with the reader taken out of the slot while the loop runs and put back after: no
  handler of a frame touches a reader.\<close>

definition broker_consume_chunk ::
  "pty_limits \<Rightarrow> broker_os \<Rightarrow> u64 \<Rightarrow> usize \<Rightarrow> bytes \<Rightarrow> broker \<Rightarrow> broker" where
  "broker_consume_chunk limits os now idx bs b =
     (case slot_at b idx of
        None \<Rightarrow> b
      | Some s \<Rightarrow>
          (case consume_chunk (\<lambda>b. slot_live b idx) (\<lambda>b. slot_draining b idx)
                  (dispatch_frame limits os now idx) now limits (cc_reader (slot_client s)) b bs of
             (r, b1, Stop_Fault _) \<Rightarrow> remove_conn limits now idx b1
           | (r, b1, _) \<Rightarrow>
               (case slot_at b1 idx of
                  None \<Rightarrow> b1
                | Some s1 \<Rightarrow> put_client idx s1 ((slot_client s1)\<lparr>cc_reader := r\<rparr>) b1)))"

text \<open>The checks before every \<open>recv\<close>; the answer says whether to receive.\<close>

definition readable_gate ::
  "pty_limits \<Rightarrow> broker_os \<Rightarrow> u64 \<Rightarrow> usize \<Rightarrow> usize \<Rightarrow> broker \<Rightarrow> (io_error + bool) \<times> usize \<times> broker" where
  "readable_gate limits os now idx budget b =
     (if bk_shutdown_requested b \<or> bk_internal_cleanup_pending b then (Inr False, budget, b)
      else case slot_at b idx of
        None \<Rightarrow> (Inr False, budget, b)
      | Some s \<Rightarrow>
          if \<not> read_admitted limits s then (Inr False, budget, b)
          else if slot_role s = ConnRole_AwaitingFirstFrame \<and> \<not> has_output_recipients b
          then (case discard_master_until_boundary limits os now budget b of
             (Inl e, budget1, b1) \<Rightarrow> (Inl e, budget1, b1)
           | (Inr Barrier_Deferred, budget1, b1) \<Rightarrow> (Inr False, budget1, b1)
           | (Inr Barrier_Safe, budget1, b1) \<Rightarrow> (Inr (slot_live b1 idx), budget1, b1))
          else (Inr True, budget, b))"

fun readable_loop ::
  "pty_limits \<Rightarrow> broker_os \<Rightarrow> u64 \<Rightarrow> usize \<Rightarrow> (io_error + bytes) list \<Rightarrow> usize \<Rightarrow> broker \<Rightarrow>
   (io_error + unit) \<times> usize \<times> broker" where
  "readable_loop limits os now idx [] budget b =
     (case readable_gate limits os now idx budget b of
        (Inl e, budget1, b1) \<Rightarrow> (Inl e, budget1, b1)
      | (Inr _, budget1, b1) \<Rightarrow> (Inr (), budget1, b1))"
| "readable_loop limits os now idx (answer # answers) budget b =
     (case readable_gate limits os now idx budget b of
        (Inl e, budget1, b1) \<Rightarrow> (Inl e, budget1, b1)
      | (Inr False, budget1, b1) \<Rightarrow> (Inr (), budget1, b1)
      | (Inr True, budget1, b1) \<Rightarrow>
          (case answer of
             Inl e \<Rightarrow>
               (case classify_conn_fault e of
                  ConnectionLocal \<Rightarrow> (Inr (), budget1, remove_conn limits now idx b1)
                | Systemic \<Rightarrow> (Inl e, budget1, b1))
           | Inr bs \<Rightarrow>
               let got = take (read_chunk_bytes limits) bs in
               if got = [] then (Inr (), budget1, remove_conn limits now idx b1)
               else let b2 = broker_consume_chunk limits os now idx got b1 in
                 if slot_live b2 idx then readable_loop limits os now idx answers budget1 b2
                 else (Inr (), budget1, b2)))"

definition handle_readable ::
  "pty_limits \<Rightarrow> broker_os \<Rightarrow> u64 \<Rightarrow> usize \<Rightarrow> usize \<Rightarrow> broker \<Rightarrow> (io_error + unit) \<times> usize \<times> broker" where
  "handle_readable limits os now idx budget b =
     (case slot_at b idx of
        None \<Rightarrow> (Inr (), budget, b)
      | Some s \<Rightarrow>
          (case b_call (\<lambda>t. os_recv os t (slot_conn s)) b of
             (answers, b1) \<Rightarrow> readable_loop limits os now idx answers budget b1))"

definition flush_and_close ::
  "pty_limits \<Rightarrow> broker_os \<Rightarrow> u64 \<Rightarrow> usize \<Rightarrow> poll_flags \<Rightarrow> broker \<Rightarrow> broker" where
  "flush_and_close limits os now idx re b =
     (if \<not> slot_live b idx then b
      else
        let b1 = (if pf_out re \<or> pf_err re \<or> pf_hup re then flush_slot limits os now idx b else b)
        in if slot_live b1 idx \<and> (pf_err re \<or> pf_hup re) then remove_conn limits now idx b1 else b1)"

definition handle_conn_events ::
  "pty_limits \<Rightarrow> broker_os \<Rightarrow> u64 \<Rightarrow> usize \<Rightarrow> poll_flags \<Rightarrow> usize \<Rightarrow> broker \<Rightarrow>
   (io_error + unit) \<times> usize \<times> broker" where
  "handle_conn_events limits os now idx re budget b =
     (if pf_nval re then (Inr (), budget, remove_conn limits now idx b)
      else if pf_in re \<and> \<not> bk_shutdown_requested b \<and> \<not> bk_internal_cleanup_pending b
      then (case handle_readable limits os now idx budget b of
         (Inl e, budget1, b1) \<Rightarrow> (Inl e, budget1, b1)
       | (Inr _, budget1, b1) \<Rightarrow>
           (case drain_writer_input limits os now b1 of
              (Inl e, b2) \<Rightarrow> (Inl e, budget1, b2)
            | (Inr _, b2) \<Rightarrow> (Inr (), budget1, flush_and_close limits os now idx re b2)))
      else (Inr (), budget, flush_and_close limits os now idx re b))"

definition handle_lease_process_event ::
  "pty_limits \<Rightarrow> u64 \<Rightarrow> u64 \<Rightarrow> poll_flags \<Rightarrow> broker \<Rightarrow> unit brk" where
  "handle_lease_process_event limits now lease_id re b =
     (if pf_nval re then (Inl Io_InvalidData, b)
      else if \<not> (pf_in re \<or> pf_err re \<or> pf_hup re) then (Inr (), b)
      else case bk_lease b of
        None \<Rightarrow> (Inr (), b)
      | Some lease \<Rightarrow>
          if lo_lease_id (pl_owner lease) \<noteq> lease_id then (Inr (), b)
          else
            let b1 = b\<lparr>bk_lease := None\<rparr>;
                b2 = (case resolve b1 (Target_Conn (lo_conn (pl_owner lease))) of
                        Some idx \<Rightarrow> remove_conn limits now idx b1 | None \<Rightarrow> b1)
            in (Inr (), b2\<lparr>bk_writer_stall := None\<rparr>))"

end
