(* ===== verification/Pty_Broker_Run.thy ===== *)
theory Pty_Broker_Run
  imports Pty_Broker_Loop
begin

text \<open>
  The broker's outer functions (\<open>crates/everpty/src/broker.rs\<close>): \<open>Broker::new\<close> with its checks,
  start-up, one poll turn \<open>run_once\<close> and the production loop \<open>serve\<close>.
\<close>

section \<open>Construction\<close>

definition broker_limits_ok :: "pty_limits \<Rightarrow> bool" where
  "broker_limits_ok limits \<longleftrightarrow>
     read_chunk_bytes limits \<noteq> 0 \<and> 2 \<le> frame_max_body limits \<and>
     read_chunk_bytes limits \<le> frame_max_body limits - 2 \<and>
     (case checked_add_usize (read_chunk_bytes limits) HEADER_LEN of
        None \<Rightarrow> False
      | Some output_reservation \<Rightarrow> output_reservation \<le> writer_queue_bytes limits) \<and>
     writer_queue_bytes limits \<le> aggregate_queue_bytes limits"

text \<open>A rejected construction retires the session's state; a failure of that is what is returned.\<close>

definition reject_new :: "broker_os \<Rightarrow> pty_error \<Rightarrow> world \<Rightarrow> pty_error + broker" where
  "reject_new os primary w =
     (case sys_call (os_retire_state os) w of
        (Inr _, _) \<Rightarrow> Inl primary
      | (Inl cleanup, _) \<Rightarrow> Inl cleanup)"

definition initial_broker :: "pty_limits \<Rightarrow> runtime \<Rightarrow> u64 \<Rightarrow> bool \<Rightarrow> world \<Rightarrow> broker" where
  "initial_broker limits rt ready_at readiness w =
     \<lparr>bk_runtime = rt, bk_slots = [], bk_next_conn_id = 1, bk_deferred = [], bk_ready_at_ms = ready_at,
      bk_output_reservation = read_chunk_bytes limits + HEADER_LEN,
      bk_master = False, bk_master_terminal_pending = False, bk_lease = None, bk_next_lease_id = 1,
      bk_writer_stall = None, bk_accepted_total = 0, bk_closed_total = 0, bk_readiness = readiness,
      bk_spawn_plan = None, bk_signal_source = False, bk_started = False, bk_child = None,
      bk_observed_outcome = None, bk_final_outcome = None, bk_pty_exit_deadline_ms = None,
      bk_kill_phase = Kill_Idle, bk_internal_cleanup_pending = False, bk_shutdown_requested = False,
      bk_finalized = False, bk_exit = None, bk_first_failure = None, bk_listener = True, bk_world = w\<rparr>"

definition broker_create :: "pty_limits \<Rightarrow> broker_os \<Rightarrow> bytes \<Rightarrow> bool \<Rightarrow> world \<Rightarrow> pty_error + broker" where
  "broker_create limits os name readiness w =
     (if \<not> broker_limits_ok limits then reject_new os err_invalid w
      else case sys_call (os_set_nonblocking os) w of
        (Inl e, w1) \<Rightarrow> reject_new os (Err_Io e) w1
      | (Inr _, w1) \<Rightarrow>
          (case new_ready name limits of
             Inl _ \<Rightarrow> reject_new os err_invalid w1
           | Inr rt \<Rightarrow>
               (case sys_call (os_clock os) w1 of
                  (Inl e, w2) \<Rightarrow> reject_new os (Err_Io e) w2
                | (Inr now, w2) \<Rightarrow> Inr (initial_broker limits rt now readiness w2))))"

definition set_spawn_plan :: "spawn_plan \<Rightarrow> broker \<Rightarrow> (pty_error + unit) \<times> broker" where
  "set_spawn_plan plan b =
     (if bk_started b \<or> bk_child b \<noteq> None \<or> bk_spawn_plan b \<noteq> None then (Inl (Err_Io (Io_Other 0)), b)
      else if sp_meta_name plan \<noteq> session_name (bk_runtime b) \<or> sp_meta_child plan
      then (Inl Err_MetadataInvalid, b)
      else (Inr (), b\<lparr>bk_spawn_plan := Some plan\<rparr>))"

definition retire_unstarted :: "broker_os \<Rightarrow> broker \<Rightarrow> (pty_error + unit) \<times> broker" where
  "retire_unstarted os b =
     (if bk_started b \<or> bk_child b \<noteq> None then (Inl err_invalid, b)
      else case b_call (os_retire_state os) b of
        (Inr _, b1) \<Rightarrow> (Inr (), b1\<lparr>bk_listener := False, bk_finalized := True\<rparr>)
      | (Inl e, b1) \<Rightarrow> (Inl e, b1\<lparr>bk_listener := False\<rparr>))"

definition set_signal_fd :: "broker_os \<Rightarrow> broker \<Rightarrow> unit brk" where
  "set_signal_fd os b =
     (if bk_started b \<or> bk_signal_source b then (Inl (Io_Other 0), b)
      else case b_call (os_set_nonblocking os) b of
        (Inl e, b1) \<Rightarrow> (Inl e, b1)
      | (Inr _, b1) \<Rightarrow> (Inr (), b1\<lparr>bk_signal_source := True\<rparr>))"

section \<open>Start-up\<close>

text \<open>The readiness pipe is consumed by the first record, whatever became of it.\<close>

definition write_ready_status :: "broker_os \<Rightarrow> ready_status \<Rightarrow> broker \<Rightarrow> unit brk" where
  "write_ready_status os status b =
     (if \<not> bk_readiness b then (Inr (), b)
      else b_call (\<lambda>t. os_ready_write os t (ready_encode status)) (b\<lparr>bk_readiness := False\<rparr>))"

definition startup_errno :: "pty_error \<Rightarrow> u32" where
  "startup_errno e =
     (case e of
        Err_Io io \<Rightarrow> (case raw_os_error io of Some n \<Rightarrow> of_nat n | None \<Rightarrow> of_nat EIO)
      | _ \<Rightarrow> of_nat EINVAL)"

definition clock_or_ready :: "broker_os \<Rightarrow> broker \<Rightarrow> u64 \<times> broker" where
  "clock_or_ready os b =
     (case b_call (os_clock os) b of
        (Inr now, b1) \<Rightarrow> (now, b1)
      | (Inl _, b1) \<Rightarrow> (bk_ready_at_ms b1, b1))"

definition fail_startup :: "pty_limits \<Rightarrow> broker_os \<Rightarrow> pty_error \<Rightarrow> broker \<Rightarrow> (pty_error + unit) \<times> broker" where
  "fail_startup limits os e b =
     (case write_ready_status os (Status_Failed (startup_errno e)) b of
        (_, b1) \<Rightarrow>
          (case clock_or_ready os (b1\<lparr>bk_first_failure := Some e\<rparr>) of
             (now, b2) \<Rightarrow>
               (Inl (Err_Io (Io_Other 0)), maybe_finalize os (reduce_apply limits os now SpawnFailed b2))))"

definition start_broker :: "pty_limits \<Rightarrow> broker_os \<Rightarrow> broker \<Rightarrow> (pty_error + unit) \<times> broker" where
  "start_broker limits os b =
     (if bk_started b then (Inr (), b)
      else case b_call (os_ignore_sigpipe os) (b\<lparr>bk_started := True\<rparr>) of
        (Inl e, b1) \<Rightarrow> fail_startup limits os (Err_Io e) b1
      | (Inr _, b1) \<Rightarrow>
          (case (if bk_spawn_plan b1 \<noteq> None \<and> \<not> bk_signal_source b1
                 then (case b_call (os_broker_signals os) b1 of
                         (Inl e, b2) \<Rightarrow> (Inl e, b2)
                       | (Inr _, b2) \<Rightarrow> (Inr (), b2\<lparr>bk_signal_source := True\<rparr>))
                 else (Inr (), b1)) of
             (Inl e, b2) \<Rightarrow> fail_startup limits os (Err_Io e) b2
           | (Inr _, b2) \<Rightarrow>
               (case (if bk_spawn_plan b2 \<noteq> None then b_call (os_store_metadata os) b2 else (Inr (), b2)) of
                  (Inl e, b3) \<Rightarrow> fail_startup limits os e b3
                | (Inr _, b3) \<Rightarrow>
                    (case write_ready_status os Status_Ready b3 of
                       (Inl e, b4) \<Rightarrow> fail_startup limits os (Err_Io e) b4
                     | (Inr _, b4) \<Rightarrow> (Inr (), b4)))))"

section \<open>One poll turn\<close>

record iteration =
  it_accepted :: nat
  it_closed :: nat
  it_connections :: nat

definition lease_poll_flags :: poll_flags where
  "lease_poll_flags = no_flags\<lparr>pf_in := True, pf_err := True, pf_hup := True\<rparr>"

definition client_poll_flags :: "pty_limits \<Rightarrow> broker \<Rightarrow> usize \<Rightarrow> conn_slot \<Rightarrow> poll_flags" where
  "client_poll_flags limits b idx s = no_flags\<lparr>
     pf_in := (\<not> bk_shutdown_requested b \<and> \<not> bk_internal_cleanup_pending b \<and> read_admitted limits s),
     pf_out := (oq_entries (cc_out (slot_client s)) \<noteq> [] \<or> pending_terminal_fits limits b idx \<or>
                lease_grant_pending b idx (slot_conn s))\<rparr>"

definition poll_set :: "pty_limits \<Rightarrow> broker \<Rightarrow> (poll_owner \<times> poll_flags) list" where
  "poll_set limits b =
     (if \<not> bk_shutdown_requested b \<and> \<not> bk_internal_cleanup_pending b \<and> bk_listener b
      then [(Owner_Listener, no_flags\<lparr>pf_in := True\<rparr>)] else [])
     @ (if bk_signal_source b then [(Owner_Signals, no_flags\<lparr>pf_in := True\<rparr>)] else [])
     @ (case master_poll_events b of Some events \<Rightarrow> [(Owner_Master, events)] | None \<Rightarrow> [])
     @ (case bk_lease b of
          Some lease \<Rightarrow> [(Owner_LeaseProcess (lo_lease_id (pl_owner lease)), lease_poll_flags)] | None \<Rightarrow> [])
     @ List.map_filter (\<lambda>(idx, slot). map_option
          (\<lambda>s. (Owner_Client idx (slot_conn s), client_poll_flags limits b idx s)) slot)
         (enumerate 0 (bk_slots b))"

text \<open>The revents of the polled descriptors, those with none dropped.\<close>

definition harvest :: "(poll_owner \<times> poll_flags) list \<Rightarrow> (poll_owner \<Rightarrow> poll_flags) \<Rightarrow> (poll_owner \<times> poll_flags) list" where
  "harvest pfds revents =
     filter (\<lambda>(_, re). re \<noteq> no_flags) (map (\<lambda>(owner, _). (owner, revents owner)) pfds)"

definition begin_turn :: "pty_limits \<Rightarrow> broker_os \<Rightarrow> u64 \<Rightarrow> broker \<Rightarrow> unit brk" where
  "begin_turn limits os now b =
     and_then (advance_lifecycle limits os now (check_deadlines limits os now b)) (\<lambda>_ b1.
       (Inr (), expire_writer_stall limits now (reconcile_writer_stall limits now b1)))"

fun conn_events_loop ::
  "pty_limits \<Rightarrow> broker_os \<Rightarrow> u64 \<Rightarrow> (poll_owner \<times> poll_flags) list \<Rightarrow> usize \<Rightarrow> broker \<Rightarrow> unit brk" where
  "conn_events_loop limits os now [] budget b = (Inr (), b)"
| "conn_events_loop limits os now ((owner, re) # events) budget b =
     (case owner of
        Owner_Client idx conn \<Rightarrow>
          if \<not> slot_identity_live b idx conn then conn_events_loop limits os now events budget b
          else (case handle_conn_events limits os now idx re budget b of
             (Inl e, _, b1) \<Rightarrow> (Inl e, b1)
           | (Inr _, budget1, b1) \<Rightarrow> conn_events_loop limits os now events budget1 b1)
      | _ \<Rightarrow> conn_events_loop limits os now events budget b)"

definition lease_event :: "(poll_owner \<times> poll_flags) list \<Rightarrow> (u64 \<times> poll_flags) option" where
  "lease_event evs =
     (case List.map_filter (\<lambda>(owner, re). case owner of Owner_LeaseProcess i \<Rightarrow> Some (i, re) | _ \<Rightarrow> None) evs of
        [] \<Rightarrow> None | x # _ \<Rightarrow> Some x)"

definition dispatch_ready ::
  "pty_limits \<Rightarrow> broker_os \<Rightarrow> u64 \<Rightarrow> (poll_owner \<times> poll_flags) list \<Rightarrow> broker \<Rightarrow> unit brk" where
  "dispatch_ready limits os now evs b =
     (let budget = max (accepts_per_iteration limits) 1 in
      and_then (case lease_event evs of
                  Some (lease_id, re) \<Rightarrow> handle_lease_process_event limits now lease_id re b
                | None \<Rightarrow> (Inr (), b)) (\<lambda>_ b1.
      and_then (case map_of evs Owner_Signals of
                  Some re \<Rightarrow> handle_signal_events limits os re now b1
                | None \<Rightarrow> (Inr (), b1)) (\<lambda>_ b2.
      case (case map_of evs Owner_Master of
              Some re \<Rightarrow> handle_master_events limits os re now budget b2
            | None \<Rightarrow> (Inr (), budget, b2)) of
        (Inl e, _, b3) \<Rightarrow> (Inl e, b3)
      | (Inr _, budget1, b3) \<Rightarrow>
          and_then (if map_of evs Owner_Listener \<noteq> None \<and> \<not> bk_shutdown_requested b3 \<and> bk_listener b3
                    then handle_accept limits os b3 else (Inr (), b3)) (\<lambda>_ b4.
            conn_events_loop limits os now evs budget1 b4))))"

definition poll_turn :: "pty_limits \<Rightarrow> broker_os \<Rightarrow> u64 \<Rightarrow> u32 option \<Rightarrow> broker \<Rightarrow> unit brk" where
  "poll_turn limits os now max_wait_ms b =
     (case b_call (\<lambda>t. os_poll os t (poll_set limits b) (poll_wait_ms limits now max_wait_ms b)) b of
        (Inl e, b1) \<Rightarrow> (Inl e, b1)
      | (Inr revents, b1) \<Rightarrow>
          (case b_call (os_clock os) b1 of
             (Inl e, b2) \<Rightarrow> (Inl e, b2)
           | (Inr now2, b2) \<Rightarrow>
               and_then (begin_turn limits os now2 b2) (\<lambda>_ b3.
               and_then (dispatch_ready limits os now2 (harvest (poll_set limits b) revents) b3) (\<lambda>_ b4.
               and_then (advance_lifecycle limits os now2 b4) (\<lambda>_ b5.
                 (Inr (), maybe_finalize os (reconcile_writer_stall limits now2 b5)))))))"

definition turn_report :: "broker \<Rightarrow> broker \<Rightarrow> iteration" where
  "turn_report before after =
     \<lparr>it_accepted = bk_accepted_total after - bk_accepted_total before,
      it_closed = bk_closed_total after - bk_closed_total before,
      it_connections = connection_count after\<rparr>"

definition run_started :: "pty_limits \<Rightarrow> broker_os \<Rightarrow> u32 option \<Rightarrow> broker \<Rightarrow> unit brk" where
  "run_started limits os max_wait_ms b =
     (if bk_finalized b then (Inr (), b)
      else case b_call (os_clock os) b of
        (Inl e, b1) \<Rightarrow> (Inl e, b1)
      | (Inr now, b1) \<Rightarrow>
          and_then (begin_turn limits os now b1) (\<lambda>_ b2.
            let b3 = maybe_finalize os b2 in
            if bk_finalized b3 then (Inr (), b3) else poll_turn limits os now max_wait_ms b3))"

definition run_once :: "pty_limits \<Rightarrow> broker_os \<Rightarrow> u32 option \<Rightarrow> broker \<Rightarrow> iteration brk" where
  "run_once limits os max_wait_ms b =
     (case (if bk_started b then (Inr (), b) else start_broker limits os b) of
        (_, b1) \<Rightarrow>
          (case run_started limits os max_wait_ms b1 of
             (Inl e, b2) \<Rightarrow> (Inl e, b2)
           | (Inr _, b2) \<Rightarrow> (Inr (turn_report b b2), b2)))"

section \<open>The production loop\<close>

text \<open>One round of \<open>serve\<close>, and \<open>n\<close> rounds of it; the loop leaves when the broker is finalized.\<close>

definition serve_round :: "pty_limits \<Rightarrow> broker_os \<Rightarrow> broker \<Rightarrow> broker" where
  "serve_round limits os b =
     (if bk_finalized b then b
      else case run_once limits os None b of
        (Inr _, b1) \<Rightarrow> b1
      | (Inl e, b1) \<Rightarrow>
          (case clock_or_ready os b1 of
             (now, b2) \<Rightarrow> request_internal_failure limits (apply_effects limits os now) (Err_Io e) b2))"

fun serve_rounds :: "pty_limits \<Rightarrow> broker_os \<Rightarrow> nat \<Rightarrow> broker \<Rightarrow> broker" where
  "serve_rounds limits os 0 b = b"
| "serve_rounds limits os (Suc n) b = serve_rounds limits os n (serve_round limits os b)"

definition serve :: "pty_limits \<Rightarrow> broker_os \<Rightarrow> nat \<Rightarrow> broker \<Rightarrow> broker" where
  "serve limits os n b = serve_rounds limits os n (snd (start_broker limits os b))"

definition serve_exit :: "broker \<Rightarrow> broker_exit" where
  "serve_exit b =
     (case bk_exit b of
        Some e \<Rightarrow> e
      | None \<Rightarrow> \<lparr>be_cause = InternalError, be_child = bk_final_outcome b,
                  be_suggested_exit_code = 1, be_failure = bk_first_failure b\<rparr>)"

end
