(* ===== verification/Pty_Broker_Steps.thy ===== *)
theory Pty_Broker_Steps
  imports Pty_Broker_Run
begin

text \<open>
  The broker as a state machine: a small relation of primitive changes, in which every operation of
  \<open>Pty_Broker\<close>, \<open>Pty_Broker_Loop\<close> and \<open>Pty_Broker_Run\<close> is shown to move. An invariant of the broker
  then only has to be checked on the primitive changes. A lemma \<open>X_steps\<close> says that doing \<open>X\<close> after any
  sequence of primitive changes is again such a sequence, so they chain by introduction.
\<close>

named_theorems step_intros \<open>operations are sequences of primitive changes\<close>

section \<open>What the changes keep\<close>

text \<open>Limits are \<open>usize\<close> values, the aggregate below the saturation point, and \<open>Broker::new\<close> has checked
  the writer's queue against the aggregate.\<close>

definition typed_limits :: "pty_limits \<Rightarrow> bool" where
  "typed_limits limits \<longleftrightarrow>
     writer_queue_bytes limits < 2 ^ 64 \<and> observer_queue_bytes limits < 2 ^ 64 \<and>
     writer_input_queue_bytes limits < 2 ^ 64 \<and> aggregate_queue_bytes limits < 2 ^ 64 - 1 \<and>
     writer_queue_bytes limits \<le> aggregate_queue_bytes limits"

definition role_cap :: "pty_limits \<Rightarrow> conn_role \<Rightarrow> usize" where
  "role_cap limits role = (case role of ConnRole_Writer _ \<Rightarrow> writer_queue_bytes limits
                           | _ \<Rightarrow> observer_queue_bytes limits)"

definition slot_ok :: "pty_limits \<Rightarrow> conn_slot \<Rightarrow> bool" where
  "slot_ok limits s \<longleftrightarrow>
     out_inv (cc_out (slot_client s)) \<and> input_inv (cc_input (slot_client s)) \<and>
     reader_inv limits (cc_reader (slot_client s)) \<and>
     oq_cap_bytes (cc_out (slot_client s)) = role_cap limits (slot_role s) \<and>
     iq_cap_bytes (cc_input (slot_client s)) = writer_input_queue_bytes limits"

definition total_live :: "broker \<Rightarrow> usize" where
  "total_live b = (\<Sum>s\<in>#stock_of (bk_slots b). slot_live_bytes s)"

text \<open>The connection table: every connection within its bounds, all output together within the
  aggregate bound, ids distinct, below the next id and accounted for.\<close>

definition table_inv :: "pty_limits \<Rightarrow> broker \<Rightarrow> bool" where
  "table_inv limits b \<longleftrightarrow>
     (\<forall>s \<in># stock_of (bk_slots b). slot_ok limits s \<and> slot_conn s < bk_next_conn_id b) \<and>
     once (image_mset slot_conn (stock_of (bk_slots b))) \<and>
     total_live b \<le> aggregate_queue_bytes limits \<and>
     connection_count b \<le> max_connections limits \<and>
     unat (bk_next_conn_id b) = Suc (bk_closed_total b + connection_count b)"

definition slot_le :: "pty_limits \<Rightarrow> conn_slot \<Rightarrow> conn_slot \<Rightarrow> bool" where
  "slot_le limits s s' \<longleftrightarrow>
     slot_conn s' = slot_conn s \<and> slot_live_bytes s' \<le> slot_live_bytes s \<and>
     (cc_draining (slot_client s) \<longrightarrow> cc_draining (slot_client s')) \<and>
     (slot_terminal_pending s = None \<longrightarrow> slot_terminal_pending s' = None) \<and>
     (typed_limits limits \<longrightarrow> slot_ok limits s \<longrightarrow> slot_ok limits s')"

definition is_kill_mark :: "sys_mark \<Rightarrow> bool" where
  "is_kill_mark m = (case m of Mark_Term _ \<Rightarrow> True | Mark_Kill _ \<Rightarrow> True | _ \<Rightarrow> False)"

definition kill_marks :: "world \<Rightarrow> sys_mark list" where
  "kill_marks w = filter is_kill_mark (wd_log w)"

definition same_core :: "broker \<Rightarrow> broker \<Rightarrow> bool" where
  "same_core b b' \<longleftrightarrow>
     bk_slots b' = bk_slots b \<and> bk_next_conn_id b' = bk_next_conn_id b \<and>
     bk_closed_total b' = bk_closed_total b \<and> bk_lease b' = bk_lease b \<and>
     bk_next_lease_id b' = bk_next_lease_id b \<and> bk_kill_phase b' = bk_kill_phase b \<and>
     bk_finalized b' = bk_finalized b \<and> bk_exit b' = bk_exit b \<and>
     kill_marks (bk_world b') = kill_marks (bk_world b) \<and>
     bk_shutdown_requested b' = bk_shutdown_requested b \<and>
     is_terminal_lifecycle b' = is_terminal_lifecycle b \<and>
     (runtime_inv (bk_runtime b) \<longrightarrow> runtime_inv (bk_runtime b'))"

definition lease_rank :: "lease_phase \<Rightarrow> nat" where
  "lease_rank ph = (case ph of Phase_Granting _ _ d \<Rightarrow> if d then 0 else 1
                    | Phase_AwaitingCommit \<Rightarrow> 2 | Phase_Active \<Rightarrow> 3)"

definition lease_forward :: "pty_lease \<Rightarrow> pty_lease \<Rightarrow> bool" where
  "lease_forward l l' \<longleftrightarrow>
     pl_owner l' = pl_owner l \<and> lease_rank (pl_phase l) \<le> lease_rank (pl_phase l') \<and>
     (pl_control_alive l' \<longrightarrow> pl_control_alive l) \<and> (pl_revoke_sent l \<longrightarrow> pl_revoke_sent l')"

lemma live_in_peer_rank: "descriptor_may_be_live_in_peer l \<longleftrightarrow> 0 < lease_rank (pl_phase l)"
  by (auto simp: descriptor_may_be_live_in_peer_def lease_rank_def split: lease_phase.splits)

section \<open>The primitive changes\<close>

text \<open>\<open>perm\<close> says which of the larger changes may happen: granting a PTY lease, ending one whose
  descriptor may be live in the peer, reducing an event (with the shutdown it may order), and
  accepting a connection.\<close>

datatype step_perm = May_Grant | May_End | May_React | May_Insert

inductive bstep :: "pty_limits \<Rightarrow> step_perm set \<Rightarrow> broker \<Rightarrow> broker \<Rightarrow> bool" for limits perm where
  step_core: "same_core b b' \<Longrightarrow> bstep limits perm b b'"
| step_touch: "slot_at b idx = Some s \<Longrightarrow> slot_le limits s s' \<Longrightarrow>
    bstep limits perm b (put_slot idx (Some s') b)"
| step_push: "slot_at b idx = Some s \<Longrightarrow> push_shared (cc_out (slot_client s)) chunk = (q, True) \<Longrightarrow>
    (typed_limits limits \<Longrightarrow> table_inv limits b \<Longrightarrow> total_live b + length chunk \<le> aggregate_queue_bytes limits) \<Longrightarrow>
    bstep limits perm b (put_client idx s ((slot_client s)\<lparr>cc_out := q\<rparr>) b)"
| step_pend: "slot_at b idx = Some s \<Longrightarrow> is_terminal_lifecycle b \<Longrightarrow>
    bstep limits perm b (put_slot idx (Some (s\<lparr>slot_terminal_pending := f\<rparr>)) b)"
| step_runtime: "May_React \<in> perm \<Longrightarrow>
    (runtime_inv (bk_runtime b) \<Longrightarrow> runtime_inv rt \<and>
       (final_lifecycle (lifecycle (rt_state (bk_runtime b))) \<longrightarrow> final_lifecycle (lifecycle (rt_state rt)))) \<Longrightarrow>
    bstep limits perm b (b\<lparr>bk_runtime := rt\<rparr>)"
| step_shutdown: "May_React \<in> perm \<Longrightarrow> bstep limits perm b (b\<lparr>bk_shutdown_requested := True\<rparr>)"
| step_remove: "slot_at b idx = Some s \<Longrightarrow>
    bstep limits perm b ((put_slot idx None b)\<lparr>bk_closed_total := bk_closed_total b + 1\<rparr>)"
| step_insert: "May_Insert \<in> perm \<Longrightarrow> connection_count b < max_connections limits \<Longrightarrow> bk_next_conn_id b \<noteq> - 1 \<Longrightarrow>
    bstep limits perm b (insert_conn limits (bk_next_conn_id b) (b\<lparr>bk_next_conn_id := bk_next_conn_id b + 1\<rparr>))"
| step_lease_id: "bk_next_lease_id b \<noteq> 0 \<Longrightarrow> bk_next_lease_id b \<noteq> - 1 \<Longrightarrow>
    bstep limits perm b (b\<lparr>bk_next_lease_id := bk_next_lease_id b + 1\<rparr>)"
| step_grant: "May_Grant \<in> perm \<Longrightarrow> bk_lease b = None \<Longrightarrow> lo_lease_id (pl_owner l) + 1 = bk_next_lease_id b \<Longrightarrow>
    lo_lease_id (pl_owner l) \<noteq> 0 \<Longrightarrow>
    lease_rank (pl_phase l) = 0 \<Longrightarrow> bstep limits perm b (b\<lparr>bk_lease := Some l\<rparr>)"
| step_forward: "bk_lease b = Some l \<Longrightarrow> lease_forward l l' \<Longrightarrow>
    bstep limits perm b (b\<lparr>bk_lease := Some l'\<rparr>)"
| step_lease_end: "bk_lease b = Some l \<Longrightarrow> May_End \<in> perm \<or> \<not> descriptor_may_be_live_in_peer l \<Longrightarrow>
    bstep limits perm b (b\<lparr>bk_lease := None\<rparr>)"
| step_term: "bk_kill_phase b = Kill_Idle \<Longrightarrow> kill_marks w = kill_marks (bk_world b) @ [Mark_Term now] \<Longrightarrow>
    bstep limits perm b (b\<lparr>bk_world := w, bk_pty_exit_deadline_ms := d,
       bk_kill_phase := Kill_TermSent (saturating_add_ms now (kill_grace_ms limits))\<rparr>)"
| step_kill: "bk_kill_phase b = Kill_TermSent d \<Longrightarrow> d \<le> now \<Longrightarrow>
    kill_marks w = kill_marks (bk_world b) @ [Mark_Kill now] \<Longrightarrow>
    bstep limits perm b (b\<lparr>bk_world := w, bk_kill_phase := Kill_KillSent\<rparr>)"
| step_kill_final: "bk_kill_phase b = Kill_KillSent \<Longrightarrow>
    bstep limits perm b (b\<lparr>bk_kill_phase := Kill_Finalized\<rparr>)"
| step_finalize: "\<not> bk_finalized b \<Longrightarrow> bk_shutdown_requested b \<Longrightarrow> connection_count b = 0 \<Longrightarrow>
    bk_child b = None \<Longrightarrow> bstep limits perm b (b\<lparr>bk_exit := Some e, bk_finalized := True\<rparr>)"

abbreviation bsteps :: "pty_limits \<Rightarrow> step_perm set \<Rightarrow> broker \<Rightarrow> broker \<Rightarrow> bool" where
  "bsteps limits perm \<equiv> (bstep limits perm)\<^sup>*\<^sup>*"

lemmas bsteps_then = rtranclp.rtrancl_into_rtrancl [of "bstep limits perm" for limits perm]

lemma core_then: "bsteps limits perm a b \<Longrightarrow> same_core b b' \<Longrightarrow> bsteps limits perm a b'"
  by (rule bsteps_then) (auto intro: step_core)

lemma core_update_intros [step_intros]:
  "bsteps limits perm a b \<Longrightarrow> bsteps limits perm a (b\<lparr>bk_deferred := x1\<rparr>)"
  "bsteps limits perm a b \<Longrightarrow> bsteps limits perm a (b\<lparr>bk_master := x3\<rparr>)"
  "bsteps limits perm a b \<Longrightarrow> bsteps limits perm a (b\<lparr>bk_master_terminal_pending := x4\<rparr>)"
  "bsteps limits perm a b \<Longrightarrow> bsteps limits perm a (b\<lparr>bk_writer_stall := x5\<rparr>)"
  "bsteps limits perm a b \<Longrightarrow> bsteps limits perm a (b\<lparr>bk_accepted_total := x6\<rparr>)"
  "bsteps limits perm a b \<Longrightarrow> bsteps limits perm a (b\<lparr>bk_readiness := x7\<rparr>)"
  "bsteps limits perm a b \<Longrightarrow> bsteps limits perm a (b\<lparr>bk_spawn_plan := x8\<rparr>)"
  "bsteps limits perm a b \<Longrightarrow> bsteps limits perm a (b\<lparr>bk_signal_source := x9\<rparr>)"
  "bsteps limits perm a b \<Longrightarrow> bsteps limits perm a (b\<lparr>bk_started := x10\<rparr>)"
  "bsteps limits perm a b \<Longrightarrow> bsteps limits perm a (b\<lparr>bk_child := x11\<rparr>)"
  "bsteps limits perm a b \<Longrightarrow> bsteps limits perm a (b\<lparr>bk_observed_outcome := x12\<rparr>)"
  "bsteps limits perm a b \<Longrightarrow> bsteps limits perm a (b\<lparr>bk_final_outcome := x13\<rparr>)"
  "bsteps limits perm a b \<Longrightarrow> bsteps limits perm a (b\<lparr>bk_pty_exit_deadline_ms := x14\<rparr>)"
  "bsteps limits perm a b \<Longrightarrow> bsteps limits perm a (b\<lparr>bk_internal_cleanup_pending := x15\<rparr>)"
  "bsteps limits perm a b \<Longrightarrow> bsteps limits perm a (b\<lparr>bk_first_failure := x16\<rparr>)"
  "bsteps limits perm a b \<Longrightarrow> bsteps limits perm a (b\<lparr>bk_listener := x17\<rparr>)"
  by (erule core_then, simp add: same_core_def is_terminal_lifecycle_def)+

lemma world_update [step_intros]:
  "bsteps limits perm a b \<Longrightarrow> kill_marks w = kill_marks (bk_world b) \<Longrightarrow>
   bsteps limits perm a (b\<lparr>bk_world := w\<rparr>)"
  by (erule core_then) (simp add: same_core_def is_terminal_lifecycle_def)

lemma shutdown_update [step_intros]:
  "May_React \<in> perm \<Longrightarrow> bsteps limits perm a b \<Longrightarrow> bsteps limits perm a (b\<lparr>bk_shutdown_requested := True\<rparr>)"
  by (blast intro: bsteps_then step_shutdown)

lemma runtime_keep:
  "bsteps limits perm a b \<Longrightarrow> (runtime_inv (bk_runtime b) \<Longrightarrow> runtime_inv rt) \<Longrightarrow>
   lifecycle (rt_state rt) = lifecycle (rt_state (bk_runtime b)) \<Longrightarrow>
   bsteps limits perm a (b\<lparr>bk_runtime := rt\<rparr>)"
  by (erule core_then) (simp add: same_core_def is_terminal_lifecycle_def)

text \<open>\<open>step_terminal_frozen\<close> for one event: a final life cycle stays.\<close>

lemma reduce_final:
  assumes "runtime_inv rt" "final_lifecycle (lifecycle (rt_state rt))"
  shows "lifecycle (rt_state (fst (reduce limits rt ev))) = lifecycle (rt_state rt)"
proof -
  obtain c where "terminal (rt_state rt) = Some c"
    using assms by (auto simp: runtime_inv_def lifecycle_inv_def final_lifecycle_def)
  from step_terminal_frozen [OF reduce_step [OF assms(1)] assms(1) this] show ?thesis by simp
qed

lemma runtime_reduce:
  assumes "May_React \<in> perm" "bsteps limits perm a b" "reduce limits (bk_runtime b) ev = (rt, fx)"
  shows "bsteps limits perm a (b\<lparr>bk_runtime := rt\<rparr>)"
proof (rule bsteps_then [OF assms(2) step_runtime [OF assms(1)]])
  assume i: "runtime_inv (bk_runtime b)"
  from reduce_inv [OF i, of limits ev] reduce_final [OF i, of limits ev] assms(3)
  show "runtime_inv rt \<and> (final_lifecycle (lifecycle (rt_state (bk_runtime b))) \<longrightarrow>
      final_lifecycle (lifecycle (rt_state rt)))"
    by simp
qed

lemma touch_update:
  "bsteps limits perm a b \<Longrightarrow> slot_at b idx = Some s \<Longrightarrow> slot_le limits s s' \<Longrightarrow>
   bsteps limits perm a (put_slot idx (Some s') b)"
  by (rule bsteps_then) (auto intro: step_touch)

lemma put_client_update:
  "bsteps limits perm a b \<Longrightarrow> slot_at b idx = Some s \<Longrightarrow>
   slot_le limits s (s\<lparr>slot_client := c\<rparr>) \<Longrightarrow> bsteps limits perm a (put_client idx s c b)"
  by (simp add: put_client_def touch_update)

lemma forward_update:
  "bsteps limits perm a b \<Longrightarrow> bk_lease b = Some l \<Longrightarrow> lease_forward l l' \<Longrightarrow>
   bsteps limits perm a (b\<lparr>bk_lease := Some l'\<rparr>)"
  by (rule bsteps_then) (auto intro: step_forward)

lemma fold_steps:
  "(\<And>x b. bsteps limits perm a b \<Longrightarrow> bsteps limits perm a (f x b)) \<Longrightarrow>
   bsteps limits perm a b \<Longrightarrow> bsteps limits perm a (fold f xs b)"
  by (induction xs arbitrary: b) auto

section \<open>The queues\<close>

lemma flush_entries_logged:
  "flush_entries w es live st = (es', live', st', r) \<Longrightarrow>
   \<exists>log'. flush_entries (logged w) es live (st, log) = (es', live', (st', log'), r)"
proof (induction es arbitrary: live st log)
  case (Cons e es)
  obtain c off where e: "e = (c, off)" by force
  obtain st1 r1 where w: "w st (drop off c) = (st1, r1)" by force
  show ?case
  proof (cases "\<exists>n. r1 = Inr n \<and> n \<noteq> 0 \<and> n \<le> length c - off \<and> off + n = length c")
    case True
    then obtain n where n: "r1 = Inr n" "n \<noteq> 0" "n \<le> length c - off" "off + n = length c" by blast
    then have "flush_entries w es (live - n) st1 = (es', live', st', r)"
      using Cons.prems e w by simp
    from Cons.IH [OF this] n show ?thesis by (simp add: e w logged_def)
  next
    case False
    with Cons.prems show ?thesis
      by (cases r1) (auto simp: e w logged_def Let_def split: if_splits)
  qed
qed simp

lemma flush_with_keeps:
  assumes "flush_with w q st = (q', st', r)" "out_inv q"
  shows "out_inv q' \<and> oq_live_bytes q' \<le> oq_live_bytes q \<and> oq_cap_bytes q' = oq_cap_bytes q"
proof -
  obtain es live where f: "flush_entries w (oq_entries q) (oq_live_bytes q) st = (es, live, st', r)"
    and q': "q' = q\<lparr>oq_entries := es, oq_live_bytes := live\<rparr>"
    using assms(1) by (auto simp: flush_with_def split: prod.splits)
  from flush_entries_logged [OF f, of "[]"] obtain log' where
    "flush_entries (logged w) (oq_entries q) (oq_live_bytes q) (st, []) = (es, live, (st', log'), r)" by blast
  from flush_entries_law [OF this] assms(2) q' show ?thesis
    by (auto simp: out_inv_def out_content_def)
qed

lemma flush_entries_live_le:
  "flush_entries w es live st = (es', live', st', r) \<Longrightarrow> live' \<le> live"
proof (induction es arbitrary: live st)
  case (Cons e es)
  obtain c off where e: "e = (c, off)" by force
  obtain st1 r1 where w: "w st (drop off c) = (st1, r1)" by force
  show ?case
  proof (cases "\<exists>n. r1 = Inr n \<and> n \<noteq> 0 \<and> n \<le> length c - off \<and> off + n = length c")
    case True
    then obtain n where n: "r1 = Inr n" "n \<noteq> 0" "n \<le> length c - off" "off + n = length c" by blast
    then have "flush_entries w es (live - n) st1 = (es', live', st', r)"
      using Cons.prems e w by simp
    from Cons.IH [OF this] show ?thesis by simp
  next
    case False
    with Cons.prems show ?thesis
      by (cases r1) (auto simp: e w Let_def split: if_splits)
  qed
qed simp

lemma flush_with_live_le: "flush_with w q st = (q', st', r) \<Longrightarrow> oq_live_bytes q' \<le> oq_live_bytes q"
  by (auto simp: flush_with_def dest: flush_entries_live_le split: prod.splits)

lemma flush_entries_state:
  assumes "\<And>st bs. P st \<Longrightarrow> P (fst (w st bs))"
  shows "flush_entries w es live st = (es', live', st', r) \<Longrightarrow> P st \<Longrightarrow> P st'"
proof (induction es arbitrary: live st)
  case (Cons e es)
  obtain c off where e: "e = (c, off)" by force
  obtain st1 r1 where w: "w st (drop off c) = (st1, r1)" by force
  have P1: "P st1" using assms [OF Cons.prems(2), of "drop off c"] w by simp
  show ?case
  proof (cases "\<exists>n. r1 = Inr n \<and> n \<noteq> 0 \<and> n \<le> length c - off \<and> off + n = length c")
    case True
    then obtain n where n: "r1 = Inr n" "n \<noteq> 0" "n \<le> length c - off" "off + n = length c" by blast
    then have "flush_entries w es (live - n) st1 = (es', live', st', r)"
      using Cons.prems e w by simp
    from Cons.IH [OF this P1] show ?thesis .
  next
    case False
    with Cons.prems P1 show ?thesis
      by (cases r1) (auto simp: e w Let_def split: if_splits)
  qed
qed simp

lemma flush_with_state:
  "(\<And>st bs. P st \<Longrightarrow> P (fst (w st bs))) \<Longrightarrow> flush_with w q st = (q', st', r) \<Longrightarrow> P st \<Longrightarrow> P st'"
  using flush_entries_state [of P w] by (auto simp: flush_with_def split: prod.splits)

lemma drain_with_keeps:
  assumes "drain_with w q st = (q', st', r)" "input_inv q"
  shows "input_inv q' \<and> iq_cap_bytes q' = iq_cap_bytes q"
proof -
  from drain_with_abs [OF assms(2,1)] have f: "flush_with w (input_abs q) st = (input_abs q', st', r)"
    and c: "iq_chunks q' = [] \<longrightarrow> iq_front_off q' = 0" "iq_cap_bytes q' = iq_cap_bytes q" by auto
  from flush_with_keeps [OF f] assms(2) c show ?thesis by (auto simp: input_inv_def)
qed

lemma drain_chunks_state:
  assumes "\<And>st bs. P st \<Longrightarrow> P (fst (w st bs))"
  shows "drain_chunks w cs off live st = (cs', off', live', st', r) \<Longrightarrow> P st \<Longrightarrow> P st'"
proof (induction cs arbitrary: off live st)
  case (Cons c cs)
  obtain st1 r1 where w: "w st (drop off c) = (st1, r1)" by force
  have P1: "P st1" using assms [OF Cons.prems(2), of "drop off c"] w by simp
  show ?case
  proof (cases "\<exists>n. r1 = Inr n \<and> n \<noteq> 0 \<and> n \<le> length c - off \<and> off + n = length c")
    case True
    then obtain n where n: "r1 = Inr n" "n \<noteq> 0" "n \<le> length c - off" "off + n = length c" by blast
    then have "drain_chunks w cs 0 (live - n) st1 = (cs', off', live', st', r)"
      using Cons.prems w by simp
    from Cons.IH [OF this P1] show ?thesis .
  next
    case False
    with Cons.prems P1 show ?thesis
      by (cases r1) (auto simp: w Let_def split: if_splits)
  qed
qed simp

lemma drain_with_state:
  "(\<And>st bs. P st \<Longrightarrow> P (fst (w st bs))) \<Longrightarrow> drain_with w q st = (q', st', r) \<Longrightarrow> P st \<Longrightarrow> P st'"
  using drain_chunks_state [of P w] by (auto simp: drain_with_def split: prod.splits)

lemma kill_marks_simps [simp]:
  "kill_marks (w\<lparr>wd_tick := t\<rparr>) = kill_marks w"
  "kill_marks (mark m w) = kill_marks w @ (if is_kill_mark m then [m] else [])"
  by (simp_all add: kill_marks_def mark_def)

lemma is_kill_mark_simps [simp]:
  "is_kill_mark (Mark_Term t)" "is_kill_mark (Mark_Kill t)" "\<not> is_kill_mark (Mark_Reaped p)"
  "\<not> is_kill_mark (Mark_Group_Signal p n)" "\<not> is_kill_mark (Mark_Input bs)" "\<not> is_kill_mark (Mark_Discard bs)"
  by (simp_all add: is_kill_mark_def)

lemma sys_call_marks [simp]: "kill_marks (snd (sys_call f w)) = kill_marks w"
  by (simp add: sys_call_def)

lemma sys_call_marks_eq: "sys_call f w = (x, w') \<Longrightarrow> kill_marks w' = kill_marks w"
  by (auto simp: sys_call_def)

lemma slot_le_simps [intro]:
  "slot_le limits s s"
  by (simp_all add: slot_le_def slot_ok_def slot_live_bytes_def slot_role_def)

lemma slot_at_put: "slot_at b idx = Some s \<Longrightarrow> slot_at (put_slot idx x b) idx = x"
  by (auto simp: slot_at_def put_slot_def split: if_splits)

lemma slot_at_put_client:
  "slot_at b idx = Some s \<Longrightarrow> slot_at (put_client idx s c b) idx = Some (s\<lparr>slot_client := c\<rparr>)"
  by (simp add: put_client_def slot_at_put)


section \<open>Every operation is a sequence of primitive changes\<close>

lemma reconcile_steps [step_intros]:
  "bsteps limits perm a b \<Longrightarrow> bsteps limits perm a (reconcile_writer_stall limits now b)"
  by (auto simp: reconcile_writer_stall_def Let_def intro: step_intros split: option.splits)

lemma release_lease_steps [step_intros]:
  assumes "bsteps limits perm a b"
  shows "bsteps limits perm a (release_lease_of idx b)"
proof (cases "bk_lease b")
  case None
  with assms show ?thesis by (simp add: release_lease_of_def)
next
  case (Some l)
  have "bsteps limits perm a (b\<lparr>bk_lease := None\<rparr>)" if "\<not> descriptor_may_be_live_in_peer l"
    using bsteps_then [OF assms step_lease_end [OF Some]] that by simp
  moreover have "bsteps limits perm a (b\<lparr>bk_lease := Some (l\<lparr>pl_control_alive := False\<rparr>)\<rparr>)"
    using assms Some by (rule forward_update) (simp add: lease_forward_def)
  ultimately show ?thesis
    using assms Some by (simp add: release_lease_of_def)
qed

lemma disconnected_inv: "runtime_inv rt \<Longrightarrow> runtime_inv (fst (reduce limits rt (Disconnected conn role)))"
  by (rule reduce_inv)

lemma leave_observers_inv: "runtime_inv rt \<Longrightarrow> runtime_inv (leave_observers role rt)"
  by (auto simp: runtime_inv_def leave_observers_def leave_def split: conn_role.splits
      intro: le_trans [OF length_filter_le])

lemma remove_conn_steps [step_intros]:
  assumes "bsteps limits perm a b"
  shows "bsteps limits perm a (remove_conn limits now idx b)"
proof -
  let ?b1 = "release_lease_of idx b"
  have b1: "bsteps limits perm a ?b1" using assms by (intro step_intros)
  show ?thesis
  proof (cases "slot_at ?b1 idx")
    case None
    with b1 show ?thesis by (simp add: remove_conn_def Let_def)
  next
    case (Some s)
    let ?b2 = "(put_slot idx None ?b1)\<lparr>bk_closed_total := bk_closed_total ?b1 + 1\<rparr>"
    have b2: "bsteps limits perm a ?b2" using b1 step_remove [OF Some] by (rule bsteps_then)
    let ?rt = "fst (reduce limits (leave_observers (slot_role s) (bk_runtime ?b1))
        (Disconnected (slot_conn s) (slot_role s)))"
    have "bsteps limits perm a (?b2\<lparr>bk_runtime := ?rt\<rparr>)"
    proof (rule runtime_keep [OF b2])
      show "lifecycle (rt_state ?rt) = lifecycle (rt_state (bk_runtime ?b2))"
        by (simp add: leave_observers_def put_slot_def split: conn_role.splits)
    next
      assume "runtime_inv (bk_runtime ?b2)"
      then have "runtime_inv (bk_runtime ?b1)" by (simp add: put_slot_def)
      then show "runtime_inv ?rt" by (intro disconnected_inv leave_observers_inv)
    qed
    then have "bsteps limits perm a (reconcile_writer_stall limits now (?b2\<lparr>bk_runtime := ?rt\<rparr>))"
      by (rule reconcile_steps)
    with Some show ?thesis by (simp add: remove_conn_def Let_def)
  qed
qed

lemma slot_le_out:
  "(out_inv (cc_out (slot_client s)) \<Longrightarrow> out_inv q) \<Longrightarrow> oq_live_bytes q \<le> slot_live_bytes s \<Longrightarrow>
   oq_cap_bytes q = oq_cap_bytes (cc_out (slot_client s)) \<Longrightarrow>
   slot_le limits s (s\<lparr>slot_client := (slot_client s)\<lparr>cc_out := q\<rparr>\<rparr>)"
  by (simp add: slot_le_def slot_ok_def slot_live_bytes_def slot_role_def)

lemma send_marks: "P (kill_marks w) \<Longrightarrow> P (kill_marks (fst (prod.swap (sys_call f w))))"
  by simp

lemma flush_out_steps:
  assumes "bsteps limits perm a b"
  shows "bsteps limits perm a (snd (flush_out_once os idx b))"
proof (cases "slot_at b idx")
  case None
  with assms show ?thesis by (simp add: flush_out_once_def)
next
  case (Some s)
  obtain q w r where f: "flush_with (\<lambda>w bs. prod.swap (sys_call (\<lambda>t. os_send os t (slot_conn s) bs) w))
      (cc_out (slot_client s)) (bk_world b) = (q, w, r)" by (metis prod_cases3)
  let ?b1 = "put_client idx s ((slot_client s)\<lparr>cc_out := q\<rparr>) b"
  have m: "kill_marks w = kill_marks (bk_world b)"
    by (rule flush_with_state [OF _ f, where P = "\<lambda>w. kill_marks w = kill_marks (bk_world b)"])
      (simp_all add: prod.swap_def)
  have b1: "bsteps limits perm a ?b1"
  proof (rule put_client_update [OF assms Some slot_le_out])
    show "oq_live_bytes q \<le> slot_live_bytes s"
      using flush_with_live_le [OF f] by (simp add: slot_live_bytes_def)
    show "oq_cap_bytes q = oq_cap_bytes (cc_out (slot_client s))"
      using f by (auto simp: flush_with_def split: prod.splits)
  qed (use flush_with_keeps [OF f] in simp)
  have "bsteps limits perm a (?b1\<lparr>bk_world := w\<rparr>)"
    by (rule world_update [OF b1]) (simp add: m put_client_def put_slot_def)
  with Some f show ?thesis by (simp add: flush_out_once_def)
qed

lemma flush_out_steps_eq:
  "flush_out_once os idx b = (r, b') \<Longrightarrow> bsteps limits perm a b \<Longrightarrow> bsteps limits perm a b'"
  using flush_out_steps [of limits perm a b os idx] by simp


subsection \<open>Pushing output\<close>

lemma sum_list_flatten:
  "sum_list (map f (List.map_filter id xs)) = (\<Sum>y\<in>#stock_of xs. f y)"
  by (induction xs) (auto simp: stock_of_Cons List.map_filter_simps split: option.splits)

lemma aggregate_total: "aggregate_output_live_bytes b = min (total_live b) (2 ^ 64 - 1)"
  using sum_list_flatten [of slot_live_bytes "bk_slots b"]
  by (simp add: aggregate_output_live_bytes_def aggregate_live_bytes_spec total_live_def comp_def
      slot_live_bytes_def [abs_def])

lemma add_fits_total:
  assumes "aggregate_add_fits limits b len" "typed_limits limits" "table_inv limits b"
  shows "total_live b + len \<le> aggregate_queue_bytes limits"
proof -
  have "total_live b < 2 ^ 64" using assms(2,3) by (simp add: typed_limits_def table_inv_def)
  then show ?thesis
    using assms(1) by (auto simp: aggregate_add_fits_def add_fits_def aggregate_total checked_add_usize_def
        split: option.splits if_splits)
qed

lemma push_shared_False: "push_shared q chunk = (q', False) \<Longrightarrow> q' = q"
  by (auto simp: push_shared_def split: option.splits if_splits)

text \<open>A push that is admitted by the aggregate, or that fails, is a sequence of changes.\<close>

lemma push_out_steps:
  assumes "bsteps limits perm a b" "slot_at b idx = Some s" "push_out idx s chunk b = (ok, b')"
    and "ok \<Longrightarrow> typed_limits limits \<Longrightarrow> table_inv limits b \<Longrightarrow>
      total_live b + length chunk \<le> aggregate_queue_bytes limits"
  shows "bsteps limits perm a b'"
proof -
  obtain q where p: "push_shared (cc_out (slot_client s)) chunk = (q, ok)"
    and b': "b' = put_client idx s ((slot_client s)\<lparr>cc_out := q\<rparr>) b"
    using assms(3) by (auto simp: push_out_def split: prod.splits)
  show ?thesis
  proof (cases ok)
    case True
    have "bstep limits perm b b'"
      unfolding b' by (rule step_push [OF assms(2)]) (use p True assms(4) in simp_all)
    with assms(1) show ?thesis by (rule bsteps_then)
  next
    case False
    then have "q = cc_out (slot_client s)" using p push_shared_False by simp
    then show ?thesis
      unfolding b' by (intro put_client_update [OF assms(1,2)]) (simp add: slot_le_def slot_ok_def slot_live_bytes_def slot_role_def)
  qed
qed

lemma terminal_len: "terminal_encoded_len f = Some n \<Longrightarrow> length (encode_frame f) = n"
  by (cases f) (auto simp: terminal_encoded_len_def length_encode_frame HEADER_LEN_def checked_add_usize_def
      split: if_splits)

lemma push_out_slot:
  "push_out idx s chunk b = (ok, b') \<Longrightarrow> slot_at b idx = Some s \<Longrightarrow>
   \<exists>c. slot_at b' idx = Some (s\<lparr>slot_client := c\<rparr>)"
  by (auto simp: push_out_def slot_at_put_client split: prod.splits)

lemma try_queue_terminal_steps:
  assumes "try_queue_terminal limits idx b = (r, b')" "bsteps limits perm a b"
  shows "bsteps limits perm a b'"
proof (cases "pending_terminal_fits limits b idx")
  case False
  with assms show ?thesis by (simp add: try_queue_terminal_def)
next
  case True
  then obtain s f len where s: "slot_at b idx = Some s" "slot_terminal_pending s = Some f"
    and len: "terminal_encoded_len f = Some len" "aggregate_add_fits limits b len"
    by (auto simp: pending_terminal_fits_def split: option.splits simp: bind_eq_Some_conv)
  obtain ok b1 where p: "push_out idx s (encode_frame f) b = (ok, b1)" by force
  from push_out_slot [OF p s(1)] obtain c where c: "slot_at b1 idx = Some (s\<lparr>slot_client := c\<rparr>)" by blast
  have b1: "bsteps limits perm a b1"
    by (rule push_out_steps [OF assms(2) s(1) p])
      (use len in \<open>simp add: terminal_len add_fits_total\<close>)
  then have "bsteps limits perm a
      (put_slot idx (Some (s\<lparr>slot_client := c, slot_terminal_pending := None\<rparr>)) b1)"
    using touch_update [OF b1 c, of "s\<lparr>slot_client := c, slot_terminal_pending := None\<rparr>"]
    by (simp add: slot_le_def slot_ok_def slot_live_bytes_def slot_role_def)
  with assms(1) b1 True s p c show ?thesis
    by (cases ok) (auto simp: try_queue_terminal_def)
qed

lemma flush_lease_grant_steps:
  assumes "flush_lease_grant os idx b = (r, b')" "bsteps limits perm a b"
  shows "bsteps limits perm a b'"
proof (cases "\<exists>s l wire off d. slot_at b idx = Some s \<and> bk_lease b = Some l \<and> pl_phase l = Phase_Granting wire off d \<and>
    oq_entries (cc_out (slot_client s)) = [] \<and> lease_belongs_to l idx b")
  case False
  then have "b' = b" using assms(1)
    by (auto simp: flush_lease_grant_def split: option.splits if_splits lease_phase.splits)
  with assms(2) show ?thesis by simp
next
  case True
  then obtain s l wire off d where s: "slot_at b idx = Some s" and l: "bk_lease b = Some l"
    and ph: "pl_phase l = Phase_Granting wire off d"
    and e: "oq_entries (cc_out (slot_client s)) = []" "lease_belongs_to l idx b" by blast
  obtain x w where c: "sys_call (\<lambda>t. (if d then os_send_fd os else os_send os) t (slot_conn s) (drop off wire))
      (bk_world b) = (x, w)" by force
  let ?b1 = "b\<lparr>bk_world := w\<rparr>"
  have b1: "bsteps limits perm a ?b1" using assms(2) sys_call_marks_eq [OF c] by (rule world_update)
  have fwd: "bsteps limits perm a (?b1\<lparr>bk_lease := Some (l\<lparr>pl_phase := ph'\<rparr>)\<rparr>)"
    if "lease_rank (pl_phase l) \<le> lease_rank ph'" for ph'
    using forward_update [OF b1, of l "l\<lparr>pl_phase := ph'\<rparr>"] l that by (simp add: lease_forward_def)
  have "b' = ?b1 \<or> (\<exists>ph'. b' = ?b1\<lparr>bk_lease := Some (l\<lparr>pl_phase := ph'\<rparr>)\<rparr> \<and>
      (ph' = Phase_AwaitingCommit \<or> (\<exists>o'. ph' = Phase_Granting wire o' False)))"
    using assms(1) s l ph e c
    by (auto simp: flush_lease_grant_def Let_def split: sum.splits if_splits option.splits)
  then show ?thesis
    using b1 fwd ph by (auto simp: lease_rank_def)
qed

lemma flush_terminal_steps:
  assumes "flush_terminal limits os now idx retry b = (r, b')" "bsteps limits perm a b"
  shows "bsteps limits perm a b'"
proof -
  obtain queued b1 where t: "try_queue_terminal limits idx b = (queued, b1)" by force
  obtain res b2 where f: "flush_out_once os idx b1 = (res, b2)" by force
  note b1 = try_queue_terminal_steps [OF t assms(2)]
  note b2 = flush_out_steps_eq [OF f b1]
  show ?thesis
    using assms(1) t f b1 b2 by (auto simp: flush_terminal_def split: if_splits intro: step_intros)
qed

lemma flush_grant_steps:
  assumes "flush_grant limits os now idx retry b = (r, b')" "bsteps limits perm a b"
  shows "bsteps limits perm a b'"
proof -
  obtain res b1 where f: "flush_lease_grant os idx b = (res, b1)" by force
  note b1 = flush_lease_grant_steps [OF f assms(2)]
  show ?thesis
    using assms f b1 by (auto simp: flush_grant_def Let_def split: if_splits intro: step_intros)
qed

lemma flush_slot_steps [step_intros]:
  assumes "bsteps limits perm a b"
  shows "bsteps limits perm a (flush_slot limits os now idx b)"
proof -
  obtain first b1 where f: "flush_out_once os idx b = (first, b1)" by force
  let ?b2 = "reconcile_writer_stall limits now b1"
  have b2: "bsteps limits perm a ?b2" using flush_out_steps_eq [OF f assms] by (intro step_intros)
  obtain r3 b3 where t: "flush_terminal limits os now idx (first = Inr True) ?b2 = (r3, b3)" by force
  note b3 = flush_terminal_steps [OF t b2]
  obtain r4 b4 where g: "flush_grant limits os now idx (first = Inr True) b3 = (r4, b4)" by force
  note b4 = flush_grant_steps [OF g b3]
  show ?thesis
    using f t g b2 b3 b4 by (auto simp: flush_slot_def Let_def split: bool.splits intro: step_intros)
qed

lemma evict_for_steps [step_intros]:
  "bsteps limits perm a b \<Longrightarrow> bsteps limits perm a (evict_for limits now idx conn len b)"
proof (induction limits now idx conn len b rule: evict_for.induct)
  case (1 limits now idx conn len b)
  then show ?case
    by (subst evict_for.simps) (auto simp: Let_def intro: step_intros split: option.splits)
qed

lemma queue_terminal_steps:
  "bsteps limits perm a b \<Longrightarrow> slot_at b idx = Some s \<Longrightarrow> is_terminal_lifecycle b \<Longrightarrow>
   bsteps limits perm a (queue_terminal limits os now idx s f b)"
  by (auto simp: queue_terminal_def intro!: step_intros bsteps_then [OF _ step_pend])

lemma slot_le_arm: "slot_le limits s (s\<lparr>slot_client := arm_reply_deadline (slot_client s) now d\<rparr>)"
  by (simp add: slot_le_def slot_ok_def slot_live_bytes_def slot_role_def arm_reply_deadline_def)

lemma queue_encoded_steps [step_intros]:
  assumes "bsteps limits perm a b"
  shows "bsteps limits perm a (queue_encoded limits os now idx conn reply encoded b)"
proof (cases "slot_identity_live b idx conn \<and> aggregate_add_fits limits b (length encoded)")
  case False
  with assms show ?thesis by (auto simp: queue_encoded_def intro: step_intros)
next
  case True
  then obtain s where s: "slot_at b idx = Some s"
    by (auto simp: slot_identity_live_def split: option.splits)
  obtain ok b1 where p: "push_out idx s encoded b = (ok, b1)" by force
  have b1: "bsteps limits perm a b1"
    by (rule push_out_steps [OF assms s p]) (use True in \<open>simp add: add_fits_total\<close>)
  from push_out_slot [OF p s] obtain c where c: "slot_at b1 idx = Some (s\<lparr>slot_client := c\<rparr>)" by blast
  have "bsteps limits perm a (put_client idx (s\<lparr>slot_client := c\<rparr>) (arm_reply_deadline c now d) b1)" for d
    using put_client_update [OF b1 c] slot_le_arm [of limits "s\<lparr>slot_client := c\<rparr>" now d] by simp
  with True s p c b1 show ?thesis
    by (cases ok) (auto simp: queue_encoded_def Let_def intro!: step_intros)
qed

lemma queue_effect_frame_steps [step_intros]:
  assumes "bsteps limits perm a b"
  shows "bsteps limits perm a (queue_effect_frame limits os now tgt f b)"
  using assms
  by (auto simp: queue_effect_frame_def Let_def intro: step_intros queue_terminal_steps split: option.splits)

lemma slot_le_drain: "slot_le limits s (s\<lparr>slot_client := arm_reply_deadline (begin_draining (slot_client s)) now d\<rparr>)"
  by (simp add: slot_le_def slot_ok_def slot_live_bytes_def slot_role_def arm_reply_deadline_def begin_draining_def)

lemma begin_draining_steps [step_intros]:
  assumes "bsteps limits perm a b"
  shows "bsteps limits perm a (broker_begin_draining limits os now idx b)"
proof (cases "slot_at b idx")
  case None
  with assms show ?thesis by (simp add: broker_begin_draining_def step_intros)
next
  case (Some s)
  have "bsteps limits perm a (put_client idx s (arm_reply_deadline (begin_draining (slot_client s)) now d) b)" for d
    by (rule put_client_update [OF assms Some slot_le_drain])
  with Some show ?thesis
    by (simp add: broker_begin_draining_def Let_def step_intros)
qed


subsection \<open>Shutdown and the child\<close>

lemma record_failure_steps [step_intros]:
  "bsteps limits perm a b \<Longrightarrow> bsteps limits perm a (record_failure e b)"
  by (simp add: record_failure_def step_intros)

lemma record_failure_fields [simp]:
  "bk_child (record_failure e b) = bk_child b" "bk_slots (record_failure e b) = bk_slots b"
  "bk_finalized (record_failure e b) = bk_finalized b" "bk_world (record_failure e b) = bk_world b"
  "bk_shutdown_requested (record_failure e b) = bk_shutdown_requested b"
  "bk_lease (record_failure e b) = bk_lease b" "bk_runtime (record_failure e b) = bk_runtime b"
  by (simp_all add: record_failure_def)

lemma detach_master_steps [step_intros]:
  "bsteps limits perm a b \<Longrightarrow> bsteps limits perm a (detach_master b)"
  unfolding detach_master_def by (intro step_intros)

lemma retire_steps [step_intros]:
  "bsteps limits perm a b \<Longrightarrow> bsteps limits perm a (retire f b)"
  by (auto simp: retire_def Let_def sys_call_def intro!: step_intros split: sum.splits)

lemma retire_fields [simp]:
  "bk_child (retire f b) = bk_child b" "bk_slots (retire f b) = bk_slots b"
  "bk_finalized (retire f b) = bk_finalized b"
  "bk_shutdown_requested (retire f b) = bk_shutdown_requested b"
  by (auto simp: retire_def Let_def split: prod.splits sum.splits)

lemma detach_master_fields [simp]:
  "bk_child (detach_master b) = bk_child b" "bk_slots (detach_master b) = bk_slots b"
  "bk_finalized (detach_master b) = bk_finalized b" "bk_lease (detach_master b) = bk_lease b"
  "bk_shutdown_requested (detach_master b) = bk_shutdown_requested b"
  by (simp_all add: detach_master_def)

lemma maybe_finalize_steps [step_intros]:
  assumes "bsteps limits perm a b"
  shows "bsteps limits perm a (maybe_finalize os b)"
proof (cases "bk_finalized b \<or> \<not> bk_shutdown_requested b \<or> connection_count b \<noteq> 0 \<or> bk_child b \<noteq> None")
  case True
  with assms show ?thesis by (auto simp: maybe_finalize_def)
next
  case False
  let ?b1 = "(retire (os_retire_state os) (detach_master b))"
  have b1: "bsteps limits perm a ?b1" using assms by (intro step_intros)
  have fin: "bsteps limits perm a (?b1\<lparr>bk_exit := Some e, bk_finalized := True\<rparr>)" for e
    by (rule bsteps_then [OF b1 step_finalize]) (use False in \<open>simp_all add: connection_count_def\<close>)
  show ?thesis
    by (rule core_then [OF fin [of "the (bk_exit (maybe_finalize os b))"]])
      (use False in \<open>simp add: maybe_finalize_def Let_def same_core_def is_terminal_lifecycle_def\<close>)
qed

lemma request_shutdown_steps [step_intros]:
  assumes "May_React \<in> perm" "bsteps limits perm a b"
  shows "bsteps limits perm a (broker_request_shutdown limits os now b)"
proof -
  have "bsteps limits perm a (maybe_finalize os (fold (remove_conn limits now) close
      (retire f (b\<lparr>bk_shutdown_requested := True\<rparr>))))" for f close
    by (intro step_intros fold_steps assms)
  moreover have "broker_request_shutdown limits os now b = b \<or>
      (\<exists>close. broker_request_shutdown limits os now b = maybe_finalize os
        (fold (remove_conn limits now) close (retire (os_retire_socket os) (b\<lparr>bk_shutdown_requested := True\<rparr>))))"
    by (auto simp: broker_request_shutdown_def Let_def)
  ultimately show ?thesis using assms by auto
qed

lemma signal_checked_marks: "signal_group_checked os c sig w = (r, w') \<Longrightarrow> kill_marks w' = kill_marks w"
  using signal_checked_cases [of os c sig w r w'] by (auto simp: kill_marks_def)

lemma observe_exit_marks: "observe_exit os c w = (r, c', w') \<Longrightarrow> kill_marks w' = kill_marks w"
  by (auto dest: observe_exit_log simp: kill_marks_def)

lemma start_kill_steps:
  assumes "start_kill limits os now b = (r, b')" "bsteps limits perm a b"
  shows "bsteps limits perm a b'"
proof (cases "bk_kill_phase b = Kill_Idle \<and> bk_child b \<noteq> None")
  case False
  with assms show ?thesis by (auto simp: start_kill_def split: if_splits option.splits)
next
  case True
  then obtain child where c: "bk_child b = Some child" by blast
  obtain x w where s: "signal_group_checked os child SIGTERM (bk_world b) = (x, w)" by force
  note m = signal_checked_marks [OF s]
  show ?thesis
  proof (cases x)
    case (Inl e)
    with assms True c s m show ?thesis by (auto simp: start_kill_def intro: step_intros)
  next
    case (Inr u)
    then have "b' = b\<lparr>bk_world := mark (Mark_Term now) w, bk_pty_exit_deadline_ms := None,
        bk_kill_phase := Kill_TermSent (saturating_add_ms now (kill_grace_ms limits))\<rparr>"
      using assms(1) True c s by (simp add: start_kill_def)
    also have "bstep limits perm b \<dots>"
      by (rule step_term) (use True m in simp_all)
    finally show ?thesis using assms(2) bsteps_then by blast
  qed
qed

lemma attach_master_steps:
  "attach_pty_master os b = (r, b') \<Longrightarrow> bsteps limits perm a b \<Longrightarrow> bsteps limits perm a b'"
  by (auto simp: attach_pty_master_def sys_call_def intro!: step_intros split: if_splits sum.splits)

lemma waitpid_marks: "waitpid_blocking os p w = (r, w') \<Longrightarrow> kill_marks w' = kill_marks w"
  by (auto simp: waitpid_blocking_def sys_call_def split: sum.splits)

lemma read_exec_marks: "read_exec_result os w = (r, w') \<Longrightarrow> kill_marks w' = kill_marks w"
  by (auto simp: read_exec_result_def sys_call_def Let_def split: sum.splits if_splits option.splits)

lemma fail_pending_marks [simp]: "kill_marks (snd (fail_pending os e p w)) = kill_marks w"
  using waitpid_marks [of os p w] by (auto simp: fail_pending_def split: prod.splits)

lemma terminate_finish_marks: "terminate_finish os c w = (r, c', w') \<Longrightarrow> kill_marks w' = kill_marks w"
  by (auto simp: terminate_finish_def reap_blocking_def split: sum.splits prod.splits option.splits
      dest!: signal_checked_marks waitpid_marks)

lemma terminate_marks: "terminate os c w = (r, c', w') \<Longrightarrow> kill_marks w' = kill_marks w"
proof -
  assume t: "terminate os c w = (r, c', w')"
  obtain r1 c1 w1 where o: "observe_exit os c w = (r1, c1, w1)" by (metis prod_cases3)
  obtain r2 w2 where s: "signal_group_checked os c1 SIGTERM w1 = (r2, w2)" by force
  from t o s observe_exit_marks [OF o] signal_checked_marks [OF s] show ?thesis
    by (auto simp: terminate_def sys_call_def split: option.splits sum.splits prod.splits
        dest!: terminate_finish_marks)
qed

lemma fail_released_marks [simp]: "kill_marks (snd (fail_released os f e c w)) = kill_marks w"
  using terminate_marks [of os c w] by (auto simp: fail_released_def split: prod.splits sum.splits)

lemma child_released_marks [simp]: "kill_marks (snd (child_released os p g t w)) = kill_marks w"
proof -
  obtain x w1 where x: "read_exec_result os w = (x, w1)" by force
  with read_exec_marks [OF x] show ?thesis
    by (auto simp: child_released_def Let_def failed_def split: sum.splits option.splits)
qed

lemma parent_after_fork_marks [simp]: "kill_marks (snd (parent_after_fork os p w)) = kill_marks w"
proof -
  obtain x w1 where x: "read_exec_result os (w\<lparr>wd_tick := Suc (wd_tick w)\<rparr>) = (x, w1)" by force
  with read_exec_marks [OF x] show ?thesis
    by (auto simp: parent_after_fork_def sys_call_def send_release_byte_def failed_def
        split: sum.splits bool.splits)
qed

lemma parent_marks: "parent_after_fork os p w = (r, w') \<Longrightarrow> kill_marks w' = kill_marks w"
  using parent_after_fork_marks [of os p w] by simp

lemma child_spawn_marks: "child_spawn os spec limits w = (r, w') \<Longrightarrow> kill_marks w' = kill_marks w"
proof -
  assume c: "child_spawn os spec limits w = (r, w')"
  obtain x w1 where p: "prepare_fork os spec limits w = (x, w1)" by force
  have "kill_marks w1 = kill_marks w"
    using p by (auto simp: prepare_fork_def sys_call_def split: sum.splits prod.splits)
  moreover have "kill_marks w' = kill_marks w1"
  proof (cases x)
    case (Inr plan)
    with c p show ?thesis
      by (auto simp: child_spawn_def sys_call_def dest!: parent_marks split: sum.splits if_splits)
  qed (use c p in \<open>simp add: child_spawn_def\<close>)
  ultimately show ?thesis by simp
qed

subsection \<open>The effects\<close>

definition keeps_steps :: "pty_limits \<Rightarrow> step_perm set \<Rightarrow> broker \<Rightarrow> ('x \<Rightarrow> broker \<Rightarrow> broker) \<Rightarrow> bool" where
  "keeps_steps limits perm a app \<longleftrightarrow> (\<forall>fx b. bsteps limits perm a b \<longrightarrow> bsteps limits perm a (app fx b))"

lemma keeps_stepsD: "keeps_steps limits perm a app \<Longrightarrow> bsteps limits perm a b \<Longrightarrow> bsteps limits perm a (app fx b)"
  by (simp add: keeps_steps_def)

lemma reduce_then_steps:
  assumes "May_React \<in> perm" "keeps_steps limits perm a app" "bsteps limits perm a b"
  shows "bsteps limits perm a (reduce_then limits app ev b)"
proof -
  obtain rt fx where r: "reduce limits (bk_runtime b) ev = (rt, fx)" by force
  with runtime_reduce [OF assms(1,3) r] assms(2) show ?thesis
    by (simp del: reduce.simps add: reduce_then_def keeps_stepsD)
qed

lemma internal_failure_steps:
  "May_React \<in> perm \<Longrightarrow> keeps_steps limits perm a app \<Longrightarrow> bsteps limits perm a b \<Longrightarrow>
   bsteps limits perm a (request_internal_failure limits app e b)"
  by (auto simp: request_internal_failure_def Let_def intro!: reduce_then_steps step_intros)

lemma execute_spawn_steps:
  assumes "May_React \<in> perm" "keeps_steps limits perm a app" "bsteps limits perm a b"
  shows "bsteps limits perm a (snd (execute_spawn limits os app rows cols b))"
proof (cases "bk_spawn_plan b")
  case None
  with assms show ?thesis by (simp add: execute_spawn_def step_intros)
next
  case (Some plan)
  let ?spec = "\<lparr>ss_session_name = session_name (bk_runtime b), ss_argv = sp_argv plan,
      ss_env = sp_env plan, ss_path_var = sp_path_var plan, ss_rows = rows,
      ss_cols = cols, ss_close_in_child = close_in_child_fds os b\<rparr>"
  obtain r w where c: "child_spawn os ?spec limits (bk_world b) = (r, w)" by force
  have w: "bsteps limits perm a (b\<lparr>bk_world := w\<rparr>)"
    using assms(3) child_spawn_marks [OF c] by (rule world_update)
  show ?thesis
  proof (cases r)
    case (Inl e)
    with Some c w assms(1,2) show ?thesis
      by (auto simp: execute_spawn_def Let_def intro!: reduce_then_steps step_intros)
  next
    case (Inr child)
    have w1: "bsteps limits perm a (b\<lparr>bk_world := w, bk_child := Some child\<rparr>)"
      using step_intros(10) [OF w, of "Some child"] by simp
    obtain r1 b1 where t: "attach_pty_master os (b\<lparr>bk_world := w, bk_child := Some child\<rparr>) = (r1, b1)" by force
    note b1 = attach_master_steps [OF t w1]
    show ?thesis
      using Some c Inr t b1 assms(1,2)
      by (auto simp: execute_spawn_def Let_def sys_call_def intro!: internal_failure_steps step_intros
          split: sum.splits)
  qed
qed

lemma execute_dimensions_steps:
  assumes "May_React \<in> perm" "keeps_steps limits perm a app" "bsteps limits perm a b"
  shows "bsteps limits perm a (snd (execute_dimensions limits os app rows cols b))"
  using assms
  by (auto simp: execute_dimensions_def sys_call_def intro!: internal_failure_steps step_intros
      split: sum.splits)

lemma execute_signal_steps:
  assumes "May_React \<in> perm" "keeps_steps limits perm a app" "bsteps limits perm a b"
  shows "bsteps limits perm a (snd (execute_signal limits os app sig b))"
  using assms
  by (auto simp: execute_signal_def intro!: internal_failure_steps step_intros dest: signal_checked_marks
      split: option.splits sum.splits prod.splits)

lemma execute_begin_kill_steps:
  assumes "May_React \<in> perm" "keeps_steps limits perm a app" "bsteps limits perm a b"
  shows "bsteps limits perm a (snd (execute_begin_kill limits os app now b))"
proof -
  obtain r b1 where k: "start_kill limits os now b = (r, b1)" by force
  from k start_kill_steps [OF k assms(3)] assms show ?thesis
    by (auto simp: execute_begin_kill_def intro!: internal_failure_steps step_intros split: sum.splits)
qed

lemma slot_le_set_role:
  assumes "set_role (slot_client s) limits role = (c, res)"
  shows "slot_le limits s (s\<lparr>slot_client := c\<rparr>)"
proof -
  define cap where "cap = role_cap limits role"
  have "oq_live_bytes (fst (out_set_cap q k)) = oq_live_bytes q" for q k
    by (simp add: out_set_cap_def)
  moreover have "typed_limits limits \<Longrightarrow> cap < 2 ^ 64"
    by (auto simp: cap_def role_cap_def typed_limits_def split: conn_role.splits)
  ultimately show ?thesis
    using assms out_set_cap_inv [of "cc_out (slot_client s)" cap]
    unfolding set_role_def role_cap_def [symmetric] cap_def [symmetric] Let_def
    by (auto simp: slot_le_def slot_ok_def slot_live_bytes_def slot_role_def out_set_cap_def cap_def
        split: if_splits)
qed

lemma apply_set_role_steps [step_intros]:
  assumes "bsteps limits perm a b"
  shows "bsteps limits perm a (apply_set_role limits now tgt role b)"
proof (cases "\<exists>idx s. resolve b tgt = Some idx \<and> slot_at b idx = Some s")
  case False
  with assms show ?thesis by (auto simp: apply_set_role_def split: option.splits)
next
  case True
  then obtain idx s where s: "resolve b tgt = Some idx" "slot_at b idx = Some s" by blast
  obtain c res where c: "set_role (slot_client s) limits role = (c, res)" by force
  have "bsteps limits perm a (put_client idx s c b)"
    by (rule put_client_update [OF assms s(2) slot_le_set_role [OF c]])
  with s c show ?thesis by (simp add: apply_set_role_def step_intros)
qed

lemma slot_le_input:
  "(input_inv (cc_input (slot_client s)) \<Longrightarrow> input_inv q) \<Longrightarrow>
   iq_cap_bytes q = iq_cap_bytes (cc_input (slot_client s)) \<Longrightarrow>
   slot_le limits s (s\<lparr>slot_client := (slot_client s)\<lparr>cc_input := q\<rparr>\<rparr>)"
  by (simp add: slot_le_def slot_ok_def slot_live_bytes_def slot_role_def)

lemma apply_deliver_input_steps [step_intros]:
  assumes "bsteps limits perm a b"
  shows "bsteps limits perm a (apply_deliver_input limits now client_id bs b)"
proof (cases "\<exists>idx s. resolve b (Target_Client client_id) = Some idx \<and> slot_at b idx = Some s")
  case False
  with assms show ?thesis by (auto simp: apply_deliver_input_def split: option.splits)
next
  case True
  then obtain idx s where s: "resolve b (Target_Client client_id) = Some idx" "slot_at b idx = Some s" by blast
  obtain q ok where q: "input_push (cc_input (slot_client s)) bs = (q, ok)" by force
  have "iq_cap_bytes q = iq_cap_bytes (cc_input (slot_client s))"
    using q by (auto simp: input_push_def split: if_splits option.splits)
  moreover have "input_inv (cc_input (slot_client s)) \<Longrightarrow> input_inv q"
    using inq.push_inv [of "cc_input (slot_client s)" bs] q by simp
  ultimately have "bsteps limits perm a (put_client idx s ((slot_client s)\<lparr>cc_input := q\<rparr>) b)"
    by (intro put_client_update [OF assms s(2)] slot_le_input)
  with s q show ?thesis by (simp add: apply_deliver_input_def Let_def step_intros)
qed

lemma out_clear_keeps: "out_inv q \<Longrightarrow> out_inv (out_clear q)" "input_inv i \<Longrightarrow> input_inv (input_clear i)"
  by (simp_all add: out_inv_def out_clear_def out_content_def input_inv_def input_clear_def input_abs_def
      mark_front_def)

lemma apply_drop_queues_steps [step_intros]:
  assumes "bsteps limits perm a b"
  shows "bsteps limits perm a (apply_drop_queues limits now tgt b)"
proof (cases "\<exists>idx s. resolve b tgt = Some idx \<and> slot_at b idx = Some s")
  case False
  with assms show ?thesis by (auto simp: apply_drop_queues_def split: option.splits)
next
  case True
  then obtain idx s where s: "resolve b tgt = Some idx" "slot_at b idx = Some s" by blast
  have "slot_le limits s (s\<lparr>slot_client := (slot_client s)\<lparr>cc_out := out_clear (cc_out (slot_client s)),
      cc_input := input_clear (cc_input (slot_client s))\<rparr>\<rparr>)"
    by (auto simp: slot_le_def slot_ok_def slot_live_bytes_def slot_role_def out_clear_keeps)
      (auto simp: out_clear_def input_clear_def)
  with s assms show ?thesis
    by (auto simp: apply_drop_queues_def intro!: step_intros put_client_update)
qed

lemma apply_close_steps [step_intros]:
  "bsteps limits perm a b \<Longrightarrow> bsteps limits perm a (apply_close_now limits now tgt b)"
  "bsteps limits perm a b \<Longrightarrow> bsteps limits perm a (apply_close_after_flush limits os now tgt b)"
  by (auto simp: apply_close_now_def apply_close_after_flush_def intro: step_intros split: option.splits)

lemma exec_effect_steps:
  assumes "May_React \<in> perm" "keeps_steps limits perm a app" "bsteps limits perm a b"
  shows "bsteps limits perm a (snd (exec_effect limits os now app e b))"
  using assms
  by (cases e) (simp_all add: exec_effect_def step_intros execute_spawn_steps execute_dimensions_steps
      execute_signal_steps execute_begin_kill_steps)

lemma run_effects_steps:
  assumes "May_React \<in> perm" "keeps_steps limits perm a app"
  shows "bsteps limits perm a b \<Longrightarrow> bsteps limits perm a (run_effects (exec_effect limits os now app) fx b)"
proof (induction fx arbitrary: b)
  case (Cons e fx)
  obtain go b1 where e: "exec_effect limits os now app e b = (go, b1)" by force
  have "bsteps limits perm a b1"
    using exec_effect_steps [OF assms Cons.prems, of os now e] e by simp
  with e Cons.IH show ?case by (cases go) simp_all
qed simp

lemma apply_depth_steps: "May_React \<in> perm \<Longrightarrow> keeps_steps limits perm a (apply_depth limits os now n)"
proof (induction n)
  case (Suc n)
  then show ?case
    by (auto simp: keeps_steps_def intro!: run_effects_steps)
qed (simp add: keeps_steps_def)

lemma apply_effects_steps: "May_React \<in> perm \<Longrightarrow> keeps_steps limits perm a (apply_effects limits os now)"
  by (simp add: apply_effects_def apply_depth_steps)

lemma effects_steps [step_intros]:
  "May_React \<in> perm \<Longrightarrow> bsteps limits perm a b \<Longrightarrow> bsteps limits perm a (apply_effects limits os now fx b)"
  "May_React \<in> perm \<Longrightarrow> bsteps limits perm a b \<Longrightarrow> bsteps limits perm a (reduce_apply limits os now ev b)"
  "May_React \<in> perm \<Longrightarrow> bsteps limits perm a b \<Longrightarrow>
   bsteps limits perm a (request_internal_failure limits (apply_effects limits os now) e b)"
  using apply_effects_steps
  by (auto simp: reduce_apply_def intro: reduce_then_steps internal_failure_steps keeps_stepsD)

end
