(* ===== verification/Pty_Broker_Settled.thy ===== *)
theory Pty_Broker_Settled
  imports Pty_Broker_Steps
begin

text \<open>
  The end of a session in the broker. Between events the broker is \<open>settled\<close>: a shutdown has been
  requested exactly when the life cycle is final, then every connection left is draining its last
  bytes, and before that no terminal frame is waiting. Carrying out the effects of any event
  brings the broker back to such a state, although it passes through others on the way.
\<close>

section \<open>Changes that cannot end the session\<close>

definition slots_calm :: "broker \<Rightarrow> broker \<Rightarrow> bool" where
  "slots_calm b b' \<longleftrightarrow>
     (\<forall>s'. Some s' \<in> set (bk_slots b') \<longrightarrow>
        (\<exists>s. Some s \<in> set (bk_slots b) \<and>
             (cc_draining (slot_client s) \<longrightarrow> cc_draining (slot_client s')) \<and>
             (slot_terminal_pending s = None \<longrightarrow> slot_terminal_pending s' = None \<or> is_terminal_lifecycle b)))"

definition calm :: "broker \<Rightarrow> broker \<Rightarrow> bool" where
  "calm b b' \<longleftrightarrow>
     is_terminal_lifecycle b' = is_terminal_lifecycle b \<and>
     bk_shutdown_requested b' = bk_shutdown_requested b \<and>
     (runtime_inv (bk_runtime b) \<longrightarrow> runtime_inv (bk_runtime b')) \<and> slots_calm b b'"

lemma slots_calm_refl: "set (bk_slots b') = set (bk_slots b) \<Longrightarrow> slots_calm b b'"
  by (auto simp: slots_calm_def)

lemma slots_calm_update:
  assumes "slot_at b idx = Some s"
    and "case x of None \<Rightarrow> True | Some s' \<Rightarrow>
      (cc_draining (slot_client s) \<longrightarrow> cc_draining (slot_client s')) \<and>
      (slot_terminal_pending s = None \<longrightarrow> slot_terminal_pending s' = None \<or> is_terminal_lifecycle b)"
    and "bk_slots b' = (bk_slots b)[idx := x]"
  shows "slots_calm b b'"
  unfolding slots_calm_def
proof (intro allI impI)
  fix s' assume "Some s' \<in> set (bk_slots b')"
  then consider "Some s' = x" | "Some s' \<in> set (bk_slots b)"
    unfolding assms(3) by (meson insertE set_update_subset_insert subsetD)
  then show "\<exists>s. Some s \<in> set (bk_slots b) \<and>
      (cc_draining (slot_client s) \<longrightarrow> cc_draining (slot_client s')) \<and>
      (slot_terminal_pending s = None \<longrightarrow> slot_terminal_pending s' = None \<or> is_terminal_lifecycle b)"
  proof cases
    case 1
    have "Some s \<in> set (bk_slots b)"
      using assms(1) by (auto simp: slot_at_def in_set_conv_nth split: if_splits)
    with 1 assms(2) show ?thesis by (cases x) auto
  qed auto
qed

lemma step_calm:
  assumes "bstep limits perm b b'" "May_React \<notin> perm" "May_Insert \<notin> perm"
  shows "calm b b'"
  using assms
proof (cases rule: bstep.cases)
  case step_core
  then show ?thesis by (auto simp: same_core_def calm_def intro: slots_calm_refl)
next
  case (step_touch idx s s')
  then show ?thesis
    by (auto simp: calm_def put_slot_def is_terminal_lifecycle_def slot_le_def
        intro!: slots_calm_update [OF step_touch(2), where x = "Some s'"])
next
  case (step_push idx s chunk q)
  then show ?thesis
    by (auto simp: calm_def put_client_def put_slot_def is_terminal_lifecycle_def
        intro!: slots_calm_update [OF step_push(2)])
next
  case (step_pend idx s f)
  then show ?thesis
    by (auto simp: calm_def put_slot_def is_terminal_lifecycle_def
        intro!: slots_calm_update [OF step_pend(2)])
next
  case (step_remove idx s)
  then show ?thesis
    by (auto simp: calm_def put_slot_def is_terminal_lifecycle_def
        intro!: slots_calm_update [OF step_remove(2), where x = None])
qed (auto simp: calm_def is_terminal_lifecycle_def intro!: slots_calm_refl)

lemma calm_refl: "calm b b"
  by (auto simp: calm_def slots_calm_def)

lemma calm_trans: "calm a b \<Longrightarrow> calm b c \<Longrightarrow> calm a c"
  unfolding calm_def slots_calm_def by (metis (no_types, lifting))

lemma steps_calm: "bsteps limits {} b b' \<Longrightarrow> calm b b'"
  by (induction rule: rtranclp_induct) (auto intro: calm_refl calm_trans step_calm)

section \<open>The settled broker\<close>

definition settled :: "broker \<Rightarrow> bool" where
  "settled b \<longleftrightarrow>
     runtime_inv (bk_runtime b) \<and> bk_shutdown_requested b = is_terminal_lifecycle b \<and>
     (\<forall>s. Some s \<in> set (bk_slots b) \<longrightarrow>
        (if is_terminal_lifecycle b then cc_draining (slot_client s) else slot_terminal_pending s = None))"

lemma settled_calm: "settled b \<Longrightarrow> calm b b' \<Longrightarrow> settled b'"
  unfolding settled_def calm_def slots_calm_def by (auto split: if_splits)

lemma settled_steps: "settled b \<Longrightarrow> bsteps limits {} b b' \<Longrightarrow> settled b'"
  by (blast intro: settled_calm steps_calm)

text \<open>Between the event that ends the session and the shutdown it orders.\<close>

definition falling :: "broker \<Rightarrow> bool" where
  "falling b \<longleftrightarrow> runtime_inv (bk_runtime b) \<and> is_terminal_lifecycle b \<and> \<not> bk_shutdown_requested b"

lemma falling_calm: "falling b \<Longrightarrow> calm b b' \<Longrightarrow> falling b'"
  by (simp add: falling_def calm_def)

lemma remove_all_slots:
  "bk_slots (fold (remove_conn limits now) close b) = fold (\<lambda>i xs. xs[i := None]) close (bk_slots b)"
  by (induction close arbitrary: b) simp_all

lemma cleared_slot:
  "k < length xs \<Longrightarrow> fold (\<lambda>i xs. xs[i := None]) close xs ! k = (if k \<in> set close then None else xs ! k)"
  "length (fold (\<lambda>i xs. xs[i := None]) close xs) = length xs"
  by (induction close arbitrary: xs) (auto simp: nth_list_update)

lemma maybe_finalize_fields [simp]:
  "bk_slots (maybe_finalize os b) = bk_slots b"
  by (simp add: maybe_finalize_def Let_def)

lemma maybe_finalize_calm: "calm b (maybe_finalize os b)"
  by (rule steps_calm [where limits = undefined]) (intro step_intros rtranclp.rtrancl_refl)

lemma falling_shutdown:
  assumes "falling b"
  shows "settled (broker_request_shutdown limits os now b)"
proof -
  let ?b1 = "retire (os_retire_socket os) (b\<lparr>bk_shutdown_requested := True\<rparr>)"
  define close where "close = filter (\<lambda>idx. case slot_at ?b1 idx of
      Some s \<Rightarrow> \<not> cc_draining (slot_client s) | None \<Rightarrow> False) [0..<length (bk_slots ?b1)]"
  let ?b2 = "fold (remove_conn limits now) close ?b1"
  have eq: "broker_request_shutdown limits os now b = maybe_finalize os ?b2"
    using assms by (simp add: broker_request_shutdown_def Let_def falling_def close_def)
  have "bsteps limits {} (b\<lparr>bk_shutdown_requested := True\<rparr>) ?b2"
    by (intro step_intros fold_steps rtranclp.rtrancl_refl)
  from steps_calm [OF this] have c: "calm (b\<lparr>bk_shutdown_requested := True\<rparr>) ?b2" .
  have "cc_draining (slot_client s)" if s: "Some s \<in> set (bk_slots ?b2)" for s
  proof -
    from s obtain k where k: "k < length (bk_slots b)" "bk_slots ?b2 ! k = Some s"
      by (auto simp: in_set_conv_nth remove_all_slots cleared_slot)
    then have "k \<notin> set close" "bk_slots b ! k = Some s"
      by (auto simp: remove_all_slots cleared_slot split: if_splits)
    with k show ?thesis by (auto simp: close_def slot_at_def split: if_splits)
  qed
  with c assms have "settled ?b2"
    by (simp add: settled_def calm_def falling_def is_terminal_lifecycle_def)
  then show ?thesis unfolding eq by (rule settled_calm [OF _ maybe_finalize_calm])
qed

section \<open>The shape of the effects\<close>

text \<open>An event either leaves the finality of the life cycle and orders no shutdown, or ends the session
  with soft effects and one last \<open>Shutdown\<close>. The loop raises the startup deadline only while it
  waits for a writer.\<close>

definition startup_ok :: "runtime \<Rightarrow> event \<Rightarrow> bool" where
  "startup_ok rt ev \<longleftrightarrow> (ev = StartupDeadlineExpired \<longrightarrow> lifecycle (rt_state rt) = WaitingForWriter)"

definition ends_session :: "effect list \<Rightarrow> bool" where
  "ends_session fx \<longleftrightarrow> (\<exists>gs. fx = gs @ [Shutdown] \<and> list_all (\<lambda>e. soft_effect e \<and> e \<noteq> Shutdown) gs)"

lemma exit_effects_end: "ends_session (exit_effects w obs waiters exit)"
  by (auto simp: ends_session_def exit_effects_def soft_effect_def list_all_iff split: option.splits)

lemma spawn_failed_effects_end: "ends_session (spawn_failed_effects limits w obs waiters)"
  by (auto simp: ends_session_def spawn_failed_effects_def soft_effect_def list_all_iff split: option.splits)

lemma ends_shutdown [simp]: "ends_session [Shutdown]"
  by (simp add: ends_session_def)

lemma reply_no_shutdown: "list_all (reply_effect conn) fx \<Longrightarrow> Shutdown \<notin> set fx"
  by (auto simp: list_all_iff)

lemma reduce_shape:
  assumes "runtime_inv rt" "startup_ok rt ev" "reduce limits rt ev = (rt', fx)"
  shows "(final_lifecycle (lifecycle (rt_state rt')) = final_lifecycle (lifecycle (rt_state rt)) \<and> Shutdown \<notin> set fx) \<or>
    (\<not> final_lifecycle (lifecycle (rt_state rt)) \<and> final_lifecycle (lifecycle (rt_state rt')) \<and> ends_session fx)"
proof -
  have "broker_step limits rt ev rt' fx" using reduce_step [OF assms(1), of limits ev] assms(3) by simp
  then show ?thesis
  proof (cases rule: broker_step.cases)
  qed (use assms(2) in \<open>auto simp: final_lifecycle_def exit_effects_end spawn_failed_effects_end
      apply_dimensions_fx_def startup_ok_def latch_terminal_def dest: reply_no_shutdown\<close>)
qed

section \<open>Effects settle\<close>

lemma soft_steps:
  assumes "soft_effect e" "e \<noteq> Shutdown"
  shows "\<exists>b'. exec_effect limits os now app e b = (True, b') \<and> bsteps limits {} b b'"
  using assms by (cases e) (auto simp: exec_effect_def soft_effect_def intro!: step_intros)

lemma soft_run:
  assumes "list_all (\<lambda>e. soft_effect e \<and> e \<noteq> Shutdown) fx"
  shows "\<exists>b'. run_effects (exec_effect limits os now app) (fx @ gs) b
      = run_effects (exec_effect limits os now app) gs b' \<and> bsteps limits {} b b'"
  using assms
proof (induction fx arbitrary: b)
  case (Cons e fx)
  then obtain b1 where e: "exec_effect limits os now app e b = (True, b1)" "bsteps limits {} b b1"
    using soft_steps [of e limits os now app b] by auto
  from Cons.IH [of b1] Cons.prems obtain b2 where
    "run_effects (exec_effect limits os now app) (fx @ gs) b1 = run_effects (exec_effect limits os now app) gs b2"
    "bsteps limits {} b1 b2" by auto
  with e show ?case by (auto intro: rtranclp_trans)
qed auto

lemma ending_settles:
  assumes "ends_session fx" "falling b"
  shows "settled (run_effects (exec_effect limits os now app) fx b)"
proof -
  from assms(1) obtain gs where gs: "fx = gs @ [Shutdown]" "list_all (\<lambda>e. soft_effect e \<and> e \<noteq> Shutdown) gs"
    by (auto simp: ends_session_def)
  from soft_run [OF gs(2), of limits os now app "[Shutdown]" b] obtain b1 where
    r: "run_effects (exec_effect limits os now app) fx b = broker_request_shutdown limits os now b1"
    and "bsteps limits {} b b1"
    by (auto simp: gs(1) exec_effect_def)
  with assms(2) have "falling b1" by (blast intro: falling_calm steps_calm)
  then show ?thesis unfolding r by (rule falling_shutdown)
qed

text \<open>A reduced event whose effects, if they end the session, are carried out.\<close>

lemma reduced_cases:
  assumes "settled b" "startup_ok (bk_runtime b) ev" "reduce limits (bk_runtime b) ev = (rt, fx)"
  shows "settled (b\<lparr>bk_runtime := rt\<rparr>) \<and> Shutdown \<notin> set fx \<or> falling (b\<lparr>bk_runtime := rt\<rparr>) \<and> ends_session fx"
proof -
  have inv: "runtime_inv (bk_runtime b)" and inv': "runtime_inv rt"
    using assms(1,3) reduce_inv [of "bk_runtime b" limits ev] by (auto simp: settled_def)
  from reduce_shape [OF inv assms(2,3)] assms(1) inv' show ?thesis
    by (auto simp: settled_def falling_def is_terminal_lifecycle_def final_lifecycle_def)
qed

lemma spawn_failed_settles:
  assumes "settled b"
  shows "settled (reduce_then limits (apply_depth limits os now (Suc n)) SpawnFailed b)"
proof -
  obtain rt fx where r: "reduce limits (bk_runtime b) SpawnFailed = (rt, fx)" by force
  have eq: "reduce_then limits (apply_depth limits os now (Suc n)) SpawnFailed b
      = run_effects (exec_effect limits os now (apply_depth limits os now n)) fx (b\<lparr>bk_runtime := rt\<rparr>)"
    using r by (simp del: reduce.simps add: reduce_then_def)
  from reduced_cases [OF assms _ r] consider
    "settled (b\<lparr>bk_runtime := rt\<rparr>)" "Shutdown \<notin> set fx"
    | "falling (b\<lparr>bk_runtime := rt\<rparr>)" "ends_session fx" by (auto simp: startup_ok_def)
  then show ?thesis
  proof cases
    case 1
    have "list_all (\<lambda>e. soft_effect e \<and> e \<noteq> Shutdown) fx"
      using spawn_failed_soft [of limits "bk_runtime b"] r 1(2)
      by (auto simp: list_all_iff simp del: reduce.simps)
    from soft_run [OF this, of limits os now "apply_depth limits os now n" "[]" "b\<lparr>bk_runtime := rt\<rparr>"]
    show ?thesis
      unfolding eq using settled_steps [OF 1(1)] by auto
  next
    case 2
    then show ?thesis unfolding eq by (intro ending_settles)
  qed
qed

lemma failure_recorded_settles: "settled b \<Longrightarrow> settled ((record_failure e b)\<lparr>bk_internal_cleanup_pending := True\<rparr>)"
  by (rule settled_steps [where limits = undefined]) (auto intro!: step_intros)

lemma internal_failure_started_settles:
  assumes "settled b" "bk_child b \<noteq> None" "kill_started (bk_runtime b)"
  shows "settled (request_internal_failure limits (apply_depth limits os now n) e b)"
proof -
  let ?b1 = "(record_failure e b)\<lparr>bk_internal_cleanup_pending := True\<rparr>"
  obtain rt fx where r: "reduce limits (bk_runtime b) InternalFailureRequested = (rt, fx)" by force
  have fx: "fx = []" using internal_failure_started [OF assms(3), of limits] r by simp
  have b1: "settled ?b1" by (rule failure_recorded_settles [OF assms(1)])
  have r1: "reduce limits (bk_runtime ?b1) InternalFailureRequested = (rt, [])" using r fx by simp
  from reduced_cases [OF b1 _ r1] have "settled (?b1\<lparr>bk_runtime := rt\<rparr>)"
    by (auto simp: startup_ok_def ends_session_def)
  with assms(2) r fx show ?thesis
    by (simp add: request_internal_failure_def Let_def reduce_then_def)
qed

lemma begin_kill_settles:
  assumes "settled b" "bk_child b \<noteq> None" "kill_started (bk_runtime b)"
  shows "settled (apply_depth limits os now n [BeginKill] b)"
proof (cases n)
  case (Suc m)
  obtain r b1 where k: "start_kill limits os now b = (r, b1)" by force
  have "settled b1" using settled_steps [OF assms(1)] start_kill_steps [OF k rtranclp.rtrancl_refl] .
  with start_kill_fields [OF k] internal_failure_started_settles [of b1] k assms Suc show ?thesis
    by (auto simp: exec_effect_def execute_begin_kill_def split: sum.splits)
qed (simp add: assms(1))

lemma internal_failure_settles:
  assumes "settled b"
  shows "settled (request_internal_failure limits (apply_depth limits os now (Suc n)) e b)"
proof -
  let ?b1 = "(record_failure e b)\<lparr>bk_internal_cleanup_pending := True\<rparr>"
  have b1: "settled ?b1" by (rule failure_recorded_settles [OF assms])
  show ?thesis
  proof (cases "bk_child b")
    case None
    then show ?thesis
      using spawn_failed_settles [OF b1, of limits os now n]
      by (simp add: request_internal_failure_def Let_def)
  next
    case (Some c)
    obtain rt fx where r: "reduce limits (bk_runtime ?b1) InternalFailureRequested = (rt, fx)" by force
    have fx: "fx = [] \<or> fx = [BeginKill] \<and> kill_started rt" by (rule internal_failure_effects [OF r])
    with reduced_cases [OF b1 _ r] have s: "settled (?b1\<lparr>bk_runtime := rt\<rparr>)"
      by (auto simp: startup_ok_def ends_session_def)
    from fx Some r s begin_kill_settles [OF s, of limits os now "Suc n"] show ?thesis
      by (auto simp del: reduce.simps apply_depth.simps simp add: request_internal_failure_def Let_def reduce_then_def)
  qed
qed

lemma attach_settles: "settled b \<Longrightarrow> attach_pty_master os b = (r, b') \<Longrightarrow> settled b'"
  using settled_steps attach_master_steps rtranclp.rtrancl_refl by blast

lemma world_settles: "settled b \<Longrightarrow> settled (b\<lparr>bk_world := w\<rparr>)"
  by (simp add: settled_def is_terminal_lifecycle_def)

lemma child_settles: "settled b \<Longrightarrow> settled (b\<lparr>bk_child := c\<rparr>)"
  by (simp add: settled_def is_terminal_lifecycle_def)

lemma failure_settles: "settled b \<Longrightarrow> settled (record_failure e b)"
  by (simp add: record_failure_def settled_def is_terminal_lifecycle_def)

lemma deferred_settles: "settled b \<Longrightarrow> settled (b\<lparr>bk_deferred := fx\<rparr>)"
  by (simp add: settled_def is_terminal_lifecycle_def)

lemmas hard_settles = internal_failure_settles spawn_failed_settles world_settles child_settles
  failure_settles deferred_settles

lemma execute_spawn_settles:
  assumes "settled b"
  shows "settled (snd (execute_spawn limits os (apply_depth limits os now (Suc n)) rows cols b))"
proof -
  have "settled (b\<lparr>bk_world := w, bk_child := c\<rparr>)" for w c
    using child_settles [OF world_settles [OF assms]] by simp
  then have "attach_pty_master os (b\<lparr>bk_world := w, bk_child := c\<rparr>) = (r, b1) \<Longrightarrow> settled b1" for w c r b1
    by (rule attach_settles)
  then show ?thesis
    using assms
    by (auto simp: execute_spawn_def Let_def simp del: apply_depth.simps
        intro!: hard_settles split: option.splits sum.splits prod.splits)
qed

lemma hard_exec_settles:
  assumes "settled b" "\<not> soft_effect e"
  shows "settled (snd (exec_effect limits os now (apply_depth limits os now (Suc n)) e b))"
proof (cases e)
  case (SpawnChild rows cols)
  with execute_spawn_settles [OF assms(1)] show ?thesis by (simp add: exec_effect_def del: apply_depth.simps)
next
  case (ApplyDimensions rows cols)
  with assms(1) show ?thesis
    by (auto simp: exec_effect_def execute_dimensions_def simp del: apply_depth.simps
        intro!: hard_settles split: sum.splits prod.splits)
next
  case (ApplySignal s)
  with assms(1) show ?thesis
    by (auto simp: exec_effect_def execute_signal_def simp del: apply_depth.simps
        intro!: hard_settles split: option.splits sum.splits prod.splits)
next
  case BeginKill
  obtain r b1 where k: "start_kill limits os now b = (r, b1)" by force
  have "settled b1" using settled_steps [OF assms(1)] start_kill_steps [OF k rtranclp.rtrancl_refl] .
  with BeginKill k assms(1) show ?thesis
    by (auto simp: exec_effect_def execute_begin_kill_def simp del: apply_depth.simps
        intro!: hard_settles split: sum.splits)
qed (use assms(2) in \<open>simp_all add: soft_effect_def\<close>)

lemma run_effects_settles:
  "Shutdown \<notin> set fx \<Longrightarrow> settled b \<Longrightarrow>
   settled (run_effects (exec_effect limits os now (apply_depth limits os now (Suc n))) fx b)"
proof (induction fx arbitrary: b)
  case (Cons e fx)
  obtain go b1 where e: "exec_effect limits os now (apply_depth limits os now (Suc n)) e b = (go, b1)" by force
  have "settled b1"
  proof (cases "soft_effect e")
    case True
    with soft_steps [of e limits os now "apply_depth limits os now (Suc n)" b] Cons.prems e show ?thesis
      by (auto intro: settled_steps simp del: apply_depth.simps)
  next
    case False
    from hard_exec_settles [OF Cons.prems(2) this, of limits os now n] e show ?thesis by simp
  qed
  with Cons e show ?case by (cases go) (simp_all del: apply_depth.simps)
qed simp

lemma reduce_apply_settles:
  assumes "settled b" "startup_ok (bk_runtime b) ev"
  shows "settled (reduce_apply limits os now ev b)"
proof -
  obtain rt fx where r: "reduce limits (bk_runtime b) ev = (rt, fx)" by force
  have eq: "reduce_apply limits os now ev b
      = run_effects (exec_effect limits os now (apply_depth limits os now (Suc 0))) fx (b\<lparr>bk_runtime := rt\<rparr>)"
    using r by (simp add: reduce_apply_def reduce_then_def apply_effects_def numeral_2_eq_2 del: reduce.simps)
  from reduced_cases [OF assms r] show ?thesis
    unfolding eq by (auto intro: run_effects_settles ending_settles simp del: apply_depth.simps)
qed

end
