(* ===== verification/Pty_Broker_Fanout.thy ===== *)
theory Pty_Broker_Fanout
  imports Pty_Broker_Settled
begin

text \<open>
  The fan-out of PTY output keeps the aggregate bound: the projection over all recipients that the
  eviction loops establish still covers the recipients left to serve after every push, flush and
  close, and where the loops could not make room the writer alone is left, whose own cap the
  constructor has checked against the aggregate.
\<close>

section \<open>What closing and flushing do to the table\<close>

text \<open>\<open>thin\<close>: connections only go away or start draining, and lose rights; \<open>lean\<close>: their queues shrink too.\<close>

definition slot_thin :: "conn_slot \<Rightarrow> conn_slot \<Rightarrow> bool" where
  "slot_thin s s' \<longleftrightarrow>
     slot_conn s' = slot_conn s \<and> slot_role s' = slot_role s \<and>
     cc_draining (slot_client s') = cc_draining (slot_client s) \<and>
     slot_terminal_pending s' = slot_terminal_pending s"

definition thin :: "broker \<Rightarrow> broker \<Rightarrow> bool" where
  "thin b b' \<longleftrightarrow>
     length (bk_slots b') = length (bk_slots b) \<and>
     (\<forall>k s'. slot_at b' k = Some s' \<longrightarrow> (\<exists>s. slot_at b k = Some s \<and> slot_thin s s')) \<and>
     (\<forall>w. ownership (rt_state (bk_runtime b')) = Writer w \<longrightarrow> ownership (rt_state (bk_runtime b)) = Writer w) \<and>
     set (members (rt_observers (bk_runtime b'))) \<subseteq> set (members (rt_observers (bk_runtime b)))"

definition lean :: "broker \<Rightarrow> broker \<Rightarrow> bool" where
  "lean b b' \<longleftrightarrow> thin b b' \<and>
     (\<forall>k s s'. slot_at b' k = Some s' \<longrightarrow> slot_at b k = Some s \<longrightarrow> slot_live_bytes s' \<le> slot_live_bytes s)"

lemma slot_thin_refl [simp]: "slot_thin s s"
  by (simp add: slot_thin_def)

lemma slot_thin_trans: "slot_thin s t \<Longrightarrow> slot_thin t u \<Longrightarrow> slot_thin s u"
  by (simp add: slot_thin_def)

lemma thin_refl [simp]: "thin b b" and lean_refl [simp]: "lean b b"
  by (auto simp: thin_def lean_def)

lemma thin_trans: "thin a b \<Longrightarrow> thin b c \<Longrightarrow> thin a c"
  unfolding thin_def by (metis (no_types, lifting) slot_thin_trans subset_trans)

lemma thin_slotE:
  assumes "thin b b'" "slot_at b' k = Some s'"
  obtains s where "slot_at b k = Some s" "slot_thin s s'"
  using assms unfolding thin_def by blast

lemma lean_trans:
  assumes "lean a b" "lean b c"
  shows "lean a c"
proof -
  have "slot_live_bytes u \<le> slot_live_bytes s" if c: "slot_at c k = Some u" and a: "slot_at a k = Some s" for k s u
  proof -
    have "thin b c" using assms(2) by (simp add: lean_def)
    then obtain t where t: "slot_at b k = Some t" using c by (rule thin_slotE)
    have "slot_live_bytes u \<le> slot_live_bytes t" using assms(2) c t by (simp add: lean_def)
    moreover have "slot_live_bytes t \<le> slot_live_bytes s" using assms(1) a t by (simp add: lean_def)
    ultimately show ?thesis by simp
  qed
  moreover have "thin a c" using assms thin_trans unfolding lean_def by blast
  ultimately show ?thesis by (simp add: lean_def)
qed

lemma lean_thin: "lean b b' \<Longrightarrow> thin b b'"
  by (simp add: lean_def)

lemma lean_same:
  "bk_slots b' = bk_slots b \<Longrightarrow> bk_runtime b' = bk_runtime b \<Longrightarrow> lean b b'"
  by (auto simp: lean_def thin_def slot_at_def)

lemma slot_at_put_slot: "slot_at (put_slot idx x b) k =
    (if k = idx \<and> idx < length (bk_slots b) then x else slot_at b k)"
  by (auto simp: slot_at_def put_slot_def)

lemma put_slot_fields [simp]:
  "bk_runtime (put_slot idx x b) = bk_runtime b"
  "length (bk_slots (put_slot idx x b)) = length (bk_slots b)"
  by (simp_all add: put_slot_def)

lemma thin_put_client:
  "slot_at b idx = Some s \<Longrightarrow> slot_thin s (s\<lparr>slot_client := c\<rparr>) \<Longrightarrow> thin b (put_client idx s c b)"
  by (auto simp: thin_def put_client_def slot_at_put_slot split: if_splits)

lemma lean_put_client:
  "slot_at b idx = Some s \<Longrightarrow> slot_live_bytes (s\<lparr>slot_client := c\<rparr>) \<le> slot_live_bytes s \<Longrightarrow>
   slot_thin s (s\<lparr>slot_client := c\<rparr>) \<Longrightarrow> lean b (put_client idx s c b)"
  by (auto simp: lean_def thin_put_client) (auto simp: put_client_def slot_at_put_slot split: if_splits)

lemma slot_at_reconcile [simp]: "slot_at (reconcile_writer_stall limits now b) k = slot_at b k"
  by (simp add: slot_at_def)

lemma reconcile_lean: "lean b (reconcile_writer_stall limits now b)"
  by (rule lean_same) simp_all

lemma leave_members: "set (members (rt_observers (leave_observers role rt))) \<subseteq> set (members (rt_observers rt))"
  by (auto simp: leave_observers_def leave_def split: conn_role.splits)

lemma disconnected_rights:
  "(ownership (rt_state (reduce_disconnected rt conn role)) = Writer w \<longrightarrow> ownership (rt_state rt) = Writer w) \<and>
   set (members (rt_observers (reduce_disconnected rt conn role))) \<subseteq> set (members (rt_observers rt))"
  by (auto simp: reduce_disconnected_def Let_def revoke_writer_def leave_def
      split: conn_role.splits sum.splits lifecycle.splits)

lemma remove_conn_runtime:
  "bk_runtime (remove_conn limits now idx b) = bk_runtime b \<or>
   (\<exists>s. bk_runtime (remove_conn limits now idx b) =
      reduce_disconnected (leave_observers (slot_role s) (bk_runtime b)) (slot_conn s) (slot_role s))"
  by (auto simp: remove_conn_def Let_def split: option.splits)

lemma leave_ownership: "rt_state (leave_observers role rt) = rt_state rt"
  by (simp add: leave_observers_def split: conn_role.splits)

lemma remove_conn_lean: "lean b (remove_conn limits now idx b)"
proof -
  have slots: "slot_at (remove_conn limits now idx b) k = (if k = idx then None else slot_at b k)" for k
    by (auto simp: slot_at_def)
  have rights: "(\<forall>w. ownership (rt_state (bk_runtime (remove_conn limits now idx b))) = Writer w \<longrightarrow>
        ownership (rt_state (bk_runtime b)) = Writer w) \<and>
      set (members (rt_observers (bk_runtime (remove_conn limits now idx b)))) \<subseteq>
        set (members (rt_observers (bk_runtime b)))"
    using remove_conn_runtime [of limits now idx b]
  proof
    assume "\<exists>s. bk_runtime (remove_conn limits now idx b) =
      reduce_disconnected (leave_observers (slot_role s) (bk_runtime b)) (slot_conn s) (slot_role s)"
    then obtain s where e: "bk_runtime (remove_conn limits now idx b) =
      reduce_disconnected (leave_observers (slot_role s) (bk_runtime b)) (slot_conn s) (slot_role s)" by blast
    show ?thesis
      unfolding e using disconnected_rights [of "leave_observers (slot_role s) (bk_runtime b)" "slot_conn s" "slot_role s"]
        leave_members [of "slot_role s" "bk_runtime b"]
      by (auto simp: leave_ownership)
  qed simp
  then show ?thesis
    by (auto simp: lean_def thin_def slots split: if_splits)
qed

lemma refuse_lean: "lean b (refuse_full_observer limits now len r b)"
  by (auto simp: refuse_full_observer_def intro: remove_conn_lean split: option.splits)

lemma fold_lean: "(\<And>x b. lean b (f x b)) \<Longrightarrow> lean b (fold f xs b)"
  by (induction xs arbitrary: b) (auto intro: lean_trans)

lemma evict_while_lean: "lean b (evict_while pick limits now recipients len b)"
proof (induction pick limits now recipients len b rule: evict_while.induct)
  case (1 pick limits now recipients len b)
  then show ?case
    by (subst evict_while.simps) (auto intro: lean_trans remove_conn_lean split: option.splits)
qed

lemma evict_while_done:
  "aggregate_fanout_fits limits (evict_while pick limits now recipients len b) recipients len \<or>
   pick (evict_while pick limits now recipients len b) = None \<or>
   (\<exists>k. pick (evict_while pick limits now recipients len b) = Some k \<and>
        \<not> slot_live (evict_while pick limits now recipients len b) k)"
proof (induction pick limits now recipients len b rule: evict_while.induct)
  case (1 pick limits now recipients len b)
  then show ?case
    by (subst (1 2 3 4) evict_while.simps) (auto split: option.splits)
qed

section \<open>Flushing a connection with no terminal frame waiting\<close>

definition no_pending :: "broker \<Rightarrow> bool" where
  "no_pending b \<longleftrightarrow> (\<forall>k s. slot_at b k = Some s \<longrightarrow> \<not> cc_draining (slot_client s) \<longrightarrow> slot_terminal_pending s = None)"

lemma no_pending_thin: "thin b b' \<Longrightarrow> no_pending b \<Longrightarrow> no_pending b'"
  unfolding no_pending_def by (metis thin_slotE slot_thin_def)

lemma settled_no_pending: "settled b \<Longrightarrow> no_pending b"
  by (auto simp: settled_def no_pending_def slot_at_def in_set_conv_nth split: if_splits)

lemma flush_out_lean: "flush_out_once os idx b = (r, b') \<Longrightarrow> lean b b'"
proof -
  assume f: "flush_out_once os idx b = (r, b')"
  show "lean b b'"
  proof (cases "slot_at b idx")
    case (Some s)
    obtain q w r' where fl: "flush_with (\<lambda>w bs. prod.swap (sys_call (\<lambda>t. os_send os t (slot_conn s) bs) w))
        (cc_out (slot_client s)) (bk_world b) = (q, w, r')" by (metis prod_cases3)
    have "lean b (put_client idx s ((slot_client s)\<lparr>cc_out := q\<rparr>) b)"
      by (rule lean_put_client [OF Some])
        (use flush_with_live_le [OF fl] in \<open>simp_all add: slot_live_bytes_def slot_thin_def slot_role_def\<close>)
    moreover have "b' = (put_client idx s ((slot_client s)\<lparr>cc_out := q\<rparr>) b)\<lparr>bk_world := w\<rparr>"
      using f Some fl by (simp add: flush_out_once_def)
    moreover have "lean b1 (b1\<lparr>bk_world := w\<rparr>)" for b1 by (rule lean_same) simp_all
    ultimately show ?thesis using lean_trans by blast
  qed (use f in \<open>simp add: flush_out_once_def\<close>)
qed

lemma flush_grant_slots: "flush_lease_grant os idx b = (r, b') \<Longrightarrow> bk_slots b' = bk_slots b \<and> bk_runtime b' = bk_runtime b"
  by (auto simp: flush_lease_grant_def Let_def split: option.splits if_splits lease_phase.splits sum.splits prod.splits)

lemma flush_slot_lean:
  assumes "\<And>s. slot_at b idx = Some s \<Longrightarrow> slot_terminal_pending s = None"
  shows "lean b (flush_slot limits os now idx b)"
proof -
  obtain first b1 where f: "flush_out_once os idx b = (first, b1)" by force
  let ?b2 = "reconcile_writer_stall limits now b1"
  have b2: "lean b ?b2" using flush_out_lean [OF f] reconcile_lean lean_trans by blast
  have pending: "\<not> pending_terminal_fits limits ?b2 idx"
    using lean_thin [OF b2] assms
    by (auto simp: pending_terminal_fits_def slot_thin_def elim!: thin_slotE split: option.splits)
  then have t: "flush_terminal limits os now idx rt ?b2 = (False, ?b2)" for rt
    by (simp add: flush_terminal_def try_queue_terminal_def)
  obtain g b4 where g: "flush_grant limits os now idx (first = Inr True) ?b2 = (g, b4)" by force
  have b4: "lean ?b2 b4"
    using g by (auto simp: flush_grant_def Let_def dest!: flush_grant_slots
        intro: lean_same lean_trans [OF lean_same remove_conn_lean] split: if_splits prod.splits)
  have "lean ?b2 (remove_conn limits now idx ?b2)" "lean b4 (remove_conn limits now idx b4)"
    by (rule remove_conn_lean)+
  with f t g b2 b4 show ?thesis
    by (auto simp: flush_slot_def Let_def intro: lean_trans split: bool.splits)
qed

section \<open>The aggregate\<close>

lemma total_live_slots: "total_live b = (\<Sum>k<length (bk_slots b). case slot_at b k of Some s \<Rightarrow> slot_live_bytes s | None \<Rightarrow> 0)"
proof -
  have "(\<Sum>s\<in>#stock_of xs. f s) = (\<Sum>k<length xs. case xs ! k of Some s \<Rightarrow> f s | None \<Rightarrow> 0)"
    for xs :: "conn_slot option list" and f :: "conn_slot \<Rightarrow> nat"
    by (induction xs) (auto simp: stock_of_Cons sum.lessThan_Suc_shift simp del: sum.lessThan_Suc split: option.splits)
  from this [where xs = "bk_slots b" and f = slot_live_bytes] show ?thesis
    unfolding total_live_def by (simp add: slot_at_def)
qed

lemma lean_total: "lean b b' \<Longrightarrow> total_live b' \<le> total_live b"
proof -
  assume l: "lean b b'"
  then have "length (bk_slots b') = length (bk_slots b)" by (simp add: lean_def thin_def)
  moreover have "(case slot_at b' k of Some s \<Rightarrow> slot_live_bytes s | None \<Rightarrow> 0)
      \<le> (case slot_at b k of Some s \<Rightarrow> slot_live_bytes s | None \<Rightarrow> 0)" for k
  proof (cases "slot_at b' k")
    case (Some s')
    then obtain s where "slot_at b k = Some s" by (rule thin_slotE [OF lean_thin [OF l]])
    with Some l show ?thesis by (simp add: lean_def)
  qed simp
  ultimately show ?thesis
    unfolding total_live_slots by (simp add: sum_mono)
qed

lemma recipient_thin: "thin b b' \<Longrightarrow> recipient_live b' r \<Longrightarrow> recipient_live b r"
proof -
  assume t: "thin b b'" and l: "recipient_live b' r"
  from l obtain s' where s': "slot_at b' (rc_idx r) = Some s'" by (auto simp: recipient_live_def split: option.splits)
  with t obtain s where s: "slot_at b (rc_idx r) = Some s" "slot_thin s s'" by (rule thin_slotE)
  show ?thesis
    using t l s' s unfolding recipient_live_def slot_thin_def thin_def
    by (auto split: recipient_kind.splits)
qed

section \<open>The pushes\<close>

definition room :: "pty_limits \<Rightarrow> broker \<Rightarrow> recipient list \<Rightarrow> usize \<Rightarrow> bool" where
  "room limits b rs len \<longleftrightarrow>
     total_live b + length (filter (recipient_live b) rs) * len \<le> aggregate_queue_bytes limits"

text \<open>The only recipient left is the writer, and every other queue is empty.\<close>

definition alone :: "broker \<Rightarrow> recipient list \<Rightarrow> bool" where
  "alone b rs \<longleftrightarrow> length (filter (recipient_live b) rs) \<le> 1 \<and>
     (\<forall>r \<in> set rs. recipient_live b r \<longrightarrow> rc_kind r = Recipient_Writer \<and>
        (\<forall>k s. slot_at b k = Some s \<longrightarrow> k \<noteq> rc_idx r \<longrightarrow> slot_live_bytes s = 0))"

lemma filter_length_mono: "(\<And>x. P x \<Longrightarrow> Q x) \<Longrightarrow> length (filter P xs) \<le> length (filter Q xs)"
  by (induction xs) (auto simp: le_SucI)

lemma thin_live_count:
  "thin b b' \<Longrightarrow> length (filter (recipient_live b') rs) \<le> length (filter (recipient_live b) rs)"
  by (rule filter_length_mono) (rule recipient_thin)

lemma fits_room: "typed_limits limits \<Longrightarrow> aggregate_fanout_fits limits b rs len \<Longrightarrow> room limits b rs len"
  by (auto simp: aggregate_fanout_fits_def saturating_add_usize_def aggregate_total projected_fanout_bytes_def
      room_def typed_limits_def split: if_splits)

lemma total_only:
  assumes "slot_at b idx = Some s" "\<And>k t. slot_at b k = Some t \<Longrightarrow> k \<noteq> idx \<Longrightarrow> slot_live_bytes t = 0"
  shows "total_live b = slot_live_bytes s"
proof -
  have idx: "idx < length (bk_slots b)" using assms(1) by (auto simp: slot_at_def split: if_splits)
  have "total_live b = (\<Sum>k\<in>{idx}. case slot_at b k of Some s \<Rightarrow> slot_live_bytes s | None \<Rightarrow> 0)"
    unfolding total_live_slots
    by (rule sum.mono_neutral_right) (use idx assms(2) in \<open>auto split: option.splits\<close>)
  then show ?thesis using assms(1) by simp
qed

lemma total_push:
  assumes "slot_at b idx = Some s" "push_out idx s chunk b = (True, b')"
  shows "total_live b' = total_live b + length chunk"
proof -
  obtain q where q: "push_shared (cc_out (slot_client s)) chunk = (q, True)"
    and b': "b' = put_client idx s ((slot_client s)\<lparr>cc_out := q\<rparr>) b"
    using assms(2) by (auto simp: push_out_def split: prod.splits)
  have live: "oq_live_bytes q = slot_live_bytes s + length chunk"
    using q by (auto simp: push_shared_def slot_live_bytes_def checked_add_usize_def split: option.splits if_splits)
  have idx: "idx < length (bk_slots b)" "bk_slots b ! idx = Some s"
    using assms(1) by (auto simp: slot_at_def split: if_splits)
  have st: "add_mset s (stock_of ((bk_slots b)[idx := None])) = stock_of (bk_slots b)"
    by (rule stock_of_take [OF idx])
  have "stock_of ((bk_slots b)[idx := None, idx := Some s']) = add_mset s' (stock_of ((bk_slots b)[idx := None]))" for s'
    by (rule stock_of_put) (use idx in simp_all)
  then show ?thesis
    using live arg_cong [OF st, of "\<lambda>M. \<Sum>s\<in>#M. slot_live_bytes s"]
    by (simp add: total_live_def b' put_client_def put_slot_def) (simp add: slot_live_bytes_def)
qed

lemma room_push:
  assumes "typed_limits limits" "table_inv limits b" "recipient_live b r" "slot_at b (rc_idx r) = Some s"
    and "push_shared (cc_out (slot_client s)) chunk = (q, True)"
    and "room limits b (r # rs) (length chunk) \<or> alone b (r # rs)"
  shows "total_live b + length chunk \<le> aggregate_queue_bytes limits"
  using assms(6)
proof
  assume "room limits b (r # rs) (length chunk)"
  with assms(3) show ?thesis by (simp add: room_def)
next
  assume al: "alone b (r # rs)"
  then have k: "rc_kind r = Recipient_Writer"
    and z: "\<And>k t. slot_at b k = Some t \<Longrightarrow> k \<noteq> rc_idx r \<Longrightarrow> slot_live_bytes t = 0"
    using assms(3) by (auto simp: alone_def)
  have s: "s \<in># stock_of (bk_slots b)"
    using assms(4) by (auto simp: slot_at_def in_set_conv_nth split: if_splits)
  then have ok: "slot_ok limits s" using assms(2) by (simp add: table_inv_def)
  have cap: "oq_cap_bytes (cc_out (slot_client s)) = writer_queue_bytes limits"
    using ok assms(3,4) k by (simp add: slot_ok_def recipient_live_def role_cap_def)
  have tot: "total_live b = slot_live_bytes s" by (rule total_only [OF assms(4) z])
  show ?thesis
  proof (cases "chunk = []")
    case True
    with assms(2) show ?thesis by (simp add: table_inv_def)
  next
    case False
    then have "slot_live_bytes s + length chunk \<le> writer_queue_bytes limits"
      using assms(5) cap by (auto simp: push_shared_def slot_live_bytes_def checked_add_usize_def split: option.splits if_splits)
    with tot assms(1) show ?thesis by (simp add: typed_limits_def)
  qed
qed

lemma alone_rest:
  assumes "alone b (r # rs)" "recipient_live b r" "thin b b'"
  shows "alone b' rs"
proof -
  have "filter (recipient_live b) rs = []" using assms(1,2) by (simp add: alone_def)
  then have "filter (recipient_live b') rs = []"
    using recipient_thin [OF assms(3)] by (auto simp: filter_empty_conv)
  then show ?thesis by (auto simp: alone_def filter_empty_conv)
qed

definition cover :: "pty_limits \<Rightarrow> broker \<Rightarrow> recipient list \<Rightarrow> usize \<Rightarrow> bool" where
  "cover limits b rs len \<longleftrightarrow> (typed_limits limits \<longrightarrow> room limits b rs len \<or> alone b rs)"

lemma cover_skip:
  assumes "cover limits b (r # rs) len" "\<not> recipient_live b r"
  shows "cover limits b rs len"
  using assms by (auto simp: cover_def room_def alone_def)

lemma cover_served:
  assumes "cover limits b (r # rs) len" "recipient_live b r" "thin b b'" "total_live b' \<le> total_live b + len"
  shows "cover limits b' rs len"
proof -
  have "room limits b' rs len" if "room limits b (r # rs) len"
  proof -
    define n n' where "n = length (filter (recipient_live b) rs)" and "n' = length (filter (recipient_live b') rs)"
    have "n' * len \<le> n * len"
      unfolding n_def n'_def using thin_live_count [OF assms(3)] by (rule mult_le_mono1)
    moreover have "total_live b + (len + n * len) \<le> aggregate_queue_bytes limits"
      using that assms(2) by (simp add: room_def n_def)
    ultimately have "total_live b' + n' * len \<le> aggregate_queue_bytes limits" using assms(4) by linarith
    then show ?thesis by (simp add: room_def n'_def)
  qed
  with assms(1) alone_rest [OF _ assms(2,3)] show ?thesis by (auto simp: cover_def)
qed

lemma live_slot: "recipient_live b r \<Longrightarrow> \<exists>s. slot_at b (rc_idx r) = Some s \<and> \<not> cc_draining (slot_client s)"
  by (auto simp: recipient_live_def split: option.splits)

lemma push_out_thin: "slot_at b idx = Some s \<Longrightarrow> push_out idx s chunk b = (ok, b') \<Longrightarrow> thin b b'"
  by (auto simp: push_out_def slot_thin_def slot_role_def intro!: thin_put_client split: prod.splits)

lemma push_out_False: "slot_at b idx = Some s \<Longrightarrow> push_out idx s chunk b = (False, b') \<Longrightarrow> b' = b"
proof -
  assume s: "slot_at b idx = Some s" and p: "push_out idx s chunk b = (False, b')"
  then have "b' = put_slot idx (Some s) b"
    by (auto simp: push_out_def put_client_def dest!: push_shared_False split: prod.splits)
  also have "(bk_slots b)[idx := Some s] = bk_slots b"
    using s by (metis list_update_id option.distinct(1) slot_at_def)
  then have "put_slot idx (Some s) b = b" by (simp add: put_slot_def)
  finally show ?thesis .
qed

lemma deliver_steps:
  assumes "no_pending b" "cover limits b (r # rs) (length encoded)"
  shows "bsteps limits {} b (deliver_output limits os now encoded r b) \<and>
    no_pending (deliver_output limits os now encoded r b) \<and>
    cover limits (deliver_output limits os now encoded r b) rs (length encoded)"
proof (cases "recipient_live b r")
  case False
  with assms cover_skip [OF assms(2)] show ?thesis by (simp add: deliver_output_def)
next
  case live: True
  then obtain s where s: "slot_at b (rc_idx r) = Some s" "\<not> cc_draining (slot_client s)" using live_slot by blast
  obtain ok b1 where p: "push_out (rc_idx r) s encoded b = (ok, b1)" by force
  note thin1 = push_out_thin [OF s(1) p]
  show ?thesis
  proof (cases ok)
    case False
    then have b1: "b1 = b" using push_out_False [OF s(1)] p by simp
    have eq: "deliver_output limits os now encoded r b = remove_conn limits now (rc_idx r) b"
      using live s p False b1 by (simp add: deliver_output_def)
    have l: "lean b (remove_conn limits now (rc_idx r) b)" by (rule remove_conn_lean)
    show ?thesis
      unfolding eq using cover_served [OF assms(2) live lean_thin [OF l]] lean_total [OF l]
        no_pending_thin [OF lean_thin [OF l] assms(1)]
      by (auto intro!: step_intros)
  next
    case True
    have b1: "bsteps limits {} b b1"
    proof (rule push_out_steps [OF rtranclp.rtrancl_refl s(1) p])
      assume t: "typed_limits limits" "table_inv limits b"
      obtain q where "push_shared (cc_out (slot_client s)) encoded = (q, True)"
        using p True by (auto simp: push_out_def split: prod.splits)
      from room_push [OF t live s(1) this] assms(2) t(1)
      show "total_live b + length encoded \<le> aggregate_queue_bytes limits" by (simp add: cover_def)
    qed
    let ?b2 = "reconcile_writer_stall limits now b1" and ?b3 = "flush_slot limits os now (rc_idx r) (reconcile_writer_stall limits now b1)"
    have eq: "deliver_output limits os now encoded r b = ?b3"
      using live s p True by (simp add: deliver_output_def)
    have "slot_terminal_pending t = None" if "slot_at ?b2 (rc_idx r) = Some t" for t
    proof -
      have "slot_at b1 (rc_idx r) = Some t" using that by simp
      then obtain u where "slot_at b (rc_idx r) = Some u" "slot_thin u t" by (rule thin_slotE [OF thin1])
      with s assms(1) show ?thesis by (auto simp: no_pending_def slot_thin_def)
    qed
    then have l3: "lean ?b2 ?b3" by (rule flush_slot_lean)
    have l: "lean b1 ?b3" using reconcile_lean l3 by (rule lean_trans)
    have t3: "thin b ?b3" using thin1 lean_thin [OF l] by (rule thin_trans)
    have "total_live ?b3 \<le> total_live b + length encoded"
      using lean_total [OF l] total_push [OF s(1)] p True by simp
    with cover_served [OF assms(2) live t3] b1 no_pending_thin [OF t3 assms(1)] show ?thesis
      unfolding eq by (auto intro!: step_intros)
  qed
qed

lemma deliver_all_steps:
  "no_pending b \<Longrightarrow> cover limits b rs (length encoded) \<Longrightarrow>
   bsteps limits {} b (fold (deliver_output limits os now encoded) rs b)"
proof (induction rs arbitrary: b)
  case (Cons r rs)
  from deliver_steps [OF Cons.prems, of os now] Cons.IH show ?case
    by (auto intro: rtranclp_trans)
qed simp

section \<open>Making room\<close>

lemma fullest_observer_None:
  "fullest_observer b None False ids best = None \<Longrightarrow>
   best = None \<and> (\<forall>i \<in> set ids. resolve_observer b i = None)"
proof (induction ids arbitrary: best)
  case (Cons i ids)
  from Cons.IH [OF Cons.prems [unfolded fullest_observer.simps]] show ?case
    by (auto split: option.splits if_splits simp: resolve_observer_def slot_at_def dest!: position_Some)
qed simp

lemma no_observer_left:
  assumes "most_full_observer b None False = None" "recipient_live b r"
  shows "rc_kind r = Recipient_Writer"
proof (rule ccontr)
  assume "rc_kind r \<noteq> Recipient_Writer"
  then have k: "rc_kind r = Recipient_Observer" by (cases "rc_kind r") auto
  obtain s where s: "slot_at b (rc_idx r) = Some s" using live_slot [OF assms(2)] by blast
  have r: "rc_client_id r \<in> set (members (rt_observers (bk_runtime b)))" "slot_role s = ConnRole_Observer (rc_client_id r)"
    using assms(2) k s by (auto simp: recipient_live_def)
  have "Some s \<in> set (bk_slots b)" using s by (auto simp: slot_at_def in_set_conv_nth split: if_splits)
  with r(2) have "resolve_observer b (rc_client_id r) \<noteq> None"
    unfolding resolve_observer_def position_None list_all_iff by force
  with fullest_observer_None [of b] assms(1) r(1) show False by (auto simp: most_full_observer_def)
qed

lemma fullest_non_writer_None:
  "fullest_non_writer w es best = None \<Longrightarrow>
   best = None \<and> (\<forall>idx s. (idx, Some s) \<in> set es \<longrightarrow> Some idx \<noteq> w \<longrightarrow> slot_live_bytes s = 0)"
proof (induction es arbitrary: best)
  case (Cons e es)
  obtain i x where e: "e = (i, x)" by force
  from Cons.IH [OF Cons.prems [unfolded e fullest_non_writer.simps]] show ?case
    by (auto simp: e split: option.splits if_splits)
qed simp

lemma others_empty:
  assumes "most_full_non_writer_queue b = None" "eligible_writer_slot b = Some (w, i)"
    and "slot_at b k = Some s" "k \<noteq> w"
  shows "slot_live_bytes s = 0"
proof -
  have "(k, Some s) \<in> set (enumerate 0 (bk_slots b))"
    using assms(3) by (auto simp: slot_at_def in_set_enumerate_eq split: if_splits)
  with assms(1,2,4) fullest_non_writer_None show ?thesis
    unfolding most_full_non_writer_queue_def by fastforce
qed

lemma position_first:
  "position p xs = Some k \<longleftrightarrow> k < length xs \<and> p (xs ! k) \<and> (\<forall>j < k. \<not> p (xs ! j))"
proof (induction xs arbitrary: k)
  case (Cons x xs)
  then show ?case by (cases k) (auto simp: less_Suc_eq_0_disj nth_Cons')
qed simp

abbreviation eligible_for :: "u32 \<Rightarrow> conn_slot option \<Rightarrow> bool" where
  "eligible_for w \<equiv> \<lambda>s. case s of
     Some s \<Rightarrow> \<not> cc_draining (slot_client s) \<and> slot_role s = ConnRole_Writer w | None \<Rightarrow> False"

lemma eligible_slot_eq:
  "eligible_writer_slot b = Some (idx, w) \<longleftrightarrow>
   ownership (rt_state (bk_runtime b)) = Writer w \<and> position (eligible_for w) (bk_slots b) = Some idx"
  by (auto simp: eligible_writer_slot_def split: ownership.splits)

text \<open>The writer captured first stays the eligible one while it lives.\<close>

lemma eligible_stays:
  assumes "eligible_writer_slot b = Some (idx, w)" "thin b b'"
    and "recipient_live b' r" "rc_idx r = idx" "rc_client_id r = w" "rc_kind r = Recipient_Writer"
  shows "eligible_writer_slot b' = Some (idx, w)"
proof -
  obtain s' where s': "slot_at b' idx = Some s'" "\<not> cc_draining (slot_client s')" "slot_role s' = ConnRole_Writer w"
    and own: "ownership (rt_state (bk_runtime b')) = Writer w"
    using assms(3-6) by (auto simp: recipient_live_def split: option.splits)
  have first: "\<And>j. j < idx \<Longrightarrow> \<not> eligible_for w (bk_slots b ! j)" "idx < length (bk_slots b)"
    using assms(1) by (auto simp: eligible_slot_eq position_first)
  have "\<not> eligible_for w (bk_slots b' ! j)" if j: "j < idx" for j
  proof (cases "bk_slots b' ! j")
    case (Some t')
    have len: "length (bk_slots b') = length (bk_slots b)" using assms(2) by (simp add: thin_def)
    then have "slot_at b' j = Some t'" using Some j first(2) by (simp add: slot_at_def)
    then obtain t where t: "slot_at b j = Some t" "slot_thin t t'" by (rule thin_slotE [OF assms(2)])
    then have "bk_slots b ! j = Some t" by (simp add: slot_at_def split: if_splits)
    with first(1) [OF j] t(2) Some show ?thesis by (simp add: slot_thin_def)
  qed simp
  with s' own show ?thesis
    by (auto simp: eligible_slot_eq position_first slot_at_def split: if_splits)
qed

lemma refuse_steps [step_intros]:
  "bsteps limits perm a b \<Longrightarrow> bsteps limits perm a (refuse_full_observer limits now len r b)"
  by (auto simp: refuse_full_observer_def intro: step_intros split: option.splits)

lemma evict_while_steps [step_intros]:
  "bsteps limits perm a b \<Longrightarrow> bsteps limits perm a (evict_while pick limits now recipients len b)"
proof (induction pick limits now recipients len b rule: evict_while.induct)
  case (1 pick limits now recipients len b)
  then show ?case
    by (subst evict_while.simps) (auto intro: step_intros split: option.splits)
qed

lemma set_map_filter: "r \<in> set (List.map_filter f xs) \<longleftrightarrow> (\<exists>x \<in> set xs. f x = Some r)"
  by (induction xs) (auto simp: List.map_filter_simps split: option.splits)

text \<open>The writer, if any, is the first recipient; the others are observers.\<close>

lemma captured_split:
  obtains ws obs where "capture_recipients b = ws @ obs"
    "ws = [] \<or> (\<exists>r. ws = [r] \<and> rc_kind r = Recipient_Writer \<and>
       eligible_writer_slot b = Some (rc_idx r, rc_client_id r))"
    "\<forall>r \<in> set obs. rc_kind r = Recipient_Observer"
proof -
  let ?f = "\<lambda>client_id. case resolve_observer b client_id of
      None \<Rightarrow> None
    | Some idx \<Rightarrow>
        (case slot_at b idx of
           Some s \<Rightarrow>
             if cc_draining (slot_client s) then None
             else Some \<lparr>rc_idx = idx, rc_conn = slot_conn s, rc_client_id = client_id,
                        rc_kind = Recipient_Observer\<rparr>
         | None \<Rightarrow> None)"
  have kind: "rc_kind r = Recipient_Observer" if "?f x = Some r" for x r
  proof -
    from that obtain idx where i: "resolve_observer b x = Some idx" by (cases "resolve_observer b x") auto
    with that obtain s where "slot_at b idx = Some s" by (cases "slot_at b idx") auto
    with that i show ?thesis by (auto split: if_splits)
  qed
  have "rc_kind r = Recipient_Observer"
    if m: "r \<in> set (List.map_filter ?f (members (rt_observers (bk_runtime b))))" for r
  proof -
    from m obtain x where "?f x = Some r" unfolding set_map_filter by blast
    then show ?thesis by (rule kind)
  qed
  then show thesis
    by (intro that [OF capture_recipients_def]) (auto split: option.splits)
qed

lemma captured_writer:
  assumes "r \<in> set (capture_recipients b)" "rc_kind r = Recipient_Writer"
  shows "eligible_writer_slot b = Some (rc_idx r, rc_client_id r)"
  using captured_split [of b] assms by (metis Un_iff list.set(1) list.set(2) recipient_kind.distinct(1)
      set_append singletonD empty_iff)

lemma captured_one_writer:
  "length (filter (\<lambda>r. rc_kind r = Recipient_Writer) (capture_recipients b)) \<le> 1"
proof -
  obtain ws obs where c: "capture_recipients b = ws @ obs" "length ws \<le> 1"
    "\<forall>r \<in> set obs. rc_kind r = Recipient_Observer"
  proof (rule captured_split [of b])
    fix ws obs
    assume c: "capture_recipients b = ws @ obs"
      and w: "ws = [] \<or> (\<exists>r. ws = [r] \<and> rc_kind r = Recipient_Writer \<and>
        eligible_writer_slot b = Some (rc_idx r, rc_client_id r))"
      and o: "\<forall>r \<in> set obs. rc_kind r = Recipient_Observer"
    from w have "length ws \<le> 1" by auto
    from that [OF c this o] show thesis .
  qed
  then have "filter (\<lambda>r. rc_kind r = Recipient_Writer) obs = []" by (simp add: filter_empty_conv)
  with c(1,2) show ?thesis by (simp add: le_trans [OF length_filter_le])
qed

lemma fan_out_covered:
  assumes "b3 = (if writer_survives
      then evict_while most_full_non_writer_queue limits now (capture_recipients b) len b2 else b2)"
    and "b2 = evict_while (\<lambda>b. most_full_observer b None False) limits now (capture_recipients b) len b1"
    and "writer_survives = list_ex (\<lambda>r. rc_kind r = Recipient_Writer \<and> recipient_live b2 r) (capture_recipients b)"
    and "lean b b1"
  shows "cover limits b3 (capture_recipients b) len \<and> lean b b3"
proof -
  let ?rs = "capture_recipients b"
  have l2: "lean b1 b2" unfolding assms(2) by (rule evict_while_lean)
  have l3: "lean b2 b3" unfolding assms(1) by (auto intro: evict_while_lean)
  have t3: "lean b b3" using assms(4) l2 l3 by (blast intro: lean_trans)
  have "typed_limits limits \<Longrightarrow> room limits b3 ?rs len \<or> alone b3 ?rs"
  proof -
    assume ty: "typed_limits limits"
    consider "aggregate_fanout_fits limits b2 ?rs len" | "most_full_observer b2 None False = None"
      using evict_while_done [of limits "\<lambda>b. most_full_observer b None False" now ?rs len b1]
      unfolding assms(2) [symmetric] by (auto dest: most_full_observer_live)
    then show ?thesis
    proof cases
      case 1
      then have "b3 = b2" by (simp add: assms(1) evict_while.simps)
      with 1 fits_room [OF ty] show ?thesis by simp
    next
      case 2
      have w: "rc_kind r = Recipient_Writer" if "recipient_live b3 r" for r
        using no_observer_left [OF 2 recipient_thin [OF lean_thin [OF l3] that]] .
      have one: "length (filter (recipient_live b3) ?rs) \<le> 1"
        using filter_length_mono [of "recipient_live b3" "\<lambda>r. rc_kind r = Recipient_Writer" ?rs] w
          captured_one_writer [of b] by auto
      show ?thesis
      proof (cases "writer_survives")
        case False
        then have "\<not> recipient_live b3 r" if "r \<in> set ?rs" for r
          using that w recipient_thin [OF lean_thin [OF l3]] unfolding assms(3) list_ex_iff by blast
        with one show ?thesis by (auto simp: alone_def)
      next
        case True
        consider "aggregate_fanout_fits limits b3 ?rs len" | "most_full_non_writer_queue b3 = None"
          using evict_while_done [of limits most_full_non_writer_queue now ?rs len b2]
            most_full_non_writer_live True assms(1) by auto
        then show ?thesis
        proof cases
          case 1
          with fits_room [OF ty] show ?thesis by simp
        next
          case none: 2
          have "slot_live_bytes s = 0" if r: "r \<in> set ?rs" "recipient_live b3 r"
            and s: "slot_at b3 k = Some s" "k \<noteq> rc_idx r" for r k s
          proof -
            have "eligible_writer_slot b3 = Some (rc_idx r, rc_client_id r)"
              by (rule eligible_stays [OF captured_writer [OF r(1) w [OF r(2)]] lean_thin [OF t3] r(2)])
                (simp_all add: w [OF r(2)])
            from others_empty [OF none this s] show ?thesis .
          qed
          with one w show ?thesis by (auto simp: alone_def)
        qed
      qed
    qed
  qed
  with t3 show ?thesis by (simp add: cover_def)
qed

lemma fan_out_steps:
  assumes "no_pending b"
  shows "bsteps limits {} b (fan_out_output limits os now output b)"
proof -
  let ?encoded = "encode_frame (Frame_Output output)" and ?rs = "capture_recipients b"
  define len where "len = length ?encoded"
  define b1 where "b1 = fold (refuse_full_observer limits now len) ?rs b"
  define b2 where "b2 = evict_while (\<lambda>b. most_full_observer b None False) limits now ?rs len b1"
  define ws where "ws = list_ex (\<lambda>r. rc_kind r = Recipient_Writer \<and> recipient_live b2 r) ?rs"
  define b3 where "b3 = (if ws then evict_while most_full_non_writer_queue limits now ?rs len b2 else b2)"
  have eq: "fan_out_output limits os now output b =
      (if ?rs = [] then b else fold (deliver_output limits os now ?encoded) ?rs b3)"
    by (simp add: fan_out_output_def Let_def b3_def ws_def b2_def b1_def len_def)
  have "lean b b1" unfolding b1_def by (rule fold_lean) (rule refuse_lean)
  from fan_out_covered [OF b3_def b2_def ws_def this] have c: "cover limits b3 ?rs len" "lean b b3" by auto
  have "bsteps limits {} b b1" unfolding b1_def by (intro fold_steps step_intros rtranclp.rtrancl_refl)
  then have "bsteps limits {} b b3" unfolding b3_def b2_def by (auto intro: step_intros)
  moreover have "bsteps limits {} b3 (fold (deliver_output limits os now ?encoded) ?rs b3)"
    by (rule deliver_all_steps [OF no_pending_thin [OF lean_thin [OF c(2)] assms]]) (use c(1) len_def in simp)
  ultimately show ?thesis unfolding eq by (auto intro: rtranclp_trans)
qed

end
