(* ===== verification/Pty_Broker_Table.thy ===== *)
theory Pty_Broker_Table
  imports Pty_Broker_Fanout
begin

text \<open>
  The invariants of the broker, checked on its primitive changes: the connection table's bounds and
  ids, the kill escalation, the PTY lease, and the end of the broker.
\<close>

section \<open>The connection table\<close>

lemma stock_of_swap:
  "k < length xs \<Longrightarrow> xs ! k = Some y \<Longrightarrow> stock_of (xs[k := Some z]) = add_mset z (stock_of (xs[k := None]))"
  using stock_of_put [of k "xs[k := None]" z] by simp

lemma table_split:
  assumes "slot_at b idx = Some s"
  obtains M where "stock_of (bk_slots b) = add_mset s M"
    "stock_of ((bk_slots b)[idx := None]) = M"
    "\<And>s'. stock_of ((bk_slots b)[idx := Some s']) = add_mset s' M"
proof -
  have k: "idx < length (bk_slots b)" "bk_slots b ! idx = Some s"
    using assms by (auto simp: slot_at_def split: if_splits)
  show thesis
    by (rule that [of "stock_of ((bk_slots b)[idx := None])"])
      (simp_all add: stock_of_take [OF k] stock_of_swap [OF k])
qed

text \<open>The table's invariant over what the table holds.\<close>

definition stock_inv :: "pty_limits \<Rightarrow> conn_id \<Rightarrow> nat \<Rightarrow> conn_slot multiset \<Rightarrow> bool" where
  "stock_inv limits nxt closed M \<longleftrightarrow>
     (\<forall>s \<in># M. slot_ok limits s \<and> slot_conn s < nxt) \<and> once (image_mset slot_conn M) \<and>
     (\<Sum>s\<in>#M. slot_live_bytes s) \<le> aggregate_queue_bytes limits \<and>
     size M \<le> max_connections limits \<and> unat nxt = Suc (closed + size M)"

lemma table_stock: "table_inv limits b \<longleftrightarrow>
    stock_inv limits (bk_next_conn_id b) (bk_closed_total b) (stock_of (bk_slots b))"
  by (simp add: table_inv_def stock_inv_def total_live_def connection_count_def)

lemma stock_swap:
  assumes "stock_inv limits nxt closed (add_mset s M)" "slot_conn s' = slot_conn s" "slot_ok limits s'"
    and "slot_live_bytes s' + (\<Sum>s\<in>#M. slot_live_bytes s) \<le> aggregate_queue_bytes limits"
  shows "stock_inv limits nxt closed (add_mset s' M)"
  using assms by (simp add: stock_inv_def)

lemma stock_remove: "stock_inv limits nxt closed (add_mset s M) \<Longrightarrow> stock_inv limits nxt (Suc closed) M"
  unfolding stock_inv_def
  using once_minus [of "add_mset (slot_conn s) (image_mset slot_conn M)" "{#slot_conn s#}"] by simp

lemma push_live:
  "push_shared q chunk = (q', True) \<Longrightarrow> oq_live_bytes q' = oq_live_bytes q + length chunk"
  by (auto simp: push_shared_def checked_add_usize_def split: option.splits if_splits)

lemma push_keeps:
  "push_shared q chunk = (q', True) \<Longrightarrow> out_inv q \<Longrightarrow> out_inv q' \<and> oq_cap_bytes q' = oq_cap_bytes q"
  using outq.push_inv [of q chunk] by (auto simp: push_shared_def split: option.splits if_splits)

lemma slot_ok_push:
  "slot_ok limits s \<Longrightarrow> push_shared (cc_out (slot_client s)) chunk = (q, True) \<Longrightarrow>
   slot_ok limits (s\<lparr>slot_client := (slot_client s)\<lparr>cc_out := q\<rparr>\<rparr>)"
  using push_keeps [of "cc_out (slot_client s)" chunk q] by (simp add: slot_ok_def slot_role_def)

lemma slot_ok_new:
  assumes "typed_limits limits"
  shows "slot_ok limits \<lparr>slot_conn = c, slot_client = conn_new limits, slot_terminal_pending = None\<rparr>"
  using assms
  by (simp add: slot_ok_def conn_new_def slot_role_def role_cap_def typed_limits_def out_new_inv)
    (simp add: input_inv_def input_new_def input_abs_def out_inv_def out_content_def mark_front_def
      out_new_def reader_inv_def reader_new_def)

lemma stock_insert:
  assumes "stock_inv limits nxt closed M" "typed_limits limits" "size M < max_connections limits" "nxt \<noteq> - 1"
  shows "stock_inv limits (nxt + 1) closed
    (add_mset \<lparr>slot_conn = nxt, slot_client = conn_new limits, slot_terminal_pending = None\<rparr> M)"
proof -
  have nz: "nxt + 1 \<noteq> 0" using assms(4) by (metis add_eq_0_iff2)
  then have u: "unat (nxt + 1) = Suc (unat nxt)" using unatSuc [of nxt] by (simp add: add.commute)
  have "nxt \<notin># image_mset slot_conn M" using assms(1) by (auto simp: stock_inv_def)
  moreover have "slot_conn s < nxt + 1" if "s \<in># M" for s
    using that assms(1) u by (auto simp: stock_inv_def word_less_nat_alt)
  moreover have "nxt < nxt + 1" by (simp add: word_less_nat_alt u)
  ultimately show ?thesis
    using assms(1,3) u slot_ok_new [OF assms(2), of nxt]
    by (auto simp: stock_inv_def slot_live_bytes_def conn_new_def out_new_def)
qed

lemma insert_conn_stock: "stock_of (bk_slots (insert_conn limits c b))
    = add_mset \<lparr>slot_conn = c, slot_client = conn_new limits, slot_terminal_pending = None\<rparr> (stock_of (bk_slots b))"
proof -
  have app: "stock_of (xs @ [Some y]) = add_mset y (stock_of xs)" for xs and y :: conn_slot
    by (induction xs) (auto simp: stock_of_Cons split: option.splits)
  show ?thesis
    by (auto simp: insert_conn_def Let_def app stock_of_position_put split: option.splits)
qed

lemma table_step:
  assumes "bstep limits perm b b'" "typed_limits limits" "table_inv limits b"
  shows "table_inv limits b'"
  using assms(1)
proof (cases rule: bstep.cases)
  case step_core
  then show ?thesis using assms(3) by (simp add: table_stock same_core_def)
next
  case (step_touch idx s s')
  obtain M where M: "stock_of (bk_slots b) = add_mset s M"
    "\<And>s'. stock_of ((bk_slots b)[idx := Some s']) = add_mset s' M" by (rule table_split [OF step_touch(2)]) blast
  have "slot_ok limits s" "slot_live_bytes s + (\<Sum>s\<in>#M. slot_live_bytes s) \<le> aggregate_queue_bytes limits"
    using assms(3) M(1) by (auto simp: table_stock stock_inv_def)
  with step_touch(3) assms(2,3) M show ?thesis
    unfolding step_touch(1) by (auto simp: table_stock put_slot_def slot_le_def intro: stock_swap [of _ _ _ s])
next
  case (step_push idx s chunk q)
  obtain M where M: "stock_of (bk_slots b) = add_mset s M"
    "\<And>s'. stock_of ((bk_slots b)[idx := Some s']) = add_mset s' M" by (rule table_split [OF step_push(2)]) blast
  have "slot_ok limits s" using assms(3) M(1) by (auto simp: table_stock stock_inv_def)
  with step_push M assms(2,3) show ?thesis
    by (auto simp: table_stock put_client_def put_slot_def slot_ok_push slot_live_bytes_def total_live_def
        dest: push_live intro!: stock_swap [of _ _ _ s])
next
  case (step_pend idx s f)
  obtain M where M: "stock_of (bk_slots b) = add_mset s M"
    "\<And>s'. stock_of ((bk_slots b)[idx := Some s']) = add_mset s' M" by (rule table_split [OF step_pend(2)]) blast
  have "slot_ok limits s" "slot_live_bytes s + (\<Sum>s\<in>#M. slot_live_bytes s) \<le> aggregate_queue_bytes limits"
    using assms(3) M(1) by (auto simp: table_stock stock_inv_def)
  with step_pend M assms(3) show ?thesis
    by (auto simp: table_stock put_slot_def slot_ok_def slot_role_def slot_live_bytes_def
        intro: stock_swap [of _ _ _ s])
next
  case (step_remove idx s)
  obtain M where M: "stock_of (bk_slots b) = add_mset s M" "stock_of ((bk_slots b)[idx := None]) = M"
    by (rule table_split [OF step_remove(2)]) blast
  with step_remove assms(3) show ?thesis by (auto simp: table_stock put_slot_def intro: stock_remove)
next
  case step_insert
  then have "size (stock_of (bk_slots b)) < max_connections limits" by (simp add: connection_count_def)
  with step_insert stock_insert [of limits "bk_next_conn_id b" "bk_closed_total b" "stock_of (bk_slots b)"] assms
  show ?thesis by (simp add: table_stock insert_conn_stock) (simp add: insert_conn_def Let_def)
qed (use assms(3) in \<open>simp_all add: table_stock\<close>)

lemma table_steps: "bsteps limits perm b b' \<Longrightarrow> typed_limits limits \<Longrightarrow> table_inv limits b \<Longrightarrow> table_inv limits b'"
  by (induction rule: rtranclp_induct) (auto intro: table_step)

section \<open>The kill escalation\<close>

text \<open>\<open>marks\<close> are the escalation's signals: at most one SIGTERM, then at most one SIGKILL, not before the
  grace has passed.\<close>

definition kill_state :: "pty_limits \<Rightarrow> sys_mark list \<Rightarrow> kill_phase \<Rightarrow> sys_mark list \<Rightarrow> bool" where
  "kill_state limits base ph marks \<longleftrightarrow>
     (case ph of
        Kill_Idle \<Rightarrow> marks = base
      | Kill_TermSent d \<Rightarrow>
          (\<exists>t. marks = base @ [Mark_Term t] \<and> d = saturating_add_ms t (kill_grace_ms limits))
      | _ \<Rightarrow> (\<exists>t k. marks = base @ [Mark_Term t, Mark_Kill k] \<and>
                  saturating_add_ms t (kill_grace_ms limits) \<le> k))"

definition kill_inv :: "pty_limits \<Rightarrow> sys_mark list \<Rightarrow> broker \<Rightarrow> bool" where
  "kill_inv limits base b \<longleftrightarrow> kill_state limits base (bk_kill_phase b) (kill_marks (bk_world b))"

lemma kill_step: "bstep limits perm b b' \<Longrightarrow> kill_inv limits base b \<Longrightarrow> kill_inv limits base b'"
proof (induction rule: bstep.induct)
  case (step_core b b')
  then show ?case by (simp add: kill_inv_def same_core_def)
next
  case (step_insert b)
  then show ?case by (simp add: kill_inv_def insert_conn_def Let_def)
next
  case (step_kill b d w)
  then show ?case by (auto simp: kill_inv_def kill_state_def)
qed (simp_all add: kill_inv_def put_slot_def put_client_def kill_state_def)

lemma kill_steps: "bsteps limits perm b b' \<Longrightarrow> kill_inv limits base b \<Longrightarrow> kill_inv limits base b'"
  by (induction rule: rtranclp_induct) (auto intro: kill_step)

section \<open>The end of the broker\<close>

definition end_inv :: "broker \<Rightarrow> bool" where
  "end_inv b \<longleftrightarrow> bk_finalized b \<longrightarrow> bk_shutdown_requested b \<and> bk_exit b \<noteq> None \<and> connection_count b = 0"

lemma count_put: "slot_at b idx = Some s \<Longrightarrow> connection_count (put_slot idx (Some s') b) = connection_count b"
  by (rule table_split, assumption)
    (simp add: connection_count_def put_slot_def flip: size_stock_of)

lemma count_take: "slot_at b idx = Some s \<Longrightarrow> connection_count (put_slot idx None b) \<le> connection_count b"
  by (rule table_split, assumption)
    (simp add: connection_count_def put_slot_def flip: size_stock_of)

lemma put_slot_end [simp]:
  "bk_finalized (put_slot idx x b) = bk_finalized b" "bk_exit (put_slot idx x b) = bk_exit b"
  "bk_shutdown_requested (put_slot idx x b) = bk_shutdown_requested b"
  by (simp_all add: put_slot_def)

lemma end_step: "bstep limits perm b b' \<Longrightarrow> May_Insert \<notin> perm \<Longrightarrow> end_inv b \<Longrightarrow> end_inv b'"
proof (induction rule: bstep.induct)
  case (step_core b b')
  then show ?case by (simp add: end_inv_def same_core_def connection_count_def)
next
  case (step_remove b idx s)
  then show ?case using count_take [of b idx s] by (auto simp: end_inv_def connection_count_def)
qed (simp_all add: end_inv_def count_put put_client_def, simp_all add: connection_count_def)

lemma end_steps: "bsteps limits perm b b' \<Longrightarrow> May_Insert \<notin> perm \<Longrightarrow> end_inv b \<Longrightarrow> end_inv b'"
  by (induction rule: rtranclp_induct) (auto intro: end_step)

text \<open>The outcome is decided once.\<close>

lemma exit_step: "bstep limits perm b b' \<Longrightarrow> bk_finalized b \<Longrightarrow> bk_finalized b' \<and> bk_exit b' = bk_exit b"
  by (induction rule: bstep.induct)
    (auto simp: same_core_def put_slot_def put_client_def insert_conn_def Let_def)

lemma exit_steps: "bsteps limits perm b b' \<Longrightarrow> bk_finalized b \<Longrightarrow> bk_finalized b' \<and> bk_exit b' = bk_exit b"
  by (induction rule: rtranclp_induct) (use exit_step in fastforce)+

section \<open>The PTY lease\<close>

definition lease_state :: "u64 \<Rightarrow> pty_lease option \<Rightarrow> bool" where
  "lease_state nxt lease \<longleftrightarrow> nxt \<noteq> 0 \<and>
     (case lease of None \<Rightarrow> True
      | Some l \<Rightarrow> 0 < lo_lease_id (pl_owner l) \<and> lo_lease_id (pl_owner l) < nxt)"

definition lease_inv :: "broker \<Rightarrow> bool" where
  "lease_inv b \<longleftrightarrow> lease_state (bk_next_lease_id b) (bk_lease b)"

lemma next_lease: "x \<noteq> - 1 \<Longrightarrow> x + 1 \<noteq> 0 \<and> x < x + 1" for x :: u64
proof -
  assume "x \<noteq> - 1"
  then have "x + 1 \<noteq> 0" by (metis add_eq_0_iff2)
  then show ?thesis using unatSuc [of x] by (simp add: word_less_nat_alt add.commute)
qed

lemma lease_step: "bstep limits perm b b' \<Longrightarrow> lease_inv b \<Longrightarrow> lease_inv b' \<and> bk_next_lease_id b \<le> bk_next_lease_id b'"
proof (induction rule: bstep.induct)
  case (step_lease_id b)
  then show ?case using next_lease [of "bk_next_lease_id b"]
    by (auto simp: lease_inv_def lease_state_def split: option.splits)
next
  case (step_grant b l)
  then have "lo_lease_id (pl_owner l) \<noteq> - 1" by (auto simp: lease_inv_def lease_state_def)
  from next_lease [OF this] step_grant show ?case
    by (auto simp: lease_inv_def lease_state_def word_neq_0_conv)
next
  case (step_forward b l l')
  then show ?case by (auto simp: lease_inv_def lease_state_def lease_forward_def)
next
  case (step_core b b')
  then show ?case by (simp add: lease_inv_def same_core_def)
next
  case (step_insert b)
  then show ?case by (simp add: lease_inv_def insert_conn_def Let_def)
qed (simp_all add: lease_inv_def lease_state_def put_slot_def put_client_def)

lemma lease_steps: "bsteps limits perm b b' \<Longrightarrow> lease_inv b \<Longrightarrow> lease_inv b' \<and> bk_next_lease_id b \<le> bk_next_lease_id b'"
  by (induction rule: rtranclp_induct) (use lease_step in \<open>fastforce intro: order_trans\<close>)+

text \<open>Without \<open>May_End\<close> a lease whose descriptor may be live in the peer stays, and without \<open>May_Grant\<close>
  none appears.\<close>

definition lease_kept :: "broker \<Rightarrow> broker \<Rightarrow> bool" where
  "lease_kept b b' \<longleftrightarrow>
     (case bk_lease b of
        None \<Rightarrow> True
      | Some l \<Rightarrow> \<not> descriptor_may_be_live_in_peer l \<or>
          (case bk_lease b' of None \<Rightarrow> False | Some l' \<Rightarrow> lease_forward l l'))"

lemma forward_refl [simp]: "lease_forward l l"
  by (simp add: lease_forward_def)

lemma forward_trans: "lease_forward k l \<Longrightarrow> lease_forward l m \<Longrightarrow> lease_forward k m"
  by (auto simp: lease_forward_def)

lemma forward_live: "lease_forward l l' \<Longrightarrow> descriptor_may_be_live_in_peer l \<Longrightarrow> descriptor_may_be_live_in_peer l'"
  by (simp add: live_in_peer_rank lease_forward_def)

lemma kept_refl [simp]: "lease_kept b b"
  by (auto simp: lease_kept_def split: option.splits)

lemma kept_trans: "lease_kept a b \<Longrightarrow> lease_kept b c \<Longrightarrow> lease_kept a c"
  by (auto simp: lease_kept_def dest: forward_live intro: forward_trans split: option.splits)

lemma kept_step: "bstep limits perm b b' \<Longrightarrow> May_End \<notin> perm \<Longrightarrow> lease_kept b b'"
  by (induction rule: bstep.induct)
    (auto simp: lease_kept_def same_core_def put_slot_def put_client_def insert_conn_def Let_def
      split: option.splits)

lemma kept_steps: "bsteps limits perm b b' \<Longrightarrow> May_End \<notin> perm \<Longrightarrow> lease_kept b b'"
  by (induction rule: rtranclp_induct) (auto intro: kept_step kept_trans)

lemma none_step: "bstep limits perm b b' \<Longrightarrow> May_Grant \<notin> perm \<Longrightarrow> bk_lease b = None \<Longrightarrow> bk_lease b' = None"
  by (induction rule: bstep.induct)
    (auto simp: same_core_def put_slot_def put_client_def insert_conn_def Let_def)

lemma none_steps: "bsteps limits perm b b' \<Longrightarrow> May_Grant \<notin> perm \<Longrightarrow> bk_lease b = None \<Longrightarrow> bk_lease b' = None"
  by (induction rule: rtranclp_induct) (auto dest: none_step)

end
