(* ===== verification/Pty_Broker_Reach.thy ===== *)
theory Pty_Broker_Reach
  imports Pty_Broker_Table
begin

text \<open>
  The event loop over the primitive changes: every operation of \<open>Pty_Broker_Loop\<close> and
  \<open>Pty_Broker_Run\<close> takes a broker in order to a broker in order by primitive changes, and says
  which of the larger changes it needs. A lemma \<open>X_runs\<close> continues a run by the operation \<open>X\<close>.
\<close>

named_theorems run_intros \<open>operations continue a run\<close>

definition in_order :: "pty_limits \<Rightarrow> broker \<Rightarrow> bool" where
  "in_order limits b \<longleftrightarrow> settled b \<and> end_inv b \<and> lease_inv b \<and> (typed_limits limits \<longrightarrow> table_inv limits b)"

definition runs :: "pty_limits \<Rightarrow> step_perm set \<Rightarrow> broker \<Rightarrow> broker \<Rightarrow> bool" where
  "runs limits perm a b \<longleftrightarrow> bsteps limits perm a b \<and> in_order limits b"

lemma runs_refl: "in_order limits b \<Longrightarrow> runs limits perm b b"
  by (simp add: runs_def)

lemma runs_settled: "runs limits perm a b \<Longrightarrow> settled b"
  by (simp add: runs_def in_order_def)

lemma step_mono: "bstep limits perm b b' \<Longrightarrow> perm \<subseteq> perm' \<Longrightarrow> bstep limits perm' b b'"
  by (induction rule: bstep.induct) (blast intro: bstep.intros)+

lemma steps_mono: "bsteps limits perm b b' \<Longrightarrow> perm \<subseteq> perm' \<Longrightarrow> bsteps limits perm' b b'"
  by (induction rule: rtranclp_induct) (auto intro: bsteps_then step_mono)

lemma steps_all_calm: "bsteps limits q b b' \<Longrightarrow> May_React \<notin> q \<Longrightarrow> May_Insert \<notin> q \<Longrightarrow> calm b b'"
  by (induction rule: rtranclp_induct) (auto intro: calm_refl calm_trans step_calm)

text \<open>Changes that cannot end the session.\<close>

lemma calm_then:
  assumes "runs limits perm a b" "bsteps limits q b b'" "q \<subseteq> perm" "May_React \<notin> q" "May_Insert \<notin> q"
  shows "runs limits perm a b'"
  using assms
  by (auto simp: runs_def in_order_def intro: steps_mono rtranclp_trans settled_calm steps_all_calm end_steps
      lease_steps [THEN conjunct1] table_steps)

lemma soft_then:
  "runs limits perm a b \<Longrightarrow> (bsteps limits {} b b \<Longrightarrow> bsteps limits {} b b') \<Longrightarrow> runs limits perm a b'"
  by (rule calm_then [of _ _ _ _ "{}"]) auto

text \<open>A reaction: it settles, and takes no new connection.\<close>

lemma react_then:
  assumes "runs limits perm a b" "May_React \<in> perm" "bsteps limits {May_React} b b'" "settled b \<Longrightarrow> settled b'"
  shows "runs limits perm a b'"
proof -
  have "bsteps limits perm b b'" using assms(3) by (rule steps_mono) (simp add: assms(2))
  with assms show ?thesis
    by (auto simp: runs_def in_order_def intro: rtranclp_trans end_steps lease_steps [THEN conjunct1] table_steps)
qed

lemma reduce_runs:
  assumes "runs limits perm a b" "May_React \<in> perm" "startup_ok (bk_runtime b) ev"
  shows "runs limits perm a (reduce_apply limits os now ev b)"
  by (rule react_then [OF assms(1,2)]) (auto intro: step_intros reduce_apply_settles assms(3))

lemma startup_other [simp]: "ev \<noteq> StartupDeadlineExpired \<Longrightarrow> startup_ok rt ev"
  by (simp add: startup_ok_def)

lemma reduce_other_runs [run_intros]:
  "runs limits perm a b \<Longrightarrow> May_React \<in> perm \<Longrightarrow> ev \<noteq> StartupDeadlineExpired \<Longrightarrow>
   runs limits perm a (reduce_apply limits os now ev b)"
  by (rule reduce_runs) simp_all

lemma internal_failure_runs [run_intros]:
  assumes "runs limits perm a b" "May_React \<in> perm"
  shows "runs limits perm a (request_internal_failure limits (apply_effects limits os now) e b)"
proof (rule react_then [OF assms])
  show "bsteps limits {May_React} b (request_internal_failure limits (apply_effects limits os now) e b)"
    by (intro step_intros) simp_all
next
  assume "settled b"
  from internal_failure_settles [OF this, of limits os now 1]
  show "settled (request_internal_failure limits (apply_effects limits os now) e b)"
    by (simp add: apply_effects_def numeral_2_eq_2 del: apply_depth.simps)
qed

lemma remove_conn_runs [run_intros]:
  "runs limits perm a b \<Longrightarrow> runs limits perm a (remove_conn limits now idx b)"
  by (erule soft_then) (intro step_intros)

lemma reconcile_runs [run_intros]:
  "runs limits perm a b \<Longrightarrow> runs limits perm a (reconcile_writer_stall limits now b)"
  by (erule soft_then) (intro step_intros)

lemma flush_slot_runs [run_intros]:
  "runs limits perm a b \<Longrightarrow> runs limits perm a (flush_slot limits os now idx b)"
  by (erule soft_then) (intro step_intros)

lemma queue_frame_runs [run_intros]:
  "runs limits perm a b \<Longrightarrow> runs limits perm a (queue_effect_frame limits os now tgt f b)"
  by (erule soft_then) (intro step_intros)

lemma begin_draining_runs [run_intros]:
  "runs limits perm a b \<Longrightarrow> runs limits perm a (broker_begin_draining limits os now idx b)"
  by (erule soft_then) (intro step_intros)

lemma maybe_finalize_runs [run_intros]:
  "runs limits perm a b \<Longrightarrow> runs limits perm a (maybe_finalize os b)"
  by (erule soft_then) (intro step_intros)

text \<open>Updates of fields outside the core.\<close>

lemma core_runs: "runs limits perm a b \<Longrightarrow> same_core b b' \<Longrightarrow> runs limits perm a b'"
  by (erule soft_then) (auto intro: core_then)

lemma world_runs: "runs limits perm a b \<Longrightarrow> kill_marks w = kill_marks (bk_world b) \<Longrightarrow>
    runs limits perm a (b\<lparr>bk_world := w\<rparr>)"
  by (erule soft_then) (intro step_intros)

lemma update_runs [run_intros]:
  "runs limits perm a b \<Longrightarrow> runs limits perm a (b\<lparr>bk_writer_stall := x1\<rparr>)"
  "runs limits perm a b \<Longrightarrow> runs limits perm a (b\<lparr>bk_accepted_total := x2\<rparr>)"
  "runs limits perm a b \<Longrightarrow> runs limits perm a (b\<lparr>bk_readiness := x3\<rparr>)"
  "runs limits perm a b \<Longrightarrow> runs limits perm a (b\<lparr>bk_spawn_plan := x4\<rparr>)"
  "runs limits perm a b \<Longrightarrow> runs limits perm a (b\<lparr>bk_signal_source := x5\<rparr>)"
  "runs limits perm a b \<Longrightarrow> runs limits perm a (b\<lparr>bk_started := x6\<rparr>)"
  "runs limits perm a b \<Longrightarrow> runs limits perm a (b\<lparr>bk_child := x7\<rparr>)"
  "runs limits perm a b \<Longrightarrow> runs limits perm a (b\<lparr>bk_observed_outcome := x8\<rparr>)"
  "runs limits perm a b \<Longrightarrow> runs limits perm a (b\<lparr>bk_final_outcome := x9\<rparr>)"
  "runs limits perm a b \<Longrightarrow> runs limits perm a (b\<lparr>bk_pty_exit_deadline_ms := x10\<rparr>)"
  "runs limits perm a b \<Longrightarrow> runs limits perm a (b\<lparr>bk_first_failure := x11\<rparr>)"
  "runs limits perm a b \<Longrightarrow> runs limits perm a (b\<lparr>bk_master_terminal_pending := x12\<rparr>)"
  "runs limits perm a b \<Longrightarrow> runs limits perm a (detach_master b)"
  by (erule core_runs, simp add: same_core_def is_terminal_lifecycle_def detach_master_def)+

lemma b_call_runs: "b_call f b = (x, b') \<Longrightarrow> runs limits perm a b \<Longrightarrow> runs limits perm a b'"
  by (auto simp: b_call_def sys_call_def intro!: world_runs)

lemma b_call_fields: "b_call f b = (x, b') \<Longrightarrow> \<exists>w. b' = b\<lparr>bk_world := w\<rparr>"
  by (auto simp: b_call_def sys_call_def)

lemma and_then_runs:
  assumes "runs limits perm a (snd r)"
    and "\<And>x b. r = (Inr x, b) \<Longrightarrow> runs limits perm a b \<Longrightarrow> runs limits perm a (snd (k x b))"
  shows "runs limits perm a (snd (and_then r k))"
  using assms by (cases r; cases "fst r") (auto simp: and_then_def)

lemma fold_runs:
  "(\<And>x b. runs limits perm a b \<Longrightarrow> runs limits perm a (f x b)) \<Longrightarrow>
   runs limits perm a b \<Longrightarrow> runs limits perm a (fold f xs b)"
  by (induction xs arbitrary: b) auto

section \<open>Deadlines\<close>

lemma expire_stall_runs [run_intros]:
  "runs limits perm a b \<Longrightarrow> runs limits perm a (expire_writer_stall limits now b)"
  by (auto simp: expire_writer_stall_def Let_def intro!: run_intros split: option.splits prod.splits)

lemma check_deadlines_runs [run_intros]:
  assumes "runs limits perm a b" "May_React \<in> perm"
  shows "runs limits perm a (check_deadlines limits os now b)"
proof -
  let ?b1 = "fold (expire_conn limits os now) (expired_conns limits now b) b"
  have "runs limits perm a ?b1"
    using assms by (intro fold_runs) (auto simp: expire_conn_def intro!: run_intros split: prod.splits)
  then show ?thesis
    by (auto simp: check_deadlines_def Let_def startup_ok_def intro!: reduce_runs assms(2))
qed

section \<open>The child\<close>

lemma note_terminal_runs [run_intros]:
  "runs limits perm a b \<Longrightarrow> runs limits perm a (note_pty_terminal limits now b)"
  by (auto simp: note_pty_terminal_def intro!: run_intros)

lemma revoke_runs [run_intros]:
  assumes "runs limits perm a b"
  shows "runs limits perm a (request_lease_revoke limits os now b)"
proof (cases "bk_lease b")
  case (Some l)
  have "runs limits perm a (b\<lparr>bk_lease := Some (l\<lparr>pl_revoke_sent := True\<rparr>)\<rparr>)"
    by (rule soft_then [OF assms]) (erule forward_update [OF _ Some], simp add: lease_forward_def)
  then show ?thesis using assms Some by (auto simp: request_lease_revoke_def intro!: run_intros)
qed (use assms in \<open>simp add: request_lease_revoke_def\<close>)

lemma observe_child_runs [run_intros]:
  assumes "runs limits perm a b" "May_React \<in> perm"
  shows "runs limits perm a (snd (observe_child limits os now b))"
proof (cases "bk_observed_outcome b \<noteq> None \<or> bk_child b = None")
  case True
  with assms(1) show ?thesis by (auto simp: observe_child_def)
next
  case False
  then obtain child where c: "bk_child b = Some child" by blast
  obtain r c1 w where o: "observe_exit os child (bk_world b) = (r, c1, w)" by (metis prod_cases3)
  have "runs limits perm a (b\<lparr>bk_child := Some c1, bk_world := w\<rparr>)"
    by (rule core_runs [OF assms(1)])
      (simp add: same_core_def is_terminal_lifecycle_def observe_exit_marks [OF o])
  with False c o assms(2) show ?thesis
    by (auto simp: observe_child_def Let_def intro!: run_intros split: sum.splits option.splits prod.splits)
qed

lemma observe_runs_eq:
  "observe_child limits os now b = (r, b') \<Longrightarrow> runs limits perm a b \<Longrightarrow> May_React \<in> perm \<Longrightarrow> runs limits perm a b'"
  using observe_child_runs [of limits perm a b os now] by simp

lemma signal_loop_runs:
  "runs limits perm a b \<Longrightarrow> May_React \<in> perm \<Longrightarrow> runs limits perm a (snd (signal_loop limits os now n b))"
proof (induction n arbitrary: b)
  case (Suc n)
  show ?case
  proof (cases "bk_signal_source b")
    case True
    obtain r b1 where c: "b_call (os_read_signalfd os) b = (r, b1)" by force
    have b1: "runs limits perm a b1" by (rule b_call_runs [OF c Suc.prems(1)])
    with True c Suc show ?thesis
      by (auto split: sum.splits option.splits intro!: and_then_runs run_intros Suc.IH)
  qed (use Suc.prems in simp)
qed simp

lemma signal_events_runs [run_intros]:
  "runs limits perm a b \<Longrightarrow> May_React \<in> perm \<Longrightarrow> runs limits perm a (snd (handle_signal_events limits os re now b))"
  by (simp add: handle_signal_events_def signal_loop_runs)

section \<open>PTY output and input\<close>

lemma fan_out_runs [run_intros]:
  assumes "runs limits perm a b"
  shows "runs limits perm a (fan_out_output limits os now output b)"
  by (rule soft_then [OF assms fan_out_steps [OF settled_no_pending [OF runs_settled [OF assms]]]])

lemma read_master_runs:
  assumes "runs limits perm a b"
  shows "runs limits perm a (snd (read_master_output_once limits os now b))"
proof -
  obtain i r b1 where c: "b_call (os_read os) b = ((i, r), b1)" by (metis surj_pair)
  have "runs limits perm a b1" by (rule b_call_runs [OF c assms])
  with c show ?thesis
    by (auto simp: read_master_output_once_def Let_def intro!: run_intros split: sum.splits)
qed

lemma discard_loop_runs:
  "runs limits perm a b \<Longrightarrow> runs limits perm a (snd (snd (discard_loop limits os now budget b)))"
proof (induction limits os now budget b rule: discard_loop.induct)
  case (1 limits os now budget b)
  obtain i r b1 where c: "b_call (os_read os) b = ((i, r), b1)" by (metis surj_pair)
  have b1: "runs limits perm a b1" by (rule b_call_runs [OF c 1(2)])
  have m: "runs limits perm a (b1\<lparr>bk_world := mark (Mark_Discard bs) (bk_world b1)\<rparr>)" for bs
    by (rule world_runs [OF b1]) simp
  show ?case
  proof (cases "budget = 0 \<or> budget \<le> i")
    case True
    with b1 1(2) c show ?thesis by (subst discard_loop.simps) auto
  next
    case False
    then have live: "budget \<noteq> 0" "\<not> budget \<le> i" by simp_all
    show ?thesis
    proof (cases r)
      case (Inl e)
      with live c b1 show ?thesis
        by (subst discard_loop.simps) (auto simp: Let_def intro!: run_intros)
    next
      case (Inr bs)
      show ?thesis
      proof (cases "take (read_chunk_bytes limits) bs = []")
        case True
        with live c b1 Inr show ?thesis
          by (subst discard_loop.simps) (auto simp: Let_def intro!: run_intros)
      next
        case more: False
        from 1(1) [OF live(1) c [symmetric] refl live(2) refl Inr refl more m]
        show ?thesis
          using live c Inr more by (subst discard_loop.simps) (simp add: Let_def)
      qed
    qed
  qed
qed

lemma discard_runs:
  "runs limits perm a b \<Longrightarrow> runs limits perm a (snd (snd (discard_master_until_boundary limits os now budget b)))"
  by (simp add: discard_master_until_boundary_def discard_loop_runs)

lemma discard_runs_eq:
  "discard_master_until_boundary limits os now budget b = (r, n, b') \<Longrightarrow> runs limits perm a b \<Longrightarrow>
   runs limits perm a b'"
  using discard_runs [of limits perm a b os now budget] by simp

lemma read_master_runs_eq:
  "read_master_output_once limits os now b = (r, b') \<Longrightarrow> runs limits perm a b \<Longrightarrow> runs limits perm a b'"
  using read_master_runs [of limits perm a b os now] by simp

lemma master_writer_marks: "kill_marks (fst (master_writer os w bs)) = kill_marks w"
  by (auto simp: master_writer_def sys_call_def split: sum.splits)

lemma drain_input_runs:
  assumes "runs limits perm a b"
  shows "runs limits perm a (snd (drain_writer_input limits os now b))"
proof (cases "\<not> bk_master_terminal_pending b \<and> bk_master b \<and>
    (\<exists>idx i s. eligible_writer_slot b = Some (idx, i) \<and> slot_at b idx = Some s \<and>
       iq_live_bytes (cc_input (slot_client s)) \<noteq> 0)")
  case False
  with assms show ?thesis by (auto simp: drain_writer_input_def split: option.splits prod.splits)
next
  case True
  then obtain idx i s where s: "eligible_writer_slot b = Some (idx, i)" "slot_at b idx = Some s"
    "iq_live_bytes (cc_input (slot_client s)) \<noteq> 0" by blast
  obtain q w r where d: "drain_with (master_writer os) (cc_input (slot_client s)) (bk_world b) = (q, w, r)"
    by (metis prod_cases3)
  have m: "kill_marks w = kill_marks (bk_world b)"
    by (rule drain_with_state [OF _ d, where P = "\<lambda>w. kill_marks w = kill_marks (bk_world b)"])
      (simp_all add: master_writer_marks)
  have cap: "iq_cap_bytes q = iq_cap_bytes (cc_input (slot_client s))"
    using d by (auto simp: drain_with_def split: prod.splits)
  have le: "slot_le limits s (s\<lparr>slot_client := (slot_client s)\<lparr>cc_input := q\<rparr>\<rparr>)"
    by (rule slot_le_input) (use drain_with_keeps [OF d] cap in auto)
  have "runs limits perm a ((put_client idx s ((slot_client s)\<lparr>cc_input := q\<rparr>) b)\<lparr>bk_world := w\<rparr>)"
  proof (rule soft_then [OF assms])
    assume "bsteps limits {} b b"
    from put_client_update [OF this s(2) le]
    show "bsteps limits {} b ((put_client idx s ((slot_client s)\<lparr>cc_input := q\<rparr>) b)\<lparr>bk_world := w\<rparr>)"
      by (rule world_update) (simp add: m put_client_def put_slot_def)
  qed
  with True s d show ?thesis
    by (auto simp: drain_writer_input_def Let_def intro!: run_intros split: sum.splits)
qed

lemma drain_input_runs_eq:
  "drain_writer_input limits os now b = (r, b') \<Longrightarrow> runs limits perm a b \<Longrightarrow> runs limits perm a b'"
  using drain_input_runs [of limits perm a b os now] by simp

lemma master_events_runs:
  assumes "runs limits perm a b"
  shows "runs limits perm a (snd (snd (handle_master_events limits os re now budget b)))"
proof (cases "bk_master b \<and> \<not> pf_nval re")
  case False
  with assms show ?thesis by (auto simp: handle_master_events_def intro!: run_intros)
next
  case True
  let ?b1 = "reconcile_writer_stall limits now b"
  have b1: "runs limits perm a ?b1" using assms by (intro run_intros)
  define step where "step = (if master_read_admitted ?b1 \<and> (pf_in re \<or> pf_hup re \<or> pf_err re)
                 then (if has_output_recipients ?b1
                       then (case read_master_output_once limits os now ?b1 of (r, b2) \<Rightarrow>
                               (map_sum id (\<lambda>_. ()) r, budget, b2))
                       else (case discard_master_until_boundary limits os now budget ?b1 of (r, budget2, b2) \<Rightarrow>
                               (map_sum id (\<lambda>_. ()) r, budget2, b2)))
                 else (Inr (), budget, ?b1))"
  obtain r n b2 where st: "step = (r, n, b2)" by (metis prod_cases3)
  have b2: "runs limits perm a b2"
    using st b1 read_master_runs_eq discard_runs_eq
    by (auto simp: step_def split: if_splits prod.splits)
  obtain r3 b3 where d: "drain_writer_input limits os now b2 = (r3, b3)" by force
  have b3: "runs limits perm a b3" by (rule drain_input_runs_eq [OF d b2])
  have eq: "handle_master_events limits os re now budget b = (case step of
          (Inl e, budget2, b2) \<Rightarrow> (Inl e, budget2, b2)
        | (Inr _, budget2, b2) \<Rightarrow>
            if pf_hup re \<or> pf_err re
            then (Inr (), budget2,
                  let b3 = note_pty_terminal limits now b2 in
                  if bk_master b3 then b3\<lparr>bk_master_terminal_pending := True\<rparr> else b3)
            else if pf_out re \<and> \<not> bk_master_terminal_pending b2 \<and> bk_master b2
            then (case drain_writer_input limits os now b2 of (r, b3) \<Rightarrow> (r, budget2, b3))
            else (Inr (), budget2, b2))"
    using True unfolding handle_master_events_def step_def Let_def by simp
  show ?thesis
    unfolding eq st using b2 b3 d by (auto simp: Let_def intro!: run_intros split: sum.splits)
qed

section \<open>The life cycle step\<close>

lemma start_kill_runs: "start_kill limits os now b = (r, b') \<Longrightarrow> runs limits perm a b \<Longrightarrow> runs limits perm a b'"
  by (erule soft_then) (rule start_kill_steps)

lemma escalate_runs:
  assumes "runs limits perm a b"
  shows "runs limits perm a (snd (escalate_kill limits os now b))"
proof (cases "\<exists>d child. bk_kill_phase b = Kill_TermSent d \<and> d \<le> now \<and> bk_child b = Some child")
  case False
  with assms show ?thesis
    by (auto simp: escalate_kill_def not_less split: kill_phase.splits option.splits)
next
  case True
  then obtain d child where c: "bk_kill_phase b = Kill_TermSent d" "d \<le> now" "bk_child b = Some child" by blast
  obtain r w where s: "signal_group_checked os child SIGKILL (bk_world b) = (r, w)" by force
  note m = signal_checked_marks [OF s]
  have "runs limits perm a (b\<lparr>bk_world := mark (Mark_Kill now) w, bk_kill_phase := Kill_KillSent\<rparr>)"
    by (rule soft_then [OF assms], erule bsteps_then, rule step_kill [OF c(1,2)]) (simp add: m)
  with c s assms show ?thesis
    by (auto simp: escalate_kill_def not_less intro!: world_runs m split: sum.splits)
qed

lemma expire_exit_runs:
  assumes "runs limits perm a b"
  shows "runs limits perm a (snd (expire_pty_exit limits os now b))"
proof -
  obtain r b1 where k: "start_kill limits os now b = (r, b1)" by force
  from start_kill_runs [OF k assms] k assms show ?thesis
    by (auto simp: expire_pty_exit_def split: sum.splits)
qed

lemma reap_marks:
  assumes "reap_observed_nohang os c w = (r, c', w')"
  shows "kill_marks w' = kill_marks w"
proof -
  obtain x c1 w1 where o: "observe_exit os c w = (x, c1, w1)" by (metis prod_cases3)
  from assms o observe_exit_marks [OF o] show ?thesis
    by (auto simp: reap_observed_nohang_def sys_call_def
        split: if_splits sum.splits option.splits prod.splits)
qed

lemma reap_runs:
  assumes "runs limits perm a b"
  shows "runs limits perm a (snd (reap_child limits os now b))"
proof (cases "bk_child b")
  case None
  with assms show ?thesis by (simp add: reap_child_def Let_def)
next
  case (Some child)
  obtain r c1 w where p: "reap_observed_nohang os child (bk_world b) = (r, c1, w)" by (metis prod_cases3)
  have m: "kill_marks w = kill_marks (bk_world b)"
    by (rule reap_marks [OF p])
  have b1: "runs limits perm a (b\<lparr>bk_child := Some c1, bk_world := w\<rparr>)"
    by (rule core_runs [OF assms]) (simp add: same_core_def is_terminal_lifecycle_def m)
  have b2: "runs limits perm a (b\<lparr>bk_child := Some c1, bk_world := w, bk_final_outcome := Some x\<rparr>)" for x
    by (rule core_runs [OF b1]) (simp add: same_core_def is_terminal_lifecycle_def)
  have "runs limits perm a (b\<lparr>bk_child := Some c1, bk_world := w, bk_final_outcome := Some x,
      bk_kill_phase := Kill_Finalized, bk_pty_exit_deadline_ms := d\<rparr>)"
    if "bk_kill_phase b = Kill_KillSent" for x d
  proof -
    have "runs limits perm a (b\<lparr>bk_child := Some c1, bk_world := w, bk_final_outcome := Some x,
        bk_kill_phase := Kill_Finalized\<rparr>)"
      by (rule soft_then [OF b2 [of x]], erule bsteps_then, rule step_kill_final) (simp add: that)
    then show ?thesis by (rule core_runs) (simp add: same_core_def is_terminal_lifecycle_def)
  qed
  with Some p assms b1 b2 show ?thesis
    by (auto simp: reap_child_def Let_def split: sum.splits option.splits)
qed

lemma final_drain_runs:
  assumes "runs limits perm a b"
  shows "runs limits perm a (snd (final_drain limits os now b))"
  using assms
  by (auto simp: final_drain_def intro!: and_then_runs run_intros read_master_runs split: option.splits)

lemma report_end_runs [run_intros]:
  assumes "runs limits perm a b" "May_React \<in> perm"
  shows "runs limits perm a (report_end limits os now b)"
  using assms by (auto simp: report_end_def Let_def intro!: run_intros split: option.splits prod.splits)

lemma advance_runs:
  assumes "runs limits perm a b" "May_React \<in> perm"
  shows "runs limits perm a (snd (advance_lifecycle limits os now b))"
  unfolding advance_lifecycle_def using assms
  by (auto intro!: and_then_runs run_intros escalate_runs expire_exit_runs reap_runs final_drain_runs)

lemma begin_turn_runs:
  assumes "runs limits perm a b" "May_React \<in> perm"
  shows "runs limits perm a (snd (begin_turn limits os now b))"
  unfolding begin_turn_def
  by (auto intro!: and_then_runs advance_runs run_intros assms)

section \<open>Accepting\<close>

lemma refuse_runs [run_intros]:
  assumes "runs limits perm a b"
  shows "runs limits perm a (refuse_connection limits os text b)"
proof -
  obtain q ok where q: "push_frame (cc_out (conn_new limits)) (error_frame ErrorCode_ResourceLimit text limits) = (q, ok)"
    by force
  obtain q' w r where f: "flush_with (\<lambda>w bs. prod.swap (sys_call (\<lambda>t. os_send os t 0 bs) w)) q (bk_world b) = (q', w, r)"
    by (metis prod_cases3)
  have "kill_marks w = kill_marks (bk_world b)"
    by (rule flush_with_state [OF _ f, where P = "\<lambda>w. kill_marks w = kill_marks (bk_world b)"])
      (simp_all add: prod.swap_def)
  with assms q f show ?thesis
    by (cases ok) (simp_all add: refuse_connection_def world_runs)
qed

lemma insert_conn_end [simp]:
  "bk_shutdown_requested (insert_conn limits c b) = bk_shutdown_requested b"
  "bk_finalized (insert_conn limits c b) = bk_finalized b"
  "bk_runtime (insert_conn limits c b) = bk_runtime b"
  by (simp_all add: insert_conn_def Let_def)

lemma insert_runs:
  assumes "runs limits perm a b" "May_Insert \<in> perm" "\<not> bk_shutdown_requested b"
    and "connection_count b < max_connections limits" "bk_next_conn_id b \<noteq> - 1"
  shows "runs limits perm a (insert_conn limits (bk_next_conn_id b) (b\<lparr>bk_next_conn_id := bk_next_conn_id b + 1\<rparr>))"
proof -
  let ?b = "insert_conn limits (bk_next_conn_id b) (b\<lparr>bk_next_conn_id := bk_next_conn_id b + 1\<rparr>)"
  have st: "bstep limits perm b ?b" by (rule step_insert [OF assms(2,4,5)])
  have mem: "slot_terminal_pending s = None" if "Some s \<in> set (bk_slots ?b)" "settled b" for s
  proof -
    from that(1) have "s \<in># stock_of (bk_slots ?b)" by simp
    then consider "Some s \<in> set (bk_slots b)" | "slot_terminal_pending s = None"
      unfolding insert_conn_stock by auto
    then show ?thesis
    proof cases
      case 1
      with that(2) assms(3) show ?thesis by (auto simp: settled_def)
    qed
  qed
  have s: "settled b" by (rule runs_settled [OF assms(1)])
  then have "\<not> is_terminal_lifecycle b" using assms(3) by (simp add: settled_def)
  with s mem have "settled ?b" by (simp add: settled_def is_terminal_lifecycle_def)
  moreover have "end_inv ?b"
    using assms(1,3) by (simp add: runs_def in_order_def end_inv_def)
  moreover have "lease_inv ?b" "typed_limits limits \<Longrightarrow> table_inv limits ?b"
    using assms(1) lease_step [OF st] table_step [OF st] by (simp_all add: runs_def in_order_def)
  moreover have "bsteps limits perm a ?b"
    using assms(1) st unfolding runs_def by (blast intro: bsteps_then)
  ultimately show ?thesis by (simp add: runs_def in_order_def)
qed

lemma admit_runs:
  assumes "runs limits perm a b" "May_Insert \<in> perm" "\<not> bk_shutdown_requested b"
  shows "runs limits perm a (admit_conn limits os b)"
  using assms insert_runs [OF assms]
  by (auto simp: admit_conn_def alloc_conn_id_def not_le intro: run_intros)

lemma refuse_shutdown [simp]:
  "bk_shutdown_requested (refuse_connection limits os text b) = bk_shutdown_requested b"
  by (auto simp: refuse_connection_def split: prod.splits bool.splits)

lemma admit_shutdown [simp]: "bk_shutdown_requested (admit_conn limits os b) = bk_shutdown_requested b"
  by (auto simp: admit_conn_def split: option.splits prod.splits)

lemma accept_loop_runs:
  "runs limits perm a b \<Longrightarrow> May_Insert \<in> perm \<Longrightarrow> \<not> bk_shutdown_requested b \<Longrightarrow>
   runs limits perm a (snd (accept_loop limits os n b))"
proof (induction n arbitrary: b)
  case (Suc n)
  obtain r b1 where c: "b_call (os_accept os) b = (r, b1)" by force
  have b1: "runs limits perm a b1" by (rule b_call_runs [OF c Suc.prems(1)])
  obtain uid b2 where u: "b_call (os_peer_uid os) (b1\<lparr>bk_accepted_total := bk_accepted_total b1 + 1\<rparr>) = (uid, b2)"
    by force
  have b2: "runs limits perm a b2" by (rule b_call_runs [OF u]) (intro run_intros b1)
  have "\<not> bk_shutdown_requested b2"
    using b_call_fields [OF c] b_call_fields [OF u] Suc.prems(3) by auto
  with Suc.IH b2 admit_runs [OF b2 Suc.prems(2)] Suc.prems(2)
  have IH: "runs limits perm a (snd (accept_loop limits os n (if ok then admit_conn limits os b2 else b2)))" for ok
    by simp
  show ?case using c u b1 IH by (auto split: sum.splits bool.splits)
qed simp

lemma handle_accept_runs:
  "runs limits perm a b \<Longrightarrow> May_Insert \<in> perm \<Longrightarrow> \<not> bk_shutdown_requested b \<Longrightarrow>
   runs limits perm a (snd (handle_accept limits os b))"
  by (simp add: handle_accept_def accept_loop_runs)

section \<open>Frames from clients\<close>

lemma refuse_busy_runs [run_intros]:
  "runs limits perm a b \<Longrightarrow> runs limits perm a (refuse_busy limits os now idx conn w b)"
  unfolding refuse_busy_def by (intro run_intros)

lemma reducer_frame_runs [run_intros]:
  "runs limits perm a b \<Longrightarrow> May_React \<in> perm \<Longrightarrow> runs limits perm a (dispatch_reducer_frame limits os now idx f b)"
  by (auto simp: dispatch_reducer_frame_def intro!: run_intros split: option.splits)

lemma gateway_identity_runs:
  assumes "gateway_identity os conn pid ticks b = (r, b')" "runs limits perm a b"
  shows "runs limits perm a b' \<and> bk_lease b' = bk_lease b"
proof -
  obtain p b1 where c: "b_call (\<lambda>t. os_peer_pid os t conn) b = (p, b1)" by force
  obtain k b2 where d: "b_call (\<lambda>t. os_proc_ticks os t (int (unat pid))) b1 = (k, b2)" by force
  note b1 = b_call_runs [OF c assms(2)] and b2 = b_call_runs [OF d b_call_runs [OF c assms(2)]]
  show ?thesis
    using assms(1) c d b1 b2 b_call_fields [OF c] b_call_fields [OF d]
    by (auto simp: gateway_identity_def split: if_splits)
qed

lemma lease_parts_runs:
  assumes "lease_parts os pidfd b = (r, b')" "runs limits perm a b"
  shows "runs limits perm a b' \<and> bk_lease b' = bk_lease b \<and>
    (case r of None \<Rightarrow> True | Some i \<Rightarrow> i \<noteq> 0 \<and> i + 1 = bk_next_lease_id b')"
proof -
  obtain x b1 where c: "b_call (os_duplicate os) b = (x, b1)" by force
  note b1 = b_call_runs [OF c assms(2)]
  have "runs limits perm a (b1\<lparr>bk_next_lease_id := bk_next_lease_id b1 + 1\<rparr>)"
    if "bk_next_lease_id b1 \<noteq> 0" "bk_next_lease_id b1 \<noteq> - 1"
    by (rule soft_then [OF b1], erule bsteps_then, rule step_lease_id) (use that in simp_all)
  then show ?thesis
    using assms c b1 b_call_fields [OF c]
    by (auto simp: lease_parts_def allocate_lease_id_def split: if_splits sum.splits option.splits)
qed

lemma grant_runs:
  assumes "runs limits perm a b" "May_Grant \<in> perm" "bk_lease b = None"
  shows "runs limits perm a (grant_lease limits os now idx conn client_id gen pid ticks pidfd b)"
proof -
  obtain r b1 where p: "lease_parts os pidfd b = (r, b1)" by force
  from lease_parts_runs [OF p assms(1)] have b1: "runs limits perm a b1" "bk_lease b1 = None"
    and r: "case r of None \<Rightarrow> True | Some i \<Rightarrow> i \<noteq> 0 \<and> i + 1 = bk_next_lease_id b1"
    using assms(3) by auto
  show ?thesis
  proof (cases r)
    case None
    with p b1 show ?thesis by (simp add: grant_lease_def run_intros)
  next
    case (Some i)
    let ?l = "\<lparr>pl_owner = \<lparr>lo_conn = conn, lo_client_id = client_id, lo_generation = gen,
                              lo_pid = pid, lo_start_ticks = ticks, lo_lease_id = i\<rparr>,
                  pl_phase = Phase_Granting (encode_frame (Frame_Lease Lease_Grant gen i)) 0 True,
                  pl_control_alive = True, pl_revoke_sent = False\<rparr>"
    have "runs limits perm a (b1\<lparr>bk_lease := Some ?l\<rparr>)"
    proof (rule calm_then [OF b1(1), of "{May_Grant}"])
      show "bsteps limits {May_Grant} b1 (b1\<lparr>bk_lease := Some ?l\<rparr>)"
        by (rule r_into_rtranclp, rule step_grant) (use b1 r Some in \<open>simp_all add: lease_rank_def\<close>)
    qed (use assms(2) in simp_all)
    then have "runs limits perm a (b1\<lparr>bk_lease := Some ?l, bk_writer_stall := None\<rparr>)" by (rule run_intros)
    with p Some show ?thesis by (simp add: grant_lease_def run_intros)
  qed
qed

text \<open>Without a lease, a reaction starts none.\<close>

lemma react_no_lease:
  assumes "bk_lease b = None"
  shows "bk_lease (dispatch_reducer_frame limits os now idx f b) = None"
proof -
  have "bsteps limits {May_React} b (dispatch_reducer_frame limits os now idx f b)"
    using assms by (auto simp: dispatch_reducer_frame_def intro!: step_intros split: option.splits)
  from none_steps [OF this _ assms] show ?thesis by simp
qed

lemma gateway_hello_runs:
  assumes "runs limits perm a b" "May_React \<in> perm" "May_Grant \<in> perm"
  shows "runs limits perm a (dispatch_gateway_hello limits os now idx tk name rows cols gen pid ticks b)"
proof (cases "slot_at b idx")
  case None
  with assms show ?thesis by (simp add: dispatch_gateway_hello_def)
next
  case (Some s)
  obtain ok b1 where g: "gateway_identity os (slot_conn s) pid ticks b = (ok, b1)" by force
  from gateway_identity_runs [OF g assms(1)] have b1: "runs limits perm a b1" "bk_lease b1 = bk_lease b" by auto
  obtain fd b2 where c: "b_call (\<lambda>t. os_pidfd_open os t (int (unat pid))) b1 = (fd, b2)" by force
  have b2: "runs limits perm a b2" by (rule b_call_runs [OF c b1(1)])
  define b3 where "b3 = dispatch_reducer_frame limits os now idx (Frame_Hello Role_Writer tk name rows cols) b2"
  have b3: "runs limits perm a b3" unfolding b3_def by (intro run_intros b2 assms(2))
  have "bk_lease b3 = None" if "bk_lease b = None"
    unfolding b3_def by (rule react_no_lease) (use that b1(2) b_call_fields [OF c] in auto)
  from grant_runs [OF b3 assms(3) this]
  show ?thesis
    using Some g c b1 b3 assms(1)
    by (auto simp: dispatch_gateway_hello_def Let_def b3_def [symmetric] intro!: run_intros
        split: option.splits bool.splits conn_role.splits)
qed

lemma lease_control_runs:
  assumes "runs limits perm a b" "May_End \<in> perm"
  shows "runs limits perm a (dispatch_lease_control limits os now idx action gen lease_id b)"
proof (cases "\<exists>s l. slot_at b idx = Some s \<and> bk_lease b = Some l")
  case False
  with assms show ?thesis
    by (auto simp: dispatch_lease_control_def intro!: run_intros split: option.splits)
next
  case True
  then obtain s l where s: "slot_at b idx = Some s" "bk_lease b = Some l" by blast
  have commit: "runs limits perm a (b\<lparr>bk_lease := Some (l\<lparr>pl_phase := Phase_Active\<rparr>)\<rparr>)"
    if "pl_phase l = Phase_AwaitingCommit"
    by (rule soft_then [OF assms(1)], erule forward_update [OF _ s(2)])
      (simp add: that lease_forward_def lease_rank_def)
  have release: "runs limits perm a (b\<lparr>bk_lease := None\<rparr>)"
  proof (rule calm_then [OF assms(1), of "{May_End}"])
    show "bsteps limits {May_End} b (b\<lparr>bk_lease := None\<rparr>)"
      by (rule r_into_rtranclp, rule step_lease_end [OF s(2)]) simp
  qed (use assms(2) in simp_all)
  show ?thesis
    using s commit release assms(1)
    by (auto simp: dispatch_lease_control_def Let_def intro!: run_intros
        split: lease_action.splits lease_phase.splits)
qed

lemma dispatch_frame_runs:
  assumes "runs limits perm a b" "perm = UNIV"
  shows "runs limits perm a (dispatch_frame limits os now idx f b)"
  using assms
  by (cases f) (simp_all add: dispatch_frame_def run_intros gateway_hello_runs lease_control_runs)

lemma take_all_keeps:
  assumes "\<And>f s. P s \<Longrightarrow> P (dispatch f s)"
  shows "take_all live dispatch limits r s = (r', s', out) \<Longrightarrow> P s \<Longrightarrow> P s'"
proof (induction "pending_measure r" arbitrary: r s rule: less_induct)
  case less
  obtain r1 res where t: "take_frame r limits = (r1, res)" by force
  show ?case
  proof (cases "\<exists>f. res = Inr (Some f)")
    case True
    then obtain f where f: "res = Inr (Some f)" by blast
    with t have "pending_measure r1 < pending_measure r" using take_frame_pending by simp
    from less.hyps [OF this, of "dispatch f s"] f t less.prems assms [of s f] show ?thesis
      by (subst (asm) (2) take_all.simps) (auto simp: Let_def split: if_splits)
  next
    case False
    with less.prems t show ?thesis
      by (subst (asm) take_all.simps) (auto split: sum.splits option.splits)
  qed
qed

lemma consume_chunk_keeps:
  assumes "\<And>f s. P s \<Longrightarrow> P (dispatch f s)"
  shows "consume_chunk live draining dispatch now limits r s bs = (r', s', out) \<Longrightarrow> P s \<Longrightarrow> P s'"
proof (induction "length bs" arbitrary: bs r s rule: less_induct)
  case less
  obtain r1 n where a: "reader_append r bs now limits = (r1, n)" by force
  obtain r2 s2 o2 where t: "take_all live dispatch limits r1 s = (r2, s2, o2)" by (metis prod_cases3)
  have s2: "P s2" by (rule take_all_keeps [OF assms t less.prems(2)])
  show ?case
  proof (cases "bs = [] \<or> \<not> live s \<or> draining s \<or> n = 0 \<or> o2 \<noteq> Continue")
    case True
    with less.prems a t s2 show ?thesis
      by (subst (asm) consume_chunk.simps) (auto split: consume_outcome.splits if_splits)
  next
    case False
    then have "length (drop n bs) < length bs" by simp
    moreover have "consume_chunk live draining dispatch now limits r2 s2 (drop n bs) = (r', s', out)"
      using less.prems(1) False a t by (subst (asm) consume_chunk.simps) simp
    ultimately show ?thesis using less.hyps s2 by blast
  qed
qed

lemma slot_le_reader:
  "(typed_limits limits \<Longrightarrow> reader_inv limits r) \<Longrightarrow>
   slot_le limits s (s\<lparr>slot_client := (slot_client s)\<lparr>cc_reader := r\<rparr>\<rparr>)"
  by (simp add: slot_le_def slot_ok_def slot_live_bytes_def slot_role_def)

lemma table_slot_ok: "table_inv limits b \<Longrightarrow> slot_at b idx = Some s \<Longrightarrow> slot_ok limits s"
  by (auto simp: table_inv_def slot_at_def in_set_conv_nth split: if_splits)

lemma broker_consume_runs:
  assumes "runs limits UNIV a b"
  shows "runs limits UNIV a (broker_consume_chunk limits os now idx bs b)"
proof (cases "slot_at b idx")
  case None
  with assms show ?thesis by (simp add: broker_consume_chunk_def)
next
  case (Some s)
  obtain r b1 out where c: "consume_chunk (\<lambda>b. slot_live b idx) (\<lambda>b. slot_draining b idx)
      (dispatch_frame limits os now idx) now limits (cc_reader (slot_client s)) b bs = (r, b1, out)"
    by (metis prod_cases3)
  have b1: "runs limits UNIV a b1"
    by (rule consume_chunk_keeps [where P = "runs limits UNIV a", OF _ c assms]) (simp add: dispatch_frame_runs)
  have rd: "reader_inv limits r" if "typed_limits limits"
  proof (rule consume_chunk_inv [OF c])
    have "table_inv limits b" using assms that by (simp add: runs_def in_order_def)
    from table_slot_ok [OF this Some] show "reader_inv limits (cc_reader (slot_client s))"
      by (simp add: slot_ok_def)
  qed
  have "runs limits UNIV a (put_client idx s1 ((slot_client s1)\<lparr>cc_reader := r\<rparr>) b1)"
    if "slot_at b1 idx = Some s1" for s1
    by (rule soft_then [OF b1], erule put_client_update [OF _ that slot_le_reader]) (rule rd)
  with b1 Some c show ?thesis
    by (auto simp: broker_consume_chunk_def intro!: run_intros split: consume_outcome.splits option.splits)
qed

lemma readable_gate_runs:
  assumes "readable_gate limits os now idx budget b = (r, n, b')" "runs limits perm a b"
  shows "runs limits perm a b'"
proof -
  obtain r1 n1 b1 where d: "discard_master_until_boundary limits os now budget b = (r1, n1, b1)"
    by (metis prod_cases3)
  note b1 = discard_runs_eq [OF d assms(2)]
  show ?thesis
    using assms d b1 by (auto simp: readable_gate_def split: option.splits if_splits sum.splits barrier_result.splits)
qed

lemma readable_loop_runs:
  "runs limits UNIV a b \<Longrightarrow> runs limits UNIV a (snd (snd (readable_loop limits os now idx answers budget b)))"
proof (induction answers arbitrary: budget b)
  case Nil
  obtain r n b1 where g: "readable_gate limits os now idx budget b = (r, n, b1)" by (metis prod_cases3)
  from readable_gate_runs [OF g Nil] g show ?case by (auto split: sum.splits)
next
  case (Cons answer answers)
  obtain r n b1 where g: "readable_gate limits os now idx budget b = (r, n, b1)" by (metis prod_cases3)
  note b1 = readable_gate_runs [OF g Cons.prems]
  have IH: "runs limits UNIV a (snd (snd (readable_loop limits os now idx answers n
      (broker_consume_chunk limits os now idx bs b1))))" for bs
    by (rule Cons.IH [OF broker_consume_runs [OF b1]])
  show ?case
    using g b1 IH broker_consume_runs [OF b1]
    by (auto simp: Let_def intro!: run_intros split: sum.splits bool.splits conn_fault.splits)
qed

lemma handle_readable_runs:
  assumes "runs limits UNIV a b"
  shows "runs limits UNIV a (snd (snd (handle_readable limits os now idx budget b)))"
proof (cases "slot_at b idx")
  case None
  with assms show ?thesis by (simp add: handle_readable_def)
next
  case (Some s)
  obtain ans b1 where c: "b_call (\<lambda>t. os_recv os t (slot_conn s)) b = (ans, b1)" by force
  from b_call_runs [OF c assms] Some c show ?thesis
    by (simp add: handle_readable_def readable_loop_runs)
qed

lemma handle_readable_eq:
  "handle_readable limits os now idx budget b = (r, n, b') \<Longrightarrow> runs limits UNIV a b \<Longrightarrow> runs limits UNIV a b'"
  using handle_readable_runs [of limits a b os now idx budget] by simp

lemma flush_and_close_runs [run_intros]:
  "runs limits perm a b \<Longrightarrow> runs limits perm a (flush_and_close limits os now idx re b)"
  by (auto simp: flush_and_close_def Let_def intro!: run_intros)

lemma conn_events_runs:
  assumes "runs limits UNIV a b"
  shows "runs limits UNIV a (snd (snd (handle_conn_events limits os now idx re budget b)))"
proof -
  obtain r n b1 where h: "handle_readable limits os now idx budget b = (r, n, b1)" by (metis prod_cases3)
  obtain r2 b2 where d: "drain_writer_input limits os now b1 = (r2, b2)" by force
  note b1 = handle_readable_eq [OF h assms] and b2 = drain_input_runs_eq [OF d handle_readable_eq [OF h assms]]
  show ?thesis
    using assms h d b1 b2 by (auto simp: handle_conn_events_def intro!: run_intros split: sum.splits)
qed

lemma lease_process_runs:
  assumes "runs limits perm a b" "May_End \<in> perm"
  shows "runs limits perm a (snd (handle_lease_process_event limits now lease_id re b))"
proof (cases "bk_lease b")
  case None
  with assms show ?thesis by (simp add: handle_lease_process_event_def)
next
  case (Some l)
  have "runs limits perm a (b\<lparr>bk_lease := None\<rparr>)"
  proof (rule calm_then [OF assms(1), of "{May_End}"])
    show "bsteps limits {May_End} b (b\<lparr>bk_lease := None\<rparr>)"
      by (rule r_into_rtranclp, rule step_lease_end [OF Some]) simp
  qed (use assms(2) in simp_all)
  with Some assms(1) show ?thesis
    by (auto simp: handle_lease_process_event_def Let_def intro!: run_intros split: option.splits)
qed

section \<open>Turns\<close>

lemma conn_loop_runs:
  "runs limits UNIV a b \<Longrightarrow> runs limits UNIV a (snd (conn_events_loop limits os now evs budget b))"
proof (induction evs arbitrary: budget b)
  case (Cons ev evs)
  obtain owner re where ev: "ev = (owner, re)" by force
  show ?case
  proof (cases "\<exists>idx conn. owner = Owner_Client idx conn \<and> slot_identity_live b idx conn")
    case False
    with Cons ev show ?thesis by (auto split: poll_owner.splits)
  next
    case True
    then obtain idx conn where o: "owner = Owner_Client idx conn" "slot_identity_live b idx conn" by blast
    obtain r n b1 where h: "handle_conn_events limits os now idx re budget b = (r, n, b1)" by (metis prod_cases3)
    have "runs limits UNIV a b1"
      using conn_events_runs [OF Cons.prems, of os now idx re budget] h by simp
    with o h ev Cons.IH show ?thesis by (auto split: sum.splits)
  qed
qed simp

lemma dispatch_ready_runs:
  assumes "runs limits UNIV a b"
  shows "runs limits UNIV a (snd (dispatch_ready limits os now evs b))"
proof -
  let ?n = "max (accepts_per_iteration limits) 1"
  have accept: "runs limits UNIV a (snd (and_then (if map_of evs Owner_Listener \<noteq> None \<and>
      \<not> bk_shutdown_requested b3 \<and> bk_listener b3 then handle_accept limits os b3 else (Inr (), b3))
      (\<lambda>_ b4. conn_events_loop limits os now evs budget b4)))"
    if "runs limits UNIV a b3" for b3 budget
    using that by (auto intro!: and_then_runs handle_accept_runs conn_loop_runs)
  have master: "runs limits UNIV a (snd (case (case map_of evs Owner_Master of
              Some re \<Rightarrow> handle_master_events limits os re now ?n b2
            | None \<Rightarrow> (Inr (), ?n, b2)) of
        (Inl e, _, b3) \<Rightarrow> (Inl e, b3)
      | (Inr _, budget1, b3) \<Rightarrow>
          and_then (if map_of evs Owner_Listener \<noteq> None \<and> \<not> bk_shutdown_requested b3 \<and> bk_listener b3
                    then handle_accept limits os b3 else (Inr (), b3)) (\<lambda>_ b4.
            conn_events_loop limits os now evs budget1 b4)))"
    if b2: "runs limits UNIV a b2" for b2
  proof -
    obtain r n b3 where m: "(case map_of evs Owner_Master of
              Some re \<Rightarrow> handle_master_events limits os re now ?n b2
            | None \<Rightarrow> (Inr (), ?n, b2)) = (r, n, b3)" by (metis prod_cases3)
    have "runs limits UNIV a b3"
      using m b2 master_events_runs [OF b2, of os _ now ?n] by (auto split: option.splits) (metis snd_conv)
    with m accept show ?thesis by (auto split: sum.splits)
  qed
  show ?thesis
    unfolding dispatch_ready_def Let_def
    using assms by (auto intro!: and_then_runs master lease_process_runs run_intros
        split: option.splits)
qed

lemma poll_turn_runs:
  assumes "runs limits UNIV a b"
  shows "runs limits UNIV a (snd (poll_turn limits os now max_wait_ms b))"
proof -
  obtain x b1 where p: "b_call (\<lambda>t. os_poll os t (poll_set limits b) (poll_wait_ms limits now max_wait_ms b)) b = (x, b1)"
    by force
  note b1 = b_call_runs [OF p assms]
  obtain y b2 where c: "b_call (os_clock os) b1 = (y, b2)" by force
  note b2 = b_call_runs [OF c b1]
  show ?thesis
    using p c b1 b2
    by (auto simp: poll_turn_def intro!: and_then_runs begin_turn_runs dispatch_ready_runs advance_runs run_intros
        split: sum.splits)
qed

lemma run_started_runs:
  assumes "runs limits UNIV a b"
  shows "runs limits UNIV a (snd (run_started limits os max_wait_ms b))"
proof -
  obtain x b1 where c: "b_call (os_clock os) b = (x, b1)" by force
  note b1 = b_call_runs [OF c assms]
  show ?thesis
    using assms c b1
    by (auto simp: run_started_def Let_def intro!: and_then_runs begin_turn_runs poll_turn_runs run_intros
        split: sum.splits)
qed

section \<open>Start-up\<close>

lemma ready_status_runs:
  "write_ready_status os st b = (r, b') \<Longrightarrow> runs limits perm a b \<Longrightarrow> runs limits perm a b'"
  by (auto simp: write_ready_status_def intro: run_intros elim!: b_call_runs split: if_splits)

lemma clock_or_ready_runs:
  "clock_or_ready os b = (t, b') \<Longrightarrow> runs limits perm a b \<Longrightarrow> runs limits perm a b'"
  using b_call_runs [of "os_clock os" b] by (auto simp: clock_or_ready_def split: prod.splits sum.splits)

lemma fail_startup_runs:
  assumes "runs limits perm a b" "May_React \<in> perm"
  shows "runs limits perm a (snd (fail_startup limits os e b))"
proof -
  obtain r b1 where w: "write_ready_status os (Status_Failed (startup_errno e)) b = (r, b1)" by force
  have b1: "runs limits perm a (b1\<lparr>bk_first_failure := Some e\<rparr>)"
    by (intro run_intros ready_status_runs [OF w assms(1)])
  obtain t b2 where c: "clock_or_ready os (b1\<lparr>bk_first_failure := Some e\<rparr>) = (t, b2)" by force
  from clock_or_ready_runs [OF c b1] assms(2) w c show ?thesis
    by (auto simp: fail_startup_def intro!: run_intros)
qed

lemma start_runs:
  assumes "runs limits perm a b" "May_React \<in> perm"
  shows "runs limits perm a (snd (start_broker limits os b))"
proof (cases "bk_started b")
  case True
  with assms show ?thesis by (simp add: start_broker_def)
next
  case False
  obtain r1 b1 where c1: "b_call (os_ignore_sigpipe os) (b\<lparr>bk_started := True\<rparr>) = (r1, b1)" by force
  have b1: "runs limits perm a b1" by (rule b_call_runs [OF c1]) (intro run_intros assms(1))
  define signals where "signals = (if bk_spawn_plan b1 \<noteq> None \<and> \<not> bk_signal_source b1
                 then (case b_call (os_broker_signals os) b1 of
                         (Inl e, b2) \<Rightarrow> (Inl e, b2)
                       | (Inr _, b2) \<Rightarrow> (Inr (), b2\<lparr>bk_signal_source := True\<rparr>))
                 else (Inr (), b1))"
  obtain r2 b2 where s2: "signals = (r2, b2)" by force
  obtain x y where xy: "b_call (os_broker_signals os) b1 = (x, y)" by force
  have b2: "runs limits perm a b2"
    using s2 b1 b_call_runs [OF xy b1] xy
    by (auto simp: signals_def intro: run_intros split: if_splits sum.splits)
  define store where "store = (if bk_spawn_plan b2 \<noteq> None then b_call (os_store_metadata os) b2 else (Inr (), b2))"
  obtain r3 b3 where s3: "store = (r3, b3)" by force
  have b3: "runs limits perm a b3"
    using s3 b2 by (auto simp: store_def elim!: b_call_runs split: if_splits)
  obtain r4 b4 where s4: "write_ready_status os Status_Ready b3 = (r4, b4)" by force
  have b4: "runs limits perm a b4" by (rule ready_status_runs [OF s4 b3])
  have eq: "start_broker limits os b = (case r1 of Inl e \<Rightarrow> fail_startup limits os (Err_Io e) b1
      | Inr _ \<Rightarrow> (case signals of (Inl e, b2) \<Rightarrow> fail_startup limits os (Err_Io e) b2
      | (Inr _, b2) \<Rightarrow> (case (if bk_spawn_plan b2 \<noteq> None then b_call (os_store_metadata os) b2 else (Inr (), b2)) of
         (Inl e, b3) \<Rightarrow> fail_startup limits os e b3
      | (Inr _, b3) \<Rightarrow> (case write_ready_status os Status_Ready b3 of
         (Inl e, b4) \<Rightarrow> fail_startup limits os (Err_Io e) b4 | (Inr _, b4) \<Rightarrow> (Inr (), b4)))))"
    using False c1 by (simp add: start_broker_def signals_def split: sum.splits)
  note f1 = fail_startup_runs [OF b1 assms(2)] and f2 = fail_startup_runs [OF b2 assms(2)]
    and f3 = fail_startup_runs [OF b3 assms(2)] and f4 = fail_startup_runs [OF b4 assms(2)]
  show ?thesis
    unfolding eq s2 using s3 [unfolded store_def] s4 f1 f2 f3 f4 b4
    by (auto split: sum.splits)
qed

lemma run_once_runs:
  assumes "runs limits UNIV a b"
  shows "runs limits UNIV a (snd (run_once limits os max_wait_ms b))"
proof -
  obtain r b1 where s: "(if bk_started b then (Inr (), b) else start_broker limits os b) = (r, b1)" by force
  have "runs limits UNIV a b1"
    using s assms start_runs [OF assms, of os] by (auto split: if_splits)
  from run_started_runs [OF this, of os max_wait_ms] s show ?thesis
    by (auto simp: run_once_def split: sum.splits prod.splits)
qed

lemma serve_round_runs:
  assumes "runs limits UNIV a b"
  shows "runs limits UNIV a (serve_round limits os b)"
proof -
  obtain r b1 where s: "run_once limits os None b = (r, b1)" by force
  have b1: "runs limits UNIV a b1" using run_once_runs [OF assms, of os None] s by simp
  obtain t b2 where c: "clock_or_ready os b1 = (t, b2)" by force
  from clock_or_ready_runs [OF c b1] have b2: "runs limits UNIV a b2" .
  show ?thesis
    using assms s c b1 b2 by (auto simp: serve_round_def intro!: run_intros split: sum.splits)
qed

section \<open>Histories\<close>

text \<open>What the owner of a broker can call, in any order.\<close>

datatype broker_op =
    Op_Set_Plan spawn_plan | Op_Set_Signal_Fd | Op_Attach_Master | Op_Start | Op_Run_Once "u32 option"
  | Op_Serve_Round

fun broker_call :: "pty_limits \<Rightarrow> broker_os \<Rightarrow> broker_op \<Rightarrow> broker \<Rightarrow> broker" where
  "broker_call limits os (Op_Set_Plan plan) b = snd (set_spawn_plan plan b)"
| "broker_call limits os Op_Set_Signal_Fd b = snd (set_signal_fd os b)"
| "broker_call limits os Op_Attach_Master b = snd (attach_pty_master os b)"
| "broker_call limits os Op_Start b = snd (start_broker limits os b)"
| "broker_call limits os (Op_Run_Once max_wait) b = snd (run_once limits os max_wait b)"
| "broker_call limits os Op_Serve_Round b = serve_round limits os b"

lemma set_plan_runs: "runs limits perm a b \<Longrightarrow> runs limits perm a (snd (set_spawn_plan plan b))"
  by (auto simp: set_spawn_plan_def intro: run_intros)

lemma set_signal_runs: "runs limits perm a b \<Longrightarrow> runs limits perm a (snd (set_signal_fd os b))"
  by (auto simp: set_signal_fd_def intro: run_intros dest: b_call_runs split: prod.splits sum.splits)

lemma attach_runs: "runs limits perm a b \<Longrightarrow> runs limits perm a (snd (attach_pty_master os b))"
  by (erule soft_then) (metis attach_master_steps prod.collapse)

lemma call_runs: "runs limits UNIV a b \<Longrightarrow> runs limits UNIV a (broker_call limits os op b)"
  by (cases op) (simp_all add: set_plan_runs set_signal_runs attach_runs start_runs run_once_runs serve_round_runs)

lemma history_runs: "runs limits UNIV a b \<Longrightarrow> runs limits UNIV a (fold (broker_call limits os) ops b)"
  by (rule fold_runs) (rule call_runs)

lemma initial_in_order:
  assumes "runtime_inv rt" "lifecycle (rt_state rt) = WaitingForWriter"
  shows "in_order limits (initial_broker limits rt t readiness w)"
  using assms
  by (simp add: in_order_def initial_broker_def settled_def is_terminal_lifecycle_def end_inv_def lease_inv_def
      lease_state_def table_inv_def total_live_def connection_count_def occupied_def)

end
