(* ===== verification/Pty_Broker_Spec.thy ===== *)
theory Pty_Broker_Spec
  imports Pty_Broker_Reach
begin

text \<open>
  What the broker (\<open>crates/everpty/src/broker.rs\<close>) promises, over every history of calls of its owner
  from \<open>Broker::new\<close> on and every behaviour of the operating system: bounded memory, one orderly
  end, one final exit, one kill escalation, a PTY lease that nobody else ends, sleeps that miss no
  deadline, and writer input that is queued in order while there is room. Two places where the code
  departs from its own description are shown for every broker in which they occur.
\<close>

section \<open>Histories from construction\<close>

definition broker_reached ::
  "pty_limits \<Rightarrow> broker_os \<Rightarrow> bytes \<Rightarrow> bool \<Rightarrow> world \<Rightarrow> broker_op list \<Rightarrow> broker option" where
  "broker_reached limits os name readiness w ops =
     (case broker_create limits os name readiness w of
        Inl _ \<Rightarrow> None
      | Inr b \<Rightarrow> Some (fold (broker_call limits os) ops b))"

lemma broker_create_ok:
  assumes "broker_create limits os name readiness w = Inr b"
  obtains t w' where "b = initial_broker limits (ready_runtime name limits) t readiness w'"
    "kill_marks w' = kill_marks w" "broker_limits_ok limits"
  using assms new_ready_ok [of name limits]
  by (auto simp: broker_create_def sys_call_def reject_new_def split: if_splits sum.splits)

lemma created_in_order:
  assumes "broker_create limits os name readiness w = Inr b"
  shows "in_order limits b" "kill_inv limits (kill_marks w) b" "broker_limits_ok limits"
proof -
  obtain t w' where b: "b = initial_broker limits (ready_runtime name limits) t readiness w'"
    "kill_marks w' = kill_marks w" "broker_limits_ok limits"
    by (rule broker_create_ok [OF assms])
  show "in_order limits b"
    unfolding b(1) by (rule initial_in_order [OF ready_runtime_inv]) (simp add: ready_runtime_def)
  show "kill_inv limits (kill_marks w) b"
    using b(2) by (simp add: b(1) kill_inv_def kill_state_def initial_broker_def)
qed (use assms broker_create_ok in blast)

lemma reached_runs:
  assumes "broker_reached limits os name readiness w ops = Some b"
  obtains b0 where "broker_create limits os name readiness w = Inr b0" "runs limits UNIV b0 b"
proof -
  obtain b0 where b0: "broker_create limits os name readiness w = Inr b0"
    and b: "b = fold (broker_call limits os) ops b0"
    using assms by (auto simp: broker_reached_def split: sum.splits)
  have "runs limits UNIV b0 b"
    unfolding b by (rule history_runs) (rule runs_refl [OF created_in_order(1) [OF b0]])
  with b0 show thesis by (rule that)
qed

lemma reached_in_order: "broker_reached limits os name readiness w ops = Some b \<Longrightarrow> in_order limits b"
  by (erule reached_runs) (simp add: runs_def)

section \<open>A quiet operating system\<close>

text \<open>Answers of an idle system, for the concrete inputs below.\<close>

definition quiet_os :: broker_os where
  "quiet_os = \<lparr>
     os_clock = \<lambda>_. Inr 0, os_poll = \<lambda>_ _ _. Inr (\<lambda>_. no_flags), os_send = \<lambda>_ _ bs. Inr (length bs),
     os_send_fd = \<lambda>_ _ bs. Inr (length bs), os_recv = \<lambda>_ _. [], os_accept = \<lambda>_. Inr False,
     os_peer_uid = \<lambda>_. Inr 0, os_effective_uid = 0, os_peer_pid = \<lambda>_ _. Inr 1,
     os_pidfd_open = \<lambda>_ _. Inr (), os_read = \<lambda>_. (0, Inl Io_WouldBlock), os_write = \<lambda>_ bs. Inr (length bs),
     os_set_nonblocking = \<lambda>_. Inr (), os_duplicate = \<lambda>_. Inr (), os_get_winsize = \<lambda>_. Inr (24, 80),
     os_set_winsize = \<lambda>_ _ _. Inr (), os_ignore_sigpipe = \<lambda>_. Inr (), os_broker_signals = \<lambda>_. Inr (),
     os_read_signalfd = \<lambda>_. Inr None, os_ready_write = \<lambda>_ _. Inr (), os_store_metadata = \<lambda>_. Inr (),
     os_child_meta = \<lambda>_ _ _. Inr (), os_retire_socket = \<lambda>_. Inr (), os_retire_state = \<lambda>_. Inr (),
     os_raw_fd = \<lambda>_. 3, os_executable = \<lambda>_. True, os_prepare_fds = \<lambda>_. Inr ([], []), os_fork = \<lambda>_. Inr 7,
     os_read_byte = \<lambda>_. Inr True, os_exec_pipe = \<lambda>_. Inr [], os_send_release = \<lambda>_. Inr 1,
     os_getpgid = \<lambda>_ p. Inr p, os_proc_ticks = \<lambda>_ _. Inr 5, os_observe_exit = \<lambda>_ _. Inr None,
     os_grace_polls = \<lambda>_ _. [], os_waitpid_nohang = \<lambda>_ _. Inr None, os_waitpid_blocking = \<lambda>_ _. Inr (False, 0),
     os_killpg = \<lambda>_ _ _. Inr ()\<rparr>"

definition fresh_world :: world where
  "fresh_world = \<lparr>wd_tick = 0, wd_log = []\<rparr>"

section \<open>Properties\<close>

text \<open>C5: the broker's memory is bounded over every history. At any time there are at most
  \<open>max_connections\<close> connections, their output queues hold at most the aggregate bound together and
  each at most its role's bound, every input queue and every frame reader is within its bound, and
  connection ids are distinct and accounted for. (\<open>typed_limits\<close>: the limits are \<open>usize\<close> values
  with an unsaturated aggregate that covers the writer's queue.)\<close>

theorem broker_memory_bounded:
  assumes "typed_limits limits"
  shows "case broker_reached limits os name readiness w ops of
      None \<Rightarrow> True
    | Some b \<Rightarrow> table_inv limits b \<and> aggregate_output_live_bytes b \<le> aggregate_queue_bytes limits"
proof (cases "broker_reached limits os name readiness w ops")
  case (Some b)
  from reached_in_order [OF this] assms have "table_inv limits b" by (simp add: in_order_def)
  with Some show ?thesis by (simp add: aggregate_total) (simp add: table_inv_def min_le_iff_disj)
qed simp

lemma broker_memory_bounded_witness:
  "case broker_reached default_pty_limits quiet_os [] False fresh_world [Op_Start, Op_Run_Once (Some 0)] of
     None \<Rightarrow> True
   | Some b \<Rightarrow> table_inv default_pty_limits b \<and>
       aggregate_output_live_bytes b \<le> aggregate_queue_bytes default_pty_limits"
  by (rule broker_memory_bounded) (simp add: typed_limits_def default_pty_limits_def)

text \<open>C8: the end of a session is orderly over every history. A shutdown has been requested exactly
  when the life cycle is final; then every connection left is draining its last frames, and before
  that no connection has a terminal frame waiting.\<close>

theorem session_end_settled:
  "case broker_reached limits os name readiness w ops of None \<Rightarrow> True | Some b \<Rightarrow> settled b"
  by (auto dest: reached_in_order simp: in_order_def split: option.splits)

text \<open>Over every history the kill phase is passed through once: the broker's own escalation begins at most
  once, its second stage follows at most once, never before the grace after the first has passed,
  and the phase says how far it has come. (This is about \<open>start_kill\<close> and \<open>escalate_kill\<close>; the
  signals that a writer asks for and the clean-up of a failed spawn are not counted.)\<close>

theorem kill_escalates_once:
  "case broker_reached limits os name readiness w ops of
     None \<Rightarrow> True | Some b \<Rightarrow> kill_inv limits (kill_marks w) b"
proof (cases "broker_reached limits os name readiness w ops")
  case (Some b)
  obtain b0 where b0: "broker_create limits os name readiness w = Inr b0" "runs limits UNIV b0 b"
    using Some by (rule reached_runs)
  then have "bsteps limits UNIV b0 b" by (simp add: runs_def)
  from kill_steps [OF this created_in_order(2) [OF b0(1)]] Some show ?thesis by simp
qed simp

text \<open>C7: a broker that has finalized was told to shut down, has no connection left and has decided its
  exit; whatever is called afterwards, and whatever the system answers, it stays finalized with that
  exit.\<close>

theorem broker_finalizes_once:
  "case broker_reached limits os name readiness w ops of
     None \<Rightarrow> True
   | Some b \<Rightarrow>
       if bk_finalized b
       then bk_shutdown_requested b \<and> connection_count b = 0 \<and> bk_exit b \<noteq> None \<and>
            (let b' = fold (broker_call limits os') ops' b in bk_finalized b' \<and> bk_exit b' = bk_exit b)
       else True"
proof (cases "broker_reached limits os name readiness w ops")
  case (Some b)
  from reached_in_order [OF this] have o: "in_order limits b" .
  have "bsteps limits UNIV b (fold (broker_call limits os') ops' b)"
    using history_runs [OF runs_refl [OF o], of os' ops'] by (simp add: runs_def)
  from exit_steps [OF this] o Some show ?thesis
    by (simp add: in_order_def end_inv_def Let_def)
qed simp

definition release_allowed :: "broker \<Rightarrow> usize \<Rightarrow> frame \<Rightarrow> bool" where
  "release_allowed b idx f =
     (case (bk_lease b, f) of
        (Some l, Frame_Lease Lease_Release gen i) \<Rightarrow>
          lease_belongs_to l idx b \<and> lo_generation (pl_owner l) = gen \<and> lo_lease_id (pl_owner l) = i
      | _ \<Rightarrow> False)"

definition process_gone :: "broker \<Rightarrow> u64 \<Rightarrow> poll_flags \<Rightarrow> bool" where
  "process_gone b lease_id re =
     (case bk_lease b of
        Some l \<Rightarrow> lo_lease_id (pl_owner l) = lease_id \<and> (pf_in re \<or> pf_err re \<or> pf_hup re)
      | None \<Rightarrow> False)"

lemma runs_kept: "runs limits perm b b' \<Longrightarrow> May_End \<notin> perm \<Longrightarrow> lease_kept b b'"
  by (auto simp: runs_def intro: kept_steps)

lemma kept_same: "bk_lease b' = bk_lease b \<Longrightarrow> lease_kept b b'"
  by (auto simp: lease_kept_def split: option.splits)

lemma lease_control_kept:
  assumes "in_order limits b" "\<not> release_allowed b idx (Frame_Lease action gen i)"
  shows "lease_kept b (dispatch_lease_control limits os now idx action gen i b)"
proof (cases "\<exists>s l. slot_at b idx = Some s \<and> bk_lease b = Some l \<and> lease_belongs_to l idx b \<and>
    lo_generation (pl_owner l) = gen \<and> lo_lease_id (pl_owner l) = i \<and> action \<noteq> Lease_Release")
  case True
  then obtain s l where s: "slot_at b idx = Some s" "bk_lease b = Some l" and a: "action \<noteq> Lease_Release" by blast
  have b: "runs limits {} b b" by (rule runs_refl [OF assms(1)])
  have commit: "runs limits {} b (b\<lparr>bk_lease := Some (l\<lparr>pl_phase := Phase_Active\<rparr>)\<rparr>)"
    if "pl_phase l = Phase_AwaitingCommit"
    by (rule soft_then [OF b], erule forward_update [OF _ s(2)])
      (simp add: that lease_forward_def lease_rank_def)
  have "runs limits {} b (dispatch_lease_control limits os now idx action gen i b)"
    using s commit b a
    by (auto simp: dispatch_lease_control_def Let_def intro!: run_intros
        split: lease_action.splits lease_phase.splits)
  then show ?thesis by (rule runs_kept) simp
next
  case False
  have r: "runs limits {} b (remove_conn limits now idx b)"
    by (intro run_intros runs_refl assms(1))
  from False assms(2)
  have "dispatch_lease_control limits os now idx action gen i b \<in> {b, remove_conn limits now idx b}"
    by (cases action)
      (auto simp: dispatch_lease_control_def Let_def release_allowed_def split: option.splits)
  with runs_kept [OF r] show ?thesis by auto
qed

lemma dispatch_kept:
  assumes "in_order limits b" "\<not> release_allowed b idx f"
  shows "lease_kept b (dispatch_frame limits os now idx f b)"
proof -
  have b: "runs limits {May_React, May_Grant} b b" by (rule runs_refl [OF assms(1)])
  have k: "runs limits {May_React, May_Grant} b b' \<Longrightarrow> lease_kept b b'" for b' by (erule runs_kept) simp
  show ?thesis
  proof (cases f)
    case (Frame_Lease action gen i)
    with lease_control_kept assms show ?thesis by (simp add: dispatch_frame_def)
  qed (auto simp: dispatch_frame_def intro!: k run_intros gateway_hello_runs b)
qed

lemma refuse_lease: "bk_lease (refuse_connection limits os t b) = bk_lease b"
  by (auto simp: refuse_connection_def split: prod.splits bool.splits)

lemma admit_lease: "bk_lease (admit_conn limits os b) = bk_lease b"
  by (auto simp: admit_conn_def refuse_lease insert_conn_def Let_def split: option.splits prod.splits)

lemma accept_lease [simp]: "bk_lease (snd (accept_loop limits os n b)) = bk_lease b"
proof (induction n arbitrary: b)
  case (Suc n)
  obtain r b1 where c: "b_call (os_accept os) b = (r, b1)" by force
  obtain uid b2 where u: "b_call (os_peer_uid os) (b1\<lparr>bk_accepted_total := bk_accepted_total b1 + 1\<rparr>) = (uid, b2)"
    by force
  from b_call_fields [OF c] b_call_fields [OF u] have "bk_lease b2 = bk_lease b" "bk_lease b1 = bk_lease b" by auto
  with c u Suc.IH show ?case by (auto simp: admit_lease split: sum.splits bool.splits)
qed simp

text \<open>C6: a PTY lease whose descriptor may be live in the gateway survives everything but its own end.
  Closing any connection, its control connection included, every deadline, the child's end, signals,
  PTY events and new connections leave it held, with its owner and without going back a phase; only
  a release by its owner, naming the generation and the lease, or the exit of its process ends it.
  Lease ids are fresh and never zero.\<close>

theorem lease_survives:
  "case broker_reached limits os name readiness w ops of
     None \<Rightarrow> True
   | Some b \<Rightarrow>
       lease_inv b \<and>
       lease_kept b (remove_conn limits now idx b) \<and>
       lease_kept b (snd (begin_turn limits os now b)) \<and>
       lease_kept b (snd (handle_signal_events limits os re now b)) \<and>
       lease_kept b (snd (snd (handle_master_events limits os re now budget b))) \<and>
       lease_kept b (snd (handle_accept limits os b)) \<and>
       (release_allowed b idx f \<or> lease_kept b (dispatch_frame limits os now idx f b)) \<and>
       (process_gone b lease_id re \<or> lease_kept b (snd (handle_lease_process_event limits now lease_id re b)))"
proof (cases "broker_reached limits os name readiness w ops")
  case (Some b)
  from reached_in_order [OF this] have o: "in_order limits b" .
  have b: "runs limits {May_React} b b" by (rule runs_refl [OF o])
  have k: "runs limits {May_React} b b' \<Longrightarrow> lease_kept b b'" for b' by (erule runs_kept) simp
  have "lease_kept b (snd (handle_accept limits os b))"
    by (rule kept_same) (simp add: handle_accept_def)
  moreover have "process_gone b lease_id re \<or> lease_kept b (snd (handle_lease_process_event limits now lease_id re b))"
    by (auto simp: process_gone_def handle_lease_process_event_def split: option.splits)
  moreover have "lease_kept b (remove_conn limits now idx b)" "lease_kept b (snd (begin_turn limits os now b))"
    "lease_kept b (snd (handle_signal_events limits os re now b))"
    "lease_kept b (snd (snd (handle_master_events limits os re now budget b)))"
    by (intro k run_intros begin_turn_runs master_events_runs b; simp)+
  moreover have "release_allowed b idx f \<or> lease_kept b (dispatch_frame limits os now idx f b)"
    using dispatch_kept [OF o] by blast
  ultimately show ?thesis using Some o by (simp add: in_order_def)
qed simp

lemma fold_consider:
  "fold consider_deadline ds (Some d) = Some (Min (insert d (set ds)))"
proof (induction ds arbitrary: d)
  case (Cons x ds)
  have "fold consider_deadline (x # ds) (Some d) = Some (Min (insert (min d x) (set ds)))"
    by (simp add: consider_deadline_def Cons)
  also have "Min (insert (min d x) (set ds)) = Min (insert d (set (x # ds)))"
    by (cases "set ds = {}") (simp_all add: min.assoc min.commute min.left_commute)
  finally show ?case .
qed simp

lemma earliest_deadline:
  "fold consider_deadline ds None = (if ds = [] then None else Some (Min (set ds)))"
  using fold_consider by (cases ds) (simp_all add: consider_deadline_def)

text \<open>The poll never sleeps past a deadline: its timeout is at most the time left to every deadline the
  broker watches (writer start-up, incomplete frames, replies, the writer's stall, the PTY's last
  output, the kill's grace) and at most the caller's bound and the kernel's 31 bits; it is unbounded
  only when there is neither a deadline nor a bound.\<close>

theorem poll_meets_deadlines:
  "case poll_wait_ms limits now max_wait b of
     None \<Rightarrow> max_wait = None \<and> broker_deadlines limits b = []
   | Some t \<Rightarrow>
       list_all (\<lambda>d. unat t \<le> unat d - unat now) (broker_deadlines limits b) \<and>
       (case max_wait of None \<Rightarrow> True | Some m \<Rightarrow> t \<le> m) \<and> unat t < 2 ^ 31"
proof -
  let ?ds = "broker_deadlines limits b"
  have min_le: "unat (Min (set ?ds)) - unat now \<le> unat d - unat now" if "d \<in> set ?ds" for d
  proof -
    have "Min (set ?ds) \<le> d" using that by simp
    then show ?thesis by (simp add: word_le_nat_alt diff_le_mono)
  qed
  have u: "unat (of_nat (min k i32_max) :: u32) = min k i32_max" for k
    by (simp add: i32_max_def unat_of_nat min_def)
  have cut: "min (unat (Min (set ?ds)) - unat now) i32_max \<le> unat d - unat now"
    "min (min k (unat (Min (set ?ds)) - unat now)) i32_max \<le> unat d - unat now" if "d \<in> set ?ds" for d k
    using min_le [OF that] by linarith+
  show ?thesis
    using cut
    by (cases max_wait; cases "?ds = []")
      (auto simp: poll_wait_ms_def Let_def earliest_deadline u list_all_iff word_le_nat_alt i32_max_def)
qed

section \<open>The readiness record\<close>

text \<open>The readiness record is an exact codec: decoding an encoded status gives it back, and the eight
  bytes of a record that decodes are the encoding of what it decodes to, so every other record, a
  ready status with an errno or a nonzero reserved byte among them, is refused.\<close>

theorem ready_record_exact:
  "ready_decode (ready_encode st) = Inr st \<and> length (ready_encode st) = READY_RECORD_LEN \<and>
   (case ready_decode rec of Inl e \<Rightarrow> e = Io_InvalidData | Inr st' \<Rightarrow> rec = ready_encode st')"
proof -
  have sub: "subslice 4 8 (READY_MAGIC # x # 0 # 0 # be_bytes (errno :: u32)) = be_bytes errno" for x errno
    by (simp add: subslice_def)
  have enc: "ready_decode (ready_encode st) = Inr st \<and> length (ready_encode st) = READY_RECORD_LEN"
    by (cases st) (simp_all add: ready_decode_def ready_encode_def READY_RECORD_LEN_def sub Let_def)
  have "rec = ready_encode st'" if d: "ready_decode rec = Inr st'" for st'
  proof -
    have len: "length rec = 8" and b: "rec ! 0 = READY_MAGIC" "rec ! 2 = 0" "rec ! 3 = 0"
      using d by (auto simp: ready_decode_def READY_RECORD_LEN_def Let_def split: if_splits)
    have "rec = take 4 rec @ subslice 4 8 rec" using len by (simp add: subslice_def)
    moreover have "take 4 rec = [rec ! 0, rec ! 1, rec ! 2, rec ! 3]"
      using len by (simp add: take_Suc_conv_app_nth numeral_eq_Suc)
    moreover have "subslice 4 8 rec = be_bytes (be_word (subslice 4 8 rec) :: u32)"
      using len by (simp add: subslice_def)
    moreover have "(rec ! 1 = 0 \<and> (be_word (subslice 4 8 rec) :: u32) = 0 \<and> st' = Status_Ready) \<or>
        (rec ! 1 = 1 \<and> st' = Status_Failed (be_word (subslice 4 8 rec)))"
      using d by (auto simp: ready_decode_def Let_def split: if_splits)
    ultimately show ?thesis using b by (auto simp: ready_encode_def)
  qed
  moreover have "e = Io_InvalidData" if "ready_decode rec = Inl e" for e
    using that by (auto simp: ready_decode_def Let_def split: if_splits)
  ultimately show ?thesis using enc by (simp split: sum.splits)
qed

section \<open>Writer input\<close>

definition current_writer :: "broker \<Rightarrow> usize \<Rightarrow> u32 \<Rightarrow> conn_slot \<Rightarrow> bool" where
  "current_writer b idx w s \<longleftrightarrow>
     slot_at b idx = Some s \<and> slot_role s = ConnRole_Writer w \<and>
     ownership (rt_state (bk_runtime b)) = Writer w \<and> \<not> is_terminal_lifecycle b \<and>
     resolve b (Target_Client w) = Some idx"

lemma runtime_same: "b\<lparr>bk_runtime := bk_runtime b\<rparr> = b"
  by simp

lemma dispatch_input:
  assumes "current_writer b idx w s"
  shows "dispatch_frame limits os now idx (Frame_Input bs) b = apply_deliver_input limits now w bs b"
proof -
  have "dispatch_frame limits os now idx (Frame_Input bs) b
      = reduce_apply limits os now (Event_Frame (slot_conn s) (slot_role s) (Frame_Input bs)) b"
    using assms by (auto simp: dispatch_frame_def dispatch_reducer_frame_def current_writer_def split: option.splits)
  also have "\<dots> = apply_deliver_input limits now w bs b"
    using assms runtime_same [of b]
    by (simp add: reduce_apply_def reduce_then_def current_writer_def reduce_frame_def on_writer_frame_def
        exec_effect_def is_terminal_lifecycle_def)
  finally show ?thesis .
qed

lemma slot_gone: "slot_at (remove_conn limits now idx b) idx = None"
  by (simp add: slot_at_def)

lemma input_delivered:
  assumes "current_writer b idx w s" "input_push (cc_input (slot_client s)) bs = (q, ok)"
  shows "apply_deliver_input limits now w bs b =
    (let b1 = put_client idx s ((slot_client s)\<lparr>cc_input := q\<rparr>) b in
     if ok then b1 else remove_conn limits now idx b1)"
  using assms by (simp add: apply_deliver_input_def current_writer_def Let_def)

text \<open>C29: an input frame of the current writer is queued in full, behind what is queued already, exactly
  when the input queue has room for it; otherwise the connection is closed. A connection that the
  loop admits to read has room for the largest legal input frame.\<close>

theorem input_frame_outcome:
  assumes "current_writer b idx w s" "slot_ok limits s"
  shows "(let b' = dispatch_frame limits os now idx (Frame_Input bs) b;
              queued = input_content (cc_input (slot_client s));
              fits = (bs = [] \<or> length queued + length bs \<le> writer_input_queue_bytes limits)
          in (case slot_at b' idx of
                None \<Rightarrow> \<not> fits
              | Some s' \<Rightarrow> fits \<and> slot_conn s' = slot_conn s \<and>
                  input_content (cc_input (slot_client s')) = queued @ bs) \<and>
             (if read_admitted limits s \<and> length bs \<le> frame_max_body limits - 2 \<and>
                 writer_input_queue_bytes limits < 2 ^ 64 - 1
              then fits else True))"
proof -
  let ?i = "cc_input (slot_client s)"
  obtain q ok where q: "input_push ?i bs = (q, ok)" by force
  have inv: "input_inv ?i" and cap: "iq_cap_bytes ?i = writer_input_queue_bytes limits"
    using assms(2) by (simp_all add: slot_ok_def)
  have ok: "ok \<longleftrightarrow> bs = [] \<or> length (input_content ?i) + length bs \<le> writer_input_queue_bytes limits"
    using inq.push_accepts [OF inv, of bs] q cap by simp
  have content: "ok \<Longrightarrow> input_content q = input_content ?i @ bs"
    using inq.push_content [OF inv, of bs] q by simp
  have "slot_at b idx = Some s" using assms(1) by (simp add: current_writer_def)
  note at = slot_at_put_client [OF this, of "(slot_client s)\<lparr>cc_input := q\<rparr>"]
  have live: "iq_live_bytes ?i = length (input_content ?i)" using inq.inv_live [OF inv] by simp
  have adm: "read_admitted limits s \<Longrightarrow> length bs \<le> frame_max_body limits - 2 \<Longrightarrow>
      writer_input_queue_bytes limits < 2 ^ 64 - 1 \<Longrightarrow>
      length (input_content ?i) + length bs \<le> writer_input_queue_bytes limits"
    using assms(1)
    by (auto simp: read_admitted_def current_writer_def live saturating_add_usize_def split: if_splits)
  show ?thesis
    unfolding Let_def dispatch_input [OF assms(1)] input_delivered [OF assms(1) q]
    using ok content at adm by (auto simp: slot_gone)
qed

definition tight_limits :: pty_limits where
  "tight_limits = default_pty_limits\<lparr>frame_max_body := 12, read_chunk_bytes := 10, writer_input_queue_bytes := 10\<rparr>"

definition writer_reading :: "frame_reader \<Rightarrow> conn_slot" where
  "writer_reading r =
     \<lparr>slot_conn = 1, slot_client = (conn_new tight_limits)\<lparr>cc_role := ConnRole_Writer 1,
        cc_out := out_new (writer_queue_bytes tight_limits), cc_reader := r\<rparr>,
      slot_terminal_pending = None\<rparr>"

definition writing_broker :: "frame_reader \<Rightarrow> broker" where
  "writing_broker r =
     (initial_broker tight_limits
        ((ready_runtime [] tight_limits)\<lparr>rt_state := \<lparr>lifecycle = Running, ownership = Writer 1, terminal = None\<rparr>,
            next_client_id := 2\<rparr>) 0 False fresh_world)
     \<lparr>bk_slots := [Some (writer_reading r)], bk_next_conn_id := 2, bk_master := True\<rparr>"

lemma writing_current: "current_writer (writing_broker r) 0 1 (writer_reading r)"
  by (simp add: current_writer_def writing_broker_def slot_at_def initial_broker_def resolve_def
      writer_reading_def slot_role_def conn_new_def is_terminal_lifecycle_def)

lemma writing_ok: "reader_inv tight_limits r \<Longrightarrow> slot_ok tight_limits (writer_reading r)"
  by (simp add: slot_ok_def writer_reading_def slot_role_def role_cap_def conn_new_def out_new_def
      input_new_def input_inv_def input_abs_def out_inv_def out_content_def mark_front_def)
    (simp add: tight_limits_def default_pty_limits_def)

lemma input_frame_outcome_witness:
  "let b' = dispatch_frame tight_limits quiet_os 0 0 (Frame_Input [7]) (writing_broker reader_new);
       queued = input_content (cc_input (slot_client (writer_reading reader_new)));
       fits = ([7 :: u8] = [] \<or> length queued + length [7 :: u8] \<le> writer_input_queue_bytes tight_limits)
   in (case slot_at b' 0 of
         None \<Rightarrow> \<not> fits
       | Some s' \<Rightarrow> fits \<and> slot_conn s' = slot_conn (writer_reading reader_new) \<and>
           input_content (cc_input (slot_client s')) = queued @ [7]) \<and>
      (if read_admitted tight_limits (writer_reading reader_new) \<and>
          length [7 :: u8] \<le> frame_max_body tight_limits - 2 \<and> writer_input_queue_bytes tight_limits < 2 ^ 64 - 1
       then fits else True)"
  by (rule input_frame_outcome [OF writing_current writing_ok]) (simp add: reader_inv_def reader_new_def)

section \<open>Pipelined input\<close>

text \<open>Two frames in one chunk behind a frame in part: the loop dispatches both, without asking for
  admission again.\<close>

lemma consume_two:
  assumes ok: "frame_ok limits f" "frame_ok limits g" and enc: "encode_frame f = p @ q" "q \<noteq> []"
    and r: "reader_mid f p r" and b: "live b" "\<not> draining b"
    and b1: "live (dispatch f b)" "\<not> draining (dispatch f b)" and b2: "\<not> live (dispatch g (dispatch f b))"
  shows "\<exists>r'. consume_chunk live draining dispatch now limits r b (q @ encode_frame g)
      = (r', dispatch g (dispatch f b), Stop_Gone)"
proof -
  have n: "length q = min (length q) (length (q @ encode_frame g))" by simp
  obtain r1 where a1: "reader_append r (q @ encode_frame g) now limits = (r1, length q)" and m1: "reader_mid f (p @ q) r1"
    using append_mid [OF ok(1) enc r _ n, of now] enc(2) by auto
  let ?r1 = "r1\<lparr>fr_buf := [], fr_phase := Phase_Header, fr_started_ms := None\<rparr>"
  have t1: "take_frame r1 limits = (?r1, Inr (Some f))"
    using take_frame_mid [OF ok(1) _ m1, of "[]"] enc(1) by simp
  have i1: "reader_idle ?r1" using m1 by (simp add: reader_idle_def reader_mid_def)
  have s1: "take_all live dispatch limits r1 b = (?r1, dispatch f b, Continue)"
    using t1 b1(1) take_all_idle [OF i1] by (subst take_all.simps) simp
  have g0: "encode_frame g \<noteq> []" using length_encode_frame [of g] by auto
  have m2: "reader_mid g [] ?r1" using i1 by (simp add: reader_idle_def reader_mid_def HEADER_LEN_def)
  obtain r2 where a2: "reader_append ?r1 (encode_frame g) now limits = (r2, length (encode_frame g))"
    and m3: "reader_mid g (encode_frame g) r2"
    using append_mid [OF ok(2) _ g0 m2 g0, of "length (encode_frame g)" now] by auto
  let ?r2 = "r2\<lparr>fr_buf := [], fr_phase := Phase_Header, fr_started_ms := None\<rparr>"
  have t2: "take_frame r2 limits = (?r2, Inr (Some g))"
    using take_frame_mid [OF ok(2) _ m3, of "[]"] by simp
  have s2: "take_all live dispatch limits r2 (dispatch f b) = (?r2, dispatch g (dispatch f b), Stop_Gone)"
    using t2 b2 by (subst take_all.simps) simp
  have "consume_chunk live draining dispatch now limits ?r1 (dispatch f b) (encode_frame g)
      = (?r2, dispatch g (dispatch f b), Stop_Gone)"
    using g0 b1 a2 s2 by (subst consume_chunk.simps) simp
  with enc(2) b a1 s1 show ?thesis by (subst consume_chunk.simps) simp
qed

lemma position_update: "P y = P (xs ! k) \<Longrightarrow> position P (xs[k := y]) = position P xs"
proof (induction xs arbitrary: k)
  case (Cons x xs)
  then show ?case by (cases k) auto
qed simp

lemma current_writer_input:
  assumes "current_writer b idx w s"
  shows "current_writer (put_client idx s ((slot_client s)\<lparr>cc_input := q\<rparr>) b) idx w
    (s\<lparr>slot_client := (slot_client s)\<lparr>cc_input := q\<rparr>\<rparr>)"
proof -
  let ?s' = "s\<lparr>slot_client := (slot_client s)\<lparr>cc_input := q\<rparr>\<rparr>"
  have s: "slot_at b idx = Some s" and role: "slot_role ?s' = slot_role s"
    using assms by (simp_all add: current_writer_def slot_role_def)
  then have old: "idx < length (bk_slots b)" "bk_slots b ! idx = Some s" by (auto simp: slot_at_def split: if_splits)
  have "resolve (put_slot idx (Some ?s') b) (Target_Client w) = resolve b (Target_Client w)"
    using role old by (simp add: resolve_def put_slot_def position_update)
  with assms slot_at_put_client [OF s] role show ?thesis
    by (simp add: current_writer_def put_client_def is_terminal_lifecycle_def)
qed

lemma remove_world: "bk_world (remove_conn limits now idx b) = bk_world b"
  by (simp add: remove_conn_def release_lease_of_def reconcile_writer_stall_def put_slot_def Let_def split: option.split prod.split)

text \<open>C31: pipelined input is lost. Whenever the current writer's connection is admitted to read, has
  part of a legal input frame read, and the rest of it arrives in one chunk with a second legal input
  frame that the input queue has no room for, the connection is closed with everything in its input
  queue: no byte of the queue or of the two frames is written to the PTY. The module's description
  promises that a receive is bounded by \<open>bytes_needed\<close>, so that pipelined frames stay in the kernel
  and a frame that started is guaranteed queue space; the code reads ahead a whole buffer and does
  not ask for admission again.\<close>

theorem pipelined_input_lost:
  assumes "current_writer b idx w s" "slot_ok limits s" "read_admitted limits s"
    and "writer_input_queue_bytes limits < 2 ^ 64 - 1"
    and "reader_mid (Frame_Input xs) p (cc_reader (slot_client s))" "encode_frame (Frame_Input xs) = p @ q" "q \<noteq> []"
    and "frame_ok limits (Frame_Input xs)" "frame_ok limits (Frame_Input ys)"
    and "writer_input_queue_bytes limits
      < length (input_content (cc_input (slot_client s))) + length xs + length ys" "ys \<noteq> []"
  shows "let b' = broker_consume_chunk limits os now idx (q @ encode_frame (Frame_Input ys)) b
    in slot_at b' idx = None \<and> bk_world b' = bk_world b"
proof -
  let ?d = "dispatch_frame limits os now idx" and ?i = "cc_input (slot_client s)"
  let ?f = "Frame_Input xs" and ?g = "Frame_Input ys"
  have s: "slot_at b idx = Some s" using assms(1) by (simp add: current_writer_def)
  have inv: "input_inv ?i" and cap: "iq_cap_bytes ?i = writer_input_queue_bytes limits"
    using assms(2) by (simp_all add: slot_ok_def)
  have live: "iq_live_bytes ?i = length (input_content ?i)" using inq.inv_live [OF inv] by simp
  have calm: "\<not> cc_draining (slot_client s)" using assms(3) by (simp add: read_admitted_def split: if_splits)
  have room: "length (input_content ?i) + (frame_max_body limits - 2) \<le> writer_input_queue_bytes limits"
    using assms(1,3,4) calm by (simp add: read_admitted_def current_writer_def live saturating_add_usize_def min_def split: if_splits)
  obtain q1 ok1 where q1: "input_push ?i xs = (q1, ok1)" by force
  have "length xs \<le> frame_max_body limits - 2" using assms(8) by (simp add: frame_ok_def, linarith)
  then have "length (input_content ?i) + length xs \<le> writer_input_queue_bytes limits" using room by linarith
  then have ok1: "ok1" using inq.push_accepts [OF inv, of xs] q1 cap by simp
  have cap1: "iq_cap_bytes q1 = iq_cap_bytes ?i"
    using q1 by (auto simp: input_push_def split: if_splits option.splits)
  have content: "input_content q1 = input_content ?i @ xs" "input_inv q1"
    using inq.push_content [OF inv, of xs] inq.push_inv [OF inv, of xs] q1 ok1 by simp_all
  let ?s1 = "s\<lparr>slot_client := (slot_client s)\<lparr>cc_input := q1\<rparr>\<rparr>"
  define b1 where "b1 = put_client idx s ((slot_client s)\<lparr>cc_input := q1\<rparr>) b"
  have d1: "?d ?f b = b1"
    unfolding dispatch_input [OF assms(1)] input_delivered [OF assms(1) q1] by (simp add: ok1 b1_def)
  have cur: "current_writer b1 idx w ?s1" unfolding b1_def by (rule current_writer_input [OF assms(1)])
  then have s1: "slot_at b1 idx = Some ?s1" by (simp add: current_writer_def)
  obtain q2 ok2 where q2: "input_push q1 ys = (q2, ok2)" by force
  have "\<not> ok2" using inq.push_accepts [OF content(2), of ys] q2 content cap cap1 assms(10,11) by simp
  then have d2: "?d ?g b1 = remove_conn limits now idx (put_client idx ?s1 ((slot_client ?s1)\<lparr>cc_input := q2\<rparr>) b1)"
    unfolding dispatch_input [OF cur] using input_delivered [OF cur, of ys q2 ok2] q2 by simp
  have gone: "slot_at (?d ?g b1) idx = None" unfolding d2 by (rule slot_gone)
  have world: "bk_world (?d ?g b1) = bk_world b"
    unfolding d2 by (simp add: remove_world b1_def put_client_def put_slot_def)
  have "\<exists>r'. consume_chunk (\<lambda>b. slot_live b idx) (\<lambda>b. slot_draining b idx) ?d now limits (cc_reader (slot_client s)) b
      (q @ encode_frame ?g) = (r', ?d ?g (?d ?f b), Stop_Gone)"
    by (rule consume_two [OF assms(8,9,6,7,5)])
      (use s s1 calm gone in \<open>simp_all add: d1 slot_live_def slot_draining_def\<close>)
  then show ?thesis using s gone world by (auto simp: broker_consume_chunk_def d1 Let_def)
qed

text \<open>A queue of ten bytes, and the rest of a paste of ten bytes with one byte typed behind it.\<close>

definition pasted :: frame where "pasted = Frame_Input (replicate 10 97)"
definition typed :: frame where "typed = Frame_Input [98]"

definition half_read :: frame_reader where
  "half_read = \<lparr>fr_buf = take 15 (encode_frame pasted), fr_phase = Phase_Body 16, fr_started_ms = Some 0, fr_fatal = None\<rparr>"

lemma pipelined_input_lost_witness:
  "slot_at (writing_broker half_read) 0 = Some (writer_reading half_read) \<and>
   slot_at (broker_consume_chunk tight_limits quiet_os 0 0 (drop 15 (encode_frame pasted) @ encode_frame typed)
      (writing_broker half_read)) 0 = None"
proof -
  have len: "length (encode_frame pasted) = 16" by (simp add: pasted_def length_encode_frame)
  have lim: "writer_input_queue_bytes tight_limits = 10" "frame_max_body tight_limits = 12"
    by (simp_all add: tight_limits_def)
  have inp: "cc_input (slot_client (writer_reading half_read)) = input_new 10" "cc_reader (slot_client (writer_reading half_read)) = half_read"
    by (simp_all add: writer_reading_def conn_new_def lim)
  have mid: "reader_mid pasted (take 15 (encode_frame pasted)) half_read"
    using len by (simp add: reader_mid_def half_read_def HEADER_LEN_def)
  have "let b' = broker_consume_chunk tight_limits quiet_os 0 0
        (drop 15 (encode_frame (Frame_Input (replicate 10 97))) @ encode_frame (Frame_Input [98])) (writing_broker half_read)
      in slot_at b' 0 = None \<and> bk_world b' = bk_world (writing_broker half_read)"
  proof (rule pipelined_input_lost [OF writing_current writing_ok, where p = "take 15 (encode_frame pasted)"])
    show "reader_inv tight_limits half_read"
      by (simp add: reader_inv_def half_read_def lim len HEADER_LEN_def)
    show "read_admitted tight_limits (writer_reading half_read)"
      by (simp add: read_admitted_def writer_reading_def slot_role_def conn_new_def input_new_def lim saturating_add_usize_def)
    show "drop 15 (encode_frame (Frame_Input (replicate 10 97))) \<noteq> []" using len by (simp add: pasted_def)
    show "frame_ok tight_limits (Frame_Input (replicate 10 97))" "frame_ok tight_limits (Frame_Input [98])"
      by (simp_all add: frame_ok_def lim)
  qed (use mid in \<open>simp_all add: inp lim pasted_def input_new_def input_content_def\<close>)
  moreover have "slot_at (writing_broker half_read) 0 = Some (writer_reading half_read)"
    by (simp add: writing_broker_def slot_at_def)
  ultimately show ?thesis by (simp add: pasted_def typed_def Let_def)
qed

section \<open>PTY output under a lease\<close>

lemma discard_loop_log:
  "discard_loop limits os now budget b = (r, budget', b') \<Longrightarrow>
   bk_lease b' = bk_lease b \<and> (\<exists>later. wd_log (bk_world b') = wd_log (bk_world b) @ later)"
proof (induction limits os now budget b arbitrary: r budget' b' rule: discard_loop.induct)
  case (1 limits os now budget b)
  obtain n res b1 where c: "b_call (os_read os) b = ((n, res), b1)" by (metis surj_pair)
  have b1: "bk_lease b1 = bk_lease b" "wd_log (bk_world b1) = wd_log (bk_world b)"
    using c by (auto simp: b_call_def sys_call_def)
  have ended: "bk_lease (detach_master (note_pty_terminal limits now b1)) = bk_lease b"
      "wd_log (bk_world (detach_master (note_pty_terminal limits now b1))) = wd_log (bk_world b)"
    using b1 by (simp_all add: detach_master_def note_pty_terminal_def Let_def)
  show ?case
  proof (cases "budget = 0 \<or> budget \<le> n \<or> isl res \<or> take (read_chunk_bytes limits) (projr res) = []")
    case True
    with 1(2) c b1 ended show ?thesis
      by (subst (asm) discard_loop.simps) (auto simp: Let_def split: if_splits sum.splits)
  next
    case False
    then obtain bs where bs: "res = Inr bs" by (cases res) auto
    let ?b2 = "b1\<lparr>bk_world := mark (Mark_Discard (take (read_chunk_bytes limits) bs)) (bk_world b1)\<rparr>"
    have run: "discard_loop limits os now (budget - n - 1) ?b2 = (r, budget', b')"
      using 1(2) False c bs by (subst (asm) discard_loop.simps) (simp add: Let_def)
    have "bk_lease b' = bk_lease ?b2 \<and> (\<exists>later. wd_log (bk_world b') = wd_log (bk_world ?b2) @ later)"
      by (rule 1(1) [OF _ c [symmetric] refl _ refl bs refl _ run]) (use False bs in auto)
    then show ?thesis using b1 by (auto simp: mark_def)
  qed
qed

text \<open>C32: while a gateway holds the PTY the broker does not poll the master, so that the gateway alone
  reads it. Yet whenever nobody is left to receive output, which the end of the gateway's control
  connection leads to while its descriptor may still be live, and the first bytes of a new connection
  become readable, the broker reads what the PTY has and throws it away: with any lease held, and it
  holds on to the lease.\<close>

theorem leased_output_discarded:
  assumes "bk_lease b = Some l" "bk_master b" "\<not> has_output_recipients b"
    and "\<not> bk_shutdown_requested b" "\<not> bk_internal_cleanup_pending b"
    and "slot_at b idx = Some s" "slot_role s = ConnRole_AwaitingFirstFrame" "read_admitted limits s"
    and "os_read os (wd_tick (bk_world b)) = (0, Inr bs)" "bs \<noteq> []" "0 < read_chunk_bytes limits" "0 < budget"
  shows "master_poll_events b = None \<and>
    (case readable_gate limits os now idx budget b of
       (_, _, b') \<Rightarrow> bk_lease b' = Some l \<and>
         (\<exists>later. wd_log (bk_world b') = wd_log (bk_world b) @ Mark_Discard (take (read_chunk_bytes limits) bs) # later))"
proof -
  let ?w = "(bk_world b)\<lparr>wd_tick := Suc (wd_tick (bk_world b))\<rparr>"
  let ?b1 = "b\<lparr>bk_world := mark (Mark_Discard (take (read_chunk_bytes limits) bs)) ?w\<rparr>"
  have c: "b_call (os_read os) b = ((0, Inr bs), b\<lparr>bk_world := ?w\<rparr>)"
    using assms(9) by (simp add: b_call_def sys_call_def)
  have step: "discard_loop limits os now budget b = discard_loop limits os now (budget - 1) ?b1"
    using assms(10,11,12) by (subst discard_loop.simps) (simp add: c mark_def)
  obtain r budget' b' where d: "discard_loop limits os now (budget - 1) ?b1 = (r, budget', b')" by (metis prod_cases3)
  note L = discard_loop_log [OF d]
  have "snd (snd (readable_gate limits os now idx budget b)) = b'"
    using assms d step by (simp add: readable_gate_def discard_master_until_boundary_def split: sum.split barrier_result.split)
  moreover have "master_poll_events b = None" using assms(1) by (simp add: master_poll_events_def)
  ultimately show ?thesis using L assms(1) by (auto simp: mark_def split: prod.split)
qed

definition leased_broker :: broker where
  "leased_broker =
     (initial_broker tight_limits
        ((ready_runtime [] tight_limits)\<lparr>rt_state := \<lparr>lifecycle = Running, ownership = NoWriter, terminal = None\<rparr>\<rparr>)
        0 False fresh_world)
     \<lparr>bk_slots := [Some \<lparr>slot_conn = 2, slot_client = conn_new tight_limits, slot_terminal_pending = None\<rparr>],
      bk_next_conn_id := 3, bk_closed_total := 1, bk_master := True, bk_next_lease_id := 2,
      bk_lease := Some
        \<lparr>pl_owner = \<lparr>lo_conn = 1, lo_client_id = 1, lo_generation = [], lo_pid = 9, lo_start_ticks = 5, lo_lease_id = 1\<rparr>,
         pl_phase = Phase_Active, pl_control_alive = False, pl_revoke_sent = False\<rparr>\<rparr>"

definition talking_os :: broker_os where
  "talking_os = quiet_os\<lparr>os_read := \<lambda>_. (0, Inr [104, 105])\<rparr>"

lemma leased_output_discarded_witness:
  "master_poll_events leased_broker = None \<and>
   (case readable_gate tight_limits talking_os 0 0 1 leased_broker of
      (_, _, b) \<Rightarrow> bk_lease b = bk_lease leased_broker \<and> bk_lease b \<noteq> None \<and>
        (\<exists>later. wd_log (bk_world b) = Mark_Discard [104, 105] # later))"
proof -
  obtain l where l: "bk_lease leased_broker = Some l" by (simp add: leased_broker_def)
  let ?s = "\<lparr>slot_conn = 2, slot_client = conn_new tight_limits, slot_terminal_pending = None\<rparr>"
  have "master_poll_events leased_broker = None \<and>
    (case readable_gate tight_limits talking_os 0 0 1 leased_broker of
       (_, _, b') \<Rightarrow> bk_lease b' = Some l \<and>
         (\<exists>later. wd_log (bk_world b') = wd_log (bk_world leased_broker)
            @ Mark_Discard (take (read_chunk_bytes tight_limits) [104, 105]) # later))"
    by (rule leased_output_discarded [OF l, where s = ?s])
      (simp_all add: leased_broker_def initial_broker_def has_output_recipients_def eligible_writer_slot_def
        ready_runtime_def observers_new_def slot_at_def read_admitted_def slot_role_def conn_new_def talking_os_def
        fresh_world_def tight_limits_def)
  with l show ?thesis by (auto simp: leased_broker_def initial_broker_def fresh_world_def tight_limits_def split: prod.splits)
qed

end
