(* ===== verification/Ssh_Resume.thy ===== *)
theory Ssh_Resume
  imports Interfaces
begin

text \<open>
  The resumable byte stream of everssh (\<open>crates/everssh/src/resume.rs\<close>): the resume frame
  codec, the incremental decoder, the bounded replay queue of the sender, the receiver's
  duplicate filter, and the association core that joins them. The codec and the pair of
  queue and receiver are interpretations of the codec and replayed-link interfaces, which
  gives exactly-once, in-order delivery across reconnects.
\<close>

datatype ssh_error =
    ResumeFrameMalformed | ResumeLimitInvalid | ResumeQueueFull | ResumeSequenceOverflow
  | ResumeSequenceInvalid | ResumeOperationInvalid | BridgeAllocation

section \<open>Frames\<close>

definition RESUME_VERSION :: u8 where "RESUME_VERSION = 1"
definition RESUME_HEADER_LEN :: usize where "RESUME_HEADER_LEN = 14"
definition RESUME_MAX_DATA_LEN :: usize where "RESUME_MAX_DATA_LEN = 4294967295"

datatype resume_kind = ResumeKind_Data | ResumeKind_Fin | ResumeKind_Ack

fun resume_kind_byte :: "resume_kind \<Rightarrow> u8" where
  "resume_kind_byte ResumeKind_Data = 1"
| "resume_kind_byte ResumeKind_Fin = 2"
| "resume_kind_byte ResumeKind_Ack = 3"

definition resume_kind_from_u8 :: "u8 \<Rightarrow> resume_kind option" where
  "resume_kind_from_u8 v =
     (if v = 1 then Some ResumeKind_Data
      else if v = 2 then Some ResumeKind_Fin
      else if v = 3 then Some ResumeKind_Ack
      else None)"

datatype resume_operation = Op_Data bytes | Op_Fin | Op_Ack

record resume_frame =
  rf_sequence :: u64
  rf_operation :: resume_operation

definition resume_data :: "u64 \<Rightarrow> bytes \<Rightarrow> ssh_error + resume_frame" where
  "resume_data sequence bs =
     (if sequence = 0 \<or> bs = [] \<or> length bs > RESUME_MAX_DATA_LEN then Inl ResumeFrameMalformed
      else Inr \<lparr>rf_sequence = sequence, rf_operation = Op_Data bs\<rparr>)"

definition resume_fin :: "u64 \<Rightarrow> ssh_error + resume_frame" where
  "resume_fin sequence =
     (if sequence = 0 then Inl ResumeFrameMalformed
      else Inr \<lparr>rf_sequence = sequence, rf_operation = Op_Fin\<rparr>)"

definition resume_ack :: "u64 \<Rightarrow> ssh_error + resume_frame" where
  "resume_ack sequence = Inr \<lparr>rf_sequence = sequence, rf_operation = Op_Ack\<rparr>"

fun op_data :: "resume_operation \<Rightarrow> bytes" where
  "op_data (Op_Data bs) = bs"
| "op_data _ = []"

definition data_len :: "resume_frame \<Rightarrow> usize" where
  "data_len f = length (op_data (rf_operation f))"

definition wire_len :: "resume_frame \<Rightarrow> usize" where
  "wire_len f = RESUME_HEADER_LEN + data_len f"

definition is_ack :: "resume_frame \<Rightarrow> bool" where
  "is_ack f \<longleftrightarrow> rf_operation f = Op_Ack"

fun op_kind :: "resume_operation \<Rightarrow> resume_kind" where
  "op_kind (Op_Data _) = ResumeKind_Data"
| "op_kind Op_Fin = ResumeKind_Fin"
| "op_kind Op_Ack = ResumeKind_Ack"

text \<open>\<open>u32::try_from(len).unwrap_or(u32::MAX)\<close>, then the header and the payload.\<close>

definition resume_encode :: "resume_frame \<Rightarrow> bytes" where
  "resume_encode f =
     (let payload_len = (if data_len f < 2 ^ 32 then of_nat (data_len f) else - 1 :: u32)
      in [RESUME_VERSION, resume_kind_byte (op_kind (rf_operation f))]
         @ be_bytes (rf_sequence f) @ be_bytes payload_len @ op_data (rf_operation f))"

definition resume_decode_exact :: "bytes \<Rightarrow> ssh_error + resume_frame" where
  "resume_decode_exact bs =
     (if length bs < RESUME_HEADER_LEN \<or> bs ! 0 \<noteq> RESUME_VERSION then Inl ResumeFrameMalformed
      else try_bind (ok_or ResumeFrameMalformed (resume_kind_from_u8 (bs ! 1))) (\<lambda>kind.
        let sequence = be_word (subslice 2 10 bs);
            payload_len = unat (be_word (subslice 10 14 bs) :: u32);
            payload = drop RESUME_HEADER_LEN bs
        in if length payload \<noteq> payload_len then Inl ResumeFrameMalformed
           else (case kind of
             ResumeKind_Data \<Rightarrow> resume_data sequence payload
           | ResumeKind_Fin \<Rightarrow> if payload = [] then resume_fin sequence else Inl ResumeFrameMalformed
           | ResumeKind_Ack \<Rightarrow> if payload = [] then resume_ack sequence else Inl ResumeFrameMalformed)))"

definition resume_ok :: "resume_frame \<Rightarrow> bool" where
  "resume_ok f \<longleftrightarrow>
     (case rf_operation f of
        Op_Data bs \<Rightarrow> rf_sequence f \<noteq> 0 \<and> bs \<noteq> [] \<and> length bs \<le> RESUME_MAX_DATA_LEN
      | Op_Fin \<Rightarrow> rf_sequence f \<noteq> 0
      | Op_Ack \<Rightarrow> True)"

lemma resume_kind_byte_inverse [simp]: "resume_kind_from_u8 (resume_kind_byte k) = Some k"
  by (cases k) (simp_all add: resume_kind_from_u8_def)

lemma resume_kind_from_u8_Some: "resume_kind_from_u8 v = Some k \<Longrightarrow> resume_kind_byte k = v"
  by (auto simp: resume_kind_from_u8_def split: if_splits)

lemma op_kind_cases:
  "op_kind p = ResumeKind_Data \<longleftrightarrow> (\<exists>bs. p = Op_Data bs)"
  "op_kind p = ResumeKind_Fin \<longleftrightarrow> p = Op_Fin"
  "op_kind p = ResumeKind_Ack \<longleftrightarrow> p = Op_Ack"
  by (cases p; simp)+

text \<open>The header fields of any encoded frame, whatever follows it.\<close>

lemma resume_encode_fields:
  assumes "data_len f < 2 ^ 32"
  shows "length (resume_encode f) = RESUME_HEADER_LEN + data_len f"
    "(resume_encode f @ rest) ! 0 = RESUME_VERSION"
    "(resume_encode f @ rest) ! 1 = resume_kind_byte (op_kind (rf_operation f))"
    "be_word (subslice 2 10 (resume_encode f @ rest)) = rf_sequence f"
    "unat (be_word (subslice 10 14 (resume_encode f @ rest)) :: u32) = data_len f"
    "drop RESUME_HEADER_LEN (resume_encode f @ rest) = op_data (rf_operation f) @ rest"
  using assms by (simp_all add: resume_encode_def subslice_def RESUME_HEADER_LEN_def data_len_def drop_Cons')

lemma resume_decode_encode:
  assumes "resume_ok f"
  shows "resume_decode_exact (resume_encode f) = Inr f"
proof -
  have len: "data_len f < 2 ^ 32"
    using assms by (auto simp: resume_ok_def data_len_def RESUME_MAX_DATA_LEN_def split: resume_operation.splits)
  note fields = resume_encode_fields(1) [OF len] resume_encode_fields(2-) [of f "[]", OF len, simplified append_Nil2]
  have "resume_decode_exact (resume_encode f) =
      (case op_kind (rf_operation f) of
         ResumeKind_Data \<Rightarrow> resume_data (rf_sequence f) (op_data (rf_operation f))
       | ResumeKind_Fin \<Rightarrow> if op_data (rf_operation f) = [] then resume_fin (rf_sequence f)
           else Inl ResumeFrameMalformed
       | ResumeKind_Ack \<Rightarrow> if op_data (rf_operation f) = [] then resume_ack (rf_sequence f)
           else Inl ResumeFrameMalformed)"
    unfolding resume_decode_exact_def fields Let_def by (simp add: data_len_def)
  also have "\<dots> = Inr f"
    using assms by (cases f) (auto simp: resume_ok_def resume_data_def resume_fin_def resume_ack_def
        split: resume_operation.splits)
  finally show ?thesis .
qed

lemma resume_decode_sound:
  assumes "resume_decode_exact bs = Inr f"
  shows "resume_ok f \<and> bs = resume_encode f"
proof -
  have len: "RESUME_HEADER_LEN \<le> length bs" "bs ! 0 = RESUME_VERSION"
    using assms by (auto simp: resume_decode_exact_def split: if_splits)
  obtain k where k: "resume_kind_from_u8 (bs ! 1) = Some k"
    using assms len by (auto simp: resume_decode_exact_def)
  define sq where "sq = (be_word (subslice 2 10 bs) :: u64)"
  define pl where "pl = drop RESUME_HEADER_LEN bs"
  have pl: "length pl = unat (be_word (subslice 10 14 bs) :: u32)"
    using assms len k by (auto simp: resume_decode_exact_def pl_def Let_def split: if_splits)
  have f: "rf_sequence f = sq \<and> op_data (rf_operation f) = pl \<and> op_kind (rf_operation f) = k \<and> resume_ok f"
    using assms len k
    by (auto simp: resume_decode_exact_def sq_def pl_def Let_def resume_data_def resume_fin_def
        resume_ack_def resume_ok_def split: if_splits resume_kind.splits)
  have split: "bs = [bs ! 0, bs ! 1] @ subslice 2 10 bs @ subslice 10 14 bs @ pl"
  proof -
    have "subslice 2 10 bs @ subslice 10 14 bs @ pl = drop 2 bs"
      using len(1) by (simp add: pl_def RESUME_HEADER_LEN_def drop_subslice)
    moreover have "bs = bs ! 0 # bs ! 1 # drop 2 bs"
      using len(1) by (cases bs; cases "tl bs") (auto simp: RESUME_HEADER_LEN_def)
    ultimately show ?thesis by simp
  qed
  have lens: "length (subslice 2 10 bs) = 8" "length (subslice 10 14 bs) = 4"
    using len(1) by (simp_all add: RESUME_HEADER_LEN_def)
  have "unat (be_word (subslice 10 14 bs) :: u32) < 2 ^ 32"
    using unat_lt_32 [of "be_word (subslice 10 14 bs)"] by simp
  then have "(of_nat (data_len f) :: u32) = be_word (subslice 10 14 bs)" "data_len f < 2 ^ 32"
    using f pl by (simp_all add: data_len_def word_unat_eq_iff)
  then have "resume_encode f = [bs ! 0, bs ! 1] @ subslice 2 10 bs @ subslice 10 14 bs @ pl"
    using f len(2) lens resume_kind_from_u8_Some [OF k]
    by (simp add: resume_encode_def Let_def sq_def)
  with split f show ?thesis by metis
qed

interpretation resume: exact_codec resume_encode resume_decode_exact resume_ok
  by unfold_locales (auto simp: resume_decode_encode dest: resume_decode_sound)

section \<open>The incremental decoder\<close>

record resume_decoder =
  rd_max_data_len :: usize
  rd_header :: bytes
  rd_header_filled :: usize
  rd_body :: bytes
  rd_body_filled :: usize

definition decoder_reset :: "usize \<Rightarrow> resume_decoder" where
  "decoder_reset max_data_len =
     \<lparr>rd_max_data_len = max_data_len, rd_header = replicate RESUME_HEADER_LEN 0,
      rd_header_filled = 0, rd_body = [], rd_body_filled = 0\<rparr>"

definition decoder_new :: "usize \<Rightarrow> ssh_error + resume_decoder" where
  "decoder_new max_data_len =
     (if max_data_len = 0 \<or> max_data_len > RESUME_MAX_DATA_LEN then Inl ResumeLimitInvalid
      else Inr (decoder_reset max_data_len))"

text \<open>\<open>alloc n\<close> says whether reserving \<open>n\<close> bytes succeeds; the failure is an error of the source.\<close>

definition start_body ::
  "(usize \<Rightarrow> bool) \<Rightarrow> resume_decoder \<Rightarrow> resume_decoder \<times> (ssh_error + unit)" where
  "start_body alloc d =
     (if rd_header d ! 0 \<noteq> RESUME_VERSION then (d, Inl ResumeFrameMalformed)
      else
        let payload_len = unat (be_word (drop 10 (rd_header d)) :: u32) in
        if payload_len > rd_max_data_len d then (d, Inl ResumeFrameMalformed)
        else if \<not> alloc payload_len then (d, Inl BridgeAllocation)
        else (d\<lparr>rd_body := replicate payload_len 0, rd_body_filled := 0\<rparr>, Inr ()))"

definition decoder_take_frame ::
  "resume_decoder \<Rightarrow> resume_decoder \<times> (ssh_error + resume_frame)" where
  "decoder_take_frame d =
     (d\<lparr>rd_header := replicate RESUME_HEADER_LEN 0, rd_header_filled := 0,
        rd_body := [], rd_body_filled := 0\<rparr>,
      resume_decode_exact (rd_header d @ rd_body d))"

text \<open>The header half of one turn of the loop; \<open>Inr False\<close> is its \<open>break\<close>.\<close>

definition header_phase ::
  "(usize \<Rightarrow> bool) \<Rightarrow> resume_decoder \<Rightarrow> bytes \<Rightarrow> resume_decoder \<times> bytes \<times> (ssh_error + bool)" where
  "header_phase alloc d inp =
     (if rd_header_filled d < RESUME_HEADER_LEN then
        let count = min (length inp) (RESUME_HEADER_LEN - rd_header_filled d);
            d1 = d\<lparr>rd_header := splice_at (rd_header_filled d) (take count inp) (rd_header d),
                   rd_header_filled := rd_header_filled d + count\<rparr>;
            inp1 = drop count inp
        in if rd_header_filled d1 < RESUME_HEADER_LEN then (d1, inp1, Inr False)
           else (case start_body alloc d1 of
                   (d2, Inl e) \<Rightarrow> (d2, inp1, Inl e)
                 | (d2, Inr _) \<Rightarrow> (d2, inp1, Inr True))
      else (d, inp, Inr True))"

definition finish_frame ::
  "resume_decoder \<Rightarrow> bytes \<Rightarrow> resume_decoder \<times> bytes \<times> (ssh_error + resume_frame option)" where
  "finish_frame d inp =
     (case decoder_take_frame d of
        (d1, Inl e) \<Rightarrow> (d1, inp, Inl e)
      | (d1, Inr f) \<Rightarrow> (d1, inp, Inr (Some f)))"

definition body_phase ::
  "resume_decoder \<Rightarrow> bytes \<Rightarrow> resume_decoder \<times> bytes \<times> (ssh_error + resume_frame option)" where
  "body_phase d inp =
     (let needed = length (rd_body d) - rd_body_filled d in
      if needed = 0 then finish_frame d inp
      else
        let count = min (length inp) needed;
            d1 = d\<lparr>rd_body := splice_at (rd_body_filled d) (take count inp) (rd_body d),
                   rd_body_filled := rd_body_filled d + count\<rparr>;
            inp1 = drop count inp
        in if rd_body_filled d1 = length (rd_body d1) then finish_frame d1 inp1
           else (d1, inp1, Inr None))"

lemma header_phase_progress:
  "header_phase alloc d inp = (d1, inp1, Inr True) \<Longrightarrow> inp \<noteq> [] \<Longrightarrow>
   length inp1 < length inp \<or> inp1 = inp \<and> d1 = d \<and> RESUME_HEADER_LEN \<le> rd_header_filled d"
  by (auto simp: header_phase_def Let_def min_def split: if_splits sum.splits prod.splits)

lemma body_phase_progress:
  "body_phase d inp = (d1, inp1, r) \<Longrightarrow>
   length inp1 \<le> length inp \<and> (inp \<noteq> [] \<longrightarrow> length inp1 < length inp \<or> rd_header_filled d1 = 0)"
  by (auto simp: body_phase_def finish_frame_def decoder_take_frame_def Let_def min_def
      split: if_splits sum.splits)

function decode_loop ::
  "(usize \<Rightarrow> bool) \<Rightarrow> resume_decoder \<Rightarrow> bytes \<Rightarrow> resume_frame list \<Rightarrow>
   resume_decoder \<times> (ssh_error + resume_frame list)" where
  "decode_loop alloc d inp decoded =
     (if inp = [] then (d, Inr decoded)
      else case header_phase alloc d inp of
        (d1, inp1, Inl e) \<Rightarrow> (d1, Inl e)
      | (d1, inp1, Inr False) \<Rightarrow> (d1, Inr decoded)
      | (d1, inp1, Inr True) \<Rightarrow>
          (case body_phase d1 inp1 of
             (d2, inp2, Inl e) \<Rightarrow> (d2, Inl e)
           | (d2, inp2, Inr None) \<Rightarrow> decode_loop alloc d2 inp2 decoded
           | (d2, inp2, Inr (Some f)) \<Rightarrow> decode_loop alloc d2 inp2 (decoded @ [f])))"
  by pat_completeness auto
termination
proof (relation "measures [\<lambda>(alloc, d, inp, decoded). length inp, \<lambda>(alloc, d, inp, decoded). rd_header_filled d]",
    goal_cases)
  case (2 alloc d inp decoded d1 y inp1 z b d2 ya inp2 yb)
  then show ?case
    using header_phase_progress [of alloc d inp d1 inp1] body_phase_progress [of d1 inp1 d2 inp2 yb]
    by (fastforce simp: RESUME_HEADER_LEN_def)
next
  case (3 alloc d inp decoded d1 y inp1 z b d2 ya inp2 yb)
  then show ?case
    using header_phase_progress [of alloc d inp d1 inp1] body_phase_progress [of d1 inp1 d2 inp2 yb]
    by (fastforce simp: RESUME_HEADER_LEN_def)
qed simp

declare decode_loop.simps [simp del]

definition decode_chunk ::
  "(usize \<Rightarrow> bool) \<Rightarrow> resume_decoder \<Rightarrow> bytes \<Rightarrow> resume_decoder \<times> (ssh_error + resume_frame list)" where
  "decode_chunk alloc d inp = decode_loop alloc d inp []"

subsection \<open>Cutting the stream anywhere changes nothing\<close>

text \<open>Between two turns of the loop a decoder is either collecting its header, with no body, or
  lacks at least one body byte.\<close>

definition decoder_wf :: "resume_decoder \<Rightarrow> bool" where
  "decoder_wf d \<longleftrightarrow>
     length (rd_header d) = RESUME_HEADER_LEN \<and>
     (rd_header_filled d < RESUME_HEADER_LEN \<or>
      rd_header_filled d = RESUME_HEADER_LEN \<and> rd_body_filled d < length (rd_body d))"

lemma decoder_reset_wf: "decoder_wf (decoder_reset m)"
  by (simp add: decoder_wf_def decoder_reset_def RESUME_HEADER_LEN_def)

text \<open>A turn on \<open>a @ b\<close> where \<open>a\<close> alone does not complete its phase is a turn on \<open>b\<close> from the
  state that \<open>a\<close> leaves; where \<open>a\<close> completes it, \<open>b\<close> is merely left over.\<close>

lemma header_phase_more:
  assumes "header_phase alloc d a = (d1, a1, Inr False)" "length (rd_header d) = RESUME_HEADER_LEN"
  shows "a1 = [] \<and> length (rd_header d1) = RESUME_HEADER_LEN \<and> rd_header_filled d1 < RESUME_HEADER_LEN \<and>
    header_phase alloc d1 b = header_phase alloc d (a @ b)"
proof -
  let ?hf = "rd_header_filled d"
  have lt: "?hf + length a < RESUME_HEADER_LEN"
      "a1 = []" "d1 = d\<lparr>rd_header := splice_at ?hf a (rd_header d), rd_header_filled := ?hf + length a\<rparr>"
    using assms(1) by (auto simp: header_phase_def Let_def min_def split: if_splits sum.splits prod.splits)
  define c where "c = min (length b) (RESUME_HEADER_LEN - (?hf + length a))"
  define tb where "tb = take c b"
  have tb: "take (length a + c) (a @ b) = a @ tb" "drop (length a + c) (a @ b) = drop c b"
    "length tb = c" "?hf + length a + length tb \<le> RESUME_HEADER_LEN"
    using lt(1) by (auto simp: c_def tb_def)
  have c: "min (length (a @ b)) (RESUME_HEADER_LEN - ?hf) = length a + c"
    using lt(1) by (auto simp: c_def)
  have sp: "splice_at (?hf + length a) tb (splice_at ?hf a (rd_header d)) = splice_at ?hf (a @ tb) (rd_header d)"
    using tb(4) assms(2) by (intro splice_at_append) simp
  have "header_phase alloc d1 b = header_phase alloc d (a @ b)"
    unfolding header_phase_def Let_def c tb(1,2) using lt(1) sp
    by (simp add: lt(3) c_def [symmetric] tb_def [symmetric] add.assoc)
  then show ?thesis
    using lt assms(2) by simp
qed

lemma header_phase_done:
  assumes "header_phase alloc d a = (d1, a1, r)" "r \<noteq> Inr False"
  shows "header_phase alloc d (a @ b) = (d1, a1 @ b, r)"
proof (cases "rd_header_filled d < RESUME_HEADER_LEN")
  case False
  with assms show ?thesis by (simp add: header_phase_def)
next
  case True
  define want where "want = RESUME_HEADER_LEN - rd_header_filled d"
  have le: "want \<le> length a"
    using assms True by (auto simp: header_phase_def Let_def want_def min_def split: if_splits)
  have eqs: "min (length a) want = want" "min (length (a @ b)) want = want"
      "take want (a @ b) = take want a" "drop want (a @ b) = drop want a @ b"
    using le by simp_all
  show ?thesis
    using assms(1) True unfolding header_phase_def Let_def want_def [symmetric] eqs
    by (auto simp: want_def split: sum.splits prod.splits)
qed

lemma finish_frame_append: "finish_frame d a = (d1, a1, r) \<Longrightarrow> finish_frame d (a @ b) = (d1, a1 @ b, r)"
  by (auto simp: finish_frame_def split: prod.splits sum.splits)

lemma body_phase_done:
  assumes "body_phase d a = (d1, a1, r)" "r \<noteq> Inr None"
  shows "body_phase d (a @ b) = (d1, a1 @ b, r)"
proof (cases "length (rd_body d) - rd_body_filled d = 0")
  case True
  with assms finish_frame_append show ?thesis by (simp add: body_phase_def)
next
  case False
  define want where "want = length (rd_body d) - rd_body_filled d"
  have len: "length (splice_at (rd_body_filled d) (take (min (length a) want) a) (rd_body d)) = length (rd_body d)"
    using False by (intro length_splice_at) (auto simp: want_def)
  have le: "want \<le> length a"
    using assms False len by (auto simp: body_phase_def Let_def want_def min_def split: if_splits)
  have eqs: "min (length a) want = want" "min (length (a @ b)) want = want"
      "take want (a @ b) = take want a" "drop want (a @ b) = drop want a @ b"
    using le by simp_all
  have want: "want \<noteq> 0" "rd_body_filled d + want = length (rd_body d)"
    using False by (simp_all add: want_def)
  show ?thesis
    using assms(1) len unfolding body_phase_def Let_def want_def [symmetric] eqs
    by (auto simp: want intro: finish_frame_append)
qed

lemma body_phase_more:
  assumes "body_phase d a = (d1, a1, Inr None)"
  shows "a1 = [] \<and> rd_header d1 = rd_header d \<and> rd_header_filled d1 = rd_header_filled d \<and>
    rd_body_filled d1 < length (rd_body d1) \<and> body_phase d1 b = body_phase d (a @ b)"
proof -
  let ?bf = "rd_body_filled d" and ?L = "length (rd_body d)"
  have lt: "?bf + length a < ?L" "a1 = []"
    "d1 = d\<lparr>rd_body := splice_at ?bf a (rd_body d), rd_body_filled := ?bf + length a\<rparr>"
    using assms by (auto simp: body_phase_def finish_frame_def decoder_take_frame_def Let_def min_def
        split: if_splits sum.splits)
  define c where "c = min (length b) (?L - (?bf + length a))"
  define tb where "tb = take c b"
  have tb: "take (length a + c) (a @ b) = a @ tb" "drop (length a + c) (a @ b) = drop c b"
    "length tb = c" "?bf + length a + length tb \<le> ?L"
    using lt(1) by (auto simp: c_def tb_def)
  have c: "min (length (a @ b)) (?L - ?bf) = length a + c"
    using lt(1) by (auto simp: c_def)
  have sp: "splice_at (?bf + length a) tb (splice_at ?bf a (rd_body d)) = splice_at ?bf (a @ tb) (rd_body d)"
    using tb(4) by (intro splice_at_append) simp
  have len: "length (splice_at ?bf a (rd_body d)) = ?L" "length (splice_at ?bf (a @ tb) (rd_body d)) = ?L"
    using lt(1) tb(4) by simp_all
  have "body_phase d1 b = body_phase d (a @ b)"
    unfolding body_phase_def Let_def c tb(1,2) using lt(1) sp len
    by (simp add: lt(3) c_def [symmetric] tb_def [symmetric] add.assoc)
  then show ?thesis
    using lt len by simp
qed

lemma header_phase_wf:
  assumes "header_phase alloc d a = (d1, a1, Inr True)" "decoder_wf d"
  shows "length (rd_header d1) = RESUME_HEADER_LEN \<and> rd_header_filled d1 = RESUME_HEADER_LEN"
  using assms by (auto simp: header_phase_def decoder_wf_def start_body_def Let_def
      split: if_splits sum.splits prod.splits)

lemma body_phase_wf:
  assumes "body_phase d a = (d1, a1, Inr r)" "length (rd_header d) = RESUME_HEADER_LEN"
    "rd_header_filled d = RESUME_HEADER_LEN"
  shows "decoder_wf d1"
proof (cases r)
  case None
  with body_phase_more assms show ?thesis by (simp add: decoder_wf_def)
next
  case (Some f)
  with assms(1) show ?thesis
    by (auto simp: body_phase_def finish_frame_def decoder_take_frame_def Let_def decoder_wf_def
        RESUME_HEADER_LEN_def split: if_splits sum.splits)
qed

lemma header_phase_idle:
  "RESUME_HEADER_LEN \<le> rd_header_filled d \<Longrightarrow> header_phase alloc d a = (d, a, Inr True)"
  by (simp add: header_phase_def)

lemma body_phase_incomplete_step:
  "rd_body_filled d < length (rd_body d) \<Longrightarrow> rd_header_filled d = RESUME_HEADER_LEN \<Longrightarrow> a \<noteq> [] \<Longrightarrow>
   decode_loop alloc d a acc =
     (case body_phase d a of
             (d2, inp2, Inl e) \<Rightarrow> (d2, Inl e)
           | (d2, inp2, Inr None) \<Rightarrow> decode_loop alloc d2 inp2 acc
           | (d2, inp2, Inr (Some f)) \<Rightarrow> decode_loop alloc d2 inp2 (acc @ [f]))"
  by (subst decode_loop.simps) (simp add: header_phase_idle)

lemma decode_loop_nil [simp]: "decode_loop alloc d [] acc = (d, Inr acc)"
  by (subst decode_loop.simps) simp

text \<open>The decoder after a chunk, then more bytes: the same as the two at once.\<close>

definition decode_then ::
  "(usize \<Rightarrow> bool) \<Rightarrow> bytes \<Rightarrow> resume_decoder \<times> (ssh_error + resume_frame list) \<Rightarrow>
   resume_decoder \<times> (ssh_error + resume_frame list)" where
  "decode_then alloc b r = (case r of (d, Inl e) \<Rightarrow> (d, Inl e) | (d, Inr acc) \<Rightarrow> decode_loop alloc d b acc)"

lemma decode_loop_append:
  "decoder_wf d \<Longrightarrow> decode_loop alloc d (a @ b) acc = decode_then alloc b (decode_loop alloc d a acc)"
proof (induction alloc d a acc rule: decode_loop.induct)
  case (1 alloc d a acc)
  show ?case
  proof (cases "a = [] \<or> b = []")
    case True
    then show ?thesis by (auto simp: decode_then_def split: prod.splits sum.splits)
  next
    case ne: False
    obtain d1 a1 r1 where h: "header_phase alloc d a = (d1, a1, r1)" by (metis prod_cases3)
    show ?thesis
    proof (cases "r1 = Inr False")
      case True
      from header_phase_more [OF h [unfolded True]] 1(3)
      have "header_phase alloc d1 b = header_phase alloc d (a @ b)" by (simp add: decoder_wf_def)
      then have "decode_loop alloc d1 b acc = decode_loop alloc d (a @ b) acc"
        using ne by (subst (1 2) decode_loop.simps) simp
      moreover have "decode_loop alloc d a acc = (d1, Inr acc)"
        using ne h True by (subst decode_loop.simps) simp
      ultimately show ?thesis by (simp add: decode_then_def)
    next
      case False
      note h' = header_phase_done [OF h False, of b]
      show ?thesis
      proof (cases r1)
        case (Inl e)
        then show ?thesis
          using ne h h' by (subst (1 2) decode_loop.simps) (simp add: decode_then_def)
      next
        case (Inr t)
        with False have r1: "r1 = Inr True" by simp
        note wf1 = header_phase_wf [OF h [unfolded r1] 1(3)]
        obtain d2 a2 r2 where bp: "body_phase d1 a1 = (d2, a2, r2)" by (metis prod_cases3)
        show ?thesis
        proof (cases "r2 = Inr None")
          case True
          from body_phase_more [OF bp [unfolded True]] wf1
          have d2: "a2 = []" "rd_header_filled d2 = RESUME_HEADER_LEN" "rd_body_filled d2 < length (rd_body d2)"
            "body_phase d2 b = body_phase d1 (a1 @ b)" by simp_all
          have "decode_loop alloc d a acc = (d2, Inr acc)"
            using ne h bp r1 True d2(1) by (subst decode_loop.simps) simp
          moreover have "decode_loop alloc d (a @ b) acc = decode_loop alloc d2 b acc"
            unfolding body_phase_incomplete_step [OF d2(3,2) conjunct2 [OF ne [unfolded de_Morgan_disj]]] d2(4)
            using ne h' r1 by (subst decode_loop.simps) simp
          ultimately show ?thesis by (simp add: decode_then_def)
        next
          case bd: False
          note bp' = body_phase_done [OF bp bd, of b]
          show ?thesis
          proof (cases r2)
            case (Inl e)
            then show ?thesis
              using ne h h' bp bp' r1 by (subst (1 2) decode_loop.simps) (simp add: decode_then_def)
          next
            case (Inr fo)
            with bd obtain f where r2: "r2 = Inr (Some f)" by (cases fo) auto
            have "decoder_wf d2" using body_phase_wf bp r2 wf1 by blast
            from 1(2) [OF _ h [symmetric] refl r1 _ bp [symmetric] refl r2 refl this] ne
            have "decode_loop alloc d2 (a2 @ b) (acc @ [f]) = decode_then alloc b (decode_loop alloc d2 a2 (acc @ [f]))"
              by simp
            then show ?thesis
              using ne h h' bp bp' r1 r2 by (subst (1 2) decode_loop.simps) simp
          qed
        qed
      qed
    qed
  qed
qed

subsection \<open>The decoder recovers the frames\<close>

lemma decode_one:
  assumes ok: "resume_ok f" and len: "data_len f \<le> m" and al: "alloc (data_len f)"
  shows "decode_loop alloc (decoder_reset m) (resume_encode f @ rest) acc
    = decode_loop alloc (decoder_reset m) rest (acc @ [f])"
proof -
  define hd where "hd = take RESUME_HEADER_LEN (resume_encode f)"
  define pl where "pl = op_data (rf_operation f)"
  have lt: "data_len f < 2 ^ 32"
    using ok by (auto simp: resume_ok_def data_len_def RESUME_MAX_DATA_LEN_def split: resume_operation.splits)
  note fields = resume_encode_fields(2-) [OF lt, of "[]", simplified append_Nil2]
  have enc: "resume_encode f = hd @ pl"
    unfolding hd_def pl_def fields(5) [symmetric] by simp
  have hd: "length hd = RESUME_HEADER_LEN" "hd ! 0 = RESUME_VERSION"
    "unat (be_word (drop 10 hd) :: u32) = length pl"
    using fields(1,4) resume_encode_fields(1) [OF lt]
    by (simp_all add: hd_def pl_def data_len_def subslice_def drop_take RESUME_HEADER_LEN_def)
  define d1 where "d1 = (decoder_reset m)\<lparr>rd_header := hd, rd_header_filled := RESUME_HEADER_LEN,
    rd_body := replicate (length pl) 0, rd_body_filled := 0\<rparr>"
  have "header_phase alloc (decoder_reset m) (hd @ pl @ rest) = (d1, pl @ rest, Inr True)"
    using hd len al
    by (simp add: header_phase_def Let_def decoder_reset_def splice_at_all start_body_def d1_def
        data_len_def pl_def RESUME_HEADER_LEN_def)
  moreover have "body_phase d1 (pl @ rest) = (decoder_reset m, rest, Inr (Some f))"
  proof (cases "pl = []")
    case True
    then show ?thesis
      using resume_decode_encode [OF ok] enc
      by (simp add: body_phase_def d1_def finish_frame_def decoder_take_frame_def decoder_reset_def)
  next
    case False
    then show ?thesis
      using resume_decode_encode [OF ok] enc
      by (simp add: body_phase_def Let_def d1_def finish_frame_def decoder_take_frame_def decoder_reset_def
          splice_at_all)
  qed
  moreover have "hd \<noteq> []" using hd(1) by (auto simp: RESUME_HEADER_LEN_def)
  ultimately show ?thesis
    unfolding enc by (subst decode_loop.simps) simp
qed

lemma decode_all:
  "list_all (\<lambda>f. resume_ok f \<and> data_len f \<le> m) fs \<Longrightarrow>
   decode_loop (\<lambda>_. True) (decoder_reset m) (concat (map resume_encode fs)) acc = (decoder_reset m, Inr (acc @ fs))"
  by (induction fs arbitrary: acc) (simp_all add: decode_one)

lemma decode_loop_acc:
  "decode_loop alloc d inp (pre @ acc) =
     (case decode_loop alloc d inp acc of (d', Inl e) \<Rightarrow> (d', Inl e) | (d', Inr fs) \<Rightarrow> (d', Inr (pre @ fs)))"
proof (induction alloc d inp acc rule: decode_loop.induct)
  case (1 alloc d inp acc)
  show ?case
  proof (cases "inp = []")
    case False
    obtain d1 inp1 r1 where h: "header_phase alloc d inp = (d1, inp1, r1)" by (metis prod_cases3)
    obtain d2 inp2 r2 where b: "body_phase d1 inp1 = (d2, inp2, r2)" by (metis prod_cases3)
    consider e where "r1 = Inl e" | "r1 = Inr False" | e where "r1 = Inr True" "r2 = Inl e"
      | f where "r1 = Inr True" "r2 = Inr (Some f)" | "r1 = Inr True" "r2 = Inr None"
      by (metis (full_types) obj_sumE option.exhaust)
    then show ?thesis
    proof cases
      case (4 f)
      have "decode_loop alloc d2 inp2 ((pre @ acc) @ [f]) =
          (case decode_loop alloc d2 inp2 (acc @ [f]) of
             (d', Inl e) \<Rightarrow> (d', Inl e) | (d', Inr fs) \<Rightarrow> (d', Inr (pre @ fs)))"
        using 1(2) [OF False h [symmetric] refl 4(1) _ b [symmetric] refl 4(2) refl] by simp
      then show ?thesis
        using False h b 4 by (subst (1 2) decode_loop.simps) simp
    next
      case 5
      have "decode_loop alloc d2 inp2 (pre @ acc) =
          (case decode_loop alloc d2 inp2 acc of
             (d', Inl e) \<Rightarrow> (d', Inl e) | (d', Inr fs) \<Rightarrow> (d', Inr (pre @ fs)))"
        using 1(1) [OF False h [symmetric] refl 5(1) _ b [symmetric] refl 5(2) refl] by simp
      then show ?thesis
        using False h b 5 by (subst (1 2) decode_loop.simps) simp
    qed (use False h b in \<open>subst (1 2) decode_loop.simps, simp\<close>)+
  qed simp
qed

lemma decode_loop_wf: "decoder_wf d \<Longrightarrow> decode_loop alloc d inp acc = (d', Inr fs) \<Longrightarrow> decoder_wf d'"
proof (induction alloc d inp acc arbitrary: fs rule: decode_loop.induct)
  case (1 alloc d inp acc)
  show ?case
  proof (cases "inp = []")
    case True
    with 1 show ?thesis by simp
  next
    case False
    obtain d1 inp1 r1 where h: "header_phase alloc d inp = (d1, inp1, r1)" by (metis prod_cases3)
    obtain d2 inp2 r2 where b: "body_phase d1 inp1 = (d2, inp2, r2)" by (metis prod_cases3)
    consider "r1 = Inr False" | f where "r1 = Inr True" "r2 = Inr (Some f)" | "r1 = Inr True" "r2 = Inr None"
      using 1(4) False h b by (subst (asm) decode_loop.simps)
        (auto split: sum.splits bool.splits option.splits)
    then show ?thesis
    proof cases
      case 1
      have "d' = d1" using False h 1 \<open>decode_loop alloc d inp acc = (d', Inr fs)\<close>
        by (subst (asm) decode_loop.simps) simp
      moreover have "length (rd_header d) = RESUME_HEADER_LEN" using \<open>decoder_wf d\<close> by (simp add: decoder_wf_def)
      ultimately show ?thesis
        using header_phase_more [OF h [unfolded 1]] by (simp add: decoder_wf_def)
    next
      case (2 f)
      have wf2: "decoder_wf d2"
        using body_phase_wf header_phase_wf h b 2 \<open>decoder_wf d\<close> by blast
      have "decode_loop alloc d2 inp2 (acc @ [f]) = (d', Inr fs)"
        using 1(4) False h b 2 by (subst (asm) decode_loop.simps) simp
      from 1(2) [OF False h [symmetric] refl 2(1) _ b [symmetric] refl 2(2) refl wf2 this]
      show ?thesis by simp
    next
      case 3
      have wf2: "decoder_wf d2"
        using body_phase_wf header_phase_wf h b 3 \<open>decoder_wf d\<close> by blast
      have "decode_loop alloc d2 inp2 acc = (d', Inr fs)"
        using 1(4) False h b 3 by (subst (asm) decode_loop.simps) simp
      from 1(1) [OF False h [symmetric] refl 3(1) _ b [symmetric] refl 3(2) refl wf2 this]
      show ?thesis by simp
    qed
  qed
qed

text \<open>Feeding a list of chunks; the frames of all of them, or the first error.\<close>

fun decode_chunks ::
  "(usize \<Rightarrow> bool) \<Rightarrow> resume_decoder \<Rightarrow> bytes list \<Rightarrow> resume_decoder \<times> (ssh_error + resume_frame list)" where
  "decode_chunks alloc d [] = (d, Inr [])"
| "decode_chunks alloc d (c # cs) =
     (case decode_chunk alloc d c of
        (d1, Inl e) \<Rightarrow> (d1, Inl e)
      | (d1, Inr fs) \<Rightarrow>
          (case decode_chunks alloc d1 cs of
             (d2, Inl e) \<Rightarrow> (d2, Inl e)
           | (d2, Inr gs) \<Rightarrow> (d2, Inr (fs @ gs))))"

lemma decode_chunks_concat:
  "decoder_wf d \<Longrightarrow> decode_chunks alloc d cs = decode_chunk alloc d (concat cs)"
proof (induction cs arbitrary: d)
  case Nil
  then show ?case by (simp add: decode_chunk_def)
next
  case (Cons c cs)
  obtain d1 r1 where r1: "decode_loop alloc d c [] = (d1, r1)" by force
  have "decode_chunk alloc d (concat (c # cs)) = decode_then alloc (concat cs) (d1, r1)"
    using decode_loop_append [OF Cons.prems, of alloc c "concat cs" "[]"] r1 by (simp add: decode_chunk_def)
  moreover have "decode_chunks alloc d1 cs = decode_chunk alloc d1 (concat cs)" if "r1 = Inr fs" for fs
    using Cons.IH [OF decode_loop_wf [OF Cons.prems r1 [unfolded that]]] .
  moreover have "decode_loop alloc d1 (concat cs) fs =
      (case decode_chunk alloc d1 (concat cs) of (d', Inl e) \<Rightarrow> (d', Inl e) | (d', Inr gs) \<Rightarrow> (d', Inr (fs @ gs)))"
    for fs
    using decode_loop_acc [of alloc d1 "concat cs" fs "[]"] by (simp add: decode_chunk_def)
  moreover have "decode_chunk alloc d c = (d1, r1)" using r1 by (simp add: decode_chunk_def)
  ultimately show ?case
    by (cases r1) (simp_all add: decode_then_def)
qed

section \<open>The replay queue\<close>

record resume_limits =
  max_wire_bytes :: usize
  max_pending_frames :: usize

definition resume_limits_new :: "usize \<Rightarrow> usize \<Rightarrow> ssh_error + resume_limits" where
  "resume_limits_new wire_bytes frames =
     (if wire_bytes < RESUME_HEADER_LEN \<or> frames = 0 then Inl ResumeLimitInvalid
      else Inr \<lparr>max_wire_bytes = wire_bytes, max_pending_frames = frames\<rparr>)"

record replay_queue =
  rq_limits :: resume_limits
  rq_frames :: "resume_frame list"
  queued_wire_bytes :: usize
  last_assigned :: u64
  last_acked :: u64

definition replay_new :: "resume_limits \<Rightarrow> replay_queue" where
  "replay_new limits =
     \<lparr>rq_limits = limits, rq_frames = [], queued_wire_bytes = 0, last_assigned = 0, last_acked = 0\<rparr>"

definition can_accept :: "replay_queue \<Rightarrow> usize \<Rightarrow> bool" where
  "can_accept q n =
     (case checked_add_usize RESUME_HEADER_LEN n of
        None \<Rightarrow> False
      | Some frame_len \<Rightarrow>
          length (rq_frames q) < max_pending_frames (rq_limits q)
          \<and> frame_len \<le> max_wire_bytes (rq_limits q)
          \<and> queued_wire_bytes q \<le> max_wire_bytes (rq_limits q) - frame_len)"

definition make_frame :: "replay_queue \<Rightarrow> resume_operation \<Rightarrow> ssh_error + resume_frame" where
  "make_frame q operation =
     try_bind (ok_or ResumeSequenceOverflow (checked_add (last_assigned q) 1)) (\<lambda>sequence.
       let f = \<lparr>rf_sequence = sequence, rf_operation = operation\<rparr> in
       if wire_len f > max_wire_bytes (rq_limits q)
          \<or> length (rq_frames q) \<ge> max_pending_frames (rq_limits q)
          \<or> queued_wire_bytes q > max_wire_bytes (rq_limits q) - wire_len f
       then Inl ResumeQueueFull
       else Inr f)"

definition rq_insert :: "replay_queue \<Rightarrow> resume_frame \<Rightarrow> replay_queue" where
  "rq_insert q f =
     q\<lparr>queued_wire_bytes := queued_wire_bytes q + wire_len f,
       last_assigned := rf_sequence f,
       rq_frames := rq_frames q @ [f]\<rparr>"

definition push_operation :: "replay_queue \<Rightarrow> resume_operation \<Rightarrow> ssh_error + replay_queue \<times> u64" where
  "push_operation q operation =
     try_bind (make_frame q operation) (\<lambda>f. Inr (rq_insert q f, rf_sequence f))"

definition push_data :: "replay_queue \<Rightarrow> bytes \<Rightarrow> ssh_error + replay_queue \<times> u64" where
  "push_data q bs = push_operation q (Op_Data bs)"

definition push_fin :: "replay_queue \<Rightarrow> ssh_error + replay_queue \<times> u64" where
  "push_fin q = push_operation q Op_Fin"

definition encode_pending :: "replay_queue \<Rightarrow> bytes" where
  "encode_pending q = concat (map resume_encode (rq_frames q))"

text \<open>The pop loop of \<open>ack_through\<close>: the remaining frames, byte count and last acknowledged.\<close>

fun drop_acked :: "u64 \<Rightarrow> resume_frame list \<Rightarrow> usize \<Rightarrow> u64 \<Rightarrow> resume_frame list \<times> usize \<times> u64" where
  "drop_acked sequence [] queued acked = ([], queued, acked)"
| "drop_acked sequence (f # fs) queued acked =
     (if rf_sequence f \<le> sequence
      then drop_acked sequence fs (queued - wire_len f) (rf_sequence f)
      else (f # fs, queued, acked))"

definition ack_through :: "replay_queue \<Rightarrow> u64 \<Rightarrow> ssh_error + replay_queue" where
  "ack_through q sequence =
     (if sequence = 0 then Inr q
      else if sequence < last_acked q then Inl ResumeSequenceInvalid
      else if sequence = last_acked q then Inr q
      else if sequence > last_assigned q
          \<or> (rq_frames q \<noteq> [] \<and> \<not> list_ex (\<lambda>f. rf_sequence f = sequence) (rq_frames q))
      then Inl ResumeSequenceInvalid
      else case drop_acked sequence (rq_frames q) (queued_wire_bytes q) (last_acked q) of
        (fs, queued, acked) \<Rightarrow>
          Inr (q\<lparr>rq_frames := fs, queued_wire_bytes := queued,
                 last_acked := (if fs = [] then last_assigned q else acked)\<rparr>))"

text \<open>The pending frames are numbered consecutively from the last acknowledgement to the last
  assignment; the byte count is their total and both limits hold.\<close>

definition replay_inv :: "replay_queue \<Rightarrow> bool" where
  "replay_inv q \<longleftrightarrow>
     map (unat \<circ> rf_sequence) (rq_frames q) = [Suc (unat (last_acked q)) ..< Suc (unat (last_assigned q))] \<and>
     unat (last_acked q) \<le> unat (last_assigned q) \<and>
     queued_wire_bytes q = sum_list (map wire_len (rq_frames q)) \<and>
     queued_wire_bytes q \<le> max_wire_bytes (rq_limits q) \<and>
     length (rq_frames q) \<le> max_pending_frames (rq_limits q)"

lemma replay_new_inv: "replay_inv (replay_new limits)"
  by (simp add: replay_inv_def replay_new_def)

lemma replay_length:
  assumes "replay_inv q"
  shows "length (rq_frames q) = unat (last_assigned q) - unat (last_acked q)"
proof -
  have "length (map (unat \<circ> rf_sequence) (rq_frames q)) = unat (last_assigned q) - unat (last_acked q)"
    using assms unfolding replay_inv_def by (metis diff_Suc_Suc length_upt)
  then show ?thesis by simp
qed

lemma push_operation_Inr:
  assumes inv: "replay_inv q" and push: "push_operation q operation = Inr (q', sequence)"
  shows "replay_inv q' \<and> last_acked q' = last_acked q \<and> rq_limits q' = rq_limits q \<and>
    unat (last_assigned q') = Suc (unat (last_assigned q)) \<and> sequence = last_assigned q' \<and>
    rq_frames q' = rq_frames q @ [\<lparr>rf_sequence = sequence, rf_operation = operation\<rparr>]"
proof -
  obtain s where s: "checked_add (last_assigned q) 1 = Some s"
    and q': "q' = rq_insert q \<lparr>rf_sequence = s, rf_operation = operation\<rparr>" "sequence = s"
    and lim: "wire_len \<lparr>rf_sequence = s, rf_operation = operation\<rparr> \<le> max_wire_bytes (rq_limits q)"
      "length (rq_frames q) < max_pending_frames (rq_limits q)"
      "queued_wire_bytes q \<le> max_wire_bytes (rq_limits q) - wire_len \<lparr>rf_sequence = s, rf_operation = operation\<rparr>"
    using push by (auto simp: push_operation_def make_frame_def Let_def split: if_splits)
  have "unat s = Suc (unat (last_assigned q))"
    using checked_add_Some [OF s] by simp
  then show ?thesis
    using inv q' lim by (simp add: replay_inv_def rq_insert_def)
qed

text \<open>The admission check agrees with what a push does.\<close>

lemma push_operation_ok_iff:
  assumes "length (op_data operation) + RESUME_HEADER_LEN < 2 ^ 64" "last_assigned q \<noteq> - 1"
  shows "(\<exists>r. push_operation q operation = Inr r) \<longleftrightarrow> can_accept q (length (op_data operation))"
proof -
  have "\<exists>s. checked_add (last_assigned q) 1 = Some s"
    using assms(2) unat_Suc_64 [OF assms(2)] unat_max_iff_64 [of "last_assigned q"] unat_lt_64 [of "last_assigned q"]
    by (auto simp: checked_add_def)
  then show ?thesis
    using assms(1)
    by (auto simp: push_operation_def make_frame_def Let_def can_accept_def checked_add_usize_def
        wire_len_def data_len_def add.commute)
qed

lemma drop_acked_eq:
  "drop_acked s fs queued acked =
     (dropWhile (\<lambda>f. rf_sequence f \<le> s) fs,
      queued - sum_list (map wire_len (takeWhile (\<lambda>f. rf_sequence f \<le> s) fs)),
      (case takeWhile (\<lambda>f. rf_sequence f \<le> s) fs of [] \<Rightarrow> acked | gs \<Rightarrow> rf_sequence (last gs)))"
  by (induction fs arbitrary: queued acked) (auto split: list.splits)

text \<open>An acknowledgement inside the pending range removes exactly the frames up to it.\<close>

lemma ack_through_Inr:
  assumes inv: "replay_inv q" and lo: "last_acked q \<le> s" and hi: "s \<le> last_assigned q"
  shows "\<exists>q'. ack_through q s = Inr q' \<and> replay_inv q' \<and> last_acked q' = s \<and>
    last_assigned q' = last_assigned q \<and> rq_limits q' = rq_limits q \<and>
    rq_frames q' = drop (unat s - unat (last_acked q)) (rq_frames q)"
proof (cases "s = last_acked q")
  case True
  with inv show ?thesis by (auto simp: ack_through_def)
next
  case False
  define n where "n = unat s - unat (last_acked q)"
  have ord: "unat (last_acked q) < unat s" "unat s \<le> unat (last_assigned q)"
    using lo hi False by (auto simp: word_le_nat_alt word_unat_eq_iff)
  have seqs: "map (unat \<circ> rf_sequence) (rq_frames q)
      = [Suc (unat (last_acked q)) ..< Suc (unat (last_assigned q))]"
    using inv by (simp add: replay_inv_def)
  have len: "n \<le> length (rq_frames q)" "0 < n"
    using replay_length [OF inv] ord by (simp_all add: n_def)
  have nth: "unat (rf_sequence (rq_frames q ! i)) = Suc (unat (last_acked q) + i)"
    if "i < length (rq_frames q)" for i
  proof -
    have "unat (rf_sequence (rq_frames q ! i)) = map (unat \<circ> rf_sequence) (rq_frames q) ! i"
      using that by simp
    then show ?thesis
      unfolding seqs using that replay_length [OF inv] by (simp del: upt_Suc)
  qed
  have tw: "takeWhile (\<lambda>f. rf_sequence f \<le> s) (rq_frames q) = take n (rq_frames q)"
    using len nth by (intro takeWhile_eq_take_P_nth) (auto simp: word_le_nat_alt n_def)
  have dw: "dropWhile (\<lambda>f. rf_sequence f \<le> s) (rq_frames q) = drop n (rq_frames q)"
    using tw by (metis dropWhile_eq_drop length_take min.absorb2 len(1))
  have last: "rf_sequence (last (take n (rq_frames q))) = s"
  proof -
    have "take n (rq_frames q) \<noteq> []" using len by (cases "rq_frames q") auto
    then have "last (take n (rq_frames q)) = rq_frames q ! (n - 1)"
      using len by (simp add: last_conv_nth min.absorb2)
    then show ?thesis
      using len nth [of "n - 1"] ord by (simp add: word_unat_eq_iff n_def)
  qed
  have ex: "list_ex (\<lambda>f. rf_sequence f = s) (rq_frames q)"
  proof -
    have "n - 1 < length (rq_frames q)" using len by simp
    moreover from this have "rf_sequence (rq_frames q ! (n - 1)) = s"
      using nth [of "n - 1"] ord by (simp add: word_unat_eq_iff n_def)
    ultimately show ?thesis by (auto simp: list_ex_iff intro: bexI [OF _ nth_mem])
  qed
  define q' where "q' = q\<lparr>rq_frames := drop n (rq_frames q),
    queued_wire_bytes := queued_wire_bytes q - sum_list (map wire_len (take n (rq_frames q))),
    last_acked := s\<rparr>"
  have full: "drop n (rq_frames q) = [] \<Longrightarrow> s = last_assigned q"
    using replay_length [OF inv] ord by (auto simp: n_def word_unat_eq_iff)
  have gt: "\<not> s < last_acked q" "s \<noteq> 0" "\<not> last_assigned q < s"
    using ord by (auto simp: word_less_nat_alt)
  have "ack_through q s = Inr q'"
    unfolding ack_through_def drop_acked_eq tw dw
    using ex gt False full last len by (auto simp: q'_def split: list.splits)
  moreover have "replay_inv q'"
  proof -
    have "sum_list (map wire_len (rq_frames q))
        = sum_list (map wire_len (take n (rq_frames q))) + sum_list (map wire_len (drop n (rq_frames q)))"
      by (metis append_take_drop_id map_append sum_list_append)
    moreover have "map (unat \<circ> rf_sequence) (drop n (rq_frames q)) = [Suc (unat s) ..< Suc (unat (last_assigned q))]"
      unfolding drop_map [symmetric] seqs using ord by (simp add: n_def del: upt_Suc)
    ultimately show ?thesis
      using inv ord by (simp add: replay_inv_def q'_def) linarith
  qed
  ultimately show ?thesis
    by (intro exI [of _ q']) (simp add: q'_def n_def)
qed

lemma ack_through_stale: "s < last_acked q \<Longrightarrow> ack_through q s = Inr q' \<Longrightarrow> q' = q"
  by (auto simp: ack_through_def split: if_splits)

text \<open>Anything beyond the last assigned number is refused.\<close>

lemma ack_through_ahead: "replay_inv q \<Longrightarrow> last_assigned q < s \<Longrightarrow> ack_through q s = Inl ResumeSequenceInvalid"
  by (auto simp: ack_through_def replay_inv_def word_less_nat_alt word_unat_eq_iff)

section \<open>The receiver\<close>

record resume_receiver =
  last_delivered :: u64
  fin_sequence :: "u64 option"

definition receiver_default :: resume_receiver where
  "receiver_default = \<lparr>last_delivered = 0, fin_sequence = None\<rparr>"

datatype resume_delivery = Delivery_Data bytes | Delivery_Fin | Delivery_Duplicate

definition receiver_accept ::
  "resume_receiver \<Rightarrow> resume_frame \<Rightarrow> resume_receiver \<times> (ssh_error + resume_delivery)" where
  "receiver_accept r f =
     (if rf_sequence f = 0 then (r, Inl ResumeFrameMalformed)
      else case fin_sequence r of
        Some fin \<Rightarrow>
          if rf_sequence f > fin then (r, Inl ResumeOperationInvalid) else (r, Inr Delivery_Duplicate)
      | None \<Rightarrow>
          if rf_operation f = Op_Ack then (r, Inl ResumeOperationInvalid)
          else if rf_sequence f \<le> last_delivered r then (r, Inr Delivery_Duplicate)
          else case checked_add (last_delivered r) 1 of
            None \<Rightarrow> (r, Inl ResumeSequenceOverflow)
          | Some nxt \<Rightarrow>
              if rf_sequence f \<noteq> nxt then (r, Inl ResumeSequenceInvalid)
              else (case rf_operation f of
                Op_Data bs \<Rightarrow>
                  if bs = [] then (r, Inl ResumeFrameMalformed)
                  else (r\<lparr>last_delivered := rf_sequence f\<rparr>, Inr (Delivery_Data bs))
              | Op_Fin \<Rightarrow>
                  (r\<lparr>last_delivered := rf_sequence f, fin_sequence := Some (rf_sequence f)\<rparr>, Inr Delivery_Fin)
              | Op_Ack \<Rightarrow> (r, Inl ResumeOperationInvalid)))"

definition acknowledgement :: "resume_receiver \<Rightarrow> ssh_error + resume_frame" where
  "acknowledgement r = resume_ack (last_delivered r)"

section \<open>The queue and the receiver form a reliable link\<close>

text \<open>The operations of the link interface: a push that is refused and a frame that is not
  delivered (a duplicate, a gap, a malformed frame) do nothing.\<close>

definition resume_push :: "replay_queue \<Rightarrow> resume_operation \<Rightarrow> replay_queue option" where
  "resume_push q p = (case push_operation q p of Inr (q', _) \<Rightarrow> Some q' | Inl _ \<Rightarrow> None)"

definition resume_acked :: "replay_queue \<Rightarrow> nat \<Rightarrow> replay_queue option" where
  "resume_acked q n = (case ack_through q (of_nat n) of Inr q' \<Rightarrow> Some q' | Inl _ \<Rightarrow> None)"

definition resume_receive :: "resume_receiver \<Rightarrow> resume_frame \<Rightarrow> resume_receiver \<times> resume_operation option" where
  "resume_receive r f =
     (case receiver_accept r f of
        (r', Inr (Delivery_Data bs)) \<Rightarrow> (r', Some (Op_Data bs))
      | (r', Inr Delivery_Fin) \<Rightarrow> (r', Some Op_Fin)
      | (r', _) \<Rightarrow> (r', None))"

definition resume_delivered :: "resume_receiver \<Rightarrow> nat" where
  "resume_delivered r = unat (last_delivered r)"

definition sendable :: "resume_operation \<Rightarrow> bool" where
  "sendable p = (case p of Op_Data bs \<Rightarrow> bs \<noteq> [] | Op_Fin \<Rightarrow> True | Op_Ack \<Rightarrow> False)"

definition is_fin :: "resume_operation \<Rightarrow> bool" where
  "is_fin p \<longleftrightarrow> p = Op_Fin"

definition receiver_inv :: "bool \<Rightarrow> resume_receiver \<Rightarrow> bool" where
  "receiver_inv finished r \<longleftrightarrow> fin_sequence r = (if finished then Some (last_delivered r) else None)"

lemma accept_next_frame:
  assumes "fin_sequence r = None" "unat (rf_sequence f) = Suc (unat (last_delivered r))"
  shows "receiver_accept r f =
    (case rf_operation f of
       Op_Data bs \<Rightarrow> if bs = [] then (r, Inl ResumeFrameMalformed)
         else (r\<lparr>last_delivered := rf_sequence f\<rparr>, Inr (Delivery_Data bs))
     | Op_Fin \<Rightarrow>
         (r\<lparr>last_delivered := rf_sequence f, fin_sequence := Some (rf_sequence f)\<rparr>, Inr Delivery_Fin)
     | Op_Ack \<Rightarrow> (r, Inl ResumeOperationInvalid))"
proof -
  have "checked_add (last_delivered r) 1 = Some (rf_sequence f)"
    using assms(2) by (simp add: checked_add_eq_Some_iff)
  moreover have "rf_sequence f \<noteq> 0" "\<not> rf_sequence f \<le> last_delivered r"
    using assms(2) by (auto simp: word_le_nat_alt)
  ultimately show ?thesis
    using assms(1) by (simp add: receiver_accept_def split: resume_operation.splits)
qed

interpretation resume_link: reliable_link resume_push resume_acked rq_frames resume_receive
  resume_delivered sendable is_fin replay_inv "\<lambda>q. unat (last_acked q)" receiver_inv
  "\<lambda>f. unat (rf_sequence f)" rf_operation "\<lambda>_. True"
proof (unfold_locales, goal_cases)
  case (1 q)
  have "unat (last_acked q) + length (rq_frames q) = unat (last_assigned q)"
    using replay_length [OF 1] 1 by (simp add: replay_inv_def)
  with 1 show ?case by (simp add: replay_inv_def comp_def del: upt_Suc)
next
  case (2 q)
  then show ?case by (simp add: list_all_iff)
next
  case (3 q p q')
  then obtain s where "push_operation q p = Inr (q', s)"
    by (auto simp: resume_push_def split: sum.splits)
  from push_operation_Inr [OF 3(1) this] show ?case by simp
next
  case (4 q n)
  have n: "n \<le> unat (last_assigned q)"
    using 4 replay_length [OF 4(1)] by (simp add: replay_inv_def)
  then have "unat (of_nat n :: u64) = n"
    using unat_lt_64 [of "last_assigned q"] by (simp add: unsigned_of_nat take_bit_nat_eq_self)
  with ack_through_Inr [OF 4(1), of "of_nat n"] 4 n show ?case
    by (auto simp: resume_acked_def word_le_nat_alt)
next
  case (5 q n q')
  then have "unat (of_nat n :: u64) = n"
    using unat_lt_64 [of "last_acked q"] by (simp add: unsigned_of_nat take_bit_nat_eq_self)
  with 5 ack_through_stale [of "of_nat n" q q'] show ?case
    by (auto simp: resume_acked_def word_less_nat_alt split: sum.splits)
next
  case (6 c r f)
  then show ?case
    by (auto simp: resume_receive_def receiver_accept_def receiver_inv_def resume_delivered_def
        word_le_nat_alt word_less_nat_alt split: option.splits)
next
  case (7 r f)
  then have "fin_sequence r = None" "unat (rf_sequence f) = Suc (unat (last_delivered r))"
    by (simp_all add: receiver_inv_def resume_delivered_def)
  from accept_next_frame [OF this] 7(4) show ?case
    by (cases "rf_operation f")
      (simp_all add: resume_receive_def resume_delivered_def receiver_inv_def sendable_def is_fin_def
        \<open>fin_sequence r = None\<close>)
next
  case (8 r f)
  then have fin: "fin_sequence r = None" "Suc (unat (last_delivered r)) < unat (rf_sequence f)"
    by (simp_all add: receiver_inv_def resume_delivered_def)
  then have "checked_add (last_delivered r) 1 \<noteq> Some (rf_sequence f)" "\<not> rf_sequence f \<le> last_delivered r"
    by (auto simp: word_le_nat_alt dest: checked_add_Some)
  with fin show ?case
    by (auto simp: resume_receive_def receiver_accept_def split: option.splits)
qed

section \<open>Properties\<close>

text \<open>Event histories of a replay queue: pushes and acknowledgements, refused ones included.\<close>

datatype replay_event = Replay_Push resume_operation | Replay_Ack u64

fun replay_step :: "replay_queue \<Rightarrow> replay_event \<Rightarrow> replay_queue \<times> ssh_error list" where
  "replay_step q (Replay_Push p) =
     (case push_operation q p of Inr (q', s) \<Rightarrow> (q', []) | Inl e \<Rightarrow> (q, [e]))"
| "replay_step q (Replay_Ack s) =
     (case ack_through q s of Inr q' \<Rightarrow> (q', []) | Inl e \<Rightarrow> (q, [e]))"

lemma ack_through_inv: "replay_inv q \<Longrightarrow> ack_through q s = Inr q' \<Longrightarrow> replay_inv q' \<and> rq_limits q' = rq_limits q"
proof -
  assume inv: "replay_inv q" and ack: "ack_through q s = Inr q'"
  have "q' = q \<or> last_acked q \<le> s \<and> s \<le> last_assigned q"
    using ack by (auto simp: ack_through_def split: if_splits)
  with ack_through_Inr [OF inv, of s] ack inv show ?thesis by auto
qed

interpretation replay: event_machine replay_step "\<lambda>q. replay_inv q \<and> rq_limits q = limits" for limits
proof
  fix q ev assume q: "replay_inv q \<and> rq_limits q = limits"
  then show "replay_inv (fst (replay_step q ev)) \<and> rq_limits (fst (replay_step q ev)) = limits"
    by (cases ev) (auto dest: push_operation_Inr ack_through_inv split: sum.splits)
qed

text \<open>The resume codec is exact: a byte string decodes to a frame if and only if the frame is
  valid and the string is its encoding.\<close>

theorem resume_codec_exact:
  "resume_decode_exact bs = Inr f \<longleftrightarrow> resume_ok f \<and> bs = resume_encode f"
  by (rule resume.dec_iff)

text \<open>Cutting any byte stream, valid or not, into chunks does not change what the decoder
  produces: the frames, the first error and the decoder state are those of the whole stream.\<close>

theorem decoder_chunk_independent:
  "decode_chunks alloc (decoder_reset m) cs = decode_chunk alloc (decoder_reset m) (concat cs)"
  by (rule decode_chunks_concat [OF decoder_reset_wf])

text \<open>On any cut of the encodings of valid frames within the body limit the decoder returns
  exactly those frames and is ready for the next one.\<close>

theorem decoder_recovers_frames:
  assumes "list_all (\<lambda>f. resume_ok f \<and> data_len f \<le> m) fs"
    and "concat cs = concat (map resume_encode fs)"
  shows "decode_chunks (\<lambda>_. True) (decoder_reset m) cs = (decoder_reset m, Inr fs)"
  using decode_all [OF assms(1), of "[]"] assms(2)
  by (simp add: decode_chunks_concat [OF decoder_reset_wf] decode_chunk_def)

lemma decoder_recovers_frames_witness:
  "decode_chunks (\<lambda>_. True) (decoder_reset 4) [[1, 1, 0, 0, 0, 0], [0, 0, 0, 7, 0, 0, 0, 2, 0xAA], [0xBB]]
    = (decoder_reset 4, Inr [\<lparr>rf_sequence = 7, rf_operation = Op_Data [0xAA, 0xBB]\<rparr>])"
  by (rule decoder_recovers_frames)
    (simp_all add: resume_ok_def data_len_def RESUME_MAX_DATA_LEN_def resume_encode_def RESUME_VERSION_def
      be_bytes_def codec_simps)

text \<open>After any history of pushes and acknowledgements from any peer, the pending frames are
  numbered consecutively after the last acknowledged number and stay within both limits.\<close>

theorem replay_queue_invariant:
  "replay_inv (fst (run_events replay_step (replay_new limits) evs)) \<and>
   rq_limits (fst (run_events replay_step (replay_new limits) evs)) = limits"
  by (rule replay.run_inv) (simp add: replay_new_inv, simp add: replay_new_def)

text \<open>The admission check is exact: a data push succeeds if and only if \<open>can_accept\<close> says so,
  up to the end of the sequence space.\<close>

theorem can_accept_exact:
  fixes len :: u32
  assumes "last_assigned q \<noteq> - 1" "length bs = unat len"
  shows "(\<exists>r. push_data q bs = Inr r) \<longleftrightarrow> can_accept q (length bs)"
proof -
  have "length bs < 2 ^ 32" unfolding assms(2) using unat_lt_32 [of len] by simp
  then have "length (op_data (Op_Data bs)) + RESUME_HEADER_LEN < 2 ^ 64"
    by (simp add: RESUME_HEADER_LEN_def)
  from push_operation_ok_iff [OF this assms(1)] show ?thesis by (simp add: push_data_def)
qed

lemma can_accept_exact_witness:
  "(\<exists>r. push_data (replay_new \<lparr>max_wire_bytes = 16, max_pending_frames = 1\<rparr>) [1, 2, 3] = Inr r) \<longleftrightarrow>
   can_accept (replay_new \<lparr>max_wire_bytes = 16, max_pending_frames = 1\<rparr>) (length [1, 2, 3 :: u8])"
  by (rule can_accept_exact [where len = 3]) (simp_all add: replay_new_def)

text \<open>A nonzero acknowledgement is honoured exactly for the numbers between the last
  acknowledged and the last assigned one, and then removes exactly the frames up to it.\<close>

theorem ack_through_spec:
  assumes "replay_inv q" "s \<noteq> 0"
  shows "case ack_through q s of
    Inr q' \<Rightarrow> last_acked q \<le> s \<and> s \<le> last_assigned q \<and>
      last_acked q' = s \<and> rq_frames q' = drop (unat s - unat (last_acked q)) (rq_frames q)
  | Inl e \<Rightarrow> e = ResumeSequenceInvalid \<and> (s < last_acked q \<or> last_assigned q < s)"
proof (cases "last_acked q \<le> s \<and> s \<le> last_assigned q")
  case True
  with ack_through_Inr [OF assms(1), of s] show ?thesis by auto
next
  case False
  have "last_acked q \<le> last_assigned q"
    using assms(1) by (simp add: replay_inv_def word_le_nat_alt)
  then have "ack_through q s = Inl ResumeSequenceInvalid"
    using False assms(2) ack_through_ahead [OF assms(1), of s] by (auto simp: ack_through_def)
  with False show ?thesis by auto
qed

definition two_pending :: replay_queue where
  "two_pending = \<lparr>rq_limits = \<lparr>max_wire_bytes = 100, max_pending_frames = 4\<rparr>,
     rq_frames = [\<lparr>rf_sequence = 1, rf_operation = Op_Data [7]\<rparr>, \<lparr>rf_sequence = 2, rf_operation = Op_Fin\<rparr>],
     queued_wire_bytes = 29, last_assigned = 2, last_acked = 0\<rparr>"

lemma two_pending_inv: "replay_inv two_pending"
  by (simp add: replay_inv_def two_pending_def wire_len_def data_len_def RESUME_HEADER_LEN_def upt_rec)

lemma ack_through_spec_witness:
  "case ack_through two_pending 1 of
    Inr q' \<Rightarrow> last_acked two_pending \<le> 1 \<and> 1 \<le> last_assigned two_pending \<and>
      last_acked q' = 1 \<and>
      rq_frames q' = drop (unat (1 :: u64) - unat (last_acked two_pending)) (rq_frames two_pending)
  | Inl e \<Rightarrow> e = ResumeSequenceInvalid \<and> (1 < last_acked two_pending \<or> last_assigned two_pending < 1)"
  by (rule ack_through_spec [OF two_pending_inv]) simp

text \<open>The link of a fresh sender and receiver, over a network that loses, repeats and reorders.\<close>

abbreviation resume_link_step where
  "resume_link_step \<equiv> link_step resume_push resume_acked rq_frames resume_receive resume_delivered sendable is_fin"

definition resume_link_start :: "resume_limits \<Rightarrow> (replay_queue, resume_receiver, resume_frame, resume_operation) link" where
  "resume_link_start limits = link_init (replay_new limits) receiver_default"

lemma resume_link_start_inv: "resume_link.link_inv (resume_link_start limits)"
  unfolding resume_link_start_def
  by (rule resume_link.link_init_inv)
    (simp_all add: replay_new_inv, simp_all add: replay_new_def receiver_inv_def receiver_default_def
      resume_delivered_def)

text \<open>C2: exactly once, in order. However often the connection is lost and the pending frames are
  replayed, what the receiver delivered is a prefix of what the sender accepted.\<close>

theorem resume_exactly_once:
  assumes "resume_link_step\<^sup>*\<^sup>* (resume_link_start limits) k"
  shows "l_dlv k = take (resume_delivered (l_receiver k)) (l_sent k)"
  by (rule resume_link.link_safe [OF assms resume_link_start_inv])

text \<open>C21: from every reachable state, also when everything was delivered and only the
  acknowledgements were lost, replaying the pending frames can deliver everything that was accepted
  and empty the sender's queue.\<close>

theorem resume_catches_up:
  assumes "resume_link_step\<^sup>*\<^sup>* (resume_link_start limits) k"
  shows "\<exists>k'. resume_link_step\<^sup>*\<^sup>* k k' \<and> l_sent k' = l_sent k \<and> l_dlv k' = l_sent k \<and>
    rq_frames (l_sender k') = []"
  using resume_link.link_live [OF resume_link.link_run_inv [OF assms resume_link_start_inv]] by blast

definition pushed_example :: "(replay_queue, resume_receiver, resume_frame, resume_operation) link" where
  "pushed_example = (resume_link_start \<lparr>max_wire_bytes = 100, max_pending_frames = 4\<rparr>)
     \<lparr>l_sender := rq_insert (replay_new \<lparr>max_wire_bytes = 100, max_pending_frames = 4\<rparr>)
        \<lparr>rf_sequence = 1, rf_operation = Op_Data [7]\<rparr>,
      l_sent := [Op_Data [7]]\<rparr>"

lemma pushed_example_reachable:
  "resume_link_step\<^sup>*\<^sup>* (resume_link_start \<lparr>max_wire_bytes = 100, max_pending_frames = 4\<rparr>) pushed_example"
proof -
  let ?k = "resume_link_start \<lparr>max_wire_bytes = 100, max_pending_frames = 4\<rparr>"
  have "resume_link_step ?k (?k\<lparr>l_sender := rq_insert (replay_new \<lparr>max_wire_bytes = 100, max_pending_frames = 4\<rparr>)
        \<lparr>rf_sequence = 1, rf_operation = Op_Data [7]\<rparr>, l_sent := l_sent ?k @ [Op_Data [7]]\<rparr>)"
    by (rule link_push)
      (simp_all add: sendable_def resume_link_start_def link_init_def resume_push_def push_operation_def
        make_frame_def checked_add_def replay_new_def wire_len_def data_len_def RESUME_HEADER_LEN_def)
  then show ?thesis
    by (intro r_into_rtranclp) (simp add: pushed_example_def resume_link_start_def link_init_def)
qed

lemma resume_exactly_once_witness:
  "l_dlv pushed_example = take (resume_delivered (l_receiver pushed_example)) (l_sent pushed_example)"
  by (rule resume_exactly_once [OF pushed_example_reachable])

lemma resume_catches_up_witness:
  "\<exists>k'. resume_link_step\<^sup>*\<^sup>* pushed_example k' \<and> l_sent k' = l_sent pushed_example \<and>
    l_dlv k' = l_sent pushed_example \<and> rq_frames (l_sender k') = []"
  by (rule resume_catches_up [OF pushed_example_reachable])

end
