(* ===== verification/Ssh_Association.thy ===== *)
theory Ssh_Association
  imports Ssh_Resume
begin

text \<open>
  The association of everssh (\<open>crates/everssh/src/resume.rs\<close>, from \<open>ResumeAssociationConfig\<close> on):
  its configuration, the transport-independent core, and one connection of it as a transition
  per turn of \<open>run_connection\<close>. The I/O a turn performs is part of the event that drives it: what
  \<open>select!\<close> picked and what the read, write or flush returned. The theory shows that whatever the
  interleaving, the bytes put on the wire are whole valid frames that the peer's decoder accepts.
\<close>

section \<open>Configuration\<close>

text \<open>Durations and instants are nanoseconds.\<close>

record resume_config =
  cfg_max_wire_bytes :: usize
  cfg_max_pending_frames :: usize
  cfg_copy_buf :: usize
  cfg_stall_timeout :: nat
  cfg_drain_timeout :: nat

definition from_millis :: "nat \<Rightarrow> nat" where
  "from_millis ms = ms * 1000000"

definition config_new :: "usize \<Rightarrow> usize \<Rightarrow> usize \<Rightarrow> ssh_error + resume_config" where
  "config_new wire_bytes frames copy_buf =
     try_bind (resume_limits_new wire_bytes frames) (\<lambda>_.
       if copy_buf = 0 \<or> copy_buf > RESUME_MAX_DATA_LEN \<or> copy_buf > wire_bytes then Inl ResumeLimitInvalid
       else Inr \<lparr>cfg_max_wire_bytes = wire_bytes, cfg_max_pending_frames = frames, cfg_copy_buf = copy_buf,
                 cfg_stall_timeout = from_millis 20000, cfg_drain_timeout = from_millis 5000\<rparr>)"

definition with_stall_timeout :: "resume_config \<Rightarrow> nat \<Rightarrow> ssh_error + resume_config" where
  "with_stall_timeout c t = (if t = 0 then Inl ResumeLimitInvalid else Inr (c\<lparr>cfg_stall_timeout := t\<rparr>))"

definition with_drain_timeout :: "resume_config \<Rightarrow> nat \<Rightarrow> ssh_error + resume_config" where
  "with_drain_timeout c t = (if t = 0 then Inl ResumeLimitInvalid else Inr (c\<lparr>cfg_drain_timeout := t\<rparr>))"

definition config_default :: resume_config where
  "config_default = \<lparr>cfg_max_wire_bytes = 4 * 1024 * 1024, cfg_max_pending_frames = 1024,
     cfg_copy_buf = 16 * 1024, cfg_stall_timeout = from_millis 20000, cfg_drain_timeout = from_millis 5000\<rparr>"

section \<open>The association core and one connection of it\<close>

record association_core =
  ac_outbound :: replay_queue
  ac_inbound :: resume_receiver
  ac_config :: resume_config
  local_eof :: bool
  remote_eof :: bool
  drain_deadline :: "nat option"

definition core_new :: "resume_config \<Rightarrow> ssh_error + association_core" where
  "core_new c =
     try_bind (resume_limits_new (cfg_max_wire_bytes c) (cfg_max_pending_frames c)) (\<lambda>limits. Inr
       \<lparr>ac_outbound = replay_new limits, ac_inbound = receiver_default, ac_config = c,
        local_eof = False, remote_eof = False, drain_deadline = None\<rparr>)"

definition apply_peer_ack :: "association_core \<Rightarrow> u64 \<Rightarrow> ssh_error + association_core" where
  "apply_peer_ack c sequence =
     try_bind (ack_through (ac_outbound c) sequence) (\<lambda>q. Inr (c\<lparr>ac_outbound := q\<rparr>))"

definition core_clean :: "association_core \<Rightarrow> bool" where
  "core_clean c \<longleftrightarrow> local_eof c \<and> remote_eof c \<and> rq_frames (ac_outbound c) = []"

text \<open>\<open>queue_outbound_tail\<close> appends the encoding of the newest frame to the connection's wire.\<close>

definition queue_outbound_tail :: "association_core \<Rightarrow> bytes \<Rightarrow> bytes" where
  "queue_outbound_tail c wire =
     (if rq_frames (ac_outbound c) = [] then wire
      else wire @ resume_encode (last (rq_frames (ac_outbound c))))"

datatype boundary = Boundary_Local | Boundary_Remote | Boundary_Protocol

datatype association_error =
    Assoc_Io boundary io_error
  | Assoc_Protocol ssh_error
  | Assoc_DrainExpired

text \<open>The local write side, each call possibly failing (a stalled call fails with \<open>Io_TimedOut\<close>).\<close>

record 'w local_io =
  lio_write_all :: "'w \<Rightarrow> bytes \<Rightarrow> 'w \<times> (io_error + unit)"
  lio_flush :: "'w \<Rightarrow> 'w \<times> (io_error + unit)"
  lio_shutdown :: "'w \<Rightarrow> 'w \<times> (io_error + unit)"

definition then_io ::
  "'w \<times> (io_error + unit) \<Rightarrow> ('w \<Rightarrow> 'w \<times> (io_error + unit)) \<Rightarrow> 'w \<times> (io_error + unit)" where
  "then_io m f = (case m of (w, Inl e) \<Rightarrow> (w, Inl e) | (w, Inr _) \<Rightarrow> f w)"

definition deliver_local :: "'w local_io \<Rightarrow> 'w \<Rightarrow> resume_delivery \<Rightarrow> 'w \<times> (io_error + unit)" where
  "deliver_local io w d =
     (case d of
        Delivery_Data bs \<Rightarrow> then_io (lio_write_all io w bs) (lio_flush io)
      | Delivery_Fin \<Rightarrow> then_io (lio_flush io w) (lio_shutdown io)
      | Delivery_Duplicate \<Rightarrow> (w, Inr ()))"

record 'w connection =
  cn_core :: association_core
  cn_decoder :: resume_decoder
  cn_wire :: bytes
  cn_offset :: usize
  cn_local :: 'w

definition accept_remote_frame ::
  "'w local_io \<Rightarrow> 'w connection \<Rightarrow> resume_frame \<Rightarrow> 'w connection \<times> (association_error + unit)" where
  "accept_remote_frame io k f =
     (let c = cn_core k in
      if is_ack f then
        (case apply_peer_ack c (rf_sequence f) of
           Inl e \<Rightarrow> (k, Inl (Assoc_Protocol e))
         | Inr c' \<Rightarrow> (k\<lparr>cn_core := c'\<rparr>, Inr ()))
      else case receiver_accept (ac_inbound c) f of
        (r, Inl e) \<Rightarrow> (k\<lparr>cn_core := c\<lparr>ac_inbound := r\<rparr>\<rparr>, Inl (Assoc_Protocol e))
      | (r, Inr d) \<Rightarrow>
          (case deliver_local io (cn_local k) d of
             (w, Inl e) \<Rightarrow>
               (k\<lparr>cn_core := c\<lparr>ac_inbound := r\<rparr>, cn_local := w\<rparr>, Inl (Assoc_Io Boundary_Local e))
           | (w, Inr _) \<Rightarrow>
               let c' = c\<lparr>ac_inbound := r, remote_eof := (remote_eof c \<or> d = Delivery_Fin)\<rparr> in
               (case acknowledgement r of
                  Inl e \<Rightarrow> (k\<lparr>cn_core := c', cn_local := w\<rparr>, Inl (Assoc_Protocol e))
                | Inr a \<Rightarrow>
                    (k\<lparr>cn_core := c', cn_local := w, cn_wire := cn_wire k @ resume_encode a\<rparr>, Inr ()))))"

fun accept_remote_frames ::
  "'w local_io \<Rightarrow> 'w connection \<Rightarrow> resume_frame list \<Rightarrow> 'w connection \<times> (association_error + unit)" where
  "accept_remote_frames io k [] = (k, Inr ())"
| "accept_remote_frames io k (f # fs) =
     (case accept_remote_frame io k f of
        (k', Inl e) \<Rightarrow> (k', Inl e)
      | (k', Inr _) \<Rightarrow> accept_remote_frames io k' fs)"

text \<open>A new connection replays every pending frame first.\<close>

definition connection_start ::
  "(usize \<Rightarrow> bool) \<Rightarrow> association_core \<Rightarrow> 'w \<Rightarrow> ssh_error + 'w connection" where
  "connection_start alloc c w =
     try_bind (decoder_new (cfg_copy_buf (ac_config c))) (\<lambda>d.
       if \<not> alloc (cfg_copy_buf (ac_config c)) then Inl BridgeAllocation
       else Inr \<lparr>cn_core = c, cn_decoder = d, cn_wire = encode_pending (ac_outbound c), cn_offset = 0,
         cn_local = w\<rparr>)"

text \<open>One turn of \<open>run_connection\<close>: what the \<open>select!\<close> picked, with the results of the I/O. A
  write reports how many bytes the remote took and, if that emptied the wire, the result of the
  flush; an empty read is the end of the stream. \<open>Turn_Closing\<close> enters the final shutdown.\<close>

datatype selected =
    Sel_DrainTimer
  | Sel_RemoteWrite "io_error + usize" "io_error + unit"
  | Sel_LocalRead "io_error + bytes"
  | Sel_RemoteRead "io_error + bytes"

datatype turn_result =
    Turn_Continue | Turn_Closing | Turn_Clean | Turn_Failed association_error

definition accept_local :: "'w connection \<Rightarrow> bool" where
  "accept_local k \<longleftrightarrow>
     (let c = cn_core k; wire_unwritten = length (cn_wire k) - cn_offset k in
      \<not> local_eof c \<and> can_accept (ac_outbound c) (cfg_copy_buf (ac_config c))
      \<and> wire_unwritten + cfg_copy_buf (ac_config c) \<le> cfg_max_wire_bytes (ac_config c))"

definition after_write :: "'w connection \<Rightarrow> usize \<Rightarrow> 'w connection" where
  "after_write k written =
     (let offset = cn_offset k + written in
      if offset = length (cn_wire k) then k\<lparr>cn_wire := [], cn_offset := 0\<rparr>
      else if offset > cfg_copy_buf (ac_config (cn_core k))
      then k\<lparr>cn_wire := drop offset (cn_wire k), cn_offset := 0\<rparr>
      else k\<lparr>cn_offset := offset\<rparr>)"

definition turn_remote_write ::
  "'w connection \<Rightarrow> (io_error + usize) \<Rightarrow> (io_error + unit) \<Rightarrow> 'w connection \<times> turn_result" where
  "turn_remote_write k res flush =
     (case res of
        Inl e \<Rightarrow> (k, Turn_Failed (Assoc_Io Boundary_Remote e))
      | Inr written \<Rightarrow>
          if written = 0 then (k, Turn_Failed (Assoc_Io Boundary_Remote Io_WriteZero))
          else let k' = after_write k written in
            if cn_offset k' < length (cn_wire k') then (k', Turn_Continue)
            else (case flush of
                    Inl e \<Rightarrow> (k', Turn_Failed (Assoc_Io Boundary_Remote e))
                  | Inr _ \<Rightarrow> (k', Turn_Continue)))"

definition turn_local_read ::
  "nat \<Rightarrow> 'w connection \<Rightarrow> (io_error + bytes) \<Rightarrow> 'w connection \<times> turn_result" where
  "turn_local_read now k res =
     (let c = cn_core k in
      case res of
        Inl e \<Rightarrow> (k, Turn_Failed (Assoc_Io Boundary_Local e))
      | Inr bs \<Rightarrow>
          if bs = [] then
            (case push_fin (ac_outbound c) of
               Inl e \<Rightarrow> (k, Turn_Failed (Assoc_Protocol e))
             | Inr (q, fin) \<Rightarrow>
                 let c' = c\<lparr>ac_outbound := q, local_eof := True,
                            drain_deadline := (case drain_deadline c of
                                None \<Rightarrow> Some (now + cfg_drain_timeout (ac_config c))
                              | Some t \<Rightarrow> Some t)\<rparr>
                 in (k\<lparr>cn_core := c', cn_wire := queue_outbound_tail c' (cn_wire k)\<rparr>, Turn_Continue))
          else
            (case push_data (ac_outbound c) bs of
               Inl e \<Rightarrow> (k, Turn_Failed (Assoc_Protocol e))
             | Inr (q, sequence) \<Rightarrow>
                 let c' = c\<lparr>ac_outbound := q\<rparr>
                 in (k\<lparr>cn_core := c', cn_wire := queue_outbound_tail c' (cn_wire k)\<rparr>, Turn_Continue)))"

definition turn_remote_read ::
  "(usize \<Rightarrow> bool) \<Rightarrow> 'w local_io \<Rightarrow> 'w connection \<Rightarrow> (io_error + bytes) \<Rightarrow> 'w connection \<times> turn_result" where
  "turn_remote_read alloc io k res =
     (case res of
        Inl e \<Rightarrow> (k, Turn_Failed (Assoc_Io Boundary_Remote e))
      | Inr bs \<Rightarrow>
          if bs = [] then
            (if core_clean (cn_core k) then (k, Turn_Clean)
             else (k, Turn_Failed (Assoc_Io Boundary_Remote Io_UnexpectedEof)))
          else (case decode_chunk alloc (cn_decoder k) bs of
            (d, Inl e) \<Rightarrow> (k\<lparr>cn_decoder := d\<rparr>, Turn_Failed (Assoc_Protocol e))
          | (d, Inr fs) \<Rightarrow>
              (case accept_remote_frames io (k\<lparr>cn_decoder := d\<rparr>) fs of
                 (k', Inl e) \<Rightarrow> (k', Turn_Failed e)
               | (k', Inr _) \<Rightarrow> (k', Turn_Continue))))"

text \<open>A branch whose guard is off cannot be selected.\<close>

definition connection_turn ::
  "(usize \<Rightarrow> bool) \<Rightarrow> 'w local_io \<Rightarrow> nat \<Rightarrow> 'w connection \<Rightarrow> selected \<Rightarrow> 'w connection \<times> turn_result" where
  "connection_turn alloc io now k sel =
     (if core_clean (cn_core k) \<and> cn_offset k \<ge> length (cn_wire k) then (k, Turn_Closing)
      else if (case drain_deadline (cn_core k) of Some t \<Rightarrow> now \<ge> t | None \<Rightarrow> False)
      then (k, Turn_Failed Assoc_DrainExpired)
      else case sel of
        Sel_DrainTimer \<Rightarrow> (k, Turn_Continue)
      | Sel_RemoteWrite res flush \<Rightarrow>
          if cn_offset k < length (cn_wire k) then turn_remote_write k res flush else (k, Turn_Continue)
      | Sel_LocalRead res \<Rightarrow> if accept_local k then turn_local_read now k res else (k, Turn_Continue)
      | Sel_RemoteRead res \<Rightarrow> turn_remote_read alloc io k res)"

subsection \<open>What a connection sends is a sequence of whole valid frames\<close>

definition copy_buf_of :: "'w connection \<Rightarrow> usize" where
  "copy_buf_of k = cfg_copy_buf (ac_config (cn_core k))"

definition fits :: "usize \<Rightarrow> resume_frame \<Rightarrow> bool" where
  "fits m f \<longleftrightarrow> resume_ok f \<and> data_len f \<le> m"

definition connection_ok :: "'w connection \<Rightarrow> bool" where
  "connection_ok k \<longleftrightarrow>
     list_all (fits (copy_buf_of k)) (rq_frames (ac_outbound (cn_core k))) \<and>
     cn_offset k \<le> length (cn_wire k) \<and> copy_buf_of k \<le> RESUME_MAX_DATA_LEN"

definition unsent :: "'w connection \<Rightarrow> bytes" where
  "unsent k = drop (cn_offset k) (cn_wire k)"

text \<open>The I/O contracts: a write takes no more than it is offered, a read fills at most the buffer.\<close>

definition honest :: "'w connection \<Rightarrow> selected \<Rightarrow> bool" where
  "honest k sel =
     (case sel of
        Sel_RemoteWrite (Inr n) _ \<Rightarrow> n \<le> length (unsent k)
      | Sel_LocalRead (Inr bs) \<Rightarrow> length bs \<le> copy_buf_of k
      | _ \<Rightarrow> True)"

definition emitted :: "nat \<Rightarrow> 'w connection \<Rightarrow> selected \<Rightarrow> bytes" where
  "emitted now k sel =
     (if core_clean (cn_core k) \<and> cn_offset k \<ge> length (cn_wire k)
         \<or> (case drain_deadline (cn_core k) of Some t \<Rightarrow> now \<ge> t | None \<Rightarrow> False) then []
      else case sel of Sel_RemoteWrite (Inr n) _ \<Rightarrow> take n (unsent k) | _ \<Rightarrow> [])"

text \<open>\<open>advances k out k'\<close>: the turn from \<open>k\<close> to \<open>k'\<close> sent \<open>out\<close> and queued whole valid frames.\<close>

definition advances :: "'w connection \<Rightarrow> bytes \<Rightarrow> 'w connection \<Rightarrow> bool" where
  "advances k out k' \<longleftrightarrow>
     connection_ok k' \<and> ac_config (cn_core k') = ac_config (cn_core k) \<and>
     (\<exists>fs. list_all (fits (copy_buf_of k)) fs \<and>
        out @ unsent k' = unsent k @ concat (map resume_encode fs))"

lemma advances_refl: "connection_ok k \<Longrightarrow> advances k [] k"
  by (auto simp: advances_def intro: exI [of _ "[]"])

lemma advances_trans: "advances k out k' \<Longrightarrow> advances k' [] k'' \<Longrightarrow> advances k out k''"
proof -
  assume 1: "advances k out k'" and 2: "advances k' [] k''"
  obtain fs where fs: "list_all (fits (copy_buf_of k)) fs" "out @ unsent k' = unsent k @ concat (map resume_encode fs)"
    using 1 by (auto simp: advances_def)
  obtain gs where gs: "list_all (fits (copy_buf_of k)) gs" "unsent k'' = unsent k' @ concat (map resume_encode gs)"
    using 1 2 by (auto simp: advances_def copy_buf_of_def)
  have "out @ unsent k'' = unsent k @ concat (map resume_encode (fs @ gs))"
    using fs(2) gs(2) by simp
  with 1 2 fs(1) gs(1) show ?thesis
    unfolding advances_def by (metis list_all_append)
qed

text \<open>Appending one frame to the wire, with a queue that holds only fitting frames.\<close>

lemma advances_enqueue:
  assumes "connection_ok k" "fits (copy_buf_of k) f"
    and "cn_wire k' = cn_wire k @ resume_encode f" "cn_offset k' = cn_offset k"
    and "ac_config (cn_core k') = ac_config (cn_core k)"
    and "list_all (fits (copy_buf_of k)) (rq_frames (ac_outbound (cn_core k')))"
  shows "advances k [] k'"
  using assms by (auto simp: advances_def connection_ok_def unsent_def copy_buf_of_def intro!: exI [of _ "[f]"])

text \<open>Anything that leaves the wire alone and only shrinks the queue.\<close>

lemma advances_quiet:
  assumes "connection_ok k" "cn_wire k' = cn_wire k" "cn_offset k' = cn_offset k"
    and "ac_config (cn_core k') = ac_config (cn_core k)"
    and "set (rq_frames (ac_outbound (cn_core k'))) \<subseteq> set (rq_frames (ac_outbound (cn_core k)))"
  shows "advances k [] k'"
  using assms by (auto simp: advances_def connection_ok_def unsent_def copy_buf_of_def list_all_iff
      intro!: exI [of _ "[]"])

lemma fits_ack: "acknowledgement r = Inr a \<Longrightarrow> fits m a"
  by (auto simp: acknowledgement_def resume_ack_def fits_def resume_ok_def data_len_def)

lemma ack_through_frames: "ack_through q s = Inr q' \<Longrightarrow> set (rq_frames q') \<subseteq> set (rq_frames q)"
  by (auto simp: ack_through_def drop_acked_eq dest: set_dropWhileD split: if_splits)

lemma accept_remote_frame_advances:
  assumes ok: "connection_ok k" and acc: "accept_remote_frame io k f = (k', res)"
  shows "advances k [] k'"
proof (cases "is_ack f")
  case True
  show ?thesis
    by (rule advances_quiet [OF ok])
      (use True acc in \<open>auto simp: accept_remote_frame_def Let_def apply_peer_ack_def
        dest: subsetD [OF ack_through_frames] split: sum.splits if_splits\<close>)
next
  case False
  obtain r d where r: "receiver_accept (ac_inbound (cn_core k)) f = (r, d)" by force
  consider (Quiet) "cn_wire k' = cn_wire k" "cn_offset k' = cn_offset k"
      "ac_config (cn_core k') = ac_config (cn_core k)" "ac_outbound (cn_core k') = ac_outbound (cn_core k)"
    | (Acked) a where "acknowledgement r = Inr a" "cn_wire k' = cn_wire k @ resume_encode a"
      "cn_offset k' = cn_offset k" "ac_config (cn_core k') = ac_config (cn_core k)"
      "ac_outbound (cn_core k') = ac_outbound (cn_core k)"
    using False acc r that
    by (auto simp: accept_remote_frame_def Let_def split: sum.splits prod.splits if_splits)
  then show ?thesis
  proof cases
    case Quiet
    then show ?thesis by (intro advances_quiet [OF ok]) simp_all
  next
    case Acked
    with ok show ?thesis
      by (intro advances_enqueue [OF ok fits_ack [OF Acked(1)]]) (simp_all add: connection_ok_def)
  qed
qed

lemma accept_remote_frames_advances:
  "connection_ok k \<Longrightarrow> accept_remote_frames io k fs = (k', res) \<Longrightarrow> advances k [] k'"
proof (induction fs arbitrary: k)
  case (Cons f fs)
  obtain k1 r1 where 1: "accept_remote_frame io k f = (k1, r1)" by force
  note adv = accept_remote_frame_advances [OF Cons.prems(1) 1]
  show ?case
  proof (cases r1)
    case (Inr u)
    then have "accept_remote_frames io k1 fs = (k', res)" using Cons.prems(2) 1 by simp
    with Cons.IH [of k1] adv show ?thesis by (metis advances_def advances_trans)
  qed (use Cons.prems(2) 1 adv in auto)
qed (simp add: advances_refl)

lemma push_operation_frames:
  assumes "push_operation q p = Inr (q', s)"
  shows "\<exists>f. rq_frames q' = rq_frames q @ [f] \<and> rf_operation f = p \<and> rf_sequence f \<noteq> 0"
proof -
  obtain n where "checked_add (last_assigned q) 1 = Some n"
    "q' = rq_insert q \<lparr>rf_sequence = n, rf_operation = p\<rparr>"
    using assms by (auto simp: push_operation_def make_frame_def Let_def split: if_splits)
  moreover from this(1) have "unat n = Suc (unat (last_assigned q))"
    using checked_add_Some by fastforce
  then have "n \<noteq> 0" by auto
  ultimately show ?thesis by (simp add: rq_insert_def)
qed

lemma push_tail_advances:
  assumes ok: "connection_ok k" and push: "push_operation (ac_outbound (cn_core k)) p = Inr (q, s)"
    and p: "p = Op_Fin \<or> (\<exists>bs. p = Op_Data bs \<and> bs \<noteq> [] \<and> length bs \<le> copy_buf_of k)"
    and c': "ac_outbound c' = q" "ac_config c' = ac_config (cn_core k)"
  shows "advances k [] (k\<lparr>cn_core := c', cn_wire := queue_outbound_tail c' (cn_wire k)\<rparr>)"
proof -
  obtain f where f: "rq_frames q = rq_frames (ac_outbound (cn_core k)) @ [f]" "rf_operation f = p" "rf_sequence f \<noteq> 0"
    using push_operation_frames [OF push] by blast
  have "fits (copy_buf_of k) f"
    using p f(2,3) ok by (auto simp: fits_def resume_ok_def data_len_def connection_ok_def)
  with ok f(1) c' show ?thesis
    by (intro advances_enqueue [of k f]) (simp_all add: queue_outbound_tail_def connection_ok_def)
qed

lemma after_write_advances:
  assumes "connection_ok k" "n \<le> length (unsent k)"
  shows "advances k (take n (unsent k)) (after_write k n)"
  using assms by (auto simp: advances_def after_write_def Let_def connection_ok_def unsent_def copy_buf_of_def
      add.commute intro!: exI [of _ "[]"]) (metis append_take_drop_id drop_drop)+

lemma turn_remote_write_core:
  "turn_remote_write k (Inr n) flush = (k', res) \<Longrightarrow> k' = (if n = 0 then k else after_write k n)"
  by (auto simp: turn_remote_write_def Let_def split: if_splits sum.splits)

lemma connection_turn_advances:
  assumes ok: "connection_ok k" and hon: "honest k sel"
    and turn: "connection_turn alloc io now k sel = (k', res)"
  shows "advances k (emitted now k sel) k'"
proof (cases "core_clean (cn_core k) \<and> cn_offset k \<ge> length (cn_wire k)
    \<or> (case drain_deadline (cn_core k) of Some t \<Rightarrow> now \<ge> t | None \<Rightarrow> False)")
  case True
  then have "k' = k" using turn by (auto simp: connection_turn_def split: if_splits)
  with True ok show ?thesis by (simp add: emitted_def advances_refl)
next
  case go: False
  show ?thesis
  proof (cases sel)
    case Sel_DrainTimer
    with go turn ok show ?thesis by (auto simp: connection_turn_def emitted_def advances_refl)
  next
    case (Sel_RemoteWrite r flush)
    show ?thesis
    proof (cases r)
      case (Inl e)
      with go turn ok Sel_RemoteWrite show ?thesis
        by (auto simp: connection_turn_def emitted_def turn_remote_write_def advances_refl split: if_splits)
    next
      case (Inr n)
      have n: "n \<le> length (unsent k)" using hon Sel_RemoteWrite Inr by (simp add: honest_def)
      have em: "emitted now k sel = take n (unsent k)"
        unfolding emitted_def if_not_P [OF go] using Sel_RemoteWrite Inr by simp
      show ?thesis
      proof (cases "cn_offset k < length (cn_wire k)")
        case True
        then have "turn_remote_write k (Inr n) flush = (k', res)"
          using go turn Sel_RemoteWrite Inr by (auto simp: connection_turn_def)
        then have "k' = (if n = 0 then k else after_write k n)" by (rule turn_remote_write_core)
        with after_write_advances [OF ok n] ok em show ?thesis by (auto simp: advances_refl)
      next
        case False
        then have "k' = k" "emitted now k sel = []"
          using go turn Sel_RemoteWrite em by (auto simp: connection_turn_def unsent_def)
        with ok show ?thesis by (simp add: advances_refl)
      qed
    qed
  next
    case (Sel_LocalRead r)
    have em: "emitted now k sel = []" using Sel_LocalRead by (simp add: emitted_def)
    show ?thesis
    proof (cases "accept_local k \<and> (\<exists>bs. r = Inr bs)")
      case False
      with go turn ok em Sel_LocalRead show ?thesis
        by (cases r) (auto simp: connection_turn_def turn_local_read_def Let_def advances_refl split: if_splits)
    next
      case True
      then obtain bs where bs: "r = Inr bs" by blast
      have t: "turn_local_read now k (Inr bs) = (k', res)"
        using go turn True Sel_LocalRead bs by (auto simp: connection_turn_def)
      have len: "length bs \<le> copy_buf_of k" using hon Sel_LocalRead bs by (simp add: honest_def)
      show ?thesis
      proof (cases "bs = []")
        case True
        with t ok em show ?thesis
          by (auto simp: turn_local_read_def Let_def push_fin_def advances_refl
              split: sum.splits prod.splits intro!: push_tail_advances)
      next
        case False
        with t ok em len show ?thesis
          by (auto simp: turn_local_read_def Let_def push_data_def advances_refl
              split: sum.splits prod.splits intro!: push_tail_advances)
      qed
    qed
  next
    case (Sel_RemoteRead r)
    have em: "emitted now k sel = []" using Sel_RemoteRead by (simp add: emitted_def)
    have t: "turn_remote_read alloc io k r = (k', res)"
      using go turn Sel_RemoteRead by (auto simp: connection_turn_def)
    have quiet: "advances k [] (k\<lparr>cn_decoder := d\<rparr>)" for d
      by (rule advances_quiet [OF ok]) simp_all
    have "advances k [] k'"
    proof (cases r)
      case (Inr bs)
      obtain d ds where d: "decode_chunk alloc (cn_decoder k) bs = (d, ds)" by force
      show ?thesis
      proof (cases "bs = [] \<or> (\<exists>e. ds = Inl e)")
        case True
        with t Inr d quiet ok show ?thesis
          by (auto simp: turn_remote_read_def advances_refl split: if_splits)
      next
        case False
        then obtain fs where fs: "ds = Inr fs" "bs \<noteq> []" by (cases ds) auto
        obtain k1 r1 where 1: "accept_remote_frames io (k\<lparr>cn_decoder := d\<rparr>) fs = (k1, r1)" by force
        then have "k' = k1" using t Inr d fs by (auto simp: turn_remote_read_def split: sum.splits)
        moreover have "advances (k\<lparr>cn_decoder := d\<rparr>) [] k1"
          using accept_remote_frames_advances [OF _ 1] quiet by (simp add: advances_def)
        ultimately show ?thesis using advances_trans [OF quiet] by blast
      qed
    qed (use t ok in \<open>auto simp: turn_remote_read_def advances_refl\<close>)
    with em show ?thesis by simp
  qed
qed

text \<open>Runs of a connection with everything it sent so far.\<close>

inductive connection_run ::
  "(usize \<Rightarrow> bool) \<Rightarrow> 'w local_io \<Rightarrow> 'w connection \<Rightarrow> bytes \<Rightarrow> 'w connection \<Rightarrow> bool"
  for alloc io k0 where
  run_start: "connection_run alloc io k0 [] k0"
| run_turn: "connection_run alloc io k0 out k \<Longrightarrow> honest k sel \<Longrightarrow>
     connection_turn alloc io now k sel = (k', res) \<Longrightarrow>
     connection_run alloc io k0 (out @ emitted now k sel) k'"

lemma connection_run_stream:
  assumes "connection_run alloc io k0 out k" "connection_ok k0"
  shows "connection_ok k \<and> copy_buf_of k = copy_buf_of k0 \<and>
    (\<exists>fs. list_all (fits (copy_buf_of k0)) fs \<and> out @ unsent k = unsent k0 @ concat (map resume_encode fs))"
  using assms
proof (induction rule: connection_run.induct)
  case run_start
  then show ?case by (auto intro: exI [of _ "[]"])
next
  case (run_turn out k sel now k' res)
  then obtain fs where fs: "connection_ok k" "copy_buf_of k = copy_buf_of k0" "list_all (fits (copy_buf_of k0)) fs"
    "out @ unsent k = unsent k0 @ concat (map resume_encode fs)" by blast
  from connection_turn_advances [OF fs(1) run_turn(2,3)] obtain gs where
    gs: "connection_ok k'" "copy_buf_of k' = copy_buf_of k" "list_all (fits (copy_buf_of k)) gs"
    "emitted now k sel @ unsent k' = unsent k @ concat (map resume_encode gs)"
    by (auto simp: advances_def copy_buf_of_def)
  have "(out @ emitted now k sel) @ unsent k' = unsent k0 @ concat (map resume_encode (fs @ gs))"
    using fs(4) gs(4) by (metis append.assoc concat_append map_append)
  with fs gs show ?case by (metis list_all_append)
qed

section \<open>Properties\<close>

lemma connection_start_ok:
  assumes "connection_start alloc c w = Inr k" "list_all (fits (cfg_copy_buf (ac_config c))) (rq_frames (ac_outbound c))"
  shows "connection_ok k \<and> copy_buf_of k = cfg_copy_buf (ac_config c) \<and> cn_core k = c \<and>
    unsent k = concat (map resume_encode (rq_frames (ac_outbound c)))"
  using assms by (auto simp: connection_start_def decoder_new_def connection_ok_def copy_buf_of_def
      unsent_def encode_pending_def split: if_splits)

lemma core_new_fits:
  "core_new c = Inr core \<Longrightarrow>
   list_all (fits (cfg_copy_buf (ac_config core))) (rq_frames (ac_outbound core)) \<and> ac_config core = c"
  by (auto simp: core_new_def replay_new_def resume_limits_new_def split: if_splits)

text \<open>A decoder given a prefix of a valid stream reports no error.\<close>

lemma decode_prefix:
  assumes "list_all (fits m) fs" "out @ rest = concat (map resume_encode fs)"
  shows "\<exists>d gs hs. decode_loop (\<lambda>_. True) (decoder_reset m) out [] = (d, Inr gs) \<and> fs = gs @ hs"
proof -
  have "decode_loop (\<lambda>_. True) (decoder_reset m) (out @ rest) [] = (decoder_reset m, Inr fs)"
    using decode_all [of m fs "[]"] assms by (simp add: list_all_iff fits_def)
  then have *: "decode_then (\<lambda>_. True) rest (decode_loop (\<lambda>_. True) (decoder_reset m) out []) = (decoder_reset m, Inr fs)"
    using decode_loop_append [OF decoder_reset_wf] by metis
  obtain d r where r: "decode_loop (\<lambda>_. True) (decoder_reset m) out [] = (d, r)" by force
  with * obtain gs where gs: "r = Inr gs"
    by (cases r) (auto simp: decode_then_def)
  with * r decode_loop_acc [of "\<lambda>_. True" d rest gs "[]"] show ?thesis
    by (auto simp: decode_then_def split: prod.splits sum.splits)
qed

text \<open>C18: whatever a connection reads, writes and is interrupted by, everything it has put on the
  wire decodes at the peer, in any chunks, without an error: it is a prefix of whole valid frames,
  first the pending frames to replay and then the new ones.\<close>

theorem connection_sends_valid_frames:
  assumes "connection_start alloc c w = Inr k0"
    and "list_all (fits (cfg_copy_buf (ac_config c))) (rq_frames (ac_outbound c))"
    and "connection_run alloc io k0 out k" "concat cs = out"
  shows "\<exists>d gs hs fs.
    decode_chunks (\<lambda>_. True) (decoder_reset (cfg_copy_buf (ac_config c))) cs = (d, Inr gs) \<and>
    gs @ hs = rq_frames (ac_outbound c) @ fs \<and> list_all (fits (cfg_copy_buf (ac_config c))) fs"
proof -
  let ?m = "cfg_copy_buf (ac_config c)"
  have 0: "connection_ok k0" "copy_buf_of k0 = ?m"
    "unsent k0 = concat (map resume_encode (rq_frames (ac_outbound c)))"
    using connection_start_ok [OF assms(1,2)] by simp_all
  obtain fs where fs: "list_all (fits ?m) fs"
    "out @ unsent k = concat (map resume_encode (rq_frames (ac_outbound c) @ fs))"
    using connection_run_stream [OF assms(3) 0(1)] 0 by auto
  have "list_all (fits ?m) (rq_frames (ac_outbound c) @ fs)" using assms(2) fs(1) by simp
  from decode_prefix [OF this fs(2)] obtain d gs hs where
    "decode_loop (\<lambda>_. True) (decoder_reset ?m) out [] = (d, Inr gs)" "rq_frames (ac_outbound c) @ fs = gs @ hs"
    by blast
  with fs(1) assms(4) show ?thesis
    unfolding decode_chunks_concat [OF decoder_reset_wf] decode_chunk_def by metis
qed

definition quiet_io :: "bytes local_io" where
  "quiet_io = \<lparr>lio_write_all = (\<lambda>w bs. (w @ bs, Inr ())), lio_flush = (\<lambda>w. (w, Inr ())),
     lio_shutdown = (\<lambda>w. (w, Inr ()))\<rparr>"

definition example_core :: association_core where
  "example_core = \<lparr>ac_outbound = two_pending, ac_inbound = receiver_default, ac_config = config_default,
     local_eof = True, remote_eof = False, drain_deadline = None\<rparr>"

definition example_connection :: "bytes connection" where
  "example_connection = \<lparr>cn_core = example_core, cn_decoder = decoder_reset (16 * 1024),
     cn_wire = encode_pending two_pending, cn_offset = 0, cn_local = []\<rparr>"

lemma connection_sends_valid_frames_witness:
  "\<exists>d gs hs fs.
    decode_chunks (\<lambda>_. True) (decoder_reset (cfg_copy_buf (ac_config example_core))) [[1], [1, 0]] = (d, Inr gs) \<and>
    gs @ hs = rq_frames (ac_outbound example_core) @ fs \<and>
    list_all (fits (cfg_copy_buf (ac_config example_core))) fs"
proof (rule connection_sends_valid_frames)
  show "connection_start (\<lambda>_. True) example_core [] = Inr example_connection"
    by (simp add: connection_start_def decoder_new_def example_core_def config_default_def
        RESUME_MAX_DATA_LEN_def example_connection_def)
  show "list_all (fits (cfg_copy_buf (ac_config example_core))) (rq_frames (ac_outbound example_core))"
    by (simp add: example_core_def two_pending_def fits_def resume_ok_def data_len_def config_default_def
        RESUME_MAX_DATA_LEN_def)
  have e: "encode_pending two_pending = [1, 1, 0, 0, 0, 0, 0, 0, 0, 1, 0, 0, 0, 1, 7,
      1, 2, 0, 0, 0, 0, 0, 0, 0, 2, 0, 0, 0, 0]"
    by (simp add: encode_pending_def two_pending_def resume_encode_def RESUME_VERSION_def be_bytes_def
        data_len_def codec_simps)
  have "connection_run (\<lambda>_. True) quiet_io example_connection
      ([] @ emitted 0 example_connection (Sel_RemoteWrite (Inr 3) (Inr ())))
      (fst (connection_turn (\<lambda>_. True) quiet_io 0 example_connection (Sel_RemoteWrite (Inr 3) (Inr ()))))"
    by (rule run_turn [OF run_start, where res = "snd (connection_turn (\<lambda>_. True) quiet_io 0
        example_connection (Sel_RemoteWrite (Inr 3) (Inr ())))"])
      (simp_all add: honest_def unsent_def example_connection_def e)
  moreover have "emitted 0 example_connection (Sel_RemoteWrite (Inr 3) (Inr ())) = [1, 1, 0]"
    by (simp add: emitted_def unsent_def example_connection_def e example_core_def core_clean_def)
  ultimately show "connection_run (\<lambda>_. True) quiet_io example_connection [1, 1, 0]
      (fst (connection_turn (\<lambda>_. True) quiet_io 0 example_connection (Sel_RemoteWrite (Inr 3) (Inr ()))))"
    by simp
qed simp

section \<open>A copy buffer that starves the local side\<close>

text \<open>An association's core across its connections: each starts from the core the last one left, and any
  number of turns of it follow.\<close>

inductive association_run ::
  "(usize \<Rightarrow> bool) \<Rightarrow> 'w local_io \<Rightarrow> association_core \<Rightarrow> association_core \<Rightarrow> bool" for alloc io c0 where
  assoc_fresh: "association_run alloc io c0 c0"
| assoc_connection: "association_run alloc io c0 c \<Longrightarrow> connection_start alloc c w = Inr k0 \<Longrightarrow>
     connection_run alloc io k0 out k \<Longrightarrow> association_run alloc io c0 (cn_core k)"

definition same_local :: "association_core \<Rightarrow> association_core \<Rightarrow> bool" where
  "same_local c c' \<longleftrightarrow> ac_outbound c' = ac_outbound c \<and> ac_config c' = ac_config c \<and>
     local_eof c' = local_eof c \<and> drain_deadline c' = drain_deadline c"

definition starved :: "association_core \<Rightarrow> bool" where
  "starved c \<longleftrightarrow> max_wire_bytes (rq_limits (ac_outbound c)) < cfg_copy_buf (ac_config c) + RESUME_HEADER_LEN \<and>
     rq_frames (ac_outbound c) = [] \<and> last_assigned (ac_outbound c) = 0 \<and> last_acked (ac_outbound c) = 0 \<and>
     \<not> local_eof c \<and> drain_deadline c = None"

lemma same_local_starved: "same_local c c' \<Longrightarrow> starved c \<Longrightarrow> starved c'"
  by (simp add: same_local_def starved_def)

lemma starved_ack: "starved c \<Longrightarrow> apply_peer_ack c n = Inr c' \<Longrightarrow> c' = c"
  by (auto simp: apply_peer_ack_def ack_through_def starved_def word_less_nat_alt split: if_splits)

lemma starved_frame:
  assumes "accept_remote_frame io k f = (k', res)" "starved (cn_core k)"
  shows "same_local (cn_core k) (cn_core k')"
proof (cases "is_ack f")
  case True
  with assms show ?thesis
    by (cases "apply_peer_ack (cn_core k) (rf_sequence f)")
      (auto simp: accept_remote_frame_def Let_def same_local_def dest!: starved_ack [OF assms(2)])
next
  case False
  with assms(1) show ?thesis
    by (auto simp: accept_remote_frame_def Let_def same_local_def split: if_splits sum.splits prod.splits)
qed

lemma starved_frames:
  "accept_remote_frames io k fs = (k', res) \<Longrightarrow> starved (cn_core k) \<Longrightarrow> same_local (cn_core k) (cn_core k')"
proof (induction fs arbitrary: k)
  case (Cons f fs)
  obtain k1 r where f: "accept_remote_frame io k f = (k1, r)" by force
  note S = starved_frame [OF f Cons.prems(2)]
  show ?case using Cons f S same_local_starved [OF S Cons.prems(2)]
    by (cases r) (auto simp: same_local_def)
qed (simp add: same_local_def)

lemma starved_guard: "starved (cn_core k) \<Longrightarrow> \<not> accept_local k"
  by (auto simp: starved_def accept_local_def Let_def can_accept_def checked_add_usize_def split: option.splits)

lemma starved_turn:
  assumes "connection_turn alloc io now k sel = (k', res)" "starved (cn_core k)"
  shows "same_local (cn_core k) (cn_core k')"
proof (cases sel)
  case (Sel_RemoteWrite r flush)
  then show ?thesis using assms
    by (auto simp: connection_turn_def turn_remote_write_def after_write_def Let_def same_local_def
        split: if_splits sum.splits)
next
  case (Sel_RemoteRead r)
  obtain d x where d: "decode_chunk alloc (cn_decoder k) (case r of Inr bs \<Rightarrow> bs | Inl _ \<Rightarrow> []) = (d, x)" by force
  have "same_local (cn_core k) (cn_core k1)"
    if "accept_remote_frames io (k\<lparr>cn_decoder := d\<rparr>) fs = (k1, y)" for fs k1 y
    using starved_frames [OF that] assms(2) by simp
  then show ?thesis using Sel_RemoteRead assms d
    by (auto simp: connection_turn_def turn_remote_read_def same_local_def split: if_splits sum.splits prod.splits)
qed (use assms starved_guard [OF assms(2)] in \<open>auto simp: connection_turn_def same_local_def split: if_splits\<close>)

lemma starved_run: "connection_run alloc io k0 out k \<Longrightarrow> starved (cn_core k0) \<Longrightarrow> starved (cn_core k)"
  by (induction rule: connection_run.induct) (auto dest: starved_turn same_local_starved)

lemma starved_association: "association_run alloc io c0 c \<Longrightarrow> starved c0 \<Longrightarrow> starved c"
proof (induction rule: association_run.induct)
  case (assoc_connection c w k0 out k)
  then have "cn_core k0 = c" by (auto simp: connection_start_def split: if_splits)
  with assoc_connection starved_run show ?case by blast
qed

text \<open>C27: the configuration check is too weak. Every configuration whose copy buffer is within one
  header of the byte limit is accepted, but its association never sends anything of the local side:
  across all its connections, whatever the peer does, in no state does a turn read the local side,
  no frame is ever numbered, and the end of the local stream is never seen, so that the association
  can never end cleanly. With a header's room the first connection does read the local side.\<close>

theorem accepted_config_starves:
  assumes "0 < frames" "RESUME_HEADER_LEN \<le> wire_bytes"
    and "0 < copy_buf" "copy_buf \<le> RESUME_MAX_DATA_LEN" "copy_buf \<le> wire_bytes"
  shows "\<exists>cfg c0. config_new wire_bytes frames copy_buf = Inr cfg \<and> core_new cfg = Inr c0 \<and>
    (if wire_bytes < copy_buf + RESUME_HEADER_LEN
     then \<forall>c k. association_run alloc io c0 c \<longrightarrow> cn_core k = c \<longrightarrow>
       connection_turn alloc io now k (Sel_LocalRead res) = (k, Turn_Continue) \<and>
       rq_frames (ac_outbound c) = [] \<and> last_assigned (ac_outbound c) = 0 \<and> \<not> local_eof c \<and> \<not> core_clean c
     else if wire_bytes < 2 ^ 64
     then \<forall>k. connection_start alloc c0 w = Inr k \<longrightarrow> accept_local k
     else True)"
proof -
  let ?cfg = "\<lparr>cfg_max_wire_bytes = wire_bytes, cfg_max_pending_frames = frames, cfg_copy_buf = copy_buf,
    cfg_stall_timeout = from_millis 20000, cfg_drain_timeout = from_millis 5000\<rparr>"
  let ?c0 = "\<lparr>ac_outbound = replay_new \<lparr>max_wire_bytes = wire_bytes, max_pending_frames = frames\<rparr>,
    ac_inbound = receiver_default, ac_config = ?cfg, local_eof = False, remote_eof = False, drain_deadline = None\<rparr>"
  have cfg: "config_new wire_bytes frames copy_buf = Inr ?cfg" "core_new ?cfg = Inr ?c0"
    using assms by (simp_all add: config_new_def core_new_def resume_limits_new_def)
  show ?thesis
  proof (cases "wire_bytes < copy_buf + RESUME_HEADER_LEN")
    case True
    then have "starved ?c0" by (simp add: starved_def replay_new_def)
    have "connection_turn alloc io now k (Sel_LocalRead res) = (k, Turn_Continue) \<and>
       rq_frames (ac_outbound c) = [] \<and> last_assigned (ac_outbound c) = 0 \<and> \<not> local_eof c \<and> \<not> core_clean c"
      if "association_run alloc io ?c0 c" "cn_core k = c" for c k
    proof -
      have c: "starved c" using that(1) \<open>starved ?c0\<close> by (rule starved_association)
      then have "\<not> accept_local k" using that(2) starved_guard by blast
      with c that(2) show ?thesis by (simp add: connection_turn_def starved_def core_clean_def)
    qed
    with cfg True show ?thesis by (intro exI [of _ ?cfg] exI [of _ ?c0]) simp
  next
    case False
    have "accept_local k" if "connection_start alloc ?c0 w = Inr k" "wire_bytes < 2 ^ 64" for k
    proof -
      have k: "cn_core k = ?c0" "cn_wire k = []" "cn_offset k = 0"
        using that(1) by (auto simp: connection_start_def encode_pending_def replay_new_def split: if_splits)
      show ?thesis using False assms that(2)
        by (simp add: accept_local_def Let_def k can_accept_def replay_new_def checked_add_usize_def)
    qed
    with cfg False show ?thesis by (intro exI [of _ ?cfg] exI [of _ ?c0]) simp
  qed
qed

lemma accepted_config_starves_witness:
  "case config_new 100 4 100 of
     Inl e \<Rightarrow> False
   | Inr cfg \<Rightarrow> (case core_new cfg of
       Inl e \<Rightarrow> False
     | Inr c0 \<Rightarrow> (case connection_start (\<lambda>_. True) c0 ([] :: bytes) of
         Inl e \<Rightarrow> False
       | Inr k \<Rightarrow> connection_turn (\<lambda>_. True) quiet_io 0 k (Sel_LocalRead (Inr [1])) = (k, Turn_Continue)))"
proof -
  obtain cfg c0 where c: "config_new 100 4 100 = Inr cfg" "core_new cfg = Inr c0"
      "\<forall>c k. association_run (\<lambda>_. True) quiet_io c0 c \<longrightarrow> cn_core k = c \<longrightarrow>
       connection_turn (\<lambda>_. True) quiet_io 0 k (Sel_LocalRead (Inr [1])) = (k, Turn_Continue)"
    using accepted_config_starves [of 4 100 100 "\<lambda>_. True" quiet_io 0 "Inr [1]"]
    by (auto simp: RESUME_HEADER_LEN_def RESUME_MAX_DATA_LEN_def)
  obtain k where k: "connection_start (\<lambda>_. True) c0 ([] :: bytes) = Inr k" "cn_core k = c0"
    using c(1,2) by (auto simp: config_new_def core_new_def resume_limits_new_def connection_start_def decoder_new_def
        RESUME_HEADER_LEN_def RESUME_MAX_DATA_LEN_def)
  with c(3) assoc_fresh have "connection_turn (\<lambda>_. True) quiet_io 0 k (Sel_LocalRead (Inr [1])) = (k, Turn_Continue)" by blast
  with c k show ?thesis by simp
qed

end
