(* ===== verification/Ssh_Shutdown.thy ===== *)
theory Ssh_Shutdown
  imports Interfaces
begin

text \<open>
  The shutdown authority of an everssh bridge (\<open>crates/everssh/src/shutdown.rs\<close>): phases
  Running, Requested, Draining, Finalized, the first terminal cause, and two absolute deadlines.
  The value is shared between tasks behind a mutex; every locked section is one atomic action
  here, the methods are sequences of them, and a history is any interleaving of actions, as an
  instance of the event machine interface.
\<close>

datatype copy_direction = QuicToPeer | PeerToQuic

datatype copy_operation = CopyOp_Read | CopyOp_Write | CopyOp_Flush | CopyOp_Shutdown | CopyOp_Delivery

datatype deadline_kind = Deadline_Operation | Deadline_Drain | Deadline_Finalize

datatype bridge_cause =
    SourceEof copy_direction
  | OperationFailed copy_direction copy_operation
  | OperationStalled copy_direction copy_operation
  | Cancelled
  | TaskFailed copy_direction
  | PathFailed
  | RouteSupervisorFailed
  | ConstructionFailed
  | DeadlineOverflow deadline_kind
  | FinalizeTimeout

datatype phase = Phase_Running | Phase_Requested | Phase_Draining | Phase_Finalized

text \<open>The derived \<open>Ord\<close> of the source is the order of the constructors.\<close>

fun phase_rank :: "phase \<Rightarrow> nat" where
  "phase_rank Phase_Running = 0"
| "phase_rank Phase_Requested = 1"
| "phase_rank Phase_Draining = 2"
| "phase_rank Phase_Finalized = 3"

lemma phase_rank_inj: "phase_rank p = phase_rank q \<Longrightarrow> p = q"
  by (cases p; cases q) simp_all

instantiation phase :: linorder
begin

definition less_eq_phase :: "phase \<Rightarrow> phase \<Rightarrow> bool" where
  "less_eq_phase p q \<longleftrightarrow> phase_rank p \<le> phase_rank q"

definition less_phase :: "phase \<Rightarrow> phase \<Rightarrow> bool" where
  "less_phase p q \<longleftrightarrow> phase_rank p < phase_rank q"

instance
  by standard (auto simp: less_eq_phase_def less_phase_def intro: phase_rank_inj)

end

datatype request_status = Recorded | Existing | Request_DeadlineOverflow

datatype transition_error = InvalidPhase | Transition_DeadlineOverflow deadline_kind

record shutdown =
  sd_phase :: phase
  sd_cause :: "bridge_cause option"
  sd_drain_deadline :: "instant option"
  sd_finalize_deadline :: "instant option"
  signal_revision :: u64
  signal_cancelled :: bool

definition shutdown_new :: shutdown where
  "shutdown_new = \<lparr>sd_phase = Phase_Running, sd_cause = None, sd_drain_deadline = None,
     sd_finalize_deadline = None, signal_revision = 0, signal_cancelled = False\<rparr>"

section \<open>The atomic sections\<close>

definition notify :: "bool \<Rightarrow> shutdown \<Rightarrow> shutdown" where
  "notify cancel s = s\<lparr>signal_revision := signal_revision s + 1,
     signal_cancelled := (signal_cancelled s \<or> cancel)\<rparr>"

definition request_locked ::
  "instant \<Rightarrow> bridge_cause \<Rightarrow> duration \<Rightarrow> shutdown \<Rightarrow> shutdown \<times> request_status" where
  "request_locked now cause drain_timeout s =
     (if sd_phase s \<noteq> Phase_Running then (s, Existing)
      else
        let (stored_cause, deadline, status) =
          (case instant_checked_add now drain_timeout of
             Some deadline \<Rightarrow> (cause, deadline, Recorded)
           | None \<Rightarrow> (DeadlineOverflow Deadline_Drain, now, Request_DeadlineOverflow))
        in (s\<lparr>sd_cause := Some stored_cause, sd_drain_deadline := Some deadline,
              sd_phase := Phase_Requested\<rparr>, status))"

definition begin_drain_locked :: "shutdown \<Rightarrow> shutdown \<times> bool" where
  "begin_drain_locked s =
     (if sd_phase s \<noteq> Phase_Requested then (s, False) else (s\<lparr>sd_phase := Phase_Draining\<rparr>, True))"

text \<open>The boolean says whether the section ends with a notification.\<close>

definition begin_finalize_locked ::
  "instant \<Rightarrow> duration \<Rightarrow> shutdown \<Rightarrow> shutdown \<times> bool \<times> (transition_error + instant)" where
  "begin_finalize_locked now timeout s =
     (case sd_phase s of
        Phase_Draining \<Rightarrow>
          (case sd_finalize_deadline s of
             Some deadline \<Rightarrow> (s, False, Inr deadline)
           | None \<Rightarrow>
               (case instant_checked_add now timeout of
                  Some deadline \<Rightarrow> (s\<lparr>sd_finalize_deadline := Some deadline\<rparr>, True, Inr deadline)
                | None \<Rightarrow> (s\<lparr>sd_finalize_deadline := Some now\<rparr>, True,
                            Inl (Transition_DeadlineOverflow Deadline_Finalize))))
      | Phase_Finalized \<Rightarrow> (s, False, ok_or InvalidPhase (sd_finalize_deadline s))
      | _ \<Rightarrow> (s, False, Inl InvalidPhase))"

definition complete_finalize_locked :: "shutdown \<Rightarrow> shutdown \<times> bool" where
  "complete_finalize_locked s =
     (if sd_phase s \<noteq> Phase_Draining \<or> sd_finalize_deadline s = None then (s, False)
      else (s\<lparr>sd_phase := Phase_Finalized\<rparr>, True))"

section \<open>The methods\<close>

definition request :: "instant \<Rightarrow> bridge_cause \<Rightarrow> duration \<Rightarrow> shutdown \<Rightarrow> shutdown \<times> request_status" where
  "request now cause drain_timeout s =
     (case request_locked now cause drain_timeout s of
        (s', Existing) \<Rightarrow> (s', Existing)
      | (s', status) \<Rightarrow> (notify False s', status))"

definition begin_drain :: "shutdown \<Rightarrow> shutdown \<times> bool" where
  "begin_drain s =
     (case begin_drain_locked s of (s', True) \<Rightarrow> (notify False s', True) | (s', False) \<Rightarrow> (s', False))"

definition request_clean :: "instant \<Rightarrow> bridge_cause \<Rightarrow> duration \<Rightarrow> shutdown \<Rightarrow> shutdown \<times> request_status" where
  "request_clean now cause drain_timeout s =
     (case request now cause drain_timeout s of (s1, status) \<Rightarrow> (fst (begin_drain s1), status))"

definition request_fatal :: "instant \<Rightarrow> bridge_cause \<Rightarrow> duration \<Rightarrow> shutdown \<Rightarrow> shutdown \<times> request_status" where
  "request_fatal now cause drain_timeout s =
     (case request now cause drain_timeout s of
        (s1, status) \<Rightarrow> (notify True (fst (begin_drain s1)), status))"

definition cancel :: "instant \<Rightarrow> duration \<Rightarrow> shutdown \<Rightarrow> shutdown \<times> request_status" where
  "cancel now drain_timeout s = request_fatal now Cancelled drain_timeout s"

definition begin_finalize :: "instant \<Rightarrow> duration \<Rightarrow> shutdown \<Rightarrow> shutdown \<times> (transition_error + instant)" where
  "begin_finalize now timeout s =
     (case begin_finalize_locked now timeout s of
        (s', changed, res) \<Rightarrow> (if changed then notify False s' else s', res))"

definition complete_finalize :: "shutdown \<Rightarrow> shutdown \<times> bool" where
  "complete_finalize s =
     (case complete_finalize_locked s of
        (s', True) \<Rightarrow> (notify False s', True) | (s', False) \<Rightarrow> (s', False))"

definition accepting_work :: "shutdown \<Rightarrow> bool" where
  "accepting_work s \<longleftrightarrow> sd_phase s = Phase_Running"

definition with_running_admission :: "shutdown \<Rightarrow> 'a \<Rightarrow> 'a option" where
  "with_running_admission s output = (if sd_phase s \<noteq> Phase_Running then None else Some output)"

section \<open>Interleavings\<close>

datatype shutdown_action =
    Act_Request instant bridge_cause duration
  | Act_BeginDrain
  | Act_BeginFinalize instant duration
  | Act_CompleteFinalize
  | Act_Notify bool

fun shutdown_step :: "shutdown \<Rightarrow> shutdown_action \<Rightarrow> shutdown \<times> unit list" where
  "shutdown_step s (Act_Request now cause t) = (fst (request_locked now cause t s), [])"
| "shutdown_step s Act_BeginDrain = (fst (begin_drain_locked s), [])"
| "shutdown_step s (Act_BeginFinalize now t) = (fst (begin_finalize_locked now t s), [])"
| "shutdown_step s Act_CompleteFinalize = (fst (complete_finalize_locked s), [])"
| "shutdown_step s (Act_Notify c) = (notify c s, [])"

definition shutdown_inv :: "shutdown \<Rightarrow> bool" where
  "shutdown_inv s \<longleftrightarrow>
     (sd_phase s = Phase_Running \<longleftrightarrow> sd_cause s = None) \<and>
     (sd_cause s = None \<longleftrightarrow> sd_drain_deadline s = None) \<and>
     (sd_finalize_deadline s \<noteq> None \<longrightarrow> Phase_Draining \<le> sd_phase s) \<and>
     (sd_phase s = Phase_Finalized \<longrightarrow> sd_finalize_deadline s \<noteq> None)"

lemmas shutdown_defs = request_locked_def begin_drain_locked_def begin_finalize_locked_def
  complete_finalize_locked_def notify_def

lemma shutdown_new_inv: "shutdown_inv shutdown_new"
  by (simp add: shutdown_inv_def shutdown_new_def)

lemma phase_le [simp]:
  "Phase_Draining \<le> Phase_Running \<longleftrightarrow> False"
  "Phase_Draining \<le> Phase_Requested \<longleftrightarrow> False"
  "Phase_Draining \<le> Phase_Finalized \<longleftrightarrow> True"
  "Phase_Running \<le> p \<longleftrightarrow> True"
  "Phase_Requested \<le> Phase_Draining \<longleftrightarrow> True"
  by (simp_all add: less_eq_phase_def)

lemma shutdown_step_inv: "shutdown_inv s \<Longrightarrow> shutdown_inv (fst (shutdown_step s a))"
  by (cases a) (auto simp: shutdown_inv_def shutdown_defs Let_def split: phase.splits option.splits)

interpretation shutdown: event_machine shutdown_step shutdown_inv
  by unfold_locales (rule shutdown_step_inv)

text \<open>Each method is a sequence of actions.\<close>

lemma request_actions:
  "\<exists>as. fst (request now c t s) = fst (run_events shutdown_step s as)"
proof (cases "snd (request_locked now c t s) = Existing")
  case True
  then show ?thesis
    by (intro exI [of _ "[Act_Request now c t]"]) (auto simp: request_def split: prod.splits)
next
  case False
  then show ?thesis
    by (intro exI [of _ "[Act_Request now c t, Act_Notify False]"])
      (auto simp: request_def split: prod.splits request_status.splits)
qed

text \<open>What a recorded value of one state says of a later one.\<close>

definition kept :: "'a option \<Rightarrow> 'a option \<Rightarrow> bool" where
  "kept old new \<longleftrightarrow> (case old of None \<Rightarrow> True | Some x \<Rightarrow> new = Some x)"

definition shutdown_ext :: "shutdown \<Rightarrow> shutdown \<Rightarrow> bool" where
  "shutdown_ext s t \<longleftrightarrow>
     sd_phase s \<le> sd_phase t \<and> kept (sd_cause s) (sd_cause t) \<and>
     kept (sd_drain_deadline s) (sd_drain_deadline t) \<and>
     kept (sd_finalize_deadline s) (sd_finalize_deadline t) \<and>
     signal_cancelled s \<le> signal_cancelled t"

lemma shutdown_ext_refl: "shutdown_ext s s"
  by (simp add: shutdown_ext_def kept_def split: option.splits)

lemma shutdown_ext_trans: "shutdown_ext s t \<Longrightarrow> shutdown_ext t u \<Longrightarrow> shutdown_ext s u"
  by (auto simp: shutdown_ext_def kept_def split: option.splits)

lemma shutdown_step_ext: "shutdown_inv s \<Longrightarrow> shutdown_ext s (fst (shutdown_step s a))"
  by (cases a) (auto simp: shutdown_inv_def shutdown_defs Let_def shutdown_ext_def kept_def
      split: phase.splits option.splits)

section \<open>Properties\<close>

text \<open>C26: under any interleaving of the operations of any number of tasks the phase only moves
  forward, and the first cause, the drain deadline, the finalize deadline and the cancellation
  signal never change once set.\<close>

theorem shutdown_first_cause_frozen:
  "shutdown_ext (fst (run_events shutdown_step shutdown_new before))
     (fst (run_events shutdown_step shutdown_new (before @ later)))"
proof -
  define s where "s = fst (run_events shutdown_step shutdown_new before)"
  have inv: "shutdown_inv s" unfolding s_def by (rule shutdown.run_inv [OF shutdown_new_inv])
  have "shutdown_ext s (fst (run_events shutdown_step s later))"
    by (rule shutdown.run_latch [where P = "shutdown_ext s", OF _ inv shutdown_ext_refl])
      (rule shutdown_ext_trans, assumption, rule shutdown_step_ext)
  then show ?thesis unfolding run_events_append s_def .
qed

text \<open>Under any interleaving a bridge that left \<open>Running\<close> has a recorded cause and a drain
  deadline, and one that is finalized has a finalize deadline.\<close>

theorem shutdown_invariant: "shutdown_inv (fst (run_events shutdown_step shutdown_new as))"
  by (rule shutdown.run_inv [OF shutdown_new_inv])

text \<open>From every reachable state one orderly shutdown sequence ends finalized, with the
  deadlines at the latest \<open>drain\<close> and \<open>finalize\<close> after the calls that set them.\<close>

theorem shutdown_completes:
  "let s = fst (run_events shutdown_step shutdown_new as);
       t = fst (complete_finalize (fst (begin_finalize now2 finalize (fst (request_clean now1 c drain s)))))
   in sd_phase t = Phase_Finalized \<and>
      (case sd_phase s of
         Phase_Running \<Rightarrow>
           the (sd_drain_deadline t) \<le> now1 + drain \<and> the (sd_finalize_deadline t) \<le> now2 + finalize
       | _ \<Rightarrow> True)"
proof -
  define s where "s = fst (run_events shutdown_step shutdown_new as)"
  have inv: "shutdown_inv s" unfolding s_def by (rule shutdown.run_inv [OF shutdown_new_inv])
  then show ?thesis
    unfolding s_def [symmetric] Let_def
    by (cases "sd_phase s")
      (auto simp: shutdown_inv_def request_clean_def request_def begin_drain_def begin_finalize_def
        complete_finalize_def shutdown_defs Let_def instant_checked_add_def split: option.splits)
qed

end
