(* ===== verification/Udp_Wire.thy ===== *)
theory Udp_Wire
  imports Interfaces
begin

text \<open>
  The wire formats of everudp (\<open>crates/everudp/src/wire.rs\<close>) and its fixed limits
  (\<open>limits.rs\<close>): stream records, fast datagrams, and the payloads of acknowledgements, epoch
  gaps and resizes. The record codec is an interpretation of the framing interface, the others
  of the exact codec interface; the encoders that write into a caller's buffer are shown to
  write exactly the codec's bytes or to refuse.
\<close>

section \<open>Limits\<close>

record udp_limits =
  bootstrap_record_max :: usize
  control_frame_max :: usize
  terminal_frame_max :: usize
  queue_bytes_per_direction :: usize
  queue_operations_per_direction :: usize
  global_queue_bytes :: usize
  copy_buffer_bytes :: usize
  initial_udp_budget_ms :: u64
  invitation_bytes :: usize
  invitation_lifetime_ms :: u64
  max_pending_invitations :: usize
  max_observers :: usize
  keepalive_ms :: u64
  idle_timeout_ms :: u64
  first_ssh_recovery_ms :: u64
  ssh_recovery_interval_ms :: u64
  safe_initial_mtu :: u16
  max_bidi_streams :: u32
  max_client_uni_streams :: u32
  max_server_uni_streams :: u32

datatype limit_violation =
    Lv_BootstrapRecordMax | Lv_ControlFrameMax | Lv_TerminalFrameMax | Lv_QueueBytesPerDirection
  | Lv_QueueOperationsPerDirection | Lv_GlobalQueueBytes | Lv_CopyBufferBytes | Lv_InitialUdpBudget
  | Lv_InvitationBytes | Lv_InvitationLifetime | Lv_MaxPendingInvitations | Lv_MaxObservers
  | Lv_Keepalive | Lv_IdleTimeout | Lv_FirstSshRecovery | Lv_SshRecoveryInterval
  | Lv_SafeInitialMtu | Lv_StreamCounts

definition default_udp_limits :: udp_limits where
  "default_udp_limits = \<lparr>
     bootstrap_record_max = 4 * 1024,
     control_frame_max = 4 * 1024,
     terminal_frame_max = 64 * 1024,
     queue_bytes_per_direction = 4 * 1024 * 1024,
     queue_operations_per_direction = 1024,
     global_queue_bytes = 48 * 1024 * 1024,
     copy_buffer_bytes = 16 * 1024,
     initial_udp_budget_ms = 3000,
     invitation_bytes = 32,
     invitation_lifetime_ms = 20000,
     max_pending_invitations = 8,
     max_observers = 8,
     keepalive_ms = 10000,
     idle_timeout_ms = 30000,
     first_ssh_recovery_ms = 30000,
     ssh_recovery_interval_ms = 60000,
     safe_initial_mtu = 1200,
     max_bidi_streams = 1,
     max_client_uni_streams = 1,
     max_server_uni_streams = 1\<rparr>"

definition udp_limits_validate :: "udp_limits \<Rightarrow> limit_violation + unit" where
  "udp_limits_validate l =
     (if bootstrap_record_max l \<noteq> 4 * 1024 then Inl Lv_BootstrapRecordMax
      else if control_frame_max l \<noteq> 4 * 1024 then Inl Lv_ControlFrameMax
      else if terminal_frame_max l \<noteq> 64 * 1024 then Inl Lv_TerminalFrameMax
      else if queue_bytes_per_direction l \<noteq> 4 * 1024 * 1024 then Inl Lv_QueueBytesPerDirection
      else if queue_operations_per_direction l \<noteq> 1024 then Inl Lv_QueueOperationsPerDirection
      else if global_queue_bytes l \<noteq> 48 * 1024 * 1024 then Inl Lv_GlobalQueueBytes
      else if copy_buffer_bytes l \<noteq> 16 * 1024 then Inl Lv_CopyBufferBytes
      else if initial_udp_budget_ms l \<noteq> 3000 then Inl Lv_InitialUdpBudget
      else if invitation_bytes l \<noteq> 32 then Inl Lv_InvitationBytes
      else if invitation_lifetime_ms l \<noteq> 20000 then Inl Lv_InvitationLifetime
      else if max_pending_invitations l \<noteq> 8 then Inl Lv_MaxPendingInvitations
      else if max_observers l \<noteq> 8 then Inl Lv_MaxObservers
      else if keepalive_ms l \<noteq> 10000 then Inl Lv_Keepalive
      else if idle_timeout_ms l \<noteq> 30000 \<or> idle_timeout_ms l \<le> keepalive_ms l then Inl Lv_IdleTimeout
      else if first_ssh_recovery_ms l \<noteq> 30000 then Inl Lv_FirstSshRecovery
      else if ssh_recovery_interval_ms l \<noteq> 60000
          \<or> ssh_recovery_interval_ms l < first_ssh_recovery_ms l then Inl Lv_SshRecoveryInterval
      else if safe_initial_mtu l \<noteq> 1200 then Inl Lv_SafeInitialMtu
      else if max_bidi_streams l \<noteq> 1 \<or> max_client_uni_streams l \<noteq> 1 \<or> max_server_uni_streams l \<noteq> 1
      then Inl Lv_StreamCounts
      else Inr ())"

text \<open>Validation accepts the default limits and nothing else.\<close>

lemma udp_limits_validate_iff: "udp_limits_validate l = Inr () \<longleftrightarrow> l = default_udp_limits"
proof
  assume "udp_limits_validate l = Inr ()"
  then show "l = default_udp_limits"
    by (cases l) (simp add: udp_limits_validate_def default_udp_limits_def split: if_split_asm)
qed (simp add: udp_limits_validate_def default_udp_limits_def)

section \<open>Kinds\<close>

definition WIRE_VERSION :: u8 where "WIRE_VERSION = 1"
definition UDP_HEADER_LEN :: usize where "UDP_HEADER_LEN = 14"
definition FAST_DATAGRAM_HEADER_LEN :: usize where "FAST_DATAGRAM_HEADER_LEN = 21"
definition FAST_DATAGRAM_PAYLOAD_MAX :: usize where "FAST_DATAGRAM_PAYLOAD_MAX = 1024"

datatype stream_role = Stream_Control | Stream_Input | Stream_Output

datatype connection_role = Connection_Writer | Connection_Observer

datatype fast_direction = ClientToGateway | GatewayToClient

datatype udp_kind =
    UKind_ClientHello | UKind_ServerHello | UKind_AckInput | UKind_AckOutput | UKind_Gap
  | UKind_LinkStatus | UKind_Detach | UKind_Kill | UKind_ProtocolClose | UKind_Input
  | UKind_Resize | UKind_Signal | UKind_InputClose | UKind_Output | UKind_Ownership | UKind_Exit

datatype wire_error =
    We_Incomplete usize usize
  | We_VersionUnsupported u8
  | We_UnknownKind u8
  | We_KindNotAllowed udp_kind stream_role
  | We_PayloadTooLarge udp_kind usize usize
  | We_LengthInvalid udp_kind usize
  | We_LengthOverflow
  | We_OutputTooSmall usize usize
  | We_DatagramDirection u8
  | We_ObserverInputStream
  | We_DuplicateStream stream_role
  | We_Limits limit_violation

fun direction_byte :: "fast_direction \<Rightarrow> u8" where
  "direction_byte ClientToGateway = 1"
| "direction_byte GatewayToClient = 2"

definition direction_decode :: "u8 \<Rightarrow> wire_error + fast_direction" where
  "direction_decode v =
     (if v = 1 then Inr ClientToGateway else if v = 2 then Inr GatewayToClient
      else Inl (We_DatagramDirection v))"

fun direction_stream :: "fast_direction \<Rightarrow> stream_role" where
  "direction_stream ClientToGateway = Stream_Input"
| "direction_stream GatewayToClient = Stream_Output"

fun direction_kind :: "fast_direction \<Rightarrow> udp_kind" where
  "direction_kind ClientToGateway = UKind_Input"
| "direction_kind GatewayToClient = UKind_Output"

fun udp_kind_byte :: "udp_kind \<Rightarrow> u8" where
  "udp_kind_byte UKind_ClientHello = 0x01"
| "udp_kind_byte UKind_ServerHello = 0x02"
| "udp_kind_byte UKind_AckInput = 0x03"
| "udp_kind_byte UKind_AckOutput = 0x04"
| "udp_kind_byte UKind_Gap = 0x05"
| "udp_kind_byte UKind_LinkStatus = 0x06"
| "udp_kind_byte UKind_Detach = 0x07"
| "udp_kind_byte UKind_Kill = 0x08"
| "udp_kind_byte UKind_ProtocolClose = 0x09"
| "udp_kind_byte UKind_Input = 0x20"
| "udp_kind_byte UKind_Resize = 0x21"
| "udp_kind_byte UKind_Signal = 0x22"
| "udp_kind_byte UKind_InputClose = 0x23"
| "udp_kind_byte UKind_Output = 0x40"
| "udp_kind_byte UKind_Ownership = 0x41"
| "udp_kind_byte UKind_Exit = 0x42"

definition udp_kind_decode :: "u8 \<Rightarrow> wire_error + udp_kind" where
  "udp_kind_decode v =
     (if v = 0x01 then Inr UKind_ClientHello
      else if v = 0x02 then Inr UKind_ServerHello
      else if v = 0x03 then Inr UKind_AckInput
      else if v = 0x04 then Inr UKind_AckOutput
      else if v = 0x05 then Inr UKind_Gap
      else if v = 0x06 then Inr UKind_LinkStatus
      else if v = 0x07 then Inr UKind_Detach
      else if v = 0x08 then Inr UKind_Kill
      else if v = 0x09 then Inr UKind_ProtocolClose
      else if v = 0x20 then Inr UKind_Input
      else if v = 0x21 then Inr UKind_Resize
      else if v = 0x22 then Inr UKind_Signal
      else if v = 0x23 then Inr UKind_InputClose
      else if v = 0x40 then Inr UKind_Output
      else if v = 0x41 then Inr UKind_Ownership
      else if v = 0x42 then Inr UKind_Exit
      else Inl (We_UnknownKind v))"

lemma udp_kind_decode_byte [simp]: "udp_kind_decode (udp_kind_byte k) = Inr k"
  by (cases k) (simp_all add: udp_kind_decode_def)

lemma udp_kind_decode_Inr [simp]: "udp_kind_decode v = Inr k \<longleftrightarrow> v = udp_kind_byte k"
proof
  assume "udp_kind_decode v = Inr k"
  then show "v = udp_kind_byte k" by (auto simp: udp_kind_decode_def split: if_split_asm)
qed simp

lemma direction_decode_byte [simp]: "direction_decode (direction_byte d) = Inr d"
  by (cases d) (simp_all add: direction_decode_def)

lemma direction_decode_Inr [simp]: "direction_decode v = Inr d \<longleftrightarrow> v = direction_byte d"
proof
  assume "direction_decode v = Inr d"
  then show "v = direction_byte d" by (auto simp: direction_decode_def split: if_split_asm)
qed simp

definition kind_stream :: "udp_kind \<Rightarrow> stream_role" where
  "kind_stream k =
     (case k of
        UKind_Input \<Rightarrow> Stream_Input | UKind_Resize \<Rightarrow> Stream_Input
      | UKind_Signal \<Rightarrow> Stream_Input | UKind_InputClose \<Rightarrow> Stream_Input
      | UKind_Output \<Rightarrow> Stream_Output | UKind_Ownership \<Rightarrow> Stream_Output
      | UKind_Exit \<Rightarrow> Stream_Output
      | _ \<Rightarrow> Stream_Control)"

definition ACK_WIRE_LEN :: usize where "ACK_WIRE_LEN = 16"
definition GAP_WIRE_LEN :: usize where "GAP_WIRE_LEN = 16"
definition RESIZE_WIRE_LEN :: usize where "RESIZE_WIRE_LEN = 8"

definition payload_bounds :: "udp_kind \<Rightarrow> udp_limits \<Rightarrow> usize \<times> usize" where
  "payload_bounds k limits =
     (case k of
        UKind_AckInput \<Rightarrow> (ACK_WIRE_LEN, ACK_WIRE_LEN)
      | UKind_AckOutput \<Rightarrow> (ACK_WIRE_LEN, ACK_WIRE_LEN)
      | UKind_Detach \<Rightarrow> (0, 0)
      | UKind_Kill \<Rightarrow> (0, 0)
      | UKind_InputClose \<Rightarrow> (0, 0)
      | UKind_Gap \<Rightarrow> (16, 16)
      | UKind_Input \<Rightarrow> (1, terminal_frame_max limits)
      | UKind_Output \<Rightarrow> (1, terminal_frame_max limits)
      | UKind_Resize \<Rightarrow> (RESIZE_WIRE_LEN, RESIZE_WIRE_LEN)
      | UKind_Signal \<Rightarrow> (1, 1)
      | UKind_Ownership \<Rightarrow> (1, 1)
      | UKind_Exit \<Rightarrow> (4, 4)
      | _ \<Rightarrow> (1, control_frame_max limits))"

section \<open>Stream records\<close>

record frame_header =
  fh_kind :: udp_kind
  fh_sequence :: u64
  fh_payload_len :: u32

definition header_encode :: "frame_header \<Rightarrow> bytes" where
  "header_encode h = [WIRE_VERSION, udp_kind_byte (fh_kind h)] @ be_bytes (fh_sequence h) @ be_bytes (fh_payload_len h)"

definition header_decode :: "bytes \<Rightarrow> stream_role \<Rightarrow> udp_limits \<Rightarrow> wire_error + frame_header" where
  "header_decode inp stream limits =
     (if length inp < UDP_HEADER_LEN then Inl (We_Incomplete UDP_HEADER_LEN (length inp))
      else if inp ! 0 \<noteq> WIRE_VERSION then Inl (We_VersionUnsupported (inp ! 0))
      else try_bind (udp_kind_decode (inp ! 1)) (\<lambda>kind.
        if kind_stream kind \<noteq> stream then Inl (We_KindNotAllowed kind stream)
        else
          let sequence = be_word (subslice 2 10 inp);
              payload_len = be_word (subslice 10 14 inp) :: u32;
              len = unat payload_len
          in case payload_bounds kind limits of (minimum, maximum) \<Rightarrow>
            if len > maximum then Inl (We_PayloadTooLarge kind len maximum)
            else if len < minimum then Inl (We_LengthInvalid kind len)
            else Inr \<lparr>fh_kind = kind, fh_sequence = sequence, fh_payload_len = payload_len\<rparr>))"

record udp_record =
  ur_header :: frame_header
  ur_payload :: bytes

definition decode_record :: "stream_role \<Rightarrow> udp_limits \<Rightarrow> bytes \<Rightarrow> wire_error + udp_record \<times> usize" where
  "decode_record stream limits inp =
     (case udp_limits_validate limits of Inl v \<Rightarrow> Inl (We_Limits v) | Inr _ \<Rightarrow>
      try_bind (header_decode inp stream limits) (\<lambda>header.
        try_bind (ok_or We_LengthOverflow (checked_add_usize UDP_HEADER_LEN (unat (fh_payload_len header)))) (\<lambda>tot.
          if length inp < tot then Inl (We_Incomplete tot (length inp))
          else Inr (\<lparr>ur_header = header, ur_payload = subslice UDP_HEADER_LEN tot inp\<rparr>, tot))))"

text \<open>The encoder writes into the caller's buffer; the result is the buffer and the length.\<close>

definition encode_record ::
  "stream_role \<Rightarrow> udp_kind \<Rightarrow> u64 \<Rightarrow> bytes \<Rightarrow> udp_limits \<Rightarrow> bytes \<Rightarrow> wire_error + bytes \<times> usize" where
  "encode_record stream kind sequence payload limits buf =
     (case udp_limits_validate limits of Inl v \<Rightarrow> Inl (We_Limits v) | Inr _ \<Rightarrow>
      if \<not> length payload < 2 ^ 32 then Inl We_LengthOverflow
      else
        let header = \<lparr>fh_kind = kind, fh_sequence = sequence, fh_payload_len = of_nat (length payload)\<rparr>;
            encoded_header = header_encode header
        in try_bind (header_decode encoded_header stream limits) (\<lambda>_.
          try_bind (ok_or We_LengthOverflow (checked_add_usize UDP_HEADER_LEN (length payload))) (\<lambda>tot.
            if length buf < tot then Inl (We_OutputTooSmall tot (length buf))
            else Inr (splice_at UDP_HEADER_LEN payload (splice_at 0 encoded_header buf), tot))))"

definition header_ok :: "stream_role \<Rightarrow> udp_limits \<Rightarrow> frame_header \<Rightarrow> bool" where
  "header_ok stream limits h \<longleftrightarrow>
     kind_stream (fh_kind h) = stream \<and>
     fst (payload_bounds (fh_kind h) limits) \<le> unat (fh_payload_len h) \<and>
     unat (fh_payload_len h) \<le> snd (payload_bounds (fh_kind h) limits)"

definition record_bytes :: "udp_record \<Rightarrow> bytes" where
  "record_bytes r = header_encode (ur_header r) @ ur_payload r"

definition record_ok :: "stream_role \<Rightarrow> udp_limits \<Rightarrow> udp_record \<Rightarrow> bool" where
  "record_ok stream limits r \<longleftrightarrow>
     limits = default_udp_limits \<and> header_ok stream limits (ur_header r) \<and>
     unat (fh_payload_len (ur_header r)) = length (ur_payload r)"

lemma length_header_encode [simp]: "length (header_encode h) = UDP_HEADER_LEN"
  by (simp add: header_encode_def UDP_HEADER_LEN_def)

lemma header_encode_fields:
  "(header_encode h @ rest) ! 0 = WIRE_VERSION"
  "(header_encode h @ rest) ! 1 = udp_kind_byte (fh_kind h)"
  "be_word (subslice 2 10 (header_encode h @ rest)) = fh_sequence h"
  "be_word (subslice 10 14 (header_encode h @ rest)) = fh_payload_len h"
  by (simp_all add: header_encode_def subslice_def drop_Cons')

lemma header_decode_encode:
  "header_ok stream limits h \<Longrightarrow> header_decode (header_encode h @ rest) stream limits = Inr h"
  unfolding header_decode_def header_encode_fields Let_def
  by (auto simp: header_ok_def split_beta)

lemma header_decode_sound:
  assumes "header_decode inp stream limits = Inr h"
  shows "header_ok stream limits h \<and> take UDP_HEADER_LEN inp = header_encode h \<and> UDP_HEADER_LEN \<le> length inp"
proof -
  have len: "UDP_HEADER_LEN \<le> length inp" "inp ! 0 = WIRE_VERSION"
    using assms by (auto simp: header_decode_def split: if_splits)
  have h: "inp ! 1 = udp_kind_byte (fh_kind h)" "fh_sequence h = be_word (subslice 2 10 inp)"
    "fh_payload_len h = be_word (subslice 10 14 inp)" "header_ok stream limits h"
    using assms len by (auto simp: header_decode_def header_ok_def Let_def split: if_splits prod.splits)
  have lens: "length (subslice 2 10 inp) = 8" "length (subslice 10 14 inp) = 4"
    using len(1) by (simp_all add: UDP_HEADER_LEN_def)
  have "take UDP_HEADER_LEN inp = [inp ! 0, inp ! 1] @ subslice 2 10 inp @ subslice 10 14 inp"
  proof -
    have "subslice 2 10 inp @ subslice 10 14 inp = subslice 2 14 inp" by simp
    then have "subslice 2 10 inp @ subslice 10 14 inp = drop 2 (take UDP_HEADER_LEN inp)"
      by (simp add: subslice_def UDP_HEADER_LEN_def drop_take)
    moreover have "take UDP_HEADER_LEN inp = inp ! 0 # inp ! 1 # drop 2 (take UDP_HEADER_LEN inp)"
      using len(1) by (cases inp; cases "tl inp") (auto simp: UDP_HEADER_LEN_def take_Cons')
    ultimately show ?thesis by simp
  qed
  with h len lens show ?thesis by (simp add: header_encode_def)
qed

lemma bounds_fit: "snd (payload_bounds k default_udp_limits) \<le> 65536"
  by (cases k) (simp_all add: payload_bounds_def default_udp_limits_def ACK_WIRE_LEN_def RESIZE_WIRE_LEN_def)

lemma decode_record_bytes:
  assumes "record_ok stream limits r"
  shows "decode_record stream limits (record_bytes r @ rest) = Inr (r, length (record_bytes r))"
proof -
  have v: "udp_limits_validate limits = Inr ()" "header_ok stream limits (ur_header r)"
    "unat (fh_payload_len (ur_header r)) = length (ur_payload r)"
    using assms unfolding record_ok_def udp_limits_validate_iff by blast+
  have hd: "header_decode (record_bytes r @ rest) stream limits = Inr (ur_header r)"
    using header_decode_encode [OF v(2), of "ur_payload r @ rest"] by (simp add: record_bytes_def)
  have "checked_add_usize UDP_HEADER_LEN (length (ur_payload r)) = Some (UDP_HEADER_LEN + length (ur_payload r))"
    using unat_lt_32 [of "fh_payload_len (ur_header r)"] v(3)
    by (simp add: checked_add_usize_def UDP_HEADER_LEN_def)
  then show ?thesis
    using v hd by (simp add: decode_record_def record_bytes_def subslice_def)
qed

lemma decode_record_sound:
  assumes "decode_record stream limits inp = Inr (r, n)"
  shows "record_ok stream limits r \<and> n = length (record_bytes r) \<and> take n inp = record_bytes r"
proof -
  have v: "limits = default_udp_limits"
    using assms by (auto simp: decode_record_def udp_limits_validate_iff [symmetric] split: sum.splits)
  then have v': "udp_limits_validate limits = Inr ()" by (simp add: udp_limits_validate_iff)
  obtain h where h: "header_decode inp stream limits = Inr h"
    "n = UDP_HEADER_LEN + unat (fh_payload_len h)" "n \<le> length inp"
    "r = \<lparr>ur_header = h, ur_payload = subslice UDP_HEADER_LEN n inp\<rparr>"
    using assms v' by (auto simp: decode_record_def checked_add_usize_def split: if_splits)
  from header_decode_sound [OF h(1)] have hd: "header_ok stream limits h" "take UDP_HEADER_LEN inp = header_encode h"
    by simp_all
  have "take n inp = take UDP_HEADER_LEN inp @ subslice UDP_HEADER_LEN n inp"
    using h(2) by (simp add: subslice_def take_add)
  with hd h v show ?thesis
    by (auto simp: record_ok_def record_bytes_def)
qed

interpretation records: framing record_bytes "decode_record stream limits" "record_ok stream limits"
  for stream limits
proof
  fix r assume "record_ok stream limits r"
  show "record_bytes r \<noteq> []"
    by (simp add: record_bytes_def header_encode_def)
qed (auto simp: decode_record_bytes dest: decode_record_sound)

text \<open>The buffer encoder writes exactly the record's bytes, and succeeds exactly for acceptable
  records that fit the buffer.\<close>

lemma splice_at_prefix: "length ys \<le> length xs \<Longrightarrow> splice_at 0 ys xs = ys @ drop (length ys) xs"
  by (simp add: splice_at_def)

lemma splice_twice:
  "length a + length b \<le> length xs \<Longrightarrow>
   splice_at (length a) b (splice_at 0 a xs) = a @ b @ drop (length a + length b) xs"
  using splice_at_append [of 0 a b xs] by (simp add: splice_at_def)

lemma encode_record_Inr:
  assumes "encode_record stream kind sequence payload limits buf = Inr (out, n)"
  shows "\<exists>r. record_ok stream limits r \<and> ur_payload r = payload \<and> fh_kind (ur_header r) = kind \<and>
    fh_sequence (ur_header r) = sequence \<and> n = length (record_bytes r) \<and> n \<le> length buf \<and>
    out = record_bytes r @ drop n buf"
proof -
  define h where "h = \<lparr>fh_kind = kind, fh_sequence = sequence, fh_payload_len = of_nat (length payload)\<rparr>"
  define r where "r = \<lparr>ur_header = h, ur_payload = payload\<rparr>"
  have v: "limits = default_udp_limits"
    using assms by (auto simp: encode_record_def udp_limits_validate_iff [symmetric] split: sum.splits)
  have *: "length payload < 2 ^ 32" "header_decode (header_encode h) stream limits = Inr h'"
    "n = UDP_HEADER_LEN + length payload" "n \<le> length buf"
    "out = splice_at UDP_HEADER_LEN payload (splice_at 0 (header_encode h) buf)"
    if "header_decode (header_encode h) stream limits = Inr h'" for h'
    using assms that
    by (auto simp: encode_record_def Let_def h_def checked_add_usize_def split: sum.splits if_splits)
  obtain h' where h': "header_decode (header_encode h) stream limits = Inr h'"
    using assms by (auto simp: encode_record_def Let_def h_def split: sum.splits if_splits)
  note * = * [OF h']
  have "header_ok stream limits h' \<and> header_encode h = header_encode h'"
    using header_decode_sound [OF h'] by simp
  moreover from this have "h' = h"
    using header_encode_fields [of h "[]"] header_encode_fields [of h' "[]"] h'
    by (metis header_decode_encode append_Nil2 frame_header.equality old.unit.exhaust udp_kind_decode_Inr
        udp_kind_decode_byte sum.inject(2))
  ultimately have hok: "header_ok stream limits h" by simp
  have "unat (fh_payload_len h) = length payload" using *(1) by (simp add: h_def)
  with hok v have "record_ok stream limits r" by (simp add: record_ok_def r_def)
  moreover have "out = record_bytes r @ drop n buf"
    using *(3,4,5) splice_twice [of "header_encode h" payload buf]
    by (simp add: r_def record_bytes_def)
  ultimately show ?thesis
    using *(3,4) by (intro exI [of _ r]) (simp add: r_def h_def record_bytes_def)
qed

section \<open>Fast datagrams\<close>

record fast_datagram =
  fd_direction :: fast_direction
  fd_kind :: udp_kind
  fd_epoch :: u64
  fd_sequence :: u64
  fd_payload :: bytes

definition datagram_header :: "fast_direction \<Rightarrow> udp_kind \<Rightarrow> u64 \<Rightarrow> u64 \<Rightarrow> u16 \<Rightarrow> bytes" where
  "datagram_header direction kind epoch sequence payload_len =
     [WIRE_VERSION, direction_byte direction, udp_kind_byte kind]
     @ be_bytes epoch @ be_bytes sequence @ be_bytes payload_len"

definition encode_fast_datagram ::
  "fast_direction \<Rightarrow> udp_kind \<Rightarrow> u64 \<Rightarrow> u64 \<Rightarrow> bytes \<Rightarrow> bytes \<Rightarrow> wire_error + bytes \<times> usize" where
  "encode_fast_datagram direction kind epoch sequence payload buf =
     (if kind \<noteq> direction_kind direction then Inl (We_KindNotAllowed kind (direction_stream direction))
      else if payload = [] then Inl (We_LengthInvalid kind 0)
      else if length payload > FAST_DATAGRAM_PAYLOAD_MAX then
        Inl (We_PayloadTooLarge kind (length payload) FAST_DATAGRAM_PAYLOAD_MAX)
      else if \<not> length payload < 2 ^ 16 then Inl We_LengthOverflow
      else try_bind (ok_or We_LengthOverflow (checked_add_usize FAST_DATAGRAM_HEADER_LEN (length payload))) (\<lambda>tot.
        if length buf < tot then Inl (We_OutputTooSmall tot (length buf))
        else Inr (splice_at FAST_DATAGRAM_HEADER_LEN payload
                    (splice_at 0 (datagram_header direction kind epoch sequence (of_nat (length payload))) buf),
                  tot)))"

definition decode_fast_datagram :: "fast_direction \<Rightarrow> bytes \<Rightarrow> wire_error + fast_datagram" where
  "decode_fast_datagram expected_direction inp =
     (if length inp < FAST_DATAGRAM_HEADER_LEN then
        Inl (We_Incomplete FAST_DATAGRAM_HEADER_LEN (length inp))
      else if inp ! 0 \<noteq> WIRE_VERSION then Inl (We_VersionUnsupported (inp ! 0))
      else try_bind (direction_decode (inp ! 1)) (\<lambda>direction.
        if direction \<noteq> expected_direction then Inl (We_DatagramDirection (inp ! 1))
        else try_bind (udp_kind_decode (inp ! 2)) (\<lambda>kind.
          if kind \<noteq> direction_kind direction then Inl (We_KindNotAllowed kind (direction_stream direction))
          else
            let epoch = be_word (subslice 3 11 inp);
                sequence = be_word (subslice 11 19 inp);
                payload_len = unat (be_word (subslice 19 21 inp) :: u16)
            in
            if payload_len = 0 then Inl (We_LengthInvalid kind 0)
            else if payload_len > FAST_DATAGRAM_PAYLOAD_MAX then
              Inl (We_PayloadTooLarge kind payload_len FAST_DATAGRAM_PAYLOAD_MAX)
            else try_bind (ok_or We_LengthOverflow (checked_add_usize FAST_DATAGRAM_HEADER_LEN payload_len)) (\<lambda>tot.
              if length inp < tot then Inl (We_Incomplete tot (length inp))
              else if length inp \<noteq> tot then Inl (We_LengthInvalid kind (length inp - FAST_DATAGRAM_HEADER_LEN))
              else Inr \<lparr>fd_direction = direction, fd_kind = kind, fd_epoch = epoch, fd_sequence = sequence,
                        fd_payload = drop FAST_DATAGRAM_HEADER_LEN inp\<rparr>))))"

definition datagram_bytes :: "fast_datagram \<Rightarrow> bytes" where
  "datagram_bytes d =
     datagram_header (fd_direction d) (fd_kind d) (fd_epoch d) (fd_sequence d) (of_nat (length (fd_payload d)))
     @ fd_payload d"

definition datagram_ok :: "fast_direction \<Rightarrow> fast_datagram \<Rightarrow> bool" where
  "datagram_ok direction d \<longleftrightarrow>
     fd_direction d = direction \<and> fd_kind d = direction_kind direction \<and>
     fd_payload d \<noteq> [] \<and> length (fd_payload d) \<le> FAST_DATAGRAM_PAYLOAD_MAX"

lemma length_datagram_header [simp]:
  "length (datagram_header direction kind epoch sequence n) = FAST_DATAGRAM_HEADER_LEN"
  by (simp add: datagram_header_def FAST_DATAGRAM_HEADER_LEN_def)

lemma datagram_header_fields:
  "(datagram_header d k e s n @ rest) ! 0 = WIRE_VERSION"
  "(datagram_header d k e s n @ rest) ! 1 = direction_byte d"
  "(datagram_header d k e s n @ rest) ! 2 = udp_kind_byte k"
  "be_word (subslice 3 11 (datagram_header d k e s n @ rest)) = e"
  "be_word (subslice 11 19 (datagram_header d k e s n @ rest)) = s"
  "be_word (subslice 19 21 (datagram_header d k e s n @ rest)) = n"
  by (simp_all add: datagram_header_def subslice_def drop_Cons')

lemma decode_datagram_bytes: "datagram_ok dir d \<Longrightarrow> decode_fast_datagram dir (datagram_bytes d) = Inr d"
  unfolding decode_fast_datagram_def datagram_bytes_def datagram_header_fields Let_def
  by (auto simp: datagram_ok_def checked_add_usize_def FAST_DATAGRAM_PAYLOAD_MAX_def
      FAST_DATAGRAM_HEADER_LEN_def datagram_header_def)

lemma decode_datagram_sound:
  assumes "decode_fast_datagram dir inp = Inr d"
  shows "datagram_ok dir d \<and> inp = datagram_bytes d"
proof -
  have len: "FAST_DATAGRAM_HEADER_LEN \<le> length inp" "inp ! 0 = WIRE_VERSION"
    using assms by (auto simp: decode_fast_datagram_def split: if_splits)
  have d: "inp ! 1 = direction_byte (fd_direction d)" "inp ! 2 = udp_kind_byte (fd_kind d)"
    "fd_epoch d = be_word (subslice 3 11 inp)" "fd_sequence d = be_word (subslice 11 19 inp)"
    "fd_payload d = drop FAST_DATAGRAM_HEADER_LEN inp" "fd_direction d = dir" "fd_kind d = direction_kind dir"
    "unat (be_word (subslice 19 21 inp) :: u16) \<noteq> 0"
    "unat (be_word (subslice 19 21 inp) :: u16) \<le> FAST_DATAGRAM_PAYLOAD_MAX"
    "length inp = FAST_DATAGRAM_HEADER_LEN + unat (be_word (subslice 19 21 inp) :: u16)"
    using assms len by (auto simp: decode_fast_datagram_def checked_add_usize_def Let_def split: if_splits)
  have lens: "length (subslice 3 11 inp) = 8" "length (subslice 11 19 inp) = 8" "length (subslice 19 21 inp) = 2"
    using len(1) by (simp_all add: FAST_DATAGRAM_HEADER_LEN_def)
  have pl: "length (fd_payload d) = unat (be_word (subslice 19 21 inp) :: u16)"
    using d(5,10) by simp
  then have "(of_nat (length (fd_payload d)) :: u16) = be_word (subslice 19 21 inp)"
    using d(9) by (simp add: word_unat_eq_iff FAST_DATAGRAM_PAYLOAD_MAX_def)
  moreover have "inp = [inp ! 0, inp ! 1, inp ! 2] @ subslice 3 11 inp @ subslice 11 19 inp @ subslice 19 21 inp
      @ drop FAST_DATAGRAM_HEADER_LEN inp"
  proof -
    have "subslice 3 11 inp @ subslice 11 19 inp @ subslice 19 21 inp @ drop FAST_DATAGRAM_HEADER_LEN inp
        = subslice 3 (length inp) inp"
      using len(1) by (simp add: FAST_DATAGRAM_HEADER_LEN_def drop_subslice)
    moreover have "inp = inp ! 0 # inp ! 1 # inp ! 2 # subslice 3 (length inp) inp"
      using len(1) by (cases inp; cases "tl inp"; cases "tl (tl inp)")
        (auto simp: FAST_DATAGRAM_HEADER_LEN_def subslice_def)
    ultimately show ?thesis by simp
  qed
  ultimately have "inp = datagram_bytes d"
    using d(1-4) len(2) lens unfolding datagram_bytes_def datagram_header_def d(5)
    by (simp add: d(5) [symmetric])
  with d pl show ?thesis by (auto simp: datagram_ok_def)
qed

interpretation datagrams: exact_codec datagram_bytes "decode_fast_datagram dir" "datagram_ok dir" for dir
  by unfold_locales (auto simp: decode_datagram_bytes dest: decode_datagram_sound)

lemma encode_fast_datagram_Inr:
  assumes "encode_fast_datagram direction kind epoch sequence payload buf = Inr (out, n)"
  shows "datagram_ok direction \<lparr>fd_direction = direction, fd_kind = kind, fd_epoch = epoch,
      fd_sequence = sequence, fd_payload = payload\<rparr> \<and>
    out = datagram_bytes \<lparr>fd_direction = direction, fd_kind = kind, fd_epoch = epoch,
      fd_sequence = sequence, fd_payload = payload\<rparr> @ drop n buf \<and>
    n = FAST_DATAGRAM_HEADER_LEN + length payload \<and> n \<le> length buf"
  using assms splice_twice [of "datagram_header direction kind epoch sequence (of_nat (length payload))" payload buf]
  by (auto simp: encode_fast_datagram_def datagram_ok_def datagram_bytes_def checked_add_usize_def
      split: if_splits)

section \<open>Acknowledgements, gaps and resizes\<close>

record udp_ack =
  ack_epoch :: u64
  next_expected :: u64

definition ack_encode :: "udp_ack \<Rightarrow> bytes" where
  "ack_encode a = be_bytes (ack_epoch a) @ be_bytes (next_expected a)"

definition ack_decode_exact :: "udp_kind \<Rightarrow> bytes \<Rightarrow> wire_error + udp_ack" where
  "ack_decode_exact kind bs =
     (if kind \<notin> {UKind_AckInput, UKind_AckOutput} \<or> length bs \<noteq> ACK_WIRE_LEN
      then Inl (We_LengthInvalid kind (length bs))
      else Inr \<lparr>ack_epoch = be_word (subslice 0 8 bs), next_expected = be_word (subslice 8 16 bs)\<rparr>)"

record epoch_gap =
  abandoned_epoch :: u64
  replacement_epoch :: u64

definition gap_new :: "u64 \<Rightarrow> u64 \<Rightarrow> wire_error + epoch_gap" where
  "gap_new abandoned replacement =
     (if replacement \<le> abandoned then Inl (We_LengthInvalid UKind_Gap GAP_WIRE_LEN)
      else Inr \<lparr>abandoned_epoch = abandoned, replacement_epoch = replacement\<rparr>)"

definition gap_encode :: "epoch_gap \<Rightarrow> bytes" where
  "gap_encode g = be_bytes (abandoned_epoch g) @ be_bytes (replacement_epoch g)"

definition gap_decode_exact :: "bytes \<Rightarrow> wire_error + epoch_gap" where
  "gap_decode_exact bs =
     (if length bs \<noteq> GAP_WIRE_LEN then Inl (We_LengthInvalid UKind_Gap (length bs))
      else gap_new (be_word (subslice 0 8 bs)) (be_word (subslice 8 16 bs)))"

definition gap_ok :: "epoch_gap \<Rightarrow> bool" where
  "gap_ok g \<longleftrightarrow> abandoned_epoch g < replacement_epoch g"

record resize =
  rs_rows :: u16
  rs_columns :: u16
  rs_pixel_width :: u16
  rs_pixel_height :: u16

definition resize_encode :: "resize \<Rightarrow> bytes" where
  "resize_encode r = be_bytes (rs_rows r) @ be_bytes (rs_columns r)
     @ be_bytes (rs_pixel_width r) @ be_bytes (rs_pixel_height r)"

definition resize_decode_exact :: "bytes \<Rightarrow> wire_error + resize" where
  "resize_decode_exact bs =
     (if length bs \<noteq> RESIZE_WIRE_LEN then Inl (We_LengthInvalid UKind_Resize (length bs))
      else Inr \<lparr>rs_rows = be_word [bs ! 0, bs ! 1], rs_columns = be_word [bs ! 2, bs ! 3],
                rs_pixel_width = be_word [bs ! 4, bs ! 5], rs_pixel_height = be_word [bs ! 6, bs ! 7]\<rparr>)"

interpretation acks: exact_codec ack_encode "ack_decode_exact kind"
  "\<lambda>_. kind \<in> {UKind_AckInput, UKind_AckOutput}" for kind
proof
  fix bs and a assume dec: "ack_decode_exact kind bs = Inr a"
  then have "length bs = 16" by (auto simp: ack_decode_exact_def ACK_WIRE_LEN_def split: if_splits)
  moreover from this have "subslice 0 8 bs @ subslice 8 16 bs = bs" by (simp add: subslice_full)
  ultimately show "kind \<in> {UKind_AckInput, UKind_AckOutput} \<and> bs = ack_encode a"
    using dec by (auto simp: ack_decode_exact_def ack_encode_def split: if_splits)
qed (auto simp: ack_decode_exact_def ack_encode_def ACK_WIRE_LEN_def subslice_def)

interpretation gaps: exact_codec gap_encode gap_decode_exact gap_ok
proof
  fix bs and g assume dec: "gap_decode_exact bs = Inr g"
  then have "length bs = 16" by (auto simp: gap_decode_exact_def GAP_WIRE_LEN_def split: if_splits)
  moreover from this have "subslice 0 8 bs @ subslice 8 16 bs = bs" by (simp add: subslice_full)
  ultimately show "gap_ok g \<and> bs = gap_encode g"
    using dec by (auto simp: gap_decode_exact_def gap_encode_def gap_new_def gap_ok_def split: if_splits)
qed (auto simp: gap_decode_exact_def gap_encode_def gap_new_def gap_ok_def GAP_WIRE_LEN_def subslice_def)

lemma length_2: "length (xs :: bytes) = 2 \<longleftrightarrow> (\<exists>a b. xs = [a, b])"
  by (cases xs; cases "tl xs"; cases "tl (tl xs)") auto

lemma be_bytes_16_pair: "[be_bytes (w :: u16) ! 0, be_bytes w ! 1] = be_bytes w"
  using length_2 [of "be_bytes w"] by auto

interpretation resizes: exact_codec resize_encode resize_decode_exact "\<lambda>_. True"
proof
  fix r :: resize
  have "resize_decode_exact (resize_encode r) = Inr
      \<lparr>rs_rows = be_word [be_bytes (rs_rows r) ! 0, be_bytes (rs_rows r) ! 1],
       rs_columns = be_word [be_bytes (rs_columns r) ! 0, be_bytes (rs_columns r) ! 1],
       rs_pixel_width = be_word [be_bytes (rs_pixel_width r) ! 0, be_bytes (rs_pixel_width r) ! 1],
       rs_pixel_height = be_word [be_bytes (rs_pixel_height r) ! 0, be_bytes (rs_pixel_height r) ! 1]\<rparr>"
    by (simp add: resize_decode_exact_def resize_encode_def RESIZE_WIRE_LEN_def nth_append)
  then show "resize_decode_exact (resize_encode r) = Inr r"
    unfolding be_bytes_16_pair by simp
next
  fix bs and r assume dec: "resize_decode_exact bs = Inr r"
  then have len: "length bs = 8" by (auto simp: resize_decode_exact_def RESIZE_WIRE_LEN_def split: if_splits)
  then have "bs = [bs ! 0, bs ! 1] @ [bs ! 2, bs ! 3] @ [bs ! 4, bs ! 5] @ [bs ! 6, bs ! 7]"
    by (intro nth_equalityI) (auto simp: numeral_eq_Suc less_Suc_eq)
  with dec len show "True \<and> bs = resize_encode r"
    by (auto simp: resize_decode_exact_def resize_encode_def RESIZE_WIRE_LEN_def)
qed

section \<open>The streams of a connection\<close>

record stream_layout =
  sl_role :: connection_role
  sl_control :: bool
  sl_input :: bool
  sl_output :: bool

definition layout_new :: "connection_role \<Rightarrow> stream_layout" where
  "layout_new role = \<lparr>sl_role = role, sl_control = False, sl_input = False, sl_output = False\<rparr>"

definition layout_occupied :: "stream_layout \<Rightarrow> stream_role \<Rightarrow> bool" where
  "layout_occupied l stream =
     (case stream of Stream_Control \<Rightarrow> sl_control l | Stream_Input \<Rightarrow> sl_input l | Stream_Output \<Rightarrow> sl_output l)"

definition layout_admit :: "stream_layout \<Rightarrow> stream_role \<Rightarrow> stream_layout \<times> (wire_error + unit)" where
  "layout_admit l stream =
     (if sl_role l = Connection_Observer \<and> stream = Stream_Input then (l, Inl We_ObserverInputStream)
      else if layout_occupied l stream then (l, Inl (We_DuplicateStream stream))
      else (case stream of
              Stream_Control \<Rightarrow> l\<lparr>sl_control := True\<rparr>
            | Stream_Input \<Rightarrow> l\<lparr>sl_input := True\<rparr>
            | Stream_Output \<Rightarrow> l\<lparr>sl_output := True\<rparr>, Inr ()))"

definition layout_complete :: "stream_layout \<Rightarrow> bool" where
  "layout_complete l \<longleftrightarrow> sl_control l \<and> sl_output l \<and> (sl_input l \<or> sl_role l = Connection_Observer)"

text \<open>A run of admissions, with the streams that were admitted.\<close>

fun admit_all :: "stream_layout \<Rightarrow> stream_role list \<Rightarrow> stream_layout \<times> stream_role list" where
  "admit_all l [] = (l, [])"
| "admit_all l (s # ss) =
     (case layout_admit l s of
        (l', Inr _) \<Rightarrow> (case admit_all l' ss of (l2, adm) \<Rightarrow> (l2, s # adm))
      | (l', Inl _) \<Rightarrow> admit_all l' ss)"

lemma admit_all_inv:
  "admit_all l ss = (l', adm) \<Longrightarrow>
   sl_role l' = sl_role l \<and> distinct adm \<and>
   (sl_role l = Connection_Observer \<longrightarrow> Stream_Input \<notin> set adm) \<and>
   (\<forall>s. layout_occupied l' s \<longleftrightarrow> layout_occupied l s \<or> s \<in> set adm) \<and>
   (\<forall>s \<in> set adm. \<not> layout_occupied l s)"
proof (induction ss arbitrary: l l' adm)
  case (Cons s ss)
  show ?case
  proof (cases "layout_admit l s")
    case (Pair l1 r)
    show ?thesis
    proof (cases r)
      case (Inl e)
      then have "l1 = l" using Pair by (auto simp: layout_admit_def split: if_splits)
      with Cons Pair Inl show ?thesis by auto
    next
      case (Inr u)
      obtain l2 adm2 where a2: "admit_all l1 ss = (l2, adm2)" by force
      have adm: "adm = s # adm2" "l' = l2" using Cons.prems Pair Inr a2 by auto
      have l1: "sl_role l1 = sl_role l" "\<not> layout_occupied l s"
          "\<forall>t. layout_occupied l1 t \<longleftrightarrow> layout_occupied l t \<or> t = s"
          "sl_role l = Connection_Observer \<longrightarrow> s \<noteq> Stream_Input"
        using Pair Inr by (auto simp: layout_admit_def layout_occupied_def
            split: if_splits stream_role.splits)
      from Cons.IH [OF a2] l1 adm show ?thesis by auto
    qed
  qed
qed auto

section \<open>Properties\<close>

text \<open>A stream of encoded records is uniquely decodable, record by record: a prefix of the
  input decodes to a record exactly if it is the encoding of an acceptable one.\<close>

theorem udp_record_codec:
  "decode_record stream limits inp = Inr (r, n) \<longleftrightarrow>
     record_ok stream limits r \<and> n = length (record_bytes r) \<and> (\<exists>rest. inp = record_bytes r @ rest)"
  by (rule records.pdec_iff)

text \<open>Whatever the record encoder writes into a buffer is decoded at the other side as the
  same record, and nothing of the buffer beyond it is touched.\<close>

theorem encode_record_decodes:
  assumes "encode_record stream kind sequence payload limits buf = Inr (out, n)"
  shows "(\<exists>r. decode_record stream limits out = Inr (r, n) \<and> fh_kind (ur_header r) = kind \<and>
      fh_sequence (ur_header r) = sequence \<and> ur_payload r = payload) \<and>
    n \<le> length buf \<and> length out = length buf \<and> drop n out = drop n buf"
proof -
  obtain r where r: "record_ok stream limits r" "ur_payload r = payload" "fh_kind (ur_header r) = kind"
    "fh_sequence (ur_header r) = sequence" "n = length (record_bytes r)" "n \<le> length buf"
    "out = record_bytes r @ drop n buf"
    using encode_record_Inr [OF assms] by blast
  have "decode_record stream limits out = Inr (r, n)"
    unfolding r(7) by (subst records.pdec_iff) (use r in auto)
  with r show ?thesis by auto
qed

lemma encode_record_decodes_witness:
  "(\<exists>r. decode_record Stream_Input default_udp_limits
        (fst (projr (encode_record Stream_Input UKind_Signal 7 [2] default_udp_limits (replicate 16 9))))
        = Inr (r, 15) \<and> fh_kind (ur_header r) = UKind_Signal \<and>
      fh_sequence (ur_header r) = 7 \<and> ur_payload r = [2]) \<and>
    15 \<le> length (replicate 16 (9 :: u8)) \<and>
    length (fst (projr (encode_record Stream_Input UKind_Signal 7 [2] default_udp_limits (replicate 16 9))))
      = length (replicate 16 (9 :: u8)) \<and>
    drop 15 (fst (projr (encode_record Stream_Input UKind_Signal 7 [2] default_udp_limits (replicate 16 9))))
      = drop 15 (replicate 16 (9 :: u8))"
proof (rule encode_record_decodes)
  have v: "udp_limits_validate default_udp_limits = Inr ()" by (simp add: udp_limits_validate_iff)
  have "header_ok Stream_Input default_udp_limits \<lparr>fh_kind = UKind_Signal, fh_sequence = 7, fh_payload_len = 1\<rparr>"
    by (simp add: header_ok_def kind_stream_def payload_bounds_def)
  from header_decode_encode [OF this, of "[]"]
  show "encode_record Stream_Input UKind_Signal 7 [2] default_udp_limits (replicate 16 9) =
    Inr (fst (projr (encode_record Stream_Input UKind_Signal 7 [2] default_udp_limits (replicate 16 9))), 15)"
    by (simp add: encode_record_def v Let_def checked_add_usize_def UDP_HEADER_LEN_def)
qed

text \<open>The datagram codec is exact for either direction.\<close>

theorem fast_datagram_codec:
  "decode_fast_datagram dir inp = Inr d \<longleftrightarrow> datagram_ok dir d \<and> inp = datagram_bytes d"
  by (rule datagrams.dec_iff)

text \<open>A connection admits each stream at most once and an observer never gets an input stream;
  the layout is complete exactly when every stream its role needs has been admitted.\<close>

theorem stream_layout_admission:
  "case admit_all (layout_new role) ss of (l, adm) \<Rightarrow>
     distinct adm \<and> \<not> (role = Connection_Observer \<and> Stream_Input \<in> set adm) \<and>
     (layout_complete l \<longleftrightarrow> {Stream_Control, Stream_Output} \<subseteq> set adm \<and>
        (Stream_Input \<in> set adm \<or> role = Connection_Observer))"
proof -
  obtain l adm where a: "admit_all (layout_new role) ss = (l, adm)" by force
  have new: "\<not> layout_occupied (layout_new role) s" for s
    by (cases s) (simp_all add: layout_new_def layout_occupied_def)
  have *: "layout_occupied l s \<longleftrightarrow> s \<in> set adm" for s
    using admit_all_inv [OF a] new by blast
  have "sl_control l \<longleftrightarrow> Stream_Control \<in> set adm" "sl_input l \<longleftrightarrow> Stream_Input \<in> set adm"
    "sl_output l \<longleftrightarrow> Stream_Output \<in> set adm"
    using * [of Stream_Control] * [of Stream_Input] * [of Stream_Output]
    by (simp_all add: layout_occupied_def)
  moreover have "sl_role l = role" "distinct adm" "role = Connection_Observer \<longrightarrow> Stream_Input \<notin> set adm"
    using admit_all_inv [OF a] by (simp_all add: layout_new_def)
  ultimately show ?thesis
    by (auto simp: a layout_complete_def)
qed

end
