(* ===== verification/Udp_Handshake.thy ===== *)
theory Udp_Handshake
  imports Udp_Wire
begin

text \<open>
  The association handshake of everudp (\<open>crates/everudp/src/handshake.rs\<close>): the hello a client
  opens a connection with, initial or resuming, and the gateway's answer. Both are fixed layouts;
  identities are sixteen bytes, not all zero, a token thirty-two bytes. Both codecs are
  interpretations of the exact codec interface.
\<close>

section \<open>Fixed layouts\<close>

lemma subslice_skip: "length xs \<le> i \<Longrightarrow> subslice i j (xs @ ys) = subslice (i - length xs) (j - length xs) ys"
  by (simp add: subslice_def)

lemma subslice_hit: "length xs = j \<Longrightarrow> subslice 0 j (xs @ ys) = xs"
  by (simp add: subslice_def)

lemma subslice_Cons: "0 < i \<Longrightarrow> subslice i j (x # ys) = subslice (i - 1) (j - 1) ys"
  by (cases i) (simp_all add: subslice_def)

lemma subslice_Cons_0: "0 < j \<Longrightarrow> subslice 0 j (x # ys) = x # subslice 0 (j - 1) ys"
  by (cases j) (simp_all add: subslice_def)

lemma subslice_whole: "i + length xs = j \<Longrightarrow> i = 0 \<Longrightarrow> subslice i j xs = xs"
  by (simp add: subslice_def)

lemmas layout_simps = subslice_skip subslice_hit subslice_full subslice_Cons subslice_Cons_0
  subslice_whole nth_append nth_Cons'

section \<open>Identities\<close>

type_synonym association_id = bytes
type_synonym gateway_generation = bytes
type_synonym secret_token = bytes

definition association_from_bytes :: "bytes \<Rightarrow> association_id option" where
  "association_from_bytes bs = (if bs = replicate 16 0 then None else Some bs)"

definition generation_from_bytes :: "bytes \<Rightarrow> gateway_generation option" where
  "generation_from_bytes bs = (if bs = replicate 16 0 then None else Some bs)"

definition identity_ok :: "bytes \<Rightarrow> bool" where
  "identity_ok bs \<longleftrightarrow> length bs = 16 \<and> bs \<noteq> replicate 16 0"

lemma from_bytes_Some [simp]:
  "association_from_bytes bs = Some i \<longleftrightarrow> bs \<noteq> replicate 16 0 \<and> i = bs"
  "generation_from_bytes bs = Some i \<longleftrightarrow> bs \<noteq> replicate 16 0 \<and> i = bs"
  by (auto simp: association_from_bytes_def generation_from_bytes_def)

section \<open>Hellos\<close>

datatype handshake_error =
    Hs_InvalidLength | Hs_OutputTooSmall | Hs_UnknownHelloMode u8 | Hs_UnknownRole u8
  | Hs_InvalidAssociation | Hs_InvalidGeneration | Hs_InitialPositionNotZero | Hs_AckAheadOfSequence
  | Hs_InvalidGapFlag u8 | Hs_InvalidGapEpochs

record resume_position =
  rp_input_epoch :: u64
  rp_next_input :: u64
  rp_output_epoch :: u64
  rp_next_output :: u64
  rp_delivered_output_ack :: u64

definition position_validate :: "resume_position \<Rightarrow> handshake_error + resume_position" where
  "position_validate p =
     (if rp_delivered_output_ack p > rp_next_output p then Inl Hs_AckAheadOfSequence else Inr p)"

definition zero_position :: resume_position where
  "zero_position = \<lparr>rp_input_epoch = 0, rp_next_input = 0, rp_output_epoch = 0, rp_next_output = 0,
     rp_delivered_output_ack = 0\<rparr>"

datatype client_hello =
    Hello_Initial association_id gateway_generation connection_role resume_position secret_token
  | Hello_Resume association_id gateway_generation connection_role resume_position

definition RESUME_ENCODED_LEN :: usize where "RESUME_ENCODED_LEN = 74"
definition INITIAL_ENCODED_LEN :: usize where "INITIAL_ENCODED_LEN = RESUME_ENCODED_LEN + 32"

definition hello_initial ::
  "association_id \<Rightarrow> gateway_generation \<Rightarrow> connection_role \<Rightarrow> resume_position \<Rightarrow> secret_token \<Rightarrow>
   handshake_error + client_hello" where
  "hello_initial i g role p token =
     (if p \<noteq> zero_position then Inl Hs_InitialPositionNotZero
      else try_bind (position_validate p) (\<lambda>p'. Inr (Hello_Initial i g role p' token)))"

definition hello_resume ::
  "association_id \<Rightarrow> gateway_generation \<Rightarrow> connection_role \<Rightarrow> resume_position \<Rightarrow> handshake_error + client_hello" where
  "hello_resume i g role p = try_bind (position_validate p) (\<lambda>p'. Inr (Hello_Resume i g role p'))"

fun hello_association_id :: "client_hello \<Rightarrow> association_id" where
  "hello_association_id (Hello_Initial i _ _ _ _) = i"
| "hello_association_id (Hello_Resume i _ _ _) = i"

fun hello_generation :: "client_hello \<Rightarrow> gateway_generation" where
  "hello_generation (Hello_Initial _ g _ _ _) = g"
| "hello_generation (Hello_Resume _ g _ _) = g"

fun hello_role :: "client_hello \<Rightarrow> connection_role" where
  "hello_role (Hello_Initial _ _ r _ _) = r"
| "hello_role (Hello_Resume _ _ r _) = r"

fun hello_position :: "client_hello \<Rightarrow> resume_position" where
  "hello_position (Hello_Initial _ _ _ p _) = p"
| "hello_position (Hello_Resume _ _ _ p) = p"

fun hello_token :: "client_hello \<Rightarrow> secret_token option" where
  "hello_token (Hello_Initial _ _ _ _ t) = Some t"
| "hello_token (Hello_Resume _ _ _ _) = None"

fun is_initial :: "client_hello \<Rightarrow> bool" where
  "is_initial (Hello_Initial _ _ _ _ _) = True"
| "is_initial (Hello_Resume _ _ _ _) = False"

definition hello_encoded_len :: "client_hello \<Rightarrow> usize" where
  "hello_encoded_len h = (if is_initial h then INITIAL_ENCODED_LEN else RESUME_ENCODED_LEN)"

fun encode_role :: "connection_role \<Rightarrow> u8" where
  "encode_role Connection_Writer = 1"
| "encode_role Connection_Observer = 2"

definition decode_connection_role :: "u8 \<Rightarrow> handshake_error + connection_role" where
  "decode_connection_role b =
     (if b = 1 then Inr Connection_Writer else if b = 2 then Inr Connection_Observer
      else Inl (Hs_UnknownRole b))"

definition encode_position :: "resume_position \<Rightarrow> bytes" where
  "encode_position p = be_bytes (rp_input_epoch p) @ be_bytes (rp_next_input p)
     @ be_bytes (rp_output_epoch p) @ be_bytes (rp_next_output p) @ be_bytes (rp_delivered_output_ack p)"

definition decode_position :: "bytes \<Rightarrow> handshake_error + resume_position" where
  "decode_position bs =
     (if length bs \<noteq> 40 then Inl Hs_InvalidLength
      else Inr \<lparr>rp_input_epoch = be_word (subslice 0 8 bs), rp_next_input = be_word (subslice 8 16 bs),
                rp_output_epoch = be_word (subslice 16 24 bs), rp_next_output = be_word (subslice 24 32 bs),
                rp_delivered_output_ack = be_word (subslice 32 40 bs)\<rparr>)"

definition hello_bytes :: "client_hello \<Rightarrow> bytes" where
  "hello_bytes h =
     [if is_initial h then 1 else 2] @ hello_association_id h @ hello_generation h
     @ [encode_role (hello_role h)] @ encode_position (hello_position h)
     @ (case hello_token h of Some t \<Rightarrow> t | None \<Rightarrow> [])"

definition hello_encode_into :: "client_hello \<Rightarrow> bytes \<Rightarrow> handshake_error + bytes \<times> usize" where
  "hello_encode_into h buf =
     (if length buf < hello_encoded_len h then Inl Hs_OutputTooSmall
      else Inr (splice_at 0 (hello_bytes h) buf, hello_encoded_len h))"

definition decode_association :: "bytes \<Rightarrow> handshake_error + association_id" where
  "decode_association bs =
     (if length bs \<noteq> 16 then Inl Hs_InvalidLength
      else ok_or Hs_InvalidAssociation (association_from_bytes bs))"

definition decode_generation :: "bytes \<Rightarrow> handshake_error + gateway_generation" where
  "decode_generation bs =
     (if length bs \<noteq> 16 then Inl Hs_InvalidLength
      else ok_or Hs_InvalidGeneration (generation_from_bytes bs))"

definition hello_decode_exact :: "bytes \<Rightarrow> handshake_error + client_hello" where
  "hello_decode_exact bs =
     (if length bs \<noteq> RESUME_ENCODED_LEN \<and> length bs \<noteq> INITIAL_ENCODED_LEN then Inl Hs_InvalidLength
      else
        let mode = bs ! 0
        in if (mode = 1) \<noteq> (length bs = INITIAL_ENCODED_LEN) then
             (if mode = 2 \<or> mode = 1 then Inl Hs_InvalidLength else Inl (Hs_UnknownHelloMode mode))
           else if mode \<noteq> 1 \<and> mode \<noteq> 2 then Inl (Hs_UnknownHelloMode mode)
           else
             try_bind (decode_association (subslice 1 17 bs)) (\<lambda>i.
             try_bind (decode_generation (subslice 17 33 bs)) (\<lambda>g.
             try_bind (decode_connection_role (bs ! 33)) (\<lambda>role.
             try_bind (decode_position (subslice 34 74 bs)) (\<lambda>p0.
             try_bind (position_validate p0) (\<lambda>p.
               if mode = 1 then hello_initial i g role p (subslice 74 106 bs)
               else hello_resume i g role p))))))"

record server_hello =
  sh_association_id :: association_id
  sh_generation :: gateway_generation
  sh_role :: connection_role
  sh_input_epoch :: u64
  sh_accepted_input_ack :: u64
  sh_output_epoch :: u64
  sh_next_output :: u64
  sh_pending_gap :: "(u64 \<times> u64) option"

definition SERVER_HELLO_LEN :: usize where "SERVER_HELLO_LEN = 82"

definition server_hello_new :: "server_hello \<Rightarrow> handshake_error + server_hello" where
  "server_hello_new h =
     (case sh_pending_gap h of
        Some (abandoned, replacement) \<Rightarrow> if replacement \<le> abandoned then Inl Hs_InvalidGapEpochs else Inr h
      | None \<Rightarrow> Inr h)"

definition server_hello_bytes :: "server_hello \<Rightarrow> bytes" where
  "server_hello_bytes h =
     sh_association_id h @ sh_generation h @ [encode_role (sh_role h)]
     @ be_bytes (sh_input_epoch h) @ be_bytes (sh_accepted_input_ack h)
     @ be_bytes (sh_output_epoch h) @ be_bytes (sh_next_output h)
     @ (case sh_pending_gap h of
          Some (abandoned, replacement) \<Rightarrow> [1] @ be_bytes abandoned @ be_bytes replacement
        | None \<Rightarrow> replicate 17 0)"

definition server_hello_encode_into :: "server_hello \<Rightarrow> bytes \<Rightarrow> handshake_error + bytes \<times> usize" where
  "server_hello_encode_into h buf =
     (if length buf < SERVER_HELLO_LEN then Inl Hs_OutputTooSmall
      else Inr (splice_at 0 (server_hello_bytes h) buf, SERVER_HELLO_LEN))"

definition decode_gap :: "bytes \<Rightarrow> handshake_error + (u64 \<times> u64) option" where
  "decode_gap bs =
     (if bs ! 65 = 0 then
        (if list_ex (\<lambda>b. b \<noteq> 0) (subslice 66 82 bs) then Inl Hs_InvalidGapEpochs else Inr None)
      else if bs ! 65 = 1 then Inr (Some (be_word (subslice 66 74 bs), be_word (subslice 74 82 bs)))
      else Inl (Hs_InvalidGapFlag (bs ! 65)))"

definition server_hello_decode_exact :: "bytes \<Rightarrow> handshake_error + server_hello" where
  "server_hello_decode_exact bs =
     (if length bs \<noteq> SERVER_HELLO_LEN then Inl Hs_InvalidLength
      else
        try_bind (decode_association (subslice 0 16 bs)) (\<lambda>i.
        try_bind (decode_generation (subslice 16 32 bs)) (\<lambda>g.
        try_bind (decode_connection_role (bs ! 32)) (\<lambda>role.
        try_bind (decode_gap bs) (\<lambda>gap.
          server_hello_new
            \<lparr>sh_association_id = i, sh_generation = g, sh_role = role,
             sh_input_epoch = be_word (subslice 33 41 bs), sh_accepted_input_ack = be_word (subslice 41 49 bs),
             sh_output_epoch = be_word (subslice 49 57 bs), sh_next_output = be_word (subslice 57 65 bs),
             sh_pending_gap = gap\<rparr>)))))"

section \<open>The codec laws\<close>

fun hello_ok :: "client_hello \<Rightarrow> bool" where
  "hello_ok (Hello_Initial i g r p t) \<longleftrightarrow>
     identity_ok i \<and> identity_ok g \<and> p = zero_position \<and> length t = 32"
| "hello_ok (Hello_Resume i g r p) \<longleftrightarrow>
     identity_ok i \<and> identity_ok g \<and> rp_delivered_output_ack p \<le> rp_next_output p"

definition server_hello_ok :: "server_hello \<Rightarrow> bool" where
  "server_hello_ok h \<longleftrightarrow> identity_ok (sh_association_id h) \<and> identity_ok (sh_generation h) \<and>
     (case sh_pending_gap h of Some (a, b) \<Rightarrow> a < b | None \<Rightarrow> True)"

lemma length_encode_position [simp]: "length (encode_position p) = 40"
  by (simp add: encode_position_def)

lemma decode_encode_position [simp]: "decode_position (encode_position p) = Inr p"
  by (simp add: decode_position_def encode_position_def layout_simps)

lemma encode_decode_position:
  assumes "decode_position bs = Inr p"
  shows "encode_position p = bs"
proof -
  have "length bs = 40" using assms by (simp add: decode_position_def split: if_splits)
  with assms show ?thesis by (auto simp: decode_position_def encode_position_def subslice_full)
qed

lemma decode_role_iff [simp]: "decode_connection_role b = Inr r \<longleftrightarrow> b = encode_role r"
  by (cases r) (auto simp: decode_connection_role_def)

lemma decode_identity_iff [simp]:
  "decode_association bs = Inr i \<longleftrightarrow> identity_ok bs \<and> i = bs"
  "decode_generation bs = Inr i \<longleftrightarrow> identity_ok bs \<and> i = bs"
  by (auto simp: decode_association_def decode_generation_def identity_ok_def)

lemma position_validate_iff [simp]:
  "position_validate p = Inr q \<longleftrightarrow> rp_delivered_output_ack p \<le> rp_next_output p \<and> q = p"
  by (auto simp: position_validate_def)

lemma zero_position_ok [simp]: "rp_delivered_output_ack zero_position \<le> rp_next_output zero_position"
  by (simp add: zero_position_def)

lemma hello_new_iff [simp]:
  "hello_initial i g r p t = Inr h \<longleftrightarrow> p = zero_position \<and> h = Hello_Initial i g r p t"
  "hello_resume i g r p = Inr h \<longleftrightarrow> rp_delivered_output_ack p \<le> rp_next_output p \<and> h = Hello_Resume i g r p"
  by (auto simp: hello_initial_def hello_resume_def)

lemma hello_decode_bytes: "hello_ok h \<Longrightarrow> hello_decode_exact (hello_bytes h) = Inr h"
  by (cases h) (simp_all add: hello_decode_exact_def hello_bytes_def RESUME_ENCODED_LEN_def
      INITIAL_ENCODED_LEN_def identity_ok_def layout_simps Let_def)

lemma hello_layout:
  assumes "74 \<le> length bs"
  shows "bs = [bs ! 0] @ subslice 1 17 bs @ subslice 17 33 bs @ [bs ! 33] @ subslice 34 74 bs @ subslice 74 (length bs) bs"
proof -
  from assms have "bs \<noteq> []" by auto
  then have "[bs ! 0] = subslice 0 1 bs" "[bs ! 33] = subslice 33 34 bs"
    using assms subslice_one [of 0 bs] subslice_one [of 33 bs] by auto
  then show ?thesis using assms by (simp add: subslice_full)
qed

lemma hello_decode_fields:
  assumes "hello_decode_exact bs = Inr h"
  obtains i g r p where "identity_ok i" "i = subslice 1 17 bs" "identity_ok g" "g = subslice 17 33 bs"
    "bs ! 33 = encode_role r" "encode_position p = subslice 34 74 bs" "rp_delivered_output_ack p \<le> rp_next_output p"
    "bs ! 0 = 1 \<and> p = zero_position \<and> h = Hello_Initial i g r p (subslice 74 106 bs) \<and> length bs = 106 \<or>
     bs ! 0 = 2 \<and> h = Hello_Resume i g r p \<and> length bs = 74"
proof -
  have len: "length bs = (if bs ! 0 = 1 then 106 else 74)" "bs ! 0 = 1 \<or> bs ! 0 = 2"
    using assms by (auto simp: hello_decode_exact_def Let_def RESUME_ENCODED_LEN_def INITIAL_ENCODED_LEN_def
        split: if_splits)
  with assms have "try_bind (decode_association (subslice 1 17 bs)) (\<lambda>i.
       try_bind (decode_generation (subslice 17 33 bs)) (\<lambda>g.
       try_bind (decode_connection_role (bs ! 33)) (\<lambda>role.
       try_bind (decode_position (subslice 34 74 bs)) (\<lambda>p0.
       try_bind (position_validate p0) (\<lambda>p.
         if bs ! 0 = 1 then hello_initial i g role p (subslice 74 106 bs) else hello_resume i g role p))))) = Inr h"
    by (simp add: hello_decode_exact_def Let_def RESUME_ENCODED_LEN_def INITIAL_ENCODED_LEN_def split: if_splits)
  then obtain r p where "identity_ok (subslice 1 17 bs)" "identity_ok (subslice 17 33 bs)"
      "bs ! 33 = encode_role r" "decode_position (subslice 34 74 bs) = Inr p"
      "rp_delivered_output_ack p \<le> rp_next_output p"
      "(if bs ! 0 = 1 then hello_initial (subslice 1 17 bs) (subslice 17 33 bs) r p (subslice 74 106 bs)
        else hello_resume (subslice 1 17 bs) (subslice 17 33 bs) r p) = Inr h"
    by (auto simp del: One_nat_def)
  with that [of "subslice 1 17 bs" "subslice 17 33 bs" r p] len show thesis
    by (auto dest: encode_decode_position split: if_splits)
qed

lemma hello_decode_sound:
  assumes "hello_decode_exact bs = Inr h"
  shows "hello_ok h \<and> bs = hello_bytes h"
  using assms
proof (rule hello_decode_fields)
  fix i g r p
  assume f: "identity_ok i" "i = subslice 1 17 bs" "identity_ok g" "g = subslice 17 33 bs"
    "bs ! 33 = encode_role r" "encode_position p = subslice 34 74 bs" "rp_delivered_output_ack p \<le> rp_next_output p"
    "bs ! 0 = 1 \<and> p = zero_position \<and> h = Hello_Initial i g r p (subslice 74 106 bs) \<and> length bs = 106 \<or>
     bs ! 0 = 2 \<and> h = Hello_Resume i g r p \<and> length bs = 74"
  then have "hello_ok h" by auto
  moreover have "hello_bytes h = [bs ! 0] @ subslice 1 17 bs @ subslice 17 33 bs @ [bs ! 33]
      @ subslice 34 74 bs @ subslice 74 (length bs) bs"
    using f(8) by (elim disjE conjE) (simp_all add: hello_bytes_def f(2,4,5) flip: f(6))
  moreover have "74 \<le> length bs" using f(8) by auto
  ultimately show ?thesis using hello_layout [of bs] by simp
qed

interpretation client_hellos: exact_codec hello_bytes hello_decode_exact hello_ok
  by unfold_locales (auto simp: hello_decode_bytes dest: hello_decode_sound)

lemma list_ex_nonzero: "\<not> list_ex (\<lambda>b. b \<noteq> 0) xs \<longleftrightarrow> xs = replicate (length xs) 0"
  by (induction xs) auto

lemma server_hello_new_iff [simp]:
  "server_hello_new h = Inr h' \<longleftrightarrow>
     (case sh_pending_gap h of Some (a, b) \<Rightarrow> a < b | None \<Rightarrow> True) \<and> h' = h"
  by (auto simp: server_hello_new_def split: option.splits)

lemma list_ex_replicate [simp]: "list_ex P (replicate n x) \<longleftrightarrow> 0 < n \<and> P x"
  by (induction n) auto

lemma subslice_replicate [simp]: "subslice i j (replicate n x) = replicate (min (j - i) (n - i)) x"
  by (simp add: subslice_def min.commute)

lemma decode_server_hello_bytes:
  "server_hello_ok h \<Longrightarrow> server_hello_decode_exact (server_hello_bytes h) = Inr h"
  by (cases h) (auto simp: server_hello_decode_exact_def server_hello_bytes_def SERVER_HELLO_LEN_def
      server_hello_ok_def identity_ok_def layout_simps decode_gap_def split: option.splits)

lemma decode_gap_sound:
  assumes "decode_gap bs = Inr gap" "length bs = 82"
  shows "subslice 65 82 bs = (case gap of
      Some (a, b) \<Rightarrow> [1] @ be_bytes a @ be_bytes b | None \<Rightarrow> replicate 17 0)"
proof -
  have split: "subslice 65 82 bs = [bs ! 65] @ subslice 66 82 bs"
    using assms(2) subslice_one [of 65 bs] subslice_append [of 65 66 82 bs] by simp
  show ?thesis
  proof (cases gap)
    case None
    then have "bs ! 65 = 0" "subslice 66 82 bs = replicate 16 0"
      using assms list_ex_nonzero [of "subslice 66 82 bs"] by (auto simp: decode_gap_def split: if_splits)
    with split None show ?thesis by (simp add: numeral_eq_Suc)
  next
    case (Some g)
    then have "bs ! 65 = 1" "g = (be_word (subslice 66 74 bs), be_word (subslice 74 82 bs))"
      using assms by (auto simp: decode_gap_def split: if_splits)
    with split Some assms(2) show ?thesis by simp
  qed
qed

lemma decode_server_hello_sound:
  assumes "server_hello_decode_exact bs = Inr h"
  shows "server_hello_ok h \<and> bs = server_hello_bytes h"
proof -
  have len: "length bs = 82" using assms by (auto simp: server_hello_decode_exact_def SERVER_HELLO_LEN_def split: if_splits)
  obtain gap where gap: "decode_gap bs = Inr gap" "sh_pending_gap h = gap"
    using assms len by (auto simp: server_hello_decode_exact_def SERVER_HELLO_LEN_def)
  have "server_hello_bytes h = subslice 0 16 bs @ subslice 16 32 bs @ [bs ! 32] @ subslice 33 41 bs @
      subslice 41 49 bs @ subslice 49 57 bs @ subslice 57 65 bs @ subslice 65 82 bs"
    using assms len decode_gap_sound [OF gap(1) len] gap(2)
    by (auto simp: server_hello_decode_exact_def SERVER_HELLO_LEN_def server_hello_bytes_def)
  moreover have "[bs ! 32] = subslice 32 33 bs" using len subslice_one [of 32 bs] by simp
  moreover have "server_hello_ok h"
    using assms len by (auto simp: server_hello_decode_exact_def SERVER_HELLO_LEN_def server_hello_ok_def)
  ultimately show ?thesis using len by (simp add: subslice_full)
qed

interpretation server_hellos: exact_codec server_hello_bytes server_hello_decode_exact server_hello_ok
  by unfold_locales (auto simp: decode_server_hello_bytes dest: decode_server_hello_sound)

lemma length_hello_bytes: "hello_ok h \<Longrightarrow> length (hello_bytes h) = hello_encoded_len h"
  by (cases h) (auto simp: hello_bytes_def hello_encoded_len_def INITIAL_ENCODED_LEN_def RESUME_ENCODED_LEN_def
      identity_ok_def)

lemma length_server_hello_bytes [simp]: "server_hello_ok h \<Longrightarrow> length (server_hello_bytes h) = 82"
  by (auto simp: server_hello_bytes_def server_hello_ok_def identity_ok_def split: option.splits)

text \<open>What a client or gateway accepts as a hello is exactly what its peer can have written: the
  fixed layout of valid identities, a role, a position whose acknowledgement is not ahead, all zero
  on a first contact, and a gap between increasing epochs.\<close>

theorem handshake_codec_exact:
  "(hello_decode_exact bs = Inr h \<longleftrightarrow> hello_ok h \<and> bs = hello_bytes h) \<and>
   (server_hello_decode_exact cs = Inr k \<longleftrightarrow> server_hello_ok k \<and> cs = server_hello_bytes k)"
  by (rule conjI [OF client_hellos.dec_iff server_hellos.dec_iff])

end
