(* ===== verification/Udp_Admission.thy ===== *)
theory Udp_Admission
  imports Udp_Handshake Pty_Frame Ever_Slots
begin

text \<open>
  The one-use invitations of an everudp gateway (\<open>crates/everudp/src/admission.rs\<close>): eight slots
  for invitations that bind a random token to an association, a role, a client key and an expiry,
  and eight slots that remember the digests of consumed tokens. Randomness is an argument: the
  results of the successive fills of a buffer, \<open>None\<close> for a failure. The digest is a parameter.
\<close>

datatype admission_error =
    Ad_InvalidLimits limit_violation | Ad_InvalidSession | Ad_InvalidGeneration | Ad_Randomness
  | Ad_ClockOverflow | Ad_InvitationCapacity | Ad_TokenRejected | Ad_BindingMismatch
  | Ad_InvitationExpired | Ad_TokenReuse

fun generation_generate :: "nat \<Rightarrow> bytes option list \<Rightarrow> admission_error + gateway_generation" where
  "generation_generate (Suc n) (Some bs # fills) =
     (case generation_from_bytes bs of Some g \<Rightarrow> Inr g | None \<Rightarrow> generation_generate n fills)"
| "generation_generate _ _ = Inl Ad_Randomness"

fun generate_token :: "nat \<Rightarrow> bytes option list \<Rightarrow> admission_error + secret_token" where
  "generate_token (Suc n) (Some bs # fills) =
     (if bs \<noteq> replicate 32 0 then Inr bs else generate_token n fills)"
| "generate_token _ _ = Inl Ad_Randomness"

record invitation =
  iv_token :: secret_token
  iv_association_id :: association_id
  iv_role :: connection_role
  iv_client_spki :: bytes
  iv_take_over :: bool
  iv_expires_at_ms :: u64

record consumed_invitation =
  ci_token_sha256 :: bytes
  ci_expires_at_ms :: u64

record invitation_store =
  is_session :: bytes
  is_generation :: gateway_generation
  is_lifetime_ms :: u64
  is_invitations :: "invitation option list"
  is_consumed :: "consumed_invitation option list"

definition store_new :: "bytes \<Rightarrow> gateway_generation \<Rightarrow> udp_limits \<Rightarrow> admission_error + invitation_store" where
  "store_new session generation limits =
     (case udp_limits_validate limits of
        Inl v \<Rightarrow> Inl (Ad_InvalidLimits v)
      | Inr _ \<Rightarrow>
          if \<not> validate_name session default_pty_limits then Inl Ad_InvalidSession
          else Inr \<lparr>is_session = session, is_generation = generation,
                    is_lifetime_ms = invitation_lifetime_ms limits,
                    is_invitations = replicate 8 None, is_consumed = replicate 8 None\<rparr>)"

definition expire_entries :: "('a \<Rightarrow> u64) \<Rightarrow> u64 \<Rightarrow> 'a option list \<Rightarrow> 'a option list" where
  "expire_entries expires now =
     map (\<lambda>entry. case entry of Some x \<Rightarrow> if expires x \<le> now then None else Some x | None \<Rightarrow> None)"

definition expire_consumed_before :: "invitation_store \<Rightarrow> u64 \<Rightarrow> invitation_store" where
  "expire_consumed_before s now = s\<lparr>is_consumed := expire_entries ci_expires_at_ms now (is_consumed s)\<rparr>"

definition expire_before :: "invitation_store \<Rightarrow> u64 \<Rightarrow> invitation_store" where
  "expire_before s now =
     expire_consumed_before (s\<lparr>is_invitations := expire_entries iv_expires_at_ms now (is_invitations s)\<rparr>) now"

definition issue_with_takeover ::
  "invitation_store \<Rightarrow> association_id \<Rightarrow> connection_role \<Rightarrow> bytes \<Rightarrow> bool \<Rightarrow> u64 \<Rightarrow> bytes option list \<Rightarrow>
   invitation_store \<times> (admission_error + invitation)" where
  "issue_with_takeover s i role spki take_over now fills =
     (if take_over \<and> role \<noteq> Connection_Writer then (s, Inl Ad_BindingMismatch)
      else let s1 = expire_before s now in
        case position (\<lambda>entry. entry = None) (is_invitations s1) of
          None \<Rightarrow> (s1, Inl Ad_InvitationCapacity)
        | Some slot \<Rightarrow>
            (case checked_add now (is_lifetime_ms s1) of
               None \<Rightarrow> (s1, Inl Ad_ClockOverflow)
             | Some expires \<Rightarrow>
                 (case generate_token 4 fills of
                    Inl e \<Rightarrow> (s1, Inl e)
                  | Inr token \<Rightarrow>
                      let ticket = \<lparr>iv_token = token, iv_association_id = i, iv_role = role,
                        iv_client_spki = spki, iv_take_over = take_over, iv_expires_at_ms = expires\<rparr>
                      in (s1\<lparr>is_invitations := (is_invitations s1)[slot := Some ticket]\<rparr>, Inr ticket))))"

definition issue ::
  "invitation_store \<Rightarrow> association_id \<Rightarrow> connection_role \<Rightarrow> bytes \<Rightarrow> u64 \<Rightarrow> bytes option list \<Rightarrow>
   invitation_store \<times> (admission_error + invitation)" where
  "issue s i role spki now fills = issue_with_takeover s i role spki False now fills"

text \<open>The loop over the slots keeps the last match.\<close>

fun last_match :: "('a \<Rightarrow> bool) \<Rightarrow> 'a option list \<Rightarrow> usize \<Rightarrow> usize option \<Rightarrow> usize option" where
  "last_match p [] k found = found"
| "last_match p (x # xs) k found =
     last_match p xs (Suc k) (case x of Some y \<Rightarrow> if p y then Some k else found | None \<Rightarrow> found)"

text \<open>\<open>min_by_key\<close> returns the first minimal element.\<close>

fun min_position :: "u64 list \<Rightarrow> usize option" where
  "min_position [] = None"
| "min_position (x # xs) =
     (case min_position xs of
        None \<Rightarrow> Some 0
      | Some k \<Rightarrow> if x \<le> xs ! k then Some 0 else Some (Suc k))"

definition consumed_slot :: "consumed_invitation option list \<Rightarrow> usize option" where
  "consumed_slot entries =
     (case position (\<lambda>entry. entry = None) entries of
        Some k \<Rightarrow> Some k
      | None \<Rightarrow> min_position (map (\<lambda>entry. case entry of Some c \<Rightarrow> ci_expires_at_ms c | None \<Rightarrow> 0) entries))"

definition remember_consumed :: "invitation_store \<Rightarrow> bytes \<Rightarrow> u64 \<Rightarrow> invitation_store" where
  "remember_consumed s sha expires =
     (case consumed_slot (is_consumed s) of
        Some slot \<Rightarrow> s\<lparr>is_consumed := (is_consumed s)[slot :=
            Some \<lparr>ci_token_sha256 = sha, ci_expires_at_ms = expires\<rparr>]\<rparr>
      | None \<Rightarrow> s)"

definition is_consumed_token :: "invitation_store \<Rightarrow> u64 \<Rightarrow> bytes \<Rightarrow> bool" where
  "is_consumed_token s now sha \<longleftrightarrow>
     list_ex (\<lambda>entry. case entry of
         Some c \<Rightarrow> ci_expires_at_ms c > now \<and> ci_token_sha256 c = sha | None \<Rightarrow> False) (is_consumed s)"

definition claim ::
  "(bytes \<Rightarrow> bytes) \<Rightarrow> invitation_store \<Rightarrow> bytes \<Rightarrow> association_id \<Rightarrow> bytes \<Rightarrow> gateway_generation \<Rightarrow>
   connection_role \<Rightarrow> bytes \<Rightarrow> u64 \<Rightarrow> invitation_store \<times> (admission_error + bool)" where
  "claim sha256 s token i session generation role spki now =
     (if length token \<noteq> 32 then (s, Inl Ad_TokenRejected)
      else let s1 = expire_consumed_before s now; digest = sha256 token in
        if is_consumed_token s1 now digest then (s1, Inl Ad_TokenReuse)
        else case last_match (\<lambda>entry. iv_token entry = token) (is_invitations s1) 0 None of
          None \<Rightarrow> (s1, Inl Ad_TokenRejected)
        | Some slot \<Rightarrow>
            (case is_invitations s1 ! slot of
               None \<Rightarrow> (s1, Inl Ad_TokenRejected)
             | Some entry \<Rightarrow>
                 if now \<ge> iv_expires_at_ms entry then
                   (s1\<lparr>is_invitations := (is_invitations s1)[slot := None]\<rparr>, Inl Ad_InvitationExpired)
                 else if iv_association_id entry \<noteq> i \<or> is_session s1 \<noteq> session
                     \<or> is_generation s1 \<noteq> generation \<or> iv_role entry \<noteq> role \<or> iv_client_spki entry \<noteq> spki
                 then (s1, Inl Ad_BindingMismatch)
                 else
                   (remember_consumed (s1\<lparr>is_invitations := (is_invitations s1)[slot := None]\<rparr>)
                      digest (iv_expires_at_ms entry),
                    Inr (iv_take_over entry))))"

section \<open>Slots\<close>

text \<open>The two \<open>expect\<close>s of the source cannot fail: a match is an occupied slot, and eight slots always
  have a position to remember a token in.\<close>

lemma min_position_Some: "xs \<noteq> [] \<Longrightarrow> \<exists>k < length xs. min_position xs = Some k"
  by (induction xs) (fastforce split: option.splits)+

lemma last_match_Some:
  "last_match p xs k found = Some j \<Longrightarrow>
     found = Some j \<or> k \<le> j \<and> j < k + length xs \<and> (\<exists>y. xs ! (j - k) = Some y \<and> p y)"
proof (induction xs arbitrary: k found)
  case (Cons x xs)
  from Cons.IH [OF Cons.prems [simplified]] show ?case
    by (auto simp: nth_Cons' split: option.splits if_splits)
qed simp

lemma last_match_0:
  assumes "last_match p xs 0 None = Some j"
  shows "j < length xs \<and> (\<exists>y. xs ! j = Some y \<and> p y)"
  using last_match_Some [OF assms] by simp

lemma stock_of_expire: "stock_of (expire_entries f now xs) \<subseteq># stock_of xs"
  by (induction xs) (auto simp: expire_entries_def stock_of_Cons split: option.splits
    intro: subset_mset.order_trans)

section \<open>Histories\<close>

datatype admission_event =
    Adm_Issue association_id connection_role bytes bool u64 "bytes option list"
  | Adm_Claim bytes association_id bytes gateway_generation connection_role bytes u64

datatype admission_out =
    Adm_Issued invitation
  | Adm_Claimed bytes association_id bytes gateway_generation connection_role bytes bool u64

text \<open>A claimed invitation as the claimant sees it: everything but the expiry.\<close>

type_synonym binding = "secret_token \<times> association_id \<times> connection_role \<times> bytes \<times> bool"

definition invitation_binding :: "invitation \<Rightarrow> binding" where
  "invitation_binding v = (iv_token v, iv_association_id v, iv_role v, iv_client_spki v, iv_take_over v)"

fun admission_step ::
  "(bytes \<Rightarrow> bytes) \<Rightarrow> invitation_store \<Rightarrow> admission_event \<Rightarrow> invitation_store \<times> admission_out list" where
  "admission_step sha256 s (Adm_Issue i role spki take_over now fills) =
     (case issue_with_takeover s i role spki take_over now fills of
        (s', Inr ticket) \<Rightarrow> (s', [Adm_Issued ticket]) | (s', Inl _) \<Rightarrow> (s', []))"
| "admission_step sha256 s (Adm_Claim token i session generation role spki now) =
     (case claim sha256 s token i session generation role spki now of
        (s', Inr take_over) \<Rightarrow> (s', [Adm_Claimed token i session generation role spki take_over now])
      | (s', Inl _) \<Rightarrow> (s', []))"

fun issued_bindings :: "admission_out list \<Rightarrow> binding multiset" where
  "issued_bindings [] = {#}"
| "issued_bindings (Adm_Issued v # outs) = add_mset (invitation_binding v) (issued_bindings outs)"
| "issued_bindings (_ # outs) = issued_bindings outs"

fun claimed_bindings :: "admission_out list \<Rightarrow> binding multiset" where
  "claimed_bindings [] = {#}"
| "claimed_bindings (Adm_Claimed token i _ _ role spki take_over _ # outs) =
     add_mset (token, i, role, spki, take_over) (claimed_bindings outs)"
| "claimed_bindings (_ # outs) = claimed_bindings outs"

lemma bindings_append [simp]:
  "issued_bindings (xs @ ys) = issued_bindings xs + issued_bindings ys"
  "claimed_bindings (xs @ ys) = claimed_bindings xs + claimed_bindings ys"
  by (induction xs rule: issued_bindings.induct) auto

definition open_bindings :: "invitation_store \<Rightarrow> binding multiset" where
  "open_bindings s = image_mset invitation_binding (stock_of (is_invitations s))"

definition same_store :: "bytes \<Rightarrow> gateway_generation \<Rightarrow> invitation_store \<Rightarrow> bool" where
  "same_store session generation s \<longleftrightarrow>
     is_session s = session \<and> is_generation s = generation \<and> length (is_consumed s) = 8"

lemma expire_fields [simp]:
  "is_session (expire_before s now) = is_session s" "is_generation (expire_before s now) = is_generation s"
  "is_invitations (expire_consumed_before s now) = is_invitations s"
  "is_session (expire_consumed_before s now) = is_session s"
  "is_generation (expire_consumed_before s now) = is_generation s"
  "is_invitations (expire_before s now) = expire_entries iv_expires_at_ms now (is_invitations s)"
  "length (is_consumed (expire_consumed_before s now)) = length (is_consumed s)"
  "length (is_consumed (expire_before s now)) = length (is_consumed s)"
  by (simp_all add: expire_before_def expire_consumed_before_def expire_entries_def)

lemma remember_fields [simp]:
  "is_session (remember_consumed s d t) = is_session s" "is_generation (remember_consumed s d t) = is_generation s"
  "is_invitations (remember_consumed s d t) = is_invitations s"
  "length (is_consumed (remember_consumed s d t)) = length (is_consumed s)"
  by (simp_all add: remember_consumed_def split: option.split)

lemma issue_same:
  "same_store session generation (fst (issue_with_takeover s i role spki t now fills)) \<longleftrightarrow> same_store session generation s"
  by (auto simp: issue_with_takeover_def same_store_def Let_def split: option.split sum.split)

lemma claim_same:
  "same_store session generation (fst (claim sha s token i se g role spki now)) \<longleftrightarrow> same_store session generation s"
  by (auto simp: claim_def same_store_def Let_def split: option.split)

interpretation admissions: event_machine "admission_step sha256" "same_store session generation"
  for sha256 session generation
proof
  fix s e assume "same_store session generation s"
  then show "same_store session generation (fst (admission_step sha256 s e))"
    using issue_same [of session generation s] claim_same [of session generation sha256 s]
    by (cases e) (auto split: prod.splits sum.splits; metis fst_conv)+
qed

lemma open_expire: "is_invitations s' = expire_entries f now (is_invitations s) \<Longrightarrow> open_bindings s' \<subseteq># open_bindings s"
  by (simp add: open_bindings_def stock_of_expire image_mset_subseteq_mono)

lemma issue_account:
  assumes "issue_with_takeover s i role spki t now fills = (s', res)"
  shows "open_bindings s' \<subseteq># open_bindings s + (case res of Inr v \<Rightarrow> {#invitation_binding v#} | Inl _ \<Rightarrow> {#})"
proof -
  define s1 where "s1 = expire_before s now"
  have s1: "open_bindings s1 \<subseteq># open_bindings s" by (rule open_expire) (simp add: s1_def)
  consider "s' = s" "isl res" | "s' = s1" "isl res"
    | slot v where "position (\<lambda>entry. entry = None) (is_invitations s1) = Some slot" "res = Inr v"
        "s' = s1\<lparr>is_invitations := (is_invitations s1)[slot := Some v]\<rparr>"
    using assms by (fastforce simp: issue_with_takeover_def Let_def s1_def split: if_splits option.splits sum.splits)
  then show ?thesis
  proof cases
    case (3 slot v)
    then have "open_bindings s' = add_mset (invitation_binding v) (open_bindings s1)"
      by (auto simp: open_bindings_def stock_of_put dest: position_Some)
    with s1 3 show ?thesis by simp
  qed (use s1 in \<open>auto split: sum.splits\<close>)
qed

lemma claim_Inr:
  assumes "claim sha256 s token i session generation role spki now = (s', Inr take_over)"
  obtains slot v where "slot < length (is_invitations s)" "is_invitations s ! slot = Some v"
    "invitation_binding v = (token, i, role, spki, take_over)" "now < iv_expires_at_ms v"
    "is_session s = session" "is_generation s = generation" "is_invitations s' = (is_invitations s)[slot := None]"
    "is_consumed s' = is_consumed (remember_consumed (expire_consumed_before s now) (sha256 token) (iv_expires_at_ms v))"
    "length token = 32"
proof -
  obtain slot v where v: "last_match (\<lambda>entry. iv_token entry = token) (is_invitations s) 0 None = Some slot"
      "is_invitations s ! slot = Some v" "\<not> iv_expires_at_ms v \<le> now" "length token = 32"
      "iv_association_id v = i" "is_session s = session" "is_generation s = generation" "iv_role v = role"
      "iv_client_spki v = spki" "iv_take_over v = take_over"
      "s' = remember_consumed ((expire_consumed_before s now)\<lparr>is_invitations := (is_invitations s)[slot := None]\<rparr>)
        (sha256 token) (iv_expires_at_ms v)"
    using assms by (auto simp: claim_def Let_def split: if_splits option.splits)
  have "iv_token v = token" "slot < length (is_invitations s)" using last_match_0 [OF v(1)] v(2) by auto
  moreover have "is_consumed s' = is_consumed (remember_consumed (expire_consumed_before s now) (sha256 token) (iv_expires_at_ms v))"
    unfolding v(11) by (simp add: remember_consumed_def split: option.split)
  ultimately show thesis using that [of slot v] v by (auto simp: invitation_binding_def)
qed

lemma open_take:
  assumes "slot < length (is_invitations s)" "is_invitations s ! slot = Some v"
    "is_invitations s' = (is_invitations s)[slot := None]"
  shows "open_bindings s = add_mset (invitation_binding v) (open_bindings s')"
  unfolding open_bindings_def assms(3) by (metis stock_of_take [OF assms(1,2)] image_mset_add_mset)

lemma claim_account:
  assumes "claim sha256 s token i session generation role spki now = (s', res)"
  shows "(case res of Inr t \<Rightarrow> {#(token, i, role, spki, t)#} | Inl _ \<Rightarrow> {#}) + open_bindings s' \<subseteq># open_bindings s"
proof (cases res)
  case (Inl e)
  have "open_bindings s' \<subseteq># open_bindings s"
  proof -
    have same: ?thesis if "is_invitations s' = is_invitations s" using that Inl by (simp add: open_bindings_def)
    consider "is_invitations s' = is_invitations s"
      | slot v where "is_invitations s ! slot = Some v" "is_invitations s' = (is_invitations s)[slot := None]"
          "slot < length (is_invitations s)"
      using assms Inl by (fastforce simp: claim_def Let_def dest: last_match_0 split: if_splits option.splits)
    then show ?thesis
    proof cases
      case 2
      then show ?thesis using open_take [OF 2(3,1,2)] by simp
    qed (simp add: open_bindings_def)
  qed
  with Inl show ?thesis by simp
next
  case (Inr t)
  from claim_Inr [OF assms [unfolded Inr]] obtain slot v where
    v: "slot < length (is_invitations s)" "is_invitations s ! slot = Some v"
      "invitation_binding v = (token, i, role, spki, t)" "is_invitations s' = (is_invitations s)[slot := None]"
    by metis
  from open_take [OF v(1,2,4)] v(3) Inr show ?thesis by simp
qed

lemma admission_account:
  "claimed_bindings (snd (admission_step sha256 s e)) + open_bindings (fst (admission_step sha256 s e))
     \<subseteq># open_bindings s + issued_bindings (snd (admission_step sha256 s e))"
proof (cases e)
  case (Adm_Issue i role spki t now fills)
  show ?thesis
    using issue_account [of s i role spki t now fills] unfolding Adm_Issue
    by (cases "issue_with_takeover s i role spki t now fills") (auto split: sum.splits)
next
  case (Adm_Claim token i session g role spki now)
  show ?thesis
    using claim_account [of sha256 s token i session g role spki now] unfolding Adm_Claim
    by (cases "claim sha256 s token i session g role spki now") (auto split: sum.splits)
qed

fun claim_valid :: "bytes \<Rightarrow> gateway_generation \<Rightarrow> admission_out \<Rightarrow> bool" where
  "claim_valid session generation (Adm_Claimed _ _ se g _ _ _ _) \<longleftrightarrow> se = session \<and> g = generation"
| "claim_valid session generation (Adm_Issued _) \<longleftrightarrow> True"

text \<open>C22: an invitation admits once, and only what it names. Whatever tokens are presented in whatever
  order, the successful claims are, counted with multiplicity, among the invitations issued, with the
  same token, association, role, client key and takeover right, in the store's own session and
  generation.\<close>

theorem invitations_admit_once:
  "case store_new session generation limits of
     Inl e \<Rightarrow> True
   | Inr s0 \<Rightarrow>
       let outs = snd (run_events (admission_step sha256) s0 events)
       in claimed_bindings outs \<subseteq># issued_bindings outs \<and> list_all (claim_valid session generation) outs"
proof (cases "store_new session generation limits")
  case (Inr s0)
  then have s0: "same_store session generation s0" "open_bindings s0 = {#}"
    by (auto simp: store_new_def same_store_def open_bindings_def split: sum.splits if_splits)
  have "list_all (claim_valid session generation) (snd (admission_step sha256 s e))"
    if "same_store session generation s" for s e
    using that by (cases e) (auto simp: same_store_def split: prod.split sum.split elim!: claim_Inr)
  from admissions.run_outputs [OF this s0(1)] Inr s0
    admissions.run_account [of session generation claimed_bindings sha256 open_bindings issued_bindings,
      OF admission_account _ _ _ _ s0(1), of events]
  show ?thesis by (auto simp: Let_def dest: mset_subset_eq_add_left [THEN subset_mset.order_trans])
qed simp

lemma consumed_slot_Some: "entries \<noteq> [] \<Longrightarrow> \<exists>k < length entries. consumed_slot entries = Some k"
  using min_position_Some [of "map (\<lambda>entry. case entry of Some c \<Rightarrow> ci_expires_at_ms c | None \<Rightarrow> 0) entries"]
  by (auto simp: consumed_slot_def split: option.split dest: position_Some)

lemma remembered_is_consumed:
  assumes "is_consumed s \<noteq> []" "now < t"
  shows "is_consumed_token (remember_consumed s d t) now d"
proof -
  obtain k where "k < length (is_consumed s)" "consumed_slot (is_consumed s) = Some k"
    using consumed_slot_Some assms(1) by blast
  with assms(2) show ?thesis
    by (auto simp: remember_consumed_def is_consumed_token_def list_ex_iff set_update_memI intro!: bexI
        [of _ "Some \<lparr>ci_token_sha256 = d, ci_expires_at_ms = t\<rparr>"])
qed

lemma is_consumed_token_cong: "is_consumed s = is_consumed s' \<Longrightarrow> is_consumed_token s now d = is_consumed_token s' now d"
  by (simp add: is_consumed_token_def)

lemma expire_keeps_consumed: "is_consumed_token s now d \<Longrightarrow> is_consumed_token (expire_consumed_before s now) now d"
  by (auto simp: is_consumed_token_def expire_consumed_before_def expire_entries_def list_ex_iff split: option.splits
      intro!: bexI rev_image_eqI)

lemma claim_Inl:
  "claim sha256 s token i session generation role spki now = (s', Inl e) \<Longrightarrow>
     e = Ad_InvitationExpired \<or> is_invitations s' = is_invitations s"
  by (auto simp: claim_def Let_def split: if_splits option.splits)

text \<open>A failed claim consumes nothing. Unless the invitation has expired, a claim that is refused
  leaves every invitation in its slot; and once a claim succeeded, presenting the token
  again, whatever else is presented with it, is reported as a reuse.\<close>

theorem refused_claims_consume_nothing:
  "case store_new session generation limits of
     Inl e \<Rightarrow> True
   | Inr s0 \<Rightarrow>
       let s = fst (run_events (admission_step sha256) s0 events)
       in case claim sha256 s token i se g role spki now of
            (s', Inl e) \<Rightarrow> e = Ad_InvitationExpired \<or> is_invitations s' = is_invitations s
          | (s', Inr _) \<Rightarrow> snd (claim sha256 s' token i2 se2 g2 role2 spki2 now) = Inl Ad_TokenReuse"
proof (cases "store_new session generation limits")
  case (Inr s0)
  define s where "s = fst (run_events (admission_step sha256) s0 events)"
  from Inr have "same_store session generation s0"
    by (auto simp: store_new_def same_store_def split: sum.splits if_splits)
  from admissions.run_inv [OF this] have inv: "same_store session generation s" by (simp add: s_def)
  obtain s' res where c: "claim sha256 s token i se g role spki now = (s', res)" by force
  have "snd (claim sha256 s' token i2 se2 g2 role2 spki2 now) = Inl Ad_TokenReuse" if res: "res = Inr t" for t
  proof -
    obtain v :: invitation where v: "now < iv_expires_at_ms v" "length token = 32"
        "is_consumed s' = is_consumed (remember_consumed (expire_consumed_before s now) (sha256 token) (iv_expires_at_ms v))"
      by (rule claim_Inr [OF c [unfolded res]]) blast
    have "is_consumed (expire_consumed_before s now) \<noteq> []" using inv by (simp add: same_store_def flip: length_0_conv)
    from remembered_is_consumed [OF this v(1)] have "is_consumed_token s' now (sha256 token)"
      using is_consumed_token_cong [OF v(3)] by simp
    from expire_keeps_consumed [OF this] v(2) show ?thesis by (simp add: claim_def Let_def)
  qed
  moreover have "e = Ad_InvitationExpired \<or> is_invitations s' = is_invitations s" if "res = Inl e" for e
    using c that by (auto dest: claim_Inl)
  ultimately show ?thesis using Inr c by (auto simp: Let_def simp flip: s_def split: sum.split)
qed simp

end
