(* ===== verification/Udp_Gateway.thy ===== *)
theory Udp_Gateway
  imports Udp_Handshake Ever_Slots
begin

text \<open>
  The private control requests and the ownership life cycle of an everudp gateway
  (\<open>crates/everudp/src/gateway.rs\<close>). \<open>GatewayLifecycle\<close> holds ten writer slots and nine observer
  slots, one of each reserved for a candidate that is still in its handshake; admission never evicts a
  member. A connection is admitted from what its authentication established: the hello, the
  client's key digest and the takeover right of its invitation.
\<close>

section \<open>Control requests\<close>

text \<open>The errors of the control socket are never produced by the operations modelled here; the
  foreign errors they wrap are left out.\<close>

datatype gateway_error =
    Gw_Everpty | Gw_Io | Gw_PeerIo | Gw_Bootstrap | Gw_Timeout | Gw_PeerUidMismatch
  | Gw_ControlMalformed | Gw_InvitationStoreUnavailable | Gw_GenerationMismatch
  | Gw_WriterBusy | Gw_ObserverCapacity | Gw_InvalidTakeover | Gw_Terminal

record control_request =
  cr_association_id :: association_id
  cr_role :: connection_role
  cr_client_spki :: bytes
  cr_take_over :: bool

definition CONTROL_MAGIC :: bytes where "CONTROL_MAGIC = [0x45, 0x55, 0x47, 0x31]"
definition CONTROL_REQUEST_LEN :: usize where "CONTROL_REQUEST_LEN = 55"

definition control_request_encode :: "control_request \<Rightarrow> bytes" where
  "control_request_encode r =
     CONTROL_MAGIC @ [1] @ cr_association_id r
     @ [case cr_role r of Connection_Writer \<Rightarrow> 1 | Connection_Observer \<Rightarrow> 2]
     @ [if cr_take_over r then 1 else 0] @ cr_client_spki r"

definition control_request_decode_exact :: "bytes \<Rightarrow> gateway_error + control_request" where
  "control_request_decode_exact bs =
     (if length bs \<noteq> CONTROL_REQUEST_LEN \<or> subslice 0 4 bs \<noteq> CONTROL_MAGIC \<or> bs ! 4 \<noteq> 1
      then Inl Gw_ControlMalformed
      else
        try_bind (ok_or Gw_ControlMalformed (association_from_bytes (subslice 5 21 bs))) (\<lambda>i.
        try_bind (if bs ! 21 = 1 then Inr Connection_Writer
                  else if bs ! 21 = 2 then Inr Connection_Observer else Inl Gw_ControlMalformed) (\<lambda>role.
        try_bind (if bs ! 22 = 0 then Inr False
                  else if bs ! 22 = 1 \<and> role = Connection_Writer then Inr True
                  else Inl Gw_ControlMalformed) (\<lambda>take_over.
          Inr \<lparr>cr_association_id = i, cr_role = role, cr_client_spki = subslice 23 55 bs,
               cr_take_over = take_over\<rparr>))))"

definition control_request_ok :: "control_request \<Rightarrow> bool" where
  "control_request_ok r \<longleftrightarrow> identity_ok (cr_association_id r) \<and> length (cr_client_spki r) = 32 \<and>
     \<not> (cr_take_over r \<and> cr_role r \<noteq> Connection_Writer)"

lemma control_request_layout:
  assumes "length bs = 55"
  shows "bs = subslice 0 4 bs @ [bs ! 4] @ subslice 5 21 bs @ [bs ! 21] @ [bs ! 22] @ subslice 23 55 bs"
proof -
  have "[bs ! 4] = subslice 4 5 bs" "[bs ! 21] = subslice 21 22 bs" "[bs ! 22] = subslice 22 23 bs"
    using assms subslice_one [of 4 bs] subslice_one [of 21 bs] subslice_one [of 22 bs] by simp_all
  with assms show ?thesis by (simp add: subslice_full)
qed

interpretation control_requests: exact_codec control_request_encode control_request_decode_exact control_request_ok
proof
  fix r assume "control_request_ok r"
  then show "control_request_decode_exact (control_request_encode r) = Inr r"
    by (cases r; cases "cr_role r")
      (auto simp: control_request_ok_def control_request_encode_def control_request_decode_exact_def
        CONTROL_REQUEST_LEN_def CONTROL_MAGIC_def identity_ok_def layout_simps)
next
  fix bs r assume dec: "control_request_decode_exact bs = Inr r"
  then have len: "length bs = 55" "subslice 0 4 bs = CONTROL_MAGIC" "bs ! 4 = 1"
    by (auto simp: control_request_decode_exact_def CONTROL_REQUEST_LEN_def split: if_splits)
  have "control_request_ok r" "control_request_encode r =
      subslice 0 4 bs @ [bs ! 4] @ subslice 5 21 bs @ [bs ! 21] @ [bs ! 22] @ subslice 23 55 bs"
    using dec len by (auto simp: control_request_decode_exact_def control_request_ok_def control_request_encode_def
        CONTROL_REQUEST_LEN_def identity_ok_def split: if_splits)
  with control_request_layout [OF len(1)] show "control_request_ok r \<and> bs = control_request_encode r" by simp
qed

section \<open>The ownership life cycle\<close>

record admitted_connection =
  ad_hello :: client_hello
  ad_client_spki :: bytes
  ad_take_over :: bool

datatype gateway_action =
    CommitEverptyWriter | WriterResumed | WriterAdded | ObserverAdded | ObserverResumed
  | TransferWriter association_id association_id

datatype gateway_terminal = PtyExited "32 word" | Gateway_Killed

record gateway_lifecycle =
  gl_writers :: "association_id option list"
  gl_writer_committed :: bool
  gl_observers :: "association_id option list"
  gl_max_observers :: usize
  gl_terminal :: "gateway_terminal option"

definition lifecycle_new :: "udp_limits \<Rightarrow> gateway_error + gateway_lifecycle" where
  "lifecycle_new limits =
     (case udp_limits_validate limits of
        Inl _ \<Rightarrow> Inl Gw_ControlMalformed
      | Inr _ \<Rightarrow> Inr \<lparr>gl_writers = replicate 10 None, gl_writer_committed = False,
          gl_observers = replicate 9 None, gl_max_observers = max_observers limits, gl_terminal = None\<rparr>)"

definition is_terminal :: "gateway_lifecycle \<Rightarrow> bool" where
  "is_terminal g \<longleftrightarrow> gl_terminal g \<noteq> None"

definition admit_capacity ::
  "gateway_lifecycle \<Rightarrow> association_id \<Rightarrow> connection_role \<Rightarrow> bool \<Rightarrow> bool \<Rightarrow>
   gateway_lifecycle \<times> (gateway_error + gateway_action)" where
  "admit_capacity g i role take_over staged =
     (if gl_terminal g \<noteq> None then (g, Inl Gw_Terminal)
      else case role of
        Connection_Writer \<Rightarrow>
          if Some i \<in> set (gl_writers g) then (g, Inr WriterResumed)
          else if occupied (gl_writers g) + occupied (gl_observers g) \<ge> 9 + (if staged then 1 else 0)
          then (g, Inl Gw_ObserverCapacity)
          else
            let first = list_all (\<lambda>s. s = None) (gl_writers g)
            in (case position (\<lambda>s. s = None) (gl_writers g) of
                  None \<Rightarrow> (g, Inl Gw_ObserverCapacity)
                | Some k \<Rightarrow>
                    (g\<lparr>gl_writers := (gl_writers g)[k := Some i], gl_writer_committed := True\<rparr>,
                     Inr (if first then CommitEverptyWriter else WriterAdded)))
      | Connection_Observer \<Rightarrow>
          if take_over then (g, Inl Gw_InvalidTakeover)
          else if Some i \<in> set (gl_observers g) then (g, Inr ObserverResumed)
          else if occupied (gl_writers g) + occupied (gl_observers g) \<ge> 9 + (if staged then 1 else 0)
          then (g, Inl Gw_ObserverCapacity)
          else (case position (\<lambda>s. s = None)
                       (take (gl_max_observers g + (if staged then 1 else 0)) (gl_observers g)) of
                  None \<Rightarrow> (g, Inl Gw_ObserverCapacity)
                | Some k \<Rightarrow> (g\<lparr>gl_observers := (gl_observers g)[k := Some i]\<rparr>, Inr ObserverAdded)))"

definition admit_identity ::
  "gateway_lifecycle \<Rightarrow> association_id \<Rightarrow> connection_role \<Rightarrow> bool \<Rightarrow>
   gateway_lifecycle \<times> (gateway_error + gateway_action)" where
  "admit_identity g i role take_over = admit_capacity g i role take_over False"

definition admit ::
  "gateway_lifecycle \<Rightarrow> admitted_connection \<Rightarrow> bool \<Rightarrow> gateway_lifecycle \<times> (gateway_error + gateway_action)" where
  "admit g c take_over =
     admit_identity g (hello_association_id (ad_hello c)) (hello_role (ad_hello c)) take_over"

definition admit_staged ::
  "gateway_lifecycle \<Rightarrow> admitted_connection \<Rightarrow> gateway_lifecycle \<times> (gateway_error + gateway_action)" where
  "admit_staged g c =
     admit_capacity g (hello_association_id (ad_hello c)) (hello_role (ad_hello c)) (ad_take_over c) True"

definition pty_exited :: "gateway_lifecycle \<Rightarrow> 32 word \<Rightarrow> gateway_lifecycle" where
  "pty_exited g status = g\<lparr>gl_terminal := Some (PtyExited status)\<rparr>"

definition gateway_kill :: "gateway_lifecycle \<Rightarrow> gateway_lifecycle" where
  "gateway_kill g = g\<lparr>gl_terminal := Some Gateway_Killed\<rparr>"

definition lifecycle_release ::
  "gateway_lifecycle \<Rightarrow> association_id \<Rightarrow> gateway_lifecycle \<times> connection_role option" where
  "lifecycle_release g i =
     (case position (\<lambda>s. s = Some i) (gl_writers g) of
        Some k \<Rightarrow> (g\<lparr>gl_writers := (gl_writers g)[k := None]\<rparr>, Some Connection_Writer)
      | None \<Rightarrow>
          (case position (\<lambda>s. s = Some i) (gl_observers g) of
             Some k \<Rightarrow> (g\<lparr>gl_observers := (gl_observers g)[k := None]\<rparr>, Some Connection_Observer)
           | None \<Rightarrow> (g, None)))"

section \<open>Membership\<close>

text \<open>The members of the gateway, by role.\<close>

definition gateway_members :: "gateway_lifecycle \<Rightarrow> connection_role \<Rightarrow> association_id multiset" where
  "gateway_members g role =
     stock_of (case role of Connection_Writer \<Rightarrow> gl_writers g | Connection_Observer \<Rightarrow> gl_observers g)"

definition lifecycle_inv :: "gateway_lifecycle \<Rightarrow> bool" where
  "lifecycle_inv g \<longleftrightarrow>
     length (gl_writers g) = 10 \<and> length (gl_observers g) = 9 \<and> gl_max_observers g = 8 \<and>
     once (stock_of (gl_writers g)) \<and> once (stock_of (gl_observers g)) \<and>
     occupied (gl_writers g) + occupied (gl_observers g) \<le> 10 \<and>
     (gl_writer_committed g \<or> occupied (gl_writers g) = 0)"

datatype lifecycle_event =
    Lc_Admit association_id connection_role bool bool
  | Lc_Release association_id
  | Lc_Exited "32 word"
  | Lc_Kill

fun lifecycle_step ::
  "gateway_lifecycle \<Rightarrow> lifecycle_event \<Rightarrow> gateway_lifecycle \<times> (gateway_error + gateway_action) list" where
  "lifecycle_step g (Lc_Admit i role take_over staged) =
     (case admit_capacity g i role take_over staged of (g', res) \<Rightarrow> (g', [res]))"
| "lifecycle_step g (Lc_Release i) = (fst (lifecycle_release g i), [])"
| "lifecycle_step g (Lc_Exited status) = (pty_exited g status, [])"
| "lifecycle_step g Lc_Kill = (gateway_kill g, [])"

lemma admit_capacity_cases:
  obtains (refused) e where "admit_capacity g i role t staged = (g, Inl e)"
  | (resumed) a where "admit_capacity g i role t staged = (g, Inr a)" "gl_terminal g = None"
      "i \<in># gateway_members g role" "a \<in> {WriterResumed, ObserverResumed}"
  | (writer) a k where "role = Connection_Writer" "i \<notin># gateway_members g role" "gl_terminal g = None"
      "occupied (gl_writers g) + occupied (gl_observers g) < (if staged then 10 else 9)"
      "position (\<lambda>s. s = None) (gl_writers g) = Some k" "a \<in> {CommitEverptyWriter, WriterAdded}"
      "admit_capacity g i role t staged = (g\<lparr>gl_writers := (gl_writers g)[k := Some i], gl_writer_committed := True\<rparr>, Inr a)"
  | (observer) k where "role = Connection_Observer" "i \<notin># gateway_members g role" "gl_terminal g = None" "\<not> t"
      "occupied (gl_writers g) + occupied (gl_observers g) < (if staged then 10 else 9)"
      "position (\<lambda>s. s = None) (gl_observers g) = Some k"
      "admit_capacity g i role t staged = (g\<lparr>gl_observers := (gl_observers g)[k := Some i]\<rparr>, Inr ObserverAdded)"
proof -
  have "(\<exists>e. admit_capacity g i role t staged = (g, Inl e)) \<or>
    (\<exists>a. admit_capacity g i role t staged = (g, Inr a) \<and> gl_terminal g = None \<and>
      i \<in># gateway_members g role \<and> a \<in> {WriterResumed, ObserverResumed}) \<or>
    (\<exists>a k. role = Connection_Writer \<and> i \<notin># gateway_members g role \<and> gl_terminal g = None \<and>
      occupied (gl_writers g) + occupied (gl_observers g) < (if staged then 10 else 9) \<and>
      position (\<lambda>s. s = None) (gl_writers g) = Some k \<and> a \<in> {CommitEverptyWriter, WriterAdded} \<and>
      admit_capacity g i role t staged = (g\<lparr>gl_writers := (gl_writers g)[k := Some i], gl_writer_committed := True\<rparr>, Inr a)) \<or>
    (\<exists>k. role = Connection_Observer \<and> i \<notin># gateway_members g role \<and> gl_terminal g = None \<and> \<not> t \<and>
      occupied (gl_writers g) + occupied (gl_observers g) < (if staged then 10 else 9) \<and>
      position (\<lambda>s. s = None) (gl_observers g) = Some k \<and>
      admit_capacity g i role t staged = (g\<lparr>gl_observers := (gl_observers g)[k := Some i]\<rparr>, Inr ObserverAdded))"
    by (cases role) (auto simp: admit_capacity_def gateway_members_def Let_def dest: position_take split: option.split)
  then show thesis using refused resumed writer observer by blast
qed

lemma admit_capacity_inv:
  assumes "lifecycle_inv g"
  shows "lifecycle_inv (fst (admit_capacity g i role t staged))"
proof (rule admit_capacity_cases [of g i role t staged])
  fix a k
  assume w: "role = Connection_Writer" "i \<notin># gateway_members g role" "gl_terminal g = None"
    "occupied (gl_writers g) + occupied (gl_observers g) < (if staged then 10 else 9)"
    "position (\<lambda>s. s = None) (gl_writers g) = Some k" "a \<in> {CommitEverptyWriter, WriterAdded}"
    "admit_capacity g i role t staged = (g\<lparr>gl_writers := (gl_writers g)[k := Some i], gl_writer_committed := True\<rparr>, Inr a)"
  note put = stock_of_position_put [OF w(5), of i]
  from put have "occupied ((gl_writers g)[k := Some i]) = Suc (occupied (gl_writers g))"
    by (metis size_stock_of size_add_mset)
  with put w assms show ?thesis by (auto simp: lifecycle_inv_def gateway_members_def split: if_splits)
next
  fix k
  assume w: "role = Connection_Observer" "i \<notin># gateway_members g role" "gl_terminal g = None" "\<not> t"
    "occupied (gl_writers g) + occupied (gl_observers g) < (if staged then 10 else 9)"
    "position (\<lambda>s. s = None) (gl_observers g) = Some k"
    "admit_capacity g i role t staged = (g\<lparr>gl_observers := (gl_observers g)[k := Some i]\<rparr>, Inr ObserverAdded)"
  note put = stock_of_position_put [OF w(6), of i]
  from put have "occupied ((gl_observers g)[k := Some i]) = Suc (occupied (gl_observers g))"
    by (metis size_stock_of size_add_mset)
  with put w assms show ?thesis by (auto simp: lifecycle_inv_def gateway_members_def split: if_splits)
qed (use assms in auto)

lemma release_inv:
  assumes "lifecycle_inv g"
  shows "lifecycle_inv (fst (lifecycle_release g i))"
proof -
  have occ: "occupied (xs[k := None]) \<le> occupied xs" if "position (\<lambda>s. s = Some i) xs = Some k" for xs k
    using stock_of_position_take [OF that] by (metis size_stock_of size_Diff_submset diff_le_self size_mset_mono diff_subset_eq_self)
  show ?thesis
    using assms occ [of "gl_writers g"] occ [of "gl_observers g"]
    by (auto simp: lifecycle_release_def lifecycle_inv_def stock_of_position_take once_minus split: option.split)
qed

interpretation lifecycles: event_machine lifecycle_step lifecycle_inv
proof
  fix g e assume "lifecycle_inv g"
  then show "lifecycle_inv (fst (lifecycle_step g e))"
    using admit_capacity_inv [of g] release_inv [of g]
    by (cases e) (auto simp: split_beta, simp_all add: lifecycle_inv_def pty_exited_def gateway_kill_def)
qed

lemma lifecycle_new_inv: "lifecycle_new limits = Inr g \<Longrightarrow> lifecycle_inv g"
  by (auto simp: lifecycle_new_def lifecycle_inv_def udp_limits_validate_iff default_udp_limits_def occupied_def
      split: sum.splits)

text \<open>Who the gateway serves. After any history no peer is listed twice in a role and at most ten
  peers are members; an admission that is refused changes nothing, one that succeeds happens before
  the gateway is terminal, makes the peer a member and evicts nobody.\<close>

theorem gateway_admission_never_evicts:
  "case lifecycle_new limits of
     Inl e \<Rightarrow> True
   | Inr g0 \<Rightarrow>
       let g = fst (run_events lifecycle_step g0 events)
       in once (gateway_members g Connection_Writer) \<and>
          once (gateway_members g Connection_Observer) \<and>
          size (gateway_members g Connection_Writer) + size (gateway_members g Connection_Observer) \<le> 10 \<and>
          (case admit_capacity g i role take_over staged of
             (g', Inl e) \<Rightarrow> g' = g
           | (g', Inr a) \<Rightarrow>
               gl_terminal g = None \<and> i \<in># gateway_members g' role \<and>
               (if a \<in> {WriterResumed, ObserverResumed} then g' = g
                else gateway_members g' = (gateway_members g)(role := add_mset i (gateway_members g role))))"
proof (cases "lifecycle_new limits")
  case (Inr g0)
  define g where "g = fst (run_events lifecycle_step g0 events)"
  have inv: "lifecycle_inv g" using lifecycles.run_inv [OF lifecycle_new_inv [OF Inr]] by (simp add: g_def)
  have "case admit_capacity g i role take_over staged of
             (g', Inl e) \<Rightarrow> g' = g
           | (g', Inr a) \<Rightarrow>
               gl_terminal g = None \<and> i \<in># gateway_members g' role \<and>
               (if a \<in> {WriterResumed, ObserverResumed} then g' = g
                else gateway_members g' = (gateway_members g)(role := add_mset i (gateway_members g role)))"
    by (rule admit_capacity_cases [of g i role take_over staged])
      (auto simp: gateway_members_def fun_eq_iff stock_of_position_put split: connection_role.splits)
  moreover have "once (gateway_members g Connection_Writer)" "once (gateway_members g Connection_Observer)"
      "size (gateway_members g Connection_Writer) + size (gateway_members g Connection_Observer) \<le> 10"
    using inv by (simp_all add: lifecycle_inv_def gateway_members_def)
  ultimately show ?thesis unfolding Inr sum.case Let_def g_def [symmetric] by blast
qed simp

end
