(* ===== verification/Udp_Ring.thy ===== *)
theory Udp_Ring
  imports Udp_Wire
begin

text \<open>
  The replay ring of everudp (\<open>crates/everudp/src/queues.rs\<close>, \<open>ReplayRing\<close> and
  \<open>DeliveryGate\<close>): two fixed circular buffers, one of wire bytes and one of slots, with cursors
  that wrap. \<open>ring_repr r fs\<close> says that a ring represents the queue \<open>fs\<close> of retained frames;
  every operation is shown to act on the representation as the plain queue operation. Ring and
  gate together are an interpretation of the replayed-link interface.
\<close>

section \<open>Circular buffers\<close>

text \<open>\<open>write_circular\<close> returns the buffer and the new tail. Both circular buffers of the ring use
  the same functions, so they are polymorphic.\<close>

definition write_circular :: "'a list \<Rightarrow> usize \<Rightarrow> 'a list \<Rightarrow> 'a list \<times> usize" where
  "write_circular bs tail inp =
     (let first = min (length inp) (length bs - tail);
          bs1 = splice_at tail (take first inp) bs;
          bs2 = (if first < length inp then splice_at 0 (drop first inp) bs1 else bs1)
      in (bs2, (tail + length inp) mod length bs))"

definition read_circular :: "'a list \<Rightarrow> usize \<Rightarrow> usize \<Rightarrow> 'a list" where
  "read_circular bs start len =
     (let first = min len (length bs - start)
      in subslice start (start + first) bs @ (if first < len then take (len - first) bs else []))"

definition zero_circular :: "bytes \<Rightarrow> usize \<Rightarrow> usize \<Rightarrow> bytes" where
  "zero_circular bs start len =
     (let first = min len (length bs - start);
          bs1 = splice_at start (replicate first 0) bs
      in if first < len then splice_at 0 (replicate (len - first) 0) bs1 else bs1)"

lemma zero_circular_write: "zero_circular bs start len = fst (write_circular bs start (replicate len 0))"
  by (simp add: zero_circular_def write_circular_def Let_def min_def)

lemma length_read_circular [simp]:
  "start < length bs \<Longrightarrow> len \<le> length bs \<Longrightarrow> length (read_circular bs start len) = len"
  by (auto simp: read_circular_def Let_def)

lemma circular_index:
  "(a :: nat) < c \<Longrightarrow> i < c \<Longrightarrow> (a + i) mod c = (if a + i < c then a + i else a + i - c)"
  by (simp add: mod_if)

lemma circular_lt: "(a :: nat) < c \<Longrightarrow> (a + i) mod c < c"
  by simp

lemma read_circular_straight:
  "start + len \<le> length bs \<Longrightarrow> read_circular bs start len = take len (drop start bs)"
  by (auto simp: read_circular_def Let_def subslice_def min_def)

lemma read_circular_wrapped:
  "start < length bs \<Longrightarrow> length bs < start + len \<Longrightarrow>
   read_circular bs start len = drop start bs @ take (start + len - length bs) bs"
  by (auto simp: read_circular_def Let_def subslice_def min_def add.commute)

lemma nth_read_circular:
  assumes "start < length bs" "len \<le> length bs" "i < len"
  shows "read_circular bs start len ! i = bs ! ((start + i) mod length bs)"
proof (cases "start + len \<le> length bs")
  case True
  then show ?thesis
    using assms by (simp add: read_circular_straight)
next
  case False
  have idx: "(start + i) mod length bs = (if start + i < length bs then start + i else start + i - length bs)"
    using assms by (intro circular_index) simp_all
  have eq: "read_circular bs start len ! i
      = (if i < length bs - start then drop start bs ! i
         else take (start + len - length bs) bs ! (i - (length bs - start)))"
    using assms False by (simp add: read_circular_wrapped nth_append)
  show ?thesis
  proof (cases "start + i < length bs")
    case True
    then have "i < length bs - start" by simp
    with True assms show ?thesis unfolding eq idx by simp
  next
    case ge: False
    with assms False have "i - (length bs - start) = start + i - length bs"
      "start + i - length bs < start + len - length bs" "\<not> i < length bs - start" by simp_all
    with ge show ?thesis unfolding eq idx by simp
  qed
qed

lemma length_write_circular [simp]:
  "tail < length bs \<Longrightarrow> length inp \<le> length bs \<Longrightarrow> length (fst (write_circular bs tail inp)) = length bs"
  by (auto simp: write_circular_def Let_def min_def)

lemma write_circular_straight:
  "tail + length inp \<le> length bs \<Longrightarrow> fst (write_circular bs tail inp) = splice_at tail inp bs"
  by (simp add: write_circular_def Let_def min_def)

lemma write_circular_wrapped:
  "tail \<le> length bs \<Longrightarrow> length bs < tail + length inp \<Longrightarrow>
   fst (write_circular bs tail inp)
     = splice_at 0 (drop (length bs - tail) inp) (splice_at tail (take (length bs - tail) inp) bs)"
  by (auto simp: write_circular_def Let_def min_def)

text \<open>The distance of an index from the tail, around the buffer.\<close>

definition circular_offset :: "nat \<Rightarrow> nat \<Rightarrow> nat \<Rightarrow> nat" where
  "circular_offset c tail j = (if tail \<le> j then j - tail else j + c - tail)"

lemma nth_write_circular:
  assumes "tail < length bs" "length inp \<le> length bs" "j < length bs"
  shows "fst (write_circular bs tail inp) ! j =
    (if circular_offset (length bs) tail j < length inp then inp ! circular_offset (length bs) tail j
     else bs ! j)"
proof (cases "tail + length inp \<le> length bs")
  case True
  then show ?thesis
    using assms by (auto simp: write_circular_straight nth_splice_at circular_offset_def)
next
  case False
  define k where "k = length bs - tail"
  define bs1 where "bs1 = splice_at tail (take k inp) bs"
  have k: "k < length inp" "tail + k = length bs" using assms False by (auto simp: k_def)
  have bs1: "length bs1 = length bs" using k by (simp add: bs1_def min_def)
  have tailpart: "bs1 ! j = (if tail \<le> j then inp ! (j - tail) else bs ! j)"
    using k assms by (auto simp: bs1_def nth_splice_at min_def)
  have "fst (write_circular bs tail inp) = splice_at 0 (drop k inp) bs1"
    using assms False by (simp add: write_circular_wrapped k_def bs1_def)
  then have eq: "fst (write_circular bs tail inp) ! j
      = (if j < length inp - k then drop k inp ! j else bs1 ! j)"
    using bs1 k assms by (simp add: nth_splice_at)
  show ?thesis
  proof (cases "tail \<le> j")
    case True
    then have "\<not> j < length inp - k" "j - tail < length inp" using k assms by linarith+
    with True show ?thesis unfolding eq tailpart by (simp add: circular_offset_def)
  next
    case lt: False
    then have o: "circular_offset (length bs) tail j = k + j"
      using k assms by (simp add: circular_offset_def)
    show ?thesis
      unfolding eq tailpart o using lt k by (auto simp: nth_drop)
  qed
qed

lemma circular_distance:
  assumes "h < c" "u \<le> c" "i < c"
  shows "circular_offset c ((h + u) mod c) ((h + i) mod c) = (if u \<le> i then i - u else i + c - u)"
proof -
  have i: "(h + i) mod c = (if h + i < c then h + i else h + i - c)"
    using assms by (intro circular_index) simp_all
  have u: "(h + u) mod c = (if u = c then h else if h + u < c then h + u else h + u - c)"
    using assms circular_index [of h c u] by (cases "u = c") simp_all
  show ?thesis
    unfolding i u circular_offset_def using assms by auto
qed

text \<open>Seen from its head, a circular buffer is the buffer rotated to the head; there a write is a
  splice at the fill level and a read is a prefix.\<close>

lemma nth_rotate_circular: "i < length bs \<Longrightarrow> rotate h bs ! i = bs ! ((h + i) mod length bs)"
  by (simp add: nth_rotate)

lemma read_circular_rotate:
  assumes "h < length bs" "u \<le> length bs"
  shows "read_circular bs h u = take u (rotate h bs)"
  using assms by (intro nth_equalityI) (simp_all add: nth_read_circular nth_rotate)

lemma rotate_mod_circular: "rotate ((h + a) mod length bs) bs = rotate a (rotate h bs)"
  by (metis add.commute rotate_conv_mod rotate_rotate)

lemma rotate_write:
  assumes h: "h < length bs" and u: "u + length inp \<le> length bs"
  shows "rotate h (fst (write_circular bs ((h + u) mod length bs) inp)) = splice_at u inp (rotate h bs)"
    (is "rotate h ?w = _")
proof (rule nth_equalityI)
  have tl: "(h + u) mod length bs < length bs" "length inp \<le> length bs"
    using h u circular_lt [of h "length bs" u] by simp_all
  have len: "length ?w = length bs" using length_write_circular [OF tl] .
  show "length (rotate h ?w) = length (splice_at u inp (rotate h bs))" using len u by simp
  fix i assume "i < length (rotate h ?w)"
  then have i: "i < length bs" using len by simp
  have "rotate h ?w ! i = ?w ! ((h + i) mod length bs)"
    using i len by (simp add: nth_rotate_circular)
  also have "\<dots> = (if circular_offset (length bs) ((h + u) mod length bs) ((h + i) mod length bs) < length inp
      then inp ! circular_offset (length bs) ((h + u) mod length bs) ((h + i) mod length bs)
      else bs ! ((h + i) mod length bs))"
    using nth_write_circular [OF tl circular_lt [OF h, of i]] .
  also have "circular_offset (length bs) ((h + u) mod length bs) ((h + i) mod length bs)
      = (if u \<le> i then i - u else i + length bs - u)"
    using h u i by (intro circular_distance) simp_all
  also have "(if (if u \<le> i then i - u else i + length bs - u) < length inp
      then inp ! (if u \<le> i then i - u else i + length bs - u) else bs ! ((h + i) mod length bs))
      = splice_at u inp (rotate h bs) ! i"
  proof (cases "u \<le> i")
    case True
    then show ?thesis using i u by (auto simp: nth_splice_at nth_rotate_circular)
  next
    case False
    then have "\<not> i + length bs - u < length inp" using u by simp
    then show ?thesis using False i u by (auto simp: nth_splice_at nth_rotate_circular)
  qed
  finally show "rotate h ?w ! i = splice_at u inp (rotate h bs) ! i" .
qed

lemma rotate_zero:
  "h < length bs \<Longrightarrow> a \<le> length bs \<Longrightarrow>
   rotate h (zero_circular bs h a) = splice_at 0 (replicate a 0) (rotate h bs)"
  using rotate_write [of h bs 0 "replicate a 0"] by (simp add: zero_circular_write)

lemma rotate_update:
  assumes "h < length xs" "k < length xs"
  shows "rotate h (xs[(h + k) mod length xs := x]) = (rotate h xs)[k := x]"
proof (rule nth_equalityI)
  fix i assume "i < length (rotate h (xs[(h + k) mod length xs := x]))"
  then have i: "i < length xs" by simp
  have "(h + i) mod length xs = (h + k) mod length xs \<longleftrightarrow> i = k"
    using assms i circular_index [of h "length xs" i] circular_index [of h "length xs" k] by auto
  then show "rotate h (xs[(h + k) mod length xs := x]) ! i = (rotate h xs)[k := x] ! i"
    using i circular_lt [OF assms(1), of k]
    by (cases "i = k") (simp_all add: nth_rotate_circular nth_list_update)
qed simp

lemma length_zero_circular [simp]:
  "start < length bs \<Longrightarrow> len \<le> length bs \<Longrightarrow> length (zero_circular bs start len) = length bs"
  by (simp add: zero_circular_write)

section \<open>The replay ring\<close>

definition CONTROL_QUEUE_BYTES :: usize where "CONTROL_QUEUE_BYTES = 64 * 1024"

datatype queue_error =
    Q_Allocation | Q_Full | Q_AckAhead | Q_AckBehind | Q_SequenceGap | Q_SequenceOverflow
  | Q_EpochMismatch | Q_DeliveryPending | Q_DeliveryNotPending | Q_BufferTooSmall
  | Q_ObserverCapacity | Q_UnknownObserver | Q_Wire wire_error

record frame_copy =
  fc_kind :: udp_kind
  fc_sequence :: u64
  fc_wire_len :: usize

record slot =
  sk_kind :: udp_kind
  sk_sequence :: u64
  sk_start :: usize
  sk_wire_len :: usize

record replay_ring =
  rr_stream :: stream_role
  rr_bytes :: bytes
  rr_slots :: "slot option list"
  rr_byte_head :: usize
  rr_byte_tail :: usize
  rr_bytes_used :: usize
  rr_slot_head :: usize
  rr_slot_count :: usize
  rr_next :: u64

text \<open>\<open>alloc n\<close> says whether reserving \<open>n\<close> elements succeeds.\<close>

definition ring_with_capacities ::
  "(usize \<Rightarrow> bool) \<Rightarrow> stream_role \<Rightarrow> usize \<Rightarrow> usize \<Rightarrow> queue_error + replay_ring" where
  "ring_with_capacities alloc stream byte_capacity operation_capacity =
     (if byte_capacity < UDP_HEADER_LEN \<or> operation_capacity = 0 then Inl Q_Allocation
      else if \<not> alloc byte_capacity then Inl Q_Allocation
      else if \<not> alloc operation_capacity then Inl Q_Allocation
      else Inr \<lparr>rr_stream = stream, rr_bytes = replicate byte_capacity 0,
                rr_slots = replicate operation_capacity None, rr_byte_head = 0, rr_byte_tail = 0,
                rr_bytes_used = 0, rr_slot_head = 0, rr_slot_count = 0, rr_next = 0\<rparr>)"

definition ring_new :: "(usize \<Rightarrow> bool) \<Rightarrow> stream_role \<Rightarrow> udp_limits \<Rightarrow> queue_error + replay_ring" where
  "ring_new alloc stream limits =
     (case udp_limits_validate limits of
        Inl v \<Rightarrow> Inl (Q_Wire (We_Limits v))
      | Inr _ \<Rightarrow> ring_with_capacities alloc stream (queue_bytes_per_direction limits)
                   (queue_operations_per_direction limits))"

definition ring_control :: "(usize \<Rightarrow> bool) \<Rightarrow> udp_limits \<Rightarrow> queue_error + replay_ring" where
  "ring_control alloc limits =
     ring_with_capacities alloc Stream_Control
       (min CONTROL_QUEUE_BYTES (queue_bytes_per_direction limits)) (queue_operations_per_direction limits)"

definition ring_control_after_hello :: "(usize \<Rightarrow> bool) \<Rightarrow> udp_limits \<Rightarrow> queue_error + replay_ring" where
  "ring_control_after_hello alloc limits =
     try_bind (ring_control alloc limits) (\<lambda>control. Inr (control\<lparr>rr_next := 1\<rparr>))"

text \<open>The shape check uses the default limits, whatever the ring was built with.\<close>

definition ring_validate_shape :: "replay_ring \<Rightarrow> udp_kind \<Rightarrow> usize \<Rightarrow> queue_error + unit" where
  "ring_validate_shape r kind len =
     (if kind_stream kind \<noteq> rr_stream r then Inl (Q_Wire (We_KindNotAllowed kind (rr_stream r)))
      else case payload_bounds kind default_udp_limits of (minimum, maximum) \<Rightarrow>
        if len > maximum then Inl (Q_Wire (We_PayloadTooLarge kind len maximum))
        else if len < minimum then Inl (Q_Wire (We_LengthInvalid kind len))
        else Inr ())"

definition ring_push :: "replay_ring \<Rightarrow> udp_kind \<Rightarrow> bytes \<Rightarrow> queue_error + replay_ring \<times> u64" where
  "ring_push r kind payload =
     try_bind (ring_validate_shape r kind (length payload)) (\<lambda>_.
     try_bind (ok_or Q_Full (checked_add_usize UDP_HEADER_LEN (length payload))) (\<lambda>wire_len.
       if rr_slot_count r = length (rr_slots r) \<or> wire_len > length (rr_bytes r) - rr_bytes_used r
       then Inl Q_Full
       else if rr_next r = - 1 then Inl Q_SequenceOverflow
       else if \<not> length payload < 2 ^ 32 then Inl Q_Full
       else
         let sequence = rr_next r;
             header = header_encode \<lparr>fh_kind = kind, fh_sequence = sequence,
                                     fh_payload_len = of_nat (length payload)\<rparr>;
             start = rr_byte_tail r;
             (bytes1, tail1) = write_circular (rr_bytes r) start header;
             (bytes2, tail2) = write_circular bytes1 tail1 payload;
             slot = (rr_slot_head r + rr_slot_count r) mod length (rr_slots r)
         in Inr (r\<lparr>rr_bytes := bytes2, rr_byte_tail := tail2,
                   rr_slots := (rr_slots r)[slot := Some \<lparr>sk_kind = kind, sk_sequence = sequence,
                                                        sk_start = start, sk_wire_len = wire_len\<rparr>],
                   rr_slot_count := rr_slot_count r + 1,
                   rr_bytes_used := rr_bytes_used r + wire_len,
                   rr_next := rr_next r + 1\<rparr>, sequence)))"

definition ring_first_unacknowledged :: "replay_ring \<Rightarrow> u64 option" where
  "ring_first_unacknowledged r =
     (if rr_slot_count r > 0 then map_option sk_sequence (rr_slots r ! rr_slot_head r) else None)"

text \<open>One turn of the retirement loop: the oldest slot is erased and its bytes are zeroed.\<close>

definition ring_drop_head :: "replay_ring \<Rightarrow> slot \<Rightarrow> replay_ring" where
  "ring_drop_head r slot =
     r\<lparr>rr_bytes := zero_circular (rr_bytes r) (sk_start slot) (sk_wire_len slot),
       rr_byte_head := (sk_start slot + sk_wire_len slot) mod length (rr_bytes r),
       rr_bytes_used := rr_bytes_used r - sk_wire_len slot,
       rr_slots := (rr_slots r)[rr_slot_head r := None],
       rr_slot_head := (rr_slot_head r + 1) mod length (rr_slots r),
       rr_slot_count := rr_slot_count r - 1\<rparr>"

text \<open>The retirement loop of \<open>acknowledge\<close>; its error leaves what was retired before it.\<close>

function ring_retire :: "u64 \<Rightarrow> replay_ring \<Rightarrow> replay_ring \<times> (queue_error + unit)" where
  "ring_retire ack_to r =
     (if rr_slot_count r = 0 then (r, Inr ())
      else case rr_slots r ! rr_slot_head r of
        None \<Rightarrow> (r, Inl Q_SequenceGap)
      | Some slot \<Rightarrow>
          if sk_sequence slot \<ge> ack_to then (r, Inr ())
          else ring_retire ack_to (ring_drop_head r slot))"
  by pat_completeness auto
termination
  by (relation "measure (\<lambda>(n, r). rr_slot_count r)") (simp_all add: ring_drop_head_def)

declare ring_retire.simps [simp del]

definition ring_acknowledge :: "replay_ring \<Rightarrow> u64 \<Rightarrow> replay_ring \<times> (queue_error + unit)" where
  "ring_acknowledge r ack_to =
     (if ack_to > rr_next r then (r, Inl Q_AckAhead)
      else
        let committed = (case ring_first_unacknowledged r of Some s \<Rightarrow> s | None \<Rightarrow> rr_next r) in
        if ack_to < committed then (r, Inl Q_AckBehind)
        else case ring_retire ack_to r of
          (r1, Inl e) \<Rightarrow> (r1, Inl e)
        | (r1, Inr _) \<Rightarrow>
            ((if rr_slot_count r1 = 0 then r1\<lparr>rr_byte_head := rr_byte_tail r1\<rparr> else r1), Inr ()))"

text \<open>Copying out leaves the rest of the caller's buffer alone.\<close>

definition ring_copy_unacked :: "replay_ring \<Rightarrow> usize \<Rightarrow> bytes \<Rightarrow> queue_error + bytes \<times> frame_copy" where
  "ring_copy_unacked r i out =
     (if i \<ge> rr_slot_count r then Inl Q_SequenceGap
      else try_bind (ok_or Q_SequenceGap (rr_slots r ! ((rr_slot_head r + i) mod length (rr_slots r)))) (\<lambda>slot.
        if length out < sk_wire_len slot then Inl Q_BufferTooSmall
        else Inr (splice_at 0 (read_circular (rr_bytes r) (sk_start slot) (sk_wire_len slot)) out,
               \<lparr>fc_kind = sk_kind slot, fc_sequence = sk_sequence slot, fc_wire_len = sk_wire_len slot\<rparr>)))"

definition ring_copy_sequence :: "replay_ring \<Rightarrow> u64 \<Rightarrow> bytes \<Rightarrow> queue_error + bytes \<times> frame_copy" where
  "ring_copy_sequence r sequence out =
     try_bind (ok_or Q_SequenceGap (ring_first_unacknowledged r)) (\<lambda>first.
       if sequence < first then Inl Q_SequenceGap
       else ring_copy_unacked r (unat (sequence - first)) out)"

definition ring_can_poll_source :: "replay_ring \<Rightarrow> bool" where
  "ring_can_poll_source r \<longleftrightarrow>
     rr_slot_count r < length (rr_slots r) \<and> length (rr_bytes r) - rr_bytes_used r > UDP_HEADER_LEN"

definition ring_can_accept :: "replay_ring \<Rightarrow> udp_kind \<Rightarrow> usize \<Rightarrow> bool" where
  "ring_can_accept r kind payload_len =
     (if ring_validate_shape r kind payload_len \<noteq> Inr () \<or> rr_next r = - 1 then False
      else case checked_add_usize UDP_HEADER_LEN payload_len of
        None \<Rightarrow> False
      | Some wire_len \<Rightarrow>
          rr_slot_count r < length (rr_slots r) \<and> wire_len \<le> length (rr_bytes r) - rr_bytes_used r)"

fun clear_slots :: "nat \<Rightarrow> usize \<Rightarrow> slot option list \<Rightarrow> slot option list" where
  "clear_slots 0 head slots = slots"
| "clear_slots (Suc offset) head slots =
     (clear_slots offset head slots)[(head + offset) mod length slots := None]"

definition ring_clear_and_restart :: "replay_ring \<Rightarrow> replay_ring" where
  "ring_clear_and_restart r =
     r\<lparr>rr_slots := clear_slots (rr_slot_count r) (rr_slot_head r) (rr_slots r),
       rr_bytes := replicate (length (rr_bytes r)) 0,
       rr_byte_head := 0, rr_byte_tail := 0, rr_bytes_used := 0, rr_slot_head := 0,
       rr_slot_count := 0, rr_next := 0\<rparr>"

definition ring_restart_control_after_hello :: "replay_ring \<Rightarrow> replay_ring" where
  "ring_restart_control_after_hello r = (ring_clear_and_restart r)\<lparr>rr_next := 1\<rparr>"

section \<open>What a ring represents\<close>

definition ring_record :: "u64 \<Rightarrow> udp_kind \<times> bytes \<Rightarrow> udp_record" where
  "ring_record sequence = (\<lambda>(kind, payload).
     \<lparr>ur_header = \<lparr>fh_kind = kind, fh_sequence = sequence, fh_payload_len = of_nat (length payload)\<rparr>,
      ur_payload = payload\<rparr>)"

fun slots_of :: "usize \<Rightarrow> usize \<Rightarrow> udp_record list \<Rightarrow> slot option list" where
  "slots_of cap start [] = []"
| "slots_of cap start (f # fs) =
     Some \<lparr>sk_kind = fh_kind (ur_header f), sk_sequence = fh_sequence (ur_header f), sk_start = start,
           sk_wire_len = length (record_bytes f)\<rparr>
     # slots_of cap ((start + length (record_bytes f)) mod cap) fs"

definition records_bytes :: "udp_record list \<Rightarrow> bytes" where
  "records_bytes fs = concat (map record_bytes fs)"

text \<open>From its two heads on, the ring holds exactly the retained records and their slots, and
  nothing else: every other byte is zero and every other slot is empty.\<close>

definition ring_repr :: "replay_ring \<Rightarrow> udp_record list \<Rightarrow> bool" where
  "ring_repr r fs \<longleftrightarrow>
     rr_byte_head r < length (rr_bytes r) \<and> rr_slot_head r < length (rr_slots r) \<and>
     rr_slot_count r = length fs \<and> length fs \<le> length (rr_slots r) \<and>
     rr_bytes_used r = length (records_bytes fs) \<and> length (records_bytes fs) \<le> length (rr_bytes r) \<and>
     rr_byte_tail r = (rr_byte_head r + rr_bytes_used r) mod length (rr_bytes r) \<and>
     rotate (rr_byte_head r) (rr_bytes r)
       = records_bytes fs @ replicate (length (rr_bytes r) - length (records_bytes fs)) 0 \<and>
     rotate (rr_slot_head r) (rr_slots r)
       = slots_of (length (rr_bytes r)) (rr_byte_head r) fs @ replicate (length (rr_slots r) - length fs) None \<and>
     length fs \<le> unat (rr_next r) \<and>
     map (\<lambda>f. unat (fh_sequence (ur_header f))) fs = [unat (rr_next r) - length fs ..< unat (rr_next r)] \<and>
     list_all (record_ok (rr_stream r) default_udp_limits) fs"

section \<open>The operations on the representation\<close>

lemma ring_with_capacities_repr:
  "ring_with_capacities alloc stream b c = Inr r \<Longrightarrow>
   ring_repr r [] \<and> length (rr_bytes r) = b \<and> length (rr_slots r) = c \<and> rr_stream r = stream \<and> rr_next r = 0"
  by (auto simp: ring_with_capacities_def ring_repr_def records_bytes_def UDP_HEADER_LEN_def split: if_splits)

lemma records_bytes_simps [simp]:
  "records_bytes [] = []" "records_bytes (f # fs) = record_bytes f @ records_bytes fs"
  "records_bytes (fs @ gs) = records_bytes fs @ records_bytes gs"
  by (simp_all add: records_bytes_def)

lemma length_slots_of [simp]: "length (slots_of cap start fs) = length fs"
  by (induction fs arbitrary: start) simp_all

lemma slots_of_append:
  "slots_of cap start (fs @ [f]) = slots_of cap start fs @
     [Some \<lparr>sk_kind = fh_kind (ur_header f), sk_sequence = fh_sequence (ur_header f),
            sk_start = (if fs = [] then start else (start + length (records_bytes fs)) mod cap),
            sk_wire_len = length (record_bytes f)\<rparr>]"
proof (induction fs arbitrary: start)
  case (Cons g fs)
  have "((start + length (record_bytes g)) mod cap + length (records_bytes fs)) mod cap
      = (start + (length (record_bytes g) + length (records_bytes fs))) mod cap"
    by (simp add: mod_add_left_eq add.assoc)
  with Cons show ?case by (cases fs) simp_all
qed simp

lemma validate_shape_ok:
  "ring_validate_shape r kind len = Inr () \<longleftrightarrow>
     kind_stream kind = rr_stream r \<and> fst (payload_bounds kind default_udp_limits) \<le> len \<and>
     len \<le> snd (payload_bounds kind default_udp_limits)"
  by (auto simp: ring_validate_shape_def split: prod.splits)

lemma payload_bounds_small: "snd (payload_bounds kind default_udp_limits) < 2 ^ 32"
  by (cases kind) (simp_all add: payload_bounds_def default_udp_limits_def ACK_WIRE_LEN_def RESIZE_WIRE_LEN_def)

lemma ring_record_ok:
  assumes "ring_validate_shape r kind (length payload) = Inr ()"
  shows "record_ok (rr_stream r) default_udp_limits (ring_record sequence (kind, payload))"
    and "length payload < 2 ^ 32"
proof -
  show "length payload < 2 ^ 32"
    using assms payload_bounds_small [of kind] unfolding validate_shape_ok by linarith
  then have "unat (of_nat (length payload) :: u32) = length payload" by simp
  then show "record_ok (rr_stream r) default_udp_limits (ring_record sequence (kind, payload))"
    using assms by (simp add: record_ok_def ring_record_def header_ok_def validate_shape_ok)
qed

lemma splice_fill:
  "length xs \<le> n \<Longrightarrow> splice_at (length ys) xs (ys @ replicate n z) = ys @ xs @ replicate (n - length xs) z"
  by (simp add: splice_at_def)

text \<open>What stays when the retained records change.\<close>

definition ring_frame :: "replay_ring \<Rightarrow> replay_ring \<Rightarrow> bool" where
  "ring_frame r r' \<longleftrightarrow> length (rr_bytes r') = length (rr_bytes r) \<and>
     length (rr_slots r') = length (rr_slots r) \<and> rr_stream r' = rr_stream r"

lemma ring_frame_refl [simp]: "ring_frame r r"
  by (simp add: ring_frame_def)

lemma ring_frame_trans: "ring_frame r1 r2 \<Longrightarrow> ring_frame r2 r3 \<Longrightarrow> ring_frame r1 r3"
  by (simp add: ring_frame_def)

definition ring_fits :: "replay_ring \<Rightarrow> udp_record list \<Rightarrow> usize \<Rightarrow> bool" where
  "ring_fits r fs len \<longleftrightarrow> length fs < length (rr_slots r) \<and>
     length (records_bytes fs) + UDP_HEADER_LEN + len \<le> length (rr_bytes r)"

lemma two_writes:
  assumes h: "h < length bs" and B: "rotate h bs = B @ replicate (length bs - length B) 0" "length B \<le> length bs"
    and fit: "length B + length xs + length ys \<le> length bs"
  shows "rotate h (fst (write_circular (fst (write_circular bs ((h + length B) mod length bs) xs))
        (snd (write_circular bs ((h + length B) mod length bs) xs)) ys))
      = (B @ xs @ ys) @ replicate (length bs - length (B @ xs @ ys)) 0"
    and "length (fst (write_circular (fst (write_circular bs ((h + length B) mod length bs) xs))
        (snd (write_circular bs ((h + length B) mod length bs) xs)) ys)) = length bs"
    and "snd (write_circular (fst (write_circular bs ((h + length B) mod length bs) xs))
        (snd (write_circular bs ((h + length B) mod length bs) xs)) ys)
      = (h + length (B @ xs @ ys)) mod length bs"
proof -
  let ?c = "length bs"
  define b1 where "b1 = fst (write_circular bs ((h + length B) mod ?c) xs)"
  have t: "(h + length B) mod ?c < ?c" "(h + length (B @ xs)) mod ?c < ?c"
    by (rule circular_lt [OF h])+
  have b1: "length b1 = ?c" "rotate h b1 = (B @ xs) @ replicate (?c - length (B @ xs)) 0"
  proof -
    show "length b1 = ?c" unfolding b1_def using t(1) fit by (intro length_write_circular) simp_all
    have "rotate h b1 = splice_at (length B) xs (B @ replicate (?c - length B) 0)"
      unfolding b1_def B(1) [symmetric] using h fit by (intro rotate_write) simp_all
    also have "\<dots> = B @ xs @ replicate (?c - length B - length xs) 0"
      using fit by (intro splice_fill) simp
    finally show "rotate h b1 = (B @ xs) @ replicate (?c - length (B @ xs)) 0" by simp
  qed
  have t1: "snd (write_circular bs ((h + length B) mod ?c) xs) = (h + length (B @ xs)) mod length b1"
    by (simp add: write_circular_def Let_def b1 mod_add_left_eq add.assoc)
  have fit1: "length (B @ xs) + length ys \<le> length b1" using fit b1 by simp
  have h1: "h < length b1" using h b1 by simp
  have "rotate h (fst (write_circular b1 ((h + length (B @ xs)) mod length b1) ys))
      = splice_at (length (B @ xs)) ys ((B @ xs) @ replicate (?c - length (B @ xs)) 0)"
    using rotate_write [OF h1 fit1] unfolding b1(2) .
  also have "\<dots> = (B @ xs) @ ys @ replicate (?c - length (B @ xs) - length ys) 0"
    using fit by (intro splice_fill) simp
  finally show "rotate h (fst (write_circular (fst (write_circular bs ((h + length B) mod ?c) xs))
        (snd (write_circular bs ((h + length B) mod ?c) xs)) ys))
      = (B @ xs @ ys) @ replicate (?c - length (B @ xs @ ys)) 0"
    unfolding t1 b1_def [symmetric] by simp
  show "length (fst (write_circular (fst (write_circular bs ((h + length B) mod ?c) xs))
        (snd (write_circular bs ((h + length B) mod ?c) xs)) ys)) = ?c"
    unfolding t1 b1_def [symmetric] using b1(1) t(2) fit by (subst length_write_circular) simp_all
  show "snd (write_circular (fst (write_circular bs ((h + length B) mod ?c) xs))
        (snd (write_circular bs ((h + length B) mod ?c) xs)) ys)
      = (h + length (B @ xs @ ys)) mod ?c"
    unfolding t1 b1_def [symmetric]
    by (simp add: write_circular_def Let_def b1 mod_add_left_eq add.assoc)
qed

lemma rotate_slot_push:
  assumes "h < length xs" "rotate h xs = S @ replicate (length xs - k) None" "length S = k" "k < length xs"
  shows "rotate h (xs[(h + k) mod length xs := Some x]) = (S @ [Some x]) @ replicate (length xs - Suc k) None"
proof -
  have r: "replicate (length xs - k) None = None # replicate (length xs - Suc k) None"
    using assms(4) by (metis Suc_diff_Suc replicate_Suc)
  have "rotate h (xs[(h + k) mod length xs := Some x]) = (rotate h xs)[k := Some x]"
    using assms by (intro rotate_update) simp_all
  then show ?thesis
    unfolding assms(2) r using assms(3) by (simp add: list_update_append)
qed

lemma ring_push_repr:
  assumes R: "ring_repr r fs" and P: "ring_push r kind payload = Inr (r', sequence)"
  shows "ring_repr r' (fs @ [ring_record (rr_next r) (kind, payload)]) \<and> ring_frame r r' \<and>
    sequence = rr_next r \<and> rr_next r' = rr_next r + 1 \<and> rr_next r \<noteq> - 1 \<and>
    ring_fits r fs (length payload) \<and> ring_validate_shape r kind (length payload) = Inr ()"
proof -
  let ?f = "ring_record (rr_next r) (kind, payload)"
  let ?hd = "header_encode \<lparr>fh_kind = kind, fh_sequence = rr_next r, fh_payload_len = of_nat (length payload)\<rparr>"
  let ?c = "length (rr_bytes r)" and ?B = "records_bytes fs"
  have sh: "ring_validate_shape r kind (length payload) = Inr ()"
    using P by (cases "ring_validate_shape r kind (length payload)") (auto simp: ring_push_def)
  have fb: "record_bytes ?f = ?hd @ payload" by (simp add: record_bytes_def ring_record_def)
  have guards: "rr_slot_count r \<noteq> length (rr_slots r)" "UDP_HEADER_LEN + length payload \<le> ?c - rr_bytes_used r"
    "rr_next r \<noteq> - 1"
    using P sh by (auto simp: ring_push_def checked_add_usize_def split: if_splits)
  note R' = R [unfolded ring_repr_def]
  have count: "length fs < length (rr_slots r)" using R' guards(1) by auto
  have fit: "length ?B + length ?hd + length payload \<le> ?c"
    using R' guards(2) by (simp add: UDP_HEADER_LEN_def)
  have tail: "rr_byte_tail r = (rr_byte_head r + length ?B) mod ?c" using R' by simp
  have B: "rr_byte_head r < ?c" "rotate (rr_byte_head r) (rr_bytes r) = ?B @ replicate (?c - length ?B) 0"
    "length ?B \<le> ?c" using R' by simp_all
  note W = two_writes [OF B fit, folded tail]
  define b2 where "b2 = fst (write_circular (fst (write_circular (rr_bytes r) (rr_byte_tail r) ?hd))
        (snd (write_circular (rr_bytes r) (rr_byte_tail r) ?hd)) payload)"
  define s where "s = \<lparr>sk_kind = kind, sk_sequence = rr_next r, sk_start = rr_byte_tail r,
     sk_wire_len = UDP_HEADER_LEN + length payload\<rparr>"
  have r': "r' = r\<lparr>rr_bytes := b2, rr_byte_tail := (rr_byte_head r + length (?B @ ?hd @ payload)) mod ?c,
      rr_slots := (rr_slots r)[(rr_slot_head r + rr_slot_count r) mod length (rr_slots r) := Some s],
      rr_slot_count := rr_slot_count r + 1,
      rr_bytes_used := rr_bytes_used r + (UDP_HEADER_LEN + length payload), rr_next := rr_next r + 1\<rparr>"
    and seq: "sequence = rr_next r"
    using P sh guards ring_record_ok(2) [OF sh] W(3)
    by (auto simp: ring_push_def checked_add_usize_def Let_def split_beta s_def b2_def split: if_splits)
  have slots: "rotate (rr_slot_head r) ((rr_slots r)[(rr_slot_head r + length fs) mod length (rr_slots r) := Some s])
      = slots_of ?c (rr_byte_head r) (fs @ [?f]) @ replicate (length (rr_slots r) - Suc (length fs)) None"
  proof -
    have "slots_of ?c (rr_byte_head r) (fs @ [?f]) = slots_of ?c (rr_byte_head r) fs @ [Some s]"
      unfolding slots_of_append fb s_def using tail B(1)
      by (cases "fs = []") (simp_all add: ring_record_def)
    then show ?thesis
      using R' count by (subst rotate_slot_push) simp_all
  qed
  have nxt: "unat (rr_next r + 1) = Suc (unat (rr_next r))" by (rule unat_Suc_64 [OF guards(3)])
  have "ring_repr r' (fs @ [?f])"
    unfolding ring_repr_def r' using R' W(1,2) slots fb fit nxt count ring_record_ok(1) [OF sh]
    by (simp add: b2_def ring_record_def)
  moreover have "ring_frame r r'" using W(2) by (simp add: ring_frame_def r' b2_def)
  moreover have "ring_fits r fs (length payload)" using count fit by (simp add: ring_fits_def)
  ultimately show ?thesis using seq sh guards r' by simp
qed

lemma ring_push_succeeds:
  assumes R: "ring_repr r fs" and "ring_validate_shape r kind (length payload) = Inr ()"
    and "ring_fits r fs (length payload)" "rr_next r \<noteq> - 1"
  shows "\<exists>r'. ring_push r kind payload = Inr (r', rr_next r)"
proof -
  have "length payload < 2 ^ 32" using ring_record_ok(2) [OF assms(2)] .
  then have "checked_add_usize UDP_HEADER_LEN (length payload) = Some (UDP_HEADER_LEN + length payload)"
    by (simp add: checked_add_usize_def UDP_HEADER_LEN_def)
  moreover have "rr_slot_count r \<noteq> length (rr_slots r)"
    "\<not> UDP_HEADER_LEN + length payload > length (rr_bytes r) - rr_bytes_used r"
    using R assms(3) by (auto simp: ring_fits_def ring_repr_def)
  ultimately show ?thesis
    using assms \<open>length payload < 2 ^ 32\<close> by (simp add: ring_push_def Let_def split_beta)
qed

lemma ring_push_refused:
  assumes R: "ring_repr r fs" and "ring_validate_shape r kind (length payload) = Inr ()"
  shows "\<not> ring_fits r fs (length payload) \<Longrightarrow> ring_push r kind payload = Inl Q_Full"
    and "ring_fits r fs (length payload) \<Longrightarrow> rr_next r = - 1 \<Longrightarrow> ring_push r kind payload = Inl Q_SequenceOverflow"
proof -
  have "length payload < 2 ^ 32" using ring_record_ok(2) [OF assms(2)] .
  then have c: "checked_add_usize UDP_HEADER_LEN (length payload) = Some (UDP_HEADER_LEN + length payload)"
    by (simp add: checked_add_usize_def UDP_HEADER_LEN_def)
  show "\<not> ring_fits r fs (length payload) \<Longrightarrow> ring_push r kind payload = Inl Q_Full"
    using assms c by (auto simp: ring_push_def ring_fits_def ring_repr_def UDP_HEADER_LEN_def)
  show "ring_fits r fs (length payload) \<Longrightarrow> rr_next r = - 1 \<Longrightarrow> ring_push r kind payload = Inl Q_SequenceOverflow"
    using assms c by (auto simp: ring_push_def ring_fits_def ring_repr_def)
qed

subsection \<open>Acknowledgements\<close>

lemma record_sequences:
  assumes "ring_repr r fs" "i < length fs"
  shows "unat (fh_sequence (ur_header (fs ! i))) = unat (rr_next r) - length fs + i"
proof -
  have "map (\<lambda>f. unat (fh_sequence (ur_header f))) fs ! i = [unat (rr_next r) - length fs ..< unat (rr_next r)] ! i"
    using assms(1) by (simp add: ring_repr_def)
  moreover have "length fs \<le> unat (rr_next r)" using assms(1) by (simp add: ring_repr_def)
  ultimately show ?thesis using assms(2) by simp
qed

lemma head_slot:
  assumes "ring_repr r (f # fs)"
  shows "rr_slots r ! rr_slot_head r = Some \<lparr>sk_kind = fh_kind (ur_header f),
    sk_sequence = fh_sequence (ur_header f), sk_start = rr_byte_head r, sk_wire_len = length (record_bytes f)\<rparr>"
proof -
  have "rr_slots r ! rr_slot_head r = rotate (rr_slot_head r) (rr_slots r) ! 0"
    using assms by (subst nth_rotate) (auto simp: ring_repr_def)
  then show ?thesis using assms by (simp add: ring_repr_def)
qed

lemma ring_drop_head_repr:
  assumes R: "ring_repr r (f # fs)"
    and s: "s = \<lparr>sk_kind = fh_kind (ur_header f), sk_sequence = fh_sequence (ur_header f),
      sk_start = rr_byte_head r, sk_wire_len = length (record_bytes f)\<rparr>"
  shows "ring_repr (ring_drop_head r s) fs \<and> ring_frame r (ring_drop_head r s) \<and>
    rr_next (ring_drop_head r s) = rr_next r"
proof -
  note R' = R [unfolded ring_repr_def]
  let ?c = "length (rr_bytes r)" and ?h = "rr_byte_head r" and ?a = "length (record_bytes f)"
  let ?n = "length (rr_slots r)" and ?k = "rr_slot_head r"
  have le: "?h < ?c" "?a + length (records_bytes fs) \<le> ?c" "?k < ?n" "Suc (length fs) \<le> ?n" using R' by simp_all
  define z where "z = zero_circular (rr_bytes r) ?h ?a"
  have lz: "length z = ?c" using le by (simp add: z_def zero_circular_write)
  have "rotate ?h z = splice_at 0 (replicate ?a 0) (rotate ?h (rr_bytes r))"
    unfolding z_def using le by (intro rotate_zero) simp_all
  then have "rotate ?h z = replicate ?a 0 @ records_bytes fs @ replicate (?c - (?a + length (records_bytes fs))) 0"
    using R' by (simp add: splice_at_def)
  then have "rotate ((?h + ?a) mod length z) z
      = rotate ?a (replicate ?a 0 @ records_bytes fs @ replicate (?c - (?a + length (records_bytes fs))) 0)"
    unfolding rotate_mod_circular by simp
  also have "\<dots> = records_bytes fs @ replicate (?c - (?a + length (records_bytes fs))) 0 @ replicate ?a 0"
    using rotate_append [of "replicate ?a (0 :: u8)"] by simp
  also have "replicate (?c - (?a + length (records_bytes fs))) (0 :: u8) @ replicate ?a 0
      = replicate (?c - length (records_bytes fs)) 0"
    using le by (simp add: replicate_add [symmetric])
  finally have bytes: "rotate ((?h + ?a) mod ?c) z = records_bytes fs @ replicate (?c - length (records_bytes fs)) 0"
    unfolding lz .
  have "rotate ?k ((rr_slots r)[?k := None]) = (rotate ?k (rr_slots r))[0 := None]"
    using rotate_update [of ?k "rr_slots r" 0 None] le by (cases "rr_slots r = []") simp_all
  also have "\<dots> = None # slots_of ?c ((?h + ?a) mod ?c) fs @ replicate (?n - Suc (length fs)) None"
    using R' by simp
  finally have "rotate ((?k + 1) mod length ((rr_slots r)[?k := None])) ((rr_slots r)[?k := None])
      = rotate 1 (None # slots_of ?c ((?h + ?a) mod ?c) fs @ replicate (?n - Suc (length fs)) None)"
    unfolding rotate_mod_circular by simp
  also have "\<dots> = slots_of ?c ((?h + ?a) mod ?c) fs @ replicate (?n - Suc (length fs)) None @ [None]"
    by simp
  also have "replicate (?n - Suc (length fs)) (None :: slot option) @ [None] = replicate (?n - length fs) None"
    using le(4) by (metis Suc_diff_Suc Suc_le_lessD replicate_Suc replicate_append_same)
  finally have slots: "rotate ((?k + 1) mod ?n) ((rr_slots r)[?k := None])
      = slots_of ?c ((?h + ?a) mod ?c) fs @ replicate (?n - length fs) None" by simp
  have tail: "rr_byte_tail r = ((?h + ?a) mod ?c + length (records_bytes fs)) mod ?c"
    using R' by (simp add: mod_add_left_eq add.assoc)
  have seqs: "length fs \<le> unat (rr_next r)"
    "map (\<lambda>f. unat (fh_sequence (ur_header f))) fs = [unat (rr_next r) - length fs ..< unat (rr_next r)]"
  proof -
    show "length fs \<le> unat (rr_next r)" using R' by simp
    have m: "map (\<lambda>f. unat (fh_sequence (ur_header f))) (f # fs)
        = [unat (rr_next r) - Suc (length fs) ..< unat (rr_next r)]" and "Suc (length fs) \<le> unat (rr_next r)"
      using R' by simp_all
    then have "[unat (rr_next r) - Suc (length fs) ..< unat (rr_next r)]
        = (unat (rr_next r) - Suc (length fs)) # [unat (rr_next r) - length fs ..< unat (rr_next r)]"
      by (subst upt_conv_Cons) (simp_all add: Suc_diff_Suc Suc_le_eq)
    with m show "map (\<lambda>f. unat (fh_sequence (ur_header f))) fs = [unat (rr_next r) - length fs ..< unat (rr_next r)]"
      by simp
  qed
  have "(?h + ?a) mod ?c < ?c" "(?k + 1) mod ?n < ?n" using circular_lt le by blast+
  then show ?thesis
    unfolding ring_repr_def ring_frame_def ring_drop_head_def s
    using R' le lz bytes slots tail seqs by (simp add: z_def)
qed

lemma ring_retire_repr:
  "ring_repr r fs \<Longrightarrow> \<exists>r'. ring_retire n r = (r', Inr ()) \<and> ring_frame r r' \<and> rr_next r' = rr_next r \<and>
     ring_repr r' (dropWhile (\<lambda>f. fh_sequence (ur_header f) < n) fs)"
proof (induction fs arbitrary: r)
  case Nil
  then show ?case by (subst ring_retire.simps) (simp add: ring_repr_def)
next
  case (Cons f fs)
  note hd = head_slot [OF Cons.prems]
  have c: "rr_slot_count r \<noteq> 0" using Cons.prems by (simp add: ring_repr_def)
  show ?case
  proof (cases "fh_sequence (ur_header f) < n")
    case True
    define s where "s = \<lparr>sk_kind = fh_kind (ur_header f), sk_sequence = fh_sequence (ur_header f),
      sk_start = rr_byte_head r, sk_wire_len = length (record_bytes f)\<rparr>"
    note one = ring_drop_head_repr [OF Cons.prems s_def]
    obtain r' where "ring_retire n (ring_drop_head r s) = (r', Inr ())" "ring_frame (ring_drop_head r s) r'"
      "rr_next r' = rr_next (ring_drop_head r s)" "ring_repr r' (dropWhile (\<lambda>f. fh_sequence (ur_header f) < n) fs)"
      using Cons.IH one by blast
    moreover have nl: "\<not> n \<le> fh_sequence (ur_header f)" using True by simp
    moreover have "ring_retire n r = ring_retire n (ring_drop_head r s)"
      unfolding ring_retire.simps [of n r] hd using c nl by (simp add: s_def)
    ultimately show ?thesis
      using one True by (auto dest: ring_frame_trans)
  next
    case False
    then have "n \<le> fh_sequence (ur_header f)" by (simp add: not_less)
    then show ?thesis
      unfolding ring_retire.simps [of n r] hd using c False Cons.prems by simp
  qed
qed

lemma ring_first_unacknowledged_repr:
  assumes "ring_repr r fs"
  shows "ring_first_unacknowledged r = (case fs of [] \<Rightarrow> None | f # _ \<Rightarrow> Some (fh_sequence (ur_header f)))"
proof (cases fs)
  case Nil
  then show ?thesis using assms by (simp add: ring_first_unacknowledged_def ring_repr_def)
next
  case (Cons f fs')
  with assms head_slot [of r f fs'] show ?thesis
    by (simp add: ring_first_unacknowledged_def ring_repr_def)
qed

lemma committed_repr:
  assumes "ring_repr r fs"
  shows "unat (case ring_first_unacknowledged r of Some s \<Rightarrow> s | None \<Rightarrow> rr_next r) = unat (rr_next r) - length fs"
  using ring_first_unacknowledged_repr [OF assms] record_sequences [OF assms, of 0] by (cases fs) simp_all

lemma dropWhile_sequences:
  assumes R: "ring_repr r fs" and n: "unat (rr_next r) - length fs \<le> unat n" "n \<le> rr_next r"
  shows "dropWhile (\<lambda>f. fh_sequence (ur_header f) < n) fs = drop (unat n - (unat (rr_next r) - length fs)) fs"
proof -
  let ?k = "unat n - (unat (rr_next r) - length fs)"
  have k: "?k \<le> length fs" using n by (simp add: word_le_nat_alt)
  have "dropWhile (\<lambda>f. fh_sequence (ur_header f) < n) (take ?k fs @ drop ?k fs) = drop ?k fs"
  proof (subst dropWhile_append2)
    fix f assume "f \<in> set (take ?k fs)"
    then obtain i where "i < ?k" "f = fs ! i"
      using k by (auto simp: in_set_conv_nth)
    then show "fh_sequence (ur_header f) < n"
      using record_sequences [OF R, of i] k by (simp add: word_less_nat_alt)
  next
    show "dropWhile (\<lambda>f. fh_sequence (ur_header f) < n) (drop ?k fs) = drop ?k fs"
    proof (cases "?k < length fs")
      case True
      then have "unat (fh_sequence (ur_header (fs ! ?k))) = unat n"
        using record_sequences [OF R, of ?k] n by simp
      then have "\<not> fh_sequence (ur_header (fs ! ?k)) < n" by (simp add: word_less_nat_alt)
      then show ?thesis using True by (simp add: Cons_nth_drop_Suc [symmetric])
    qed simp
  qed
  then show ?thesis by simp
qed

lemma ring_acknowledge_repr:
  assumes R: "ring_repr r fs" and n: "unat (rr_next r) - length fs \<le> unat n" "n \<le> rr_next r"
  shows "\<exists>r'. ring_acknowledge r n = (r', Inr ()) \<and> ring_frame r r' \<and> rr_next r' = rr_next r \<and>
    ring_repr r' (drop (unat n - (unat (rr_next r) - length fs)) fs)"
proof -
  let ?gs = "drop (unat n - (unat (rr_next r) - length fs)) fs"
  obtain r' where r': "ring_retire n r = (r', Inr ())" "ring_frame r r'" "rr_next r' = rr_next r" "ring_repr r' ?gs"
    using ring_retire_repr [OF R, of n] unfolding dropWhile_sequences [OF R n] by blast
  have committed: "\<not> n < (case ring_first_unacknowledged r of Some s \<Rightarrow> s | None \<Rightarrow> rr_next r)"
    unfolding word_less_nat_alt committed_repr [OF R] using n by simp
  have "r'\<lparr>rr_byte_head := rr_byte_tail r'\<rparr> = r'" if "rr_slot_count r' = 0"
  proof -
    have "rr_byte_tail r' = rr_byte_head r'"
      using r'(4) that by (simp add: ring_repr_def)
    then show ?thesis by simp
  qed
  then have "ring_acknowledge r n = (r', Inr ())"
    using n committed r'(1) by (simp add: ring_acknowledge_def not_less)
  with r' show ?thesis by blast
qed

lemma ring_acknowledge_refused:
  assumes R: "ring_repr r fs"
  shows "n > rr_next r \<Longrightarrow> ring_acknowledge r n = (r, Inl Q_AckAhead)"
    and "n \<le> rr_next r \<Longrightarrow> unat n < unat (rr_next r) - length fs \<Longrightarrow> ring_acknowledge r n = (r, Inl Q_AckBehind)"
proof -
  show "n > rr_next r \<Longrightarrow> ring_acknowledge r n = (r, Inl Q_AckAhead)"
    by (simp add: ring_acknowledge_def)
  assume "n \<le> rr_next r" "unat n < unat (rr_next r) - length fs"
  moreover from this have "n < (case ring_first_unacknowledged r of Some s \<Rightarrow> s | None \<Rightarrow> rr_next r)"
    unfolding word_less_nat_alt committed_repr [OF R] by simp
  ultimately show "ring_acknowledge r n = (r, Inl Q_AckBehind)"
    by (simp add: ring_acknowledge_def)
qed

subsection \<open>Copying out and clearing\<close>

lemma slots_of_nth:
  "i < length fs \<Longrightarrow> cap > start \<Longrightarrow> slots_of cap start fs ! i = Some \<lparr>sk_kind = fh_kind (ur_header (fs ! i)),
     sk_sequence = fh_sequence (ur_header (fs ! i)),
     sk_start = (start + length (records_bytes (take i fs))) mod cap,
     sk_wire_len = length (record_bytes (fs ! i))\<rparr>"
proof (induction fs arbitrary: i start)
  case (Cons f fs)
  show ?case
  proof (cases i)
    case (Suc j)
    have "(start + length (record_bytes f)) mod cap < cap" by (rule circular_lt [OF Cons.prems(2)])
    with Cons.IH [of j "(start + length (record_bytes f)) mod cap"] Cons.prems Suc show ?thesis
      by (simp add: mod_add_left_eq add.assoc)
  qed (use Cons in simp)
qed simp

lemma ring_copy_unacked_repr:
  assumes R: "ring_repr r fs" and i: "i < length fs"
  shows "ring_copy_unacked r i out =
    (if length out < length (record_bytes (fs ! i)) then Inl Q_BufferTooSmall
     else Inr (splice_at 0 (record_bytes (fs ! i)) out,
       \<lparr>fc_kind = fh_kind (ur_header (fs ! i)), fc_sequence = fh_sequence (ur_header (fs ! i)),
        fc_wire_len = length (record_bytes (fs ! i))\<rparr>))"
proof -
  note R' = R [unfolded ring_repr_def]
  let ?c = "length (rr_bytes r)" and ?n = "length (rr_slots r)" and ?h = "rr_byte_head r"
  let ?pre = "records_bytes (take i fs)" and ?rec = "record_bytes (fs ! i)"
  have split: "records_bytes fs = ?pre @ ?rec @ records_bytes (drop (Suc i) fs)"
    using i by (metis append_Cons append_Nil id_take_nth_drop records_bytes_simps)
  have "rr_slots r ! ((rr_slot_head r + i) mod ?n) = rotate (rr_slot_head r) (rr_slots r) ! i"
    using R' i by (subst nth_rotate) auto
  also have "\<dots> = slots_of ?c ?h fs ! i" using R' i by (simp add: nth_append)
  also have "\<dots> = Some \<lparr>sk_kind = fh_kind (ur_header (fs ! i)), sk_sequence = fh_sequence (ur_header (fs ! i)),
      sk_start = (?h + length ?pre) mod ?c, sk_wire_len = length ?rec\<rparr>"
    using R' i by (intro slots_of_nth) simp_all
  finally have slot: "rr_slots r ! ((rr_slot_head r + i) mod ?n) = Some \<lparr>sk_kind = fh_kind (ur_header (fs ! i)),
      sk_sequence = fh_sequence (ur_header (fs ! i)), sk_start = (?h + length ?pre) mod ?c,
      sk_wire_len = length ?rec\<rparr>" .
  have "length ?pre + length ?rec \<le> ?c" using R' split by simp
  moreover have "(?h + length ?pre) mod ?c < ?c" using R' by (intro circular_lt) simp
  ultimately have "read_circular (rr_bytes r) ((?h + length ?pre) mod ?c) (length ?rec)
      = take (length ?rec) (rotate (length ?pre) (rotate ?h (rr_bytes r)))"
    by (simp add: read_circular_rotate rotate_mod_circular)
  also have "rotate ?h (rr_bytes r) = ?pre @ ?rec @ records_bytes (drop (Suc i) fs) @ replicate (?c - length (records_bytes fs)) 0"
    using R' split by simp
  also have "rotate (length ?pre) (?pre @ ?rec @ records_bytes (drop (Suc i) fs) @ replicate (?c - length (records_bytes fs)) 0)
      = (?rec @ records_bytes (drop (Suc i) fs) @ replicate (?c - length (records_bytes fs)) 0) @ ?pre"
    by (rule rotate_append)
  finally have rd: "read_circular (rr_bytes r) ((?h + length ?pre) mod ?c) (length ?rec) = ?rec" by simp
  show ?thesis
    using R' i slot rd by (simp add: ring_copy_unacked_def)
qed

lemma length_clear_slots [simp]: "length (clear_slots k h xs) = length xs"
  by (induction k) simp_all

lemma rotate_clear_slots:
  "h < length xs \<Longrightarrow> k \<le> length xs \<Longrightarrow> rotate h (clear_slots k h xs) = replicate k None @ drop k (rotate h xs)"
proof (induction k)
  case (Suc k)
  have "rotate h (clear_slots (Suc k) h xs) = (rotate h (clear_slots k h xs))[k := None]"
    using rotate_update [of h "clear_slots k h xs" k None] Suc.prems by simp
  also have "\<dots> = (replicate k None @ drop k (rotate h xs))[k := None]" using Suc by simp
  also have "\<dots> = replicate (Suc k) None @ drop (Suc k) (rotate h xs)"
    using Suc.prems by (simp add: list_update_append Cons_nth_drop_Suc [symmetric] replicate_app_Cons_same)
  finally show ?case .
qed simp

lemma rotate_replicate_eq:
  assumes "rotate h xs = replicate n z"
  shows "xs = replicate n z"
proof (rule replicate_eqI)
  show "length xs = n" using assms by (metis length_replicate length_rotate)
  show "y = z" if "y \<in> set xs" for y
    using assms that by (metis in_set_replicate set_rotate)
qed

lemma ring_clear_repr:
  assumes R: "ring_repr r fs"
  shows "ring_repr (ring_clear_and_restart r) [] \<and> ring_frame r (ring_clear_and_restart r) \<and>
    rr_next (ring_clear_and_restart r) = 0"
proof -
  let ?n = "length (rr_slots r)" and ?cl = "clear_slots (rr_slot_count r) (rr_slot_head r) (rr_slots r)"
  have R': "rr_slot_head r < ?n" "rr_slot_count r = length fs" "length fs \<le> ?n" "rr_byte_head r < length (rr_bytes r)"
    "rotate (rr_slot_head r) (rr_slots r) = slots_of (length (rr_bytes r)) (rr_byte_head r) fs @ replicate (?n - length fs) None"
    using R by (simp_all add: ring_repr_def)
  then have "rotate (rr_slot_head r) ?cl = replicate ?n None"
    by (simp add: rotate_clear_slots replicate_add [symmetric])
  then have "?cl = replicate ?n None" by (rule rotate_replicate_eq)
  then show ?thesis
    using R' by (auto simp: ring_repr_def ring_frame_def ring_clear_and_restart_def)
qed

lemma ring_can_accept_repr:
  assumes R: "ring_repr r fs"
  shows "ring_can_accept r kind len \<longleftrightarrow>
    ring_validate_shape r kind len = Inr () \<and> rr_next r \<noteq> - 1 \<and> ring_fits r fs len"
proof (cases "ring_validate_shape r kind len = Inr ()")
  case True
  have "len < 2 ^ 32"
    using True payload_bounds_small [of kind] unfolding validate_shape_ok by linarith
  then show ?thesis
    using R True by (auto simp: ring_can_accept_def ring_fits_def ring_repr_def checked_add_usize_def UDP_HEADER_LEN_def)
qed (simp add: ring_can_accept_def)

section \<open>Refinement of a bounded queue\<close>

text \<open>The abstract queue: the retained records, the next sequence number and the two bounds.\<close>

record replay_spec =
  rp_stream :: stream_role
  rp_byte_cap :: usize
  rp_op_cap :: usize
  rp_records :: "udp_record list"
  rp_next :: u64

datatype ring_op =
    Ring_Push udp_kind bytes | Ring_Acknowledge u64 | Ring_Copy usize bytes
  | Ring_CopySequence u64 bytes | Ring_CanAccept udp_kind usize | Ring_Clear | Ring_RestartControl

datatype ring_out =
    Ring_Pushed "queue_error + u64" | Ring_Acknowledged "queue_error + unit"
  | Ring_Copied "queue_error + bytes \<times> frame_copy" | Ring_Accepts bool

fun ring_step :: "replay_ring \<Rightarrow> ring_op \<Rightarrow> replay_ring \<times> ring_out list" where
  "ring_step r (Ring_Push kind payload) =
     (case ring_push r kind payload of
        Inl e \<Rightarrow> (r, [Ring_Pushed (Inl e)])
      | Inr (r', sequence) \<Rightarrow> (r', [Ring_Pushed (Inr sequence)]))"
| "ring_step r (Ring_Acknowledge n) =
     (case ring_acknowledge r n of (r', res) \<Rightarrow> (r', [Ring_Acknowledged res]))"
| "ring_step r (Ring_Copy i out) = (r, [Ring_Copied (ring_copy_unacked r i out)])"
| "ring_step r (Ring_CopySequence n out) = (r, [Ring_Copied (ring_copy_sequence r n out)])"
| "ring_step r (Ring_CanAccept kind len) = (r, [Ring_Accepts (ring_can_accept r kind len)])"
| "ring_step r Ring_Clear = (ring_clear_and_restart r, [])"
| "ring_step r Ring_RestartControl = (ring_restart_control_after_hello r, [])"

definition spec_shape :: "stream_role \<Rightarrow> udp_kind \<Rightarrow> usize \<Rightarrow> queue_error option" where
  "spec_shape stream kind len =
     (if kind_stream kind \<noteq> stream then Some (Q_Wire (We_KindNotAllowed kind stream))
      else if len > snd (payload_bounds kind default_udp_limits)
      then Some (Q_Wire (We_PayloadTooLarge kind len (snd (payload_bounds kind default_udp_limits))))
      else if len < fst (payload_bounds kind default_udp_limits) then Some (Q_Wire (We_LengthInvalid kind len))
      else None)"

definition spec_fits :: "replay_spec \<Rightarrow> usize \<Rightarrow> bool" where
  "spec_fits q len \<longleftrightarrow> length (rp_records q) < rp_op_cap q \<and>
     length (records_bytes (rp_records q)) + UDP_HEADER_LEN + len \<le> rp_byte_cap q"

definition spec_committed :: "replay_spec \<Rightarrow> nat" where
  "spec_committed q = unat (rp_next q) - length (rp_records q)"

definition spec_copy :: "replay_spec \<Rightarrow> usize \<Rightarrow> bytes \<Rightarrow> queue_error + bytes \<times> frame_copy" where
  "spec_copy q i out =
     (if i \<ge> length (rp_records q) then Inl Q_SequenceGap
      else let f = rp_records q ! i in
        if length out < length (record_bytes f) then Inl Q_BufferTooSmall
        else Inr (splice_at 0 (record_bytes f) out,
               \<lparr>fc_kind = fh_kind (ur_header f), fc_sequence = fh_sequence (ur_header f),
                fc_wire_len = length (record_bytes f)\<rparr>))"

fun spec_step :: "replay_spec \<Rightarrow> ring_op \<Rightarrow> replay_spec \<times> ring_out list" where
  "spec_step q (Ring_Push kind payload) =
     (case spec_shape (rp_stream q) kind (length payload) of
        Some e \<Rightarrow> (q, [Ring_Pushed (Inl e)])
      | None \<Rightarrow>
          if \<not> spec_fits q (length payload) then (q, [Ring_Pushed (Inl Q_Full)])
          else if rp_next q = - 1 then (q, [Ring_Pushed (Inl Q_SequenceOverflow)])
          else (q\<lparr>rp_records := rp_records q @ [ring_record (rp_next q) (kind, payload)],
                  rp_next := rp_next q + 1\<rparr>, [Ring_Pushed (Inr (rp_next q))]))"
| "spec_step q (Ring_Acknowledge n) =
     (if n > rp_next q then (q, [Ring_Acknowledged (Inl Q_AckAhead)])
      else if unat n < spec_committed q then (q, [Ring_Acknowledged (Inl Q_AckBehind)])
      else (q\<lparr>rp_records := drop (unat n - spec_committed q) (rp_records q)\<rparr>, [Ring_Acknowledged (Inr ())]))"
| "spec_step q (Ring_Copy i out) = (q, [Ring_Copied (spec_copy q i out)])"
| "spec_step q (Ring_CopySequence n out) =
     (q, [Ring_Copied (if unat n < spec_committed q \<or> rp_records q = [] then Inl Q_SequenceGap
                       else spec_copy q (unat n - spec_committed q) out)])"
| "spec_step q (Ring_CanAccept kind len) =
     (q, [Ring_Accepts (spec_shape (rp_stream q) kind len = None \<and> rp_next q \<noteq> - 1 \<and> spec_fits q len)])"
| "spec_step q Ring_Clear = (q\<lparr>rp_records := [], rp_next := 0\<rparr>, [])"
| "spec_step q Ring_RestartControl = (q\<lparr>rp_records := [], rp_next := 1\<rparr>, [])"

definition ring_rel :: "replay_ring \<Rightarrow> replay_spec \<Rightarrow> bool" where
  "ring_rel r q \<longleftrightarrow> ring_repr r (rp_records q) \<and> rp_next q = rr_next r \<and> rp_stream q = rr_stream r \<and>
     rp_byte_cap q = length (rr_bytes r) \<and> rp_op_cap q = length (rr_slots r)"

lemma spec_shape_validate:
  "ring_validate_shape r kind len = (case spec_shape (rr_stream r) kind len of None \<Rightarrow> Inr () | Some e \<Rightarrow> Inl e)"
  by (auto simp: ring_validate_shape_def spec_shape_def split: prod.splits)

lemma spec_fits_ring: "ring_rel r q \<Longrightarrow> spec_fits q len = ring_fits r (rp_records q) len"
  by (simp add: spec_fits_def ring_fits_def ring_rel_def)

lemma spec_committed_ring: "ring_rel r q \<Longrightarrow> spec_committed q = unat (rr_next r) - length (rp_records q)"
  by (simp add: spec_committed_def ring_rel_def)

lemma ring_copy_rel: "ring_rel r q \<Longrightarrow> ring_copy_unacked r i out = spec_copy q i out"
  using ring_copy_unacked_repr [of r "rp_records q" i out]
  by (cases "i < length (rp_records q)") (auto simp: spec_copy_def ring_rel_def ring_copy_unacked_def ring_repr_def Let_def)

lemma ring_push_sim:
  assumes rel: "ring_rel r q"
  shows "ring_rel (fst (ring_step r (Ring_Push kind payload))) (fst (spec_step q (Ring_Push kind payload))) \<and>
    snd (ring_step r (Ring_Push kind payload)) = snd (spec_step q (Ring_Push kind payload))"
proof (cases "spec_shape (rr_stream r) kind (length payload)")
  case (Some e)
  then have "ring_push r kind payload = Inl e"
    by (simp add: ring_push_def spec_shape_validate)
  with Some rel show ?thesis by (simp add: ring_rel_def)
next
  case None
  have R: "ring_repr r (rp_records q)" "rp_stream q = rr_stream r" "rp_next q = rr_next r"
    using rel by (simp_all add: ring_rel_def)
  have sh: "ring_validate_shape r kind (length payload) = Inr ()" using None by (simp add: spec_shape_validate)
  note fits = spec_fits_ring [OF rel, of "length payload"]
  show ?thesis
  proof (cases "ring_fits r (rp_records q) (length payload) \<and> rr_next r \<noteq> - 1")
    case True
    obtain r' where p: "ring_push r kind payload = Inr (r', rr_next r)"
      using ring_push_succeeds [OF R(1) sh] True by blast
    from ring_push_repr [OF R(1) p] rel show ?thesis
      using True None R p fits by (simp add: ring_rel_def ring_frame_def)
  next
    case False
    with ring_push_refused [OF R(1) sh] None R rel fits show ?thesis
      by (cases "ring_fits r (rp_records q) (length payload)") (simp_all add: ring_rel_def)
  qed
qed

lemma ring_acknowledge_sim:
  assumes rel: "ring_rel r q"
  shows "ring_rel (fst (ring_step r (Ring_Acknowledge n))) (fst (spec_step q (Ring_Acknowledge n))) \<and>
    snd (ring_step r (Ring_Acknowledge n)) = snd (spec_step q (Ring_Acknowledge n))"
proof -
  have R: "ring_repr r (rp_records q)" "rp_next q = rr_next r"
    using rel by (simp_all add: ring_rel_def)
  note c = spec_committed_ring [OF rel]
  consider "n > rr_next r" | "n \<le> rr_next r" "unat n < spec_committed q" | "n \<le> rr_next r" "spec_committed q \<le> unat n"
    by (metis linorder_not_le)
  then show ?thesis
  proof cases
    case 1
    then show ?thesis using ring_acknowledge_refused(1) [OF R(1)] R rel by simp
  next
    case 2
    then show ?thesis using ring_acknowledge_refused(2) [OF R(1)] R rel c by simp
  next
    case 3
    then obtain r' where "ring_acknowledge r n = (r', Inr ())" "ring_frame r r'" "rr_next r' = rr_next r"
        "ring_repr r' (drop (unat n - spec_committed q) (rp_records q))"
      using ring_acknowledge_repr [OF R(1), of n] unfolding c by blast
    with 3 R rel show ?thesis by (simp add: ring_rel_def ring_frame_def)
  qed
qed

lemma ring_copy_sequence_rel:
  assumes rel: "ring_rel r q"
  shows "ring_copy_sequence r n out = (if unat n < spec_committed q \<or> rp_records q = [] then Inl Q_SequenceGap
    else spec_copy q (unat n - spec_committed q) out)"
proof (cases "rp_records q")
  case Nil
  then show ?thesis
    using rel ring_first_unacknowledged_repr [of r "[]"] by (simp add: ring_copy_sequence_def ring_rel_def)
next
  case (Cons f fs)
  have R: "ring_repr r (f # fs)" using rel Cons by (simp add: ring_rel_def)
  have seq: "unat (fh_sequence (ur_header f)) = spec_committed q"
    using record_sequences [OF R, of 0] spec_committed_ring [OF rel] Cons by simp
  then have "unat (n - fh_sequence (ur_header f)) = unat n - spec_committed q" if "\<not> n < fh_sequence (ur_header f)"
    using that by (simp add: unat_sub not_less)
  then show ?thesis
    using Cons seq ring_first_unacknowledged_repr [OF R] ring_copy_rel [OF rel]
    by (simp add: ring_copy_sequence_def word_less_nat_alt)
qed

interpretation ring: simulation ring_step spec_step ring_rel
proof
  fix r q e assume rel: "ring_rel r q"
  then have R: "ring_repr r (rp_records q)" by (simp add: ring_rel_def)
  show "ring_rel (fst (ring_step r e)) (fst (spec_step q e)) \<and> snd (ring_step r e) = snd (spec_step q e)"
  proof (cases e)
    case (Ring_Push kind payload)
    with ring_push_sim [OF rel] show ?thesis by simp
  next
    case (Ring_Acknowledge n)
    with ring_acknowledge_sim [OF rel] show ?thesis by simp
  next
    case (Ring_CanAccept kind len)
    with rel ring_can_accept_repr [OF R, of kind len] spec_fits_ring [OF rel, of len] show ?thesis
      by (auto simp: ring_rel_def spec_shape_validate split: option.splits)
  next
    case Ring_Clear
    with ring_clear_repr [OF R] rel show ?thesis by (simp add: ring_rel_def ring_frame_def)
  next
    case Ring_RestartControl
    with ring_clear_repr [OF R] rel show ?thesis
      by (simp add: ring_rel_def ring_frame_def ring_repr_def ring_restart_control_after_hello_def)
  qed (use rel in \<open>simp_all add: ring_copy_rel ring_copy_sequence_rel\<close>)
qed

definition spec_init :: "stream_role \<Rightarrow> usize \<Rightarrow> usize \<Rightarrow> replay_spec" where
  "spec_init stream b c = \<lparr>rp_stream = stream, rp_byte_cap = b, rp_op_cap = c, rp_records = [], rp_next = 0\<rparr>"

lemma ring_init_rel: "ring_with_capacities alloc stream b c = Inr r \<Longrightarrow> ring_rel r (spec_init stream b c)"
  using ring_with_capacities_repr [of alloc stream b c r] by (simp add: ring_rel_def spec_init_def)

text \<open>C20: over every history of pushes, acknowledgements, copies and restarts the ring answers
  exactly like a bounded queue of records with a sequence counter, and its two circular buffers
  hold the retained records and nothing else: what was acknowledged has been zeroed.\<close>

theorem ring_refines_queue:
  "case ring_with_capacities alloc stream b c of
     Inl e \<Rightarrow> True
   | Inr r \<Rightarrow>
       let (r', outs) = run_events ring_step r ops; (q, spec_outs) = run_events spec_step (spec_init stream b c) ops
       in outs = spec_outs \<and> ring_repr r' (rp_records q) \<and> rr_next r' = rp_next q"
  using ring.run_sim [OF ring_init_rel, of alloc stream b c _ ops]
  by (auto simp: split_beta Let_def ring_rel_def split: sum.split)

section \<open>The delivery gate\<close>

datatype delivery_decision = Deliver | Duplicate

record delivery_gate =
  dg_epoch :: u64
  dg_next_expected :: u64
  dg_pending :: "(u64 \<times> u64) option"

definition gate_new :: "u64 \<Rightarrow> u64 \<Rightarrow> delivery_gate" where
  "gate_new epoch expected = \<lparr>dg_epoch = epoch, dg_next_expected = expected, dg_pending = None\<rparr>"

definition gate_begin :: "delivery_gate \<Rightarrow> u64 \<Rightarrow> u64 \<Rightarrow> delivery_gate \<times> (queue_error + delivery_decision)" where
  "gate_begin g epoch sequence =
     (if epoch \<noteq> dg_epoch g then (g, Inl Q_EpochMismatch)
      else if dg_pending g \<noteq> None then (g, Inl Q_DeliveryPending)
      else if sequence < dg_next_expected g then (g, Inr Duplicate)
      else if sequence > dg_next_expected g then (g, Inl Q_SequenceGap)
      else (g\<lparr>dg_pending := Some (epoch, sequence)\<rparr>, Inr Deliver))"

definition gate_commit :: "delivery_gate \<Rightarrow> u64 \<Rightarrow> u64 \<Rightarrow> delivery_gate \<times> (queue_error + unit)" where
  "gate_commit g epoch sequence =
     (if dg_pending g \<noteq> Some (epoch, sequence) then (g, Inl Q_DeliveryNotPending)
      else case checked_add (dg_next_expected g) 1 of
        None \<Rightarrow> (g, Inl Q_SequenceOverflow)
      | Some n \<Rightarrow> (g\<lparr>dg_next_expected := n, dg_pending := None\<rparr>, Inr ()))"

definition gate_abort :: "delivery_gate \<Rightarrow> u64 \<Rightarrow> u64 \<Rightarrow> delivery_gate \<times> (queue_error + unit)" where
  "gate_abort g epoch sequence =
     (if dg_pending g \<noteq> Some (epoch, sequence) then (g, Inl Q_DeliveryNotPending)
      else (g\<lparr>dg_pending := None\<rparr>, Inr ()))"

definition gate_reset_epoch :: "delivery_gate \<Rightarrow> u64 \<Rightarrow> u64 \<Rightarrow> delivery_gate \<times> (queue_error + unit)" where
  "gate_reset_epoch g epoch expected =
     (if dg_pending g \<noteq> None then (g, Inl Q_DeliveryPending)
      else (g\<lparr>dg_epoch := epoch, dg_next_expected := expected\<rparr>, Inr ()))"

lemma can_accept_push:
  assumes "ring_can_accept r kind (length payload)"
  shows "\<exists>r' n. ring_push r kind payload = Inr (r', n)"
proof -
  have shape: "ring_validate_shape r kind (length payload) = Inr ()"
    using assms by (auto simp: ring_can_accept_def split: if_splits)
  then have "length payload < 2 ^ 32" by (rule ring_record_ok(2))
  with assms shape have "ring_push r kind payload \<noteq> Inl e" for e
    by (auto simp: ring_can_accept_def ring_push_def Let_def split_beta split: if_splits option.splits)
  then show ?thesis by (cases "ring_push r kind payload") auto
qed

section \<open>A ring and a gate over a lossy connection\<close>

text \<open>What is sent is what \<open>copy_unacked\<close> copies out of the ring; the receiver decodes it, and
  delivers it between \<open>begin\<close> and \<open>commit\<close> of its gate.\<close>

definition ring_wire :: "replay_ring \<Rightarrow> usize \<Rightarrow> bytes" where
  "ring_wire r i =
     (case ring_copy_unacked r i (replicate (length (rr_bytes r)) 0) of
        Inl e \<Rightarrow> []
      | Inr (out, fc) \<Rightarrow> take (fc_wire_len fc) out)"

definition ring_pending :: "replay_ring \<Rightarrow> bytes list" where
  "ring_pending r = map (ring_wire r) [0 ..< rr_slot_count r]"

definition ring_link_push :: "replay_ring \<Rightarrow> udp_kind \<times> bytes \<Rightarrow> replay_ring option" where
  "ring_link_push r p = (case ring_push r (fst p) (snd p) of Inl e \<Rightarrow> None | Inr (r', n) \<Rightarrow> Some r')"

definition ring_link_ack :: "replay_ring \<Rightarrow> nat \<Rightarrow> replay_ring option" where
  "ring_link_ack r n =
     (if n < 2 ^ 64 then (case ring_acknowledge r (of_nat n) of (r', Inl e) \<Rightarrow> None | (r', Inr _) \<Rightarrow> Some r')
      else None)"

definition gate_receive ::
  "stream_role \<Rightarrow> delivery_gate \<Rightarrow> bytes \<Rightarrow> delivery_gate \<times> (udp_kind \<times> bytes) option" where
  "gate_receive stream g bs =
     (case decode_record stream default_udp_limits bs of
        Inl e \<Rightarrow> (g, None)
      | Inr (f, n) \<Rightarrow>
          let sequence = fh_sequence (ur_header f) in
          (case gate_begin g (dg_epoch g) sequence of
             (g1, Inr Deliver) \<Rightarrow>
               (case gate_commit g1 (dg_epoch g1) sequence of
                  (g2, Inr _) \<Rightarrow> (g2, Some (fh_kind (ur_header f), ur_payload f))
                | (g2, Inl e) \<Rightarrow> (g2, None))
           | (g1, _) \<Rightarrow> (g1, None)))"

definition wire_number :: "stream_role \<Rightarrow> bytes \<Rightarrow> nat" where
  "wire_number stream bs =
     (case decode_record stream default_udp_limits bs of
        Inl e \<Rightarrow> 0 | Inr (f, n) \<Rightarrow> Suc (unat (fh_sequence (ur_header f))))"

definition wire_payload :: "stream_role \<Rightarrow> bytes \<Rightarrow> udp_kind \<times> bytes" where
  "wire_payload stream bs =
     (case decode_record stream default_udp_limits bs of
        Inl e \<Rightarrow> (UKind_Detach, []) | Inr (f, n) \<Rightarrow> (fh_kind (ur_header f), ur_payload f))"

definition sent_record :: "stream_role \<Rightarrow> bytes \<Rightarrow> bool" where
  "sent_record stream bs \<longleftrightarrow> (\<exists>f. record_ok stream default_udp_limits f \<and> bs = record_bytes f \<and>
     fh_sequence (ur_header f) \<noteq> - 1)"

definition ring_inv :: "stream_role \<Rightarrow> replay_ring \<Rightarrow> bool" where
  "ring_inv stream r \<longleftrightarrow> rr_stream r = stream \<and> (\<exists>fs. ring_repr r fs)"

definition ring_acked :: "replay_ring \<Rightarrow> nat" where
  "ring_acked r = unat (rr_next r) - rr_slot_count r"

definition gate_inv :: "bool \<Rightarrow> delivery_gate \<Rightarrow> bool" where
  "gate_inv closed g \<longleftrightarrow> \<not> closed \<and> dg_pending g = None"

definition gate_delivered :: "delivery_gate \<Rightarrow> nat" where
  "gate_delivered g = unat (dg_next_expected g)"

lemma decode_sent:
  "record_ok stream default_udp_limits f \<Longrightarrow>
   decode_record stream default_udp_limits (record_bytes f) = Inr (f, length (record_bytes f))"
  using records.pdec_enc [of stream default_udp_limits f "[]"] by simp

lemma wire_number_record:
  "record_ok stream default_udp_limits f \<Longrightarrow> wire_number stream (record_bytes f) = Suc (unat (fh_sequence (ur_header f)))"
  "record_ok stream default_udp_limits f \<Longrightarrow> wire_payload stream (record_bytes f) = (fh_kind (ur_header f), ur_payload f)"
  by (simp_all add: wire_number_def wire_payload_def decode_sent)

lemma record_bytes_le: "f \<in> set fs \<Longrightarrow> length (record_bytes f) \<le> length (records_bytes fs)"
  by (induction fs) auto

lemma ring_pending_repr:
  assumes R: "ring_repr r fs"
  shows "ring_pending r = map record_bytes fs"
proof (rule nth_equalityI)
  show "length (ring_pending r) = length (map record_bytes fs)" using R by (simp add: ring_pending_def ring_repr_def)
  fix i assume "i < length (ring_pending r)"
  then have i: "i < length fs" using R by (simp add: ring_pending_def ring_repr_def)
  have "length (record_bytes (fs ! i)) \<le> length (records_bytes fs)"
    using i by (intro record_bytes_le) simp
  also have "\<dots> \<le> length (rr_bytes r)" using R by (simp add: ring_repr_def)
  finally have "ring_wire r i = record_bytes (fs ! i)"
    unfolding ring_wire_def ring_copy_unacked_repr [OF R i] by (simp add: splice_at_def)
  then show "ring_pending r ! i = map record_bytes fs ! i"
    using i R by (simp add: ring_pending_def ring_repr_def)
qed

lemma ring_repr_number:
  assumes R: "ring_repr r fs" and f: "f \<in> set fs"
  shows "record_ok (rr_stream r) default_udp_limits f \<and> fh_sequence (ur_header f) \<noteq> - 1"
proof
  show "record_ok (rr_stream r) default_udp_limits f" using R f by (auto simp: ring_repr_def list_all_iff)
  obtain i where i: "i < length fs" "f = fs ! i" using f by (metis in_set_conv_nth)
  have "length fs \<le> unat (rr_next r)" using R by (simp add: ring_repr_def)
  with record_sequences [OF R i(1)] i have "unat (fh_sequence (ur_header f)) < unat (rr_next r)" by simp
  also have "\<dots> < 2 ^ 64" using unat_lt_64 [of "rr_next r"] by simp
  finally show "fh_sequence (ur_header f) \<noteq> - 1"
    using \<open>unat (fh_sequence (ur_header f)) < unat (rr_next r)\<close> unat_lt_64 [of "rr_next r"]
      unat_max_iff_64 [of "fh_sequence (ur_header f)"] by auto
qed

lemma map_wire_number:
  assumes R: "ring_repr r fs"
  shows "map (wire_number (rr_stream r)) (ring_pending r) = [Suc (ring_acked r) ..< Suc (ring_acked r + length fs)]"
    and "map (wire_payload (rr_stream r)) (ring_pending r) = map (\<lambda>f. (fh_kind (ur_header f), ur_payload f)) fs"
proof -
  note R' = R [unfolded ring_repr_def]
  have "map (wire_number (rr_stream r)) (ring_pending r) = map Suc (map (\<lambda>f. unat (fh_sequence (ur_header f))) fs)"
    unfolding ring_pending_repr [OF R] using ring_repr_number [OF R] by (simp add: wire_number_record)
  also have "\<dots> = map Suc [ring_acked r ..< ring_acked r + length fs]"
    using R' by (simp add: ring_acked_def)
  finally show "map (wire_number (rr_stream r)) (ring_pending r) = [Suc (ring_acked r) ..< Suc (ring_acked r + length fs)]"
    by (simp only: map_Suc_upt)
  show "map (wire_payload (rr_stream r)) (ring_pending r) = map (\<lambda>f. (fh_kind (ur_header f), ur_payload f)) fs"
    unfolding ring_pending_repr [OF R] using ring_repr_number [OF R] by (simp add: wire_number_record)
qed

lemma gate_receive_record:
  assumes "record_ok stream default_udp_limits f" "dg_pending g = None" "fh_sequence (ur_header f) \<noteq> - 1"
  shows "gate_receive stream g (record_bytes f) =
    (if fh_sequence (ur_header f) = dg_next_expected g
     then (g\<lparr>dg_next_expected := dg_next_expected g + 1, dg_pending := None\<rparr>, Some (fh_kind (ur_header f), ur_payload f))
     else (g, None))"
proof -
  have "checked_add (fh_sequence (ur_header f)) 1 = Some (fh_sequence (ur_header f) + 1)"
    using unat_Suc_64 [OF assms(3)] by (simp add: checked_add_eq_Some_iff)
  then show ?thesis
    using assms by (auto simp: gate_receive_def decode_sent gate_begin_def gate_commit_def Let_def)
qed

lemma gate_receive_other:
  "dg_pending g = None \<Longrightarrow> wire_number stream bs \<noteq> Suc (gate_delivered g) \<Longrightarrow> gate_receive stream g bs = (g, None)"
  by (auto simp: gate_receive_def wire_number_def gate_delivered_def gate_begin_def Let_def word_less_nat_alt
      word_unat_eq_iff split: sum.splits prod.splits delivery_decision.splits if_splits)

lemma ring_link_push_law:
  assumes "ring_inv stream r" "ring_link_push r p = Some r'"
  shows "ring_inv stream r' \<and> ring_acked r' = ring_acked r \<and>
    map (wire_payload stream) (ring_pending r') = map (wire_payload stream) (ring_pending r) @ [p]"
proof -
  obtain fs where R: "ring_repr r fs" and st: "rr_stream r = stream" using assms(1) by (auto simp: ring_inv_def)
  obtain kind payload n where p: "p = (kind, payload)" "ring_push r kind payload = Inr (r', n)"
    using assms(2) by (cases p) (auto simp: ring_link_push_def split: sum.splits)
  note P = ring_push_repr [OF R p(2)]
  then have R': "ring_repr r' (fs @ [ring_record (rr_next r) (kind, payload)])" and st': "rr_stream r' = stream"
    using st by (simp_all add: ring_frame_def)
  have "unat (rr_next r') = Suc (unat (rr_next r))" using P unat_Suc_64 by simp
  moreover have "length fs \<le> unat (rr_next r)" using R by (simp add: ring_repr_def)
  ultimately have "ring_acked r' = ring_acked r" using R R' by (simp add: ring_acked_def ring_repr_def)
  moreover have "map (wire_payload stream) (ring_pending r') = map (wire_payload stream) (ring_pending r) @ [p]"
    using map_wire_number(2) [OF R] map_wire_number(2) [OF R'] st st' p(1) by (simp add: ring_record_def)
  ultimately show ?thesis using R' st' by (auto simp: ring_inv_def)
qed

lemma ring_link_ack_law:
  assumes "ring_inv stream r" "ring_acked r \<le> n" "n \<le> ring_acked r + length (ring_pending r)"
  shows "\<exists>r'. ring_link_ack r n = Some r' \<and> ring_inv stream r' \<and> ring_acked r' = n \<and>
    ring_pending r' = drop (n - ring_acked r) (ring_pending r)"
proof -
  obtain fs where R: "ring_repr r fs" and st: "rr_stream r = stream" using assms(1) by (auto simp: ring_inv_def)
  have cnt: "rr_slot_count r = length fs" "length fs \<le> unat (rr_next r)" using R by (simp_all add: ring_repr_def)
  then have n: "n \<le> unat (rr_next r)" "unat (rr_next r) - length fs \<le> n"
    using assms(2,3) by (simp_all add: ring_acked_def ring_pending_def)
  have lt: "n < 2 ^ 64" using n(1) unat_lt_64 [of "rr_next r"] by simp
  then have w: "unat (of_nat n :: u64) = n" by (simp add: unsigned_of_nat take_bit_nat_eq_self)
  obtain r' where r': "ring_acknowledge r (of_nat n) = (r', Inr ())" "ring_frame r r'" "rr_next r' = rr_next r"
      "ring_repr r' (drop (n - (unat (rr_next r) - length fs)) fs)"
    using ring_acknowledge_repr [OF R, of "of_nat n"] n w by (auto simp: word_le_nat_alt)
  have "rr_slot_count r' = length fs - (n - (unat (rr_next r) - length fs))"
    using r'(4) by (simp add: ring_repr_def)
  then have "ring_acked r' = n" using r'(3) n cnt by (simp add: ring_acked_def)
  moreover have "ring_pending r' = drop (n - ring_acked r) (ring_pending r)"
    unfolding ring_pending_repr [OF R] ring_pending_repr [OF r'(4)] using cnt by (simp add: ring_acked_def drop_map)
  moreover have "ring_inv stream r'" using r'(2,4) st by (auto simp: ring_inv_def ring_frame_def)
  ultimately show ?thesis using lt r'(1) by (auto simp: ring_link_ack_def)
qed

interpretation udp_link: reliable_link ring_link_push ring_link_ack ring_pending "gate_receive stream"
  gate_delivered "\<lambda>_. True" "\<lambda>_. False" "ring_inv stream" ring_acked gate_inv "wire_number stream"
  "wire_payload stream" "sent_record stream"
  for stream
proof (unfold_locales, goal_cases)
  case (1 r)
  then obtain fs where R: "ring_repr r fs" "rr_stream r = stream" by (auto simp: ring_inv_def)
  then show ?case
    using map_wire_number(1) [OF R(1)] by (simp add: ring_pending_repr del: upt_Suc)
next
  case (2 r)
  then obtain fs where R: "ring_repr r fs" "rr_stream r = stream" by (auto simp: ring_inv_def)
  then show ?case
    using ring_repr_number [OF R(1)] by (auto simp: ring_pending_repr list_all_iff sent_record_def)
next
  case (3 r p r')
  then show ?case using ring_link_push_law by blast
next
  case (4 r n)
  then show ?case by (rule ring_link_ack_law)
next
  case (5 r n r')
  then obtain fs where R: "ring_repr r fs" by (auto simp: ring_inv_def)
  have "length fs \<le> unat (rr_next r)" "rr_slot_count r = length fs" using R by (simp_all add: ring_repr_def)
  with 5 have n: "n < unat (rr_next r) - length fs" "n < 2 ^ 64"
    using unat_lt_64 [of "rr_next r"] by (simp_all add: ring_acked_def)
  then have w: "unat (of_nat n :: u64) = n" by (simp add: unsigned_of_nat take_bit_nat_eq_self)
  then have "of_nat n \<le> rr_next r" using n by (simp add: word_le_nat_alt)
  with ring_acknowledge_refused(2) [OF R, of "of_nat n"] n w 5 show ?case
    by (simp add: ring_link_ack_def)
next
  case (6 c g bs)
  then show ?case by (intro gate_receive_other) (auto simp: gate_inv_def)
next
  case (7 g bs)
  then obtain f where f: "record_ok stream default_udp_limits f" "bs = record_bytes f" "fh_sequence (ur_header f) \<noteq> - 1"
    by (auto simp: sent_record_def)
  have "unat (fh_sequence (ur_header f)) = unat (dg_next_expected g)"
    using 7 f by (simp add: wire_number_record gate_delivered_def)
  then have "fh_sequence (ur_header f) = dg_next_expected g" by (simp add: word_unat_eq_iff)
  with 7 f gate_receive_record [OF f(1) _ f(3), of g] unat_Suc_64 [of "dg_next_expected g"] show ?case
    by (simp add: gate_inv_def wire_number_record gate_delivered_def)
next
  case (8 g bs)
  then show ?case by (intro gate_receive_other) (auto simp: gate_inv_def)
qed

section \<open>Properties\<close>

abbreviation udp_link_step where
  "udp_link_step stream \<equiv> link_step ring_link_push ring_link_ack ring_pending (gate_receive stream)
     gate_delivered (\<lambda>_. True) (\<lambda>_. False)"

definition udp_link_start :: "replay_ring \<Rightarrow> u64 \<Rightarrow> (replay_ring, delivery_gate, bytes, udp_kind \<times> bytes) link" where
  "udp_link_start r epoch = link_init r (gate_new epoch 0)"

lemma udp_link_start_inv:
  "ring_with_capacities alloc stream b c = Inr r \<Longrightarrow> udp_link.link_inv stream (udp_link_start r epoch)"
  unfolding udp_link_start_def using ring_with_capacities_repr [of alloc stream b c r]
  by (intro udp_link.link_init_inv)
    (auto simp: ring_inv_def ring_acked_def ring_pending_def gate_inv_def gate_new_def gate_delivered_def ring_repr_def)

text \<open>C19: exactly once, in order, through the wire format. Whatever a connection does to the records
  copied out of a replay ring, what the delivery gate at the other end delivered is a prefix of
  what the ring accepted, kind and payload.\<close>

theorem udp_exactly_once:
  assumes "ring_with_capacities alloc stream b c = Inr r"
    and "(udp_link_step stream)\<^sup>*\<^sup>* (udp_link_start r epoch) k"
  shows "l_dlv k = take (unat (dg_next_expected (l_receiver k))) (l_sent k)"
  using udp_link.link_safe [OF assms(2) udp_link_start_inv [OF assms(1)]] by (simp add: gate_delivered_def)

text \<open>And nothing is stuck: from every reachable state, also when only acknowledgements were lost,
  sending what the ring retains can deliver all of it and let its acknowledgement empty the ring.\<close>

theorem udp_catches_up:
  assumes "ring_with_capacities alloc stream b c = Inr r"
    and "(udp_link_step stream)\<^sup>*\<^sup>* (udp_link_start r epoch) k"
  shows "\<exists>k'. (udp_link_step stream)\<^sup>*\<^sup>* k k' \<and> l_sent k' = l_sent k \<and> l_dlv k' = l_sent k \<and>
    rr_slot_count (l_sender k') = 0"
proof -
  obtain k' where k': "(udp_link_step stream)\<^sup>*\<^sup>* k k'" "l_sent k' = l_sent k" "l_dlv k' = l_sent k"
      "ring_pending (l_sender k') = []"
    using udp_link.link_live [OF udp_link.link_run_inv [OF assms(2) udp_link_start_inv [OF assms(1)]]]
    by blast
  then have "rr_slot_count (l_sender k') = 0" by (simp add: ring_pending_def)
  with k' show ?thesis by blast
qed

definition small_ring :: replay_ring where
  "small_ring = \<lparr>rr_stream = Stream_Input, rr_bytes = replicate 20 0, rr_slots = replicate 2 None,
     rr_byte_head = 0, rr_byte_tail = 0, rr_bytes_used = 0, rr_slot_head = 0, rr_slot_count = 0, rr_next = 0\<rparr>"

lemma small_ring: "ring_with_capacities (\<lambda>_. True) Stream_Input 20 2 = Inr small_ring"
  by (simp add: ring_with_capacities_def small_ring_def UDP_HEADER_LEN_def)

definition small_link :: "(replay_ring, delivery_gate, bytes, udp_kind \<times> bytes) link" where
  "small_link = (udp_link_start small_ring 0)
     \<lparr>l_sender := the (ring_link_push small_ring (UKind_Input, [7])), l_sent := [(UKind_Input, [7])]\<rparr>"

lemma small_link_reachable: "(udp_link_step Stream_Input)\<^sup>*\<^sup>* (udp_link_start small_ring 0) small_link"
proof -
  have "ring_repr small_ring []" "rr_stream small_ring = Stream_Input" "length (rr_slots small_ring) = 2"
    "length (rr_bytes small_ring) = 20" "rr_next small_ring = 0"
    using ring_with_capacities_repr [OF small_ring] by simp_all
  moreover from this have "ring_validate_shape small_ring UKind_Input (length [7 :: u8]) = Inr ()"
    by (simp add: validate_shape_ok kind_stream_def payload_bounds_def default_udp_limits_def)
  ultimately obtain r' where "ring_push small_ring UKind_Input [7] = Inr (r', 0)"
    using ring_push_succeeds [of small_ring "[]" UKind_Input "[7]"]
    by (auto simp: ring_fits_def UDP_HEADER_LEN_def)
  then have r': "ring_link_push small_ring (UKind_Input, [7]) = Some r'" by (simp add: ring_link_push_def)
  have "udp_link_step Stream_Input (udp_link_start small_ring 0)
      ((udp_link_start small_ring 0)\<lparr>l_sender := r',
         l_sent := l_sent (udp_link_start small_ring 0) @ [(UKind_Input, [7])]\<rparr>)"
    by (rule link_push) (use r' in \<open>simp_all add: udp_link_start_def link_init_def\<close>)
  then show ?thesis
    by (intro r_into_rtranclp) (simp add: small_link_def r' udp_link_start_def link_init_def)
qed

lemma udp_exactly_once_witness:
  "l_dlv small_link = take (unat (dg_next_expected (l_receiver small_link))) (l_sent small_link)"
  by (rule udp_exactly_once [OF small_ring small_link_reachable])

lemma udp_catches_up_witness:
  "\<exists>k'. (udp_link_step Stream_Input)\<^sup>*\<^sup>* small_link k' \<and> l_sent k' = l_sent small_link \<and>
    l_dlv k' = l_sent small_link \<and> rr_slot_count (l_sender k') = 0"
  by (rule udp_catches_up [OF small_ring small_link_reachable])

text \<open>Histories of a gate within one epoch; the output is what was committed.\<close>

datatype gate_op = Gate_Begin u64 u64 | Gate_Commit u64 u64 | Gate_Abort u64 u64

fun gate_step :: "delivery_gate \<Rightarrow> gate_op \<Rightarrow> delivery_gate \<times> (u64 \<times> nat) list" where
  "gate_step g (Gate_Begin epoch sequence) = (fst (gate_begin g epoch sequence), [])"
| "gate_step g (Gate_Commit epoch sequence) =
     (case gate_commit g epoch sequence of
        (g', Inr _) \<Rightarrow> (g', [(epoch, unat sequence)])
      | (g', Inl e) \<Rightarrow> (g', []))"
| "gate_step g (Gate_Abort epoch sequence) = (fst (gate_abort g epoch sequence), [])"

definition gate_pending_ok :: "delivery_gate \<Rightarrow> bool" where
  "gate_pending_ok g \<longleftrightarrow> dg_pending g \<in> {None, Some (dg_epoch g, dg_next_expected g)}"

lemma gate_step_ok:
  assumes "gate_pending_ok g"
  shows "gate_pending_ok (fst (gate_step g e)) \<and> dg_epoch (fst (gate_step g e)) = dg_epoch g \<and>
    gate_delivered g \<le> gate_delivered (fst (gate_step g e)) \<and>
    snd (gate_step g e) = map (Pair (dg_epoch g)) [gate_delivered g ..< gate_delivered (fst (gate_step g e))]"
proof (cases e)
  case (Gate_Begin epoch sequence)
  with assms show ?thesis by (auto simp: gate_begin_def gate_pending_ok_def gate_delivered_def)
next
  case (Gate_Commit epoch sequence)
  show ?thesis
  proof (cases "dg_pending g = Some (epoch, sequence) \<and> checked_add (dg_next_expected g) 1 \<noteq> None")
    case True
    then obtain n where n: "checked_add (dg_next_expected g) 1 = Some n" by auto
    then have "unat n = Suc (unat (dg_next_expected g))" using checked_add_Some [OF n] by simp
    with True n assms Gate_Commit show ?thesis
      by (simp add: gate_commit_def gate_pending_ok_def gate_delivered_def)
  next
    case False
    then have "gate_step g e = (g, [])" using Gate_Commit by (auto simp: gate_commit_def split: option.splits)
    with assms show ?thesis by simp
  qed
next
  case (Gate_Abort epoch sequence)
  with assms show ?thesis by (auto simp: gate_abort_def gate_pending_ok_def gate_delivered_def)
qed

interpretation gate: event_machine gate_step gate_pending_ok
  by unfold_locales (simp add: gate_step_ok)

lemma gate_run_ok:
  "gate_pending_ok g \<Longrightarrow> dg_epoch (fst (run_events gate_step g ops)) = dg_epoch g \<and>
     gate_delivered g \<le> gate_delivered (fst (run_events gate_step g ops)) \<and>
     snd (run_events gate_step g ops)
       = map (Pair (dg_epoch g)) [gate_delivered g ..< gate_delivered (fst (run_events gate_step g ops))]"
proof (induction ops arbitrary: g)
  case (Cons e ops)
  note one = gate_step_ok [OF Cons.prems, of e]
  note rest = Cons.IH [OF conjunct1 [OF one]]
  have "[gate_delivered g ..< gate_delivered (fst (run_events gate_step (fst (gate_step g e)) ops))]
      = [gate_delivered g ..< gate_delivered (fst (gate_step g e))]
        @ [gate_delivered (fst (gate_step g e)) ..< gate_delivered (fst (run_events gate_step (fst (gate_step g e)) ops))]"
    using one rest by (metis le_Suc_ex upt_add_eq_append)
  with one rest show ?case by (simp add: split_beta)
qed simp

text \<open>Whatever a caller begins, commits and aborts, the records committed within an epoch are
  numbered consecutively from the gate's start: none is skipped and none is committed twice, and
  an aborted delivery is the next one again.\<close>

theorem gate_commits_in_order:
  "case run_events gate_step (gate_new epoch expected) ops of (g, committed) \<Rightarrow>
     dg_epoch g = epoch \<and> committed = map (Pair epoch) [unat expected ..< unat (dg_next_expected g)] \<and>
     dg_pending g \<in> {None, Some (epoch, dg_next_expected g)}"
proof -
  have start: "gate_pending_ok (gate_new epoch expected)" by (simp add: gate_pending_ok_def gate_new_def)
  from gate_run_ok [OF start, of ops] gate.run_inv [OF start, of ops] show ?thesis
    by (simp add: split_beta gate_pending_ok_def gate_new_def gate_delivered_def)
qed

end
