(* ===== verification/Udp_Replay.thy ===== *)
theory Udp_Replay
  imports Udp_Ring
begin

text \<open>
  The output epochs of everudp (\<open>crates/everudp/src/queues.rs\<close>, \<open>OutputReplay\<close>). An output ring
  that overruns abandons its epoch, discards until its client resumes, and owes the client a gap;
  the invariant ties the gap to the last epoch the client confirmed, and gives every answer of a
  resume. The operations are an instance of the event machine interface.
\<close>

section \<open>Output epochs\<close>

datatype output_push = Push_Buffered u64 u64 | Push_Overrun u64 u64 | Push_Discarded u64

datatype output_mode = Buffering | DiscardingUntilResume

record output_replay =
  or_epoch :: u64
  or_ring :: replay_ring
  or_mode :: output_mode
  or_pending_gap :: "(u64 \<times> u64) option"
  or_gap_announced :: bool

definition output_new :: "(usize \<Rightarrow> bool) \<Rightarrow> udp_limits \<Rightarrow> queue_error + output_replay" where
  "output_new alloc limits =
     try_bind (ring_new alloc Stream_Output limits) (\<lambda>r. Inr
       \<lparr>or_epoch = 0, or_ring = r, or_mode = Buffering, or_pending_gap = None, or_gap_announced = False\<rparr>)"

text \<open>\<open>earliest\<close> is \<open>pending_gap.map_or(abandoned, |(earliest, _)| earliest)\<close>.\<close>

definition earliest_abandoned :: "output_replay \<Rightarrow> u64" where
  "earliest_abandoned o1 = (case or_pending_gap o1 of None \<Rightarrow> or_epoch o1 | Some (earliest, _) \<Rightarrow> earliest)"

definition push_to_output ::
  "output_replay \<Rightarrow> udp_kind \<Rightarrow> bytes \<Rightarrow> output_replay \<times> (queue_error + output_push)" where
  "push_to_output o1 kind payload =
     (if or_mode o1 = DiscardingUntilResume then
        (case ring_validate_shape (or_ring o1) kind (length payload) of
           Inl e \<Rightarrow> (o1, Inl e)
         | Inr _ \<Rightarrow> (o1, Inr (Push_Discarded (or_epoch o1))))
      else case ring_push (or_ring o1) kind payload of
        Inr (r, sequence) \<Rightarrow> (o1\<lparr>or_ring := r\<rparr>, Inr (Push_Buffered (or_epoch o1) sequence))
      | Inl e \<Rightarrow>
          if e = Q_Full then
            (case checked_add (or_epoch o1) 1 of
               None \<Rightarrow> (o1, Inl Q_SequenceOverflow)
             | Some replacement \<Rightarrow>
                 (o1\<lparr>or_epoch := replacement,
                     or_ring := ring_clear_and_restart (or_ring o1),
                     or_mode := DiscardingUntilResume,
                     or_pending_gap := Some (earliest_abandoned o1, replacement),
                     or_gap_announced := False\<rparr>,
                  Inr (Push_Overrun (or_epoch o1) replacement)))
          else (o1, Inl e))"

definition output_acknowledge :: "output_replay \<Rightarrow> u64 \<Rightarrow> u64 \<Rightarrow> output_replay \<times> (queue_error + unit)" where
  "output_acknowledge o1 epoch n =
     (if epoch \<noteq> or_epoch o1 then (o1, Inl Q_EpochMismatch)
      else case ring_acknowledge (or_ring o1) n of (r, res) \<Rightarrow> (o1\<lparr>or_ring := r\<rparr>, res))"

definition complete_resume :: "output_replay \<Rightarrow> output_replay \<times> (u64 \<times> u64) option" where
  "complete_resume o1 =
     (if or_mode o1 \<noteq> DiscardingUntilResume then (o1, None)
      else (o1\<lparr>or_mode := Buffering, or_gap_announced := True\<rparr>, or_pending_gap o1))"

definition replace_generation :: "output_replay \<Rightarrow> output_replay \<times> (queue_error + u64 \<times> u64)" where
  "replace_generation o1 =
     (case checked_add (or_epoch o1) 1 of
        None \<Rightarrow> (o1, Inl Q_SequenceOverflow)
      | Some replacement \<Rightarrow>
          (o1\<lparr>or_epoch := replacement,
              or_ring := ring_clear_and_restart (or_ring o1),
              or_mode := Buffering,
              or_pending_gap := Some (earliest_abandoned o1, replacement),
              or_gap_announced := True\<rparr>,
           Inr (earliest_abandoned o1, replacement)))"

definition reset_identity :: "output_replay \<Rightarrow> output_replay" where
  "reset_identity o1 =
     o1\<lparr>or_ring := ring_clear_and_restart (or_ring o1), or_epoch := 0, or_mode := Buffering,
        or_pending_gap := None, or_gap_announced := False\<rparr>"

definition reconcile_resume ::
  "output_replay \<Rightarrow> u64 \<Rightarrow> u64 \<Rightarrow> output_replay \<times> (queue_error + (u64 \<times> u64) option)" where
  "reconcile_resume o1 client_epoch delivered_ack =
     (case or_pending_gap o1 of
        Some (earliest, replacement) \<Rightarrow>
          if client_epoch = replacement then
            (if or_mode o1 = DiscardingUntilResume \<or> \<not> or_gap_announced o1 then (o1, Inl Q_EpochMismatch)
             else case output_acknowledge o1 client_epoch delivered_ack of
               (o2, Inl e) \<Rightarrow> (o2, Inl e)
             | (o2, Inr _) \<Rightarrow> (o2\<lparr>or_pending_gap := None, or_gap_announced := False\<rparr>, Inr None))
          else if client_epoch < earliest \<or> client_epoch \<ge> replacement then (o1, Inl Q_EpochMismatch)
          else (o1, Inr (Some (client_epoch, replacement)))
      | None \<Rightarrow>
          (case output_acknowledge o1 client_epoch delivered_ack of
             (o2, Inl e) \<Rightarrow> (o2, Inl e)
           | (o2, Inr _) \<Rightarrow> (o2, Inr None)))"

section \<open>Histories of an output\<close>

datatype output_op =
    Out_Push udp_kind bytes | Out_Acknowledge u64 u64 | Out_CompleteResume
  | Out_ReplaceGeneration | Out_Reset | Out_Reconcile u64 u64

text \<open>The history keeps the last epoch the client confirmed: the one of its last reconciliation
  that owed it no gap, or zero for a new identity.\<close>

fun output_step :: "u64 \<times> output_replay \<Rightarrow> output_op \<Rightarrow> (u64 \<times> output_replay) \<times> unit list" where
  "output_step (c, o1) (Out_Push kind payload) = ((c, fst (push_to_output o1 kind payload)), [])"
| "output_step (c, o1) (Out_Acknowledge epoch n) = ((c, fst (output_acknowledge o1 epoch n)), [])"
| "output_step (c, o1) Out_CompleteResume = ((c, fst (complete_resume o1)), [])"
| "output_step (c, o1) Out_ReplaceGeneration = ((c, fst (replace_generation o1)), [])"
| "output_step (c, o1) Out_Reset = ((0, reset_identity o1), [])"
| "output_step (c, o1) (Out_Reconcile epoch n) =
     (case reconcile_resume o1 epoch n of
        (o2, Inr None) \<Rightarrow> ((epoch, o2), [])
      | (o2, _) \<Rightarrow> ((c, o2), []))"

definition output_inv :: "u64 \<times> output_replay \<Rightarrow> bool" where
  "output_inv = (\<lambda>(c, o1).
     (\<exists>fs. ring_repr (or_ring o1) fs \<and> (or_mode o1 = DiscardingUntilResume \<longrightarrow> fs = [])) \<and>
     rr_stream (or_ring o1) = Stream_Output \<and> c \<le> or_epoch o1 \<and>
     or_pending_gap o1 = (if c = or_epoch o1 then None else Some (c, or_epoch o1)) \<and>
     (or_mode o1 = DiscardingUntilResume \<longrightarrow> c \<noteq> or_epoch o1) \<and>
     (or_gap_announced o1 \<longleftrightarrow> c \<noteq> or_epoch o1 \<and> or_mode o1 = Buffering))"

lemma output_inv_simp:
  "output_inv (c, o1) \<longleftrightarrow>
     (\<exists>fs. ring_repr (or_ring o1) fs \<and> (or_mode o1 = DiscardingUntilResume \<longrightarrow> fs = [])) \<and>
     rr_stream (or_ring o1) = Stream_Output \<and> c \<le> or_epoch o1 \<and>
     or_pending_gap o1 = (if c = or_epoch o1 then None else Some (c, or_epoch o1)) \<and>
     (or_mode o1 = DiscardingUntilResume \<longrightarrow> c \<noteq> or_epoch o1) \<and>
     (or_gap_announced o1 \<longleftrightarrow> c \<noteq> or_epoch o1 \<and> or_mode o1 = Buffering)"
  by (simp add: output_inv_def)

lemma earliest_confirmed: "output_inv (c, o1) \<Longrightarrow> earliest_abandoned o1 = c"
  by (simp add: output_inv_simp earliest_abandoned_def)

lemma checked_add_one:
  assumes "checked_add (w :: u64) 1 = Some v" "c \<le> w"
  shows "c < v \<and> c \<noteq> v"
  using checked_add_Some [OF assms(1)] assms(2) by (auto simp: word_less_nat_alt word_le_nat_alt)

lemma output_inv_new_epoch:
  assumes inv: "output_inv (c, o1)" and v: "checked_add (or_epoch o1) 1 = Some v"
  shows "output_inv (c, o1\<lparr>or_epoch := v, or_ring := ring_clear_and_restart (or_ring o1), or_mode := m,
     or_pending_gap := Some (earliest_abandoned o1, v), or_gap_announced := (m = Buffering)\<rparr>)"
proof -
  obtain fs where "ring_repr (or_ring o1) fs" "rr_stream (or_ring o1) = Stream_Output" "c \<le> or_epoch o1"
    using inv by (auto simp: output_inv_simp)
  then show ?thesis
    using ring_clear_repr [of "or_ring o1" fs] checked_add_one [OF v, of c] earliest_confirmed [OF inv]
    by (auto simp: output_inv_simp ring_frame_def)
qed

lemma push_to_output_inv:
  assumes inv: "output_inv (c, o1)"
  shows "output_inv (c, fst (push_to_output o1 kind payload))"
proof (cases "or_mode o1 = DiscardingUntilResume")
  case True
  then show ?thesis
    using inv by (cases "ring_validate_shape (or_ring o1) kind (length payload)") (simp_all add: push_to_output_def)
next
  case False
  then have m: "or_mode o1 = Buffering" by (cases "or_mode o1") simp_all
  obtain fs where R: "ring_repr (or_ring o1) fs" using inv by (auto simp: output_inv_simp)
  show ?thesis
  proof (cases "ring_push (or_ring o1) kind payload")
    case (Inr rs)
    then obtain r n where p: "ring_push (or_ring o1) kind payload = Inr (r, n)" by (cases rs) auto
    from ring_push_repr [OF R p] inv m p show ?thesis
      by (auto simp: push_to_output_def output_inv_simp ring_frame_def)
  next
    case (Inl e)
    show ?thesis
    proof (cases "e = Q_Full \<and> checked_add (or_epoch o1) 1 \<noteq> None")
      case True
      then obtain v where v: "checked_add (or_epoch o1) 1 = Some v" by auto
      from output_inv_new_epoch [OF inv v, of DiscardingUntilResume] show ?thesis
        using Inl True v m by (simp add: push_to_output_def)
    next
      case False
      with inv Inl m show ?thesis by (auto simp: push_to_output_def)
    qed
  qed
qed

lemma output_acknowledge_inv:
  assumes inv: "output_inv (c, o1)"
  shows "output_inv (c, fst (output_acknowledge o1 epoch n))"
    and "snd (output_acknowledge o1 epoch n) = Inr () \<Longrightarrow> epoch = or_epoch o1"
    and "or_epoch (fst (output_acknowledge o1 epoch n)) = or_epoch o1"
    and "or_mode (fst (output_acknowledge o1 epoch n)) = or_mode o1"
proof -
  obtain fs where R: "ring_repr (or_ring o1) fs" "or_mode o1 = DiscardingUntilResume \<longrightarrow> fs = []"
    using inv by (auto simp: output_inv_simp)
  have "\<exists>gs. ring_repr (fst (ring_acknowledge (or_ring o1) n)) gs \<and> (fs = [] \<longrightarrow> gs = []) \<and>
      ring_frame (or_ring o1) (fst (ring_acknowledge (or_ring o1) n))"
  proof -
    consider "n > rr_next (or_ring o1)" | "n \<le> rr_next (or_ring o1)" "unat n < unat (rr_next (or_ring o1)) - length fs"
      | "n \<le> rr_next (or_ring o1)" "unat (rr_next (or_ring o1)) - length fs \<le> unat n"
      by (metis linorder_not_le)
    then show ?thesis
    proof cases
      case 3
      from ring_acknowledge_repr [OF R(1) 3(2,1)] show ?thesis by auto
    qed (use R ring_acknowledge_refused [OF R(1)] in auto)
  qed
  then show "output_inv (c, fst (output_acknowledge o1 epoch n))"
    using inv R(2) by (auto simp: output_acknowledge_def output_inv_simp split_beta ring_frame_def)
  show "snd (output_acknowledge o1 epoch n) = Inr () \<Longrightarrow> epoch = or_epoch o1"
    by (auto simp: output_acknowledge_def split: if_splits)
  show "or_epoch (fst (output_acknowledge o1 epoch n)) = or_epoch o1"
    "or_mode (fst (output_acknowledge o1 epoch n)) = or_mode o1"
    by (simp_all add: output_acknowledge_def split_beta)
qed

lemma complete_resume_inv: "output_inv (c, o1) \<Longrightarrow> output_inv (c, fst (complete_resume o1))"
  by (auto simp: complete_resume_def output_inv_simp)

lemma replace_generation_inv:
  assumes "output_inv (c, o1)"
  shows "output_inv (c, fst (replace_generation o1))"
  using assms output_inv_new_epoch [OF assms, of _ Buffering]
  by (cases "checked_add (or_epoch o1) 1") (simp_all add: replace_generation_def)

lemma reset_identity_inv:
  assumes "output_inv (c, o1)"
  shows "output_inv (0, reset_identity o1)"
proof -
  obtain fs where "ring_repr (or_ring o1) fs" "rr_stream (or_ring o1) = Stream_Output"
    using assms by (auto simp: output_inv_simp)
  then show ?thesis
    using ring_clear_repr [of "or_ring o1" fs] by (auto simp: output_inv_simp reset_identity_def ring_frame_def)
qed

text \<open>Reconciliation, by the position of the client's epoch.\<close>

lemma reconcile_behind:
  "output_inv (c, o1) \<Longrightarrow> c \<le> epoch \<Longrightarrow> epoch < or_epoch o1 \<Longrightarrow>
   reconcile_resume o1 epoch n = (o1, Inr (Some (epoch, or_epoch o1)))"
  by (auto simp: reconcile_resume_def output_inv_simp)

lemma reconcile_elsewhere:
  assumes inv: "output_inv (c, o1)"
    and out: "epoch < c \<or> or_epoch o1 < epoch \<or> (epoch = or_epoch o1 \<and> or_mode o1 = DiscardingUntilResume)"
  shows "reconcile_resume o1 epoch n = (o1, Inl Q_EpochMismatch)"
proof (cases "c = or_epoch o1")
  case True
  then have "or_pending_gap o1 = None" "epoch \<noteq> or_epoch o1" using inv out by (auto simp: output_inv_simp)
  then show ?thesis by (simp add: reconcile_resume_def output_acknowledge_def)
next
  case False
  then have "or_pending_gap o1 = Some (c, or_epoch o1)" using inv by (simp add: output_inv_simp)
  then show ?thesis using out inv by (auto simp: reconcile_resume_def output_inv_simp)
qed

lemma reconcile_current:
  assumes inv: "output_inv (c, o1)" and cur: "epoch = or_epoch o1" "or_mode o1 = Buffering"
  shows "reconcile_resume o1 epoch n = (case output_acknowledge o1 epoch n of
      (o2, Inl e) \<Rightarrow> (o2, Inl e)
    | (o2, Inr _) \<Rightarrow> (o2\<lparr>or_pending_gap := None, or_gap_announced := False\<rparr>, Inr None))"
proof (cases "c = or_epoch o1")
  case True
  then have gap: "or_pending_gap o1 = None" "\<not> or_gap_announced o1" using inv by (simp_all add: output_inv_simp)
  then have same: "o1\<lparr>or_ring := r, or_pending_gap := None, or_gap_announced := False\<rparr> = o1\<lparr>or_ring := r\<rparr>" for r
    by (cases o1) simp
  show ?thesis
    using gap cur(1) by (simp add: reconcile_resume_def output_acknowledge_def same split: prod.splits sum.splits)
next
  case False
  then show ?thesis using inv cur by (simp add: reconcile_resume_def output_inv_simp)
qed

lemma epoch_position:
  fixes e :: u64
  shows "(c \<le> e \<and> e < top_epoch) \<or> (e = top_epoch \<and> m = Buffering) \<or>
    (e < c \<or> top_epoch < e \<or> (e = top_epoch \<and> m = DiscardingUntilResume))"
proof (cases e top_epoch rule: linorder_cases)
  case less
  then show ?thesis by (cases "e < c") (simp_all add: not_less)
next
  case equal
  then show ?thesis by (cases m) simp_all
qed simp

lemma output_step_inv:
  assumes inv: "output_inv (c, o1)"
  shows "output_inv (fst (output_step (c, o1) e))"
proof (cases e)
  case (Out_Reconcile epoch n)
  consider (behind) "c \<le> epoch" "epoch < or_epoch o1"
    | (current) "epoch = or_epoch o1" "or_mode o1 = Buffering"
    | (elsewhere) "epoch < c \<or> or_epoch o1 < epoch \<or> (epoch = or_epoch o1 \<and> or_mode o1 = DiscardingUntilResume)"
    using epoch_position [of c epoch "or_epoch o1" "or_mode o1"] by blast
  then show ?thesis
  proof cases
    case behind
    with reconcile_behind [OF inv behind] Out_Reconcile inv show ?thesis by simp
  next
    case current
    obtain o2 res where o2: "output_acknowledge o1 epoch n = (o2, res)" by force
    from output_acknowledge_inv [OF inv, of epoch n] o2 have I: "output_inv (c, o2)" "or_epoch o2 = or_epoch o1"
        "or_mode o2 = or_mode o1" by simp_all
    have "output_inv (epoch, o2\<lparr>or_pending_gap := None, or_gap_announced := False\<rparr>)"
      using I current by (auto simp: output_inv_simp)
    with I(1) reconcile_current [OF inv current] o2 Out_Reconcile show ?thesis
      by (cases res) simp_all
  next
    case elsewhere
    with reconcile_elsewhere [OF inv elsewhere] Out_Reconcile inv show ?thesis by simp
  qed
qed (use inv in \<open>simp_all add: push_to_output_inv output_acknowledge_inv complete_resume_inv
    replace_generation_inv reset_identity_inv\<close>)

interpretation epochs: event_machine output_step output_inv
  by unfold_locales (auto simp: output_step_inv)

lemma output_new_inv: "output_new alloc limits = Inr o1 \<Longrightarrow> output_inv (0, o1)"
  by (auto simp: output_new_def ring_new_def output_inv_simp dest!: ring_with_capacities_repr split: sum.splits)

section \<open>Properties of an output\<close>

text \<open>After any history the gap an output owes is exactly the epochs between the last one its
  client confirmed and the current one; while it discards, the gap is pending, unannounced, and
  nothing is retained; and a gap counts as announced only once it buffers again.\<close>

theorem output_gap_exact:
  "case output_new alloc limits of
     Inl e \<Rightarrow> True
   | Inr o0 \<Rightarrow>
       (case fst (run_events output_step (0, o0) ops) of (confirmed, o1) \<Rightarrow>
          or_pending_gap o1 = (if confirmed = or_epoch o1 then None else Some (confirmed, or_epoch o1)) \<and>
          confirmed \<le> or_epoch o1 \<and>
          (case or_mode o1 of
             Buffering \<Rightarrow> True
           | DiscardingUntilResume \<Rightarrow>
               or_pending_gap o1 \<noteq> None \<and> \<not> or_gap_announced o1 \<and> rr_slot_count (or_ring o1) = 0) \<and>
          (or_gap_announced o1 \<longleftrightarrow> or_pending_gap o1 \<noteq> None \<and> or_mode o1 = Buffering))"
proof (cases "output_new alloc limits")
  case (Inr o0)
  obtain c o1 where r: "fst (run_events output_step (0, o0) ops) = (c, o1)" by force
  have "output_inv (c, o1)"
    using epochs.run_inv [OF output_new_inv [OF Inr], of ops] r by simp
  with Inr r show ?thesis by (auto simp: output_inv_simp ring_repr_def split: output_mode.split)
qed simp

text \<open>What a resuming client is told, whatever happened before. Behind the current epoch but not
  behind its last confirmation it is owed exactly the gap from its own epoch to the current one,
  and nothing changes; at the current epoch, unless the output still discards, its acknowledgement
  is applied and, if accepted, no gap is left; any other claim is refused without effect.\<close>

theorem resume_reconciliation:
  "case output_new alloc limits of
     Inl e \<Rightarrow> True
   | Inr o0 \<Rightarrow>
       (case fst (run_events output_step (0, o0) ops) of (confirmed, o1) \<Rightarrow>
          reconcile_resume o1 epoch n =
            (if confirmed \<le> epoch \<and> epoch < or_epoch o1 then (o1, Inr (Some (epoch, or_epoch o1)))
             else if epoch = or_epoch o1 \<and> or_mode o1 = Buffering then
               (case output_acknowledge o1 epoch n of
                  (o2, Inl e) \<Rightarrow> (o2, Inl e)
                | (o2, Inr _) \<Rightarrow> (o2\<lparr>or_pending_gap := None, or_gap_announced := False\<rparr>, Inr None))
             else (o1, Inl Q_EpochMismatch)))"
proof (cases "output_new alloc limits")
  case (Inr o0)
  obtain c o1 where r: "fst (run_events output_step (0, o0) ops) = (c, o1)" by force
  have inv: "output_inv (c, o1)"
    using epochs.run_inv [OF output_new_inv [OF Inr], of ops] r by simp
  consider (behind) "c \<le> epoch" "epoch < or_epoch o1"
    | (current) "epoch = or_epoch o1" "or_mode o1 = Buffering"
    | (elsewhere) "epoch < c \<or> or_epoch o1 < epoch \<or> (epoch = or_epoch o1 \<and> or_mode o1 = DiscardingUntilResume)"
    using epoch_position [of c epoch "or_epoch o1" "or_mode o1"] by blast
  then show ?thesis
  proof cases
    case behind
    with Inr r reconcile_behind [OF inv behind, of n] show ?thesis by simp
  next
    case current
    with Inr r reconcile_current [OF inv current, of n] show ?thesis by simp
  next
    case elsewhere
    then have "\<not> (c \<le> epoch \<and> epoch < or_epoch o1)" "\<not> (epoch = or_epoch o1 \<and> or_mode o1 = Buffering)"
      using inv by (auto simp: output_inv_simp)
    with Inr r reconcile_elsewhere [OF inv elsewhere, of n] show ?thesis by (simp only: sum.case prod.case if_False)
  qed
qed simp

end
