(* ===== verification/Udp_Slabs.thy ===== *)
theory Udp_Slabs
  imports Udp_Replay Udp_Handshake
begin

text \<open>
  The gateway's replay storage (\<open>crates/everudp/src/queues.rs\<close>, \<open>ObserverReplay\<close> and
  \<open>GatewayReplaySlabs\<close>): one input ring, an output and a control ring for the primary writer and
  for each of nine observer slots, all allocated at construction. The lemmas show that no
  operation reallocates or breaks a ring and that operations on behalf of one peer leave the
  storage of every other peer alone.
\<close>

section \<open>The storage\<close>

definition OBSERVER_SLOTS :: usize where "OBSERVER_SLOTS = 9"

record observer_replay =
  ob_id :: "association_id option"
  ob_output :: output_replay
  ob_control :: replay_ring

definition observer_new :: "(usize \<Rightarrow> bool) \<Rightarrow> udp_limits \<Rightarrow> queue_error + observer_replay" where
  "observer_new alloc limits =
     try_bind (output_new alloc limits) (\<lambda>o1.
     try_bind (ring_control alloc limits) (\<lambda>control.
       Inr \<lparr>ob_id = None, ob_output = o1, ob_control = control\<rparr>))"

fun observer_storage :: "(usize \<Rightarrow> bool) \<Rightarrow> udp_limits \<Rightarrow> nat \<Rightarrow> queue_error + observer_replay list" where
  "observer_storage alloc limits 0 = Inr []"
| "observer_storage alloc limits (Suc n) =
     try_bind (observer_new alloc limits) (\<lambda>ob.
     try_bind (observer_storage alloc limits n) (\<lambda>obs. Inr (ob # obs)))"

record slabs =
  gw_input :: replay_ring
  gw_writer_id :: "association_id option"
  gw_writer_output :: output_replay
  gw_writer_control :: replay_ring
  gw_observers :: "observer_replay list"
  gw_global_cap :: usize

text \<open>\<open>slot_size\<close> is \<open>size_of::<Option<Slot>>()\<close>, which the compiler chooses.\<close>

definition ring_allocated :: "usize \<Rightarrow> replay_ring \<Rightarrow> usize" where
  "ring_allocated slot_size r = length (rr_bytes r) + length (rr_slots r) * slot_size"

definition observer_allocated :: "usize \<Rightarrow> observer_replay \<Rightarrow> usize" where
  "observer_allocated slot_size ob =
     ring_allocated slot_size (or_ring (ob_output ob)) + ring_allocated slot_size (ob_control ob)"

definition slabs_allocated :: "usize \<Rightarrow> slabs \<Rightarrow> usize" where
  "slabs_allocated slot_size g =
     ring_allocated slot_size (gw_input g) + ring_allocated slot_size (or_ring (gw_writer_output g))
     + ring_allocated slot_size (gw_writer_control g)
     + sum_list (map (observer_allocated slot_size) (gw_observers g))"

definition slabs_new :: "(usize \<Rightarrow> bool) \<Rightarrow> usize \<Rightarrow> udp_limits \<Rightarrow> queue_error + slabs" where
  "slabs_new alloc slot_size limits =
     (case udp_limits_validate limits of
        Inl v \<Rightarrow> Inl (Q_Wire (We_Limits v))
      | Inr _ \<Rightarrow>
          if \<not> alloc OBSERVER_SLOTS then Inl Q_Allocation
          else try_bind (observer_storage alloc limits OBSERVER_SLOTS) (\<lambda>observers.
            try_bind (ring_new alloc Stream_Input limits) (\<lambda>inp.
            try_bind (output_new alloc limits) (\<lambda>o1.
            try_bind (ring_control alloc limits) (\<lambda>control.
              let g = \<lparr>gw_input = inp, gw_writer_id = None, gw_writer_output = o1, gw_writer_control = control,
                       gw_observers = observers, gw_global_cap = global_queue_bytes limits\<rparr>
              in if slabs_allocated slot_size g > gw_global_cap g then Inl Q_Allocation else Inr g)))))"

section \<open>Operations on one observer slot\<close>

fun find_observer :: "(observer_replay \<Rightarrow> bool) \<Rightarrow> observer_replay list \<Rightarrow> usize option" where
  "find_observer p [] = None"
| "find_observer p (ob # obs) = (if p ob then Some 0 else map_option Suc (find_observer p obs))"

definition is_bound_to :: "association_id \<Rightarrow> observer_replay \<Rightarrow> bool" where
  "is_bound_to i ob \<longleftrightarrow> ob_id ob = Some i"

text \<open>\<open>observer_mut(id)?\<close> followed by what the method does to the slot.\<close>

definition with_observer ::
  "slabs \<Rightarrow> association_id \<Rightarrow> (observer_replay \<Rightarrow> observer_replay \<times> (queue_error + 'a)) \<Rightarrow>
   slabs \<times> (queue_error + 'a)" where
  "with_observer g i f =
     (case find_observer (is_bound_to i) (gw_observers g) of
        None \<Rightarrow> (g, Inl Q_UnknownObserver)
      | Some k \<Rightarrow>
          (case f (gw_observers g ! k) of
             (ob, res) \<Rightarrow> (g\<lparr>gw_observers := (gw_observers g)[k := ob]\<rparr>, res)))"

definition add_observer :: "slabs \<Rightarrow> association_id \<Rightarrow> slabs \<times> (queue_error + unit)" where
  "add_observer g i =
     (if \<not> list_all (\<lambda>ob. ob_id ob \<noteq> Some i) (gw_observers g) then (g, Inr ())
      else case find_observer (\<lambda>ob. ob_id ob = None) (gw_observers g) of
        None \<Rightarrow> (g, Inl Q_ObserverCapacity)
      | Some k \<Rightarrow>
          (g\<lparr>gw_observers := (gw_observers g)[k := (gw_observers g ! k)\<lparr>ob_id := Some i\<rparr>]\<rparr>, Inr ()))"

definition remove_observer :: "slabs \<Rightarrow> association_id \<Rightarrow> slabs \<times> (queue_error + unit)" where
  "remove_observer g i = with_observer g i (\<lambda>ob.
     (ob\<lparr>ob_output := reset_identity (ob_output ob),
         ob_control := ring_clear_and_restart (ob_control ob), ob_id := None\<rparr>, Inr ()))"

definition reset_primary :: "slabs \<Rightarrow> slabs" where
  "reset_primary g =
     g\<lparr>gw_writer_output := reset_identity (gw_writer_output g),
       gw_writer_control := ring_clear_and_restart (gw_writer_control g),
       gw_input := ring_clear_and_restart (gw_input g)\<rparr>"

definition add_writer :: "slabs \<Rightarrow> association_id \<Rightarrow> slabs \<times> (queue_error + unit)" where
  "add_writer g i =
     (if gw_writer_id g = Some i then (g, Inr ())
      else if gw_writer_id g = None then ((reset_primary g)\<lparr>gw_writer_id := Some i\<rparr>, Inr ())
      else add_observer g i)"

definition remove_writer :: "slabs \<Rightarrow> association_id \<Rightarrow> slabs \<times> (queue_error + unit)" where
  "remove_writer g i =
     (if gw_writer_id g = Some i then ((reset_primary g)\<lparr>gw_writer_id := None\<rparr>, Inr ())
      else remove_observer g i)"

definition replace_writer_generation :: "slabs \<Rightarrow> slabs \<times> (queue_error + u64 \<times> u64)" where
  "replace_writer_generation g =
     (case replace_generation (gw_writer_output g) of
        (o1, res) \<Rightarrow>
          (g\<lparr>gw_writer_id := None, gw_input := ring_clear_and_restart (gw_input g),
             gw_writer_control := ring_clear_and_restart (gw_writer_control g), gw_writer_output := o1\<rparr>, res))"

text \<open>Every other method is one operation on a peer's output and control ring, for the primary
  writer, for an observer's slot, or, in the \<open>_for\<close> methods, for whichever of them the id is
  bound to.\<close>

type_synonym peer = "output_replay \<times> replay_ring"

definition for_writer :: "slabs \<Rightarrow> (peer \<Rightarrow> peer \<times> 'a) \<Rightarrow> slabs \<times> 'a" where
  "for_writer g f =
     (case f (gw_writer_output g, gw_writer_control g) of
        ((o1, c), res) \<Rightarrow> (g\<lparr>gw_writer_output := o1, gw_writer_control := c\<rparr>, res))"

definition for_observer ::
  "slabs \<Rightarrow> association_id \<Rightarrow> (peer \<Rightarrow> peer \<times> (queue_error + 'a)) \<Rightarrow> slabs \<times> (queue_error + 'a)" where
  "for_observer g i f = with_observer g i (\<lambda>ob.
     case f (ob_output ob, ob_control ob) of
       ((o1, c), res) \<Rightarrow> (ob\<lparr>ob_output := o1, ob_control := c\<rparr>, res))"

definition for_peer ::
  "slabs \<Rightarrow> association_id \<Rightarrow> (peer \<Rightarrow> peer \<times> (queue_error + 'a)) \<Rightarrow> slabs \<times> (queue_error + 'a)" where
  "for_peer g i f = (if gw_writer_id g = Some i then for_writer g f else for_observer g i f)"

fun peer_restart_control :: "peer \<Rightarrow> peer \<times> (queue_error + unit)" where
  "peer_restart_control (o1, c) = ((o1, ring_clear_and_restart c), Inr ())"

fun peer_acknowledge :: "u64 \<Rightarrow> u64 \<Rightarrow> peer \<Rightarrow> peer \<times> (queue_error + unit)" where
  "peer_acknowledge epoch n (o1, c) =
     (case output_acknowledge o1 epoch n of (o2, res) \<Rightarrow> ((o2, c), res))"

fun peer_push :: "udp_kind \<Rightarrow> bytes \<Rightarrow> peer \<Rightarrow> peer \<times> (queue_error + output_push)" where
  "peer_push kind payload (o1, c) =
     (case push_to_output o1 kind payload of (o2, res) \<Rightarrow> ((o2, c), res))"

fun peer_reconcile :: "u64 \<Rightarrow> u64 \<Rightarrow> peer \<Rightarrow> peer \<times> (queue_error + (u64 \<times> u64) option)" where
  "peer_reconcile epoch n (o1, c) =
     (case reconcile_resume o1 epoch n of (o2, res) \<Rightarrow> ((o2, c), res))"

text \<open>\<open>control_for_mut\<close> and its variants hand out the ring itself, for any ring operation.\<close>

fun peer_control :: "ring_op \<Rightarrow> peer \<Rightarrow> peer \<times> (queue_error + ring_out list)" where
  "peer_control e (o1, c) = (case ring_step c e of (c', outs) \<Rightarrow> ((o1, c'), Inr outs))"

text \<open>Leaving the discarding mode queues the gap, the client's own if it sent one, on the control
  ring; an error there leaves the mode changed.\<close>

fun peer_complete_resume ::
  "(u64 \<times> u64) option \<Rightarrow> peer \<Rightarrow> peer \<times> (queue_error + (u64 \<times> u64) option)" where
  "peer_complete_resume client_gap (o1, c) =
     (case complete_resume o1 of
        (o2, None) \<Rightarrow> ((o2, c), Inr None)
      | (o2, Some stored) \<Rightarrow>
          (case (case client_gap of Some gap \<Rightarrow> gap | None \<Rightarrow> stored) of (abandoned, replacement) \<Rightarrow>
             (case gap_new abandoned replacement of
                Inl e \<Rightarrow> ((o2, c), Inl (Q_Wire e))
              | Inr gap \<Rightarrow>
                  (case ring_push c UKind_Gap (gap_encode gap) of
                     Inl e \<Rightarrow> ((o2, c), Inl e)
                   | Inr (c', n) \<Rightarrow> ((o2, c'), Inr (Some (abandoned, replacement)))))))"

definition restart_writer_control :: "slabs \<Rightarrow> slabs" where
  "restart_writer_control g = g\<lparr>gw_writer_control := ring_clear_and_restart (gw_writer_control g)\<rparr>"

definition restart_observer_control :: "slabs \<Rightarrow> association_id \<Rightarrow> slabs \<times> (queue_error + unit)" where
  "restart_observer_control g i = for_observer g i peer_restart_control"

definition restart_control_for :: "slabs \<Rightarrow> association_id \<Rightarrow> slabs \<times> (queue_error + unit)" where
  "restart_control_for g i =
     (if gw_writer_id g = Some i then (restart_writer_control g, Inr ())
      else restart_observer_control g i)"

definition acknowledge_writer_epoch :: "slabs \<Rightarrow> u64 \<Rightarrow> u64 \<Rightarrow> slabs \<times> (queue_error + unit)" where
  "acknowledge_writer_epoch g epoch n = for_writer g (peer_acknowledge epoch n)"

definition acknowledge_writer :: "slabs \<Rightarrow> u64 \<Rightarrow> slabs \<times> (queue_error + unit)" where
  "acknowledge_writer g n = for_writer g (peer_acknowledge (or_epoch (gw_writer_output g)) n)"

definition acknowledge_observer_epoch ::
  "slabs \<Rightarrow> association_id \<Rightarrow> u64 \<Rightarrow> u64 \<Rightarrow> slabs \<times> (queue_error + unit)" where
  "acknowledge_observer_epoch g i epoch n = for_observer g i (peer_acknowledge epoch n)"

definition acknowledge_observer :: "slabs \<Rightarrow> association_id \<Rightarrow> u64 \<Rightarrow> slabs \<times> (queue_error + unit)" where
  "acknowledge_observer g i n = for_observer g i (\<lambda>p. peer_acknowledge (or_epoch (fst p)) n p)"

definition acknowledge_for :: "slabs \<Rightarrow> association_id \<Rightarrow> u64 \<Rightarrow> u64 \<Rightarrow> slabs \<times> (queue_error + unit)" where
  "acknowledge_for g i epoch n =
     (if gw_writer_id g = Some i then acknowledge_writer_epoch g epoch n
      else acknowledge_observer_epoch g i epoch n)"

definition push_writer_output :: "slabs \<Rightarrow> udp_kind \<Rightarrow> bytes \<Rightarrow> slabs \<times> (queue_error + output_push)" where
  "push_writer_output g kind payload = for_writer g (peer_push kind payload)"

definition push_output_for ::
  "slabs \<Rightarrow> association_id \<Rightarrow> udp_kind \<Rightarrow> bytes \<Rightarrow> slabs \<times> (queue_error + output_push)" where
  "push_output_for g i kind payload = for_peer g i (peer_push kind payload)"

definition reconcile_resume_for ::
  "slabs \<Rightarrow> association_id \<Rightarrow> u64 \<Rightarrow> u64 \<Rightarrow> slabs \<times> (queue_error + (u64 \<times> u64) option)" where
  "reconcile_resume_for g i epoch n = for_peer g i (peer_reconcile epoch n)"

definition complete_writer_resume_for ::
  "slabs \<Rightarrow> (u64 \<times> u64) option \<Rightarrow> slabs \<times> (queue_error + (u64 \<times> u64) option)" where
  "complete_writer_resume_for g client_gap = for_writer g (peer_complete_resume client_gap)"

definition complete_observer_resume_for ::
  "slabs \<Rightarrow> association_id \<Rightarrow> (u64 \<times> u64) option \<Rightarrow> slabs \<times> (queue_error + (u64 \<times> u64) option)" where
  "complete_observer_resume_for g i client_gap = for_observer g i (peer_complete_resume client_gap)"

definition complete_resume_for ::
  "slabs \<Rightarrow> association_id \<Rightarrow> (u64 \<times> u64) option \<Rightarrow> slabs \<times> (queue_error + (u64 \<times> u64) option)" where
  "complete_resume_for g i client_gap =
     (if gw_writer_id g = Some i then complete_writer_resume_for g client_gap
      else complete_observer_resume_for g i client_gap)"

definition control_for_step :: "slabs \<Rightarrow> association_id \<Rightarrow> ring_op \<Rightarrow> slabs \<times> (queue_error + ring_out list)" where
  "control_for_step g i e = for_peer g i (peer_control e)"

definition initial_writer_gap :: "slabs \<Rightarrow> u64 \<Rightarrow> queue_error + (u64 \<times> u64) option" where
  "initial_writer_gap g client_epoch =
     (let current = or_epoch (gw_writer_output g) in
      if current < client_epoch then Inl Q_EpochMismatch
      else Inr (if current > client_epoch then Some (client_epoch, current) else None))"

text \<open>Fanning one record out to the writer and every bound observer, with the observers that
  overran. The first error stops the loop and leaves what was pushed before it.\<close>

fun fan_out ::
  "udp_kind \<Rightarrow> bytes \<Rightarrow> observer_replay list \<Rightarrow> observer_replay list \<times> (queue_error + association_id list)" where
  "fan_out kind payload [] = ([], Inr [])"
| "fan_out kind payload (ob # obs) =
     (case ob_id ob of
        None \<Rightarrow> (case fan_out kind payload obs of (obs', res) \<Rightarrow> (ob # obs', res))
      | Some i \<Rightarrow>
          (case push_to_output (ob_output ob) kind payload of
             (o1, Inl e) \<Rightarrow> (ob\<lparr>ob_output := o1\<rparr> # obs, Inl e)
           | (o1, Inr p) \<Rightarrow>
               (case fan_out kind payload obs of
                  (obs', Inl e) \<Rightarrow> (ob\<lparr>ob_output := o1\<rparr> # obs', Inl e)
                | (obs', Inr overruns) \<Rightarrow>
                    (ob\<lparr>ob_output := o1\<rparr> # obs',
                     Inr (case p of Push_Overrun _ _ \<Rightarrow> i # overruns | _ \<Rightarrow> overruns)))))"

definition push_output ::
  "slabs \<Rightarrow> udp_kind \<Rightarrow> bytes \<Rightarrow> slabs \<times> (queue_error + output_push \<times> association_id list)" where
  "push_output g kind payload =
     (case push_to_output (gw_writer_output g) kind payload of
        (o1, Inl e) \<Rightarrow> (g\<lparr>gw_writer_output := o1\<rparr>, Inl e)
      | (o1, Inr w) \<Rightarrow>
          (case fan_out kind payload (gw_observers g) of
             (obs, Inl e) \<Rightarrow> (g\<lparr>gw_writer_output := o1, gw_observers := obs\<rparr>, Inl e)
           | (obs, Inr overruns) \<Rightarrow>
               (g\<lparr>gw_writer_output := o1, gw_observers := obs\<rparr>, Inr (w, overruns))))"

section \<open>What every operation keeps\<close>

definition ring_wf :: "replay_ring \<Rightarrow> bool" where
  "ring_wf r \<longleftrightarrow> (\<exists>fs. ring_repr r fs)"

definition ring_keeps :: "replay_ring \<Rightarrow> replay_ring \<Rightarrow> bool" where
  "ring_keeps r r' \<longleftrightarrow> ring_wf r' \<and> ring_frame r r'"

definition output_wf :: "output_replay \<Rightarrow> bool" where
  "output_wf o1 \<longleftrightarrow> (\<exists>c. output_inv (c, o1))"

definition output_keeps :: "output_replay \<Rightarrow> output_replay \<Rightarrow> bool" where
  "output_keeps o1 o2 \<longleftrightarrow> output_wf o2 \<and> ring_frame (or_ring o1) (or_ring o2)"

lemma output_wf_ring: "output_wf o1 \<Longrightarrow> ring_wf (or_ring o1)"
  by (auto simp: output_wf_def output_inv_simp ring_wf_def)

lemma ring_push_keeps: "ring_wf r \<Longrightarrow> ring_push r kind payload = Inr (r', n) \<Longrightarrow> ring_keeps r r'"
  unfolding ring_wf_def ring_keeps_def using ring_push_repr by blast

lemma ring_clear_keeps: "ring_wf r \<Longrightarrow> ring_keeps r (ring_clear_and_restart r)"
  unfolding ring_wf_def ring_keeps_def using ring_clear_repr by blast

lemma ring_acknowledge_keeps:
  assumes "ring_wf r"
  shows "ring_keeps r (fst (ring_acknowledge r n))"
proof -
  obtain fs where R: "ring_repr r fs" using assms by (auto simp: ring_wf_def)
  consider "n > rr_next r" | "n \<le> rr_next r" "unat n < unat (rr_next r) - length fs"
    | "n \<le> rr_next r" "unat (rr_next r) - length fs \<le> unat n"
    by (metis linorder_not_le)
  then show ?thesis
  proof cases
    case 3
    from ring_acknowledge_repr [OF R 3(2,1)] show ?thesis by (auto simp: ring_keeps_def ring_wf_def)
  qed (use R ring_acknowledge_refused [OF R] in \<open>auto simp: ring_keeps_def ring_wf_def\<close>)
qed

lemma ring_restart_control_keeps:
  assumes "ring_wf r"
  shows "ring_keeps r (ring_restart_control_after_hello r)"
proof -
  obtain fs where R: "ring_repr r fs" using assms by (auto simp: ring_wf_def)
  from ring_clear_repr [OF R] have "ring_repr (ring_restart_control_after_hello r) []"
    by (simp add: ring_restart_control_after_hello_def ring_repr_def)
  with ring_clear_repr [OF R] show ?thesis
    by (auto simp: ring_keeps_def ring_wf_def ring_frame_def ring_restart_control_after_hello_def)
qed

lemma ring_step_keeps:
  assumes "ring_wf r"
  shows "ring_keeps r (fst (ring_step r e))"
proof (cases e)
  case (Ring_Push kind payload)
  with assms ring_push_keeps [OF assms] show ?thesis
    by (auto simp: ring_keeps_def split: sum.splits)
next
  case (Ring_Acknowledge n)
  with ring_acknowledge_keeps [OF assms, of n] show ?thesis by (simp add: split_beta)
next
  case Ring_Clear
  with ring_clear_keeps [OF assms] show ?thesis by simp
next
  case Ring_RestartControl
  with ring_restart_control_keeps [OF assms] show ?thesis by simp
qed (use assms in \<open>simp_all add: ring_keeps_def\<close>)

lemma push_to_output_keeps:
  assumes "output_wf o1"
  shows "output_keeps o1 (fst (push_to_output o1 kind payload))"
proof -
  obtain c where inv: "output_inv (c, o1)" using assms by (auto simp: output_wf_def)
  have wf: "ring_wf (or_ring o1)" using output_wf_ring [OF assms] .
  have "ring_frame (or_ring o1) (or_ring (fst (push_to_output o1 kind payload)))"
    using ring_clear_keeps [OF wf] ring_push_keeps [OF wf, of kind payload]
    by (auto simp: push_to_output_def ring_keeps_def split: sum.splits option.splits)
  with push_to_output_inv [OF inv, of kind payload] show ?thesis by (auto simp: output_keeps_def output_wf_def)
qed

lemma output_acknowledge_keeps:
  assumes "output_wf o1"
  shows "output_keeps o1 (fst (output_acknowledge o1 epoch n))"
proof -
  obtain c where inv: "output_inv (c, o1)" using assms by (auto simp: output_wf_def)
  have "ring_frame (or_ring o1) (or_ring (fst (output_acknowledge o1 epoch n)))"
    using ring_acknowledge_keeps [OF output_wf_ring [OF assms], of n]
    by (auto simp: output_acknowledge_def ring_keeps_def split_beta)
  with output_acknowledge_inv(1) [OF inv, of epoch n] show ?thesis by (auto simp: output_keeps_def output_wf_def)
qed

lemma reset_identity_keeps:
  assumes "output_wf o1"
  shows "output_keeps o1 (reset_identity o1)"
proof -
  obtain c where inv: "output_inv (c, o1)" using assms by (auto simp: output_wf_def)
  have "ring_frame (or_ring o1) (or_ring (reset_identity o1))"
    using ring_clear_keeps [OF output_wf_ring [OF assms]] by (simp add: reset_identity_def ring_keeps_def)
  with reset_identity_inv [OF inv] show ?thesis by (auto simp: output_keeps_def output_wf_def)
qed

lemma replace_generation_keeps:
  assumes "output_wf o1"
  shows "output_keeps o1 (fst (replace_generation o1))"
proof -
  obtain c where inv: "output_inv (c, o1)" using assms by (auto simp: output_wf_def)
  have "ring_frame (or_ring o1) (or_ring (fst (replace_generation o1)))"
    using ring_clear_keeps [OF output_wf_ring [OF assms]]
    by (auto simp: replace_generation_def ring_keeps_def split: option.splits)
  with replace_generation_inv [OF inv] show ?thesis by (auto simp: output_keeps_def output_wf_def)
qed

lemma complete_resume_keeps:
  assumes "output_wf o1"
  shows "output_keeps o1 (fst (complete_resume o1))"
proof -
  obtain c where inv: "output_inv (c, o1)" using assms by (auto simp: output_wf_def)
  have "or_ring (fst (complete_resume o1)) = or_ring o1" by (simp add: complete_resume_def)
  with complete_resume_inv [OF inv] show ?thesis by (auto simp: output_keeps_def output_wf_def)
qed

lemma reconcile_resume_keeps:
  assumes "output_wf o1"
  shows "output_keeps o1 (fst (reconcile_resume o1 epoch n))"
proof -
  obtain c where inv: "output_inv (c, o1)" using assms by (auto simp: output_wf_def)
  have step: "output_wf (fst (reconcile_resume o1 epoch n))"
  proof -
    obtain o2 res where r: "reconcile_resume o1 epoch n = (o2, res)" by force
    have "output_inv (fst (output_step (c, o1) (Out_Reconcile epoch n)))" using output_step_inv [OF inv] .
    then have "\<exists>c'. output_inv (c', o2)" by (auto simp: r split: sum.splits option.splits)
    with r show ?thesis by (simp add: output_wf_def)
  qed
  have "ring_frame (or_ring o1) (or_ring (fst (output_acknowledge o1 epoch n)))"
    using output_acknowledge_keeps [OF assms, of epoch n] by (simp add: output_keeps_def)
  then have "ring_frame (or_ring o1) (or_ring (fst (reconcile_resume o1 epoch n)))"
    by (auto simp: reconcile_resume_def split: option.splits prod.splits sum.splits)
  with step show ?thesis by (simp add: output_keeps_def)
qed

text \<open>A peer operation keeps both rings.\<close>

definition peer_keeps :: "peer \<Rightarrow> peer \<Rightarrow> bool" where
  "peer_keeps p p' \<longleftrightarrow> output_keeps (fst p) (fst p') \<and> ring_keeps (snd p) (snd p')"

definition peer_wf :: "peer \<Rightarrow> bool" where
  "peer_wf p \<longleftrightarrow> output_wf (fst p) \<and> ring_wf (snd p)"

lemma keeps_refl: "ring_wf r \<Longrightarrow> ring_keeps r r" "output_wf o1 \<Longrightarrow> output_keeps o1 o1"
  by (simp_all add: ring_keeps_def output_keeps_def)

lemma peer_complete_resume_keeps:
  assumes "peer_wf p"
  shows "peer_keeps p (fst (peer_complete_resume gap p))"
proof -
  obtain o1 c where p: "p = (o1, c)" by force
  have "output_keeps o1 (fst (complete_resume o1))" "ring_wf c"
    using assms complete_resume_keeps p by (simp_all add: peer_wf_def)
  then show ?thesis
    using ring_push_keeps [of c UKind_Gap]
    by (auto simp: p peer_keeps_def keeps_refl split: option.splits prod.splits sum.splits)
qed

lemma peer_op_keeps:
  assumes "peer_wf p"
  shows "peer_keeps p (fst (peer_restart_control p))"
    and "peer_keeps p (fst (peer_acknowledge epoch n p))"
    and "peer_keeps p (fst (peer_push kind payload p))"
    and "peer_keeps p (fst (peer_reconcile epoch n p))"
    and "peer_keeps p (fst (peer_control e p))"
  using assms output_acknowledge_keeps [of "fst p" epoch n] push_to_output_keeps [of "fst p" kind payload]
    reconcile_resume_keeps [of "fst p" epoch n] ring_step_keeps [of "snd p" e] ring_clear_keeps [of "snd p"]
  by (cases p; simp add: peer_keeps_def peer_wf_def keeps_refl split_beta)+

section \<open>The slabs\<close>

definition ring_size :: "replay_ring \<Rightarrow> usize \<times> usize" where
  "ring_size r = (length (rr_bytes r), length (rr_slots r))"

definition observer_size :: "observer_replay \<Rightarrow> (usize \<times> usize) \<times> usize \<times> usize" where
  "observer_size ob = (ring_size (or_ring (ob_output ob)), ring_size (ob_control ob))"

definition slabs_sizes where
  "slabs_sizes g = (ring_size (gw_input g), ring_size (or_ring (gw_writer_output g)),
     ring_size (gw_writer_control g), map observer_size (gw_observers g), gw_global_cap g)"

definition observer_wf :: "observer_replay \<Rightarrow> bool" where
  "observer_wf ob \<longleftrightarrow> peer_wf (ob_output ob, ob_control ob)"

definition slabs_wf :: "slabs \<Rightarrow> bool" where
  "slabs_wf g \<longleftrightarrow> ring_wf (gw_input g) \<and> peer_wf (gw_writer_output g, gw_writer_control g) \<and>
     list_all observer_wf (gw_observers g)"

definition slabs_keeps :: "slabs \<Rightarrow> slabs \<Rightarrow> bool" where
  "slabs_keeps g g' \<longleftrightarrow> slabs_wf g' \<and> slabs_sizes g' = slabs_sizes g"

definition observer_keeps :: "observer_replay \<Rightarrow> observer_replay \<Rightarrow> bool" where
  "observer_keeps ob ob' \<longleftrightarrow> observer_wf ob' \<and> observer_size ob' = observer_size ob"

lemma ring_keeps_size: "ring_keeps r r' \<Longrightarrow> ring_wf r' \<and> ring_size r' = ring_size r"
  by (simp add: ring_keeps_def ring_frame_def ring_size_def)

lemma output_keeps_size:
  "output_keeps o1 o2 \<Longrightarrow> output_wf o2 \<and> ring_size (or_ring o2) = ring_size (or_ring o1)"
  by (simp add: output_keeps_def ring_frame_def ring_size_def)

lemma peer_keeps_observer:
  "peer_keeps (ob_output ob, ob_control ob) (o1, c) \<Longrightarrow> observer_keeps ob (ob\<lparr>ob_output := o1, ob_control := c\<rparr>)"
  by (auto simp: peer_keeps_def observer_keeps_def observer_wf_def peer_wf_def observer_size_def
      dest!: ring_keeps_size output_keeps_size)

lemma find_observer_Some:
  "find_observer p obs = Some k \<Longrightarrow> k < length obs \<and> p (obs ! k) \<and> (\<forall>j<k. \<not> p (obs ! j))"
proof (induction obs arbitrary: k)
  case (Cons ob obs)
  show ?case
  proof (cases "p ob")
    case False
    with Cons.prems obtain j where j: "find_observer p obs = Some j" "k = Suc j" by auto
    from Cons.IH [OF j(1)] False j(2) show ?thesis by (auto simp: less_Suc_eq_0_disj)
  qed (use Cons.prems in simp)
qed simp

lemma find_observer_None: "find_observer p obs = None \<longleftrightarrow> list_all (\<lambda>ob. \<not> p ob) obs"
  by (induction obs) auto

lemma update_observer_keeps:
  assumes "slabs_wf g" "k < length (gw_observers g)" "observer_keeps (gw_observers g ! k) ob"
  shows "slabs_keeps g (g\<lparr>gw_observers := (gw_observers g)[k := ob]\<rparr>)"
proof -
  have "map observer_size ((gw_observers g)[k := ob]) = map observer_size (gw_observers g)"
    using assms(2,3) by (simp add: map_update observer_keeps_def list_update_same_conv)
  moreover have "list_all observer_wf ((gw_observers g)[k := ob])"
    using assms by (auto simp: slabs_wf_def observer_keeps_def list_all_length nth_list_update)
  ultimately show ?thesis
    using assms(1) by (simp add: slabs_keeps_def slabs_wf_def slabs_sizes_def)
qed

lemma observer_nth_wf: "slabs_wf g \<Longrightarrow> k < length (gw_observers g) \<Longrightarrow> observer_wf (gw_observers g ! k)"
  by (simp add: slabs_wf_def list_all_length)

lemma slabs_keeps_refl: "slabs_wf g \<Longrightarrow> slabs_keeps g g"
  by (simp add: slabs_keeps_def)

lemma with_observer_keeps:
  assumes wf: "slabs_wf g" and f: "\<And>ob. observer_wf ob \<Longrightarrow> observer_keeps ob (fst (f ob))"
  shows "slabs_keeps g (fst (with_observer g i f))"
proof (cases "find_observer (is_bound_to i) (gw_observers g)")
  case None
  then show ?thesis using wf by (simp add: with_observer_def slabs_keeps_refl)
next
  case (Some k)
  note k = find_observer_Some [OF Some]
  with update_observer_keeps [OF wf, of k "fst (f (gw_observers g ! k))"] f observer_nth_wf [OF wf, of k] Some
  show ?thesis by (simp add: with_observer_def split_beta)
qed

lemma for_writer_keeps:
  assumes wf: "slabs_wf g" and f: "\<And>p. peer_wf p \<Longrightarrow> peer_keeps p (fst (f p))"
  shows "slabs_keeps g (fst (for_writer g f))"
proof -
  obtain o1 c res where r: "f (gw_writer_output g, gw_writer_control g) = ((o1, c), res)" by (metis surj_pair)
  have "peer_keeps (gw_writer_output g, gw_writer_control g) (o1, c)"
    using f [of "(gw_writer_output g, gw_writer_control g)"] wf r by (simp add: slabs_wf_def)
  then show ?thesis
    using wf r by (auto simp: for_writer_def slabs_keeps_def slabs_wf_def slabs_sizes_def peer_keeps_def peer_wf_def
      dest!: ring_keeps_size output_keeps_size)
qed

lemma for_observer_keeps:
  assumes wf: "slabs_wf g" and f: "\<And>p. peer_wf p \<Longrightarrow> peer_keeps p (fst (f p))"
  shows "slabs_keeps g (fst (for_observer g i f))"
proof -
  have keeps: "observer_keeps ob (fst (case f (ob_output ob, ob_control ob) of
      ((o1, c), res) \<Rightarrow> (ob\<lparr>ob_output := o1, ob_control := c\<rparr>, res)))" if "observer_wf ob" for ob
    using f [of "(ob_output ob, ob_control ob)"] that peer_keeps_observer [of ob]
    by (auto simp: observer_wf_def split: prod.splits)
  show ?thesis
    unfolding for_observer_def by (rule with_observer_keeps [OF wf keeps])
qed

lemma for_peer_keeps:
  assumes "slabs_wf g" "\<And>p. peer_wf p \<Longrightarrow> peer_keeps p (fst (f p))"
  shows "slabs_keeps g (fst (for_peer g i f))"
  using for_writer_keeps [OF assms] for_observer_keeps [OF assms] by (simp add: for_peer_def)

text \<open>The \<open>_for\<close> methods dispatch on the id.\<close>

lemma for_peer_methods:
  "restart_control_for g i = for_peer g i peer_restart_control"
  "acknowledge_for g i epoch n = for_peer g i (peer_acknowledge epoch n)"
  "push_output_for g i kind payload = for_peer g i (peer_push kind payload)"
  "reconcile_resume_for g i epoch n = for_peer g i (peer_reconcile epoch n)"
  "complete_resume_for g i gap = for_peer g i (peer_complete_resume gap)"
  "control_for_step g i e = for_peer g i (peer_control e)"
  by (simp_all add: restart_control_for_def restart_writer_control_def restart_observer_control_def for_peer_def
      for_writer_def acknowledge_for_def acknowledge_writer_epoch_def acknowledge_observer_epoch_def
      push_output_for_def reconcile_resume_for_def complete_resume_for_def complete_writer_resume_for_def
      complete_observer_resume_for_def control_for_step_def)

lemma bind_id_keeps: "observer_wf ob \<Longrightarrow> observer_keeps ob (ob\<lparr>ob_id := i\<rparr>)"
  by (simp add: observer_keeps_def observer_wf_def observer_size_def)

lemma add_observer_keeps:
  assumes "slabs_wf g"
  shows "slabs_keeps g (fst (add_observer g i))"
proof (cases "find_observer (\<lambda>ob. ob_id ob = None) (gw_observers g)")
  case (Some k)
  with find_observer_Some [OF Some] update_observer_keeps [OF assms, of k] observer_nth_wf [OF assms, of k]
  show ?thesis by (simp add: add_observer_def bind_id_keeps slabs_keeps_refl [OF assms])
qed (simp add: add_observer_def slabs_keeps_refl [OF assms])

lemma remove_observer_keeps:
  assumes "slabs_wf g"
  shows "slabs_keeps g (fst (remove_observer g i))"
  unfolding remove_observer_def
proof (rule with_observer_keeps [OF assms])
  fix ob assume "observer_wf ob"
  then have "output_wf (ob_output ob)" "ring_wf (ob_control ob)" by (simp_all add: observer_wf_def peer_wf_def)
  then show "observer_keeps ob (fst (ob\<lparr>ob_output := reset_identity (ob_output ob),
         ob_control := ring_clear_and_restart (ob_control ob), ob_id := None\<rparr>, Inr ()))"
    using output_keeps_size [OF reset_identity_keeps [of "ob_output ob"]]
      ring_keeps_size [OF ring_clear_keeps [of "ob_control ob"]]
    by (simp add: observer_keeps_def observer_wf_def observer_size_def peer_wf_def)
qed

lemma primary_keeps:
  assumes wf: "slabs_wf g" and o1: "output_keeps (gw_writer_output g) o1"
  shows "slabs_keeps g (g\<lparr>gw_writer_output := o1, gw_writer_control := ring_clear_and_restart (gw_writer_control g),
    gw_input := ring_clear_and_restart (gw_input g), gw_writer_id := w\<rparr>)"
proof -
  have "ring_wf (gw_writer_control g)" "ring_wf (gw_input g)"
    using wf by (simp_all add: slabs_wf_def peer_wf_def)
  then show ?thesis
    using wf output_keeps_size [OF o1] ring_keeps_size [OF ring_clear_keeps [of "gw_writer_control g"]]
      ring_keeps_size [OF ring_clear_keeps [of "gw_input g"]]
    by (simp add: slabs_keeps_def slabs_wf_def slabs_sizes_def peer_wf_def)
qed

lemma writer_output_wf: "slabs_wf g \<Longrightarrow> output_wf (gw_writer_output g)"
  by (simp add: slabs_wf_def peer_wf_def)

lemma add_writer_keeps: "slabs_wf g \<Longrightarrow> slabs_keeps g (fst (add_writer g i))"
  using primary_keeps [of g "reset_identity (gw_writer_output g)" "Some i"] reset_identity_keeps [OF writer_output_wf]
  by (simp add: add_writer_def reset_primary_def add_observer_keeps slabs_keeps_refl)

lemma remove_writer_keeps: "slabs_wf g \<Longrightarrow> slabs_keeps g (fst (remove_writer g i))"
  using primary_keeps [of g "reset_identity (gw_writer_output g)" None] reset_identity_keeps [OF writer_output_wf]
  by (simp add: remove_writer_def reset_primary_def remove_observer_keeps)

lemma replace_writer_keeps: "slabs_wf g \<Longrightarrow> slabs_keeps g (fst (replace_writer_generation g))"
  using primary_keeps [of g "fst (replace_generation (gw_writer_output g))" None]
    replace_generation_keeps [OF writer_output_wf [of g]]
  by (cases g; cases "replace_generation (gw_writer_output g)") (simp add: replace_writer_generation_def)

lemma fan_out_keeps:
  "list_all observer_wf obs \<Longrightarrow> list_all observer_wf (fst (fan_out kind payload obs)) \<and>
     map observer_size (fst (fan_out kind payload obs)) = map observer_size obs"
proof (induction obs)
  case (Cons ob obs)
  then have "output_wf (ob_output ob)" by (simp add: observer_wf_def peer_wf_def)
  from output_keeps_size [OF push_to_output_keeps [OF this, of kind payload]] Cons show ?case
    by (auto simp: observer_wf_def peer_wf_def observer_size_def split: option.splits prod.splits sum.splits)
qed simp

lemma push_output_keeps:
  assumes "slabs_wf g"
  shows "slabs_keeps g (fst (push_output g kind payload))"
  using assms output_keeps_size [OF push_to_output_keeps [OF writer_output_wf [OF assms], of kind payload]]
    fan_out_keeps [of "gw_observers g" kind payload]
  by (auto simp: push_output_def slabs_keeps_def slabs_wf_def slabs_sizes_def peer_wf_def split: prod.splits sum.splits)

section \<open>Histories of the slabs\<close>

datatype slabs_op =
    Gw_AddWriter association_id | Gw_RemoveWriter association_id
  | Gw_AddObserver association_id | Gw_RemoveObserver association_id
  | Gw_RestartControl association_id | Gw_Acknowledge association_id u64 u64
  | Gw_AcknowledgeObserver association_id u64
  | Gw_PushFor association_id udp_kind bytes | Gw_Reconcile association_id u64 u64
  | Gw_Complete association_id "(u64 \<times> u64) option" | Gw_Control association_id ring_op
  | Gw_PushOutput udp_kind bytes | Gw_PushWriter udp_kind bytes | Gw_ReplaceWriter
  | Gw_RestartWriterControl | Gw_AcknowledgeWriter u64 | Gw_CompleteWriter "(u64 \<times> u64) option"
  | Gw_WriterControl ring_op | Gw_Input ring_op

fun slabs_step :: "slabs \<Rightarrow> slabs_op \<Rightarrow> slabs \<times> unit list" where
  "slabs_step g (Gw_AddWriter i) = (fst (add_writer g i), [])"
| "slabs_step g (Gw_RemoveWriter i) = (fst (remove_writer g i), [])"
| "slabs_step g (Gw_AddObserver i) = (fst (add_observer g i), [])"
| "slabs_step g (Gw_RemoveObserver i) = (fst (remove_observer g i), [])"
| "slabs_step g (Gw_RestartControl i) = (fst (restart_control_for g i), [])"
| "slabs_step g (Gw_Acknowledge i epoch n) = (fst (acknowledge_for g i epoch n), [])"
| "slabs_step g (Gw_AcknowledgeObserver i n) = (fst (acknowledge_observer g i n), [])"
| "slabs_step g (Gw_PushFor i kind payload) = (fst (push_output_for g i kind payload), [])"
| "slabs_step g (Gw_Reconcile i epoch n) = (fst (reconcile_resume_for g i epoch n), [])"
| "slabs_step g (Gw_Complete i gap) = (fst (complete_resume_for g i gap), [])"
| "slabs_step g (Gw_Control i e) = (fst (control_for_step g i e), [])"
| "slabs_step g (Gw_PushOutput kind payload) = (fst (push_output g kind payload), [])"
| "slabs_step g (Gw_PushWriter kind payload) = (fst (push_writer_output g kind payload), [])"
| "slabs_step g Gw_ReplaceWriter = (fst (replace_writer_generation g), [])"
| "slabs_step g Gw_RestartWriterControl = (restart_writer_control g, [])"
| "slabs_step g (Gw_AcknowledgeWriter n) = (fst (acknowledge_writer g n), [])"
| "slabs_step g (Gw_CompleteWriter gap) = (fst (complete_writer_resume_for g gap), [])"
| "slabs_step g (Gw_WriterControl e) = (fst (for_writer g (peer_control e)), [])"
| "slabs_step g (Gw_Input e) = (g\<lparr>gw_input := fst (ring_step (gw_input g) e)\<rparr>, [])"

lemma restart_writer_control_alt: "restart_writer_control g = fst (for_writer g peer_restart_control)"
  by (simp add: restart_writer_control_def for_writer_def)

lemma slabs_step_keeps:
  assumes wf: "slabs_wf g"
  shows "slabs_keeps g (fst (slabs_step g e))"
proof (cases e)
  case (Gw_Input op)
  from wf have "ring_keeps (gw_input g) (fst (ring_step (gw_input g) op))" by (intro ring_step_keeps) (simp add: slabs_wf_def)
  with wf Gw_Input show ?thesis
    by (auto simp: slabs_keeps_def slabs_wf_def slabs_sizes_def dest!: ring_keeps_size)
next
  case (Gw_AcknowledgeObserver i n)
  then show ?thesis by (simp add: acknowledge_observer_def for_observer_keeps [OF wf] peer_op_keeps)
next
  case (Gw_PushWriter kind payload)
  then show ?thesis by (simp add: push_writer_output_def for_writer_keeps [OF wf] peer_op_keeps)
next
  case Gw_RestartWriterControl
  then show ?thesis by (simp add: restart_writer_control_alt for_writer_keeps [OF wf] peer_op_keeps)
next
  case (Gw_AcknowledgeWriter n)
  then show ?thesis by (simp add: acknowledge_writer_def for_writer_keeps [OF wf] peer_op_keeps)
next
  case (Gw_CompleteWriter gap)
  then show ?thesis by (simp add: complete_writer_resume_for_def for_writer_keeps [OF wf] peer_complete_resume_keeps)
next
  case (Gw_WriterControl op)
  then show ?thesis by (simp add: for_writer_keeps [OF wf] peer_op_keeps)
qed (use wf in \<open>simp_all add: for_peer_methods for_peer_keeps peer_op_keeps peer_complete_resume_keeps
    add_writer_keeps remove_writer_keeps add_observer_keeps remove_observer_keeps push_output_keeps
    replace_writer_keeps\<close>)

interpretation slabs: event_machine slabs_step slabs_wf
  by unfold_locales (use slabs_step_keeps in \<open>simp add: slabs_keeps_def\<close>)

lemma slabs_run_sizes: "slabs_wf g \<Longrightarrow> slabs_sizes (fst (run_events slabs_step g ops)) = slabs_sizes g"
  by (rule slabs.run_latch [where P = "\<lambda>s. slabs_sizes s = slabs_sizes g"])
    (use slabs_step_keeps in \<open>auto simp: slabs_keeps_def\<close>)

subsection \<open>Allocation\<close>

definition size_allocated :: "usize \<Rightarrow> usize \<times> usize \<Rightarrow> usize" where
  "size_allocated slot_size sz = fst sz + snd sz * slot_size"

lemma slabs_allocated_sizes:
  "slabs_allocated slot_size g = (case slabs_sizes g of (a, b, c, obs, cap) \<Rightarrow>
     size_allocated slot_size a + size_allocated slot_size b + size_allocated slot_size c
     + sum_list (map (\<lambda>(x, y). size_allocated slot_size x + size_allocated slot_size y) obs))"
  by (simp add: slabs_allocated_def slabs_sizes_def size_allocated_def ring_allocated_def ring_size_def
      observer_allocated_def [abs_def] observer_size_def comp_def)

lemma output_new_size:
  "output_new alloc default_udp_limits = Inr o1 \<Longrightarrow>
   output_wf o1 \<and> ring_size (or_ring o1) = (4 * 1024 * 1024, 1024)"
  using output_new_inv [of alloc default_udp_limits o1]
  by (auto simp: output_wf_def output_new_def ring_new_def ring_size_def default_udp_limits_def
      split: sum.splits dest!: ring_with_capacities_repr)

lemma ring_control_size:
  "ring_control alloc default_udp_limits = Inr r \<Longrightarrow> ring_wf r \<and> ring_size r = (64 * 1024, 1024)"
  by (auto simp: ring_control_def ring_wf_def ring_size_def default_udp_limits_def CONTROL_QUEUE_BYTES_def
      dest!: ring_with_capacities_repr)

lemma observer_storage_size:
  "observer_storage alloc default_udp_limits n = Inr obs \<Longrightarrow> length obs = n \<and> list_all observer_wf obs \<and>
   map observer_size obs = replicate n ((4 * 1024 * 1024, 1024), 64 * 1024, 1024)"
proof (induction n arbitrary: obs)
  case (Suc n)
  then obtain ob obs' where ob: "observer_new alloc default_udp_limits = Inr ob"
      "observer_storage alloc default_udp_limits n = Inr obs'" "obs = ob # obs'" by auto
  from ob(1) obtain o1 c where oc: "output_new alloc default_udp_limits = Inr o1"
      "ring_control alloc default_udp_limits = Inr c" "ob = \<lparr>ob_id = None, ob_output = o1, ob_control = c\<rparr>"
    by (auto simp: observer_new_def)
  from Suc.IH [OF ob(2)] output_new_size [OF oc(1)] ring_control_size [OF oc(2)] show ?case
    using ob(3) oc(3) by (simp add: observer_wf_def observer_size_def peer_wf_def)
qed simp

lemma slabs_new_shape:
  assumes "slabs_new alloc slot_size limits = Inr g"
  shows "slabs_wf g \<and> slabs_allocated slot_size g \<le> 48 * 1024 * 1024 \<and>
    slabs_sizes g = ((4 * 1024 * 1024, 1024), (4 * 1024 * 1024, 1024), (64 * 1024, 1024),
      replicate 9 ((4 * 1024 * 1024, 1024), 64 * 1024, 1024), 48 * 1024 * 1024)"
proof -
  have lim: "limits = default_udp_limits"
    using assms udp_limits_validate_iff [of limits] by (auto simp: slabs_new_def split: sum.splits)
  then obtain obs inp o1 c where n: "observer_storage alloc default_udp_limits OBSERVER_SLOTS = Inr obs"
      "ring_new alloc Stream_Input default_udp_limits = Inr inp" "output_new alloc default_udp_limits = Inr o1"
      "ring_control alloc default_udp_limits = Inr c"
      "g = \<lparr>gw_input = inp, gw_writer_id = None, gw_writer_output = o1, gw_writer_control = c,
            gw_observers = obs, gw_global_cap = global_queue_bytes default_udp_limits\<rparr>"
      "slabs_allocated slot_size g \<le> global_queue_bytes default_udp_limits"
    using assms udp_limits_validate_iff [of default_udp_limits]
    by (auto simp: slabs_new_def Let_def split: if_splits)
  have "ring_wf inp" "ring_size inp = (4 * 1024 * 1024, 1024)"
    using n(2) by (auto simp: ring_new_def ring_wf_def ring_size_def default_udp_limits_def
        dest!: ring_with_capacities_repr split: sum.splits)
  with output_new_size [OF n(3)] ring_control_size [OF n(4)] observer_storage_size [OF n(1)] n(5,6)
  show ?thesis
    by (simp add: slabs_wf_def slabs_sizes_def peer_wf_def OBSERVER_SLOTS_def default_udp_limits_def)
qed

subsection \<open>Peers\<close>

text \<open>The storage an id selects.\<close>

definition peer_view :: "slabs \<Rightarrow> association_id \<Rightarrow> peer option" where
  "peer_view g i =
     (if gw_writer_id g = Some i then Some (gw_writer_output g, gw_writer_control g)
      else map_option (\<lambda>k. (ob_output (gw_observers g ! k), ob_control (gw_observers g ! k)))
        (find_observer (is_bound_to i) (gw_observers g)))"

fun slabs_subject :: "slabs_op \<Rightarrow> association_id option" where
  "slabs_subject (Gw_AddWriter i) = Some i"
| "slabs_subject (Gw_RemoveWriter i) = Some i"
| "slabs_subject (Gw_AddObserver i) = Some i"
| "slabs_subject (Gw_RemoveObserver i) = Some i"
| "slabs_subject (Gw_RestartControl i) = Some i"
| "slabs_subject (Gw_Acknowledge i _ _) = Some i"
| "slabs_subject (Gw_AcknowledgeObserver i _) = Some i"
| "slabs_subject (Gw_PushFor i _ _) = Some i"
| "slabs_subject (Gw_Reconcile i _ _) = Some i"
| "slabs_subject (Gw_Complete i _) = Some i"
| "slabs_subject (Gw_Control i _) = Some i"
| "slabs_subject _ = None"

text \<open>Updating a slot that is not bound to an id, to one that is not either, does not change what
  the id selects.\<close>

lemma find_observer_update:
  "k < length obs \<Longrightarrow> \<not> p (obs ! k) \<Longrightarrow> \<not> p ob \<Longrightarrow> find_observer p (obs[k := ob]) = find_observer p obs"
proof (induction obs arbitrary: k)
  case (Cons x obs)
  then show ?case by (cases k) simp_all
qed simp

lemma observer_view_update:
  assumes "k < length (gw_observers g)" "ob_id (gw_observers g ! k) \<noteq> Some j" "ob_id ob \<noteq> Some j"
  shows "peer_view (g\<lparr>gw_observers := (gw_observers g)[k := ob]\<rparr>) j = peer_view g j"
proof -
  have f: "find_observer (is_bound_to j) ((gw_observers g)[k := ob]) = find_observer (is_bound_to j) (gw_observers g)"
    using assms by (intro find_observer_update) (simp_all add: is_bound_to_def)
  have "m \<noteq> k" if "find_observer (is_bound_to j) (gw_observers g) = Some m" for m
    using find_observer_Some [OF that] assms(2) by (auto simp: is_bound_to_def)
  then show ?thesis
    unfolding peer_view_def by (auto simp: f split: option.splits intro!: map_option_cong)
qed

lemma with_observer_view:
  assumes "\<And>ob. ob_id ob = Some i \<Longrightarrow> ob_id (fst (f ob)) \<in> {None, Some i}" "j \<noteq> i"
  shows "peer_view (fst (with_observer g i f)) j = peer_view g j"
proof (cases "find_observer (is_bound_to i) (gw_observers g)")
  case (Some k)
  note k = find_observer_Some [OF Some]
  then have i: "ob_id (gw_observers g ! k) = Some i" by (simp add: is_bound_to_def)
  then have "ob_id (fst (f (gw_observers g ! k))) \<noteq> Some j" using assms(1) [OF i] assms(2) by auto
  with k i assms(2) observer_view_update [of k g j "fst (f (gw_observers g ! k))"] Some show ?thesis
    by (simp add: with_observer_def split_beta)
qed (simp add: with_observer_def)

lemma for_observer_view:
  assumes "j \<noteq> i"
  shows "peer_view (fst (for_observer g i f)) j = peer_view g j"
  unfolding for_observer_def by (rule with_observer_view) (simp_all add: assms split_beta)

lemma for_peer_view:
  assumes "j \<noteq> i"
  shows "peer_view (fst (for_peer g i f)) j = peer_view g j"
proof (cases "gw_writer_id g = Some i")
  case True
  then show ?thesis using assms by (simp add: for_peer_def for_writer_def peer_view_def split_beta)
next
  case False
  then show ?thesis using for_observer_view [OF assms] by (simp add: for_peer_def)
qed

lemma add_observer_view:
  assumes "j \<noteq> i"
  shows "peer_view (fst (add_observer g i)) j = peer_view g j"
proof (cases "find_observer (\<lambda>ob. ob_id ob = None) (gw_observers g)")
  case (Some k)
  with find_observer_Some [OF Some] observer_view_update [of k g j] assms show ?thesis
    by (simp add: add_observer_def)
qed (simp add: add_observer_def)

lemma remove_observer_view: "j \<noteq> i \<Longrightarrow> peer_view (fst (remove_observer g i)) j = peer_view g j"
  unfolding remove_observer_def by (rule with_observer_view) simp_all

lemma rebind_view:
  "gw_writer_id g \<noteq> Some j \<Longrightarrow> w \<noteq> Some j \<Longrightarrow> peer_view ((reset_primary g)\<lparr>gw_writer_id := w\<rparr>) j = peer_view g j"
  by (simp add: peer_view_def reset_primary_def)

lemma slabs_step_view:
  assumes "slabs_subject e = Some i" "j \<noteq> i"
  shows "peer_view (fst (slabs_step g e)) j = peer_view g j"
  using assms
  by (cases e)
    (simp_all add: for_peer_methods for_peer_view acknowledge_observer_def for_observer_view add_observer_view remove_observer_view
      add_writer_def remove_writer_def rebind_view)

section \<open>Properties\<close>

text \<open>The gateway's replay storage is allocated once. Construction fits the 48 MiB cap or fails,
  and no history of operations changes the size of any of the 21 rings, or breaks one.\<close>

theorem slabs_allocation_fixed:
  "case slabs_new alloc slot_size limits of
     Inl e \<Rightarrow> True
   | Inr g0 \<Rightarrow>
       let g = fst (run_events slabs_step g0 ops) in
       slabs_wf g \<and> slabs_allocated slot_size g = 46792704 + 21504 * slot_size \<and>
       slabs_allocated slot_size g \<le> 48 * 1024 * 1024"
proof (cases "slabs_new alloc slot_size limits")
  case (Inr g0)
  note g0 = slabs_new_shape [OF Inr]
  have "slabs_sizes (fst (run_events slabs_step g0 ops)) = slabs_sizes g0"
    using slabs_run_sizes g0 by blast
  moreover have "slabs_wf (fst (run_events slabs_step g0 ops))" using slabs.run_inv g0 by blast
  moreover have "slabs_allocated slot_size g0 = 46792704 + 21504 * slot_size"
    using g0 unfolding slabs_allocated_sizes by (simp add: size_allocated_def sum_list_replicate algebra_simps)
  moreover have "slabs_allocated slot_size (fst (run_events slabs_step g0 ops)) = slabs_allocated slot_size g0"
    using \<open>slabs_sizes _ = _\<close> by (simp add: slabs_allocated_sizes)
  ultimately show ?thesis using Inr g0 by (simp add: Let_def)
qed simp

text \<open>C23: peers are isolated: operations on behalf of other peers, whatever they are and however they
  end, never change the output or the control ring an id selects.\<close>

theorem peer_isolation:
  assumes "list_all (\<lambda>e. slabs_subject e \<noteq> None \<and> slabs_subject e \<noteq> Some j) ops"
  shows "peer_view (fst (run_events slabs_step g ops)) j = peer_view g j"
  using assms
proof (induction ops arbitrary: g)
  case (Cons e ops)
  then obtain i where "slabs_subject e = Some i" "j \<noteq> i" by auto
  from slabs_step_view [OF this, of g] Cons show ?case by (simp add: split_beta)
qed simp

definition two_peer_slabs :: slabs where
  "two_peer_slabs =
     (let o1 = \<lparr>or_epoch = 0, or_ring = small_ring, or_mode = Buffering, or_pending_gap = None,
                or_gap_announced = False\<rparr>
      in \<lparr>gw_input = small_ring, gw_writer_id = Some [1], gw_writer_output = o1, gw_writer_control = small_ring,
          gw_observers = [\<lparr>ob_id = Some [2], ob_output = o1, ob_control = small_ring\<rparr>], gw_global_cap = 1000\<rparr>)"

lemma peer_isolation_witness:
  "peer_view (fst (run_events slabs_step two_peer_slabs [Gw_RemoveWriter [1], Gw_AddWriter [3]])) [2]
     = peer_view two_peer_slabs [2]"
  by (rule peer_isolation) simp

lemma fan_out_Inr:
  "fan_out kind payload obs = (obs', Inr overruns) \<Longrightarrow>
   obs' = map (\<lambda>ob. if ob_id ob = None then ob
     else ob\<lparr>ob_output := fst (push_to_output (ob_output ob) kind payload)\<rparr>) obs \<and>
   overruns = concat (map (\<lambda>ob. case ob_id ob of
       None \<Rightarrow> []
     | Some i \<Rightarrow> (case snd (push_to_output (ob_output ob) kind payload) of
         Inr (Push_Overrun _ _) \<Rightarrow> [i] | _ \<Rightarrow> [])) obs)"
  by (induction obs arbitrary: obs' overruns)
    (auto split: option.splits prod.splits sum.splits output_push.splits)

lemma find_observer_map:
  "(\<And>ob. p (f ob) = p ob) \<Longrightarrow> find_observer p (map f obs) = find_observer p obs"
  by (induction obs) simp_all

text \<open>A record the gateway fans out successfully is pushed, once, to the output of every peer that
  is bound, is pushed nowhere else, and the report names exactly the observers it overran.\<close>

theorem fan_out_reaches_every_peer:
  "case push_output g kind payload of
     (g', Inl e) \<Rightarrow> True
   | (g', Inr (w, overruns)) \<Rightarrow>
       peer_view g' i = map_option (\<lambda>(o1, c). (fst (push_to_output o1 kind payload), c)) (peer_view g i) \<and>
       filter (\<lambda>ob. ob_id ob = None) (gw_observers g') = filter (\<lambda>ob. ob_id ob = None) (gw_observers g) \<and>
       overruns = concat (map (\<lambda>ob. case ob_id ob of
           None \<Rightarrow> []
         | Some j \<Rightarrow> (case snd (push_to_output (ob_output ob) kind payload) of
             Inr (Push_Overrun _ _) \<Rightarrow> [j] | _ \<Rightarrow> [])) (gw_observers g))"
proof (cases "snd (push_output g kind payload)")
  case (Inr res)
  let ?f = "\<lambda>ob. if ob_id ob = None then ob
     else ob\<lparr>ob_output := fst (push_to_output (ob_output ob) kind payload)\<rparr>"
  obtain w overruns where res: "res = (w, overruns)" by force
  obtain o1 where o1: "push_to_output (gw_writer_output g) kind payload = (o1, Inr w)"
      "fan_out kind payload (gw_observers g) = (map ?f (gw_observers g), Inr overruns)"
    using Inr res fan_out_Inr [of kind payload "gw_observers g"]
    by (auto simp: push_output_def split: prod.splits sum.splits)
  have g': "push_output g kind payload
      = (g\<lparr>gw_writer_output := o1, gw_observers := map ?f (gw_observers g)\<rparr>, Inr (w, overruns))"
    using o1 by (simp add: push_output_def)
  have bound: "is_bound_to i (?f ob) = is_bound_to i ob" for ob by (simp add: is_bound_to_def)
  have fnd: "find_observer (is_bound_to i) (map ?f (gw_observers g)) = find_observer (is_bound_to i) (gw_observers g)"
    by (rule find_observer_map) (rule bound)
  have slot: "ob_output (map ?f (gw_observers g) ! k) = fst (push_to_output (ob_output (gw_observers g ! k)) kind payload)"
      "ob_control (map ?f (gw_observers g) ! k) = ob_control (gw_observers g ! k)"
    if "find_observer (is_bound_to i) (gw_observers g) = Some k" for k
    using find_observer_Some [OF that] by (simp_all add: is_bound_to_def)
  have view: "peer_view (g\<lparr>gw_writer_output := o1, gw_observers := map ?f (gw_observers g)\<rparr>) i
      = map_option (\<lambda>(o1, c). (fst (push_to_output o1 kind payload), c)) (peer_view g i)"
    using o1(1) slot
    by (cases "find_observer (is_bound_to i) (gw_observers g)") (simp_all add: peer_view_def fnd)
  have "filter (\<lambda>ob. ob_id ob = None) (map ?f obs) = filter (\<lambda>ob. ob_id ob = None) obs" for obs
    by (induction obs) simp_all
  with view fan_out_Inr [OF o1(2)] show ?thesis unfolding g' by simp
qed (auto simp: split_beta split: sum.splits)

end
