(* ===== verification/Udp_Association.thy ===== *)
theory Udp_Association
  imports Udp_Admission Udp_Gateway Udp_Slabs
begin

text \<open>
  The gateway's side of an everudp association (\<open>crates/everudp/src/association.rs\<close>,
  \<open>GatewayAssociation\<close>): established from an admitted initial connection, resumed by later ones,
  with the delivery gates of the client's input and control streams. Its output and control rings
  live in the replay slabs. Methods return the association, life cycle and slabs they changed.
\<close>

datatype association_failure =
    As_Admission admission_error | As_Gateway gateway_error | As_Queue queue_error | As_Wire wire_error
  | As_Handshake handshake_error | As_InitialRequired | As_ResumeRequired | As_ResumePosition
  | As_ObserverInput | As_SignalDenied u8

datatype input_operation = In_Bytes bytes | In_Resize resize | In_Signal u8 | In_Close

datatype input_disposition = InDeliver input_operation | InDuplicate u64

datatype control_disposition = Ctl_Applied | Ctl_Duplicate

record association_authorization =
  au_association_id :: association_id
  au_generation :: gateway_generation
  au_role :: connection_role
  au_client_spki :: bytes

definition authorize :: "association_authorization \<Rightarrow> client_hello \<Rightarrow> bytes \<Rightarrow> admission_error + unit" where
  "authorize au hello spki =
     (if is_initial hello \<or> hello_association_id hello \<noteq> au_association_id au
         \<or> hello_generation hello \<noteq> au_generation au \<or> hello_role hello \<noteq> au_role au
         \<or> au_client_spki au \<noteq> spki
      then Inl Ad_BindingMismatch else Inr ())"

record gateway_association =
  ga_association_id :: association_id
  ga_generation :: gateway_generation
  ga_role :: connection_role
  ga_client_spki :: bytes
  ga_input_delivery :: delivery_gate
  ga_control_delivery :: delivery_gate
  ga_input_closed :: bool
  ga_resume_gap :: "(u64 \<times> u64) option"

definition new_authenticated ::
  "association_id \<Rightarrow> gateway_generation \<Rightarrow> connection_role \<Rightarrow> bytes \<Rightarrow> gateway_association" where
  "new_authenticated i g role spki =
     \<lparr>ga_association_id = i, ga_generation = g, ga_role = role, ga_client_spki = spki,
      ga_input_delivery = gate_new 0 0, ga_control_delivery = gate_new 0 1,
      ga_input_closed = False, ga_resume_gap = None\<rparr>"

definition mark_input_closed :: "gateway_association \<Rightarrow> gateway_association" where
  "mark_input_closed a = a\<lparr>ga_input_closed := True\<rparr>"

definition authorization :: "gateway_association \<Rightarrow> association_authorization" where
  "authorization a = \<lparr>au_association_id = ga_association_id a, au_generation = ga_generation a,
     au_role = ga_role a, au_client_spki = ga_client_spki a\<rparr>"

section \<open>Rings in the slabs\<close>

definition output_for :: "slabs \<Rightarrow> association_id \<Rightarrow> queue_error + output_replay" where
  "output_for g i = ok_or Q_UnknownObserver (map_option fst (peer_view g i))"

definition control_for :: "slabs \<Rightarrow> association_id \<Rightarrow> queue_error + replay_ring" where
  "control_for g i = ok_or Q_UnknownObserver (map_option snd (peer_view g i))"

text \<open>\<open>control_mut(slabs)?\<close> followed by a push or an acknowledgement of the ring.\<close>

definition control_push :: "slabs \<Rightarrow> association_id \<Rightarrow> udp_kind \<Rightarrow> bytes \<Rightarrow> slabs \<times> (queue_error + u64)" where
  "control_push g i kind payload = for_peer g i (\<lambda>(o1, c).
     case ring_push c kind payload of
       Inl e \<Rightarrow> ((o1, c), Inl e)
     | Inr (c', n) \<Rightarrow> ((o1, c'), Inr n))"

definition control_acknowledge :: "slabs \<Rightarrow> association_id \<Rightarrow> u64 \<Rightarrow> slabs \<times> (queue_error + unit)" where
  "control_acknowledge g i n = for_peer g i (\<lambda>(o1, c).
     case ring_acknowledge c n of (c', res) \<Rightarrow> ((o1, c'), res))"

definition acknowledge_sent_control ::
  "gateway_association \<Rightarrow> u64 \<Rightarrow> slabs \<Rightarrow> slabs \<times> (association_failure + unit)" where
  "acknowledge_sent_control a n g =
     (case control_acknowledge g (ga_association_id a) n of (g', res) \<Rightarrow> (g', map_err As_Queue res))"

section \<open>Hellos\<close>

definition make_server_hello :: "gateway_association \<Rightarrow> slabs \<Rightarrow> association_failure + server_hello" where
  "make_server_hello a g =
     try_bind (map_err As_Queue (output_for g (ga_association_id a))) (\<lambda>o1.
       map_err As_Handshake (server_hello_new
         \<lparr>sh_association_id = ga_association_id a, sh_generation = ga_generation a, sh_role = ga_role a,
          sh_input_epoch = dg_epoch (ga_input_delivery a),
          sh_accepted_input_ack = dg_next_expected (ga_input_delivery a),
          sh_output_epoch = or_epoch o1, sh_next_output = rr_next (or_ring o1),
          sh_pending_gap = (case ga_resume_gap a of Some gap \<Rightarrow> Some gap | None \<Rightarrow> or_pending_gap o1)\<rparr>))"

definition queue_server_hello ::
  "gateway_association \<Rightarrow> slabs \<Rightarrow> slabs \<times> (association_failure + u64)" where
  "queue_server_hello a g =
     (case make_server_hello a g of
        Inl e \<Rightarrow> (g, Inl e)
      | Inr hello \<Rightarrow>
          (case server_hello_encode_into hello (replicate SERVER_HELLO_LEN 0) of
             Inl e \<Rightarrow> (g, Inl (As_Handshake e))
           | Inr (payload, _) \<Rightarrow>
               (case control_push g (ga_association_id a) UKind_ServerHello payload of
                  (g', res) \<Rightarrow> (g', map_err As_Queue res))))"

definition association_complete_resume ::
  "gateway_association \<Rightarrow> slabs \<Rightarrow> (u64 \<times> u64) option \<Rightarrow> slabs \<times> (association_failure + (u64 \<times> u64) option)" where
  "association_complete_resume a g client_gap =
     (case complete_resume_for g (ga_association_id a) client_gap of (g', res) \<Rightarrow> (g', map_err As_Queue res))"

definition rollback_initial ::
  "gateway_association \<Rightarrow> gateway_lifecycle \<Rightarrow> slabs \<Rightarrow> gateway_lifecycle \<times> slabs \<times> (association_failure + unit)" where
  "rollback_initial a l g =
     (let l' = fst (lifecycle_release l (ga_association_id a)) in
      case (case ga_role a of
              Connection_Writer \<Rightarrow> remove_writer g (ga_association_id a)
            | Connection_Observer \<Rightarrow> remove_observer g (ga_association_id a)) of
        (g', res) \<Rightarrow> (l', g', map_err As_Queue res))"

definition rollback_with ::
  "gateway_association \<Rightarrow> gateway_lifecycle \<Rightarrow> slabs \<Rightarrow> association_failure \<Rightarrow>
   gateway_lifecycle \<times> slabs \<times> (association_failure + 'a)" where
  "rollback_with a l g e =
     (case rollback_initial a l g of
        (l', g', Inl e') \<Rightarrow> (l', g', Inl e')
      | (l', g', Inr _) \<Rightarrow> (l', g', Inl e))"

definition establish ::
  "admitted_connection \<Rightarrow> gateway_lifecycle \<Rightarrow> slabs \<Rightarrow>
   gateway_lifecycle \<times> slabs \<times> (association_failure + gateway_association \<times> gateway_action)" where
  "establish admitted l g =
     (if \<not> is_initial (ad_hello admitted) then (l, g, Inl As_InitialRequired)
      else
        let i = hello_association_id (ad_hello admitted); role = hello_role (ad_hello admitted) in
        case admit_staged l admitted of
          (l1, Inl e) \<Rightarrow> (l1, g, Inl (As_Gateway e))
        | (l1, Inr action) \<Rightarrow>
            (case (case role of Connection_Writer \<Rightarrow> add_writer g i | Connection_Observer \<Rightarrow> add_observer g i) of
               (g1, Inl e) \<Rightarrow> (fst (lifecycle_release l1 i), g1, Inl (As_Queue e))
             | (g1, Inr _) \<Rightarrow>
                 (case output_for g1 i of
                    Inl e \<Rightarrow> (l1, g1, Inl (As_Queue e))
                  | Inr o1 \<Rightarrow>
                      let client_epoch = rp_output_epoch (hello_position (ad_hello admitted));
                          initial_gap = (if or_epoch o1 > client_epoch then Some (client_epoch, or_epoch o1) else None);
                          a = (new_authenticated i (hello_generation (ad_hello admitted)) role
                                 (ad_client_spki admitted))\<lparr>ga_resume_gap := initial_gap\<rparr>
                      in (case queue_server_hello a g1 of
                            (g2, Inl e) \<Rightarrow> rollback_with a l1 g2 e
                          | (g2, Inr _) \<Rightarrow>
                              if initial_gap \<noteq> None then
                                (case association_complete_resume a g2 initial_gap of
                                   (g3, Inl e) \<Rightarrow> rollback_with a l1 g3 e
                                 | (g3, Inr _) \<Rightarrow> (l1, g3, Inr (a\<lparr>ga_resume_gap := None\<rparr>, action)))
                              else (l1, g2, Inr (a\<lparr>ga_resume_gap := None\<rparr>, action))))))"

definition resume ::
  "gateway_association \<Rightarrow> admitted_connection \<Rightarrow> gateway_lifecycle \<Rightarrow> slabs \<Rightarrow>
   gateway_association \<times> gateway_lifecycle \<times> slabs \<times> (association_failure + gateway_action)" where
  "resume a admitted l g =
     (let i = ga_association_id a; p = hello_position (ad_hello admitted) in
      if is_initial (ad_hello admitted) then (a, l, g, Inl As_ResumeRequired)
      else case authorize (authorization a) (ad_hello admitted) (ad_client_spki admitted) of
        Inl e \<Rightarrow> (a, l, g, Inl (As_Admission e))
      | Inr _ \<Rightarrow>
          if rp_input_epoch p \<noteq> dg_epoch (ga_input_delivery a)
             \<or> rp_next_input p < dg_next_expected (ga_input_delivery a)
             \<or> rp_next_output p \<noteq> rp_delivered_output_ack p
          then (a, l, g, Inl As_ResumePosition)
          else case admit l admitted False of
            (l1, Inl e) \<Rightarrow> (a, l1, g, Inl (As_Gateway e))
          | (l1, Inr action) \<Rightarrow>
              (case reconcile_resume_for g i (rp_output_epoch p) (rp_delivered_output_ack p) of
                 (g1, Inl e) \<Rightarrow> (a, l1, g1, Inl (As_Queue e))
               | (g1, Inr resume_gap) \<Rightarrow>
                   let a1 = a\<lparr>ga_control_delivery := gate_new 0 1\<rparr> in
                   (case restart_control_for g1 i of
                      (g2, Inl e) \<Rightarrow> (a1, l1, g2, Inl (As_Queue e))
                    | (g2, Inr _) \<Rightarrow>
                        let a2 = a1\<lparr>ga_resume_gap := resume_gap\<rparr> in
                        (case queue_server_hello a2 g2 of
                           (g3, Inl e) \<Rightarrow> (a2, l1, g3, Inl e)
                         | (g3, Inr _) \<Rightarrow>
                             (case association_complete_resume a2 g3 resume_gap of
                                (g4, Inl e) \<Rightarrow> (a2, l1, g4, Inl e)
                              | (g4, Inr _) \<Rightarrow> (a2\<lparr>ga_resume_gap := None\<rparr>, l1, g4, Inr action))))))"

section \<open>Input\<close>

definition decode_input_operation :: "udp_kind \<Rightarrow> bytes \<Rightarrow> association_failure + input_operation" where
  "decode_input_operation kind payload =
     (if kind_stream kind \<noteq> Stream_Input then Inl (As_Wire (We_KindNotAllowed kind Stream_Input))
      else case payload_bounds kind default_udp_limits of (minimum, maximum) \<Rightarrow>
        if length payload > maximum then Inl (As_Wire (We_PayloadTooLarge kind (length payload) maximum))
        else if length payload < minimum then Inl (As_Wire (We_LengthInvalid kind (length payload)))
        else case kind of
          UKind_Input \<Rightarrow> Inr (In_Bytes payload)
        | UKind_Resize \<Rightarrow> map_err As_Wire (try_bind (resize_decode_exact payload) (\<lambda>r. Inr (In_Resize r)))
        | UKind_Signal \<Rightarrow>
            if payload ! 0 \<in> {1, 2, 3, 15, 18, 20} then Inr (In_Signal (payload ! 0))
            else Inl (As_SignalDenied (payload ! 0))
        | UKind_InputClose \<Rightarrow> Inr In_Close
        | _ \<Rightarrow> Inl (As_Wire (We_KindNotAllowed kind Stream_Input)))"

definition begin_input ::
  "gateway_association \<Rightarrow> udp_kind \<Rightarrow> u64 \<Rightarrow> bytes \<Rightarrow> gateway_association \<times> (association_failure + input_disposition)" where
  "begin_input a kind sequence payload =
     (if ga_role a \<noteq> Connection_Writer then (a, Inl As_ObserverInput)
      else case decode_input_operation kind payload of
        Inl e \<Rightarrow> (a, Inl e)
      | Inr operation \<Rightarrow>
          (case gate_begin (ga_input_delivery a) (dg_epoch (ga_input_delivery a)) sequence of
             (d, Inl e) \<Rightarrow> (a\<lparr>ga_input_delivery := d\<rparr>, Inl (As_Queue e))
           | (d, Inr Deliver) \<Rightarrow> (a\<lparr>ga_input_delivery := d\<rparr>, Inr (InDeliver operation))
           | (d, Inr Duplicate) \<Rightarrow> (a\<lparr>ga_input_delivery := d\<rparr>, Inr (InDuplicate (dg_next_expected d)))))"

definition can_queue_input_ack :: "gateway_association \<Rightarrow> slabs \<Rightarrow> bool" where
  "can_queue_input_ack a g =
     (case control_for g (ga_association_id a) of
        Inl _ \<Rightarrow> False | Inr c \<Rightarrow> ring_can_accept c UKind_AckInput ACK_WIRE_LEN)"

definition commit_input ::
  "gateway_association \<Rightarrow> u64 \<Rightarrow> slabs \<Rightarrow> gateway_association \<times> slabs \<times> (association_failure + udp_ack)" where
  "commit_input a sequence g =
     (let d = ga_input_delivery a; i = ga_association_id a in
      case checked_add (dg_next_expected d) 1 of
        None \<Rightarrow> (a, g, Inl (As_Queue Q_SequenceOverflow))
      | Some n \<Rightarrow>
          let ack = \<lparr>ack_epoch = dg_epoch d, next_expected = n\<rparr>; payload = ack_encode ack in
          (case control_for g i of
             Inl e \<Rightarrow> (a, g, Inl (As_Queue e))
           | Inr c \<Rightarrow>
               if \<not> ring_can_accept c UKind_AckInput (length payload) then (a, g, Inl (As_Queue Q_Full))
               else case gate_commit d (dg_epoch d) sequence of
                 (d', Inl e) \<Rightarrow> (a\<lparr>ga_input_delivery := d'\<rparr>, g, Inl (As_Queue e))
               | (d', Inr _) \<Rightarrow>
                   (case control_push g i UKind_AckInput payload of
                      (g', Inl e) \<Rightarrow> (a\<lparr>ga_input_delivery := d'\<rparr>, g', Inl (As_Queue e))
                    | (g', Inr _) \<Rightarrow> (a\<lparr>ga_input_delivery := d'\<rparr>, g', Inr ack))))"

definition repeat_input_ack ::
  "gateway_association \<Rightarrow> u64 \<Rightarrow> slabs \<Rightarrow> slabs \<times> (association_failure + udp_ack)" where
  "repeat_input_ack a n g =
     (let ack = \<lparr>ack_epoch = dg_epoch (ga_input_delivery a), next_expected = n\<rparr>
      in case control_push g (ga_association_id a) UKind_AckInput (ack_encode ack) of
           (g', Inl e) \<Rightarrow> (g', Inl (As_Queue e))
         | (g', Inr _) \<Rightarrow> (g', Inr ack))"

definition abort_input :: "gateway_association \<Rightarrow> u64 \<Rightarrow> gateway_association \<times> (association_failure + unit)" where
  "abort_input a sequence =
     (case gate_abort (ga_input_delivery a) (dg_epoch (ga_input_delivery a)) sequence of
        (d, res) \<Rightarrow> (a\<lparr>ga_input_delivery := d\<rparr>, map_err As_Queue res))"

section \<open>Control from the client\<close>

definition accept_output_ack ::
  "gateway_association \<Rightarrow> u64 \<Rightarrow> udp_ack \<Rightarrow> slabs \<Rightarrow>
   gateway_association \<times> slabs \<times> (association_failure + control_disposition)" where
  "accept_output_ack a sequence ack g =
     (let epoch = dg_epoch (ga_control_delivery a) in
      case gate_begin (ga_control_delivery a) epoch sequence of
        (d, Inl e) \<Rightarrow> (a\<lparr>ga_control_delivery := d\<rparr>, g, Inl (As_Queue e))
      | (d, Inr Duplicate) \<Rightarrow> (a\<lparr>ga_control_delivery := d\<rparr>, g, Inr Ctl_Duplicate)
      | (d, Inr Deliver) \<Rightarrow>
          (case acknowledge_for g (ga_association_id a) (ack_epoch ack) (next_expected ack) of
             (g', Inl e) \<Rightarrow>
               (case gate_abort d epoch sequence of
                  (d', Inl e') \<Rightarrow> (a\<lparr>ga_control_delivery := d'\<rparr>, g', Inl (As_Queue e'))
                | (d', Inr _) \<Rightarrow> (a\<lparr>ga_control_delivery := d'\<rparr>, g', Inl (As_Queue e)))
           | (g', Inr _) \<Rightarrow>
               (case gate_commit d epoch sequence of
                  (d', Inl e) \<Rightarrow> (a\<lparr>ga_control_delivery := d'\<rparr>, g', Inl (As_Queue e))
                | (d', Inr _) \<Rightarrow> (a\<lparr>ga_control_delivery := d'\<rparr>, g', Inr Ctl_Applied))))"

definition accept_detach ::
  "gateway_association \<Rightarrow> u64 \<Rightarrow> gateway_association \<times> (association_failure + control_disposition)" where
  "accept_detach a sequence =
     (let epoch = dg_epoch (ga_control_delivery a) in
      case gate_begin (ga_control_delivery a) epoch sequence of
        (d, Inl e) \<Rightarrow> (a\<lparr>ga_control_delivery := d\<rparr>, Inl (As_Queue e))
      | (d, Inr Duplicate) \<Rightarrow> (a\<lparr>ga_control_delivery := d\<rparr>, Inr Ctl_Duplicate)
      | (d, Inr Deliver) \<Rightarrow>
          (case gate_commit d epoch sequence of
             (d', Inl e) \<Rightarrow> (a\<lparr>ga_control_delivery := d'\<rparr>, Inl (As_Queue e))
           | (d', Inr _) \<Rightarrow> (a\<lparr>ga_control_delivery := d'\<rparr>, Inr Ctl_Applied)))"

section \<open>What the input operations do\<close>

text \<open>An operation on a peer's storage acts on what its id selects, if it selects something.\<close>

lemma find_observer_rebound:
  "find_observer p obs = Some k \<Longrightarrow> p ob \<Longrightarrow> find_observer p (obs[k := ob]) = Some k"
proof (induction obs arbitrary: k)
  case (Cons x obs)
  then show ?case by (cases k) (auto split: if_splits)
qed simp

lemma for_peer_own:
  assumes "peer_view g i = Some p"
  shows "snd (for_peer g i f) = snd (f p) \<and> peer_view (fst (for_peer g i f)) i = Some (fst (f p))"
proof (cases "gw_writer_id g = Some i")
  case True
  then have "p = (gw_writer_output g, gw_writer_control g)" using assms by (simp add: peer_view_def)
  with True show ?thesis by (simp add: for_peer_def for_writer_def peer_view_def split_beta)
next
  case False
  with assms obtain k where k: "find_observer (is_bound_to i) (gw_observers g) = Some k"
      "p = (ob_output (gw_observers g ! k), ob_control (gw_observers g ! k))"
    by (auto simp: peer_view_def)
  note K = find_observer_Some [OF k(1)]
  define ob where "ob = (gw_observers g ! k)\<lparr>ob_output := fst (fst (f p)), ob_control := snd (fst (f p))\<rparr>"
  have "is_bound_to i ob" using K by (simp add: ob_def is_bound_to_def)
  from find_observer_rebound [OF k(1) this] False k K show ?thesis
    by (simp add: for_peer_def for_observer_def with_observer_def peer_view_def split_beta ob_def)
qed

lemma control_push_ok:
  assumes "control_for g i = Inr c" "ring_can_accept c kind (length payload)"
  obtains g' c' n where "control_push g i kind payload = (g', Inr n)" "ring_push c kind payload = Inr (c', n)"
    "control_for g' i = Inr c'"
proof -
  obtain o1 where v: "peer_view g i = Some (o1, c)"
    using assms(1) by (cases "peer_view g i") (auto simp: control_for_def)
  obtain c' n where p: "ring_push c kind payload = Inr (c', n)" using can_accept_push [OF assms(2)] by blast
  obtain g' res where r: "control_push g i kind payload = (g', res)" by force
  have "res = Inr n" "peer_view g' i = Some (o1, c')"
    using for_peer_own [OF v, of "\<lambda>(o1, c). case ring_push c kind payload of
        Inl e \<Rightarrow> ((o1, c), Inl e) | Inr (c', n) \<Rightarrow> ((o1, c'), Inr n)"] r p
    by (simp_all add: control_push_def)
  with r p that show thesis by (simp add: control_for_def)
qed

definition input_begun :: "gateway_association \<Rightarrow> gateway_association" where
  "input_begun a = a\<lparr>ga_input_delivery := (ga_input_delivery a)\<lparr>dg_pending :=
     Some (dg_epoch (ga_input_delivery a), dg_next_expected (ga_input_delivery a))\<rparr>\<rparr>"

definition input_committed :: "gateway_association \<Rightarrow> gateway_association" where
  "input_committed a = a\<lparr>ga_input_delivery := (ga_input_delivery a)\<lparr>dg_pending := None,
     dg_next_expected := dg_next_expected (ga_input_delivery a) + 1\<rparr>\<rparr>"

lemma begin_input_results:
  assumes "dg_pending (ga_input_delivery a) = None"
  obtains (Refused) e where "begin_input a kind sequence payload = (a, Inl e)"
  | (Repeated) "begin_input a kind sequence payload = (a, Inr (InDuplicate (dg_next_expected (ga_input_delivery a))))"
      "sequence < dg_next_expected (ga_input_delivery a)"
  | (Begun) operation where "begin_input a kind sequence payload = (input_begun a, Inr (InDeliver operation))"
      "ga_role a = Connection_Writer" "decode_input_operation kind payload = Inr operation"
      "sequence = dg_next_expected (ga_input_delivery a)"
proof -
  have unchanged: "a\<lparr>ga_input_delivery := ga_input_delivery a\<rparr> = a" by simp
  show thesis
  proof (cases "ga_role a \<noteq> Connection_Writer \<or> isl (decode_input_operation kind payload)")
    case True
    then have "\<exists>e. begin_input a kind sequence payload = (a, Inl e)"
      by (cases "decode_input_operation kind payload") (auto simp: begin_input_def)
    with Refused show thesis by blast
  next
    case False
    then obtain operation where operation: "decode_input_operation kind payload = Inr operation"
      by (cases "decode_input_operation kind payload") auto
    have writer: "ga_role a = Connection_Writer" using False by simp
    note evaluated = writer operation assms begin_input_def gate_begin_def input_begun_def
    consider "sequence < dg_next_expected (ga_input_delivery a)" | "sequence = dg_next_expected (ga_input_delivery a)"
      | "dg_next_expected (ga_input_delivery a) < sequence" by fastforce
    then show thesis
    proof cases
      case 1
      then show thesis by (intro Repeated) (simp_all add: evaluated)
    next
      case 2
      then show thesis by (intro Begun [of operation]) (simp_all add: evaluated)
    next
      case 3
      then show thesis by (intro Refused [of "As_Queue Q_SequenceGap"]) (simp add: evaluated not_less_iff_gr_or_eq)
    qed
  qed
qed

lemma abort_begun [simp]:
  assumes "dg_pending (ga_input_delivery a) = None"
  shows "abort_input (input_begun a) (dg_next_expected (ga_input_delivery a)) = (a, Inr ())"
proof -
  have "(ga_input_delivery a)\<lparr>dg_pending := None\<rparr> = ga_input_delivery a" using assms by simp
  then show ?thesis by (simp add: abort_input_def gate_abort_def input_begun_def)
qed

lemma commit_begun:
  assumes "can_queue_input_ack (input_begun a) g" "dg_next_expected (ga_input_delivery a) \<noteq> - 1"
  obtains g' c c' where
    "commit_input (input_begun a) (dg_next_expected (ga_input_delivery a)) g = (input_committed a, g',
       Inr \<lparr>ack_epoch = dg_epoch (ga_input_delivery a), next_expected = dg_next_expected (ga_input_delivery a) + 1\<rparr>)"
    "control_for g (ga_association_id a) = Inr c" "control_for g' (ga_association_id a) = Inr c'"
    "ring_push c UKind_AckInput (ack_encode \<lparr>ack_epoch = dg_epoch (ga_input_delivery a),
       next_expected = dg_next_expected (ga_input_delivery a) + 1\<rparr>) = Inr (c', rr_next c)"
proof -
  let ?d = "ga_input_delivery a"
  let ?ack = "\<lparr>ack_epoch = dg_epoch ?d, next_expected = dg_next_expected ?d + 1\<rparr>"
  obtain c where c: "control_for g (ga_association_id a) = Inr c" "ring_can_accept c UKind_AckInput ACK_WIRE_LEN"
    using assms(1) by (auto simp: can_queue_input_ack_def input_begun_def split: sum.splits)
  have len: "length (ack_encode ?ack) = ACK_WIRE_LEN" by (simp add: ack_encode_def ACK_WIRE_LEN_def)
  obtain g' c' n where p: "control_push g (ga_association_id a) UKind_AckInput (ack_encode ?ack) = (g', Inr n)"
      "ring_push c UKind_AckInput (ack_encode ?ack) = Inr (c', n)" "control_for g' (ga_association_id a) = Inr c'"
    using control_push_ok [OF c(1), of UKind_AckInput "ack_encode ?ack"] c(2) len by metis
  have n: "n = rr_next c" using p(2) by (auto simp: ring_push_def Let_def split: if_splits sum.splits option.splits prod.splits)
  have "checked_add (dg_next_expected ?d) 1 = Some (dg_next_expected ?d + 1)"
    using unat_Suc_64 [OF assms(2)] by (simp add: checked_add_eq_Some_iff)
  then have "commit_input (input_begun a) (dg_next_expected ?d) g = (input_committed a, g', Inr ?ack)"
    using c p len by (simp add: commit_input_def Let_def input_begun_def input_committed_def gate_commit_def)
  with c(1) p n that show thesis by simp
qed

end
