(* ===== verification/Udp_Policies.thy ===== *)
theory Udp_Policies
  imports Udp_Association
begin

text \<open>
  Two small policies of the everudp gateway. \<open>crates/everudp/src/writer_sizes.rs\<close> decides which
  writer's terminal size the PTY has: the writer that typed last owns it, others only have their
  sizes remembered. \<open>crates/everudp/src/ack_hold.rs\<close> decides how long an input acknowledgement may be
  kept back to travel with others.
\<close>

section \<open>Writer sizes\<close>

record writer_size =
  wz_id :: association_id
  wz_size :: "resize option"

record writer_sizes =
  wz_writers :: "writer_size option list"
  wz_owner :: "association_id option"
  wz_ever_owned :: bool
  wz_applied :: "(u16 \<times> u16) option"

record size_action =
  sa_deliver :: bool
  sa_before_input :: "resize option"

definition writer_sizes_new :: writer_sizes where
  "writer_sizes_new = \<lparr>wz_writers = replicate 9 None, wz_owner = None, wz_ever_owned = False, wz_applied = None\<rparr>"

definition initial_dimensions :: "writer_sizes \<Rightarrow> u16 \<Rightarrow> u16 \<Rightarrow> writer_sizes" where
  "initial_dimensions z rows columns =
     (if rows \<noteq> 0 \<and> columns \<noteq> 0 then z\<lparr>wz_applied := Some (rows, columns)\<rparr> else z)"

definition writer_is :: "association_id \<Rightarrow> writer_size option \<Rightarrow> bool" where
  "writer_is i slot = (case slot of Some writer \<Rightarrow> wz_id writer = i | None \<Rightarrow> False)"

definition sizes_add :: "writer_sizes \<Rightarrow> association_id \<Rightarrow> writer_sizes \<times> (queue_error + unit)" where
  "sizes_add z i =
     (if position (writer_is i) (wz_writers z) \<noteq> None then (z, Inr ())
      else case position (\<lambda>slot. slot = None) (wz_writers z) of
        None \<Rightarrow> (z, Inl Q_ObserverCapacity)
      | Some k \<Rightarrow>
          let z1 = z\<lparr>wz_writers := (wz_writers z)[k := Some \<lparr>wz_id = i, wz_size = None\<rparr>]\<rparr> in
          (if wz_ever_owned z1 then z1 else z1\<lparr>wz_owner := Some i, wz_ever_owned := True\<rparr>, Inr ()))"

definition sizes_remove :: "writer_sizes \<Rightarrow> association_id \<Rightarrow> writer_sizes" where
  "sizes_remove z i =
     (let z1 = z\<lparr>wz_writers := map (\<lambda>slot. if writer_is i slot then None else slot) (wz_writers z)\<rparr>
      in if wz_owner z1 = Some i then z1\<lparr>wz_owner := None\<rparr> else z1)"

definition sizes_take_over :: "writer_sizes \<Rightarrow> association_id \<Rightarrow> writer_sizes" where
  "sizes_take_over z i = z\<lparr>wz_owner := Some i, wz_ever_owned := True\<rparr>"

definition size_changed :: "writer_sizes \<Rightarrow> resize \<Rightarrow> writer_sizes \<times> resize option" where
  "size_changed z sz =
     (let dimensions = (rs_rows sz, rs_columns sz) in
      if wz_applied z = Some dimensions then (z, None)
      else (z\<lparr>wz_applied := Some dimensions\<rparr>, Some sz))"

definition sizes_operation ::
  "writer_sizes \<Rightarrow> association_id \<Rightarrow> input_operation \<Rightarrow> writer_sizes \<times> (queue_error + size_action)" where
  "sizes_operation z i operation =
     (case position (writer_is i) (wz_writers z) of
        None \<Rightarrow> (z, Inl Q_UnknownObserver)
      | Some k \<Rightarrow>
          (case operation of
             In_Resize sz \<Rightarrow>
               let z1 = z\<lparr>wz_writers := (wz_writers z)[k := Some \<lparr>wz_id = i, wz_size = Some sz\<rparr>]\<rparr> in
               if wz_owner z1 = Some i
               then (case size_changed z1 sz of (z2, changed) \<Rightarrow>
                 (z2, Inr \<lparr>sa_deliver = changed \<noteq> None, sa_before_input = None\<rparr>))
               else (z1, Inr \<lparr>sa_deliver = False, sa_before_input = None\<rparr>)
           | In_Bytes bytes \<Rightarrow>
               if bytes = [] then (z, Inr \<lparr>sa_deliver = True, sa_before_input = None\<rparr>)
               else
                 let z1 = z\<lparr>wz_owner := Some i\<rparr> in
                 (case Option.bind (wz_writers z ! k) wz_size of
                    None \<Rightarrow> (z1, Inr \<lparr>sa_deliver = True, sa_before_input = None\<rparr>)
                  | Some sz \<Rightarrow> (case size_changed z1 sz of (z2, changed) \<Rightarrow>
                      (z2, Inr \<lparr>sa_deliver = True, sa_before_input = changed\<rparr>)))
           | _ \<Rightarrow> (z, Inr \<lparr>sa_deliver = True, sa_before_input = None\<rparr>)))"

section \<open>The acknowledgement hold\<close>

text \<open>Instants and durations are nanoseconds of the runtime's clock.\<close>

definition HOLD :: nat where "HOLD = 1000000"

definition hold_eligible :: "udp_kind \<Rightarrow> usize \<Rightarrow> usize \<Rightarrow> bool \<Rightarrow> bool \<Rightarrow> bool" where
  "hold_eligible kind written control_operations output_ready output_valid \<longleftrightarrow>
     kind = UKind_AckInput \<and> written = 0 \<and> control_operations = 1 \<and> \<not> output_ready \<and> output_valid"

record ack_hold =
  ah_deadline :: "nat option"
  ah_released :: bool

definition ack_hold_default :: ack_hold where
  "ack_hold_default = \<lparr>ah_deadline = None, ah_released = False\<rparr>"

definition hold_deadline :: "ack_hold \<Rightarrow> nat \<Rightarrow> bool \<Rightarrow> ack_hold \<times> nat option" where
  "hold_deadline h now eligible =
     (if \<not> eligible then (h\<lparr>ah_deadline := None, ah_released := True\<rparr>, None)
      else if ah_released h then (h, None)
      else let deadline = (case ah_deadline h of Some d \<Rightarrow> d | None \<Rightarrow> now + HOLD) in
        if deadline \<le> now then (h\<lparr>ah_deadline := None, ah_released := True\<rparr>, None)
        else (h\<lparr>ah_deadline := Some deadline\<rparr>, Some deadline))"

definition hold_reset :: "ack_hold \<Rightarrow> ack_hold" where
  "hold_reset h = h\<lparr>ah_deadline := None, ah_released := False\<rparr>"

text \<open>A record is held for at most \<open>HOLD\<close>, from the first poll on, whatever comes between.\<close>

fun hold_polls :: "ack_hold \<Rightarrow> (nat \<times> bool) list \<Rightarrow> nat option list" where
  "hold_polls h [] = []"
| "hold_polls h ((now, eligible) # polls) =
     (case hold_deadline h now eligible of (h', d) \<Rightarrow> d # hold_polls h' polls)"

lemma hold_released: "ah_released h \<Longrightarrow> hold_polls h polls = map (\<lambda>_. None) polls"
  by (induction polls arbitrary: h) (auto simp: hold_deadline_def)

lemma hold_armed:
  "\<not> ah_released h \<Longrightarrow> ah_deadline h = Some d \<Longrightarrow>
   hold_polls h polls =
     map (\<lambda>_. Some d) (takeWhile (\<lambda>(now, eligible). eligible \<and> now < d) polls) @
     map (\<lambda>_. None) (dropWhile (\<lambda>(now, eligible). eligible \<and> now < d) polls)"
proof (induction polls arbitrary: h)
  case (Cons p polls)
  obtain now eligible where p: "p = (now, eligible)" by fastforce
  show ?case
  proof (cases "eligible \<and> now < d")
    case True
    then show ?thesis using Cons by (simp add: p hold_deadline_def)
  next
    case False
    then have "hold_deadline h now eligible = (h\<lparr>ah_deadline := None, ah_released := True\<rparr>, None)"
      using Cons.prems by (auto simp: hold_deadline_def)
    then show ?thesis using False by (auto simp: p hold_released)
  qed
qed simp

lemma hold_polls_exact:
  "hold_polls (hold_reset h) ((now, True) # polls) =
     Some (now + HOLD) # map (\<lambda>_. Some (now + HOLD)) (takeWhile (\<lambda>(t, eligible). eligible \<and> t < now + HOLD) polls) @
     map (\<lambda>_. None) (dropWhile (\<lambda>(t, eligible). eligible \<and> t < now + HOLD) polls)"
  by (simp add: hold_deadline_def hold_reset_def HOLD_def hold_armed Let_def)

section \<open>What an operation of a writer does to the sizes\<close>

text \<open>A size is handed to the PTY only when its writer owns it and it differs from the PTY's; a size is
  handed before input only when the input is not empty, and only the remembered one.\<close>

definition action_ok :: "(u16 \<times> u16) option \<Rightarrow> association_id option \<Rightarrow> association_id \<Rightarrow> input_operation \<Rightarrow>
    bool \<Rightarrow> resize option \<Rightarrow> bool" where
  "action_ok dims owner i operation given before \<longleftrightarrow>
     (case operation of
        In_Resize r \<Rightarrow> (given \<longleftrightarrow> owner = Some i \<and> dims \<noteq> Some (rs_rows r, rs_columns r)) \<and> before = None
      | In_Bytes bs \<Rightarrow> given \<and> (case before of None \<Rightarrow> True | Some r \<Rightarrow> bs \<noteq> [] \<and> dims \<noteq> Some (rs_rows r, rs_columns r))
      | _ \<Rightarrow> given \<and> before = None)"

lemma sizes_operation_ok:
  assumes "sizes_operation z i operation = (z', Inr act)"
  shows "action_ok (wz_applied z) (wz_owner z) i operation (sa_deliver act) (sa_before_input act)"
  using assms
  by (cases operation)
    (auto simp: sizes_operation_def action_ok_def size_changed_def Let_def split: option.splits if_splits)

section \<open>The sizes as a book\<close>

text \<open>What the table promises, with no slots in it: which writers are known and what size each last
  reported, who owns the size, and the dimensions of the PTY. At most nine writers are known; the
  first writer ever known owns the size, then whoever typed last or took over; the owner's leaving
  leaves the size without an owner and the PTY as it is.\<close>

record size_book =
  bk_known :: "association_id \<rightharpoonup> resize option"
  bk_owner :: "association_id option"
  bk_ever :: bool
  bk_dims :: "(u16 \<times> u16) option"

datatype size_call =
    Sz_Initial u16 u16 | Sz_Add association_id | Sz_Remove association_id | Sz_TakeOver association_id
  | Sz_Operation association_id input_operation

datatype size_answer = Sz_Refused queue_error | Sz_Held | Sz_Given "resize option"

definition dims_of :: "resize \<Rightarrow> u16 \<times> u16" where
  "dims_of r = (rs_rows r, rs_columns r)"

definition book_new :: size_book where
  "book_new = \<lparr>bk_known = Map.empty, bk_owner = None, bk_ever = False, bk_dims = None\<rparr>"

fun book_operation :: "size_book \<Rightarrow> association_id \<Rightarrow> input_operation \<Rightarrow> size_book \<times> size_answer" where
  "book_operation b i (In_Resize r) =
     (let known = (bk_known b)(i \<mapsto> Some r) in
      if bk_owner b = Some i \<and> bk_dims b \<noteq> Some (dims_of r)
      then (b\<lparr>bk_known := known, bk_dims := Some (dims_of r)\<rparr>, Sz_Given None)
      else (b\<lparr>bk_known := known\<rparr>, Sz_Held))"
| "book_operation b i (In_Bytes (c # bytes)) =
     (case bk_known b i of
        Some (Some r) \<Rightarrow>
          if bk_dims b \<noteq> Some (dims_of r)
          then (b\<lparr>bk_owner := Some i, bk_dims := Some (dims_of r)\<rparr>, Sz_Given (Some r))
          else (b\<lparr>bk_owner := Some i\<rparr>, Sz_Given None)
      | _ \<Rightarrow> (b\<lparr>bk_owner := Some i\<rparr>, Sz_Given None))"
| "book_operation b i _ = (b, Sz_Given None)"

fun book_step :: "size_book \<Rightarrow> size_call \<Rightarrow> size_book \<times> size_answer list" where
  "book_step b (Sz_Initial rows columns) =
     (if rows = 0 \<or> columns = 0 then b else b\<lparr>bk_dims := Some (rows, columns)\<rparr>, [])"
| "book_step b (Sz_Add i) =
     (if i \<in> dom (bk_known b) then (b, [])
      else if card (dom (bk_known b)) = 9 then (b, [Sz_Refused Q_ObserverCapacity])
      else (b\<lparr>bk_known := (bk_known b)(i \<mapsto> None), bk_owner := (if bk_ever b then bk_owner b else Some i),
              bk_ever := True\<rparr>, []))"
| "book_step b (Sz_Remove i) =
     (b\<lparr>bk_known := (bk_known b)(i := None), bk_owner := (if bk_owner b = Some i then None else bk_owner b)\<rparr>, [])"
| "book_step b (Sz_TakeOver i) = (b\<lparr>bk_owner := Some i, bk_ever := True\<rparr>, [])"
| "book_step b (Sz_Operation i operation) =
     (if i \<in> dom (bk_known b)
      then (case book_operation b i operation of (b', answer) \<Rightarrow> (b', [answer]))
      else (b, [Sz_Refused Q_UnknownObserver]))"

text \<open>The table's calls, with what its callers learn.\<close>

definition size_answer_of :: "queue_error + size_action \<Rightarrow> size_answer" where
  "size_answer_of res = (case res of
     Inl e \<Rightarrow> Sz_Refused e
   | Inr act \<Rightarrow> if sa_deliver act then Sz_Given (sa_before_input act) else Sz_Held)"

fun sizes_step :: "writer_sizes \<Rightarrow> size_call \<Rightarrow> writer_sizes \<times> size_answer list" where
  "sizes_step z (Sz_Initial rows columns) = (initial_dimensions z rows columns, [])"
| "sizes_step z (Sz_Add i) =
     (case sizes_add z i of (z', Inl e) \<Rightarrow> (z', [Sz_Refused e]) | (z', Inr _) \<Rightarrow> (z', []))"
| "sizes_step z (Sz_Remove i) = (sizes_remove z i, [])"
| "sizes_step z (Sz_TakeOver i) = (sizes_take_over z i, [])"
| "sizes_step z (Sz_Operation i operation) =
     (case sizes_operation z i operation of (z', res) \<Rightarrow> (z', [size_answer_of res]))"

text \<open>The slots read as a map.\<close>

fun slots_view :: "writer_size option list \<Rightarrow> association_id \<rightharpoonup> resize option" where
  "slots_view [] = Map.empty"
| "slots_view (None # slots) = slots_view slots"
| "slots_view (Some w # slots) = (slots_view slots)(wz_id w \<mapsto> wz_size w)"

fun slots_distinct :: "writer_size option list \<Rightarrow> bool" where
  "slots_distinct [] = True"
| "slots_distinct (None # slots) = slots_distinct slots"
| "slots_distinct (Some w # slots) = (slots_view slots (wz_id w) = None \<and> slots_distinct slots)"

lemma slots_view_position:
  "(case position (writer_is i) slots of
      None \<Rightarrow> slots_view slots i = None
    | Some k \<Rightarrow> k < length slots \<and> slots_view slots i = Some (Option.bind (slots ! k) wz_size))"
  by (induction slots rule: slots_view.induct) (auto simp: writer_is_def split: option.splits)

lemma slots_put_new:
  "position (\<lambda>slot. slot = None) slots = Some k \<Longrightarrow> slots_view slots (wz_id w) = None \<Longrightarrow> slots_distinct slots \<Longrightarrow>
   slots_view (slots[k := Some w]) = (slots_view slots)(wz_id w \<mapsto> wz_size w) \<and> slots_distinct (slots[k := Some w])"
  by (induction slots arbitrary: k rule: slots_view.induct) (auto split: if_splits simp: fun_upd_twist)

lemma slots_put_old:
  "position (writer_is i) slots = Some k \<Longrightarrow> slots_distinct slots \<Longrightarrow> wz_id w = i \<Longrightarrow>
   slots_view (slots[k := Some w]) = (slots_view slots)(i \<mapsto> wz_size w) \<and> slots_distinct (slots[k := Some w])"
  by (induction slots arbitrary: k rule: slots_view.induct) (auto simp: writer_is_def fun_upd_twist split: if_splits)

lemma slots_remove:
  "slots_view (map (\<lambda>slot. if writer_is i slot then None else slot) slots) = (slots_view slots)(i := None) \<and>
   (slots_distinct slots \<longrightarrow> slots_distinct (map (\<lambda>slot. if writer_is i slot then None else slot) slots))"
  by (induction slots rule: slots_view.induct) (auto simp: writer_is_def fun_upd_twist)

lemma slots_card: "slots_distinct slots \<Longrightarrow> finite (dom (slots_view slots)) \<and> card (dom (slots_view slots)) = occupied slots"
  by (induction slots rule: slots_view.induct) (auto simp: occupied_def card_insert_if domIff)

lemma slots_full: "position (\<lambda>slot. slot = None) slots = None \<longleftrightarrow> occupied slots = length slots"
proof -
  have "occupied slots = length slots \<longleftrightarrow> (\<forall>slot \<in> set slots. slot \<noteq> None)"
    unfolding occupied_def by (metis (mono_tags, lifting) filter_True length_filter_less less_irrefl)
  then show ?thesis by (auto simp: position_None list_all_iff)
qed

definition book_rel :: "writer_sizes \<Rightarrow> size_book \<Rightarrow> bool" where
  "book_rel z b \<longleftrightarrow> length (wz_writers z) = 9 \<and> slots_distinct (wz_writers z) \<and>
     bk_known b = slots_view (wz_writers z) \<and> bk_owner b = wz_owner z \<and> bk_ever b = wz_ever_owned z \<and>
     bk_dims b = wz_applied z"

lemma book_rel_add:
  assumes "book_rel z b"
  shows "book_rel (fst (sizes_step z (Sz_Add i))) (fst (book_step b (Sz_Add i))) \<and>
    snd (sizes_step z (Sz_Add i)) = snd (book_step b (Sz_Add i))"
proof (cases "position (writer_is i) (wz_writers z)")
  case (Some k)
  with assms slots_view_position [where i = i and slots = "wz_writers z"] show ?thesis
    by (simp add: sizes_add_def book_rel_def domIff)
next
  case new: None
  note R = assms [unfolded book_rel_def]
  have unknown: "slots_view (wz_writers z) i = None" using slots_view_position [where i = i and slots = "wz_writers z"] new by simp
  show ?thesis
  proof (cases "position (\<lambda>slot. slot = None) (wz_writers z)")
    case None
    then have "card (dom (bk_known b)) = 9" using R slots_card [of "wz_writers z"] slots_full [of "wz_writers z"] by simp
    with assms new None unknown R show ?thesis by (simp add: sizes_add_def domIff)
  next
    case (Some k)
    then have "card (dom (bk_known b)) \<noteq> 9"
      using R slots_card [of "wz_writers z"] slots_full [of "wz_writers z"] by simp
    with R new Some unknown slots_put_new [OF Some, of "\<lparr>wz_id = i, wz_size = None\<rparr>"] show ?thesis
      by (simp add: sizes_add_def book_rel_def domIff Let_def)
  qed
qed

lemma book_rel_operation:
  assumes "book_rel z b"
  shows "book_rel (fst (sizes_step z (Sz_Operation i operation))) (fst (book_step b (Sz_Operation i operation))) \<and>
    snd (sizes_step z (Sz_Operation i operation)) = snd (book_step b (Sz_Operation i operation))"
proof (cases "position (writer_is i) (wz_writers z)")
  case None
  with assms slots_view_position [where i = i and slots = "wz_writers z"] show ?thesis
    by (simp add: sizes_operation_def book_rel_def domIff size_answer_of_def)
next
  case (Some k)
  note R = assms [unfolded book_rel_def]
  have known: "slots_view (wz_writers z) i = Some (Option.bind (wz_writers z ! k) wz_size)"
    using slots_view_position [where i = i and slots = "wz_writers z"] Some by simp
  show ?thesis
  proof (cases operation)
    case (In_Resize r)
    with R Some known slots_put_old [OF Some, of "\<lparr>wz_id = i, wz_size = Some r\<rparr>"] show ?thesis
      by (auto simp: sizes_operation_def book_rel_def domIff Let_def size_changed_def size_answer_of_def dims_of_def)
  next
    case (In_Bytes bytes)
    with R Some known show ?thesis
      by (cases bytes)
        (auto simp: sizes_operation_def book_rel_def domIff Let_def size_changed_def size_answer_of_def dims_of_def
          split: option.split)
  qed (use R Some known in \<open>simp_all add: sizes_operation_def book_rel_def domIff size_answer_of_def\<close>)
qed

interpretation sizes: simulation sizes_step book_step book_rel
proof
  fix z b e assume rel: "book_rel z b"
  show "book_rel (fst (sizes_step z e)) (fst (book_step b e)) \<and> snd (sizes_step z e) = snd (book_step b e)"
  proof (cases e)
    case (Sz_Remove i)
    then show ?thesis using rel slots_remove [where i = i and slots = "wz_writers z"]
      by (simp add: sizes_remove_def book_rel_def Let_def)
  qed (use rel book_rel_add [OF rel] book_rel_operation [OF rel] in
      \<open>simp_all add: book_rel_def initial_dimensions_def sizes_take_over_def del: sizes_step.simps(2,5) book_step.simps(2,5)\<close>)
qed

section \<open>Properties\<close>

text \<open>C4: who sizes the PTY. Over every history of writers that join, report sizes, type, take over and
  leave, the table of nine slots answers every call like a book without slots: at most nine writers
  are known and an unknown one is refused; the size belongs to the first writer ever known, then to
  whoever typed last or took over, and to nobody once that writer has left; a size is handed to the
  PTY only when its owner reports one that the PTY does not have, a writer that types brings its last
  reported size with it when the PTY has another, and every other size is only remembered.\<close>

theorem sizes_follow_the_typist:
  "snd (run_events sizes_step writer_sizes_new calls) = snd (run_events book_step book_new calls) \<and>
   wz_owner (fst (run_events sizes_step writer_sizes_new calls)) = bk_owner (fst (run_events book_step book_new calls)) \<and>
   wz_applied (fst (run_events sizes_step writer_sizes_new calls)) = bk_dims (fst (run_events book_step book_new calls))"
proof -
  have "book_rel writer_sizes_new book_new"
    by (simp add: book_rel_def writer_sizes_new_def book_new_def eval_nat_numeral)
  from sizes.run_sim [OF this, of calls] show ?thesis by (simp add: book_rel_def)
qed

end
