(* ===== verification/Udp_Client.thy ===== *)
theory Udp_Client
  imports Udp_Handshake Udp_Ring
begin

text \<open>
  The client's association of everudp (\<open>crates/everudp/src/client.rs\<close>, \<open>ClientAssociation\<close>): the
  state that survives the client's QUIC connections. It owns the replay rings of its input and
  control streams, the delivery gates of the gateway's output and control streams, and the one
  output operation that is staged while the local terminal accepts it. Tracing is left out.
\<close>

datatype client_error =
    Cl_Queue queue_error | Cl_Wire wire_error | Cl_Handshake handshake_error
  | Cl_AssociationMismatch | Cl_GenerationMismatch | Cl_RoleMismatch
  | Cl_InputEpochMismatch | Cl_OutputEpochMismatch | Cl_OutputBehindAcknowledgement
  | Cl_ObserverInput | Cl_InputClosed | Cl_SignalDenied u8 | Cl_GapMismatch
  | Cl_OutputAlreadyStaged | Cl_OutputNotStaged | Cl_OutputProgressInvalid

datatype output_operation = Out_Bytes bytes | Out_Ownership u8 | Out_Exit u32

datatype output_disposition = OutDeliver output_operation | OutDuplicate u64

datatype output_stage = Staged udp_kind u64 | StagedDuplicate u64 u64

record pending_output =
  po_kind :: udp_kind
  po_sequence :: u64
  po_length :: usize
  po_stdout_offset :: usize

record client_association =
  ca_association_id :: association_id
  ca_generation :: gateway_generation
  ca_role :: connection_role
  ca_input_epoch :: u64
  ca_input :: replay_ring
  ca_output :: delivery_gate
  ca_server_control :: delivery_gate
  ca_control :: replay_ring
  ca_input_closed :: bool
  ca_last_gap :: "epoch_gap option"
  ca_server_hello_applied :: bool
  ca_gap_notice_pending :: bool
  ca_output_staging :: bytes
  ca_pending_output :: "pending_output option"
  ca_limits :: udp_limits

definition client_new ::
  "(usize \<Rightarrow> bool) \<Rightarrow> association_id \<Rightarrow> gateway_generation \<Rightarrow> connection_role \<Rightarrow> udp_limits \<Rightarrow>
   client_error + client_association" where
  "client_new alloc i g role limits =
     (case udp_limits_validate limits of Inl v \<Rightarrow> Inl (Cl_Wire (We_Limits v)) | Inr _ \<Rightarrow>
      if \<not> alloc (terminal_frame_max limits) then Inl (Cl_Queue Q_Allocation)
      else
        try_bind (map_err Cl_Queue (ring_new alloc Stream_Input limits)) (\<lambda>input.
        try_bind (map_err Cl_Queue (ring_control_after_hello alloc limits)) (\<lambda>control.
          Inr \<lparr>ca_association_id = i, ca_generation = g, ca_role = role, ca_input_epoch = 0,
               ca_input = input, ca_output = gate_new 0 0, ca_server_control = gate_new 0 0,
               ca_control = control, ca_input_closed = False, ca_last_gap = None,
               ca_server_hello_applied = False, ca_gap_notice_pending = False,
               ca_output_staging = replicate (terminal_frame_max limits) 0,
               ca_pending_output = None, ca_limits = limits\<rparr>)))"

section \<open>Control from the gateway\<close>

definition begin_server_control ::
  "client_association \<Rightarrow> u64 \<Rightarrow> client_association \<times> (client_error + delivery_decision)" where
  "begin_server_control c sequence =
     (case gate_begin (ca_server_control c) (dg_epoch (ca_server_control c)) sequence of
        (g, res) \<Rightarrow> (c\<lparr>ca_server_control := g\<rparr>, map_err Cl_Queue res))"

definition commit_server_control ::
  "client_association \<Rightarrow> u64 \<Rightarrow> client_association \<times> (client_error + unit)" where
  "commit_server_control c sequence =
     (case gate_commit (ca_server_control c) (dg_epoch (ca_server_control c)) sequence of
        (g, res) \<Rightarrow> (c\<lparr>ca_server_control := g\<rparr>, map_err Cl_Queue res))"

definition abort_server_control ::
  "client_association \<Rightarrow> u64 \<Rightarrow> client_association \<times> (client_error + unit)" where
  "abort_server_control c sequence =
     (case gate_abort (ca_server_control c) (dg_epoch (ca_server_control c)) sequence of
        (g, res) \<Rightarrow> (c\<lparr>ca_server_control := g\<rparr>, map_err Cl_Queue res))"

section \<open>Opening and resuming\<close>

definition client_position :: "client_association \<Rightarrow> resume_position" where
  "client_position c =
     (let delivered_output = dg_next_expected (ca_output c)
      in \<lparr>rp_input_epoch = ca_input_epoch c, rp_next_input = rr_next (ca_input c),
          rp_output_epoch = dg_epoch (ca_output c), rp_next_output = delivered_output,
          rp_delivered_output_ack = delivered_output\<rparr>)"

definition resume_hello :: "client_association \<Rightarrow> client_error + client_hello" where
  "resume_hello c =
     map_err Cl_Handshake (hello_resume (ca_association_id c) (ca_generation c) (ca_role c) (client_position c))"

definition start_link :: "client_association \<Rightarrow> client_association" where
  "start_link c = c\<lparr>ca_server_control := gate_new 0 0, ca_control := ring_restart_control_after_hello (ca_control c)\<rparr>"

definition client_apply_gap ::
  "client_association \<Rightarrow> epoch_gap \<Rightarrow> client_association \<times> (client_error + bool)" where
  "client_apply_gap c gap =
     (if ca_last_gap c = Some gap then (c, Inr False)
      else if abandoned_epoch gap \<noteq> dg_epoch (ca_output c) then (c, Inl Cl_GapMismatch)
      else
        let (c1, aborted) =
          (case ca_pending_output c of
             None \<Rightarrow> (c, Inr ())
           | Some p \<Rightarrow>
               (case gate_abort (ca_output c) (abandoned_epoch gap) (po_sequence p) of
                  (g, Inl e) \<Rightarrow> (c\<lparr>ca_pending_output := None, ca_output := g\<rparr>, Inl (Cl_Queue e))
                | (g, Inr _) \<Rightarrow>
                    (c\<lparr>ca_pending_output := None, ca_output := g,
                       ca_output_staging := splice_at 0 (replicate (po_length p) 0) (ca_output_staging c)\<rparr>,
                     Inr ())))
        in case aborted of
             Inl e \<Rightarrow> (c1, Inl e)
           | Inr _ \<Rightarrow>
               (case gate_reset_epoch (ca_output c1) (replacement_epoch gap) 0 of
                  (g, Inl e) \<Rightarrow> (c1\<lparr>ca_output := g\<rparr>, Inl (Cl_Queue e))
                | (g, Inr _) \<Rightarrow>
                    (c1\<lparr>ca_output := g, ca_last_gap := Some gap, ca_gap_notice_pending := True\<rparr>, Inr True)))"

text \<open>The checks of \<open>apply_server_hello_inner\<close> before anything changes.\<close>

definition hello_gap_check :: "client_association \<Rightarrow> server_hello \<Rightarrow> bool \<Rightarrow> client_error + unit" where
  "hello_gap_check c hello fresh =
     (case sh_pending_gap hello of
        Some (abandoned, replacement) \<Rightarrow>
          if sh_output_epoch hello \<noteq> replacement then Inl Cl_GapMismatch
          else try_bind (map_err Cl_Wire (gap_new abandoned replacement)) (\<lambda>gap.
            if \<not> fresh \<and> ca_last_gap c \<noteq> Some gap \<and> abandoned \<noteq> dg_epoch (ca_output c)
            then Inl Cl_GapMismatch else Inr ())
      | None \<Rightarrow> if sh_output_epoch hello \<noteq> dg_epoch (ca_output c) then Inl Cl_OutputEpochMismatch else Inr ())"

definition acknowledged_output :: "client_association \<Rightarrow> server_hello \<Rightarrow> u64" where
  "acknowledged_output c hello =
     (if sh_pending_gap hello \<noteq> None \<and> ca_last_gap c \<noteq>
          map_option (\<lambda>(a, b). \<lparr>abandoned_epoch = a, replacement_epoch = b\<rparr>) (sh_pending_gap hello)
      then 0 else dg_next_expected (ca_output c))"

definition server_hello_check :: "client_association \<Rightarrow> server_hello \<Rightarrow> bool \<Rightarrow> client_error + unit" where
  "server_hello_check c hello fresh =
     (if sh_association_id hello \<noteq> ca_association_id c then Inl Cl_AssociationMismatch
      else if sh_generation hello \<noteq> ca_generation c then Inl Cl_GenerationMismatch
      else if sh_role hello \<noteq> ca_role c then Inl Cl_RoleMismatch
      else if sh_input_epoch hello \<noteq> ca_input_epoch c then Inl Cl_InputEpochMismatch
      else if sh_accepted_input_ack hello > rr_next (ca_input c) then Inl (Cl_Queue Q_AckAhead)
      else
        let committed_input = (case ring_first_unacknowledged (ca_input c) of
            Some n \<Rightarrow> n | None \<Rightarrow> rr_next (ca_input c))
        in if sh_accepted_input_ack hello < committed_input then Inl (Cl_Queue Q_AckBehind)
           else try_bind (hello_gap_check c hello fresh) (\<lambda>_.
             if sh_next_output hello < acknowledged_output c hello then Inl Cl_OutputBehindAcknowledgement
             else Inr ()))"

definition apply_server_hello_inner ::
  "client_association \<Rightarrow> server_hello \<Rightarrow> bool \<Rightarrow> client_association \<times> (client_error + unit)" where
  "apply_server_hello_inner c hello fresh =
     (case server_hello_check c hello fresh of
        Inl e \<Rightarrow> (c, Inl e)
      | Inr _ \<Rightarrow>
          (case ring_acknowledge (ca_input c) (sh_accepted_input_ack hello) of
             (r, Inl e) \<Rightarrow> (c\<lparr>ca_input := r\<rparr>, Inl (Cl_Queue e))
           | (r, Inr _) \<Rightarrow>
               let c1 = c\<lparr>ca_input := r\<rparr> in
               (case sh_pending_gap hello of
                  None \<Rightarrow> (c1\<lparr>ca_server_hello_applied := True\<rparr>, Inr ())
                | Some (abandoned, replacement) \<Rightarrow>
                    let (c2, reset) =
                      (if fresh \<and> abandoned \<noteq> dg_epoch (ca_output c1) then
                         (case gate_reset_epoch (ca_output c1) abandoned 0 of
                            (g, res) \<Rightarrow> (c1\<lparr>ca_output := g\<rparr>, map_err Cl_Queue res))
                       else (c1, Inr ()))
                    in (case reset of
                          Inl e \<Rightarrow> (c2, Inl e)
                        | Inr _ \<Rightarrow>
                            (case gap_new abandoned replacement of
                               Inl e \<Rightarrow> (c2, Inl (Cl_Wire e))
                             | Inr gap \<Rightarrow>
                                 (case client_apply_gap c2 gap of
                                    (c3, Inl e) \<Rightarrow> (c3, Inl e)
                                  | (c3, Inr _) \<Rightarrow> (c3\<lparr>ca_server_hello_applied := True\<rparr>, Inr ())))))))"

definition apply_server_hello ::
  "client_association \<Rightarrow> server_hello \<Rightarrow> client_association \<times> (client_error + unit)" where
  "apply_server_hello c hello = apply_server_hello_inner c hello False"

definition is_fresh :: "client_association \<Rightarrow> bool" where
  "is_fresh c \<longleftrightarrow> \<not> ca_server_hello_applied c \<and> dg_epoch (ca_output c) = 0 \<and>
     dg_next_expected (ca_output c) = 0 \<and> rr_next (ca_input c) = 0 \<and>
     ca_last_gap c = None \<and> ca_pending_output c = None"

definition apply_initial_server_hello ::
  "client_association \<Rightarrow> server_hello \<Rightarrow> client_association \<times> (client_error + unit)" where
  "apply_initial_server_hello c hello = apply_server_hello_inner c hello (is_fresh c)"

definition take_gap_notice :: "client_association \<Rightarrow> client_association \<times> epoch_gap option" where
  "take_gap_notice c =
     (if \<not> ca_gap_notice_pending c then (c, None) else (c\<lparr>ca_gap_notice_pending := False\<rparr>, ca_last_gap c))"

section \<open>Input\<close>

definition ring_remaining_wire_bytes :: "replay_ring \<Rightarrow> usize" where
  "ring_remaining_wire_bytes r = length (rr_bytes r) - rr_bytes_used r"

definition ring_remaining_operations :: "replay_ring \<Rightarrow> usize" where
  "ring_remaining_operations r = length (rr_slots r) - rr_slot_count r"

definition stdin_read_capacity :: "client_association \<Rightarrow> usize" where
  "stdin_read_capacity c =
     (if ca_role c \<noteq> Connection_Writer \<or> ca_input_closed c \<or> ring_remaining_operations (ca_input c) = 0 then 0
      else min (min (ring_remaining_wire_bytes (ca_input c) - UDP_HEADER_LEN) (copy_buffer_bytes (ca_limits c)))
               (terminal_frame_max (ca_limits c)))"

definition require_open_writer :: "client_association \<Rightarrow> client_error + unit" where
  "require_open_writer c =
     (if ca_role c \<noteq> Connection_Writer then Inl Cl_ObserverInput
      else if ca_input_closed c then Inl Cl_InputClosed else Inr ())"

definition push_input ::
  "client_association \<Rightarrow> udp_kind \<Rightarrow> bytes \<Rightarrow> client_association \<times> (client_error + u64)" where
  "push_input c kind payload =
     (case ring_push (ca_input c) kind payload of
        Inl e \<Rightarrow> (c, Inl (Cl_Queue e))
      | Inr (r, sequence) \<Rightarrow> (c\<lparr>ca_input := r\<rparr>, Inr sequence))"

definition queue_input :: "client_association \<Rightarrow> bytes \<Rightarrow> client_association \<times> (client_error + u64)" where
  "queue_input c bs =
     (case require_open_writer c of Inl e \<Rightarrow> (c, Inl e) | Inr _ \<Rightarrow> push_input c UKind_Input bs)"

definition queue_resize :: "client_association \<Rightarrow> resize \<Rightarrow> client_association \<times> (client_error + u64)" where
  "queue_resize c rs =
     (case require_open_writer c of Inl e \<Rightarrow> (c, Inl e) | Inr _ \<Rightarrow> push_input c UKind_Resize (resize_encode rs))"

definition udp_signal_allowed :: "u8 \<Rightarrow> bool" where
  "udp_signal_allowed s \<longleftrightarrow> s \<in> {1, 2, 3, 15, 18, 20}"

definition queue_signal :: "client_association \<Rightarrow> u8 \<Rightarrow> client_association \<times> (client_error + u64)" where
  "queue_signal c signal =
     (case require_open_writer c of
        Inl e \<Rightarrow> (c, Inl e)
      | Inr _ \<Rightarrow> if \<not> udp_signal_allowed signal then (c, Inl (Cl_SignalDenied signal))
                else push_input c UKind_Signal [signal])"

definition queue_input_close :: "client_association \<Rightarrow> client_association \<times> (client_error + u64)" where
  "queue_input_close c =
     (case require_open_writer c of
        Inl e \<Rightarrow> (c, Inl e)
      | Inr _ \<Rightarrow>
          (case push_input c UKind_InputClose [] of
             (c1, Inl e) \<Rightarrow> (c1, Inl e)
           | (c1, Inr sequence) \<Rightarrow> (c1\<lparr>ca_input_closed := True\<rparr>, Inr sequence)))"

definition push_control ::
  "client_association \<Rightarrow> udp_kind \<Rightarrow> bytes \<Rightarrow> client_association \<times> (client_error + u64)" where
  "push_control c kind payload =
     (case ring_push (ca_control c) kind payload of
        Inl e \<Rightarrow> (c, Inl (Cl_Queue e))
      | Inr (r, sequence) \<Rightarrow> (c\<lparr>ca_control := r\<rparr>, Inr sequence))"

definition queue_detach :: "client_association \<Rightarrow> client_association \<times> (client_error + u64)" where
  "queue_detach c = push_control c UKind_Detach []"

definition copy_input :: "client_association \<Rightarrow> u64 \<Rightarrow> bytes \<Rightarrow> client_error + bytes \<times> frame_copy" where
  "copy_input c sequence buf = map_err Cl_Queue (ring_copy_sequence (ca_input c) sequence buf)"

definition copy_control :: "client_association \<Rightarrow> bytes \<Rightarrow> client_error + bytes \<times> frame_copy" where
  "copy_control c buf = map_err Cl_Queue (ring_copy_unacked (ca_control c) 0 buf)"

definition accept_input_ack ::
  "client_association \<Rightarrow> udp_ack \<Rightarrow> client_association \<times> (client_error + unit)" where
  "accept_input_ack c a =
     (if ack_epoch a \<noteq> ca_input_epoch c then (c, Inl Cl_InputEpochMismatch)
      else case ring_acknowledge (ca_input c) (next_expected a) of
             (r, res) \<Rightarrow> (c\<lparr>ca_input := r\<rparr>, map_err Cl_Queue res))"

definition acknowledge_control_sent ::
  "client_association \<Rightarrow> u64 \<Rightarrow> client_association \<times> (client_error + unit)" where
  "acknowledge_control_sent c n =
     (case ring_acknowledge (ca_control c) n of
        (r, res) \<Rightarrow> (c\<lparr>ca_control := r\<rparr>, map_err Cl_Queue res))"

section \<open>Output\<close>

definition decode_output_operation ::
  "udp_kind \<Rightarrow> bytes \<Rightarrow> udp_limits \<Rightarrow> client_error + output_operation" where
  "decode_output_operation kind payload limits =
     (if kind_stream kind \<noteq> Stream_Output then Inl (Cl_Wire (We_KindNotAllowed kind Stream_Output))
      else case payload_bounds kind limits of (minimum, maximum) \<Rightarrow>
        if length payload < minimum then Inl (Cl_Wire (We_LengthInvalid kind (length payload)))
        else if length payload > maximum then Inl (Cl_Wire (We_PayloadTooLarge kind (length payload) maximum))
        else case kind of
          UKind_Output \<Rightarrow> Inr (Out_Bytes payload)
        | UKind_Ownership \<Rightarrow> Inr (Out_Ownership (payload ! 0))
        | UKind_Exit \<Rightarrow>
            if length payload = 4 then Inr (Out_Exit (be_word payload))
            else Inl (Cl_Wire (We_LengthInvalid kind (length payload)))
        | _ \<Rightarrow> Inl (Cl_Wire (We_KindNotAllowed kind Stream_Output)))"

definition begin_output ::
  "client_association \<Rightarrow> udp_kind \<Rightarrow> u64 \<Rightarrow> bytes \<Rightarrow> client_association \<times> (client_error + output_disposition)" where
  "begin_output c kind sequence payload =
     (case decode_output_operation kind payload (ca_limits c) of
        Inl e \<Rightarrow> (c, Inl e)
      | Inr operation \<Rightarrow>
          (case gate_begin (ca_output c) (dg_epoch (ca_output c)) sequence of
             (g, Inl e) \<Rightarrow> (c\<lparr>ca_output := g\<rparr>, Inl (Cl_Queue e))
           | (g, Inr Deliver) \<Rightarrow> (c\<lparr>ca_output := g\<rparr>, Inr (OutDeliver operation))
           | (g, Inr Duplicate) \<Rightarrow> (c\<lparr>ca_output := g\<rparr>, Inr (OutDuplicate (dg_next_expected g)))))"

definition abort_output :: "client_association \<Rightarrow> u64 \<Rightarrow> client_association \<times> (client_error + unit)" where
  "abort_output c sequence =
     (case gate_abort (ca_output c) (dg_epoch (ca_output c)) sequence of
        (g, res) \<Rightarrow> (c\<lparr>ca_output := g\<rparr>, map_err Cl_Queue res))"

definition stage_output ::
  "client_association \<Rightarrow> udp_kind \<Rightarrow> u64 \<Rightarrow> bytes \<Rightarrow> client_association \<times> (client_error + output_stage)" where
  "stage_output c kind sequence payload =
     (if ca_pending_output c \<noteq> None then (c, Inl Cl_OutputAlreadyStaged)
      else case begin_output c kind sequence payload of
        (c1, Inl e) \<Rightarrow> (c1, Inl e)
      | (c1, Inr (OutDuplicate acknowledgement)) \<Rightarrow> (c1, Inr (StagedDuplicate sequence acknowledgement))
      | (c1, Inr (OutDeliver _)) \<Rightarrow>
          if length payload > length (ca_output_staging c1) then
            (case abort_output c1 sequence of
               (c2, Inl e) \<Rightarrow> (c2, Inl e)
             | (c2, Inr _) \<Rightarrow>
                 (c2, Inl (Cl_Wire (We_OutputTooSmall (length payload) (length (ca_output_staging c2))))))
          else
            (c1\<lparr>ca_output_staging := splice_at 0 payload (ca_output_staging c1),
                ca_pending_output := Some \<lparr>po_kind = kind, po_sequence = sequence,
                                           po_length = length payload, po_stdout_offset = 0\<rparr>\<rparr>,
             Inr (Staged kind sequence)))"

definition pending_output_view ::
  "client_association \<Rightarrow> client_error + udp_kind \<times> u64 \<times> output_operation" where
  "pending_output_view c =
     (case ca_pending_output c of
        None \<Rightarrow> Inl Cl_OutputNotStaged
      | Some p \<Rightarrow>
          let payload = take (po_length p) (ca_output_staging c) in
          try_bind (decode_output_operation (po_kind p) payload (ca_limits c)) (\<lambda>operation.
            Inr (po_kind p, po_sequence p,
                 case operation of
                   Out_Bytes _ \<Rightarrow> Out_Bytes (subslice (po_stdout_offset p) (po_length p) payload)
                 | _ \<Rightarrow> operation)))"

definition advance_stdout :: "client_association \<Rightarrow> usize \<Rightarrow> client_association \<times> (client_error + bool)" where
  "advance_stdout c accepted =
     (case ca_pending_output c of
        None \<Rightarrow> (c, Inl Cl_OutputNotStaged)
      | Some p \<Rightarrow>
          if po_kind p \<noteq> UKind_Output \<or> accepted = 0 \<or> accepted > po_length p - po_stdout_offset p
          then (c, Inl Cl_OutputProgressInvalid)
          else
            let p1 = p\<lparr>po_stdout_offset := po_stdout_offset p + accepted\<rparr>
            in (c\<lparr>ca_pending_output := Some p1\<rparr>, Inr (po_stdout_offset p1 = po_length p1)))"

definition can_queue_output_ack :: "client_association \<Rightarrow> bool" where
  "can_queue_output_ack c = ring_can_accept (ca_control c) UKind_AckOutput ACK_WIRE_LEN"

definition queue_output_ack :: "client_association \<Rightarrow> u64 \<Rightarrow> client_association \<times> (client_error + udp_ack)" where
  "queue_output_ack c n =
     (let a = \<lparr>ack_epoch = dg_epoch (ca_output c), next_expected = n\<rparr>
      in case push_control c UKind_AckOutput (ack_encode a) of
           (c1, Inl e) \<Rightarrow> (c1, Inl e)
         | (c1, Inr _) \<Rightarrow> (c1, Inr a))"

definition commit_output :: "client_association \<Rightarrow> u64 \<Rightarrow> client_association \<times> (client_error + udp_ack)" where
  "commit_output c sequence =
     (if \<not> can_queue_output_ack c then (c, Inl (Cl_Queue Q_Full))
      else case gate_commit (ca_output c) (dg_epoch (ca_output c)) sequence of
        (g, Inl e) \<Rightarrow> (c\<lparr>ca_output := g\<rparr>, Inl (Cl_Queue e))
      | (g, Inr _) \<Rightarrow> queue_output_ack (c\<lparr>ca_output := g\<rparr>) (dg_next_expected g))"

definition finish_staged_output :: "client_association \<Rightarrow> client_association \<times> (client_error + udp_ack)" where
  "finish_staged_output c =
     (case ca_pending_output c of
        None \<Rightarrow> (c, Inl Cl_OutputNotStaged)
      | Some p \<Rightarrow>
          if po_kind p = UKind_Output \<and> po_stdout_offset p \<noteq> po_length p
          then (c, Inl Cl_OutputProgressInvalid)
          else case commit_output c (po_sequence p) of
            (c1, Inl e) \<Rightarrow> (c1, Inl e)
          | (c1, Inr a) \<Rightarrow>
              (c1\<lparr>ca_output_staging := splice_at 0 (replicate (po_length p) 0) (ca_output_staging c1),
                  ca_pending_output := None\<rparr>, Inr a))"

definition repeat_output_ack :: "client_association \<Rightarrow> u64 \<Rightarrow> client_association \<times> (client_error + udp_ack)" where
  "repeat_output_ack c n = queue_output_ack c n"

section \<open>Histories\<close>

text \<open>What a client goes through, as one event per call. A record of the output stream carries no
  epoch: \<open>Cv_Receive n\<close> is the arrival of record \<open>n\<close> of the epoch the client is in, and \<open>content\<close> says
  what the gateway wrote there. \<open>Cv_Stdout n\<close> is the local terminal accepting \<open>n\<close> bytes of the
  staged output. The second state component is what the terminal accepted in the current epoch.\<close>

type_synonym output_content = "u64 \<Rightarrow> u64 \<Rightarrow> udp_kind \<times> bytes"

datatype client_event =
    Cv_Receive u64
  | Cv_Stdout usize
  | Cv_Finish
  | Cv_RepeatAck u64
  | Cv_Gap u64 u64
  | Cv_GapNotice
  | Cv_InitialHello server_hello
  | Cv_ServerHello server_hello
  | Cv_StartLink
  | Cv_ControlSent u64
  | Cv_ServerControlBegin u64
  | Cv_ServerControlCommit u64
  | Cv_ServerControlAbort u64
  | Cv_Input bytes
  | Cv_Resize resize
  | Cv_Signal u8
  | Cv_InputClose
  | Cv_Detach
  | Cv_InputAck udp_ack

fun accepted_bytes :: "client_association \<Rightarrow> usize \<Rightarrow> bytes" where
  "accepted_bytes c n =
     (case (advance_stdout c n, pending_output_view c) of
        ((_, Inr _), Inr (_, _, Out_Bytes bs)) \<Rightarrow> take n bs
      | _ \<Rightarrow> [])"

fun client_call :: "output_content \<Rightarrow> client_association \<Rightarrow> client_event \<Rightarrow> client_association" where
  "client_call content c (Cv_Receive n) =
     (case content (dg_epoch (ca_output c)) n of (kind, payload) \<Rightarrow> fst (stage_output c kind n payload))"
| "client_call content c (Cv_Stdout n) = fst (advance_stdout c n)"
| "client_call content c Cv_Finish = fst (finish_staged_output c)"
| "client_call content c (Cv_RepeatAck n) = fst (repeat_output_ack c n)"
| "client_call content c (Cv_Gap a b) =
     (case gap_new a b of Inl _ \<Rightarrow> c | Inr gap \<Rightarrow> fst (client_apply_gap c gap))"
| "client_call content c Cv_GapNotice = fst (take_gap_notice c)"
| "client_call content c (Cv_InitialHello hello) = fst (apply_initial_server_hello c hello)"
| "client_call content c (Cv_ServerHello hello) = fst (apply_server_hello c hello)"
| "client_call content c Cv_StartLink = start_link c"
| "client_call content c (Cv_ControlSent n) = fst (acknowledge_control_sent c n)"
| "client_call content c (Cv_ServerControlBegin n) = fst (begin_server_control c n)"
| "client_call content c (Cv_ServerControlCommit n) = fst (commit_server_control c n)"
| "client_call content c (Cv_ServerControlAbort n) = fst (abort_server_control c n)"
| "client_call content c (Cv_Input bs) = fst (queue_input c bs)"
| "client_call content c (Cv_Resize rs) = fst (queue_resize c rs)"
| "client_call content c (Cv_Signal s) = fst (queue_signal c s)"
| "client_call content c Cv_InputClose = fst (queue_input_close c)"
| "client_call content c Cv_Detach = fst (queue_detach c)"
| "client_call content c (Cv_InputAck a) = fst (accept_input_ack c a)"

fun client_step ::
  "output_content \<Rightarrow> client_association \<times> bytes \<Rightarrow> client_event \<Rightarrow> (client_association \<times> bytes) \<times> unit list" where
  "client_step content (c, shown) e =
     (let c' = client_call content c e;
          accepted = (case e of Cv_Stdout n \<Rightarrow> accepted_bytes c n | _ \<Rightarrow> [])
      in ((c', if dg_epoch (ca_output c') = dg_epoch (ca_output c) then shown @ accepted else []), []))"

definition terminal_bytes :: "udp_kind \<times> bytes \<Rightarrow> bytes" where
  "terminal_bytes r = (if fst r = UKind_Output then snd r else [])"

definition epoch_bytes :: "output_content \<Rightarrow> u64 \<Rightarrow> nat \<Rightarrow> bytes" where
  "epoch_bytes content epoch n = concat (map (\<lambda>k. terminal_bytes (content epoch (of_nat k))) [0 ..< n])"

section \<open>What the terminal has accepted\<close>

text \<open>The staged operation: it is the gate's next record, with the content the gateway gave it.\<close>

definition staged_ok :: "output_content \<Rightarrow> client_association \<Rightarrow> pending_output \<Rightarrow> bool" where
  "staged_ok content c p \<longleftrightarrow>
     dg_pending (ca_output c) = Some (dg_epoch (ca_output c), po_sequence p) \<and>
     po_sequence p = dg_next_expected (ca_output c) \<and> po_length p \<le> length (ca_output_staging c) \<and>
     content (dg_epoch (ca_output c)) (po_sequence p) = (po_kind p, take (po_length p) (ca_output_staging c)) \<and>
     po_stdout_offset p \<le> po_length p \<and> (po_kind p = UKind_Output \<or> po_stdout_offset p = 0) \<and>
     (\<exists>op. decode_output_operation (po_kind p) (take (po_length p) (ca_output_staging c)) (ca_limits c) = Inr op)"

definition staged_prefix :: "client_association \<Rightarrow> bytes" where
  "staged_prefix c =
     (case ca_pending_output c of None \<Rightarrow> [] | Some p \<Rightarrow> take (po_stdout_offset p) (ca_output_staging c))"

definition output_inv :: "output_content \<Rightarrow> client_association \<times> bytes \<Rightarrow> bool" where
  "output_inv content cs \<longleftrightarrow> (case cs of (c, shown) \<Rightarrow>
     (case ca_pending_output c of
        None \<Rightarrow> dg_pending (ca_output c) = None | Some p \<Rightarrow> staged_ok content c p) \<and>
     shown = epoch_bytes content (dg_epoch (ca_output c)) (unat (dg_next_expected (ca_output c))) @ staged_prefix c)"

text \<open>Most operations leave the output side alone.\<close>

definition same_output :: "client_association \<Rightarrow> client_association \<Rightarrow> bool" where
  "same_output c c' \<longleftrightarrow> ca_output c' = ca_output c \<and> ca_output_staging c' = ca_output_staging c \<and>
     ca_pending_output c' = ca_pending_output c \<and> ca_limits c' = ca_limits c"

lemma same_output_refl [simp]: "same_output c c"
  by (simp add: same_output_def)

lemma same_output_inv: "same_output c c' \<Longrightarrow> output_inv content (c', shown) \<longleftrightarrow> output_inv content (c, shown)"
  by (auto simp: same_output_def output_inv_def staged_ok_def staged_prefix_def split: option.split)

lemma push_same [simp]:
  "same_output c (fst (push_input c kind payload))"
  "same_output c (fst (push_control c kind payload))"
  by (auto simp: push_input_def push_control_def same_output_def split: sum.split prod.split)

lemma queue_output_ack_same [simp]: "same_output c (fst (queue_output_ack c n))"
  using push_same(2) [of c UKind_AckOutput "ack_encode \<lparr>ack_epoch = dg_epoch (ca_output c), next_expected = n\<rparr>"]
  by (auto simp: queue_output_ack_def Let_def simp del: push_same split: prod.split sum.split)

lemma queue_input_close_same [simp]: "same_output c (fst (queue_input_close c))"
  using push_same(1) [of c UKind_InputClose "[]"]
  by (auto simp: queue_input_close_def same_output_def simp del: push_same split: prod.split sum.split)

lemma same_output_calls:
  assumes "\<And>n. e \<noteq> Cv_Receive n" "\<And>n. e \<noteq> Cv_Stdout n" "e \<noteq> Cv_Finish" "\<And>a b. e \<noteq> Cv_Gap a b"
    "\<And>h. e \<noteq> Cv_InitialHello h" "\<And>h. e \<noteq> Cv_ServerHello h"
  shows "same_output c (client_call content c e)"
  using assms
  by (cases e) (auto simp: take_gap_notice_def start_link_def acknowledge_control_sent_def begin_server_control_def
      commit_server_control_def abort_server_control_def queue_input_def queue_resize_def queue_signal_def
      queue_detach_def accept_input_ack_def repeat_output_ack_def split: sum.split prod.split,
    simp_all add: same_output_def)

text \<open>A new epoch starts with nothing delivered and nothing staged.\<close>

definition new_epoch :: "client_association \<Rightarrow> client_association \<Rightarrow> bool" where
  "new_epoch c c' \<longleftrightarrow> dg_epoch (ca_output c) < dg_epoch (ca_output c') \<and> dg_next_expected (ca_output c') = 0 \<and>
     dg_pending (ca_output c') = None \<and> ca_pending_output c' = None"

lemma new_epoch_inv: "new_epoch c c' \<Longrightarrow> output_inv content (c', [])"
  by (simp add: new_epoch_def output_inv_def epoch_bytes_def staged_prefix_def)

lemma apply_gap_cases:
  assumes inv: "output_inv content (c, shown)" and gap: "gap_ok gap"
  shows "same_output c (fst (client_apply_gap c gap)) \<or> new_epoch c (fst (client_apply_gap c gap))"
proof (cases "ca_last_gap c = Some gap \<or> abandoned_epoch gap \<noteq> dg_epoch (ca_output c)")
  case True
  then show ?thesis by (auto simp: client_apply_gap_def)
next
  case False
  with gap have e: "ca_last_gap c \<noteq> Some gap" "abandoned_epoch gap = dg_epoch (ca_output c)"
      "dg_epoch (ca_output c) < replacement_epoch gap"
    by (auto simp: gap_ok_def)
  have "new_epoch c (fst (client_apply_gap c gap))"
  proof (cases "ca_pending_output c")
    case None
    with inv have "dg_pending (ca_output c) = None" by (simp add: output_inv_def)
    with None e show ?thesis by (simp add: client_apply_gap_def gate_reset_epoch_def new_epoch_def)
  next
    case (Some p)
    with inv have "dg_pending (ca_output c) = Some (dg_epoch (ca_output c), po_sequence p)"
      by (simp add: output_inv_def staged_ok_def)
    with Some e show ?thesis
      by (simp add: client_apply_gap_def gate_abort_def gate_reset_epoch_def new_epoch_def)
  qed
  then show ?thesis ..
qed

lemma gap_new_ok: "gap_new a b = Inr gap \<Longrightarrow> gap_ok gap \<and> abandoned_epoch gap = a \<and> replacement_epoch gap = b"
  by (auto simp: gap_new_def gap_ok_def split: if_splits)

lemma hello_cases:
  assumes inv: "output_inv content (c, shown)" and fresh: "\<not> (fresh \<and> \<not> is_fresh c)"
  shows "same_output c (fst (apply_server_hello_inner c hello fresh)) \<or>
    new_epoch c (fst (apply_server_hello_inner c hello fresh))"
proof -
  obtain r res where ack: "ring_acknowledge (ca_input c) (sh_accepted_input_ack hello) = (r, res)" by force
  let ?c1 = "c\<lparr>ca_input := r\<rparr>"
  have c1: "same_output c ?c1" by (simp add: same_output_def)
  from inv have inv1: "output_inv content (?c1, shown)" using same_output_inv [OF c1] by blast
  show ?thesis
  proof (cases "server_hello_check c hello fresh")
    case Inl
    then show ?thesis by (simp add: apply_server_hello_inner_def)
  next
    case chk: (Inr u)
    show ?thesis
    proof (cases "isl res \<or> sh_pending_gap hello = None")
      case True
      with chk ack c1 show ?thesis
        by (auto simp: apply_server_hello_inner_def same_output_def split: sum.split)
    next
      case False
      then obtain a b u' where gap: "sh_pending_gap hello = Some (a, b)" "res = Inr u'" by (cases res) auto
      from chk gap obtain g where g: "gap_new a b = Inr g"
        by (auto simp: server_hello_check_def hello_gap_check_def Let_def split: if_splits)
      note gok = gap_new_ok [OF g]
      show ?thesis
      proof (cases "fresh \<and> a \<noteq> dg_epoch (ca_output c)")
        case True
        with fresh inv have f: "dg_epoch (ca_output c) = 0" "ca_last_gap c = None" "ca_pending_output c = None"
            "dg_pending (ca_output c) = None"
          by (auto simp: is_fresh_def output_inv_def)
        have "a < b" using gok by (auto simp: gap_ok_def)
        then have "0 < b" by (rule le_less_trans [OF word_zero_le])
        with True chk ack gap g gok f show ?thesis
          by (simp add: apply_server_hello_inner_def Let_def gate_reset_epoch_def client_apply_gap_def new_epoch_def)
      next
        case False
        have "same_output ?c1 (fst (client_apply_gap ?c1 g)) \<or> new_epoch ?c1 (fst (client_apply_gap ?c1 g))"
          using apply_gap_cases [OF inv1] gok by blast
        then have "same_output c (fst (client_apply_gap ?c1 g)) \<or> new_epoch c (fst (client_apply_gap ?c1 g))"
          by (auto simp: same_output_def new_epoch_def)
        moreover have "ca_output (fst (apply_server_hello_inner c hello fresh)) = ca_output (fst (client_apply_gap ?c1 g))"
          "ca_output_staging (fst (apply_server_hello_inner c hello fresh)) = ca_output_staging (fst (client_apply_gap ?c1 g))"
          "ca_pending_output (fst (apply_server_hello_inner c hello fresh)) = ca_pending_output (fst (client_apply_gap ?c1 g))"
          "ca_limits (fst (apply_server_hello_inner c hello fresh)) = ca_limits (fst (client_apply_gap ?c1 g))"
          using False chk ack gap g
          by (auto simp: apply_server_hello_inner_def Let_def split: prod.split sum.split)
        ultimately show ?thesis by (simp add: same_output_def new_epoch_def)
      qed
    qed
  qed
qed

lemma step_same:
  assumes inv: "output_inv content (c, shown)" and e: "\<And>n. e \<noteq> Cv_Stdout n"
    and c': "same_output c (client_call content c e) \<or> new_epoch c (client_call content c e)"
  shows "output_inv content (fst (client_step content (c, shown) e))"
proof -
  have "(case e of Cv_Stdout n \<Rightarrow> accepted_bytes c n | _ \<Rightarrow> []) = []" using e by (cases e) auto
  then have "fst (client_step content (c, shown) e) = (client_call content c e,
      if dg_epoch (ca_output (client_call content c e)) = dg_epoch (ca_output c) then shown else [])"
    by (simp add: Let_def)
  with c' inv show ?thesis
    by (auto simp: same_output_inv dest: new_epoch_inv simp del: client_step.simps)
      (auto simp: same_output_def new_epoch_def)
qed

lemma record_received_inv:
  assumes inv: "output_inv content (c, shown)"
  shows "output_inv content (fst (client_step content (c, shown) (Cv_Receive n)))"
proof -
  let ?g = "ca_output c" and ?e = "dg_epoch (ca_output c)"
  obtain kind payload where r: "content ?e n = (kind, payload)" by force
  show ?thesis
  proof (cases "ca_pending_output c")
    case (Some p)
    with r show ?thesis by (intro step_same inv) (auto simp: stage_output_def)
  next
    case None
    with inv have g: "dg_pending ?g = None" and shown: "shown = epoch_bytes content ?e (unat (dg_next_expected ?g))"
      by (simp_all add: output_inv_def staged_prefix_def)
    show ?thesis
    proof (cases "decode_output_operation kind payload (ca_limits c)")
      case (Inl e)
      with r None show ?thesis by (intro step_same inv) (auto simp: stage_output_def begin_output_def)
    next
      case (Inr operation)
      consider "n < dg_next_expected ?g" | "n > dg_next_expected ?g"
        | (large) "n = dg_next_expected ?g" "length payload > length (ca_output_staging c)"
        | (staged) "n = dg_next_expected ?g" "length payload \<le> length (ca_output_staging c)"
        by (meson linorder_less_linear not_le_imp_less)
      then show ?thesis
      proof cases
        case staged
        have "take (length payload) (splice_at 0 payload (ca_output_staging c)) = payload"
          by (simp add: splice_at_def)
        with staged r None Inr g shown show ?thesis
          by (auto simp: stage_output_def begin_output_def gate_begin_def output_inv_def staged_ok_def
              staged_prefix_def Let_def)
      next
        case large
        with r None Inr g show ?thesis
          by (intro step_same inv)
            (simp_all add: stage_output_def begin_output_def gate_begin_def abort_output_def gate_abort_def same_output_def)
      qed (use r None Inr g in \<open>intro step_same inv;
            auto simp: stage_output_def begin_output_def gate_begin_def same_output_def\<close>)+
    qed
  qed
qed

lemma take_more: "i + n \<le> j \<Longrightarrow> j \<le> length xs \<Longrightarrow> take i xs @ take n (subslice i j (take j xs)) = take (i + n) xs"
  by (simp add: subslice_def drop_take take_add min_def)

lemma stdout_inv:
  assumes inv: "output_inv content (c, shown)"
  shows "output_inv content (fst (client_step content (c, shown) (Cv_Stdout n)))"
proof (cases "snd (advance_stdout c n)")
  case (Inl e)
  then have "fst (advance_stdout c n) = c" "accepted_bytes c n = []"
    by (auto simp: advance_stdout_def Let_def split: option.splits if_splits prod.splits)
  with inv show ?thesis by simp
next
  case (Inr b)
  then obtain p where p: "ca_pending_output c = Some p" "po_kind p = UKind_Output"
      "n \<le> po_length p - po_stdout_offset p"
      "fst (advance_stdout c n) = c\<lparr>ca_pending_output := Some (p\<lparr>po_stdout_offset := po_stdout_offset p + n\<rparr>)\<rparr>"
    by (auto simp: advance_stdout_def Let_def split: option.splits if_splits)
  from inv p(1) have ok: "staged_ok content c p" by (simp add: output_inv_def)
  let ?payload = "take (po_length p) (ca_output_staging c)"
  from ok p(2) have "decode_output_operation (po_kind p) ?payload (ca_limits c) = Inr (Out_Bytes ?payload)"
    by (auto simp: staged_ok_def decode_output_operation_def split: prod.splits if_splits)
  then have "pending_output_view c = Inr (po_kind p, po_sequence p,
      Out_Bytes (subslice (po_stdout_offset p) (po_length p) ?payload))"
    using p(1) by (simp add: pending_output_view_def Let_def)
  then have acc: "accepted_bytes c n = take n (subslice (po_stdout_offset p) (po_length p) ?payload)"
    using Inr by (cases "advance_stdout c n") auto
  have "take (po_stdout_offset p) (ca_output_staging c) @ accepted_bytes c n
      = take (po_stdout_offset p + n) (ca_output_staging c)"
    unfolding acc using ok p(3) by (intro take_more) (auto simp: staged_ok_def)
  with inv p ok show ?thesis
    by (auto simp: output_inv_def staged_ok_def staged_prefix_def simp del: accepted_bytes.simps)
qed

lemma queue_output_ack_ok:
  assumes "can_queue_output_ack c"
  shows "\<exists>c' a. queue_output_ack c n = (c', Inr a) \<and> same_output c c'"
proof -
  let ?p = "ack_encode \<lparr>ack_epoch = dg_epoch (ca_output c), next_expected = n\<rparr>"
  have "length ?p = ACK_WIRE_LEN" by (simp add: ack_encode_def ACK_WIRE_LEN_def)
  with assms obtain r' k where "ring_push (ca_control c) UKind_AckOutput ?p = Inr (r', k)"
    using can_accept_push [of "ca_control c" UKind_AckOutput ?p] by (auto simp: can_queue_output_ack_def)
  then show ?thesis by (simp add: queue_output_ack_def push_control_def Let_def same_output_def)
qed

lemma epoch_bytes_Suc:
  "epoch_bytes content e (Suc n) = epoch_bytes content e n @ terminal_bytes (content e (of_nat n))"
  by (simp add: epoch_bytes_def)

lemma finish_inv:
  assumes inv: "output_inv content (c, shown)"
  shows "output_inv content (fst (client_step content (c, shown) Cv_Finish))"
proof (cases "snd (finish_staged_output c)")
  case (Inl e)
  have "same_output c (fst (finish_staged_output c))"
  proof (cases "ca_pending_output c")
    case (Some p)
    from Inl Some show ?thesis
      using queue_output_ack_ok [of "c\<lparr>ca_output := fst (gate_commit (ca_output c) (dg_epoch (ca_output c)) (po_sequence p))\<rparr>"
        "dg_next_expected (fst (gate_commit (ca_output c) (dg_epoch (ca_output c)) (po_sequence p)))"]
      by (auto simp: finish_staged_output_def commit_output_def gate_commit_def can_queue_output_ack_def same_output_def
          split: if_splits option.splits)
  qed (simp add: finish_staged_output_def)
  then show ?thesis by (intro step_same inv) auto
next
  case (Inr a)
  then obtain p where p: "ca_pending_output c = Some p" "\<not> (po_kind p = UKind_Output \<and> po_stdout_offset p \<noteq> po_length p)"
    by (auto simp: finish_staged_output_def split: option.splits if_splits)
  from inv p(1) have ok: "staged_ok content c p" by (simp add: output_inv_def)
  let ?g = "ca_output c" and ?n = "dg_next_expected (ca_output c)" and ?e = "dg_epoch (ca_output c)"
  from Inr p obtain g' where g': "gate_commit ?g ?e (po_sequence p) = (g', Inr ())" "can_queue_output_ack c"
    by (auto simp: finish_staged_output_def commit_output_def split: prod.splits sum.splits if_splits)
  then have g: "dg_epoch g' = ?e" "unat (dg_next_expected g') = Suc (unat ?n)" "dg_pending g' = None"
    by (auto simp: gate_commit_def checked_add_eq_Some_iff split: if_splits option.splits)
  have "can_queue_output_ack (c\<lparr>ca_output := g'\<rparr>)" using g'(2) by (simp add: can_queue_output_ack_def)
  from queue_output_ack_ok [OF this] obtain c1 a1 where
    c1: "queue_output_ack (c\<lparr>ca_output := g'\<rparr>) (dg_next_expected g') = (c1, Inr a1)" "same_output (c\<lparr>ca_output := g'\<rparr>) c1"
    by blast
  have fin: "fst (finish_staged_output c) = c1\<lparr>ca_output_staging :=
      splice_at 0 (replicate (po_length p) 0) (ca_output_staging c1), ca_pending_output := None\<rparr>"
    using p(1) g' c1 by (simp add: finish_staged_output_def commit_output_def p(2))
  have "terminal_bytes (content ?e ?n) = staged_prefix c"
    using ok p by (auto simp: staged_ok_def staged_prefix_def terminal_bytes_def split: if_splits)
  then have "epoch_bytes content ?e (Suc (unat ?n)) = epoch_bytes content ?e (unat ?n) @ staged_prefix c"
    by (simp add: epoch_bytes_Suc)
  with inv g c1(2) fin show ?thesis
    by (simp add: Let_def output_inv_def same_output_def staged_prefix_def)
qed

interpretation client_machine: event_machine "client_step content" "output_inv content" for content
proof
  fix cs e assume inv: "output_inv content cs"
  obtain c shown where cs: "cs = (c, shown)" by force
  note inv = inv [unfolded cs]
  have same: "output_inv content (fst (client_step content (c, shown) e))"
    if "\<And>n. e \<noteq> Cv_Receive n" "\<And>n. e \<noteq> Cv_Stdout n" "e \<noteq> Cv_Finish" "\<And>a b. e \<noteq> Cv_Gap a b"
      "\<And>h. e \<noteq> Cv_InitialHello h" "\<And>h. e \<noteq> Cv_ServerHello h"
    by (rule step_same [OF inv that(2) disjI1 [OF same_output_calls [OF that]]])
  show "output_inv content (fst (client_step content cs e))"
  proof (cases e)
    case (Cv_Receive n) then show ?thesis using record_received_inv [OF inv] cs by simp
  next
    case (Cv_Stdout n) then show ?thesis using stdout_inv [OF inv] cs by simp
  next
    case Cv_Finish then show ?thesis using finish_inv [OF inv] cs by simp
  next
    case (Cv_Gap a b)
    then show ?thesis unfolding cs
      by (intro step_same [OF inv]) (auto split: sum.split dest!: gap_new_ok dest: apply_gap_cases [OF inv])
  next
    case (Cv_InitialHello h)
    then show ?thesis unfolding cs using hello_cases [OF inv, of "is_fresh c" h]
      by (intro step_same [OF inv]) (simp_all add: apply_initial_server_hello_def)
  next
    case (Cv_ServerHello h)
    then show ?thesis unfolding cs using hello_cases [OF inv, of False h]
      by (intro step_same [OF inv]) (simp_all add: apply_server_hello_def)
  qed (unfold cs, (rule same; simp)+)
qed

text \<open>C12: the terminal sees each byte once. Whatever arrives, is resumed, repeated or abandoned, and
  however the terminal cuts its writes, the bytes it accepted in the current output epoch are the
  contents of the committed records in order, followed by the accepted part of the staged one.\<close>

theorem terminal_output_exactly_once:
  "case client_new alloc i g role limits of
     Inl e \<Rightarrow> True
   | Inr c0 \<Rightarrow>
       (case fst (run_events (client_step content) (c0, []) events) of (c, shown) \<Rightarrow>
          shown = epoch_bytes content (dg_epoch (ca_output c)) (unat (dg_next_expected (ca_output c)))
            @ (case ca_pending_output c of
                 None \<Rightarrow> []
               | Some p \<Rightarrow> take (po_stdout_offset p)
                   (terminal_bytes (content (dg_epoch (ca_output c)) (dg_next_expected (ca_output c))))))"
proof (cases "client_new alloc i g role limits")
  case (Inr c0)
  then have "output_inv content (c0, [])"
    by (auto simp: client_new_def output_inv_def gate_new_def epoch_bytes_def staged_prefix_def
        split: sum.splits if_splits)
  from client_machine.run_inv [OF this, of events] Inr show ?thesis
    by (auto simp: output_inv_def staged_prefix_def staged_ok_def terminal_bytes_def min_def split: option.splits)
qed simp

end
