(* ===== verification/Udp_Link.thy ===== *)
theory Udp_Link
  imports Udp_Association
begin

text \<open>
  What the two ends of an everudp link share (\<open>crates/everudp/src/actor.rs\<close>): the errors of a link,
  the resumable write of one record, and \<open>RecordReader\<close>, which collects one record at a time from a
  stream. A receiving stream is the list of the chunks that have arrived and what comes after them;
  a suspended read is a result of its own, and the reader keeps what it has read.
\<close>

datatype link_error =
    Lk_Association association_failure | Lk_Protocol wire_error | Lk_StreamOpen | Lk_StreamRead
  | Lk_StreamWrite | Lk_OutputResumeRequired | Lk_StreamEndedMidRecord | Lk_ObserverInputStream
  | Lk_InputCloseMissing | Lk_InputAfterClose | Lk_ControlBackpressure | Lk_Sink io_error

section \<open>Streams\<close>

datatype stream_fate = Stream_Live | Stream_Finished | Stream_Lost

record recv_stream =
  rs_chunks :: "bytes list"
  rs_fate :: stream_fate

datatype read_result = Read_Data bytes | Read_End | Read_Failed | Read_Pending

text \<open>One call of \<open>read\<close> with a buffer of \<open>n\<close> bytes.\<close>

definition stream_read :: "recv_stream \<Rightarrow> usize \<Rightarrow> recv_stream \<times> read_result" where
  "stream_read s n =
     (case rs_chunks s of
        [] \<Rightarrow> (s, case rs_fate s of Stream_Live \<Rightarrow> Read_Pending | Stream_Finished \<Rightarrow> Read_End | Stream_Lost \<Rightarrow> Read_Failed)
      | c # cs \<Rightarrow>
          if length c \<le> n then (s\<lparr>rs_chunks := cs\<rparr>, Read_Data c)
          else (s\<lparr>rs_chunks := drop n c # cs\<rparr>, Read_Data (take n c)))"

definition stream_content :: "recv_stream \<Rightarrow> bytes" where
  "stream_content s = concat (rs_chunks s)"

lemma stream_read_data:
  assumes "stream_read s n = (s', Read_Data d)"
  shows "stream_content s = d @ stream_content s' \<and> rs_fate s' = rs_fate s \<and> length d \<le> n \<and>
    (0 < n \<and> [] \<notin> set (rs_chunks s) \<longrightarrow> d \<noteq> [] \<and> [] \<notin> set (rs_chunks s'))"
  using assms by (cases "rs_chunks s") (auto simp: stream_read_def stream_content_def split: if_splits stream_fate.splits)

lemma stream_read_other:
  assumes "stream_read s n = (s', res)" "\<And>d. res \<noteq> Read_Data d"
  shows "s' = s \<and> rs_chunks s = [] \<and>
    res = (case rs_fate s of Stream_Live \<Rightarrow> Read_Pending | Stream_Finished \<Rightarrow> Read_End | Stream_Lost \<Rightarrow> Read_Failed)"
  using assms by (cases "rs_chunks s") (auto simp: stream_read_def split: if_splits)

section \<open>The record reader\<close>

record record_reader =
  rd_stream :: stream_role
  rd_bytes :: bytes
  rd_filled :: usize
  rd_total :: "usize option"

definition record_reader_new :: "(usize \<Rightarrow> bool) \<Rightarrow> stream_role \<Rightarrow> udp_limits \<Rightarrow> link_error + record_reader" where
  "record_reader_new alloc stream limits =
     (let len = (case stream of Stream_Control \<Rightarrow> control_frame_max limits
                 | Stream_Input \<Rightarrow> terminal_frame_max limits
                 | Stream_Output \<Rightarrow> terminal_frame_max limits) + UDP_HEADER_LEN
      in if \<not> alloc len then Inl (Lk_Association (As_Queue Q_Allocation))
         else Inr \<lparr>rd_stream = stream, rd_bytes = replicate len 0, rd_filled = 0, rd_total = None\<rparr>)"

definition record_reader_target :: "udp_limits \<Rightarrow> record_reader \<Rightarrow> record_reader \<times> (link_error + usize)" where
  "record_reader_target limits r =
     (if rd_filled r < UDP_HEADER_LEN then (r, Inr UDP_HEADER_LEN)
      else case rd_total r of
        Some tot \<Rightarrow> (r, Inr tot)
      | None \<Rightarrow>
          (case decode_record (rd_stream r) limits (take UDP_HEADER_LEN (rd_bytes r)) of
             Inr (_, consumed) \<Rightarrow> (r\<lparr>rd_total := Some consumed\<rparr>, Inr consumed)
           | Inl (We_Incomplete needed _) \<Rightarrow>
               if needed > length (rd_bytes r)
               then (r, Inl (Lk_Protocol (We_OutputTooSmall needed (length (rd_bytes r)))))
               else (r\<lparr>rd_total := Some needed\<rparr>, Inr needed)
           | Inl e \<Rightarrow> (r, Inl (Lk_Protocol e))))"

datatype receive_result =
    Rx_Record udp_record | Rx_Finished | Rx_Failed link_error | Rx_Suspended

function reader_receive ::
  "udp_limits \<Rightarrow> record_reader \<Rightarrow> recv_stream \<Rightarrow> record_reader \<times> recv_stream \<times> receive_result" where
  "reader_receive limits r s =
     (case record_reader_target limits r of
        (r1, Inl e) \<Rightarrow> (r1, s, Rx_Failed e)
      | (r1, Inr target) \<Rightarrow>
          if rd_filled r1 = target then
            (r1, s, case decode_record (rd_stream r1) limits (take target (rd_bytes r1)) of
                      Inl e \<Rightarrow> Rx_Failed (Lk_Protocol e) | Inr (rec, _) \<Rightarrow> Rx_Record rec)
          else
            (case stream_read s (target - rd_filled r1) of
               (s1, Read_Pending) \<Rightarrow> (r1, s1, Rx_Suspended)
             | (s1, Read_Failed) \<Rightarrow> (r1, s1, Rx_Failed Lk_StreamRead)
             | (s1, Read_End) \<Rightarrow>
                 (r1, s1, if rd_filled r1 = 0 then Rx_Finished else Rx_Failed Lk_StreamEndedMidRecord)
             | (s1, Read_Data d) \<Rightarrow>
                 if d = [] then (r1, s1, if rd_filled r1 = 0 then Rx_Finished else Rx_Failed Lk_StreamEndedMidRecord)
                 else reader_receive limits
                   (r1\<lparr>rd_bytes := splice_at (rd_filled r1) d (rd_bytes r1), rd_filled := rd_filled r1 + length d\<rparr>) s1))"
  by pat_completeness auto
termination
  by (relation "measure (\<lambda>(limits, r, s). length (stream_content s))") (auto dest!: stream_read_data [OF sym])

declare reader_receive.simps [simp del]

definition reader_consume :: "record_reader \<Rightarrow> record_reader" where
  "reader_consume r = r\<lparr>rd_bytes := splice_at 0 (replicate (rd_filled r) 0) (rd_bytes r),
     rd_filled := 0, rd_total := None\<rparr>"

text \<open>A reader that holds the prefix \<open>p\<close> of the record \<open>f\<close>.\<close>

definition reader_room :: "stream_role \<Rightarrow> record_reader \<Rightarrow> bool" where
  "reader_room stream r \<longleftrightarrow>
     (\<forall>g. record_ok stream default_udp_limits g \<longrightarrow> length (record_bytes g) \<le> length (rd_bytes r))"

definition reader_holds :: "stream_role \<Rightarrow> udp_record \<Rightarrow> bytes \<Rightarrow> record_reader \<Rightarrow> bool" where
  "reader_holds stream f p r \<longleftrightarrow>
     rd_stream r = stream \<and> length (record_bytes f) \<le> length (rd_bytes r) \<and> reader_room stream r \<and>
     rd_filled r = length p \<and> take (length p) (rd_bytes r) = p \<and>
     (rd_total r = None \<or> rd_total r = Some (length (record_bytes f)))"

lemma header_le_record: "UDP_HEADER_LEN \<le> length (record_bytes f)"
  by (simp add: record_bytes_def)

lemma decode_record_header:
  assumes "record_ok stream limits f"
  shows "decode_record stream limits (take UDP_HEADER_LEN (record_bytes f)) =
    (if length (record_bytes f) = UDP_HEADER_LEN then Inr (f, UDP_HEADER_LEN)
     else Inl (We_Incomplete (length (record_bytes f)) UDP_HEADER_LEN))"
proof (cases "length (record_bytes f) = UDP_HEADER_LEN")
  case True
  then show ?thesis using decode_record_bytes [OF assms, of "[]"] by simp
next
  case False
  have f: "udp_limits_validate limits = Inr ()" "header_ok stream limits (ur_header f)"
    "unat (fh_payload_len (ur_header f)) = length (ur_payload f)"
    using assms unfolding record_ok_def udp_limits_validate_iff by blast+
  have "take UDP_HEADER_LEN (record_bytes f) = header_encode (ur_header f)"
    by (simp add: record_bytes_def)
  moreover have "checked_add_usize UDP_HEADER_LEN (length (ur_payload f)) = Some (length (record_bytes f))"
    using unat_lt_32 [of "fh_payload_len (ur_header f)"] f(3)
    by (simp add: checked_add_usize_def UDP_HEADER_LEN_def record_bytes_def)
  ultimately show ?thesis
    using f False header_le_record [of f] header_decode_encode [OF f(2), of "[]"] by (simp add: decode_record_def)
qed

lemma target_held:
  assumes ok: "record_ok stream limits f" and r: "reader_holds stream f p r" and p: "record_bytes f = p @ q"
  shows "\<exists>r1. record_reader_target limits r =
      (r1, Inr (if length p < UDP_HEADER_LEN then UDP_HEADER_LEN else length (record_bytes f)))
    \<and> reader_holds stream f p r1"
proof (cases "length p < UDP_HEADER_LEN \<or> rd_total r \<noteq> None")
  case True
  then show ?thesis using r by (auto simp: record_reader_target_def reader_holds_def)
next
  case False
  then have len: "UDP_HEADER_LEN \<le> length p" "rd_total r = None" by simp_all
  then have "take UDP_HEADER_LEN (rd_bytes r) = take UDP_HEADER_LEN (take (length p) (rd_bytes r))" by simp
  also have "\<dots> = take UDP_HEADER_LEN (record_bytes f)" using r p len by (simp add: reader_holds_def)
  finally show ?thesis
    using len r decode_record_header [OF ok] by (auto simp: record_reader_target_def reader_holds_def reader_room_def)
qed

lemma reader_holds_more:
  assumes "reader_holds stream f p r" "length p + length d \<le> length (record_bytes f)"
  shows "reader_holds stream f (p @ d)
    (r\<lparr>rd_bytes := splice_at (rd_filled r) d (rd_bytes r), rd_filled := rd_filled r + length d\<rparr>)"
  using assms by (auto simp: reader_holds_def reader_room_def splice_at_def min_def)

text \<open>One turn of the loop: the record is complete, or more of it has arrived, or nothing has.\<close>

lemma reader_receive_full:
  assumes "record_ok stream limits f" "reader_holds stream f (record_bytes f) r"
  shows "\<exists>r'. reader_receive limits r s = (r', s, Rx_Record f) \<and> reader_holds stream f (record_bytes f) r'"
proof -
  obtain r1 where r1: "record_reader_target limits r = (r1, Inr (length (record_bytes f)))"
      "reader_holds stream f (record_bytes f) r1"
    using target_held [OF assms, of "[]"] header_le_record [of f] by auto
  then have "reader_receive limits r s = (r1, s, Rx_Record f)"
    using decode_record_bytes [OF assms(1), of "[]"]
    by (subst reader_receive.simps) (simp add: reader_holds_def)
  with r1(2) show ?thesis by blast
qed

lemma reader_receive_turn:
  assumes "record_ok stream limits f" "reader_holds stream f p r" "record_bytes f = p @ q" "q \<noteq> []"
    and ne: "[] \<notin> set (rs_chunks s)"
  obtains (more) d r2 s1 where "d \<noteq> []" "length d \<le> length q" "stream_content s = d @ stream_content s1"
      "rs_fate s1 = rs_fate s" "[] \<notin> set (rs_chunks s1)" "reader_holds stream f (p @ d) r2"
      "reader_receive limits r s = reader_receive limits r2 s1"
  | (none) r1 where "rs_chunks s = []" "reader_holds stream f p r1"
      "reader_receive limits r s = (r1, s, case rs_fate s of Stream_Live \<Rightarrow> Rx_Suspended
          | Stream_Lost \<Rightarrow> Rx_Failed Lk_StreamRead
          | Stream_Finished \<Rightarrow> if p = [] then Rx_Finished else Rx_Failed Lk_StreamEndedMidRecord)"
proof -
  let ?t = "if length p < UDP_HEADER_LEN then UDP_HEADER_LEN else length (record_bytes f)"
  obtain r1 where r1: "record_reader_target limits r = (r1, Inr ?t)" "reader_holds stream f p r1"
    using target_held [OF assms(1-3)] by blast
  have filled: "rd_filled r1 = length p" using r1(2) by (simp add: reader_holds_def)
  have t: "length p < ?t" "?t \<le> length (record_bytes f)"
    using assms(3,4) header_le_record [of f] by auto
  obtain s1 res where read: "stream_read s (?t - rd_filled r1) = (s1, res)" by force
  show thesis
  proof (cases "\<exists>d. res = Read_Data d")
    case True
    then obtain d where d: "res = Read_Data d" by blast
    note D = stream_read_data [OF read [unfolded d]]
    have "d \<noteq> []" using D t(1) ne filled by (simp del: if_split_eq1 if_split_eq2)
    moreover have "length p + length d \<le> length (record_bytes f)" using D t filled by linarith
    moreover from this have "length d \<le> length q" using assms(3) by simp
    moreover have "reader_receive limits r s = reader_receive limits
        (r1\<lparr>rd_bytes := splice_at (rd_filled r1) d (rd_bytes r1), rd_filled := rd_filled r1 + length d\<rparr>) s1"
      using r1(1) t(1) filled read d \<open>d \<noteq> []\<close> by (subst reader_receive.simps) simp
    ultimately show thesis
      using D t(1) ne filled reader_holds_more [OF r1(2)] by (intro more) auto
  next
    case False
    then have O: "s1 = s" "rs_chunks s = []"
        "res = (case rs_fate s of Stream_Live \<Rightarrow> Read_Pending | Stream_Finished \<Rightarrow> Read_End | Stream_Lost \<Rightarrow> Read_Failed)"
      using stream_read_other [OF read] by auto
    have "reader_receive limits r s = (r1, s, case rs_fate s of Stream_Live \<Rightarrow> Rx_Suspended
          | Stream_Lost \<Rightarrow> Rx_Failed Lk_StreamRead
          | Stream_Finished \<Rightarrow> if p = [] then Rx_Finished else Rx_Failed Lk_StreamEndedMidRecord)"
      using r1(1) t(1) filled read O by (subst reader_receive.simps) (auto split: stream_fate.split)
    with r1(2) O show thesis by (intro none) simp_all
  qed
qed

lemma reader_receive_complete:
  assumes "record_ok stream limits f" "reader_holds stream f p r" "record_bytes f = p @ q"
    and "[] \<notin> set (rs_chunks s)" "stream_content s = q @ rest"
  shows "\<exists>r' s'. reader_receive limits r s = (r', s', Rx_Record f) \<and> reader_holds stream f (record_bytes f) r' \<and>
    stream_content s' = rest \<and> [] \<notin> set (rs_chunks s') \<and> rs_fate s' = rs_fate s"
  using assms(2-)
proof (induction "length q" arbitrary: p q r s rule: less_induct)
  case less
  show ?case
  proof (cases "q = []")
    case True
    with less.prems reader_receive_full [OF assms(1), of r s] show ?thesis by auto
  next
    case False
    show ?thesis
    proof (cases rule: reader_receive_turn [OF assms(1) less.prems(1,2) False less.prems(3)])
      case (1 d r2 s1)
      have "take (length d) q = d" using 1(2,3) less.prems(4) by (metis append_eq_append_conv_if)
      then have q: "q = d @ drop (length d) q" by (metis append_take_drop_id)
      have "stream_content s1 = drop (length d) q @ rest"
        using 1(3) less.prems(4) q by (metis append.assoc same_append_eq)
      with less.hyps [of "drop (length d) q" "p @ d" r2 s1] 1 less.prems(2) q False show ?thesis by fastforce
    next
      case (2 r1)
      with less.prems(4) False show ?thesis by (simp add: stream_content_def)
    qed
  qed
qed

lemma reader_receive_short:
  assumes "record_ok stream limits f" "reader_holds stream f p r" "record_bytes f = p @ stream_content s @ q" "q \<noteq> []"
    and "[] \<notin> set (rs_chunks s)"
  shows "\<exists>r' s'. reader_receive limits r s = (r', s', case rs_fate s of Stream_Live \<Rightarrow> Rx_Suspended
          | Stream_Lost \<Rightarrow> Rx_Failed Lk_StreamRead
          | Stream_Finished \<Rightarrow> if p @ stream_content s = [] then Rx_Finished else Rx_Failed Lk_StreamEndedMidRecord) \<and>
    reader_holds stream f (p @ stream_content s) r' \<and> rs_chunks s' = []"
  using assms(2,3,5)
proof (induction "length (stream_content s)" arbitrary: p r s rule: less_induct)
  case less
  have ne: "stream_content s @ q \<noteq> []" using assms(4) by simp
  show ?case
  proof (cases rule: reader_receive_turn [OF assms(1) less.prems(1,2) ne less.prems(3)])
    case (1 d r2 s1)
    then show ?thesis using less.hyps [of s1 "p @ d" r2] less.prems(2) by fastforce
  next
    case (2 r1)
    then show ?thesis by (auto simp: stream_content_def)
  qed
qed

lemma reader_consumed: "reader_holds stream f (record_bytes f) r \<Longrightarrow> record_ok stream default_udp_limits g \<Longrightarrow>
  reader_holds stream g [] (reader_consume r)"
  by (simp add: reader_holds_def reader_room_def reader_consume_def splice_at_def min_def)

lemma record_fits_reader:
  assumes "record_ok stream default_udp_limits f" "record_reader_new alloc stream default_udp_limits = Inr r"
  shows "length (record_bytes f) \<le> length (rd_bytes r)"
proof -
  let ?h = "ur_header f"
  have "kind_stream (fh_kind ?h) = stream" "length (ur_payload f) \<le> snd (payload_bounds (fh_kind ?h) default_udp_limits)"
    using assms(1) by (auto simp: record_ok_def header_ok_def split_beta)
  moreover have "snd (payload_bounds k default_udp_limits) \<le> (case kind_stream k of Stream_Control \<Rightarrow> control_frame_max default_udp_limits
      | Stream_Input \<Rightarrow> terminal_frame_max default_udp_limits | Stream_Output \<Rightarrow> terminal_frame_max default_udp_limits)" for k
    by (cases k) (simp_all add: payload_bounds_def default_udp_limits_def kind_stream_def ACK_WIRE_LEN_def RESIZE_WIRE_LEN_def)
  moreover have "length (rd_bytes r) = UDP_HEADER_LEN + (case stream of Stream_Control \<Rightarrow> control_frame_max default_udp_limits
      | Stream_Input \<Rightarrow> terminal_frame_max default_udp_limits | Stream_Output \<Rightarrow> terminal_frame_max default_udp_limits)"
    using assms(2) by (auto simp: record_reader_new_def Let_def split: if_splits)
  ultimately show ?thesis by (auto simp: record_bytes_def intro: order_trans)
qed

lemma reader_new_holds:
  assumes "record_ok stream default_udp_limits f" "record_reader_new alloc stream default_udp_limits = Inr r"
  shows "reader_holds stream f [] r"
  using record_fits_reader [OF _ assms(2)] assms
  by (auto simp: reader_holds_def reader_room_def record_reader_new_def Let_def split: if_splits)

text \<open>The callers take one record per call and consume it.\<close>

fun receive_many :: "udp_limits \<Rightarrow> nat \<Rightarrow> record_reader \<Rightarrow> recv_stream \<Rightarrow> receive_result list" where
  "receive_many limits 0 r s = []"
| "receive_many limits (Suc n) r s =
     (case reader_receive limits r s of
        (r', s', Rx_Record f) \<Rightarrow> Rx_Record f # receive_many limits n (reader_consume r') s'
      | (r', s', res) \<Rightarrow> [res])"

section \<open>Properties\<close>

lemma stream_read_append:
  assumes "stream_read s n = (s1, Read_Data d)"
  shows "stream_read \<lparr>rs_chunks = rs_chunks s @ ds, rs_fate = fate\<rparr> n
    = (\<lparr>rs_chunks = rs_chunks s1 @ ds, rs_fate = fate\<rparr>, Read_Data d) \<and> rs_fate s1 = rs_fate s"
  using assms by (cases "rs_chunks s") (auto simp: stream_read_def split: if_splits stream_fate.splits)

lemma target_again: "record_reader_target limits r = (r1, Inr t) \<Longrightarrow> record_reader_target limits r1 = (r1, Inr t)"
  by (auto simp: record_reader_target_def split: if_splits option.splits sum.splits prod.splits wire_error.splits)

lemma reader_receive_again:
  assumes "record_reader_target limits r = (r1, Inr t)"
  shows "reader_receive limits r1 s = reader_receive limits r s"
  by (subst (1 2) reader_receive.simps) (simp only: assms target_again [OF assms])

text \<open>A reader may be suspended anywhere. When \<open>receive\<close> has used up what arrived, even in the middle
  of a header, and is called again once more has arrived, it goes on as if everything had been
  there from the start: a poll that is cancelled and repeated loses no byte and reads none twice.\<close>

theorem suspended_reader_continues:
  "case reader_receive limits r \<lparr>rs_chunks = cs, rs_fate = Stream_Live\<rparr> of
     (r', s', Rx_Suspended) \<Rightarrow>
       reader_receive limits r' \<lparr>rs_chunks = ds, rs_fate = fate\<rparr>
         = reader_receive limits r \<lparr>rs_chunks = cs @ ds, rs_fate = fate\<rparr>
   | _ \<Rightarrow> True"
proof -
  have "reader_receive limits r' \<lparr>rs_chunks = ds, rs_fate = fate\<rparr>
      = reader_receive limits r \<lparr>rs_chunks = rs_chunks s @ ds, rs_fate = fate\<rparr>"
    if "reader_receive limits r s = (r', s', Rx_Suspended)" "rs_fate s = Stream_Live" for r' s s'
    using that
  proof (induction limits r s rule: reader_receive.induct)
    case (1 limits r s)
    let ?s = "\<lparr>rs_chunks = rs_chunks s @ ds, rs_fate = fate\<rparr>"
    from 1(2) obtain r1 t where t: "record_reader_target limits r = (r1, Inr t)" "rd_filled r1 \<noteq> t"
      by (subst (asm) reader_receive.simps) (auto split: prod.splits sum.splits if_splits)
    obtain s1 res where read: "stream_read s (t - rd_filled r1) = (s1, res)" by force
    show ?case
    proof (cases "\<exists>d. res = Read_Data d")
      case True
      then obtain d where d: "res = Read_Data d" by blast
      let ?r2 = "r1\<lparr>rd_bytes := splice_at (rd_filled r1) d (rd_bytes r1), rd_filled := rd_filled r1 + length d\<rparr>"
      from 1(2) t read d have "d \<noteq> []" "reader_receive limits ?r2 s1 = (r', s', Rx_Suspended)"
        by (subst (asm) reader_receive.simps, auto split: if_splits)+
      moreover have "reader_receive limits r ?s = reader_receive limits ?r2 \<lparr>rs_chunks = rs_chunks s1 @ ds, rs_fate = fate\<rparr>"
        using t \<open>d \<noteq> []\<close> stream_read_append [OF read [unfolded d], of ds fate] by (subst reader_receive.simps) simp
      ultimately show ?thesis
        using 1(1) [OF t(1) [symmetric] refl t(2) read [symmetric] d, simplified] 1(3) stream_read_append [OF read [unfolded d], of ds fate]
        by simp
    next
      case False
      then have "rs_chunks s = []" "r' = r1"
        using stream_read_other [OF read] 1(2,3) t read by (subst (asm) reader_receive.simps, auto)+
      then show ?thesis using reader_receive_again [OF t(1)] by simp
    qed
  qed
  then show ?thesis by (auto split: prod.splits receive_result.splits)
qed

lemma receive_many_records:
  assumes "list_all (record_ok stream default_udp_limits) fs" "\<And>f. record_ok stream default_udp_limits f \<Longrightarrow> reader_holds stream f [] r"
    and "[] \<notin> set (rs_chunks s)" "stream_content s = concat (map record_bytes fs)" "record_ok stream default_udp_limits g"
  shows "receive_many default_udp_limits (Suc (length fs)) r s = map Rx_Record fs @
    [case rs_fate s of Stream_Live \<Rightarrow> Rx_Suspended | Stream_Lost \<Rightarrow> Rx_Failed Lk_StreamRead
     | Stream_Finished \<Rightarrow> Rx_Finished]"
  using assms(1-4)
proof (induction fs arbitrary: r s)
  case Nil
  obtain r' s' where "reader_receive default_udp_limits r s = (r', s', case rs_fate s of Stream_Live \<Rightarrow> Rx_Suspended
      | Stream_Lost \<Rightarrow> Rx_Failed Lk_StreamRead | Stream_Finished \<Rightarrow> Rx_Finished)"
    using reader_receive_short [OF assms(5) Nil(2) [OF assms(5)], of s "record_bytes g"] Nil
      records.enc_nonempty [OF assms(5)] by (auto split: stream_fate.splits)
  then show ?case by (auto split: stream_fate.splits)
next
  case (Cons f fs)
  then have f: "record_ok stream default_udp_limits f" by simp
  obtain r' s' where R: "reader_receive default_udp_limits r s = (r', s', Rx_Record f)"
      "reader_holds stream f (record_bytes f) r'" "stream_content s' = concat (map record_bytes fs)"
      "[] \<notin> set (rs_chunks s')" "rs_fate s' = rs_fate s"
    using reader_receive_complete [OF f Cons.prems(2) [OF f], of "record_bytes f" s "concat (map record_bytes fs)"] Cons.prems
    by auto
  then show ?case using Cons.IH [of "reader_consume r'" s'] Cons.prems(1) reader_consumed [OF R(2)] by simp
qed

text \<open>A record, to show that the laws of the reader are not vacuous.\<close>

definition record_sample :: "stream_role \<Rightarrow> udp_record" where
  "record_sample stream = (case stream of
     Stream_Control \<Rightarrow> \<lparr>ur_header = \<lparr>fh_kind = UKind_Detach, fh_sequence = 0, fh_payload_len = 0\<rparr>, ur_payload = []\<rparr>
   | Stream_Input \<Rightarrow> \<lparr>ur_header = \<lparr>fh_kind = UKind_InputClose, fh_sequence = 0, fh_payload_len = 0\<rparr>, ur_payload = []\<rparr>
   | Stream_Output \<Rightarrow> \<lparr>ur_header = \<lparr>fh_kind = UKind_Output, fh_sequence = 0, fh_payload_len = 1\<rparr>, ur_payload = [7]\<rparr>)"

lemma record_sample_ok: "record_ok stream default_udp_limits (record_sample stream)"
  by (cases stream) (simp_all add: record_sample_def record_ok_def header_ok_def kind_stream_def payload_bounds_def
    default_udp_limits_def)

text \<open>C14: whatever sizes the transport delivers the bytes of a stream in, the reader returns exactly the
  records that were written to it, in order, and then says whether the stream ended, was lost, or
  has just nothing more.\<close>

theorem records_recovered_from_chunks:
  assumes "record_reader_new alloc stream default_udp_limits = Inr r"
    and "list_all (record_ok stream default_udp_limits) fs"
    and "[] \<notin> set chunks" "concat chunks = concat (map record_bytes fs)"
  shows "receive_many default_udp_limits (Suc (length fs)) r \<lparr>rs_chunks = chunks, rs_fate = fate\<rparr> =
    map Rx_Record fs @ [case fate of Stream_Live \<Rightarrow> Rx_Suspended | Stream_Lost \<Rightarrow> Rx_Failed Lk_StreamRead
      | Stream_Finished \<Rightarrow> Rx_Finished]"
  using receive_many_records [OF assms(2) reader_new_holds [OF _ assms(1)] _ _ record_sample_ok,
      of "\<lparr>rs_chunks = chunks, rs_fate = fate\<rparr>"] assms(3,4)
  by (simp add: stream_content_def)

lemma records_recovered_from_chunks_witness:
  "\<exists>r. record_reader_new (\<lambda>_. True) Stream_Input default_udp_limits = Inr r \<and>
     receive_many default_udp_limits (Suc (Suc 0)) r
       \<lparr>rs_chunks = [take 3 (record_bytes (record_sample Stream_Input)), drop 3 (record_bytes (record_sample Stream_Input))],
        rs_fate = Stream_Finished\<rparr> = [Rx_Record (record_sample Stream_Input), Rx_Finished]"
proof -
  obtain r where r: "record_reader_new (\<lambda>_. True) Stream_Input default_udp_limits = Inr r"
    by (simp add: record_reader_new_def Let_def)
  have "3 < length (record_bytes (record_sample Stream_Input))"
    using header_le_record [of "record_sample Stream_Input"] by (simp add: UDP_HEADER_LEN_def)
  then have "record_bytes (record_sample Stream_Input) \<noteq> []" by auto
  with records_recovered_from_chunks [OF r, of "[record_sample Stream_Input]"
      "[take 3 (record_bytes (record_sample Stream_Input)), drop 3 (record_bytes (record_sample Stream_Input))]" Stream_Finished]
    record_sample_ok [of Stream_Input] \<open>3 < _\<close> r
  show ?thesis by (intro exI [of _ r]) (simp del: receive_many.simps)
qed

section \<open>Writing records\<close>

text \<open>A record being written to a stream, and what one \<open>poll_write\<close> of its rest may answer.\<close>

record pending_write =
  pw_kind :: udp_kind
  pw_sequence :: u64
  pw_wire_len :: usize
  pw_written :: usize

datatype write_result = Write_Pending | Write_Failed | Write_Accepted usize

datatype outbound_step = Step_Idle | Step_Progress | Step_Record | Step_Discarding bool

datatype 'e poll_result = Poll_Pending | Poll_Error 'e | Poll_Step outbound_step

datatype write_progress = Wp_Blocked | Wp_Failed | Wp_Partial pending_write | Wp_Complete

definition pending_of :: "frame_copy \<Rightarrow> pending_write" where
  "pending_of fc = \<lparr>pw_kind = fc_kind fc, pw_sequence = fc_sequence fc, pw_wire_len = fc_wire_len fc, pw_written = 0\<rparr>"

definition pending_offer :: "pending_write \<Rightarrow> bytes \<Rightarrow> bytes" where
  "pending_offer p buf = subslice (pw_written p) (pw_wire_len p) buf"

fun advance_write :: "pending_write \<Rightarrow> write_result \<Rightarrow> write_progress" where
  "advance_write p Write_Pending = Wp_Blocked"
| "advance_write p Write_Failed = Wp_Failed"
| "advance_write p (Write_Accepted n) =
     (if n = 0 then Wp_Failed
      else let p' = p\<lparr>pw_written := pw_written p + n\<rparr>
        in if pw_written p' < pw_wire_len p' then Wp_Partial p' else Wp_Complete)"

text \<open>The bytes the stream took. A write takes at most what it is offered.\<close>

fun written_bytes :: "pending_write \<Rightarrow> bytes \<Rightarrow> write_result \<Rightarrow> bytes" where
  "written_bytes p buf (Write_Accepted n) = take n (pending_offer p buf)"
| "written_bytes p buf _ = []"

section \<open>What a stream carries\<close>

text \<open>\<open>ring_log sent r\<close>: the ring \<open>r\<close> has numbered the operations \<open>sent\<close> from 0 and retains the last ones.\<close>

definition numbered :: "(udp_kind \<times> bytes) list \<Rightarrow> nat \<Rightarrow> udp_record" where
  "numbered sent i = ring_record (of_nat i) (sent ! i)"

definition ring_log :: "(udp_kind \<times> bytes) list \<Rightarrow> replay_ring \<Rightarrow> bool" where
  "ring_log sent r \<longleftrightarrow> unat (rr_next r) = length sent \<and>
     (\<forall>i < length sent. record_ok (rr_stream r) default_udp_limits (numbered sent i)) \<and>
     (\<exists>k \<le> length sent. ring_repr r (map (numbered sent) [k ..< length sent]))"

lemma unat_of_nat_64: "n < 2 ^ 64 \<Longrightarrow> unat (of_nat n :: u64) = n"
  by (simp add: unsigned_of_nat take_bit_nat_eq_self)

lemma numbered_append: "i < length sent \<Longrightarrow> numbered (sent @ later) i = numbered sent i"
  by (simp add: numbered_def nth_append)

lemma numbered_kind [simp]: "fh_kind (ur_header (numbered sent i)) = fst (sent ! i)"
  by (simp add: numbered_def ring_record_def split_beta)

lemma numbered_sequence [simp]: "fh_sequence (ur_header (numbered sent i)) = of_nat i"
  by (simp add: numbered_def ring_record_def split_beta)

lemma ring_log_new: "ring_with_capacities alloc stream b c = Inr r \<Longrightarrow> ring_log [] r"
  using ring_with_capacities_repr [of alloc stream b c r] by (auto simp: ring_log_def ring_repr_def)

lemma ring_log_push:
  assumes log: "ring_log sent r" and P: "ring_push r kind payload = Inr (r', n)"
  shows "ring_log (sent @ [(kind, payload)]) r' \<and> n = of_nat (length sent) \<and> rr_stream r' = rr_stream r"
proof -
  let ?sent = "sent @ [(kind, payload)]"
  obtain k where k: "k \<le> length sent" "ring_repr r (map (numbered sent) [k ..< length sent])"
    using log by (auto simp: ring_log_def)
  note R = ring_push_repr [OF k(2) P]
  have nx: "rr_next r = of_nat (length sent)" using log unfolding ring_log_def by (metis of_nat_unat ucast_id)
  then have new: "ring_record (rr_next r) (kind, payload) = numbered ?sent (length sent)"
    by (simp add: numbered_def)
  have "map (numbered sent) [k ..< length sent] = map (numbered ?sent) [k ..< length sent]"
    by (simp add: numbered_append)
  with R new k(1) have repr: "ring_repr r' (map (numbered ?sent) [k ..< length ?sent])" by simp
  have st: "rr_stream r' = rr_stream r" using R by (simp add: ring_frame_def)
  have "record_ok (rr_stream r') default_udp_limits (numbered ?sent i)" if "i < length ?sent" for i
  proof (cases "i < length sent")
    case True
    then show ?thesis using log st by (simp add: numbered_append ring_log_def)
  next
    case False
    then have "i = length sent" using that by simp
    then show ?thesis using repr k(1) by (simp add: ring_repr_def)
  qed
  moreover have "unat (rr_next r') = length ?sent" using R log unat_Suc_64 [of "rr_next r"] by (simp add: ring_log_def)
  ultimately show ?thesis
    using repr k(1) R nx st unfolding ring_log_def by (intro conjI exI [of _ k]) auto
qed

lemma ring_log_acknowledge:
  assumes log: "ring_log sent r"
  shows "ring_log sent (fst (ring_acknowledge r n)) \<and> rr_stream (fst (ring_acknowledge r n)) = rr_stream r \<and>
    rr_next (fst (ring_acknowledge r n)) = rr_next r"
proof -
  obtain k where k: "k \<le> length sent" "ring_repr r (map (numbered sent) [k ..< length sent])"
    using log by (auto simp: ring_log_def)
  have l: "unat (rr_next r) = length sent" using log by (simp add: ring_log_def)
  consider (ahead) "n > rr_next r" | (behind) "n \<le> rr_next r" "unat n < k" | (fits) "n \<le> rr_next r" "k \<le> unat n"
    by fastforce
  then show ?thesis
  proof cases
    case fits
    then obtain r' where r': "ring_acknowledge r n = (r', Inr ())" "ring_frame r r'" "rr_next r' = rr_next r"
        "ring_repr r' (drop (unat n - k) (map (numbered sent) [k ..< length sent]))"
      using ring_acknowledge_repr [OF k(2), of n] k(1) l by auto
    moreover have "drop (unat n - k) (map (numbered sent) [k ..< length sent]) = map (numbered sent) [unat n ..< length sent]"
      using fits(2) by (simp add: drop_map)
    moreover have "unat n \<le> length sent" using fits(1) l by (simp add: word_le_nat_alt)
    ultimately show ?thesis using log by (auto simp: ring_log_def ring_frame_def)
  qed (use log ring_acknowledge_refused [OF k(2), of n] l k(1) in auto)
qed

lemma ring_log_first: "ring_log sent r \<Longrightarrow> ring_first_unacknowledged r = Some n \<Longrightarrow> unat n < length sent"
proof -
  assume log: "ring_log sent r" and f: "ring_first_unacknowledged r = Some n"
  then obtain k where k: "ring_repr r (map (numbered sent) [k ..< length sent])" "unat (rr_next r) = length sent"
    by (auto simp: ring_log_def)
  let ?fs = "map (numbered sent) [k ..< length sent]"
  have "?fs \<noteq> []" using f ring_first_unacknowledged_repr [OF k(1)] by (cases ?fs) auto
  then have "k < length sent" by simp
  with f ring_first_unacknowledged_repr [OF k(1)] have "n = of_nat k" by (simp add: upt_conv_Cons)
  with \<open>k < length sent\<close> k(2) unat_lt_64 [of "rr_next r"] unat_of_nat_64 [of k] show "unat n < length sent" by simp
qed

lemma ring_log_copy:
  assumes log: "ring_log sent r" and C: "ring_copy_sequence r n buf = Inr (buf', fc)"
  shows "unat n < length sent \<and> fc_kind fc = fst (sent ! unat n) \<and> fc_sequence fc = n \<and>
    fc_wire_len fc = length (record_bytes (numbered sent (unat n))) \<and> fc_wire_len fc \<le> length buf' \<and>
    take (fc_wire_len fc) buf' = record_bytes (numbered sent (unat n))"
proof -
  obtain k where k: "k \<le> length sent" "ring_repr r (map (numbered sent) [k ..< length sent])"
    using log by (auto simp: ring_log_def)
  let ?fs = "map (numbered sent) [k ..< length sent]"
  have l: "unat (rr_next r) = length sent" using log by (simp add: ring_log_def)
  obtain first where f: "ring_first_unacknowledged r = Some first" "\<not> n < first"
      "ring_copy_unacked r (unat (n - first)) buf = Inr (buf', fc)"
    using C by (auto simp: ring_copy_sequence_def split: if_splits)
  have "?fs \<noteq> []" using f(1) ring_first_unacknowledged_repr [OF k(2)] by (cases ?fs) auto
  then have kl: "k < length sent" by simp
  have "first = of_nat k" using f(1) ring_first_unacknowledged_repr [OF k(2)] kl by (simp add: upt_conv_Cons)
  moreover have "unat (of_nat k :: u64) = k" using kl l unat_lt_64 [of "rr_next r"] by (intro unat_of_nat_64) simp
  ultimately have n: "unat n = k + unat (n - first)"
    using f(2) by (metis add.commute le_add_diff_inverse2 not_less unat_sub word_le_nat_alt)
  have i: "unat (n - first) < length ?fs"
    using f(3) k(2) by (auto simp: ring_copy_unacked_def ring_repr_def Let_def split: if_splits)
  then have nth: "?fs ! unat (n - first) = numbered sent (unat n)" using n by simp
  have "unat n < length sent" using i n by simp
  moreover have "of_nat (unat n) = n" by simp
  ultimately show ?thesis
    using f(3) unfolding ring_copy_unacked_repr [OF k(2) i] nth
    by (auto split: if_splits simp: splice_at_def min_def)
qed

text \<open>The bytes of the records with the numbers \<open>ns\<close>, and a stream that carries increasing numbers, the
  last one perhaps not yet completely.\<close>

definition records_wire :: "(udp_kind \<times> bytes) list \<Rightarrow> nat list \<Rightarrow> bytes" where
  "records_wire sent ns = concat (map (\<lambda>i. record_bytes (numbered sent i)) ns)"

definition stream_log ::
  "(udp_kind \<times> bytes) list \<Rightarrow> u64 \<Rightarrow> pending_write option \<Rightarrow> bytes \<Rightarrow> bytes \<Rightarrow> nat list \<Rightarrow> bool" where
  "stream_log sent n pending buf wire ns \<longleftrightarrow>
     sorted_wrt (<) ns \<and> (\<forall>i \<in> set ns. i < length sent) \<and>
     (case pending of
        None \<Rightarrow> wire = records_wire sent ns \<and> (\<forall>i \<in> set ns. i < unat n)
      | Some p \<Rightarrow>
          (\<exists>ms. ns = ms @ [unat (pw_sequence p)] \<and> wire @ pending_offer p buf = records_wire sent ns) \<and>
          pw_kind p = fst (sent ! unat (pw_sequence p)) \<and> pw_written p < pw_wire_len p \<and> pw_wire_len p \<le> length buf)"

lemma records_wire_append:
  "(\<forall>i \<in> set ns. i < length sent) \<Longrightarrow> records_wire (sent @ later) ns = records_wire sent ns"
  by (induction ns) (auto simp: records_wire_def numbered_append)

lemma stream_log_append:
  "stream_log sent n pending buf wire ns \<Longrightarrow> stream_log (sent @ later) n pending buf wire ns"
  by (auto simp: stream_log_def records_wire_append nth_append split: option.splits)

lemma stream_log_start: "stream_log sent n None buf [] []"
  by (simp add: stream_log_def records_wire_def)

lemma stream_log_later: "stream_log sent n None buf wire ns \<Longrightarrow> n \<le> n' \<Longrightarrow> stream_log sent n' None buf wire ns"
  by (auto simp: stream_log_def word_le_nat_alt)

lemma stream_log_copy:
  assumes "stream_log sent n None buf0 wire ns" "ring_log sent r" "ring_copy_sequence r n buf0 = Inr (buf, fc)"
  shows "stream_log sent n (Some (pending_of fc)) buf wire (ns @ [unat n])"
proof -
  note C = ring_log_copy [OF assms(2,3)]
  moreover have "0 < length (record_bytes (numbered sent (unat n)))"
    using header_le_record [of "numbered sent (unat n)"] unfolding UDP_HEADER_LEN_def by linarith
  ultimately have "0 < fc_wire_len fc" by simp
  then show ?thesis
    using C assms(1) by (auto simp: stream_log_def pending_of_def pending_offer_def records_wire_def subslice_def
        sorted_wrt_append)
qed

lemma stream_log_write:
  assumes log: "stream_log sent n (Some p) buf wire ns"
  shows "(case advance_write p w of
      Wp_Partial p' \<Rightarrow> stream_log sent n (Some p') buf (wire @ written_bytes p buf w) ns
    | Wp_Complete \<Rightarrow> pw_sequence p \<noteq> - 1 \<longrightarrow>
        stream_log sent (pw_sequence p + 1) None buf (wire @ written_bytes p buf w) ns
    | _ \<Rightarrow> written_bytes p buf w = [] \<or> w = Write_Accepted 0)"
proof (cases w)
  case (Write_Accepted m)
  have len: "length (pending_offer p buf) = pw_wire_len p - pw_written p"
    using log by (auto simp: stream_log_def pending_offer_def subslice_def)
  have offer: "pending_offer p buf = take m (pending_offer p buf) @ pending_offer (p\<lparr>pw_written := pw_written p + m\<rparr>) buf"
    if "pw_written p + m < pw_wire_len p"
    using that subslice_append [of "pw_written p" "pw_written p + m" "pw_wire_len p" buf]
    by (simp add: pending_offer_def subslice_def min_def)
  show ?thesis
  proof (cases "pw_written p + m < pw_wire_len p")
    case True
    show ?thesis
    proof (cases "m = 0")
      case False
      have "wire @ pending_offer p buf
          = (wire @ written_bytes p buf w) @ pending_offer (p\<lparr>pw_written := pw_written p + m\<rparr>) buf"
        using offer [OF True] Write_Accepted by simp
      with log Write_Accepted True False show ?thesis by (simp add: stream_log_def Let_def)
    qed (simp add: Write_Accepted)
  next
    case False
    then have all: "written_bytes p buf w = pending_offer p buf" using len Write_Accepted by simp
    obtain ms where ms: "ns = ms @ [unat (pw_sequence p)]" "wire @ pending_offer p buf = records_wire sent ns"
      using log by (auto simp: stream_log_def)
    have "\<forall>i \<in> set ns. i < Suc (unat (pw_sequence p))"
      using log ms(1) by (auto simp: stream_log_def sorted_wrt_append less_Suc_eq)
    with log ms False Write_Accepted all unat_Suc_64 [of "pw_sequence p"] show ?thesis
      by (cases "m = 0") (simp_all add: stream_log_def Let_def)
  qed
qed auto

lemma stream_log_records:
  "stream_log sent n pending buf wire ns \<Longrightarrow>
   sorted_wrt (<) ns \<and> (\<forall>i \<in> set ns. i < length sent) \<and> (\<exists>rest. wire @ rest = records_wire sent ns)"
  by (cases pending) (auto simp: stream_log_def)

end
