(* ===== verification/Udp_Client_Link.thy ===== *)
theory Udp_Client_Link
  imports Udp_Client Udp_Link
begin

text \<open>
  The client's end of one everudp connection (\<open>crates/everudp/src/client_link.rs\<close>, \<open>ClientLink\<close>): it
  owns the association while the connection lives, copies records out of the association's rings
  and writes them piece by piece, and feeds received records to the association. What the
  transport answers (a write, a stream that opens, the reason of a close) is an argument.
\<close>

datatype client_link_error =
    Ck_Client client_error | Ck_Framing link_error | Ck_Protocol wire_error | Ck_Timeout
  | Ck_StreamOpen | Ck_StreamRead | Ck_StreamWrite | Ck_ServerHelloMissing
  | Ck_UnexpectedControl udp_kind | Ck_ControlBackpressure | Ck_WriterBusy
  | Ck_AssociationCapacity | Ck_AttachmentRetired | Ck_Sink io_error

definition is_transient :: "client_link_error \<Rightarrow> bool" where
  "is_transient e \<longleftrightarrow>
     e \<in> {Ck_Timeout, Ck_StreamOpen, Ck_StreamRead, Ck_StreamWrite} \<or>
     e \<in> {Ck_Framing Lk_StreamOpen, Ck_Framing Lk_StreamRead, Ck_Framing Lk_StreamWrite}"

datatype control_receipt =
    Rc_InputAck udp_ack | Rc_Gap epoch_gap bool | Rc_Duplicate u64 | Rc_Finished

datatype output_receipt =
    Ro_Delivered udp_kind u64 u64 | Ro_Duplicate u64 u64 | Ro_Finished

datatype stage_receipt =
    Rs_Staged udp_kind u64 | Rs_Duplicate u64 u64 | Rs_Finished

datatype inbound_receipt =
    In_Control control_receipt | In_OutputStreamOpened | In_Output stage_receipt | In_OutputPending

record client_link =
  cl_input_open :: bool
  cl_association :: client_association
  cl_limits :: udp_limits
  cl_control_reader :: record_reader
  cl_output_reader :: record_reader
  cl_control_buffer :: bytes
  cl_input_buffer :: bytes
  cl_next_input :: u64
  cl_input_finished :: bool
  cl_control_pending :: "pending_write option"
  cl_input_pending :: "pending_write option"

section \<open>Records for the association\<close>

definition apply_control_record ::
  "client_association \<Rightarrow> udp_record option \<Rightarrow> client_association \<times> (client_link_error + control_receipt)" where
  "apply_control_record c rec =
     (case rec of
        None \<Rightarrow> (c, Inr Rc_Finished)
      | Some r \<Rightarrow>
          let sequence = fh_sequence (ur_header r) in
          (case begin_server_control c sequence of
             (c1, Inl e) \<Rightarrow> (c1, Inl (Ck_Client e))
           | (c1, Inr Duplicate) \<Rightarrow> (c1, Inr (Rc_Duplicate sequence))
           | (c1, Inr Deliver) \<Rightarrow>
               (case (case fh_kind (ur_header r) of
                        UKind_AckInput \<Rightarrow>
                          (case ack_decode_exact UKind_AckInput (ur_payload r) of
                             Inl e \<Rightarrow> (c1, Inl (Ck_Protocol e))
                           | Inr a \<Rightarrow> (case accept_input_ack c1 a of
                               (c2, Inl e) \<Rightarrow> (c2, Inl (Ck_Client e)) | (c2, Inr _) \<Rightarrow> (c2, Inr (Rc_InputAck a))))
                      | UKind_Gap \<Rightarrow>
                          (case gap_decode_exact (ur_payload r) of
                             Inl e \<Rightarrow> (c1, Inl (Ck_Protocol e))
                           | Inr gap \<Rightarrow> (case client_apply_gap c1 gap of
                               (c2, Inl e) \<Rightarrow> (c2, Inl (Ck_Client e)) | (c2, Inr new) \<Rightarrow> (c2, Inr (Rc_Gap gap new))))
                      | kind \<Rightarrow>
                          (case abort_server_control c1 sequence of
                             (c2, Inl e) \<Rightarrow> (c2, Inl (Ck_Client e))
                           | (c2, Inr _) \<Rightarrow> (c2, Inl (Ck_UnexpectedControl kind)))) of
                  (c2, Inl e) \<Rightarrow> (c2, Inl e)
                | (c2, Inr receipt) \<Rightarrow>
                    (case commit_server_control c2 sequence of
                       (c3, Inl e) \<Rightarrow> (c3, Inl (Ck_Client e)) | (c3, Inr _) \<Rightarrow> (c3, Inr receipt)))))"

definition apply_server_hello_record ::
  "client_association \<Rightarrow> udp_record \<Rightarrow> bool \<Rightarrow> client_association \<times> (client_link_error + unit)" where
  "apply_server_hello_record c r initial =
     (let sequence = fh_sequence (ur_header r) in
      if fh_kind (ur_header r) \<noteq> UKind_ServerHello then (c, Inl Ck_ServerHelloMissing)
      else case begin_server_control c sequence of
        (c1, Inl e) \<Rightarrow> (c1, Inl (Ck_Client e))
      | (c1, Inr Duplicate) \<Rightarrow> (c1, Inl Ck_ServerHelloMissing)
      | (c1, Inr Deliver) \<Rightarrow>
          (case (case server_hello_decode_exact (ur_payload r) of
                   Inl e \<Rightarrow> (c1, Inl (Cl_Handshake e))
                 | Inr hello \<Rightarrow>
                     if initial then apply_initial_server_hello c1 hello else apply_server_hello c1 hello) of
             (c2, Inl e) \<Rightarrow>
               (case abort_server_control c2 sequence of
                  (c3, Inl e') \<Rightarrow> (c3, Inl (Ck_Client e')) | (c3, Inr _) \<Rightarrow> (c3, Inl (Ck_Client e)))
           | (c2, Inr _) \<Rightarrow>
               (case commit_server_control c2 sequence of
                  (c3, Inl e) \<Rightarrow> (c3, Inl (Ck_Client e)) | (c3, Inr _) \<Rightarrow> (c3, Inr ()))))"

definition stage_output_record ::
  "client_association \<Rightarrow> udp_record option \<Rightarrow> bool \<Rightarrow> client_association \<times> (client_link_error + stage_receipt)" where
  "stage_output_record c rec suppress_duplicate_ack =
     (case rec of
        None \<Rightarrow> (c, Inr Rs_Finished)
      | Some r \<Rightarrow>
          (case stage_output c (fh_kind (ur_header r)) (fh_sequence (ur_header r)) (ur_payload r) of
             (c1, Inl e) \<Rightarrow> (c1, Inl (Ck_Client e))
           | (c1, Inr (Staged kind sequence)) \<Rightarrow> (c1, Inr (Rs_Staged kind sequence))
           | (c1, Inr (StagedDuplicate sequence acknowledgement)) \<Rightarrow>
               if suppress_duplicate_ack then (c1, Inr (Rs_Duplicate sequence acknowledgement))
               else (case repeat_output_ack c1 acknowledgement of
                 (c2, Inl e) \<Rightarrow> (c2, Inl (Ck_Client e))
               | (c2, Inr _) \<Rightarrow> (c2, Inr (Rs_Duplicate sequence acknowledgement)))))"

section \<open>Opening a link\<close>

text \<open>\<open>prepare_inner\<close> and \<open>from_prepared\<close>. \<open>control\<close> is the control stream; \<open>Rx_Suspended\<close> means that the
  deadline of \<open>prepare_until\<close> passed first. \<open>rejection\<close> is what the close reason of the connection
  stands for, \<open>opened\<close> the outcome of opening the input stream.\<close>

definition client_open ::
  "(usize \<Rightarrow> bool) \<Rightarrow> client_association \<Rightarrow> udp_limits \<Rightarrow> bool \<Rightarrow> bool \<Rightarrow> recv_stream \<Rightarrow> client_link_error option \<Rightarrow>
   client_link_error + unit \<Rightarrow> client_association \<times> recv_stream \<times> (client_link_error + client_link)" where
  "client_open alloc c limits initial prioritised control rejection opened =
     (case udp_limits_validate limits of Inl v \<Rightarrow> (c, control, Inl (Ck_Protocol (We_Limits v))) | Inr _ \<Rightarrow>
      let c1 = start_link c in
      if \<not> prioritised then (c1, control, Inl Ck_StreamOpen)
      else case record_reader_new alloc Stream_Control limits of
        Inl e \<Rightarrow> (c1, control, Inl (Ck_Framing e))
      | Inr reader \<Rightarrow>
          (case reader_receive limits reader control of
             (_, control1, Rx_Suspended) \<Rightarrow> (c1, control1, Inl Ck_Timeout)
           | (_, control1, Rx_Finished) \<Rightarrow>
               (c1, control1, Inl (case rejection of Some e \<Rightarrow> e | None \<Rightarrow> Ck_ServerHelloMissing))
           | (_, control1, Rx_Failed e) \<Rightarrow>
               (c1, control1, Inl (case rejection of Some e' \<Rightarrow> e' | None \<Rightarrow> Ck_Framing e))
           | (reader1, control1, Rx_Record r) \<Rightarrow>
               (case apply_server_hello_record c1 r initial of
                  (c2, Inl e) \<Rightarrow> (c2, control1, Inl e)
                | (c2, Inr _) \<Rightarrow>
                    (c2, control1,
                     try_bind (if ca_role c2 = Connection_Writer then opened else Inr ()) (\<lambda>_.
                     try_bind (map_err Ck_Framing (record_reader_new alloc Stream_Output limits)) (\<lambda>output_reader.
                       let control_len = control_frame_max limits + UDP_HEADER_LEN;
                           input_len = terminal_frame_max limits + UDP_HEADER_LEN
                       in if \<not> alloc control_len \<or> \<not> alloc input_len then Inl (Ck_Client (Cl_Queue Q_Allocation))
                          else Inr
                            \<lparr>cl_input_open = (ca_role c2 = Connection_Writer), cl_association = c2, cl_limits = limits,
                             cl_control_reader = reader_consume reader1, cl_output_reader = output_reader,
                             cl_control_buffer = replicate control_len 0, cl_input_buffer = replicate input_len 0,
                             cl_next_input = (case ring_first_unacknowledged (ca_input c2) of
                                Some first \<Rightarrow> first | None \<Rightarrow> rr_next (ca_input c2)),
                             cl_input_finished = False, cl_control_pending = None, cl_input_pending = None\<rparr>))))))"

section \<open>Writing\<close>

text \<open>A step gives the link, the bytes the stream took, and the result of the poll.\<close>

definition client_poll_control ::
  "client_link \<Rightarrow> write_result \<Rightarrow> client_link \<times> bytes \<times> client_link_error poll_result" where
  "client_poll_control k w =
     (let prepared =
        (if cl_control_pending k \<noteq> None then (k, Inr True)
         else if rr_slot_count (ca_control (cl_association k)) = 0 then (k, Inr False)
         else case copy_control (cl_association k) (cl_control_buffer k) of
           Inl e \<Rightarrow> (k, Inl (Ck_Client e))
         | Inr (buf, fc) \<Rightarrow> (k\<lparr>cl_control_buffer := buf, cl_control_pending := Some (pending_of fc)\<rparr>, Inr True))
      in case prepared of
           (k1, Inl e) \<Rightarrow> (k1, [], Poll_Error e)
         | (k1, Inr False) \<Rightarrow> (k1, [], Poll_Step Step_Idle)
         | (k1, Inr True) \<Rightarrow>
             (case cl_control_pending k1 of None \<Rightarrow> (k1, [], Poll_Step Step_Idle) | Some p \<Rightarrow>
              let bs = written_bytes p (cl_control_buffer k1) w in
              (case advance_write p w of
                 Wp_Blocked \<Rightarrow> (k1, [], Poll_Pending)
               | Wp_Failed \<Rightarrow> (k1, [], Poll_Error Ck_StreamWrite)
               | Wp_Partial p' \<Rightarrow> (k1\<lparr>cl_control_pending := Some p'\<rparr>, bs, Poll_Step Step_Progress)
               | Wp_Complete \<Rightarrow>
                   (case checked_add (pw_sequence p) 1 of
                      None \<Rightarrow> (k1\<lparr>cl_control_pending := Some (p\<lparr>pw_written := pw_wire_len p\<rparr>)\<rparr>, bs,
                               Poll_Error (Ck_Client (Cl_Queue Q_SequenceOverflow)))
                    | Some n \<Rightarrow>
                        (case acknowledge_control_sent (cl_association k1) n of
                           (c, Inl e) \<Rightarrow> (k1\<lparr>cl_control_pending := None, cl_association := c\<rparr>, bs, Poll_Error (Ck_Client e))
                         | (c, Inr _) \<Rightarrow> (k1\<lparr>cl_control_pending := None, cl_association := c\<rparr>, bs, Poll_Step Step_Record))))))"

definition client_prepare_input :: "client_link \<Rightarrow> client_link \<times> (client_link_error + bool)" where
  "client_prepare_input k =
     (if cl_input_pending k \<noteq> None then (k, Inr True)
      else
        let k1 = (case ring_first_unacknowledged (ca_input (cl_association k)) of
                    Some first \<Rightarrow> k\<lparr>cl_next_input := max (cl_next_input k) first\<rparr> | None \<Rightarrow> k)
        in if cl_next_input k1 \<ge> rr_next (ca_input (cl_association k1)) then (k1, Inr False)
           else case copy_input (cl_association k1) (cl_next_input k1) (cl_input_buffer k1) of
             Inl e \<Rightarrow> (k1, Inl (Ck_Client e))
           | Inr (buf, fc) \<Rightarrow> (k1\<lparr>cl_input_buffer := buf, cl_input_pending := Some (pending_of fc)\<rparr>, Inr True))"

text \<open>\<open>finishes\<close> says whether finishing the stream after \<open>InputClose\<close> succeeds.\<close>

definition client_poll_input ::
  "client_link \<Rightarrow> write_result \<Rightarrow> bool \<Rightarrow> client_link \<times> bytes \<times> client_link_error poll_result" where
  "client_poll_input k w finishes =
     (if \<not> cl_input_open k \<or> cl_input_finished k then (k, [], Poll_Step Step_Idle)
      else case client_prepare_input k of
        (k1, Inl e) \<Rightarrow> (k1, [], Poll_Error e)
      | (k1, Inr False) \<Rightarrow> (k1, [], Poll_Step Step_Idle)
      | (k1, Inr True) \<Rightarrow>
          (case cl_input_pending k1 of None \<Rightarrow> (k1, [], Poll_Step Step_Idle) | Some p \<Rightarrow>
           let bs = written_bytes p (cl_input_buffer k1) w in
           (case advance_write p w of
              Wp_Blocked \<Rightarrow> (k1, [], Poll_Pending)
            | Wp_Failed \<Rightarrow> (k1, [], Poll_Error Ck_StreamWrite)
            | Wp_Partial p' \<Rightarrow> (k1\<lparr>cl_input_pending := Some p'\<rparr>, bs, Poll_Step Step_Progress)
            | Wp_Complete \<Rightarrow>
                let k2 = k1\<lparr>cl_input_pending := None\<rparr> in
                (case checked_add (pw_sequence p) 1 of
                   None \<Rightarrow> (k2, bs, Poll_Error (Ck_Client (Cl_Queue Q_SequenceOverflow)))
                 | Some n \<Rightarrow>
                     let k3 = k2\<lparr>cl_next_input := n\<rparr> in
                     if pw_kind p = UKind_InputClose then
                       (if \<not> finishes then (k3, bs, Poll_Error Ck_StreamWrite)
                        else (k3\<lparr>cl_input_finished := True\<rparr>, bs, Poll_Step Step_Record))
                     else (k3, bs, Poll_Step Step_Record)))))"

datatype 'e outbound_result = Ob_Pending | Ob_Error 'e | Ob_Ready bool

definition advanced :: "'e poll_result \<Rightarrow> bool" where
  "advanced p \<longleftrightarrow> p = Poll_Step Step_Progress \<or> p = Poll_Step Step_Record"

definition client_poll_outbound ::
  "client_link \<Rightarrow> write_result \<Rightarrow> write_result \<Rightarrow> bool \<Rightarrow>
   client_link \<times> bytes \<times> bytes \<times> client_link_error outbound_result" where
  "client_poll_outbound k wc wi finishes =
     (case client_poll_control k wc of
        (k1, control_bytes, Poll_Error e) \<Rightarrow> (k1, control_bytes, [], Ob_Error e)
      | (k1, control_bytes, control) \<Rightarrow>
          (case client_poll_input k1 wi finishes of (k2, input_bytes, input) \<Rightarrow>
             (k2, control_bytes, input_bytes,
              case input of
                Poll_Error e \<Rightarrow> Ob_Error e
              | _ \<Rightarrow>
                  if advanced input \<or> advanced control then Ob_Ready True
                  else if control = Poll_Step Step_Idle \<and> input = Poll_Step Step_Idle then Ob_Ready False
                  else Ob_Pending)))"

section \<open>Receiving\<close>

text \<open>Every receiving method is suspended, \<open>None\<close>, until its stream has a result.\<close>

definition client_receive_control ::
  "client_link \<Rightarrow> recv_stream \<Rightarrow> client_link \<times> recv_stream \<times> (client_link_error + control_receipt) option" where
  "client_receive_control k s =
     (case reader_receive (cl_limits k) (cl_control_reader k) s of
        (reader, s1, rx) \<Rightarrow>
          let k1 = k\<lparr>cl_control_reader := reader\<rparr> in
          (case rx of
             Rx_Suspended \<Rightarrow> (k1, s1, None)
           | Rx_Failed e \<Rightarrow> (k1, s1, Some (Inl (Ck_Framing e)))
           | Rx_Finished \<Rightarrow> (k1, s1, Some (Inr Rc_Finished))
           | Rx_Record r \<Rightarrow>
               (case apply_control_record (cl_association k1) (Some r) of
                  (c, Inl e) \<Rightarrow> (k1\<lparr>cl_association := c\<rparr>, s1, Some (Inl e))
                | (c, Inr receipt) \<Rightarrow>
                    (k1\<lparr>cl_association := c, cl_control_reader := reader_consume reader\<rparr>, s1, Some (Inr receipt)))))"

definition client_receive_output ::
  "('s \<Rightarrow> output_operation \<Rightarrow> 's \<times> (io_error + unit)) \<Rightarrow> client_link \<Rightarrow> recv_stream \<Rightarrow> 's \<Rightarrow>
   client_link \<times> recv_stream \<times> 's \<times> (client_link_error + output_receipt) option" where
  "client_receive_output sink k s st =
     (case reader_receive (cl_limits k) (cl_output_reader k) s of
        (reader, s1, rx) \<Rightarrow>
          let k1 = k\<lparr>cl_output_reader := reader\<rparr> in
          (case rx of
             Rx_Suspended \<Rightarrow> (k1, s1, st, None)
           | Rx_Failed e \<Rightarrow> (k1, s1, st, Some (Inl (Ck_Framing e)))
           | Rx_Finished \<Rightarrow> (k1, s1, st, Some (Inr Ro_Finished))
           | Rx_Record r \<Rightarrow>
               let kind = fh_kind (ur_header r); sequence = fh_sequence (ur_header r);
                   with_client = (\<lambda>c. k1\<lparr>cl_association := c\<rparr>);
                   consumed = (\<lambda>c. k1\<lparr>cl_association := c, cl_output_reader := reader_consume reader\<rparr>)
               in (case begin_output (cl_association k1) kind sequence (ur_payload r) of
                     (c1, Inl e) \<Rightarrow> (with_client c1, s1, st, Some (Inl (Ck_Client e)))
                   | (c1, Inr disposition) \<Rightarrow>
                       if \<not> can_queue_output_ack c1 then
                         (case disposition of
                            OutDuplicate _ \<Rightarrow> (with_client c1, s1, st, Some (Inl Ck_ControlBackpressure))
                          | OutDeliver _ \<Rightarrow>
                              (case abort_output c1 sequence of
                                 (c2, Inl e) \<Rightarrow> (with_client c2, s1, st, Some (Inl (Ck_Client e)))
                               | (c2, Inr _) \<Rightarrow> (with_client c2, s1, st, Some (Inl Ck_ControlBackpressure))))
                       else case disposition of
                         OutDuplicate acknowledgement \<Rightarrow>
                           (case repeat_output_ack c1 acknowledgement of
                              (c2, Inl e) \<Rightarrow> (with_client c2, s1, st, Some (Inl (Ck_Client e)))
                            | (c2, Inr _) \<Rightarrow> (consumed c2, s1, st, Some (Inr (Ro_Duplicate sequence acknowledgement))))
                       | OutDeliver operation \<Rightarrow>
                           (case sink st operation of
                              (st1, Inl e) \<Rightarrow>
                                (case abort_output c1 sequence of
                                   (c2, Inl e') \<Rightarrow> (with_client c2, s1, st1, Some (Inl (Ck_Client e')))
                                 | (c2, Inr _) \<Rightarrow> (with_client c2, s1, st1, Some (Inl (Ck_Sink e))))
                            | (st1, Inr _) \<Rightarrow>
                                (case commit_output c1 sequence of
                                   (c2, Inl e) \<Rightarrow> (with_client c2, s1, st1, Some (Inl (Ck_Client e)))
                                 | (c2, Inr a) \<Rightarrow>
                                     (consumed c2, s1, st1, Some (Inr (Ro_Delivered kind sequence (next_expected a)))))))))"

text \<open>\<open>next_inbound\<close>: the control stream is polled first, then the output stream, or its opening as long as
  it is not open. \<open>accepted\<close> is the outcome of accepting the stream, \<open>None\<close> while it is pending.\<close>

definition client_next_inbound ::
  "client_link \<Rightarrow> recv_stream \<Rightarrow> recv_stream option \<Rightarrow> recv_stream option option \<Rightarrow>
   client_link \<times> recv_stream \<times> recv_stream option \<times> (client_link_error + inbound_receipt) option" where
  "client_next_inbound k control output_stream accepted =
     (if ca_pending_output (cl_association k) \<noteq> None then (k, control, output_stream, Some (Inr In_OutputPending))
      else case client_receive_control k control of
        (k1, control1, Some (Inl e)) \<Rightarrow> (k1, control1, output_stream, Some (Inl e))
      | (k1, control1, Some (Inr receipt)) \<Rightarrow> (k1, control1, output_stream, Some (Inr (In_Control receipt)))
      | (k1, control1, None) \<Rightarrow>
          (case output_stream of
             None \<Rightarrow>
               (case accepted of
                  None \<Rightarrow> (k1, control1, None, None)
                | Some None \<Rightarrow> (k1, control1, None, Some (Inl Ck_StreamOpen))
                | Some (Some s) \<Rightarrow> (k1, control1, Some s, Some (Inr In_OutputStreamOpened)))
           | Some s \<Rightarrow>
               (case reader_receive (cl_limits k1) (cl_output_reader k1) s of
                  (reader, s1, rx) \<Rightarrow>
                    let k2 = k1\<lparr>cl_output_reader := reader\<rparr>;
                        staged = (\<lambda>rec.
                          case stage_output_record (cl_association k2) rec False of
                            (c, Inl e) \<Rightarrow> (k2\<lparr>cl_association := c\<rparr>, control1, Some s1, Some (Inl e))
                          | (c, Inr receipt) \<Rightarrow>
                              (k2\<lparr>cl_association := c, cl_output_reader := reader_consume reader\<rparr>, control1, Some s1,
                               Some (Inr (In_Output receipt))))
                    in (case rx of
                          Rx_Suspended \<Rightarrow> (k2, control1, Some s1, None)
                        | Rx_Failed e \<Rightarrow> (k2, control1, Some s1, Some (Inl (Ck_Framing e)))
                        | Rx_Finished \<Rightarrow> staged None
                        | Rx_Record r \<Rightarrow> staged (Some r)))))"

section \<open>The input ring under every operation\<close>

definition input_log :: "(udp_kind \<times> bytes) list \<Rightarrow> replay_ring \<Rightarrow> bool" where
  "input_log sent r \<longleftrightarrow> ring_log sent r \<and> rr_stream r = Stream_Input"

lemma input_log_ring: "input_log sent r \<Longrightarrow> ring_log sent r"
  by (simp add: input_log_def)

lemma input_log_new: "ring_with_capacities alloc Stream_Input b c = Inr r \<Longrightarrow> input_log [] r"
  using ring_log_new [of alloc Stream_Input b c r] ring_with_capacities_repr [of alloc Stream_Input b c r]
  by (auto simp: input_log_def ring_repr_def)

lemma input_log_push:
  "input_log sent r \<Longrightarrow> ring_push r kind payload = Inr (r', n) \<Longrightarrow> input_log (sent @ [(kind, payload)]) r'"
  using ring_log_push [of sent r kind payload r' n] by (simp add: input_log_def)

lemma input_log_acknowledge: "input_log sent r \<Longrightarrow> input_log sent (fst (ring_acknowledge r n))"
  using ring_log_acknowledge [of sent r n] by (simp add: input_log_def)

text \<open>Only the four requests push to the input ring; everything else leaves it or acknowledges it.\<close>

definition keeps_input :: "client_association \<Rightarrow> client_association \<Rightarrow> bool" where
  "keeps_input c c' \<longleftrightarrow> ca_role c' = ca_role c \<and>
     (\<forall>sent. input_log sent (ca_input c) \<longrightarrow> input_log sent (ca_input c'))"

definition same_input :: "client_association \<Rightarrow> client_association \<Rightarrow> bool" where
  "same_input c c' \<longleftrightarrow> ca_role c' = ca_role c \<and> ca_input c' = ca_input c"

lemma same_input_refl [simp]: "same_input c c"
  by (simp add: same_input_def)

lemma same_input_trans: "same_input c1 c2 \<Longrightarrow> same_input c2 c3 \<Longrightarrow> same_input c1 c3"
  by (simp add: same_input_def)

lemma same_keeps_input: "same_input c c' \<Longrightarrow> keeps_input c c'"
  by (simp add: same_input_def keeps_input_def)

lemma keeps_input_trans: "keeps_input c1 c2 \<Longrightarrow> keeps_input c2 c3 \<Longrightarrow> keeps_input c1 c3"
  by (simp add: keeps_input_def)

lemma same_input_control [simp]:
  "same_input c (fst (begin_server_control c n))" "same_input c (fst (commit_server_control c n))"
  "same_input c (fst (abort_server_control c n))" "same_input c (fst (acknowledge_control_sent c n))"
  "same_input c (fst (push_control c kind payload))" "same_input c (start_link c)"
  "same_input c (fst (queue_detach c))"
  by (auto simp: same_input_def begin_server_control_def commit_server_control_def abort_server_control_def
      acknowledge_control_sent_def push_control_def start_link_def queue_detach_def split: prod.split sum.split)

lemma same_input_output_ack [simp]:
  "same_input c (fst (queue_output_ack c n))" "same_input c (fst (repeat_output_ack c n))"
  using same_input_control(5) [of c UKind_AckOutput "ack_encode \<lparr>ack_epoch = dg_epoch (ca_output c), next_expected = n\<rparr>"]
  by (auto simp: queue_output_ack_def repeat_output_ack_def Let_def simp del: same_input_control split: prod.split sum.split)

lemma same_input_output [simp]:
  "same_input c (fst (begin_output c kind n payload))" "same_input c (fst (abort_output c n))"
  "same_input c (fst (advance_stdout c m))" "same_input c (fst (take_gap_notice c))"
  by (auto simp: same_input_def begin_output_def abort_output_def advance_stdout_def take_gap_notice_def Let_def
      split: prod.split sum.split delivery_decision.split option.split)

lemma same_input_commit [simp]: "same_input c (fst (commit_output c n))"
proof -
  obtain g res where "gate_commit (ca_output c) (dg_epoch (ca_output c)) n = (g, res)" by force
  then show ?thesis
    using same_input_output_ack(1) [of "c\<lparr>ca_output := g\<rparr>" "dg_next_expected g"]
    by (auto simp: commit_output_def same_input_def split: sum.split)
qed

lemma same_input_finish [simp]: "same_input c (fst (finish_staged_output c))"
proof (cases "ca_pending_output c")
  case (Some p)
  then show ?thesis using same_input_commit [of c "po_sequence p"]
    by (auto simp: finish_staged_output_def same_input_def simp del: same_input_commit split: prod.split sum.split)
qed (simp add: finish_staged_output_def)

lemma same_input_stage [simp]: "same_input c (fst (stage_output c kind n payload))"
proof -
  obtain c1 res where b: "begin_output c kind n payload = (c1, res)" by force
  have "same_input c c1" using same_input_output(1) [of c kind n payload] b by simp
  moreover have "same_input c1 (fst (abort_output c1 n))" by simp
  ultimately show ?thesis using b
    by (auto simp: stage_output_def same_input_def simp del: same_input_output
        split: sum.split output_disposition.split prod.split)
qed

lemma same_input_gap [simp]: "same_input c (fst (client_apply_gap c gap))"
  by (auto simp: client_apply_gap_def same_input_def Let_def split: option.split prod.split sum.split)

lemma same_input_results:
  "begin_server_control c n = (x, r1) \<Longrightarrow> same_input c x" "commit_server_control c n = (x, r2) \<Longrightarrow> same_input c x"
  "abort_server_control c n = (x, r2) \<Longrightarrow> same_input c x" "repeat_output_ack c n = (x, r3) \<Longrightarrow> same_input c x"
  "client_apply_gap c gap = (x, r4) \<Longrightarrow> same_input c x" "stage_output c kind n payload = (x, r5) \<Longrightarrow> same_input c x"
  by (metis fst_conv same_input_control same_input_output_ack same_input_gap same_input_stage)+

lemma same_input_stage_record [simp]: "same_input c (fst (stage_output_record c rec quiet))"
  by (auto simp: stage_output_record_def dest!: same_input_results
      split: option.split sum.split output_stage.split prod.split intro: same_input_trans)

lemma keeps_input_ack: "keeps_input c (fst (accept_input_ack c a))"
  using input_log_acknowledge [of _ "ca_input c" "next_expected a"]
  by (auto simp: keeps_input_def accept_input_ack_def split: prod.split)

lemma keeps_input_hello_inner: "keeps_input c (fst (apply_server_hello_inner c hello fresh))"
proof -
  obtain r res where ack: "ring_acknowledge (ca_input c) (sh_accepted_input_ack hello) = (r, res)" by force
  let ?c1 = "c\<lparr>ca_input := r\<rparr>"
  have k: "keeps_input c ?c1"
    using input_log_acknowledge [of _ "ca_input c" "sh_accepted_input_ack hello"] ack by (auto simp: keeps_input_def)
  have "same_input c (fst (apply_server_hello_inner c hello fresh)) \<or>
      same_input ?c1 (fst (apply_server_hello_inner c hello fresh))"
  proof (cases "server_hello_check c hello fresh")
    case (Inr u)
    with ack show ?thesis
      by (auto simp: apply_server_hello_inner_def Let_def dest!: same_input_results
          split: sum.split option.split prod.split) (auto simp: same_input_def)
  qed (simp add: apply_server_hello_inner_def)
  with k show ?thesis using same_keeps_input keeps_input_trans by blast
qed

lemma keeps_input_hello:
  "keeps_input c (fst (apply_server_hello c hello))" "keeps_input c (fst (apply_initial_server_hello c hello))"
  by (simp_all add: apply_server_hello_def apply_initial_server_hello_def keeps_input_hello_inner)

lemma keeps_input_results:
  "begin_server_control c n = (x, r1) \<Longrightarrow> keeps_input c x" "commit_server_control c n = (x, r2) \<Longrightarrow> keeps_input c x"
  "abort_server_control c n = (x, r2) \<Longrightarrow> keeps_input c x" "client_apply_gap c gap = (x, r4) \<Longrightarrow> keeps_input c x"
  "accept_input_ack c a = (x, r2) \<Longrightarrow> keeps_input c x" "apply_server_hello c hello = (x, r2) \<Longrightarrow> keeps_input c x"
  "apply_initial_server_hello c hello = (x, r2) \<Longrightarrow> keeps_input c x"
  by (metis same_input_results same_keeps_input fst_conv keeps_input_ack keeps_input_hello)+

lemma keeps_input_chain:
  "keeps_input c1 c2 \<Longrightarrow> keeps_input c2 c3 \<Longrightarrow> keeps_input c3 c4 \<Longrightarrow> keeps_input c1 c4"
  by (simp add: keeps_input_def)

lemma keeps_input_refl [simp]: "keeps_input c c"
  by (simp add: keeps_input_def)

lemma keeps_input_control_record: "keeps_input c (fst (apply_control_record c rec))"
proof (cases rec)
  case (Some r)
  show ?thesis
  proof (cases "fh_kind (ur_header r) = UKind_AckInput \<or> fh_kind (ur_header r) = UKind_Gap")
    case True
    then show ?thesis unfolding Some
      by (elim disjE)
        (auto simp: apply_control_record_def Let_def dest!: keeps_input_results
          split: sum.split delivery_decision.split prod.split elim: keeps_input_trans keeps_input_chain)
  next
    case False
    then have "apply_control_record c (Some r) = (case begin_server_control c (fh_sequence (ur_header r)) of
        (c1, Inl e) \<Rightarrow> (c1, Inl (Ck_Client e))
      | (c1, Inr Duplicate) \<Rightarrow> (c1, Inr (Rc_Duplicate (fh_sequence (ur_header r))))
      | (c1, Inr Deliver) \<Rightarrow> (case abort_server_control c1 (fh_sequence (ur_header r)) of
                           (c2, Inl e) \<Rightarrow> (c2, Inl (Ck_Client e))
                         | (c2, Inr _) \<Rightarrow> (c2, Inl (Ck_UnexpectedControl (fh_kind (ur_header r))))))"
      by (cases "fh_kind (ur_header r)")
        (simp_all add: apply_control_record_def Let_def split: prod.split sum.split delivery_decision.split)
    then show ?thesis unfolding Some
      by (auto dest!: keeps_input_results split: sum.split delivery_decision.split prod.split elim: keeps_input_trans)
  qed
qed (simp add: apply_control_record_def)

lemma keeps_input_hello_record: "keeps_input c (fst (apply_server_hello_record c r initial))"
proof -
  obtain c1 res where b: "begin_server_control c (fh_sequence (ur_header r)) = (c1, res)" by force
  show ?thesis
  proof (cases "server_hello_decode_exact (ur_payload r)")
    case (Inl e)
    with b show ?thesis
      by (auto simp: apply_server_hello_record_def Let_def dest!: keeps_input_results
        split: sum.split delivery_decision.split prod.split elim: keeps_input_trans)
  next
    case (Inr hello)
    obtain c2 res2 where h: "(if initial then apply_initial_server_hello c1 hello else apply_server_hello c1 hello) = (c2, res2)"
      by force
    then have "keeps_input c1 c2" by (auto dest: keeps_input_results split: if_splits)
    with b h Inr show ?thesis
      by (auto simp: apply_server_hello_record_def Let_def dest!: keeps_input_results
        split: sum.split delivery_decision.split prod.split elim: keeps_input_trans keeps_input_chain)
  qed
qed

section \<open>What the input stream carries\<close>

text \<open>The client is offline with its association, or online with a link that owns it.\<close>

datatype client_phase = Offline client_association | Online client_link

fun phase_association :: "client_phase \<Rightarrow> client_association" where
  "phase_association (Offline c) = c"
| "phase_association (Online k) = cl_association k"

fun phase_with :: "client_phase \<Rightarrow> client_association \<Rightarrow> client_phase" where
  "phase_with (Offline _) c = Offline c"
| "phase_with (Online k) c = Online (k\<lparr>cl_association := c\<rparr>)"

text \<open>An event is a call of the link or of the association. \<open>Lv_Open\<close> brings the control stream of a new
  connection and what opening it gives; \<open>Lv_Inbound\<close> brings what has arrived.\<close>

datatype link_event =
    Lv_Open bool bool recv_stream "client_link_error option" "client_link_error + unit"
  | Lv_Close
  | Lv_Outbound write_result write_result bool
  | Lv_Inbound recv_stream "recv_stream option" "recv_stream option option"
  | Lv_Call client_event

text \<open>The operations an event adds to the input stream.\<close>

fun accepted_input :: "client_association \<Rightarrow> client_event \<Rightarrow> (udp_kind \<times> bytes) list" where
  "accepted_input c (Cv_Input bs) = (if isl (snd (queue_input c bs)) then [] else [(UKind_Input, bs)])"
| "accepted_input c (Cv_Resize rs) = (if isl (snd (queue_resize c rs)) then [] else [(UKind_Resize, resize_encode rs)])"
| "accepted_input c (Cv_Signal s) = (if isl (snd (queue_signal c s)) then [] else [(UKind_Signal, [s])])"
| "accepted_input c Cv_InputClose = (if isl (snd (queue_input_close c)) then [] else [(UKind_InputClose, [])])"
| "accepted_input c _ = []"

text \<open>The state: the phase, the operations accepted so far, and the bytes the input stream of the
  current connection has taken.\<close>

type_synonym link_state = "client_phase \<times> (udp_kind \<times> bytes) list \<times> bytes"

fun link_event_step ::
  "(usize \<Rightarrow> bool) \<Rightarrow> output_content \<Rightarrow> udp_limits \<Rightarrow> link_state \<Rightarrow> link_event \<Rightarrow> link_state \<times> unit list" where
  "link_event_step alloc content limits (ph, sent, wire) (Lv_Open initial prioritised control rejection opened) =
     (case client_open alloc (phase_association ph) limits initial prioritised control rejection opened of
        (c, _, Inl _) \<Rightarrow> ((Offline c, sent, []), [])
      | (_, _, Inr k) \<Rightarrow> ((Online k, sent, []), []))"
| "link_event_step alloc content limits (ph, sent, wire) Lv_Close = ((Offline (phase_association ph), sent, []), [])"
| "link_event_step alloc content limits (Offline c, sent, wire) (Lv_Outbound wc wi finishes) = ((Offline c, sent, wire), [])"
| "link_event_step alloc content limits (Online k, sent, wire) (Lv_Outbound wc wi finishes) =
     (case client_poll_outbound k wc wi finishes of (k', _, bs, _) \<Rightarrow> ((Online k', sent, wire @ bs), []))"
| "link_event_step alloc content limits (Offline c, sent, wire) (Lv_Inbound cs os acc) = ((Offline c, sent, wire), [])"
| "link_event_step alloc content limits (Online k, sent, wire) (Lv_Inbound cs os acc) =
     ((Online (fst (client_next_inbound k cs os acc)), sent, wire), [])"
| "link_event_step alloc content limits (ph, sent, wire) (Lv_Call e) =
     ((phase_with ph (client_call content (phase_association ph) e),
       sent @ accepted_input (phase_association ph) e, wire), [])"

definition link_ok :: "link_state \<Rightarrow> bool" where
  "link_ok s \<longleftrightarrow> (case s of (ph, sent, wire) \<Rightarrow>
     input_log sent (ca_input (phase_association ph)) \<and>
     (case ph of
        Offline _ \<Rightarrow> wire = []
      | Online k \<Rightarrow> \<exists>ns. stream_log sent (cl_next_input k) (cl_input_pending k) (cl_input_buffer k) wire ns))"

lemma ring_log_call:
  assumes "input_log sent (ca_input c)"
  shows "input_log (sent @ accepted_input c e) (ca_input (client_call content c e))"
proof -
  have push: "input_log (sent @ (if isl (snd (push_input d kind payload)) then [] else [(kind, payload)]))
      (ca_input (fst (push_input d kind payload)))" if "ca_input d = ca_input c" for d kind payload
    using assms input_log_push [OF assms] that by (auto simp: push_input_def split: sum.split)
  have keep: "input_log sent (ca_input c')" if "keeps_input c c'" for c'
    using assms that by (simp add: keeps_input_def)
  have same: "input_log sent (ca_input c')" if "same_input c c'" for c'
    using keep same_keeps_input that by blast
  show ?thesis
  proof (cases e)
    case (Cv_Input bs)
    then show ?thesis using push [of c UKind_Input bs] assms by (auto simp: queue_input_def split: sum.split)
  next
    case (Cv_Resize rs)
    then show ?thesis using push [of c UKind_Resize "resize_encode rs"] assms
      by (auto simp: queue_resize_def split: sum.split)
  next
    case (Cv_Signal s)
    then show ?thesis using push [of c UKind_Signal "[s]"] assms by (auto simp: queue_signal_def split: sum.split)
  next
    case Cv_InputClose
    then show ?thesis using push [of c UKind_InputClose "[]"] assms
      by (auto simp: queue_input_close_def split: sum.split prod.split)
  qed (use same keep keeps_input_ack keeps_input_hello in \<open>auto split: prod.split sum.split\<close>)
qed

lemma client_open_keeps:
  assumes "client_open alloc c limits initial prioritised control rejection opened = (c', s', res)"
  shows "keeps_input c c' \<and> (\<forall>k. res = Inr k \<longrightarrow> cl_association k = c' \<and> cl_input_pending k = None)"
proof -
  have start: "keeps_input c (start_link c)"
    using same_input_control(6) [of c] by (rule same_keeps_input)
  have hello: "keeps_input c c2" if "apply_server_hello_record (start_link c) r initial = (c2, res2)" for r c2 res2
    using keeps_input_trans [OF start] keeps_input_hello_record [of "start_link c" r initial] that by simp
  from assms start show ?thesis
    by (auto simp: client_open_def Let_def dest!: hello split: sum.splits prod.splits receive_result.splits if_splits)
qed

lemma client_poll_control_keeps:
  assumes "client_poll_control k w = (k', bs, res)"
  shows "ca_input (cl_association k') = ca_input (cl_association k) \<and> cl_next_input k' = cl_next_input k \<and>
     cl_input_pending k' = cl_input_pending k \<and> cl_input_buffer k' = cl_input_buffer k"
proof -
  have sent: "ca_input c' = ca_input c" if "acknowledge_control_sent c n = (c', r)" for c n c' r
    using same_input_control(4) [of c n] that by (simp add: same_input_def)
  from assms show ?thesis
    by (auto simp: client_poll_control_def Let_def dest!: sent
        split: sum.splits prod.splits write_progress.splits option.splits if_splits)
qed

definition stream_ok :: "(udp_kind \<times> bytes) list \<Rightarrow> bytes \<Rightarrow> nat list \<Rightarrow> client_link \<Rightarrow> bool" where
  "stream_ok sent wire ns k \<longleftrightarrow> input_log sent (ca_input (cl_association k)) \<and>
     stream_log sent (cl_next_input k) (cl_input_pending k) (cl_input_buffer k) wire ns"

lemma client_prepare_input_ok:
  assumes ok: "stream_ok sent wire ns k" and P: "client_prepare_input k = (k', res)"
  shows "\<exists>xs. stream_ok sent wire (ns @ xs) k'"
proof (cases "cl_input_pending k")
  case (Some p)
  with P ok show ?thesis by (intro exI [of _ "[]"]) (simp add: client_prepare_input_def)
next
  case None
  have ns: "stream_log sent (cl_next_input k) None (cl_input_buffer k) wire ns"
      and log: "input_log sent (ca_input (cl_association k))"
    using ok None by (auto simp: stream_ok_def)
  define n where "n = (case ring_first_unacknowledged (ca_input (cl_association k)) of
      Some first \<Rightarrow> max (cl_next_input k) first | None \<Rightarrow> cl_next_input k)"
  define k1 where "k1 = k\<lparr>cl_next_input := n\<rparr>"
  have n: "cl_next_input k \<le> n" by (auto simp: n_def split: option.split)
  then have ns1: "stream_log sent n None (cl_input_buffer k) wire ns" using stream_log_later [OF ns] by simp
  have k1: "(case ring_first_unacknowledged (ca_input (cl_association k)) of
      Some first \<Rightarrow> k\<lparr>cl_next_input := max (cl_next_input k) first\<rparr> | None \<Rightarrow> k) = k1"
    by (simp add: k1_def n_def split: option.split)
  have k1_ok: "stream_ok sent wire ns k1" using ns1 log None by (auto simp: stream_ok_def k1_def)
  show ?thesis
  proof (cases "snd (client_prepare_input k) = Inr True")
    case True
    then obtain buf fc where C: "ring_copy_sequence (ca_input (cl_association k)) n (cl_input_buffer k) = Inr (buf, fc)"
        "k' = k1\<lparr>cl_input_buffer := buf, cl_input_pending := Some (pending_of fc)\<rparr>"
      using P None unfolding client_prepare_input_def k1 Let_def
      by (auto simp: copy_input_def k1_def split: sum.splits if_splits)
    from stream_log_copy [OF ns1 input_log_ring [OF log] C(1)] C(2) log have "stream_ok sent wire (ns @ [unat n]) k'"
      by (simp add: stream_ok_def k1_def)
    then show ?thesis by blast
  next
    case False
    then have "k' = k1" using P None unfolding client_prepare_input_def k1 Let_def
      by (auto split: sum.splits if_splits)
    with k1_ok show ?thesis by (intro exI [of _ "[]"]) simp
  qed
qed

lemma client_poll_input_ok:
  assumes ok: "stream_ok sent wire ns k" and P: "client_poll_input k w finishes = (k', bs, res)"
  shows "\<exists>xs. stream_ok sent (wire @ bs) (ns @ xs) k'"
proof (cases "\<not> cl_input_open k \<or> cl_input_finished k")
  case True
  with ok P show ?thesis by (intro exI [of _ "[]"]) (auto simp: client_poll_input_def)
next
  case False
  obtain k1 res1 where p1: "client_prepare_input k = (k1, res1)" by force
  obtain xs where ok1: "stream_ok sent wire (ns @ xs) k1" using client_prepare_input_ok [OF ok p1] by blast
  have "stream_ok sent (wire @ bs) (ns @ xs) k'"
  proof (cases "res1 = Inr True \<and> cl_input_pending k1 \<noteq> None")
    case F: False
    with P p1 False ok1 show ?thesis
      by (auto simp: client_poll_input_def split: sum.splits bool.splits option.splits)
  next
    case T: True
    then obtain p where p: "cl_input_pending k1 = Some p" by blast
    have ns: "stream_log sent (cl_next_input k1) (Some p) (cl_input_buffer k1) wire (ns @ xs)"
        and log: "input_log sent (ca_input (cl_association k1))"
      using ok1 p by (simp_all add: stream_ok_def)
    have seq: "pw_sequence p \<noteq> - 1"
    proof -
      obtain ms where "ns @ xs = ms @ [unat (pw_sequence p)]" "\<forall>i \<in> set (ns @ xs). i < length sent"
        using ns unfolding stream_log_def option.case by blast
      then have "unat (pw_sequence p) < length sent" by simp
      also have "\<dots> = unat (rr_next (ca_input (cl_association k1)))" using log by (simp add: input_log_def ring_log_def)
      finally show ?thesis
        unfolding unat_max_iff_64 using unat_lt_64 [of "rr_next (ca_input (cl_association k1))"] by simp
    qed
    then have nx: "checked_add (pw_sequence p) 1 = Some (pw_sequence p + 1)"
      using unat_Suc_64 by (simp add: checked_add_eq_Some_iff)
    note W = stream_log_write [OF ns, of w]
    show ?thesis
    proof (cases "advance_write p w")
      case (Wp_Partial p')
      with P p1 False T p W log show ?thesis by (auto simp: client_poll_input_def stream_ok_def)
    next
      case Wp_Complete
      with W seq have "stream_log sent (pw_sequence p + 1) None (cl_input_buffer k1)
          (wire @ written_bytes p (cl_input_buffer k1) w) (ns @ xs)" by simp
      with P p1 False T p log nx Wp_Complete show ?thesis
        by (auto simp: client_poll_input_def stream_ok_def Let_def split: if_splits)
    qed (use P p1 False T p ok1 in \<open>auto simp: client_poll_input_def\<close>)
  qed
  then show ?thesis by blast
qed

lemma client_poll_outbound_ok:
  assumes ok: "stream_ok sent wire ns k" and P: "client_poll_outbound k wc wi finishes = (k', cbs, bs, res)"
  shows "\<exists>xs. stream_ok sent (wire @ bs) (ns @ xs) k'"
proof -
  obtain k1 b1 r1 where c: "client_poll_control k wc = (k1, b1, r1)" by (metis prod_cases3)
  have ok1: "stream_ok sent wire ns k1"
    using ok client_poll_control_keeps [OF c] by (simp add: stream_ok_def)
  obtain k2 b2 r2 where i: "client_poll_input k1 wi finishes = (k2, b2, r2)" by (metis prod_cases3)
  show ?thesis
  proof (cases r1)
    case (Poll_Error e)
    with ok1 P c show ?thesis by (intro exI [of _ "[]"]) (auto simp: client_poll_outbound_def)
  qed (use client_poll_input_ok [OF ok1 i] P c i in \<open>auto simp: client_poll_outbound_def\<close>)
qed

lemma client_receive_control_keeps:
  assumes "client_receive_control k s = (k', s', res)"
  shows "keeps_input (cl_association k) (cl_association k') \<and> cl_next_input k' = cl_next_input k \<and>
     cl_input_pending k' = cl_input_pending k \<and> cl_input_buffer k' = cl_input_buffer k"
proof -
  have rec: "keeps_input c c'" if "apply_control_record c r = (c', x)" for c r c' x
    using keeps_input_control_record [of c r] that by simp
  from assms show ?thesis
    by (auto simp: client_receive_control_def Let_def dest!: rec split: prod.splits receive_result.splits sum.splits)
qed

lemma client_next_inbound_keeps:
  assumes "client_next_inbound k cs os acc = (k', rest)"
  shows "keeps_input (cl_association k) (cl_association k') \<and> cl_next_input k' = cl_next_input k \<and>
     cl_input_pending k' = cl_input_pending k \<and> cl_input_buffer k' = cl_input_buffer k"
proof -
  obtain k1 cs1 res where r: "client_receive_control k cs = (k1, cs1, res)" by (metis prod_cases3)
  note K = client_receive_control_keeps [OF r]
  have stage: "keeps_input c c'" if "stage_output_record c rec b = (c', x)" for c rec b c' x
    using same_input_stage_record [of c rec b] that same_keeps_input by simp
  show ?thesis
  proof (cases "ca_pending_output (cl_association k) = None \<and> res = None \<and> os \<noteq> None")
    case False
    with assms r K show ?thesis
      by (auto simp: client_next_inbound_def split: if_splits option.splits sum.splits)
  next
    case True
    then obtain s where s: "os = Some s" by blast
    obtain reader s1 rx where rd: "reader_receive (cl_limits k1) (cl_output_reader k1) s = (reader, s1, rx)"
      by (metis prod_cases3)
    from assms True r s rd K show ?thesis
      by (cases rx) (auto simp: client_next_inbound_def Let_def dest!: stage intro: keeps_input_trans
          split: prod.splits sum.splits)
  qed
qed

interpretation client_streams: event_machine "link_event_step alloc content limits" link_ok for alloc content limits
proof
  fix s e assume ok: "link_ok s"
  obtain ph sent wire where s: "s = (ph, sent, wire)" by (metis prod_cases3)
  have log: "input_log sent (ca_input (phase_association ph))" using ok s by (simp add: link_ok_def)
  show "link_ok (fst (link_event_step alloc content limits s e))"
  proof (cases e)
    case (Lv_Open initial prioritised control rejection opened)
    obtain c' s' res where o: "client_open alloc (phase_association ph) limits initial prioritised control rejection opened
        = (c', s', res)" by (metis prod_cases3)
    from client_open_keeps [OF o] log have "input_log sent (ca_input c')" by (simp add: keeps_input_def)
    with client_open_keeps [OF o] o Lv_Open s stream_log_start show ?thesis
      by (auto simp: link_ok_def split: sum.split)
  next
    case Lv_Close
    with log s show ?thesis by (simp add: link_ok_def)
  next
    case (Lv_Outbound wc wi finishes)
    show ?thesis
    proof (cases ph)
      case (Online k)
      then obtain ns where "stream_ok sent wire ns k" using ok s by (auto simp: link_ok_def stream_ok_def)
      moreover obtain k' cbs bs res where "client_poll_outbound k wc wi finishes = (k', cbs, bs, res)"
        by (metis prod_cases4)
      ultimately show ?thesis using client_poll_outbound_ok [of sent wire ns k wc wi finishes k' cbs bs res] s Online Lv_Outbound
        by (auto simp: link_ok_def stream_ok_def)
    qed (use ok s Lv_Outbound in simp)
  next
    case (Lv_Inbound cs os acc)
    show ?thesis
    proof (cases ph)
      case (Online k)
      obtain k' rest where "client_next_inbound k cs os acc = (k', rest)" by (metis surj_pair)
      from client_next_inbound_keeps [OF this] this ok s Online Lv_Inbound show ?thesis
        by (auto simp: link_ok_def keeps_input_def)
    qed (use ok s Lv_Inbound in simp)
  next
    case (Lv_Call ev)
    from ring_log_call [OF log, of ev content] ok s Lv_Call show ?thesis
      by (cases ph) (auto simp: link_ok_def dest: stream_log_append)
  qed
qed

section \<open>Properties\<close>

text \<open>C13: what a client writes. Over every history of connections, partial writes, acknowledgements
  and requests, the bytes the input stream of the current connection has taken are a prefix of
  the encodings of accepted requests, whole, unaltered and in the order of acceptance, without
  repetition; each is a record of the input stream with the number of the request.\<close>

theorem input_stream_is_records:
  "case client_new alloc i g role limits of
     Inl e \<Rightarrow> True
   | Inr c0 \<Rightarrow>
       (case fst (run_events (link_event_step alloc content limits) (Offline c0, [], []) events) of (ph, sent, wire) \<Rightarrow>
          \<exists>ns rest. sorted_wrt (<) ns \<and> set ns \<subseteq> {..< length sent} \<and>
            wire @ rest = concat (map (\<lambda>n. record_bytes (ring_record (of_nat n) (sent ! n))) ns))"
proof (cases "client_new alloc i g role limits")
  case (Inr c0)
  then obtain input where "ring_new alloc Stream_Input limits = Inr input" "ca_input c0 = input"
    by (auto simp: client_new_def split: sum.splits if_splits)
  then have "link_ok (Offline c0, [], [])"
    by (auto simp: link_ok_def ring_new_def split: sum.splits intro: input_log_new)
  from client_streams.run_inv [OF this, of alloc content limits events]
  have ok: "link_ok (fst (run_events (link_event_step alloc content limits) (Offline c0, [], []) events))" .
  obtain ph sent wire where r: "fst (run_events (link_event_step alloc content limits) (Offline c0, [], []) events)
      = (ph, sent, wire)" by (metis prod_cases3)
  have "\<exists>ns rest. sorted_wrt (<) ns \<and> set ns \<subseteq> {..< length sent} \<and> wire @ rest = records_wire sent ns"
  proof (cases ph)
    case (Offline c)
    then have "wire = []" using ok r by (simp add: link_ok_def)
    then show ?thesis by (intro exI [of _ "[]"]) (simp add: records_wire_def)
  next
    case (Online k)
    then obtain ns where "stream_log sent (cl_next_input k) (cl_input_pending k) (cl_input_buffer k) wire ns"
      using ok r by (auto simp: link_ok_def)
    from stream_log_records [OF this] show ?thesis by blast
  qed
  with Inr r show ?thesis by (simp add: records_wire_def numbered_def)
qed simp

end
