(* ===== verification/Udp_Gateway_Link.thy ===== *)
theory Udp_Gateway_Link
  imports Udp_Link
begin

text \<open>
  The gateway's end of one everudp connection (\<open>crates/everudp/src/actor.rs\<close>, \<open>GatewayLink\<close>): staged
  from an admitted connection, prepared until the server hello is out, then receiving input and
  control records and writing the control and output rings of the peer. The replay slabs and the
  life cycle are shared by all links and passed in and out. What the transport answers is an
  argument; \<open>sink\<close> is the function that hands an input operation to the PTY.
\<close>

datatype input_receipt = Ri_Delivered udp_kind u64 u64 | Ri_Duplicate u64 u64 | Ri_Finished

datatype gateway_control_receipt = Rg_OutputAck udp_ack control_disposition | Rg_Finished

datatype link_inbound =
    Li_InputStreamOpened | Li_Input udp_kind u64 usize | Li_Control udp_kind u64 usize
  | Li_InputFinished | Li_ControlFinished

datatype prepared_input = PreparedInput input_operation udp_kind u64

datatype inbound_apply = Ap_None | Ap_Detach | Ap_Receipt input_receipt | Ap_Deliver prepared_input

record gateway_link =
  gk_input_stream :: "recv_stream option"
  gk_input_finished :: bool
  gk_output_open :: bool
  gk_association :: gateway_association
  gk_limits :: udp_limits
  gk_control_reader :: record_reader
  gk_input_reader :: record_reader
  gk_control_buffer :: bytes
  gk_output_buffer :: bytes
  gk_input_event :: bytes
  gk_control_event :: bytes
  gk_control_pending :: "pending_write option"
  gk_output_pending :: "pending_write option"
  gk_next_output :: u64
  gk_output_epoch :: u64
  gk_output_reset :: bool

section \<open>Opening\<close>

text \<open>\<open>prioritised\<close>: setting the priority of the control stream succeeds.\<close>

definition open_uncommitted ::
  "(usize \<Rightarrow> bool) \<Rightarrow> bool \<Rightarrow> gateway_association \<Rightarrow> slabs \<Rightarrow> udp_limits \<Rightarrow> link_error + gateway_link" where
  "open_uncommitted alloc prioritised a g limits =
     try_bind (record_reader_new alloc Stream_Control limits) (\<lambda>control_reader.
     try_bind (record_reader_new alloc Stream_Input limits) (\<lambda>input_reader.
       let control_len = control_frame_max limits; input_len = terminal_frame_max limits in
       if \<not> (alloc (control_len + UDP_HEADER_LEN) \<and> alloc (input_len + UDP_HEADER_LEN) \<and> alloc input_len \<and> alloc control_len)
       then Inl (Lk_Association (As_Queue Q_Allocation))
       else try_bind (map_err (Lk_Association \<circ> As_Queue) (output_for g (ga_association_id a))) (\<lambda>o1.
         if \<not> prioritised then Inl Lk_StreamOpen
         else Inr
           \<lparr>gk_input_stream = None, gk_input_finished = False, gk_output_open = False, gk_association = a,
            gk_limits = limits, gk_control_reader = control_reader, gk_input_reader = input_reader,
            gk_control_buffer = replicate (control_len + UDP_HEADER_LEN) 0,
            gk_output_buffer = replicate (input_len + UDP_HEADER_LEN) 0,
            gk_input_event = replicate input_len 0, gk_control_event = replicate control_len 0,
            gk_control_pending = None, gk_output_pending = None,
            gk_next_output = (case ring_first_unacknowledged (or_ring o1) of Some n \<Rightarrow> n | None \<Rightarrow> rr_next (or_ring o1)),
            gk_output_epoch = or_epoch o1, gk_output_reset = False\<rparr>)))"

definition stage_initial ::
  "(usize \<Rightarrow> bool) \<Rightarrow> bool \<Rightarrow> admitted_connection \<Rightarrow> gateway_lifecycle \<Rightarrow> slabs \<Rightarrow> udp_limits \<Rightarrow>
   gateway_lifecycle \<times> slabs \<times> (link_error + gateway_link \<times> gateway_action)" where
  "stage_initial alloc prioritised admitted l g limits =
     (case udp_limits_validate limits of
        Inl v \<Rightarrow> (l, g, Inl (Lk_Protocol (We_Limits v)))
      | Inr _ \<Rightarrow>
          (case establish admitted l g of
             (l1, g1, Inl e) \<Rightarrow> (l1, g1, Inl (Lk_Association e))
           | (l1, g1, Inr (a, action)) \<Rightarrow>
               (case open_uncommitted alloc prioritised a g1 limits of
                  Inr k \<Rightarrow> (l1, g1, Inr (k, action))
                | Inl e \<Rightarrow>
                    (case rollback_initial a l1 g1 of
                       (l2, g2, Inl e') \<Rightarrow> (l2, g2, Inl (Lk_Association e'))
                     | (l2, g2, Inr _) \<Rightarrow> (l2, g2, Inl e)))))"

text \<open>A failed resume keeps the association.\<close>

definition stage_resume ::
  "(usize \<Rightarrow> bool) \<Rightarrow> bool \<Rightarrow> admitted_connection \<Rightarrow> gateway_association \<Rightarrow> gateway_lifecycle \<Rightarrow> slabs \<Rightarrow>
   udp_limits \<Rightarrow> gateway_lifecycle \<times> slabs \<times> (link_error \<times> gateway_association + gateway_link \<times> gateway_action)" where
  "stage_resume alloc prioritised admitted a l g limits =
     (case udp_limits_validate limits of
        Inl v \<Rightarrow> (l, g, Inl (Lk_Protocol (We_Limits v), a))
      | Inr _ \<Rightarrow>
          (case resume a admitted l g of
             (a1, l1, g1, Inl e) \<Rightarrow> (l1, g1, Inl (Lk_Association e, a1))
           | (a1, l1, g1, Inr action) \<Rightarrow>
               (case open_uncommitted alloc prioritised a1 g1 limits of
                  Inl e \<Rightarrow> (l1, g1, Inl (e, a1))
                | Inr k \<Rightarrow> (l1, g1, Inr (k, action)))))"

definition output_resume_required :: "gateway_link \<Rightarrow> slabs \<Rightarrow> link_error + bool" where
  "output_resume_required k g =
     (if ga_role (gk_association k) = Connection_Observer then Inr False
      else try_bind (map_err (Lk_Association \<circ> As_Queue) (output_for g (ga_association_id (gk_association k)))) (\<lambda>o1.
        Inr (or_mode o1 = DiscardingUntilResume \<or> or_epoch o1 \<noteq> gk_output_epoch k)))"

section \<open>Writing\<close>

definition gateway_poll_control ::
  "gateway_link \<Rightarrow> slabs \<Rightarrow> write_result \<Rightarrow> gateway_link \<times> slabs \<times> bytes \<times> link_error poll_result" where
  "gateway_poll_control k g w =
     (let i = ga_association_id (gk_association k);
          prepared =
            (if gk_control_pending k \<noteq> None then (k, Inr True)
             else case control_for g i of
               Inl e \<Rightarrow> (k, Inl (Lk_Association (As_Queue e)))
             | Inr control \<Rightarrow>
                 if rr_slot_count control = 0 then (k, Inr False)
                 else case ring_copy_unacked control 0 (gk_control_buffer k) of
                   Inl e \<Rightarrow> (k, Inl (Lk_Association (As_Queue e)))
                 | Inr (buf, fc) \<Rightarrow> (k\<lparr>gk_control_buffer := buf, gk_control_pending := Some (pending_of fc)\<rparr>, Inr True))
      in case prepared of
           (k1, Inl e) \<Rightarrow> (k1, g, [], Poll_Error e)
         | (k1, Inr False) \<Rightarrow> (k1, g, [], Poll_Step Step_Idle)
         | (k1, Inr True) \<Rightarrow>
             (case gk_control_pending k1 of None \<Rightarrow> (k1, g, [], Poll_Step Step_Idle) | Some p \<Rightarrow>
              let bs = written_bytes p (gk_control_buffer k1) w in
              (case advance_write p w of
                 Wp_Blocked \<Rightarrow> (k1, g, [], Poll_Pending)
               | Wp_Failed \<Rightarrow> (k1, g, [], Poll_Error Lk_StreamWrite)
               | Wp_Partial p' \<Rightarrow> (k1\<lparr>gk_control_pending := Some p'\<rparr>, g, bs, Poll_Step Step_Progress)
               | Wp_Complete \<Rightarrow>
                   (case checked_add (pw_sequence p) 1 of
                      None \<Rightarrow> (k1\<lparr>gk_control_pending := Some (p\<lparr>pw_written := pw_wire_len p\<rparr>)\<rparr>, g, bs,
                               Poll_Error (Lk_Association (As_Queue Q_SequenceOverflow)))
                    | Some n \<Rightarrow>
                        (case acknowledge_sent_control (gk_association k1) n g of
                           (g1, Inl e) \<Rightarrow> (k1\<lparr>gk_control_pending := None\<rparr>, g1, bs, Poll_Error (Lk_Association e))
                         | (g1, Inr _) \<Rightarrow> (k1\<lparr>gk_control_pending := None\<rparr>, g1, bs, Poll_Step Step_Record))))))"

text \<open>The second component is the bytes taken, the third whether the stream is reset.\<close>

definition gateway_poll_output ::
  "gateway_link \<Rightarrow> slabs \<Rightarrow> write_result \<Rightarrow> gateway_link \<times> bytes \<times> link_error poll_result" where
  "gateway_poll_output k g w =
     (if \<not> gk_output_open k then (k, [], Poll_Error Lk_StreamOpen)
      else case output_for g (ga_association_id (gk_association k)) of
        Inl e \<Rightarrow> (k, [], Poll_Error (Lk_Association (As_Queue e)))
      | Inr o1 \<Rightarrow>
          if or_mode o1 = DiscardingUntilResume \<or> or_epoch o1 \<noteq> gk_output_epoch k then
            (k\<lparr>gk_output_pending := None, gk_output_reset := True\<rparr>, [], Poll_Step (Step_Discarding (\<not> gk_output_reset k)))
          else
            let first = (case ring_first_unacknowledged (or_ring o1) of Some n \<Rightarrow> n | None \<Rightarrow> rr_next (or_ring o1));
                k1 = k\<lparr>gk_next_output := max (gk_next_output k) first\<rparr>;
                prepared =
                  (if gk_output_pending k1 \<noteq> None then (k1, Inr True)
                   else if gk_next_output k1 \<ge> rr_next (or_ring o1) then (k1, Inr False)
                   else case ring_copy_sequence (or_ring o1) (gk_next_output k1) (gk_output_buffer k1) of
                     Inl e \<Rightarrow> (k1, Inl (Lk_Association (As_Queue e)))
                   | Inr (buf, fc) \<Rightarrow> (k1\<lparr>gk_output_buffer := buf, gk_output_pending := Some (pending_of fc)\<rparr>, Inr True))
            in (case prepared of
                  (k2, Inl e) \<Rightarrow> (k2, [], Poll_Error e)
                | (k2, Inr False) \<Rightarrow> (k2, [], Poll_Step Step_Idle)
                | (k2, Inr True) \<Rightarrow>
                    (case gk_output_pending k2 of None \<Rightarrow> (k2, [], Poll_Step Step_Idle) | Some p \<Rightarrow>
                     let bs = written_bytes p (gk_output_buffer k2) w in
                     (case advance_write p w of
                        Wp_Blocked \<Rightarrow> (k2, [], Poll_Pending)
                      | Wp_Failed \<Rightarrow> (k2, [], Poll_Error Lk_StreamWrite)
                      | Wp_Partial p' \<Rightarrow> (k2\<lparr>gk_output_pending := Some p'\<rparr>, bs, Poll_Step Step_Progress)
                      | Wp_Complete \<Rightarrow>
                          (case checked_add (pw_sequence p) 1 of
                             None \<Rightarrow> (k2\<lparr>gk_output_pending := Some (p\<lparr>pw_written := pw_wire_len p\<rparr>)\<rparr>, bs,
                                      Poll_Error (Lk_Association (As_Queue Q_SequenceOverflow)))
                           | Some n \<Rightarrow> (k2\<lparr>gk_next_output := n, gk_output_pending := None\<rparr>, bs, Poll_Step Step_Record))))))"

datatype gateway_outbound = Go_Pending | Go_Error link_error | Go_Ready bool

definition gateway_poll_outbound ::
  "gateway_link \<Rightarrow> slabs \<Rightarrow> write_result \<Rightarrow> write_result \<Rightarrow>
   gateway_link \<times> slabs \<times> bytes \<times> bytes \<times> gateway_outbound" where
  "gateway_poll_outbound k g wc wo =
     (case gateway_poll_control k g wc of
        (k1, g1, control_bytes, Poll_Error e) \<Rightarrow> (k1, g1, control_bytes, [], Go_Error e)
      | (k1, g1, control_bytes, control) \<Rightarrow>
          (case gateway_poll_output k1 g1 wo of (k2, output_bytes, out) \<Rightarrow>
             let progress = (control = Poll_Step Step_Progress \<or> control = Poll_Step Step_Record) in
             (k2, g1, control_bytes, output_bytes,
              case out of
                Poll_Error e \<Rightarrow> Go_Error e
              | Poll_Step Step_Progress \<Rightarrow> Go_Ready True
              | Poll_Step Step_Record \<Rightarrow> Go_Ready True
              | Poll_Step (Step_Discarding reset) \<Rightarrow> Go_Ready (reset \<or> progress)
              | _ \<Rightarrow>
                  if progress then Go_Ready True
                  else if control = Poll_Step Step_Idle \<and> out = Poll_Step Step_Idle then Go_Ready False
                  else Go_Pending)))"

section \<open>Preparing\<close>

datatype open_result = Op_Pending | Op_Failed | Op_Opened

text \<open>\<open>expired\<close>: the preparation deadline has passed; \<open>closed\<close>: the connection has a close reason;
  \<open>opened\<close>: what polling the opening of the output stream gives, priority included.\<close>

definition poll_output_open :: "gateway_link \<Rightarrow> bool \<Rightarrow> open_result \<Rightarrow> gateway_link \<times> (link_error + unit) option" where
  "poll_output_open k expired opened =
     (if gk_output_open k then (k, Some (Inr ()))
      else if expired then (k, Some (Inl Lk_StreamOpen))
      else case opened of
        Op_Pending \<Rightarrow> (k, None)
      | Op_Failed \<Rightarrow> (k, Some (Inl Lk_StreamOpen))
      | Op_Opened \<Rightarrow> (k\<lparr>gk_output_open := True\<rparr>, Some (Inr ())))"

fun poll_hello ::
  "gateway_link \<Rightarrow> slabs \<Rightarrow> write_result list \<Rightarrow> gateway_link \<times> slabs \<times> bytes \<times> (link_error + unit) option" where
  "poll_hello k g [] = (k, g, [], None)"
| "poll_hello k g (w # ws) =
     (case gateway_poll_control k g w of
        (k1, g1, bs, Poll_Pending) \<Rightarrow> (k1, g1, bs, None)
      | (k1, g1, bs, Poll_Error e) \<Rightarrow> (k1, g1, bs, Some (Inl e))
      | (k1, g1, bs, Poll_Step Step_Idle) \<Rightarrow> (k1, g1, bs, Some (Inr ()))
      | (k1, g1, bs, Poll_Step _) \<Rightarrow>
          (case poll_hello k1 g1 ws of (k2, g2, bs2, res) \<Rightarrow> (k2, g2, bs @ bs2, res)))"

definition poll_prepared ::
  "gateway_link \<Rightarrow> slabs \<Rightarrow> bool \<Rightarrow> bool \<Rightarrow> open_result \<Rightarrow> write_result \<Rightarrow> write_result \<Rightarrow>
   gateway_link \<times> slabs \<times> bytes \<times> (link_error + unit) option" where
  "poll_prepared k g closed expired opened w1 w2 =
     (if closed \<or> expired then (k, g, [], Some (Inl Lk_StreamOpen))
      else case poll_output_open k expired opened of
        (k1, None) \<Rightarrow> (k1, g, [], None)
      | (k1, Some (Inl e)) \<Rightarrow> (k1, g, [], Some (Inl e))
      | (k1, Some (Inr _)) \<Rightarrow>
          (case output_resume_required k1 g of
             Inl e \<Rightarrow> (k1, g, [], Some (Inl e))
           | Inr True \<Rightarrow> (k1, g, [], Some (Inl Lk_OutputResumeRequired))
           | Inr False \<Rightarrow> poll_hello k1 g [w1, w2]))"

text \<open>A preparation that fails, is refused or is aborted gives up the association's reservations.\<close>

definition abort_prepared_initial ::
  "gateway_link \<Rightarrow> gateway_lifecycle \<Rightarrow> slabs \<Rightarrow> gateway_lifecycle \<times> slabs \<times> (link_error + unit)" where
  "abort_prepared_initial k l g =
     (case rollback_initial (gk_association k) l g of (l1, g1, res) \<Rightarrow> (l1, g1, map_err Lk_Association res))"

section \<open>Receiving\<close>

datatype copy_result = Cp_Record udp_kind u64 usize | Cp_Finished | Cp_Failed link_error | Cp_Suspended

definition reader_receive_copy ::
  "udp_limits \<Rightarrow> record_reader \<Rightarrow> recv_stream \<Rightarrow> bytes \<Rightarrow> record_reader \<times> recv_stream \<times> bytes \<times> copy_result" where
  "reader_receive_copy limits r s buf =
     (case reader_receive limits r s of
        (r1, s1, Rx_Suspended) \<Rightarrow> (r1, s1, buf, Cp_Suspended)
      | (r1, s1, Rx_Failed e) \<Rightarrow> (r1, s1, buf, Cp_Failed e)
      | (r1, s1, Rx_Finished) \<Rightarrow> (r1, s1, buf, Cp_Finished)
      | (r1, s1, Rx_Record rec) \<Rightarrow>
          let len = length (ur_payload rec) in
          if len > length buf then (r1, s1, buf, Cp_Failed (Lk_Protocol (We_OutputTooSmall len (length buf))))
          else (reader_consume r1, s1, splice_at 0 (ur_payload rec) buf,
                Cp_Record (fh_kind (ur_header rec)) (fh_sequence (ur_header rec)) len))"

definition gateway_inbound_control ::
  "gateway_link \<Rightarrow> recv_stream \<Rightarrow> gateway_link \<times> recv_stream \<times> (link_error + link_inbound) option" where
  "gateway_inbound_control k s =
     (case reader_receive_copy (gk_limits k) (gk_control_reader k) s (gk_control_event k) of
        (r, s1, buf, res) \<Rightarrow>
          (k\<lparr>gk_control_reader := r, gk_control_event := buf\<rparr>, s1,
           case res of
             Cp_Suspended \<Rightarrow> None
           | Cp_Failed e \<Rightarrow> Some (Inl e)
           | Cp_Finished \<Rightarrow> Some (Inr Li_ControlFinished)
           | Cp_Record kind sequence len \<Rightarrow> Some (Inr (Li_Control kind sequence len))))"

text \<open>The other branch of the selection: the input stream, or its arrival while there is none. An
  observer must not open one.\<close>

definition gateway_inbound_input ::
  "gateway_link \<Rightarrow> (link_error + recv_stream) option \<Rightarrow> gateway_link \<times> (link_error + link_inbound) option" where
  "gateway_inbound_input k incoming =
     (if ga_role (gk_association k) = Connection_Observer then
        (k, case incoming of
              None \<Rightarrow> None | Some (Inl _) \<Rightarrow> Some (Inl Lk_StreamOpen) | Some (Inr _) \<Rightarrow> Some (Inl Lk_ObserverInputStream))
      else case gk_input_stream k of
        None \<Rightarrow>
          (case incoming of
             None \<Rightarrow> (k, None)
           | Some (Inl _) \<Rightarrow> (k, Some (Inl Lk_StreamOpen))
           | Some (Inr s) \<Rightarrow> (k\<lparr>gk_input_stream := Some s\<rparr>, Some (Inr Li_InputStreamOpened)))
      | Some s \<Rightarrow>
          (case reader_receive_copy (gk_limits k) (gk_input_reader k) s (gk_input_event k) of
             (r, s1, buf, res) \<Rightarrow>
               let k1 = k\<lparr>gk_input_reader := r, gk_input_stream := Some s1, gk_input_event := buf\<rparr> in
               (case res of
                  Cp_Suspended \<Rightarrow> (k1, None)
                | Cp_Failed e \<Rightarrow> (k1, Some (Inl e))
                | Cp_Record kind sequence len \<Rightarrow> (k1, Some (Inr (Li_Input kind sequence len)))
                | Cp_Finished \<Rightarrow>
                    if ga_input_closed (gk_association k1)
                    then (k1\<lparr>gk_input_finished := True\<rparr>, Some (Inr Li_InputFinished))
                    else (k1, Some (Inl Lk_InputCloseMissing)))))"

text \<open>\<open>control_first\<close> is the choice of the unbiased selection.\<close>

definition gateway_next_inbound ::
  "gateway_link \<Rightarrow> bool \<Rightarrow> bool \<Rightarrow> recv_stream \<Rightarrow> (link_error + recv_stream) option \<Rightarrow>
   gateway_link \<times> recv_stream \<times> (link_error + link_inbound) option" where
  "gateway_next_inbound k allow_input control_first control incoming =
     (if ga_role (gk_association k) = Connection_Writer \<and> (gk_input_finished k \<or> \<not> allow_input)
      then gateway_inbound_control k control
      else if control_first then
        (case gateway_inbound_control k control of
           (k1, s1, Some res) \<Rightarrow> (k1, s1, Some res)
         | (k1, s1, None) \<Rightarrow> (case gateway_inbound_input k1 incoming of (k2, res) \<Rightarrow> (k2, s1, res)))
      else
        (case gateway_inbound_input k incoming of
           (k1, Some res) \<Rightarrow> (k1, control, Some res)
         | (k1, None) \<Rightarrow> gateway_inbound_control k1 control))"

section \<open>Applying\<close>

definition with_association :: "gateway_link \<Rightarrow> gateway_association \<Rightarrow> gateway_link" where
  "with_association k a = k\<lparr>gk_association := a\<rparr>"

text \<open>The part of an input record that \<open>prepare_inbound\<close> and \<open>receive_input\<close> have in common: begin, and
  give up again when the acknowledgement would not fit or the input was closed.\<close>

definition prepare_input ::
  "gateway_association \<Rightarrow> slabs \<Rightarrow> udp_kind \<Rightarrow> u64 \<Rightarrow> bytes \<Rightarrow>
   gateway_association \<times> slabs \<times> (link_error + prepared_input + input_receipt)" where
  "prepare_input a g kind sequence payload =
     (let abort = (\<lambda>a1 e. case abort_input a1 sequence of
            (a2, Inl e') \<Rightarrow> (a2, g, Inl (Lk_Association e')) | (a2, Inr _) \<Rightarrow> (a2, g, Inl e))
      in case begin_input a kind sequence payload of
        (a1, Inl e) \<Rightarrow> (a1, g, Inl (Lk_Association e))
      | (a1, Inr disposition) \<Rightarrow>
          if \<not> can_queue_input_ack a1 g then
            (case disposition of
               InDeliver _ \<Rightarrow> abort a1 Lk_ControlBackpressure
             | InDuplicate _ \<Rightarrow> (a1, g, Inl Lk_ControlBackpressure))
          else case disposition of
            InDeliver operation \<Rightarrow>
              if ga_input_closed a1 then abort a1 Lk_InputAfterClose
              else (a1, g, Inr (Inl (PreparedInput operation kind sequence)))
          | InDuplicate acknowledgement \<Rightarrow>
              (case repeat_input_ack a1 acknowledgement g of
                 (g1, Inl e) \<Rightarrow> (a1, g1, Inl (Lk_Association e))
               | (g1, Inr _) \<Rightarrow> (a1, g1, Inr (Inr (Ri_Duplicate sequence acknowledgement)))))"

definition prepare_inbound ::
  "gateway_link \<Rightarrow> link_inbound \<Rightarrow> slabs \<Rightarrow> gateway_link \<times> slabs \<times> (link_error + inbound_apply)" where
  "prepare_inbound k event g =
     (let a = gk_association k in
      case event of
        Li_InputStreamOpened \<Rightarrow> (k, g, Inr Ap_None)
      | Li_ControlFinished \<Rightarrow> (k, g, Inr Ap_None)
      | Li_InputFinished \<Rightarrow>
          (k, g, if ga_input_closed a then Inr (Ap_Receipt Ri_Finished) else Inl Lk_InputCloseMissing)
      | Li_Control kind sequence len \<Rightarrow>
          (case kind of
             UKind_AckOutput \<Rightarrow>
               (case ack_decode_exact UKind_AckOutput (take len (gk_control_event k)) of
                  Inl e \<Rightarrow> (k, g, Inl (Lk_Protocol e))
                | Inr ack \<Rightarrow>
                    (case accept_output_ack a sequence ack g of
                       (a1, g1, Inl e) \<Rightarrow> (with_association k a1, g1, Inl (Lk_Association e))
                     | (a1, g1, Inr _) \<Rightarrow> (with_association k a1, g1, Inr Ap_None)))
           | UKind_Detach \<Rightarrow>
               (case accept_detach a sequence of
                  (a1, Inl e) \<Rightarrow> (with_association k a1, g, Inl (Lk_Association e))
                | (a1, Inr Ctl_Applied) \<Rightarrow> (with_association k a1, g, Inr Ap_Detach)
                | (a1, Inr Ctl_Duplicate) \<Rightarrow> (with_association k a1, g, Inr Ap_None))
           | _ \<Rightarrow> (k, g, Inl (Lk_Protocol (We_KindNotAllowed kind Stream_Control))))
      | Li_Input kind sequence len \<Rightarrow>
          (case prepare_input a g kind sequence (take len (gk_input_event k)) of
             (a1, g1, Inl e) \<Rightarrow> (with_association k a1, g1, Inl e)
           | (a1, g1, Inr (Inl prepared)) \<Rightarrow> (with_association k a1, g1, Inr (Ap_Deliver prepared))
           | (a1, g1, Inr (Inr receipt)) \<Rightarrow> (with_association k a1, g1, Inr (Ap_Receipt receipt))))"

definition commit_to ::
  "udp_kind \<Rightarrow> u64 \<Rightarrow> gateway_association \<Rightarrow> slabs \<Rightarrow> gateway_association \<times> slabs \<times> (link_error + input_receipt)" where
  "commit_to kind sequence a g =
     (case commit_input a sequence g of
        (a1, g1, Inl e) \<Rightarrow> (a1, g1, Inl (Lk_Association e))
      | (a1, g1, Inr ack) \<Rightarrow>
          (if kind = UKind_InputClose then mark_input_closed a1 else a1, g1,
           Inr (Ri_Delivered kind sequence (next_expected ack))))"

definition commit_prepared_input ::
  "gateway_link \<Rightarrow> udp_kind \<Rightarrow> u64 \<Rightarrow> slabs \<Rightarrow> gateway_link \<times> slabs \<times> (link_error + input_receipt)" where
  "commit_prepared_input k kind sequence g =
     (case commit_to kind sequence (gk_association k) g of (a, g1, res) \<Rightarrow> (with_association k a, g1, res))"

definition abort_prepared_input :: "gateway_link \<Rightarrow> u64 \<Rightarrow> gateway_link \<times> (link_error + unit)" where
  "abort_prepared_input k sequence =
     (case abort_input (gk_association k) sequence of (a, res) \<Rightarrow> (with_association k a, map_err Lk_Association res))"

type_synonym 's input_sink = "'s \<Rightarrow> input_operation \<Rightarrow> 's \<times> (io_error + unit)"

definition apply_inbound ::
  "'s input_sink \<Rightarrow> gateway_link \<Rightarrow> link_inbound \<Rightarrow> slabs \<Rightarrow> 's \<Rightarrow>
   gateway_link \<times> slabs \<times> 's \<times> (link_error + input_receipt option)" where
  "apply_inbound sink k event g st =
     (case prepare_inbound k event g of
        (k1, g1, Inl e) \<Rightarrow> (k1, g1, st, Inl e)
      | (k1, g1, Inr Ap_None) \<Rightarrow> (k1, g1, st, Inr None)
      | (k1, g1, Inr Ap_Detach) \<Rightarrow> (k1, g1, st, Inr None)
      | (k1, g1, Inr (Ap_Receipt receipt)) \<Rightarrow> (k1, g1, st, Inr (Some receipt))
      | (k1, g1, Inr (Ap_Deliver (PreparedInput operation kind sequence))) \<Rightarrow>
          (case sink st operation of
             (st1, Inl e) \<Rightarrow>
               (case abort_prepared_input k1 sequence of
                  (k2, Inl e') \<Rightarrow> (k2, g1, st1, Inl e')
                | (k2, Inr _) \<Rightarrow> (k2, g1, st1, Inl (Lk_Sink e)))
           | (st1, Inr _) \<Rightarrow>
               (case commit_prepared_input k1 kind sequence g1 of
                  (k2, g2, Inl e) \<Rightarrow> (k2, g2, st1, Inl e)
                | (k2, g2, Inr receipt) \<Rightarrow> (k2, g2, st1, Inr (Some receipt)))))"

definition gateway_receive_input ::
  "'s input_sink \<Rightarrow> gateway_link \<Rightarrow> slabs \<Rightarrow> link_error + recv_stream \<Rightarrow> 's \<Rightarrow>
   gateway_link \<times> slabs \<times> 's \<times> (link_error + input_receipt) option" where
  "gateway_receive_input sink k g incoming st =
     (if ga_role (gk_association k) \<noteq> Connection_Writer then (k, g, st, Some (Inl Lk_ObserverInputStream))
      else case (case gk_input_stream k of Some s \<Rightarrow> Inr s | None \<Rightarrow> incoming) of
        Inl e \<Rightarrow> (k, g, st, Some (Inl e))
      | Inr s \<Rightarrow>
          (case reader_receive (gk_limits k) (gk_input_reader k) s of
             (r, s1, rx) \<Rightarrow>
               let k1 = k\<lparr>gk_input_reader := r, gk_input_stream := Some s1\<rparr>; a = gk_association k1 in
               (case rx of
                  Rx_Suspended \<Rightarrow> (k1, g, st, None)
                | Rx_Failed e \<Rightarrow> (k1, g, st, Some (Inl e))
                | Rx_Finished \<Rightarrow>
                    (k1, g, st, Some (if ga_input_closed a then Inr Ri_Finished else Inl Lk_InputCloseMissing))
                | Rx_Record rec \<Rightarrow>
                    let kind = fh_kind (ur_header rec); sequence = fh_sequence (ur_header rec);
                        consumed = (\<lambda>a1. (with_association k1 a1)\<lparr>gk_input_reader := reader_consume r\<rparr>)
                    in (case prepare_input a g kind sequence (ur_payload rec) of
                          (a1, g1, Inl e) \<Rightarrow> (with_association k1 a1, g1, st, Some (Inl e))
                        | (a1, g1, Inr (Inr receipt)) \<Rightarrow> (consumed a1, g1, st, Some (Inr receipt))
                        | (a1, g1, Inr (Inl (PreparedInput operation _ _))) \<Rightarrow>
                            (case sink st operation of
                               (st1, Inl e) \<Rightarrow>
                                 (case abort_input a1 sequence of
                                    (a2, Inl e') \<Rightarrow> (with_association k1 a2, g1, st1, Some (Inl (Lk_Association e')))
                                  | (a2, Inr _) \<Rightarrow> (with_association k1 a2, g1, st1, Some (Inl (Lk_Sink e))))
                             | (st1, Inr _) \<Rightarrow>
                                 (case commit_to kind sequence a1 g1 of
                                    (a2, g2, Inl e) \<Rightarrow> (with_association k1 a2, g2, st1, Some (Inl e))
                                  | (a2, g2, Inr receipt) \<Rightarrow> (consumed a2, g2, st1, Some (Inr receipt))))))))"

definition gateway_receive_control ::
  "gateway_link \<Rightarrow> slabs \<Rightarrow> recv_stream \<Rightarrow> gateway_link \<times> slabs \<times> recv_stream \<times> (link_error + gateway_control_receipt) option" where
  "gateway_receive_control k g s =
     (case reader_receive (gk_limits k) (gk_control_reader k) s of
        (r, s1, rx) \<Rightarrow>
          let k1 = k\<lparr>gk_control_reader := r\<rparr> in
          (case rx of
             Rx_Suspended \<Rightarrow> (k1, g, s1, None)
           | Rx_Failed e \<Rightarrow> (k1, g, s1, Some (Inl e))
           | Rx_Finished \<Rightarrow> (k1, g, s1, Some (Inr Rg_Finished))
           | Rx_Record rec \<Rightarrow>
               if fh_kind (ur_header rec) \<noteq> UKind_AckOutput
               then (k1, g, s1, Some (Inl (Lk_Protocol (We_KindNotAllowed (fh_kind (ur_header rec)) Stream_Control))))
               else case ack_decode_exact UKind_AckOutput (ur_payload rec) of
                 Inl e \<Rightarrow> (k1, g, s1, Some (Inl (Lk_Protocol e)))
               | Inr ack \<Rightarrow>
                   (case accept_output_ack (gk_association k1) (fh_sequence (ur_header rec)) ack g of
                      (a1, g1, Inl e) \<Rightarrow> (with_association k1 a1, g1, s1, Some (Inl (Lk_Association e)))
                    | (a1, g1, Inr disposition) \<Rightarrow>
                        ((with_association k1 a1)\<lparr>gk_control_reader := reader_consume r\<rparr>, g1, s1,
                         Some (Inr (Rg_OutputAck ack disposition))))))"

section \<open>What one input record does\<close>

lemma with_own_association [simp]: "with_association k (gk_association k) = k"
  by (simp add: with_association_def)

lemma with_association_fields [simp]:
  "gk_association (with_association k a) = a" "gk_limits (with_association k a) = gk_limits k"
  "gk_input_event (with_association k a) = gk_input_event k"
  "with_association (with_association k a) b = with_association k b"
  by (simp_all add: with_association_def)

lemma input_begun_fields [simp]:
  "ga_input_closed (input_begun a) = ga_input_closed a" "ga_association_id (input_begun a) = ga_association_id a"
  "ga_role (input_begun a) = ga_role a"
  by (simp_all add: input_begun_def)

lemma prepare_input_results:
  assumes "dg_pending (ga_input_delivery a) = None"
  obtains (Refused) e where "prepare_input a g kind sequence payload = (a, g, Inl e)"
  | (Repeated) g1 res where "prepare_input a g kind sequence payload = (a, g1, res)"
      "sequence < dg_next_expected (ga_input_delivery a)"
      "(\<exists>e. res = Inl e) \<or> res = Inr (Inr (Ri_Duplicate sequence (dg_next_expected (ga_input_delivery a))))"
  | (Prepared) operation where
      "prepare_input a g kind sequence payload = (input_begun a, g, Inr (Inl (PreparedInput operation kind sequence)))"
      "decode_input_operation kind payload = Inr operation" "ga_role a = Connection_Writer"
      "sequence = dg_next_expected (ga_input_delivery a)"
      "can_queue_input_ack (input_begun a) g" "\<not> ga_input_closed a"
  using assms
proof (cases rule: begin_input_results [where kind = kind and sequence = sequence and payload = payload])
  case (Refused e)
  then show ?thesis by (intro that(1) [of "Lk_Association e"]) (simp add: prepare_input_def)
next
  case Repeated
  obtain g1 res where r: "repeat_input_ack a (dg_next_expected (ga_input_delivery a)) g = (g1, res)"
    by (metis surj_pair)
  show ?thesis
  proof (cases "can_queue_input_ack a g")
    case True
    with Repeated r show ?thesis
      by (cases res) (auto intro: that(2) simp: prepare_input_def)
  next
    case False
    with Repeated show ?thesis by (intro that(1) [of Lk_ControlBackpressure]) (simp add: prepare_input_def)
  qed
next
  case (Begun operation)
  note evaluated = Begun(1) [unfolded Begun(4)] prepare_input_def abort_begun [OF assms]
  consider "\<not> can_queue_input_ack (input_begun a) g" | "can_queue_input_ack (input_begun a) g" "ga_input_closed a"
    | "can_queue_input_ack (input_begun a) g" "\<not> ga_input_closed a" by blast
  then show ?thesis
  proof cases
    case 1
    with Begun(4) show ?thesis by (intro that(1) [of Lk_ControlBackpressure]) (simp add: evaluated)
  next
    case 2
    with Begun(4) show ?thesis by (intro that(1) [of Lk_InputAfterClose]) (simp add: evaluated)
  next
    case 3
    with Begun show ?thesis by (intro that(3) [of operation]) (simp_all add: evaluated)
  qed
qed

definition input_applied :: "udp_kind \<Rightarrow> gateway_association \<Rightarrow> gateway_association" where
  "input_applied kind a = (if kind = UKind_InputClose then mark_input_closed (input_committed a) else input_committed a)"

lemma input_applied_fields [simp]:
  "ga_association_id (input_applied kind a) = ga_association_id a"
  "dg_pending (ga_input_delivery (input_applied kind a)) = None"
  "dg_next_expected (ga_input_delivery (input_applied kind a)) = dg_next_expected (ga_input_delivery a) + 1"
  "dg_epoch (ga_input_delivery (input_applied kind a)) = dg_epoch (ga_input_delivery a)"
  "ga_role (input_applied kind a) = ga_role a"
  "ga_input_closed (input_applied kind a) = (kind = UKind_InputClose \<or> ga_input_closed a)"
  by (simp_all add: input_applied_def input_committed_def mark_input_closed_def)

text \<open>A prepared operation commits: the acknowledgement is queued for the peer, as checked before.\<close>

lemma commit_prepared:
  assumes "can_queue_input_ack (input_begun a) g" "dg_next_expected (ga_input_delivery a) \<noteq> - 1"
  obtains g' c c' where
    "commit_to kind (dg_next_expected (ga_input_delivery a)) (input_begun a) g = (input_applied kind a, g',
       Inr (Ri_Delivered kind (dg_next_expected (ga_input_delivery a)) (dg_next_expected (ga_input_delivery a) + 1)))"
    "control_for g (ga_association_id a) = Inr c" "control_for g' (ga_association_id a) = Inr c'"
    "ring_push c UKind_AckInput (ack_encode \<lparr>ack_epoch = dg_epoch (ga_input_delivery a),
       next_expected = dg_next_expected (ga_input_delivery a) + 1\<rparr>) = Inr (c', rr_next c)"
proof (rule commit_begun [OF assms])
  fix g' c c'
  assume "commit_input (input_begun a) (dg_next_expected (ga_input_delivery a)) g = (input_committed a, g',
      Inr \<lparr>ack_epoch = dg_epoch (ga_input_delivery a), next_expected = dg_next_expected (ga_input_delivery a) + 1\<rparr>)"
  then have "commit_to kind (dg_next_expected (ga_input_delivery a)) (input_begun a) g = (input_applied kind a, g',
      Inr (Ri_Delivered kind (dg_next_expected (ga_input_delivery a)) (dg_next_expected (ga_input_delivery a) + 1)))"
    by (simp add: commit_to_def input_applied_def)
  then show "control_for g (ga_association_id a) = Inr c \<Longrightarrow> control_for g' (ga_association_id a) = Inr c' \<Longrightarrow>
      ring_push c UKind_AckInput (ack_encode \<lparr>ack_epoch = dg_epoch (ga_input_delivery a),
        next_expected = dg_next_expected (ga_input_delivery a) + 1\<rparr>) = Inr (c', rr_next c) \<Longrightarrow> thesis"
    by (rule that)
qed

text \<open>What may become of one input record: it reaches the sink and is acknowledged, it reaches the sink
  and is refused there with nothing changed, or it does not reach the sink.\<close>

definition ack_queued :: "gateway_association \<Rightarrow> slabs \<Rightarrow> slabs \<Rightarrow> bool" where
  "ack_queued a g g' =
     (case (control_for g (ga_association_id a), control_for g' (ga_association_id a)) of
        (Inr c, Inr c') \<Rightarrow>
          ring_push c UKind_AckInput (ack_encode \<lparr>ack_epoch = dg_epoch (ga_input_delivery a),
            next_expected = dg_next_expected (ga_input_delivery a) + 1\<rparr>) = Inr (c', rr_next c)
      | _ \<Rightarrow> False)"

theorem apply_input_results:
  assumes "dg_pending (ga_input_delivery (gk_association k)) = None"
    and "dg_next_expected (ga_input_delivery (gk_association k)) \<noteq> - 1"
    and "apply_inbound sink k (Li_Input kind sequence len) g st = (k', g', st', res)"
  shows "let a = gk_association k; a' = gk_association k'; n = dg_next_expected (ga_input_delivery a) in
    (st' = st \<and> k' = k \<and> (\<forall>n1 n2. res \<noteq> Inr (Some (Ri_Delivered kind n1 n2)))) \<or>
    (\<exists>operation. sequence = n \<and> decode_input_operation kind (take len (gk_input_event k)) = Inr operation \<and>
       ga_role a = Connection_Writer \<and> \<not> ga_input_closed a \<and>
       (sink st operation = (st', Inr ()) \<and> k' = with_association k (input_applied kind a) \<and> ack_queued a g g' \<and>
          res = Inr (Some (Ri_Delivered kind n (n + 1))) \<or>
        (\<exists>e. sink st operation = (st', Inl e) \<and> k' = k \<and> g' = g \<and> res = Inl (Lk_Sink e))))"
  using assms(1)
proof (cases rule: prepare_input_results [where g = g and kind = kind and sequence = sequence
      and payload = "take len (gk_input_event k)"])
  case (Refused e)
  with assms(3) show ?thesis by (auto simp: apply_inbound_def prepare_inbound_def)
next
  case (Repeated g1 r)
  with assms(3) show ?thesis by (auto simp: apply_inbound_def prepare_inbound_def)
next
  case (Prepared operation)
  let ?a = "gk_association k"
  obtain st1 sr where s: "sink st operation = (st1, sr)" by (metis surj_pair)
  note evaluated = apply_inbound_def prepare_inbound_def Prepared(1) [unfolded Prepared(4)] s
  show ?thesis
  proof (cases sr)
    case (Inl e)
    then have "(k', g', st', res) = (k, g, st1, Inl (Lk_Sink e))"
      using assms(1,3) Prepared(4) by (simp add: evaluated abort_prepared_input_def)
    with s Inl Prepared show ?thesis by auto
  next
    case (Inr u)
    obtain g2 c c' where commit: "commit_to kind (dg_next_expected (ga_input_delivery ?a)) (input_begun ?a) g =
        (input_applied kind ?a, g2, Inr (Ri_Delivered kind (dg_next_expected (ga_input_delivery ?a))
          (dg_next_expected (ga_input_delivery ?a) + 1)))"
      and c: "control_for g (ga_association_id ?a) = Inr c" "control_for g2 (ga_association_id ?a) = Inr c'"
        "ring_push c UKind_AckInput (ack_encode \<lparr>ack_epoch = dg_epoch (ga_input_delivery ?a),
          next_expected = dg_next_expected (ga_input_delivery ?a) + 1\<rparr>) = Inr (c', rr_next c)"
      by (rule commit_prepared [OF Prepared(5) assms(2)])
    then have "(k', g', st', res) = (with_association k (input_applied kind ?a), g2, st1,
        Inr (Some (Ri_Delivered kind (dg_next_expected (ga_input_delivery ?a)) (dg_next_expected (ga_input_delivery ?a) + 1))))"
      using assms(3) Prepared(4) Inr by (simp add: evaluated commit_prepared_input_def)
    moreover have "ack_queued ?a g g2" using c by (simp add: ack_queued_def)
    ultimately show ?thesis using s Inr Prepared by auto
  qed
qed

end
