(* ===== verification/Udp_Session.thy ===== *)
theory Udp_Session
  imports Udp_Client_Link Udp_Gateway_Link Udp_Policies
begin

text \<open>
  One client and the gateway of one everudp writer, composed: the client's link writes its input
  stream, any part of it arrives in any pieces, and the gateway's runner reads records, asks the
  writer sizes what the PTY is given, hands operations over and acknowledges them
  (\<open>crates/everudp/src/gateway_runner.rs\<close>, \<open>process_link_event\<close>, \<open>process_terminal_event\<close>,
  \<open>queue_pty_event\<close>, \<open>queue_ready_pty_event\<close>, \<open>retire_association\<close>, \<open>handle_initial\<close>,
  \<open>finish_candidate\<close> and \<open>handle_resume\<close> for one association). Connections are replaced at any time,
  on either side, and the sides need not agree which one is current. Everything the client receives,
  the control stream of the gateway and what the other associations do to the shared slabs, life
  cycle and writer sizes is arbitrary.
\<close>

section \<open>The gateway's runner, for one association\<close>



















section \<open>The composition\<close>







section \<open>What the gateway's operations leave alone\<close>













section \<open>The client's side of a step\<close>




section \<open>What has arrived\<close>












section \<open>Reading\<close>

definition is_cp_record :: "copy_result \<Rightarrow> (udp_kind \<times> u64 \<times> usize) option" where
  "is_cp_record res = (case res of Cp_Record kind n len \<Rightarrow> Some (kind, n, len) | _ \<Rightarrow> None)"








section \<open>The invariant\<close>

definition prefix_applied :: "(udp_kind \<times> bytes) list \<Rightarrow> input_operation list \<Rightarrow> bool" where
  "prefix_applied sent applied \<longleftrightarrow> length applied \<le> length sent \<and>
     map (\<lambda>(kind, payload). decode_input_operation kind payload) (take (length applied) sent) = map Inr applied"










lemma prefix_applied_Nil [simp]: "prefix_applied sent []"
  by (simp add: prefix_applied_def)



















section \<open>Properties\<close>


end
