(* ===== verification/Udp_Datagram.thy ===== *)
theory Udp_Datagram
  imports Udp_Wire
begin

text \<open>
  The reliable-datagram protocol (\<open>crates/everudp/src/reliable_datagram.rs\<close>): the wire frame, the
  receive window with its reorder slots and their storage, the transmit window with cumulative and
  selective acknowledgement and its retransmission schedule, and the acknowledgement scheduler.
  Times are microseconds. Allocation is a predicate on the requested size.
\<close>

unbundle bit_operations_syntax

section \<open>Frames\<close>

definition RD_VERSION :: u8 where "RD_VERSION = 4"
definition RD_HEADER_LEN :: usize where "RD_HEADER_LEN = 46"
definition MAX_WIRE_LEN :: usize where "MAX_WIRE_LEN = 1200"
definition MAX_PAYLOAD_LEN :: usize where "MAX_PAYLOAD_LEN = 1024"
definition REORDER_SLOTS :: usize where "REORDER_SLOTS = 64"
definition MAX_TRANSMITS_PER_WAKE :: usize where "MAX_TRANSMITS_PER_WAKE = 8"
definition DELAYED_ACK_MICROS :: nat where "DELAYED_ACK_MICROS = 1000"
definition MIN_RTO_MICROS :: nat where "MIN_RTO_MICROS = 2000"
definition PRE_SAMPLE_RTT_MICROS :: nat where "PRE_SAMPLE_RTT_MICROS = 100000"
definition MAX_BACKOFF_MICROS :: nat where "MAX_BACKOFF_MICROS = 60000000"
definition FLAG_ACK_ONLY :: u8 where "FLAG_ACK_ONLY = 1"

record ack_state =
  ak_epoch :: u64
  ak_base :: u64
  ak_bits :: u64

record rd_data =
  rd_direction :: fast_direction
  rd_kind :: udp_kind
  rd_epoch :: u64
  rd_sequence :: u64
  rd_ack :: ack_state
  rd_payload :: bytes

datatype rd_frame = Rd_Data rd_data | Rd_AckOnly fast_direction ack_state

datatype rd_offer =
    Offer_Ready | Offer_FutureStored | Offer_Duplicate | Offer_StaleEpoch | Offer_FutureEpoch | Offer_OutsideWindow

datatype ack_apply = Ack_Applied usize | Ack_StaleCumulative | Ack_StaleEpoch | Ack_FutureEpoch

datatype rd_error =
    Rde_Incomplete usize usize
  | Rde_Version u8
  | Rde_Direction u8
  | Rde_Kind u8
  | Rde_KindForDirection fast_direction udp_kind
  | Rde_Flags u8
  | Rde_Length usize usize
  | Rde_PayloadBounds udp_kind usize
  | Rde_OutputTooSmall usize usize
  | Rde_SequenceOverflow
  | Rde_ConflictingDuplicate u64
  | Rde_NoReadyRecord
  | Rde_CommitSequence u64 u64
  | Rde_QueueFull
  | Rde_Sequence u64 u64
  | Rde_AckAhead u64 u64
  | Rde_SelectiveAckAhead nat
  | Rde_UnknownSequence u64
  | Rde_Allocation

definition rd_direction_decode :: "u8 \<Rightarrow> rd_error + fast_direction" where
  "rd_direction_decode v =
     (if v = 1 then Inr ClientToGateway else if v = 2 then Inr GatewayToClient else Inl (Rde_Direction v))"

fun rd_accepts :: "fast_direction \<Rightarrow> udp_kind \<Rightarrow> bool" where
  "rd_accepts ClientToGateway k = (k \<in> {UKind_Input, UKind_Resize, UKind_Signal, UKind_InputClose})"
| "rd_accepts GatewayToClient k = (k \<in> {UKind_Output, UKind_Ownership, UKind_Exit})"

definition rd_decode_kind :: "u8 \<Rightarrow> rd_error + udp_kind" where
  "rd_decode_kind v =
     (if v = 0x20 then Inr UKind_Input
      else if v = 0x21 then Inr UKind_Resize
      else if v = 0x22 then Inr UKind_Signal
      else if v = 0x23 then Inr UKind_InputClose
      else if v = 0x40 then Inr UKind_Output
      else if v = 0x41 then Inr UKind_Ownership
      else if v = 0x42 then Inr UKind_Exit
      else Inl (Rde_Kind v))"

definition validate_payload :: "fast_direction \<Rightarrow> udp_kind \<Rightarrow> bytes \<Rightarrow> udp_limits \<Rightarrow> rd_error + unit" where
  "validate_payload direction kind payload limits =
     (if \<not> rd_accepts direction kind then Inl (Rde_KindForDirection direction kind)
      else
        (case payload_bounds kind limits of (minimum, maximum) \<Rightarrow>
          if length payload < minimum \<or> length payload > min maximum MAX_PAYLOAD_LEN
          then Inl (Rde_PayloadBounds kind (length payload)) else Inr ()))"

text \<open>The header of a frame.\<close>

definition rd_header ::
  "fast_direction \<Rightarrow> u8 \<Rightarrow> u8 \<Rightarrow> u64 \<Rightarrow> u64 \<Rightarrow> ack_state \<Rightarrow> u16 \<Rightarrow> bytes" where
  "rd_header direction kind flags epoch sequence ack payload_len =
     [RD_VERSION, direction_byte direction, kind, flags] @ be_bytes epoch @ be_bytes sequence
       @ be_bytes (ak_epoch ack) @ be_bytes (ak_base ack) @ be_bytes (ak_bits ack) @ be_bytes payload_len"

text \<open>The output buffer afterwards and the length of the frame in it.\<close>

definition rd_encode ::
  "fast_direction \<Rightarrow> u8 \<Rightarrow> u8 \<Rightarrow> u64 \<Rightarrow> u64 \<Rightarrow> ack_state \<Rightarrow> bytes \<Rightarrow> bytes \<Rightarrow> rd_error + bytes \<times> usize" where
  "rd_encode direction kind flags epoch sequence ack payload output =
     try_bind (ok_or Rde_SequenceOverflow (checked_add_usize RD_HEADER_LEN (length payload))) (\<lambda>tot.
     if tot > MAX_WIRE_LEN \<or> length payload > MAX_PAYLOAD_LEN then Inl (Rde_Length MAX_WIRE_LEN tot)
     else if length output < tot then Inl (Rde_OutputTooSmall tot (length output))
     else if \<not> length payload < 2 ^ 16 then Inl Rde_SequenceOverflow
     else Inr (splice_at RD_HEADER_LEN payload
                 (splice_at 0 (rd_header direction kind flags epoch sequence ack (of_nat (length payload))) output), tot))"

definition encode_data :: "rd_data \<Rightarrow> bytes \<Rightarrow> rd_error + bytes \<times> usize" where
  "encode_data d output =
     try_bind (validate_payload (rd_direction d) (rd_kind d) (rd_payload d) default_udp_limits) (\<lambda>_.
     rd_encode (rd_direction d) (udp_kind_byte (rd_kind d)) 0 (rd_epoch d) (rd_sequence d) (rd_ack d) (rd_payload d) output)"

definition encode_ack_only :: "fast_direction \<Rightarrow> ack_state \<Rightarrow> bytes \<Rightarrow> rd_error + bytes \<times> usize" where
  "encode_ack_only direction ack output = rd_encode direction 0 FLAG_ACK_ONLY 0 0 ack [] output"

definition rd_decode :: "fast_direction \<Rightarrow> bytes \<Rightarrow> udp_limits \<Rightarrow> rd_error + rd_frame" where
  "rd_decode expected_direction inp limits =
     (if length inp < RD_HEADER_LEN then Inl (Rde_Incomplete RD_HEADER_LEN (length inp))
      else if length inp > MAX_WIRE_LEN then Inl (Rde_Length MAX_WIRE_LEN (length inp))
      else if inp ! 0 \<noteq> RD_VERSION then Inl (Rde_Version (inp ! 0))
      else try_bind (rd_direction_decode (inp ! 1)) (\<lambda>direction.
        if direction \<noteq> expected_direction then Inl (Rde_Direction (inp ! 1))
        else
          let flags = inp ! 3 in
          if flags AND NOT FLAG_ACK_ONLY \<noteq> 0 then Inl (Rde_Flags flags)
          else
            let epoch = be_word (subslice 4 12 inp) :: u64;
                sequence = be_word (subslice 12 20 inp) :: u64;
                ack = \<lparr>ak_epoch = be_word (subslice 20 28 inp), ak_base = be_word (subslice 28 36 inp),
                       ak_bits = be_word (subslice 36 44 inp)\<rparr>;
                payload_len = unat (be_word (subslice 44 46 inp) :: u16)
            in
            try_bind (ok_or Rde_SequenceOverflow (checked_add_usize RD_HEADER_LEN payload_len)) (\<lambda>declared.
            if declared \<noteq> length inp then Inl (Rde_Length declared (length inp))
            else if flags = FLAG_ACK_ONLY then
              if inp ! 2 \<noteq> 0 \<or> epoch \<noteq> 0 \<or> sequence \<noteq> 0 \<or> payload_len \<noteq> 0 then Inl (Rde_Flags flags)
              else Inr (Rd_AckOnly direction ack)
            else if flags \<noteq> 0 then Inl (Rde_Flags flags)
            else
              try_bind (rd_decode_kind (inp ! 2)) (\<lambda>kind.
              try_bind (validate_payload direction kind (drop RD_HEADER_LEN inp) limits) (\<lambda>_.
              Inr (Rd_Data \<lparr>rd_direction = direction, rd_kind = kind, rd_epoch = epoch, rd_sequence = sequence,
                            rd_ack = ack, rd_payload = drop RD_HEADER_LEN inp\<rparr>))))))"

section \<open>The codec is exact\<close>

fun rd_bytes :: "rd_frame \<Rightarrow> bytes" where
  "rd_bytes (Rd_Data d) =
     rd_header (rd_direction d) (udp_kind_byte (rd_kind d)) 0 (rd_epoch d) (rd_sequence d) (rd_ack d)
       (of_nat (length (rd_payload d))) @ rd_payload d"
| "rd_bytes (Rd_AckOnly direction ack) = rd_header direction 0 FLAG_ACK_ONLY 0 0 ack 0"

fun rd_ok :: "fast_direction \<Rightarrow> udp_limits \<Rightarrow> rd_frame \<Rightarrow> bool" where
  "rd_ok dir limits (Rd_Data d) \<longleftrightarrow>
     rd_direction d = dir \<and> validate_payload dir (rd_kind d) (rd_payload d) limits = Inr ()"
| "rd_ok dir limits (Rd_AckOnly direction ack) \<longleftrightarrow> direction = dir"

lemma length_rd_header [simp]: "length (rd_header d k f e s a n) = RD_HEADER_LEN"
  by (simp add: rd_header_def RD_HEADER_LEN_def)

lemma rd_header_fields:
  "(rd_header d k f e s a n @ rest) ! 0 = RD_VERSION"
  "(rd_header d k f e s a n @ rest) ! 1 = direction_byte d"
  "(rd_header d k f e s a n @ rest) ! 2 = k"
  "(rd_header d k f e s a n @ rest) ! 3 = f"
  "be_word (subslice 4 12 (rd_header d k f e s a n @ rest)) = e"
  "be_word (subslice 12 20 (rd_header d k f e s a n @ rest)) = s"
  "be_word (subslice 20 28 (rd_header d k f e s a n @ rest)) = ak_epoch a"
  "be_word (subslice 28 36 (rd_header d k f e s a n @ rest)) = ak_base a"
  "be_word (subslice 36 44 (rd_header d k f e s a n @ rest)) = ak_bits a"
  "be_word (subslice 44 46 (rd_header d k f e s a n @ rest)) = n"
  by (simp_all add: rd_header_def subslice_def drop_Cons')

lemma rd_direction_decode_byte [simp]: "rd_direction_decode v = Inr d \<longleftrightarrow> v = direction_byte d"
  by (cases d) (auto simp: rd_direction_decode_def)

lemma rd_kind_byte: "rd_accepts d k \<Longrightarrow> rd_decode_kind (udp_kind_byte k) = Inr k"
  by (cases d; cases k) (simp_all add: rd_decode_kind_def)

lemma rd_decode_kind_sound: "rd_decode_kind v = Inr k \<Longrightarrow> v = udp_kind_byte k"
  by (auto simp: rd_decode_kind_def split: if_splits)

lemma validate_payload_Inr:
  "validate_payload dir k p limits = Inr () \<longleftrightarrow>
     rd_accepts dir k \<and> fst (payload_bounds k limits) \<le> length p \<and> length p \<le> snd (payload_bounds k limits)
     \<and> length p \<le> MAX_PAYLOAD_LEN"
  by (auto simp: validate_payload_def split: prod.splits)

lemma rd_decode_bytes: "rd_ok dir limits f \<Longrightarrow> rd_decode dir (rd_bytes f) limits = Inr f"
proof (cases f)
  case (Rd_Data d)
  assume "rd_ok dir limits f"
  then have v: "rd_direction d = dir" "validate_payload dir (rd_kind d) (rd_payload d) limits = Inr ()"
    "rd_accepts dir (rd_kind d)" "length (rd_payload d) \<le> 1024"
    by (simp_all add: Rd_Data validate_payload_Inr MAX_PAYLOAD_LEN_def)
  then show ?thesis
    unfolding Rd_Data rd_bytes.simps rd_decode_def Let_def rd_header_fields
    by (simp add: RD_HEADER_LEN_def MAX_WIRE_LEN_def checked_add_usize_def rd_kind_byte [OF v(3)] FLAG_ACK_ONLY_def)
next
  case (Rd_AckOnly direction ack)
  assume "rd_ok dir limits f"
  then show ?thesis
    unfolding Rd_AckOnly rd_bytes.simps rd_decode_def Let_def rd_header_fields [where rest = "[]", unfolded append_Nil2]
    by (simp add: RD_HEADER_LEN_def MAX_WIRE_LEN_def checked_add_usize_def FLAG_ACK_ONLY_def)
qed

text \<open>A frame's bytes are its header fields and its payload.\<close>

lemma rd_split:
  assumes "RD_HEADER_LEN \<le> length inp"
  shows "inp = [inp ! 0, inp ! 1, inp ! 2, inp ! 3] @ subslice 4 12 inp @ subslice 12 20 inp @ subslice 20 28 inp
    @ subslice 28 36 inp @ subslice 36 44 inp @ subslice 44 46 inp @ drop RD_HEADER_LEN inp"
proof -
  have "subslice 4 12 inp @ subslice 12 20 inp @ subslice 20 28 inp @ subslice 28 36 inp @ subslice 36 44 inp
      @ subslice 44 46 inp @ drop RD_HEADER_LEN inp = subslice 4 (length inp) inp"
    using assms by (simp add: RD_HEADER_LEN_def drop_subslice)
  moreover have "inp = inp ! 0 # inp ! 1 # inp ! 2 # inp ! 3 # drop 4 inp"
  proof -
    have "4 \<le> length inp" using assms by (simp add: RD_HEADER_LEN_def)
    then show ?thesis by (cases inp; cases "tl inp"; cases "tl (tl inp)"; cases "tl (tl (tl inp))") auto
  qed
  ultimately show ?thesis by (simp add: drop_subslice [symmetric])
qed

lemma rd_decode_sound:
  assumes "rd_decode dir inp limits = Inr f"
  shows "rd_ok dir limits f \<and> inp = rd_bytes f"
proof -
  have len: "RD_HEADER_LEN \<le> length inp" "inp ! 0 = RD_VERSION" "inp ! 1 = direction_byte dir"
    "length inp = RD_HEADER_LEN + unat (be_word (subslice 44 46 inp) :: u16)"
    using assms by (auto simp: rd_decode_def checked_add_usize_def Let_def split: if_splits)
  have lens: "length (subslice 4 12 inp) = 8" "length (subslice 12 20 inp) = 8" "length (subslice 20 28 inp) = 8"
    "length (subslice 28 36 inp) = 8" "length (subslice 36 44 inp) = 8" "length (subslice 44 46 inp) = 2"
    using len(1) by (simp_all add: RD_HEADER_LEN_def)
  have "(of_nat (length (drop RD_HEADER_LEN inp)) :: u16) = be_word (subslice 44 46 inp)"
    using len(4) by simp
  then have pl: "(of_nat (length inp - RD_HEADER_LEN) :: u16) = be_word (subslice 44 46 inp)" by simp
  note split = rd_split [OF len(1)]
  show ?thesis
  proof (cases "inp ! 3 = FLAG_ACK_ONLY")
    case True
    with assms have f: "f = Rd_AckOnly dir \<lparr>ak_epoch = be_word (subslice 20 28 inp), ak_base = be_word (subslice 28 36 inp),
          ak_bits = be_word (subslice 36 44 inp)\<rparr>"
      and z: "inp ! 2 = 0" "be_word (subslice 4 12 inp) = (0 :: u64)" "be_word (subslice 12 20 inp) = (0 :: u64)"
        "unat (be_word (subslice 44 46 inp) :: u16) = 0"
      by (auto simp: rd_decode_def Let_def split: if_splits)
    from z lens have "subslice 4 12 inp = be_bytes (0 :: u64)" "subslice 12 20 inp = be_bytes (0 :: u64)"
      "subslice 44 46 inp = be_bytes (0 :: u16)"
      by (metis be_bytes_word_64, metis be_bytes_word_64, metis be_bytes_word_16 unat_eq_zero)
    moreover have "drop RD_HEADER_LEN inp = []" using len(4) z(4) by simp
    ultimately show ?thesis
      unfolding f using split len(2,3) z True lens by (simp add: rd_header_def)
  next
    case False
    with assms obtain kind where k: "rd_decode_kind (inp ! 2) = Inr kind" "inp ! 3 = 0"
      "validate_payload dir kind (drop RD_HEADER_LEN inp) limits = Inr ()"
      "f = Rd_Data \<lparr>rd_direction = dir, rd_kind = kind, rd_epoch = be_word (subslice 4 12 inp),
          rd_sequence = be_word (subslice 12 20 inp),
          rd_ack = \<lparr>ak_epoch = be_word (subslice 20 28 inp), ak_base = be_word (subslice 28 36 inp),
            ak_bits = be_word (subslice 36 44 inp)\<rparr>, rd_payload = drop RD_HEADER_LEN inp\<rparr>"
      by (auto simp: rd_decode_def Let_def split: if_splits)
    from split rd_decode_kind_sound [OF k(1)] k(2) len(2,3) lens show ?thesis
      unfolding k(4) by (simp add: rd_header_def k(3) pl)
  qed
qed

interpretation reliable_frames: exact_codec rd_bytes "\<lambda>b. rd_decode dir b limits" "rd_ok dir limits" for dir limits
  by unfold_locales (auto simp: rd_decode_bytes dest: rd_decode_sound)

text \<open>What an encoder writes is the frame, at the front of the buffer.\<close>

lemma rd_encode_Inr:
  "rd_encode dir kind flags epoch sequence ack payload output = Inr (out, n) \<Longrightarrow>
   out = (rd_header dir kind flags epoch sequence ack (of_nat (length payload)) @ payload) @ drop n output
   \<and> n = RD_HEADER_LEN + length payload \<and> n \<le> length output"
  using splice_twice [of "rd_header dir kind flags epoch sequence ack (of_nat (length payload))" payload "output"]
  by (auto simp: rd_encode_def checked_add_usize_def split: if_splits)

lemma encode_data_Inr:
  "encode_data d output = Inr (out, n) \<Longrightarrow>
   rd_ok (rd_direction d) default_udp_limits (Rd_Data d) \<and> out = rd_bytes (Rd_Data d) @ drop n output \<and> n = length (rd_bytes (Rd_Data d))"
  by (auto simp: encode_data_def dest: rd_encode_Inr)

end
