(* ===== verification/Udp_Datagram_Receive.thy ===== *)
theory Udp_Datagram_Receive
  imports Udp_Datagram
begin

text \<open>
  \<open>ReceiveWindow\<close> of \<open>crates/everudp/src/reliable_datagram.rs\<close>: 64 reorder slots whose payloads lie in
  one flat array. Its abstract view is a finite map from sequence numbers to records; every operation
  is proved to act on the view as a map.
\<close>

unbundle bit_operations_syntax

section \<open>State and operations\<close>

record rd_slot =
  rs_sequence :: u64
  rs_kind :: udp_kind
  rs_length :: usize

record receive_window =
  rw_epoch :: u64
  rw_next :: u64
  rw_slots :: "rd_slot option list"
  rw_payloads :: bytes

record ready_record =
  rr_kind :: udp_kind
  rr_sequence :: u64
  rr_payload :: bytes

definition rd_slot_index :: "u64 \<Rightarrow> nat" where
  "rd_slot_index sequence = unat sequence mod REORDER_SLOTS"

definition payload_start :: "nat \<Rightarrow> nat" where
  "payload_start index = index * MAX_PAYLOAD_LEN"

definition stored_payload :: "receive_window \<Rightarrow> nat \<Rightarrow> usize \<Rightarrow> bytes" where
  "stored_payload w index n = subslice (payload_start index) (payload_start index + n) (rw_payloads w)"

definition checked_add_u64 :: "u64 \<Rightarrow> nat \<Rightarrow> u64 option" where
  "checked_add_u64 a n = (if unat a + n < 2 ^ 64 then Some (a + of_nat n) else None)"

definition receive_window_new :: "(usize \<Rightarrow> bool) \<Rightarrow> u64 \<Rightarrow> u64 \<Rightarrow> rd_error + receive_window" where
  "receive_window_new alloc epoch first_seq =
     (if \<not> alloc REORDER_SLOTS then Inl Rde_Allocation
      else if \<not> alloc (REORDER_SLOTS * MAX_PAYLOAD_LEN) then Inl Rde_Allocation
      else Inr \<lparr>rw_epoch = epoch, rw_next = first_seq, rw_slots = replicate REORDER_SLOTS None,
                rw_payloads = replicate (REORDER_SLOTS * MAX_PAYLOAD_LEN) 0\<rparr>)"

text \<open>The bits from an offset on; the loop stops where the sequence number would overflow.\<close>

fun ack_scan :: "receive_window \<Rightarrow> nat list \<Rightarrow> u64 \<Rightarrow> u64" where
  "ack_scan w [] bits = bits"
| "ack_scan w (i # is) bits =
     (case checked_add_u64 (rw_next w) i of
        None \<Rightarrow> bits
      | Some sequence \<Rightarrow>
          ack_scan w is
            (case rw_slots w ! rd_slot_index sequence of
               Some slot \<Rightarrow> if rs_sequence slot = sequence then bits OR push_bit i 1 else bits
             | None \<Rightarrow> bits))"

definition window_acknowledgement :: "receive_window \<Rightarrow> ack_state" where
  "window_acknowledgement w =
     \<lparr>ak_epoch = rw_epoch w, ak_base = rw_next w, ak_bits = ack_scan w [0..<REORDER_SLOTS] 0\<rparr>"

definition window_offer :: "rd_data \<Rightarrow> receive_window \<Rightarrow> receive_window \<times> (rd_error + rd_offer)" where
  "window_offer d w =
     (if rd_epoch d < rw_epoch w then (w, Inr Offer_StaleEpoch)
      else if rd_epoch d > rw_epoch w then (w, Inr Offer_FutureEpoch)
      else if rd_sequence d < rw_next w then (w, Inr Offer_Duplicate)
      else
        (case checked_add_u64 (rw_next w) REORDER_SLOTS of
           None \<Rightarrow> (w, Inl Rde_SequenceOverflow)
         | Some end_of \<Rightarrow>
             if rd_sequence d \<ge> end_of then (w, Inr Offer_OutsideWindow)
             else if length (rd_payload d) > MAX_PAYLOAD_LEN then
               (w, Inl (Rde_PayloadBounds (rd_kind d) (length (rd_payload d))))
             else
               let index = rd_slot_index (rd_sequence d) in
               (case rw_slots w ! index of
                  Some slot \<Rightarrow>
                    if rs_sequence slot = rd_sequence d \<and> rs_kind slot = rd_kind d
                       \<and> stored_payload w index (rs_length slot) = rd_payload d
                    then (w, Inr Offer_Duplicate)
                    else (w, Inl (Rde_ConflictingDuplicate (rd_sequence d)))
                | None \<Rightarrow>
                    (w\<lparr>rw_payloads := splice_at (payload_start index) (rd_payload d) (rw_payloads w),
                       rw_slots := (rw_slots w)[index := Some \<lparr>rs_sequence = rd_sequence d, rs_kind = rd_kind d,
                                                           rs_length = length (rd_payload d)\<rparr>]\<rparr>,
                     Inr (if rd_sequence d = rw_next w then Offer_Ready else Offer_FutureStored)))))"

definition window_ready :: "receive_window \<Rightarrow> ready_record option" where
  "window_ready w =
     (let index = rd_slot_index (rw_next w) in
      case rw_slots w ! index of
        None \<Rightarrow> None
      | Some slot \<Rightarrow>
          if rs_sequence slot = rw_next w
          then Some \<lparr>rr_kind = rs_kind slot, rr_sequence = rs_sequence slot,
                     rr_payload = stored_payload w index (rs_length slot)\<rparr>
          else None)"

definition commit_ready :: "u64 \<Rightarrow> receive_window \<Rightarrow> receive_window \<times> (rd_error + ack_state)" where
  "commit_ready sequence w =
     (let index = rd_slot_index (rw_next w) in
      case rw_slots w ! index of
        None \<Rightarrow> (w, Inl Rde_NoReadyRecord)
      | Some slot \<Rightarrow>
          if rs_sequence slot \<noteq> rw_next w \<or> sequence \<noteq> rw_next w then (w, Inl (Rde_CommitSequence (rw_next w) sequence))
          else
            let w = w\<lparr>rw_payloads := splice_at (payload_start index) (replicate (rs_length slot) 0) (rw_payloads w),
                      rw_slots := (rw_slots w)[index := None]\<rparr>
            in
            (case checked_add_u64 (rw_next w) 1 of
               None \<Rightarrow> (w, Inl Rde_SequenceOverflow)
             | Some sequence' \<Rightarrow> let w = w\<lparr>rw_next := sequence'\<rparr> in (w, Inr (window_acknowledgement w))))"

definition window_reset :: "u64 \<Rightarrow> u64 \<Rightarrow> receive_window \<Rightarrow> receive_window" where
  "window_reset epoch first_seq w =
     w\<lparr>rw_payloads := replicate (length (rw_payloads w)) 0, rw_slots := replicate (length (rw_slots w)) None,
       rw_epoch := epoch, rw_next := first_seq\<rparr>"

section \<open>The view\<close>

definition window_view :: "receive_window \<Rightarrow> u64 \<Rightarrow> (udp_kind \<times> bytes) option" where
  "window_view w sequence =
     (case rw_slots w ! rd_slot_index sequence of
        None \<Rightarrow> None
      | Some slot \<Rightarrow>
          if rs_sequence slot = sequence
          then Some (rs_kind slot, stored_payload w (rd_slot_index sequence) (rs_length slot)) else None)"

text \<open>Every occupied slot holds a number of the window, at its own index.\<close>

definition slot_ok :: "receive_window \<Rightarrow> nat \<Rightarrow> bool" where
  "slot_ok w i \<longleftrightarrow>
     (case rw_slots w ! i of
        None \<Rightarrow> True
      | Some slot \<Rightarrow>
          rd_slot_index (rs_sequence slot) = i \<and> rs_length slot \<le> MAX_PAYLOAD_LEN
          \<and> unat (rw_next w) \<le> unat (rs_sequence slot) \<and> unat (rs_sequence slot) < unat (rw_next w) + REORDER_SLOTS)"

definition window_inv :: "receive_window \<Rightarrow> bool" where
  "window_inv w \<longleftrightarrow>
     length (rw_slots w) = REORDER_SLOTS \<and> length (rw_payloads w) = REORDER_SLOTS * MAX_PAYLOAD_LEN
     \<and> (\<forall>i < REORDER_SLOTS. slot_ok w i)"

lemma rd_slot_index_less [simp]: "rd_slot_index s < REORDER_SLOTS"
  by (simp add: rd_slot_index_def REORDER_SLOTS_def)

lemma payload_fits: "i < REORDER_SLOTS \<Longrightarrow> n \<le> MAX_PAYLOAD_LEN \<Longrightarrow> payload_start i + n \<le> REORDER_SLOTS * MAX_PAYLOAD_LEN"
  using mult_le_mono1 [of "Suc i" REORDER_SLOTS MAX_PAYLOAD_LEN] by (simp add: payload_start_def)

lemma payload_disjoint:
  "i \<noteq> j \<Longrightarrow> m \<le> MAX_PAYLOAD_LEN \<Longrightarrow> n \<le> MAX_PAYLOAD_LEN \<Longrightarrow>
   payload_start i + m \<le> payload_start j \<or> payload_start j + n \<le> payload_start i"
  using mult_le_mono1 [of "Suc i" j MAX_PAYLOAD_LEN] mult_le_mono1 [of "Suc j" i MAX_PAYLOAD_LEN]
  by (auto simp: payload_start_def linorder_neq_iff)

lemma subslice_splice_same:
  "i + length ys \<le> length xs \<Longrightarrow> subslice i (i + length ys) (splice_at i ys xs) = ys"
  by (simp add: subslice_def splice_at_def)

lemma subslice_splice_other:
  assumes "i + length ys \<le> length xs" "i + length ys \<le> j \<or> k \<le> i"
  shows "subslice j k (splice_at i ys xs) = subslice j k xs"
  using assms(2)
proof
  assume "i + length ys \<le> j"
  then show ?thesis using assms(1) by (simp add: subslice_def splice_at_def)
next
  assume "k \<le> i"
  then show ?thesis using assms(1) by (simp add: subslice_def splice_at_def drop_take)
qed

text \<open>Two numbers of one window at the same index are the same number.\<close>

lemma mod_window_inj:
  fixes s t n m :: nat
  assumes "s mod m = t mod m" "n \<le> s" "s < n + m" "n \<le> t" "t < n + m"
  shows "s = t"
proof (rule ccontr)
  assume "s \<noteq> t"
  have "a mod m = b mod m \<Longrightarrow> n \<le> a \<Longrightarrow> a < b \<Longrightarrow> b < n + m \<Longrightarrow> False" for a b :: nat
  proof -
    assume *: "a mod m = b mod m" "n \<le> a" "a < b" "b < n + m"
    have "m dvd b - a" using mod_eq_dvd_iff_nat [of a b m] * by simp
    with * dvd_imp_le [of m "b - a"] show False by simp
  qed
  from this [of s t] this [of t s] \<open>s \<noteq> t\<close> assms show False by fastforce
qed

lemma window_index_inj:
  assumes "rd_slot_index s = rd_slot_index t" "unat n \<le> unat s" "unat s < unat n + REORDER_SLOTS"
    "unat n \<le> unat t" "unat t < unat n + REORDER_SLOTS"
  shows "s = t"
  using mod_window_inj [of "unat s" REORDER_SLOTS "unat t" "unat n"] assms
  by (simp add: rd_slot_index_def word_unat_eq_iff)

section \<open>Operations on the view\<close>

lemma slot_okD:
  "window_inv w \<Longrightarrow> rw_slots w ! i = Some slot \<Longrightarrow> i < REORDER_SLOTS \<Longrightarrow>
   rd_slot_index (rs_sequence slot) = i \<and> rs_length slot \<le> MAX_PAYLOAD_LEN
   \<and> unat (rw_next w) \<le> unat (rs_sequence slot) \<and> unat (rs_sequence slot) < unat (rw_next w) + REORDER_SLOTS"
  by (auto simp: window_inv_def slot_ok_def)

lemma window_inv_lengths:
  "window_inv w \<Longrightarrow> length (rw_slots w) = REORDER_SLOTS"
  "window_inv w \<Longrightarrow> length (rw_payloads w) = REORDER_SLOTS * MAX_PAYLOAD_LEN"
  by (simp_all add: window_inv_def)

lemma window_invI:
  assumes "length (rw_slots w) = REORDER_SLOTS" "length (rw_payloads w) = REORDER_SLOTS * MAX_PAYLOAD_LEN"
    "\<And>i slot. i < REORDER_SLOTS \<Longrightarrow> rw_slots w ! i = Some slot \<Longrightarrow>
       rd_slot_index (rs_sequence slot) = i \<and> rs_length slot \<le> MAX_PAYLOAD_LEN
       \<and> unat (rw_next w) \<le> unat (rs_sequence slot) \<and> unat (rs_sequence slot) < unat (rw_next w) + REORDER_SLOTS"
  shows "window_inv w"
  using assms by (auto simp: window_inv_def slot_ok_def split: option.split)

text \<open>Within the window the slot at a number's index is empty or holds that number.\<close>

lemma slot_at_sequence:
  assumes "window_inv w" "unat (rw_next w) \<le> unat s" "unat s < unat (rw_next w) + REORDER_SLOTS"
    "rw_slots w ! rd_slot_index s = Some slot"
  shows "rs_sequence slot = s"
  using slot_okD [OF assms(1,4)] window_index_inj [of "rs_sequence slot" s "rw_next w"] assms(2,3) by simp

lemma window_view_cases:
  assumes "window_inv w" "unat (rw_next w) \<le> unat s" "unat s < unat (rw_next w) + REORDER_SLOTS"
  shows "window_view w s = map_option (\<lambda>slot. (rs_kind slot, stored_payload w (rd_slot_index s) (rs_length slot)))
           (rw_slots w ! rd_slot_index s)"
  using slot_at_sequence [OF assms] by (auto simp: window_view_def split: option.split)

lemma window_view_range:
  "window_inv w \<Longrightarrow> window_view w s = Some v \<Longrightarrow>
   unat (rw_next w) \<le> unat s \<and> unat s < unat (rw_next w) + REORDER_SLOTS"
  using slot_okD [of w "rd_slot_index s"] by (auto simp: window_view_def split: option.splits if_splits)

lemma receive_window_new_Inr:
  "receive_window_new alloc e s = Inr w \<Longrightarrow>
   window_inv w \<and> rw_epoch w = e \<and> rw_next w = s \<and> (\<forall>x. window_view w x = None)"
  by (auto simp: receive_window_new_def window_inv_def slot_ok_def window_view_def split: if_splits)

lemma window_reset_inv:
  "window_inv w \<Longrightarrow>
   window_inv (window_reset e s w) \<and> rw_epoch (window_reset e s w) = e \<and> rw_next (window_reset e s w) = s
   \<and> window_view (window_reset e s w) x = None"
  by (simp add: window_reset_def window_inv_def slot_ok_def window_view_def)

lemma stored_payload_splice_other:
  assumes "length (rw_payloads w) = REORDER_SLOTS * MAX_PAYLOAD_LEN" "i < REORDER_SLOTS" "i \<noteq> j"
    "length ys \<le> MAX_PAYLOAD_LEN" "n \<le> MAX_PAYLOAD_LEN"
  shows "stored_payload (w\<lparr>rw_payloads := splice_at (payload_start i) ys (rw_payloads w), rw_slots := ss\<rparr>) j n
           = stored_payload w j n"
  using assms payload_fits [of i "length ys"] payload_disjoint [of i j "length ys" n]
  by (auto simp: stored_payload_def intro!: subslice_splice_other)

lemma stored_payload_splice_same:
  assumes "length (rw_payloads w) = REORDER_SLOTS * MAX_PAYLOAD_LEN" "i < REORDER_SLOTS" "length ys \<le> MAX_PAYLOAD_LEN"
  shows "stored_payload (w\<lparr>rw_payloads := splice_at (payload_start i) ys (rw_payloads w), rw_slots := ss\<rparr>) i (length ys)
           = ys"
  using assms payload_fits [of i "length ys"] by (simp add: stored_payload_def subslice_splice_same)

text \<open>Filling an empty slot adds one entry to the view; emptying one removes it.\<close>

definition fill_slot :: "u64 \<Rightarrow> udp_kind \<Rightarrow> bytes \<Rightarrow> receive_window \<Rightarrow> receive_window" where
  "fill_slot s k p w =
     w\<lparr>rw_payloads := splice_at (payload_start (rd_slot_index s)) p (rw_payloads w),
       rw_slots := (rw_slots w)[rd_slot_index s := Some \<lparr>rs_sequence = s, rs_kind = k, rs_length = length p\<rparr>]\<rparr>"

definition clear_slot :: "u64 \<Rightarrow> rd_slot \<Rightarrow> receive_window \<Rightarrow> receive_window" where
  "clear_slot s slot w =
     w\<lparr>rw_payloads := splice_at (payload_start (rd_slot_index s)) (replicate (rs_length slot) 0) (rw_payloads w),
       rw_slots := (rw_slots w)[rd_slot_index s := None]\<rparr>"

lemma fill_slot_inv:
  assumes "window_inv w" "unat (rw_next w) \<le> unat s" "unat s < unat (rw_next w) + REORDER_SLOTS"
    "length p \<le> MAX_PAYLOAD_LEN"
  shows "window_inv (fill_slot s k p w)"
proof (rule window_invI)
  show "length (rw_payloads (fill_slot s k p w)) = REORDER_SLOTS * MAX_PAYLOAD_LEN"
    using payload_fits [of "rd_slot_index s" "length p"] assms by (simp add: fill_slot_def window_inv_lengths)
next
  fix i slot assume *: "i < REORDER_SLOTS" "rw_slots (fill_slot s k p w) ! i = Some slot"
  show "rd_slot_index (rs_sequence slot) = i \<and> rs_length slot \<le> MAX_PAYLOAD_LEN
       \<and> unat (rw_next (fill_slot s k p w)) \<le> unat (rs_sequence slot)
       \<and> unat (rs_sequence slot) < unat (rw_next (fill_slot s k p w)) + REORDER_SLOTS"
    using * assms slot_okD [OF assms(1), of i slot]
    by (cases "i = rd_slot_index s") (auto simp: fill_slot_def window_inv_lengths)
qed (use assms in \<open>simp add: fill_slot_def window_inv_lengths\<close>)

lemma fill_slot_view:
  assumes "window_inv w" "unat (rw_next w) \<le> unat s" "unat s < unat (rw_next w) + REORDER_SLOTS"
    "length p \<le> MAX_PAYLOAD_LEN" "rw_slots w ! rd_slot_index s = None"
  shows "window_view (fill_slot s k p w) = (window_view w)(s \<mapsto> (k, p))"
proof
  fix t
  show "window_view (fill_slot s k p w) t = ((window_view w)(s \<mapsto> (k, p))) t"
  proof (cases "rd_slot_index t = rd_slot_index s")
    case True
    then show ?thesis
      using assms stored_payload_splice_same [of w "rd_slot_index s" p]
      by (auto simp: window_view_def fill_slot_def window_inv_lengths)
  next
    case False
    then show ?thesis
      using assms slot_okD [OF assms(1), of "rd_slot_index t"]
        stored_payload_splice_other [of w "rd_slot_index s" "rd_slot_index t" p]
      by (auto simp: window_view_def fill_slot_def window_inv_lengths split: option.split)
  qed
qed

lemma clear_slot_inv:
  assumes "window_inv w" "rw_slots w ! rd_slot_index s = Some slot"
  shows "window_inv (clear_slot s slot w)"
proof (rule window_invI)
  show "length (rw_payloads (clear_slot s slot w)) = REORDER_SLOTS * MAX_PAYLOAD_LEN"
    using payload_fits [of "rd_slot_index s" "rs_length slot"] slot_okD [OF assms]
    by (simp add: clear_slot_def window_inv_lengths [OF assms(1)])
next
  fix i t assume *: "i < REORDER_SLOTS" "rw_slots (clear_slot s slot w) ! i = Some t"
  then show "rd_slot_index (rs_sequence t) = i \<and> rs_length t \<le> MAX_PAYLOAD_LEN
       \<and> unat (rw_next (clear_slot s slot w)) \<le> unat (rs_sequence t)
       \<and> unat (rs_sequence t) < unat (rw_next (clear_slot s slot w)) + REORDER_SLOTS"
    using slot_okD [OF assms(1), of i t] window_inv_lengths [OF assms(1)]
    by (cases "i = rd_slot_index s") (auto simp: clear_slot_def)
qed (use assms in \<open>simp add: clear_slot_def window_inv_lengths\<close>)

lemma clear_slot_view:
  assumes "window_inv w" "rw_slots w ! rd_slot_index s = Some slot" "rs_sequence slot = s"
  shows "window_view (clear_slot s slot w) = (window_view w)(s := None)"
proof
  fix t
  show "window_view (clear_slot s slot w) t = ((window_view w)(s := None)) t"
  proof (cases "rd_slot_index t = rd_slot_index s")
    case True
    then show ?thesis using assms by (auto simp: window_view_def clear_slot_def window_inv_lengths)
  next
    case False
    then show ?thesis
      using assms slot_okD [OF assms(1), of "rd_slot_index t"] slot_okD [OF assms(1,2)]
        stored_payload_splice_other [of w "rd_slot_index s" "rd_slot_index t" "replicate (rs_length slot) 0"]
      by (auto simp: window_view_def clear_slot_def window_inv_lengths split: option.split)
  qed
qed

text \<open>The result of an offer and the view after it, from the epoch, the next number and the view.\<close>

definition offer_result :: "u64 \<Rightarrow> u64 \<Rightarrow> (u64 \<Rightarrow> (udp_kind \<times> bytes) option) \<Rightarrow> rd_data \<Rightarrow> rd_error + rd_offer" where
  "offer_result epoch expected view d =
     (if rd_epoch d \<noteq> epoch then Inr (if rd_epoch d < epoch then Offer_StaleEpoch else Offer_FutureEpoch)
      else if rd_sequence d < expected then Inr Offer_Duplicate
      else if 2 ^ 64 \<le> unat expected + 64 then Inl Rde_SequenceOverflow
      else if unat expected + 64 \<le> unat (rd_sequence d) then Inr Offer_OutsideWindow
      else if 1024 < length (rd_payload d) then Inl (Rde_PayloadBounds (rd_kind d) (length (rd_payload d)))
      else
        (case view (rd_sequence d) of
           Some v \<Rightarrow> if v = (rd_kind d, rd_payload d) then Inr Offer_Duplicate
                     else Inl (Rde_ConflictingDuplicate (rd_sequence d))
         | None \<Rightarrow> Inr (if rd_sequence d = expected then Offer_Ready else Offer_FutureStored)))"

definition offer_stores :: "rd_error + rd_offer \<Rightarrow> bool" where
  "offer_stores r \<longleftrightarrow> r = Inr Offer_Ready \<or> r = Inr Offer_FutureStored"

lemma checked_add_u64_lt:
  "checked_add_u64 a n = Some b \<Longrightarrow> unat b = unat a + n"
  by (auto simp: checked_add_u64_def unat_word_ariths unat_of_nat take_bit_nat_eq_self take_bit_eq_mod split: if_splits)

lemma window_offer_cases:
  assumes inv: "window_inv w"
  shows "snd (window_offer d w) = offer_result (rw_epoch w) (rw_next w) (window_view w) d
    \<and> fst (window_offer d w)
       = (if offer_stores (snd (window_offer d w)) then fill_slot (rd_sequence d) (rd_kind d) (rd_payload d) w else w)"
proof (cases "rd_epoch d = rw_epoch w \<and> rw_next w \<le> rd_sequence d \<and> unat (rw_next w) + 64 < 2 ^ 64
              \<and> unat (rd_sequence d) < unat (rw_next w) + 64")
  case False
  then consider "rd_epoch d < rw_epoch w" | "rd_epoch d > rw_epoch w"
    | "rd_epoch d = rw_epoch w" "rd_sequence d < rw_next w"
    | "rd_epoch d = rw_epoch w" "\<not> rd_sequence d < rw_next w" "2 ^ 64 \<le> unat (rw_next w) + 64"
    | "rd_epoch d = rw_epoch w" "\<not> rd_sequence d < rw_next w" "unat (rw_next w) + 64 < 2 ^ 64"
      "unat (rw_next w) + 64 \<le> unat (rd_sequence d)"
    by (metis linorder_neqE not_le)
  then show ?thesis
  proof cases
    case 4
    then have "checked_add_u64 (rw_next w) REORDER_SLOTS = None" by (simp add: checked_add_u64_def REORDER_SLOTS_def)
    with 4 show ?thesis by (simp add: window_offer_def offer_result_def offer_stores_def)
  next
    case 5
    then obtain e where e: "checked_add_u64 (rw_next w) REORDER_SLOTS = Some e" "unat e = unat (rw_next w) + 64"
      by (auto simp: checked_add_u64_def REORDER_SLOTS_def unat_word_ariths)
    with 5 have "e \<le> rd_sequence d" by (simp add: word_le_nat_alt)
    with 5 e show ?thesis by (simp add: window_offer_def offer_result_def offer_stores_def)
  qed (auto simp: window_offer_def offer_result_def offer_stores_def)
next
  case True
  then have u: "unat (rw_next w) \<le> unat (rd_sequence d)" "unat (rd_sequence d) < unat (rw_next w) + REORDER_SLOTS"
    by (simp_all add: word_le_nat_alt REORDER_SLOTS_def)
  obtain e where e: "checked_add_u64 (rw_next w) REORDER_SLOTS = Some e" "unat e = unat (rw_next w) + 64"
    using True by (auto simp: checked_add_u64_def REORDER_SLOTS_def unat_word_ariths)
  have lt: "\<not> rd_sequence d < rw_next w" "\<not> e \<le> rd_sequence d"
    using True e by (auto simp: word_le_nat_alt word_less_nat_alt)
  show ?thesis
  proof (cases "rw_slots w ! rd_slot_index (rd_sequence d)")
    case None
    with True e lt window_view_cases [OF inv u] show ?thesis
      by (auto simp: window_offer_def offer_result_def offer_stores_def fill_slot_def Let_def MAX_PAYLOAD_LEN_def)
  next
    case (Some slot)
    with True e lt window_view_cases [OF inv u] slot_at_sequence [OF inv u Some] show ?thesis
      by (auto simp: window_offer_def offer_result_def offer_stores_def Let_def MAX_PAYLOAD_LEN_def)
  qed
qed

lemma offer_stores_range:
  "offer_stores (offer_result e x view d) \<Longrightarrow>
   view (rd_sequence d) = None \<and> unat x \<le> unat (rd_sequence d) \<and> unat (rd_sequence d) < unat x + REORDER_SLOTS
   \<and> length (rd_payload d) \<le> MAX_PAYLOAD_LEN \<and> rd_epoch d = e"
  by (auto simp: offer_stores_def offer_result_def word_le_nat_alt word_less_nat_alt REORDER_SLOTS_def MAX_PAYLOAD_LEN_def
      split: if_splits option.splits)

lemma view_None_slot:
  assumes "window_inv w" "unat (rw_next w) \<le> unat s" "unat s < unat (rw_next w) + REORDER_SLOTS" "window_view w s = None"
  shows "rw_slots w ! rd_slot_index s = None"
  using window_view_cases [OF assms(1-3)] assms(4) by simp

lemma window_offer_spec:
  assumes inv: "window_inv w"
  shows "window_inv (fst (window_offer d w))
    \<and> rw_epoch (fst (window_offer d w)) = rw_epoch w \<and> rw_next (fst (window_offer d w)) = rw_next w
    \<and> snd (window_offer d w) = offer_result (rw_epoch w) (rw_next w) (window_view w) d
    \<and> window_view (fst (window_offer d w))
       = (if offer_stores (snd (window_offer d w))
          then (window_view w)(rd_sequence d \<mapsto> (rd_kind d, rd_payload d)) else window_view w)"
proof (cases "offer_stores (snd (window_offer d w))")
  case True
  note c = window_offer_cases [OF inv, of d]
  have r: "offer_stores (offer_result (rw_epoch w) (rw_next w) (window_view w) d)" using c True by simp
  note r = offer_stores_range [OF r]
  have "rw_slots w ! rd_slot_index (rd_sequence d) = None" using r view_None_slot [OF inv] by simp
  with c r True inv show ?thesis by (simp add: fill_slot_inv fill_slot_view) (simp add: fill_slot_def)
qed (use window_offer_cases [OF inv, of d] inv in simp)

lemma next_in_window: "unat (rw_next w) < unat (rw_next w) + REORDER_SLOTS"
  by (simp add: REORDER_SLOTS_def)

lemma window_ready_view:
  "window_inv w \<Longrightarrow>
   window_ready w = map_option (\<lambda>(k, p). \<lparr>rr_kind = k, rr_sequence = rw_next w, rr_payload = p\<rparr>) (window_view w (rw_next w))"
  by (auto simp: window_ready_def window_view_def Let_def split: option.split)

lemma window_advance_inv:
  assumes "window_inv w" "window_view w (rw_next w) = None" "unat (rw_next w) + 1 < 2 ^ 64"
  shows "window_inv (w\<lparr>rw_next := rw_next w + 1\<rparr>)"
proof (rule window_invI)
  fix i slot assume *: "i < REORDER_SLOTS" "rw_slots (w\<lparr>rw_next := rw_next w + 1\<rparr>) ! i = Some slot"
  have u: "unat (rw_next w + 1) = unat (rw_next w) + 1" using assms(3) by (simp add: unat_word_ariths)
  have n: "rw_slots w ! rd_slot_index (rw_next w) = None" using view_None_slot [OF assms(1) _ next_in_window assms(2)] by simp
  have "rs_sequence slot \<noteq> rw_next w" using n * slot_okD [OF assms(1), of i slot] by auto
  then have "unat (rs_sequence slot) \<noteq> unat (rw_next w)" by (simp add: word_unat_eq_iff)
  then show "rd_slot_index (rs_sequence slot) = i \<and> rs_length slot \<le> MAX_PAYLOAD_LEN
       \<and> unat (rw_next (w\<lparr>rw_next := rw_next w + 1\<rparr>)) \<le> unat (rs_sequence slot)
       \<and> unat (rs_sequence slot) < unat (rw_next (w\<lparr>rw_next := rw_next w + 1\<rparr>)) + REORDER_SLOTS"
    using * slot_okD [OF assms(1), of i slot] u by auto
qed (use assms in \<open>simp_all add: window_inv_lengths\<close>)

lemma window_view_next_update [simp]: "window_view (w\<lparr>rw_next := n\<rparr>) = window_view w"
  by (simp add: window_view_def stored_payload_def fun_eq_iff split: option.split)

text \<open>A commit accepts the next number only, removes its record and advances by one.\<close>

definition commit_result :: "u64 \<Rightarrow> (u64 \<Rightarrow> (udp_kind \<times> bytes) option) \<Rightarrow> u64 \<Rightarrow> rd_error option" where
  "commit_result expected view s =
     (if view expected = None then Some Rde_NoReadyRecord
      else if s \<noteq> expected then Some (Rde_CommitSequence expected s)
      else if unat expected + 1 = 2 ^ 64 then Some Rde_SequenceOverflow
      else None)"

lemma commit_ready_refused:
  assumes "window_inv w" "window_view w (rw_next w) = None \<or> s \<noteq> rw_next w"
  shows "commit_ready s w = (w, Inl (if window_view w (rw_next w) = None then Rde_NoReadyRecord
                                     else Rde_CommitSequence (rw_next w) s))"
  using assms window_view_cases [OF assms(1) _ next_in_window] slot_at_sequence [OF assms(1) _ next_in_window]
  by (auto simp: commit_ready_def Let_def split: option.split)

lemma commit_ready_accepted:
  assumes inv: "window_inv w" and v: "window_view w (rw_next w) = Some v"
    and lt: "unat (rw_next w) + 1 < 2 ^ 64"
  shows "\<exists>w'. commit_ready (rw_next w) w = (w', Inr (window_acknowledgement w'))
    \<and> window_inv w' \<and> rw_epoch w' = rw_epoch w \<and> rw_next w' = rw_next w + 1
    \<and> window_view w' = (window_view w)(rw_next w := None)"
proof -
  obtain slot where slot: "rw_slots w ! rd_slot_index (rw_next w) = Some slot" "rs_sequence slot = rw_next w"
    using v by (auto simp: window_view_def split: option.splits if_splits)
  define c where "c = clear_slot (rw_next w) slot w"
  have c: "window_inv c" "window_view c = (window_view w)(rw_next w := None)" "rw_next c = rw_next w" "rw_epoch c = rw_epoch w"
    using clear_slot_inv [OF inv slot(1)] clear_slot_view [OF inv slot] by (simp_all add: c_def) (simp_all add: clear_slot_def)
  have "commit_ready (rw_next w) w = (c\<lparr>rw_next := rw_next w + 1\<rparr>, Inr (window_acknowledgement (c\<lparr>rw_next := rw_next w + 1\<rparr>)))"
    using slot lt unfolding commit_ready_def c_def clear_slot_def
    by (simp add: Let_def checked_add_u64_def)
  moreover have "window_inv (c\<lparr>rw_next := rw_next w + 1\<rparr>)"
    using window_advance_inv [of c] c lt by simp
  ultimately show ?thesis using c by simp
qed

lemma commit_ready_inv:
  assumes inv: "window_inv w"
  shows "window_inv (fst (commit_ready s w)) \<and> rw_epoch (fst (commit_ready s w)) = rw_epoch w"
proof (cases "window_view w (rw_next w) = None \<or> s \<noteq> rw_next w")
  case True
  then show ?thesis using commit_ready_refused [OF inv] inv by auto
next
  case False
  then obtain v where v: "window_view w (rw_next w) = Some v" and s: "s = rw_next w" by auto
  show ?thesis
  proof (cases "unat (rw_next w) + 1 < 2 ^ 64")
    case True
    with commit_ready_accepted [OF inv v] s show ?thesis by fastforce
  next
    case False
    obtain slot where slot: "rw_slots w ! rd_slot_index (rw_next w) = Some slot" "rs_sequence slot = rw_next w"
      using v by (auto simp: window_view_def split: option.splits if_splits)
    have "fst (commit_ready s w) = clear_slot (rw_next w) slot w"
      using slot False s unfolding commit_ready_def clear_slot_def by (simp add: Let_def checked_add_u64_def)
    then show ?thesis using clear_slot_inv [OF inv slot(1)] by simp (simp add: clear_slot_def)
  qed
qed

section \<open>The acknowledgement\<close>

lemma ack_scan_bit:
  assumes inv: "window_inv w" and b: "b < 64"
  shows "(\<forall>i\<in>set is. i < 64) \<Longrightarrow> sorted is \<Longrightarrow>
    bit (ack_scan w is bits) b \<longleftrightarrow>
      bit bits b \<or> b \<in> set is \<and> unat (rw_next w) + b < 2 ^ 64 \<and> window_view w (rw_next w + of_nat b) \<noteq> None"
proof (induction "is" arbitrary: bits)
  case (Cons i "is")
  show ?case
  proof (cases "checked_add_u64 (rw_next w) i")
    case None
    then have "2 ^ 64 \<le> unat (rw_next w) + i" by (simp add: checked_add_u64_def not_less split: if_splits)
    with None Cons.prems show ?thesis by auto
  next
    case (Some s)
    then have s: "unat (rw_next w) + i < 2 ^ 64" "s = rw_next w + of_nat i" by (auto simp: checked_add_u64_def split: if_splits)
    define bits' where "bits' = (case rw_slots w ! rd_slot_index s of
             Some slot \<Rightarrow> if rs_sequence slot = s then bits OR push_bit i 1 else bits | None \<Rightarrow> bits)"
    have bits': "bit bits' b \<longleftrightarrow> bit bits b \<or> b = i \<and> window_view w s \<noteq> None"
      using b by (auto simp: bits'_def window_view_def bit_or_iff bit_exp_iff split: option.split)
    have "ack_scan w (i # is) bits = ack_scan w is bits'" using Some by (simp add: bits'_def)
    with Cons.IH [of bits'] Cons.prems bits' s show ?thesis by auto
  qed
qed simp

lemma window_acknowledgement_bits:
  "window_inv w \<Longrightarrow> b < 64 \<Longrightarrow>
   bit (ak_bits (window_acknowledgement w)) b \<longleftrightarrow>
     unat (rw_next w) + b < 2 ^ 64 \<and> window_view w (rw_next w + of_nat b) \<noteq> None"
  using ack_scan_bit [of w b "[0..<64]" 0] by (simp add: window_acknowledgement_def REORDER_SLOTS_def)

lemma window_acknowledgement_simps [simp]:
  "ak_epoch (window_acknowledgement w) = rw_epoch w" "ak_base (window_acknowledgement w) = rw_next w"
  by (simp_all add: window_acknowledgement_def)

end
