(* ===== verification/Udp_Datagram_Window.thy ===== *)
theory Udp_Datagram_Window
  imports Udp_Datagram_Transmit
begin

text \<open>
  The transmit window's invariant and what its operations do under it: tracking, sending, retirement by a
  cumulative acknowledgement, suppression by selective bits, and the scan for due records. The
  retransmission delay is bounded.
\<close>

unbundle bit_operations_syntax

section \<open>Delays\<close>

lemma clamp_nat_bounds: "lo \<le> hi \<Longrightarrow> lo \<le> clamp_nat lo hi x \<and> clamp_nat lo hi x \<le> hi"
  by (simp add: clamp_nat_def)

lemma backed_off_le: "backed_off_micros rtt attempts \<le> MAX_BACKOFF_MICROS"
  by (simp add: backed_off_micros_def Let_def)

lemma min_u64: "(a :: nat) < 2 ^ 64 \<Longrightarrow> min a (2 ^ 64 - 1) = a"
  by (simp add: min_def)

lemma min_u64_small: "(a :: nat) \<le> 2000000000 \<Longrightarrow> min a (2 ^ 64 - 1) = a"
  by (simp add: min_def)

lemma power_shift_le: "(2::nat) ^ min n 10 \<le> 1024"
proof -
  have "(2::nat) ^ min n 10 \<le> 2 ^ 10" by (rule power_increasing) auto
  then show ?thesis by simp
qed

text \<open>The nominal delay without the 64-bit arithmetic: twice the round trip (at least the round trip and
  a delayed acknowledgement), doubled per further attempt, at most a minute.\<close>

lemma backed_off_exact:
  assumes "rtt < 2 ^ 64"
  shows "backed_off_micros rtt attempts =
    (let r = if rtt = 0 then 100000 else rtt
     in min 60000000 (min 60000000 (max 2000 (max (2 * r) (r + 1000))) * 2 ^ min (unat attempts - 1) 10))"
proof -
  have c: "clamp_nat 2000 60000000 (max (min (r * 2) (2 ^ 64 - 1)) (min (r + 1000) (2 ^ 64 - 1)))
          = min 60000000 (max 2000 (max (2 * r) (r + 1000)))" for r :: nat
    by (auto simp: clamp_nat_def max_def min_def)
  have "min 60000000 x * 2 ^ min n 10 < 2 ^ 64" for x n :: nat
  proof -
    have "min 60000000 x * 2 ^ min n 10 \<le> 60000000 * 1024"
      by (rule mult_le_mono) (auto intro: power_shift_le)
    then show ?thesis by simp
  qed
  then have m: "min (min 60000000 x * 2 ^ min n 10) (2 ^ 64 - 1) = min 60000000 x * 2 ^ min n 10" for x n :: nat
    by (rule min_u64)
  show ?thesis
    unfolding backed_off_micros_def Let_def saturating_mul_usize_def saturating_add_usize_def
      MIN_RTO_MICROS_def MAX_BACKOFF_MICROS_def PRE_SAMPLE_RTT_MICROS_def DELAYED_ACK_MICROS_def c m
    by (rule min.commute)
qed

lemma retransmission_delay_bounds:
  "MIN_RTO_MICROS \<le> retransmission_delay_micros rtt attempts seed s
   \<and> retransmission_delay_micros rtt attempts seed s \<le> MAX_BACKOFF_MICROS"
  unfolding retransmission_delay_micros_def Let_def
  by (rule clamp_nat_bounds) (simp add: MIN_RTO_MICROS_def MAX_BACKOFF_MICROS_def)

lemma clamp_jitter:
  assumes "b \<le> 60000000" "d \<le> b" "m \<le> d * 2"
  shows "b - d \<le> clamp_nat 2000 60000000 (b - d + m) \<and> clamp_nat 2000 60000000 (b - d + m) \<le> max 2000 (b + d)"
proof -
  have "b - d + m \<le> b + d" "b - d \<le> b - d + m" using assms by linarith+
  with assms(1) show ?thesis unfolding clamp_nat_def max_def by (split if_split)+ linarith
qed

text \<open>The jitter is at most a tenth of the nominal delay in either direction.\<close>

lemma retransmission_delay_jitter:
  "backed_off_micros rtt attempts - backed_off_micros rtt attempts div 10 \<le> retransmission_delay_micros rtt attempts seed s
   \<and> retransmission_delay_micros rtt attempts seed s
     \<le> max MIN_RTO_MICROS (backed_off_micros rtt attempts + backed_off_micros rtt attempts div 10)"
proof -
  let ?b = "backed_off_micros rtt attempts"
  have b: "?b \<le> 60000000" using backed_off_le [of rtt attempts] by (simp add: MAX_BACKOFF_MICROS_def)
  let ?m = "unat (mix64 (seed XOR s XOR ucast attempts)) mod (?b div 10 * 2 + 1)"
  have m: "?m \<le> ?b div 10 * 2" using mod_less_divisor [of "?b div 10 * 2 + 1" "unat (mix64 (seed XOR s XOR ucast attempts))"] by linarith
  have w1: "min (?b div 10 * 2) (2 ^ 64 - 1) = ?b div 10 * 2" by (rule min_u64_small) (use b in linarith)
  have w2: "min (?b div 10 * 2 + 1) (2 ^ 64 - 1) = ?b div 10 * 2 + 1" by (rule min_u64_small) (use b in linarith)
  have a: "min (?b - ?b div 10 + ?m) (2 ^ 64 - 1) = ?b - ?b div 10 + ?m"
    by (rule min_u64_small) (use b m in linarith)
  have "retransmission_delay_micros rtt attempts seed s = clamp_nat 2000 60000000 (?b - ?b div 10 + ?m)"
    unfolding retransmission_delay_micros_def Let_def saturating_mul_usize_def saturating_add_usize_def w1 w2 a
      MIN_RTO_MICROS_def MAX_BACKOFF_MICROS_def ..
  with clamp_jitter [OF b _ m] show ?thesis by (simp only: MIN_RTO_MICROS_def div_le_dividend)
qed

section \<open>The invariant\<close>

definition transmit_entry :: "transmit_window \<Rightarrow> u64 \<Rightarrow> transmit_slot option" where
  "transmit_entry w s =
     (case tw_slots w ! transmit_slot_index s (length (tw_slots w)) of
        None \<Rightarrow> None
      | Some slot \<Rightarrow> if ts_sequence slot = s then Some slot else None)"

definition transmit_live :: "transmit_window \<Rightarrow> u64 \<Rightarrow> bool" where
  "transmit_live w s \<longleftrightarrow> unat (tw_first w) \<le> unat s \<and> unat s < unat (tw_next w)"

definition transmit_slots_ok :: "transmit_window \<Rightarrow> bool" where
  "transmit_slots_ok w \<longleftrightarrow>
     0 < length (tw_slots w) \<and> unat (tw_first w) \<le> unat (tw_next w)
     \<and> unat (tw_next w) \<le> unat (tw_first w) + length (tw_slots w)
     \<and> (\<forall>i < length (tw_slots w). \<forall>slot. tw_slots w ! i = Some slot \<longrightarrow>
          transmit_slot_index (ts_sequence slot) (length (tw_slots w)) = i \<and> transmit_live w (ts_sequence slot))
     \<and> (\<forall>s. transmit_live w s \<longrightarrow> tw_slots w ! transmit_slot_index s (length (tw_slots w)) \<noteq> None)"

definition transmit_selective_ok :: "transmit_window \<Rightarrow> bool" where
  "transmit_selective_ok w \<longleftrightarrow>
     tw_selective_base w = tw_first w
     \<and> (\<forall>b < 64. bit (tw_selective_bits w) b \<longrightarrow> unat (tw_first w) + b < unat (tw_next w))
     \<and> (tw_selective_observed w = None \<longleftrightarrow> tw_selective_bits w = 0)"

definition transmit_inv :: "transmit_window \<Rightarrow> bool" where
  "transmit_inv w \<longleftrightarrow> transmit_slots_ok w \<and> transmit_selective_ok w"

lemma transmit_index_less: "0 < c \<Longrightarrow> transmit_slot_index s c < c"
  by (simp add: transmit_slot_index_def)

lemma transmit_index_inj:
  assumes "transmit_slot_index s c = transmit_slot_index t c" "unat n \<le> unat s" "unat s < unat n + c"
    "unat n \<le> unat t" "unat t < unat n + c"
  shows "s = t"
  using mod_window_inj [of "unat s" c "unat t" "unat n"] assms
  by (simp add: transmit_slot_index_def word_unat_eq_iff)

lemma transmit_len_nat: "transmit_slots_ok w \<Longrightarrow> transmit_len w = unat (tw_next w) - unat (tw_first w)"
  by (simp add: transmit_len_def transmit_slots_ok_def unat_sub word_le_nat_alt)

lemma transmit_slots_okD:
  "transmit_slots_ok w \<Longrightarrow> 0 < length (tw_slots w)"
  "transmit_slots_ok w \<Longrightarrow> unat (tw_first w) \<le> unat (tw_next w)"
  "transmit_slots_ok w \<Longrightarrow> unat (tw_next w) \<le> unat (tw_first w) + length (tw_slots w)"
  by (simp_all add: transmit_slots_ok_def)

lemma transmit_len_le: "transmit_slots_ok w \<Longrightarrow> transmit_len w \<le> length (tw_slots w)"
  using transmit_len_nat [of w] transmit_slots_okD(3) [of w] by linarith

lemma transmit_slot_live:
  assumes "transmit_slots_ok w" "transmit_live w s"
  obtains slot where "tw_slots w ! transmit_slot_index s (length (tw_slots w)) = Some slot" "ts_sequence slot = s"
proof -
  let ?c = "length (tw_slots w)"
  obtain slot where slot: "tw_slots w ! transmit_slot_index s ?c = Some slot"
    using assms by (auto simp: transmit_slots_ok_def)
  then have "transmit_slot_index (ts_sequence slot) ?c = transmit_slot_index s ?c" "transmit_live w (ts_sequence slot)"
    using assms(1) transmit_index_less [of ?c s] by (auto simp: transmit_slots_ok_def)
  then have "ts_sequence slot = s"
    using transmit_index_inj [of "ts_sequence slot" ?c s "tw_first w"] assms
    by (simp add: transmit_live_def transmit_slots_ok_def)
  with slot that show ?thesis by blast
qed

lemma transmit_entry_live:
  assumes "transmit_slots_ok w"
  shows "transmit_entry w s \<noteq> None \<longleftrightarrow> transmit_live w s"
proof
  assume "transmit_live w s"
  with assms obtain slot where "tw_slots w ! transmit_slot_index s (length (tw_slots w)) = Some slot" "ts_sequence slot = s"
    by (rule transmit_slot_live)
  then show "transmit_entry w s \<noteq> None" by (simp add: transmit_entry_def)
next
  assume "transmit_entry w s \<noteq> None"
  then obtain slot where slot: "tw_slots w ! transmit_slot_index s (length (tw_slots w)) = Some slot" "ts_sequence slot = s"
    by (auto simp: transmit_entry_def split: option.splits if_splits)
  moreover have "transmit_slot_index s (length (tw_slots w)) < length (tw_slots w)"
    using assms transmit_index_less [of "length (tw_slots w)" s] unfolding transmit_slots_ok_def by blast
  ultimately show "transmit_live w s" using assms unfolding transmit_slots_ok_def by metis
qed

lemma transmit_window_new_Inr:
  "transmit_window_new alloc e f c seed = Inr w \<Longrightarrow>
   transmit_inv w \<and> tw_epoch w = e \<and> tw_first w = f \<and> tw_next w = f \<and> length (tw_slots w) = c"
  by (auto simp: transmit_window_new_def transmit_inv_def transmit_slots_ok_def transmit_live_def
      transmit_selective_ok_def split: if_splits)

text \<open>The window is exactly a finite map from the live numbers to their timing.\<close>

lemma transmit_slots_okI:
  assumes "length (tw_slots w) = c" "0 < c" "unat (tw_first w) \<le> unat (tw_next w)"
    "unat (tw_next w) \<le> unat (tw_first w) + c"
    "\<And>i slot. i < c \<Longrightarrow> tw_slots w ! i = Some slot \<Longrightarrow>
       transmit_slot_index (ts_sequence slot) c = i \<and> transmit_live w (ts_sequence slot)"
    "\<And>s. transmit_live w s \<Longrightarrow> tw_slots w ! transmit_slot_index s c \<noteq> None"
  shows "transmit_slots_ok w"
  using assms by (simp add: transmit_slots_ok_def)

lemma transmit_slot_okD:
  "transmit_slots_ok w \<Longrightarrow> i < length (tw_slots w) \<Longrightarrow> tw_slots w ! i = Some slot \<Longrightarrow>
   transmit_slot_index (ts_sequence slot) (length (tw_slots w)) = i \<and> transmit_live w (ts_sequence slot)"
  by (simp add: transmit_slots_ok_def)

lemma transmit_live_slot:
  "transmit_slots_ok w \<Longrightarrow> transmit_live w s \<Longrightarrow> tw_slots w ! transmit_slot_index s (length (tw_slots w)) \<noteq> None"
  by (simp add: transmit_slots_ok_def)

lemma update_nth_Some: "j < length xs \<Longrightarrow> (j \<noteq> i \<Longrightarrow> xs ! j \<noteq> None) \<Longrightarrow> xs[i := Some v] ! j \<noteq> None"
  by (cases "i = j") auto

section \<open>Tracking and sending\<close>

definition track_result :: "transmit_window \<Rightarrow> u64 \<Rightarrow> rd_error + unit" where
  "track_result w s =
     (if s \<noteq> tw_next w then Inl (Rde_Sequence (tw_next w) s)
      else if s = - 1 then Inl Rde_SequenceOverflow
      else if unat (tw_next w) - unat (tw_first w) = length (tw_slots w) then Inl Rde_QueueFull
      else Inr ())"

definition fresh_slot :: "u64 \<Rightarrow> transmit_slot" where
  "fresh_slot s = \<lparr>ts_sequence = s, ts_sent_at = None, ts_attempts = 0\<rparr>"

lemma track_slot_free:
  assumes "transmit_slots_ok w" "unat (tw_next w) < unat (tw_first w) + length (tw_slots w)"
  shows "tw_slots w ! transmit_slot_index (tw_next w) (length (tw_slots w)) = None"
proof (rule ccontr)
  let ?c = "length (tw_slots w)"
  assume "\<not> ?thesis"
  then obtain slot where slot: "tw_slots w ! transmit_slot_index (tw_next w) ?c = Some slot" by auto
  note i = transmit_index_less [OF transmit_slots_okD(1) [OF assms(1)], of "tw_next w"]
  note ok = transmit_slot_okD [OF assms(1) i slot]
  then have "ts_sequence slot = tw_next w"
    using transmit_index_inj [of "ts_sequence slot" ?c "tw_next w" "tw_first w"] assms(2) transmit_slots_okD(2) [OF assms(1)]
    by (simp add: transmit_live_def)
  with ok show False by (simp add: transmit_live_def)
qed

lemma transmit_track_ok:
  assumes ok: "transmit_slots_ok w" and s: "track_result w s = Inr ()"
  shows "transmit_track s w =
    (w\<lparr>tw_slots := (tw_slots w)[transmit_slot_index s (length (tw_slots w)) := Some (fresh_slot s)],
       tw_next := tw_next w + 1\<rparr>, Inr ())"
proof -
  have s': "s = tw_next w" "s \<noteq> - 1" "unat (tw_next w) - unat (tw_first w) \<noteq> length (tw_slots w)"
    using s by (auto simp: track_result_def split: if_splits)
  then have lt: "unat (tw_next w) < unat (tw_first w) + length (tw_slots w)"
    using transmit_slots_okD [OF ok] by linarith
  have "unat (tw_next w) < 2 ^ LENGTH(64)" by (rule unsigned_less)
  then have "unat (tw_next w) + 1 < 2 ^ 64"
    using s' unat_max_iff_64 [of "tw_next w"] by simp
  then have "checked_add_u64 (tw_next w) 1 = Some (tw_next w + 1)" by (simp add: checked_add_u64_def)
  with s' track_slot_free [OF ok lt] transmit_len_nat [OF ok] show ?thesis
    by (simp add: transmit_track_def Let_def fresh_slot_def)
qed

lemma transmit_track_refused:
  assumes ok: "transmit_slots_ok w" and s: "track_result w s = Inl e"
  shows "transmit_track s w = (w, Inl e)"
  using s transmit_len_nat [OF ok] by (auto simp: transmit_track_def track_result_def split: if_splits)

lemma transmit_track_slots_ok:
  assumes ok: "transmit_slots_ok w" and s: "track_result w s = Inr ()"
  shows "transmit_slots_ok (fst (transmit_track s w))"
proof -
  let ?c = "length (tw_slots w)"
  have s': "s = tw_next w" "s \<noteq> - 1" "unat (tw_next w) - unat (tw_first w) \<noteq> ?c"
    using s by (auto simp: track_result_def split: if_splits)
  have u: "unat (tw_next w + 1) = Suc (unat (tw_next w))" using s' unat_Suc_64 [of "tw_next w"] by simp
  note c = transmit_slots_okD [OF ok]
  show ?thesis
  proof (rule transmit_slots_okI [where c = ?c])
    fix i slot assume i: "i < ?c" "tw_slots (fst (transmit_track s w)) ! i = Some slot"
    then show "transmit_slot_index (ts_sequence slot) ?c = i \<and> transmit_live (fst (transmit_track s w)) (ts_sequence slot)"
      using c u transmit_track_ok [OF ok s] s' transmit_slot_okD [OF ok i(1), of slot]
      by (cases "i = transmit_slot_index s ?c") (auto simp: transmit_live_def fresh_slot_def)
  next
    fix t assume t: "transmit_live (fst (transmit_track s w)) t"
    then have "t = s \<or> transmit_live w t"
      using transmit_track_ok [OF ok s] u s' by (auto simp: transmit_live_def word_unat_eq_iff)
    then have "transmit_slot_index t ?c \<noteq> transmit_slot_index s ?c \<Longrightarrow> tw_slots w ! transmit_slot_index t ?c \<noteq> None"
      using transmit_live_slot [OF ok] by blast
    then have "(tw_slots w)[transmit_slot_index s ?c := Some (fresh_slot s)] ! transmit_slot_index t ?c \<noteq> None"
      by (rule update_nth_Some [OF transmit_index_less [OF c(1)]])
    then show "tw_slots (fst (transmit_track s w)) ! transmit_slot_index t ?c \<noteq> None"
      using transmit_track_ok [OF ok s] by simp
  qed (use c s' u transmit_track_ok [OF ok s] in auto)
qed

lemma transmit_track_inv:
  assumes inv: "transmit_inv w"
  shows "transmit_inv (fst (transmit_track s w)) \<and> snd (transmit_track s w) = track_result w s
    \<and> tw_first (fst (transmit_track s w)) = tw_first w \<and> tw_epoch (fst (transmit_track s w)) = tw_epoch w
    \<and> length (tw_slots (fst (transmit_track s w))) = length (tw_slots w)
    \<and> unat (tw_next (fst (transmit_track s w))) = unat (tw_next w) + (if track_result w s = Inr () then 1 else 0)"
proof -
  have ok: "transmit_slots_ok w" using inv by (simp add: transmit_inv_def)
  show ?thesis
  proof (cases "track_result w s")
    case (Inl e)
    with transmit_track_refused [OF ok Inl] inv show ?thesis by simp
  next
    case (Inr x)
    then have s: "track_result w s = Inr ()" by simp
    then have "tw_next w \<noteq> - 1" by (auto simp: track_result_def split: if_splits)
    then have u: "unat (tw_next w + 1) = Suc (unat (tw_next w))" by (rule unat_Suc_64)
    with s transmit_track_ok [OF ok s] transmit_track_slots_ok [OF ok s] inv show ?thesis
      by (auto simp: transmit_inv_def transmit_selective_ok_def less_Suc_eq)
  qed
qed

lemma transmit_mark_sent_inv:
  assumes inv: "transmit_inv w"
  shows "transmit_inv (fst (transmit_mark_sent s now w))
    \<and> snd (transmit_mark_sent s now w) = (if transmit_live w s then Inr () else Inl (Rde_UnknownSequence s))
    \<and> tw_first (fst (transmit_mark_sent s now w)) = tw_first w \<and> tw_next (fst (transmit_mark_sent s now w)) = tw_next w
    \<and> tw_epoch (fst (transmit_mark_sent s now w)) = tw_epoch w"
proof (cases "transmit_live w s")
  case False
  then show ?thesis using inv
    by (auto simp: transmit_mark_sent_def transmit_live_def word_less_nat_alt word_le_nat_alt)
next
  case True
  let ?c = "length (tw_slots w)"
  have ok: "transmit_slots_ok w" using inv by (simp add: transmit_inv_def)
  from ok True obtain slot where slot: "tw_slots w ! transmit_slot_index s ?c = Some slot" "ts_sequence slot = s"
    by (rule transmit_slot_live)
  define w' where "w' = w\<lparr>tw_slots := (tw_slots w)[transmit_slot_index s ?c := Some (slot\<lparr>ts_sent_at := Some now,
                    ts_attempts := saturating_inc_u16 (ts_attempts slot)\<rparr>)]\<rparr>"
  have eq: "transmit_mark_sent s now w = (w', Inr ())"
    using True slot by (simp add: transmit_mark_sent_def w'_def transmit_live_def word_less_nat_alt word_le_nat_alt Let_def)
  have live: "transmit_live w' = transmit_live w" by (simp add: w'_def transmit_live_def fun_eq_iff)
  have "transmit_slots_ok w'"
  proof (rule transmit_slots_okI [where c = ?c])
    fix i sl assume i: "i < ?c" "tw_slots w' ! i = Some sl"
    show "transmit_slot_index (ts_sequence sl) ?c = i \<and> transmit_live w' (ts_sequence sl)"
    proof (cases "i = transmit_slot_index s ?c")
      case True
      then show ?thesis using i slot \<open>transmit_live w s\<close> live by (auto simp: w'_def)
    next
      case False
      then have "tw_slots w ! i = Some sl" using i by (simp add: w'_def)
      then show ?thesis using transmit_slot_okD [OF ok i(1)] live by simp
    qed
  next
    fix t assume "transmit_live w' t"
    then have t: "transmit_live w t" using live by simp
    show "tw_slots w' ! transmit_slot_index t ?c \<noteq> None"
      unfolding w'_def using transmit_live_slot [OF ok t]
      by (simp del: not_None_eq) (rule update_nth_Some [OF transmit_index_less [OF transmit_slots_okD(1) [OF ok]]])
  qed (use transmit_slots_okD [OF ok] in \<open>simp_all add: w'_def\<close>)
  moreover have "transmit_selective_ok w'" using inv by (simp add: w'_def transmit_inv_def transmit_selective_ok_def)
  moreover have "tw_first w' = tw_first w" "tw_next w' = tw_next w" "tw_epoch w' = tw_epoch w" by (simp_all add: w'_def)
  ultimately show ?thesis using eq True by (simp add: transmit_inv_def)
qed

end
