(* ===== verification/Udp_Datagram_Retire.thy ===== *)
theory Udp_Datagram_Retire
  imports Udp_Datagram_Window
begin

text \<open>
  Acknowledgements and the due scan of the transmit window: which acknowledgements are accepted, what
  they retire, that selective bits retire nothing, and that the scan yields the first due records of the
  window in rotated order.
\<close>

unbundle bit_operations_syntax

section \<open>Selective bits\<close>

lemma length_takeWhile_lt: "\<exists>i\<in>set xs. \<not> P i \<Longrightarrow> length (takeWhile P xs) < length xs"
  by (induction xs) auto

lemma leading_zeros_top:
  assumes "(x :: u64) \<noteq> 0"
  shows "leading_zeros_u64 x < 64 \<and> bit x (63 - leading_zeros_u64 x)
    \<and> (\<forall>b < 64. bit x b \<longrightarrow> b \<le> 63 - leading_zeros_u64 x)"
proof -
  let ?P = "\<lambda>i. \<not> bit x (63 - i)"
  obtain k where k: "bit x k" "k < 64" using assms bit_eqI [of x 0] bit_imp_le_length by fastforce
  then have "\<exists>i\<in>set [0..<64]. \<not> ?P i" by (intro bexI [of _ "63 - k"]) simp_all
  then have l: "leading_zeros_u64 x < 64"
    unfolding leading_zeros_u64_def using length_takeWhile_lt [of "[0..<64]" ?P] by simp
  then have top: "bit x (63 - leading_zeros_u64 x)"
    using nth_length_takeWhile [of ?P "[0..<64]"] by (simp add: leading_zeros_u64_def)
  have "\<not> bit x (63 - i)" if "i < leading_zeros_u64 x" for i
  proof -
    have "takeWhile ?P [0..<64] ! i \<in> set (takeWhile ?P [0..<64])"
      using that by (simp add: leading_zeros_u64_def)
    moreover have "takeWhile ?P [0..<64] ! i = i"
      using that l takeWhile_nth [of i ?P "[0..<64]"] by (simp add: leading_zeros_u64_def)
    ultimately show ?thesis using set_takeWhileD [of i ?P "[0..<64]"] by simp
  qed
  note zero = this
  have "b \<le> 63 - leading_zeros_u64 x" if "b < 64" "bit x b" for b
    using zero [of "63 - b"] that l by (cases "63 - b < leading_zeros_u64 x") simp_all
  with l top show ?thesis by blast
qed

lemma validate_selective_ack_ok:
  "validate_selective_ack base bits nxt = Inr () \<longleftrightarrow> (\<forall>b < 64. bit bits b \<longrightarrow> unat base + b < unat nxt)"
proof (cases "bits = 0")
  case False
  let ?h = "63 - leading_zeros_u64 bits"
  note top = leading_zeros_top [OF False]
  have "unat nxt < 2 ^ LENGTH(64)" by (rule unsigned_less)
  then have "validate_selective_ack base bits nxt = Inr () \<longleftrightarrow> unat base + ?h < unat nxt"
    using False by (auto simp: validate_selective_ack_def checked_add_u64_def word_le_nat_alt unat_word_ariths unat_of_nat
        not_le take_bit_eq_mod)
  also have "\<dots> \<longleftrightarrow> (\<forall>b < 64. bit bits b \<longrightarrow> unat base + b < unat nxt)"
    using top by (auto intro: le_less_trans [of "unat base + _"] dest: spec [of _ ?h])
  finally show ?thesis .
qed (simp add: validate_selective_ack_def)

section \<open>Retirement\<close>

text \<open>Retiring a run of live numbers empties exactly their slots.\<close>

lemma retire_loop_ok:
  assumes "0 < length (tw_slots w)" "j \<le> k" "k \<le> length (tw_slots w)" "unat (tw_first w) + k < 2 ^ 64"
    "\<And>off. j \<le> off \<Longrightarrow> off < k \<Longrightarrow> transmit_entry w (tw_first w + of_nat off) \<noteq> None"
  shows "\<exists>ss. retire_loop [j..<k] w = (w\<lparr>tw_slots := ss\<rparr>, Inr ()) \<and> length ss = length (tw_slots w)
    \<and> (\<forall>i < length (tw_slots w).
         ss ! i = (if \<exists>off. j \<le> off \<and> off < k \<and> i = transmit_slot_index (tw_first w + of_nat off) (length (tw_slots w))
                   then None else tw_slots w ! i))"
  using assms(2) assms
proof (induction arbitrary: w rule: inc_induct)
  case base
  then show ?case by (intro exI [of _ "tw_slots w"]) auto
next
  case (step j)
  let ?c = "length (tw_slots w)" and ?s = "tw_first w + of_nat j"
  let ?i = "transmit_slot_index ?s ?c"
  have u: "unat (tw_first w + of_nat off) = unat (tw_first w) + off" if "off < k" for off
    using that step.prems(4) by (simp add: unat_word_ariths unat_of_nat take_bit_eq_mod)
  obtain slot where slot: "tw_slots w ! ?i = Some slot" "ts_sequence slot = ?s"
    using step.prems(5) [of j] step.hyps by (auto simp: transmit_entry_def split: option.splits if_splits)
  let ?w = "w\<lparr>tw_slots := (tw_slots w)[?i := None]\<rparr>"
  have first: "retire_loop [j..<k] w = retire_loop [Suc j..<k] ?w"
    using step.hyps step.prems(4) slot by (simp add: upt_conv_Cons checked_add_u64_def Let_def)
  have "transmit_entry ?w (tw_first ?w + of_nat off) \<noteq> None" if off: "Suc j \<le> off" "off < k" for off
  proof -
    have "transmit_slot_index (tw_first w + of_nat off) ?c \<noteq> ?i"
    proof
      assume "transmit_slot_index (tw_first w + of_nat off) ?c = ?i"
      then have "tw_first w + of_nat off = ?s"
        by (rule transmit_index_inj [where n = "tw_first w"])
          (use off u [of off] u [of j] step.hyps step.prems(3) in simp_all)
      then have "unat (tw_first w + of_nat off) = unat ?s" by simp
      with off u [of off] u [of j] step.hyps show False by simp
    qed
    then show ?thesis using step.prems(5) [of off] off by (simp add: transmit_entry_def)
  qed
  note entries = this
  have "\<exists>ss. retire_loop [Suc j..<k] ?w = (?w\<lparr>tw_slots := ss\<rparr>, Inr ()) \<and> length ss = length (tw_slots ?w)
    \<and> (\<forall>i < length (tw_slots ?w). ss ! i =
         (if \<exists>off. Suc j \<le> off \<and> off < k \<and> i = transmit_slot_index (tw_first ?w + of_nat off) (length (tw_slots ?w))
          then None else tw_slots ?w ! i))"
  proof (rule step.IH)
    show "transmit_entry ?w (tw_first ?w + of_nat off) \<noteq> None" if "Suc j \<le> off" "off < k" for off
      using that by (rule entries)
  qed (use step.prems step.hyps in simp_all)
  then have "\<exists>ss. retire_loop [Suc j..<k] ?w = (w\<lparr>tw_slots := ss\<rparr>, Inr ()) \<and> length ss = ?c
    \<and> (\<forall>i < ?c. ss ! i = (if \<exists>off. Suc j \<le> off \<and> off < k \<and> i = transmit_slot_index (tw_first w + of_nat off) ?c
                        then None else (tw_slots w)[?i := None] ! i))"
    by (simp cong: if_cong)
  then obtain ss where ss: "retire_loop [Suc j..<k] ?w = (w\<lparr>tw_slots := ss\<rparr>, Inr ())" "length ss = ?c"
    "\<forall>i < ?c. ss ! i = (if \<exists>off. Suc j \<le> off \<and> off < k \<and> i = transmit_slot_index (tw_first w + of_nat off) ?c
                        then None else (tw_slots w)[?i := None] ! i)"
    by blast
  have "ss ! i = (if \<exists>off. j \<le> off \<and> off < k \<and> i = transmit_slot_index (tw_first w + of_nat off) ?c
                  then None else tw_slots w ! i)" if "i < ?c" for i
  proof (cases "i = ?i")
    case True
    then show ?thesis using ss(3) that step.hyps by auto
  next
    case False
    then have "(\<exists>off. j \<le> off \<and> off < k \<and> i = transmit_slot_index (tw_first w + of_nat off) ?c)
        \<longleftrightarrow> (\<exists>off. Suc j \<le> off \<and> off < k \<and> i = transmit_slot_index (tw_first w + of_nat off) ?c)"
      using le_eq_less_or_eq Suc_le_eq by auto
    moreover have "ss ! i = (if \<exists>off. Suc j \<le> off \<and> off < k \<and> i = transmit_slot_index (tw_first w + of_nat off) ?c
        then None else tw_slots w ! i)"
      using ss(3) that False by (auto split: if_splits)
    ultimately show ?thesis by (simp only:)
  qed
  with first ss show ?case by (intro exI [of _ ss]) simp
qed

text \<open>Under the invariant an acknowledgement is refused only for a number never tracked, and an accepted one
  moves the first unacknowledged number to its base.\<close>

definition ack_result :: "transmit_window \<Rightarrow> ack_state \<Rightarrow> rd_error + ack_apply" where
  "ack_result w a =
     (if ak_epoch a \<noteq> tw_epoch w then Inr (if ak_epoch a < tw_epoch w then Ack_StaleEpoch else Ack_FutureEpoch)
      else if ak_base a < tw_first w then Inr Ack_StaleCumulative
      else if tw_next w < ak_base a then Inl (Rde_AckAhead (tw_next w) (ak_base a))
      else
        (case validate_selective_ack (ak_base a) (ak_bits a) (tw_next w) of
           Inl e \<Rightarrow> Inl e
         | Inr _ \<Rightarrow> Inr (Ack_Applied (unat (ak_base a) - unat (tw_first w)))))"

definition ack_applies :: "transmit_window \<Rightarrow> ack_state \<Rightarrow> bool" where
  "ack_applies w a \<longleftrightarrow> (case ack_result w a of Inr (Ack_Applied _) \<Rightarrow> True | _ \<Rightarrow> False)"

lemma ack_appliesD:
  "ack_applies w a \<Longrightarrow> ak_epoch a = tw_epoch w \<and> tw_first w \<le> ak_base a \<and> ak_base a \<le> tw_next w
   \<and> validate_selective_ack (ak_base a) (ak_bits a) (tw_next w) = Inr ()
   \<and> ack_result w a = Inr (Ack_Applied (unat (ak_base a) - unat (tw_first w)))"
  by (auto simp: ack_applies_def ack_result_def split: if_splits sum.splits)

lemma apply_acknowledgement_refused:
  assumes "\<not> ack_applies w a"
  shows "apply_acknowledgement a now w = (w, ack_result w a)"
proof -
  consider "ak_epoch a < tw_epoch w" | "ak_epoch a > tw_epoch w" | "ak_epoch a = tw_epoch w" "ak_base a < tw_first w"
    | "ak_epoch a = tw_epoch w" "\<not> ak_base a < tw_first w" "ak_base a > tw_next w"
    | e where "ak_epoch a = tw_epoch w" "\<not> ak_base a < tw_first w" "\<not> ak_base a > tw_next w"
        "validate_selective_ack (ak_base a) (ak_bits a) (tw_next w) = Inl e"
    using assms by (cases "validate_selective_ack (ak_base a) (ak_bits a) (tw_next w)")
      (fastforce simp: ack_applies_def ack_result_def)+
  then show ?thesis by cases (auto simp: ack_result_def apply_acknowledgement_def)
qed

definition acked_bits :: "transmit_window \<Rightarrow> ack_state \<Rightarrow> u64" where
  "acked_bits w a = (if ak_base a = tw_first w then tw_selective_bits w OR ak_bits a else ak_bits a)"

lemma apply_acknowledgement_applies:
  assumes inv: "transmit_inv w" and a: "ack_applies w a"
  shows "\<exists>w'. apply_acknowledgement a now w = (w', ack_result w a) \<and> transmit_inv w'
    \<and> tw_first w' = ak_base a \<and> tw_next w' = tw_next w \<and> tw_epoch w' = tw_epoch w
    \<and> length (tw_slots w') = length (tw_slots w)
    \<and> tw_selective_bits w' = acked_bits w a
    \<and> (\<forall>s. transmit_entry w' s = (if s < ak_base a then None else transmit_entry w s))"
proof -
  let ?c = "length (tw_slots w)" and ?k = "unat (ak_base a) - unat (tw_first w)"
  have ok: "transmit_slots_ok w" and sel: "transmit_selective_ok w" using inv by (simp_all add: transmit_inv_def)
  note A = ack_appliesD [OF a] and C = transmit_slots_okD [OF ok]
  have base: "unat (tw_first w) \<le> unat (ak_base a)" "unat (ak_base a) \<le> unat (tw_next w)"
    using A by (simp_all add: word_le_nat_alt)
  have nx: "unat (tw_next w) < 2 ^ LENGTH(64)" by (rule unsigned_less)
  have u: "unat (tw_first w + of_nat off) = unat (tw_first w) + off" if "off < ?k" for off
    using that base nx by (simp add: unat_word_ariths unat_of_nat take_bit_eq_mod)
  have live: "transmit_entry w (tw_first w + of_nat off) \<noteq> None" if "0 \<le> off" "off < ?k" for off
    using transmit_entry_live [OF ok] u [of off] that base by (simp add: transmit_live_def)
  have "\<exists>ss. retire_loop [0..<?k] w = (w\<lparr>tw_slots := ss\<rparr>, Inr ()) \<and> length ss = ?c
    \<and> (\<forall>i < ?c. ss ! i = (if \<exists>off. 0 \<le> off \<and> off < ?k \<and> i = transmit_slot_index (tw_first w + of_nat off) ?c
                   then None else tw_slots w ! i))"
    by (rule retire_loop_ok) (use C base nx live in auto)
  then obtain ss where ss: "retire_loop [0..<?k] w = (w\<lparr>tw_slots := ss\<rparr>, Inr ())" "length ss = ?c"
    "\<forall>i < ?c. ss ! i = (if \<exists>off < ?k. i = transmit_slot_index (tw_first w + of_nat off) ?c then None else tw_slots w ! i)"
    by auto
  have hit: "(\<exists>off < ?k. transmit_slot_index s ?c = transmit_slot_index (tw_first w + of_nat off) ?c) \<longleftrightarrow> s < ak_base a"
    if live: "transmit_live w s" for s
  proof
    assume "\<exists>off < ?k. transmit_slot_index s ?c = transmit_slot_index (tw_first w + of_nat off) ?c"
    then obtain off where off: "off < ?k" "transmit_slot_index s ?c = transmit_slot_index (tw_first w + of_nat off) ?c" by blast
    have "s = tw_first w + of_nat off"
      by (rule transmit_index_inj [OF off(2), where n = "tw_first w"])
        (use live u [OF off(1)] off(1) C base in \<open>simp_all add: transmit_live_def\<close>)
    then show "s < ak_base a" using u [OF off(1)] off(1) by (simp add: word_less_nat_alt)
  next
    assume lt: "s < ak_base a"
    define off where "off = unat s - unat (tw_first w)"
    have off: "off < ?k" using lt live base by (simp add: off_def word_less_nat_alt transmit_live_def)
    have "s = tw_first w + of_nat off" using u [OF off] live by (simp add: word_unat_eq_iff off_def transmit_live_def)
    then show "\<exists>off < ?k. transmit_slot_index s ?c = transmit_slot_index (tw_first w + of_nat off) ?c" using off by blast
  qed
  have slot: "ss ! transmit_slot_index s ?c = (if s < ak_base a then None else tw_slots w ! transmit_slot_index s ?c)"
    if "transmit_live w s" for s
    using ss(3) hit [OF that] transmit_index_less [OF C(1), of s] by simp
  have sub: "ss ! i = None \<or> ss ! i = tw_slots w ! i" if "i < ?c" for i using ss(3) that by simp
  have retired: "unat (ak_base a - tw_first w) = ?k" using base by (simp add: unat_sub word_le_nat_alt)
  define ob where "ob = (if acked_bits w a = 0 then None
    else if ak_base a = tw_first w then (case tw_selective_observed w of Some t \<Rightarrow> Some t | None \<Rightarrow> Some now) else Some now)"
  define u where "u = w\<lparr>tw_slots := ss, tw_first := ak_base a, tw_selective_bits := acked_bits w a,
    tw_selective_base := ak_base a, tw_selective_observed := ob\<rparr>"
  define w' where "w' = u\<lparr>tw_scan_offset := min (tw_scan_offset w) (transmit_len u - 1)\<rparr>"
  have guards: "\<not> ak_epoch a < tw_epoch w" "\<not> ak_epoch a > tw_epoch w" "\<not> ak_base a < tw_first w" "\<not> ak_base a > tw_next w"
    using A by auto
  have same: "tw_selective_base w = tw_first w" using sel by (simp add: transmit_selective_ok_def)
  have call: "apply_acknowledgement a now w = (w', Inr (Ack_Applied ?k))"
    unfolding apply_acknowledgement_def Let_def if_not_P [OF guards(1)] if_not_P [OF guards(2)] if_not_P [OF guards(3)]
      if_not_P [OF guards(4)] retired w'_def u_def ob_def acked_bits_def
    using A ss(1) same by simp
  have observed: "ob = None \<longleftrightarrow> acked_bits w a = 0" by (simp add: ob_def split: option.split)
  have eq: "apply_acknowledgement a now w = (w', ack_result w a)" "tw_first w' = ak_base a" "tw_next w' = tw_next w"
    "tw_epoch w' = tw_epoch w" "tw_slots w' = ss" "tw_selective_bits w' = acked_bits w a" "tw_selective_base w' = ak_base a"
    "tw_selective_observed w' = None \<longleftrightarrow> acked_bits w a = 0"
    using A call observed by (simp_all add: w'_def u_def)
  have live': "transmit_live w' s \<longleftrightarrow> transmit_live w s \<and> \<not> s < ak_base a" for s
    using base by (auto simp: transmit_live_def eq word_less_nat_alt)
  have "transmit_slots_ok w'"
  proof (rule transmit_slots_okI [where c = ?c])
    fix i slot' assume i: "i < ?c" "tw_slots w' ! i = Some slot'"
    then have "tw_slots w ! i = Some slot'" using sub [of i] by (simp add: eq)
    note so = transmit_slot_okD [OF ok i(1) this]
    then show "transmit_slot_index (ts_sequence slot') ?c = i \<and> transmit_live w' (ts_sequence slot')"
      using slot [of "ts_sequence slot'"] i live' by (auto simp: eq split: if_splits)
  next
    fix s assume "transmit_live w' s"
    then show "tw_slots w' ! transmit_slot_index s ?c \<noteq> None"
      using slot [of s] live' transmit_live_slot [OF ok, of s] by (simp add: eq)
  qed (use C base ss(2) eq in auto)
  moreover have "transmit_selective_ok w'"
    using sel A validate_selective_ack_ok [of "ak_base a" "ak_bits a" "tw_next w"]
    by (auto simp: transmit_selective_ok_def eq acked_bits_def bit_or_iff)
  moreover have "transmit_entry w' s = (if s < ak_base a then None else transmit_entry w s)" for s
  proof (cases "transmit_live w s")
    case True
    then show ?thesis using slot [OF True] ss(2) by (simp add: transmit_entry_def eq)
  next
    case False
    then have "transmit_entry w s = None" using transmit_entry_live [OF ok] by blast
    then show ?thesis using sub [OF transmit_index_less [OF C(1)], of s] ss(2)
      by (auto simp: transmit_entry_def eq split: option.splits)
  qed
  ultimately show ?thesis using eq ss(2) by (intro exI [of _ w']) (simp add: transmit_inv_def)
qed

end
