(* ===== verification/Udp_Datagram_Session.thy ===== *)
theory Udp_Datagram_Session
  imports Udp_Datagram_Retire
begin

text \<open>
  The transmit scan against its reference, and the two windows composed over a network that may lose,
  duplicate and reorder both data and acknowledgements: a message once sent stays in the network, and any
  message in it may arrive at any time.
\<close>

unbundle bit_operations_syntax

section \<open>The due scan\<close>

text \<open>The numbers of the window in the order the scan visits them.\<close>

definition due_order :: "transmit_window \<Rightarrow> u64 list" where
  "due_order w =
     (let cnt = unat (tw_next w) - unat (tw_first w) in
      map (\<lambda>v. tw_first w + of_nat ((min (tw_scan_offset w) (cnt - 1) + v) mod cnt)) [0..<cnt])"

definition due_batch_ok :: "due_batch \<Rightarrow> bool" where
  "due_batch_ok b \<longleftrightarrow> length (db_sequences b) = 8 \<and> db_len b \<le> 8"

lemma due_push_slice:
  "due_batch_ok b \<Longrightarrow> db_len b < 8 \<Longrightarrow>
   due_as_slice (due_push s b) = due_as_slice b @ [s] \<and> due_batch_ok (due_push s b)
   \<and> db_len (due_push s b) = Suc (db_len b)"
  by (simp add: due_as_slice_def due_push_def due_batch_ok_def take_Suc_conv_app_nth)

lemma due_loop_slice:
  assumes "due_batch_ok b" "db_len b < 8" "list_all (\<lambda>v. unat (tw_first w) + (start + v) mod cnt < 2 ^ 64) vs"
  shows "due_as_slice (fst (due_loop w now rtt start cnt vs b))
    = take 8 (due_as_slice b @ filter (due_takes w now rtt) (map (\<lambda>v. tw_first w + of_nat ((start + v) mod cnt)) vs))"
  using assms
proof (induction vs arbitrary: b)
  case Nil
  then show ?case by (simp add: due_as_slice_def due_batch_ok_def)
next
  case (Cons v vs)
  let ?s = "tw_first w + of_nat ((start + v) mod cnt)"
  have c: "checked_add_u64 (tw_first w) ((start + v) mod cnt) = Some ?s"
    using Cons.prems(3) by (simp add: checked_add_u64_def)
  have l: "length (due_as_slice b) = db_len b" using Cons.prems(1) by (simp add: due_as_slice_def due_batch_ok_def)
  show ?case
  proof (cases "due_takes w now rtt ?s")
    case False
    then show ?thesis using Cons.IH [of b] Cons.prems c by (simp add: Let_def)
  next
    case True
    note p = due_push_slice [OF Cons.prems(1,2), of ?s]
    show ?thesis
    proof (cases "Suc (db_len b) = 8")
      case full: True
      then have "due_as_slice (fst (due_loop w now rtt start cnt (v # vs) b)) = due_as_slice (due_push ?s b)"
        using c True p by (simp add: Let_def MAX_TRANSMITS_PER_WAKE_def)
      moreover have "take 8 (due_as_slice b @ ?s # xs) = due_as_slice b @ [?s]" for xs
        using full l by (simp add: take_Suc_conv_app_nth)
      ultimately show ?thesis using p True by simp
    next
      case more: False
      then have "db_len (due_push ?s b) < 8" using Cons.prems(2) p by simp
      then show ?thesis using Cons.IH [of "due_push ?s b"] Cons.prems c True p more
        by (simp add: Let_def MAX_TRANSMITS_PER_WAKE_def)
    qed
  qed
qed

lemma mod_below: "(a :: nat) < b \<Longrightarrow> a + x mod (b - a) < b"
  using mod_less_divisor [of "b - a" x] by linarith

lemma transmit_due_slice:
  assumes inv: "transmit_inv w"
  shows "due_as_slice (snd (transmit_due now rtt w)) = take 8 (filter (due_takes w now rtt) (due_order w))"
proof -
  let ?cnt = "unat (tw_next w) - unat (tw_first w)" and ?b = "due_batch_default"
  have len: "transmit_len w = ?cnt" using transmit_len_nat inv by (simp add: transmit_inv_def)
  have b: "due_batch_ok ?b" "db_len ?b < 8" "due_as_slice ?b = []"
    by (simp_all add: due_batch_default_def due_batch_ok_def due_as_slice_def MAX_TRANSMITS_PER_WAKE_def)
  show ?thesis
  proof (cases "?cnt = 0")
    case True
    then show ?thesis using len b by (simp add: transmit_due_def due_order_def Let_def)
  next
    case False
    have nx: "unat (tw_next w) < 2 ^ LENGTH(64)" by (rule unsigned_less)
    have "unat (tw_first w) + x mod ?cnt < 2 ^ 64" for x
      using mod_below [of "unat (tw_first w)" "unat (tw_next w)" x] False nx by simp
    then have "list_all (\<lambda>v. unat (tw_first w) + (min (tw_scan_offset w) (?cnt - 1) + v) mod ?cnt < 2 ^ 64) [0..<?cnt]"
      by (simp add: list_all_iff)
    from due_loop_slice [OF b(1,2) this, of now rtt] b(3) show ?thesis
      unfolding transmit_due_def due_order_def Let_def len if_not_P [OF False] case_prod_beta snd_conv by simp
  qed
qed

lemma transmit_due_keeps:
  "tw_first (fst (transmit_due now rtt w)) = tw_first w \<and> tw_next (fst (transmit_due now rtt w)) = tw_next w
   \<and> tw_epoch (fst (transmit_due now rtt w)) = tw_epoch w \<and> (transmit_inv w \<longrightarrow> transmit_inv (fst (transmit_due now rtt w)))"
  by (auto simp: transmit_due_def Let_def transmit_inv_def transmit_slots_ok_def transmit_selective_ok_def transmit_live_def
      split: prod.split)

lemma rotate_back: "(k :: nat) < c \<Longrightarrow> i < c \<Longrightarrow> (k + (i + (c - k)) mod c) mod c = i"
  by (simp add: mod_simps)

lemma due_order_set:
  assumes "transmit_inv w"
  shows "set (due_order w) = {s. transmit_live w s}"
proof -
  let ?f = "unat (tw_first w)" and ?cnt = "unat (tw_next w) - unat (tw_first w)" and ?o = "min (tw_scan_offset w) (unat (tw_next w) - unat (tw_first w) - 1)"
  have nx: "unat (tw_next w) < 2 ^ LENGTH(64)" by (rule unsigned_less)
  have u: "unat (tw_first w + of_nat i) = ?f + i" if "i < ?cnt" for i
    using that nx by (simp add: unat_word_ariths unat_of_nat take_bit_eq_mod)
  show ?thesis
  proof (intro set_eqI iffI)
    fix s assume "s \<in> set (due_order w)"
    then obtain v where v: "v < ?cnt" "s = tw_first w + of_nat ((?o + v) mod ?cnt)" by (auto simp: due_order_def Let_def)
    then have "(?o + v) mod ?cnt < ?cnt" "?f + (?o + v) mod ?cnt < unat (tw_next w)"
      using mod_below [of ?f "unat (tw_next w)" "?o + v"] by (auto intro!: mod_less_divisor)
    with u [of "(?o + v) mod ?cnt"] v(2) show "s \<in> {s. transmit_live w s}" by (simp add: transmit_live_def)
  next
    fix s assume "s \<in> {s. transmit_live w s}"
    then have s: "?f \<le> unat s" "unat s < unat (tw_next w)" by (simp_all add: transmit_live_def)
    let ?i = "unat s - ?f"
    define v where "v = (?i + (?cnt - ?o)) mod ?cnt"
    have pos: "0 < ?cnt" "?i < ?cnt" using s by simp_all
    have k: "min (tw_scan_offset w) (m - 1) < m" if "0 < m" for m using that by simp
    have v: "v < ?cnt" unfolding v_def using pos(1) by (rule mod_less_divisor)
    have "(?o + v) mod ?cnt = ?i" unfolding v_def by (rule rotate_back [OF k [OF pos(1)] pos(2)])
    then have "s = tw_first w + of_nat ((?o + v) mod ?cnt)" using s u [of ?i] by (simp add: word_unat_eq_iff)
    with v show "s \<in> set (due_order w)" by (auto simp: due_order_def Let_def)
  qed
qed

lemma transmit_restart_link_inv:
  assumes "transmit_inv w"
  shows "transmit_inv (transmit_restart_link w) \<and> tw_first (transmit_restart_link w) = tw_first w
    \<and> tw_next (transmit_restart_link w) = tw_next w \<and> tw_epoch (transmit_restart_link w) = tw_epoch w"
proof -
  let ?c = "length (tw_slots w)" and ?w = "transmit_restart_link w"
  have ok: "transmit_slots_ok w" using assms by (simp add: transmit_inv_def)
  note C = transmit_slots_okD [OF ok]
  have live: "transmit_live ?w = transmit_live w" by (simp add: transmit_restart_link_def transmit_live_def fun_eq_iff)
  have "transmit_slots_ok ?w"
  proof (rule transmit_slots_okI [where c = ?c])
    fix i slot assume i: "i < ?c" "tw_slots ?w ! i = Some slot"
    then obtain sl where "tw_slots w ! i = Some sl" "ts_sequence slot = ts_sequence sl" by (auto simp: transmit_restart_link_def)
    then show "transmit_slot_index (ts_sequence slot) ?c = i \<and> transmit_live ?w (ts_sequence slot)"
      using transmit_slot_okD [OF ok i(1)] live by simp
  next
    fix s assume "transmit_live ?w s"
    then show "tw_slots ?w ! transmit_slot_index s ?c \<noteq> None"
      using live transmit_live_slot [OF ok, of s] transmit_index_less [OF C(1), of s] by (simp add: transmit_restart_link_def)
  qed (use C in \<open>simp_all add: transmit_restart_link_def\<close>)
  then show ?thesis by (simp add: transmit_inv_def) (simp add: transmit_restart_link_def transmit_selective_ok_def)
qed

section \<open>The session\<close>

record datagram_session =
  ds_tx :: transmit_window
  ds_rx :: receive_window
  ds_records :: "(udp_kind \<times> bytes) list"
  ds_committed :: "(udp_kind \<times> bytes) list"
  ds_net :: "rd_data list"
  ds_acks :: "ack_state list"

datatype datagram_action =
    Dga_Submit udp_kind bytes
  | Dga_Due nat nat
  | Dga_Send u64 nat fast_direction ack_state
  | Dga_Offer nat
  | Dga_Commit
  | Dga_Ack
  | Dga_Acknowledge nat nat
  | Dga_Restart

definition datagram_start :: "(usize \<Rightarrow> bool) \<Rightarrow> u64 \<Rightarrow> u64 \<Rightarrow> usize \<Rightarrow> u64 \<Rightarrow> rd_error + datagram_session" where
  "datagram_start alloc epoch first_sequence capacity seed =
     try_bind (transmit_window_new alloc epoch first_sequence capacity seed) (\<lambda>tx.
     try_bind (receive_window_new alloc epoch first_sequence) (\<lambda>rx.
     Inr \<lparr>ds_tx = tx, ds_rx = rx, ds_records = [], ds_committed = [], ds_net = [], ds_acks = []\<rparr>))"

text \<open>The record with a given number, the first record having the number \<open>f\<close>.\<close>

definition record_numbered :: "u64 \<Rightarrow> (udp_kind \<times> bytes) list \<Rightarrow> u64 \<Rightarrow> udp_kind \<times> bytes" where
  "record_numbered f records s = records ! (unat s - unat f)"

definition datagram_act :: "u64 \<Rightarrow> datagram_action \<Rightarrow> datagram_session \<Rightarrow> datagram_session" where
  "datagram_act f act st =
     (case act of
        Dga_Submit k p \<Rightarrow>
          if MAX_PAYLOAD_LEN < length p then st
          else
            (case transmit_track (tw_next (ds_tx st)) (ds_tx st) of
               (tx, Inl _) \<Rightarrow> st\<lparr>ds_tx := tx\<rparr>
             | (tx, Inr _) \<Rightarrow> st\<lparr>ds_tx := tx, ds_records := ds_records st @ [(k, p)]\<rparr>)
      | Dga_Due now rtt \<Rightarrow> st\<lparr>ds_tx := fst (transmit_due now rtt (ds_tx st))\<rparr>
      | Dga_Send s now direction ack \<Rightarrow>
          (case transmit_mark_sent s now (ds_tx st) of
             (tx, Inl _) \<Rightarrow> st\<lparr>ds_tx := tx\<rparr>
           | (tx, Inr _) \<Rightarrow>
               st\<lparr>ds_tx := tx,
                  ds_net := ds_net st @ [\<lparr>rd_direction = direction, rd_kind = fst (record_numbered f (ds_records st) s),
                    rd_epoch = tw_epoch (ds_tx st), rd_sequence = s, rd_ack = ack,
                    rd_payload = snd (record_numbered f (ds_records st) s)\<rparr>]\<rparr>)
      | Dga_Offer i \<Rightarrow>
          if i < length (ds_net st) then st\<lparr>ds_rx := fst (window_offer (ds_net st ! i) (ds_rx st))\<rparr> else st
      | Dga_Commit \<Rightarrow>
          (case window_ready (ds_rx st) of
             None \<Rightarrow> st
           | Some r \<Rightarrow>
               (case commit_ready (rr_sequence r) (ds_rx st) of
                  (rx, Inl _) \<Rightarrow> st\<lparr>ds_rx := rx\<rparr>
                | (rx, Inr ack) \<Rightarrow>
                    st\<lparr>ds_rx := rx, ds_committed := ds_committed st @ [(rr_kind r, rr_payload r)],
                       ds_acks := ds_acks st @ [ack]\<rparr>))
      | Dga_Ack \<Rightarrow> st\<lparr>ds_acks := ds_acks st @ [window_acknowledgement (ds_rx st)]\<rparr>
      | Dga_Acknowledge i now \<Rightarrow>
          if i < length (ds_acks st) then st\<lparr>ds_tx := fst (apply_acknowledgement (ds_acks st ! i) now (ds_tx st))\<rparr> else st
      | Dga_Restart \<Rightarrow> st\<lparr>ds_tx := transmit_restart_link (ds_tx st)\<rparr>)"

definition datagram_run :: "u64 \<Rightarrow> datagram_action list \<Rightarrow> datagram_session \<Rightarrow> datagram_session" where
  "datagram_run f acts st = fold (datagram_act f) acts st"

section \<open>The invariant\<close>

text \<open>What is known of a message in the network and of an acknowledgement in it.\<close>

definition net_ok :: "u64 \<Rightarrow> datagram_session \<Rightarrow> rd_data \<Rightarrow> bool" where
  "net_ok f st d \<longleftrightarrow>
     rd_epoch d = tw_epoch (ds_tx st) \<and> unat f \<le> unat (rd_sequence d) \<and> unat (rd_sequence d) < unat (tw_next (ds_tx st))
     \<and> (rd_kind d, rd_payload d) = record_numbered f (ds_records st) (rd_sequence d) \<and> length (rd_payload d) \<le> MAX_PAYLOAD_LEN"

definition ack_ok :: "datagram_session \<Rightarrow> ack_state \<Rightarrow> bool" where
  "ack_ok st a \<longleftrightarrow>
     ak_epoch a = tw_epoch (ds_tx st) \<and> unat (ak_base a) \<le> unat (rw_next (ds_rx st))
     \<and> (\<forall>b < 64. bit (ak_bits a) b \<longrightarrow> unat (ak_base a) + b < unat (tw_next (ds_tx st)))"

definition view_ok :: "u64 \<Rightarrow> datagram_session \<Rightarrow> bool" where
  "view_ok f st \<longleftrightarrow>
     (\<forall>s v. window_view (ds_rx st) s = Some v \<longrightarrow>
        unat s < unat (tw_next (ds_tx st)) \<and> v = record_numbered f (ds_records st) s)"

definition datagram_inv :: "u64 \<Rightarrow> datagram_session \<Rightarrow> bool" where
  "datagram_inv f st \<longleftrightarrow>
     transmit_inv (ds_tx st) \<and> window_inv (ds_rx st) \<and> rw_epoch (ds_rx st) = tw_epoch (ds_tx st)
     \<and> unat f \<le> unat (tw_first (ds_tx st)) \<and> unat (tw_first (ds_tx st)) \<le> unat (rw_next (ds_rx st))
     \<and> unat (rw_next (ds_rx st)) \<le> unat (tw_next (ds_tx st))
     \<and> unat (tw_next (ds_tx st)) = unat f + length (ds_records st)
     \<and> list_all (\<lambda>(k, p). length p \<le> MAX_PAYLOAD_LEN) (ds_records st)
     \<and> ds_committed st = take (unat (rw_next (ds_rx st)) - unat f) (ds_records st)
     \<and> view_ok f st \<and> list_all (net_ok f st) (ds_net st) \<and> list_all (ack_ok st) (ds_acks st)"

lemma record_numbered_append:
  "unat f \<le> unat s \<Longrightarrow> unat s < unat f + length records \<Longrightarrow> record_numbered f (records @ xs) s = record_numbered f records s"
  by (auto simp: record_numbered_def nth_append)

lemma datagram_invD:
  assumes "datagram_inv f st"
  shows "transmit_inv (ds_tx st)" "window_inv (ds_rx st)" "rw_epoch (ds_rx st) = tw_epoch (ds_tx st)"
    "unat f \<le> unat (tw_first (ds_tx st))" "unat (tw_first (ds_tx st)) \<le> unat (rw_next (ds_rx st))"
    "unat (rw_next (ds_rx st)) \<le> unat (tw_next (ds_tx st))"
    "unat (tw_next (ds_tx st)) = unat f + length (ds_records st)"
    "list_all (\<lambda>(k, p). length p \<le> MAX_PAYLOAD_LEN) (ds_records st)"
    "ds_committed st = take (unat (rw_next (ds_rx st)) - unat f) (ds_records st)"
    "view_ok f st" "list_all (net_ok f st) (ds_net st)" "list_all (ack_ok st) (ds_acks st)"
  using assms by (simp_all add: datagram_inv_def)

text \<open>Steps that change the transmit window's timing only, or add a message.\<close>

lemma datagram_inv_tx:
  assumes inv: "datagram_inv f st" and tx: "transmit_inv tx" "tw_next tx = tw_next (ds_tx st)" "tw_epoch tx = tw_epoch (ds_tx st)"
    "unat f \<le> unat (tw_first tx)" "unat (tw_first tx) \<le> unat (rw_next (ds_rx st))"
  shows "datagram_inv f (st\<lparr>ds_tx := tx\<rparr>)"
proof -
  have "net_ok f (st\<lparr>ds_tx := tx\<rparr>) = net_ok f st" "ack_ok (st\<lparr>ds_tx := tx\<rparr>) = ack_ok st"
    "view_ok f (st\<lparr>ds_tx := tx\<rparr>) = view_ok f st"
    using tx by (simp_all add: net_ok_def ack_ok_def view_ok_def fun_eq_iff)
  with datagram_invD [OF inv] tx show ?thesis by (simp add: datagram_inv_def)
qed

lemma datagram_inv_net:
  assumes inv: "datagram_inv f st" and d: "net_ok f st d"
  shows "datagram_inv f (st\<lparr>ds_net := ds_net st @ [d]\<rparr>)"
proof -
  have "net_ok f (st\<lparr>ds_net := ds\<rparr>) = net_ok f st" "ack_ok (st\<lparr>ds_net := ds\<rparr>) = ack_ok st"
    "view_ok f (st\<lparr>ds_net := ds\<rparr>) = view_ok f st" for ds
    by (simp_all add: net_ok_def ack_ok_def view_ok_def fun_eq_iff)
  with datagram_invD [OF inv] d show ?thesis by (simp add: datagram_inv_def)
qed

lemma datagram_inv_acks:
  assumes inv: "datagram_inv f st" and a: "ack_ok st a"
  shows "datagram_inv f (st\<lparr>ds_acks := ds_acks st @ [a]\<rparr>)"
proof -
  have "net_ok f (st\<lparr>ds_acks := as\<rparr>) = net_ok f st" "ack_ok (st\<lparr>ds_acks := as\<rparr>) = ack_ok st"
    "view_ok f (st\<lparr>ds_acks := as\<rparr>) = view_ok f st" for as
    by (simp_all add: net_ok_def ack_ok_def view_ok_def fun_eq_iff)
  with datagram_invD [OF inv] a show ?thesis by (simp add: datagram_inv_def)
qed

lemma acknowledgement_ok:
  assumes inv: "datagram_inv f st"
  shows "ack_ok st (window_acknowledgement (ds_rx st))"
proof -
  note D = datagram_invD [OF inv]
  have "unat (rw_next (ds_rx st)) + b < unat (tw_next (ds_tx st))"
    if "b < 64" "bit (ak_bits (window_acknowledgement (ds_rx st))) b" for b
  proof -
    have b: "unat (rw_next (ds_rx st)) + b < 2 ^ 64" "window_view (ds_rx st) (rw_next (ds_rx st) + of_nat b) \<noteq> None"
      using window_acknowledgement_bits [OF D(2) that(1)] that(2) by auto
    then have "unat (rw_next (ds_rx st) + of_nat b) < unat (tw_next (ds_tx st))"
      using D(10) by (auto simp: view_ok_def)
    with b(1) show ?thesis by (simp add: unat_word_ariths unat_of_nat take_bit_eq_mod)
  qed
  then show ?thesis using D(3) by (simp add: ack_ok_def)
qed

lemma submit_inv:
  assumes inv: "datagram_inv f st"
  shows "datagram_inv f (datagram_act f (Dga_Submit k p) st)"
proof (cases "MAX_PAYLOAD_LEN < length p")
  case False
  note D = datagram_invD [OF inv]
  let ?r = "transmit_track (tw_next (ds_tx st)) (ds_tx st)"
  note T = transmit_track_inv [OF D(1), of "tw_next (ds_tx st)"]
  show ?thesis
  proof (cases "track_result (ds_tx st) (tw_next (ds_tx st))")
    case (Inl e)
    then have "datagram_act f (Dga_Submit k p) st = st\<lparr>ds_tx := fst ?r\<rparr>"
      using False T by (cases ?r) (simp add: datagram_act_def)
    moreover have "tw_next (fst ?r) = tw_next (ds_tx st)" using T Inl by (simp add: word_unat_eq_iff)
    ultimately show ?thesis using datagram_inv_tx [OF inv, of "fst ?r"] T D by simp
  next
    case (Inr u)
    let ?st = "st\<lparr>ds_tx := fst ?r, ds_records := ds_records st @ [(k, p)]\<rparr>"
    have eq: "datagram_act f (Dga_Submit k p) st = ?st"
      using False T Inr by (cases ?r) (simp add: datagram_act_def)
    have n: "unat (tw_next (fst ?r)) = unat (tw_next (ds_tx st)) + 1" using T Inr by simp
    have "net_ok f ?st d" if "net_ok f st d" for d
      using that n T D(7) record_numbered_append [of f "rd_sequence d" "ds_records st"] by (simp add: net_ok_def)
    moreover have "ack_ok ?st a" if "ack_ok st a" for a
      using that n T by (auto simp: ack_ok_def less_Suc_eq)
    moreover have "unat t < unat (tw_next (fst ?r)) \<and> v = record_numbered f (ds_records st @ [(k, p)]) t"
      if v: "window_view (ds_rx st) t = Some v" for t v
    proof -
      have "unat t < unat (tw_next (ds_tx st))" "v = record_numbered f (ds_records st) t"
        using D(10) v unfolding view_ok_def by blast+
      moreover have "unat f \<le> unat t" using window_view_range [OF D(2) v] D(4,5) by linarith
      ultimately show ?thesis using n D(7) record_numbered_append [of f t "ds_records st" "[(k, p)]"] by simp
    qed
    ultimately have msgs: "view_ok f ?st" "\<And>d. net_ok f st d \<Longrightarrow> net_ok f ?st d" "\<And>a. ack_ok st a \<Longrightarrow> ack_ok ?st a"
      unfolding view_ok_def by simp_all
    moreover have "unat (rw_next (ds_rx st)) - unat f \<le> length (ds_records st)" using D(6,7) by linarith
    moreover have "list_all (net_ok f ?st) (ds_net st)" "list_all (ack_ok ?st) (ds_acks st)"
      using D(11,12) msgs(2,3) by (auto elim!: list.pred_mono_strong)
    ultimately show ?thesis using D T n False unfolding eq by (simp add: datagram_inv_def)
  qed
qed (use inv in \<open>simp add: datagram_act_def\<close>)

lemma send_inv:
  assumes inv: "datagram_inv f st"
  shows "datagram_inv f (datagram_act f (Dga_Send s now dir ack) st)"
proof -
  note D = datagram_invD [OF inv]
  let ?r = "transmit_mark_sent s now (ds_tx st)"
  note M = transmit_mark_sent_inv [OF D(1), of s now]
  have st': "datagram_inv f (st\<lparr>ds_tx := fst ?r\<rparr>)" using datagram_inv_tx [OF inv, of "fst ?r"] M D by simp
  show ?thesis
  proof (cases "transmit_live (ds_tx st) s")
    case False
    then have "datagram_act f (Dga_Send s now dir ack) st = st\<lparr>ds_tx := fst ?r\<rparr>"
      using M by (cases ?r) (simp add: datagram_act_def)
    with st' show ?thesis by simp
  next
    case True
    let ?d = "\<lparr>rd_direction = dir, rd_kind = fst (record_numbered f (ds_records st) s), rd_epoch = tw_epoch (ds_tx st),
      rd_sequence = s, rd_ack = ack, rd_payload = snd (record_numbered f (ds_records st) s)\<rparr>"
    have eq: "datagram_act f (Dga_Send s now dir ack) st = (st\<lparr>ds_tx := fst ?r\<rparr>)\<lparr>ds_net := ds_net (st\<lparr>ds_tx := fst ?r\<rparr>) @ [?d]\<rparr>"
      using M True by (cases ?r) (simp add: datagram_act_def)
    have s: "unat f \<le> unat s" "unat s < unat (tw_next (ds_tx st))" "unat s - unat f < length (ds_records st)"
      using True D(4,7) by (auto simp: transmit_live_def)
    then have "record_numbered f (ds_records st) s \<in> set (ds_records st)" by (simp add: record_numbered_def)
    then have "length (snd (record_numbered f (ds_records st) s)) \<le> MAX_PAYLOAD_LEN" using D(8) by (auto simp: list_all_iff)
    then have "net_ok f (st\<lparr>ds_tx := fst ?r\<rparr>) ?d" using s M by (simp add: net_ok_def)
    then show ?thesis unfolding eq by (rule datagram_inv_net [OF st'])
  qed
qed

lemma offer_ok:
  assumes inv: "datagram_inv f st" and d: "net_ok f st d"
  shows "datagram_inv f (st\<lparr>ds_rx := fst (window_offer d (ds_rx st))\<rparr>)"
proof -
  note D = datagram_invD [OF inv]
  let ?st = "st\<lparr>ds_rx := fst (window_offer d (ds_rx st))\<rparr>"
  note O = window_offer_spec [OF D(2), of d]
  have "net_ok f ?st = net_ok f st" "ack_ok ?st = ack_ok st" using O by (simp_all add: net_ok_def ack_ok_def fun_eq_iff)
  moreover have "view_ok f ?st" using D(10) d O by (auto simp: view_ok_def net_ok_def split: if_splits)
  ultimately show ?thesis using D O by (simp add: datagram_inv_def)
qed

lemma commit_inv:
  assumes inv: "datagram_inv f st"
  shows "datagram_inv f (datagram_act f Dga_Commit st)"
proof (cases "window_view (ds_rx st) (rw_next (ds_rx st))")
  case None
  then show ?thesis using inv window_ready_view [OF datagram_invD(2) [OF inv]] by (simp add: datagram_act_def)
next
  case (Some v)
  note D = datagram_invD [OF inv]
  let ?rx = "ds_rx st"
  have lt: "unat (rw_next ?rx) < unat (tw_next (ds_tx st))" and v: "v = record_numbered f (ds_records st) (rw_next ?rx)"
    using D(10) Some unfolding view_ok_def by blast+
  have "unat (tw_next (ds_tx st)) < 2 ^ LENGTH(64)" by (rule unsigned_less)
  with lt have b: "unat (rw_next ?rx) + 1 < 2 ^ 64" by simp
  obtain rx where rx: "commit_ready (rw_next ?rx) ?rx = (rx, Inr (window_acknowledgement rx))" "window_inv rx"
    "rw_epoch rx = rw_epoch ?rx" "rw_next rx = rw_next ?rx + 1" "window_view rx = (window_view ?rx)(rw_next ?rx := None)"
    using commit_ready_accepted [OF D(2) Some b] by blast
  have u: "unat (rw_next rx) = unat (rw_next ?rx) + 1" using b rx(4) by (simp add: unat_word_ariths)
  let ?st = "st\<lparr>ds_rx := rx, ds_committed := ds_committed st @ [v]\<rparr>"
  have eq: "datagram_act f Dga_Commit st = ?st\<lparr>ds_acks := ds_acks ?st @ [window_acknowledgement (ds_rx ?st)]\<rparr>"
    using window_ready_view [OF D(2)] Some rx(1) by (simp add: datagram_act_def case_prod_beta)
  have "ds_committed st @ [v] = take (unat (rw_next rx) - unat f) (ds_records st)"
  proof -
    have "unat (rw_next rx) - unat f = Suc (unat (rw_next ?rx) - unat f)" using u D(4,5) by linarith
    moreover have "unat (rw_next ?rx) - unat f < length (ds_records st)" using lt D(4,5,7) by linarith
    ultimately show ?thesis using D(9) v by (simp add: take_Suc_conv_app_nth record_numbered_def)
  qed
  moreover have "net_ok f ?st = net_ok f st" by (simp add: net_ok_def fun_eq_iff)
  moreover have "ack_ok ?st a" if "ack_ok st a" for a using that u by (simp add: ack_ok_def)
  moreover have "view_ok f ?st" using D(10) rx(5) by (simp add: view_ok_def)
  ultimately have "datagram_inv f ?st" using D rx u lt by (auto simp: datagram_inv_def list_all_iff)
  then show ?thesis unfolding eq by (intro datagram_inv_acks acknowledgement_ok) auto
qed

lemma acknowledge_ok:
  assumes inv: "datagram_inv f st" and a: "ack_ok st a"
  shows "datagram_inv f (st\<lparr>ds_tx := fst (apply_acknowledgement a now (ds_tx st))\<rparr>)
    \<and> snd (apply_acknowledgement a now (ds_tx st)) =
      Inr (if ak_base a < tw_first (ds_tx st) then Ack_StaleCumulative
           else Ack_Applied (unat (ak_base a) - unat (tw_first (ds_tx st))))"
proof -
  note D = datagram_invD [OF inv]
  have base: "\<not> tw_next (ds_tx st) < ak_base a" using a D(6) by (simp add: ack_ok_def word_less_nat_alt)
  have "validate_selective_ack (ak_base a) (ak_bits a) (tw_next (ds_tx st)) = Inr ()"
    using a unfolding validate_selective_ack_ok ack_ok_def by blast
  then have r: "ack_result (ds_tx st) a = Inr (if ak_base a < tw_first (ds_tx st) then Ack_StaleCumulative
      else Ack_Applied (unat (ak_base a) - unat (tw_first (ds_tx st))))"
    using a base by (simp add: ack_result_def ack_ok_def)
  show ?thesis
  proof (cases "ak_base a < tw_first (ds_tx st)")
    case True
    then have "\<not> ack_applies (ds_tx st) a" using r by (simp add: ack_applies_def)
    then show ?thesis using apply_acknowledgement_refused r inv by simp
  next
    case False
    then have "ack_applies (ds_tx st) a" using r by (simp add: ack_applies_def)
    from apply_acknowledgement_applies [OF D(1) this, of now] obtain tx where
      tx: "apply_acknowledgement a now (ds_tx st) = (tx, ack_result (ds_tx st) a)" "transmit_inv tx" "tw_first tx = ak_base a"
        "tw_next tx = tw_next (ds_tx st)" "tw_epoch tx = tw_epoch (ds_tx st)" by blast
    have "unat f \<le> unat (ak_base a)" "unat (ak_base a) \<le> unat (rw_next (ds_rx st))"
      using False D(4) a by (auto simp: word_less_nat_alt ack_ok_def)
    then show ?thesis using datagram_inv_tx [OF inv, of tx] tx r by simp
  qed
qed

lemma datagram_act_inv: "datagram_inv f st \<Longrightarrow> datagram_inv f (datagram_act f act st)"
proof (cases act)
  case (Dga_Due now rtt)
  assume inv: "datagram_inv f st"
  with Dga_Due show ?thesis
    using datagram_inv_tx [OF inv, of "fst (transmit_due now rtt (ds_tx st))"] transmit_due_keeps [of now rtt "ds_tx st"] datagram_invD [OF inv]
    by (simp add: datagram_act_def)
next
  case (Dga_Offer i)
  assume inv: "datagram_inv f st"
  with Dga_Offer show ?thesis using offer_ok [OF inv, of "ds_net st ! i"] datagram_invD(11) [OF inv]
    by (simp add: datagram_act_def list_all_length)
next
  case Dga_Ack
  assume inv: "datagram_inv f st"
  with Dga_Ack show ?thesis using datagram_inv_acks [OF inv acknowledgement_ok [OF inv]] by (simp add: datagram_act_def)
next
  case (Dga_Acknowledge i now)
  assume inv: "datagram_inv f st"
  with Dga_Acknowledge show ?thesis using acknowledge_ok [OF inv, of "ds_acks st ! i" now] datagram_invD(12) [OF inv]
    by (simp add: datagram_act_def list_all_length)
next
  case Dga_Restart
  assume inv: "datagram_inv f st"
  with Dga_Restart show ?thesis
    using datagram_inv_tx [OF inv, of "transmit_restart_link (ds_tx st)"] transmit_restart_link_inv [of "ds_tx st"] datagram_invD [OF inv]
    by (simp add: datagram_act_def)
qed (simp_all add: submit_inv send_inv commit_inv)

lemma datagram_run_inv: "datagram_inv f st \<Longrightarrow> datagram_inv f (datagram_run f acts st)"
  unfolding datagram_run_def by (induction acts arbitrary: st) (simp_all add: datagram_act_inv)

lemma datagram_start_inv: "datagram_start alloc e f c seed = Inr st \<Longrightarrow> datagram_inv f st"
  by (auto simp: datagram_start_def datagram_inv_def view_ok_def try_bind_def split: sum.splits
      dest!: transmit_window_new_Inr receive_window_new_Inr)

end
