(* ===== verification/Udp_Datagram_Delivery.thy ===== *)
theory Udp_Datagram_Delivery
  imports Udp_Datagram_Session
begin

text \<open>
  What the reliable-datagram session promises: exactly-once delivery in order, no protocol error between two
  honest ends, and recovery from any loss.
\<close>

section \<open>Recovery\<close>

text \<open>One round: send the next expected record, let it arrive, commit it.\<close>

definition deliver_round :: "fast_direction \<Rightarrow> ack_state \<Rightarrow> datagram_session \<Rightarrow> datagram_action list" where
  "deliver_round dir ack st = [Dga_Send (rw_next (ds_rx st)) 0 dir ack, Dga_Offer (length (ds_net st)), Dga_Commit]"

lemma send_live:
  fixes now :: nat and dir :: fast_direction and ack :: ack_state
  assumes inv: "datagram_inv f st" and live: "transmit_live (ds_tx st) s"
  defines "st' \<equiv> datagram_act f (Dga_Send s now dir ack) st"
  shows "datagram_inv f st' \<and> ds_rx st' = ds_rx st \<and> ds_records st' = ds_records st
    \<and> tw_next (ds_tx st') = tw_next (ds_tx st)
    \<and> length (ds_net st') = Suc (length (ds_net st)) \<and> rd_sequence (ds_net st' ! length (ds_net st)) = s
    \<and> net_ok f st' (ds_net st' ! length (ds_net st))"
proof -
  have inv': "datagram_inv f st'" unfolding st'_def by (rule send_inv [OF inv])
  have "ds_rx st' = ds_rx st \<and> ds_records st' = ds_records st \<and> tw_next (ds_tx st') = tw_next (ds_tx st)
    \<and> length (ds_net st') = Suc (length (ds_net st)) \<and> rd_sequence (ds_net st' ! length (ds_net st)) = s"
    using transmit_mark_sent_inv [OF datagram_invD(1) [OF inv], of s now] live
    unfolding st'_def by (cases "transmit_mark_sent s now (ds_tx st)") (simp add: datagram_act_def)
  with inv' datagram_invD(11) [OF inv'] show ?thesis by (simp add: list_all_length)
qed

lemma offer_next_ready:
  assumes inv: "datagram_inv f st" and d: "net_ok f st d" "rd_sequence d = rw_next (ds_rx st)"
    and room: "unat (rw_next (ds_rx st)) + 64 < 2 ^ 64"
  shows "window_view (fst (window_offer d (ds_rx st))) (rw_next (ds_rx st)) \<noteq> None"
proof -
  note D = datagram_invD [OF inv]
  note O = window_offer_spec [OF D(2), of d]
  show ?thesis
  proof (cases "window_view (ds_rx st) (rw_next (ds_rx st))")
    case None
    then have "offer_result (rw_epoch (ds_rx st)) (rw_next (ds_rx st)) (window_view (ds_rx st)) d = Inr Offer_Ready"
      using d room D(3) by (simp add: offer_result_def net_ok_def MAX_PAYLOAD_LEN_def)
    then show ?thesis using O d(2) by (simp add: offer_stores_def)
  next
    case (Some v)
    then show ?thesis using O by simp
  qed
qed

lemma deliver_round_progress:
  fixes dir :: fast_direction and ack :: ack_state
  assumes inv: "datagram_inv f st" and lt: "unat (rw_next (ds_rx st)) < unat (tw_next (ds_tx st))"
    and room: "unat (rw_next (ds_rx st)) + 64 < 2 ^ 64"
  defines "st' \<equiv> datagram_run f (deliver_round dir ack st) st"
  shows "datagram_inv f st' \<and> ds_records st' = ds_records st \<and> tw_next (ds_tx st') = tw_next (ds_tx st)
    \<and> unat (rw_next (ds_rx st')) = Suc (unat (rw_next (ds_rx st)))"
proof -
  note D = datagram_invD [OF inv]
  define s1 where "s1 = datagram_act f (Dga_Send (rw_next (ds_rx st)) 0 dir ack) st"
  have "transmit_live (ds_tx st) (rw_next (ds_rx st))" using D(5) lt by (simp add: transmit_live_def)
  note S = send_live [OF inv this, of 0 dir ack, folded s1_def]
  define d where "d = ds_net s1 ! length (ds_net st)"
  define s2 where "s2 = s1\<lparr>ds_rx := fst (window_offer d (ds_rx s1))\<rparr>"
  have inv2: "datagram_inv f s2" unfolding s2_def d_def using S by (intro offer_ok) auto
  note O = window_offer_spec [OF datagram_invD(2) [OF conjunct1 [OF S]], of d]
  have n2: "rw_next (ds_rx s2) = rw_next (ds_rx st)" using O S by (simp add: s2_def)
  have "window_view (ds_rx s2) (rw_next (ds_rx s2)) \<noteq> None"
    using offer_next_ready [OF conjunct1 [OF S], of d] S room O by (simp add: s2_def d_def)
  then obtain v where v: "window_view (ds_rx s2) (rw_next (ds_rx s2)) = Some v" by blast
  have b: "unat (rw_next (ds_rx s2)) + 1 < 2 ^ 64" using room n2 by simp
  note w2 = datagram_invD(2) [OF inv2]
  obtain rx where rx: "commit_ready (rw_next (ds_rx s2)) (ds_rx s2) = (rx, Inr (window_acknowledgement rx))"
    "rw_next rx = rw_next (ds_rx s2) + 1"
    using commit_ready_accepted [OF w2 v b] by blast
  have st': "st' = datagram_act f Dga_Commit s2"
    using S by (simp add: st'_def datagram_run_def deliver_round_def s1_def [symmetric] s2_def d_def)
      (simp add: datagram_act_def)
  have eq: "datagram_act f Dga_Commit s2 = s2\<lparr>ds_rx := rx, ds_committed := ds_committed s2 @ [v],
      ds_acks := ds_acks s2 @ [window_acknowledgement rx]\<rparr>"
    using window_ready_view [OF w2] v rx(1) by (simp add: datagram_act_def case_prod_beta)
  have "datagram_inv f st'" unfolding st' by (rule commit_inv [OF inv2])
  then show ?thesis using b n2 rx(2) S unfolding st' eq by (simp add: s2_def unat_word_ariths)
qed

lemma deliver_all:
  assumes "datagram_inv f st" "unat (tw_next (ds_tx st)) + 64 \<le> 2 ^ 64"
  shows "\<exists>acts. datagram_inv f (datagram_run f acts st) \<and> ds_records (datagram_run f acts st) = ds_records st
    \<and> tw_next (ds_tx (datagram_run f acts st)) = tw_next (ds_tx st)
    \<and> rw_next (ds_rx (datagram_run f acts st)) = tw_next (ds_tx st)"
  using assms
proof (induction "unat (tw_next (ds_tx st)) - unat (rw_next (ds_rx st))" arbitrary: st)
  case 0
  then have "rw_next (ds_rx st) = tw_next (ds_tx st)"
    using datagram_invD(6) [OF 0(2)] by (simp add: word_unat_eq_iff)
  with 0 show ?case by (intro exI [of _ "[]"]) (simp add: datagram_run_def)
next
  case (Suc n)
  define acts where "acts = deliver_round ClientToGateway \<lparr>ak_epoch = 0, ak_base = 0, ak_bits = 0\<rparr> st"
  define st' where "st' = datagram_run f acts st"
  have lt: "unat (rw_next (ds_rx st)) < unat (tw_next (ds_tx st))" using Suc.hyps(2) by linarith
  then have "unat (rw_next (ds_rx st)) + 64 < 2 ^ 64" using Suc.prems(2) by linarith
  note P = deliver_round_progress [OF Suc.prems(1) lt this, of ClientToGateway "\<lparr>ak_epoch = 0, ak_base = 0, ak_bits = 0\<rparr>",
      folded acts_def, folded st'_def]
  have "n = unat (tw_next (ds_tx st')) - unat (rw_next (ds_rx st'))" using P Suc.hyps(2) by simp
  from Suc.hyps(1) [OF this] P Suc.prems(2) obtain more where
    more: "datagram_inv f (datagram_run f more st')" "ds_records (datagram_run f more st') = ds_records st"
      "tw_next (ds_tx (datagram_run f more st')) = tw_next (ds_tx st)"
      "rw_next (ds_rx (datagram_run f more st')) = tw_next (ds_tx st)" by auto
  have "datagram_run f (acts @ more) st = datagram_run f more st'" by (simp add: st'_def datagram_run_def)
  with more show ?case by (intro exI [of _ "acts @ more"]) simp
qed

lemma acknowledge_all:
  assumes inv: "datagram_inv f st" and all: "rw_next (ds_rx st) = tw_next (ds_tx st)"
  defines "st' \<equiv> datagram_run f [Dga_Ack, Dga_Acknowledge (length (ds_acks st)) 0] st"
  shows "tw_first (ds_tx st') = tw_next (ds_tx st') \<and> ds_records st' = ds_records st \<and> ds_committed st' = ds_committed st"
proof -
  let ?a = "window_acknowledgement (ds_rx st)"
  note D = datagram_invD [OF inv]
  have st': "st' = st\<lparr>ds_acks := ds_acks st @ [?a], ds_tx := fst (apply_acknowledgement ?a 0 (ds_tx st))\<rparr>"
    by (simp add: st'_def datagram_run_def datagram_act_def nth_append)
  have "\<not> ak_base ?a < tw_first (ds_tx st)" using D(5) by (simp add: word_less_nat_alt)
  then have "snd (apply_acknowledgement ?a 0 (ds_tx st)) = Inr (Ack_Applied (unat (ak_base ?a) - unat (tw_first (ds_tx st))))"
    using acknowledge_ok [OF inv acknowledgement_ok [OF inv], of 0] by simp
  then have "ack_applies (ds_tx st) ?a"
    using apply_acknowledgement_refused [of "ds_tx st" ?a 0] by (cases "ack_applies (ds_tx st) ?a") (auto simp: ack_applies_def)
  from apply_acknowledgement_applies [OF D(1) this, of 0] show ?thesis using all unfolding st' by auto
qed

section \<open>Retransmission\<close>

lemma overdue_is_taken:
  assumes inv: "transmit_inv w" and s: "transmit_entry w s = Some slot"
    and sent: "case ts_sent_at slot of None \<Rightarrow> True | Some t \<Rightarrow> t + MAX_BACKOFF_MICROS \<le> now"
    and sack: "case tw_selective_observed w of None \<Rightarrow> True | Some t \<Rightarrow> t + MAX_BACKOFF_MICROS \<le> now"
  shows "due_takes w now rtt s"
proof -
  have le: "retransmission_delay_micros rtt a seed t \<le> MAX_BACKOFF_MICROS" for a seed t
    using retransmission_delay_bounds by blast
  have "\<not> is_selectively_received w s now rtt"
    using sack le [of 1 "tw_jitter_seed w" s]
    by (auto simp: is_selectively_received_def Let_def not_less split: option.splits)
  moreover have "transmit_slot_is_due slot now rtt (tw_jitter_seed w)"
    using sent le [of "ts_attempts slot" "tw_jitter_seed w" "ts_sequence slot"]
    by (auto simp: transmit_slot_is_due_def split: option.splits)
  ultimately show ?thesis using s
    by (auto simp: due_takes_def transmit_entry_def split: option.splits if_splits)
qed

definition overdue :: "transmit_window \<Rightarrow> nat \<Rightarrow> u64 \<Rightarrow> bool" where
  "overdue w now s \<longleftrightarrow>
     (case transmit_entry w s of
        None \<Rightarrow> False
      | Some slot \<Rightarrow>
          (case ts_sent_at slot of None \<Rightarrow> True | Some t \<Rightarrow> t + MAX_BACKOFF_MICROS \<le> now)
          \<and> (case tw_selective_observed w of None \<Rightarrow> True | Some t \<Rightarrow> t + MAX_BACKOFF_MICROS \<le> now))"

lemma overdue_due: "transmit_inv w \<Longrightarrow> overdue w now s \<Longrightarrow> due_takes w now rtt s"
  by (auto simp: overdue_def intro: overdue_is_taken split: option.splits)

section \<open>The properties\<close>

text \<open>C15: over a network that loses, duplicates and reorders data and acknowledgements, with link restarts
  and any timing, what the receiver committed are the first records submitted, each once and in order; no
  message in the network is ever answered with a protocol error other than exhausted sequence numbers,
  no acknowledgement is refused, and nothing is retired before it was committed.\<close>

theorem datagrams_exactly_once:
  "case datagram_start alloc e f c seed of
     Inl _ \<Rightarrow> True
   | Inr st0 \<Rightarrow>
       (let st = datagram_run f acts st0 in
        ds_committed st = take (length (ds_committed st)) (ds_records st)
        \<and> unat (rw_next (ds_rx st)) = unat f + length (ds_committed st)
        \<and> unat (tw_first (ds_tx st)) \<le> unat f + length (ds_committed st)
        \<and> list_all (\<lambda>d. case snd (window_offer d (ds_rx st)) of Inl err \<Rightarrow> err = Rde_SequenceOverflow | Inr _ \<Rightarrow> True) (ds_net st)
        \<and> list_all (\<lambda>a. \<not> isl (snd (apply_acknowledgement a now (ds_tx st)))) (ds_acks st))"
proof (cases "datagram_start alloc e f c seed")
  case (Inr st0)
  define st where "st = datagram_run f acts st0"
  have inv: "datagram_inv f st" unfolding st_def by (intro datagram_run_inv datagram_start_inv [OF Inr])
  note D = datagram_invD [OF inv]
  have len: "length (ds_committed st) = unat (rw_next (ds_rx st)) - unat f" using D(6,7,9) by simp
  have "case snd (window_offer d (ds_rx st)) of Inl err \<Rightarrow> err = Rde_SequenceOverflow | Inr _ \<Rightarrow> True"
    if d: "net_ok f st d" for d
  proof -
    have "v = (rd_kind d, rd_payload d)" if "window_view (ds_rx st) (rd_sequence d) = Some v" for v
      using D(10) that d unfolding view_ok_def net_ok_def by metis
    then show ?thesis
      using window_offer_spec [OF D(2), of d] d
      by (auto simp: offer_result_def net_ok_def MAX_PAYLOAD_LEN_def split: option.splits)
  qed
  moreover have "\<not> isl (snd (apply_acknowledgement a now (ds_tx st)))" if "ack_ok st a" for a
    using acknowledge_ok [OF inv that, of now] by simp
  ultimately have "list_all (\<lambda>d. case snd (window_offer d (ds_rx st)) of Inl err \<Rightarrow> err = Rde_SequenceOverflow | Inr _ \<Rightarrow> True) (ds_net st)"
    "list_all (\<lambda>a. \<not> isl (snd (apply_acknowledgement a now (ds_tx st)))) (ds_acks st)"
    using D(11,12) by (auto elim!: list.pred_mono_strong)
  then show ?thesis using Inr D(4-9) len by (simp add: st_def [symmetric] Let_def)
qed simp

text \<open>C16: from every state the session can reach, whatever was lost, there is a continuation that commits
  every submitted record and empties the transmit window, unless the sequence numbers run out.\<close>

theorem datagrams_catch_up:
  "case datagram_start alloc e f c seed of
     Inl _ \<Rightarrow> True
   | Inr st0 \<Rightarrow>
       (let st = datagram_run f acts st0 in
        if unat f + length (ds_records st) + 64 \<le> 2 ^ 64 then
          \<exists>more. ds_committed (datagram_run f more st) = ds_records st
            \<and> ds_records (datagram_run f more st) = ds_records st
            \<and> transmit_is_empty (ds_tx (datagram_run f more st))
        else True)"
proof (cases "datagram_start alloc e f c seed")
  case (Inr st0)
  define st where "st = datagram_run f acts st0"
  have inv: "datagram_inv f st" unfolding st_def by (intro datagram_run_inv datagram_start_inv [OF Inr])
  note D = datagram_invD [OF inv]
  have "\<exists>more. ds_committed (datagram_run f more st) = ds_records st \<and> ds_records (datagram_run f more st) = ds_records st
      \<and> transmit_is_empty (ds_tx (datagram_run f more st))"
    if room: "unat f + length (ds_records st) + 64 \<le> 2 ^ 64"
  proof -
    have "unat (tw_next (ds_tx st)) + 64 \<le> 2 ^ 64" using room D(7) by simp
    from deliver_all [OF inv this] obtain acts' where
      A: "datagram_inv f (datagram_run f acts' st)" "ds_records (datagram_run f acts' st) = ds_records st"
        "tw_next (ds_tx (datagram_run f acts' st)) = tw_next (ds_tx st)"
        "rw_next (ds_rx (datagram_run f acts' st)) = tw_next (ds_tx st)" by blast
    define s1 where "s1 = datagram_run f acts' st"
    let ?fin = "[Dga_Ack, Dga_Acknowledge (length (ds_acks s1)) 0]"
    have complete: "ds_committed s1 = ds_records st"
      using datagram_invD(7,9) [OF A(1)] A(2-4) by (simp add: s1_def)
    have eq: "datagram_run f (acts' @ ?fin) st = datagram_run f ?fin s1" by (simp add: datagram_run_def s1_def)
    show ?thesis
      using acknowledge_all [of f s1] A complete unfolding transmit_is_empty_def
      by (intro exI [of _ "acts' @ ?fin"]) (simp add: eq s1_def [symmetric])
  qed
  then show ?thesis using Inr by (simp add: st_def [symmetric] Let_def)
qed simp

text \<open>C17: in every state of a session the scan of the transmit window yields exactly the first eight due
  records in rotated order of all records not yet retired, and a record last sent a minute ago, with no
  fresher selective acknowledgement on the link, is always due.\<close>

theorem datagram_scan_exact:
  "case datagram_start alloc e f c seed of
     Inl _ \<Rightarrow> True
   | Inr st0 \<Rightarrow>
       (let tx = ds_tx (datagram_run f acts st0) in
        due_as_slice (snd (transmit_due now rtt tx)) = take 8 (filter (due_takes tx now rtt) (due_order tx))
        \<and> set (due_order tx) = {s. unat (tw_first tx) \<le> unat s \<and> unat s < unat (tw_next tx)}
        \<and> list_all (\<lambda>s. if overdue tx now s then due_takes tx now rtt s else True) (due_order tx)
        \<and> list_all (\<lambda>s. transmit_entry tx s \<noteq> None) (due_order tx))"
proof (cases "datagram_start alloc e f c seed")
  case (Inr st0)
  define tx where "tx = ds_tx (datagram_run f acts st0)"
  have inv: "transmit_inv tx" unfolding tx_def
    by (rule datagram_invD(1) [OF datagram_run_inv [OF datagram_start_inv [OF Inr]]])
  have "transmit_entry tx s \<noteq> None" if "s \<in> set (due_order tx)" for s
    using that due_order_set [OF inv] transmit_entry_live inv by (auto simp: transmit_inv_def simp del: not_None_eq)
  then show ?thesis using Inr transmit_due_slice [OF inv] due_order_set [OF inv] overdue_due [OF inv]
    by (simp add: tx_def [symmetric] Let_def list_all_iff transmit_live_def)
qed simp

end
