(* ===== verification/Ever_Text.thy ===== *)
theory Ever_Text
  imports Ever_Prelude
begin

text \<open>
  The operations of Rust's standard library on \<open>str\<close>, byte slices and decimal integers that
  the command-line, status and policy code uses. A \<open>str\<close> is the byte list of valid UTF-8; its
  characters are code points. Splitting at an ASCII pattern works on the bytes, since no byte
  of a multi-byte character is ASCII.
\<close>

section \<open>Characters\<close>

fun utf8_chars :: "bytes \<Rightarrow> nat list" where
  "utf8_chars [] = []"
| "utf8_chars (a # bs) =
     (if a < 0x80 then unat a # utf8_chars bs
      else if a < 0xE0 then
        (case bs of b # cs \<Rightarrow> (unat a mod 32 * 64 + unat b mod 64) # utf8_chars cs | _ \<Rightarrow> [])
      else if a < 0xF0 then
        (case bs of b # c # ds \<Rightarrow>
           (unat a mod 16 * 4096 + unat b mod 64 * 64 + unat c mod 64) # utf8_chars ds | _ \<Rightarrow> [])
      else
        (case bs of b # c # d # es \<Rightarrow>
           (unat a mod 8 * 262144 + unat b mod 64 * 4096 + unat c mod 64 * 64 + unat d mod 64)
             # utf8_chars es | _ \<Rightarrow> []))"

text \<open>\<open>char::is_control\<close> is the general category Cc, \<open>char::is_whitespace\<close> the property
  White_Space.\<close>

definition char_is_control :: "nat \<Rightarrow> bool" where
  "char_is_control c \<longleftrightarrow> c < 0x20 \<or> (0x7F \<le> c \<and> c \<le> 0x9F)"

definition char_is_whitespace :: "nat \<Rightarrow> bool" where
  "char_is_whitespace c \<longleftrightarrow>
     (0x09 \<le> c \<and> c \<le> 0x0D) \<or> c = 0x20 \<or> c = 0x85 \<or> c = 0xA0 \<or> c = 0x1680
     \<or> (0x2000 \<le> c \<and> c \<le> 0x200A) \<or> c = 0x2028 \<or> c = 0x2029 \<or> c = 0x202F \<or> c = 0x205F \<or> c = 0x3000"

definition ascii_lower :: "u8 \<Rightarrow> u8" where
  "ascii_lower c = (if 0x41 \<le> c \<and> c \<le> 0x5A then c + 0x20 else c)"

definition eq_ignore_ascii_case :: "bytes \<Rightarrow> bytes \<Rightarrow> bool" where
  "eq_ignore_ascii_case a b \<longleftrightarrow> map ascii_lower a = map ascii_lower b"

definition is_ascii_whitespace :: "u8 \<Rightarrow> bool" where
  "is_ascii_whitespace c \<longleftrightarrow> c = 0x20 \<or> c = 0x09 \<or> c = 0x0A \<or> c = 0x0C \<or> c = 0x0D"

section \<open>Prefixes and splits\<close>

definition strip_prefix :: "bytes \<Rightarrow> bytes \<Rightarrow> bytes option" where
  "strip_prefix p s = (if take (length p) s = p then Some (drop (length p) s) else None)"

definition starts_with :: "bytes \<Rightarrow> bytes \<Rightarrow> bool" where
  "starts_with p s \<longleftrightarrow> take (length p) s = p"

definition strip_suffix :: "bytes \<Rightarrow> bytes \<Rightarrow> bytes option" where
  "strip_suffix p s =
     (if length p \<le> length s \<and> drop (length s - length p) s = p
      then Some (take (length s - length p) s) else None)"

lemma strip_prefix_iff [simp]: "strip_prefix p s = Some r \<longleftrightarrow> s = p @ r"
  by (auto simp: strip_prefix_def) (metis append_take_drop_id)

lemma strip_prefix_append [simp]: "strip_prefix p (p @ r) = Some r"
  by simp

lemma strip_prefix_simps [simp]:
  "strip_prefix [] s = Some s" "strip_prefix (c # p) [] = None"
  "strip_prefix (c # p) (d # s) = (if d = c then strip_prefix p s else None)"
  by (simp_all add: strip_prefix_def)

lemma starts_with_iff: "starts_with p s \<longleftrightarrow> (\<exists>r. s = p @ r)"
  by (auto simp: starts_with_def) (metis append_take_drop_id)

fun split_once :: "bytes \<Rightarrow> bytes \<Rightarrow> (bytes \<times> bytes) option" where
  "split_once p [] = (if p = [] then Some ([], []) else None)"
| "split_once p (c # cs) =
     (if starts_with p (c # cs) then Some ([], drop (length p) (c # cs))
      else map_option (\<lambda>(a, b). (c # a, b)) (split_once p cs))"

lemma split_once_sound: "split_once p s = Some (a, b) \<Longrightarrow> s = a @ p @ b"
proof (induction s arbitrary: a)
  case (Cons c s)
  then show ?case
    by (auto simp: starts_with_iff split: if_splits)
qed (simp split: if_splits)

lemma split_once_first: "p \<noteq> [] \<Longrightarrow> hd p \<notin> set a \<Longrightarrow> split_once p (a @ p @ b) = Some (a, b)"
proof (induction a)
  case Nil
  then show ?case by (cases p) (auto simp: starts_with_def)
next
  case (Cons c a)
  then have "\<not> starts_with p (c # a @ p @ b)"
    by (cases p) (auto simp: starts_with_def)
  with Cons show ?case by simp
qed

lemma split_once_byte: "c \<notin> set a \<Longrightarrow> split_once [c] (a @ c # b) = Some (a, b)"
  using split_once_first [of "[c]" a b] by simp

lemma split_once_byte_sound: "split_once [c] s = Some (a, b) \<Longrightarrow> s = a @ c # b \<and> c \<notin> set a"
proof (induction s arbitrary: a)
  case (Cons d s)
  then show ?case by (auto simp: starts_with_def split: if_splits)
qed simp

fun split_byte :: "u8 \<Rightarrow> bytes \<Rightarrow> bytes list" where
  "split_byte sep [] = [[]]"
| "split_byte sep (c # cs) =
     (if c = sep then [] # split_byte sep cs
      else case split_byte sep cs of [] \<Rightarrow> [[c]] | w # ws \<Rightarrow> (c # w) # ws)"

fun join_words :: "bytes \<Rightarrow> bytes list \<Rightarrow> bytes" where
  "join_words sep [] = []"
| "join_words sep [w] = w"
| "join_words sep (w # v # ws) = w @ sep @ join_words sep (v # ws)"

lemma split_byte_nonempty [simp]: "split_byte sep s \<noteq> []"
  by (cases s) (auto split: list.splits)

lemma split_byte_free: "sep \<notin> set w \<Longrightarrow> split_byte sep w = [w]"
  by (induction w) auto

lemma split_byte_append: "sep \<notin> set w \<Longrightarrow> split_byte sep (w @ sep # s) = w # split_byte sep s"
  by (induction w) auto

lemma join_split_byte [simp]: "join_words [sep] (split_byte sep s) = s"
proof (induction s)
  case (Cons c s)
  have "join_words x ((c # w) # ws) = c # join_words x (w # ws)" for x w ws by (cases ws) simp_all
  moreover have "join_words x ([] # w # ws) = x @ join_words x (w # ws)" for x w ws by simp
  ultimately show ?case using Cons by (cases "split_byte sep s") auto
qed simp

lemma split_byte_join:
  "list_all (\<lambda>w. sep \<notin> set w) ws \<Longrightarrow> ws \<noteq> [] \<Longrightarrow> split_byte sep (join_words [sep] ws) = ws"
  by (induction "[sep]" ws rule: join_words.induct) (auto simp: split_byte_free split_byte_append)

text \<open>\<open>str::lines\<close>: a line ends with a line feed, of which a preceding carriage return is part;
  the last line may end with the text.\<close>

definition strip_cr :: "bytes \<Rightarrow> bytes" where
  "strip_cr l = (if l \<noteq> [] \<and> last l = 0x0D then butlast l else l)"

definition str_lines :: "bytes \<Rightarrow> bytes list" where
  "str_lines s =
     (let ps = split_byte 0x0A s
      in map strip_cr (butlast ps) @ (if last ps = [] then [] else [last ps]))"

lemma str_lines_Nil [simp]: "str_lines [] = []"
  by (simp add: str_lines_def)

lemma str_lines_line:
  "0x0A \<notin> set l \<Longrightarrow> str_lines (l @ 0x0A # s) = strip_cr l # str_lines s"
  by (simp add: str_lines_def split_byte_append Let_def)

lemma str_lines_records:
  "list_all (\<lambda>l. 0x0A \<notin> set l \<and> 0x0D \<notin> set l) ls \<Longrightarrow> str_lines (concat (map (\<lambda>l. l @ [0x0A]) ls)) = ls"
  by (induction ls) (auto simp: str_lines_line strip_cr_def dest: last_in_set)

function slice_chunks :: "nat \<Rightarrow> 'a list \<Rightarrow> 'a list list" where
  "slice_chunks n xs = (if n = 0 \<or> xs = [] then [] else take n xs # slice_chunks n (drop n xs))"
  by pat_completeness auto
termination by (relation "measure (length \<circ> snd)") auto

declare slice_chunks.simps [simp del]

lemma slice_chunks_Nil [simp]: "slice_chunks n [] = []"
  by (simp add: slice_chunks.simps)

lemma slice_chunks_append: "length c = n \<Longrightarrow> 0 < n \<Longrightarrow> slice_chunks n (c @ xs) = c # slice_chunks n xs"
  by (subst slice_chunks.simps) auto

lemma slice_chunks_last: "length c \<le> n \<Longrightarrow> c \<noteq> [] \<Longrightarrow> slice_chunks n c = [c]"
  by (subst slice_chunks.simps) (cases "n = 0", auto)

section \<open>Decimal integers\<close>

fun to_dec :: "nat \<Rightarrow> bytes" where
  "to_dec n = (if n < 10 then [0x30 + of_nat n] else to_dec (n div 10) @ [0x30 + of_nat (n mod 10)])"

declare to_dec.simps [simp del]

definition digit_val :: "u8 \<Rightarrow> nat" where
  "digit_val c = unat c - 0x30"

definition dec_val :: "bytes \<Rightarrow> nat" where
  "dec_val s = foldl (\<lambda>v c. v * 10 + digit_val c) 0 s"

text \<open>\<open>parse_dec m\<close> is \<open>from_str\<close> of an unsigned integer type with the maximum \<open>m\<close>: one leading
  plus sign is accepted, as are leading zeros.\<close>

definition parse_dec :: "nat \<Rightarrow> bytes \<Rightarrow> nat option" where
  "parse_dec m s =
     (let ds = (case s of [] \<Rightarrow> [] | c # cs \<Rightarrow> if c = 0x2B then cs else s)
      in if ds = [] \<or> \<not> list_all is_ascii_digit ds \<or> m < dec_val ds then None else Some (dec_val ds))"

lemma digit_byte:
  assumes "d < 10"
  shows "is_ascii_digit (0x30 + of_nat d)" "digit_val (0x30 + of_nat d) = d"
    "(0x30 :: u8) + of_nat d \<noteq> 0x2B" "(0x30 :: u8) + of_nat d \<noteq> 0x20" "(0x30 :: u8) + of_nat d \<noteq> 0x0A"
    "(0x30 :: u8) + of_nat d \<noteq> 0x0D" "(0x30 :: u8) + of_nat d \<noteq> 0x3A"
proof -
  from assms have "d \<in> {0, 1, 2, 3, 4, 5, 6, 7, 8, 9}" by auto
  then show "is_ascii_digit (0x30 + of_nat d)" "digit_val (0x30 + of_nat d) = d"
    "(0x30 :: u8) + of_nat d \<noteq> 0x2B" "(0x30 :: u8) + of_nat d \<noteq> 0x20" "(0x30 :: u8) + of_nat d \<noteq> 0x0A"
    "(0x30 :: u8) + of_nat d \<noteq> 0x0D" "(0x30 :: u8) + of_nat d \<noteq> 0x3A"
    by (auto simp: is_ascii_digit_def digit_val_def)
qed

lemma to_dec_nonempty [simp]: "to_dec n \<noteq> []"
  by (subst to_dec.simps) auto

lemma to_dec_digits: "list_all is_ascii_digit (to_dec n)"
  by (induction n rule: to_dec.induct) (subst to_dec.simps, auto simp: digit_byte)

lemma digit_not:
  "is_ascii_digit c \<Longrightarrow> c \<noteq> 0x2B \<and> c \<noteq> 0x20 \<and> c \<noteq> 0x0A \<and> c \<noteq> 0x0D \<and> c \<noteq> 0x3A \<and> c \<noteq> 0x27 \<and> c \<noteq> 0x25"
  by (auto simp: is_ascii_digit_def)

lemma to_dec_free:
  "0x20 \<notin> set (to_dec n)" "0x0A \<notin> set (to_dec n)" "0x0D \<notin> set (to_dec n)" "0x3A \<notin> set (to_dec n)"
  "0x27 \<notin> set (to_dec n)" "0x25 \<notin> set (to_dec n)"
  using to_dec_digits [of n] by (auto simp: list_all_iff dest: digit_not)

lemma dec_val_to_dec [simp]: "dec_val (to_dec n) = n"
proof (induction n rule: to_dec.induct)
  case (1 n)
  then show ?case
    by (subst to_dec.simps) (auto simp: dec_val_def digit_byte)
qed

lemma parse_dec_to_dec [simp]: "parse_dec m (to_dec n) = (if n \<le> m then Some n else None)"
proof -
  obtain c cs where s: "to_dec n = c # cs"
    by (cases "to_dec n") auto
  then have "c \<noteq> 0x2B"
    using to_dec_digits [of n] by (auto dest: digit_not)
  then have "(case to_dec n of [] \<Rightarrow> [] | c # cs \<Rightarrow> if c = 0x2B then cs else to_dec n) = to_dec n"
    by (simp add: s)
  then show ?thesis
    using to_dec_digits [of n] by (auto simp: parse_dec_def Let_def)
qed

lemma to_dec_inj [simp]: "to_dec m = to_dec n \<longleftrightarrow> m = n"
  by (metis dec_val_to_dec)

lemma parse_dec_bound: "parse_dec m s = Some n \<Longrightarrow> n \<le> m"
  by (auto simp: parse_dec_def Let_def split: if_splits)

end
