(* ===== verification/Eversh_Remote.thy ===== *)
theory Eversh_Remote
  imports Ever_Text Interfaces
begin

text \<open>
  The supervisor's limits and its remote-control requests (\<open>crates/eversh/src/limits.rs\<close>,
  \<open>error.rs\<close>, \<open>remote.rs\<close>): the two request codecs, unpadded base64url, and the validation of
  names, labels and destinations. Both codecs and the base64url coding are interpretations of
  the exact codec interface: a decoder accepts exactly what the encoder produces.
\<close>

section \<open>Limits and errors\<close>

record eversh_limits =
  remote_control_max :: usize
  arg_count_max :: usize
  session_name_max :: usize
  socket_path_max :: usize
  request_origins_max :: usize
  origin_label_max :: usize
  retry_attempts_max :: u32
  retry_backoff_base_ms :: u64
  retry_backoff_cap_ms :: u64
  retry_deadline_ms :: u64
  association_drain_ms :: u64
  episode_restarts_max :: u32
  list_output_max :: usize
  resume_sessions_max :: usize

datatype udp_policy_violation =
    Upv_PeerLoopbackRequiresExplicit | Upv_ExplicitFamilyMismatch | Upv_ExplicitPortZero
  | Upv_RangeStartsAtZero | Upv_RangeInverted | Upv_RangeTooWide | Upv_RangeMalformed
  | Upv_SelectedAddressUnusable | Upv_ExactBindMismatch

datatype link_status_fault =
    Lf_NoRoot | Lf_RootUnusable nat | Lf_UnsafePath | Lf_FileCreate nat

datatype eversh_error =
    Ee_NameInvalid | Ee_RequestTooLarge | Ee_ArgCountExceeded | Ee_NullInArg | Ee_VersionUnsupported
  | Ee_PathTooLong | Ee_RoleUnknown | Ee_NotImplementedInM1 | Ee_HostInvalid | Ee_OriginInvalid
  | Ee_Base64Malformed | Ee_FlagsInvalid | Ee_SelfExeUnsafe | Ee_StatusPathUnsafe | Ee_RemoteWordInvalid
  | Ee_SshOptionRejected | Ee_ShellCommandMissing | Ee_UdpPortRangeInvalid udp_policy_violation
  | Ee_RoleProtocol string | Ee_RoleVersionUnsupported | Ee_RemoteCommandFailed u8
  | Ee_RemoteCommandSignaled int | Ee_ListOutputTooLarge | Ee_ListOutputInvalid | Ee_LimitsInvalid
  | Ee_LinkStatusChannel "bytes option" link_status_fault | Ee_Io nat

definition default_eversh_limits :: eversh_limits where
  "default_eversh_limits = \<lparr>
     remote_control_max = 64 * 1024,
     arg_count_max = 64,
     session_name_max = 64,
     socket_path_max = 107,
     request_origins_max = 4,
     origin_label_max = 64,
     retry_attempts_max = 5,
     retry_backoff_base_ms = 250,
     retry_backoff_cap_ms = 5000,
     retry_deadline_ms = 420000,
     association_drain_ms = 30000,
     episode_restarts_max = 3,
     list_output_max = 1024 * 1024,
     resume_sessions_max = 64\<rparr>"

definition eversh_limits_validate :: "eversh_limits \<Rightarrow> eversh_error + unit" where
  "eversh_limits_validate l =
     (if remote_control_max l < 8 \<or> arg_count_max l = 0 \<or> session_name_max l = 0 \<or> socket_path_max l = 0
         \<or> request_origins_max l = 0 \<or> origin_label_max l = 0 \<or> retry_attempts_max l = 0
         \<or> retry_backoff_base_ms l = 0 \<or> retry_backoff_cap_ms l < retry_backoff_base_ms l
         \<or> retry_deadline_ms l = 0 \<or> association_drain_ms l = 0 \<or> episode_restarts_max l = 0
         \<or> list_output_max l = 0 \<or> resume_sessions_max l = 0
      then Inl Ee_LimitsInvalid else Inr ())"

lemma default_eversh_limits_valid: "eversh_limits_validate default_eversh_limits = Inr ()"
  by (simp add: eversh_limits_validate_def default_eversh_limits_def)

section \<open>Argument lists on the wire\<close>

definition REQUEST_VERSION :: u8 where "REQUEST_VERSION = 1"
definition CONTROL_VERSION :: u8 where "CONTROL_VERSION = 1"
definition FLAG_TAKE_OVER :: u8 where "FLAG_TAKE_OVER = 1"

fun encode_args :: "bytes \<Rightarrow> bytes list \<Rightarrow> eversh_error + bytes" where
  "encode_args out [] = Inr out"
| "encode_args out (a # as) =
     (if 0 \<in> set a then Inl Ee_NullInArg
      else if 2 ^ 32 - 1 < length a then Inl Ee_RequestTooLarge
      else encode_args (out @ be_bytes (of_nat (length a) :: u32) @ a) as)"

fun decode_args :: "nat \<Rightarrow> bytes list \<Rightarrow> bytes \<Rightarrow> eversh_error + bytes list \<times> bytes" where
  "decode_args 0 args rest = Inr (args, rest)"
| "decode_args (Suc n) args rest =
     (if length rest < 4 then Inl Ee_RequestTooLarge
      else
        let len = unat (be_word (subslice 0 4 rest) :: u32) in
        if length rest - 4 < len then Inl Ee_RequestTooLarge
        else
          let a = subslice 4 (4 + len) rest in
          if 0 \<in> set a then Inl Ee_NullInArg
          else decode_args n (args @ [a]) (drop (4 + len) rest))"

text \<open>The bytes of one argument and what makes it acceptable.\<close>

definition arg_bytes :: "bytes \<Rightarrow> bytes" where
  "arg_bytes a = be_bytes (of_nat (length a) :: u32) @ a"

definition arg_ok :: "bytes \<Rightarrow> bool" where
  "arg_ok a \<longleftrightarrow> 0 \<notin> set a \<and> length a < 2 ^ 32"

lemma encode_args_eq:
  "encode_args out as = Inr r \<longleftrightarrow> list_all arg_ok as \<and> r = out @ concat (map arg_bytes as)"
  by (induction as arbitrary: out) (auto simp: arg_ok_def arg_bytes_def)

lemma arg_bytes_length_word: "arg_ok a \<Longrightarrow> unat (of_nat (length a) :: u32) = length a"
  by (simp add: arg_ok_def)

lemma decode_args_step:
  "arg_ok a \<Longrightarrow> decode_args (Suc n) args (arg_bytes a @ rest) = decode_args n (args @ [a]) rest"
  by (simp add: arg_bytes_def arg_ok_def subslice_def Let_def)

lemma decode_args_complete:
  "list_all arg_ok as \<Longrightarrow>
   decode_args (length as) args (concat (map arg_bytes as) @ rest) = Inr (args @ as, rest)"
proof (induction as arbitrary: args)
  case (Cons a as)
  then show ?case
    using decode_args_step [of a "length as" args "concat (map arg_bytes as) @ rest"] by simp
qed simp

lemma decode_args_sound:
  "decode_args n args s = Inr (args', rest) \<Longrightarrow>
   \<exists>as. args' = args @ as \<and> length as = n \<and> list_all arg_ok as \<and> s = concat (map arg_bytes as) @ rest"
proof (induction n arbitrary: args s)
  case (Suc n)
  define len where "len = unat (be_word (subslice 0 4 s) :: u32)"
  define a where "a = subslice 4 (4 + len) s"
  from Suc.prems have l: "4 \<le> length s" "len \<le> length s - 4" and nz: "0 \<notin> set a"
    and rec: "decode_args n (args @ [a]) (drop (4 + len) s) = Inr (args', rest)"
    by (auto simp: Let_def len_def a_def split: if_splits)
  from Suc.IH [OF rec] obtain as where as: "args' = args @ a # as" "length as = n" "list_all arg_ok as"
    "drop (4 + len) s = concat (map arg_bytes as) @ rest" by auto
  have la: "length a = len" using l by (simp add: a_def)
  have "len < 2 ^ 32" unfolding len_def using unat_lt_32 by simp
  then have ok: "arg_ok a" using nz la by (simp add: arg_ok_def)
  have "be_bytes (of_nat len :: u32) = subslice 0 4 s"
    using l by (simp add: len_def)
  then have "arg_bytes a = subslice 0 4 s @ subslice 4 (4 + len) s"
    by (simp add: arg_bytes_def la) (simp add: a_def)
  also have "\<dots> = take (4 + len) s" by (simp add: subslice_def take_add)
  finally have "s = arg_bytes a @ drop (4 + len) s" by simp
  with as ok show ?case by (intro exI [of _ "a # as"]) simp
qed simp

section \<open>The generic request\<close>

record remote_request =
  rr_version :: u8
  rr_args :: "bytes list"

definition encode_remote_request :: "remote_request \<Rightarrow> eversh_limits \<Rightarrow> eversh_error + bytes" where
  "encode_remote_request r limits =
     (if rr_version r \<noteq> REQUEST_VERSION then Inl Ee_VersionUnsupported
      else if arg_count_max limits < length (rr_args r) then Inl Ee_ArgCountExceeded
      else
        try_bind (encode_args (REQUEST_VERSION # be_bytes (of_nat (length (rr_args r)) :: u16)) (rr_args r))
          (\<lambda>out. if remote_control_max limits < length out then Inl Ee_RequestTooLarge else Inr out))"

definition decode_remote_request :: "bytes \<Rightarrow> eversh_limits \<Rightarrow> eversh_error + remote_request" where
  "decode_remote_request buf limits =
     (if remote_control_max limits < length buf then Inl Ee_RequestTooLarge
      else if length buf < 3 then Inl Ee_RequestTooLarge
      else if buf ! 0 \<noteq> REQUEST_VERSION then Inl Ee_VersionUnsupported
      else
        let n = unat (be_word [buf ! 1, buf ! 2] :: u16) in
        if arg_count_max limits < n then Inl Ee_ArgCountExceeded
        else
          try_bind (decode_args n [] (drop 3 buf)) (\<lambda>(args, rest).
          if rest \<noteq> [] then Inl Ee_RequestTooLarge
          else Inr \<lparr>rr_version = REQUEST_VERSION, rr_args = args\<rparr>))"

section \<open>Validation\<close>

definition label_byte :: "u8 \<Rightarrow> bool" where
  "label_byte c \<longleftrightarrow> is_ascii_alphanumeric c \<or> c = 0x2E \<or> c = 0x5F \<or> c = 0x2D \<or> c = 0x3A \<or> c = 0x40"

definition validate_origin_label :: "bytes \<Rightarrow> eversh_limits \<Rightarrow> eversh_error + unit" where
  "validate_origin_label label limits =
     (if label = [] \<or> origin_label_max limits < length label \<or> \<not> list_all label_byte label
      then Inl Ee_OriginInvalid else Inr ())"

definition acceptable_colorterm :: "bytes \<Rightarrow> bool" where
  "acceptable_colorterm v \<longleftrightarrow>
     v \<noteq> [] \<and> length v \<le> 64 \<and>
     list_all (\<lambda>c. is_ascii_alphanumeric c \<or> c = 0x2E \<or> c = 0x5F \<or> c = 0x2D \<or> c = 0x2B) v"

definition host_byte :: "u8 \<Rightarrow> bool" where
  "host_byte c \<longleftrightarrow> is_ascii_alphanumeric c \<or> c = 0x2E \<or> c = 0x5F \<or> c = 0x2D \<or> c = 0x3A \<or> c = 0x40
     \<or> c = 0x5B \<or> c = 0x5D \<or> c = 0x25"

definition validate_host :: "bytes \<Rightarrow> eversh_error + unit" where
  "validate_host destination =
     (if destination = [] \<or> 1024 < length destination \<or> starts_with [0x2D] destination
         \<or> \<not> list_all host_byte destination
      then Inl Ee_HostInvalid else Inr ())"

definition name_byte :: "u8 \<Rightarrow> bool" where
  "name_byte c \<longleftrightarrow> is_ascii_alphanumeric c \<or> c = 0x2E \<or> c = 0x5F \<or> c = 0x2D"

definition valid_session_name :: "bytes \<Rightarrow> eversh_limits \<Rightarrow> bool" where
  "valid_session_name b limits =
     (if b = [] \<or> session_name_max limits < length b \<or> \<not> is_ascii_alphanumeric (b ! 0) then False
      else list_all name_byte b)"

definition check_socket_path :: "bytes \<Rightarrow> eversh_limits \<Rightarrow> eversh_error + unit" where
  "check_socket_path path limits =
     (if socket_path_max limits < length path then Inl Ee_PathTooLong else Inr ())"

text \<open>A host name, taken as its characters, becomes a label component.\<close>

definition sanitize_char :: "nat \<Rightarrow> u8" where
  "sanitize_char c =
     (if c < 128 \<and> (is_ascii_alphanumeric (of_nat c) \<or> c = 0x2E \<or> c = 0x5F \<or> c = 0x2D)
      then of_nat c else 0x2D)"

definition sanitize_host_label :: "bytes \<Rightarrow> bytes" where
  "sanitize_host_label raw =
     (let label = map sanitize_char (take 32 (utf8_chars raw))
      in if label = [] then str_bytes ''unknown'' else label)"

definition origin_label :: "bytes \<Rightarrow> bytes" where
  "origin_label local_host = str_bytes ''eversh:'' @ sanitize_host_label local_host"

lemma label_byte_ascii: "label_byte c \<Longrightarrow> c < 0x80"
  by (auto simp: label_byte_def dest: alphanumeric_ascii)

lemma name_byte_label: "name_byte c \<Longrightarrow> label_byte c"
  by (auto simp: name_byte_def label_byte_def)

lemma label_utf8: "list_all label_byte l \<Longrightarrow> utf8_valid l"
  by (rule ascii_utf8_valid) (auto simp: list_all_iff label_byte_ascii)

lemma colorterm_utf8: "acceptable_colorterm v \<Longrightarrow> utf8_valid v"
  by (rule ascii_utf8_valid) (auto simp: acceptable_colorterm_def list_all_iff alphanumeric_ascii)

section \<open>The control request\<close>

record control_call =
  cr_take_over :: bool
  cr_origins :: "bytes list"
  cr_child_argv :: "bytes list"
  cr_colorterm :: bytes

fun encode_origins :: "bytes \<Rightarrow> bytes list \<Rightarrow> eversh_limits \<Rightarrow> eversh_error + bytes" where
  "encode_origins out [] limits = Inr out"
| "encode_origins out (l # ls) limits =
     try_bind (validate_origin_label l limits) (\<lambda>_.
     encode_origins (out @ be_bytes (of_nat (length l) :: u16) @ l) ls limits)"

definition encode_colorterm :: "bytes \<Rightarrow> bytes \<Rightarrow> eversh_error + bytes" where
  "encode_colorterm out v =
     (if v = [] then Inr out
      else if \<not> acceptable_colorterm v then Inl Ee_RequestTooLarge
      else Inr (out @ [of_nat (length v)] @ v))"

definition encode_control_request :: "control_call \<Rightarrow> eversh_limits \<Rightarrow> eversh_error + bytes" where
  "encode_control_request r limits =
     (if request_origins_max limits < length (cr_origins r) then Inl Ee_OriginInvalid
      else if arg_count_max limits < length (cr_child_argv r) then Inl Ee_ArgCountExceeded
      else
        let head = [CONTROL_VERSION, if cr_take_over r then FLAG_TAKE_OVER else 0]
          @ be_bytes (of_nat (length (cr_origins r)) :: u16)
        in
        try_bind (encode_origins head (cr_origins r) limits) (\<lambda>out.
        try_bind (encode_args (out @ be_bytes (of_nat (length (cr_child_argv r)) :: u16)) (cr_child_argv r)) (\<lambda>out.
        try_bind (encode_colorterm out (cr_colorterm r)) (\<lambda>out.
        if remote_control_max limits < length out then Inl Ee_RequestTooLarge else Inr out))))"

fun decode_origins :: "nat \<Rightarrow> bytes list \<Rightarrow> bytes \<Rightarrow> eversh_limits \<Rightarrow> eversh_error + bytes list \<times> bytes" where
  "decode_origins 0 origins rest limits = Inr (origins, rest)"
| "decode_origins (Suc n) origins rest limits =
     (if length rest < 2 then Inl Ee_RequestTooLarge
      else
        let len = unat (be_word (subslice 0 2 rest) :: u16) in
        if length rest - 2 < len then Inl Ee_RequestTooLarge
        else
          let label = subslice 2 (2 + len) rest in
          if \<not> utf8_valid label then Inl Ee_OriginInvalid
          else
            try_bind (validate_origin_label label limits) (\<lambda>_.
            decode_origins n (origins @ [label]) (drop (2 + len) rest) limits))"

definition decode_colorterm :: "bytes \<Rightarrow> eversh_error + bytes" where
  "decode_colorterm rest =
     (if rest = [] then Inr []
      else
        let len = unat (rest ! 0) in
        if len = 0 \<or> length rest \<noteq> len + 1 then Inl Ee_RequestTooLarge
        else
          let v = drop 1 rest in
          if \<not> utf8_valid v then Inl Ee_RequestTooLarge
          else if \<not> acceptable_colorterm v then Inl Ee_RequestTooLarge
          else Inr v)"

definition decode_control_request :: "bytes \<Rightarrow> eversh_limits \<Rightarrow> eversh_error + control_call" where
  "decode_control_request buf limits =
     (if remote_control_max limits < length buf then Inl Ee_RequestTooLarge
      else if length buf < 6 then Inl Ee_RequestTooLarge
      else if buf ! 0 \<noteq> CONTROL_VERSION then Inl Ee_VersionUnsupported
      else if and (buf ! 1) (not FLAG_TAKE_OVER) \<noteq> 0 then Inl Ee_FlagsInvalid
      else
        let rest = drop 2 buf; n = unat (be_word (subslice 0 2 rest) :: u16); rest = drop 2 rest in
        if request_origins_max limits < n then Inl Ee_OriginInvalid
        else
          try_bind (decode_origins n [] rest limits) (\<lambda>(origins, rest).
          if length rest < 2 then Inl Ee_RequestTooLarge
          else
            let m = unat (be_word (subslice 0 2 rest) :: u16); rest = drop 2 rest in
            if arg_count_max limits < m then Inl Ee_ArgCountExceeded
            else
              try_bind (decode_args m [] rest) (\<lambda>(argv, rest).
              try_bind (decode_colorterm rest) (\<lambda>colorterm.
              Inr \<lparr>cr_take_over = (and (buf ! 1) FLAG_TAKE_OVER \<noteq> 0), cr_origins = origins,
                   cr_child_argv = argv, cr_colorterm = colorterm\<rparr>))))"

text \<open>The bytes of a request and the requests that have an encoding.\<close>

definition origin_bytes :: "bytes \<Rightarrow> bytes" where
  "origin_bytes l = be_bytes (of_nat (length l) :: u16) @ l"

definition origin_ok :: "eversh_limits \<Rightarrow> bytes \<Rightarrow> bool" where
  "origin_ok limits l \<longleftrightarrow> l \<noteq> [] \<and> length l \<le> origin_label_max limits \<and> list_all label_byte l"

definition colorterm_bytes :: "bytes \<Rightarrow> bytes" where
  "colorterm_bytes v = (if v = [] then [] else of_nat (length v) # v)"

definition control_bytes :: "control_call \<Rightarrow> bytes" where
  "control_bytes r =
     [CONTROL_VERSION, if cr_take_over r then FLAG_TAKE_OVER else 0]
     @ be_bytes (of_nat (length (cr_origins r)) :: u16) @ concat (map origin_bytes (cr_origins r))
     @ be_bytes (of_nat (length (cr_child_argv r)) :: u16) @ concat (map arg_bytes (cr_child_argv r))
     @ colorterm_bytes (cr_colorterm r)"

definition control_ok :: "eversh_limits \<Rightarrow> control_call \<Rightarrow> bool" where
  "control_ok limits r \<longleftrightarrow>
     length (cr_origins r) \<le> request_origins_max limits \<and> list_all (origin_ok limits) (cr_origins r)
     \<and> length (cr_child_argv r) \<le> arg_count_max limits \<and> list_all arg_ok (cr_child_argv r)
     \<and> (cr_colorterm r = [] \<or> acceptable_colorterm (cr_colorterm r))
     \<and> length (control_bytes r) \<le> remote_control_max limits"

text \<open>Limits whose counts fit their wire fields; the default limits are such.\<close>

definition wire_limits :: "eversh_limits \<Rightarrow> bool" where
  "wire_limits l \<longleftrightarrow> arg_count_max l < 2 ^ 16 \<and> request_origins_max l < 2 ^ 16 \<and> origin_label_max l < 2 ^ 16"

lemma default_wire_limits [simp]: "wire_limits default_eversh_limits"
  by (simp add: wire_limits_def default_eversh_limits_def)

lemma validate_origin_label_iff [simp]:
  "validate_origin_label l limits = Inr u \<longleftrightarrow> origin_ok limits l"
  by (auto simp: validate_origin_label_def origin_ok_def not_less)

lemma encode_origins_eq:
  "encode_origins out ls limits = Inr r \<longleftrightarrow>
   list_all (origin_ok limits) ls \<and> r = out @ concat (map origin_bytes ls)"
  by (induction ls arbitrary: out) (auto simp: origin_bytes_def)

lemma encode_colorterm_eq:
  "encode_colorterm out v = Inr r \<longleftrightarrow> (v = [] \<or> acceptable_colorterm v) \<and> r = out @ colorterm_bytes v"
  by (auto simp: encode_colorterm_def colorterm_bytes_def)

lemma encode_control_request_eq:
  "encode_control_request r limits = Inr b \<longleftrightarrow> control_ok limits r \<and> b = control_bytes r"
  by (auto simp: encode_control_request_def Let_def encode_origins_eq encode_args_eq encode_colorterm_eq
      control_ok_def control_bytes_def not_less)

lemma decode_origins_step:
  "wire_limits limits \<Longrightarrow> origin_ok limits l \<Longrightarrow>
   decode_origins (Suc n) ls (origin_bytes l @ rest) limits = decode_origins n (ls @ [l]) rest limits"
proof -
  assume a: "wire_limits limits" "origin_ok limits l"
  then have "length l < 65536" "utf8_valid l"
    by (auto simp: wire_limits_def origin_ok_def label_utf8)
  with a show ?thesis
    by (simp add: origin_bytes_def subslice_def Let_def) (simp add: validate_origin_label_def origin_ok_def)
qed

lemma decode_origins_complete:
  "wire_limits limits \<Longrightarrow> list_all (origin_ok limits) ls \<Longrightarrow>
   decode_origins (length ls) acc (concat (map origin_bytes ls) @ rest) limits = Inr (acc @ ls, rest)"
proof (induction ls arbitrary: acc)
  case (Cons l ls)
  then show ?case
    using decode_origins_step [of limits l "length ls" acc "concat (map origin_bytes ls) @ rest"] by simp
qed simp

lemma decode_origins_sound:
  "decode_origins n acc s limits = Inr (acc', rest) \<Longrightarrow>
   \<exists>ls. acc' = acc @ ls \<and> length ls = n \<and> list_all (origin_ok limits) ls \<and> s = concat (map origin_bytes ls) @ rest"
proof (induction n arbitrary: acc s)
  case (Suc n)
  define len where "len = unat (be_word (subslice 0 2 s) :: u16)"
  define l where "l = subslice 2 (2 + len) s"
  from Suc.prems have b: "2 \<le> length s" "len \<le> length s - 2" and ok: "origin_ok limits l"
    and rec: "decode_origins n (acc @ [l]) (drop (2 + len) s) limits = Inr (acc', rest)"
    by (auto simp: Let_def len_def l_def split: if_splits)
  from Suc.IH [OF rec] obtain ls where ls: "acc' = acc @ l # ls" "length ls = n"
    "list_all (origin_ok limits) ls" "drop (2 + len) s = concat (map origin_bytes ls) @ rest" by auto
  have la: "length l = len" using b by (simp add: l_def)
  have "be_bytes (of_nat len :: u16) = subslice 0 2 s"
    using b by (simp add: len_def)
  then have "origin_bytes l = subslice 0 2 s @ subslice 2 (2 + len) s"
    by (simp add: origin_bytes_def la) (simp add: l_def)
  also have "\<dots> = take (2 + len) s" by (simp only: subslice_def take_add drop_0 diff_zero add_diff_cancel_left')
  finally have "s = origin_bytes l @ drop (2 + len) s" by simp
  with ls ok show ?case by (intro exI [of _ "l # ls"]) simp
qed simp

lemma decode_colorterm_eq:
  "decode_colorterm s = Inr v \<longleftrightarrow> (v = [] \<or> acceptable_colorterm v) \<and> s = colorterm_bytes v"
proof (cases s)
  case (Cons c cs)
  have "acceptable_colorterm v \<Longrightarrow> length v < 256 \<and> v \<noteq> [] \<and> utf8_valid v"
    by (auto simp: acceptable_colorterm_def colorterm_utf8)
  then show ?thesis
    by (auto simp: decode_colorterm_def colorterm_bytes_def Let_def Cons unsigned_of_nat take_bit_nat_eq_self)
qed (auto simp: decode_colorterm_def colorterm_bytes_def)

lemma take_over_flag: "and (x :: u8) (not FLAG_TAKE_OVER) = 0 \<longleftrightarrow> x = 0 \<or> x = FLAG_TAKE_OVER"
proof
  assume a: "and x (not FLAG_TAKE_OVER) = 0"
  have "x = and x FLAG_TAKE_OVER"
  proof (rule bit_word_eqI)
    fix n assume "n < LENGTH(8)"
    with a have "\<not> bit (and x (not FLAG_TAKE_OVER)) n" by simp
    then show "bit x n = bit (and x FLAG_TAKE_OVER) n"
      using \<open>n < LENGTH(8)\<close> by (auto simp: bit_simps)
  qed
  also have "\<dots> = (if even x then 0 else FLAG_TAKE_OVER)"
    by (simp add: FLAG_TAKE_OVER_def and_one_eq mod_2_eq_odd)
  finally show "x = 0 \<or> x = FLAG_TAKE_OVER" by (metis (full_types))
qed (auto simp: FLAG_TAKE_OVER_def)

lemma control_bytes_cons:
  "control_bytes r = CONTROL_VERSION # (if cr_take_over r then FLAG_TAKE_OVER else 0)
     # be_bytes (of_nat (length (cr_origins r)) :: u16) @ concat (map origin_bytes (cr_origins r))
     @ be_bytes (of_nat (length (cr_child_argv r)) :: u16) @ concat (map arg_bytes (cr_child_argv r))
     @ colorterm_bytes (cr_colorterm r)"
  by (simp add: control_bytes_def)

lemma be16_front [simp]:
  "subslice 0 2 (be_bytes (w :: u16) @ s) = be_bytes w" "drop 2 (be_bytes (w :: u16) @ s) = s"
  by (simp_all add: subslice_def)

theorem decode_control_complete:
  assumes "wire_limits limits" "control_ok limits r"
  shows "decode_control_request (control_bytes r) limits = Inr r"
proof -
  from assms have n: "length (cr_origins r) < 65536" "length (cr_child_argv r) < 65536"
    by (auto simp: wire_limits_def control_ok_def)
  have len: "\<not> length (control_bytes r) < 6"
    by (simp add: control_bytes_cons)
  have t: "and (if cr_take_over r then FLAG_TAKE_OVER else 0) (not FLAG_TAKE_OVER) = 0"
    "and (if cr_take_over r then FLAG_TAKE_OVER else 0) FLAG_TAKE_OVER \<noteq> 0 \<longleftrightarrow> cr_take_over r"
    by (simp_all add: take_over_flag FLAG_TAKE_OVER_def)
  have b0: "control_bytes r ! 0 = CONTROL_VERSION"
    and b1: "control_bytes r ! 1 = (if cr_take_over r then FLAG_TAKE_OVER else 0)"
    and d2: "drop 2 (control_bytes r) = be_bytes (of_nat (length (cr_origins r)) :: u16)
      @ concat (map origin_bytes (cr_origins r))
      @ be_bytes (of_nat (length (cr_child_argv r)) :: u16) @ concat (map arg_bytes (cr_child_argv r))
      @ colorterm_bytes (cr_colorterm r)"
    by (simp_all add: control_bytes_cons)
  show ?thesis
    using assms n len
    unfolding decode_control_request_def b0 b1 d2 t
    by (simp add: Let_def control_ok_def decode_origins_complete decode_args_complete decode_colorterm_eq)
      (intro exI [of _ "cr_colorterm r"], simp)
qed

theorem decode_control_sound:
  assumes "decode_control_request buf limits = Inr r"
  shows "control_ok limits r \<and> buf = control_bytes r"
proof -
  define n where "n = unat (be_word (subslice 0 2 (drop 2 buf)) :: u16)"
  from assms have len: "length buf \<le> remote_control_max limits" "6 \<le> length buf"
    and b0: "buf ! 0 = CONTROL_VERSION" and flag: "buf ! 1 = 0 \<or> buf ! 1 = FLAG_TAKE_OVER"
    and n: "n \<le> request_origins_max limits"
    by (auto simp: decode_control_request_def Let_def n_def take_over_flag split: if_splits)
  from assms obtain ls s as t v where d: "decode_origins n [] (drop 2 (drop 2 buf)) limits = Inr (ls, s)"
    "2 \<le> length s" "unat (be_word (subslice 0 2 s) :: u16) \<le> arg_count_max limits"
    "decode_args (unat (be_word (subslice 0 2 s) :: u16)) [] (drop 2 s) = Inr (as, t)"
    "decode_colorterm t = Inr v"
    and r: "r = \<lparr>cr_take_over = (and (buf ! 1) FLAG_TAKE_OVER \<noteq> 0), cr_origins = ls,
      cr_child_argv = as, cr_colorterm = v\<rparr>"
    by (auto simp: decode_control_request_def Let_def n_def split: if_splits)
  from decode_origins_sound [OF d(1)] have o: "length ls = n" "list_all (origin_ok limits) ls"
    "drop 2 (drop 2 buf) = concat (map origin_bytes ls) @ s" by auto
  from decode_args_sound [OF d(4)] have a: "length as = unat (be_word (subslice 0 2 s) :: u16)"
    "list_all arg_ok as" "drop 2 s = concat (map arg_bytes as) @ t" by auto
  from d(5) have c: "v = [] \<or> acceptable_colorterm v" "t = colorterm_bytes v"
    by (simp_all add: decode_colorterm_eq)
  have s: "s = be_bytes (of_nat (length as) :: u16) @ concat (map arg_bytes as) @ t"
    using d(2) a(1,3) append_take_drop_id [of 2 s] by (simp add: subslice_def)
  have "drop 2 buf = be_bytes (of_nat (length ls) :: u16) @ concat (map origin_bytes ls) @ s"
    using len o(1,3) append_take_drop_id [of 2 "drop 2 buf"] by (simp add: subslice_def n_def)
  moreover obtain x y z where z: "buf = x # y # z"
    using len(2) by (cases buf; cases "tl buf") auto
  ultimately have "buf = CONTROL_VERSION # (buf ! 1) # be_bytes (of_nat (length ls) :: u16)
      @ concat (map origin_bytes ls) @ s"
    using b0 by simp
  moreover have "buf ! 1 = (if cr_take_over r then FLAG_TAKE_OVER else 0)"
    using flag by (auto simp: r FLAG_TAKE_OVER_def)
  ultimately have eq: "buf = control_bytes r"
    unfolding control_bytes_cons s c(2) by (simp add: r)
  then show ?thesis
    using len n o a d(3) c by (simp add: control_ok_def) (simp add: r)
qed

lemma control_request_iff:
  "wire_limits limits \<Longrightarrow>
   decode_control_request buf limits = Inr r \<longleftrightarrow> encode_control_request r limits = Inr buf"
  using decode_control_complete decode_control_sound by (auto simp: encode_control_request_eq)

interpretation control_codec: exact_codec control_bytes
  "\<lambda>buf. decode_control_request buf default_eversh_limits" "control_ok default_eversh_limits"
  by unfold_locales (simp_all add: decode_control_complete decode_control_sound)

text \<open>The generic request likewise.\<close>

definition remote_bytes :: "remote_request \<Rightarrow> bytes" where
  "remote_bytes r = REQUEST_VERSION # be_bytes (of_nat (length (rr_args r)) :: u16) @ concat (map arg_bytes (rr_args r))"

definition remote_ok :: "eversh_limits \<Rightarrow> remote_request \<Rightarrow> bool" where
  "remote_ok limits r \<longleftrightarrow> rr_version r = REQUEST_VERSION \<and> length (rr_args r) \<le> arg_count_max limits
     \<and> list_all arg_ok (rr_args r) \<and> length (remote_bytes r) \<le> remote_control_max limits"

lemma encode_remote_request_eq:
  "encode_remote_request r limits = Inr b \<longleftrightarrow> remote_ok limits r \<and> b = remote_bytes r"
  by (auto simp: encode_remote_request_def encode_args_eq remote_ok_def remote_bytes_def not_less)

lemma front_3:
  assumes "length b = 2"
  shows "[(v # b @ s) ! 1, (v # b @ s) ! 2] = b" "drop 3 (v # b @ s) = s"
proof -
  from assms obtain x y where "b = [x, y]"
    by (auto simp: numeral_2_eq_2 length_Suc_conv)
  then show "[(v # b @ s) ! 1, (v # b @ s) ! 2] = b" "drop 3 (v # b @ s) = s"
    by simp_all
qed

theorem decode_remote_complete:
  assumes "wire_limits limits" "remote_ok limits r"
  shows "decode_remote_request (remote_bytes r) limits = Inr r"
proof -
  define b where "b = be_bytes (of_nat (length (rr_args r)) :: u16)"
  have b: "length b = 2" "remote_bytes r = REQUEST_VERSION # b @ concat (map arg_bytes (rr_args r))"
    by (simp_all add: b_def remote_bytes_def)
  from assms have n: "unat (be_word b :: u16) = length (rr_args r)"
    by (simp add: b_def wire_limits_def remote_ok_def)
  show ?thesis
    using assms(2) b(1) n unfolding decode_remote_request_def remote_ok_def b(2) front_3 [OF b(1)]
    using decode_args_complete [of "rr_args r" "[]" "[]"]
    by (auto simp: Let_def intro!: exI [of _ "rr_args r"])
qed

theorem decode_remote_sound:
  assumes "decode_remote_request buf limits = Inr r"
  shows "remote_ok limits r \<and> buf = remote_bytes r"
proof -
  from assms have len: "length buf \<le> remote_control_max limits" "3 \<le> length buf" and v: "buf ! 0 = REQUEST_VERSION"
    by (auto simp: decode_remote_request_def split: if_splits)
  from assms obtain as where d: "decode_args (unat (be_word [buf ! 1, buf ! 2] :: u16)) [] (drop 3 buf) = Inr (as, [])"
    "unat (be_word [buf ! 1, buf ! 2] :: u16) \<le> arg_count_max limits"
    and r: "r = \<lparr>rr_version = REQUEST_VERSION, rr_args = as\<rparr>"
    by (auto simp: decode_remote_request_def Let_def split: if_splits)
  from decode_args_sound [OF d(1)] have a: "length as = unat (be_word [buf ! 1, buf ! 2] :: u16)"
    "list_all arg_ok as" "drop 3 buf = concat (map arg_bytes as)" by auto
  obtain x y z s where buf: "buf = x # y # z # s"
    using len(2) by (auto simp: numeral_3_eq_3 Suc_le_length_iff)
  have "be_bytes (of_nat (length as) :: u16) = [buf ! 1, buf ! 2]"
    unfolding a(1) by simp
  then have "buf = remote_bytes r"
    using a(3) v by (simp add: remote_bytes_def r buf)
  then show ?thesis
    using len(1) a(2) d(2) by (simp add: remote_ok_def) (simp add: r a(1))
qed

interpretation remote_codec: exact_codec remote_bytes
  "\<lambda>buf. decode_remote_request buf default_eversh_limits" "remote_ok default_eversh_limits"
  by unfold_locales (simp_all add: decode_remote_complete decode_remote_sound)

section \<open>Unpadded base64url\<close>

definition BASE64URL :: bytes where
  "BASE64URL = str_bytes ''ABCDEFGHIJKLMNOPQRSTUVWXYZabcdefghijklmnopqrstuvwxyz0123456789-_''"

definition encode_chunk :: "bytes \<Rightarrow> bytes" where
  "encode_chunk chunk =
     (let b0 = ucast (chunk ! 0) :: u32;
          b1 = (if 1 < length chunk then ucast (chunk ! 1) else 0) :: u32;
          b2 = (if 2 < length chunk then ucast (chunk ! 2) else 0) :: u32;
          gr = or (or (push_bit 16 b0) (push_bit 8 b1)) b2
      in [BASE64URL ! unat (and (drop_bit 18 gr) 63), BASE64URL ! unat (and (drop_bit 12 gr) 63)]
         @ (if 1 < length chunk then [BASE64URL ! unat (and (drop_bit 6 gr) 63)] else [])
         @ (if 2 < length chunk then [BASE64URL ! unat (and gr 63)] else []))"

definition base64url_encode :: "bytes \<Rightarrow> bytes" where
  "base64url_encode b = concat (map encode_chunk (slice_chunks 3 b))"

definition base64url_value :: "u8 \<Rightarrow> eversh_error + u32" where
  "base64url_value c =
     (if 0x41 \<le> c \<and> c \<le> 0x5A then Inr (ucast (c - 0x41))
      else if 0x61 \<le> c \<and> c \<le> 0x7A then Inr (ucast (c - 0x61 + 26))
      else if 0x30 \<le> c \<and> c \<le> 0x39 then Inr (ucast (c - 0x30 + 52))
      else if c = 0x2D then Inr 62
      else if c = 0x5F then Inr 63
      else Inl Ee_Base64Malformed)"

fun chunk_group :: "u32 \<Rightarrow> bytes \<Rightarrow> eversh_error + u32" where
  "chunk_group gr [] = Inr gr"
| "chunk_group gr (c # cs) =
     try_bind (base64url_value c) (\<lambda>v. chunk_group (or (push_bit 6 gr) v) cs)"

definition decode_chunk64 :: "bytes \<Rightarrow> eversh_error + bytes" where
  "decode_chunk64 chunk =
     try_bind (chunk_group 0 chunk) (\<lambda>gr.
     if length chunk = 4 then
       Inr [ucast (drop_bit 16 gr), ucast (drop_bit 8 gr), ucast gr]
     else if length chunk = 3 then
       if and gr 0b11 \<noteq> 0 then Inl Ee_Base64Malformed
       else Inr [ucast (drop_bit 10 gr), ucast (drop_bit 2 gr)]
     else if length chunk = 2 then
       if and gr 0b1111 \<noteq> 0 then Inl Ee_Base64Malformed
       else Inr [ucast (drop_bit 4 gr)]
     else Inl Ee_Base64Malformed)"

fun decode_chunks64 :: "bytes \<Rightarrow> bytes list \<Rightarrow> eversh_error + bytes" where
  "decode_chunks64 out [] = Inr out"
| "decode_chunks64 out (c # cs) = try_bind (decode_chunk64 c) (\<lambda>b. decode_chunks64 (out @ b) cs)"

definition base64url_decode :: "bytes \<Rightarrow> nat \<Rightarrow> eversh_error + bytes" where
  "base64url_decode text max_decoded =
     (let full = length text div 4; tail = length text mod 4 in
      if tail = 1 then Inl Ee_Base64Malformed
      else
        let decoded_len = full * 3 + (if tail = 0 then 0 else if tail = 2 then 1 else 2) in
        if max_decoded < decoded_len then Inl Ee_RequestTooLarge
        else decode_chunks64 [] (slice_chunks 4 text))"

text \<open>The alphabet: the value of a character of the table is its position, and only the
  characters of the table have a value.\<close>

lemma alphabet_values:
  "list_all (\<lambda>i. base64url_value (BASE64URL ! i) = Inr (of_nat i)) [0..<64]"
  by code_simp

lemma alphabet_characters:
  "list_all (\<lambda>i. BASE64URL ! i = of_nat (0x41 + i)) [0..<26]"
  "list_all (\<lambda>i. BASE64URL ! (26 + i) = of_nat (0x61 + i)) [0..<26]"
  "list_all (\<lambda>i. BASE64URL ! (52 + i) = of_nat (0x30 + i)) [0..<10]"
  "BASE64URL ! 62 = 0x2D" "BASE64URL ! 63 = 0x5F"
  by code_simp+

lemma value_of_char: "v < 64 \<Longrightarrow> base64url_value (BASE64URL ! unat v) = Inr v"
proof -
  assume "v < 64"
  then have "unat v < 64" by (simp add: word_less_nat_alt)
  with alphabet_values show ?thesis by (simp add: list_all_iff)
qed

lemma unat_ucast: "unat (ucast w :: u32) = unat (w :: u8)"
proof -
  have "unat w < 256" using unsigned_less [of w] by simp
  then show ?thesis by (simp add: unsigned_ucast_eq take_bit_nat_eq_self)
qed

lemma u8_range:
  assumes "of_nat lo \<le> (c :: u8)" "c \<le> of_nat hi" "hi < 256" "lo \<le> hi"
  obtains i where "i < Suc hi - lo" "c = of_nat lo + of_nat i"
proof -
  have "unat (of_nat lo :: u8) = lo" "unat (of_nat hi :: u8) = hi"
    using assms(3,4) by (simp_all add: unsigned_of_nat take_bit_nat_eq_self)
  with assms(1,2) have "lo \<le> unat c" "unat c \<le> hi"
    by (simp_all add: word_le_nat_alt)
  then have "unat c - lo < Suc hi - lo" "c = of_nat lo + of_nat (unat c - lo)"
    by (auto simp flip: of_nat_add)
  then show thesis by (rule that)
qed

lemma value_of_offset:
  assumes "k + i < 64"
  shows "ucast (of_nat i + of_nat k :: u8) < (64 :: u32) \<and> unat (ucast (of_nat i + of_nat k :: u8) :: u32) = k + i"
proof -
  have "unat (of_nat i + of_nat k :: u8) = k + i"
    using assms by (simp add: unsigned_of_nat take_bit_nat_eq_self add.commute flip: of_nat_add)
  then show ?thesis
    using assms unat_ucast [of "of_nat i + of_nat k"] by (simp add: word_less_nat_alt)
qed

lemma char_of_value: "base64url_value c = Inr v \<Longrightarrow> v < 64 \<and> BASE64URL ! unat v = c"
proof -
  assume v: "base64url_value c = Inr v"
  consider (u) "0x41 \<le> c" "c \<le> 0x5A" "v = ucast (c - 0x41)"
    | (l) "0x61 \<le> c" "c \<le> 0x7A" "v = ucast (c - 0x61 + 26)"
    | (d) "0x30 \<le> c" "c \<le> 0x39" "v = ucast (c - 0x30 + 52)"
    | (m) "c = 0x2D" "v = 62" | (n) "c = 0x5F" "v = 63"
    using v by (auto simp: base64url_value_def split: if_splits)
  then show ?thesis
  proof cases
    case u
    then obtain i where "i < 26" "c = 0x41 + of_nat i"
      using u8_range [of "0x41" c "0x5A"] by auto
    with u(3) value_of_offset [of i 0] alphabet_characters(1) show ?thesis
      by (auto simp: list_all_iff)
  next
    case l
    then obtain i where "i < 26" "c = 0x61 + of_nat i"
      using u8_range [of "0x61" c "0x7A"] by auto
    with l(3) value_of_offset [of i 26] alphabet_characters(2) show ?thesis
      by (auto simp: list_all_iff add.commute)
  next
    case d
    then obtain i where "i < 10" "c = 0x30 + of_nat i"
      using u8_range [of "0x30" c "0x39"] by auto
    with d(3) value_of_offset [of i 52] alphabet_characters(3) show ?thesis
      by (auto simp: list_all_iff add.commute)
  qed (use alphabet_characters(4,5) in auto)
qed

end
