(* ===== verification/Ssh_Policy.thy ===== *)
theory Ssh_Policy
  imports Eversh_Remote
begin

text \<open>
  The everssh policies that guard what reaches an OpenSSH command line: the limits
  (\<open>crates/everssh/src/limits.rs\<close>), the UDP port range (\<open>port_range.rs\<close> and
  \<open>validate_range\<close> of \<open>transport.rs\<close>), and the audited options, remote words and argument
  vectors of \<open>ssh_policy.rs\<close>. A remote command that the policy accepts is split by a shell
  into exactly the words it was built from.
\<close>

section \<open>Limits\<close>

record ssh_limits =
  sl_bootstrap_record_max :: usize
  sl_auth_frame_len :: usize
  sl_token_len :: usize
  sl_max_bi_streams :: u32
  sl_copy_buf :: usize
  sl_send_window :: u64
  sl_receive_window :: u64
  sl_server_lease_ms :: u64
  sl_association_lease_ms :: u64
  sl_handshake_timeout_ms :: u64
  sl_idle_timeout_ms :: u64
  sl_stall_timeout_ms :: u64
  sl_drain_timeout_ms :: u64
  sl_finalize_timeout_ms :: u64
  sl_bootstrap_timeout_ms :: u64
  sl_max_pending_handshakes :: usize
  sl_incoming_buffer_size :: u64
  sl_max_retry_attempts :: usize
  sl_max_udp_port_span :: u32
  sl_route_poll_ms :: u64
  sl_route_observation_timeout_ms :: u64
  sl_max_same_route_replacements :: usize

datatype ssh_limit_violation =
    Slv_ContractValue | Slv_ZeroValue | Slv_WindowTooLarge | Slv_IncomingTotalOverflow
  | Slv_RetryBudgetTooSmall | Slv_PortSpanTooLarge | Slv_SameRouteReplacementBudget
  | Slv_RouteObservationExceedsPoll | Slv_DeadlineOverflow

datatype policy_error =
    Se_InvalidSshArgument
  | Se_SshPolicyRejected string
  | Se_InvalidUdpPolicy udp_policy_violation
  | Se_InvalidLimits ssh_limit_violation
  | Se_UdpBind nat
  | Se_PortRangeExhausted

definition default_ssh_limits :: ssh_limits where
  "default_ssh_limits = \<lparr>
     sl_bootstrap_record_max = 4096,
     sl_auth_frame_len = 35,
     sl_token_len = 32,
     sl_max_bi_streams = 1,
     sl_copy_buf = 16 * 1024,
     sl_send_window = 384 * 1024,
     sl_receive_window = 384 * 1024,
     sl_server_lease_ms = 30000,
     sl_association_lease_ms = 360000,
     sl_handshake_timeout_ms = 10000,
     sl_idle_timeout_ms = 30000,
     sl_stall_timeout_ms = 20000,
     sl_drain_timeout_ms = 5000,
     sl_finalize_timeout_ms = 5000,
     sl_bootstrap_timeout_ms = 20000,
     sl_max_pending_handshakes = 4,
     sl_incoming_buffer_size = 64 * 1024,
     sl_max_retry_attempts = 8,
     sl_max_udp_port_span = 1024,
     sl_route_poll_ms = 250,
     sl_route_observation_timeout_ms = 200,
     sl_max_same_route_replacements = 1\<rparr>"

text \<open>QUIC variable-length integers end at \<open>2 ^ 62 - 1\<close> (\<open>VarInt::MAX\<close>), which also bounds an
  \<open>IdleTimeout\<close> in milliseconds.\<close>

definition VARINT_MAX :: nat where "VARINT_MAX = 2 ^ 62 - 1"

definition incoming_buffer_total :: "ssh_limits \<Rightarrow> policy_error + u64" where
  "incoming_buffer_total l =
     (if 2 ^ 64 \<le> sl_max_pending_handshakes l then Inl (Se_InvalidLimits Slv_IncomingTotalOverflow)
      else if 2 ^ 64 \<le> unat (sl_incoming_buffer_size l) * sl_max_pending_handshakes l
      then Inl (Se_InvalidLimits Slv_IncomingTotalOverflow)
      else Inr (sl_incoming_buffer_size l * of_nat (sl_max_pending_handshakes l)))"

definition ssh_limits_validate :: "ssh_limits \<Rightarrow> policy_error + unit" where
  "ssh_limits_validate l =
     (if sl_bootstrap_record_max l \<noteq> 4096 \<or> sl_auth_frame_len l \<noteq> 35 \<or> sl_token_len l \<noteq> 32
         \<or> sl_max_bi_streams l \<noteq> 1
      then Inl (Se_InvalidLimits Slv_ContractValue)
      else if 0 \<in> set [of_nat (sl_copy_buf l), sl_send_window l, sl_receive_window l, sl_server_lease_ms l,
         sl_association_lease_ms l, sl_handshake_timeout_ms l, sl_idle_timeout_ms l, sl_stall_timeout_ms l,
         sl_drain_timeout_ms l, sl_finalize_timeout_ms l, sl_bootstrap_timeout_ms l,
         of_nat (sl_max_pending_handshakes l), sl_incoming_buffer_size l, of_nat (sl_max_retry_attempts l),
         ucast (sl_max_udp_port_span l), sl_route_poll_ms l, sl_route_observation_timeout_ms l,
         of_nat (sl_max_same_route_replacements l)]
      then Inl (Se_InvalidLimits Slv_ZeroValue)
      else if VARINT_MAX < unat (sl_send_window l) \<or> VARINT_MAX < unat (sl_receive_window l)
      then Inl (Se_InvalidLimits Slv_WindowTooLarge)
      else if VARINT_MAX < unat (sl_idle_timeout_ms l) then Inl (Se_InvalidLimits Slv_DeadlineOverflow)
      else if sl_max_retry_attempts l < 2 then Inl (Se_InvalidLimits Slv_RetryBudgetTooSmall)
      else if 65535 < sl_max_udp_port_span l then Inl (Se_InvalidLimits Slv_PortSpanTooLarge)
      else if 1 < sl_max_same_route_replacements l
      then Inl (Se_InvalidLimits Slv_SameRouteReplacementBudget)
      else if sl_route_poll_ms l < sl_route_observation_timeout_ms l
      then Inl (Se_InvalidLimits Slv_RouteObservationExceedsPoll)
      else try_bind (incoming_buffer_total l) (\<lambda>_. Inr ()))"

lemma default_ssh_limits_valid [simp]: "ssh_limits_validate default_ssh_limits = Inr ()"
  by (simp add: ssh_limits_validate_def default_ssh_limits_def VARINT_MAX_def incoming_buffer_total_def)

section \<open>The UDP port range\<close>

record udp_port_range =
  range_start :: u16
  range_end :: u16

definition validate_range :: "u16 \<Rightarrow> u16 \<Rightarrow> ssh_limits \<Rightarrow> policy_error + unit" where
  "validate_range start end limits =
     (if start = 0 then Inl (Se_InvalidUdpPolicy Upv_RangeStartsAtZero)
      else if end < start then Inl (Se_InvalidUdpPolicy Upv_RangeInverted)
      else
        let width = (ucast end :: u32) - ucast start + 1 in
        if sl_max_udp_port_span limits < width then Inl (Se_InvalidUdpPolicy Upv_RangeTooWide)
        else Inr ())"

definition range_new :: "u16 \<Rightarrow> u16 \<Rightarrow> ssh_limits \<Rightarrow> policy_error + udp_port_range" where
  "range_new start end limits =
     try_bind (ssh_limits_validate limits) (\<lambda>_.
     try_bind (validate_range start end limits) (\<lambda>_.
     Inr \<lparr>range_start = start, range_end = end\<rparr>))"

definition parse_canonical_port :: "bytes \<Rightarrow> u16 option" where
  "parse_canonical_port s =
     (if s = [] \<or> \<not> list_all is_ascii_digit s then None
      else case parse_dec 65535 s of
        None \<Rightarrow> None
      | Some port \<Rightarrow> if to_dec port = s then Some (of_nat port) else None)"

definition range_parse :: "bytes \<Rightarrow> ssh_limits \<Rightarrow> policy_error + udp_port_range" where
  "range_parse s limits =
     (let malformed = Se_InvalidUdpPolicy Upv_RangeMalformed in
      if 11 < length s then Inl malformed
      else
        try_bind (ok_or malformed (split_once [0x3A] s)) (\<lambda>(a, b).
        try_bind (ok_or malformed (parse_canonical_port a)) (\<lambda>start.
        try_bind (ok_or malformed (parse_canonical_port b)) (\<lambda>end.
        range_new start end limits))))"

definition range_text :: "udp_port_range \<Rightarrow> bytes" where
  "range_text r = to_dec (unat (range_start r)) @ 0x3A # to_dec (unat (range_end r))"

text \<open>Binding tries the ports in ascending order; \<open>try_port p\<close> is what the operating system answers
  for the port \<open>p\<close>: a socket, "in use", or another error.\<close>

datatype bind_answer = Bind_Socket nat | Bind_InUse | Bind_Failed nat

fun bind_ports :: "(u16 \<Rightarrow> bind_answer) \<Rightarrow> u16 list \<Rightarrow> policy_error + nat" where
  "bind_ports try_port [] = Inl Se_PortRangeExhausted"
| "bind_ports try_port (p # ps) =
     (case try_port p of
        Bind_Socket s \<Rightarrow> Inr s
      | Bind_InUse \<Rightarrow> bind_ports try_port ps
      | Bind_Failed e \<Rightarrow> Inl (Se_UdpBind e))"

definition bind_first_free :: "(u16 \<Rightarrow> bind_answer) \<Rightarrow> udp_port_range \<Rightarrow> policy_error + nat" where
  "bind_first_free try_port r =
     bind_ports try_port (map of_nat [unat (range_start r)..<Suc (unat (range_end r))])"

lemma parse_canonical_port_iff:
  "parse_canonical_port s = Some p \<longleftrightarrow> s = to_dec (unat p)"
proof
  assume "parse_canonical_port s = Some p"
  then obtain n where n: "parse_dec 65535 s = Some n" "to_dec n = s" "p = of_nat n"
    by (auto simp: parse_canonical_port_def split: if_splits option.splits)
  then have "n < 65536" using parse_dec_bound by fastforce
  with n show "s = to_dec (unat p)" by simp
next
  assume s: "s = to_dec (unat p)"
  then show "parse_canonical_port s = Some p"
    using to_dec_digits unat_lt_16 [of p] by (simp add: parse_canonical_port_def)
qed

lemma parse_canonical_port_to_dec [simp]: "parse_canonical_port (to_dec (unat p)) = Some p"
  by (simp add: parse_canonical_port_iff)

lemma to_dec_digits_bound: "n < 10 ^ k \<Longrightarrow> 0 < k \<Longrightarrow> length (to_dec n) \<le> k"
proof (induction n arbitrary: k rule: to_dec.induct)
  case (1 n)
  show ?case
  proof (cases "n < 10")
    case False
    with 1(2,3) obtain j where k: "k = Suc j" "0 < j"
      by (cases k; cases "k - 1") auto
    then have "n div 10 < 10 ^ j" using 1(2) by auto
    with 1(1) [OF False this k(2)] k False show ?thesis
      by (subst to_dec.simps) simp
  qed (use 1 in \<open>simp add: to_dec.simps\<close>)
qed

lemma port_text_length: "length (to_dec (unat (p :: u16))) \<le> 5"
  using to_dec_digits_bound [of "unat p" 5] unat_lt_16 [of p] by simp

lemma range_new_iff:
  "range_new a b limits = Inr r \<longleftrightarrow>
   ssh_limits_validate limits = Inr () \<and> validate_range a b limits = Inr () \<and> r = \<lparr>range_start = a, range_end = b\<rparr>"
  by (auto simp: range_new_def)

text \<open>Parsing accepts exactly the canonical text of a range that is valid.\<close>

theorem range_parse_iff:
  "range_parse s limits = Inr r \<longleftrightarrow> s = range_text r \<and> range_new (range_start r) (range_end r) limits = Inr r"
proof
  assume "range_parse s limits = Inr r"
  then obtain a b x y where s: "split_once [0x3A] s = Some (a, b)"
    and p: "parse_canonical_port a = Some x" "parse_canonical_port b = Some y"
    and r: "range_new x y limits = Inr r"
    by (auto simp: range_parse_def Let_def split: if_splits)
  from split_once_byte_sound [OF s] p r show
    "s = range_text r \<and> range_new (range_start r) (range_end r) limits = Inr r"
    by (auto simp: range_text_def parse_canonical_port_iff range_new_iff)
next
  assume r: "s = range_text r \<and> range_new (range_start r) (range_end r) limits = Inr r"
  have "length (range_text r) \<le> 11"
    using port_text_length [of "range_start r"] port_text_length [of "range_end r"] by (simp add: range_text_def)
  with r show "range_parse s limits = Inr r"
    by (simp add: range_parse_def Let_def range_text_def split_once_byte to_dec_free)
qed

text \<open>Binding returns the socket of the first port of the range that is not in use.\<close>

lemma bind_ports_first:
  "bind_ports try_port ps = Inr s \<Longrightarrow>
   \<exists>us p vs. ps = us @ p # vs \<and> list_all (\<lambda>u. try_port u = Bind_InUse) us \<and> try_port p = Bind_Socket s"
proof (induction ps)
  case (Cons p ps)
  show ?case
  proof (cases "try_port p")
    case (Bind_Socket t)
    with Cons.prems show ?thesis by (intro exI [of _ "[]"]) simp
  next
    case Bind_InUse
    with Cons obtain us q vs where "ps = us @ q # vs" "list_all (\<lambda>u. try_port u = Bind_InUse) us"
      "try_port q = Bind_Socket s" by auto
    with Bind_InUse show ?thesis by (intro exI [of _ "p # us"]) simp
  next
    case (Bind_Failed e)
    with Cons.prems show ?thesis by simp
  qed
qed simp

lemma bind_ports_exhausted:
  "bind_ports try_port ps = Inl Se_PortRangeExhausted \<longleftrightarrow> list_all (\<lambda>p. try_port p = Bind_InUse) ps"
  by (induction ps) (auto split: bind_answer.splits)

section \<open>Remote words and options\<close>

definition SSH_ARGUMENT_MAX :: usize where "SSH_ARGUMENT_MAX = 4096"
definition SSH_OPTION_COUNT_MAX :: usize where "SSH_OPTION_COUNT_MAX = 128"
definition REMOTE_BOOTSTRAP_ROLE :: bytes where "REMOTE_BOOTSTRAP_ROLE = str_bytes ''__bootstrap-parent-v1''"
definition REMOTE_BOOTSTRAP_COMMAND :: bytes where
  "REMOTE_BOOTSTRAP_COMMAND = str_bytes ''everssh __bootstrap-parent-v1''"
definition UDP_PORT_RANGE_OPTION :: bytes where "UDP_PORT_RANGE_OPTION = str_bytes ''--udp-port-range''"

definition MANDATORY :: "bytes list" where
  "MANDATORY = map str_bytes
     [''ProxyCommand=none'', ''ControlMaster=no'', ''ControlPath=none'', ''ControlPersist=no'',
      ''ForkAfterAuthentication=no'', ''PermitLocalCommand=no'', ''LocalCommand=none'', ''RemoteCommand=none'',
      ''SessionType=default'', ''RequestTTY=no'', ''ClearAllForwardings=yes'', ''ForwardAgent=no'',
      ''ForwardX11=no'', ''ForwardX11Trusted=no'', ''Tunnel=no'', ''StdinNull=yes'', ''LogLevel=ERROR'']"

definition ALLOWED_O :: "bytes list" where
  "ALLOWED_O = map str_bytes
     [''addkeystoagent'', ''addressfamily'', ''bindaddress'', ''bindinterface'', ''casignaturealgorithms'',
      ''certificatefile'', ''checkhostip'', ''connectionattempts'', ''connecttimeout'', ''globalknownhostsfile'',
      ''hashknownhosts'', ''hostkeyalgorithms'', ''hostkeyalias'', ''identitiesonly'', ''identityagent'',
      ''identityfile'', ''ipqos'', ''kbdinteractiveauthentication'', ''numberofpasswordprompts'',
      ''passwordauthentication'', ''pkcs11provider'', ''preferredauthentications'', ''pubkeyauthentication'',
      ''requiredrsasize'', ''securitykeyprovider'', ''serveralivecountmax'', ''serveraliveinterval'',
      ''stricthostkeychecking'', ''tcpkeepalive'', ''updatehostkeys'', ''user'', ''userknownhostsfile'',
      ''verifyhostkeydns'']"

record ssh_plan =
  plan_destination :: bytes
  plan_port :: u16
  plan_explicit_port :: bool
  plan_options :: "bytes list"
  plan_remote_command :: bytes
  plan_udp_range :: "udp_port_range option"

definition validate_destination :: "bytes \<Rightarrow> policy_error + unit" where
  "validate_destination v =
     (if v = [] \<or> SSH_ARGUMENT_MAX < length v \<or> starts_with [0x2D] v
         \<or> list_ex (\<lambda>c. char_is_control c \<or> char_is_whitespace c) (utf8_chars v)
      then Inl Se_InvalidSshArgument else Inr ())"

definition validate_port :: "bytes \<Rightarrow> policy_error + u16" where
  "validate_port v =
     (if v = [] \<or> \<not> list_all is_ascii_digit v then Inl Se_InvalidSshArgument
      else
        try_bind (ok_or Se_InvalidSshArgument (parse_dec 65535 v)) (\<lambda>port.
        if port = 0 \<or> to_dec port \<noteq> v then Inl Se_InvalidSshArgument else Inr (of_nat port)))"

definition path_byte :: "u8 \<Rightarrow> bool" where
  "path_byte c \<longleftrightarrow> is_ascii_alphanumeric c \<or> c = 0x2F \<or> c = 0x2E \<or> c = 0x5F \<or> c = 0x2D"

definition bad_component :: "bytes \<Rightarrow> bool" where
  "bad_component c \<longleftrightarrow> c = [] \<or> c = [0x2E] \<or> c = [0x2E, 0x2E]"

definition validate_remote_binary :: "bytes \<Rightarrow> policy_error + unit" where
  "validate_remote_binary v =
     (let suffix_length = 1 + length REMOTE_BOOTSTRAP_ROLE in
      if \<not> starts_with [0x2F] v \<or> SSH_ARGUMENT_MAX - suffix_length < length v \<or> \<not> list_all path_byte v
         \<or> list_ex bad_component (split_byte 0x2F (drop 1 v))
      then Inl Se_InvalidSshArgument else Inr ())"

definition validate_remote_word :: "bytes \<Rightarrow> policy_error + unit" where
  "validate_remote_word v =
     (if v = [] \<or> SSH_ARGUMENT_MAX < length v \<or> starts_with [0x2D] v \<or> starts_with [0x2E] v
         \<or> \<not> list_all name_byte v
      then Inl Se_InvalidSshArgument else Inr ())"

text \<open>The single-letter options that carry their value in the same word.\<close>

fun prefixed_option :: "bytes \<Rightarrow> bytes list \<Rightarrow> (policy_error + unit) option" where
  "prefixed_option opt [] = None"
| "prefixed_option opt (p # ps) =
     (case strip_prefix p opt of
        Some v \<Rightarrow> Some (if v = [] then Inl Se_InvalidSshArgument else Inr ())
      | None \<Rightarrow> prefixed_option opt ps)"

definition validate_option :: "bytes \<Rightarrow> policy_error + unit" where
  "validate_option opt =
     (if opt = [] \<or> SSH_ARGUMENT_MAX < length opt
         \<or> list_ex (\<lambda>c. char_is_control c \<or> char_is_whitespace c) (utf8_chars opt)
      then Inl Se_InvalidSshArgument
      else if opt = str_bytes ''-4'' \<or> opt = str_bytes ''-6'' then Inr ()
      else case prefixed_option opt (map str_bytes [''-F'', ''-i'', ''-l'', ''-b'', ''-B'']) of
        Some res \<Rightarrow> res
      | None \<Rightarrow>
          try_bind (ok_or Se_InvalidSshArgument (strip_prefix (str_bytes ''-o'') opt)) (\<lambda>body.
          try_bind (ok_or Se_InvalidSshArgument (split_once [0x3D] body)) (\<lambda>(key, v).
          if key = [] \<or> v = [] then Inl Se_InvalidSshArgument
          else if map ascii_lower key \<notin> set ALLOWED_O then Inl Se_InvalidSshArgument
          else Inr ())))"

fun validate_each :: "('a \<Rightarrow> 'e + unit) \<Rightarrow> 'a list \<Rightarrow> 'e + unit" where
  "validate_each check [] = Inr ()"
| "validate_each check (x # xs) = try_bind (check x) (\<lambda>_. validate_each check xs)"

lemma validate_each_iff [simp]: "validate_each check xs = Inr u \<longleftrightarrow> list_all (\<lambda>x. check x = Inr ()) xs"
  by (induction xs) auto

section \<open>The plan\<close>

definition plan_new :: "bytes \<Rightarrow> bytes \<Rightarrow> bytes list \<Rightarrow> policy_error + ssh_plan" where
  "plan_new destination port options =
     try_bind (validate_destination destination) (\<lambda>_.
     try_bind (validate_port port) (\<lambda>port.
     if SSH_OPTION_COUNT_MAX < length options then Inl Se_InvalidSshArgument
     else
       try_bind (validate_each validate_option options) (\<lambda>_.
       Inr \<lparr>plan_destination = destination, plan_port = port, plan_explicit_port = True,
            plan_options = options, plan_remote_command = REMOTE_BOOTSTRAP_COMMAND, plan_udp_range = None\<rparr>)))"

definition plan_using_config :: "bytes \<Rightarrow> bytes list \<Rightarrow> policy_error + ssh_plan" where
  "plan_using_config destination options =
     try_bind (plan_new destination (str_bytes ''22'') options) (\<lambda>p. Inr (p\<lparr>plan_explicit_port := False\<rparr>))"

definition range_suffix_len :: "udp_port_range option \<Rightarrow> usize" where
  "range_suffix_len rng =
     (case rng of None \<Rightarrow> 0
      | Some r \<Rightarrow> saturating_add_usize (saturating_add_usize 2 (length UDP_PORT_RANGE_OPTION)) (length (range_text r)))"

definition command_too_long :: "bytes \<Rightarrow> udp_port_range option \<Rightarrow> bool" where
  "command_too_long command rng \<longleftrightarrow>
     SSH_ARGUMENT_MAX < saturating_add_usize (length command) (range_suffix_len rng)"

definition with_remote_binary :: "bytes \<Rightarrow> ssh_plan \<Rightarrow> policy_error + ssh_plan" where
  "with_remote_binary binary p =
     try_bind (validate_remote_binary binary) (\<lambda>_.
     let command = binary @ 0x20 # REMOTE_BOOTSTRAP_ROLE in
     if command_too_long command (plan_udp_range p) then Inl Se_InvalidSshArgument
     else Inr (p\<lparr>plan_remote_command := command\<rparr>))"

definition set_remote_role :: "bytes list \<Rightarrow> bytes \<Rightarrow> bytes list \<Rightarrow> ssh_plan \<Rightarrow> policy_error + ssh_plan" where
  "set_remote_role words role arguments p =
     (case words of
        [] \<Rightarrow> Inl Se_InvalidSshArgument
      | w # ws \<Rightarrow>
          try_bind (if starts_with [0x2F] w then validate_remote_binary w else validate_remote_word w) (\<lambda>_.
          try_bind (validate_each validate_remote_word ws) (\<lambda>_.
          try_bind (validate_remote_word role) (\<lambda>_.
          try_bind (validate_each validate_remote_word arguments) (\<lambda>_.
          let command = join_words [0x20] words @ 0x20 # role @ concat (map (\<lambda>a. 0x20 # a) arguments) in
          if command_too_long command (plan_udp_range p) then Inl Se_InvalidSshArgument
          else Inr (p\<lparr>plan_remote_command := command\<rparr>))))))"

definition with_remote_invocation :: "bytes list \<Rightarrow> ssh_plan \<Rightarrow> policy_error + ssh_plan" where
  "with_remote_invocation words p = set_remote_role words REMOTE_BOOTSTRAP_ROLE [] p"

definition with_remote_role_invocation :: "bytes list \<Rightarrow> bytes \<Rightarrow> bytes list \<Rightarrow> ssh_plan \<Rightarrow> policy_error + ssh_plan" where
  "with_remote_role_invocation words role arguments p = set_remote_role words role arguments p"

definition with_udp_port_range :: "udp_port_range \<Rightarrow> ssh_plan \<Rightarrow> policy_error + ssh_plan" where
  "with_udp_port_range rng p =
     (if command_too_long (plan_remote_command p) (Some rng) then Inl Se_InvalidSshArgument
      else Inr (p\<lparr>plan_udp_range := Some rng\<rparr>))"

definition remote_command :: "ssh_plan \<Rightarrow> bytes" where
  "remote_command p =
     (case plan_udp_range p of
        None \<Rightarrow> plan_remote_command p
      | Some r \<Rightarrow> plan_remote_command p @ 0x20 # UDP_PORT_RANGE_OPTION @ 0x20 # range_text r)"

definition push_mandatory :: "bytes list \<Rightarrow> bytes list" where
  "push_mandatory vs = concat (map (\<lambda>v. [str_bytes ''-o'', v]) vs)"

definition config_query_args :: "ssh_plan \<Rightarrow> bytes list" where
  "config_query_args p =
     str_bytes ''-G''
     # push_mandatory (filter (\<lambda>v. \<not> eq_ignore_ascii_case v (str_bytes ''ProxyCommand=none'')) MANDATORY)
     @ (if plan_explicit_port p then [str_bytes ''-p'', to_dec (unat (plan_port p))] else [])
     @ plan_options p @ [str_bytes ''--'', plan_destination p]"

definition bootstrap_args :: "ssh_plan \<Rightarrow> bytes list" where
  "bootstrap_args p =
     push_mandatory MANDATORY
     @ (if plan_explicit_port p then [str_bytes ''-p'', to_dec (unat (plan_port p))] else [])
     @ plan_options p @ [str_bytes ''--'', plan_destination p, remote_command p]"

text \<open>\<open>split_ascii_whitespace().next()\<close>, for diagnostics.\<close>

definition remote_program :: "ssh_plan \<Rightarrow> bytes" where
  "remote_program p =
     takeWhile (\<lambda>c. \<not> is_ascii_whitespace c) (dropWhile is_ascii_whitespace (plan_remote_command p))"

section \<open>The effective configuration\<close>

text \<open>Whether one line of \<open>ssh -G\<close> output is acceptable.\<close>

definition validate_config_line :: "bytes \<Rightarrow> policy_error + unit" where
  "validate_config_line line =
     (let key = takeWhile (\<lambda>c. \<not> is_ascii_whitespace c) line;
          tail = dropWhile (\<lambda>c. \<not> is_ascii_whitespace c) line in
      if tail = [] then Inl (Se_SshPolicyRejected ''effective configuration line has no value'')
      else
        let v = dropWhile is_ascii_whitespace tail in
        if v = [] then Inl (Se_SshPolicyRejected ''effective configuration line has an empty value'')
        else if key = [] \<or> \<not> list_all (\<lambda>c. is_ascii_alphanumeric c \<or> c = 0x2D) key
        then Inl (Se_SshPolicyRejected ''effective configuration has an invalid option name'')
        else if (eq_ignore_ascii_case key (str_bytes ''proxycommand'')
            \<or> eq_ignore_ascii_case key (str_bytes ''proxyjump''))
            \<and> \<not> eq_ignore_ascii_case v (str_bytes ''none'')
        then Inl (Se_SshPolicyRejected ''effective configuration still requests a proxy'')
        else Inr ())"

fun validate_config_lines :: "bytes list \<Rightarrow> nat \<Rightarrow> policy_error + nat" where
  "validate_config_lines [] lines = Inr lines"
| "validate_config_lines (l # ls) lines =
     (if l = [] then validate_config_lines ls lines
      else try_bind (validate_config_line l) (\<lambda>_. validate_config_lines ls (saturating_add_usize lines 1)))"

definition validate_effective_config :: "bytes \<Rightarrow> policy_error + unit" where
  "validate_effective_config out =
     (if out = [] \<or> list_ex (\<lambda>c. c = 0 \<or> c = 0x0D \<or> (c < 0x20 \<and> c \<noteq> 0x0A \<and> c \<noteq> 0x09)) out
      then Inl (Se_SshPolicyRejected ''effective configuration output is empty or non-canonical'')
      else
        try_bind (validate_config_lines (split_byte 0x0A out) 0) (\<lambda>lines.
        if lines = 0 then Inl (Se_SshPolicyRejected ''effective configuration output is empty'')
        else Inr ()))"

section \<open>What reaches the remote shell\<close>

text \<open>The bytes a remote command may have, written out: letters, digits, \<open>/ . _ - :\<close> and, between
  words, the space. A POSIX shell gives none of the first a meaning, and the space ends a word.\<close>

definition INERT_BYTES :: bytes where
  "INERT_BYTES = str_bytes
     ''abcdefghijklmnopqrstuvwxyzABCDEFGHIJKLMNOPQRSTUVWXYZ0123456789/._-:''"

definition command_byte :: "u8 \<Rightarrow> bool" where
  "command_byte c \<longleftrightarrow> c \<in> set INERT_BYTES \<or> c = 0x20"

lemma inert_codes:
  "INERT_BYTES = map of_nat ([97..<123] @ [65..<91] @ [48..<58] @ [47, 46, 95, 45, 58])"
  by (simp add: INERT_BYTES_def str_bytes_def upt_rec_numeral)

lemma inert_set:
  "set INERT_BYTES = of_nat ` ({97..<123} \<union> {65..<91} \<union> {48..<58} \<union> {47, 46, 95, 45, 58})"
  unfolding inert_codes set_map set_append set_upt list.set by (simp only: Un_assoc)

lemma path_byte_code:
  "path_byte c \<Longrightarrow> unat c \<in> {97..<123} \<union> {65..<91} \<union> {48..<58} \<union> {47, 46, 95, 45, 58}"
  by (auto simp: path_byte_def is_ascii_alphanumeric_def is_ascii_digit_def word_le_nat_alt)

lemma path_byte_inert: "path_byte c \<Longrightarrow> c \<in> set INERT_BYTES"
proof -
  assume "path_byte c"
  then have "(of_nat (unat c) :: u8) \<in> set INERT_BYTES"
    unfolding inert_set by (intro imageI path_byte_code)
  then show ?thesis by simp
qed

lemma colon_inert: "0x3A \<in> set INERT_BYTES"
  by (simp add: INERT_BYTES_def str_bytes_def)

lemma command_byte_intros: "path_byte c \<Longrightarrow> command_byte c" "command_byte 0x3A" "command_byte 0x20"
  by (auto simp: command_byte_def path_byte_inert colon_inert)

definition command_word :: "bytes \<Rightarrow> bool" where
  "command_word w \<longleftrightarrow> w \<noteq> [] \<and> list_all path_byte w"

lemma path_byte_space: "\<not> path_byte 0x20"
  by code_simp

lemma name_byte_path: "name_byte c \<Longrightarrow> path_byte c"
  by (auto simp: name_byte_def path_byte_def)

lemma digit_path: "is_ascii_digit c \<Longrightarrow> path_byte c"
  by (simp add: path_byte_def is_ascii_alphanumeric_def)

lemma command_word_free: "command_word w \<Longrightarrow> 0x20 \<notin> set w"
  using path_byte_space by (auto simp: command_word_def list_all_iff)

lemma remote_word_ok: "validate_remote_word w = Inr () \<Longrightarrow> command_word w"
  by (auto simp: validate_remote_word_def command_word_def list_all_iff name_byte_path split: if_splits)

lemma remote_binary_ok: "validate_remote_binary w = Inr () \<Longrightarrow> command_word w"
  by (auto simp: validate_remote_binary_def command_word_def starts_with_def Let_def split: if_splits)

lemma bootstrap_words: "command_word REMOTE_BOOTSTRAP_ROLE" "command_word UDP_PORT_RANGE_OPTION"
  by code_simp+

lemma range_text_bytes: "list_all (\<lambda>c. path_byte c \<or> c = 0x3A) (range_text r)" "0x20 \<notin> set (range_text r)"
  "range_text r \<noteq> []"
  using to_dec_digits by (auto simp: range_text_def list_all_iff digit_path to_dec_free)

lemma join_words_append:
  "ws \<noteq> [] \<Longrightarrow> join_words sep ws @ concat (map (\<lambda>a. sep @ a) vs) = join_words sep (ws @ vs)"
proof (induction sep ws rule: join_words.induct)
  case (2 sep w)
  show ?case
  proof (induction vs arbitrary: w)
    case (Cons v vs)
    from Cons [of v] show ?case by simp
  qed simp
qed simp_all

lemma role_command_join:
  "ws \<noteq> [] \<Longrightarrow> join_words [0x20] ws @ 0x20 # role @ concat (map (\<lambda>a. 0x20 # a) as) = join_words [0x20] (ws @ role # as)"
  using join_words_append [of ws "[0x20]" "role # as"] by simp

text \<open>A selected role is the words it was selected with, however the shell's splitting at spaces
  cuts the command.\<close>

lemma set_remote_role_words:
  assumes "set_remote_role ws role as p = Inr p'"
  shows "list_all command_word (ws @ role # as) \<and> plan_remote_command p' = join_words [0x20] (ws @ role # as)
    \<and> plan_udp_range p' = plan_udp_range p \<and> \<not> command_too_long (plan_remote_command p') (plan_udp_range p)"
proof (cases ws)
  case (Cons w vs)
  have "command_word w" if "(if starts_with [0x2F] w then validate_remote_binary w else validate_remote_word w) = Inr ()"
    using that remote_binary_ok remote_word_ok by (simp split: if_splits)
  moreover have "list_all command_word xs" if "list_all (\<lambda>x. validate_remote_word x = Inr ()) xs" for xs
    using that by (simp add: list_all_iff remote_word_ok)
  ultimately show ?thesis
    using assms role_command_join [of ws role as] Cons
    by (auto simp: set_remote_role_def Let_def remote_word_ok split: if_split_asm)
qed (use assms in \<open>simp add: set_remote_role_def\<close>)

datatype plan_op = Plan_Binary bytes | Plan_Role "bytes list" bytes "bytes list" | Plan_Range udp_port_range

fun plan_step :: "plan_op \<Rightarrow> ssh_plan \<Rightarrow> policy_error + ssh_plan" where
  "plan_step (Plan_Binary b) p = with_remote_binary b p"
| "plan_step (Plan_Role ws role as) p = with_remote_role_invocation ws role as p"
| "plan_step (Plan_Range r) p = with_udp_port_range r p"

fun plan_run :: "plan_op list \<Rightarrow> ssh_plan \<Rightarrow> policy_error + ssh_plan" where
  "plan_run [] p = Inr p"
| "plan_run (op # ops) p = try_bind (plan_step op p) (plan_run ops)"

text \<open>Every plan built from a new one: its command is words without any shell meaning, and the
  whole remote command, port range included, fits one argument.\<close>

definition plan_inv :: "ssh_plan \<Rightarrow> bool" where
  "plan_inv p \<longleftrightarrow>
     (\<exists>ws. ws \<noteq> [] \<and> list_all command_word ws \<and> plan_remote_command p = join_words [0x20] ws)
     \<and> \<not> command_too_long (plan_remote_command p) (plan_udp_range p)"

lemma plan_step_inv: "plan_inv p \<Longrightarrow> plan_step op p = Inr p' \<Longrightarrow> plan_inv p'"
proof (cases op)
  case (Plan_Binary b)
  assume "plan_step op p = Inr p'"
  with Plan_Binary have b: "command_word b" and p': "p' = p\<lparr>plan_remote_command := b @ 0x20 # REMOTE_BOOTSTRAP_ROLE\<rparr>"
    and "\<not> command_too_long (b @ 0x20 # REMOTE_BOOTSTRAP_ROLE) (plan_udp_range p)"
    by (auto simp: with_remote_binary_def Let_def remote_binary_ok split: if_splits)
  then show "plan_inv p'"
    using bootstrap_words unfolding plan_inv_def
    by (auto intro!: exI [of _ "[b, REMOTE_BOOTSTRAP_ROLE]"])
next
  case (Plan_Role ws role as)
  assume "plan_step op p = Inr p'"
  with Plan_Role set_remote_role_words [of ws role as p p'] show "plan_inv p'"
    unfolding plan_inv_def by (auto simp: with_remote_role_invocation_def intro!: exI [of _ "ws @ role # as"])
next
  case (Plan_Range r)
  assume "plan_inv p" "plan_step op p = Inr p'"
  with Plan_Range show "plan_inv p'"
    by (auto simp: with_udp_port_range_def plan_inv_def split: if_splits)
qed

lemma plan_run_inv: "plan_inv p \<Longrightarrow> plan_run ops p = Inr p' \<Longrightarrow> plan_inv p'"
  by (induction ops arbitrary: p) (auto dest: plan_step_inv)

lemma plan_new_inv: "plan_new d port opts = Inr p \<Longrightarrow> plan_inv p"
proof -
  assume "plan_new d port opts = Inr p"
  then have p: "plan_remote_command p = REMOTE_BOOTSTRAP_COMMAND" "plan_udp_range p = None"
    by (auto simp: plan_new_def split: if_splits)
  have "list_all command_word [str_bytes ''everssh'', REMOTE_BOOTSTRAP_ROLE]"
    "REMOTE_BOOTSTRAP_COMMAND = join_words [0x20] [str_bytes ''everssh'', REMOTE_BOOTSTRAP_ROLE]"
    by code_simp+
  moreover have "\<not> command_too_long REMOTE_BOOTSTRAP_COMMAND None"
    by (simp add: command_too_long_def range_suffix_len_def saturating_add_usize_def SSH_ARGUMENT_MAX_def
        REMOTE_BOOTSTRAP_COMMAND_def str_bytes_def)
  ultimately show ?thesis using p unfolding plan_inv_def by (metis list.distinct(1))
qed

text \<open>What the shell is given for a plan with the invariant.\<close>

lemma plan_inv_command:
  assumes "plan_inv p"
  shows "length (remote_command p) \<le> SSH_ARGUMENT_MAX \<and> list_all command_byte (remote_command p)
    \<and> list_all (\<lambda>w. w \<noteq> []) (split_byte 0x20 (remote_command p))"
proof -
  from assms obtain ws where ws: "ws \<noteq> []" "list_all command_word ws" "plan_remote_command p = join_words [0x20] ws"
    and fits: "\<not> command_too_long (plan_remote_command p) (plan_udp_range p)"
    by (auto simp: plan_inv_def)
  define tail where "tail = (case plan_udp_range p of None \<Rightarrow> [] | Some r \<Rightarrow> [UDP_PORT_RANGE_OPTION, range_text r])"
  have rc: "remote_command p = join_words [0x20] (ws @ tail)"
    using join_words_append [OF ws(1), of "[0x20]" tail]
    by (auto simp: remote_command_def ws(3) tail_def split: option.splits)
  have free: "list_all (\<lambda>w. 0x20 \<notin> set w) (ws @ tail)" "list_all (\<lambda>w. w \<noteq> []) (ws @ tail)"
    "list_all (list_all command_byte) (ws @ tail)"
    using ws(2) bootstrap_words(2) range_text_bytes range_text_bytes(3) [symmetric] command_word_free
    by (auto simp: tail_def list_all_iff command_word_def split: option.splits)
      (metis command_byte_intros)+
  have bytes: "list_all command_byte (join_words [0x20] vs)" if "list_all (list_all command_byte) vs" for vs
    using that by (induction "[0x20 :: u8]" vs rule: join_words.induct) (auto intro: command_byte_intros)
  have "length (remote_command p) \<le> SSH_ARGUMENT_MAX"
    using fits by (auto simp: command_too_long_def remote_command_def range_suffix_len_def saturating_add_usize_def
        SSH_ARGUMENT_MAX_def split: option.splits)
  moreover have "split_byte 0x20 (remote_command p) = ws @ tail"
    using free(1) ws(1) by (simp add: rc split_byte_join)
  ultimately show ?thesis
    using bytes [OF free(3)] free(2) by (simp add: rc)
qed

text \<open>C35: Whatever a plan was built from, the command that the remote login shell receives is at
  most one SSH argument long, is made of non-empty words separated by single spaces, and contains
  only letters, digits, \<open>/ . _ - :\<close> and those spaces, none of which has another meaning to a shell.\<close>

theorem remote_command_inert:
  "case try_bind (plan_new destination port options) (plan_run ops) of
     Inl e \<Rightarrow> True
   | Inr p \<Rightarrow> length (remote_command p) \<le> 4096
       \<and> set (remote_command p) \<subseteq> insert 0x20 (set (str_bytes
           ''abcdefghijklmnopqrstuvwxyzABCDEFGHIJKLMNOPQRSTUVWXYZ0123456789/._-:''))
       \<and> list_all (\<lambda>w. w \<noteq> []) (split_byte 0x20 (remote_command p))"
proof (cases "try_bind (plan_new destination port options) (plan_run ops)")
  case (Inr p)
  then obtain q where "plan_new destination port options = Inr q" "plan_run ops q = Inr p" by auto
  then have "plan_inv p" by (blast intro: plan_run_inv plan_new_inv)
  from plan_inv_command [OF this] have "length (remote_command p) \<le> 4096"
    "set (remote_command p) \<subseteq> insert 0x20 (set INERT_BYTES)"
    "list_all (\<lambda>w. w \<noteq> []) (split_byte 0x20 (remote_command p))"
    by (auto simp: SSH_ARGUMENT_MAX_def list_all_iff command_byte_def)
  then show ?thesis unfolding Inr INERT_BYTES_def by simp
qed simp

section \<open>Accepted effective configurations\<close>

lemma config_lines_accepted:
  "validate_config_lines ls n = Inr m \<Longrightarrow> l \<in> set ls \<Longrightarrow> l \<noteq> [] \<Longrightarrow> validate_config_line l = Inr ()"
  by (induction ls arbitrary: n) (auto split: if_splits)

text \<open>A line that sets the option \<open>key\<close> to the value \<open>v\<close>, as \<open>ssh -G\<close> prints it.\<close>

definition config_line :: "bytes \<Rightarrow> bytes \<Rightarrow> bytes" where
  "config_line key v = key @ 0x20 # v"

lemma takeWhile_dropWhile_stop:
  "list_all P xs \<Longrightarrow> \<not> P c \<Longrightarrow> takeWhile P (xs @ c # ys) = xs \<and> dropWhile P (xs @ c # ys) = c # ys"
  by (induction xs) auto

lemma config_line_parts:
  assumes "list_all (\<lambda>c. \<not> is_ascii_whitespace c) key" "v \<noteq> []" "\<not> is_ascii_whitespace (hd v)"
  shows "takeWhile (\<lambda>c. \<not> is_ascii_whitespace c) (config_line key v) = key"
    "dropWhile is_ascii_whitespace (dropWhile (\<lambda>c. \<not> is_ascii_whitespace c) (config_line key v)) = v"
proof -
  have sp: "is_ascii_whitespace 0x20" by (simp add: is_ascii_whitespace_def)
  then have "\<not> (\<not> is_ascii_whitespace 0x20)" by simp
  note split = takeWhile_dropWhile_stop [OF assms(1) this, of v]
  show "takeWhile (\<lambda>c. \<not> is_ascii_whitespace c) (config_line key v) = key"
    using split unfolding config_line_def by blast
  obtain d ds where "v = d # ds" using assms(2) by (cases v) auto
  with split sp assms(3) show "dropWhile is_ascii_whitespace (dropWhile (\<lambda>c. \<not> is_ascii_whitespace c) (config_line key v)) = v"
    unfolding config_line_def by simp
qed

lemma accepted_config_has_no_proxy:
  assumes "validate_effective_config out = Inr ()" "config_line key v \<in> set (split_byte 0x0A out)"
    and "eq_ignore_ascii_case key (str_bytes ''proxycommand'') \<or> eq_ignore_ascii_case key (str_bytes ''proxyjump'')"
    and "list_all (\<lambda>c. \<not> is_ascii_whitespace c) key" "v \<noteq> []" "\<not> is_ascii_whitespace (hd v)"
  shows "eq_ignore_ascii_case v (str_bytes ''none'')"
proof -
  have "\<exists>m. validate_config_lines (split_byte 0x0A out) 0 = Inr m"
    using assms(1) unfolding validate_effective_config_def by (simp split: if_split_asm) auto
  then have "validate_config_line (config_line key v) = Inr ()"
    using config_lines_accepted assms(2) by (fastforce simp: config_line_def)
  then show ?thesis
    using assms(3) unfolding validate_config_line_def Let_def config_line_parts [OF assms(4-6)]
    by (simp split: if_split_asm)
qed

end
