(* ===== verification/Ssh_Status.thy ===== *)
theory Ssh_Status
  imports Ever_Text Ssh_Shutdown
begin

text \<open>
  The local link-status file of everssh (\<open>crates/everssh/src/link_status.rs\<close>): the lines the
  proxy appends, their parser, the two-word classification of a completed bridge, and the
  \<open>carrying\<close> record of the tracked reader and writer. The supervisor decides from this file
  whether a lost connection is retried, so the parser must return exactly what was written.
\<close>

section \<open>Records and lines\<close>

definition STATUS_PREFIX :: bytes where "STATUS_PREFIX = str_bytes ''everssh-status-v1''"

datatype status_cause = Cause_TransportFailure | Cause_CleanClose

datatype status_record = Status_Carrying | Status_Reconnecting | Status_Cause status_cause bool

fun status_cause_word :: "status_cause \<Rightarrow> bytes" where
  "status_cause_word Cause_TransportFailure = str_bytes ''transport-failure''"
| "status_cause_word Cause_CleanClose = str_bytes ''clean-close''"

text \<open>The lines, without their final line feed.\<close>

fun status_line :: "status_record \<Rightarrow> bytes" where
  "status_line Status_Carrying = STATUS_PREFIX @ str_bytes '' carrying''"
| "status_line Status_Reconnecting = STATUS_PREFIX @ str_bytes '' reconnecting''"
| "status_line (Status_Cause cause carried) =
     STATUS_PREFIX @ str_bytes '' cause '' @ status_cause_word cause @ str_bytes '' carried=''
       @ to_dec (if carried then 1 else 0)"

definition parse_status_line :: "bytes \<Rightarrow> status_record option" where
  "parse_status_line line =
     Option.bind (strip_prefix STATUS_PREFIX line) (\<lambda>s.
     Option.bind (strip_prefix [0x20] s) (\<lambda>rest.
     if rest = str_bytes ''carrying'' then Some Status_Carrying
     else if rest = str_bytes ''reconnecting'' then Some Status_Reconnecting
     else
       Option.bind (strip_prefix (str_bytes ''cause '') rest) (\<lambda>rest.
       Option.bind (split_once [0x20] rest) (\<lambda>(word, carried_part).
       Option.bind (if word = str_bytes ''transport-failure'' then Some Cause_TransportFailure
         else if word = str_bytes ''clean-close'' then Some Cause_CleanClose else None) (\<lambda>cause.
       Option.bind (strip_prefix (str_bytes ''carried='') carried_part) (\<lambda>flag.
       if flag = str_bytes ''0'' then Some (Status_Cause cause False)
       else if flag = str_bytes ''1'' then Some (Status_Cause cause True)
       else None))))))"

text \<open>The status file as its content. A file that cannot be opened stays as it is; \<open>wrote\<close> is how
  many bytes \<open>write_all\<close> appended before it succeeded or failed, and the result is ignored.\<close>

definition append_line :: "usize \<Rightarrow> bytes \<Rightarrow> bytes option \<Rightarrow> bytes option" where
  "append_line wrote line file = map_option (\<lambda>content. content @ take wrote line) file"

definition write_carrying :: "usize \<Rightarrow> bytes option \<Rightarrow> bytes option" where
  "write_carrying wrote = append_line wrote (status_line Status_Carrying @ [0x0A])"

definition write_cause :: "usize \<Rightarrow> status_cause \<Rightarrow> bool \<Rightarrow> bytes option \<Rightarrow> bytes option" where
  "write_cause wrote cause carried = append_line wrote (status_line (Status_Cause cause carried) @ [0x0A])"

definition write_reconnecting :: "usize \<Rightarrow> bytes option \<Rightarrow> bytes option" where
  "write_reconnecting wrote = append_line wrote (status_line Status_Reconnecting @ [0x0A])"

section \<open>Classification\<close>

fun classify_cause :: "bridge_cause \<Rightarrow> status_cause" where
  "classify_cause (SourceEof d) = Cause_CleanClose"
| "classify_cause (OperationFailed d op) = Cause_TransportFailure"
| "classify_cause (OperationStalled d op) = Cause_TransportFailure"
| "classify_cause Cancelled = Cause_TransportFailure"
| "classify_cause (TaskFailed d) = Cause_TransportFailure"
| "classify_cause PathFailed = Cause_TransportFailure"
| "classify_cause RouteSupervisorFailed = Cause_TransportFailure"
| "classify_cause ConstructionFailed = Cause_TransportFailure"
| "classify_cause (DeadlineOverflow k) = Cause_TransportFailure"
| "classify_cause FinalizeTimeout = Cause_TransportFailure"

datatype drain_status = Drain_Completed | Drain_Incomplete | Drain_DeadlineExpired

datatype finalize_status = Finalize_Completed | Finalize_DeadlineExpired

record bridge_completion =
  bc_cause :: bridge_cause
  bc_drain :: drain_status
  bc_finalize :: finalize_status

definition classify_completion :: "bridge_completion \<Rightarrow> status_cause" where
  "classify_completion c =
     (let graceful_cause = (classify_cause (bc_cause c) = Cause_CleanClose);
          clean_shutdown = (bc_drain c = Drain_Completed \<and> bc_finalize c = Finalize_Completed)
      in if graceful_cause \<and> clean_shutdown then Cause_CleanClose else Cause_TransportFailure)"

lemma clean_close_iff:
  "classify_completion c = Cause_CleanClose \<longleftrightarrow>
   (\<exists>d. bc_cause c = SourceEof d) \<and> bc_drain c = Drain_Completed \<and> bc_finalize c = Finalize_Completed"
  by (cases "bc_cause c") (auto simp: classify_completion_def Let_def)

section \<open>The tracked reader and writer\<close>

text \<open>What an inner poll answered: still pending, an error, or so many bytes.\<close>

datatype io_poll = Poll_Pending | Poll_Error nat | Poll_Count usize

definition tracked_read :: "io_poll \<Rightarrow> bool \<Rightarrow> bool" where
  "tracked_read result delivered =
     (case result of Poll_Count n \<Rightarrow> if 0 < n then True else delivered | _ \<Rightarrow> delivered)"

text \<open>\<open>has_path\<close>: the writer was given a status file; \<open>file\<close> is its content, if it exists.\<close>

definition tracked_write :: "usize \<Rightarrow> io_poll \<Rightarrow> bool \<Rightarrow> bool \<times> bytes option \<Rightarrow> bool \<times> bytes option" where
  "tracked_write wrote result has_path = (\<lambda>(delivered, file).
     case result of
       Poll_Count n \<Rightarrow>
         if 0 < n \<and> \<not> delivered then (True, if has_path then write_carrying wrote file else file)
         else (delivered, file)
     | _ \<Rightarrow> (delivered, file))"

section \<open>Parsing what was written\<close>

lemma to_dec_bit: "to_dec 0 = str_bytes ''0''" "to_dec (Suc 0) = str_bytes ''1''"
  by (simp_all add: to_dec.simps str_bytes_def)

lemma cause_words:
  "0x20 \<notin> set (status_cause_word c)"
  "str_bytes ''cause '' @ x \<noteq> str_bytes ''carrying''" "str_bytes ''cause '' @ x \<noteq> str_bytes ''reconnecting''"
  by (cases c) (simp_all add: str_bytes_def)

lemma str_bytes_blank: "str_bytes (CHR '' '' # s) = 0x20 # str_bytes s"
  by (simp add: str_bytes_def)

theorem parse_status_line_iff: "parse_status_line l = Some r \<longleftrightarrow> l = status_line r"
proof
  assume "l = status_line r"
  then show "parse_status_line l = Some r"
  proof (cases r)
    case Status_Carrying
    then show ?thesis using \<open>l = status_line r\<close> by (simp add: parse_status_line_def str_bytes_blank)
  next
    case Status_Reconnecting
    then show ?thesis using \<open>l = status_line r\<close>
      by (simp add: parse_status_line_def str_bytes_blank) (simp add: str_bytes_def)
  next
    case (Status_Cause c b)
    have w: "status_cause_word c = str_bytes ''transport-failure'' \<longleftrightarrow> c = Cause_TransportFailure"
      "status_cause_word c = str_bytes ''clean-close'' \<longleftrightarrow> c = Cause_CleanClose"
      by (cases c; simp add: str_bytes_def)+
    define flag where "flag = to_dec (if b then 1 else 0)"
    have f: "flag = str_bytes ''0'' \<longleftrightarrow> \<not> b" "flag = str_bytes ''1'' \<longleftrightarrow> b"
      by (cases b; simp add: flag_def to_dec.simps str_bytes_def)+
    have "strip_prefix STATUS_PREFIX l = Some (0x20 # str_bytes ''cause '' @ status_cause_word c
        @ 0x20 # str_bytes ''carried='' @ flag)"
      using \<open>l = status_line r\<close> Status_Cause by (simp add: str_bytes_blank flag_def)
    moreover have "split_once [0x20] (status_cause_word c @ 0x20 # str_bytes ''carried='' @ flag)
        = Some (status_cause_word c, str_bytes ''carried='' @ flag)"
      by (simp add: split_once_byte cause_words)
    ultimately show ?thesis
      unfolding parse_status_line_def Status_Cause by (simp add: cause_words w f) (cases c; cases b; simp)
  qed
next
  assume "parse_status_line l = Some r"
  then show "l = status_line r"
    by (auto simp: parse_status_line_def str_bytes_blank bind_eq_Some_conv to_dec_bit
        dest!: split_once_byte_sound split: if_splits)
qed

end
