(* ===== verification/Udp_Status.thy ===== *)
theory Udp_Status
  imports Ever_Text Interfaces
begin

text \<open>
  The private transition journal of everudp (\<open>crates/everudp/src/status.rs\<close>): link states and
  terminal causes, the writer with its disconnected heartbeats, and the parser. Parsing a journal
  line returns the record it was written for. The supervisor falls back to another transport
  only when the journal proves that no association was committed.
\<close>

section \<open>Records\<close>

datatype journal_state =
    Ls_Connecting | Ls_Connected | Ls_Carrying | Ls_Migrating | Ls_Disconnected usize
  | Ls_Reconnecting usize | Ls_RecoveringOverSsh usize | Ls_Gapped

fun disconnected_input :: "journal_state \<Rightarrow> usize option" where
  "disconnected_input (Ls_Disconnected n) = Some n"
| "disconnected_input (Ls_Reconnecting n) = Some n"
| "disconnected_input (Ls_RecoveringOverSsh n) = Some n"
| "disconnected_input _ = None"

datatype journal_cause =
    Jc_CleanClose | Jc_Authentication | Jc_Protocol | Jc_PtyExit | Jc_Killed | Jc_LocalCancel | Jc_Transport

fun journal_cause_word :: "journal_cause \<Rightarrow> bytes" where
  "journal_cause_word Jc_CleanClose = str_bytes ''clean-close''"
| "journal_cause_word Jc_Authentication = str_bytes ''authentication''"
| "journal_cause_word Jc_Protocol = str_bytes ''protocol''"
| "journal_cause_word Jc_PtyExit = str_bytes ''pty-exit''"
| "journal_cause_word Jc_Killed = str_bytes ''killed''"
| "journal_cause_word Jc_LocalCancel = str_bytes ''local-cancel''"
| "journal_cause_word Jc_Transport = str_bytes ''transport''"

definition journal_cause_parse :: "bytes \<Rightarrow> journal_cause option" where
  "journal_cause_parse w =
     (if w = str_bytes ''clean-close'' then Some Jc_CleanClose
      else if w = str_bytes ''authentication'' then Some Jc_Authentication
      else if w = str_bytes ''protocol'' then Some Jc_Protocol
      else if w = str_bytes ''pty-exit'' then Some Jc_PtyExit
      else if w = str_bytes ''killed'' then Some Jc_Killed
      else if w = str_bytes ''local-cancel'' then Some Jc_LocalCancel
      else if w = str_bytes ''transport'' then Some Jc_Transport
      else None)"

datatype journal_record =
    Jr_Transition journal_state
  | Jr_Heartbeat nat usize
  | Jr_Terminal journal_cause bool usize

section \<open>Lines\<close>

definition JOURNAL_PREFIX :: bytes where "JOURNAL_PREFIX = str_bytes ''everudp-status-v1''"
definition HEARTBEAT_INTERVAL_MS :: nat where "HEARTBEAT_INTERVAL_MS = 60000"

fun transition_line :: "journal_state \<Rightarrow> bytes" where
  "transition_line Ls_Connecting = JOURNAL_PREFIX @ str_bytes '' state connecting''"
| "transition_line Ls_Connected = JOURNAL_PREFIX @ str_bytes '' state connected''"
| "transition_line Ls_Carrying = JOURNAL_PREFIX @ str_bytes '' state carrying''"
| "transition_line Ls_Migrating = JOURNAL_PREFIX @ str_bytes '' state migrating''"
| "transition_line (Ls_Disconnected n) = JOURNAL_PREFIX @ str_bytes '' state disconnected ambiguous-input='' @ to_dec n"
| "transition_line (Ls_Reconnecting n) = JOURNAL_PREFIX @ str_bytes '' state reconnecting ambiguous-input='' @ to_dec n"
| "transition_line (Ls_RecoveringOverSsh n) =
     JOURNAL_PREFIX @ str_bytes '' state recovering-over-ssh ambiguous-input='' @ to_dec n"
| "transition_line Ls_Gapped = JOURNAL_PREFIX @ str_bytes '' state gapped''"

definition heartbeat_line :: "nat \<Rightarrow> usize \<Rightarrow> bytes" where
  "heartbeat_line elapsed n = JOURNAL_PREFIX @ str_bytes '' heartbeat disconnected elapsed-ms='' @ to_dec elapsed
     @ str_bytes '' ambiguous-input='' @ to_dec n"

definition terminal_line :: "journal_cause \<Rightarrow> bool \<Rightarrow> usize \<Rightarrow> bytes" where
  "terminal_line cause carried n = JOURNAL_PREFIX @ str_bytes '' cause '' @ journal_cause_word cause
     @ str_bytes '' carried='' @ to_dec (if carried then 1 else 0) @ str_bytes '' ambiguous-input='' @ to_dec n"

fun journal_line :: "journal_record \<Rightarrow> bytes" where
  "journal_line (Jr_Transition s) = transition_line s"
| "journal_line (Jr_Heartbeat e n) = heartbeat_line e n"
| "journal_line (Jr_Terminal c b n) = terminal_line c b n"

text \<open>\<open>parse::<u64>()\<close> and \<open>parse::<usize>()\<close>.\<close>

definition parse_u64 :: "bytes \<Rightarrow> nat option" where
  "parse_u64 = parse_dec (2 ^ 64 - 1)"

definition parse_journal_line :: "bytes \<Rightarrow> journal_record option" where
  "parse_journal_line line =
     Option.bind (strip_prefix JOURNAL_PREFIX line) (\<lambda>s.
     Option.bind (strip_prefix [0x20] s) (\<lambda>rest.
     if rest = str_bytes ''state connecting'' then Some (Jr_Transition Ls_Connecting)
     else if rest = str_bytes ''state connected'' then Some (Jr_Transition Ls_Connected)
     else if rest = str_bytes ''state carrying'' then Some (Jr_Transition Ls_Carrying)
     else if rest = str_bytes ''state migrating'' then Some (Jr_Transition Ls_Migrating)
     else if rest = str_bytes ''state gapped'' then Some (Jr_Transition Ls_Gapped)
     else case strip_prefix (str_bytes ''state disconnected ambiguous-input='') rest of
       Some v \<Rightarrow> map_option (\<lambda>n. Jr_Transition (Ls_Disconnected n)) (parse_u64 v)
     | None \<Rightarrow>
     case strip_prefix (str_bytes ''state reconnecting ambiguous-input='') rest of
       Some v \<Rightarrow> map_option (\<lambda>n. Jr_Transition (Ls_Reconnecting n)) (parse_u64 v)
     | None \<Rightarrow>
     case strip_prefix (str_bytes ''state recovering-over-ssh ambiguous-input='') rest of
       Some v \<Rightarrow> map_option (\<lambda>n. Jr_Transition (Ls_RecoveringOverSsh n)) (parse_u64 v)
     | None \<Rightarrow>
     case strip_prefix (str_bytes ''heartbeat disconnected elapsed-ms='') rest of
       Some r \<Rightarrow>
         Option.bind (split_once (str_bytes '' ambiguous-input='') r) (\<lambda>(elapsed, ambiguous).
         Option.bind (parse_u64 elapsed) (\<lambda>e. map_option (Jr_Heartbeat e) (parse_u64 ambiguous)))
     | None \<Rightarrow>
         Option.bind (strip_prefix (str_bytes ''cause '') rest) (\<lambda>rest.
         Option.bind (split_once (str_bytes '' carried='') rest) (\<lambda>(cause, rest).
         Option.bind (split_once (str_bytes '' ambiguous-input='') rest) (\<lambda>(carried, ambiguous).
         Option.bind (journal_cause_parse cause) (\<lambda>c.
         Option.bind (if carried = str_bytes ''0'' then Some False
           else if carried = str_bytes ''1'' then Some True else None) (\<lambda>b.
         map_option (Jr_Terminal c b) (parse_u64 ambiguous))))))))"

section \<open>The journal\<close>

text \<open>The content of the open file, and what the writer remembers. Whether the descriptor is still
  private, and how many bytes a write appended before it failed (None for success), are
  the answers of the operating system.\<close>

record status_file =
  sf_content :: bytes
  sf_state :: "journal_state option"
  sf_disconnected_since_ms :: "nat option"
  sf_last_heartbeat_ms :: "nat option"

datatype status_error = Ste_Io | Ste_UnsafeFile | Ste_ClockWentBackwards

datatype append_answer = Append_Done | Append_Unsafe | Append_Failed usize

definition status_append :: "append_answer \<Rightarrow> bytes \<Rightarrow> status_file \<Rightarrow> status_file \<times> status_error option" where
  "status_append answer line f =
     (case answer of
        Append_Unsafe \<Rightarrow> (f, Some Ste_UnsafeFile)
      | Append_Failed n \<Rightarrow> (f\<lparr>sf_content := sf_content f @ take n line\<rparr>, Some Ste_Io)
      | Append_Done \<Rightarrow> (f\<lparr>sf_content := sf_content f @ line\<rparr>, None))"

definition status_file_new :: status_file where
  "status_file_new = \<lparr>sf_content = [], sf_state = None, sf_disconnected_since_ms = None, sf_last_heartbeat_ms = None\<rparr>"

definition status_transition ::
  "append_answer \<Rightarrow> journal_state \<Rightarrow> nat \<Rightarrow> status_file \<Rightarrow> status_file \<times> (status_error + bool)" where
  "status_transition answer st now_ms f =
     (if sf_state f = Some st then (f, Inr False)
      else case status_append answer (transition_line st @ [0x0A]) f of
        (g, Some e) \<Rightarrow> (g, Inl e)
      | (g, None) \<Rightarrow>
          let was_disconnected = (Option.bind (sf_state f) disconnected_input \<noteq> None);
              is_disconnected = (disconnected_input st \<noteq> None);
              g = g\<lparr>sf_state := Some st\<rparr>
          in (if is_disconnected \<and> \<not> was_disconnected
              then g\<lparr>sf_disconnected_since_ms := Some now_ms, sf_last_heartbeat_ms := Some now_ms\<rparr>
              else if \<not> is_disconnected then g\<lparr>sf_disconnected_since_ms := None, sf_last_heartbeat_ms := None\<rparr>
              else g, Inr True))"

definition status_heartbeat ::
  "append_answer \<Rightarrow> nat \<Rightarrow> status_file \<Rightarrow> status_file \<times> (status_error + bool)" where
  "status_heartbeat answer now_ms f =
     (case Option.bind (sf_state f) disconnected_input of
        None \<Rightarrow> (f, Inr False)
      | Some ambiguous_input \<Rightarrow>
          (case (sf_disconnected_since_ms f, sf_last_heartbeat_ms f) of
             (Some since, Some last_ms) \<Rightarrow>
               if now_ms < since \<or> now_ms < last_ms then (f, Inl Ste_ClockWentBackwards)
               else if now_ms - last_ms < HEARTBEAT_INTERVAL_MS then (f, Inr False)
               else
                 (case status_append answer (heartbeat_line (now_ms - since) ambiguous_input @ [0x0A]) f of
                    (g, Some e) \<Rightarrow> (g, Inl e)
                  | (g, None) \<Rightarrow> (g\<lparr>sf_last_heartbeat_ms := Some now_ms\<rparr>, Inr True))
           | _ \<Rightarrow> (f, Inl Ste_ClockWentBackwards)))"

definition status_terminal ::
  "append_answer \<Rightarrow> journal_cause \<Rightarrow> bool \<Rightarrow> usize \<Rightarrow> status_file \<Rightarrow> status_file \<times> (status_error + unit)" where
  "status_terminal answer cause carried ambiguous_input f =
     (case status_append answer (terminal_line cause carried ambiguous_input @ [0x0A]) f of
        (g, Some e) \<Rightarrow> (g, Inl e)
      | (g, None) \<Rightarrow> (g, Inr ()))"

section \<open>Reading the journal back\<close>

fun journal_ok :: "journal_record \<Rightarrow> bool" where
  "journal_ok (Jr_Transition s) = (case disconnected_input s of None \<Rightarrow> True | Some n \<Rightarrow> n < 2 ^ 64)"
| "journal_ok (Jr_Heartbeat e n) = (e < 2 ^ 64 \<and> n < 2 ^ 64)"
| "journal_ok (Jr_Terminal c b n) = (n < 2 ^ 64)"

lemma parse_u64_to_dec [simp]: "n < 2 ^ 64 \<Longrightarrow> parse_u64 (to_dec n) = Some n"
  by (simp add: parse_u64_def)

lemma cause_word_parse: "journal_cause_parse (journal_cause_word c) = Some c"
  by (cases c) (simp_all add: journal_cause_parse_def str_bytes_def)

lemma cause_word_blank: "0x20 \<notin> set (journal_cause_word c)"
  by (cases c) (simp_all add: str_bytes_def)

lemma split_blank:
  "0x20 \<notin> set a \<Longrightarrow> p = 0x20 # q \<Longrightarrow> split_once p (a @ p @ b) = Some (a, b)"
  by (rule split_once_first) simp_all

lemma parse_transition_line: "journal_ok (Jr_Transition s) \<Longrightarrow> parse_journal_line (transition_line s) = Some (Jr_Transition s)"
  by (cases s) (simp_all add: parse_journal_line_def str_bytes_def)

lemma parse_heartbeat_line: "journal_ok (Jr_Heartbeat e n) \<Longrightarrow> parse_journal_line (heartbeat_line e n) = Some (Jr_Heartbeat e n)"
proof -
  assume ok: "journal_ok (Jr_Heartbeat e n)"
  have "split_once (str_bytes '' ambiguous-input='') (to_dec e @ str_bytes '' ambiguous-input='' @ to_dec n)
      = Some (to_dec e, to_dec n)"
    by (rule split_blank [where q = "str_bytes ''ambiguous-input=''"]) (simp_all add: to_dec_free str_bytes_def)
  with ok show ?thesis
    by (simp add: parse_journal_line_def heartbeat_line_def str_bytes_def)
qed

lemma parse_terminal_line: "journal_ok (Jr_Terminal c b n) \<Longrightarrow> parse_journal_line (terminal_line c b n) = Some (Jr_Terminal c b n)"
proof -
  assume ok: "journal_ok (Jr_Terminal c b n)"
  define flag where "flag = str_bytes (if b then ''1'' else ''0'')"
  have flag: "to_dec (if b then 1 else 0) = flag"
    by (simp add: flag_def to_dec.simps str_bytes_def)
  have f: "flag = str_bytes ''0'' \<longleftrightarrow> \<not> b" "flag = str_bytes ''1'' \<longleftrightarrow> b"
    by (cases b; simp add: flag_def str_bytes_def)+
  have s1: "split_once (str_bytes '' carried='') (journal_cause_word c @ str_bytes '' carried='' @ r)
      = Some (journal_cause_word c, r)" for r
    by (rule split_blank [where q = "str_bytes ''carried=''"]) (simp_all add: cause_word_blank str_bytes_def)
  have s2: "split_once (str_bytes '' ambiguous-input='') (flag @ str_bytes '' ambiguous-input='' @ to_dec n)
      = Some (flag, to_dec n)"
    by (rule split_blank [where q = "str_bytes ''ambiguous-input=''"]) (simp_all add: flag_def str_bytes_def)
  define rest where "rest = journal_cause_word c @ str_bytes '' carried='' @ flag @ str_bytes '' ambiguous-input='' @ to_dec n"
  have "parse_journal_line (JOURNAL_PREFIX @ 0x20 # str_bytes ''cause '' @ rest) =
      Option.bind (split_once (str_bytes '' carried='') rest) (\<lambda>(cause, rest).
      Option.bind (split_once (str_bytes '' ambiguous-input='') rest) (\<lambda>(carried, ambiguous).
      Option.bind (journal_cause_parse cause) (\<lambda>c.
      Option.bind (if carried = str_bytes ''0'' then Some False
        else if carried = str_bytes ''1'' then Some True else None) (\<lambda>b.
      map_option (Jr_Terminal c b) (parse_u64 ambiguous)))))"
    by (simp add: parse_journal_line_def str_bytes_def)
  also have "\<dots> = Some (Jr_Terminal c b n)"
    using ok by (simp add: rest_def s1 s2 cause_word_parse f)
  finally show ?thesis
    by (simp add: terminal_line_def flag rest_def) (simp add: str_bytes_def)
qed

lemma parse_journal_line_exact: "journal_ok r \<Longrightarrow> parse_journal_line (journal_line r) = Some r"
  by (cases r) (simp_all add: parse_transition_line parse_heartbeat_line parse_terminal_line del: journal_ok.simps)

text \<open>Lines hold no line break, so a journal read back as lines is the list of its records.\<close>

lemma str_bytes_append: "str_bytes (a @ b) = str_bytes a @ str_bytes b"
  by (simp add: str_bytes_def)

lemma journal_line_breaks: "0x0A \<notin> set (journal_line r) \<and> 0x0D \<notin> set (journal_line r)"
proof -
  have p: "0x0A \<notin> set JOURNAL_PREFIX" "0x0D \<notin> set JOURNAL_PREFIX"
    by (simp_all add: JOURNAL_PREFIX_def str_bytes_def)
  show ?thesis
  proof (cases r)
    case (Jr_Transition s)
    then show ?thesis by (cases s) (simp_all add: p str_bytes_def to_dec_free)
  next
    case (Jr_Heartbeat e n)
    then show ?thesis by (simp add: heartbeat_line_def p str_bytes_def to_dec_free)
  next
    case (Jr_Terminal c b n)
    have "0x0A \<notin> set (journal_cause_word c)" "0x0D \<notin> set (journal_cause_word c)"
      by (cases c; simp add: str_bytes_def)+
    with Jr_Terminal show ?thesis by (simp add: terminal_line_def p str_bytes_def to_dec_free)
  qed
qed

definition journal_text :: "journal_record list \<Rightarrow> bytes" where
  "journal_text rs = concat (map (\<lambda>r. journal_line r @ [0x0A]) rs)"

lemma journal_text_lines: "str_lines (journal_text rs) = map journal_line rs"
proof -
  have "list_all (\<lambda>l. 0x0A \<notin> set l \<and> 0x0D \<notin> set l) (map journal_line rs)"
    using journal_line_breaks by (simp add: list_all_iff)
  from str_lines_records [OF this] show ?thesis
    by (simp add: journal_text_def comp_def)
qed

lemma journal_text_simps [simp]:
  "journal_text [] = []" "journal_text (rs @ rs') = journal_text rs @ journal_text rs'"
  "journal_text [r] = journal_line r @ [0x0A]"
  by (simp_all add: journal_text_def)

section \<open>The writer\<close>

text \<open>A writer's life: transitions, heartbeats and terminal records, each with what the operating
  system answers to its append and the time it is called at, and the answer it gets. A client goes on after a
  heartbeat that failed.\<close>

datatype journal_op =
    Op_Transition append_answer journal_state nat
  | Op_Heartbeat append_answer nat
  | Op_Terminal append_answer journal_cause bool usize

type_synonym journal_history = "(journal_op \<times> (status_error + bool)) list"

fun journal_step :: "journal_op \<Rightarrow> status_file \<Rightarrow> status_file \<times> (status_error + bool)" where
  "journal_step (Op_Transition a s now) f = status_transition a s now f"
| "journal_step (Op_Heartbeat a now) f = status_heartbeat a now f"
| "journal_step (Op_Terminal a c b n) f =
     (case status_terminal a c b n f of (g, Inl e) \<Rightarrow> (g, Inl e) | (g, Inr _) \<Rightarrow> (g, Inr True))"

fun journal_run :: "journal_op list \<Rightarrow> status_file \<Rightarrow> status_file \<times> journal_history" where
  "journal_run [] f = (f, [])"
| "journal_run (op # ops) f =
     (case journal_step op f of (g, r) \<Rightarrow> (case journal_run ops g of (k, h) \<Rightarrow> (k, (op, r) # h)))"

text \<open>What a history must look like, told from the calls and answers alone. \<open>due\<close> is the time before
  which no heartbeat may be written: a minute after the transition that disconnected the link or the
  last heartbeat written since; None while the link is not disconnected. A heartbeat comes too early
  by more than the minute only when the clock went backwards.\<close>

fun down_input :: "journal_state \<Rightarrow> usize option" where
  "down_input Ls_Connecting = None"
| "down_input Ls_Connected = None"
| "down_input Ls_Carrying = None"
| "down_input Ls_Migrating = None"
| "down_input (Ls_Disconnected n) = Some n"
| "down_input (Ls_Reconnecting n) = Some n"
| "down_input (Ls_RecoveringOverSsh n) = Some n"
| "down_input Ls_Gapped = None"

fun append_result :: "append_answer \<Rightarrow> status_error + bool" where
  "append_result Append_Done = Inr True"
| "append_result Append_Unsafe = Inl Ste_UnsafeFile"
| "append_result (Append_Failed n) = Inl Ste_Io"

fun append_bytes :: "append_answer \<Rightarrow> journal_record \<Rightarrow> bytes" where
  "append_bytes Append_Done r = journal_text [r]"
| "append_bytes Append_Unsafe r = []"
| "append_bytes (Append_Failed n) r = take n (journal_text [r])"

fun journal_obeys :: "journal_state option \<Rightarrow> nat option \<Rightarrow> journal_history \<Rightarrow> bool" where
  "journal_obeys st due [] = True"
| "journal_obeys st due ((Op_Transition a s now, r) # h) =
     (if st = Some s then r = Inr False \<and> journal_obeys st due h
      else r = append_result a
        \<and> (if r = Inr True
           then journal_obeys (Some s)
                  (case (down_input s, due) of
                     (None, _) \<Rightarrow> None
                   | (Some n, None) \<Rightarrow> Some (now + 60000)
                   | (Some n, Some t) \<Rightarrow> Some t) h
           else journal_obeys st due h))"
| "journal_obeys st due ((Op_Heartbeat a now, r) # h) =
     (case due of
        None \<Rightarrow> r = Inr False \<and> journal_obeys st due h
      | Some t \<Rightarrow>
          r = (if now + 60000 < t then Inl Ste_ClockWentBackwards
               else if now < t then Inr False
               else append_result a)
          \<and> journal_obeys st (if r = Inr True then Some (now + 60000) else due) h)"
| "journal_obeys st due ((Op_Terminal a c b n, r) # h) = (r = append_result a \<and> journal_obeys st due h)"

text \<open>The bytes of the file, from the same observations: every record written, whole or as far as a
  failed write came. \<open>down\<close> is the time at which the link was disconnected and the input
  that the last state named as ambiguous.\<close>

fun journal_file :: "(nat \<times> usize) option \<Rightarrow> journal_history \<Rightarrow> bytes" where
  "journal_file down [] = []"
| "journal_file down ((Op_Transition a s now, r) # h) =
     (if r = Inr False then journal_file down h
      else append_bytes a (Jr_Transition s) @ journal_file
        (if r = Inr True
         then map_option (\<lambda>n. (case down of None \<Rightarrow> now | Some (since, _) \<Rightarrow> since, n)) (down_input s)
         else down) h)"
| "journal_file down ((Op_Heartbeat a now, r) # h) =
     (if r = Inr False \<or> r = Inl Ste_ClockWentBackwards then journal_file down h
      else (case down of None \<Rightarrow> [] | Some (since, n) \<Rightarrow> append_bytes a (Jr_Heartbeat (now - since) n))
        @ journal_file down h)"
| "journal_file down ((Op_Terminal a c b n, r) # h) = append_bytes a (Jr_Terminal c b n) @ journal_file down h"

text \<open>The writer's fields hold what the history tells.\<close>

definition journal_rel :: "journal_state option \<Rightarrow> nat option \<Rightarrow> (nat \<times> usize) option \<Rightarrow> status_file \<Rightarrow> bool" where
  "journal_rel st due down f \<longleftrightarrow> sf_state f = st
     \<and> (case Option.bind st down_input of
          None \<Rightarrow> due = None \<and> down = None \<and> sf_disconnected_since_ms f = None \<and> sf_last_heartbeat_ms f = None
        | Some n \<Rightarrow> (\<exists>since last_ms. since \<le> last_ms \<and> due = Some (last_ms + 60000) \<and> down = Some (since, n)
            \<and> sf_disconnected_since_ms f = Some since \<and> sf_last_heartbeat_ms f = Some last_ms))"

lemma disconnected_down: "disconnected_input = down_input"
proof
  show "disconnected_input s = down_input s" for s by (cases s) simp_all
qed

lemma status_append_result:
  "status_append a (journal_line r @ [0x0A]) f =
     (f\<lparr>sf_content := sf_content f @ append_bytes a r\<rparr>, case append_result a of Inl e \<Rightarrow> Some e | Inr _ \<Rightarrow> None)"
  by (cases a) (simp_all add: status_append_def)

lemmas append_results =
  status_append_result [of _ "Jr_Transition s" for s, simplified]
  status_append_result [of _ "Jr_Heartbeat e n" for e n, simplified]
  status_append_result [of _ "Jr_Terminal c b n" for c b n, simplified]

lemma append_result_cases:
  obtains "append_result a = Inr True" | e where "append_result a = Inl e" "e \<noteq> Ste_ClockWentBackwards"
  by (cases a) auto

text \<open>One call, against the part of the history that it adds.\<close>

lemma transition_step:
  assumes "journal_rel st due down f" "status_transition a s now f = (g, r)"
  shows "if st = Some s then g = f \<and> r = Inr False
    else r = append_result a \<and> sf_content g = sf_content f @ append_bytes a (Jr_Transition s)
      \<and> journal_rel (if r = Inr True then Some s else st)
          (if r = Inr True then (case (down_input s, due) of (None, _) \<Rightarrow> None | (Some n, None) \<Rightarrow> Some (now + 60000)
             | (Some n, Some t) \<Rightarrow> Some t) else due)
          (if r = Inr True then map_option (\<lambda>n. (case down of None \<Rightarrow> now | Some (since, _) \<Rightarrow> since, n)) (down_input s) else down) g"
  using assms
  by (cases a rule: append_result_cases)
    (auto simp: status_transition_def disconnected_down append_results journal_rel_def Let_def split: option.splits if_splits)

lemma heartbeat_step:
  assumes "journal_rel st due down f" "status_heartbeat a now f = (g, r)"
  shows "case due of None \<Rightarrow> g = f \<and> r = Inr False
    | Some t \<Rightarrow> \<exists>since n. down = Some (since, n)
        \<and> r = (if now + 60000 < t then Inl Ste_ClockWentBackwards else if now < t then Inr False else append_result a)
        \<and> sf_content g = sf_content f @ (if now < t then [] else append_bytes a (Jr_Heartbeat (now - since) n))
        \<and> journal_rel st (if r = Inr True then Some (now + 60000) else due) down g"
  using assms
  by (cases a rule: append_result_cases)
    (auto simp: status_heartbeat_def disconnected_down append_results journal_rel_def HEARTBEAT_INTERVAL_MS_def split: option.splits if_splits)

lemma terminal_step:
  assumes "journal_rel st due down f" "journal_step (Op_Terminal a c b n) f = (g, r)"
  shows "r = append_result a \<and> sf_content g = sf_content f @ append_bytes a (Jr_Terminal c b n) \<and> journal_rel st due down g"
  using assms
  by (cases a rule: append_result_cases)
    (auto simp: status_terminal_def append_results journal_rel_def split: option.splits)

lemma journal_run_spec:
  "journal_rel st due down f \<Longrightarrow> journal_run ops f = (g, h) \<Longrightarrow>
   journal_obeys st due h \<and> sf_content g = sf_content f @ journal_file down h"
proof (induction ops arbitrary: st due down f h)
  case (Cons op ops)
  obtain k r where step: "journal_step op f = (k, r)" by fastforce
  then obtain hs where run: "journal_run ops k = (g, hs)" and h: "h = (op, r) # hs"
    using Cons.prems(2) by (auto split: prod.splits)
  note IH = Cons.IH [OF _ run]
  show ?case
  proof (cases op)
    case (Op_Transition a s now)
    have "status_transition a s now f = (k, r)" using step Op_Transition by simp
    from transition_step [OF Cons.prems(1) this] show ?thesis
      using IH Cons.prems(1) unfolding h Op_Transition
      by (cases a rule: append_result_cases) (auto split: if_splits)
  next
    case (Op_Heartbeat a now)
    have "status_heartbeat a now f = (k, r)" using step Op_Heartbeat by simp
    from heartbeat_step [OF Cons.prems(1) this] show ?thesis
      using IH Cons.prems(1) unfolding h Op_Heartbeat
      by (cases due; cases a rule: append_result_cases) (auto split: if_splits)
  next
    case (Op_Terminal a c b n)
    from terminal_step [OF Cons.prems(1) step [unfolded Op_Terminal]] show ?thesis
      using IH unfolding h Op_Terminal by auto
  qed
qed simp

lemma journal_run_ops: "journal_run ops f = (g, h) \<Longrightarrow> map fst h = ops"
  by (induction ops arbitrary: f h) (auto split: prod.splits)

text \<open>C36: Whatever transitions, heartbeats and terminal records a client journals, at whatever times and
  with whatever appends failing, its file is exactly the records written, each a line or as much of
  it as a failed write left, and every call answers as the history demands: a repeated state is
  not written again; a heartbeat is written only while the link is disconnected and a full minute after the
  transition that disconnected it and after the last heartbeat written; it is refused as a backwards clock
  exactly when the clock is behind the later of them; and a heartbeat that is due is written.\<close>

theorem journal_is_its_records:
  "case journal_run ops status_file_new of (f, h) \<Rightarrow>
     map fst h = ops \<and> journal_obeys None None h \<and> sf_content f = journal_file None h"
proof -
  obtain f h where run: "journal_run ops status_file_new = (f, h)" by fastforce
  have "journal_rel None None None status_file_new"
    by (simp add: journal_rel_def status_file_new_def)
  from journal_run_spec [OF this run] journal_run_ops [OF run]
  have "map fst h = ops \<and> journal_obeys None None h \<and> sf_content f = journal_file None h"
    by (simp add: status_file_new_def)
  with run show ?thesis by simp
qed

end
