(* ===== verification/Eversh_Base64.thy ===== *)
theory Eversh_Base64
  imports Eversh_Remote
begin

text \<open>
  Unpadded base64url (\<open>crates/eversh/src/remote.rs\<close>) decodes exactly what it encodes: the
  decoder inverts the encoder within its size bound and accepts no other text, so padding,
  foreign characters, impossible lengths and set trailing bits are all refused. The proofs view
  a chunk as one number of up to 24 bits, cut into bytes on one side and into six-bit groups on
  the other.
\<close>

section \<open>Chunks as numbers\<close>

lemma mask6: "(63 :: u32) = mask 6"
  by (simp add: mask_eq_exp_minus_1)

definition shift6 :: "u32 \<Rightarrow> u32 \<Rightarrow> u32" where
  "shift6 x y = or (push_bit 6 x) (and y 63)"

definition join3 :: "u8 \<Rightarrow> u8 \<Rightarrow> u8 \<Rightarrow> u32" where
  "join3 a b c = or (or (push_bit 16 (ucast a)) (push_bit 8 (ucast b))) (ucast c)"

definition six :: "nat \<Rightarrow> u32 \<Rightarrow> u32" where
  "six k g = and (drop_bit k g) 63"

definition low :: "nat \<Rightarrow> u32 \<Rightarrow> u8" where
  "low k g = ucast (drop_bit k g)"

lemma bit_shift6: "n < 32 \<Longrightarrow> bit (shift6 x y) n = (if n < 6 then bit y n else bit x (n - 6))"
  by (auto simp: shift6_def mask6 bit_simps)

lemma bit_join3:
  "bit (join3 a b c) n =
     (if n < 8 then bit c n else if n < 16 then bit b (n - 8) else n < 24 \<and> bit a (n - 16))"
proof -
  have nb: "8 \<le> m \<Longrightarrow> \<not> bit x m" for x :: u8 and m
    using bit_imp_le_length [of x m] by auto
  consider "n < 8" | "8 \<le> n" "n < 16" | "16 \<le> n" "n < 24" | "24 \<le> n" by linarith
  then show ?thesis
    by cases (auto simp: join3_def bit_simps nb)
qed

lemma bit_six: "bit (six k g) n = (n < 6 \<and> bit g (k + n))"
  by (auto simp: six_def mask6 bit_simps)

lemma bit_low: "bit (low k g) n = (n < 8 \<and> bit g (k + n))"
  by (auto simp: low_def bit_simps)

lemma regions: obtains "n < (6::nat)" | "6 \<le> n" "n < 12" | "12 \<le> n" "n < 18" | "18 \<le> n" "n < 24" | "24 \<le> n"
  by linarith

lemma no_bit: "32 \<le> n \<Longrightarrow> \<not> bit (x :: u32) n"
  using bit_imp_le_length [of x n] by auto

lemma shift6_six: "shift6 x (six k y) = shift6 x (drop_bit k y)"
  by (rule bit_word_eqI) (auto simp: bit_shift6 bit_six bit_drop_bit_eq)

lemma regroup:
  "(\<And>n. bit g n \<Longrightarrow> n < 24) \<Longrightarrow>
   shift6 (shift6 (shift6 (shift6 0 (six 18 g)) (six 12 g)) (six 6 g)) (six 0 g) = g"
  "(\<And>n. bit g n \<Longrightarrow> n < 24) \<Longrightarrow> shift6 (shift6 (shift6 0 (six 18 g)) (six 12 g)) (six 6 g) = drop_bit 6 g"
  "(\<And>n. bit g n \<Longrightarrow> n < 24) \<Longrightarrow> shift6 (shift6 0 (six 18 g)) (six 12 g) = drop_bit 12 g"
proof -
  assume a: "\<And>n. bit g n \<Longrightarrow> n < 24"
  have a': "\<And>n. 24 \<le> n \<Longrightarrow> \<not> bit g n" using a by force
  show "shift6 (shift6 (shift6 (shift6 0 (six 18 g)) (six 12 g)) (six 6 g)) (six 0 g) = g"
  proof (rule bit_word_eqI)
    fix n assume "n < LENGTH(32)"
    then show "bit (shift6 (shift6 (shift6 (shift6 0 (six 18 g)) (six 12 g)) (six 6 g)) (six 0 g)) n = bit g n"
      by (cases n rule: regions) (simp_all add: bit_shift6 bit_six a')
  qed
  show "shift6 (shift6 (shift6 0 (six 18 g)) (six 12 g)) (six 6 g) = drop_bit 6 g"
  proof (rule bit_word_eqI)
    fix n assume "n < LENGTH(32)"
    then show "bit (shift6 (shift6 (shift6 0 (six 18 g)) (six 12 g)) (six 6 g)) n = bit (drop_bit 6 g) n"
      by (cases n rule: regions) (simp_all add: bit_shift6 bit_six bit_drop_bit_eq a')
  qed
  show "shift6 (shift6 0 (six 18 g)) (six 12 g) = drop_bit 12 g"
  proof (rule bit_word_eqI)
    fix n assume "n < LENGTH(32)"
    then show "bit (shift6 (shift6 0 (six 18 g)) (six 12 g)) n = bit (drop_bit 12 g) n"
      by (cases n rule: regions) (simp_all add: bit_shift6 bit_six bit_drop_bit_eq a')
  qed
qed

lemma six_bound: "six k g < 64"
proof -
  have "six k g \<le> 63" unfolding six_def by (rule word_and_le1)
  then show ?thesis by (simp add: word_less_nat_alt word_le_nat_alt)
qed

lemma low_join:
  "low 16 (join3 a b c) = a" "low 8 (join3 a b c) = b" "low 0 (join3 a b c) = c"
  by (rule bit_word_eqI; simp add: bit_low bit_join3)+

lemma join_low:
  "(\<And>n. bit g n \<Longrightarrow> n < 24) \<Longrightarrow> join3 (low 16 g) (low 8 g) (low 0 g) = g"
proof (rule bit_word_eqI)
  fix n assume a: "\<And>n. bit g n \<Longrightarrow> n < 24"
  show "bit (join3 (low 16 g) (low 8 g) (low 0 g)) n = bit g n"
    using a [of n] by (cases "bit g n") (auto simp: bit_join3 bit_low)
qed

text \<open>Encoding a chunk writes the characters of the six-bit groups of its joined bytes.\<close>

lemma encode_chunk_eq:
  "encode_chunk [a, b, c] = map (\<lambda>k. BASE64URL ! unat (six k (join3 a b c))) [18, 12, 6, 0]"
  "encode_chunk [a, b] = map (\<lambda>k. BASE64URL ! unat (six k (join3 a b 0))) [18, 12, 6]"
  "encode_chunk [a] = map (\<lambda>k. BASE64URL ! unat (six k (join3 a 0 0))) [18, 12]"
  by (simp_all add: encode_chunk_def six_def join3_def Let_def)

declare chunk_group.simps(2) [simp del]

lemma chunk_group_char: "chunk_group g ((BASE64URL ! unat (six k x)) # cs) = chunk_group (shift6 g (six k x)) cs"
proof -
  have "and (six k x) 63 = six k x"
    by (rule bit_word_eqI) (auto simp: mask6 bit_simps bit_six)
  then show ?thesis
    using value_of_char [OF six_bound [of k x]] by (simp add: shift6_def chunk_group.simps)
qed

lemma join3_bound: "bit (join3 a b c) n \<Longrightarrow> n < 24"
  by (auto simp: bit_join3 split: if_splits)

lemma and_drop_zero:
  "and (drop_bit 6 (join3 a b 0)) 0b11 = 0"
  "and (drop_bit 12 (join3 a 0 0)) 0b1111 = 0"
proof -
  have m: "(0b11 :: u32) = mask 2" "(0b1111 :: u32) = mask 4" by (simp_all add: mask_eq_exp_minus_1)
  show "and (drop_bit 6 (join3 a b 0)) 0b11 = 0"
    unfolding m by (rule bit_word_eqI) (simp add: bit_simps bit_join3)
  show "and (drop_bit 12 (join3 a 0 0)) 0b1111 = 0"
    unfolding m by (rule bit_word_eqI) (simp add: bit_simps bit_join3)
qed

lemma small_chunk:
  assumes "c \<noteq> []" "length c \<le> 3"
  obtains x y z where "c = [x, y, z]" | x y where "c = [x, y]" | x where "c = [x]"
proof -
  from assms have "length c = 1 \<or> length c = 2 \<or> length c = 3" by (cases "length c") auto
  with that show thesis by (auto simp: numeral_eq_Suc length_Suc_conv)
qed

lemma decode_encode_chunk:
  assumes "c \<noteq> []" "length c \<le> 3"
  shows "decode_chunk64 (encode_chunk c) = Inr c"
proof -
  from assms show ?thesis
  proof (cases rule: small_chunk)
    case (1 x y z)
    have "chunk_group 0 (encode_chunk c) = Inr (join3 x y z)"
      by (simp add: 1 encode_chunk_eq chunk_group_char regroup(1) [OF join3_bound])
    then show ?thesis
      using low_join [of x y z] by (simp add: decode_chunk64_def 1 encode_chunk_eq(1) low_def)
  next
    case (2 x y)
    have "chunk_group 0 (encode_chunk c) = Inr (drop_bit 6 (join3 x y 0))"
      by (simp add: 2 encode_chunk_eq chunk_group_char regroup(2) [OF join3_bound])
    then show ?thesis
      using low_join [of x y 0] and_drop_zero(1) [of x y]
      by (simp add: decode_chunk64_def 2 encode_chunk_eq(2) low_def)
  next
    case (3 x)
    have "chunk_group 0 (encode_chunk c) = Inr (drop_bit 12 (join3 x 0 0))"
      by (simp add: 3 encode_chunk_eq chunk_group_char regroup(3) [OF join3_bound])
    then show ?thesis
      using low_join [of x 0 0] and_drop_zero(2) [of x]
      by (simp add: decode_chunk64_def 3 encode_chunk_eq(3) low_def)
  qed
qed

text \<open>Conversely the value of an accepted chunk is made of the values of its characters.\<close>

lemma chunk_group_Cons:
  "chunk_group g (c # cs) = Inr r \<longleftrightarrow>
   (\<exists>v. base64url_value c = Inr v \<and> c = BASE64URL ! unat v \<and> and v 63 = v \<and> chunk_group (shift6 g v) cs = Inr r)"
proof -
  have "base64url_value c = Inr v \<Longrightarrow> c = BASE64URL ! unat v \<and> and v 63 = v" for v
  proof -
    assume "base64url_value c = Inr v"
    from char_of_value [OF this] have "v < 64" "BASE64URL ! unat v = c" by auto
    moreover from this(1) have "take_bit 6 v = v"
      by (simp add: word_unat_eq_iff unsigned_take_bit_eq take_bit_nat_eq_self word_less_nat_alt)
    ultimately show ?thesis by (simp add: mask6 flip: take_bit_eq_mask)
  qed
  then show ?thesis
    by (auto simp: chunk_group.simps shift6_def)
qed

lemma six_shift6: "six 0 (shift6 x v) = and v 63" "k \<le> 20 \<Longrightarrow> six (6 + k) (shift6 x v) = six k x"
proof -
  show "six 0 (shift6 x v) = and v 63"
    by (rule bit_word_eqI) (auto simp: bit_six bit_shift6 bit_simps mask6)
  assume "k \<le> 20"
  then show "six (6 + k) (shift6 x v) = six k x"
    by (intro bit_word_eqI) (auto simp: bit_six bit_shift6)
qed

lemma shift6_bound: "(\<And>n. bit x n \<Longrightarrow> n < k) \<Longrightarrow> bit (shift6 x v) n \<Longrightarrow> n < max 6 (k + 6)"
proof -
  assume a: "\<And>n. bit x n \<Longrightarrow> n < k" "bit (shift6 x v) n"
  then have "n < 32" using no_bit [of n "shift6 x v"] by force
  with a(2) a(1) [of "n - 6"] show ?thesis by (auto simp: bit_shift6 split: if_splits)
qed

lemma shift6_bounds:
  "bit (shift6 (shift6 0 v) w) n \<Longrightarrow> n < 12"
  "bit (shift6 (shift6 (shift6 0 v) w) x) n \<Longrightarrow> n < 18"
  "bit (shift6 (shift6 (shift6 (shift6 0 v) w) x) y) n \<Longrightarrow> n < 24"
proof -
  have 2: "bit (shift6 (shift6 0 v) w) n \<Longrightarrow> n < 12" for n
    using shift6_bound [of "shift6 0 v" 6 w n] shift6_bound [of 0 0 v] by auto
  then show "bit (shift6 (shift6 0 v) w) n \<Longrightarrow> n < 12" .
  have 3: "bit (shift6 (shift6 (shift6 0 v) w) x) n \<Longrightarrow> n < 18" for n
    using shift6_bound [of "shift6 (shift6 0 v) w" 12 x n] 2 by auto
  then show "bit (shift6 (shift6 (shift6 0 v) w) x) n \<Longrightarrow> n < 18" .
  show "bit (shift6 (shift6 (shift6 (shift6 0 v) w) x) y) n \<Longrightarrow> n < 24"
    using shift6_bound [of "shift6 (shift6 (shift6 0 v) w) x" 18 y n] 3 by auto
qed

text \<open>The bytes of the shorter chunks, whose last bits are clear, joined with zeros.\<close>

lemma join_low_short:
  "(\<And>n. bit g n \<Longrightarrow> n < 18) \<Longrightarrow> and g 0b11 = 0 \<Longrightarrow> join3 (low 10 g) (low 2 g) 0 = push_bit 6 g"
  "(\<And>n. bit g n \<Longrightarrow> n < 12) \<Longrightarrow> and g 0b1111 = 0 \<Longrightarrow> join3 (low 4 g) 0 0 = push_bit 12 g"
proof -
  have m: "(0b11 :: u32) = mask 2" "(0b1111 :: u32) = mask 4" by (simp_all add: mask_eq_exp_minus_1)
  { assume b: "\<And>n. bit g n \<Longrightarrow> n < 18" and z: "and g 0b11 = 0"
    have low: "\<not> bit g n" if "n < 2" for n
    proof -
      have "\<not> bit (and g (mask 2)) n" using z unfolding m by simp
      with that show ?thesis by (simp add: bit_simps)
    qed
    show "join3 (low 10 g) (low 2 g) 0 = push_bit 6 g"
    proof (rule bit_word_eqI)
      fix n assume n: "n < LENGTH(32)"
      have eqs: "8 \<le> n \<Longrightarrow> Suc (Suc (n - 8)) = n - 6" "16 \<le> n \<Longrightarrow> 10 + (n - 16) = n - 6" by auto
      consider "n < 8" | "8 \<le> n" "n < 16" | "16 \<le> n" "n < 24" | "24 \<le> n" by linarith
      then show "bit (join3 (low 10 g) (low 2 g) 0) n = bit (push_bit 6 g) n"
        using n b [of "n - 6"] low [of "n - 6"] by cases (auto simp: bit_join3 bit_low bit_push_bit_iff eqs)
    qed }
  { assume b: "\<And>n. bit g n \<Longrightarrow> n < 12" and z: "and g 0b1111 = 0"
    have low: "\<not> bit g n" if "n < 4" for n
    proof -
      have "\<not> bit (and g (mask 4)) n" using z unfolding m by simp
      with that show ?thesis by (simp add: bit_simps)
    qed
    show "join3 (low 4 g) 0 0 = push_bit 12 g"
    proof (rule bit_word_eqI)
      fix n assume n: "n < LENGTH(32)"
      have eqs: "16 \<le> n \<Longrightarrow> 4 + (n - 16) = n - 12" by auto
      consider "n < 16" | "16 \<le> n" "n < 24" | "24 \<le> n" by linarith
      then show "bit (join3 (low 4 g) 0 0) n = bit (push_bit 12 g) n"
        using n b [of "n - 12"] low [of "n - 12"] by cases (auto simp: bit_join3 bit_low bit_push_bit_iff eqs)
    qed }
qed

lemma six_push: "k \<le> 12 \<Longrightarrow> six (6 + k) (push_bit 6 g) = six k g" "k \<le> 12 \<Longrightarrow> six (12 + k) (push_bit 12 g) = six k g"
  by (intro bit_word_eqI; auto simp: bit_six bit_push_bit_iff)+

lemma six_of_shifts:
  "six 0 (shift6 x y) = and y 63" "six 6 (shift6 x y) = six 0 x" "six 12 (shift6 x y) = six 6 x"
  "six 18 (shift6 x y) = six 12 x"
  using six_shift6(1) [of x y] six_shift6(2) [of 0 x y] six_shift6(2) [of 6 x y] six_shift6(2) [of 12 x y] by simp_all

lemma encode_decode_chunk:
  assumes "decode_chunk64 t = Inr b"
  shows "encode_chunk b = t \<and> b \<noteq> [] \<and> length b < length t \<and> (length t = 4 \<longrightarrow> length b = 3) \<and> length b \<le> 3"
proof -
  from assms obtain g where g: "chunk_group 0 t = Inr g" by (auto simp: decode_chunk64_def)
  from assms consider "length t = 4" | "length t = 3" | "length t = 2"
    by (auto simp: decode_chunk64_def split: if_splits)
  then show ?thesis
  proof cases
    case 1
    then obtain c d e f where t: "t = [c, d, e, f]" by (auto simp: numeral_eq_Suc length_Suc_conv)
    from g obtain v w x y where v: "c = BASE64URL ! unat v" "d = BASE64URL ! unat w" "e = BASE64URL ! unat x"
      "f = BASE64URL ! unat y" "and v 63 = v" "and w 63 = w" "and x 63 = x" "and y 63 = y"
      and g': "g = shift6 (shift6 (shift6 (shift6 0 v) w) x) y"
      by (auto simp: t chunk_group_Cons)
    have b: "b = [low 16 g, low 8 g, low 0 g]"
      using assms g 1 by (simp add: decode_chunk64_def low_def)
    show ?thesis
      using v shift6_bounds(3) [of v w x y]
      by (simp add: b t encode_chunk_eq join_low g' six_of_shifts)
  next
    case 2
    then obtain c d e where t: "t = [c, d, e]" by (auto simp: numeral_eq_Suc length_Suc_conv)
    from g obtain v w x where v: "c = BASE64URL ! unat v" "d = BASE64URL ! unat w" "e = BASE64URL ! unat x"
      "and v 63 = v" "and w 63 = w" "and x 63 = x" and g': "g = shift6 (shift6 (shift6 0 v) w) x"
      by (auto simp: t chunk_group_Cons)
    from assms g 2 have b: "b = [low 10 g, low 2 g]" and z: "and g 0b11 = 0"
      by (auto simp: decode_chunk64_def low_def split: if_splits)
    have "join3 (low 10 g) (low 2 g) 0 = push_bit 6 g"
      using join_low_short(1) [OF _ z] shift6_bounds(2) [of v w x] by (simp add: g')
    then show ?thesis
      using v six_push(1) [of 12 g] six_push(1) [of 6 g] six_push(1) [of 0 g]
      by (simp add: b t encode_chunk_eq) (simp add: g' six_of_shifts)
  next
    case 3
    then obtain c d where t: "t = [c, d]" by (auto simp: numeral_eq_Suc length_Suc_conv)
    from g obtain v w where v: "c = BASE64URL ! unat v" "d = BASE64URL ! unat w"
      "and v 63 = v" "and w 63 = w" and g': "g = shift6 (shift6 0 v) w"
      by (auto simp: t chunk_group_Cons)
    from assms g 3 have b: "b = [low 4 g]" and z: "and g 0b1111 = 0"
      by (auto simp: decode_chunk64_def low_def split: if_splits)
    have "join3 (low 4 g) 0 0 = push_bit 12 g"
      using join_low_short(2) [OF _ z] shift6_bounds(1) [of v w] by (simp add: g')
    then show ?thesis
      using v six_push(2) [of 6 g] six_push(2) [of 0 g]
      by (simp add: b t encode_chunk_eq) (simp add: g' six_of_shifts)
  qed
qed

section \<open>Whole texts\<close>

lemma base64url_encode_Nil [simp]: "base64url_encode [] = []"
  by (simp add: base64url_encode_def)

lemma base64url_encode_chunk: "c \<noteq> [] \<Longrightarrow> length c \<le> 3 \<Longrightarrow> base64url_encode c = encode_chunk c"
  by (simp add: base64url_encode_def slice_chunks_last)

lemma base64url_encode_append: "length c = 3 \<Longrightarrow> base64url_encode (c @ b) = encode_chunk c @ base64url_encode b"
  by (simp add: base64url_encode_def slice_chunks_append)

lemma length_encode_chunk:
  "c \<noteq> [] \<Longrightarrow> length c \<le> 3 \<Longrightarrow> length (encode_chunk c) = length c + 1"
  by (erule (1) small_chunk) (simp_all add: encode_chunk_eq)

lemma chunk_induct [case_names Nil Last Step]:
  assumes "P []" "\<And>c. c \<noteq> [] \<Longrightarrow> length c \<le> n \<Longrightarrow> P c" "\<And>c r. length c = n \<Longrightarrow> P r \<Longrightarrow> P (c @ r)" "0 < n"
  shows "P xs"
proof (induction "length xs" arbitrary: xs rule: less_induct)
  case less
  show ?case
  proof (cases "xs = [] \<or> length xs \<le> n")
    case True
    then show ?thesis using assms(1) assms(2) [of xs] by (cases "xs = []") simp_all
  next
    case False
    then have "length (drop n xs) < length xs" using assms(4) by simp
    from less [OF this] have "P (drop n xs)" .
    moreover have "length (take n xs) = n" using False by simp
    ultimately have "P (take n xs @ drop n xs)" by (intro assms(3))
    then show ?thesis by simp
  qed
qed

lemma length_base64url_encode:
  "length (base64url_encode b) = 4 * (length b div 3) + (if length b mod 3 = 0 then 0 else length b mod 3 + 1)"
proof (induction b rule: chunk_induct [where n = 3])
  case (Last c)
  then have "length c = 1 \<or> length c = 2 \<or> length c = 3" by (cases "length c") auto
  with Last show ?case by (auto simp: base64url_encode_chunk length_encode_chunk)
next
  case (Step c r)
  moreover have "(3 + k) div 3 = Suc (k div 3)" for k :: nat by simp
  ultimately show ?case
    by (cases "c = []") (simp_all add: base64url_encode_append length_encode_chunk)
qed simp_all

lemma decode_chunks_encode: "decode_chunks64 out (slice_chunks 4 (base64url_encode b)) = Inr (out @ b)"
proof (induction b arbitrary: out rule: chunk_induct [where n = 3])
  case (Last c)
  then have "encode_chunk c \<noteq> []" "length (encode_chunk c) \<le> 4"
    using length_encode_chunk [of c] by auto
  with Last show ?case
    by (simp add: base64url_encode_chunk slice_chunks_last decode_encode_chunk)
next
  case (Step c r)
  then have "c \<noteq> []" by auto
  moreover from this Step have "length (encode_chunk c) = 4"
    using length_encode_chunk [of c] by auto
  ultimately show ?case
    using Step by (simp add: base64url_encode_append slice_chunks_append decode_encode_chunk)
qed simp_all

lemma decode_chunks_sound:
  "decode_chunks64 out (slice_chunks 4 t) = Inr b \<Longrightarrow> \<exists>b'. b = out @ b' \<and> base64url_encode b' = t"
proof (induction t arbitrary: out rule: chunk_induct [where n = 4])
  case (Last t)
  then obtain b' where b': "decode_chunk64 t = Inr b'" "b = out @ b'"
    by (auto simp: slice_chunks_last)
  from encode_decode_chunk [OF this(1)] b' show ?case
    by (auto simp: base64url_encode_chunk)
next
  case (Step t r)
  then obtain b' where b': "decode_chunk64 t = Inr b'" "decode_chunks64 (out @ b') (slice_chunks 4 r) = Inr b"
    by (auto simp: slice_chunks_append)
  from Step.IH [OF this(2)] obtain c where "b = (out @ b') @ c" "base64url_encode c = r" by auto
  with encode_decode_chunk [OF b'(1)] Step.hyps show ?case
    by (intro exI [of _ "b' @ c"]) (auto simp: base64url_encode_append)
qed simp_all

theorem base64url_exact:
  "base64url_decode t m = Inr b \<longleftrightarrow> t = base64url_encode b \<and> length b \<le> m"
proof -
  have len: "length t mod 4 \<noteq> 1 \<and>
      length t div 4 * 3 + (if length t mod 4 = 0 then 0 else if length t mod 4 = 2 then 1 else 2) = length b"
    if "t = base64url_encode b"
  proof -
    have arith: "l mod 4 \<noteq> 1 \<and> l div 4 * 3 + (if l mod 4 = 0 then 0 else if l mod 4 = 2 then 1 else 2) = k"
      if "l = 4 * (k div 3) + (if k mod 3 = 0 then 0 else k mod 3 + 1)" for k l :: nat
    proof -
      define q where "q = k div 3"
      have k: "k = q * 3 + k mod 3" unfolding q_def by (rule div_mult_mod_eq [symmetric])
      have m: "(c + q * 4) mod 4 = c \<and> (c + q * 4) div 4 = q" if "c < 4" for c
        using that by simp
      consider "k mod 3 = 0" | "k mod 3 = 1" | "k mod 3 = 2" by linarith
      then show ?thesis
      proof cases
        case 1
        with that have "l = 0 + q * 4" by (simp add: q_def)
        with m [of 0] k 1 show ?thesis by (simp only:) simp
      next
        case 2
        with that have "l = 2 + q * 4" by (simp add: q_def)
        with m [of 2] k 2 show ?thesis by (simp only:) simp
      next
        case 3
        with that have "l = 3 + q * 4" by (simp add: q_def)
        with m [of 3] k 3 show ?thesis by (simp only:) simp
      qed
    qed
    show ?thesis
      by (rule arith) (simp add: that length_base64url_encode)
  qed
  show ?thesis
  proof
    assume d: "base64url_decode t m = Inr b"
    then have "decode_chunks64 [] (slice_chunks 4 t) = Inr b"
      by (auto simp: base64url_decode_def Let_def split: if_splits)
    with decode_chunks_sound [of "[]" t b] have t: "t = base64url_encode b" by auto
    with d len [OF t] show "t = base64url_encode b \<and> length b \<le> m"
      by (auto simp: base64url_decode_def Let_def split: if_splits)
  next
    assume t: "t = base64url_encode b \<and> length b \<le> m"
    then have "decode_chunks64 [] (slice_chunks 4 t) = Inr b"
      using decode_chunks_encode [of "[]" b] by simp
    with t len show "base64url_decode t m = Inr b"
      unfolding base64url_decode_def Let_def by (metis not_less)
  qed
qed

text \<open>The alphabet is harmless in a shell: letters, digits, dash and underscore.\<close>

lemma BASE64URL_name_bytes: "list_all name_byte BASE64URL"
  by code_simp

lemma base64url_name_bytes: "list_all name_byte (base64url_encode b)"
proof -
  have n: "name_byte (BASE64URL ! unat (six k g))" for k g
  proof -
    have "unat (six k g) < length BASE64URL"
      using six_bound [of k g] by (simp add: word_less_nat_alt BASE64URL_def str_bytes_def)
    with BASE64URL_name_bytes show ?thesis by (simp add: list_all_length)
  qed
  have "list_all name_byte (encode_chunk c)" if "c \<noteq> []" "length c \<le> 3" for c
    using that by (cases rule: small_chunk) (simp_all add: encode_chunk_eq n)
  note chunk = this
  show ?thesis
  proof (induction b rule: chunk_induct [where n = 3])
    case (Step c r)
    then have "c \<noteq> []" "length c \<le> 3" by auto
    with Step chunk show ?case by (simp add: base64url_encode_append)
  qed (simp_all add: base64url_encode_chunk chunk)
qed

interpretation base64url_codec: exact_codec base64url_encode "\<lambda>t. base64url_decode t m" "\<lambda>b. length b \<le> m" for m
  by unfold_locales (simp_all add: base64url_exact)

end
