(* ===== verification/Eversh_Command.thy ===== *)
theory Eversh_Command
  imports Eversh_Base64 Ssh_Policy
begin

text \<open>
  The supervisor's command lines (\<open>crates/eversh/src/command.rs\<close>) and the private grammar they
  speak to the remote binary (\<open>role.rs\<close>). A path is its bytes, which \<open>to_str\<close> accepts when
  they are UTF-8; an argument vector is a list of byte strings. The grammar is an exact coding:
  the remote side reads back the operation that was asked for and nothing else parses, and the
  words survive the shells on their way.
\<close>

section \<open>Validated words\<close>

definition WORD_MAX :: usize where "WORD_MAX = 4096"
definition EVERPTY_ROLE :: bytes where "EVERPTY_ROLE = str_bytes ''__everpty''"
definition EVERSSH_ROLE :: bytes where "EVERSSH_ROLE = str_bytes ''__everssh''"
definition EVERUDP_ROLE :: bytes where "EVERUDP_ROLE = str_bytes ''__everudp''"
definition EVERPTY_ROLE_VERSION :: bytes where "EVERPTY_ROLE_VERSION = str_bytes ''v1''"

definition validate_bare_word :: "bytes \<Rightarrow> eversh_error + unit" where
  "validate_bare_word v =
     (if v = [] \<or> WORD_MAX < length v \<or> starts_with [0x2D] v \<or> starts_with [0x2E] v \<or> \<not> list_all name_byte v
      then Inl Ee_RemoteWordInvalid else Inr ())"

definition validate_absolute_word :: "bytes \<Rightarrow> eversh_error + unit" where
  "validate_absolute_word v =
     (if \<not> starts_with [0x2F] v \<or> WORD_MAX < length v \<or> \<not> list_all path_byte v
         \<or> list_ex bad_component (split_byte 0x2F (drop 1 v))
      then Inl Ee_RemoteWordInvalid else Inr ())"

definition validate_remote_eversh :: "bytes \<Rightarrow> eversh_error + unit" where
  "validate_remote_eversh v =
     (if starts_with [0x2F] v then validate_absolute_word v else validate_bare_word v)"

definition validate_self_exe :: "bytes \<Rightarrow> eversh_error + bytes" where
  "validate_self_exe path =
     (if \<not> utf8_valid path then Inl Ee_SelfExeUnsafe
      else if \<not> starts_with [0x2F] path \<or> WORD_MAX < length path
         \<or> list_ex (\<lambda>c. char_is_control c \<or> c = 0x27 \<or> c = 0x25) (utf8_chars path)
      then Inl Ee_SelfExeUnsafe else Inr path)"

definition parse_udp_port_range :: "bytes \<Rightarrow> eversh_error + udp_port_range" where
  "parse_udp_port_range s =
     map_err (\<lambda>e. case e of Se_InvalidUdpPolicy v \<Rightarrow> Ee_UdpPortRangeInvalid v | _ \<Rightarrow> Ee_LimitsInvalid)
       (range_parse s default_ssh_limits)"

definition quote_single :: "bytes \<Rightarrow> eversh_error + bytes" where
  "quote_single w =
     (if list_ex (\<lambda>c. char_is_control c \<or> c = 0x27) (utf8_chars w) then Inl Ee_SelfExeUnsafe
      else Inr (0x27 # w @ [0x27]))"

definition audit_ssh_option :: "bytes \<Rightarrow> eversh_error + unit" where
  "audit_ssh_option opt =
     try_bind (map_err (\<lambda>_. Ee_SshOptionRejected) (validate_option opt)) (\<lambda>_.
     if 0x27 \<in> set opt then Inl Ee_SshOptionRejected else Inr ())"

definition safe_status_word :: "bytes \<Rightarrow> bool" where
  "safe_status_word s \<longleftrightarrow>
     length s \<le> WORD_MAX \<and> \<not> list_ex (\<lambda>c. char_is_control c \<or> c = 0x27 \<or> c = 0x25) (utf8_chars s)"

definition status_word_safe :: "bytes \<Rightarrow> bool" where
  "status_word_safe path \<longleftrightarrow> utf8_valid path \<and> safe_status_word path"

section \<open>The ProxyCommand\<close>

fun push_ssh_options :: "bytes \<Rightarrow> bytes list \<Rightarrow> eversh_error + bytes" where
  "push_ssh_options command [] = Inr command"
| "push_ssh_options command (opt # opts) =
     try_bind (audit_ssh_option opt) (\<lambda>_.
     try_bind (quote_single opt) (\<lambda>q.
     push_ssh_options (command @ str_bytes '' --ssh-option '' @ q) opts))"

definition proxy_command ::
  "bytes \<Rightarrow> bytes \<Rightarrow> bytes list \<Rightarrow> bytes option \<Rightarrow> udp_port_range option \<Rightarrow> eversh_error + bytes" where
  "proxy_command self_exe remote_eversh ssh_options status_file udp_range =
     try_bind (validate_remote_eversh remote_eversh) (\<lambda>_.
     try_bind (quote_single self_exe) (\<lambda>command.
     try_bind (quote_single remote_eversh) (\<lambda>q.
     let command = command @ [0x20] @ EVERSSH_ROLE @ str_bytes '' ssh-proxy '' @ [0x27] @ str_bytes ''%n'' @ [0x27, 0x20, 0x27]
       @ str_bytes ''%p'' @ [0x27] @ str_bytes '' --remote-eversh '' @ q
     in
     try_bind (push_ssh_options command ssh_options) (\<lambda>command.
     try_bind
       (case udp_range of
          None \<Rightarrow> Inr command
        | Some r \<Rightarrow> try_bind (quote_single (range_text r)) (\<lambda>q. Inr (command @ [0x20] @ UDP_PORT_RANGE_OPTION @ [0x20] @ q)))
       (\<lambda>command.
     case status_file of
       None \<Rightarrow> Inr command
     | Some path \<Rightarrow>
         if \<not> utf8_valid path then Inl Ee_StatusPathUnsafe
         else if \<not> safe_status_word path then Inl Ee_StatusPathUnsafe
         else try_bind (quote_single path) (\<lambda>q. Inr (command @ str_bytes '' --status-file '' @ q)))))))"

section \<open>Remote operations\<close>

datatype remote_op =
    Rop_AttachOrCreate bytes control_call
  | Rop_Attach bytes control_call
  | Rop_Observe bytes
  | Rop_List bool "bytes option"
  | Rop_Probe bytes
  | Rop_Detach bytes
  | Rop_Kill bytes

fun rop_interactive :: "remote_op \<Rightarrow> bool" where
  "rop_interactive (Rop_AttachOrCreate n r) = True"
| "rop_interactive (Rop_Attach n r) = True"
| "rop_interactive _ = False"

definition checked_name :: "bytes \<Rightarrow> eversh_limits \<Rightarrow> eversh_error + bytes" where
  "checked_name s limits = (if valid_session_name s limits then Inr s else Inl Ee_NameInvalid)"

definition named_request :: "string \<Rightarrow> bytes \<Rightarrow> control_call \<Rightarrow> eversh_limits \<Rightarrow> eversh_error + bytes list" where
  "named_request verb s r limits =
     try_bind (checked_name s limits) (\<lambda>s.
     try_bind (encode_control_request r limits) (\<lambda>wire.
     Inr [str_bytes verb, s, base64url_encode wire]))"

definition named_word :: "string \<Rightarrow> bytes \<Rightarrow> eversh_limits \<Rightarrow> eversh_error + bytes list" where
  "named_word verb s limits = try_bind (checked_name s limits) (\<lambda>s. Inr [str_bytes verb, s])"

fun op_words :: "remote_op \<Rightarrow> eversh_limits \<Rightarrow> eversh_error + bytes list" where
  "op_words (Rop_AttachOrCreate s r) limits = named_request ''attach-or-create'' s r limits"
| "op_words (Rop_Attach s r) limits = named_request ''attach'' s r limits"
| "op_words (Rop_Observe s) limits = named_word ''observe'' s limits"
| "op_words (Rop_List json origin) limits =
     (let format = str_bytes (if json then ''json'' else ''text'') in
      case origin of
        None \<Rightarrow> Inr [str_bytes ''list'', format]
      | Some label \<Rightarrow>
          try_bind (validate_origin_label label limits) (\<lambda>_.
          Inr [str_bytes ''list'', format, base64url_encode label]))"
| "op_words (Rop_Probe s) limits = named_word ''probe'' s limits"
| "op_words (Rop_Detach s) limits = named_word ''detach'' s limits"
| "op_words (Rop_Kill s) limits = named_word ''kill'' s limits"

definition remote_words :: "bytes \<Rightarrow> remote_op \<Rightarrow> eversh_limits \<Rightarrow> eversh_error + bytes list" where
  "remote_words remote_eversh op limits =
     try_bind (validate_remote_eversh remote_eversh) (\<lambda>_.
     try_bind (op_words op limits) (\<lambda>ws.
     Inr (remote_eversh # EVERPTY_ROLE # EVERPTY_ROLE_VERSION # ws)))"

section \<open>Argument vectors\<close>

fun push_audited :: "bytes list \<Rightarrow> bytes list \<Rightarrow> (bytes \<Rightarrow> bytes list) \<Rightarrow> eversh_error + bytes list" where
  "push_audited args [] words = Inr args"
| "push_audited args (opt # opts) words =
     try_bind (audit_ssh_option opt) (\<lambda>_. push_audited (args @ words opt) opts words)"

definition outer_ssh_args ::
  "bytes \<Rightarrow> bytes list \<Rightarrow> bytes \<Rightarrow> bytes list \<Rightarrow> bool \<Rightarrow> eversh_error + bytes list" where
  "outer_ssh_args proxy ssh_options host remote interactive =
     try_bind (validate_host host) (\<lambda>_.
     try_bind (push_audited [str_bytes ''-o'', str_bytes ''ProxyCommand='' @ proxy] ssh_options (\<lambda>opt. [opt])) (\<lambda>args.
     Inr (args @ (if interactive then [str_bytes ''-t''] else []) @ [str_bytes ''--'', host] @ remote)))"

fun split_raw_tokens :: "bytes list \<Rightarrow> bytes list \<times> bytes list" where
  "split_raw_tokens [] = ([], [])"
| "split_raw_tokens (t # ts) =
     (if t = str_bytes ''--'' then ([], ts)
      else case split_raw_tokens ts of (a, b) \<Rightarrow> (t # a, b))"

datatype everudp_op = Eop_Connect bytes bool "bytes list" | Eop_Attach bytes bool | Eop_Observe bytes

definition everudp_launch_args ::
  "bytes \<Rightarrow> bytes \<Rightarrow> bytes \<Rightarrow> everudp_op \<Rightarrow> bytes list \<Rightarrow> bytes option \<Rightarrow> udp_port_range option \<Rightarrow> eversh_limits
   \<Rightarrow> eversh_error + bytes list" where
  "everudp_launch_args self_exe remote_eversh host operation ssh_options status_file udp_range limits =
     try_bind (validate_self_exe self_exe) (\<lambda>_.
     try_bind (validate_remote_eversh remote_eversh) (\<lambda>_.
     try_bind (validate_host host) (\<lambda>_.
     if (case status_file of Some path \<Rightarrow> \<not> status_word_safe path | None \<Rightarrow> False) then Inl Ee_StatusPathUnsafe
     else
       let (verb, s, take_over, argv) =
         (case operation of
            Eop_Connect s take_over argv \<Rightarrow> (str_bytes ''connect'', s, take_over, Some argv)
          | Eop_Attach s take_over \<Rightarrow> (str_bytes ''attach'', s, take_over, None)
          | Eop_Observe s \<Rightarrow> (str_bytes ''observe'', s, False, None))
       in
       try_bind (checked_name s limits) (\<lambda>s.
       let args = [EVERUDP_ROLE, str_bytes ''--remote-program'', remote_eversh]
         @ (case udp_range of Some r \<Rightarrow> [UDP_PORT_RANGE_OPTION, range_text r] | None \<Rightarrow> [])
         @ [verb, host] @ (if verb = str_bytes ''connect'' then [str_bytes ''--session''] else []) @ [s]
         @ (if take_over then [str_bytes ''--take-over''] else [])
         @ (case status_file of Some path \<Rightarrow> [str_bytes ''--status-file'', path] | None \<Rightarrow> [])
       in
       try_bind (push_audited args ssh_options (\<lambda>opt. [str_bytes ''--ssh-option'', opt])) (\<lambda>args.
       Inr (args @ (case argv of Some words \<Rightarrow> if words = [] then [] else str_bytes ''--'' # words | None \<Rightarrow> [])))))))"

definition audited_subset :: "bytes list \<Rightarrow> bytes list" where
  "audited_subset options = filter (\<lambda>opt. audit_ssh_option opt = Inr ()) options"

definition raw_ssh_args :: "bytes \<Rightarrow> bytes list \<Rightarrow> bytes \<Rightarrow> bytes list \<Rightarrow> eversh_error + bytes list" where
  "raw_ssh_args proxy pre_options host post_command =
     try_bind (validate_host host) (\<lambda>_.
     Inr ([str_bytes ''-o'', str_bytes ''ProxyCommand='' @ proxy] @ pre_options @ [str_bytes ''--'', host] @ post_command))"

definition kitty_launch_args ::
  "bytes option \<Rightarrow> bytes \<Rightarrow> bytes \<Rightarrow> bytes \<Rightarrow> bytes \<Rightarrow> bytes list \<Rightarrow> udp_port_range option \<Rightarrow> eversh_limits
   \<Rightarrow> eversh_error + bytes list" where
  "kitty_launch_args listen_on self_exe host s transport ssh_options udp_range limits =
     try_bind (validate_host host) (\<lambda>_.
     try_bind (checked_name s limits) (\<lambda>s.
     if transport \<notin> set (map str_bytes [''everssh'', ''everudp'', ''auto'']) then Inl Ee_RemoteWordInvalid
     else
       push_audited
         ([str_bytes ''@''] @ (case listen_on of Some target \<Rightarrow> [str_bytes ''--to'', target] | None \<Rightarrow> [])
          @ [str_bytes ''launch'', str_bytes ''--type=tab'', str_bytes ''--tab-title'',
             str_bytes ''eversh '' @ host @ [0x20] @ s, str_bytes ''--'', self_exe]
          @ (case udp_range of Some r \<Rightarrow> [UDP_PORT_RANGE_OPTION, range_text r] | None \<Rightarrow> [])
          @ [str_bytes ''attach'', host, s, str_bytes ''--hold-on-error'']
          @ (if transport \<noteq> str_bytes ''everssh'' then [str_bytes ''--transport'', transport] else []))
         ssh_options (\<lambda>opt. [str_bytes ''--ssh-option'', opt])))"

section \<open>Roles\<close>

datatype process_role = Role_Supervisor | Role_Everpty | Role_Everssh | Role_Everudp

definition select_role :: "bytes list \<Rightarrow> process_role" where
  "select_role args =
     (case args of
        [] \<Rightarrow> Role_Supervisor
      | w # ws \<Rightarrow>
          if w = EVERPTY_ROLE then Role_Everpty else if w = EVERSSH_ROLE then Role_Everssh
          else if w = EVERUDP_ROLE then Role_Everudp else Role_Supervisor)"

datatype role_command =
    Rc_Exec "bytes list"
  | Rc_AttachOrCreate bytes control_call
  | Rc_Attach bytes control_call
  | Rc_Observe bytes
  | Rc_List bool "bytes option"
  | Rc_Probe bytes
  | Rc_Detach bytes
  | Rc_Kill bytes

definition arg_at :: "'a list \<Rightarrow> nat \<Rightarrow> 'a option" where
  "arg_at xs i = (if i < length xs then Some (xs ! i) else None)"

definition parsed_name :: "bytes option \<Rightarrow> eversh_limits \<Rightarrow> eversh_error + bytes" where
  "parsed_name word limits =
     try_bind (ok_or (Ee_RoleProtocol ''missing session name'') word) (\<lambda>s.
     if \<not> valid_session_name s limits then Inl Ee_NameInvalid else Inr s)"

definition parsed_request :: "bytes option \<Rightarrow> eversh_limits \<Rightarrow> eversh_error + control_call" where
  "parsed_request word limits =
     try_bind (ok_or (Ee_RoleProtocol ''missing request token'') word) (\<lambda>token.
     try_bind (base64url_decode token (remote_control_max limits)) (\<lambda>b. decode_control_request b limits))"

definition exactly :: "'a list \<Rightarrow> nat \<Rightarrow> eversh_error + unit" where
  "exactly args n = (if length args = n then Inr () else Inl (Ee_RoleProtocol ''wrong argument count''))"

definition parse_exec :: "bytes list \<Rightarrow> eversh_limits \<Rightarrow> eversh_error + role_command" where
  "parse_exec rest limits =
     try_bind (exactly rest 2) (\<lambda>_.
     try_bind (base64url_decode (rest ! 1) (remote_control_max limits)) (\<lambda>b.
     try_bind (decode_remote_request b limits) (\<lambda>r.
     if rr_args r = [] \<or> rr_args r ! 0 = [] then Inl (Ee_RoleProtocol ''invalid one-shot command'')
     else Inr (Rc_Exec (rr_args r)))))"

definition parse_with_request ::
  "(bytes \<Rightarrow> control_call \<Rightarrow> role_command) \<Rightarrow> bytes list \<Rightarrow> eversh_limits \<Rightarrow> eversh_error + role_command" where
  "parse_with_request c rest limits =
     try_bind (exactly rest 3) (\<lambda>_.
     try_bind (parsed_name (arg_at rest 1) limits) (\<lambda>s.
     try_bind (parsed_request (arg_at rest 2) limits) (\<lambda>r. Inr (c s r))))"

definition parse_with_name ::
  "(bytes \<Rightarrow> role_command) \<Rightarrow> bytes list \<Rightarrow> eversh_limits \<Rightarrow> eversh_error + role_command" where
  "parse_with_name c rest limits =
     try_bind (exactly rest 2) (\<lambda>_. try_bind (parsed_name (arg_at rest 1) limits) (\<lambda>s. Inr (c s)))"

definition parse_list :: "bytes list \<Rightarrow> eversh_limits \<Rightarrow> eversh_error + role_command" where
  "parse_list rest limits =
     (if length rest \<noteq> 2 \<and> length rest \<noteq> 3 then Inl (Ee_RoleProtocol ''wrong argument count'')
      else
        try_bind
          (if arg_at rest 1 = Some (str_bytes ''json'') then Inr True
           else if arg_at rest 1 = Some (str_bytes ''text'') then Inr False
           else Inl (Ee_RoleProtocol ''unknown list format'')) (\<lambda>json.
        try_bind
          (case arg_at rest 2 of
             None \<Rightarrow> Inr None
           | Some token \<Rightarrow>
               try_bind (base64url_decode token (origin_label_max limits)) (\<lambda>label.
               if \<not> utf8_valid label then Inl Ee_OriginInvalid
               else try_bind (validate_origin_label label limits) (\<lambda>_. Inr (Some label)))) (\<lambda>origin.
        Inr (Rc_List json origin))))"

definition parse_everpty_role :: "bytes list \<Rightarrow> eversh_limits \<Rightarrow> eversh_error + role_command" where
  "parse_everpty_role args limits =
     (if arg_at args 0 \<noteq> Some EVERPTY_ROLE_VERSION then Inl Ee_RoleVersionUnsupported
      else
        let rest = drop 1 args in
        case rest of
          [] \<Rightarrow> Inl (Ee_RoleProtocol ''missing operation'')
        | verb # _ \<Rightarrow>
            if verb = str_bytes ''exec'' then parse_exec rest limits
            else if verb = str_bytes ''attach-or-create'' then parse_with_request Rc_AttachOrCreate rest limits
            else if verb = str_bytes ''attach'' then parse_with_request Rc_Attach rest limits
            else if verb = str_bytes ''observe'' then parse_with_name Rc_Observe rest limits
            else if verb = str_bytes ''list'' then parse_list rest limits
            else if verb = str_bytes ''probe'' then parse_with_name Rc_Probe rest limits
            else if verb = str_bytes ''detach'' then parse_with_name Rc_Detach rest limits
            else if verb = str_bytes ''kill'' then parse_with_name Rc_Kill rest limits
            else Inl (Ee_RoleProtocol ''unknown operation''))"

section \<open>The grammar is an exact coding\<close>

text \<open>The words of a command and the commands that have words.\<close>

fun role_words :: "role_command \<Rightarrow> bytes list" where
  "role_words (Rc_Exec argv) =
     [str_bytes ''exec'', base64url_encode (remote_bytes \<lparr>rr_version = REQUEST_VERSION, rr_args = argv\<rparr>)]"
| "role_words (Rc_AttachOrCreate s r) = [str_bytes ''attach-or-create'', s, base64url_encode (control_bytes r)]"
| "role_words (Rc_Attach s r) = [str_bytes ''attach'', s, base64url_encode (control_bytes r)]"
| "role_words (Rc_Observe s) = [str_bytes ''observe'', s]"
| "role_words (Rc_List json origin) =
     [str_bytes ''list'', str_bytes (if json then ''json'' else ''text'')]
     @ (case origin of None \<Rightarrow> [] | Some l \<Rightarrow> [base64url_encode l])"
| "role_words (Rc_Probe s) = [str_bytes ''probe'', s]"
| "role_words (Rc_Detach s) = [str_bytes ''detach'', s]"
| "role_words (Rc_Kill s) = [str_bytes ''kill'', s]"

fun role_ok :: "eversh_limits \<Rightarrow> role_command \<Rightarrow> bool" where
  "role_ok limits (Rc_Exec argv) \<longleftrightarrow>
     remote_ok limits \<lparr>rr_version = REQUEST_VERSION, rr_args = argv\<rparr> \<and> argv \<noteq> [] \<and> argv ! 0 \<noteq> []"
| "role_ok limits (Rc_AttachOrCreate s r) \<longleftrightarrow> valid_session_name s limits \<and> control_ok limits r"
| "role_ok limits (Rc_Attach s r) \<longleftrightarrow> valid_session_name s limits \<and> control_ok limits r"
| "role_ok limits (Rc_Observe s) \<longleftrightarrow> valid_session_name s limits"
| "role_ok limits (Rc_List json origin) \<longleftrightarrow> (case origin of None \<Rightarrow> True | Some l \<Rightarrow> origin_ok limits l)"
| "role_ok limits (Rc_Probe s) \<longleftrightarrow> valid_session_name s limits"
| "role_ok limits (Rc_Detach s) \<longleftrightarrow> valid_session_name s limits"
| "role_ok limits (Rc_Kill s) \<longleftrightarrow> valid_session_name s limits"

lemma parsed_name_iff [simp]: "parsed_name w limits = Inr s \<longleftrightarrow> w = Some s \<and> valid_session_name s limits"
  by (auto simp: parsed_name_def)

lemma exactly_iff [simp]: "exactly xs n = Inr u \<longleftrightarrow> length xs = n"
  by (simp add: exactly_def)

lemma control_ok_size: "control_ok limits r \<Longrightarrow> length (control_bytes r) \<le> remote_control_max limits"
  by (simp add: control_ok_def)

lemma parsed_request_iff:
  assumes "wire_limits limits"
  shows "parsed_request w limits = Inr r \<longleftrightarrow> control_ok limits r \<and> w = Some (base64url_encode (control_bytes r))"
proof -
  have "decode_control_request b limits = Inr r \<longleftrightarrow> control_ok limits r \<and> b = control_bytes r" for b
    using decode_control_complete [OF assms] decode_control_sound by blast
  then show ?thesis
    using control_ok_size by (auto simp: parsed_request_def base64url_exact)
qed

lemma words_2: "length ws = 2 \<and> arg_at ws 1 = Some s \<longleftrightarrow> ws = [ws ! 0, s]"
  by (cases ws; cases "tl ws") (auto simp: arg_at_def)

lemma words_3: "length ws = 3 \<and> arg_at ws 1 = Some s \<and> arg_at ws 2 = Some t \<longleftrightarrow> ws = [ws ! 0, s, t]"
  by (cases ws; cases "tl ws"; cases "tl (tl ws)") (auto simp: arg_at_def)

lemma parse_with_name_iff:
  "parse_with_name c (v # ws) limits = Inr k \<longleftrightarrow> (\<exists>s. valid_session_name s limits \<and> ws = [s] \<and> k = c s)"
  using words_2 [of "v # ws"] by (auto simp: parse_with_name_def)

lemma parse_with_request_iff:
  "wire_limits limits \<Longrightarrow> parse_with_request c (v # ws) limits = Inr k \<longleftrightarrow>
   (\<exists>s r. valid_session_name s limits \<and> control_ok limits r \<and> ws = [s, base64url_encode (control_bytes r)] \<and> k = c s r)"
  using words_3 [of "v # ws"] by (auto simp: parse_with_request_def parsed_request_iff)

lemma parse_exec_iff:
  assumes "wire_limits limits"
  shows "parse_exec (v # ws) limits = Inr k \<longleftrightarrow>
    (\<exists>argv. role_ok limits (Rc_Exec argv) \<and> k = Rc_Exec argv \<and> v # ws = v # tl (role_words (Rc_Exec argv)))"
proof -
  have d: "decode_remote_request b limits = Inr r \<longleftrightarrow> remote_ok limits r \<and> b = remote_bytes r" for b r
    using decode_remote_complete [OF assms] decode_remote_sound by blast
  have r: "remote_ok limits r \<Longrightarrow> r = \<lparr>rr_version = REQUEST_VERSION, rr_args = rr_args r\<rparr>
      \<and> length (remote_bytes r) \<le> remote_control_max limits" for r
    by (simp add: remote_ok_def)
  show ?thesis
  proof
    assume "parse_exec (v # ws) limits = Inr k"
    then obtain w b rq where "ws = [w]" "w = base64url_encode b" "remote_ok limits rq" "b = remote_bytes rq"
      "rr_args rq \<noteq> []" "rr_args rq ! 0 \<noteq> []" "k = Rc_Exec (rr_args rq)"
      by (cases ws) (auto simp: parse_exec_def base64url_exact d split: if_splits)
    with r [of rq] show "\<exists>argv. role_ok limits (Rc_Exec argv) \<and> k = Rc_Exec argv \<and> v # ws = v # tl (role_words (Rc_Exec argv))"
      by (intro exI [of _ "rr_args rq"]) (metis list.sel(3) role_ok.simps(1) role_words.simps(1))
  next
    assume "\<exists>argv. role_ok limits (Rc_Exec argv) \<and> k = Rc_Exec argv \<and> v # ws = v # tl (role_words (Rc_Exec argv))"
    then obtain argv where a: "role_ok limits (Rc_Exec argv)" "k = Rc_Exec argv"
      "ws = [base64url_encode (remote_bytes \<lparr>rr_version = REQUEST_VERSION, rr_args = argv\<rparr>)]" by auto
    define rq where "rq = \<lparr>rr_version = REQUEST_VERSION, rr_args = argv\<rparr>"
    have "decode_remote_request (remote_bytes rq) limits = Inr rq"
      "base64url_decode (base64url_encode (remote_bytes rq)) (remote_control_max limits) = Inr (remote_bytes rq)"
      using a(1) r [of rq] by (simp_all add: d base64url_exact rq_def)
    with a show "parse_exec (v # ws) limits = Inr k"
      by (simp add: parse_exec_def flip: rq_def) (simp add: rq_def)
  qed
qed

lemma list_words: "str_bytes ''json'' \<noteq> str_bytes ''text''"
  by (simp add: str_bytes_def)

lemma list_format_iff:
  "(if f = Some (str_bytes ''json'') then Inr True
    else if f = Some (str_bytes ''text'') then Inr False
    else Inl (Ee_RoleProtocol ''unknown list format'')) = Inr json
   \<longleftrightarrow> f = Some (str_bytes (if json then ''json'' else ''text''))"
  using list_words by (cases json) auto

lemma list_origin_iff:
  "(case token of
      None \<Rightarrow> Inr None
    | Some t \<Rightarrow>
        try_bind (base64url_decode t (origin_label_max limits)) (\<lambda>label.
        if \<not> utf8_valid label then Inl Ee_OriginInvalid
        else try_bind (validate_origin_label label limits) (\<lambda>_. Inr (Some label)))) = Inr origin
   \<longleftrightarrow> (case origin of None \<Rightarrow> token = None | Some l \<Rightarrow> origin_ok limits l \<and> token = Some (base64url_encode l))"
proof -
  have "origin_ok limits l \<Longrightarrow> length l \<le> origin_label_max limits \<and> utf8_valid l" for l
    by (simp add: origin_ok_def label_utf8)
  then show ?thesis
    by (cases token; cases origin) (auto simp: base64url_exact)
qed

lemma parse_list_iff:
  "parse_list (v # ws) limits = Inr k \<longleftrightarrow>
   (\<exists>json origin. role_ok limits (Rc_List json origin) \<and> k = Rc_List json origin
      \<and> ws = tl (role_words (Rc_List json origin)))" (is "?lhs \<longleftrightarrow> ?rhs")
proof -
  have "?lhs \<longleftrightarrow> (length ws = 1 \<or> length ws = 2) \<and> (\<exists>json origin.
      arg_at (v # ws) 1 = Some (str_bytes (if json then ''json'' else ''text''))
      \<and> (case origin of None \<Rightarrow> arg_at (v # ws) 2 = None
         | Some l \<Rightarrow> origin_ok limits l \<and> arg_at (v # ws) 2 = Some (base64url_encode l))
      \<and> k = Rc_List json origin)"
  proof (cases "length ws = 1 \<or> length ws = 2")
    case True
    then have n: "\<not> (length (v # ws) \<noteq> 2 \<and> length (v # ws) \<noteq> 3)" by auto
    from True show ?thesis
      unfolding parse_list_def if_not_P [OF n] by (simp only: try_bind_eq_Inr list_format_iff list_origin_iff sum.inject) blast
  next
    case False
    then show ?thesis by (simp add: parse_list_def)
  qed
  also have "\<dots> \<longleftrightarrow> ?rhs"
  proof (cases "length ws = 1")
    case True
    then obtain f where "ws = [f]" by (auto simp: length_Suc_conv)
    then show ?thesis by (auto simp: arg_at_def split: option.splits)
  next
    case False
    show ?thesis
    proof (cases "length ws = 2")
      case True
      then obtain f t where "ws = [f, t]" by (auto simp: numeral_2_eq_2 length_Suc_conv)
      then show ?thesis by (auto simp: arg_at_def split: option.splits)
    qed (use False in \<open>auto split: option.splits\<close>)
  qed
  finally show ?thesis .
qed

lemma of_char_byte: "unat (of_char c :: u8) = (of_char c :: nat)"
  by (cases c) simp

lemma str_bytes_inj: "str_bytes a = str_bytes b \<longleftrightarrow> a = b"
proof -
  have "inj (of_char :: char \<Rightarrow> u8)"
    by (rule injI) (metis of_char_byte of_char_eq_iff)
  then show ?thesis
    unfolding str_bytes_def by (simp add: inj_map_eq_map)
qed

theorem parse_everpty_role_iff:
  assumes "wire_limits limits"
  shows "parse_everpty_role args limits = Inr k \<longleftrightarrow> role_ok limits k \<and> args = EVERPTY_ROLE_VERSION # role_words k"
proof
  assume p: "parse_everpty_role args limits = Inr k"
  then obtain v ws where args: "args = EVERPTY_ROLE_VERSION # v # ws"
    by (cases args; cases "tl args") (auto simp: parse_everpty_role_def arg_at_def split: if_splits)
  from p have "(if v = str_bytes ''exec'' then parse_exec (v # ws) limits
      else if v = str_bytes ''attach-or-create'' then parse_with_request Rc_AttachOrCreate (v # ws) limits
      else if v = str_bytes ''attach'' then parse_with_request Rc_Attach (v # ws) limits
      else if v = str_bytes ''observe'' then parse_with_name Rc_Observe (v # ws) limits
      else if v = str_bytes ''list'' then parse_list (v # ws) limits
      else if v = str_bytes ''probe'' then parse_with_name Rc_Probe (v # ws) limits
      else if v = str_bytes ''detach'' then parse_with_name Rc_Detach (v # ws) limits
      else if v = str_bytes ''kill'' then parse_with_name Rc_Kill (v # ws) limits
      else Inl (Ee_RoleProtocol ''unknown operation'')) = Inr k"
    by (simp add: parse_everpty_role_def arg_at_def args Let_def del: if_split)
  then show "role_ok limits k \<and> args = EVERPTY_ROLE_VERSION # role_words k"
    unfolding args
    by (simp add: parse_with_name_iff parse_with_request_iff [OF assms] parse_exec_iff [OF assms]
        parse_list_iff split: if_split_asm) auto
next
  assume k: "role_ok limits k \<and> args = EVERPTY_ROLE_VERSION # role_words k"
  then show "parse_everpty_role args limits = Inr k"
  proof (cases k)
    case (Rc_Exec argv)
    with k show ?thesis
      using parse_exec_iff [OF assms, of "str_bytes ''exec''" "tl (role_words k)" k]
      by (simp add: parse_everpty_role_def arg_at_def Let_def)
  next
    case (Rc_List json origin)
    with k have "parse_list (str_bytes ''list'' # tl (role_words k)) limits = Inr k"
      unfolding parse_list_iff by blast
    with Rc_List k show ?thesis
      by (simp add: parse_everpty_role_def arg_at_def Let_def str_bytes_inj)
  qed (use k in \<open>simp_all add: parse_everpty_role_def arg_at_def Let_def str_bytes_inj
      parse_with_name_iff parse_with_request_iff [OF assms]\<close>)
qed

section \<open>From the supervisor to the remote role\<close>

fun role_of_op :: "remote_op \<Rightarrow> role_command" where
  "role_of_op (Rop_AttachOrCreate s r) = Rc_AttachOrCreate s r"
| "role_of_op (Rop_Attach s r) = Rc_Attach s r"
| "role_of_op (Rop_Observe s) = Rc_Observe s"
| "role_of_op (Rop_List json origin) = Rc_List json origin"
| "role_of_op (Rop_Probe s) = Rc_Probe s"
| "role_of_op (Rop_Detach s) = Rc_Detach s"
| "role_of_op (Rop_Kill s) = Rc_Kill s"

lemma checked_name_iff [simp]: "checked_name s limits = Inr t \<longleftrightarrow> valid_session_name s limits \<and> t = s"
  by (auto simp: checked_name_def)

lemma op_words_iff: "op_words op limits = Inr ws \<longleftrightarrow> role_ok limits (role_of_op op) \<and> ws = role_words (role_of_op op)"
  by (cases op) (auto simp: named_request_def named_word_def encode_control_request_eq split: option.splits)

lemma session_name_word: "valid_session_name s limits \<Longrightarrow> command_word s"
  by (auto simp: valid_session_name_def command_word_def list_all_iff name_byte_path split: if_splits)

lemma base64_word: "b \<noteq> [] \<Longrightarrow> command_word (base64url_encode b)"
proof -
  assume "b \<noteq> []"
  then have "length (base64url_encode b) \<noteq> 0"
    unfolding length_base64url_encode by (cases "length b div 3 = 0") (auto simp: div_eq_0_iff)
  then show ?thesis
    using base64url_name_bytes [of b] by (auto simp: command_word_def list_all_iff name_byte_path)
qed

lemma role_words_inert: "role_ok limits (role_of_op op) \<Longrightarrow> list_all command_word (role_words (role_of_op op))"
proof -
  have lit: "list_all command_word (map str_bytes [''exec'', ''attach-or-create'', ''attach'', ''observe'', ''list'',
      ''json'', ''text'', ''probe'', ''detach'', ''kill''])"
    by code_simp
  have ne: "control_bytes r \<noteq> []" "origin_ok limits l \<Longrightarrow> l \<noteq> []" for r l
    by (simp_all add: control_bytes_cons origin_ok_def)
  assume "role_ok limits (role_of_op op)"
  then show ?thesis
    using lit ne by (cases op) (auto simp: session_name_word base64_word split: option.splits)
qed

lemma eversh_word: "validate_remote_eversh w = Inr () \<Longrightarrow> command_word w"
  by (auto simp: validate_remote_eversh_def validate_absolute_word_def validate_bare_word_def command_word_def
      starts_with_def list_all_iff name_byte_path split: if_splits)

lemma role_marker_words: "command_word EVERPTY_ROLE" "command_word EVERPTY_ROLE_VERSION"
  by code_simp+

text \<open>C33: What the supervisor asks is what the remote binary does: for every accepted operation the
  words it puts on the ssh command line, joined by spaces as ssh does and cut at spaces by the remote
  shell, select the everpty role and parse there as exactly that operation.\<close>

theorem remote_words_understood:
  assumes "wire_limits limits" "remote_words remote_eversh op limits = Inr words"
  shows "case split_byte 0x20 (join_words [0x20] words) of
      [] \<Rightarrow> False
    | program # args \<Rightarrow>
        program = remote_eversh \<and> select_role args = Role_Everpty
        \<and> parse_everpty_role (drop 1 args) limits = Inr (role_of_op op)"
proof -
  from assms(2) have v: "validate_remote_eversh remote_eversh = Inr ()" and ok: "role_ok limits (role_of_op op)"
    and words: "words = remote_eversh # EVERPTY_ROLE # EVERPTY_ROLE_VERSION # role_words (role_of_op op)"
    by (auto simp: remote_words_def op_words_iff)
  have "list_all (\<lambda>w. 0x20 \<notin> set w) words"
    using eversh_word [OF v] role_marker_words role_words_inert [OF ok]
    by (auto simp: words list_all_iff command_word_free)
  then have "split_byte 0x20 (join_words [0x20] words) = words"
    by (rule split_byte_join) (simp add: words)
  then show ?thesis
    using ok by (simp add: words select_role_def parse_everpty_role_iff [OF assms(1)])
qed

theorem remote_words_understood_witness:
  "wire_limits default_eversh_limits
   \<and> remote_words (str_bytes ''eversh'') (Rop_Probe (str_bytes ''main'')) default_eversh_limits
       = Inr (map str_bytes [''eversh'', ''__everpty'', ''v1'', ''probe'', ''main''])
   \<and> parse_everpty_role (drop 2 (split_byte 0x20 (join_words [0x20] (map str_bytes [''eversh'', ''__everpty'', ''v1'', ''probe'', ''main'']))))
       default_eversh_limits = Inr (Rc_Probe (str_bytes ''main''))"
proof -
  have w: "remote_words (str_bytes ''eversh'') (Rop_Probe (str_bytes ''main'')) default_eversh_limits
       = Inr (map str_bytes [''eversh'', ''__everpty'', ''v1'', ''probe'', ''main''])"
    by (simp add: remote_words_def named_word_def checked_name_def valid_session_name_def validate_remote_eversh_def
        validate_bare_word_def str_bytes_def starts_with_def WORD_MAX_def name_byte_def is_ascii_alphanumeric_def
        is_ascii_digit_def default_eversh_limits_def EVERPTY_ROLE_def EVERPTY_ROLE_VERSION_def)
  from remote_words_understood [OF default_wire_limits w] w show ?thesis
    by (auto simp: drop_Suc split: list.splits)
qed

section \<open>The ProxyCommand as the local shell reads it\<close>

text \<open>What a POSIX shell makes of a line of plain words and single-quoted text: \<open>sh_lex q cur s\<close> reads
  \<open>s\<close> inside quotes or not, with the word begun so far. An unquoted byte that could mean
  anything to the shell has no reading: outside quotes only the bytes of \<open>INERT_BYTES\<close> do.\<close>

fun sh_lex :: "bool \<Rightarrow> bytes option \<Rightarrow> bytes \<Rightarrow> bytes list option" where
  "sh_lex q cur [] = (if q then None else Some (case cur of None \<Rightarrow> [] | Some w \<Rightarrow> [w]))"
| "sh_lex True cur (c # cs) =
     (if c = 0x27 then sh_lex False cur cs
      else sh_lex True (Some ((case cur of None \<Rightarrow> [] | Some w \<Rightarrow> w) @ [c])) cs)"
| "sh_lex False cur (c # cs) =
     (if c = 0x20 then
        (case cur of None \<Rightarrow> sh_lex False None cs | Some w \<Rightarrow> map_option (\<lambda>ws. w # ws) (sh_lex False None cs))
      else if c = 0x27 then sh_lex True (Some (case cur of None \<Rightarrow> [] | Some w \<Rightarrow> w)) cs
      else if c \<in> set INERT_BYTES then sh_lex False (Some ((case cur of None \<Rightarrow> [] | Some w \<Rightarrow> w) @ [c])) cs
      else None)"

datatype sh_piece = Plain bytes | Quoted bytes

fun piece_text :: "sh_piece \<Rightarrow> bytes" where
  "piece_text (Plain w) = w"
| "piece_text (Quoted w) = 0x27 # w @ [0x27]"

fun piece_word :: "sh_piece \<Rightarrow> bytes" where
  "piece_word (Plain w) = w"
| "piece_word (Quoted w) = w"

fun piece_ok :: "sh_piece \<Rightarrow> bool" where
  "piece_ok (Plain w) = command_word w"
| "piece_ok (Quoted w) = (0x27 \<notin> set w)"

lemma path_byte_plain: "path_byte c \<Longrightarrow> c \<noteq> 0x20 \<and> c \<noteq> 0x27"
proof -
  have "\<not> path_byte 0x20" "\<not> path_byte 0x27" by code_simp+
  then show "path_byte c \<Longrightarrow> c \<noteq> 0x20 \<and> c \<noteq> 0x27" by auto
qed

lemma sh_lex_plain: "list_all path_byte w \<Longrightarrow> sh_lex False (Some v) (w @ s) = sh_lex False (Some (v @ w)) s"
  by (induction w arbitrary: v) (auto simp: path_byte_plain path_byte_inert)

lemma sh_lex_quoted: "0x27 \<notin> set w \<Longrightarrow> sh_lex True (Some v) (w @ 0x27 # s) = sh_lex False (Some (v @ w)) s"
  by (induction w arbitrary: v) auto

lemma sh_lex_piece: "piece_ok p \<Longrightarrow> sh_lex False None (piece_text p @ s) = sh_lex False (Some (piece_word p)) s"
proof (cases p)
  case (Plain w)
  assume "piece_ok p"
  with Plain obtain c cs where "w = c # cs" "path_byte c" "list_all path_byte cs"
    by (cases w) (auto simp: command_word_def)
  with Plain show ?thesis by (simp add: path_byte_plain path_byte_inert sh_lex_plain)
next
  case (Quoted w)
  assume "piece_ok p"
  with Quoted show ?thesis by (simp add: sh_lex_quoted)
qed

lemma sh_lex_pieces:
  "list_all piece_ok ps \<Longrightarrow> sh_lex False None (join_words [0x20] (map piece_text ps)) = Some (map piece_word ps)"
proof (induction ps rule: induct_list012)
  case (2 p)
  then show ?case using sh_lex_piece [of p "[]"] by simp
next
  case (3 p q ps)
  then show ?case using sh_lex_piece [of p "0x20 # join_words [0x20] (map piece_text (q # ps))"] by simp
qed simp

text \<open>An ASCII byte of valid UTF-8 is a character, so the quoting check on characters sees every
  quote.\<close>

lemma utf8_cont_high: "utf8_cont b \<Longrightarrow> 0x80 \<le> b"
  by (simp add: utf8_cont_def)

lemma utf8_second_high: "utf8_second a b \<Longrightarrow> 0x80 \<le> b"
  by (auto simp: utf8_second_def utf8_cont_def word_le_nat_alt split: if_splits)

lemma ascii_byte_is_char: "utf8_valid s \<Longrightarrow> c \<in> set s \<Longrightarrow> c < 0x80 \<Longrightarrow> unat c \<in> set (utf8_chars s)"
proof (induction s rule: utf8_chars.induct)
  case (2 a bs)
  have high: "0x80 \<le> b \<Longrightarrow> c \<noteq> b" for b using "2.prems"(3) by auto
  consider "a < 0x80" | "\<not> a < 0x80" "0xC2 \<le> a \<and> a \<le> 0xDF" | "\<not> a < 0x80" "\<not> (0xC2 \<le> a \<and> a \<le> 0xDF)" "0xE0 \<le> a \<and> a \<le> 0xEF"
    | "\<not> a < 0x80" "\<not> (0xC2 \<le> a \<and> a \<le> 0xDF)" "\<not> (0xE0 \<le> a \<and> a \<le> 0xEF)" "0xF0 \<le> a \<and> a \<le> 0xF4"
    using "2.prems"(1) by (auto split: if_splits)
  then show ?case
  proof cases
    case 1
    with 2 show ?thesis by auto
  next
    case 2
    then have "a < 0xE0" by (simp add: word_less_nat_alt word_le_nat_alt)
    moreover from 2 "2.prems" obtain b cs where "bs = b # cs" "utf8_cont b" "utf8_valid cs"
      by (auto split: list.splits)
    ultimately show ?thesis
      using 2 "2.prems" "2.IH"(2) [of b cs] high [of a] high [of b] by (auto simp: utf8_cont_high)
  next
    case 3
    then have "\<not> a < 0xE0" "a < 0xF0" by (simp_all add: word_less_nat_alt word_le_nat_alt)
    moreover from 3 "2.prems" obtain b c' ds where "bs = b # c' # ds" "utf8_second a b" "utf8_cont c'" "utf8_valid ds"
      by (auto split: list.splits)
    ultimately show ?thesis
      using 3 "2.prems" "2.IH"(3) [of b "c' # ds" c' ds] high [of a] high [of b] high [of c']
      by (auto simp: utf8_cont_high utf8_second_high)
  next
    case 4
    then have "\<not> a < 0xE0" "\<not> a < 0xF0" by (simp_all add: word_less_nat_alt word_le_nat_alt)
    moreover from 4 "2.prems" obtain b c' d es where "bs = b # c' # d # es" "utf8_second a b" "utf8_cont c'" "utf8_cont d" "utf8_valid es"
      by (auto split: list.splits)
    ultimately show ?thesis
      using 4 "2.prems" "2.IH"(4) [of b "c' # d # es" c' "d # es" d es] high [of a] high [of b] high [of c'] high [of d]
      by (auto simp: utf8_cont_high utf8_second_high)
  qed
qed simp

lemma quote_single_eq:
  "utf8_valid w \<Longrightarrow> quote_single w = Inr q \<Longrightarrow> q = piece_text (Quoted w) \<and> piece_ok (Quoted w)"
  using ascii_byte_is_char [of w "0x27"]
  by (auto simp: quote_single_def list_ex_iff char_is_control_def split: if_splits)

text \<open>The words of the line, quoted or plain, in order; the line as it is built has the tokens \<open>%n\<close> and
  \<open>%p\<close> for the destination and its port.\<close>

definition proxy_pieces ::
  "bytes \<Rightarrow> bytes \<Rightarrow> bytes \<Rightarrow> bytes \<Rightarrow> bytes list \<Rightarrow> bytes option \<Rightarrow> udp_port_range option \<Rightarrow> sh_piece list" where
  "proxy_pieces self_exe host port remote_eversh ssh_options status_file udp_range =
     [Quoted self_exe, Plain EVERSSH_ROLE, Plain (str_bytes ''ssh-proxy''), Quoted host, Quoted port,
      Plain (str_bytes ''--remote-eversh''), Quoted remote_eversh]
     @ concat (map (\<lambda>opt. [Plain (str_bytes ''--ssh-option''), Quoted opt]) ssh_options)
     @ (case udp_range of None \<Rightarrow> [] | Some r \<Rightarrow> [Plain UDP_PORT_RANGE_OPTION, Quoted (range_text r)])
     @ (case status_file of None \<Rightarrow> [] | Some path \<Rightarrow> [Plain (str_bytes ''--status-file''), Quoted path])"

lemma join_pieces_append:
  "ps \<noteq> [] \<Longrightarrow> join_words [0x20] (map piece_text (ps @ qs)) =
   join_words [0x20] (map piece_text ps) @ concat (map (\<lambda>p. 0x20 # piece_text p) qs)"
  using join_words_append [of "map piece_text ps" "[0x20]" "map piece_text qs"] by (simp add: comp_def)

lemma blank_literal: "str_bytes (CHR '' '' # s) = 0x20 # str_bytes s" "str_bytes (s @ '' '') = str_bytes s @ [0x20]"
  by (simp_all add: str_bytes_def)

lemma push_ssh_options_eq:
  "push_ssh_options command opts = Inr s \<Longrightarrow> list_all utf8_valid opts \<Longrightarrow>
   s = command @ concat (map (\<lambda>p. 0x20 # piece_text p) (concat (map (\<lambda>opt. [Plain (str_bytes ''--ssh-option''), Quoted opt]) opts)))
   \<and> list_all (\<lambda>opt. piece_ok (Quoted opt)) opts"
proof (induction opts arbitrary: command)
  case (Cons opt opts)
  from Cons.prems obtain q where q: "quote_single opt = Inr q"
    and rec: "push_ssh_options (command @ str_bytes '' --ssh-option '' @ q) opts = Inr s" by auto
  have "str_bytes '' --ssh-option '' = 0x20 # str_bytes ''--ssh-option'' @ [0x20]"
    by (simp add: str_bytes_def)
  with Cons.IH [OF rec] quote_single_eq [OF _ q] Cons.prems(2) show ?case by simp
qed simp

lemma proxy_literals:
  "str_bytes '' ssh-proxy '' = 0x20 # str_bytes ''ssh-proxy'' @ [0x20]"
  "str_bytes '' --remote-eversh '' = 0x20 # str_bytes ''--remote-eversh'' @ [0x20]"
  "str_bytes '' --status-file '' = 0x20 # str_bytes ''--status-file'' @ [0x20]"
  by (simp_all add: str_bytes_def)

lemma proxy_plain_words:
  "list_all command_word (EVERSSH_ROLE # UDP_PORT_RANGE_OPTION
     # map str_bytes [''ssh-proxy'', ''--remote-eversh'', ''--ssh-option'', ''--status-file''])"
  "0x27 \<notin> set (str_bytes ''%n'')" "0x27 \<notin> set (str_bytes ''%p'')"
  by code_simp+

lemma ascii_word_utf8: "command_word w \<Longrightarrow> utf8_valid w"
  by (rule ascii_utf8_valid)
    (auto simp: command_word_def list_all_iff path_byte_def dest: alphanumeric_ascii)

lemma range_text_utf8: "utf8_valid (range_text r)"
  using range_text_bytes(1) [of r]
  by (intro ascii_utf8_valid) (auto simp: list_all_iff path_byte_def dest: alphanumeric_ascii)

lemma proxy_command_pieces:
  assumes "utf8_valid self_exe" "list_all utf8_valid ssh_options"
    and "proxy_command self_exe remote_eversh ssh_options status_file udp_range = Inr s"
  shows "s = join_words [0x20] (map piece_text (proxy_pieces self_exe (str_bytes ''%n'') (str_bytes ''%p'') remote_eversh ssh_options status_file udp_range))
    \<and> list_all piece_ok (proxy_pieces self_exe (str_bytes ''%n'') (str_bytes ''%p'') remote_eversh ssh_options status_file udp_range)"
proof -
  have v: "validate_remote_eversh remote_eversh = Inr ()"
    using assms(3) by (cases "validate_remote_eversh remote_eversh") (simp_all add: proxy_command_def)
  from assms(3) obtain a b c d where a: "quote_single self_exe = Inr a" and b: "quote_single remote_eversh = Inr b"
    and c: "push_ssh_options (a @ [0x20] @ EVERSSH_ROLE @ str_bytes '' ssh-proxy '' @ [0x27] @ str_bytes ''%n'' @ [0x27, 0x20, 0x27]
       @ str_bytes ''%p'' @ [0x27] @ str_bytes '' --remote-eversh '' @ b) ssh_options = Inr c"
    and d: "(case udp_range of None \<Rightarrow> Inr c
        | Some r \<Rightarrow> try_bind (quote_single (range_text r)) (\<lambda>q. Inr (c @ [0x20] @ UDP_PORT_RANGE_OPTION @ [0x20] @ q))) = Inr d"
    and s: "(case status_file of None \<Rightarrow> Inr d
        | Some path \<Rightarrow> if \<not> utf8_valid path then Inl Ee_StatusPathUnsafe
            else if \<not> safe_status_word path then Inl Ee_StatusPathUnsafe
            else try_bind (quote_single path) (\<lambda>q. Inr (d @ str_bytes '' --status-file '' @ q))) = Inr s"
    unfolding proxy_command_def Let_def try_bind_eq_Inr by blast
  note a' = quote_single_eq [OF assms(1) a] and b' = quote_single_eq [OF ascii_word_utf8 [OF eversh_word [OF v]] b]
  note c' = push_ssh_options_eq [OF c assms(2)]
  have d': "d = c @ concat (map (\<lambda>p. 0x20 # piece_text p)
      (case udp_range of None \<Rightarrow> [] | Some r \<Rightarrow> [Plain UDP_PORT_RANGE_OPTION, Quoted (range_text r)]))
      \<and> list_all (\<lambda>r. piece_ok (Quoted (range_text r))) (case udp_range of None \<Rightarrow> [] | Some r \<Rightarrow> [r])"
    using d quote_single_eq [OF range_text_utf8] by (cases udp_range) fastforce+
  have s': "s = d @ concat (map (\<lambda>p. 0x20 # piece_text p)
      (case status_file of None \<Rightarrow> [] | Some path \<Rightarrow> [Plain (str_bytes ''--status-file''), Quoted path]))
      \<and> list_all (\<lambda>path. piece_ok (Quoted path)) (case status_file of None \<Rightarrow> [] | Some path \<Rightarrow> [path])"
    using s quote_single_eq by (cases status_file) (fastforce simp: proxy_literals split: if_splits)+
  have front: "join_words [0x20] (map piece_text (proxy_pieces self_exe (str_bytes ''%n'') (str_bytes ''%p'') remote_eversh ssh_options status_file udp_range))
      = a @ [0x20] @ EVERSSH_ROLE @ str_bytes '' ssh-proxy '' @ [0x27] @ str_bytes ''%n'' @ [0x27, 0x20, 0x27]
       @ str_bytes ''%p'' @ [0x27] @ str_bytes '' --remote-eversh '' @ b
       @ concat (map (\<lambda>p. 0x20 # piece_text p)
          (concat (map (\<lambda>opt. [Plain (str_bytes ''--ssh-option''), Quoted opt]) ssh_options)
           @ (case udp_range of None \<Rightarrow> [] | Some r \<Rightarrow> [Plain UDP_PORT_RANGE_OPTION, Quoted (range_text r)])
           @ (case status_file of None \<Rightarrow> [] | Some path \<Rightarrow> [Plain (str_bytes ''--status-file''), Quoted path])))"
    unfolding proxy_pieces_def by (subst join_pieces_append) (simp_all add: a' b' proxy_literals)
  show ?thesis
  proof
    show "s = join_words [0x20] (map piece_text (proxy_pieces self_exe (str_bytes ''%n'') (str_bytes ''%p'') remote_eversh ssh_options status_file udp_range))"
      unfolding front using c' d' s' by simp
    have "list_all piece_ok (concat (map (\<lambda>opt. [Plain (str_bytes ''--ssh-option''), Quoted opt]) ssh_options))"
      using c' proxy_plain_words(1) by (auto simp: list_all_iff)
    then show "list_all piece_ok (proxy_pieces self_exe (str_bytes ''%n'') (str_bytes ''%p'') remote_eversh ssh_options status_file udp_range)"
      using a' b' d' s' proxy_plain_words by (auto simp: proxy_pieces_def split: option.splits)
  qed
qed

lemma proxy_command_lex:
  assumes "utf8_valid self_exe" "list_all utf8_valid ssh_options"
    and "proxy_command self_exe remote_eversh ssh_options status_file udp_range = Inr s"
  shows "sh_lex False None s = Some (map piece_word (proxy_pieces self_exe (str_bytes ''%n'') (str_bytes ''%p'') remote_eversh ssh_options status_file udp_range))"
  using proxy_command_pieces [OF assms] by (simp add: sh_lex_pieces)

section \<open>Percent tokens\<close>

text \<open>What OpenSSH makes of the line before the local shell sees it, as its manual (TOKENS) documents
  and the comments of \<open>validate_self_exe\<close> and \<open>proxy_command\<close> rely on: \<open>%%\<close> is a percent sign, \<open>%c\<close>
  the value of the token \<open>c\<close>, inside quotes or not, and a token that OpenSSH does not know makes it
  give up. The tokens and their values are a parameter.\<close>

fun percent_expand :: "(u8 \<Rightarrow> bytes option) \<Rightarrow> bytes \<Rightarrow> bytes option" where
  "percent_expand token [] = Some []"
| "percent_expand token [c] = (if c = 0x25 then None else Some [c])"
| "percent_expand token (c # d # cs) =
     (if c \<noteq> 0x25 then map_option ((@) [c]) (percent_expand token (d # cs))
      else if d = 0x25 then map_option ((@) [c]) (percent_expand token cs)
      else case token d of
        None \<Rightarrow> None
      | Some v \<Rightarrow> map_option ((@) v) (percent_expand token cs))"

lemma percent_expand_cons:
  "c \<noteq> 0x25 \<Longrightarrow> percent_expand token (c # cs) = map_option ((@) [c]) (percent_expand token cs)"
  by (cases cs) simp_all

lemma percent_expand_append:
  "percent_expand token t = Some u \<Longrightarrow> percent_expand token (t @ s) = map_option ((@) u) (percent_expand token s)"
proof (induction token t arbitrary: u rule: percent_expand.induct)
  case (1 token)
  then show ?case by (simp add: option.map_ident_strong)
next
  case (2 token c)
  then show ?case by (simp add: percent_expand_cons split: if_splits)
next
  case (3 token c d cs)
  then show ?case
    by (cases "percent_expand token s") (auto split: if_splits option.splits)
qed

lemma percent_expand_free: "0x25 \<notin> set t \<Longrightarrow> percent_expand token t = Some t"
  by (induction t) (auto simp: percent_expand_cons)

text \<open>A quoted word whose expansion fails takes the line with it: a closing quote is no token.\<close>

lemma percent_expand_fails:
  "percent_expand token t = None \<Longrightarrow> token 0x27 = None \<Longrightarrow> percent_expand token (t @ 0x27 # s) = None"
  by (induction token t rule: percent_expand.induct) (auto split: if_splits option.splits)

lemma percent_expand_quoted:
  "percent_expand token w = Some v \<Longrightarrow> percent_expand token (0x27 # w @ [0x27]) = Some (0x27 # v @ [0x27])"
  by (simp add: percent_expand_cons percent_expand_append)

lemma percent_expand_join:
  "list_all2 (\<lambda>a b. percent_expand token a = Some b) ws vs \<Longrightarrow>
   percent_expand token (join_words [0x20] ws) = Some (join_words [0x20] vs)"
proof (induction ws vs rule: list_all2_induct)
  case (Cons a as b bs)
  show ?case
  proof (cases as)
    case Nil
    with Cons show ?thesis by simp
  next
    case (Cons a' as')
    with Cons.hyps obtain b' bs' where "bs = b' # bs'" by (auto simp: list_all2_Cons1)
    with Cons Cons.hyps(1) Cons.IH show ?thesis
      by (simp add: percent_expand_append percent_expand_cons)
  qed
qed simp

text \<open>The pieces of a line and what the expansion makes of them.\<close>

fun piece_expands :: "(u8 \<Rightarrow> bytes option) \<Rightarrow> sh_piece \<Rightarrow> sh_piece \<Rightarrow> bool" where
  "piece_expands token (Plain w) (Plain v) = (w = v \<and> 0x25 \<notin> set w)"
| "piece_expands token (Quoted w) (Quoted v) = (percent_expand token w = Some v)"
| "piece_expands token _ _ = False"

lemma piece_expands_text: "piece_expands token a b \<Longrightarrow> percent_expand token (piece_text a) = Some (piece_text b)"
  by (induction token a b rule: piece_expands.induct) (simp_all add: percent_expand_free percent_expand_quoted)

lemma pieces_expand:
  "list_all2 (piece_expands token) ps qs \<Longrightarrow>
   percent_expand token (join_words [0x20] (map piece_text ps)) = Some (join_words [0x20] (map piece_text qs))"
  by (rule percent_expand_join) (auto simp: list_all2_map1 list_all2_map2 piece_expands_text elim: list_all2_mono)


text \<open>Nothing that is not an option has a percent sign, the two tokens apart.\<close>

lemma self_exe_ok: "validate_self_exe self_exe = Inr e \<Longrightarrow> utf8_valid self_exe \<and> 0x25 \<notin> set self_exe"
  using ascii_byte_is_char [of self_exe "0x25"]
  by (auto simp: validate_self_exe_def list_ex_iff split: if_splits)

lemma status_path_ok: "utf8_valid path \<Longrightarrow> safe_status_word path \<Longrightarrow> 0x25 \<notin> set path"
  using ascii_byte_is_char [of path "0x25"] by (auto simp: safe_status_word_def list_ex_iff)

lemma percent_not_path: "\<not> path_byte 0x25"
  by (simp add: path_byte_def is_ascii_alphanumeric_def is_ascii_digit_def)

lemma word_without_percent: "command_word w \<Longrightarrow> 0x25 \<notin> set w"
  using percent_not_path by (auto simp: command_word_def list_all_iff)

lemma host_byte_quote: "\<not> host_byte 0x27"
  by (simp add: host_byte_def is_ascii_alphanumeric_def is_ascii_digit_def)

lemma range_without_percent: "0x25 \<notin> set (range_text r)"
  by (simp add: range_text_def to_dec_free)

lemma host_unquoted: "validate_host host = Inr () \<Longrightarrow> 0x27 \<notin> set host"
  using host_byte_quote by (auto simp: validate_host_def list_all_iff split: if_splits)

lemma proxy_command_status:
  "proxy_command self_exe remote_eversh ssh_options (Some path) udp_range = Inr line \<Longrightarrow>
   utf8_valid path \<and> safe_status_word path"
  by (auto simp: proxy_command_def Let_def split: if_splits)

lemma option_pieces_expand:
  "map (percent_expand token) ssh_options = map Some opts \<Longrightarrow>
   list_all2 (piece_expands token)
     (concat (map (\<lambda>opt. [Plain (str_bytes ''--ssh-option''), Quoted opt]) ssh_options))
     (concat (map (\<lambda>opt. [Plain (str_bytes ''--ssh-option''), Quoted opt]) opts))"
proof (induction ssh_options arbitrary: opts)
  case (Cons opt ssh_options)
  have "0x25 \<notin> set (str_bytes ''--ssh-option'')" by (simp add: str_bytes_def)
  with Cons show ?case by (auto simp: Cons_eq_map_conv)
qed simp

lemma proxy_pieces_expand:
  assumes "validate_self_exe self_exe = Inr e" "validate_remote_eversh remote_eversh = Inr ()"
    and "\<And>path. status_file = Some path \<Longrightarrow> 0x25 \<notin> set path"
    and "token 0x6E = Some host" "token 0x70 = Some port" "map (percent_expand token) ssh_options = map Some opts"
  shows "list_all2 (piece_expands token)
    (proxy_pieces self_exe (str_bytes ''%n'') (str_bytes ''%p'') remote_eversh ssh_options status_file udp_range)
    (proxy_pieces self_exe host port remote_eversh opts status_file udp_range)"
proof -
  have plain: "list_all (\<lambda>w. 0x25 \<notin> set w) (EVERSSH_ROLE # UDP_PORT_RANGE_OPTION
     # map str_bytes [''ssh-proxy'', ''--remote-eversh'', ''--status-file''])"
    using proxy_plain_words(1) by (simp add: word_without_percent)
  have "percent_expand token (str_bytes ''%n'') = Some host" "percent_expand token (str_bytes ''%p'') = Some port"
    using assms(4,5) by (simp_all add: str_bytes_def)
  moreover have "percent_expand token self_exe = Some self_exe" "percent_expand token remote_eversh = Some remote_eversh"
    using self_exe_ok [OF assms(1)] word_without_percent [OF eversh_word [OF assms(2)]]
    by (simp_all add: percent_expand_free)
  ultimately show ?thesis
    using plain assms(3) option_pieces_expand [OF assms(6)]
    by (auto simp: proxy_pieces_def percent_expand_free range_without_percent intro!: list_all2_appendI split: option.splits)
qed

lemma proxy_pieces_ok:
  assumes "list_all piece_ok (proxy_pieces self_exe a b remote_eversh ssh_options status_file udp_range)"
    and "0x27 \<notin> set host" "0x27 \<notin> set port" "list_all (\<lambda>opt. 0x27 \<notin> set opt) opts"
  shows "list_all piece_ok (proxy_pieces self_exe host port remote_eversh opts status_file udp_range)"
proof -
  have "list_all piece_ok (concat (map (\<lambda>opt. [Plain (str_bytes ''--ssh-option''), Quoted opt]) opts))"
    using assms(4) proxy_plain_words(1) by (auto simp: list_all_iff)
  with assms(1-3) show ?thesis by (auto simp: proxy_pieces_def)
qed


lemma proxy_command_remote:
  "proxy_command self_exe remote_eversh ssh_options status_file udp_range = Inr line \<Longrightarrow>
   validate_remote_eversh remote_eversh = Inr ()"
  by (cases "validate_remote_eversh remote_eversh") (simp_all add: proxy_command_def)

lemma proxy_line_expanded:
  assumes exe: "validate_self_exe self_exe = Inr e" and utf8: "list_all utf8_valid ssh_options"
    and line: "proxy_command self_exe remote_eversh ssh_options status_file udp_range = Inr line"
    and token: "token 0x6E = Some host" "token 0x70 = Some port" "0x27 \<notin> set host" "0x27 \<notin> set port"
    and opts: "map (percent_expand token) ssh_options = map Some opts" "list_all (\<lambda>opt. 0x27 \<notin> set opt) opts"
  shows "\<exists>expanded. percent_expand token line = Some expanded
    \<and> sh_lex False None expanded
        = Some (map piece_word (proxy_pieces self_exe host port remote_eversh opts status_file udp_range))"
proof -
  note pieces = proxy_command_pieces [OF conjunct1 [OF self_exe_ok [OF exe]] utf8 line]
  have "0x25 \<notin> set path" if "status_file = Some path" for path
    using proxy_command_status line that status_path_ok by blast
  then have expand: "list_all2 (piece_expands token)
      (proxy_pieces self_exe (str_bytes ''%n'') (str_bytes ''%p'') remote_eversh ssh_options status_file udp_range)
      (proxy_pieces self_exe host port remote_eversh opts status_file udp_range)"
    by (rule proxy_pieces_expand [OF exe proxy_command_remote [OF line] _ token(1,2) opts(1)])
  note lexed = sh_lex_pieces [OF proxy_pieces_ok [OF conjunct2 [OF pieces] token(3,4) opts(2)]]
  show ?thesis
    unfolding conjunct1 [OF pieces] pieces_expand [OF expand] using lexed by blast
qed


definition ssh_tokens :: "u8 \<Rightarrow> bytes option" where
  "ssh_tokens c =
     (if c = 0x6E then Some (str_bytes ''box'') else if c = 0x68 then Some (str_bytes ''box.lan'')
      else if c = 0x70 then Some (str_bytes ''22'') else None)"

lemma ascii_chars: "list_all (\<lambda>c. c < 0x80) s \<Longrightarrow> utf8_chars s = map unat s"
  by (induction s) auto

lemma visible_chars:
  assumes "list_all (\<lambda>c. 0x20 < c \<and> c < 0x7F \<and> c \<noteq> 0x27) (s :: bytes)"
  shows "utf8_valid s" "list_all (\<lambda>c. \<not> char_is_control c \<and> \<not> char_is_whitespace c \<and> c \<noteq> 0x27) (utf8_chars s)"
    "0x27 \<notin> set s"
proof -
  have low: "list_all (\<lambda>c. c < 0x80) s"
    using assms by (auto simp: list_all_iff word_less_nat_alt)
  then show "utf8_valid s" by (intro ascii_utf8_valid) (auto simp: list_all_iff)
  have "\<not> char_is_control (unat c) \<and> \<not> char_is_whitespace (unat c) \<and> unat c \<noteq> 0x27"
    if "0x20 < c" "c < 0x7F" "c \<noteq> 0x27" for c :: u8
    using that word_unat_eq_iff [of c "0x27"]
    by (auto simp: char_is_control_def char_is_whitespace_def word_less_nat_alt)
  with assms show "list_all (\<lambda>c. \<not> char_is_control c \<and> \<not> char_is_whitespace c \<and> c \<noteq> 0x27) (utf8_chars s)"
    unfolding ascii_chars [OF low] list_all_iff by auto
  show "0x27 \<notin> set s" using assms by (auto simp: list_all_iff)
qed

lemma identity_key: "map ascii_lower (str_bytes ''IdentityFile'') \<in> set ALLOWED_O"
proof -
  have "str_bytes ''identityfile'' \<in> set ALLOWED_O" by (simp add: ALLOWED_O_def)
  then show ?thesis by (simp add: str_bytes_def ascii_lower_def)
qed

lemma identity_split:
  "split_once [0x3D] (str_bytes ''IdentityFile='' @ v) = Some (str_bytes ''IdentityFile'', v)"
  by (simp add: str_bytes_def starts_with_def)

lemma identity_prefixes:
  "prefixed_option (str_bytes ''-oIdentityFile='' @ v) (map str_bytes [''-F'', ''-i'', ''-l'', ''-b'', ''-B'']) = None"
  "strip_prefix (str_bytes ''-o'') (str_bytes ''-oIdentityFile='' @ v) = Some (str_bytes ''IdentityFile='' @ v)"
  by (simp_all add: str_bytes_def starts_with_def strip_prefix_def)

lemma identity_option_accepted:
  assumes "v \<noteq> []" "length v \<le> 4000" "list_all (\<lambda>c. 0x20 < c \<and> c < 0x7F \<and> c \<noteq> 0x27) v"
  shows "audit_ssh_option (str_bytes ''-oIdentityFile='' @ v) = Inr ()"
    "quote_single (str_bytes ''-oIdentityFile='' @ v) = Inr (0x27 # str_bytes ''-oIdentityFile='' @ v @ [0x27])"
    "utf8_valid (str_bytes ''-oIdentityFile='' @ v)"
proof -
  let ?opt = "str_bytes ''-oIdentityFile='' @ v"
  have "list_all (\<lambda>c :: u8. 0x20 < c \<and> c < 0x7F \<and> c \<noteq> 0x27) ?opt"
    using assms(3) by (simp add: str_bytes_def)
  note chars = visible_chars [OF this]
  have "length ?opt \<le> SSH_ARGUMENT_MAX" "?opt \<noteq> []" "?opt \<noteq> str_bytes ''-4''" "?opt \<noteq> str_bytes ''-6''"
    "str_bytes ''IdentityFile'' \<noteq> []"
    using assms(2) by (simp_all add: str_bytes_def SSH_ARGUMENT_MAX_def)
  then have "validate_option ?opt = Inr ()"
    unfolding validate_option_def identity_prefixes
    using chars(2) assms(1) identity_key identity_split [of v]
    by (auto simp: list_ex_iff list_all_iff)
  then show "audit_ssh_option ?opt = Inr ()"
    using chars(3) by (simp add: audit_ssh_option_def)
  show "quote_single ?opt = Inr (0x27 # str_bytes ''-oIdentityFile='' @ v @ [0x27])"
    using chars(2) by (auto simp: quote_single_def list_ex_iff list_all_iff)
  show "utf8_valid ?opt" by (rule chars(1))
qed

lemma key_line:
  "\<exists>line. proxy_command (str_bytes ''/usr/bin/eversh'') (str_bytes ''eversh'')
     [str_bytes ''-oIdentityFile='' @ str_bytes ''/keys/%h''] None None = Inr line"
proof -
  let ?v = "str_bytes ''/keys/%h''"
  have v: "?v \<noteq> []" "length ?v \<le> 4000" "list_all (\<lambda>c. 0x20 < c \<and> c < 0x7F \<and> c \<noteq> 0x27) ?v"
    by (simp_all add: str_bytes_def)
  have "validate_remote_eversh (str_bytes ''eversh'') = Inr ()"
    by (simp add: validate_remote_eversh_def validate_bare_word_def str_bytes_def starts_with_def WORD_MAX_def
        name_byte_def is_ascii_alphanumeric_def is_ascii_digit_def)
  moreover have "\<exists>q. quote_single (str_bytes ''/usr/bin/eversh'') = Inr q" "\<exists>q. quote_single (str_bytes ''eversh'') = Inr q"
    by (simp_all add: quote_single_def str_bytes_def char_is_control_def)
  ultimately show ?thesis
    by (auto simp: proxy_command_def identity_option_accepted [OF v])
qed

lemma key_inputs:
  "validate_self_exe (str_bytes ''/usr/bin/eversh'') = Inr (str_bytes ''/usr/bin/eversh'')"
  "list_all utf8_valid [str_bytes ''-oIdentityFile='' @ str_bytes ''/keys/%h'']"
  "validate_host (str_bytes ''box'') = Inr ()"
  "ssh_tokens 0x6E = Some (str_bytes ''box'')" "ssh_tokens 0x70 = Some (to_dec 22)" "ssh_tokens 0x27 = None"
proof -
  show "validate_self_exe (str_bytes ''/usr/bin/eversh'') = Inr (str_bytes ''/usr/bin/eversh'')"
    by (simp add: validate_self_exe_def str_bytes_def starts_with_def WORD_MAX_def char_is_control_def)
  show "list_all utf8_valid [str_bytes ''-oIdentityFile='' @ str_bytes ''/keys/%h'']"
    by (simp add: str_bytes_def)
  show "validate_host (str_bytes ''box'') = Inr ()"
    by (simp add: validate_host_def str_bytes_def starts_with_def host_byte_def is_ascii_alphanumeric_def is_ascii_digit_def)
  show "ssh_tokens 0x6E = Some (str_bytes ''box'')" "ssh_tokens 0x27 = None"
    by (simp_all add: ssh_tokens_def)
  show "ssh_tokens 0x70 = Some (to_dec 22)"
    by (simp add: ssh_tokens_def str_bytes_def to_dec.simps)
qed


section \<open>Percent tokens in the inputs\<close>

lemma percent_path_refused:
  assumes "0x25 \<in> set path"
  shows "validate_self_exe path = Inl Ee_SelfExeUnsafe" "\<not> (utf8_valid path \<and> safe_status_word path)"
  using assms status_path_ok ascii_byte_is_char [of path "0x25"]
  by (auto simp: validate_self_exe_def list_ex_iff)

lemma percent_status_refused:
  assumes "proxy_command self_exe remote_eversh ssh_options status_file udp_range = Inr line" "0x25 \<in> set path"
  shows "proxy_command self_exe remote_eversh ssh_options (Some path) udp_range = Inl Ee_StatusPathUnsafe"
proof -
  from assms(1) obtain a b c d where "validate_remote_eversh remote_eversh = Inr ()"
    and "quote_single self_exe = Inr a" and "quote_single remote_eversh = Inr b"
    and "push_ssh_options (a @ [0x20] @ EVERSSH_ROLE @ str_bytes '' ssh-proxy '' @ [0x27] @ str_bytes ''%n'' @ [0x27, 0x20, 0x27]
       @ str_bytes ''%p'' @ [0x27] @ str_bytes '' --remote-eversh '' @ b) ssh_options = Inr c"
    and "(case udp_range of None \<Rightarrow> Inr c
        | Some r \<Rightarrow> try_bind (quote_single (range_text r)) (\<lambda>q. Inr (c @ [0x20] @ UDP_PORT_RANGE_OPTION @ [0x20] @ q))) = Inr d"
    unfolding proxy_command_def Let_def try_bind_eq_Inr by auto
  with percent_path_refused(2) [OF assms(2)] show ?thesis
    unfolding proxy_command_def Let_def by simp
qed

text \<open>An option whose tokens OpenSSH does not know takes the whole line with it.\<close>

lemma proxy_line_refused:
  assumes exe: "validate_self_exe self_exe = Inr e" and utf8: "utf8_valid opt"
    and line: "proxy_command self_exe remote_eversh [opt] status_file udp_range = Inr line"
    and token: "token 0x6E = Some host" "token 0x70 = Some port" "token 0x27 = None"
    and opt: "percent_expand token opt = None"
  shows "percent_expand token line = None"
proof -
  let ?ps = "proxy_pieces self_exe (str_bytes ''%n'') (str_bytes ''%p'') remote_eversh [] None None @ [Plain (str_bytes ''--ssh-option'')]"
  let ?rest = "(case udp_range of None \<Rightarrow> [] | Some r \<Rightarrow> [Plain UDP_PORT_RANGE_OPTION, Quoted (range_text r)])
     @ (case status_file of None \<Rightarrow> [] | Some path \<Rightarrow> [Plain (str_bytes ''--status-file''), Quoted path])"
  let ?qs = "proxy_pieces self_exe host port remote_eversh [] None None @ [Plain (str_bytes ''--ssh-option'')]"
  have "list_all2 (piece_expands token) ?ps ?qs"
    using proxy_pieces_expand [where status_file = None and udp_range = None and opts = "[]" and ssh_options = "[]",
        OF exe proxy_command_remote [OF line] _ token(1,2)]
    by (intro list_all2_appendI) (simp_all add: str_bytes_def)
  note front = percent_expand_append [OF pieces_expand [OF this]]
  have "line = join_words [0x20] (map piece_text (?ps @ Quoted opt # ?rest))"
    using proxy_command_pieces [OF conjunct1 [OF self_exe_ok [OF exe]] _ line] utf8 by (simp add: proxy_pieces_def)
  also have "\<dots> = join_words [0x20] (map piece_text ?ps) @ concat (map (\<lambda>p. 0x20 # piece_text p) (Quoted opt # ?rest))"
    by (rule join_pieces_append) simp
  finally have l: "line = join_words [0x20] (map piece_text ?ps) @ concat (map (\<lambda>p. 0x20 # piece_text p) (Quoted opt # ?rest))" .
  show ?thesis
    unfolding l front by (simp add: percent_expand_cons percent_expand_fails [OF opt token(3)])
qed

text \<open>C37: OpenSSH expands percent tokens inside the quotes of a ProxyCommand. An executable path or a
  status path with a percent sign is always refused. An SSH option is not: whatever follows
  \<open>-oIdentityFile=\<close> in visible characters, percent signs included, passes the audit and the quoting
  unchanged, and in an accepted line with an option that has a token the word that the local shell
  reads is the option's expansion, or, when OpenSSH knows no such token, the line has no expansion.\<close>

theorem proxy_option_percent_unchecked:
  assumes "0x25 \<in> set path"
    and "v \<noteq> []" "length v \<le> 4000" "list_all (\<lambda>c. 0x20 < c \<and> c < 0x7F \<and> c \<noteq> 0x27) v"
    and "validate_self_exe self_exe = Inr exe" "utf8_valid opt"
    and "proxy_command self_exe remote_eversh [opt] status_file udp_range = Inr line"
    and "validate_host host = Inr ()" "token 0x6E = Some host" "token 0x70 = Some (to_dec port)" "token 0x27 = None"
  shows "validate_self_exe path = Inl Ee_SelfExeUnsafe
    \<and> proxy_command self_exe remote_eversh [opt] (Some path) udp_range = Inl Ee_StatusPathUnsafe
    \<and> audit_ssh_option (str_bytes ''-oIdentityFile='' @ v) = Inr ()
    \<and> quote_single (str_bytes ''-oIdentityFile='' @ v) = Inr (0x27 # str_bytes ''-oIdentityFile='' @ v @ [0x27])
    \<and> (case percent_expand token opt of
         None \<Rightarrow> percent_expand token line = None
       | Some w \<Rightarrow> 0x27 \<in> set w \<or> (\<exists>expanded words. percent_expand token line = Some expanded
           \<and> sh_lex False None expanded = Some words \<and> take 2 (drop 7 words) = [str_bytes ''--ssh-option'', w]))"
proof -
  have "case percent_expand token opt of
         None \<Rightarrow> percent_expand token line = None
       | Some w \<Rightarrow> 0x27 \<in> set w \<or> (\<exists>expanded words. percent_expand token line = Some expanded
           \<and> sh_lex False None expanded = Some words \<and> take 2 (drop 7 words) = [str_bytes ''--ssh-option'', w])"
  proof (cases "percent_expand token opt")
    case None
    from proxy_line_refused [OF assms(5-7,9-11) None] None show ?thesis by simp
  next
    case (Some w)
    show ?thesis
    proof (cases "0x27 \<in> set w")
      case False
      have "list_all utf8_valid [opt]" "map (percent_expand token) [opt] = map Some [w]" "list_all (\<lambda>opt. 0x27 \<notin> set opt) [w]"
        using assms(6) Some False by simp_all
      from proxy_line_expanded [OF assms(5) this(1) assms(7,9,10) host_unquoted [OF assms(8)] to_dec_free(5) this(2,3)]
      obtain expanded where "percent_expand token line = Some expanded"
        and "sh_lex False None expanded = Some (map piece_word (proxy_pieces self_exe host (to_dec port) remote_eversh [w] status_file udp_range))"
        by blast
      with Some show ?thesis by (auto simp: proxy_pieces_def)
    qed (simp add: Some)
  qed
  then show ?thesis
    using percent_path_refused(1) [OF assms(1)] percent_status_refused [OF assms(7,1)]
      identity_option_accepted(1,2) [OF assms(2-4)] by blast
qed

theorem proxy_option_percent_unchecked_witness:
  "0x25 \<in> set (str_bytes ''/run/%d/s'') \<and> validate_self_exe (str_bytes ''/run/%d/s'') = Inl Ee_SelfExeUnsafe
   \<and> audit_ssh_option (str_bytes ''-oIdentityFile='' @ str_bytes ''%d/id'') = Inr ()
   \<and> percent_expand ssh_tokens (str_bytes ''-oIdentityFile='' @ str_bytes ''/keys/%h'') = Some (str_bytes ''-oIdentityFile=/keys/box.lan'')
   \<and> (\<exists>line expanded words. proxy_command (str_bytes ''/usr/bin/eversh'') (str_bytes ''eversh'')
        [str_bytes ''-oIdentityFile='' @ str_bytes ''/keys/%h''] None None = Inr line
      \<and> percent_expand ssh_tokens line = Some expanded \<and> sh_lex False None expanded = Some words
      \<and> take 2 (drop 7 words) = [str_bytes ''--ssh-option'', str_bytes ''-oIdentityFile=/keys/box.lan''])"
proof -
  obtain line where line: "proxy_command (str_bytes ''/usr/bin/eversh'') (str_bytes ''eversh'')
      [str_bytes ''-oIdentityFile='' @ str_bytes ''/keys/%h''] None None = Inr line"
    using key_line by blast
  have v: "str_bytes ''%d/id'' \<noteq> []" "length (str_bytes ''%d/id'') \<le> 4000"
    "list_all (\<lambda>c. 0x20 < c \<and> c < 0x7F \<and> c \<noteq> 0x27) (str_bytes ''%d/id'')"
    by (simp_all add: str_bytes_def)
  have path: "0x25 \<in> set (str_bytes ''/run/%d/s'')" by (simp add: str_bytes_def)
  have opt: "utf8_valid (str_bytes ''-oIdentityFile='' @ str_bytes ''/keys/%h'')" using key_inputs(2) by simp
  have e: "percent_expand ssh_tokens (str_bytes ''-oIdentityFile='' @ str_bytes ''/keys/%h'') = Some (str_bytes ''-oIdentityFile=/keys/box.lan'')"
    "0x27 \<notin> set (str_bytes ''-oIdentityFile=/keys/box.lan'')"
    by (simp_all add: str_bytes_def ssh_tokens_def)
  from proxy_option_percent_unchecked [OF path v key_inputs(1) opt line key_inputs(3-6)] path line e
  show ?thesis by simp
qed

end
