(* ===== verification/Eversh_Supervisor.thy ===== *)
theory Eversh_Supervisor
  imports Eversh_Command Ssh_Status Udp_Status
begin

text \<open>
  The supervisor (\<open>crates/eversh/src/supervisor.rs\<close>): it runs the installed \<open>ssh\<close>, decides from the
  exit status and the local link-status file what became of the session, and reattaches the same
  session through probe-gated retries. The operating system is the record \<open>sup_os\<close> of unknown
  answers, one per call; the clock is monotone and a sleep lasts at least as long as was asked for
  (\<open>Instant\<close>, \<open>thread::sleep\<close>). What the supervisor did is kept in a log, in order.
\<close>

unbundle bit_operations_syntax

section \<open>The system and the log\<close>

datatype exit_kind = Ek_Code u8 | Ek_Signaled int

datatype transport_failure =
    Tf_SessionGone | Tf_AttemptsExhausted | Tf_DeadlineExceeded | Tf_ProbeFailed u8 | Tf_ProbeSignaled int
  | Tf_Busy | Tf_RestartsExhausted

datatype session_end =
    End_Remote u8 | End_SshSignaled int | End_SshFailed | End_TransportFailed transport_failure

datatype notification =
    Nt_TransportInterrupted u32 | Nt_Backoff u32 nat | Nt_Probing bytes u32 | Nt_SessionLive u32
  | Nt_SessionGone bytes | Nt_ProbeUnreachable u32 | Nt_ProbeFailed u8 | Nt_Reattaching bytes u32
  | Nt_RetryExhausted u32 | Nt_RetryDeadlineExceeded | Nt_ResumeLaunched bytes | Nt_ResumeSkipped bytes
  | Nt_SshFailed | Nt_ReattachBusy bytes u32 | Nt_EpisodeRestartsExhausted u32

datatype link_outcome = Lo_CleanClose | Lo_TransportFailure bool

text \<open>A child is logged when it is spawned and again when its status has been collected, with the
  classification of its link-status file where it has one; \<open>Log_Killed\<close> is a kill and the reap after it.\<close>

datatype sup_log =
    Log_Notify notification
  | Log_Spawn bytes "bytes list"
  | Log_Ended exit_kind "link_outcome option"
  | Log_Killed
  | Log_Restored
  | Log_Slept nat
  | Log_Created bytes
  | Log_Removed bytes

text \<open>\<open>ExitStatus\<close>: the code of a child that exited, the signal of one that was killed.\<close>

record wait_status =
  ws_code :: "32 word option"
  ws_signal :: "int option"

datatype pipe_answer = Pa_Data bytes | Pa_Interrupted | Pa_Error nat

text \<open>Every answer is a function of the number of calls made before. Errors are error numbers.
  \<open>so_elapsed\<close> is how long a call took; \<open>so_read_pipe\<close> is what the successive reads of a captured
  output return until its end.\<close>

record sup_os =
  so_elapsed :: "nat \<Rightarrow> nat"
  so_spawn :: "nat \<Rightarrow> bytes \<Rightarrow> bytes list \<Rightarrow> nat option"
  so_try_wait :: "nat \<Rightarrow> nat + wait_status option"
  so_wait :: "nat \<Rightarrow> nat + wait_status"
  so_read_file :: "nat \<Rightarrow> bytes \<Rightarrow> bytes option"
  so_make_dir :: "nat \<Rightarrow> bytes \<Rightarrow> nat option"
  so_create_new :: "nat \<Rightarrow> bytes \<Rightarrow> nat option"
  so_path_exists :: "nat \<Rightarrow> bytes \<Rightarrow> nat + bool"
  so_terminal :: "nat \<Rightarrow> bool"
  so_pid :: nat
  so_epoch_nanos :: "nat \<Rightarrow> nat"
  so_hash :: "nat \<Rightarrow> nat"
  so_read_pipe :: "nat \<Rightarrow> pipe_answer list"

record sup_world =
  sw_calls :: nat
  sw_now :: nat
  sw_sequence :: u64
  sw_log :: "sup_log list"

definition sup_tick :: "sup_os \<Rightarrow> sup_world \<Rightarrow> sup_world" where
  "sup_tick os w = w\<lparr>sw_calls := Suc (sw_calls w), sw_now := sw_now w + so_elapsed os (sw_calls w)\<rparr>"

definition log_add :: "sup_log \<Rightarrow> sup_world \<Rightarrow> sup_world" where
  "log_add e w = w\<lparr>sw_log := sw_log w @ [e]\<rparr>"

definition sup_notify :: "notification \<Rightarrow> sup_world \<Rightarrow> sup_world" where
  "sup_notify n = log_add (Log_Notify n)"

definition clock_now :: "sup_os \<Rightarrow> sup_world \<Rightarrow> nat \<times> sup_world" where
  "clock_now os w = (let w = sup_tick os w in (sw_now w, w))"

definition thread_sleep :: "sup_os \<Rightarrow> nat \<Rightarrow> sup_world \<Rightarrow> sup_world" where
  "thread_sleep os d w = (let w = sup_tick os w in log_add (Log_Slept d) (w\<lparr>sw_now := sw_now w + d\<rparr>))"

definition from_millis :: "nat \<Rightarrow> nat" where "from_millis ms = ms * 1000000"

text \<open>A fallible step and what follows it.\<close>

definition then_do ::
  "('e + 'a) \<times> sup_world \<Rightarrow> ('a \<Rightarrow> sup_world \<Rightarrow> ('e + 'b) \<times> sup_world) \<Rightarrow> ('e + 'b) \<times> sup_world" where
  "then_do r f = (case r of (Inl e, w) \<Rightarrow> (Inl e, w) | (Inr x, w) \<Rightarrow> f x w)"

definition spawn_child :: "sup_os \<Rightarrow> bytes \<Rightarrow> bytes list \<Rightarrow> sup_world \<Rightarrow> (eversh_error + unit) \<times> sup_world" where
  "spawn_child os program args w =
     (case so_spawn os (sw_calls w) program args of
        Some e \<Rightarrow> (Inl (Ee_Io e), sup_tick os w)
      | None \<Rightarrow> (Inr (), log_add (Log_Spawn program args) (sup_tick os w)))"

definition try_wait :: "sup_os \<Rightarrow> sup_world \<Rightarrow> (eversh_error + wait_status option) \<times> sup_world" where
  "try_wait os w = (map_err Ee_Io (so_try_wait os (sw_calls w)), sup_tick os w)"

definition wait_child :: "sup_os \<Rightarrow> sup_world \<Rightarrow> (eversh_error + wait_status) \<times> sup_world" where
  "wait_child os w = (map_err Ee_Io (so_wait os (sw_calls w)), sup_tick os w)"

text \<open>\<open>let _ = child.kill(); let _ = child.wait();\<close>\<close>

definition kill_child :: "sup_os \<Rightarrow> sup_world \<Rightarrow> sup_world" where
  "kill_child os w = log_add Log_Killed (sup_tick os (sup_tick os w))"

text \<open>\<open>read_to_string\<close> fails on a file that is missing, unreadable or not UTF-8.\<close>

definition read_to_string :: "sup_os \<Rightarrow> bytes \<Rightarrow> sup_world \<Rightarrow> bytes option \<times> sup_world" where
  "read_to_string os path w =
     (case so_read_file os (sw_calls w) path of
        None \<Rightarrow> None
      | Some content \<Rightarrow> if utf8_valid content then Some content else None, sup_tick os w)"

section \<open>Configuration and exits\<close>

record sup_config =
  cfg_ssh_program :: bytes
  cfg_kitty_program :: bytes
  cfg_self_exe :: bytes
  cfg_remote_eversh :: bytes
  cfg_kitty_listen_on :: "bytes option"
  cfg_colorterm :: bytes
  cfg_local_host :: bytes
  cfg_link_status_root :: "bytes option"
  cfg_udp_port_range :: "udp_port_range option"
  cfg_limits :: eversh_limits

definition classify_exit :: "wait_status \<Rightarrow> exit_kind" where
  "classify_exit st =
     (case ws_code st of
        Some code \<Rightarrow> Ek_Code (ucast (code AND 0xFF))
      | None \<Rightarrow> Ek_Signaled (case ws_signal st of Some s \<Rightarrow> s | None \<Rightarrow> 0))"

definition SSH_FAILURE :: u8 where "SSH_FAILURE = 255"
definition PROBE_NOT_LIVE_EXIT :: u8 where "PROBE_NOT_LIVE_EXIT = 5"
definition REMOTE_BUSY_EXIT :: u8 where "REMOTE_BUSY_EXIT = 3"

definition proxy_for :: "sup_config \<Rightarrow> bytes list \<Rightarrow> bytes option \<Rightarrow> eversh_error + bytes" where
  "proxy_for config ssh_options status_file =
     try_bind (validate_self_exe (cfg_self_exe config)) (\<lambda>self_exe.
     proxy_command self_exe (cfg_remote_eversh config) ssh_options status_file (cfg_udp_port_range config))"

definition run_status :: "sup_os \<Rightarrow> bytes \<Rightarrow> bytes list \<Rightarrow> sup_world \<Rightarrow> (eversh_error + exit_kind) \<times> sup_world" where
  "run_status os program args w =
     then_do (spawn_child os program args w) (\<lambda>_ w.
     then_do (wait_child os w) (\<lambda>st w.
     (Inr (classify_exit st), log_add (Log_Ended (classify_exit st) None) w)))"

definition spawn_inherited :: "sup_os \<Rightarrow> sup_config \<Rightarrow> bytes list \<Rightarrow> sup_world \<Rightarrow> (eversh_error + exit_kind) \<times> sup_world" where
  "spawn_inherited os config args w = run_status os (cfg_ssh_program config) args w"

text \<open>The same with input and output redirected to nothing.\<close>

definition spawn_quiet :: "sup_os \<Rightarrow> sup_config \<Rightarrow> bytes list \<Rightarrow> sup_world \<Rightarrow> (eversh_error + exit_kind) \<times> sup_world" where
  "spawn_quiet os config args w = run_status os (cfg_ssh_program config) args w"

section \<open>Bounded waits\<close>

lemma sup_tick_now: "sw_now w \<le> sw_now (sup_tick os w)"
  by (simp add: sup_tick_def)

lemma world_simps [simp]:
  "sw_log (sup_tick os w) = sw_log w"
  "sw_sequence (sup_tick os w) = sw_sequence w"
  "sw_now (log_add e w) = sw_now w" "sw_log (log_add e w) = sw_log w @ [e]"
  "sw_log (thread_sleep os d w) = sw_log w @ [Log_Slept d]"
  "sw_now (thread_sleep os d w) = sw_now (sup_tick os w) + d"
  by (simp_all add: sup_tick_def log_add_def thread_sleep_def Let_def)

definition WAIT_POLL_INTERVAL :: nat where "WAIT_POLL_INTERVAL = from_millis 20"

definition poll_interval :: "nat \<Rightarrow> nat \<Rightarrow> nat" where
  "poll_interval deadline now = min WAIT_POLL_INTERVAL (deadline - now)"

datatype bounded_exit = Be_Exited exit_kind | Be_DeadlineExceeded

lemma poll_progress:
  assumes "sw_now v \<le> sw_now w" "sw_now w < deadline" "now = sw_now (sup_tick os w)"
  shows "deadline - (sw_now (sup_tick os (sup_tick os w)) + poll_interval deadline now) < deadline - sw_now v"
  using assms by (auto simp: sup_tick_def poll_interval_def WAIT_POLL_INTERVAL_def from_millis_def)

function wait_bounded_child :: "sup_os \<Rightarrow> nat \<Rightarrow> sup_world \<Rightarrow> (eversh_error + bounded_exit) \<times> sup_world" where
  "wait_bounded_child os deadline w =
     (case try_wait os w of
        (Inl e, w) \<Rightarrow> (Inl e, w)
      | (Inr (Some st), w) \<Rightarrow> (Inr (Be_Exited (classify_exit st)), log_add (Log_Ended (classify_exit st) None) w)
      | (Inr None, w) \<Rightarrow>
          let (now, w) = clock_now os w in
          if deadline \<le> now then (Inr Be_DeadlineExceeded, kill_child os w)
          else
            let (now, w) = clock_now os w in
            wait_bounded_child os deadline (thread_sleep os (poll_interval deadline now) w))"
  by pat_completeness auto
termination
  by (relation "measure (\<lambda>(os, deadline, w). deadline - sw_now w)")
    (auto simp: try_wait_def clock_now_def Let_def intro!: poll_progress intro: order_trans [OF sup_tick_now sup_tick_now])

declare wait_bounded_child.simps [simp del]

definition spawn_quiet_bounded ::
  "sup_os \<Rightarrow> sup_config \<Rightarrow> bytes list \<Rightarrow> nat \<Rightarrow> sup_world \<Rightarrow> (eversh_error + bounded_exit) \<times> sup_world" where
  "spawn_quiet_bounded os config args deadline w =
     then_do (spawn_child os (cfg_ssh_program config) args w) (\<lambda>_ w. wait_bounded_child os deadline w)"

section \<open>The link-status file\<close>

definition LINK_STATUS_GRACE :: nat where "LINK_STATUS_GRACE = from_millis 300"

definition carrying_status_grace :: nat where
  "carrying_status_grace = from_millis (unat (sl_finalize_timeout_ms default_ssh_limits))"

text \<open>The first terminal record decides.\<close>

fun link_status_of_lines :: "bytes list \<Rightarrow> link_outcome option" where
  "link_status_of_lines [] = None"
| "link_status_of_lines (l # ls) =
     (case parse_status_line l of
        Some (Status_Cause cause carried) \<Rightarrow>
          Some (case cause of
                  Cause_CleanClose \<Rightarrow> Lo_CleanClose
                | Cause_TransportFailure \<Rightarrow> Lo_TransportFailure carried)
      | _ \<Rightarrow> link_status_of_lines ls)"

definition parse_link_status :: "bytes \<Rightarrow> link_outcome option" where
  "parse_link_status content = link_status_of_lines (str_lines content)"

text \<open>Which deadline holds for a file without a terminal record: the longer one from the first time it
  says that the link is reconnecting.\<close>

definition status_deadline ::
  "sup_os \<Rightarrow> bytes \<Rightarrow> nat \<Rightarrow> nat option \<Rightarrow> sup_world \<Rightarrow> nat \<times> nat option \<times> sup_world" where
  "status_deadline os content prompt_deadline carrying_deadline w =
     (if list_ex (\<lambda>l. parse_status_line l = Some Status_Reconnecting) (str_lines content) then
        (case carrying_deadline of
           Some d \<Rightarrow> (d, carrying_deadline, w)
         | None \<Rightarrow> let (now, w) = clock_now os w; d = now + carrying_status_grace in (d, Some d, w))
      else (prompt_deadline, carrying_deadline, w))"

lemma read_world: "read_to_string os path w = (r, v) \<Longrightarrow> v = sup_tick os w"
  by (simp add: read_to_string_def split: option.splits)

lemma clock_world: "clock_now os w = (now, v) \<longleftrightarrow> now = sw_now (sup_tick os w) \<and> v = sup_tick os w"
  by (auto simp: clock_now_def Let_def)

lemma status_deadline_world:
  "status_deadline os content prompt c w = (d, c', v) \<Longrightarrow>
   (v = w \<or> v = sup_tick os w) \<and> (c = None \<and> c' = None \<and> d = prompt \<or> c = None \<and> c' \<noteq> None
     \<or> c \<noteq> None \<and> c' = c \<and> (d = prompt \<or> Some d = c))"
  by (auto simp: status_deadline_def clock_now_def Let_def split: if_splits option.splits)

lemma tick_now_trans: "sw_now v \<le> sw_now w \<Longrightarrow> sw_now v \<le> sw_now (sup_tick os w)"
  using sup_tick_now order_trans by blast

function link_status_loop :: "sup_os \<Rightarrow> bytes \<Rightarrow> nat \<Rightarrow> nat option \<Rightarrow> sup_world \<Rightarrow> link_outcome \<times> sup_world" where
  "link_status_loop os path prompt_deadline carrying_deadline w =
     (case read_to_string os path w of
        (None, w) \<Rightarrow> (Lo_TransportFailure False, w)
      | (Some content, w) \<Rightarrow>
         (case parse_link_status content of
            Some outcome \<Rightarrow> (outcome, w)
          | None \<Rightarrow>
             (case status_deadline os content prompt_deadline carrying_deadline w of
                (deadline, carrying_deadline, w) \<Rightarrow>
                 (case clock_now os w of
                    (now, w) \<Rightarrow>
                      if deadline \<le> now then (Lo_TransportFailure False, w)
                      else link_status_loop os path prompt_deadline carrying_deadline (thread_sleep os (from_millis 10) w)))))"
  by pat_completeness auto
termination
proof (relation "measures [\<lambda>(os, path, prompt_deadline, carrying_deadline, w). if carrying_deadline = None then 1 else 0 :: nat,
    \<lambda>(os, path, prompt_deadline, carrying_deadline, w).
      max prompt_deadline (case carrying_deadline of None \<Rightarrow> 0 | Some d \<Rightarrow> d) - sw_now w]", goal_cases)
  case 1
  then show ?case by simp
next
  case (2 os path prompt c w r w1 content d y c' w2 now w3)
  have w1: "w1 = sup_tick os w" using 2 read_world by metis
  have w3: "w3 = sup_tick os w2" "now = sw_now w3" using 2 clock_world by metis+
  have sd: "w2 = w1 \<or> w2 = sup_tick os w1"
    "c = None \<and> c' = None \<and> d = prompt \<or> c = None \<and> c' \<noteq> None \<or> c \<noteq> None \<and> c' = c \<and> (d = prompt \<or> Some d = c)"
    using 2 status_deadline_world by metis+
  from sd w1 w3 have "sw_now w \<le> sw_now w3" by (auto intro: tick_now_trans)
  then have "D - (sw_now (sup_tick os w3) + from_millis 10) < D - sw_now w" if "sw_now w3 < D" for D
    using that sup_tick_now [of w3 os] by (simp add: from_millis_def)
  with sd 2 w3 show ?case by (auto simp: max_def)
qed

declare link_status_loop.simps [simp del]

definition link_status_final :: "sup_os \<Rightarrow> bytes \<Rightarrow> sup_world \<Rightarrow> link_outcome \<times> sup_world" where
  "link_status_final os path w =
     (let (now, w) = clock_now os w in link_status_loop os path (now + LINK_STATUS_GRACE) None w)"

definition link_status_settled :: "sup_os \<Rightarrow> bytes \<Rightarrow> sup_world \<Rightarrow> bool \<times> sup_world" where
  "link_status_settled os path w =
     (case read_to_string os path w of
        (None, w) \<Rightarrow> (False, w)
      | (Some content, w) \<Rightarrow> (list_ex (\<lambda>l. parse_status_line l \<noteq> None) (str_lines content), w))"

section \<open>Status files\<close>

text \<open>\<open>Path::join\<close> of a relative component.\<close>

definition path_join :: "bytes \<Rightarrow> bytes \<Rightarrow> bytes" where
  "path_join p c = (if p = [] \<or> last p = 0x2F then p @ c else p @ 0x2F # c)"

definition unique_status_name :: "sup_os \<Rightarrow> sup_world \<Rightarrow> bytes \<times> sup_world" where
  "unique_status_name os w =
     (to_dec (so_pid os) @ [0x2D] @ to_dec (so_epoch_nanos os (sw_calls w)) @ [0x2D]
        @ to_dec (unat (sw_sequence w)) @ str_bytes ''.status'',
      (sup_tick os w)\<lparr>sw_sequence := sw_sequence w + 1\<rparr>)"

text \<open>What both allocations share: the directory and a name in it that can travel as a word.\<close>

definition status_path ::
  "sup_os \<Rightarrow> sup_config \<Rightarrow> sup_world \<Rightarrow> (eversh_error + bytes \<times> bytes) \<times> sup_world" where
  "status_path os config w =
     (case cfg_link_status_root config of
        None \<Rightarrow> (Inl (Ee_LinkStatusChannel None Lf_NoRoot), w)
      | Some root \<Rightarrow>
          let dir = path_join root (str_bytes ''link-status''); (file, w) = unique_status_name os w;
              path = path_join dir file
          in
          if \<not> status_word_safe path then (Inl (Ee_LinkStatusChannel (Some root) Lf_UnsafePath), w)
          else
            (case so_make_dir os (sw_calls w) dir of
               Some e \<Rightarrow> (Inl (Ee_LinkStatusChannel (Some root) (Lf_RootUnusable e)), sup_tick os w)
             | None \<Rightarrow> (Inr (root, path), sup_tick os w)))"

definition allocate_status_file :: "sup_os \<Rightarrow> sup_config \<Rightarrow> sup_world \<Rightarrow> (eversh_error + bytes) \<times> sup_world" where
  "allocate_status_file os config w =
     then_do (status_path os config w) (\<lambda>(root, path) w.
     case so_create_new os (sw_calls w) path of
       Some e \<Rightarrow> (Inl (Ee_LinkStatusChannel (Some root) (Lf_FileCreate e)), sup_tick os w)
     | None \<Rightarrow> (Inr path, log_add (Log_Created path) (sup_tick os w)))"

text \<open>\<open>std::io::ErrorKind::AlreadyExists\<close> as an error number.\<close>

definition EEXIST :: nat where "EEXIST = 17"

definition allocate_everudp_status_path ::
  "sup_os \<Rightarrow> sup_config \<Rightarrow> sup_world \<Rightarrow> (eversh_error + bytes) \<times> sup_world" where
  "allocate_everudp_status_path os config w =
     then_do (status_path os config w) (\<lambda>(root, path) w.
     case so_path_exists os (sw_calls w) path of
       Inl e \<Rightarrow> (Inl (Ee_Io e), sup_tick os w)
     | Inr True \<Rightarrow> (Inl (Ee_LinkStatusChannel (Some root) (Lf_FileCreate EEXIST)), sup_tick os w)
     | Inr False \<Rightarrow> (Inr path, sup_tick os w))"

text \<open>The guard's \<open>drop\<close>, and the scope of a guard: the file is removed when the body returns,
  whatever it returns.\<close>

definition drop_status :: "sup_os \<Rightarrow> bytes \<Rightarrow> sup_world \<Rightarrow> sup_world" where
  "drop_status os path w = log_add (Log_Removed path) (sup_tick os w)"

definition with_status ::
  "sup_os \<Rightarrow> (eversh_error + bytes) \<times> sup_world
   \<Rightarrow> (bytes \<Rightarrow> sup_world \<Rightarrow> (eversh_error + 'a) \<times> sup_world) \<Rightarrow> (eversh_error + 'a) \<times> sup_world" where
  "with_status os allocated body =
     then_do allocated (\<lambda>path w. case body path w of (r, w) \<Rightarrow> (r, drop_status os path w))"

section \<open>Tracked spawns\<close>

datatype status_spawn = Ss_Exited exit_kind link_outcome | Ss_DeadlineExceeded

definition captured_termios :: "sup_os \<Rightarrow> sup_world \<Rightarrow> bool \<times> sup_world" where
  "captured_termios os w = (so_terminal os (sw_calls w), sup_tick os w)"

definition restore_termios :: "sup_os \<Rightarrow> sup_world \<Rightarrow> sup_world" where
  "restore_termios os w = log_add Log_Restored (sup_tick os w)"

text \<open>What both ways out of the wait do with a collected status.\<close>

definition tracked_exit :: "sup_os \<Rightarrow> bytes \<Rightarrow> wait_status \<Rightarrow> sup_world \<Rightarrow> status_spawn \<times> sup_world" where
  "tracked_exit os path st w =
     (let (outcome, w) = link_status_final os path w in
      (Ss_Exited (classify_exit st) outcome, log_add (Log_Ended (classify_exit st) (Some outcome)) w))"

lemma settled_world: "link_status_settled os path w = (b, v) \<Longrightarrow> v = sup_tick os w"
  by (auto simp: link_status_settled_def read_to_string_def split: option.splits)

lemma try_wait_world: "try_wait os w = (r, v) \<Longrightarrow> v = sup_tick os w"
  by (simp add: try_wait_def)

text \<open>The bounded phase: it ends with a result, or with none once the status file has a record.\<close>

function tracked_loop ::
  "sup_os \<Rightarrow> bytes \<Rightarrow> nat \<Rightarrow> bool \<Rightarrow> sup_world \<Rightarrow> (eversh_error + status_spawn option) \<times> sup_world" where
  "tracked_loop os path deadline termios w =
     (case try_wait os w of
        (Inl e, w) \<Rightarrow> (Inl e, w)
      | (Inr (Some st), w) \<Rightarrow> let (r, w) = tracked_exit os path st w in (Inr (Some r), w)
      | (Inr None, w) \<Rightarrow>
          let (settled, w) = link_status_settled os path w in
          if settled then (Inr None, w)
          else
            let (now, w) = clock_now os w in
            if deadline \<le> now then
              let w = kill_child os w; w = (if termios then restore_termios os w else w) in
              (Inr (Some Ss_DeadlineExceeded), w)
            else
              let (now, w) = clock_now os w in
              tracked_loop os path deadline termios (thread_sleep os (poll_interval deadline now) w))"
  by pat_completeness auto
termination
proof (relation "measure (\<lambda>(os, path, deadline, termios, w). deadline - sw_now w)", goal_cases)
  case (2 os path deadline termios w r w1 z xa settled w2 xc now w3 xe now' w4)
  then have w1: "w1 = sup_tick os w" and w2: "w2 = sup_tick os w1"
    using try_wait_world [of os w r w1] settled_world [of os path w1 settled w2] by simp_all
  from 2 have "w3 = sup_tick os w2" "now = sw_now w3" "w4 = sup_tick os w3" "now' = sw_now w4"
    by (auto simp: clock_now_def Let_def)
  with 2 w1 w2 show ?case by (simp add: poll_progress tick_now_trans)
qed simp

declare tracked_loop.simps [simp del]

definition spawn_link_tracked ::
  "sup_os \<Rightarrow> sup_config \<Rightarrow> bytes list \<Rightarrow> bytes \<Rightarrow> nat option \<Rightarrow> sup_world \<Rightarrow> (eversh_error + status_spawn) \<times> sup_world" where
  "spawn_link_tracked os config args path deadline w =
     (let (termios, w) = (if deadline \<noteq> None then captured_termios os w else (False, w)) in
      then_do (spawn_child os (cfg_ssh_program config) args w) (\<lambda>_ w.
      then_do (case deadline of Some d \<Rightarrow> tracked_loop os path d termios w | None \<Rightarrow> (Inr None, w)) (\<lambda>early w.
      case early of
        Some r \<Rightarrow> (Inr r, w)
      | None \<Rightarrow>
          then_do (wait_child os w) (\<lambda>st w.
          let (r, w) = tracked_exit os path st w in (Inr r, w)))))"

datatype spawn_outcome =
    So_Remote u8 | So_SshSignaled int | So_SshFailedCleanClose | So_TransportAfterFailure bool

definition classify_status_spawn :: "exit_kind \<Rightarrow> link_outcome \<Rightarrow> spawn_outcome" where
  "classify_status_spawn exit status =
     (case exit of
        Ek_Signaled s \<Rightarrow> So_SshSignaled s
      | Ek_Code code \<Rightarrow>
          if code = SSH_FAILURE then
            (case status of
               Lo_CleanClose \<Rightarrow> So_SshFailedCleanClose
             | Lo_TransportFailure carried \<Rightarrow> So_TransportAfterFailure carried)
          else So_Remote code)"

section \<open>Probes\<close>

datatype probe_status =
    Probe_Live | Probe_NotLive | Probe_Unreachable | Probe_Failed u8 | Probe_Signaled int | Probe_DeadlineExceeded

definition probe_verdict :: "bounded_exit \<Rightarrow> probe_status" where
  "probe_verdict r =
     (case r of
        Be_DeadlineExceeded \<Rightarrow> Probe_DeadlineExceeded
      | Be_Exited (Ek_Code code) \<Rightarrow>
          if code = 0 then Probe_Live
          else if code = PROBE_NOT_LIVE_EXIT then Probe_NotLive
          else if code = SSH_FAILURE then Probe_Unreachable
          else Probe_Failed code
      | Be_Exited (Ek_Signaled s) \<Rightarrow> Probe_Signaled s)"

text \<open>The argument vector of one remote operation.\<close>

definition operation_args ::
  "sup_config \<Rightarrow> bytes list \<Rightarrow> bytes \<Rightarrow> remote_op \<Rightarrow> bool \<Rightarrow> bytes option \<Rightarrow> eversh_error + bytes list" where
  "operation_args config ssh_options host op interactive status_file =
     try_bind (proxy_for config ssh_options status_file) (\<lambda>proxy.
     try_bind (remote_words (cfg_remote_eversh config) op (cfg_limits config)) (\<lambda>words.
     outer_ssh_args proxy ssh_options host words interactive))"

definition probe ::
  "sup_os \<Rightarrow> sup_config \<Rightarrow> bytes \<Rightarrow> bytes \<Rightarrow> bytes list \<Rightarrow> nat \<Rightarrow> sup_world \<Rightarrow> (eversh_error + probe_status) \<times> sup_world" where
  "probe os config host session ssh_options deadline w =
     with_status os (allocate_status_file os config w) (\<lambda>path w.
     then_do (operation_args config ssh_options host (Rop_Probe session) False (Some path), w) (\<lambda>args w.
     then_do (spawn_quiet_bounded os config args deadline w) (\<lambda>r w.
     (Inr (probe_verdict r), w))))"

section \<open>Backoff\<close>

definition U64_MAX :: nat where "U64_MAX = 2 ^ 64 - 1"
definition U32_MAX :: nat where "U32_MAX = 2 ^ 32 - 1"

definition jitter_below :: "sup_os \<Rightarrow> nat \<Rightarrow> sup_world \<Rightarrow> nat \<times> sup_world" where
  "jitter_below os bound w =
     (if bound \<le> 1 then (0, w) else (so_hash os (sw_calls w) mod bound, sup_tick os w))"

definition backoff_raw :: "nat \<Rightarrow> eversh_limits \<Rightarrow> nat" where
  "backoff_raw attempt limits =
     (let shift = min (attempt - 1) 20 in
      min (min (unat (retry_backoff_base_ms limits) * 2 ^ shift) U64_MAX) (unat (retry_backoff_cap_ms limits)))"

text \<open>In milliseconds.\<close>

definition backoff_delay :: "sup_os \<Rightarrow> nat \<Rightarrow> eversh_limits \<Rightarrow> sup_world \<Rightarrow> nat \<times> sup_world" where
  "backoff_delay os attempt limits w =
     (let raw = backoff_raw attempt limits; (jitter, w) = jitter_below os (raw div 2 + 1) w in
      (min (raw + jitter) U64_MAX, w))"

section \<open>One reconnect episode\<close>

record session_run =
  run_host :: bytes
  run_name :: bytes
  run_take_over :: bool
  run_ssh_options :: "bytes list"
  run_observer :: bool

datatype reconnect_outcome = Ro_Terminal session_end | Ro_RestartEpisode

text \<open>What a turn of the episode's loop comes to: the result, or the next turn's attempt, whether
  the last cause was Busy, and the streak of Busy answers.\<close>

datatype episode_turn = Turn_Done reconnect_outcome | Turn_Again u32 bool u32

definition transport_failed :: "transport_failure \<Rightarrow> episode_turn" where
  "transport_failed f = Turn_Done (Ro_Terminal (End_TransportFailed f))"

definition reattach_op :: "session_run \<Rightarrow> remote_op" where
  "reattach_op run =
     (if run_observer run then Rop_Observe (run_name run)
      else Rop_Attach (run_name run)
        \<lparr>cr_take_over = run_take_over run, cr_origins = [], cr_child_argv = [], cr_colorterm = []\<rparr>)"

definition reattach_verdict ::
  "session_run \<Rightarrow> u32 \<Rightarrow> u32 \<Rightarrow> status_spawn \<Rightarrow> sup_world \<Rightarrow> episode_turn \<times> sup_world" where
  "reattach_verdict run attempt streak r w =
     (case r of
        Ss_DeadlineExceeded \<Rightarrow> (transport_failed Tf_DeadlineExceeded, sup_notify Nt_RetryDeadlineExceeded w)
      | Ss_Exited exit status \<Rightarrow>
         (case classify_status_spawn exit status of
            So_TransportAfterFailure True \<Rightarrow> (Turn_Done Ro_RestartEpisode, w)
          | So_TransportAfterFailure False \<Rightarrow> (Turn_Again attempt False 0, sup_notify (Nt_TransportInterrupted attempt) w)
          | So_SshFailedCleanClose \<Rightarrow> (Turn_Done (Ro_Terminal End_SshFailed), sup_notify Nt_SshFailed w)
          | So_Remote code \<Rightarrow>
              if code = REMOTE_BUSY_EXIT \<and> \<not> run_observer run
              then (Turn_Again attempt True (streak + 1), sup_notify (Nt_ReattachBusy (run_name run) attempt) w)
              else (Turn_Done (Ro_Terminal (End_Remote code)), w)
          | So_SshSignaled s \<Rightarrow> (Turn_Done (Ro_Terminal (End_SshSignaled s)), w)))"

definition reattach ::
  "sup_os \<Rightarrow> sup_config \<Rightarrow> session_run \<Rightarrow> nat \<Rightarrow> u32 \<Rightarrow> u32 \<Rightarrow> sup_world \<Rightarrow> (eversh_error + episode_turn) \<times> sup_world" where
  "reattach os config run deadline attempt streak w =
     (let w = sup_notify (Nt_Reattaching (run_name run) attempt) w in
      with_status os (allocate_status_file os config w) (\<lambda>path w.
      then_do (operation_args config (run_ssh_options run) (run_host run) (reattach_op run) (\<not> run_observer run) (Some path), w) (\<lambda>args w.
      then_do (spawn_link_tracked os config args path (Some deadline) w) (\<lambda>r w.
      let (turn, w) = reattach_verdict run attempt streak r w in (Inr turn, w)))))"

definition after_probe ::
  "sup_os \<Rightarrow> sup_config \<Rightarrow> session_run \<Rightarrow> nat \<Rightarrow> u32 \<Rightarrow> u32 \<Rightarrow> probe_status \<Rightarrow> sup_world
   \<Rightarrow> (eversh_error + episode_turn) \<times> sup_world" where
  "after_probe os config run deadline attempt streak p w =
     (case p of
        Probe_Live \<Rightarrow> reattach os config run deadline attempt streak (sup_notify (Nt_SessionLive attempt) w)
      | Probe_NotLive \<Rightarrow> (Inr (transport_failed Tf_SessionGone), sup_notify (Nt_SessionGone (run_name run)) w)
      | Probe_Unreachable \<Rightarrow> (Inr (Turn_Again attempt False 0), sup_notify (Nt_ProbeUnreachable attempt) w)
      | Probe_Failed code \<Rightarrow> (Inr (transport_failed (Tf_ProbeFailed code)), sup_notify (Nt_ProbeFailed code) w)
      | Probe_Signaled s \<Rightarrow> (Inr (transport_failed (Tf_ProbeSignaled s)), w)
      | Probe_DeadlineExceeded \<Rightarrow> (Inr (transport_failed Tf_DeadlineExceeded), sup_notify Nt_RetryDeadlineExceeded w))"

text \<open>From the backoff on, with the attempt already charged.\<close>

definition reconnect_try ::
  "sup_os \<Rightarrow> sup_config \<Rightarrow> session_run \<Rightarrow> nat \<Rightarrow> u32 \<Rightarrow> bool \<Rightarrow> u32 \<Rightarrow> sup_world
   \<Rightarrow> (eversh_error + episode_turn) \<times> sup_world" where
  "reconnect_try os config run deadline attempt last_busy streak w =
     (let (delay, w) = backoff_delay os (min (unat attempt + unat streak) U32_MAX) (cfg_limits config) w;
          (now, w) = clock_now os w
      in
      if deadline \<le> now + from_millis delay then
        (Inr (transport_failed (if last_busy then Tf_Busy else Tf_DeadlineExceeded)), sup_notify Nt_RetryDeadlineExceeded w)
      else
        let w = sup_notify (Nt_Backoff attempt delay) w; w = thread_sleep os (from_millis delay) w;
            w = sup_notify (Nt_Probing (run_name run) attempt) w
        in
        then_do (probe os config (run_host run) (run_name run) (run_ssh_options run) deadline w)
          (after_probe os config run deadline attempt streak))"

definition reconnect_turn ::
  "sup_os \<Rightarrow> sup_config \<Rightarrow> session_run \<Rightarrow> nat \<Rightarrow> u32 \<Rightarrow> bool \<Rightarrow> u32 \<Rightarrow> sup_world
   \<Rightarrow> (eversh_error + episode_turn) \<times> sup_world" where
  "reconnect_turn os config run deadline attempt last_busy streak w =
     (let attempt = (if last_busy then attempt else attempt + 1) in
      if \<not> last_busy \<and> retry_attempts_max (cfg_limits config) < attempt then
        (Inr (transport_failed Tf_AttemptsExhausted),
         sup_notify (Nt_RetryExhausted (retry_attempts_max (cfg_limits config))) w)
      else reconnect_try os config run deadline attempt last_busy streak w)"

partial_function (option) reconnect_loop ::
  "sup_os \<Rightarrow> sup_config \<Rightarrow> session_run \<Rightarrow> nat \<Rightarrow> u32 \<Rightarrow> bool \<Rightarrow> u32 \<Rightarrow> sup_world
   \<Rightarrow> ((eversh_error + reconnect_outcome) \<times> sup_world) option" where
  "reconnect_loop os config run deadline attempt last_busy streak w =
     (case reconnect_turn os config run deadline attempt last_busy streak w of
        (Inl e, w) \<Rightarrow> Some (Inl e, w)
      | (Inr (Turn_Done r), w) \<Rightarrow> Some (Inr r, w)
      | (Inr (Turn_Again attempt last_busy streak), w) \<Rightarrow>
          reconnect_loop os config run deadline attempt last_busy streak w)"

definition reconnect ::
  "sup_os \<Rightarrow> sup_config \<Rightarrow> session_run \<Rightarrow> bool \<Rightarrow> sup_world \<Rightarrow> ((eversh_error + reconnect_outcome) \<times> sup_world) option" where
  "reconnect os config run drain_old_association w =
     (let w = (if drain_old_association
               then thread_sleep os (from_millis (unat (association_drain_ms (cfg_limits config)))) w else w);
          (now, w) = clock_now os w
      in reconnect_loop os config run (now + from_millis (unat (retry_deadline_ms (cfg_limits config)))) 0 False 0 w)"

section \<open>An invocation\<close>

fun spawn_outcome_to_session_end :: "spawn_outcome \<Rightarrow> session_end option" where
  "spawn_outcome_to_session_end (So_Remote code) = Some (End_Remote code)"
| "spawn_outcome_to_session_end (So_SshSignaled s) = Some (End_SshSignaled s)"
| "spawn_outcome_to_session_end So_SshFailedCleanClose = Some End_SshFailed"
| "spawn_outcome_to_session_end (So_TransportAfterFailure carried) = None"

partial_function (option) episode_loop ::
  "sup_os \<Rightarrow> sup_config \<Rightarrow> session_run \<Rightarrow> bool \<Rightarrow> u32 \<Rightarrow> sup_world \<Rightarrow> ((eversh_error + session_end) \<times> sup_world) option" where
  "episode_loop os config run drain restarts w =
     Option.bind (reconnect os config run drain w) (\<lambda>(r, w).
     case r of
       Inl e \<Rightarrow> Some (Inl e, w)
     | Inr (Ro_Terminal end_of) \<Rightarrow> Some (Inr end_of, w)
     | Inr Ro_RestartEpisode \<Rightarrow>
         if episode_restarts_max (cfg_limits config) < restarts + 1 then
           Some (Inr (End_TransportFailed Tf_RestartsExhausted),
             sup_notify (Nt_EpisodeRestartsExhausted (episode_restarts_max (cfg_limits config))) w)
         else episode_loop os config run drain (restarts + 1) w)"

definition first_spawn ::
  "sup_os \<Rightarrow> sup_config \<Rightarrow> session_run \<Rightarrow> remote_op \<Rightarrow> sup_world \<Rightarrow> (eversh_error + status_spawn) \<times> sup_world" where
  "first_spawn os config run first_op w =
     with_status os (allocate_status_file os config w) (\<lambda>path w.
     then_do (operation_args config (run_ssh_options run) (run_host run) first_op (rop_interactive first_op) (Some path), w) (\<lambda>args w.
     spawn_link_tracked os config args path None w))"

definition run_with_reconnect ::
  "sup_os \<Rightarrow> sup_config \<Rightarrow> session_run \<Rightarrow> remote_op \<Rightarrow> sup_world \<Rightarrow> ((eversh_error + session_end) \<times> sup_world) option" where
  "run_with_reconnect os config run first_op w =
     (case try_bind (eversh_limits_validate (cfg_limits config)) (\<lambda>_. validate_host (run_host run)) of
        Inl e \<Rightarrow> Some (Inl e, w)
      | Inr _ \<Rightarrow>
         (case first_spawn os config run first_op w of
            (Inl e, w) \<Rightarrow> Some (Inl e, w)
          | (Inr Ss_DeadlineExceeded, w) \<Rightarrow> Some (Inr (End_TransportFailed Tf_DeadlineExceeded), w)
          | (Inr (Ss_Exited exit status), w) \<Rightarrow>
             (let classified_spawn = classify_status_spawn exit status in
              case spawn_outcome_to_session_end classified_spawn of
                Some end_of \<Rightarrow> Some (Inr end_of, if end_of = End_SshFailed then sup_notify Nt_SshFailed w else w)
              | None \<Rightarrow>
                  episode_loop os config run (classified_spawn = So_TransportAfterFailure True) 0 w)))"

definition connect ::
  "sup_os \<Rightarrow> sup_config \<Rightarrow> bytes \<Rightarrow> bytes \<Rightarrow> bool \<Rightarrow> bytes list \<Rightarrow> bytes list \<Rightarrow> sup_world
   \<Rightarrow> ((eversh_error + session_end) \<times> sup_world) option" where
  "connect os config host session take_over child_argv ssh_options w =
     (if \<not> valid_session_name session (cfg_limits config) then Some (Inl Ee_NameInvalid, w)
      else
        run_with_reconnect os config
          \<lparr>run_host = host, run_name = session, run_take_over = take_over, run_ssh_options = ssh_options, run_observer = False\<rparr>
          (Rop_AttachOrCreate session
            \<lparr>cr_take_over = take_over, cr_origins = [origin_label (cfg_local_host config)], cr_child_argv = child_argv,
             cr_colorterm = cfg_colorterm config\<rparr>) w)"

definition attach_session ::
  "sup_os \<Rightarrow> sup_config \<Rightarrow> bytes \<Rightarrow> bytes \<Rightarrow> bool \<Rightarrow> bytes list \<Rightarrow> sup_world
   \<Rightarrow> ((eversh_error + session_end) \<times> sup_world) option" where
  "attach_session os config host session take_over ssh_options w =
     run_with_reconnect os config
       \<lparr>run_host = host, run_name = session, run_take_over = take_over, run_ssh_options = ssh_options, run_observer = False\<rparr>
       (Rop_Attach session \<lparr>cr_take_over = take_over, cr_origins = [], cr_child_argv = [], cr_colorterm = []\<rparr>) w"

definition observe_session ::
  "sup_os \<Rightarrow> sup_config \<Rightarrow> bytes \<Rightarrow> bytes \<Rightarrow> bytes list \<Rightarrow> sup_world
   \<Rightarrow> ((eversh_error + session_end) \<times> sup_world) option" where
  "observe_session os config host session ssh_options w =
     run_with_reconnect os config
       \<lparr>run_host = host, run_name = session, run_take_over = False, run_ssh_options = ssh_options, run_observer = True\<rparr>
       (Rop_Observe session) w"

definition generated_session_name :: "nat \<Rightarrow> eversh_limits \<Rightarrow> bytes" where
  "generated_session_name nanos limits = take (session_name_max limits) (str_bytes ''s'' @ to_dec nanos)"

end
