(* ===== verification/Eversh_Supervisor_Spec.thy ===== *)
theory Eversh_Supervisor_Spec
  imports Eversh_Supervisor
begin

text \<open>
  What the supervisor promises, as a protocol over its log: the order in which it may spawn
  children, which operation each child carries, what an exit allows next, and that every status
  file it creates is removed. The detailed definitions of \<open>Eversh_Supervisor\<close> follow the
  protocol for every behaviour of the system; they return, and the number of children is bounded.
\<close>

section \<open>The protocol\<close>

text \<open>\<open>Ph_Lost\<close>: the transport died or the session is busy; \<open>Ph_Rested\<close>: and a backoff has passed;
  \<open>Ph_Live\<close>: a probe has just found the broker alive; \<open>Ph_Over\<close>: nothing may follow.\<close>

datatype sup_phase =
    Ph_Start | Ph_First | Ph_Lost | Ph_Rested | Ph_Probing | Ph_Live | Ph_Reattaching
  | Ph_Over exit_kind "link_outcome option" | Ph_GivenUp

text \<open>A status file exists while one is open.\<close>

type_synonym sup_state = "sup_phase \<times> bytes option"

text \<open>\<open>task_drains\<close>: the first child's transport died after it had carried the session, which is what
  entitles the invocation to wait for the old association to drain.\<close>

record sup_task =
  task_config :: sup_config
  task_run :: session_run
  task_first :: remote_op
  task_drains :: bool

text \<open>The longest sleep other than a drain: a backoff with its jitter, or a poll.\<close>

definition short_sleep :: "sup_config \<Rightarrow> nat" where
  "short_sleep config =
     (let cap = unat (retry_backoff_cap_ms (cfg_limits config)) in max (from_millis 20) (from_millis (cap + cap div 2)))"

definition sleep_allowed :: "sup_task \<Rightarrow> sup_phase \<Rightarrow> nat \<Rightarrow> bool" where
  "sleep_allowed t ph d \<longleftrightarrow>
     d \<le> short_sleep (task_config t)
     \<or> task_drains t \<and> ph = Ph_Lost \<and> d = from_millis (unat (association_drain_ms (cfg_limits (task_config t))))"

definition task_args :: "sup_task \<Rightarrow> remote_op \<Rightarrow> bool \<Rightarrow> bytes \<Rightarrow> eversh_error + bytes list" where
  "task_args t op interactive path =
     operation_args (task_config t) (run_ssh_options (task_run t)) (run_host (task_run t)) op interactive (Some path)"

text \<open>The only operation that may follow the first: the same session, attached to and never created.\<close>

definition same_session_op :: "session_run \<Rightarrow> remote_op" where
  "same_session_op run =
     (if run_observer run then Rop_Observe (run_name run)
      else Rop_Attach (run_name run)
        \<lparr>cr_take_over = run_take_over run, cr_origins = [], cr_child_argv = [], cr_colorterm = []\<rparr>)"

lemma reattach_op_same: "reattach_op run = same_session_op run"
  by (simp add: reattach_op_def same_session_op_def)

fun spawn_phase :: "sup_task \<Rightarrow> sup_phase \<Rightarrow> bytes \<Rightarrow> bytes list \<Rightarrow> sup_phase option" where
  "spawn_phase t Ph_Start path args =
     (if task_args t (task_first t) (rop_interactive (task_first t)) path = Inr args then Some Ph_First else None)"
| "spawn_phase t Ph_Rested path args =
     (if task_args t (Rop_Probe (run_name (task_run t))) False path = Inr args then Some Ph_Probing else None)"
| "spawn_phase t Ph_Live path args =
     (if task_args t (same_session_op (task_run t)) (\<not> run_observer (task_run t)) path = Inr args then Some Ph_Reattaching else None)"
| "spawn_phase t _ path args = None"

text \<open>What an exit means: 255 is ssh's own failure, resolved by the link status; Busy of a writer's
  reattach is a loss; anything else is the end.\<close>

definition carried_exit :: "bool \<Rightarrow> exit_kind \<Rightarrow> link_outcome \<Rightarrow> sup_phase" where
  "carried_exit busy exit status =
     (if exit = Ek_Code 255 \<and> status \<noteq> Lo_CleanClose \<or> exit = Ek_Code 3 \<and> busy then Ph_Lost
      else Ph_Over exit (Some status))"

definition carried_death :: "exit_kind \<Rightarrow> link_outcome \<Rightarrow> bool" where
  "carried_death exit status \<longleftrightarrow> exit = Ek_Code 255 \<and> status = Lo_TransportFailure True"

fun exit_phase :: "sup_task \<Rightarrow> sup_phase \<Rightarrow> exit_kind \<Rightarrow> link_outcome option \<Rightarrow> sup_phase option" where
  "exit_phase t Ph_First exit (Some status) =
     (if task_drains t = carried_death exit status then Some (carried_exit False exit status) else None)"
| "exit_phase t Ph_Reattaching exit (Some status) = Some (carried_exit (\<not> run_observer (task_run t)) exit status)"
| "exit_phase t Ph_Probing exit None =
     Some (if exit = Ek_Code 0 then Ph_Live else if exit = Ek_Code 255 then Ph_Lost else Ph_Over exit None)"
| "exit_phase t _ exit status = None"

fun sup_step :: "sup_task \<Rightarrow> sup_state \<Rightarrow> sup_log \<Rightarrow> sup_state option" where
  "sup_step t (ph, file) (Log_Spawn program args) =
     (case file of
        None \<Rightarrow> None
      | Some path \<Rightarrow>
          if program = cfg_ssh_program (task_config t)
          then map_option (\<lambda>ph. (ph, file)) (spawn_phase t ph path args) else None)"
| "sup_step t (ph, file) (Log_Ended exit status) = map_option (\<lambda>ph. (ph, file)) (exit_phase t ph exit status)"
| "sup_step t (ph, file) Log_Killed = (if ph = Ph_Probing \<or> ph = Ph_Reattaching then Some (Ph_GivenUp, file) else None)"
| "sup_step t (ph, file) (Log_Slept d) =
     (if sleep_allowed t ph d
      then Some (if ph = Ph_Lost \<and> from_millis (unat (retry_backoff_base_ms (cfg_limits (task_config t)))) \<le> d then Ph_Rested else ph, file)
      else None)"
| "sup_step t (ph, file) (Log_Created path) = (if file = None then Some (ph, Some path) else None)"
| "sup_step t (ph, file) (Log_Removed path) = (if file = Some path then Some (ph, None) else None)"
| "sup_step t (ph, file) Log_Restored = (if ph = Ph_GivenUp then Some (ph, file) else None)"
| "sup_step t (ph, file) (Log_Notify n) = Some (ph, file)"

fun sup_steps :: "sup_task \<Rightarrow> sup_state \<Rightarrow> sup_log list \<Rightarrow> sup_state option" where
  "sup_steps t s [] = Some s"
| "sup_steps t s (e # es) = Option.bind (sup_step t s e) (\<lambda>s. sup_steps t s es)"

text \<open>The phase in which an invocation ends with a result.\<close>

fun end_phase :: "session_end \<Rightarrow> sup_phase \<Rightarrow> bool" where
  "end_phase (End_Remote code) ph = (code \<noteq> 255 \<and> (case ph of Ph_Over exit (Some status) \<Rightarrow> exit = Ek_Code code | _ \<Rightarrow> False))"
| "end_phase (End_SshSignaled s) ph = (case ph of Ph_Over exit (Some status) \<Rightarrow> exit = Ek_Signaled s | _ \<Rightarrow> False)"
| "end_phase End_SshFailed ph = (ph = Ph_Over (Ek_Code 255) (Some Lo_CleanClose))"
| "end_phase (End_TransportFailed f) ph =
     (case f of
        Tf_SessionGone \<Rightarrow> ph = Ph_Over (Ek_Code 5) None
      | Tf_ProbeFailed code \<Rightarrow> ph = Ph_Over (Ek_Code code) None
      | Tf_ProbeSignaled s \<Rightarrow> ph = Ph_Over (Ek_Signaled s) None
      | Tf_DeadlineExceeded \<Rightarrow> ph \<in> {Ph_Lost, Ph_Rested, Ph_GivenUp}
      | _ \<Rightarrow> ph \<in> {Ph_Lost, Ph_Rested})"

section \<open>Moves\<close>

text \<open>The log grows by entries that the protocol accepts, and the clock does not go back.\<close>

definition sup_moves :: "sup_task \<Rightarrow> sup_state \<Rightarrow> sup_world \<Rightarrow> sup_state \<Rightarrow> sup_world \<Rightarrow> bool" where
  "sup_moves t s w s' w' \<longleftrightarrow>
     sw_now w \<le> sw_now w' \<and> (\<exists>es. sw_log w' = sw_log w @ es \<and> sup_steps t s es = Some s')"

lemma sup_steps_append: "sup_steps t s (xs @ ys) = Option.bind (sup_steps t s xs) (\<lambda>s. sup_steps t s ys)"
  by (induction xs arbitrary: s) (auto simp: Option.bind_eq_Some_conv split: Option.bind_splits)

lemma sup_moves_refl: "sup_moves t s w s w"
  unfolding sup_moves_def by (auto intro: exI [of _ "[]"])

lemma sup_moves_trans [trans]:
  "sup_moves t s w s' w' \<Longrightarrow> sup_moves t s' w' s'' w'' \<Longrightarrow> sup_moves t s w s'' w''"
  unfolding sup_moves_def by (fastforce simp: sup_steps_append)

lemma sup_moves_tick: "sup_moves t s w s (sup_tick os w)"
  unfolding sup_moves_def by (auto simp: sup_tick_now intro: exI [of _ "[]"])

lemma sup_moves_log: "sup_step t s e = Some s' \<Longrightarrow> sup_moves t s w s' (log_add e w)"
  unfolding sup_moves_def by (auto intro!: exI [of _ "[e]"])

lemma sup_moves_then_tick: "sup_moves t s w s' w' \<Longrightarrow> sup_moves t s w s' (sup_tick os w')"
  using sup_moves_trans sup_moves_tick by blast

lemma sup_moves_then_log: "sup_moves t s w s' w' \<Longrightarrow> sup_step t s' e = Some s'' \<Longrightarrow> sup_moves t s w s'' (log_add e w')"
  using sup_moves_trans sup_moves_log by blast

lemma sup_step_notify [simp]: "sup_step t s (Log_Notify n) = Some s"
  by (cases s) simp

lemma sup_moves_notify: "sup_moves t s w s' w' \<Longrightarrow> sup_moves t s w s' (sup_notify n w')"
  by (simp add: sup_notify_def sup_moves_then_log)

lemma sup_moves_sleep: "sup_step t s (Log_Slept d) = Some s' \<Longrightarrow> sup_moves t s w s' (thread_sleep os d w)"
  unfolding sup_moves_def using sup_tick_now [of w os]
  by (auto intro!: exI [of _ "[Log_Slept d]"] simp: trans_le_add1)

lemma sup_moves_then_sleep:
  "sup_moves t s w s' w' \<Longrightarrow> sup_step t s' (Log_Slept d) = Some s'' \<Longrightarrow> sup_moves t s w s'' (thread_sleep os d w')"
  using sup_moves_trans sup_moves_sleep by blast

text \<open>A wait sleeps in a phase of its own.\<close>

definition waiting :: "sup_state \<Rightarrow> bool" where "waiting s \<longleftrightarrow> fst s \<noteq> Ph_Lost"

lemma short_allowed: "d \<le> from_millis 20 \<Longrightarrow> sleep_allowed t ph d"
  by (simp add: sleep_allowed_def short_sleep_def Let_def le_max_iff_disj)

lemma backoff_allowed:
  "ms \<le> unat (retry_backoff_cap_ms (cfg_limits (task_config t))) + unat (retry_backoff_cap_ms (cfg_limits (task_config t))) div 2
   \<Longrightarrow> sleep_allowed t ph (from_millis ms)"
  by (simp add: sleep_allowed_def short_sleep_def Let_def le_max_iff_disj from_millis_def)

lemma poll_allowed [simp]: "sleep_allowed t ph (poll_interval deadline now)"
  by (rule short_allowed) (simp add: poll_interval_def WAIT_POLL_INTERVAL_def)

lemma status_poll_allowed [simp]: "sleep_allowed t ph (from_millis 10)"
  by (rule short_allowed) (simp add: from_millis_def)

lemma waiting_sleep: "waiting s \<Longrightarrow> sup_step t s (Log_Slept (from_millis 10)) = Some s"
  by (cases s) (simp add: waiting_def)

lemmas sup_moves_intros = sup_moves_refl sup_moves_then_tick sup_moves_notify

section \<open>Waits\<close>

lemma link_status_loop_moves:
  "waiting s \<Longrightarrow> link_status_loop os path prompt c w = (r, w') \<Longrightarrow> sup_moves t s w s w'"
proof (induction os path prompt c w arbitrary: r w' rule: link_status_loop.induct)
  case (1 os path prompt c w)
  obtain content w1 where r: "read_to_string os path w = (content, w1)" by fastforce
  have m1: "sup_moves t s w s w1" by (simp add: read_world [OF r] sup_moves_tick)
  show ?case
  proof (cases "\<exists>body. content = Some body \<and> parse_link_status body = None")
    case False
    then show ?thesis using 1(3) r m1 by (auto simp: link_status_loop.simps split: option.splits)
  next
    case True
    then obtain body where b: "content = Some body" "parse_link_status body = None" by auto
    obtain d c' w2 where sd: "status_deadline os body prompt c w1 = (d, c', w2)" using prod_cases3 by blast
    obtain now w3 where n: "clock_now os w2 = (now, w3)" by fastforce
    have m3: "sup_moves t s w s w3"
      using m1 status_deadline_world [OF sd] n by (auto simp: clock_world sup_moves_intros)
    have E: "link_status_loop os path prompt c w =
        (if d \<le> now then (Lo_TransportFailure False, w3) else link_status_loop os path prompt c' (thread_sleep os (from_millis 10) w3))"
      by (simp add: link_status_loop.simps [of os path prompt c w] r b sd n)
    show ?thesis
    proof (cases "d \<le> now")
      case False
      with 1(3) E have "link_status_loop os path prompt c' (thread_sleep os (from_millis 10) w3) = (r, w')" by simp
      from 1(1) [OF r [symmetric] b sd [symmetric] refl n [symmetric] False 1(2) this] 1(2) m3 show ?thesis
        by (blast intro: sup_moves_trans sup_moves_then_sleep waiting_sleep)
    qed (use 1(3) E m3 in simp)
  qed
qed

lemma link_status_final_moves:
  "waiting s \<Longrightarrow> link_status_final os path w = (r, w') \<Longrightarrow> sup_moves t s w s w'"
  unfolding link_status_final_def Let_def
  by (auto simp: clock_world split: prod.splits intro: sup_moves_trans sup_moves_tick link_status_loop_moves)

lemma wait_bounded_child_moves:
  "wait_bounded_child os d w = (r, w') \<Longrightarrow>
   \<exists>ph. sup_moves t (Ph_Probing, f) w (ph, f) w'
     \<and> (case r of
          Inl e \<Rightarrow> True
        | Inr (Be_Exited exit) \<Rightarrow> exit_phase t Ph_Probing exit None = Some ph
        | Inr Be_DeadlineExceeded \<Rightarrow> ph = Ph_GivenUp)"
proof (induction os d w arbitrary: r w' rule: wait_bounded_child.induct)
  case (1 os d w)
  obtain a w1 where a: "try_wait os w = (a, w1)" by fastforce
  have m1: "sup_moves t (Ph_Probing, f) w (Ph_Probing, f) w1"
    using try_wait_world [OF a] by (simp add: sup_moves_tick)
  show ?case
  proof (cases a)
    case (Inl e)
    then show ?thesis using 1(2) a m1 by (auto simp: wait_bounded_child.simps)
  next
    case (Inr st)
    show ?thesis
    proof (cases st)
      case (Some st)
      then show ?thesis using 1(2) a m1 Inr
        by (auto simp: wait_bounded_child.simps intro!: sup_moves_then_log)
    next
      case None
      obtain now w2 where n: "clock_now os w1 = (now, w2)" by fastforce
      obtain now' w3 where n': "clock_now os w2 = (now', w3)" by fastforce
      have E: "wait_bounded_child os d w = (if d \<le> now then (Inr Be_DeadlineExceeded, kill_child os w2)
          else wait_bounded_child os d (thread_sleep os (poll_interval d now') w3))"
        by (simp add: wait_bounded_child.simps [of os d w] a Inr None n n')
      have m3: "sup_moves t (Ph_Probing, f) w (Ph_Probing, f) w2" "sup_moves t (Ph_Probing, f) w (Ph_Probing, f) w3"
        using m1 n n' by (auto simp: clock_world sup_moves_intros)
      show ?thesis
      proof (cases "d \<le> now")
        case True
        then have "sup_moves t (Ph_Probing, f) w (Ph_GivenUp, f) w'"
          using 1(2) E m3(1) by (auto simp: kill_child_def intro!: sup_moves_then_log sup_moves_then_tick)
        then show ?thesis using True 1(2) E by auto
      next
        case False
        with 1(2) E have e: "wait_bounded_child os d (thread_sleep os (poll_interval d now') w3) = (r, w')" by simp
        have "sup_moves t (Ph_Probing, f) w (Ph_Probing, f) (thread_sleep os (poll_interval d now') w3)"
          using m3(2) by (simp add: sup_moves_then_sleep)
        with 1(1) [OF a [symmetric] Inr None n [symmetric] refl False n' [symmetric] refl e]
        show ?thesis using sup_moves_trans by blast
      qed
    qed
  qed
qed

text \<open>The phases in which a tracked child runs.\<close>

definition tracked_phase :: "sup_phase \<Rightarrow> bool" where
  "tracked_phase ph \<longleftrightarrow> ph = Ph_First \<or> ph = Ph_Reattaching"

lemma tracked_exit_moves:
  assumes "tracked_phase ph" "tracked_exit os path st w = (r, w')"
    and "ph = Ph_First \<longrightarrow> (\<forall>exit out. r = Ss_Exited exit out \<longrightarrow> task_drains t = carried_death exit out)"
  shows "\<exists>exit out ph'. r = Ss_Exited exit out \<and> exit_phase t ph exit (Some out) = Some ph' \<and> sup_moves t (ph, f) w (ph', f) w'"
proof -
  obtain out w1 where o: "link_status_final os path w = (out, w1)" by fastforce
  have m: "sup_moves t (ph, f) w (ph, f) w1"
    by (rule link_status_final_moves [OF _ o]) (use assms(1) in \<open>auto simp: waiting_def tracked_phase_def\<close>)
  have "r = Ss_Exited (classify_exit st) out" using assms(2) o by (simp add: tracked_exit_def)
  with assms(1,3) obtain ph' where "exit_phase t ph (classify_exit st) (Some out) = Some ph'"
    by (auto simp: tracked_phase_def)
  with assms(2) o m show ?thesis
    by (auto simp: tracked_exit_def intro!: exI [of _ ph'] sup_moves_then_log)
qed

lemma tracked_loop_moves:
  "tracked_loop os path d termios w = (r, w') \<Longrightarrow>
   \<exists>ph. sup_moves t (Ph_Reattaching, f) w (ph, f) w'
     \<and> (case r of
          Inl e \<Rightarrow> True
        | Inr None \<Rightarrow> ph = Ph_Reattaching
        | Inr (Some Ss_DeadlineExceeded) \<Rightarrow> ph = Ph_GivenUp
        | Inr (Some (Ss_Exited exit out)) \<Rightarrow> exit_phase t Ph_Reattaching exit (Some out) = Some ph)"
proof (induction os path d termios w arbitrary: r w' rule: tracked_loop.induct)
  case (1 os path d termios w)
  let ?s = "(Ph_Reattaching, f)"
  obtain a w1 where a: "try_wait os w = (a, w1)" by fastforce
  have m1: "sup_moves t ?s w ?s w1"
    using try_wait_world [OF a] by (simp add: sup_moves_tick)
  show ?case
  proof (cases a)
    case (Inl e)
    then show ?thesis using 1(2) a m1 by (auto simp: tracked_loop.simps)
  next
    case (Inr st)
    show ?thesis
    proof (cases st)
      case (Some st)
      obtain r' w2 where r': "tracked_exit os path st w1 = (r', w2)" by fastforce
      have "tracked_phase Ph_Reattaching" by (simp add: tracked_phase_def)
      from tracked_exit_moves [OF this r', of t f, simplified] m1 show ?thesis
        using 1(2) a Inr Some r' by (auto simp: tracked_loop.simps intro: sup_moves_trans)
    next
      case None
      obtain settled w2 where l: "link_status_settled os path w1 = (settled, w2)" by fastforce
      obtain now w3 where n: "clock_now os w2 = (now, w3)" by fastforce
      obtain now' w4 where n': "clock_now os w3 = (now', w4)" by fastforce
      have E: "tracked_loop os path d termios w = (if settled then (Inr None, w2)
          else if d \<le> now then (Inr (Some Ss_DeadlineExceeded), if termios then restore_termios os (kill_child os w3) else kill_child os w3)
          else tracked_loop os path d termios (thread_sleep os (poll_interval d now') w4))"
        by (simp add: tracked_loop.simps [of os path d termios w] a Inr None l n n' Let_def)
      have m: "sup_moves t ?s w ?s w2" "sup_moves t ?s w ?s w3" "sup_moves t ?s w ?s w4"
        using m1 n n' settled_world [OF l] by (auto simp: clock_world sup_moves_intros)
      consider "settled" | "\<not> settled" "d \<le> now" | "\<not> settled" "\<not> d \<le> now" by blast
      then show ?thesis
      proof cases
        case 1
        then show ?thesis using \<open>tracked_loop os path d termios w = (r, w')\<close> E m(1) by auto
      next
        case 2
        have k: "sup_moves t ?s w (Ph_GivenUp, f) (kill_child os w3)"
          using m(2) by (auto simp: kill_child_def intro!: sup_moves_then_log sup_moves_then_tick)
        then have "sup_moves t ?s w (Ph_GivenUp, f) (restore_termios os (kill_child os w3))"
          by (auto simp: restore_termios_def intro!: sup_moves_then_log sup_moves_then_tick)
        with k 2 show ?thesis using \<open>tracked_loop os path d termios w = (r, w')\<close> E by auto
      next
        case 3
        with \<open>tracked_loop os path d termios w = (r, w')\<close> E
        have e: "tracked_loop os path d termios (thread_sleep os (poll_interval d now') w4) = (r, w')" by simp
        have "sup_moves t ?s w ?s (thread_sleep os (poll_interval d now') w4)"
          using m(3) by (simp add: sup_moves_then_sleep)
        with "1.IH" [OF a [symmetric] Inr None l [symmetric] refl 3(1) n [symmetric] refl 3(2) n' [symmetric] refl e]
        show ?thesis using sup_moves_trans by blast
      qed
    qed
  qed
qed

text \<open>The deadline is set for a reattach only.\<close>

lemma spawn_link_tracked_moves:
  assumes "spawn_link_tracked os config args path d w = (r, w')" "config = task_config t"
    and "spawn_phase t ph0 path args = Some ph" "tracked_phase ph" "d \<noteq> None \<longrightarrow> ph = Ph_Reattaching"
    and first: "ph = Ph_First \<longrightarrow> (\<forall>exit out. r = Inr (Ss_Exited exit out) \<longrightarrow> task_drains t = carried_death exit out)"
  shows "\<exists>ph'. sup_moves t (ph0, Some path) w (ph', Some path) w'
     \<and> (case r of
          Inl e \<Rightarrow> True
        | Inr Ss_DeadlineExceeded \<Rightarrow> ph' = Ph_GivenUp \<and> d \<noteq> None
        | Inr (Ss_Exited exit out) \<Rightarrow> exit_phase t ph exit (Some out) = Some ph')"
proof -
  define tw where "tw = (if d \<noteq> None then captured_termios os w else (False, w))"
  obtain termios w1 where tw': "tw = (termios, w1)" by fastforce
  have m1: "sup_moves t (ph0, Some path) w (ph0, Some path) w1"
    using tw' by (auto simp: tw_def captured_termios_def sup_moves_intros split: if_splits)
  note E = assms(1) [unfolded spawn_link_tracked_def tw_def [symmetric] tw' Let_def prod.case]
  obtain sp w2 where sp: "spawn_child os (cfg_ssh_program config) args w1 = (sp, w2)" by fastforce
  show ?thesis
  proof (cases sp)
    case (Inl e)
    have "sup_moves t (ph0, Some path) w (ph0, Some path) w2"
      using sp m1 Inl by (auto simp: spawn_child_def sup_moves_intros split: option.splits)
    then show ?thesis using E sp Inl by (auto simp: then_do_def)
  next
    case (Inr u)
    have m2: "sup_moves t (ph0, Some path) w (ph, Some path) w2"
      using sp m1 Inr assms(2,3)
      by (auto simp: spawn_child_def split: option.splits intro!: sup_moves_then_log sup_moves_then_tick)
    define el where "el = (case d of Some d \<Rightarrow> tracked_loop os path d termios w2 | None \<Rightarrow> (Inr None, w2))"
    obtain early w3 where el': "el = (early, w3)" by fastforce
    obtain ph1 where m3: "sup_moves t (ph0, Some path) w (ph1, Some path) w3"
      and ph1: "case early of
          Inl e \<Rightarrow> True
        | Inr None \<Rightarrow> ph1 = ph
        | Inr (Some Ss_DeadlineExceeded) \<Rightarrow> ph1 = Ph_GivenUp \<and> d \<noteq> None
        | Inr (Some (Ss_Exited exit out)) \<Rightarrow> exit_phase t ph exit (Some out) = Some ph1"
    proof (cases d)
      case None
      then show ?thesis using that [of ph] m2 el' by (auto simp: el_def)
    next
      case (Some d')
      with assms(5) have ph: "ph = Ph_Reattaching" by simp
      from Some el' have "tracked_loop os path d' termios w2 = (early, w3)" by (simp add: el_def)
      from tracked_loop_moves [OF this, of t "Some path"] obtain ph1 where
        "sup_moves t (ph, Some path) w2 (ph1, Some path) w3"
        "case early of Inl e \<Rightarrow> True | Inr None \<Rightarrow> ph1 = ph | Inr (Some Ss_DeadlineExceeded) \<Rightarrow> ph1 = Ph_GivenUp
        | Inr (Some (Ss_Exited exit out)) \<Rightarrow> exit_phase t ph exit (Some out) = Some ph1"
        unfolding ph by blast
      then show ?thesis using that [of ph1] m2 Some
        by (auto intro: sup_moves_trans split: sum.splits option.splits status_spawn.splits)
    qed
    note E' = E [unfolded sp Inr then_do_def [of "(Inr u, w2)"] sum.case prod.case, folded el_def, unfolded el']
    show ?thesis
    proof (cases early)
      case (Inl e)
      then show ?thesis using E' m3 by (auto simp: then_do_def)
    next
      case (Inr res)
      show ?thesis
      proof (cases res)
        case (Some x)
        then show ?thesis using E' m3 ph1 Inr
          by (auto simp: then_do_def split: status_spawn.splits)
      next
        case None
        with ph1 Inr have [simp]: "ph1 = ph" by simp
        obtain st w4 where st: "wait_child os w3 = (st, w4)" by fastforce
        have m4: "sup_moves t (ph0, Some path) w (ph, Some path) w4"
          using m3 st by (auto simp: wait_child_def sup_moves_intros)
        show ?thesis
        proof (cases st)
          case (Inl e)
          then show ?thesis using E' m4 \<open>early = Inr res\<close> None st by (auto simp: then_do_def)
        next
          case (Inr st')
          obtain r' w5 where r': "tracked_exit os path st' w4 = (r', w5)" by fastforce
          have "r = Inr r'" using E' \<open>early = Inr res\<close> None st Inr r' by (auto simp: then_do_def)
          with first have "ph = Ph_First \<longrightarrow> (\<forall>exit out. r' = Ss_Exited exit out \<longrightarrow> task_drains t = carried_death exit out)"
            by simp
          from tracked_exit_moves [OF assms(4) r' this, of "Some path"] m4 show ?thesis
            using E' \<open>early = Inr res\<close> None st Inr r' by (auto simp: then_do_def intro: sup_moves_trans)
        qed
      qed
    qed
  qed
qed

section \<open>Guarded scopes, probes and reattaches\<close>

lemma then_do_simps [simp]: "then_do (Inl e, w) f = (Inl e, w)" "then_do (Inr x, w) f = f x w"
  by (simp_all add: then_do_def)

lemma allocate_status_moves:
  assumes "allocate_status_file os config w = (r, w')"
  shows "sup_moves t (ph, None) w (ph, case r of Inl e \<Rightarrow> None | Inr path \<Rightarrow> Some path) w'"
proof -
  obtain a w1 where a: "status_path os config w = (a, w1)" by fastforce
  have m: "sup_moves t (ph, None) w (ph, None) w1"
  proof -
    have "sup_moves t (ph, None) w (ph, None) (w1\<lparr>sw_sequence := n\<rparr>)" if "sup_moves t (ph, None) w (ph, None) w1" for n w1
      using that by (simp add: sup_moves_def)
    then show ?thesis
      using a by (auto simp: status_path_def unique_status_name_def Let_def sup_moves_intros split: option.splits if_splits)
  qed
  with assms a show ?thesis
    by (auto simp: allocate_status_file_def then_do_def sup_moves_intros
        split: sum.splits option.splits intro!: sup_moves_then_log [where s' = "(ph, None)"])
qed

lemma with_status_moves:
  assumes run: "with_status os (allocate_status_file os config w) body = (r, w')"
    and body: "\<And>path w1 w2. body path w1 = (r, w2) \<Longrightarrow> \<exists>ph'. sup_moves t (ph, Some path) w1 (ph', Some path) w2 \<and> Q r ph'"
    and err: "\<And>e. r = Inl e \<Longrightarrow> Q r ph"
  shows "\<exists>ph'. sup_moves t (ph, None) w (ph', None) w' \<and> Q r ph'"
proof -
  obtain a w1 where a: "allocate_status_file os config w = (a, w1)" by fastforce
  from allocate_status_moves [OF a, of t ph] have m: "sup_moves t (ph, None) w (ph, case a of Inl e \<Rightarrow> None | Inr path \<Rightarrow> Some path) w1" .
  show ?thesis
  proof (cases a)
    case (Inl e)
    then show ?thesis using run a m err by (auto simp: with_status_def)
  next
    case (Inr path)
    obtain r' w2 where b: "body path w1 = (r', w2)" by fastforce
    have "r' = r" using run a Inr b by (simp add: with_status_def)
    from body [OF b [unfolded this]] obtain ph' where "sup_moves t (ph, Some path) w1 (ph', Some path) w2" "Q r ph'" by blast
    moreover from this(1) m Inr have "sup_moves t (ph, None) w (ph', None) (drop_status os path w2)"
      by (auto simp: drop_status_def intro!: sup_moves_then_log sup_moves_then_tick intro: sup_moves_trans)
    ultimately show ?thesis using run a Inr b by (auto simp: with_status_def)
  qed
qed

fun probe_phase :: "eversh_error + probe_status \<Rightarrow> sup_phase \<Rightarrow> bool" where
  "probe_phase (Inl e) ph = True"
| "probe_phase (Inr Probe_Live) ph = (ph = Ph_Live)"
| "probe_phase (Inr Probe_NotLive) ph = (ph = Ph_Over (Ek_Code 5) None)"
| "probe_phase (Inr Probe_Unreachable) ph = (ph = Ph_Lost)"
| "probe_phase (Inr (Probe_Failed code)) ph = (ph = Ph_Over (Ek_Code code) None)"
| "probe_phase (Inr (Probe_Signaled s)) ph = (ph = Ph_Over (Ek_Signaled s) None)"
| "probe_phase (Inr Probe_DeadlineExceeded) ph = (ph = Ph_GivenUp)"

lemmas exit_codes = SSH_FAILURE_def PROBE_NOT_LIVE_EXIT_def REMOTE_BUSY_EXIT_def

lemma probe_verdict_phase:
  "(case r of Be_Exited exit \<Rightarrow> exit_phase t Ph_Probing exit None = Some ph | Be_DeadlineExceeded \<Rightarrow> ph = Ph_GivenUp)
   \<Longrightarrow> probe_phase (Inr (probe_verdict r)) ph"
  by (auto simp: probe_verdict_def exit_codes split: bounded_exit.splits exit_kind.splits if_splits)

lemma probe_moves:
  assumes "probe os (task_config t) (run_host (task_run t)) (run_name (task_run t)) (run_ssh_options (task_run t)) d w = (r, w')"
  shows "\<exists>ph. sup_moves t (Ph_Rested, None) w (ph, None) w' \<and> probe_phase r ph"
proof (rule with_status_moves [OF assms [unfolded probe_def]])
  fix path w1 w2
  let ?args = "task_args t (Rop_Probe (run_name (task_run t))) False path"
  assume b: "then_do (operation_args (task_config t) (run_ssh_options (task_run t)) (run_host (task_run t))
      (Rop_Probe (run_name (task_run t))) False (Some path), w1) (\<lambda>args w.
    then_do (spawn_quiet_bounded os (task_config t) args d w) (\<lambda>r w. (Inr (probe_verdict r), w))) = (r, w2)"
  show "\<exists>ph'. sup_moves t (Ph_Rested, Some path) w1 (ph', Some path) w2 \<and> probe_phase r ph'"
  proof (cases ?args)
    case (Inl e)
    then show ?thesis using b by (auto simp: task_args_def intro: sup_moves_refl)
  next
    case (Inr args)
    obtain q w3 where q: "spawn_quiet_bounded os (task_config t) args d w1 = (q, w3)" by fastforce
    have "\<exists>ph. sup_moves t (Ph_Rested, Some path) w1 (ph, Some path) w3
       \<and> (case q of Inl e \<Rightarrow> True | Inr (Be_Exited exit) \<Rightarrow> exit_phase t Ph_Probing exit None = Some ph
          | Inr Be_DeadlineExceeded \<Rightarrow> ph = Ph_GivenUp)"
    proof (cases "so_spawn os (sw_calls w1) (cfg_ssh_program (task_config t)) args")
      case None
      have "sup_moves t (Ph_Rested, Some path) w1 (Ph_Probing, Some path)
          (log_add (Log_Spawn (cfg_ssh_program (task_config t)) args) (sup_tick os w1))"
        using Inr by (intro sup_moves_then_log) (auto intro: sup_moves_intros)
      moreover have "wait_bounded_child os d (log_add (Log_Spawn (cfg_ssh_program (task_config t)) args) (sup_tick os w1)) = (q, w3)"
        using q None by (simp add: spawn_quiet_bounded_def spawn_child_def)
      from wait_bounded_child_moves [OF this, of t "Some path"] obtain ph where
        "sup_moves t (Ph_Probing, Some path) (log_add (Log_Spawn (cfg_ssh_program (task_config t)) args) (sup_tick os w1)) (ph, Some path) w3"
        "case q of Inl e \<Rightarrow> True | Inr (Be_Exited exit) \<Rightarrow> exit_phase t Ph_Probing exit None = Some ph
          | Inr Be_DeadlineExceeded \<Rightarrow> ph = Ph_GivenUp" by blast
      ultimately show ?thesis using sup_moves_trans by blast
    qed (use q in \<open>auto simp: spawn_quiet_bounded_def spawn_child_def intro!: exI [of _ Ph_Rested] sup_moves_tick\<close>)
    with b q Inr show ?thesis
      by (auto simp: task_args_def then_do_def split: sum.splits bounded_exit.splits intro!: exI probe_verdict_phase)
  qed
qed simp

fun turn_phase :: "eversh_error + episode_turn \<Rightarrow> sup_phase \<Rightarrow> bool" where
  "turn_phase (Inl e) ph = True"
| "turn_phase (Inr (Turn_Again attempt busy streak)) ph = (ph = Ph_Lost)"
| "turn_phase (Inr (Turn_Done Ro_RestartEpisode)) ph = (ph = Ph_Lost)"
| "turn_phase (Inr (Turn_Done (Ro_Terminal end_of))) ph = end_phase end_of ph"

lemma turn_phase_failed: "turn_phase (Inr (transport_failed f)) ph = end_phase (End_TransportFailed f) ph"
  by (simp add: transport_failed_def)

lemma reattach_verdict_moves:
  assumes "reattach_verdict (task_run t) attempt streak r w = (turn, w')"
    and "case r of Ss_DeadlineExceeded \<Rightarrow> ph = Ph_GivenUp
      | Ss_Exited exit out \<Rightarrow> exit_phase t Ph_Reattaching exit (Some out) = Some ph"
  shows "sup_moves t (ph, f) w (ph, f) w' \<and> turn_phase (Inr turn) ph"
  using assms
  by (auto simp: reattach_verdict_def classify_status_spawn_def exit_codes carried_exit_def turn_phase_failed
      intro: sup_moves_intros split: status_spawn.splits exit_kind.splits link_outcome.splits if_splits bool.splits)

lemma reattach_moves:
  assumes "reattach os (task_config t) (task_run t) d attempt streak w = (r, w')"
  shows "\<exists>ph. sup_moves t (Ph_Live, None) w (ph, None) w' \<and> turn_phase r ph"
proof -
  let ?n = "sup_notify (Nt_Reattaching (run_name (task_run t)) attempt) w"
  have "\<exists>ph. sup_moves t (Ph_Live, None) ?n (ph, None) w' \<and> turn_phase r ph"
  proof (rule with_status_moves [OF assms [unfolded reattach_def Let_def]])
    fix path w1 w2
    let ?args = "task_args t (reattach_op (task_run t)) (\<not> run_observer (task_run t)) path"
    assume b: "then_do (operation_args (task_config t) (run_ssh_options (task_run t)) (run_host (task_run t))
        (reattach_op (task_run t)) (\<not> run_observer (task_run t)) (Some path), w1) (\<lambda>args w.
      then_do (spawn_link_tracked os (task_config t) args path (Some d) w) (\<lambda>r w.
      case reattach_verdict (task_run t) attempt streak r w of (turn, w) \<Rightarrow> (Inr turn, w))) = (r, w2)"
    show "\<exists>ph'. sup_moves t (Ph_Live, Some path) w1 (ph', Some path) w2 \<and> turn_phase r ph'"
    proof (cases ?args)
      case (Inl e)
      then show ?thesis using b by (auto simp: task_args_def intro: sup_moves_refl)
    next
      case (Inr args)
      obtain q w3 where q: "spawn_link_tracked os (task_config t) args path (Some d) w1 = (q, w3)" by fastforce
      have "spawn_phase t Ph_Live path args = Some Ph_Reattaching" using Inr by (simp add: reattach_op_same)
      from spawn_link_tracked_moves [OF q refl this] obtain ph where
        m: "sup_moves t (Ph_Live, Some path) w1 (ph, Some path) w3"
        and ph: "case q of Inl e \<Rightarrow> True | Inr Ss_DeadlineExceeded \<Rightarrow> ph = Ph_GivenUp \<and> Some d \<noteq> None
          | Inr (Ss_Exited exit out) \<Rightarrow> exit_phase t Ph_Reattaching exit (Some out) = Some ph"
        by (auto simp: tracked_phase_def)
      show ?thesis
      proof (cases q)
        case (Inl e)
        then show ?thesis using b q \<open>?args = Inr args\<close> m by (auto simp: task_args_def)
      next
        case (Inr v)
        obtain turn w4 where v: "reattach_verdict (task_run t) attempt streak v w3 = (turn, w4)" by fastforce
        have "case v of Ss_DeadlineExceeded \<Rightarrow> ph = Ph_GivenUp
          | Ss_Exited exit out \<Rightarrow> exit_phase t Ph_Reattaching exit (Some out) = Some ph"
          using ph Inr by (simp split: status_spawn.splits)
        from reattach_verdict_moves [OF v this] show ?thesis
          using b q Inr \<open>?args = Inr args\<close> m v by (auto simp: task_args_def intro: sup_moves_trans)
      qed
    qed
  qed simp
  then show ?thesis
    using sup_moves_trans [OF sup_moves_notify [OF sup_moves_refl]] by blast
qed

section \<open>A turn\<close>

lemma backoff_raw_least:
  assumes "eversh_limits_validate limits = Inr ()"
  shows "0 < unat (retry_backoff_base_ms limits) \<and> unat (retry_backoff_base_ms limits) \<le> backoff_raw n limits"
proof -
  have v: "retry_backoff_base_ms limits \<noteq> 0" "retry_backoff_base_ms limits \<le> retry_backoff_cap_ms limits"
    using assms by (auto simp: eversh_limits_validate_def split: if_splits)
  have "unat (retry_backoff_base_ms limits) * 1 \<le> unat (retry_backoff_base_ms limits) * 2 ^ min (n - 1) 20"
    by (rule mult_le_mono2) simp
  moreover have "unat (retry_backoff_base_ms limits) \<le> U64_MAX"
    using unat_lt_64 [of "retry_backoff_base_ms limits"] by (simp add: U64_MAX_def)
  ultimately show ?thesis
    using v by (simp add: backoff_raw_def Let_def word_le_nat_alt unat_gt_0)
qed

lemma backoff_delay_least:
  assumes "eversh_limits_validate limits = Inr ()" "backoff_delay os n limits w = (delay, w')"
  shows "unat (retry_backoff_base_ms limits) \<le> delay
    \<and> delay \<le> unat (retry_backoff_cap_ms limits) + unat (retry_backoff_cap_ms limits) div 2 \<and> (w' = w \<or> w' = sup_tick os w)"
proof -
  have raw: "backoff_raw n limits \<le> unat (retry_backoff_cap_ms limits)" by (simp add: backoff_raw_def Let_def)
  then have "backoff_raw n limits div 2 \<le> unat (retry_backoff_cap_ms limits) div 2" by (rule div_le_mono)
  moreover have "h mod (backoff_raw n limits div 2 + 1) \<le> backoff_raw n limits div 2" for h
    using mod_less_divisor [of "backoff_raw n limits div 2 + 1" h] by linarith
  ultimately have j: "backoff_raw n limits + h mod (backoff_raw n limits div 2 + 1)
      \<le> unat (retry_backoff_cap_ms limits) + unat (retry_backoff_cap_ms limits) div 2" for h
    using raw add_mono order_trans by meson
  note raw
  have "unat (retry_backoff_base_ms limits) \<le> U64_MAX"
    using unat_lt_64 [of "retry_backoff_base_ms limits"] by (simp add: U64_MAX_def)
  then show ?thesis
    using assms(2) backoff_raw_least [OF assms(1), of n] raw j [of "so_hash os (sw_calls w)"]
    by (auto simp: backoff_delay_def jitter_below_def Let_def min_le_iff_disj split: prod.splits if_splits)
qed

text \<open>A turn that asks for another has slept, and had room for its sleep before the deadline.\<close>

lemma reconnect_turn_moves:
  assumes "reconnect_turn os (task_config t) (task_run t) deadline attempt busy streak w = (r, w')"
    and valid: "eversh_limits_validate (cfg_limits (task_config t)) = Inr ()"
    and start: "ph = Ph_Lost \<or> ph = Ph_Rested"
  shows "\<exists>ph'. sup_moves t (ph, None) w (ph', None) w' \<and> turn_phase r ph'
    \<and> (case r of
         Inr (Turn_Again attempt busy streak) \<Rightarrow>
           let base = from_millis (unat (retry_backoff_base_ms (cfg_limits (task_config t)))) in
           sw_now w + base < deadline \<and> sw_now w + base \<le> sw_now w'
       | _ \<Rightarrow> True)"
proof -
  let ?limits = "cfg_limits (task_config t)" and ?base = "from_millis (unat (retry_backoff_base_ms (cfg_limits (task_config t))))"
  define n where "n = (if busy then attempt else attempt + 1)"
  show ?thesis
  proof (cases "\<not> busy \<and> retry_attempts_max ?limits < n")
    case True
    then have "r = Inr (transport_failed Tf_AttemptsExhausted)" "w' = sup_notify (Nt_RetryExhausted (retry_attempts_max ?limits)) w"
      using assms(1) by (auto simp: reconnect_turn_def n_def Let_def)
    then show ?thesis using start
      by (auto simp: transport_failed_def intro!: exI [of _ ph] sup_moves_notify sup_moves_refl)
  next
    case False
    then have E: "reconnect_try os (task_config t) (task_run t) deadline n busy streak w = (r, w')"
      using assms(1) by (auto simp: reconnect_turn_def n_def Let_def split: if_splits)
    obtain delay w1 where b: "backoff_delay os (min (unat n + unat streak) U32_MAX) ?limits w = (delay, w1)" by fastforce
    obtain now w2 where c: "clock_now os w1 = (now, w2)" by fastforce
    from backoff_delay_least [OF valid b] have d: "?base \<le> from_millis delay" "sleep_allowed t ph (from_millis delay)" and w1: "w1 = w \<or> w1 = sup_tick os w"
      by (simp_all add: from_millis_def backoff_allowed [unfolded from_millis_def])
    have m2: "sup_moves t (ph, None) w (ph, None) w2"
      using w1 c by (auto simp: clock_world sup_moves_intros)
    have now: "sw_now w \<le> now" "now = sw_now w2"
      using w1 c by (auto simp: clock_world intro: tick_now_trans sup_tick_now)
    show ?thesis
    proof (cases "deadline \<le> now + from_millis delay")
      case True
      then have "r = Inr (transport_failed (if busy then Tf_Busy else Tf_DeadlineExceeded))" "w' = sup_notify Nt_RetryDeadlineExceeded w2"
        using E b c by (auto simp: reconnect_try_def Let_def)
      then show ?thesis using start m2
        by (auto simp: transport_failed_def intro!: exI [of _ ph] sup_moves_notify)
    next
      case False
      let ?w3 = "sup_notify (Nt_Probing (run_name (task_run t)) n) (thread_sleep os (from_millis delay) (sup_notify (Nt_Backoff n delay) w2))"
      obtain p w4 where p: "probe os (task_config t) (run_host (task_run t)) (run_name (task_run t))
          (run_ssh_options (task_run t)) deadline ?w3 = (p, w4)" by fastforce
      have m3: "sup_moves t (ph, None) w (Ph_Rested, None) ?w3"
        using m2 start d by (intro sup_moves_notify sup_moves_then_sleep [OF sup_moves_notify]) auto
      have "sw_now w2 \<le> sw_now (sup_tick os w2)" by (rule sup_tick_now)
      then have slept: "sw_now w + ?base \<le> sw_now ?w3"
        using now d by (simp add: sup_notify_def sup_tick_def log_add_def thread_sleep_def Let_def)
      from probe_moves [OF p] obtain ph1 where m4: "sup_moves t (Ph_Rested, None) ?w3 (ph1, None) w4" and ph1: "probe_phase p ph1"
        by blast
      from E b c p False have A: "(case p of Inl e \<Rightarrow> (Inl e, w4)
          | Inr p \<Rightarrow> after_probe os (task_config t) (task_run t) deadline n streak p w4) = (r, w')"
        by (simp add: reconnect_try_def Let_def then_do_def split: sum.splits)
      have "\<exists>ph'. sup_moves t (ph1, None) w4 (ph', None) w' \<and> turn_phase r ph'"
      proof (cases "p = Inr Probe_Live")
        case True
        with A have "reattach os (task_config t) (task_run t) deadline n streak (sup_notify (Nt_SessionLive n) w4) = (r, w')"
          by (simp add: after_probe_def)
        from reattach_moves [OF this] ph1 True show ?thesis
          using sup_moves_trans [OF sup_moves_notify [OF sup_moves_refl]] by fastforce
      next
        case False
        with A ph1 show ?thesis
          by (intro exI [of _ ph1])
            (auto simp: after_probe_def transport_failed_def intro: sup_moves_intros split: sum.splits probe_status.splits)
      qed
      then obtain ph' where m5: "sup_moves t (ph1, None) w4 (ph', None) w'" and ph': "turn_phase r ph'" by blast
      have "sup_moves t (ph, None) w (ph', None) w'"
        using m3 m4 m5 sup_moves_trans by blast
      moreover have "sw_now ?w3 \<le> sw_now w'" using m4 m5 by (auto simp: sup_moves_def)
      ultimately show ?thesis using ph' slept False now d
        by (auto simp: Let_def split: sum.splits episode_turn.splits intro!: exI [of _ ph'])
    qed
  qed
qed

section \<open>Episodes and invocations\<close>

fun outcome_phase :: "eversh_error + reconnect_outcome \<Rightarrow> sup_phase \<Rightarrow> bool" where
  "outcome_phase (Inl e) ph = True"
| "outcome_phase (Inr Ro_RestartEpisode) ph = (ph = Ph_Lost)"
| "outcome_phase (Inr (Ro_Terminal end_of)) ph = end_phase end_of ph"

text \<open>The time left to the deadline shrinks, so an episode returns; and it keeps to the protocol.\<close>

lemma reconnect_loop_moves:
  assumes valid: "eversh_limits_validate (cfg_limits (task_config t)) = Inr ()"
    and start: "ph = Ph_Lost \<or> ph = Ph_Rested"
  shows "\<exists>r w' ph'. reconnect_loop os (task_config t) (task_run t) deadline attempt busy streak w = Some (r, w')
    \<and> sup_moves t (ph, None) w (ph', None) w' \<and> outcome_phase r ph'"
  using start
proof (induction "deadline - sw_now w" arbitrary: ph attempt busy streak w rule: less_induct)
  case less
  obtain r w1 where r: "reconnect_turn os (task_config t) (task_run t) deadline attempt busy streak w = (r, w1)" by fastforce
  from reconnect_turn_moves [OF r valid less(2)] obtain ph1 where m: "sup_moves t (ph, None) w (ph1, None) w1"
    and ph1: "turn_phase r ph1" and slept: "case r of Inr (Turn_Again attempt busy streak) \<Rightarrow>
      let base = from_millis (unat (retry_backoff_base_ms (cfg_limits (task_config t)))) in
      sw_now w + base < deadline \<and> sw_now w + base \<le> sw_now w1 | _ \<Rightarrow> True" by blast
  note E = reconnect_loop.simps [of os "task_config t" "task_run t" deadline attempt busy streak w, unfolded r]
  show ?case
  proof (cases r)
    case (Inl e)
    then show ?thesis using E m by (auto intro!: exI [of _ ph1])
  next
    case (Inr turn)
    show ?thesis
    proof (cases turn)
      case (Turn_Done x)
      then show ?thesis using E m ph1 Inr by (cases x) (auto intro!: exI [of _ ph1])
    next
      case (Turn_Again a b n)
      have "0 < from_millis (unat (retry_backoff_base_ms (cfg_limits (task_config t))))"
        using backoff_raw_least [OF valid] by (simp add: from_millis_def)
      with slept Inr Turn_Again have "deadline - sw_now w1 < deadline - sw_now w" by (simp add: Let_def) linarith
      from less(1) [OF this, of ph1 a b n] ph1 Inr Turn_Again obtain r' w' ph' where
        "reconnect_loop os (task_config t) (task_run t) deadline a b n w1 = Some (r', w')"
        "sup_moves t (ph1, None) w1 (ph', None) w'" "outcome_phase r' ph'" by auto
      with E m Inr Turn_Again show ?thesis by (auto intro: sup_moves_trans)
    qed
  qed
qed

lemma reconnect_moves:
  assumes valid: "eversh_limits_validate (cfg_limits (task_config t)) = Inr ()" and drains: "drain \<longrightarrow> task_drains t"
  shows "\<exists>r w' ph'. reconnect os (task_config t) (task_run t) drain w = Some (r, w')
    \<and> sup_moves t (Ph_Lost, None) w (ph', None) w' \<and> outcome_phase r ph'"
proof -
  define w1 where "w1 = (if drain then thread_sleep os (from_millis (unat (association_drain_ms (cfg_limits (task_config t))))) w else w)"
  obtain ph where ph: "ph = Ph_Lost \<or> ph = Ph_Rested" and m: "sup_moves t (Ph_Lost, None) w (ph, None) w1"
  proof (cases drain)
    case False
    then show ?thesis using that [of Ph_Lost] by (simp add: w1_def sup_moves_refl)
  next
    case True
    let ?d = "from_millis (unat (association_drain_ms (cfg_limits (task_config t))))"
    obtain ph' where "sup_step t (Ph_Lost, None) (Log_Slept ?d) = Some (ph', None)" "ph' = Ph_Lost \<or> ph' = Ph_Rested"
      using drains True by (auto simp: sleep_allowed_def)
    then show ?thesis using that [of ph'] True by (simp add: w1_def sup_moves_sleep del: sup_step.simps)
  qed
  obtain now w2 where c: "clock_now os w1 = (now, w2)" by fastforce
  from m c have "sup_moves t (Ph_Lost, None) w (ph, None) w2" by (auto simp: clock_world sup_moves_intros)
  moreover have "reconnect os (task_config t) (task_run t) drain w =
      reconnect_loop os (task_config t) (task_run t) (now + from_millis (unat (retry_deadline_ms (cfg_limits (task_config t))))) 0 False 0 w2"
    by (simp add: reconnect_def w1_def [symmetric] c Let_def)
  moreover obtain r w' ph' where
    "reconnect_loop os (task_config t) (task_run t) (now + from_millis (unat (retry_deadline_ms (cfg_limits (task_config t))))) 0 False 0 w2
      = Some (r, w')"
    "sup_moves t (ph, None) w2 (ph', None) w'" "outcome_phase r ph'"
    using reconnect_loop_moves [OF valid ph] by blast
  ultimately show ?thesis by (auto intro: sup_moves_trans)
qed

lemma episode_loop_moves:
  assumes valid: "eversh_limits_validate (cfg_limits (task_config t)) = Inr ()"
    and drains: "drain \<longrightarrow> task_drains t"
    and room: "episode_restarts_max (cfg_limits (task_config t)) \<noteq> - 1" "restarts \<le> episode_restarts_max (cfg_limits (task_config t))"
  shows "\<exists>r w' ph'. episode_loop os (task_config t) (task_run t) drain restarts w = Some (r, w')
    \<and> sup_moves t (Ph_Lost, None) w (ph', None) w' \<and> (case r of Inl e \<Rightarrow> True | Inr e \<Rightarrow> end_phase e ph')"
  using room(2)
proof (induction "unat (episode_restarts_max (cfg_limits (task_config t))) - unat restarts" arbitrary: restarts w rule: less_induct)
  case less
  let ?limit = "episode_restarts_max (cfg_limits (task_config t))"
  from reconnect_moves [OF valid drains, of os w] obtain r w1 ph1 where
    r: "reconnect os (task_config t) (task_run t) drain w = Some (r, w1)"
    and m: "sup_moves t (Ph_Lost, None) w (ph1, None) w1" and ph1: "outcome_phase r ph1" by blast
  note E = episode_loop.simps [of os "task_config t" "task_run t" drain restarts w, unfolded r]
  show ?case
  proof (cases "r = Inr Ro_RestartEpisode")
    case False
    then show ?thesis using E m ph1
      by (cases r; cases "projr r") (auto intro!: exI [of _ ph1])
  next
    case True
    with ph1 have [simp]: "ph1 = Ph_Lost" by simp
    show ?thesis
    proof (cases "?limit < restarts + 1")
      case True
      then show ?thesis using E m \<open>r = _\<close>
        by (auto intro!: exI [of _ Ph_Lost] sup_moves_notify)
    next
      case False
      have "restarts \<noteq> - 1"
        using less(2) room(1) by (metis word_order.extremum_unique)
      with False less(2) have "unat ?limit - unat (restarts + 1) < unat ?limit - unat restarts"
        by (simp add: unat_Suc_32 word_less_nat_alt)
      moreover have "restarts + 1 \<le> ?limit" using False by simp
      ultimately obtain r' w' ph' where
        "episode_loop os (task_config t) (task_run t) drain (restarts + 1) w1 = Some (r', w')"
        "sup_moves t (Ph_Lost, None) w1 (ph', None) w'" "case r' of Inl e \<Rightarrow> True | Inr e \<Rightarrow> end_phase e ph'"
        using less(1) [of "restarts + 1" w1] by blast
      with E m True False show ?thesis by (auto intro: sup_moves_trans)
    qed
  qed
qed


text \<open>The first child. Its exit tells whether the invocation may drain.\<close>

lemma first_spawn_moves:
  assumes "first_spawn os (task_config t) (task_run t) (task_first t) w = (r, w')"
    and first: "\<forall>exit out. r = Inr (Ss_Exited exit out) \<longrightarrow> task_drains t = carried_death exit out"
  shows "\<exists>ph. sup_moves t (Ph_Start, None) w (ph, None) w'
    \<and> (case r of
         Inl e \<Rightarrow> True
       | Inr Ss_DeadlineExceeded \<Rightarrow> False
       | Inr (Ss_Exited exit out) \<Rightarrow> ph = carried_exit False exit out)"
proof (rule with_status_moves [OF assms(1) [unfolded first_spawn_def]])
  fix path w1 w2
  let ?args = "task_args t (task_first t) (rop_interactive (task_first t)) path"
  assume b: "then_do (operation_args (task_config t) (run_ssh_options (task_run t)) (run_host (task_run t))
      (task_first t) (rop_interactive (task_first t)) (Some path), w1) (\<lambda>args w.
    spawn_link_tracked os (task_config t) args path None w) = (r, w2)"
  show "\<exists>ph'. sup_moves t (Ph_Start, Some path) w1 (ph', Some path) w2
    \<and> (case r of Inl e \<Rightarrow> True | Inr Ss_DeadlineExceeded \<Rightarrow> False
       | Inr (Ss_Exited exit out) \<Rightarrow> ph' = carried_exit False exit out)"
  proof (cases ?args)
    case (Inl e)
    then show ?thesis using b by (auto simp: task_args_def intro: sup_moves_refl)
  next
    case (Inr args)
    then have sp: "spawn_phase t Ph_Start path args = Some Ph_First" by simp
    from b Inr have "spawn_link_tracked os (task_config t) args path None w1 = (r, w2)" by (simp add: task_args_def)
    from spawn_link_tracked_moves [OF this refl sp] first show ?thesis
      by (fastforce simp: tracked_phase_def split: sum.splits status_spawn.splits)
  qed
qed simp

text \<open>The whole invocation, for the task whose drain flag is what the first child showed.\<close>

definition accepted :: "sup_task \<Rightarrow> (eversh_error + session_end) \<Rightarrow> sup_log list \<Rightarrow> bool" where
  "accepted t r es =
     (case sup_steps t (Ph_Start, None) es of
        None \<Rightarrow> False
      | Some (ph, file) \<Rightarrow> file = None \<and> (case r of Inl e \<Rightarrow> True | Inr end_of \<Rightarrow> end_phase end_of ph))"

definition invocation_task :: "sup_config \<Rightarrow> session_run \<Rightarrow> remote_op \<Rightarrow> bool \<Rightarrow> sup_task" where
  "invocation_task config run op drains = \<lparr>task_config = config, task_run = run, task_first = op, task_drains = drains\<rparr>"

lemma invocation_task_simps [simp]:
  "task_config (invocation_task config run op drains) = config" "task_run (invocation_task config run op drains) = run"
  "task_first (invocation_task config run op drains) = op" "task_drains (invocation_task config run op drains) = drains"
  by (simp_all add: invocation_task_def)

lemma carried_exit_end:
  "spawn_outcome_to_session_end (classify_status_spawn exit status) = Some e \<Longrightarrow> end_phase e (carried_exit False exit status)"
  "spawn_outcome_to_session_end (classify_status_spawn exit status) = None \<Longrightarrow> carried_exit False exit status = Ph_Lost"
  "classify_status_spawn exit status = So_TransportAfterFailure True \<longleftrightarrow> carried_death exit status"
  by (auto simp: classify_status_spawn_def carried_exit_def carried_death_def exit_codes
      split: exit_kind.splits if_splits link_outcome.splits)

lemma run_with_reconnect_accepted:
  assumes room: "episode_restarts_max (cfg_limits config) \<noteq> - 1"
  shows "\<exists>r w' drains. run_with_reconnect os config run op (w\<lparr>sw_log := []\<rparr>) = Some (r, w')
    \<and> accepted (invocation_task config run op drains) r (sw_log w')"
proof (cases "try_bind (eversh_limits_validate (cfg_limits config)) (\<lambda>_. validate_host (run_host run))")
  case (Inl e)
  then show ?thesis by (auto simp: run_with_reconnect_def accepted_def)
next
  case (Inr u)
  then have valid: "eversh_limits_validate (cfg_limits config) = Inr ()" by auto
  define w0 where "w0 = w\<lparr>sw_log := []\<rparr>"
  obtain r w1 where r: "first_spawn os config run op w0 = (r, w1)" by fastforce
  define drains where "drains = (case r of Inr (Ss_Exited exit out) \<Rightarrow> carried_death exit out | _ \<Rightarrow> False)"
  define t where "t = invocation_task config run op drains"
  have "\<forall>exit out. r = Inr (Ss_Exited exit out) \<longrightarrow> task_drains t = carried_death exit out"
    by (simp add: t_def drains_def)
  from first_spawn_moves [OF _ this] r obtain ph where m: "sup_moves t (Ph_Start, None) w0 (ph, None) w1"
    and ph: "case r of Inl e \<Rightarrow> True | Inr Ss_DeadlineExceeded \<Rightarrow> False | Inr (Ss_Exited exit out) \<Rightarrow> ph = carried_exit False exit out"
    by (fastforce simp: t_def)
  have acc: "accepted t r' (sw_log w')"
    if "sup_moves t (Ph_Start, None) w0 (ph', None) w'" "case r' of Inl e \<Rightarrow> True | Inr e \<Rightarrow> end_phase e ph'" for r' w' ph'
    using that by (auto simp: sup_moves_def accepted_def w0_def)
  have E: "run_with_reconnect os config run op w0 =
      (case (r, w1) of
         (Inl e, w) \<Rightarrow> Some (Inl e, w)
       | (Inr Ss_DeadlineExceeded, w) \<Rightarrow> Some (Inr (End_TransportFailed Tf_DeadlineExceeded), w)
       | (Inr (Ss_Exited exit status), w) \<Rightarrow>
          (case spawn_outcome_to_session_end (classify_status_spawn exit status) of
             Some end_of \<Rightarrow> Some (Inr end_of, if end_of = End_SshFailed then sup_notify Nt_SshFailed w else w)
           | None \<Rightarrow> episode_loop os config run (classify_status_spawn exit status = So_TransportAfterFailure True) 0 w))"
    unfolding run_with_reconnect_def Let_def using Inr r by (simp only: sum.case)
  show ?thesis
  proof (cases r)
    case (Inl e)
    then show ?thesis using E acc [OF m, of "Inl e"] by (auto simp: w0_def t_def)
  next
    case (Inr sp)
    with ph obtain exit out where sp: "sp = Ss_Exited exit out" and ph': "ph = carried_exit False exit out"
      by (cases sp) auto
    show ?thesis
    proof (cases "spawn_outcome_to_session_end (classify_status_spawn exit out)")
      case (Some e)
      have "sup_moves t (Ph_Start, None) w0 (ph, None) (if e = End_SshFailed then sup_notify Nt_SshFailed w1 else w1)"
        using m by (simp add: sup_moves_notify)
      from acc [OF this, of "Inr e"] show ?thesis
        using E Inr sp Some ph' carried_exit_end(1) [OF Some] by (auto simp: w0_def t_def)
    next
      case None
      have d: "(classify_status_spawn exit out = So_TransportAfterFailure True) = task_drains t"
        by (simp add: t_def drains_def Inr sp carried_exit_end(3))
      have "ph = Ph_Lost" using carried_exit_end(2) [OF None] ph' by simp
      from episode_loop_moves [of t "task_drains t" 0 os w1] valid room obtain r' w' ph' where
        "episode_loop os config run (task_drains t) 0 w1 = Some (r', w')"
        "sup_moves t (Ph_Lost, None) w1 (ph', None) w'" "case r' of Inl e \<Rightarrow> True | Inr e \<Rightarrow> end_phase e ph'"
        by (auto simp: t_def)
      with acc [OF sup_moves_trans [OF m]] E Inr sp None d \<open>ph = Ph_Lost\<close> show ?thesis
        by (auto simp: w0_def t_def)
    qed
  qed
qed

end
