(* ===== verification/Eversh_Supervisor_Count.thy ===== *)
theory Eversh_Supervisor_Count
  imports Eversh_Supervisor_Spec
begin

text \<open>
  How many children one invocation of the supervisor can start. Waits start none, a probe and a
  reattach one each; every turn of an episode first spends its backoff, so the deadline bounds the
  turns, and the cap on restarts bounds the episodes.
\<close>

section \<open>Operations that start no child\<close>

fun is_spawn :: "sup_log \<Rightarrow> bool" where
  "is_spawn (Log_Spawn program args) = True"
| "is_spawn _ = False"

definition spawns :: "sup_world \<Rightarrow> nat" where
  "spawns w = length (filter is_spawn (sw_log w))"

lemma spawns_simps [simp]:
  "spawns (sup_tick os w) = spawns w"
  "spawns (thread_sleep os d w) = spawns w"
  "spawns (sup_notify n w) = spawns w"
  "spawns (log_add e w) = spawns w + (if is_spawn e then 1 else 0)"
  "spawns (kill_child os w) = spawns w"
  "spawns (restore_termios os w) = spawns w"
  "spawns (drop_status os path w) = spawns w"
  by (simp_all add: spawns_def sup_notify_def kill_child_def restore_termios_def drop_status_def)

lemma clock_world': "(now, v) = clock_now os w \<longleftrightarrow> now = sw_now (sup_tick os w) \<and> v = sup_tick os w"
  by (auto simp: clock_now_def Let_def)

lemma answer_spawns:
  "try_wait os w = (a, v) \<Longrightarrow> spawns v = spawns w"
  "read_to_string os path w = (c, v) \<Longrightarrow> spawns v = spawns w"
  "link_status_settled os path w = (b, v) \<Longrightarrow> spawns v = spawns w"
  "wait_child os w = (x, v) \<Longrightarrow> spawns v = spawns w"
  using try_wait_world read_world settled_world by (fastforce simp: wait_child_def)+

lemma status_deadline_spawns: "status_deadline os body prompt c w = (d, c', v) \<Longrightarrow> spawns v = spawns w"
  using status_deadline_world by fastforce

lemmas spawns_dests = answer_spawns status_deadline_spawns

lemma link_status_loop_spawns: "spawns (snd (link_status_loop os path prompt c w)) = spawns w"
proof (induction os path prompt c w rule: link_status_loop.induct)
  case (1 os path prompt c w)
  show ?case
    by (subst link_status_loop.simps)
      (use 1 in \<open>auto simp: clock_world clock_world' dest!: spawns_dests split: prod.splits option.splits\<close>)
qed

lemma wait_bounded_child_spawns: "spawns (snd (wait_bounded_child os d w)) = spawns w"
proof (induction os d w rule: wait_bounded_child.induct)
  case (1 os d w)
  show ?case
    by (subst wait_bounded_child.simps)
      (use 1 in \<open>auto simp: clock_world clock_world' dest!: spawns_dests split: prod.splits option.splits sum.splits\<close>)
qed

lemma tracked_exit_spawns: "tracked_exit os path st w = (r, v) \<Longrightarrow> spawns v = spawns w"
  using link_status_loop_spawns [of os path]
  by (auto simp: tracked_exit_def link_status_final_def clock_now_def Let_def split_beta)

lemma tracked_loop_spawns: "spawns (snd (tracked_loop os path d termios w)) = spawns w"
proof (induction os path d termios w rule: tracked_loop.induct)
  case (1 os path d termios w)
  obtain a w1 where a: "try_wait os w = (a, w1)" by fastforce
  obtain settled w2 where l: "link_status_settled os path w1 = (settled, w2)" by fastforce
  have s: "spawns w1 = spawns w" "spawns w2 = spawns w" using spawns_dests(1) [OF a] spawns_dests(3) [OF l] by simp_all
  consider (over) st where "a = Inr (Some st)" | (again) "a = Inr None" "\<not> settled" "\<not> d \<le> sw_now (sup_tick os w2)"
    | (other) "(\<exists>e. a = Inl e) \<or> a = Inr None \<and> (settled \<or> d \<le> sw_now (sup_tick os w2))"
    by (cases a; cases "projr a"; auto)
  then show ?case
  proof cases
    case over
    then show ?thesis by (subst tracked_loop.simps)
        (auto simp: a s dest!: tracked_exit_spawns split: prod.splits)
  next
    case again
    have "spawns (snd (tracked_loop os path d termios
        (thread_sleep os (poll_interval d (sw_now (sup_tick os (sup_tick os w2)))) (sup_tick os (sup_tick os w2))))) = spawns w2"
      using 1 [OF a [symmetric] again(1) refl refl l [symmetric] again(2) refl] again(3) by (simp add: clock_world')
    then show ?thesis by (subst tracked_loop.simps) (simp add: a again l s clock_now_def Let_def)
  qed (subst tracked_loop.simps, auto simp: a l s clock_now_def Let_def)
qed

section \<open>Operations that start one\<close>

lemma spawn_child_spawns:
  "spawn_child os program args w = (r, v) \<Longrightarrow> spawns v = spawns w + (case r of Inl e \<Rightarrow> 0 | Inr u \<Rightarrow> 1)"
  by (auto simp: spawn_child_def split: option.splits)

lemma spawn_quiet_bounded_spawns:
  "spawn_quiet_bounded os config args d w = (r, v) \<Longrightarrow> spawns v \<le> spawns w + 1"
proof -
  have b: "wait_bounded_child os d w = (r, v) \<Longrightarrow> spawns v = spawns w" for w
    using wait_bounded_child_spawns [of os d w] by simp
  show "spawn_quiet_bounded os config args d w = (r, v) \<Longrightarrow> spawns v \<le> spawns w + 1"
    by (auto simp: spawn_quiet_bounded_def then_do_def dest!: spawn_child_spawns b split: prod.splits sum.splits)
qed

lemma spawn_link_tracked_spawns:
  assumes "spawn_link_tracked os config args path d w = (r, v)" shows "spawns v \<le> spawns w + 1"
proof -
  have c: "captured_termios os w = (b, w') \<Longrightarrow> spawns w' = spawns w" for b w w'
    by (auto simp: captured_termios_def)
  have l: "tracked_loop os path d termios w = (x, w') \<Longrightarrow> spawns w' = spawns w" for d termios w x w'
    using tracked_loop_spawns [of os path d termios w] by simp
  show ?thesis
    using assms
    by (auto simp: spawn_link_tracked_def then_do_def Let_def
        dest!: spawn_child_spawns spawns_dests c l tracked_exit_spawns
        split: prod.splits sum.splits option.splits if_splits)
qed

lemma status_path_spawns: "status_path os config w = (r, v) \<Longrightarrow> spawns v = spawns w"
proof -
  have "spawns (w\<lparr>sw_sequence := n\<rparr>) = spawns w" for w :: sup_world and n by (simp add: spawns_def)
  then show "status_path os config w = (r, v) \<Longrightarrow> spawns v = spawns w"
    by (auto simp: status_path_def unique_status_name_def Let_def split: option.splits if_splits)
qed

lemma allocate_spawns: "allocate_status_file os config w = (r, v) \<Longrightarrow> spawns v = spawns w"
  by (auto simp: allocate_status_file_def then_do_def dest!: status_path_spawns split: prod.splits sum.splits option.splits)

lemma with_status_spawns:
  assumes "with_status os (allocate_status_file os config w) body = (r, v)"
    and "\<And>path w r v. body path w = (r, v) \<Longrightarrow> spawns v \<le> spawns w + 1"
  shows "spawns v \<le> spawns w + 1"
proof -
  obtain a w1 where a: "allocate_status_file os config w = (a, w1)" by fastforce
  show ?thesis
  proof (cases a)
    case (Inr path)
    obtain x w2 where b: "body path w1 = (x, w2)" by fastforce
    from assms(2) [OF b] allocate_spawns [OF a] show ?thesis
      using assms(1) a b Inr by (auto simp: with_status_def)
  qed (use assms(1) a allocate_spawns [OF a] in \<open>simp add: with_status_def\<close>)
qed

lemma probe_spawns: "probe os config host session opts d w = (r, v) \<Longrightarrow> spawns v \<le> spawns w + 1"
  unfolding probe_def
  by (erule with_status_spawns)
    (auto simp: then_do_def dest!: spawn_quiet_bounded_spawns split: prod.splits sum.splits)

lemma reattach_verdict_spawns: "reattach_verdict run a n r w = (x, v) \<Longrightarrow> spawns v = spawns w"
  by (auto simp: reattach_verdict_def split: status_spawn.splits spawn_outcome.splits bool.splits if_splits)

lemma reattach_spawns: "reattach os config run d a n w = (r, v) \<Longrightarrow> spawns v \<le> spawns w + 1"
proof -
  assume "reattach os config run d a n w = (r, v)"
  then have "spawns v \<le> spawns (sup_notify (Nt_Reattaching (run_name run) a) w) + 1"
    unfolding reattach_def Let_def
    by (elim with_status_spawns) (auto simp: then_do_def dest!: spawn_link_tracked_spawns reattach_verdict_spawns split: prod.splits sum.splits)
  then show ?thesis by simp
qed

lemma first_spawn_spawns: "first_spawn os config run op w = (r, v) \<Longrightarrow> spawns v \<le> spawns w + 1"
  unfolding first_spawn_def
  by (erule with_status_spawns)
    (auto simp: then_do_def dest!: spawn_link_tracked_spawns split: prod.splits sum.splits)

section \<open>Turns, episodes, invocations\<close>

lemma after_probe_spawns: "after_probe os config run d a n p w = (r, v) \<Longrightarrow> spawns v \<le> spawns w + 1"
  by (auto simp: after_probe_def dest!: reattach_spawns split: probe_status.splits)

definition base_sleep :: "sup_config \<Rightarrow> nat" where
  "base_sleep config = from_millis (unat (retry_backoff_base_ms (cfg_limits config)))"

text \<open>A turn starts at most a probe and a reattach, and none without room for a backoff.\<close>

lemma reconnect_turn_spawns:
  assumes "reconnect_turn os config run deadline a busy n w = (r, v)"
    and valid: "eversh_limits_validate (cfg_limits config) = Inr ()"
  shows "spawns v \<le> spawns w + (if sw_now w + base_sleep config < deadline then 2 else 0)"
proof (cases "\<not> busy \<and> retry_attempts_max (cfg_limits config) < (if busy then a else a + 1)")
  case True
  then show ?thesis using assms(1) by (auto simp: reconnect_turn_def Let_def)
next
  case False
  define k where "k = (if busy then a else a + 1)"
  have E: "reconnect_try os config run deadline k busy n w = (r, v)"
    using assms(1) False by (auto simp: reconnect_turn_def k_def Let_def split: if_splits)
  obtain delay w1 where b: "backoff_delay os (min (unat k + unat n) U32_MAX) (cfg_limits config) w = (delay, w1)" by fastforce
  obtain now w2 where c: "clock_now os w1 = (now, w2)" by fastforce
  have w1: "w1 = w \<or> w1 = sup_tick os w" and d: "base_sleep config \<le> from_millis delay"
    using backoff_delay_least [OF valid b] by (auto simp: base_sleep_def from_millis_def)
  have s: "spawns w2 = spawns w" using w1 c by (auto simp: clock_world)
  have now: "sw_now w \<le> now" using w1 c by (auto simp: clock_world intro: tick_now_trans sup_tick_now)
  show ?thesis
  proof (cases "deadline \<le> now + from_millis delay")
    case True
    then show ?thesis using E b c s by (auto simp: reconnect_try_def Let_def)
  next
    case False
    obtain p w4 where p: "probe os config (run_host run) (run_name run) (run_ssh_options run) deadline
        (sup_notify (Nt_Probing (run_name run) k) (thread_sleep os (from_millis delay) (sup_notify (Nt_Backoff k delay) w2))) = (p, w4)"
      by fastforce
    from probe_spawns [OF p] have "spawns w4 \<le> spawns w + 1" using s by simp
    moreover have "spawns v \<le> spawns w4 + 1"
      using E b c p False by (auto simp: reconnect_try_def then_do_def Let_def dest!: after_probe_spawns split: sum.splits)
    ultimately show ?thesis using False now d by simp
  qed
qed

lemma reconnect_turn_slept:
  assumes "reconnect_turn os config run deadline a busy n w = (Inr (Turn_Again a' busy' n'), w')"
    and "eversh_limits_validate (cfg_limits config) = Inr ()"
  shows "sw_now w + base_sleep config < deadline \<and> sw_now w + base_sleep config \<le> sw_now w'"
  using reconnect_turn_moves [of os "invocation_task config run op True" deadline a busy n w "Inr (Turn_Again a' busy' n')" w' Ph_Lost]
    assms by (auto simp: base_sleep_def Let_def)

lemma base_sleep_pos: "eversh_limits_validate (cfg_limits config) = Inr () \<Longrightarrow> 0 < base_sleep config"
  using backoff_raw_least by (simp add: base_sleep_def from_millis_def)

text \<open>How many backoffs still fit before the deadline.\<close>

definition turns_left :: "sup_config \<Rightarrow> nat \<Rightarrow> nat \<Rightarrow> nat" where
  "turns_left config deadline now = (deadline - 1 - now) div base_sleep config"

lemma turns_left_step:
  assumes "0 < base_sleep config" "now + base_sleep config < deadline" "now + base_sleep config \<le> now'"
  shows "turns_left config deadline now' + 1 \<le> turns_left config deadline now"
proof -
  let ?b = "base_sleep config"
  have "(deadline - 1 - now') div ?b + 1 \<le> (deadline - 1 - (now + ?b)) div ?b + 1"
    using assms(3) by (simp add: div_le_mono)
  also have "\<dots> = (deadline - 1 - (now + ?b) + ?b) div ?b"
    using div_add_self2 [of ?b "deadline - 1 - (now + ?b)"] assms(1) by simp
  also have "deadline - 1 - (now + ?b) + ?b = deadline - 1 - now" using assms(2) by simp
  finally show ?thesis by (simp add: turns_left_def)
qed

lemma reconnect_loop_spawns:
  assumes valid: "eversh_limits_validate (cfg_limits config) = Inr ()"
    and "reconnect_loop os config run deadline a busy n w = Some (r, w')"
  shows "spawns w' \<le> spawns w + 2 * turns_left config deadline (sw_now w)"
  using assms(2)
proof (induction "deadline - sw_now w" arbitrary: a busy n w rule: less_induct)
  case less
  obtain x w1 where x: "reconnect_turn os config run deadline a busy n w = (x, w1)" by fastforce
  note E = less(2) [unfolded reconnect_loop.simps [of os config run deadline a busy n w] x]
  have one: "1 \<le> turns_left config deadline (sw_now w)" if "sw_now w + base_sleep config < deadline"
    using turns_left_step [OF base_sleep_pos [OF valid] that order_refl] by simp
  show ?case
  proof (cases "\<exists>a' busy' n'. x = Inr (Turn_Again a' busy' n')")
    case True
    then obtain a' busy' n' where again: "x = Inr (Turn_Again a' busy' n')" by auto
    have s: "sw_now w + base_sleep config < deadline" "sw_now w + base_sleep config \<le> sw_now w1"
      using reconnect_turn_slept x again valid by blast+
    from E again have "reconnect_loop os config run deadline a' busy' n' w1 = Some (r, w')" by simp
    moreover have "deadline - sw_now w1 < deadline - sw_now w" using s base_sleep_pos [OF valid] by linarith
    ultimately have "spawns w' \<le> spawns w1 + 2 * turns_left config deadline (sw_now w1)" by (rule less(1) [rotated])
    with reconnect_turn_spawns [OF x valid] turns_left_step [OF base_sleep_pos [OF valid] s] s show ?thesis by simp
  next
    case False
    with E have "w' = w1" by (auto split: sum.splits episode_turn.splits)
    with reconnect_turn_spawns [OF x valid] one show ?thesis by (auto split: if_splits)
  qed
qed

definition episode_turns :: "sup_config \<Rightarrow> nat" where
  "episode_turns config = (from_millis (unat (retry_deadline_ms (cfg_limits config))) - 1) div base_sleep config"

lemma reconnect_spawns:
  assumes valid: "eversh_limits_validate (cfg_limits config) = Inr ()"
    and "reconnect os config run drain w = Some (r, w')"
  shows "spawns w' \<le> spawns w + 2 * episode_turns config"
proof -
  define w1 where "w1 = (if drain then thread_sleep os (from_millis (unat (association_drain_ms (cfg_limits config)))) w else w)"
  have "reconnect_loop os config run (sw_now (sup_tick os w1) + from_millis (unat (retry_deadline_ms (cfg_limits config)))) 0 False 0
      (sup_tick os w1) = Some (r, w')"
    using assms(2) by (simp add: reconnect_def w1_def [symmetric] clock_now_def Let_def)
  from reconnect_loop_spawns [OF valid this] show ?thesis
    by (simp add: turns_left_def episode_turns_def w1_def split: if_splits)
qed

lemma episode_loop_spawns:
  assumes valid: "eversh_limits_validate (cfg_limits config) = Inr ()"
    and room: "episode_restarts_max (cfg_limits config) \<noteq> - 1" "restarts \<le> episode_restarts_max (cfg_limits config)"
    and "episode_loop os config run drain restarts w = Some (r, w')"
  shows "spawns w' \<le> spawns w + 2 * episode_turns config * (unat (episode_restarts_max (cfg_limits config)) - unat restarts + 1)"
  using room(2) assms(4)
proof (induction "unat (episode_restarts_max (cfg_limits config)) - unat restarts" arbitrary: restarts w rule: less_induct)
  case less
  let ?limit = "episode_restarts_max (cfg_limits config)"
  note E = less(3) [unfolded episode_loop.simps [of os config run drain restarts w]]
  from E obtain x w1 where x: "reconnect os config run drain w = Some (x, w1)"
    by (cases "reconnect os config run drain w") auto
  from reconnect_spawns [OF valid x] have s: "spawns w1 \<le> spawns w + 2 * episode_turns config" .
  show ?case
  proof (cases "x = Inr Ro_RestartEpisode \<and> \<not> ?limit < restarts + 1")
    case True
    then have e: "episode_loop os config run drain (restarts + 1) w1 = Some (r, w')" using E x by simp
    have "restarts \<noteq> - 1" using less(2) room(1) by (metis word_order.extremum_unique)
    with True less(2) have u: "unat (restarts + 1) = Suc (unat restarts)" "unat restarts < unat ?limit"
      by (simp_all add: unat_Suc_32 word_less_nat_alt)
    have "spawns w' \<le> spawns w1 + 2 * episode_turns config * (unat ?limit - unat (restarts + 1) + 1)"
      by (rule less(1) [OF _ _ e]) (use True u in auto)
    also have "unat ?limit - unat (restarts + 1) + 1 = unat ?limit - unat restarts" using u by simp
    finally show ?thesis using s by (simp add: distrib_left)
  next
    case False
    with E x have "spawns w' = spawns w1"
      by (cases x; cases "projr x") (auto split: if_splits)
    with s show ?thesis by (simp add: distrib_left)
  qed
qed

lemma run_with_reconnect_spawns:
  assumes room: "episode_restarts_max (cfg_limits config) \<noteq> - 1"
    and "run_with_reconnect os config run op w = Some (r, w')"
  shows "spawns w' \<le> spawns w + 1 + 2 * episode_turns config * (unat (episode_restarts_max (cfg_limits config)) + 1)"
proof (cases "eversh_limits_validate (cfg_limits config) = Inr () \<and> validate_host (run_host run) = Inr ()")
  case False
  then have "w' = w"
    using assms(2) by (cases "eversh_limits_validate (cfg_limits config)"; cases "validate_host (run_host run)")
      (auto simp: run_with_reconnect_def)
  then show ?thesis by simp
next
  case True
  then have valid: "eversh_limits_validate (cfg_limits config) = Inr ()" by simp
  obtain x w1 where x: "first_spawn os config run op w = (x, w1)" by fastforce
  from first_spawn_spawns [OF x] have s: "spawns w1 \<le> spawns w + 1" .
  have E: "(case x of
         Inl e \<Rightarrow> Some (Inl e, w1)
       | Inr Ss_DeadlineExceeded \<Rightarrow> Some (Inr (End_TransportFailed Tf_DeadlineExceeded), w1)
       | Inr (Ss_Exited exit status) \<Rightarrow>
          (case spawn_outcome_to_session_end (classify_status_spawn exit status) of
             Some end_of \<Rightarrow> Some (Inr end_of, if end_of = End_SshFailed then sup_notify Nt_SshFailed w1 else w1)
           | None \<Rightarrow> episode_loop os config run (classify_status_spawn exit status = So_TransportAfterFailure True) 0 w1)) = Some (r, w')"
    using assms(2) unfolding run_with_reconnect_def Let_def using True x by (auto split: sum.splits status_spawn.splits)
  show ?thesis
  proof (cases "\<exists>exit status. x = Inr (Ss_Exited exit status) \<and> spawn_outcome_to_session_end (classify_status_spawn exit status) = None")
    case True
    with E obtain drain where "episode_loop os config run drain 0 w1 = Some (r, w')" by auto
    from episode_loop_spawns [OF valid room _ this] s show ?thesis by simp
  next
    case False
    with E have "spawns w' = spawns w1" by (auto split: sum.splits status_spawn.splits option.splits if_splits)
    with s show ?thesis by simp
  qed
qed

section \<open>Facts of accepted logs\<close>

fun short_entry :: "sup_config \<Rightarrow> sup_log \<Rightarrow> bool" where
  "short_entry config (Log_Slept d) = (d \<le> short_sleep config)"
| "short_entry config _ = True"

text \<open>Whether the first child that ended died after its transport had carried the session.\<close>

fun first_carried :: "sup_log list \<Rightarrow> bool" where
  "first_carried [] = False"
| "first_carried (Log_Ended exit status # es) = (exit = Ek_Code 255 \<and> status = Some (Lo_TransportFailure True))"
| "first_carried (e # es) = first_carried es"

text \<open>Without the drain flag every sleep is short, and the flag is what the first exit shows.\<close>

lemma undrained_sleeps_short:
  "\<not> task_drains t \<Longrightarrow> sup_steps t s es = Some s' \<Longrightarrow> list_all (short_entry (task_config t)) es"
proof (induction es arbitrary: s)
  case (Cons e es)
  then obtain s1 where "sup_step t s e = Some s1" "sup_steps t s1 es = Some s'" by (auto simp: Option.bind_eq_Some_conv)
  with Cons show ?case
    by (cases s; cases e) (auto simp: sleep_allowed_def split: if_splits)
qed simp

lemma uncarried_sleeps_short:
  "ph = Ph_Start \<or> ph = Ph_First \<Longrightarrow> \<not> first_carried es \<Longrightarrow> sup_steps t (ph, f) es = Some s'
   \<Longrightarrow> list_all (short_entry (task_config t)) es"
proof (induction es arbitrary: ph f)
  case (Cons e es)
  then obtain s1 where s1: "sup_step t (ph, f) e = Some s1" "sup_steps t s1 es = Some s'" by (auto simp: Option.bind_eq_Some_conv)
  show ?case
  proof (cases e)
    case (Log_Ended exit status)
    with Cons(2,3) s1(1) have "\<not> task_drains t"
      by (cases status) (auto simp: carried_death_def split: if_splits)
    from undrained_sleeps_short [OF this Cons(4)] show ?thesis .
  next
    case (Log_Slept d)
    with Cons(2) s1 have "sleep_allowed t ph d" "s1 = (ph, f)" by (auto split: if_splits)
    with Cons.IH [of ph f] Cons(2,3) s1(2) show ?thesis by (auto simp: sleep_allowed_def Log_Slept)
  next
    case (Log_Spawn program args)
    with Cons(2) s1 obtain f' where "s1 = (Ph_First, f')" by (auto split: option.splits if_splits)
    with Cons.IH [of Ph_First f'] Cons(3) s1(2) show ?thesis by (simp add: Log_Spawn)
  qed (use Cons s1 in \<open>auto split: if_splits\<close>)
qed simp

text \<open>A writer's exit status 3 ends the invocation only as the first child's.\<close>

lemma status_three_is_first:
  assumes "\<not> run_observer (task_run t)"
  shows "sup_steps t (Ph_Start, None) es = Some (ph, f) \<Longrightarrow>
    (ph = Ph_Start \<longrightarrow> length (filter is_spawn es) = 0) \<and> (ph = Ph_First \<longrightarrow> length (filter is_spawn es) = 1)
    \<and> (\<forall>status. ph = Ph_Over (Ek_Code 3) (Some status) \<longrightarrow> length (filter is_spawn es) = 1)"
proof (induction es arbitrary: ph f rule: rev_induct)
  case (snoc e es)
  then obtain ph1 f1 where s: "sup_steps t (Ph_Start, None) es = Some (ph1, f1)" "sup_step t (ph1, f1) e = Some (ph, f)"
    by (auto simp: sup_steps_append Option.bind_eq_Some_conv)
  note IH = snoc.IH [OF s(1)]
  show ?case
  proof (cases e)
    case (Log_Spawn program args)
    with s(2) obtain path where "spawn_phase t ph1 path args = Some ph" by (auto split: option.splits if_splits)
    with IH Log_Spawn show ?thesis by (cases ph1) (auto split: if_splits)
  next
    case (Log_Ended exit status)
    with s(2) have "exit_phase t ph1 exit status = Some ph" by auto
    with IH Log_Ended assms show ?thesis
      by (cases ph1; cases status) (auto simp: carried_exit_def split: if_splits)
  qed (use s IH in \<open>auto split: if_splits\<close>)
qed simp

section \<open>The promises\<close>

text \<open>C9: Whatever the system does, an invocation returns; its log follows the protocol: the first child
  carries the requested operation, and every later one is a probe after a backoff or a plain reattach
  of the same session, without creating it, right after a probe found it alive; an ordinary exit, a
  clean close or a gone session ends it; every status file is removed; and the result is what the
  last child showed.\<close>

theorem supervisor_follows_protocol:
  assumes "episode_restarts_max (cfg_limits config) \<noteq> - 1"
  shows "case run_with_reconnect os config run op (w\<lparr>sw_log := []\<rparr>) of
      None \<Rightarrow> False
    | Some (r, w') \<Rightarrow> accepted (invocation_task config run op True) r (sw_log w')
        \<or> accepted (invocation_task config run op False) r (sw_log w')"
proof -
  obtain r w' drains where "run_with_reconnect os config run op (w\<lparr>sw_log := []\<rparr>) = Some (r, w')"
    "accepted (invocation_task config run op drains) r (sw_log w')"
    using run_with_reconnect_accepted [OF assms] by blast
  then show ?thesis by (cases drains) simp_all
qed

text \<open>A concrete invocation: the default limits, and a system on which every child succeeds at once.\<close>

definition sample_config :: sup_config where
  "sample_config = \<lparr>cfg_ssh_program = str_bytes ''ssh'', cfg_kitty_program = str_bytes ''kitty'',
     cfg_self_exe = str_bytes ''/usr/bin/eversh'', cfg_remote_eversh = str_bytes ''eversh'', cfg_kitty_listen_on = None,
     cfg_colorterm = [], cfg_local_host = str_bytes ''here'', cfg_link_status_root = Some (str_bytes ''/run/eversh''),
     cfg_udp_port_range = None, cfg_limits = default_eversh_limits\<rparr>"

definition sample_os :: sup_os where
  "sample_os = \<lparr>so_elapsed = (\<lambda>_. 1), so_spawn = (\<lambda>_ _ _. None),
     so_try_wait = (\<lambda>_. Inr (Some \<lparr>ws_code = Some 0, ws_signal = None\<rparr>)),
     so_wait = (\<lambda>_. Inr \<lparr>ws_code = Some 0, ws_signal = None\<rparr>),
     so_read_file = (\<lambda>_ _. None), so_make_dir = (\<lambda>_ _. None), so_create_new = (\<lambda>_ _. None),
     so_path_exists = (\<lambda>_ _. Inr False), so_terminal = (\<lambda>_. False), so_pid = 7, so_epoch_nanos = (\<lambda>n. n),
     so_hash = (\<lambda>n. n), so_read_pipe = (\<lambda>_. [])\<rparr>"

definition sample_run :: session_run where
  "sample_run = \<lparr>run_host = str_bytes ''there'', run_name = str_bytes ''main'', run_take_over = False,
     run_ssh_options = [], run_observer = False\<rparr>"

definition sample_world :: sup_world where
  "sample_world = \<lparr>sw_calls = 0, sw_now = 0, sw_sequence = 0, sw_log = []\<rparr>"

lemma sample_room: "episode_restarts_max (cfg_limits sample_config) \<noteq> - 1"
  by (simp add: sample_config_def default_eversh_limits_def)

theorem supervisor_follows_protocol_witness:
  "case run_with_reconnect sample_os sample_config sample_run (reattach_op sample_run) (sample_world\<lparr>sw_log := []\<rparr>) of
      None \<Rightarrow> False
    | Some (r, w') \<Rightarrow> accepted (invocation_task sample_config sample_run (reattach_op sample_run) True) r (sw_log w')
        \<or> accepted (invocation_task sample_config sample_run (reattach_op sample_run) False) r (sw_log w')"
  by (rule supervisor_follows_protocol [OF sample_room])

text \<open>C10: The number of children an invocation starts is bounded: one, and for each of at most one more
  episode than restarts allowed, two for every backoff of the base length that fits in the deadline,
  although a Busy answer is retried without limit on attempts.\<close>

theorem supervisor_children_bounded:
  assumes "episode_restarts_max (cfg_limits config) \<noteq> - 1"
  shows "case run_with_reconnect os config run op (w\<lparr>sw_log := []\<rparr>) of
      None \<Rightarrow> False
    | Some (r, w') \<Rightarrow>
        spawns w' \<le> 1 + 2 * episode_turns config * (unat (episode_restarts_max (cfg_limits config)) + 1)"
proof -
  obtain r w' where "run_with_reconnect os config run op (w\<lparr>sw_log := []\<rparr>) = Some (r, w')"
    using run_with_reconnect_accepted [OF assms] by blast
  with run_with_reconnect_spawns [OF assms this] show ?thesis by (simp add: spawns_def)
qed

text \<open>C39: The wait for the old association is decided once, by the first child: if its transport did not
  die after carrying the session, no sleep of the whole invocation is longer than a backoff, even
  after a reattached child did carry the session and died.\<close>

theorem drain_decided_by_first_child:
  assumes "episode_restarts_max (cfg_limits config) \<noteq> - 1"
  shows "case run_with_reconnect os config run op (w\<lparr>sw_log := []\<rparr>) of
      None \<Rightarrow> False
    | Some (r, w') \<Rightarrow>
        (if first_carried (sw_log w') then True else list_all (short_entry config) (sw_log w'))
        \<and> fst (reattach_verdict run attempt streak (Ss_Exited (Ek_Code 255) (Lo_TransportFailure True)) w')
            = Turn_Done Ro_RestartEpisode"
proof -
  obtain r w' drains where e: "run_with_reconnect os config run op (w\<lparr>sw_log := []\<rparr>) = Some (r, w')"
    and a: "accepted (invocation_task config run op drains) r (sw_log w')"
    using run_with_reconnect_accepted [OF assms] by blast
  from a obtain s where "sup_steps (invocation_task config run op drains) (Ph_Start, None) (sw_log w') = Some s"
    by (auto simp: accepted_def split: option.splits)
  from uncarried_sleeps_short [OF _ _ this] e show ?thesis
    by (simp add: reattach_verdict_def classify_status_spawn_def exit_codes)
qed

text \<open>C40: A writer's invocation returns the remote status 3 only when its first child exited with it: the
  status 3 of a reattached session's own program is taken for Busy, whatever its link status says.\<close>

theorem reattached_status_three_lost:
  assumes "episode_restarts_max (cfg_limits config) \<noteq> - 1"
  shows "(case run_with_reconnect os config (run\<lparr>run_observer := False\<rparr>) op (w\<lparr>sw_log := []\<rparr>) of
      Some (Inr (End_Remote code), w') \<Rightarrow> if code = 3 then spawns w' = 1 else True
    | _ \<Rightarrow> True)
    \<and> fst (reattach_verdict (run\<lparr>run_observer := False\<rparr>) attempt streak (Ss_Exited (Ek_Code 3) status) w)
        = Turn_Again attempt True (streak + 1)"
proof -
  obtain r w' drains where e: "run_with_reconnect os config (run\<lparr>run_observer := False\<rparr>) op (w\<lparr>sw_log := []\<rparr>) = Some (r, w')"
    and a: "accepted (invocation_task config (run\<lparr>run_observer := False\<rparr>) op drains) r (sw_log w')"
    using run_with_reconnect_accepted [OF assms] by blast
  have v: "fst (reattach_verdict (run\<lparr>run_observer := False\<rparr>) attempt streak (Ss_Exited (Ek_Code 3) status) w)
      = Turn_Again attempt True (streak + 1)"
    by (simp add: reattach_verdict_def classify_status_spawn_def exit_codes)
  show ?thesis
  proof (cases "r = Inr (End_Remote 3)")
    case True
    with a obtain status f where
      "sup_steps (invocation_task config (run\<lparr>run_observer := False\<rparr>) op drains) (Ph_Start, None) (sw_log w')
        = Some (Ph_Over (Ek_Code 3) (Some status), f)"
      by (auto simp: accepted_def split: option.splits sup_phase.splits prod.splits)
    from status_three_is_first [OF _ this] have "spawns w' = 1" by (simp add: spawns_def)
    with e True v show ?thesis by simp
  qed (use e v in \<open>auto split: sum.splits session_end.splits\<close>)
qed

theorem supervisor_children_bounded_witness:
  "case run_with_reconnect sample_os sample_config sample_run (reattach_op sample_run) (sample_world\<lparr>sw_log := []\<rparr>) of
      None \<Rightarrow> False
    | Some (r, w') \<Rightarrow> spawns w' \<le> 13433"
proof -
  have "episode_turns sample_config = 1679" "unat (episode_restarts_max (cfg_limits sample_config)) = 3"
    by (simp_all add: episode_turns_def base_sleep_def from_millis_def sample_config_def default_eversh_limits_def)
  with supervisor_children_bounded [OF sample_room, of sample_os sample_run "reattach_op sample_run" sample_world] show ?thesis
    by (simp split: option.splits prod.splits)
qed

theorem drain_decided_by_first_child_witness:
  "case run_with_reconnect sample_os sample_config sample_run (reattach_op sample_run) (sample_world\<lparr>sw_log := []\<rparr>) of
      None \<Rightarrow> False
    | Some (r, w') \<Rightarrow>
        (if first_carried (sw_log w') then True else list_all (short_entry sample_config) (sw_log w'))
        \<and> fst (reattach_verdict sample_run 1 0 (Ss_Exited (Ek_Code 255) (Lo_TransportFailure True)) w')
            = Turn_Done Ro_RestartEpisode"
  by (rule drain_decided_by_first_child [OF sample_room])

theorem reattached_status_three_lost_witness:
  "(case run_with_reconnect sample_os sample_config (sample_run\<lparr>run_observer := False\<rparr>) (reattach_op sample_run)
      (sample_world\<lparr>sw_log := []\<rparr>) of
      Some (Inr (End_Remote code), w') \<Rightarrow> if code = 3 then spawns w' = 1 else True
    | _ \<Rightarrow> True)
    \<and> fst (reattach_verdict (sample_run\<lparr>run_observer := False\<rparr>) 1 0 (Ss_Exited (Ek_Code 3) Lo_CleanClose) sample_world)
        = Turn_Again 1 True (0 + 1)"
  by (rule reattached_status_three_lost [OF sample_room])

end
