(* ===== verification/Eversh_Operations.thy ===== *)
theory Eversh_Operations
  imports Eversh_Supervisor_Count
begin

text \<open>
  The rest of \<open>crates/eversh/src/supervisor.rs\<close>: the everudp child and when its failure may fall
  back to everssh, captured listings, one-shot remote commands, raw \<open>ssh\<close>, and \<open>resume_all\<close>.
\<close>

section \<open>The everudp child\<close>

definition UDP_UNREACHABLE_EXIT :: u8 where "UDP_UNREACHABLE_EXIT = 69"

record everudp_outcome =
  eo_exit :: exit_kind
  eo_fallback_safe :: bool

definition allows_auto_fallback :: "everudp_outcome \<Rightarrow> bool" where
  "allows_auto_fallback r \<longleftrightarrow> eo_exit r = Ek_Code UDP_UNREACHABLE_EXIT \<and> eo_fallback_safe r"

text \<open>A record that shows the association was committed.\<close>

fun journal_commits :: "journal_record \<Rightarrow> bool" where
  "journal_commits (Jr_Transition s) = (s \<noteq> Ls_Connecting)"
| "journal_commits (Jr_Heartbeat elapsed n) = True"
| "journal_commits (Jr_Terminal cause carried n) = carried"

fun classify_journal_lines :: "bool \<Rightarrow> bool \<Rightarrow> bytes list \<Rightarrow> bool option" where
  "classify_journal_lines saw_connecting committed [] = (if saw_connecting then Some (\<not> committed) else None)"
| "classify_journal_lines saw_connecting committed (l # ls) =
     (case parse_journal_line l of
        None \<Rightarrow> None
      | Some r \<Rightarrow>
          classify_journal_lines (saw_connecting \<or> r = Jr_Transition Ls_Connecting) (committed \<or> journal_commits r) ls)"

text \<open>The value is \<open>precommit_only\<close>.\<close>

definition classify_everudp_status :: "bytes \<Rightarrow> bool option" where
  "classify_everudp_status content = classify_journal_lines False False (str_lines content)"

definition everudp_session ::
  "sup_os \<Rightarrow> sup_config \<Rightarrow> bytes \<Rightarrow> everudp_op \<Rightarrow> bytes list \<Rightarrow> sup_world \<Rightarrow> (eversh_error + everudp_outcome) \<times> sup_world" where
  "everudp_session os config host operation ssh_options w =
     then_do (eversh_limits_validate (cfg_limits config), w) (\<lambda>_ w.
     with_status os (allocate_everudp_status_path os config w) (\<lambda>path w.
     then_do (everudp_launch_args (cfg_self_exe config) (cfg_remote_eversh config) host operation ssh_options (Some path)
       (cfg_udp_port_range config) (cfg_limits config), w) (\<lambda>args w.
     then_do (run_status os (cfg_self_exe config) args w) (\<lambda>exit w.
     let (content, w) = read_to_string os path w in
     (Inr \<lparr>eo_exit = exit, eo_fallback_safe = (Option.bind content classify_everudp_status = Some True)\<rparr>, w)))))"

section \<open>Captured output\<close>

record captured =
  cap_exit :: exit_kind
  cap_stdout :: bytes

text \<open>The read loop: the output, or none when it passes the cap, or the error of a read. An empty
  read is the end; what \<open>so_read_pipe\<close> lists ends there too.\<close>

fun collect_output :: "usize \<Rightarrow> bytes \<Rightarrow> pipe_answer list \<Rightarrow> nat + bytes option" where
  "collect_output cap collected [] = Inr (Some collected)"
| "collect_output cap collected (Pa_Data chunk # answers) =
     (if chunk = [] then Inr (Some collected)
      else if cap < length collected + length chunk then Inr None
      else collect_output cap (collected @ chunk) answers)"
| "collect_output cap collected (Pa_Interrupted # answers) = collect_output cap collected answers"
| "collect_output cap collected (Pa_Error e # answers) = Inl e"

definition spawn_captured :: "sup_os \<Rightarrow> sup_config \<Rightarrow> bytes list \<Rightarrow> sup_world \<Rightarrow> (eversh_error + captured) \<times> sup_world" where
  "spawn_captured os config args w =
     then_do (spawn_child os (cfg_ssh_program config) args w) (\<lambda>_ w.
     case collect_output (list_output_max (cfg_limits config)) [] (so_read_pipe os (sw_calls w)) of
       Inl e \<Rightarrow> (Inl (Ee_Io e), kill_child os (sup_tick os w))
     | Inr None \<Rightarrow> (Inl Ee_ListOutputTooLarge, kill_child os (sup_tick os w))
     | Inr (Some stdout) \<Rightarrow>
         then_do (wait_child os (sup_tick os w)) (\<lambda>st w.
         (Inr \<lparr>cap_exit = classify_exit st, cap_stdout = stdout\<rparr>, log_add (Log_Ended (classify_exit st) None) w)))"

definition list_sessions ::
  "sup_os \<Rightarrow> sup_config \<Rightarrow> bytes \<Rightarrow> bytes option \<Rightarrow> bool \<Rightarrow> bytes list \<Rightarrow> sup_world \<Rightarrow> (eversh_error + captured) \<times> sup_world" where
  "list_sessions os config host local_host json ssh_options w =
     then_do (eversh_limits_validate (cfg_limits config), w) (\<lambda>_ w.
     then_do (operation_args config ssh_options host (Rop_List json (map_option origin_label local_host)) False None, w) (\<lambda>args w.
     spawn_captured os config args w))"

definition simple_remote ::
  "sup_os \<Rightarrow> sup_config \<Rightarrow> bytes \<Rightarrow> remote_op \<Rightarrow> bytes list \<Rightarrow> sup_world \<Rightarrow> (eversh_error + exit_kind) \<times> sup_world" where
  "simple_remote os config host op ssh_options w =
     then_do (eversh_limits_validate (cfg_limits config), w) (\<lambda>_ w.
     then_do (operation_args config ssh_options host op False None, w) (\<lambda>args w.
     spawn_quiet os config args w))"

section \<open>Raw ssh\<close>

definition raw_command_words :: "bytes list \<Rightarrow> bool \<Rightarrow> eversh_error + bytes list" where
  "raw_command_words post_command shell =
     (if shell then
        if post_command = [] then Inl Ee_ShellCommandMissing
        else Inr [str_bytes ''/bin/sh'', str_bytes ''-c'', join_words [0x20] post_command]
      else Inr post_command)"

definition raw_remote_command :: "sup_config \<Rightarrow> bytes list \<Rightarrow> eversh_error + bytes list" where
  "raw_remote_command config command_words =
     (if command_words = [] then Inr []
      else
        try_bind (encode_remote_request \<lparr>rr_version = REQUEST_VERSION, rr_args = command_words\<rparr> (cfg_limits config)) (\<lambda>wire.
        Inr [cfg_remote_eversh config, EVERPTY_ROLE, EVERPTY_ROLE_VERSION, str_bytes ''exec'', base64url_encode wire]))"

definition raw_ssh ::
  "sup_os \<Rightarrow> sup_config \<Rightarrow> bytes \<Rightarrow> bytes list \<Rightarrow> bytes list \<Rightarrow> bool \<Rightarrow> sup_world \<Rightarrow> (eversh_error + session_end) \<times> sup_world" where
  "raw_ssh os config host pre_options post_command shell w =
     then_do
       (try_bind (eversh_limits_validate (cfg_limits config)) (\<lambda>_.
        try_bind (proxy_for config (audited_subset pre_options) None) (\<lambda>proxy.
        try_bind (raw_command_words post_command shell) (\<lambda>command_words.
        try_bind (raw_remote_command config command_words) (\<lambda>remote.
        raw_ssh_args proxy pre_options host remote)))), w) (\<lambda>args w.
     then_do (spawn_inherited os config args w) (\<lambda>exit w.
     (Inr (case exit of Ek_Code code \<Rightarrow> End_Remote code | Ek_Signaled s \<Rightarrow> End_SshSignaled s), w)))"

section \<open>Resuming every session\<close>

fun listed_names :: "eversh_limits \<Rightarrow> bytes list \<Rightarrow> eversh_error + bytes list" where
  "listed_names limits [] = Inr []"
| "listed_names limits (l # ls) =
     (let session = hd (split_byte 0x09 l) in
      if \<not> valid_session_name session limits then Inl Ee_ListOutputInvalid
      else try_bind (listed_names limits ls) (\<lambda>names. Inr (session # names)))"

definition session_names ::
  "sup_os \<Rightarrow> sup_config \<Rightarrow> bytes \<Rightarrow> bytes \<Rightarrow> bytes list \<Rightarrow> sup_world \<Rightarrow> (eversh_error + bytes list) \<times> sup_world" where
  "session_names os config host local_host ssh_options w =
     then_do (eversh_limits_validate (cfg_limits config), w) (\<lambda>_ w.
     then_do (operation_args config ssh_options host (Rop_List False (Some (origin_label local_host))) False None, w) (\<lambda>args w.
     then_do (spawn_captured os config args w) (\<lambda>c w.
     (case cap_exit c of
        Ek_Code code \<Rightarrow>
          if code = 0 then
            if \<not> utf8_valid (cap_stdout c) then Inl Ee_ListOutputInvalid
            else listed_names (cfg_limits config) (str_lines (cap_stdout c))
          else Inl (Ee_RemoteCommandFailed code)
      | Ek_Signaled s \<Rightarrow> Inl (Ee_RemoteCommandSignaled s), w))))"

datatype resume_failure = Rf_Spawn nat | Rf_Exit u8 | Rf_Signaled int

record resume_report =
  rp_launched :: "bytes list"
  rp_failures :: "(bytes \<times> resume_failure) list"
  rp_skipped :: "bytes list"

text \<open>A launch that could not be started or waited for keeps the kind of its error.\<close>

definition io_kind :: "eversh_error \<Rightarrow> nat" where
  "io_kind e = (case e of Ee_Io n \<Rightarrow> n | _ \<Rightarrow> 0)"

definition resume_one ::
  "bytes \<Rightarrow> (eversh_error + exit_kind) \<times> sup_world \<Rightarrow> resume_report \<Rightarrow> resume_report \<times> sup_world" where
  "resume_one session launched rep =
     (case launched of
        (Inr (Ek_Code code), w) \<Rightarrow>
          if code = 0 then (rep\<lparr>rp_launched := rp_launched rep @ [session]\<rparr>, sup_notify (Nt_ResumeLaunched session) w)
          else (rep\<lparr>rp_failures := rp_failures rep @ [(session, Rf_Exit code)]\<rparr>, w)
      | (Inr (Ek_Signaled s), w) \<Rightarrow> (rep\<lparr>rp_failures := rp_failures rep @ [(session, Rf_Signaled s)]\<rparr>, w)
      | (Inl e, w) \<Rightarrow> (rep\<lparr>rp_failures := rp_failures rep @ [(session, Rf_Spawn (io_kind e))]\<rparr>, w))"

fun resume_loop ::
  "sup_os \<Rightarrow> sup_config \<Rightarrow> bytes \<Rightarrow> bytes \<Rightarrow> bytes \<Rightarrow> bytes list \<Rightarrow> nat \<Rightarrow> bytes list \<Rightarrow> resume_report \<Rightarrow> sup_world
   \<Rightarrow> (eversh_error + resume_report) \<times> sup_world" where
  "resume_loop os config self_exe host transport ssh_options index [] rep w = (Inr rep, w)"
| "resume_loop os config self_exe host transport ssh_options index (session # names) rep w =
     (if resume_sessions_max (cfg_limits config) \<le> index then
        resume_loop os config self_exe host transport ssh_options (Suc index) names
          (rep\<lparr>rp_skipped := rp_skipped rep @ [session]\<rparr>) (sup_notify (Nt_ResumeSkipped session) w)
      else
        then_do (kitty_launch_args (cfg_kitty_listen_on config) self_exe host session transport ssh_options
          (cfg_udp_port_range config) (cfg_limits config), w) (\<lambda>args w.
        let (rep, w) = resume_one session (run_status os (cfg_kitty_program config) args w) rep in
        resume_loop os config self_exe host transport ssh_options (Suc index) names rep w))"

definition resume_all ::
  "sup_os \<Rightarrow> sup_config \<Rightarrow> bytes \<Rightarrow> bytes \<Rightarrow> bytes \<Rightarrow> bytes list \<Rightarrow> sup_world \<Rightarrow> (eversh_error + resume_report) \<times> sup_world" where
  "resume_all os config host local_host transport ssh_options w =
     then_do (try_bind (eversh_limits_validate (cfg_limits config)) (\<lambda>_. validate_self_exe (cfg_self_exe config)), w) (\<lambda>self_exe w.
     then_do (session_names os config host local_host ssh_options w) (\<lambda>names w.
     resume_loop os config self_exe host transport ssh_options 0 names
       \<lparr>rp_launched = [], rp_failures = [], rp_skipped = []\<rparr> w))"

section \<open>When a failure may fall back\<close>

lemma classify_lines_exact:
  "classify_journal_lines saw committed ls =
     (let rs = map parse_journal_line ls in
      if None \<in> set rs \<or> (\<not> saw \<and> Some (Jr_Transition Ls_Connecting) \<notin> set rs) then None
      else Some (\<not> committed \<and> set rs \<subseteq> insert (Some (Jr_Transition Ls_Connecting)) {Some (Jr_Terminal c False n) | c n. True}))"
proof (induction ls arbitrary: saw committed)
  case (Cons l ls)
  show ?case
  proof (cases "parse_journal_line l")
    case (Some r)
    then show ?thesis
      by (cases r) (auto simp: Cons.IH Let_def)
  qed simp
qed (simp add: Let_def)

text \<open>C38: The supervisor concludes that nothing was committed exactly from a status file whose every
  line parses, which has the line of the connection attempt, and whose other lines are all
  terminal records that say that nothing was carried; one line more of any kind (connected, carrying,
  migrating, a disconnected, reconnecting, recovering or gapped link, a heartbeat, a terminal record that
  carried) and it concludes the opposite; without the connection attempt, or with a line that does not
  parse, it concludes nothing. The journal that a client wrote is read as its records.\<close>

theorem fallback_only_before_commit:
  assumes "list_all journal_ok rs"
  shows "classify_everudp_status (journal_text rs) =
      (if Jr_Transition Ls_Connecting \<in> set rs
       then Some (set rs \<subseteq> insert (Jr_Transition Ls_Connecting) {Jr_Terminal c False n | c n. True}) else None)
    \<and> classify_everudp_status content =
      (let lines = map parse_journal_line (str_lines content) in
       if None \<in> set lines \<or> Some (Jr_Transition Ls_Connecting) \<notin> set lines then None
       else Some (set lines \<subseteq> insert (Some (Jr_Transition Ls_Connecting)) {Some (Jr_Terminal c False n) | c n. True}))"
proof -
  have "map parse_journal_line (str_lines (journal_text rs)) = map Some rs"
    using assms by (simp add: journal_text_lines parse_journal_line_exact list_all_iff)
  moreover have "Some ` set rs \<subseteq> insert (Some (Jr_Transition Ls_Connecting)) {Some (Jr_Terminal c False n) | c n. True}
    \<longleftrightarrow> set rs \<subseteq> insert (Jr_Transition Ls_Connecting) {Jr_Terminal c False n | c n. True}"
    by auto
  ultimately show ?thesis
    by (auto simp: classify_everudp_status_def classify_lines_exact Let_def)
qed

theorem fallback_only_before_commit_witness:
  "classify_everudp_status (journal_text [Jr_Transition Ls_Connecting, Jr_Terminal Jc_Transport False 0]) = Some True
   \<and> classify_everudp_status (journal_text [Jr_Transition Ls_Connecting, Jr_Transition Ls_Connected]) = Some False"
  using fallback_only_before_commit [of "[Jr_Transition Ls_Connecting, Jr_Terminal Jc_Transport False 0]" "[]"]
    fallback_only_before_commit [of "[Jr_Transition Ls_Connecting, Jr_Transition Ls_Connected]" "[]"]
  by simp

section \<open>Captured output and reports\<close>

lemma collect_output_bound:
  "collect_output cap collected answers = Inr (Some out) \<Longrightarrow> length collected \<le> cap \<Longrightarrow> length out \<le> cap"
  by (induction cap collected answers rule: collect_output.induct) (auto split: if_splits)

lemma captured_bounded:
  "spawn_captured os config args w = (Inr c, w') \<Longrightarrow> length (cap_stdout c) \<le> list_output_max (cfg_limits config)"
  by (auto simp: spawn_captured_def then_do_def dest: collect_output_bound split: prod.splits sum.splits option.splits)

lemma run_status_spawns: "run_status os program args w = (r, v) \<Longrightarrow> spawns v \<le> spawns w + 1"
  by (auto simp: run_status_def then_do_def dest!: spawn_child_spawns spawns_dests split: prod.splits sum.splits)

lemma resume_one_report:
  assumes "resume_one s l rep = (rep', w')"
  shows "mset (rp_launched rep') + mset (map fst (rp_failures rep')) = add_mset s (mset (rp_launched rep) + mset (map fst (rp_failures rep)))
    \<and> rp_skipped rep' = rp_skipped rep \<and> spawns w' = spawns (snd l)"
  using assms by (auto simp: resume_one_def split: prod.splits sum.splits exit_kind.splits if_splits)

lemma resume_loop_report:
  "resume_loop os config exe host transport opts i names rep w = (Inr rep', w') \<Longrightarrow>
   mset (rp_launched rep') + mset (map fst (rp_failures rep')) =
     mset (rp_launched rep) + mset (map fst (rp_failures rep)) + mset (take (resume_sessions_max (cfg_limits config) - i) names)
   \<and> rp_skipped rep' = rp_skipped rep @ drop (resume_sessions_max (cfg_limits config) - i) names
   \<and> spawns w' \<le> spawns w + length (take (resume_sessions_max (cfg_limits config) - i) names)"
proof (induction names arbitrary: i rep w)
  case (Cons s names)
  let ?limit = "resume_sessions_max (cfg_limits config)"
  show ?case
  proof (cases "?limit \<le> i")
    case True
    with Cons.prems have "resume_loop os config exe host transport opts (Suc i) names (rep\<lparr>rp_skipped := rp_skipped rep @ [s]\<rparr>)
        (sup_notify (Nt_ResumeSkipped s) w) = (Inr rep', w')" by simp
    from Cons.IH [OF this] True show ?thesis by simp
  next
    case False
    then obtain k where k: "?limit - i = Suc k" "?limit - Suc i = k" by (cases "?limit - i") auto
    from Cons.prems False obtain args where
      "kitty_launch_args (cfg_kitty_listen_on config) exe host s transport opts (cfg_udp_port_range config) (cfg_limits config) = Inr args"
      by (cases "kitty_launch_args (cfg_kitty_listen_on config) exe host s transport opts (cfg_udp_port_range config) (cfg_limits config)") auto
    moreover obtain x w1 where x: "run_status os (cfg_kitty_program config) args w = (x, w1)" by fastforce
    moreover obtain rep1 w2 where r: "resume_one s (x, w1) rep = (rep1, w2)" by fastforce
    ultimately have "resume_loop os config exe host transport opts (Suc i) names rep1 w2 = (Inr rep', w')"
      using Cons.prems False by simp
    from Cons.IH [OF this] resume_one_report [OF r] run_status_spawns [OF x] show ?thesis
      by (auto simp: k)
  qed
qed simp

text \<open>\<open>resume_all\<close> accounts for every session the remote listed: each of the first ones, up to the
  limit, is either launched or a reported failure, the others are reported as skipped in order, and
  no more tabs than the limit are started.\<close>

theorem resume_accounts_for_every_session:
  "case session_names os config host local_host opts w of
     (Inl e, w1) \<Rightarrow> True
   | (Inr names, w1) \<Rightarrow>
      (case resume_all os config host local_host transport opts w of
         (Inl e, w2) \<Rightarrow> True
       | (Inr rep, w2) \<Rightarrow>
           mset (rp_launched rep) + mset (map fst (rp_failures rep)) = mset (take (resume_sessions_max (cfg_limits config)) names)
           \<and> rp_skipped rep = drop (resume_sessions_max (cfg_limits config)) names
           \<and> spawns w2 \<le> spawns w1 + resume_sessions_max (cfg_limits config))"
proof -
  obtain n w1 where n: "session_names os config host local_host opts w = (n, w1)" by fastforce
  show ?thesis
  proof (cases "\<exists>names rep w2. n = Inr names \<and> resume_all os config host local_host transport opts w = (Inr rep, w2)")
    case True
    then obtain names rep w2 where r: "n = Inr names" "resume_all os config host local_host transport opts w = (Inr rep, w2)" by auto
    from r n obtain exe where "resume_loop os config exe host transport opts 0 names
        \<lparr>rp_launched = [], rp_failures = [], rp_skipped = []\<rparr> w1 = (Inr rep, w2)"
      by (auto simp: resume_all_def then_do_def split: sum.splits)
    from resume_loop_report [OF this] show ?thesis using r n by auto
  next
    case False
    then show ?thesis using n by (auto split: sum.splits prod.splits)
  qed
qed

end
