(* ===== verification/Spec2Isabelle.thy ===== *)
theory Spec2Isabelle
  imports Pty_Lifecycle Pty_Client Pty_State Pty_Child Pty_Broker_Spec
    Ssh_Resume Ssh_Association Ssh_Shutdown
    Udp_Wire Udp_Policies Udp_Ring Udp_Replay Udp_Slabs Udp_Handshake Udp_Admission Udp_Gateway Udp_Client
    Udp_Association Udp_Link Udp_Client_Link Udp_Gateway_Link Udp_Session Udp_Datagram_Delivery
    Ssh_Policy Ssh_Status Udp_Status Eversh_Remote Eversh_Base64 Eversh_Command Eversh_Operations
begin

text \<open>
  A verification development for the eversh workspace (Rust, \<open>crates/\<close>).

  \<^bold>\<open>The program.\<close> The workspace keeps terminal sessions alive across lost connections. \<open>everpty\<close> is
  a broker process that owns one child on a pseudo terminal and serves clients (one writer, some
  observers, short-lived control connections) over a local socket. \<open>everssh\<close> carries an SSH byte
  stream over QUIC and resumes it after the connection is lost. \<open>everudp\<close> does the same for the
  broker's records, with several peers per gateway. What makes them correct is the same in all
  three: bounded queues, self-delimiting frames, sequence numbers with replay, and state machines
  in which the first terminal cause is final. The development models these parts; the async
  transports, system calls and process control around them are its environment.

  \<^bold>\<open>The theories, and the code they model.\<close>

  \<^item> \<open>Ever_Prelude\<close>: words of the wire integers, \<open>usize\<close> as \<open>nat\<close>, checked arithmetic, big-endian byte
    strings, UTF-8 validation, slices and the error monad.
  \<^item> \<open>Interfaces\<close>: the locales \<open>exact_codec\<close>, \<open>framing\<close>, \<open>byte_queue\<close>, \<open>event_machine\<close>, \<open>simulation\<close> and
    \<open>reliable_link\<close>, with their clients' lemmas.
  \<^item> \<open>Pty_Frame\<close>: \<open>everpty/src/frame.rs\<close>, \<open>limits.rs\<close>. One \<open>frame\<close> constructor per variant of \<open>Frame\<close>;
    \<open>encode_frame\<close> and \<open>decode_frame\<close> arm by arm.
  \<^item> \<open>Pty_Lifecycle\<close>: \<open>everpty/src/lifecycle.rs\<close>. The record \<open>broker_state\<close> and its six transitions.
  \<^item> \<open>Pty_Client\<close>: \<open>everpty/src/client.rs\<close> (\<open>FrameReader\<close>, \<open>OutQueue\<close>, \<open>InputQueue\<close>, \<open>ClientConn\<close>) and the
    read loop \<open>Broker::consume_chunk\<close> of \<open>broker.rs\<close>.
  \<^item> \<open>Pty_State\<close>: \<open>everpty/src/state.rs\<close>. The record \<open>runtime\<close> and the reducer \<open>reduce\<close> with all its
    handlers; an event gives the new runtime and the ordered list of effects.
  \<^item> \<open>Pty_Child\<close>: \<open>everpty/src/child.rs\<close>, \<open>error.rs\<close>. The operating system as the record \<open>broker_os\<close> of
    unknown answers, spawn validation, the parent's side of the fork, identity-checked signals and
    reaps.
  \<^item> \<open>Pty_Broker\<close>, \<open>Pty_Broker_Loop\<close>, \<open>Pty_Broker_Run\<close>: \<open>everpty/src/broker.rs\<close>. The record \<open>broker\<close> with the
    connection table and the effects; the handlers of the event loop; construction, one poll turn
    and \<open>serve\<close>.
  \<^item> \<open>Pty_Broker_Steps\<close>, \<open>Pty_Broker_Settled\<close>, \<open>Pty_Broker_Fanout\<close>, \<open>Pty_Broker_Table\<close>, \<open>Pty_Broker_Reach\<close>,
    \<open>Pty_Broker_Spec\<close>: the broker as a state machine of primitive changes \<open>bstep\<close>, its invariants,
    and the promises over every history of calls.
  \<^item> \<open>Ssh_Resume\<close>: \<open>everssh/src/resume.rs\<close> up to \<open>ResumeReceiver\<close>: frame codec, incremental decoder,
    replay queue, receiver.
  \<^item> \<open>Ssh_Association\<close>: the rest of \<open>resume.rs\<close>: configuration, \<open>AssociationCore\<close>, and \<open>run_connection\<close>
    as a transition per turn of its \<open>select!\<close> loop.
  \<^item> \<open>Ssh_Shutdown\<close>: \<open>everssh/src/shutdown.rs\<close>. Every section under the mutex is an atomic action.
  \<^item> \<open>Udp_Wire\<close>: \<open>everudp/src/wire.rs\<close>, \<open>limits.rs\<close>. Records, datagrams, acknowledgement, gap and
    resize payloads, the stream layout.
  \<^item> \<open>Udp_Ring\<close>: \<open>everudp/src/queues.rs\<close>, \<open>ReplayRing\<close> over its two circular buffers, and
    \<open>DeliveryGate\<close>.
  \<^item> \<open>Ever_Slots\<close>: fixed tables of slots, shared by the gateway's components and the broker.
  \<^item> \<open>Udp_Replay\<close>, \<open>Udp_Slabs\<close>: the rest of \<open>queues.rs\<close>: \<open>OutputReplay\<close>, \<open>ObserverReplay\<close> and
    \<open>GatewayReplaySlabs\<close>.
  \<^item> \<open>Udp_Handshake\<close>, \<open>Udp_Admission\<close>, \<open>Udp_Gateway\<close>: \<open>everudp/src/handshake.rs\<close>, \<open>admission.rs\<close>,
    \<open>gateway.rs\<close>: hellos, invitations, the gateway's life cycle and control requests.
  \<^item> \<open>Udp_Client\<close>, \<open>Udp_Association\<close>: \<open>everudp/src/client.rs\<close>, \<open>association.rs\<close>: the two ends' state that
    outlives connections.
  \<^item> \<open>Udp_Link\<close>, \<open>Udp_Client_Link\<close>, \<open>Udp_Gateway_Link\<close>: \<open>everudp/src/actor.rs\<close>, \<open>client_link.rs\<close>: the
    record reader over arbitrary pieces of a stream, and the two ends of one connection.
  \<^item> \<open>Udp_Policies\<close>: \<open>everudp/src/writer_sizes.rs\<close>, \<open>ack_hold.rs\<close>: whose terminal size the PTY has, and when
    an acknowledgement is held back.
  \<^item> \<open>Udp_Session\<close>: a client and its gateway composed over broken and replaced connections, with the
    gateway runner's handling of an association (\<open>everudp/src/gateway_runner.rs\<close>): events, operations
    that the PTY takes later, leases that end, writer sizes, and what an association leaves behind.

  \<^item> \<open>Udp_Datagram\<close>, \<open>Udp_Datagram_Receive\<close>, \<open>Udp_Datagram_Transmit\<close>, \<open>Udp_Datagram_Window\<close>:
    \<open>everudp/src/reliable_datagram.rs\<close>: frames, the receive window seen as a finite map, the transmit
    window with its acknowledgements and retransmission schedule, the acknowledgement scheduler.
  \<^item> \<open>Udp_Datagram_Retire\<close>, \<open>Udp_Datagram_Session\<close>, \<open>Udp_Datagram_Delivery\<close>: what acknowledgements retire,
    the due scan, and the two windows over a network that keeps every message and delivers any of them.

  \<^item> \<open>Ever_Text\<close>: the string operations of the standard library that the parsers below use.
  \<^item> \<open>Ssh_Policy\<close>: \<open>everssh/src/ssh_policy.rs\<close>, \<open>port_range.rs\<close>, \<open>limits.rs\<close>: what an ssh invocation may
    contain, the remote command it sends, and the check of OpenSSH's effective configuration.
  \<^item> \<open>Ssh_Status\<close>, \<open>Udp_Status\<close>: \<open>everssh/src/link_status.rs\<close>, \<open>everudp/src/status.rs\<close>: the line grammars and
    writers of the two status files the supervisor reads.
  \<^item> \<open>Eversh_Remote\<close>, \<open>Eversh_Base64\<close>: \<open>eversh/src/remote.rs\<close>, \<open>limits.rs\<close>, \<open>error.rs\<close>: the requests carried
    in one base64url word, and that the coding is exact.
  \<^item> \<open>Eversh_Command\<close>: \<open>eversh/src/command.rs\<close>, \<open>role.rs\<close>: the command lines eversh builds and the role
    grammar that reads them on the other side.

  \<^item> \<open>Eversh_Supervisor\<close>, \<open>Eversh_Operations\<close>: \<open>eversh/src/supervisor.rs\<close>: the operating system as the
    record \<open>sup_os\<close> of answers, the world with its clock and log; bounded waits, the link-status
    file, probes and reattaches, episodes; captured lists, raw ssh, \<open>resume_all\<close>.
  \<^item> \<open>Eversh_Supervisor_Spec\<close>, \<open>Eversh_Supervisor_Count\<close>: the supervisor's protocol over its log, that
    every run returns and follows it, and how many children a run can start.

  \<^bold>\<open>How the parts interact.\<close> In the broker the bytes of a connection go through \<open>consume_chunk\<close>
  (\<open>Pty_Client\<close>) to \<open>decode_frame\<close> (\<open>Pty_Frame\<close>); a decoded frame is an event of \<open>reduce\<close> (\<open>Pty_State\<close>),
  which consults the transitions of \<open>Pty_Lifecycle\<close>; the broker (\<open>Pty_Broker\<close>) carries out its effects
  on the queues of \<open>Pty_Client\<close>, the child of \<open>Pty_Child\<close> and the PTY, and may lend the PTY to one
  everudp gateway process by a lease. An everssh connection reads local bytes into the replay queue, sends what the queue
  encodes, feeds received bytes to the decoder and the decoded frames to the receiver
  (\<open>Ssh_Association\<close> over \<open>Ssh_Resume\<close>); the core outlives its connections. An everudp gateway keeps a
  replay ring and an output epoch per peer (\<open>Udp_Slabs\<close> over \<open>Udp_Replay\<close> over \<open>Udp_Ring\<close>), whose bytes
  are records of \<open>Udp_Wire\<close>.

  \<^bold>\<open>What the lemmas show.\<close>

  \<^item> Codecs: every decoder accepts exactly the encodings of the valid values (\<open>exact_codec\<close>, \<open>framing\<close>);
    a proper prefix of a frame is truncated, never malformed.
  \<^item> Chunking: the two incremental readers give the same frames, errors and state however the byte
    stream is cut, and their memory is bounded.
  \<^item> Queues: the broker's queues are bounded exact FIFOs (\<open>byte_queue\<close>); the replay ring refines an
    abstract bounded queue (\<open>simulation\<close>), with \<open>ring_repr\<close> as the relation.
  \<^item> Exactly once: sender and receiver of both protocols are interpretations of \<open>reliable_link\<close>,
    whose link may lose, reorder and duplicate anything it carried. Safety: what was delivered is a
    prefix of what was accepted. Liveness: from every reachable state the pending frames, sent
    again, can deliver everything and empty the sender.
  \<^item> State machines: invariants and latches over all event sequences (\<open>event_machine\<close>); every step of
    \<open>reduce\<close> has one of the shapes of \<open>broker_step\<close>, from which input authority is read off.
  \<^item> Broker: every operation is a sequence of primitive changes (\<open>X_steps\<close>, \<open>X_runs\<close>), so memory bounds, the
    orderly end, the kill phases and the lease hold over every history of calls and every
    answer of the system, and a finalized broker keeps its exit; effects nest at most two levels deep.
  \<^item> Supervisor: every run's log is accepted by the protocol \<open>sup_step\<close>; retries only ever reattach the same
    session, after a live probe; deadline and restart cap bound the children.
  \<^item> Command lines: what ssh's percent expansion, the local shell, ssh and the remote shell make of the
    words is what was meant, an SSH option with a percent token apart (a finding).
  \<^item> End to end: what a client's user typed reaches the PTY once and in order across reconnects; the sizes
    that are processed without it are exactly those of a non-owner or that the PTY has already
    (\<open>sizes_follow_the_typist\<close>: the size belongs to whoever typed last or took over).
  \<^item> Status journal: the file is the records written, heartbeats a minute apart, also when appends fail.
  \<^item> Gateway: peers do not disturb each other, and the storage never changes its size.

  \<^bold>\<open>Representation.\<close> Wire integers keep their width (\<open>u8\<close> to \<open>u64\<close> words); \<open>usize\<close> is \<open>nat\<close>, and where the
  source uses checked \<open>usize\<close> arithmetic the model checks against \<open>2 ^ 64\<close>. Strings and byte arrays are
  byte lists. Instants and durations are nanoseconds. A fallible function returns a sum whose left side is
  the crate's error; an operation that changes its state before it fails returns the state beside
  the sum. Loops are total functions with a measure. Fuel appears in one place: the recursion of
  \<open>apply_effects\<close> is cut at two levels, and \<open>apply_effects_terminates\<close> shows that no more is needed.
  A system call of the broker is a function of a counter that grows with every call (\<open>sys_call\<close>), a
  loop over a descriptor's answers takes the finite list of them; the calls that matter to safety
  are kept in a journal. Random fills, the SHA-256 digest and the transport's answers are arguments. The circular buffers are
  lists updated in place through \<open>rotate\<close>. Allocation is a predicate \<open>alloc\<close> on the requested size, the
  size of a slot in memory is the parameter \<open>slot_size\<close>; the writers that \<open>flush_with\<close> and \<open>drain_with\<close>
  take as closures are function parameters, as in the source.

  \<^bold>\<open>Not modelled.\<close> QUIC, TLS and the async runtime (third-party or standard I/O), system calls and
  terminal handling, tracing and measurement tools, \<open>Debug\<close>, \<open>Display\<close> and snapshot accessors, and the
  zeroing done by \<open>Drop\<close>. Poisoned mutexes are recovered by the source and do not appear. Of a spawn
  the part that runs in the forked child, of everudp's links the datagram and acknowledgement-hold features
  that are off by default (the windows of the one and the hold of the other are modelled by
  themselves). OpenSSH's percent expansion is stated as its manual documents it, the tokens and their
  values a parameter. Not modelled either, because they are parsing or file-system state at the edge of the
  crates: session registries (\<open>everpty/src/session.rs\<close>), request and bootstrap text and the reconnect timing
  of everudp, everssh's bootstrap and association registry, and the binaries' argument parsing.
\<close>

end
